(* ===== verification/FR_Prelude.thy ===== *)
theory FR_Prelude
  imports Main "HOL-Library.Word" "HOL-Library.Monad_Syntax"
begin

text \<open>
  Shared vocabulary of the development: the machine types of the ARM Cortex-M3 port
  (\<^verbatim>\<open>portmacro.h\<close>, \<^verbatim>\<open>projdefs.h\<close>), the build's configuration constants
  (\<^verbatim>\<open>FreeRTOSConfig.h\<close>), the way a failed \<^verbatim>\<open>configASSERT\<close> is modelled, and the generic
  lemmas on words, options, functions and lists that the component theories share.

  Fallible kernel code is written in the option monad: \<open>None\<close> means that the call never
  returns to its caller because the system has stopped in a trap, which in this build is one of
  \<^verbatim>\<open>vAssertCalled\<close> (an endless loop with interrupts masked), \<^verbatim>\<open>vApplicationMallocFailedHook\<close>
  (an endless loop) or a fault from dereferencing a NULL list container.
\<close>

unbundle bit_operations_syntax

section \<open>Machine types and configuration\<close>

type_synonym u8 = "8 word"
type_synonym u32 = "32 word"
type_synonym u64 = "64 word"
type_synonym TickType_t = "32 word"
type_synonym addr = nat

definition portMAX_DELAY :: TickType_t where
  "portMAX_DELAY = 0xffffffff"

definition SIZE_MAX :: nat where
  "SIZE_MAX = 2 ^ 32 - 1"

definition configMAX_PRIORITIES :: nat where
  "configMAX_PRIORITIES = 9"

definition configTICK_RATE_HZ :: u64 where
  "configTICK_RATE_HZ = 1000"

definition portTICK_PERIOD_MS :: TickType_t where
  "portTICK_PERIOD_MS = 1"

definition tskIDLE_PRIORITY :: nat where
  "tskIDLE_PRIORITY = 0"

definition configTOTAL_HEAP_SIZE :: nat where
  "configTOTAL_HEAP_SIZE = 100 * 1024"

definition portBYTE_ALIGNMENT :: nat where
  "portBYTE_ALIGNMENT = 8"

definition configTASK_NOTIFICATION_ARRAY_ENTRIES :: nat where
  "configTASK_NOTIFICATION_ARRAY_ENTRIES = 3"

definition configQUEUE_REGISTRY_SIZE :: nat where
  "configQUEUE_REGISTRY_SIZE = 10"

text \<open>
  \<^verbatim>\<open>configASSERT( x )\<close>: when \<open>x\<close> is zero, \<^verbatim>\<open>vAssertCalled\<close> loops for ever.
\<close>

definition configASSERT :: "bool \<Rightarrow> unit option" where
  "configASSERT c = (if c then Some () else None)"

text \<open>
  \<^verbatim>\<open>pdMS_TO_TICKS\<close>: the multiplication and the division are done on 64 bits and the result is
  cast to the 32-bit tick type.
\<close>

definition pdMS_TO_TICKS :: "u32 \<Rightarrow> TickType_t" where
  "pdMS_TO_TICKS ms = ucast ((ucast ms * configTICK_RATE_HZ) div (1000 :: u64))"

section \<open>Collections\<close>

named_theorems cfg_defs
named_theorems list_defs
named_theorems heap_defs
named_theorems task_defs
named_theorems queue_defs
named_theorems shim_defs

lemmas [cfg_defs] = portMAX_DELAY_def SIZE_MAX_def configMAX_PRIORITIES_def
  configTICK_RATE_HZ_def portTICK_PERIOD_MS_def tskIDLE_PRIORITY_def configTOTAL_HEAP_SIZE_def
  portBYTE_ALIGNMENT_def configTASK_NOTIFICATION_ARRAY_ENTRIES_def configQUEUE_REGISTRY_SIZE_def

section \<open>Generic lemmas\<close>

lemma configASSERT_simps [simp]:
  "configASSERT True = Some ()" "configASSERT False = None"
  "(configASSERT c = Some u) = c" "(configASSERT c = None) = (\<not> c)"
  by (simp_all add: configASSERT_def)

lemma configASSERT_bind [simp]:
  "(configASSERT c \<bind> f = Some y) = (c \<and> f () = Some y)"
  by (simp add: configASSERT_def)

lemma le_portMAX_DELAY [simp]: "x \<le> portMAX_DELAY"
proof -
  have "x \<le> (- 1 :: 32 word)" by (rule word_n1_ge)
  moreover have "(0xffffffff :: 32 word) = - 1" by simp
  ultimately show ?thesis by (simp only: portMAX_DELAY_def)
qed

lemma portMAX_DELAY_le [simp]: "portMAX_DELAY \<le> x \<longleftrightarrow> x = portMAX_DELAY"
  by (metis dual_order.antisym le_portMAX_DELAY order_refl)

lemma less_portMAX_DELAY: "x \<noteq> portMAX_DELAY \<Longrightarrow> x < portMAX_DELAY"
  by (simp add: order.strict_iff_order)

text \<open>At 1000 ticks a second a millisecond is a tick; the 64-bit intermediate value does not overflow.\<close>

lemma pdMS_TO_TICKS_id: "pdMS_TO_TICKS ms = ms"
proof -
  have b: "unat ms < 2 ^ 32" using unsigned_less [of ms] by simp
  have u: "unat (ucast ms :: u64) = unat ms" using b by (simp add: unsigned_ucast_eq take_bit_nat_eq_self_iff)
  have "unat (ucast ms * configTICK_RATE_HZ :: u64) = unat (ucast ms :: u64) * unat configTICK_RATE_HZ"
    using b by (intro iffD1 [OF unat_mult_lem]) (simp add: u configTICK_RATE_HZ_def)
  then have "unat ((ucast ms * configTICK_RATE_HZ) div (1000 :: u64)) = unat ms"
    by (simp add: unat_div u configTICK_RATE_HZ_def)
  then show ?thesis using b by (simp add: pdMS_TO_TICKS_def word_unat_eq_iff unsigned_ucast_eq take_bit_nat_eq_self_iff)
qed

lemma in_set_butlastI: "x \<in> set xs \<Longrightarrow> x \<noteq> last xs \<Longrightarrow> x \<in> set (butlast xs)"
  by (metis append_butlast_last_id empty_iff empty_set in_set_conv_decomp_last insertE list.set(2)
      set_append UnE)

lemma split_list_set: "x \<in> set xs \<Longrightarrow> \<exists>ys zs. xs = ys @ x # zs \<and> x \<notin> set ys"
  by (rule split_list_first)

lemma takeWhile_dropWhile_split:
  "dropWhile P xs = y # ys \<Longrightarrow> xs = takeWhile P xs @ y # ys \<and> \<not> P y"
  by (metis hd_dropWhile list.distinct(1) list.sel(1) takeWhile_dropWhile_id)

lemma remove1_append_notin: "x \<notin> set xs \<Longrightarrow> remove1 x (xs @ x # ys) = xs @ ys"
  by (simp add: remove1_append)

lemma takeWhile_True [simp]: "takeWhile (\<lambda>x. True) xs = xs"
  by (induction xs) simp_all

lemma dropWhile_True [simp]: "dropWhile (\<lambda>x. True) xs = []"
  by (induction xs) simp_all

end
