(* ===== verification/FR_Port.thy ===== *)
theory FR_Port
  imports FR_Prelude
begin

text \<open>
  Critical sections of the Cortex-M3 port (\<^verbatim>\<open>port.c\<close>, \<^verbatim>\<open>portmacro.h\<close>): the nesting count of
  \<^verbatim>\<open>taskENTER_CRITICAL\<close>/\<^verbatim>\<open>taskEXIT_CRITICAL\<close> and the interrupt mask register BASEPRI. Interrupts that
  may call the kernel are masked while BASEPRI is not 0. \<open>vectactive\<close> is the exception number that the
  processor reports (0 in a task).
\<close>

record cpu =
  basepri :: u32
  uxCriticalNesting :: u32
  vectactive :: nat

definition configMAX_SYSCALL_INTERRUPT_PRIORITY :: u32 where
  "configMAX_SYSCALL_INTERRUPT_PRIORITY = 4"

definition vPortRaiseBASEPRI :: "'a cpu_scheme \<Rightarrow> 'a cpu_scheme" where
  "vPortRaiseBASEPRI c = c\<lparr>basepri := configMAX_SYSCALL_INTERRUPT_PRIORITY\<rparr>"

definition ulPortRaiseBASEPRI :: "'a cpu_scheme \<Rightarrow> u32 \<times> 'a cpu_scheme" where
  "ulPortRaiseBASEPRI c = (basepri c, c\<lparr>basepri := configMAX_SYSCALL_INTERRUPT_PRIORITY\<rparr>)"

definition vPortSetBASEPRI :: "u32 \<Rightarrow> 'a cpu_scheme \<Rightarrow> 'a cpu_scheme" where
  "vPortSetBASEPRI v c = c\<lparr>basepri := v\<rparr>"

definition xPortIsInsideInterrupt :: "'a cpu_scheme \<Rightarrow> bool" where
  "xPortIsInsideInterrupt c \<longleftrightarrow> vectactive c \<noteq> 0"

definition vPortEnterCritical :: "'a cpu_scheme \<Rightarrow> 'a cpu_scheme option" where
  "vPortEnterCritical c = do {
     let c = vPortRaiseBASEPRI c;
     let c = c\<lparr>uxCriticalNesting := uxCriticalNesting c + 1\<rparr>;
     if uxCriticalNesting c = 1 then do { configASSERT (vectactive c = 0); Some c } else Some c
   }"

definition vPortExitCritical :: "'a cpu_scheme \<Rightarrow> 'a cpu_scheme option" where
  "vPortExitCritical c = do {
     configASSERT (uxCriticalNesting c \<noteq> 0);
     let c = c\<lparr>uxCriticalNesting := uxCriticalNesting c - 1\<rparr>;
     Some (if uxCriticalNesting c = 0 then vPortSetBASEPRI 0 c else c)
   }"

text \<open>\<^verbatim>\<open>taskENTER_CRITICAL_FROM_ISR\<close> and its end: the mask is saved and restored.\<close>

definition portSET_INTERRUPT_MASK_FROM_ISR :: "'a cpu_scheme \<Rightarrow> u32 \<times> 'a cpu_scheme" where
  "portSET_INTERRUPT_MASK_FROM_ISR = ulPortRaiseBASEPRI"

definition portCLEAR_INTERRUPT_MASK_FROM_ISR :: "u32 \<Rightarrow> 'a cpu_scheme \<Rightarrow> 'a cpu_scheme" where
  "portCLEAR_INTERRUPT_MASK_FROM_ISR = vPortSetBASEPRI"

lemmas port_defs = vPortRaiseBASEPRI_def ulPortRaiseBASEPRI_def vPortSetBASEPRI_def configMAX_SYSCALL_INTERRUPT_PRIORITY_def

section \<open>Nesting\<close>

text \<open>The calls of a task, in the order it makes them, and the number of sections it is inside of.\<close>

datatype section_op = Enter | Exit

fun section_run :: "section_op list \<Rightarrow> 'a cpu_scheme \<Rightarrow> 'a cpu_scheme option" where
  "section_run [] c = Some c"
| "section_run (Enter # os) c = vPortEnterCritical c \<bind> section_run os"
| "section_run (Exit # os) c = vPortExitCritical c \<bind> section_run os"

fun nest :: "section_op list \<Rightarrow> nat \<Rightarrow> nat option" where
  "nest [] n = Some n"
| "nest (Enter # os) n = nest os (n + 1)"
| "nest (Exit # os) n = (if n = 0 then None else nest os (n - 1))"

text \<open>A task inside \<open>n\<close> sections: the count is \<open>n\<close> and interrupts are masked exactly when it is inside one.\<close>

definition inside :: "nat \<Rightarrow> 'a cpu_scheme \<Rightarrow> bool" where
  "inside n c \<longleftrightarrow> uxCriticalNesting c = of_nat n \<and> vectactive c = 0 \<and>
     basepri c = (if n = 0 then 0 else configMAX_SYSCALL_INTERRUPT_PRIORITY)"

lemma nest_eq_0 [simp]: "n < 2 ^ 32 \<Longrightarrow> (of_nat n = (0 :: u32)) = (n = 0)"
  by (simp add: word_unat_eq_iff unat_of_nat)

lemma enter_inside: "inside n c \<Longrightarrow> \<exists>c'. vPortEnterCritical c = Some c' \<and> inside (n + 1) c'"
  by (auto simp: vPortEnterCritical_def inside_def port_defs Let_def)

lemma exit_inside: "inside (Suc n) c \<Longrightarrow> Suc n < 2 ^ 32 \<Longrightarrow> \<exists>c'. vPortExitCritical c = Some c' \<and> inside n c'"
  using nest_eq_0 [of "Suc n"] nest_eq_0 [of n]
  by (auto simp: vPortExitCritical_def inside_def port_defs Let_def)

lemma exit_outside: "inside 0 c \<Longrightarrow> vPortExitCritical c = None"
  by (simp add: vPortExitCritical_def inside_def)

lemma section_run_nest:
  assumes "inside n c" "n + length os < 2 ^ 32"
  shows "case nest os n of Some m \<Rightarrow> \<exists>c'. section_run os c = Some c' \<and> inside m c' | None \<Rightarrow> section_run os c = None"
  using assms
proof (induction os arbitrary: n c)
  case (Cons opn os)
  show ?case
  proof (cases opn)
    case Enter
    then obtain c' where "vPortEnterCritical c = Some c'" "inside (n + 1) c'" using enter_inside [OF Cons.prems(1)] by blast
    then show ?thesis using Cons.IH [of "n + 1" c'] Cons.prems(2) Enter by (simp split: option.splits)
  next
    case Exit
    show ?thesis
    proof (cases n)
      case 0
      then show ?thesis using exit_outside [of c] Cons.prems(1) Exit by simp
    next
      case (Suc m)
      then obtain c' where "vPortExitCritical c = Some c'" "inside m c'"
        using exit_inside [of m c] Cons.prems by auto
      then show ?thesis using Cons.IH [of m c'] Cons.prems(2) Exit Suc by (simp split: option.splits)
    qed
  qed
qed simp

text \<open>
  Critical sections nest. For any sequence of \<^verbatim>\<open>taskENTER_CRITICAL\<close> and \<^verbatim>\<open>taskEXIT_CRITICAL\<close> of a
  task that starts outside of all sections (fewer than 2^32 calls): if no exit lacks its enter, the
  sequence returns and interrupts are masked exactly when the task is still inside a section, so an inner
  exit does not unmask them; an exit without an enter stops in the assertion.
\<close>

theorem critical_sections_nest:
  assumes "uxCriticalNesting c = 0" "basepri c = 0" "vectactive c = 0" "length os < 2 ^ 32"
  shows "case nest os 0 of
      Some m \<Rightarrow> \<exists>c'. section_run os c = Some c' \<and> uxCriticalNesting c' = of_nat m \<and> (basepri c' \<noteq> 0 \<longleftrightarrow> m > 0)
    | None \<Rightarrow> section_run os c = None"
proof -
  have "inside 0 c" using assms by (simp add: inside_def)
  then show ?thesis using section_run_nest [of 0 c os] assms(4)
    by (auto simp: inside_def port_defs split: option.splits)
qed

theorem critical_sections_nest_witness:
  "\<exists>c'. section_run [Enter, Enter, Exit] \<lparr>basepri = 0, uxCriticalNesting = 0, vectactive = 0\<rparr> = Some c' \<and> basepri c' \<noteq> 0"
  using critical_sections_nest [of "\<lparr>basepri = 0, uxCriticalNesting = 0, vectactive = 0\<rparr>" "[Enter, Enter, Exit]"] by auto

end
