(* ===== verification/FR_List.thy ===== *)
theory FR_List
  imports FR_Prelude
begin

text \<open>
  \<^verbatim>\<open>list.c\<close> and the list macros of \<^verbatim>\<open>list.h\<close>. The first half is the code as it is written:
  a memory of list items linked by \<open>pxNext\<close> and \<open>pxPrevious\<close> through each list's
  \<open>xListEnd\<close> marker. The second half is the abstract list the kernel components work
  with: a finite sequence of items with an index that walks it. The refinement lemmas show that
  each operation on the linked memory implements the operation on the sequence.
\<close>

section \<open>The linked lists of list.c\<close>

text \<open>
  A list item pointer designates a \<^verbatim>\<open>ListItem_t\<close> or the \<^verbatim>\<open>xListEnd\<close> marker of a list. The
  \<open>pvOwner\<close> field is written once, when a task is created, and is a function of the item.
\<close>

datatype ('l, 'i) node = ItemN 'i | EndN 'l

record ('l, 'i) list_mem =
  xItemValue :: "('l, 'i) node \<Rightarrow> TickType_t"
  pxNext :: "('l, 'i) node \<Rightarrow> ('l, 'i) node"
  pxPrevious :: "('l, 'i) node \<Rightarrow> ('l, 'i) node"
  pxContainer :: "'i \<Rightarrow> 'l option"
  pxIndex :: "'l \<Rightarrow> ('l, 'i) node"
  uxNumberOfItems :: "'l \<Rightarrow> nat"

definition vListInitialise :: "'l \<Rightarrow> ('l, 'i) list_mem \<Rightarrow> ('l, 'i) list_mem" where
  "vListInitialise l m = m\<lparr>
     pxIndex := (pxIndex m)(l := EndN l),
     xItemValue := (xItemValue m)(EndN l := portMAX_DELAY),
     pxNext := (pxNext m)(EndN l := EndN l),
     pxPrevious := (pxPrevious m)(EndN l := EndN l),
     uxNumberOfItems := (uxNumberOfItems m)(l := 0)\<rparr>"

definition vListInitialiseItem :: "'i \<Rightarrow> ('l, 'i) list_mem \<Rightarrow> ('l, 'i) list_mem" where
  "vListInitialiseItem i m = m\<lparr>pxContainer := (pxContainer m)(i := None)\<rparr>"

definition vListInsertEnd :: "'l \<Rightarrow> 'i \<Rightarrow> ('l, 'i) list_mem \<Rightarrow> ('l, 'i) list_mem" where
  "vListInsertEnd l i m =
     (let idx = pxIndex m l;
          m = m\<lparr>pxNext := (pxNext m)(ItemN i := idx)\<rparr>;
          m = m\<lparr>pxPrevious := (pxPrevious m)(ItemN i := pxPrevious m idx)\<rparr>;
          m = m\<lparr>pxNext := (pxNext m)(pxPrevious m idx := ItemN i)\<rparr>;
          m = m\<lparr>pxPrevious := (pxPrevious m)(idx := ItemN i)\<rparr>;
          m = m\<lparr>pxContainer := (pxContainer m)(i := Some l)\<rparr>
      in m\<lparr>uxNumberOfItems := (uxNumberOfItems m)(l := uxNumberOfItems m l + 1)\<rparr>)"

text \<open>
  The search loop of \<^verbatim>\<open>vListInsert\<close>. It stops at the end marker of a well-formed list, whose
  value is the greatest tick value; on a corrupted memory it may run for ever (\<open>None\<close>).
\<close>

partial_function (option) insert_walk ::
  "('l, 'i) list_mem \<Rightarrow> TickType_t \<Rightarrow> ('l, 'i) node \<Rightarrow> ('l, 'i) node option" where
  "insert_walk m v it =
     (if xItemValue m (pxNext m it) \<le> v then insert_walk m v (pxNext m it) else Some it)"

definition vListInsert :: "'l \<Rightarrow> 'i \<Rightarrow> ('l, 'i) list_mem \<Rightarrow> ('l, 'i) list_mem option" where
  "vListInsert l i m = do {
     let v = xItemValue m (ItemN i);
     it \<leftarrow> (if v = portMAX_DELAY then Some (pxPrevious m (EndN l))
            else insert_walk m v (EndN l));
     let m = m\<lparr>pxNext := (pxNext m)(ItemN i := pxNext m it)\<rparr>;
     let m = m\<lparr>pxPrevious := (pxPrevious m)(pxNext m (ItemN i) := ItemN i)\<rparr>;
     let m = m\<lparr>pxPrevious := (pxPrevious m)(ItemN i := it)\<rparr>;
     let m = m\<lparr>pxNext := (pxNext m)(it := ItemN i)\<rparr>;
     let m = m\<lparr>pxContainer := (pxContainer m)(i := Some l)\<rparr>;
     Some (m\<lparr>uxNumberOfItems := (uxNumberOfItems m)(l := uxNumberOfItems m l + 1)\<rparr>)
   }"

text \<open>\<^verbatim>\<open>uxListRemove\<close> reads the item's container; \<open>None\<close> when that is NULL.\<close>

definition uxListRemove :: "'i \<Rightarrow> ('l, 'i) list_mem \<Rightarrow> (nat \<times> ('l, 'i) list_mem) option" where
  "uxListRemove i m = do {
     l \<leftarrow> pxContainer m i;
     let m = m\<lparr>pxPrevious := (pxPrevious m)(pxNext m (ItemN i) := pxPrevious m (ItemN i))\<rparr>;
     let m = m\<lparr>pxNext := (pxNext m)(pxPrevious m (ItemN i) := pxNext m (ItemN i))\<rparr>;
     let m = (if pxIndex m l = ItemN i
              then m\<lparr>pxIndex := (pxIndex m)(l := pxPrevious m (ItemN i))\<rparr> else m);
     let m = m\<lparr>pxContainer := (pxContainer m)(i := None)\<rparr>;
     let m = m\<lparr>uxNumberOfItems := (uxNumberOfItems m)(l := uxNumberOfItems m l - 1)\<rparr>;
     Some (uxNumberOfItems m l, m)
   }"

text \<open>\<^verbatim>\<open>listGET_OWNER_OF_NEXT_ENTRY\<close>: the node whose owner becomes the current task.\<close>

definition listGET_OWNER_OF_NEXT_ENTRY ::
  "'l \<Rightarrow> ('l, 'i) list_mem \<Rightarrow> ('l, 'i) node \<times> ('l, 'i) list_mem" where
  "listGET_OWNER_OF_NEXT_ENTRY l m =
     (let m = m\<lparr>pxIndex := (pxIndex m)(l := pxNext m (pxIndex m l))\<rparr>;
          m = (if pxIndex m l = EndN l
               then m\<lparr>pxIndex := (pxIndex m)(l := pxNext m (EndN l))\<rparr> else m)
      in (pxIndex m l, m))"

section \<open>Abstract lists\<close>

text \<open>
  What the kernel sees of its lists: for every list the sequence of its items, from the one after
  the end marker, and where the index stands (\<open>None\<close>: on the end marker); for every item its
  value and the list that contains it.
\<close>

record ('l, 'i) list_state =
  liValue :: "'i \<Rightarrow> TickType_t"
  liContainer :: "'i \<Rightarrow> 'l option"
  lsItems :: "'l \<Rightarrow> 'i list"
  lsIndex :: "'l \<Rightarrow> 'i option"

definition ls_init :: "'l \<Rightarrow> ('l, 'i) list_state \<Rightarrow> ('l, 'i) list_state" where
  "ls_init l s = s\<lparr>lsItems := (lsItems s)(l := []), lsIndex := (lsIndex s)(l := None)\<rparr>"

definition ls_init_item :: "'i \<Rightarrow> ('l, 'i) list_state \<Rightarrow> ('l, 'i) list_state" where
  "ls_init_item i s = s\<lparr>liContainer := (liContainer s)(i := None)\<rparr>"

definition ls_set_value :: "'i \<Rightarrow> TickType_t \<Rightarrow> ('l, 'i) list_state \<Rightarrow> ('l, 'i) list_state" where
  "ls_set_value i v s = s\<lparr>liValue := (liValue s)(i := v)\<rparr>"

text \<open>Insertion before the index: at the end of the sequence when the index is on the marker.\<close>

fun before_index :: "'i option \<Rightarrow> 'i \<Rightarrow> 'i list \<Rightarrow> 'i list" where
  "before_index None i xs = xs @ [i]"
| "before_index (Some j) i xs = takeWhile (\<lambda>x. x \<noteq> j) xs @ i # dropWhile (\<lambda>x. x \<noteq> j) xs"

definition ls_insert_end :: "'l \<Rightarrow> 'i \<Rightarrow> ('l, 'i) list_state \<Rightarrow> ('l, 'i) list_state" where
  "ls_insert_end l i s = s\<lparr>
     lsItems := (lsItems s)(l := before_index (lsIndex s l) i (lsItems s l)),
     liContainer := (liContainer s)(i := Some l)\<rparr>"

text \<open>Insertion in ascending order of value, after the items of equal value.\<close>

definition insert_by :: "('i \<Rightarrow> TickType_t) \<Rightarrow> 'i \<Rightarrow> 'i list \<Rightarrow> 'i list" where
  "insert_by val i xs =
     takeWhile (\<lambda>x. val x \<le> val i) xs @ i # dropWhile (\<lambda>x. val x \<le> val i) xs"

definition ls_insert :: "'l \<Rightarrow> 'i \<Rightarrow> ('l, 'i) list_state \<Rightarrow> ('l, 'i) list_state" where
  "ls_insert l i s = s\<lparr>
     lsItems := (lsItems s)(l :=
       (if liValue s i = portMAX_DELAY then lsItems s l @ [i]
        else insert_by (liValue s) i (lsItems s l))),
     liContainer := (liContainer s)(i := Some l)\<rparr>"

text \<open>The item before \<open>i\<close> in the sequence (\<open>None\<close>: the end marker).\<close>

fun prev_of :: "'i \<Rightarrow> 'i list \<Rightarrow> 'i option" where
  "prev_of i [] = None"
| "prev_of i [x] = None"
| "prev_of i (x # y # zs) = (if x = i then None else if y = i then Some x else prev_of i (y # zs))"

definition ls_del :: "'l \<Rightarrow> 'i \<Rightarrow> ('l, 'i) list_state \<Rightarrow> ('l, 'i) list_state" where
  "ls_del l i s = s\<lparr>
     lsItems := (lsItems s)(l := remove1 i (lsItems s l)),
     lsIndex := (if lsIndex s l = Some i
                 then (lsIndex s)(l := prev_of i (lsItems s l)) else lsIndex s),
     liContainer := (liContainer s)(i := None)\<rparr>"

definition ls_remove :: "'i \<Rightarrow> ('l, 'i) list_state \<Rightarrow> (nat \<times> ('l, 'i) list_state) option" where
  "ls_remove i s = do {
     l \<leftarrow> liContainer s i;
     Some (length (lsItems (ls_del l i s) l), ls_del l i s)
   }"

text \<open>The item after the index, going round past the end marker.\<close>

fun next_of :: "'i option \<Rightarrow> 'i list \<Rightarrow> 'i option" where
  "next_of None xs = (case xs of [] \<Rightarrow> None | x # _ \<Rightarrow> Some x)"
| "next_of (Some j) xs =
     (case dropWhile (\<lambda>x. x \<noteq> j) xs of
        _ # y # _ \<Rightarrow> Some y
      | _ \<Rightarrow> (case xs of [] \<Rightarrow> None | x # _ \<Rightarrow> Some x))"

definition ls_next_entry :: "'l \<Rightarrow> ('l, 'i) list_state \<Rightarrow> 'i option \<times> ('l, 'i) list_state" where
  "ls_next_entry l s =
     (let j = next_of (lsIndex s l) (lsItems s l)
      in (j, s\<lparr>lsIndex := (lsIndex s)(l := j)\<rparr>))"

definition ls_head :: "'l \<Rightarrow> ('l, 'i) list_state \<Rightarrow> 'i option" where
  "ls_head l s = (case lsItems s l of [] \<Rightarrow> None | i # _ \<Rightarrow> Some i)"

lemmas [list_defs] = vListInitialise_def vListInitialiseItem_def vListInsertEnd_def
  vListInsert_def uxListRemove_def listGET_OWNER_OF_NEXT_ENTRY_def

lemmas ls_defs = ls_init_def ls_init_item_def ls_set_value_def ls_insert_end_def ls_insert_def
  ls_remove_def ls_del_def ls_next_entry_def ls_head_def

section \<open>Rings of nodes\<close>

fun linked :: "('l, 'i) list_mem \<Rightarrow> ('l, 'i) node list \<Rightarrow> bool" where
  "linked m (a # b # ns) = (pxNext m a = b \<and> pxPrevious m b = a \<and> linked m (b # ns))"
| "linked m _ = True"

definition ring :: "'l \<Rightarrow> 'i list \<Rightarrow> ('l, 'i) node list" where
  "ring l xs = EndN l # map ItemN xs @ [EndN l]"

definition last_node :: "'l \<Rightarrow> 'i list \<Rightarrow> ('l, 'i) node" where
  "last_node l us = last (EndN l # map ItemN us)"

definition first_node :: "'l \<Rightarrow> 'i list \<Rightarrow> ('l, 'i) node" where
  "first_node l vs = hd (map ItemN vs @ [EndN l])"

lemma end_nodes [simp]:
  "last_node l [] = EndN l" "last_node l (us @ [x]) = ItemN x"
  "first_node l [] = EndN l" "first_node l (x # vs) = ItemN x"
  by (simp_all add: last_node_def first_node_def)

lemma linked_append:
  "linked m (xs @ a # b # ys) \<longleftrightarrow> linked m (xs @ [a]) \<and> linked m (a # b # ys)"
proof (induction xs)
  case (Cons x xs)
  then show ?case by (cases xs) auto
qed simp

lemma linked_cong:
  assumes "linked m ns" "\<forall>a \<in> set (butlast ns). pxNext m' a = pxNext m a"
    "\<forall>b \<in> set (tl ns). pxPrevious m' b = pxPrevious m b"
  shows "linked m' ns"
  using assms by (induction m ns rule: linked.induct) auto

lemma linked_pxIndex [simp]: "linked (m\<lparr>pxIndex := f\<rparr>) ns = linked m ns"
  by (induction m ns rule: linked.induct) simp_all

lemma linked_adjacent:
  "linked m (xs @ a # b # ys) \<Longrightarrow> pxNext m a = b \<and> pxPrevious m b = a"
  by (simp add: linked_append)

lemma adjacent_distinct:
  assumes "distinct (butlast (xs @ a # b # ys))" "distinct (tl (xs @ a # b # ys))"
  shows "a \<notin> set xs" "a \<notin> set (butlast (b # ys))" "b \<notin> set (tl (xs @ [a]))" "b \<notin> set ys"
proof -
  have "butlast (xs @ a # b # ys) = xs @ a # butlast (b # ys)"
    by (simp add: butlast_append)
  with assms(1) show "a \<notin> set xs" "a \<notin> set (butlast (b # ys))" by auto
  have "tl (xs @ a # b # ys) = tl (xs @ [a]) @ b # ys" by (cases xs) simp_all
  with assms(2) show "b \<notin> set (tl (xs @ [a]))" "b \<notin> set ys" by auto
qed

lemma set_tl_subset: "x \<in> set (tl xs) \<Longrightarrow> x \<in> set xs"
  by (cases xs) auto

lemma linked_insert:
  assumes "linked m (xs @ a # b # ys)" "distinct (butlast (xs @ a # b # ys))"
    "distinct (tl (xs @ a # b # ys))" "n \<notin> set (xs @ a # b # ys)"
    "pxNext m' = (pxNext m)(n := b, a := n)" "pxPrevious m' = (pxPrevious m)(n := a, b := n)"
  shows "linked m' (xs @ a # n # b # ys)"
proof -
  have l1: "linked m (xs @ [a])" and l2: "linked m (b # ys)"
    using assms(1) by (simp_all add: linked_append)
  note d = adjacent_distinct [OF assms(2,3)]
  have n: "n \<notin> set (xs @ [a])" "n \<notin> set (b # ys)" using assms(4) by simp_all
  have "linked m' (xs @ [a])"
  proof (rule linked_cong [OF l1])
    show "\<forall>c \<in> set (butlast (xs @ [a])). pxNext m' c = pxNext m c" using d n assms(5) by auto
    show "\<forall>c \<in> set (tl (xs @ [a])). pxPrevious m' c = pxPrevious m c"
      using d(3) n(1) assms(6) set_tl_subset [of _ "xs @ [a]"] by auto
  qed
  moreover have "linked m' (b # ys)"
  proof (rule linked_cong [OF l2])
    show "\<forall>c \<in> set (butlast (b # ys)). pxNext m' c = pxNext m c"
      using d(2) n(2) assms(5) in_set_butlastD [of _ "b # ys"] by (metis fun_upd_other)
    show "\<forall>c \<in> set (tl (b # ys)). pxPrevious m' c = pxPrevious m c" using d(4) n assms(6) by auto
  qed
  ultimately show ?thesis
    using n assms(5,6) by (simp add: linked_append)
qed

lemma linked_delete:
  assumes "linked m (xs @ a # n # b # ys)" "distinct (butlast (xs @ a # n # b # ys))"
    "distinct (tl (xs @ a # n # b # ys))"
    "pxNext m' = (pxNext m)(a := b)" "pxPrevious m' = (pxPrevious m)(b := a)"
  shows "linked m' (xs @ a # b # ys)"
proof -
  have l1: "linked m (xs @ [a])" and l2: "linked m (b # ys)"
    using assms(1) by (simp_all add: linked_append)
  have d1: "a \<notin> set xs" "a \<notin> set (butlast (n # b # ys))"
    using adjacent_distinct [OF assms(2,3)] by simp_all
  have d2: "b \<notin> set (tl ((xs @ [a]) @ [n]))" "b \<notin> set ys"
    using adjacent_distinct [of "xs @ [a]" n b ys] assms(2,3) by simp_all
  have t: "c \<in> set (tl (xs @ [a])) \<Longrightarrow> c \<in> set (tl ((xs @ [a]) @ [n]))" for c
    by (cases xs) auto
  have "linked m' (xs @ [a])"
    by (rule linked_cong [OF l1]) (use d1(1) d2(1) t assms(4,5) in auto)
  moreover have "linked m' (b # ys)"
    by (rule linked_cong [OF l2]) (use d1(2) d2(2) assms(4,5) in \<open>auto split: if_splits\<close>)
  ultimately show ?thesis
    using assms(4,5) by (simp add: linked_append)
qed

section \<open>Refinement\<close>

text \<open>
  \<open>ls_wf L s\<close>: the abstract lists of the set \<open>L\<close> hold each item at most once, an item is in
  the list its container names and in no other, and the index stands on the marker or on an item.
\<close>

definition ls_wf :: "'l set \<Rightarrow> ('l, 'i) list_state \<Rightarrow> bool" where
  "ls_wf L s \<longleftrightarrow>
     (\<forall>l \<in> L. distinct (lsItems s l) \<and>
        (\<forall>i. liContainer s i = Some l \<longleftrightarrow> i \<in> set (lsItems s l)) \<and>
        (\<forall>j. lsIndex s l = Some j \<longrightarrow> j \<in> set (lsItems s l))) \<and>
     (\<forall>i l. liContainer s i = Some l \<longrightarrow> l \<in> L)"

definition idx_node :: "'l \<Rightarrow> 'i option \<Rightarrow> ('l, 'i) node" where
  "idx_node l j = (case j of None \<Rightarrow> EndN l | Some i \<Rightarrow> ItemN i)"

definition refines :: "'l set \<Rightarrow> ('l, 'i) list_mem \<Rightarrow> ('l, 'i) list_state \<Rightarrow> bool" where
  "refines L m s \<longleftrightarrow> ls_wf L s \<and>
     (\<forall>l \<in> L. linked m (ring l (lsItems s l)) \<and>
        uxNumberOfItems m l = length (lsItems s l) \<and>
        pxIndex m l = idx_node l (lsIndex s l) \<and>
        xItemValue m (EndN l) = portMAX_DELAY) \<and>
     (\<forall>i. xItemValue m (ItemN i) = liValue s i) \<and> pxContainer m = liContainer s"

lemma refinesD:
  assumes "refines L m s"
  shows "ls_wf L s" "l \<in> L \<Longrightarrow> lsItems s l = xs \<Longrightarrow> linked m (ring l xs)"
    "l \<in> L \<Longrightarrow> uxNumberOfItems m l = length (lsItems s l)"
    "l \<in> L \<Longrightarrow> pxIndex m l = idx_node l (lsIndex s l)"
    "l \<in> L \<Longrightarrow> xItemValue m (EndN l) = portMAX_DELAY"
    "xItemValue m (ItemN i) = liValue s i" "pxContainer m = liContainer s"
  using assms by (auto simp: refines_def)

lemma ring_split:
  "ring l (us @ vs) = butlast (EndN l # map ItemN us) @ last_node l us # first_node l vs #
     tl (map ItemN vs @ [EndN l])"
proof -
  have "EndN l # map ItemN us = butlast (EndN l # map ItemN us) @ [last_node l us]"
    unfolding last_node_def by (rule append_butlast_last_id [symmetric]) simp
  moreover have "map ItemN vs @ [EndN l] = first_node l vs # tl (map ItemN vs @ [EndN l])"
    by (cases vs) simp_all
  ultimately show ?thesis
    by (simp add: ring_def)
qed

lemma distinct_ring:
  assumes "distinct xs"
  shows "distinct (butlast (ring l xs))" "distinct (tl (ring l xs))"
  using assms by (auto simp: ring_def butlast_append distinct_map inj_on_def)

lemma set_ring: "set (ring l xs) = insert (EndN l) (ItemN ` set xs)"
  by (auto simp: ring_def)

lemma last_node_in_ring: "last_node l us \<in> set (ring l (us @ vs))"
  and first_node_in_ring: "first_node l vs \<in> set (ring l (us @ vs))"
  by (simp add: ring_split) (cases vs; simp add: set_ring)

lemma ring_adjacent:
  assumes "linked m (ring l (us @ vs))"
  shows "pxNext m (last_node l us) = first_node l vs"
    "pxPrevious m (first_node l vs) = last_node l us"
  using linked_adjacent assms unfolding ring_split by blast+

lemma ring_insert:
  assumes "linked m (ring l (us @ vs))" "distinct (us @ vs)" "i \<notin> set (us @ vs)"
    "pxNext m' = (pxNext m)(ItemN i := first_node l vs, last_node l us := ItemN i)"
    "pxPrevious m' = (pxPrevious m)(ItemN i := last_node l us, first_node l vs := ItemN i)"
  shows "linked m' (ring l (us @ i # vs))"
proof -
  have n: "ItemN i \<notin> set (ring l (us @ vs))" using assms(3) by (auto simp: set_ring)
  have "ring l (us @ i # vs) = butlast (EndN l # map ItemN us) @ last_node l us # ItemN i #
     first_node l vs # tl (map ItemN vs @ [EndN l])"
    using ring_split [of l us "i # vs"] by (cases vs) simp_all
  then show ?thesis
    using linked_insert [OF _ _ _ _ assms(4,5)] assms(1) distinct_ring [OF assms(2)] n
    unfolding ring_split by (metis (no_types, lifting))
qed

lemma ring_delete:
  assumes "linked m (ring l (us @ i # vs))" "distinct (us @ i # vs)"
    "pxNext m' = (pxNext m)(last_node l us := first_node l vs)"
    "pxPrevious m' = (pxPrevious m)(first_node l vs := last_node l us)"
  shows "linked m' (ring l (us @ vs))"
proof -
  have "ring l (us @ i # vs) = butlast (EndN l # map ItemN us) @ last_node l us # ItemN i #
     first_node l vs # tl (map ItemN vs @ [EndN l])"
    using ring_split [of l us "i # vs"] by (cases vs) simp_all
  then show ?thesis
    using linked_delete [OF _ _ _ assms(3,4)] assms(1) distinct_ring [OF assms(2)]
    unfolding ring_split [of l us vs] by (metis (no_types, lifting))
qed

lemma ring_other:
  assumes "linked m (ring l xs)"
    "\<And>c. c \<in> set (ring l xs) \<Longrightarrow> pxNext m' c = pxNext m c \<and> pxPrevious m' c = pxPrevious m c"
  shows "linked m' (ring l xs)"
  by (rule linked_cong [OF assms(1)]) (use assms(2) in_set_butlastD set_tl_subset in metis)+

lemma wf_container:
  "ls_wf L s \<Longrightarrow> l \<in> L \<Longrightarrow> liContainer s i = Some l \<longleftrightarrow> i \<in> set (lsItems s l)"
  by (simp add: ls_wf_def)

lemma wf_distinct: "ls_wf L s \<Longrightarrow> l \<in> L \<Longrightarrow> distinct (lsItems s l)"
  by (simp add: ls_wf_def)

lemma wf_free: "ls_wf L s \<Longrightarrow> liContainer s i = None \<Longrightarrow> l \<in> L \<Longrightarrow> i \<notin> set (lsItems s l)"
  by (metis option.distinct(1) wf_container)

lemma ring_disjoint:
  assumes "ls_wf L s" "l \<in> L" "k \<in> L" "k \<noteq> l" "c \<in> set (ring l (lsItems s l))"
  shows "c \<notin> set (ring k (lsItems s k))"
proof
  assume "c \<in> set (ring k (lsItems s k))"
  with assms(4,5) obtain i where "i \<in> set (lsItems s l)" "i \<in> set (lsItems s k)"
    by (auto simp: set_ring)
  then show False using assms(1-4) wf_container by (metis option.inject)
qed

lemma ls_wf_insert_at:
  assumes "ls_wf L s" "l \<in> L" "lsItems s l = us @ vs" "liContainer s i = None"
  shows "ls_wf L (s\<lparr>lsItems := (lsItems s)(l := us @ i # vs),
                  liContainer := (liContainer s)(i := Some l)\<rparr>)"
proof -
  have "i \<notin> set (us @ vs)" using wf_free [OF assms(1,4,2)] assms(3) by simp
  moreover have "k \<in> L \<Longrightarrow> i \<notin> set (lsItems s k)" for k by (rule wf_free [OF assms(1,4)])
  moreover have "distinct (us @ vs)" using wf_distinct [OF assms(1,2)] assms(3) by simp
  ultimately show ?thesis
    using assms unfolding ls_wf_def by auto
qed

lemma refines_insert_at:
  assumes r: "refines L m s" and l: "l \<in> L" and us: "lsItems s l = us @ vs"
    and free: "liContainer s i = None"
    and m': "pxNext m' = (pxNext m)(ItemN i := first_node l vs, last_node l us := ItemN i)"
      "pxPrevious m' = (pxPrevious m)(ItemN i := last_node l us, first_node l vs := ItemN i)"
      "uxNumberOfItems m' = (uxNumberOfItems m)(l := uxNumberOfItems m l + 1)"
      "pxContainer m' = (pxContainer m)(i := Some l)" "xItemValue m' = xItemValue m"
      "pxIndex m' = pxIndex m"
  shows "refines L m' (s\<lparr>lsItems := (lsItems s)(l := us @ i # vs),
                       liContainer := (liContainer s)(i := Some l)\<rparr>)"
proof -
  have wf: "ls_wf L s" using r by (simp add: refines_def)
  have notin: "k \<in> L \<Longrightarrow> ItemN i \<notin> set (ring k (lsItems s k))" for k
    using wf_free [OF wf free, of k] by (auto simp: set_ring)
  have this_l: "linked m' (ring l (us @ i # vs))"
    by (rule ring_insert [OF _ _ _ m'(1,2)])
      (use refinesD(2) [OF r l us] us wf_distinct [OF wf l] wf_free [OF wf free l] in simp_all)
  have other: "linked m' (ring k (lsItems s k))" if k: "k \<in> L" "k \<noteq> l" for k
  proof (rule ring_other)
    show "linked m (ring k (lsItems s k))" using r k by (simp add: refines_def)
    fix c assume c: "c \<in> set (ring k (lsItems s k))"
    have "last_node l us \<notin> set (ring k (lsItems s k))" "first_node l vs \<notin> set (ring k (lsItems s k))"
      using ring_disjoint [OF wf l k(1) k(2)] last_node_in_ring [of l us vs]
        first_node_in_ring [of l vs us] us by metis+
    then show "pxNext m' c = pxNext m c \<and> pxPrevious m' c = pxPrevious m c"
      using c notin [OF k(1)] m'(1,2) by auto
  qed
  show ?thesis
    unfolding refines_def
    using r l us this_l other m' ls_wf_insert_at [OF wf l us free]
    by (auto simp: refines_def)
qed

text \<open>\<^verbatim>\<open>vListInsertEnd\<close> on the linked memory inserts before the index of the sequence.\<close>

lemma refines_insert_end:
  assumes "refines L m s" "l \<in> L" "liContainer s i = None"
  shows "refines L (vListInsertEnd l i m) (ls_insert_end l i s)"
proof -
  define us vs where "us = (case lsIndex s l of None \<Rightarrow> lsItems s l
      | Some j \<Rightarrow> takeWhile (\<lambda>x. x \<noteq> j) (lsItems s l))"
    and "vs = (case lsIndex s l of None \<Rightarrow> [] | Some j \<Rightarrow> dropWhile (\<lambda>x. x \<noteq> j) (lsItems s l))"
  have us: "lsItems s l = us @ vs" "before_index (lsIndex s l) i (lsItems s l) = us @ i # vs"
    by (simp_all add: us_def vs_def split: option.splits)
  have wf: "ls_wf L s" and lk: "linked m (ring l (us @ vs))"
    using refinesD(1,2) [OF assms(1)] assms(2) us(1) by blast+
  have "first_node l vs = idx_node l (lsIndex s l)"
  proof (cases "lsIndex s l")
    case (Some j)
    then have "j \<in> set (lsItems s l)" using wf assms(2) by (simp add: ls_wf_def)
    then obtain zs where "dropWhile (\<lambda>x. x \<noteq> j) (lsItems s l) = j # zs"
      by (metis (mono_tags, lifting) dropWhile_eq_Nil_conv hd_dropWhile list.collapse)
    then show ?thesis using Some by (simp add: vs_def idx_node_def)
  qed (simp add: vs_def idx_node_def)
  then have idx: "pxIndex m l = first_node l vs" using assms(1,2) by (simp add: refines_def)
  have ne: "ItemN i \<noteq> first_node l vs" "ItemN i \<noteq> last_node l us"
    using wf_free [OF wf assms(3,2)] first_node_in_ring [of l vs us] last_node_in_ring [of l us vs]
      us(1) by (auto simp: set_ring)
  have "refines L (vListInsertEnd l i m) (s\<lparr>lsItems := (lsItems s)(l := us @ i # vs),
                       liContainer := (liContainer s)(i := Some l)\<rparr>)"
    by (rule refines_insert_at [OF assms(1,2) us(1) assms(3)])
      (use ne idx ring_adjacent(2) [OF lk] in \<open>auto simp: vListInsertEnd_def Let_def fun_upd_twist\<close>)
  then show ?thesis by (simp add: ls_insert_end_def us(2))
qed

text \<open>
  The search of \<^verbatim>\<open>vListInsert\<close> always ends on a well-formed list when the value is not the
  maximum, and it stops after the last item whose value is not greater.
\<close>

lemma insert_walk_ring:
  assumes "linked m (ring l (us @ vs))" "xItemValue m (EndN l) = portMAX_DELAY"
    "v \<noteq> portMAX_DELAY"
  shows "insert_walk m v (last_node l us) =
     Some (last_node l (us @ takeWhile (\<lambda>x. xItemValue m (ItemN x) \<le> v) vs))"
  using assms(1)
proof (induction vs arbitrary: us)
  case Nil
  then have "pxNext m (last_node l us) = EndN l" using ring_adjacent(1) [of m l us "[]"] by simp
  then show ?case using assms(2,3) by (simp add: insert_walk.simps [of m v])
next
  case (Cons x vs)
  then have nx: "pxNext m (last_node l us) = ItemN x"
    using ring_adjacent(1) [of m l us "x # vs"] by simp
  show ?case
  proof (cases "xItemValue m (ItemN x) \<le> v")
    case True
    have "insert_walk m v (ItemN x) =
        Some (last_node l ((us @ [x]) @ takeWhile (\<lambda>x. xItemValue m (ItemN x) \<le> v) vs))"
      using Cons.IH [of "us @ [x]"] Cons.prems by simp
    then show ?thesis using True nx by (simp add: insert_walk.simps [of m v "last_node l us"])
  next
    case False
    then show ?thesis using nx by (simp add: insert_walk.simps [of m v "last_node l us"])
  qed
qed

lemma refines_insert:
  assumes "refines L m s" "l \<in> L" "liContainer s i = None"
  shows "\<exists>m'. vListInsert l i m = Some m' \<and> refines L m' (ls_insert l i s)"
proof -
  let ?v = "liValue s i"
  define us vs where
    "us = (if ?v = portMAX_DELAY then lsItems s l
           else takeWhile (\<lambda>x. liValue s x \<le> ?v) (lsItems s l))" and
    "vs = (if ?v = portMAX_DELAY then [] else dropWhile (\<lambda>x. liValue s x \<le> ?v) (lsItems s l))"
  note r = refinesD [OF assms(1)]
  have us: "lsItems s l = us @ vs" by (simp add: us_def vs_def)
  have lk: "linked m (ring l (us @ vs))" by (rule r(2) [OF assms(2) us])
  have adj: "pxPrevious m (first_node l vs) = last_node l us"
    "pxNext m (last_node l us) = first_node l vs" using ring_adjacent [OF lk] by simp_all
  have ne: "ItemN i \<noteq> first_node l vs" "ItemN i \<noteq> last_node l us"
    using wf_free [OF r(1) assms(3,2)] first_node_in_ring [of l vs us] last_node_in_ring [of l us vs]
      us by (auto simp: set_ring)
  have pos: "(if ?v = portMAX_DELAY then Some (pxPrevious m (EndN l))
      else insert_walk m ?v (EndN l)) = Some (last_node l us)"
  proof (cases "?v = portMAX_DELAY")
    case True
    then show ?thesis using adj by (simp add: vs_def)
  next
    case False
    then show ?thesis
      using insert_walk_ring [of m l "[]" "lsItems s l" ?v] r(2) [OF assms(2) refl] r(5) assms(2)
      by (simp add: us_def r(6))
  qed
  define m' where "m' = m\<lparr>
      pxNext := (pxNext m)(ItemN i := first_node l vs, last_node l us := ItemN i),
      pxPrevious := (pxPrevious m)(ItemN i := last_node l us, first_node l vs := ItemN i),
      pxContainer := (pxContainer m)(i := Some l),
      uxNumberOfItems := (uxNumberOfItems m)(l := uxNumberOfItems m l + 1)\<rparr>"
  have m': "vListInsert l i m = Some m'"
    using pos adj ne by (simp add: vListInsert_def Let_def r(6) m'_def fun_upd_twist)
  have "ls_insert l i s = s\<lparr>lsItems := (lsItems s)(l := us @ i # vs),
                       liContainer := (liContainer s)(i := Some l)\<rparr>"
    by (simp add: ls_insert_def insert_by_def us_def vs_def)
  then show ?thesis
    using m' refines_insert_at [OF assms(1,2) us assms(3), of m'] by (simp add: m'_def)
qed

lemma ls_insert_eq:
  "ls_insert l i s = s\<lparr>lsItems := (lsItems s)(l := insert_by (liValue s) i (lsItems s l)),
     liContainer := (liContainer s)(i := Some l)\<rparr>"
  by (simp add: ls_insert_def insert_by_def)

text \<open>Removal, the walking index and initialisation.\<close>

lemma prev_of_append:
  "i \<notin> set us \<Longrightarrow> prev_of i (us @ i # vs) = (if us = [] then None else Some (last us))"
proof (induction us rule: prev_of.induct [of _ i])
  case 1
  then show ?case by (cases vs) simp_all
qed auto

lemma idx_node_prev_of:
  "i \<notin> set us \<Longrightarrow> idx_node l (prev_of i (us @ i # vs)) = last_node l us"
  by (simp add: prev_of_append idx_node_def last_node_def last_map)

lemma ls_wf_remove:
  assumes "ls_wf L s" "ls_remove i s = Some (n, s')"
  shows "ls_wf L s'"
proof -
  from assms(2) obtain l where l: "liContainer s i = Some l"
    by (auto simp: ls_remove_def bind_eq_Some_conv)
  then have L: "l \<in> L" using assms(1) by (auto simp: ls_wf_def)
  with l have i: "i \<in> set (lsItems s l)" using wf_container [OF assms(1) L] by simp
  obtain us vs where sp: "lsItems s l = us @ i # vs" "i \<notin> set us"
    using split_list_set [OF i] by blast
  have d: "distinct (us @ i # vs)" using wf_distinct [OF assms(1) L] sp by simp
  have other: "k \<in> L \<Longrightarrow> k \<noteq> l \<Longrightarrow> i \<notin> set (lsItems s k)" for k
    using wf_container [OF assms(1)] l by (metis option.inject)
  have s': "s' = s\<lparr>lsItems := (lsItems s)(l := us @ vs),
      lsIndex := (if lsIndex s l = Some i then (lsIndex s)(l := prev_of i (us @ i # vs))
                  else lsIndex s), liContainer := (liContainer s)(i := None)\<rparr>"
    using assms(2) l sp by (auto simp: ls_remove_def ls_del_def remove1_append_notin)
  have "prev_of i (us @ i # vs) = Some j \<Longrightarrow> j \<in> set (us @ vs)" for j
    using sp(2) by (auto simp: prev_of_append split: if_splits)
  with d other assms(1) l L sp show ?thesis unfolding s' ls_wf_def by auto
qed

lemma refines_remove:
  assumes r: "refines L m s" and l: "liContainer s i = Some l"
  shows "\<exists>n m' s'. uxListRemove i m = Some (n, m') \<and> ls_remove i s = Some (n, s') \<and> refines L m' s'"
proof -
  note rD = refinesD [OF r]
  have L: "l \<in> L" using rD(1) l by (auto simp: ls_wf_def)
  have i: "i \<in> set (lsItems s l)" using wf_container [OF rD(1) L] l by simp
  obtain us vs where sp: "lsItems s l = us @ i # vs" "i \<notin> set us"
    using split_list_set [OF i] by blast
  have d: "distinct (us @ i # vs)" using wf_distinct [OF rD(1) L] sp by simp
  have lk: "linked m (ring l (us @ i # vs))" by (rule rD(2) [OF L sp(1)])
  have adj: "pxPrevious m (ItemN i) = last_node l us" "pxNext m (ItemN i) = first_node l vs"
    using ring_adjacent(2) [OF lk] ring_adjacent(1) [of m l "us @ [i]" vs] lk by simp_all
  have ne: "first_node l vs \<noteq> ItemN i"
    using d by (cases vs) auto
  define m' where "m' = m\<lparr>
      pxNext := (pxNext m)(last_node l us := first_node l vs),
      pxPrevious := (pxPrevious m)(first_node l vs := last_node l us),
      pxIndex := (if pxIndex m l = ItemN i then (pxIndex m)(l := last_node l us) else pxIndex m),
      pxContainer := (pxContainer m)(i := None),
      uxNumberOfItems := (uxNumberOfItems m)(l := uxNumberOfItems m l - 1)\<rparr>"
  define s' where "s' = s\<lparr>lsItems := (lsItems s)(l := us @ vs),
      lsIndex := (if lsIndex s l = Some i then (lsIndex s)(l := prev_of i (us @ i # vs))
                  else lsIndex s), liContainer := (liContainer s)(i := None)\<rparr>"
  have rm: "uxListRemove i m = Some (length (us @ vs), m')" "ls_remove i s = Some (length (us @ vs), s')"
    using l sp adj ne rD(3) [OF L]
    by (simp_all add: uxListRemove_def ls_remove_def ls_del_def Let_def rD(7) remove1_append_notin
        m'_def s'_def)
  have eqs: "pxNext m' = (pxNext m)(last_node l us := first_node l vs)"
      "pxPrevious m' = (pxPrevious m)(first_node l vs := last_node l us)" by (simp_all add: m'_def)
  have this_l: "linked m' (ring l (us @ vs))" by (rule ring_delete [OF lk d eqs(1,2)])
  have other: "linked m' (ring k (lsItems s k))" if k: "k \<in> L" "k \<noteq> l" for k
  proof (rule ring_other)
    show "linked m (ring k (lsItems s k))" by (rule rD(2) [OF k(1) refl])
    fix c assume c: "c \<in> set (ring k (lsItems s k))"
    have "last_node l us \<notin> set (ring k (lsItems s k))" "first_node l vs \<notin> set (ring k (lsItems s k))"
      using ring_disjoint [OF rD(1) L k(1) k(2)] last_node_in_ring [of l us "i # vs"]
        first_node_in_ring [of l vs "us @ [i]"] sp(1) by (metis append_Cons append_Nil append_assoc)+
    then show "pxNext m' c = pxNext m c \<and> pxPrevious m' c = pxPrevious m c"
      using c eqs(1,2) by auto
  qed
  have idx: "pxIndex m l = ItemN i \<longleftrightarrow> lsIndex s l = Some i"
    using rD(4) [OF L] by (auto simp: idx_node_def split: option.splits)
  have "refines L m' s'"
    unfolding refines_def
  proof (intro conjI ballI allI)
    show "ls_wf L s'" by (rule ls_wf_remove [OF rD(1) rm(2)])
    fix k assume k: "k \<in> L"
    show "linked m' (ring k (lsItems s' k))" using this_l other [OF k] by (simp add: s'_def)
    show "uxNumberOfItems m' k = length (lsItems s' k)"
      using rD(3) [OF k] sp by (auto simp: m'_def s'_def)
    show "pxIndex m' k = idx_node k (lsIndex s' k)"
      using rD(4) [OF k] idx idx_node_prev_of [OF sp(2), of l vs] by (simp add: m'_def s'_def)
    show "xItemValue m' (EndN k) = portMAX_DELAY" using rD(5) [OF k] by (simp add: m'_def)
  qed (use rD(6,7) in \<open>simp_all add: m'_def s'_def\<close>)
  with rm show ?thesis by blast
qed

lemma next_of_in:
  assumes "xs \<noteq> []"
  shows "\<exists>j \<in> set xs. next_of k xs = Some j"
proof -
  obtain x zs where xs: "xs = x # zs" using assms by (cases xs) auto
  show ?thesis
  proof (cases k)
    case None
    then show ?thesis using xs by simp
  next
    case (Some j)
    consider "\<exists>a b cs. dropWhile (\<lambda>x. x \<noteq> j) xs = a # b # cs" | "next_of k xs = Some x"
    proof (cases "dropWhile (\<lambda>x. x \<noteq> j) xs")
      case Nil
      then show ?thesis using that(2) Some xs by simp
    next
      case (Cons a bs)
      then show ?thesis using that Some xs by (cases bs) auto
    qed
    then show ?thesis
    proof cases
      case 1
      then obtain a b cs where d: "dropWhile (\<lambda>x. x \<noteq> j) xs = a # b # cs" by blast
      then have "b \<in> set xs" using set_dropWhileD [of b "\<lambda>x. x \<noteq> j" xs] by simp
      then show ?thesis using d Some by simp
    next
      case 2
      then show ?thesis using xs by simp
    qed
  qed
qed

text \<open>Where the code's index goes: the node after the index, skipping the end marker.\<close>

lemma refines_next_entry:
  assumes r: "refines L m s" and l: "l \<in> L" and ne: "lsItems s l \<noteq> []"
  shows "\<exists>j m' s'. listGET_OWNER_OF_NEXT_ENTRY l m = (ItemN j, m') \<and>
     ls_next_entry l s = (Some j, s') \<and> j \<in> set (lsItems s l) \<and> refines L m' s'"
proof -
  note rD = refinesD [OF r]
  let ?xs = "lsItems s l"
  obtain x zs where xs: "?xs = x # zs" using ne by (cases ?xs) auto
  have lk: "linked m (ring l ?xs)" by (rule rD(2) [OF l refl])
  have hd: "pxNext m (EndN l) = ItemN x" using ring_adjacent(1) [of m l "[]" ?xs] lk xs by simp
  obtain j where j: "next_of (lsIndex s l) ?xs = Some j" "j \<in> set ?xs"
    using next_of_in [OF ne] by blast
  have step: "(if pxNext m (pxIndex m l) = EndN l then pxNext m (EndN l)
      else pxNext m (pxIndex m l)) = ItemN j"
  proof (cases "lsIndex s l")
    case None
    then show ?thesis using rD(4) [OF l] hd j xs by (simp add: idx_node_def)
  next
    case (Some k)
    then have k: "k \<in> set ?xs" using rD(1) l by (simp add: ls_wf_def)
    then obtain us vs where sp: "?xs = us @ k # vs" "k \<notin> set us" using split_list_set by metis
    have dw: "dropWhile (\<lambda>x. x \<noteq> k) ?xs = k # vs"
      unfolding sp(1) using sp(2) by (subst dropWhile_append2) auto
    have "pxNext m (ItemN k) = first_node l vs"
      using ring_adjacent(1) [of m l "us @ [k]" vs] lk sp(1) by simp
    then show ?thesis
      using rD(4) [OF l] Some hd j(1) xs dw by (cases vs) (auto simp: idx_node_def)
  qed
  define m' where "m' = m\<lparr>pxIndex := (pxIndex m)(l := ItemN j)\<rparr>"
  define s' where "s' = s\<lparr>lsIndex := (lsIndex s)(l := Some j)\<rparr>"
  have "listGET_OWNER_OF_NEXT_ENTRY l m = (ItemN j, m')"
    using step by (auto simp: listGET_OWNER_OF_NEXT_ENTRY_def Let_def m'_def split: if_splits)
  moreover have "ls_next_entry l s = (Some j, s')"
    using j by (simp add: ls_next_entry_def s'_def Let_def)
  moreover have "refines L m' s'"
    unfolding refines_def
  proof (intro conjI ballI allI)
    show "ls_wf L s'" using rD(1) j by (auto simp: ls_wf_def s'_def)
    fix k assume k: "k \<in> L"
    show "pxIndex m' k = idx_node k (lsIndex s' k)"
      using rD(4) [OF k] by (simp add: m'_def s'_def idx_node_def)
  qed (use rD in \<open>simp_all add: m'_def s'_def\<close>)
  ultimately show ?thesis using j by blast
qed

lemma refines_set_value:
  assumes "refines L m s"
  shows "refines L (m\<lparr>xItemValue := (xItemValue m)(ItemN i := v)\<rparr>) (ls_set_value i v s)"
proof -
  have "linked (m\<lparr>xItemValue := f\<rparr>) ns = linked m ns" for f ns
    by (induction m ns rule: linked.induct) simp_all
  moreover have "ls_wf L (ls_set_value i v s)"
    using refinesD(1) [OF assms] by (auto simp: ls_set_value_def ls_wf_def)
  ultimately show ?thesis using assms by (simp add: refines_def ls_set_value_def)
qed

lemma refines_init_item:
  assumes "refines L m s" "liContainer s i = None"
  shows "refines L (vListInitialiseItem i m) (ls_init_item i s)"
proof -
  have "(liContainer s)(i := None) = liContainer s" using assms(2) by auto
  moreover have "pxContainer m = liContainer s" using refinesD(7) [OF assms(1)] .
  ultimately have "vListInitialiseItem i m = m" "ls_init_item i s = s"
    by (simp_all add: vListInitialiseItem_def ls_init_item_def)
  then show ?thesis using assms(1) by simp
qed

text \<open>A list that no item names as its container can be added to the well-formed ones.\<close>

lemma refines_init:
  assumes r: "refines L m s" and l: "l \<notin> L"
  shows "refines (insert l L) (vListInitialise l m) (ls_init l s)"
proof -
  note rD = refinesD [OF r]
  have other: "linked (vListInitialise l m) (ring k (lsItems s k))" if "k \<in> L" for k
    by (rule ring_other [OF rD(2) [OF that refl]])
      (use that l in \<open>auto simp: vListInitialise_def set_ring\<close>)
  have "liContainer s i \<noteq> Some l" for i using rD(1) l by (auto simp: ls_wf_def)
  then have "ls_wf (insert l L) (ls_init l s)"
    using rD(1) l by (auto simp: ls_wf_def ls_init_def)
  then show ?thesis
    using r l other
    by (auto simp: refines_def ls_init_def ring_def vListInitialise_def idx_node_def)
qed

lemma refines_nothing:
  "refines {} m \<lparr>liValue = (\<lambda>i. xItemValue m (ItemN i)), liContainer = pxContainer m,
     lsItems = f, lsIndex = g\<rparr>" if "pxContainer m = (\<lambda>_. None)"
  using that by (simp add: refines_def ls_wf_def)

section \<open>The interface the kernel relies on\<close>

text \<open>The items of a list, read from the memory along \<open>pxNext\<close>.\<close>

fun items_from :: "nat \<Rightarrow> ('l, 'i) list_mem \<Rightarrow> ('l, 'i) node \<Rightarrow> 'i list" where
  "items_from 0 m n = []"
| "items_from (Suc k) m n = (case n of EndN l \<Rightarrow> [] | ItemN i \<Rightarrow> i # items_from k m (pxNext m n))"

definition list_items :: "('l, 'i) list_mem \<Rightarrow> 'l \<Rightarrow> 'i list" where
  "list_items m l = items_from (uxNumberOfItems m l) m (pxNext m (EndN l))"

lemma items_from_ring:
  "linked m (ring l (us @ vs)) \<Longrightarrow> items_from (length vs) m (first_node l vs) = vs"
proof (induction vs arbitrary: us)
  case (Cons x vs)
  then have "pxNext m (ItemN x) = first_node l vs"
    using ring_adjacent(1) [of m l "us @ [x]" vs] by simp
  then show ?case using Cons.IH [of "us @ [x]"] Cons.prems by simp
qed simp

lemma list_items_refines:
  assumes "refines L m s" "l \<in> L"
  shows "list_items m l = lsItems s l"
proof -
  have lk: "linked m (ring l ([] @ lsItems s l))" using refinesD(2) [OF assms refl] by simp
  then have "pxNext m (EndN l) = first_node l (lsItems s l)"
    using ring_adjacent(1) [OF lk] by simp
  then show ?thesis
    using items_from_ring [OF lk] refinesD(3) [OF assms] by (simp add: list_items_def)
qed

lemma set_insert_by [simp]: "set (insert_by val i xs) = insert i (set xs)"
  using takeWhile_dropWhile_id [of "\<lambda>x. val x \<le> val i" xs]
  by (metis Un_insert_right insert_by_def list.simps(15) set_append)

lemma sorted_insert_by:
  assumes "sorted (map val xs)"
  shows "sorted (map val (insert_by val i xs))"
proof -
  define ts ds where "ts = takeWhile (\<lambda>x. val x \<le> val i) xs"
    and "ds = dropWhile (\<lambda>x. val x \<le> val i) xs"
  have xs: "xs = ts @ ds" and ins: "insert_by val i xs = ts @ i # ds"
    by (simp_all add: ts_def ds_def insert_by_def)
  have t: "\<forall>y \<in> set ts. val y \<le> val i" unfolding ts_def by (meson set_takeWhileD)
  have sd: "sorted (map val ts)" "sorted (map val ds)" using assms by (simp_all add: xs sorted_append)
  have "\<forall>y \<in> set ds. val i \<le> val y"
  proof (cases ds)
    case (Cons z zs)
    then have "\<not> val z \<le> val i" using takeWhile_dropWhile_split [of "\<lambda>x. val x \<le> val i" xs z zs]
      by (simp add: ds_def)
    then show ?thesis using sd(2) Cons by auto
  qed simp
  with t sd show ?thesis unfolding ins by (fastforce simp: sorted_append)
qed

lemma remove1_insert_by:
  assumes "i \<notin> set xs"
  shows "remove1 i (insert_by val i xs) = xs"
proof -
  have "i \<notin> set (takeWhile (\<lambda>x. val x \<le> val i) xs)" using assms set_takeWhileD by metis
  then show ?thesis by (simp add: insert_by_def remove1_append_notin)
qed

text \<open>
  What the kernel components rely on: insertion in order of value and removal, on whatever
  representation of the lists.
\<close>

locale ordered_lists =
  fixes inv :: "'m \<Rightarrow> bool" and items :: "'m \<Rightarrow> 'l \<Rightarrow> 'i list"
    and val :: "'m \<Rightarrow> 'i \<Rightarrow> TickType_t" and container :: "'m \<Rightarrow> 'i \<Rightarrow> 'l option"
    and ins :: "'l \<Rightarrow> 'i \<Rightarrow> 'm \<Rightarrow> 'm option" and rem :: "'i \<Rightarrow> 'm \<Rightarrow> 'm option"
    and L :: "'l set"
  assumes distinct_items: "inv m \<Longrightarrow> l \<in> L \<Longrightarrow> distinct (items m l)"
    and container_iff: "inv m \<Longrightarrow> l \<in> L \<Longrightarrow> container m i = Some l \<longleftrightarrow> i \<in> set (items m l)"
    and ins_law: "inv m \<Longrightarrow> l \<in> L \<Longrightarrow> container m i = None \<Longrightarrow>
      \<exists>m'. ins l i m = Some m' \<and> inv m' \<and> val m' = val m \<and>
        container m' = (container m)(i := Some l) \<and>
        items m' l = insert_by (val m) i (items m l) \<and>
        (\<forall>k \<in> L - {l}. items m' k = items m k)"
    and rem_law: "inv m \<Longrightarrow> l \<in> L \<Longrightarrow> container m i = Some l \<Longrightarrow>
      \<exists>m'. rem i m = Some m' \<and> inv m' \<and> val m' = val m \<and>
        container m' = (container m)(i := None) \<and>
        items m' l = remove1 i (items m l) \<and> (\<forall>k \<in> L - {l}. items m' k = items m k)"
begin

definition in_order :: "'m \<Rightarrow> 'l \<Rightarrow> bool" where
  "in_order m l \<longleftrightarrow> sorted (map (val m) (items m l))"

lemma ins_in_order:
  assumes "inv m" "l \<in> L" "container m i = None" "in_order m l"
  shows "\<exists>m'. ins l i m = Some m' \<and> inv m' \<and> in_order m' l \<and>
    set (items m' l) = insert i (set (items m l)) \<and> (\<forall>k \<in> L - {l}. items m' k = items m k)"
proof -
  obtain m' where "ins l i m = Some m'" "inv m'" "val m' = val m"
    "items m' l = insert_by (val m) i (items m l)" "\<forall>k \<in> L - {l}. items m' k = items m k"
    using ins_law [OF assms(1-3)] by blast
  then show ?thesis using sorted_insert_by assms(4) unfolding in_order_def by fastforce
qed

lemma rem_in_order:
  assumes "inv m" "l \<in> L" "container m i = Some l" "in_order m l"
  shows "\<exists>m'. rem i m = Some m' \<and> inv m' \<and> in_order m' l"
proof -
  obtain m' where m': "rem i m = Some m'" "inv m'" "val m' = val m"
    "items m' l = remove1 i (items m l)"
    using rem_law [OF assms(1-3)] by blast
  have "sorted (map (val m) (remove1 i (items m l)))"
    using assms(4) unfolding in_order_def
    by (metis sorted_map_remove1)
  then show ?thesis using m' unfolding in_order_def by metis
qed

lemma ins_rem:
  assumes "inv m" "l \<in> L" "container m i = None"
  shows "\<exists>m' m''. ins l i m = Some m' \<and> rem i m' = Some m'' \<and> inv m'' \<and>
    container m'' = container m \<and> (\<forall>k \<in> L. items m'' k = items m k)"
proof -
  obtain m' where m': "ins l i m = Some m'" "inv m'" "container m' = (container m)(i := Some l)"
    "items m' l = insert_by (val m) i (items m l)" "\<forall>k \<in> L - {l}. items m' k = items m k"
    using ins_law [OF assms] by blast
  moreover obtain m'' where m'': "rem i m' = Some m''" "inv m''"
    "container m'' = (container m')(i := None)" "items m'' l = remove1 i (items m' l)"
    "\<forall>k \<in> L - {l}. items m'' k = items m' k"
    using rem_law [OF m'(2) assms(2), of i] m'(3) by auto
  moreover have "i \<notin> set (items m l)" using container_iff [OF assms(1,2), of i] assms(3) by simp
  ultimately have "items m'' k = items m k" if "k \<in> L" for k
    using that remove1_insert_by by (metis DiffI singletonD)
  moreover have "container m'' = container m" using m'(3) m''(3) assms(3) by auto
  ultimately show ?thesis using m'(1) m''(1,2) by blast
qed

end

interpretation seq: ordered_lists "ls_wf L" lsItems liValue liContainer
  "\<lambda>l i s. Some (ls_insert l i s)" "\<lambda>i s. map_option snd (ls_remove i s)" L for L
proof (unfold_locales, goal_cases)
  case (1 s l)
  then show ?case by (rule wf_distinct)
next
  case (2 s l i)
  then show ?case by (rule wf_container)
next
  case (3 s l i)
  then have "ls_wf L (ls_insert l i s)"
    using ls_wf_insert_at [of L s l "takeWhile (\<lambda>x. liValue s x \<le> liValue s i) (lsItems s l)"]
    by (simp add: ls_insert_eq insert_by_def)
  then show ?case by (simp add: ls_insert_eq)
next
  case (4 s l i)
  then have rm: "ls_remove i s = Some (length (lsItems (ls_del l i s) l), ls_del l i s)"
    by (simp add: ls_remove_def)
  then show ?case using ls_wf_remove [OF 4(1) rm] by (simp add: ls_del_def)
qed

interpretation linked_mem: ordered_lists "\<lambda>m. \<exists>s. refines L m s" list_items
  "\<lambda>m i. xItemValue m (ItemN i)" pxContainer vListInsert
  "\<lambda>i m. map_option snd (uxListRemove i m)" L for L
proof (unfold_locales, goal_cases)
  case (1 m l)
  then show ?case by (metis list_items_refines refinesD(1) wf_distinct)
next
  case (2 m l i)
  then show ?case by (metis list_items_refines refinesD(1,7) wf_container)
next
  case (3 m l i)
  then obtain s where s: "refines L m s" by blast
  note rD = refinesD [OF s]
  have free: "liContainer s i = None" using 3(3) rD(7) by simp
  obtain m' where m': "vListInsert l i m = Some m'" "refines L m' (ls_insert l i s)"
    using refines_insert [OF s 3(2) free] by blast
  have "(\<lambda>i. xItemValue m (ItemN i)) = liValue s" using rD(6) by blast
  then show ?case
    using m' refinesD [OF m'(2)] list_items_refines [OF s] list_items_refines [OF m'(2)] rD(7) 3(2)
    by (auto simp: ls_insert_eq)
next
  case (4 m l i)
  then obtain s where s: "refines L m s" by blast
  note rD = refinesD [OF s]
  have l: "liContainer s i = Some l" using 4(3) rD(7) by simp
  obtain n m' s' where m': "uxListRemove i m = Some (n, m')" "ls_remove i s = Some (n, s')"
    "refines L m' s'" using refines_remove [OF s l] by blast
  have s': "s' = ls_del l i s" using m'(2) l by (simp add: ls_remove_def)
  show ?case
    using m'(1,3) refinesD [OF m'(3)] list_items_refines [OF s] list_items_refines [OF m'(3)] rD(6,7)
      4(2) s' by (auto simp: ls_del_def)
qed

section \<open>Round robin over a ready list\<close>

fun next_entries :: "nat \<Rightarrow> 'l \<Rightarrow> ('l, 'i) list_mem \<Rightarrow> ('l, 'i) node list" where
  "next_entries 0 l m = []"
| "next_entries (Suc k) l m =
     (let (n, m') = listGET_OWNER_OF_NEXT_ENTRY l m in n # next_entries k l m')"

lemma next_of_nth:
  assumes "distinct xs" "p < length xs"
  shows "next_of (Some (xs ! p)) xs = Some (xs ! (Suc p mod length xs))"
proof -
  let ?x = "xs ! p"
  have sp: "xs = take p xs @ ?x # drop (Suc p) xs" by (rule id_take_nth_drop [OF assms(2)])
  have "?x \<notin> set (take p xs)"
    using assms(1) by (subst (asm) sp) simp
  then have "dropWhile (\<lambda>x. x \<noteq> ?x) (take p xs @ ?x # drop (Suc p) xs) = ?x # drop (Suc p) xs"
    by (subst dropWhile_append2) auto
  then have dw: "dropWhile (\<lambda>x. x \<noteq> ?x) xs = ?x # drop (Suc p) xs"
    using sp by simp
  obtain y ys where y: "xs = y # ys" using assms(2) by (cases xs) auto
  show ?thesis
  proof (cases "Suc p < length xs")
    case True
    then have "drop (Suc p) xs = xs ! Suc p # drop (Suc (Suc p)) xs"
      by (simp add: Cons_nth_drop_Suc)
    then show ?thesis using True dw by simp
  next
    case False
    then have "drop (Suc p) xs = []" "Suc p mod length xs = 0" using assms(2)
      by (simp_all add: not_less le_Suc_eq)
    then show ?thesis using dw y by simp
  qed
qed

lemma next_entries_from:
  assumes "refines L m s" "l \<in> L" "lsItems s l = xs" "p < length xs" "lsIndex s l = Some (xs ! p)"
  shows "next_entries k l m = map (\<lambda>j. ItemN (xs ! ((Suc p + j) mod length xs))) [0..<k]"
  using assms
proof (induction k arbitrary: m s p)
  case (Suc k)
  have ne: "lsItems s l \<noteq> []" using Suc.prems(3,4) by auto
  obtain j m' s' where st: "listGET_OWNER_OF_NEXT_ENTRY l m = (ItemN j, m')"
    "ls_next_entry l s = (Some j, s')" "refines L m' s'"
    using refines_next_entry [OF Suc.prems(1,2) ne] by blast
  let ?q = "Suc p mod length xs"
  have "distinct xs" using wf_distinct [OF refinesD(1) [OF Suc.prems(1)] Suc.prems(2)] Suc.prems(3)
    by simp
  then have s': "j = xs ! ?q" "lsItems s' l = xs" "lsIndex s' l = Some (xs ! ?q)"
    using st(2) Suc.prems(3,5) next_of_nth [of xs p] Suc.prems(4)
    by (auto simp: ls_next_entry_def Let_def simp del: next_of.simps)
  have q: "?q < length xs" using Suc.prems(4) by (cases xs) auto
  have "next_entries k l m' = map (\<lambda>j. ItemN (xs ! ((Suc ?q + j) mod length xs))) [0..<k]"
    by (rule Suc.IH [OF st(3) Suc.prems(2) s'(2) q s'(3)])
  also have "\<dots> = map (\<lambda>j. ItemN (xs ! ((Suc p + Suc j) mod length xs))) [0..<k]"
    using mod_add_left_eq [of "Suc p" "length xs"] by (metis add_Suc add_Suc_right)
  finally show ?case
    using st(1) s'(1) by (simp add: map_upt_Suc del: upt_Suc)
qed simp

lemma next_entries_rotate:
  assumes "refines L m s" "l \<in> L" "lsItems s l = xs" "p < length xs" "lsIndex s l = Some (xs ! p)"
  shows "next_entries (length xs) l m = map ItemN (rotate (Suc p) xs)"
  unfolding next_entries_from [OF assms]
  by (rule nth_equalityI) (simp_all add: nth_rotate del: rotate_Suc)

text \<open>
  The time-slicing walk is fair. From any state of a well-formed list with \<open>n\<close> items, the
  next \<open>n\<close> uses of \<^verbatim>\<open>listGET_OWNER_OF_NEXT_ENTRY\<close> return the items of the list in list order
  from some starting point, so every task of a ready list is selected exactly once per round.
\<close>

theorem round_robin_visits_all:
  assumes "refines L m s" "l \<in> L" "list_items m l \<noteq> []"
  shows "\<exists>k. next_entries (length (list_items m l)) l m = map ItemN (rotate k (list_items m l))"
proof -
  let ?xs = "lsItems s l"
  have xs: "list_items m l = ?xs" by (rule list_items_refines [OF assms(1,2)])
  show ?thesis
  proof (cases "lsIndex s l")
    case (Some j)
    then have "j \<in> set ?xs" using refinesD(1) [OF assms(1)] assms(2) by (simp add: ls_wf_def)
    then obtain p where p: "p < length ?xs" "?xs ! p = j" by (auto simp: in_set_conv_nth)
    then show ?thesis
      using next_entries_rotate [OF assms(1,2) refl p(1)] Some xs by metis
  next
    case None
    let ?p = "length ?xs - 1" and ?s = "s\<lparr>lsIndex := (lsIndex s)(l := Some (last ?xs))\<rparr>"
      and ?m = "m\<lparr>pxIndex := (pxIndex m)(l := ItemN (last ?xs))\<rparr>"
    have ne: "?xs \<noteq> []" using assms(3) xs by simp
    then have p: "?p < length ?xs" "?xs ! ?p = last ?xs" by (simp_all add: last_conv_nth)
    have lk: "linked m (ring l ((butlast ?xs @ [last ?xs]) @ []))"
      using refinesD(2) [OF assms(1,2) refl] ne by simp
    have "pxNext m (ItemN (last ?xs)) = EndN l"
      using ring_adjacent(1) [OF lk] by simp
    then have same: "next_entries k l m = next_entries k l ?m" for k
      using refinesD(4) [OF assms(1,2)] None refines_next_entry [OF assms(1,2) ne]
      by (cases k) (auto simp: listGET_OWNER_OF_NEXT_ENTRY_def Let_def idx_node_def split: if_splits)
    have "refines L ?m ?s"
      unfolding refines_def
    proof (intro conjI ballI allI)
      show "ls_wf L ?s" using refinesD(1) [OF assms(1)] ne by (auto simp: ls_wf_def)
    qed (use refinesD [OF assms(1)] in \<open>auto simp: idx_node_def\<close>)
    then have "next_entries (length ?xs) l ?m = map ItemN (rotate (Suc ?p) ?xs)"
      using next_entries_rotate [OF _ assms(2), of ?m ?s ?xs ?p] p by simp
    then show ?thesis using same xs by metis
  qed
qed

text \<open>A concrete memory for the witnesses: one list, items whose value is their number.\<close>

definition mem0 :: "(unit, nat) list_mem" where
  "mem0 = vListInitialise () \<lparr>
     xItemValue = (\<lambda>n. case n of ItemN i \<Rightarrow> of_nat i | EndN _ \<Rightarrow> 0),
     pxNext = (\<lambda>n. n), pxPrevious = (\<lambda>n. n), pxContainer = (\<lambda>_. None),
     pxIndex = (\<lambda>_. EndN ()), uxNumberOfItems = (\<lambda>_. 0)\<rparr>"

definition seq0 :: "(unit, nat) list_state" where
  "seq0 = \<lparr>liValue = of_nat, liContainer = (\<lambda>_. None), lsItems = (\<lambda>_. []), lsIndex = (\<lambda>_. None)\<rparr>"

lemma refines_mem0: "refines {()} mem0 seq0"
  by (simp add: refines_def ls_wf_def mem0_def seq0_def vListInitialise_def ring_def idx_node_def)

definition mem2 :: "(unit, nat) list_mem" where
  "mem2 = vListInsertEnd () 4 (vListInsertEnd () 9 mem0)"

lemma refines_mem2: "refines {()} mem2 (ls_insert_end () 4 (ls_insert_end () 9 seq0))"
  unfolding mem2_def
  by (intro refines_insert_end refines_mem0) (simp_all add: seq0_def ls_insert_end_def)

lemma list_items_mem2: "list_items mem2 () = [9, 4]"
  using list_items_refines [OF refines_mem2] by (simp add: seq0_def ls_insert_end_def)

theorem round_robin_visits_all_witness:
  "\<exists>k. next_entries 2 () mem2 = map ItemN (rotate k [9, 4])"
  using round_robin_visits_all [OF refines_mem2, of "()"]
  by (simp add: list_items_mem2 numeral_2_eq_2)

text \<open>
  C16: \<^verbatim>\<open>vListInsert\<close> on the linked memory always returns when the item is in no list, keeps the
  representation invariant and the ascending order of the list, adds exactly the new item and
  leaves every other list as it was.
\<close>

theorem vListInsert_keeps_order:
  assumes "refines L m s" "l \<in> L" "pxContainer m i = None"
    "sorted (map (\<lambda>i. xItemValue m (ItemN i)) (list_items m l))"
  shows "\<exists>m'. vListInsert l i m = Some m' \<and> (\<exists>s'. refines L m' s') \<and>
    sorted (map (\<lambda>i. xItemValue m' (ItemN i)) (list_items m' l)) \<and>
    set (list_items m' l) = insert i (set (list_items m l)) \<and>
    (\<forall>k \<in> L - {l}. list_items m' k = list_items m k)"
  using linked_mem.ins_in_order [of L m l i] assms unfolding linked_mem.in_order_def by blast

theorem vListInsert_keeps_order_witness:
  "\<exists>m'. vListInsert () 7 mem0 = Some m' \<and> sorted (map (\<lambda>i. xItemValue m' (ItemN i)) (list_items m' ()))
    \<and> set (list_items m' ()) = {7}"
  using vListInsert_keeps_order [OF refines_mem0, of "()" 7] list_items_refines [OF refines_mem0]
  by (auto simp: seq0_def mem0_def vListInitialise_def)

text \<open>
  Removing an item that was just inserted in order restores every list and the container of
  every item: \<^verbatim>\<open>uxListRemove\<close> undoes \<^verbatim>\<open>vListInsert\<close>.
\<close>

theorem list_insert_remove_roundtrip:
  assumes "refines L m s" "l \<in> L" "pxContainer m i = None"
  shows "\<exists>m1 n m2. vListInsert l i m = Some m1 \<and> uxListRemove i m1 = Some (n, m2) \<and>
    (\<exists>s'. refines L m2 s') \<and> pxContainer m2 = pxContainer m \<and>
    (\<forall>k \<in> L. list_items m2 k = list_items m k)"
  using linked_mem.ins_rem [of L m l i] assms by fastforce

theorem list_insert_remove_roundtrip_witness:
  "\<exists>m1 n m2. vListInsert () 7 mem2 = Some m1 \<and> uxListRemove 7 m1 = Some (n, m2) \<and>
    list_items m2 () = [9, 4]"
proof -
  have "pxContainer mem2 7 = None"
    using refinesD(7) [OF refines_mem2] by (simp add: ls_insert_end_def seq0_def)
  then show ?thesis
    using list_insert_remove_roundtrip [OF refines_mem2, of "()" 7] list_items_mem2 by auto
qed

end
