(* ===== verification/FR_Heap4.thy ===== *)
theory FR_Heap4
  imports FR_Prelude
begin

text \<open>
  \<^verbatim>\<open>portable/MemMang/heap_4.c\<close>: the allocator behind every kernel object of the system. The
  block headers live inside the heap array \<open>ucHeap\<close>; free blocks are chained in address order
  from \<open>xStart\<close> to \<open>pxEnd\<close>. Each function is translated on that header memory; then the heap
  is related to a layout, the sequence of its blocks in address order, on which allocation is
  first fit with splitting and release merges with both neighbours.

  The size field of a header keeps the block's size in its lower 31 bits and the allocated flag in
  bit 31; the model stores the two parts separately (\<open>xBlockSize\<close>, \<open>allocated\<close>). Sizes
  and addresses are natural numbers with the overflow tests of the code written out; the
  invariant bounds them by the heap, so no other addition can wrap.
\<close>

section \<open>State\<close>

datatype blk = xStart | Blk addr

record BlockLink_t =
  pxNextFreeBlock :: addr
  xBlockSize :: nat
  allocated :: bool

record heap4 =
  ucHeap :: addr
  blocks :: "blk \<Rightarrow> BlockLink_t"
  pxEnd :: "addr option"
  xFreeBytesRemaining :: nat
  xMinimumEverFreeBytesRemaining :: nat
  xNumberOfSuccessfulAllocations :: nat
  xNumberOfSuccessfulFrees :: nat

definition xHeapStructSize :: nat where
  "xHeapStructSize = 8"

definition heapMINIMUM_BLOCK_SIZE :: nat where
  "heapMINIMUM_BLOCK_SIZE = 2 * xHeapStructSize"

definition heapADD_WILL_OVERFLOW :: "nat \<Rightarrow> nat \<Rightarrow> bool" where
  "heapADD_WILL_OVERFLOW a b \<longleftrightarrow> a > SIZE_MAX - b"

definition heapMULTIPLY_WILL_OVERFLOW :: "nat \<Rightarrow> nat \<Rightarrow> bool" where
  "heapMULTIPLY_WILL_OVERFLOW a b \<longleftrightarrow> a > 0 \<and> b > SIZE_MAX div a"

definition heapBLOCK_SIZE_IS_VALID :: "nat \<Rightarrow> bool" where
  "heapBLOCK_SIZE_IS_VALID n \<longleftrightarrow> n < 2 ^ 31"

definition heapVALIDATE_BLOCK_POINTER :: "heap4 \<Rightarrow> addr \<Rightarrow> unit option" where
  "heapVALIDATE_BLOCK_POINTER h p =
     configASSERT (ucHeap h \<le> p \<and> p \<le> ucHeap h + configTOTAL_HEAP_SIZE - 1)"

text \<open>Rounding to the alignment, \<^verbatim>\<open>x & ~portBYTE_ALIGNMENT_MASK\<close>.\<close>

definition align_down :: "nat \<Rightarrow> nat" where
  "align_down x = x - x mod portBYTE_ALIGNMENT"

definition upd_blk :: "blk \<Rightarrow> (BlockLink_t \<Rightarrow> BlockLink_t) \<Rightarrow> heap4 \<Rightarrow> heap4" where
  "upd_blk b f h = h\<lparr>blocks := (blocks h)(b := f (blocks h b))\<rparr>"

abbreviation nextOf :: "heap4 \<Rightarrow> blk \<Rightarrow> addr" where
  "nextOf h b \<equiv> pxNextFreeBlock (blocks h b)"

abbreviation sizeOf :: "heap4 \<Rightarrow> blk \<Rightarrow> nat" where
  "sizeOf h b \<equiv> xBlockSize (blocks h b)"

section \<open>Operations\<close>

definition prvHeapInit :: "heap4 \<Rightarrow> heap4" where
  "prvHeapInit h =
     (let start0 = ucHeap h;
          start = (if start0 mod portBYTE_ALIGNMENT \<noteq> 0
                   then align_down (start0 + (portBYTE_ALIGNMENT - 1)) else start0);
          total = (if start0 mod portBYTE_ALIGNMENT \<noteq> 0
                   then configTOTAL_HEAP_SIZE - (start - start0) else configTOTAL_HEAP_SIZE);
          h = upd_blk xStart (\<lambda>b. b\<lparr>pxNextFreeBlock := start, xBlockSize := 0, allocated := False\<rparr>) h;
          e = align_down (start + total - xHeapStructSize);
          h = h\<lparr>pxEnd := Some e\<rparr>;
          h = upd_blk (Blk e) (\<lambda>b. b\<lparr>xBlockSize := 0, allocated := False, pxNextFreeBlock := 0\<rparr>) h;
          h = upd_blk (Blk start)
                (\<lambda>b. b\<lparr>xBlockSize := e - start, allocated := False, pxNextFreeBlock := e\<rparr>) h
      in h\<lparr>xMinimumEverFreeBytesRemaining := e - start, xFreeBytesRemaining := e - start\<rparr>)"

text \<open>Lines 182-219 of \<^verbatim>\<open>pvPortMalloc\<close>: add the header and round up; 0 on overflow.\<close>

definition adjusted_size :: "nat \<Rightarrow> nat" where
  "adjusted_size w =
     (if w > 0 then
        if \<not> heapADD_WILL_OVERFLOW w xHeapStructSize then
          let w = w + xHeapStructSize in
          if w mod portBYTE_ALIGNMENT \<noteq> 0 then
            let a = portBYTE_ALIGNMENT - w mod portBYTE_ALIGNMENT in
            if \<not> heapADD_WILL_OVERFLOW w a then w + a else 0
          else w
        else 0
      else w)"

text \<open>The first-fit search: the block to use and the one before it in the free list.\<close>

partial_function (option) find_block :: "heap4 \<Rightarrow> nat \<Rightarrow> blk \<Rightarrow> addr \<Rightarrow> (blk \<times> addr) option" where
  "find_block h w prev b =
     (if sizeOf h (Blk b) < w \<and> nextOf h (Blk b) \<noteq> 0
      then do { heapVALIDATE_BLOCK_POINTER h (nextOf h (Blk b));
                find_block h w (Blk b) (nextOf h (Blk b)) }
      else Some (prev, b))"

text \<open>Lines 257-313: take block \<open>b\<close> out of the free list after \<open>prev\<close>, splitting it when the
  remainder is larger than the minimum block.\<close>

definition take_block :: "nat \<Rightarrow> blk \<Rightarrow> addr \<Rightarrow> heap4 \<Rightarrow> (addr \<times> heap4) option" where
  "take_block w prev b h = do {
     let pvReturn = nextOf h prev + xHeapStructSize;
     heapVALIDATE_BLOCK_POINTER h pvReturn;
     let h = upd_blk prev (\<lambda>x. x\<lparr>pxNextFreeBlock := nextOf h (Blk b)\<rparr>) h;
     configASSERT (\<not> sizeOf h (Blk b) < w);
     h \<leftarrow> (if sizeOf h (Blk b) - w > heapMINIMUM_BLOCK_SIZE then do {
              let new = b + w;
              configASSERT (new mod portBYTE_ALIGNMENT = 0);
              let h = upd_blk (Blk new)
                    (\<lambda>x. x\<lparr>xBlockSize := sizeOf h (Blk b) - w, allocated := False\<rparr>) h;
              let h = upd_blk (Blk b) (\<lambda>x. x\<lparr>xBlockSize := w\<rparr>) h;
              let h = upd_blk (Blk new) (\<lambda>x. x\<lparr>pxNextFreeBlock := nextOf h prev\<rparr>) h;
              Some (upd_blk prev (\<lambda>x. x\<lparr>pxNextFreeBlock := new\<rparr>) h)
            } else Some h);
     let h = h\<lparr>xFreeBytesRemaining := xFreeBytesRemaining h - sizeOf h (Blk b)\<rparr>;
     let h = (if xFreeBytesRemaining h < xMinimumEverFreeBytesRemaining h
              then h\<lparr>xMinimumEverFreeBytesRemaining := xFreeBytesRemaining h\<rparr> else h);
     let h = upd_blk (Blk b) (\<lambda>x. x\<lparr>allocated := True\<rparr>) h;
     let h = upd_blk (Blk b) (\<lambda>x. x\<lparr>pxNextFreeBlock := 0\<rparr>) h;
     Some (pvReturn, h\<lparr>xNumberOfSuccessfulAllocations := xNumberOfSuccessfulAllocations h + 1\<rparr>)
   }"

text \<open>
  The part of \<^verbatim>\<open>pvPortMalloc\<close> between \<^verbatim>\<open>vTaskSuspendAll\<close> and \<^verbatim>\<open>xTaskResumeAll\<close>, with the size
  computation before it; address 0 is NULL.
\<close>

definition malloc_block :: "nat \<Rightarrow> heap4 \<Rightarrow> (addr \<times> heap4) option" where
  "malloc_block wanted h = do {
     let w = adjusted_size wanted;
     let h = (if pxEnd h = None then prvHeapInit h else h);
     if heapBLOCK_SIZE_IS_VALID w \<and> w > 0 \<and> w \<le> xFreeBytesRemaining h
     then do {
       heapVALIDATE_BLOCK_POINTER h (nextOf h xStart);
       (prev, b) \<leftarrow> find_block h w xStart (nextOf h xStart);
       if pxEnd h \<noteq> Some b then take_block w prev b h else Some (0, h)
     }
     else Some (0, h)
   }"

text \<open>
  The whole of \<^verbatim>\<open>pvPortMalloc\<close> as far as the heap goes: after the scheduler is resumed, a NULL result
  enters \<^verbatim>\<open>vApplicationMallocFailedHook\<close> (\<^verbatim>\<open>configUSE_MALLOC_FAILED_HOOK\<close> is 1), which disables interrupts
  and loops for ever, so that the call never returns; then the result's alignment is asserted.
\<close>

definition vApplicationMallocFailedHook :: "unit option" where
  "vApplicationMallocFailedHook = None"

definition heap_malloc :: "nat \<Rightarrow> heap4 \<Rightarrow> (addr \<times> heap4) option" where
  "heap_malloc wanted h = do {
     (pvReturn, h) \<leftarrow> malloc_block wanted h;
     (if pvReturn = 0 then vApplicationMallocFailedHook else Some ());
     configASSERT (pvReturn mod portBYTE_ALIGNMENT = 0);
     Some (pvReturn, h)
   }"

text \<open>The search loop of \<^verbatim>\<open>prvInsertBlockIntoFreeList\<close>.\<close>

partial_function (option) find_iterator :: "heap4 \<Rightarrow> addr \<Rightarrow> blk \<Rightarrow> blk option" where
  "find_iterator h b it =
     (if nextOf h it < b then find_iterator h b (Blk (nextOf h it)) else Some it)"

text \<open>Lines 540-562: merge with the block that follows, or point at it, and link from the iterator.\<close>

definition join_next :: "blk \<Rightarrow> addr \<Rightarrow> heap4 \<Rightarrow> heap4" where
  "join_next it b h =
     (let h = (if b + sizeOf h (Blk b) = nextOf h it then
                if Some (nextOf h it) \<noteq> pxEnd h then
                  upd_blk (Blk b) (\<lambda>x. x\<lparr>
                    xBlockSize := xBlockSize x + sizeOf h (Blk (nextOf h it)),
                    pxNextFreeBlock := nextOf h (Blk (nextOf h it))\<rparr>) h
                else upd_blk (Blk b) (\<lambda>x. x\<lparr>pxNextFreeBlock := nextOf h it\<rparr>) h
              else upd_blk (Blk b) (\<lambda>x. x\<lparr>pxNextFreeBlock := nextOf h it\<rparr>) h)
      in if it \<noteq> Blk b then upd_blk it (\<lambda>x. x\<lparr>pxNextFreeBlock := b\<rparr>) h else h)"

definition prvInsertBlockIntoFreeList :: "addr \<Rightarrow> heap4 \<Rightarrow> heap4 option" where
  "prvInsertBlockIntoFreeList b h = do {
     it \<leftarrow> find_iterator h b xStart;
     (case it of xStart \<Rightarrow> Some () | Blk a \<Rightarrow> heapVALIDATE_BLOCK_POINTER h a);
     Some (case it of
         xStart \<Rightarrow> join_next it b h
       | Blk a \<Rightarrow>
           if a + sizeOf h it = b
           then join_next it a (upd_blk it (\<lambda>x. x\<lparr>xBlockSize := xBlockSize x + sizeOf h (Blk b)\<rparr>) h)
           else join_next it b h)
   }"

text \<open>\<^verbatim>\<open>vPortFree\<close> (the scheduler suspension around the list update is added by the kernel model).\<close>

definition heap_free :: "addr \<Rightarrow> heap4 \<Rightarrow> heap4 option" where
  "heap_free pv h =
     (if pv \<noteq> 0 then do {
        let link = pv - xHeapStructSize;
        heapVALIDATE_BLOCK_POINTER h link;
        configASSERT (allocated (blocks h (Blk link)));
        configASSERT (nextOf h (Blk link) = 0);
        let h = upd_blk (Blk link) (\<lambda>x. x\<lparr>allocated := False\<rparr>) h;
        let h = h\<lparr>xFreeBytesRemaining := xFreeBytesRemaining h + sizeOf h (Blk link)\<rparr>;
        h \<leftarrow> prvInsertBlockIntoFreeList link h;
        Some (h\<lparr>xNumberOfSuccessfulFrees := xNumberOfSuccessfulFrees h + 1\<rparr>)
      } else Some h)"

definition xPortGetFreeHeapSize :: "heap4 \<Rightarrow> nat" where
  "xPortGetFreeHeapSize h = xFreeBytesRemaining h"

definition xPortGetMinimumEverFreeHeapSize :: "heap4 \<Rightarrow> nat" where
  "xPortGetMinimumEverFreeHeapSize h = xMinimumEverFreeBytesRemaining h"

definition xPortResetHeapMinimumEverFreeHeapSize :: "heap4 \<Rightarrow> heap4" where
  "xPortResetHeapMinimumEverFreeHeapSize h =
     h\<lparr>xMinimumEverFreeBytesRemaining := xFreeBytesRemaining h\<rparr>"

definition vPortHeapResetState :: "heap4 \<Rightarrow> heap4" where
  "vPortHeapResetState h = h\<lparr>pxEnd := None, xFreeBytesRemaining := 0,
     xMinimumEverFreeBytesRemaining := 0, xNumberOfSuccessfulAllocations := 0,
     xNumberOfSuccessfulFrees := 0\<rparr>"

text \<open>\<^verbatim>\<open>pvPortCalloc\<close> up to the \<^verbatim>\<open>memset\<close> of the payload, whose bytes are not part of the model.\<close>

definition heap_calloc :: "nat \<Rightarrow> nat \<Rightarrow> heap4 \<Rightarrow> (addr \<times> heap4) option" where
  "heap_calloc xNum xSize h =
     (if \<not> heapMULTIPLY_WILL_OVERFLOW xNum xSize then heap_malloc (xNum * xSize) h else Some (0, h))"

record HeapStats_t =
  xSizeOfLargestFreeBlockInBytes :: nat
  xSizeOfSmallestFreeBlockInBytes :: nat
  xNumberOfFreeBlocks :: nat
  xAvailableHeapSpaceInBytes :: nat
  statsMinimumEver :: nat
  statsAllocations :: nat
  statsFrees :: nat

text \<open>The loop of \<^verbatim>\<open>vPortGetHeapStats\<close>: count, largest and smallest free block.\<close>

partial_function (option) stats_loop ::
  "heap4 \<Rightarrow> addr \<Rightarrow> nat \<times> nat \<times> nat \<Rightarrow> (nat \<times> nat \<times> nat) option" where
  "stats_loop h b acc =
     (if pxEnd h = Some b then Some acc
      else (case acc of (n, mx, mn) \<Rightarrow>
        stats_loop h (nextOf h (Blk b))
          (n + 1, (if sizeOf h (Blk b) > mx then sizeOf h (Blk b) else mx),
           (if sizeOf h (Blk b) < mn then sizeOf h (Blk b) else mn))))"

definition vPortGetHeapStats :: "heap4 \<Rightarrow> HeapStats_t option" where
  "vPortGetHeapStats h = do {
     (n, mx, mn) \<leftarrow> (if nextOf h xStart \<noteq> 0 then stats_loop h (nextOf h xStart) (0, 0, SIZE_MAX)
                       else Some (0, 0, SIZE_MAX));
     Some \<lparr>xSizeOfLargestFreeBlockInBytes = mx, xSizeOfSmallestFreeBlockInBytes = mn,
       xNumberOfFreeBlocks = n, xAvailableHeapSpaceInBytes = xFreeBytesRemaining h,
       statsMinimumEver = xMinimumEverFreeBytesRemaining h,
       statsAllocations = xNumberOfSuccessfulAllocations h,
       statsFrees = xNumberOfSuccessfulFrees h\<rparr>
   }"

lemmas [heap_defs] = xHeapStructSize_def heapMINIMUM_BLOCK_SIZE_def heapADD_WILL_OVERFLOW_def
  heapMULTIPLY_WILL_OVERFLOW_def heapBLOCK_SIZE_IS_VALID_def heapVALIDATE_BLOCK_POINTER_def
  align_down_def upd_blk_def portBYTE_ALIGNMENT_def configTOTAL_HEAP_SIZE_def SIZE_MAX_def

section \<open>Layouts\<close>

text \<open>
  A layout lists the blocks between the first heap address and \<open>pxEnd\<close> in address order:
  address, size with header, allocated or free. It tiles the heap, and two free blocks are never
  neighbours.
\<close>

type_synonym block = "addr \<times> nat \<times> bool"

fun tiles :: "addr \<Rightarrow> block list \<Rightarrow> addr \<Rightarrow> bool" where
  "tiles a [] e = (a = e)"
| "tiles a ((b, n, al) # bs) e = (a = b \<and> 0 < n \<and> n mod 8 = 0 \<and> tiles (b + n) bs e)"

fun coalesced :: "block list \<Rightarrow> bool" where
  "coalesced ((a, n, al) # (b, k, bl) # bs) = ((al \<or> bl) \<and> coalesced ((b, k, bl) # bs))"
| "coalesced _ = True"

definition free_addrs :: "block list \<Rightarrow> addr list" where
  "free_addrs bs = map fst (filter (\<lambda>(a, n, al). \<not> al) bs)"

definition free_bytes :: "block list \<Rightarrow> nat" where
  "free_bytes bs = sum_list (map (\<lambda>(a, n, al). if al then 0 else n) bs)"

definition total_bytes :: "block list \<Rightarrow> nat" where
  "total_bytes bs = sum_list (map (\<lambda>(a, n, al). n) bs)"

text \<open>The chain of free blocks from a header through the given addresses to \<open>e\<close>.\<close>

fun chain :: "heap4 \<Rightarrow> blk \<Rightarrow> addr list \<Rightarrow> addr \<Rightarrow> bool" where
  "chain h p [] e = (nextOf h p = e)"
| "chain h p (a # as) e = (nextOf h p = a \<and> chain h (Blk a) as e)"

definition headers_ok :: "heap4 \<Rightarrow> block list \<Rightarrow> bool" where
  "headers_ok h bs \<longleftrightarrow> (\<forall>(a, n, al) \<in> set bs. sizeOf h (Blk a) = n \<and>
     allocated (blocks h (Blk a)) = al \<and> (al \<longrightarrow> nextOf h (Blk a) = 0))"

text \<open>The heap \<open>h\<close> has the layout \<open>bs\<close> between \<open>st\<close> and \<open>e\<close>.\<close>

definition heap_rep :: "heap4 \<Rightarrow> addr \<Rightarrow> block list \<Rightarrow> addr \<Rightarrow> bool" where
  "heap_rep h st bs e \<longleftrightarrow>
     0 < st \<and> st mod 8 = 0 \<and> ucHeap h \<le> st \<and> e + xHeapStructSize \<le> ucHeap h + configTOTAL_HEAP_SIZE \<and>
     pxEnd h = Some e \<and> tiles st bs e \<and> coalesced bs \<and> headers_ok h bs \<and>
     chain h xStart (free_addrs bs) e \<and> sizeOf h (Blk e) = 0 \<and> nextOf h (Blk e) = 0 \<and>
     xFreeBytesRemaining h = free_bytes bs \<and>
     xMinimumEverFreeBytesRemaining h \<le> xFreeBytesRemaining h"

lemma tiles_append: "tiles a (xs @ ys) e \<longleftrightarrow> (\<exists>m. tiles a xs m \<and> tiles m ys e)"
  by (induction a xs e rule: tiles.induct) auto

lemma tiles_le: "tiles a bs e \<Longrightarrow> a \<le> e"
  by (induction a bs e rule: tiles.induct) auto

lemma tiles_mem:
  "tiles a bs e \<Longrightarrow> (b, n, al) \<in> set bs \<Longrightarrow> a \<le> b \<and> b + n \<le> e \<and> 0 < n \<and> n mod 8 = 0"
proof (induction a bs e rule: tiles.induct)
  case (2 a c k cl bs e)
  then show ?case using tiles_le by fastforce
qed simp

lemma tiles_aligned: "tiles a bs e \<Longrightarrow> a mod 8 = 0 \<Longrightarrow> e mod 8 = 0"
proof (induction a bs e rule: tiles.induct)
  case (2 a c k cl bs e)
  then have "(c + k) mod 8 = 0" by (metis add_0 mod_add_eq mod_0 tiles.simps(2))
  then show ?case using 2 by simp
qed simp

lemma tiles_total: "tiles a bs e \<Longrightarrow> e = a + total_bytes bs"
  by (induction a bs e rule: tiles.induct) (auto simp: total_bytes_def)

lemma free_addrs_simps [simp]:
  "free_addrs [] = []" "free_addrs (xs @ ys) = free_addrs xs @ free_addrs ys"
  "free_addrs ((a, n, True) # bs) = free_addrs bs"
  "free_addrs ((a, n, False) # bs) = a # free_addrs bs"
  by (simp_all add: free_addrs_def)

lemma free_bytes_simps [simp]:
  "free_bytes [] = 0" "free_bytes (xs @ ys) = free_bytes xs + free_bytes ys"
  "free_bytes ((a, n, True) # bs) = free_bytes bs"
  "free_bytes ((a, n, False) # bs) = n + free_bytes bs"
  by (simp_all add: free_bytes_def)

lemma free_addrs_mem: "a \<in> set (free_addrs bs) \<longleftrightarrow> (\<exists>n. (a, n, False) \<in> set bs)"
  by (force simp: free_addrs_def)

lemma free_addrs_range:
  "tiles st bs e \<Longrightarrow> a \<in> set (free_addrs bs) \<Longrightarrow> st \<le> a \<and> a < e"
  by (force simp: free_addrs_mem dest: tiles_mem)

lemma coalesced_append:
  "coalesced (xs @ ys) \<longleftrightarrow> coalesced xs \<and> coalesced ys \<and>
     (xs = [] \<or> ys = [] \<or> snd (snd (last xs)) \<or> snd (snd (hd ys)))"
  apply (induction xs rule: coalesced.induct)
    apply simp
   apply simp
  subgoal for v by (cases v; cases ys) auto
  done

lemma chain_append:
  "chain h p (as @ a # bs) e \<longleftrightarrow> chain h p as a \<and> chain h (Blk a) bs e"
  by (induction h p as a rule: chain.induct) auto

lemma chain_cong:
  "chain h p as e \<Longrightarrow> (\<And>q. q = p \<or> q \<in> Blk ` set as \<Longrightarrow> nextOf h' q = nextOf h q) \<Longrightarrow> chain h' p as e"
  by (induction h p as e rule: chain.induct) auto

fun last_blk :: "blk \<Rightarrow> addr list \<Rightarrow> blk" where
  "last_blk p [] = p"
| "last_blk p (a # as) = last_blk (Blk a) as"

lemma last_blk_cases: "last_blk p as = p \<or> last_blk p as \<in> Blk ` set as"
  by (induction p as rule: last_blk.induct) auto

lemma last_blk_snoc [simp]: "last_blk p (as @ [a]) = Blk a"
  by (induction p as rule: last_blk.induct) auto

lemma last_blk_in: "as \<noteq> [] \<Longrightarrow> last_blk p as \<in> Blk ` set as"
  by (cases as rule: rev_cases) simp_all

text \<open>Redirecting the last link of a chain.\<close>

lemma chain_redirect:
  assumes "chain h p as e" "distinct as" "p \<notin> Blk ` set as"
    "nextOf h' (last_blk p as) = e'"
    "\<And>q. q = p \<or> q \<in> Blk ` set as \<Longrightarrow> q \<noteq> last_blk p as \<Longrightarrow> nextOf h' q = nextOf h q"
  shows "chain h' p as e'"
  using assms
proof (induction as arbitrary: p)
  case (Cons a as)
  have ne: "p \<noteq> last_blk p (a # as)"
    using Cons.prems(3) last_blk_in [of "a # as" p] by auto
  have "chain h' (Blk a) as e'"
  proof (rule Cons.IH)
    show "chain h (Blk a) as e" "distinct as" "Blk a \<notin> Blk ` set as"
      using Cons.prems(1,2) by auto
    show "nextOf h' (last_blk (Blk a) as) = e'" using Cons.prems(4) by simp
  qed (use Cons.prems(5) in auto)
  moreover have "nextOf h' p = nextOf h p" using Cons.prems(5) [of p] ne by simp
  ultimately show ?case using Cons.prems(1) by simp
qed simp

lemma chain_start:
  assumes "chain h p as e" "nextOf h' q = nextOf h p"
    "\<And>r. r \<in> Blk ` set as \<Longrightarrow> nextOf h' r = nextOf h r"
  shows "chain h' q as e"
  using assms by (cases as) (auto intro: chain_cong)

lemma chain_join:
  assumes "chain h' p as (nextOf h q)" "chain h q bs e"
    "\<And>r. r \<in> Blk ` set bs \<Longrightarrow> nextOf h' r = nextOf h r"
  shows "chain h' p (as @ bs) e"
proof (cases bs)
  case (Cons b bs')
  then have "chain h' (Blk b) bs' e" using assms(2,3) by (auto intro: chain_cong)
  then show ?thesis using assms(1,2) Cons by (simp add: chain_append)
qed (use assms in simp)

lemma tiles_distinct: "tiles st bs e \<Longrightarrow> distinct (map fst bs)"
proof (induction st bs e rule: tiles.induct)
  case (2 a b n al bs e)
  then show ?case by (auto dest: tiles_mem)
qed simp

lemma distinct_free_addrs: "tiles st bs e \<Longrightarrow> distinct (free_addrs bs)"
  unfolding free_addrs_def by (rule distinct_map_filter) (rule tiles_distinct)

section \<open>Allocation\<close>

lemma find_block_found:
  assumes "chain h p (as @ a # bs) e" "\<forall>c \<in> set as. sizeOf h (Blk c) < w" "w \<le> sizeOf h (Blk a)"
    "\<forall>c \<in> set (as @ [a]). c \<noteq> 0 \<and> heapVALIDATE_BLOCK_POINTER h c = Some ()"
  shows "find_block h w p (nextOf h p) = Some (last_blk p as, a)"
  using assms
proof (induction as arbitrary: p)
  case Nil
  then show ?case by (simp add: find_block.simps)
next
  case (Cons c as)
  then have nx: "nextOf h p = c" and c: "chain h (Blk c) (as @ a # bs) e" by auto
  have "nextOf h (Blk c) \<in> set (as @ [a])" using c by (cases as) auto
  then have v: "nextOf h (Blk c) \<noteq> 0" "heapVALIDATE_BLOCK_POINTER h (nextOf h (Blk c)) = Some ()"
    using Cons.prems(4) by auto
  have "find_block h w (Blk c) (nextOf h (Blk c)) = Some (last_blk (Blk c) as, a)"
    by (rule Cons.IH [OF c]) (use Cons.prems in auto)
  then show ?case using nx v Cons.prems(2) by (simp add: find_block.simps [of h w p c])
qed

lemma find_block_none:
  assumes "chain h p as e" "\<forall>c \<in> set as. sizeOf h (Blk c) < w" "nextOf h (Blk e) = 0"
    "\<forall>c \<in> set (as @ [e]). c \<noteq> 0 \<and> heapVALIDATE_BLOCK_POINTER h c = Some ()"
  shows "find_block h w p (nextOf h p) = Some (last_blk p as, e)"
  using assms
proof (induction as arbitrary: p)
  case Nil
  then show ?case by (simp add: find_block.simps)
next
  case (Cons c as)
  then have nx: "nextOf h p = c" and c: "chain h (Blk c) as e" by auto
  have "nextOf h (Blk c) \<in> set (as @ [e])" using c by (cases as) auto
  then have v: "nextOf h (Blk c) \<noteq> 0" "heapVALIDATE_BLOCK_POINTER h (nextOf h (Blk c)) = Some ()"
    using Cons.prems(4) by auto
  have "find_block h w (Blk c) (nextOf h (Blk c)) = Some (last_blk (Blk c) as, e)"
    by (rule Cons.IH [OF c]) (use Cons.prems in auto)
  then show ?case using nx v Cons.prems(2) by (simp add: find_block.simps [of h w p c])
qed

text \<open>The specification of allocation on layouts: first fit, split when more than 16 bytes remain.\<close>

definition carve :: "nat \<Rightarrow> addr \<Rightarrow> nat \<Rightarrow> block list" where
  "carve w a n = (if n - w > heapMINIMUM_BLOCK_SIZE then [(a, w, True), (a + w, n - w, False)]
                  else [(a, n, True)])"

fun spec_malloc :: "nat \<Rightarrow> block list \<Rightarrow> (addr \<times> block list) option" where
  "spec_malloc w [] = None"
| "spec_malloc w ((a, n, al) # bs) =
     (if \<not> al \<and> w \<le> n then Some (a, carve w a n @ bs)
      else map_option (\<lambda>(p, bs'). (p, (a, n, al) # bs')) (spec_malloc w bs))"

lemma spec_malloc_Some:
  "spec_malloc w bs = Some (a, bs') \<Longrightarrow>
     \<exists>us n vs. bs = us @ (a, n, False) # vs \<and> w \<le> n \<and> bs' = us @ carve w a n @ vs \<and>
       (\<forall>(b, k, al) \<in> set us. \<not> al \<longrightarrow> k < w)"
proof (induction w bs arbitrary: bs' rule: spec_malloc.induct)
  case (2 w c k al bs)
  show ?case
  proof (cases "\<not> al \<and> w \<le> k")
    case True
    then show ?thesis using "2.prems" by (intro exI [of _ "[]"]) auto
  next
    case False
    then obtain bs'' where b: "spec_malloc w bs = Some (a, bs'')" "bs' = (c, k, al) # bs''"
      using "2.prems" by auto
    then obtain us n vs where "bs = us @ (a, n, False) # vs" "w \<le> n" "bs'' = us @ carve w a n @ vs"
      "\<forall>(b, k, al) \<in> set us. \<not> al \<longrightarrow> k < w" using "2.IH" False by blast
    then show ?thesis using b False by (intro exI [of _ "(c, k, al) # us"]) auto
  qed
qed simp

lemma spec_malloc_None:
  "spec_malloc w bs = None \<longleftrightarrow> (\<forall>(b, k, al) \<in> set bs. \<not> al \<longrightarrow> k < w)"
  by (induction w bs rule: spec_malloc.induct) auto

lemma heap_rep_valid:
  assumes "heap_rep h st bs e" "c \<in> set (free_addrs bs) \<or> c = e"
  shows "c \<noteq> 0 \<and> heapVALIDATE_BLOCK_POINTER h c = Some ()"
proof -
  have "st \<le> c \<and> c \<le> e"
    using assms free_addrs_range [of st bs e c] tiles_le [of st bs e] by (auto simp: heap_rep_def)
  then show ?thesis
    using assms(1) by (auto simp: heap_rep_def heapVALIDATE_BLOCK_POINTER_def xHeapStructSize_def)
qed

lemma headers_okD:
  "headers_ok h bs \<Longrightarrow> (a, n, al) \<in> set bs \<Longrightarrow>
     sizeOf h (Blk a) = n \<and> allocated (blocks h (Blk a)) = al \<and> (al \<longrightarrow> nextOf h (Blk a) = 0)"
  by (auto simp: headers_ok_def)

lemma free_sizes:
  "headers_ok h bs \<Longrightarrow> c \<in> set (free_addrs bs) \<Longrightarrow> (c, sizeOf h (Blk c), False) \<in> set bs"
  by (auto simp: free_addrs_mem headers_ok_def)

lemma free_bytes_ge: "(a, n, False) \<in> set bs \<Longrightarrow> n \<le> free_bytes bs"
proof (induction bs)
  case (Cons b bs)
  then show ?case by (cases b; cases "snd (snd b)") auto
qed simp

lemma free_bytes_le: "free_bytes bs \<le> total_bytes bs"
  by (induction bs) (auto simp: free_bytes_def total_bytes_def)

lemma headers_ok_cong:
  assumes "headers_ok h bs"
    "\<And>a n al. (a, n, al) \<in> set bs \<Longrightarrow> sizeOf h' (Blk a) = sizeOf h (Blk a) \<and>
       allocated (blocks h' (Blk a)) = allocated (blocks h (Blk a)) \<and>
       (al \<longrightarrow> nextOf h' (Blk a) = nextOf h (Blk a))"
  shows "headers_ok h' bs"
  using assms unfolding headers_ok_def by fastforce

lemma chain_last: "chain h p as a \<Longrightarrow> nextOf h (last_blk p as) = a"
  by (induction h p as a rule: chain.induct) auto

text \<open>Everything known around one block of a layout.\<close>

lemma split_facts:
  assumes "heap_rep h st (us @ (a, n, al) # vs) e"
  shows "tiles st us a" "tiles (a + n) vs e" "0 < n" "n mod 8 = 0" "a mod 8 = 0"
    "0 < a" "\<forall>(b, k, bl) \<in> set us. b + k \<le> a \<and> 0 < k" "\<forall>(b, k, bl) \<in> set vs. a + n \<le> b \<and> b < e"
    "a + n \<le> e" "\<forall>c \<in> set (free_addrs us). c < a" "\<forall>c \<in> set (free_addrs vs). a + n \<le> c"
    "headers_ok h us" "headers_ok h vs" "sizeOf h (Blk a) = n" "allocated (blocks h (Blk a)) = al"
    "al \<Longrightarrow> nextOf h (Blk a) = 0"
proof -
  have t: "tiles st (us @ (a, n, al) # vs) e" and st: "0 < st" "st mod 8 = 0"
    and hd: "headers_ok h (us @ (a, n, al) # vs)"
    using assms by (auto simp: heap_rep_def)
  from t show u: "tiles st us a" and v: "tiles (a + n) vs e" and "0 < n" "n mod 8 = 0"
    by (auto simp: tiles_append)
  show "a mod 8 = 0" using tiles_aligned [OF u st(2)] .
  show "0 < a" using tiles_le [OF u] st(1) by simp
  show us: "\<forall>(b, k, bl) \<in> set us. b + k \<le> a \<and> 0 < k" using tiles_mem [OF u] by auto
  show vs: "\<forall>(b, k, bl) \<in> set vs. a + n \<le> b \<and> b < e" using tiles_mem [OF v] by fastforce
  show "a + n \<le> e" using tiles_le [OF v] .
  show "\<forall>c \<in> set (free_addrs us). c < a" using us by (fastforce simp: free_addrs_mem)
  show "\<forall>c \<in> set (free_addrs vs). a + n \<le> c" using vs by (fastforce simp: free_addrs_mem)
  show "headers_ok h us" "headers_ok h vs" using hd by (auto simp: headers_ok_def)
  show "sizeOf h (Blk a) = n" "allocated (blocks h (Blk a)) = al" "al \<Longrightarrow> nextOf h (Blk a) = 0"
    using hd by (auto simp: headers_ok_def)
qed

lemma take_block_carve:
  assumes rep: "heap_rep h st (us @ (a, n, False) # vs) e" and w: "w \<le> n" "w mod 8 = 0" "0 < w"
  shows "\<exists>h'. take_block w (last_blk xStart (free_addrs us)) a h = Some (a + xHeapStructSize, h') \<and>
    heap_rep h' st (us @ carve w a n @ vs) e"
proof -
  let ?pr = "last_blk xStart (free_addrs us)" and ?F = "free_addrs us" and ?G = "free_addrs vs"
  note f = split_facts [OF rep]
  have ch: "chain h xStart ?F a" "chain h (Blk a) ?G e"
    using rep by (simp_all add: heap_rep_def chain_append)
  have e0: "sizeOf h (Blk e) = 0" "nextOf h (Blk e) = 0" "pxEnd h = Some e"
    using rep by (auto simp: heap_rep_def)
  have pr_next: "nextOf h ?pr = a" by (rule chain_last [OF ch(1)])
  have pr: "?pr = xStart \<or> (\<exists>c. ?pr = Blk c \<and> c < a \<and> c \<in> set ?F)"
    using last_blk_cases [of xStart ?F] f(10) by auto
  have valid: "heapVALIDATE_BLOCK_POINTER h (a + xHeapStructSize) = Some ()"
    using rep tiles_le [OF f(1)] f(3,9)
    by (auto simp: heap_rep_def heapVALIDATE_BLOCK_POINTER_def xHeapStructSize_def)
  have dist: "distinct ?F" by (rule distinct_free_addrs [OF f(1)])
  have nf: "(c, k, True) \<in> set us \<Longrightarrow> c \<notin> set ?F" for c k
    using free_sizes [OF f(12)] headers_okD [OF f(12)] by blast
  have freeb: "xFreeBytesRemaining h = free_bytes us + n + free_bytes vs"
    using rep by (simp add: heap_rep_def)
  show ?thesis
  proof (cases "n - w > heapMINIMUM_BLOCK_SIZE")
    case True
    then have wn: "w < n" "0 < n - w" by auto
    have al: "(a + w) mod 8 = 0" "(n - w) mod 8 = 0"
      using f(4,5) w by presburger+
    have ne: "?pr \<noteq> Blk a" "?pr \<noteq> Blk (a + w)" "Blk a \<noteq> Blk (a + w)" using pr w(3) by auto
    define h' where "h' = h\<lparr>
      blocks := (blocks h)(?pr := (blocks h ?pr)\<lparr>pxNextFreeBlock := a + w\<rparr>,
        Blk a := (blocks h (Blk a))\<lparr>xBlockSize := w, allocated := True, pxNextFreeBlock := 0\<rparr>,
        Blk (a + w) := (blocks h (Blk (a + w)))\<lparr>xBlockSize := n - w, allocated := False,
          pxNextFreeBlock := nextOf h (Blk a)\<rparr>),
      xFreeBytesRemaining := xFreeBytesRemaining h - w,
      xMinimumEverFreeBytesRemaining :=
        min (xFreeBytesRemaining h - w) (xMinimumEverFreeBytesRemaining h),
      xNumberOfSuccessfulAllocations := xNumberOfSuccessfulAllocations h + 1\<rparr>"
    have "take_block w ?pr a h = Some (a + xHeapStructSize, h')"
      using True valid pr_next f(14) al(1) ne ne [symmetric] w(1)
      by (simp add: take_block_def h'_def Let_def upd_blk_def portBYTE_ALIGNMENT_def min_def)
        (intro conjI impI ext heap4.equality; simp)
    moreover have "heap_rep h' st (us @ carve w a n @ vs) e"
      unfolding heap_rep_def
    proof (intro conjI)
      have cv: "carve w a n = [(a, w, True), (a + w, n - w, False)]" using True by (simp add: carve_def)
      show "tiles st (us @ carve w a n @ vs) e"
        using f(1,2) w wn al by (auto simp: cv tiles_append)
      show "coalesced (us @ carve w a n @ vs)"
        using rep by (cases vs) (auto simp: cv heap_rep_def coalesced_append)
      have "headers_ok h' us"
        by (rule headers_ok_cong [OF f(12)]) (use f(7) pr nf in \<open>auto simp: h'_def\<close>)
      moreover have "headers_ok h' vs"
        by (rule headers_ok_cong [OF f(13)]) (use f(8) w wn pr in \<open>fastforce simp: h'_def\<close>)
      ultimately show "headers_ok h' (us @ carve w a n @ vs)"
        using ne by (auto simp: headers_ok_def cv h'_def)
      have "chain h' xStart ?F (a + w)"
        by (rule chain_redirect [OF ch(1) dist]) (use f(10) ne in \<open>auto simp: h'_def\<close>)
      moreover have "chain h' (Blk (a + w)) ?G e"
        by (rule chain_start [OF ch(2)]) (use f(11) w wn pr ne in \<open>auto simp: h'_def\<close>)
      ultimately show "chain h' xStart (free_addrs (us @ carve w a n @ vs)) e"
        by (simp add: cv chain_append)
      show "sizeOf h' (Blk e) = 0" "nextOf h' (Blk e) = 0"
        using e0 f(9) wn w pr by (auto simp: h'_def)
      show "xFreeBytesRemaining h' = free_bytes (us @ carve w a n @ vs)"
        using freeb wn by (simp add: cv h'_def)
    qed (use rep in \<open>auto simp: heap_rep_def h'_def\<close>)
    ultimately show ?thesis by blast
  next
    case False
    have ne: "?pr \<noteq> Blk a" using pr by auto
    define h' where "h' = h\<lparr>
      blocks := (blocks h)(?pr := (blocks h ?pr)\<lparr>pxNextFreeBlock := nextOf h (Blk a)\<rparr>,
        Blk a := (blocks h (Blk a))\<lparr>allocated := True, pxNextFreeBlock := 0\<rparr>),
      xFreeBytesRemaining := xFreeBytesRemaining h - n,
      xMinimumEverFreeBytesRemaining :=
        min (xFreeBytesRemaining h - n) (xMinimumEverFreeBytesRemaining h),
      xNumberOfSuccessfulAllocations := xNumberOfSuccessfulAllocations h + 1\<rparr>"
    have "take_block w ?pr a h = Some (a + xHeapStructSize, h')"
      using False valid pr_next f(14) ne ne [symmetric] w(1)
      by (simp add: take_block_def h'_def Let_def upd_blk_def min_def)
    moreover have "heap_rep h' st (us @ carve w a n @ vs) e"
      unfolding heap_rep_def
    proof (intro conjI)
      have cv: "carve w a n = [(a, n, True)]" using False by (simp add: carve_def)
      show "tiles st (us @ carve w a n @ vs) e"
        using f(1-4) by (auto simp: cv tiles_append)
      show "coalesced (us @ carve w a n @ vs)"
        using rep by (cases vs) (auto simp: cv heap_rep_def coalesced_append)
      have "headers_ok h' us"
        by (rule headers_ok_cong [OF f(12)]) (use f(7) pr nf in \<open>auto simp: h'_def\<close>)
      moreover have "headers_ok h' vs"
        by (rule headers_ok_cong [OF f(13)]) (use f(3,8) pr in \<open>fastforce simp: h'_def\<close>)
      ultimately show "headers_ok h' (us @ carve w a n @ vs)"
        using ne f(14) by (auto simp: headers_ok_def cv h'_def)
      have "chain h' xStart ?F (nextOf h (Blk a))"
        by (rule chain_redirect [OF ch(1) dist]) (use f(10) ne in \<open>auto simp: h'_def\<close>)
      then have "chain h' xStart (?F @ ?G) e"
        by (rule chain_join [OF _ ch(2)]) (use f(3,11) pr in \<open>auto simp: h'_def\<close>)
      then show "chain h' xStart (free_addrs (us @ carve w a n @ vs)) e"
        by (simp add: cv)
      show "sizeOf h' (Blk e) = 0" "nextOf h' (Blk e) = 0"
        using e0 f(3,9) pr by (auto simp: h'_def)
      show "xFreeBytesRemaining h' = free_bytes (us @ carve w a n @ vs)"
        using freeb by (simp add: cv h'_def)
    qed (use rep in \<open>auto simp: heap_rep_def h'_def\<close>)
    ultimately show ?thesis by blast
  qed
qed

lemma adjusted_size_ok:
  assumes "0 < adjusted_size x" "0 < x"
  shows "adjusted_size x mod 8 = 0" "x + xHeapStructSize \<le> adjusted_size x"
    "adjusted_size x < x + 16"
proof -
  let ?y = "x + 8"
  have y: "\<not> x > SIZE_MAX - 8" using assms by (auto simp: adjusted_size_def heap_defs split: if_splits)
  have *: "adjusted_size x = (if ?y mod 8 \<noteq> 0 then ?y + (8 - ?y mod 8) else ?y)"
    using assms y by (auto simp: adjusted_size_def heapADD_WILL_OVERFLOW_def xHeapStructSize_def
        portBYTE_ALIGNMENT_def Let_def split: if_splits)
  show "adjusted_size x mod 8 = 0" unfolding * by presburger
  show "x + xHeapStructSize \<le> adjusted_size x" "adjusted_size x < x + 16"
    unfolding * xHeapStructSize_def by presburger+
qed

lemma malloc_block_refines:
  assumes rep: "heap_rep h st bs e" and w: "0 < x" "0 < adjusted_size x"
  shows "case spec_malloc (adjusted_size x) bs of
      None \<Rightarrow> malloc_block x h = Some (0, h)
    | Some (a, bs') \<Rightarrow>
        \<exists>h'. malloc_block x h = Some (a + xHeapStructSize, h') \<and> heap_rep h' st bs' e"
proof -
  let ?w = "adjusted_size x"
  have ch: "chain h xStart (free_addrs bs) e" and e: "pxEnd h = Some e" "nextOf h (Blk e) = 0"
    and hd: "headers_ok h bs" and t: "tiles st bs e" and fb: "xFreeBytesRemaining h = free_bytes bs"
    using rep by (auto simp: heap_rep_def)
  have total: "total_bytes bs < 2 ^ 31"
    using tiles_total [OF t] rep by (simp add: heap_rep_def configTOTAL_HEAP_SIZE_def)
  have first: "heapVALIDATE_BLOCK_POINTER h (nextOf h xStart) = Some ()"
    using heap_rep_valid [OF rep, of "nextOf h xStart"] ch by (cases "free_addrs bs") auto
  show ?thesis
  proof (cases "spec_malloc ?w bs")
    case None
    have small: "\<forall>c \<in> set (free_addrs bs). sizeOf h (Blk c) < ?w"
      using None free_sizes [OF hd] unfolding spec_malloc_None by fastforce
    have "find_block h ?w xStart (nextOf h xStart) = Some (last_blk xStart (free_addrs bs), e)"
      by (rule find_block_none [OF ch small e(2)]) (use heap_rep_valid [OF rep] in auto)
    then show ?thesis using None first e(1) by (simp add: malloc_block_def Let_def)
  next
    case (Some r)
    then obtain a bs' where r: "spec_malloc ?w bs = Some (a, bs')" by (cases r) auto
    then obtain us n vs where sp: "bs = us @ (a, n, False) # vs" "?w \<le> n"
      "bs' = us @ carve ?w a n @ vs" "\<forall>(b, k, al) \<in> set us. \<not> al \<longrightarrow> k < ?w"
      using spec_malloc_Some by blast
    note f = split_facts [OF rep [unfolded sp(1)]]
    have small: "\<forall>c \<in> set (free_addrs us). sizeOf h (Blk c) < ?w"
      using sp(4) free_sizes [OF f(12)] by fastforce
    have fnd: "find_block h ?w xStart (nextOf h xStart) = Some (last_blk xStart (free_addrs us), a)"
      by (rule find_block_found [OF _ small])
        (use ch sp(1,2) f(14) heap_rep_valid [OF rep] in auto)
    have "?w \<le> free_bytes bs" using sp(1,2) by simp
    moreover have "?w < 2 ^ 31"
      using sp(1,2) free_bytes_le [of bs] total free_bytes_ge [of a n bs] by simp
    ultimately have "malloc_block x h = take_block ?w (last_blk xStart (free_addrs us)) a h"
      using fnd first e(1) f(3,9) w(2) fb
      by (simp add: malloc_block_def Let_def heapBLOCK_SIZE_IS_VALID_def)
    then show ?thesis
      using take_block_carve [OF rep [unfolded sp(1)] sp(2) adjusted_size_ok(1) [OF w(2,1)] w(2)]
        r sp(3) by auto
  qed
qed

text \<open>The first call initialises the heap to a single free block.\<close>

definition heap_start :: "addr \<Rightarrow> addr" where
  "heap_start base = (if base mod 8 \<noteq> 0 then base + (8 - base mod 8) else base)"

definition heap_end :: "addr \<Rightarrow> addr" where
  "heap_end base = (base + configTOTAL_HEAP_SIZE - 8) - (base + configTOTAL_HEAP_SIZE - 8) mod 8"

lemma prvHeapInit_rep:
  assumes "0 < ucHeap h"
  shows "heap_rep (prvHeapInit h) (heap_start (ucHeap h))
    [(heap_start (ucHeap h), heap_end (ucHeap h) - heap_start (ucHeap h), False)]
    (heap_end (ucHeap h))"
proof -
  let ?b = "ucHeap h" and ?s = "heap_start (ucHeap h)" and ?e = "heap_end (ucHeap h)"
  have ad: "align_down x = x - x mod 8" for x by (simp add: align_down_def portBYTE_ALIGNMENT_def)
  have s: "(if ?b mod portBYTE_ALIGNMENT \<noteq> 0 then align_down (?b + (portBYTE_ALIGNMENT - 1)) else ?b) = ?s"
  proof (cases "?b mod 8 = 0")
    case False
    have "?b + 7 = (?b mod 8 - 1) + 8 * (?b div 8 + 1)"
      using False mult_div_mod_eq [of 8 ?b] by simp
    then have "(?b + 7) mod 8 = (?b mod 8 - 1) mod 8" by (metis mod_mult_self2)
    then have "(?b + 7) mod 8 = ?b mod 8 - 1" by (simp add: less_imp_diff_less)
    moreover have "?b mod 8 < 8" by simp
    ultimately show ?thesis using False unfolding heap_start_def ad portBYTE_ALIGNMENT_def by simp
  qed (simp add: heap_start_def portBYTE_ALIGNMENT_def)
  have sb: "?b \<le> ?s" "?s \<le> ?b + 7" "?s mod 8 = 0" unfolding heap_start_def by presburger+
  have e: "align_down (?s + (if ?b mod portBYTE_ALIGNMENT \<noteq> 0 then configTOTAL_HEAP_SIZE - (?s - ?b)
      else configTOTAL_HEAP_SIZE) - xHeapStructSize) = ?e"
  proof (cases "?b mod 8 = 0")
    case False
    then have "?s + (configTOTAL_HEAP_SIZE - (?s - ?b)) = ?b + configTOTAL_HEAP_SIZE"
      using sb by (simp add: configTOTAL_HEAP_SIZE_def)
    then show ?thesis
      using False
      by (simp add: heap_end_def ad portBYTE_ALIGNMENT_def xHeapStructSize_def add.commute [of "ucHeap h"])
  qed (simp add: heap_end_def ad heap_start_def portBYTE_ALIGNMENT_def xHeapStructSize_def)
  define y where "y = ?b + configTOTAL_HEAP_SIZE - 8"
  have "?e = y - y mod 8" by (simp add: heap_end_def y_def)
  then have "?e mod 8 = 0" "?e \<le> y" "y < ?e + 8" by presburger+
  then have eb: "?e + 8 \<le> ?b + configTOTAL_HEAP_SIZE" "?e mod 8 = 0" "?s < ?e"
    using sb(2) by (simp_all add: y_def configTOTAL_HEAP_SIZE_def)
  have "(?e - ?s) mod 8 = 0" using eb sb by presburger
  moreover have "prvHeapInit h = h\<lparr>pxEnd := Some ?e,
      blocks := (blocks h)(xStart := (blocks h xStart)\<lparr>pxNextFreeBlock := ?s, xBlockSize := 0, allocated := False\<rparr>,
        Blk ?e := (blocks h (Blk ?e))\<lparr>xBlockSize := 0, allocated := False, pxNextFreeBlock := 0\<rparr>,
        Blk ?s := (blocks h (Blk ?s))\<lparr>xBlockSize := ?e - ?s, allocated := False, pxNextFreeBlock := ?e\<rparr>),
      xMinimumEverFreeBytesRemaining := ?e - ?s, xFreeBytesRemaining := ?e - ?s\<rparr>"
    unfolding prvHeapInit_def Let_def s e using eb(3) by (simp add: upd_blk_def)
  ultimately show ?thesis
    using assms eb sb by (simp add: heap_rep_def headers_ok_def xHeapStructSize_def)
qed

section \<open>Release\<close>

text \<open>The specification of release on layouts: mark the block free and merge neighbouring free blocks.\<close>

fun merge_free :: "block list \<Rightarrow> block list" where
  "merge_free ((a, n, False) # (b, k, False) # bs) = merge_free ((a, n + k, False) # bs)"
| "merge_free (x # bs) = x # merge_free bs"
| "merge_free [] = []"

definition spec_free :: "addr \<Rightarrow> block list \<Rightarrow> block list" where
  "spec_free a bs = merge_free (map (\<lambda>(b, k, al). (b, k, al \<and> b \<noteq> a)) bs)"

lemma merge_free_id: "coalesced bs \<Longrightarrow> merge_free bs = bs"
  by (induction bs rule: merge_free.induct) (auto elim: coalesced.elims)

lemma find_iterator_last:
  assumes "chain h p (F @ G) e" "\<forall>c \<in> set F. c < b" "\<forall>c \<in> set G. b \<le> c" "b \<le> e"
  shows "find_iterator h b p = Some (last_blk p F)"
  using assms
proof (induction F arbitrary: p)
  case Nil
  then show ?case by (cases G) (auto simp: find_iterator.simps)
next
  case (Cons c F)
  then have "find_iterator h b (Blk c) = Some (last_blk (Blk c) F)" by simp
  then show ?case using Cons.prems(1,2) by (simp add: find_iterator.simps [of h b p])
qed

text \<open>The part of the representation that no operation changes.\<close>

definition heap_frame :: "heap4 \<Rightarrow> addr \<Rightarrow> addr \<Rightarrow> bool" where
  "heap_frame h st e \<longleftrightarrow> 0 < st \<and> st mod 8 = 0 \<and> ucHeap h \<le> st \<and>
     e + xHeapStructSize \<le> ucHeap h + configTOTAL_HEAP_SIZE \<and>
     pxEnd h = Some e \<and> sizeOf h (Blk e) = 0 \<and> nextOf h (Blk e) = 0"

lemma heap_rep_frame: "heap_rep h st bs e \<Longrightarrow> heap_frame h st e"
  by (simp add: heap_rep_def heap_frame_def)

text \<open>Linking a free block between two parts of the heap gives a well-formed heap.\<close>

lemma link_free_block:
  assumes fr: "heap_frame h st e"
    and t: "tiles st us a" "tiles (a + n) vs e" "0 < n" "n mod 8 = 0"
    and hu: "headers_ok h us" and hv: "headers_ok h vs"
    and nu: "us = [] \<or> snd (snd (last us))" "coalesced us"
    and nv: "vs = [] \<or> snd (snd (hd vs))" "coalesced vs"
    and cu: "chain h xStart (free_addrs us) x" and cv: "chain h q (free_addrs vs) e"
    and nx: "nextOf h' (last_blk xStart (free_addrs us)) = a" "nextOf h' (Blk a) = nextOf h q"
    and blk: "sizeOf h' (Blk a) = n" "\<not> allocated (blocks h' (Blk a))"
    and same_next: "\<And>r. r \<noteq> Blk a \<Longrightarrow> r \<noteq> last_blk xStart (free_addrs us) \<Longrightarrow> nextOf h' r = nextOf h r"
    and same: "\<And>r. r \<noteq> Blk a \<Longrightarrow> sizeOf h' r = sizeOf h r \<and> allocated (blocks h' r) = allocated (blocks h r)"
    and fields: "ucHeap h' = ucHeap h" "pxEnd h' = pxEnd h"
      "xMinimumEverFreeBytesRemaining h' \<le> xFreeBytesRemaining h'"
      "xFreeBytesRemaining h' = free_bytes us + n + free_bytes vs"
  shows "heap_rep h' st (us @ (a, n, False) # vs) e"
proof -
  let ?pr = "last_blk xStart (free_addrs us)"
  have ltu: "\<forall>(b, k, bl) \<in> set us. b < a" using tiles_mem [OF t(1)] by fastforce
  have gtv: "\<forall>(b, k, bl) \<in> set vs. a < b \<and> b < e" using tiles_mem [OF t(2)] t(3) by fastforce
  have Fu: "c \<in> set (free_addrs us) \<Longrightarrow> c < a" and Fv: "c \<in> set (free_addrs vs) \<Longrightarrow> a < c" for c
    using ltu gtv by (auto simp: free_addrs_mem)
  have pr: "?pr = xStart \<or> (\<exists>c. ?pr = Blk c \<and> c < a \<and> c \<in> set (free_addrs us))"
    using last_blk_cases [of xStart "free_addrs us"] Fu by auto
  have nf: "(c, k, True) \<in> set us \<Longrightarrow> c \<notin> set (free_addrs us)" for c k
    using free_sizes [OF hu] headers_okD [OF hu] by blast
  have ae: "a < e" using tiles_le [OF t(2)] t(3) by simp
  show ?thesis
    unfolding heap_rep_def
  proof (intro conjI)
    show "tiles st (us @ (a, n, False) # vs) e" using t by (auto simp: tiles_append)
    show "coalesced (us @ (a, n, False) # vs)"
      using nu nv by (cases vs) (auto simp: coalesced_append)
    have "headers_ok h' us"
      by (rule headers_ok_cong [OF hu]) (use ltu pr nf same same_next in fastforce)
    moreover have "headers_ok h' vs"
      by (rule headers_ok_cong [OF hv]) (use gtv pr same same_next in fastforce)
    ultimately show "headers_ok h' (us @ (a, n, False) # vs)"
      using blk by (auto simp: headers_ok_def)
    have "chain h' xStart (free_addrs us) a"
    proof (rule chain_redirect [OF cu distinct_free_addrs [OF t(1)] _ nx(1)])
      fix r assume r: "r = xStart \<or> r \<in> Blk ` set (free_addrs us)" "r \<noteq> ?pr"
      then have "r \<noteq> Blk a" using Fu by auto
      then show "nextOf h' r = nextOf h r" using same_next r(2) by simp
    qed auto
    moreover have "chain h' (Blk a) (free_addrs vs) e"
      by (rule chain_start [OF cv nx(2)]) (use same_next Fv pr in fastforce)
    ultimately show "chain h' xStart (free_addrs (us @ (a, n, False) # vs)) e"
      by (simp add: chain_append)
    show "sizeOf h' (Blk e) = 0" "nextOf h' (Blk e) = 0"
      using fr same [of "Blk e"] same_next [of "Blk e"] ae pr by (auto simp: heap_frame_def)
  qed (use fr fields in \<open>auto simp: heap_frame_def\<close>)
qed

text \<open>The neighbour tests of the code are exactly those of the layout.\<close>

definition left_merge :: "block list \<Rightarrow> addr \<Rightarrow> nat \<Rightarrow> block list \<times> addr \<times> nat" where
  "left_merge us a n =
     (if us \<noteq> [] \<and> \<not> snd (snd (last us))
      then (butlast us, fst (last us), fst (snd (last us)) + n) else (us, a, n))"

definition right_merge :: "block list \<Rightarrow> nat \<Rightarrow> block list \<times> nat" where
  "right_merge vs n =
     (if vs \<noteq> [] \<and> \<not> snd (snd (hd vs)) then (tl vs, n + fst (snd (hd vs))) else (vs, n))"

lemma merge_free_right:
  assumes "coalesced vs"
  shows "merge_free ((a, n, False) # vs) =
    (let (vs', n') = right_merge vs n in (a, n', False) # vs')"
proof (cases vs)
  case (Cons v vs')
  obtain b k bl where v: "v = (b, k, bl)" by (cases v) auto
  show ?thesis
  proof (cases bl)
    case True
    then show ?thesis using assms Cons v merge_free_id [OF assms] by (simp add: right_merge_def)
  next
    case False
    then have "coalesced ((a, n + k, False) # vs')"
      using assms Cons v by (cases vs') auto
    then show ?thesis using False Cons v merge_free_id by (simp add: right_merge_def)
  qed
qed (simp add: right_merge_def)

lemma merge_free_left:
  assumes "coalesced us"
  shows "merge_free (us @ (a, n, False) # vs) =
    (let (us', a', n') = left_merge us a n in us' @ merge_free ((a', n', False) # vs))"
  using assms
proof (induction us rule: coalesced.induct [case_names step nil one])
  case (one v)
  then show ?case by (cases v; cases "snd (snd v)") (auto simp: left_merge_def)
next
  case (step b k bl c l cl bs)
  have ne: "left_merge ((b, k, bl) # (c, l, cl) # bs) a n =
      (let (us', a', n') = left_merge ((c, l, cl) # bs) a n in ((b, k, bl) # us', a', n'))"
    by (simp add: left_merge_def)
  have "bl \<or> cl" using step by simp
  then have "merge_free ((b, k, bl) # (c, l, cl) # bs @ (a, n, False) # vs) =
      (b, k, bl) # merge_free ((c, l, cl) # bs @ (a, n, False) # vs)" by (cases bl; cases cl) simp_all
  then show ?case using step ne by (simp add: Let_def split: prod.splits)
qed (simp add: left_merge_def)

lemma chain_last_blk: "chain h p (F @ G) e \<Longrightarrow> chain h (last_blk p F) G e"
  by (induction p F rule: last_blk.induct) auto

lemma chain_first: "chain h p (F @ G) e \<Longrightarrow> chain h p F (nextOf h (last_blk p F))"
  by (induction p F rule: last_blk.induct) auto

text \<open>The next free block starts where this one ends exactly when the next block is free.\<close>

lemma next_adjacent:
  assumes t: "tiles a vs e" and c: "chain h it (free_addrs vs) e"
  shows "a = nextOf h it \<and> nextOf h it \<noteq> e \<longleftrightarrow> vs \<noteq> [] \<and> \<not> snd (snd (hd vs))"
proof (cases vs)
  case (Cons v vs')
  obtain b k bl where v: "v = (b, k, bl)" by (cases v) auto
  have t': "a = b" "0 < k" "tiles (b + k) vs' e" using t Cons v by auto
  show ?thesis
  proof (cases bl)
    case True
    have "nextOf h it \<in> set (free_addrs vs') \<or> nextOf h it = e"
      using c Cons v True by (cases "free_addrs vs'") auto
    then have "b < nextOf h it"
      using free_addrs_range [OF t'(3)] tiles_le [OF t'(3)] t'(2) by fastforce
    then show ?thesis using Cons v True t'(1) by simp
  next
    case False
    then show ?thesis using c Cons v t' tiles_le [OF t'(3)] by simp
  qed
qed (use assms in auto)

lemma tiles_last:
  assumes "tiles st us a" "(c, k, al) \<in> set us" "c + k = a"
  shows "last us = (c, k, al)"
proof -
  obtain xs ys where us: "us = xs @ (c, k, al) # ys" using split_list [OF assms(2)] by blast
  then have "tiles a ys a" using assms by (auto simp: tiles_append)
  then have "ys = []" using tiles_le by (cases ys) fastforce+
  then show ?thesis using us by simp
qed

lemma tiles_last_end: "tiles st us a \<Longrightarrow> us \<noteq> [] \<Longrightarrow> last us = (c, k, al) \<Longrightarrow> c + k = a \<and> tiles st (butlast us) c"
  by (cases us rule: rev_cases) (auto simp: tiles_append)

lemma join_next_rep:
  assumes fr: "heap_frame h st e"
    and t: "tiles st us b" "tiles (b + n) vs e" "0 < n" "n mod 8 = 0"
    and hu: "headers_ok h us" and hv: "headers_ok h vs"
    and nu: "us = [] \<or> snd (snd (last us))" "coalesced us" "coalesced vs"
    and blk: "sizeOf h (Blk b) = n" "\<not> allocated (blocks h (Blk b))"
    and cu: "chain h xStart (free_addrs us) x" and cv: "chain h it (free_addrs vs) e"
    and it: "it = last_blk xStart (free_addrs us) \<or>
      it = Blk b \<and> nextOf h (last_blk xStart (free_addrs us)) = b"
    and fb: "xMinimumEverFreeBytesRemaining h \<le> xFreeBytesRemaining h"
      "xFreeBytesRemaining h = free_bytes us + n + free_bytes vs"
  shows "heap_rep (join_next it b h) st (us @ merge_free ((b, n, False) # vs)) e"
proof -
  let ?pr = "last_blk xStart (free_addrs us)"
  have "?pr = xStart \<or> ?pr \<in> Blk ` set (free_addrs us)" by (rule last_blk_cases)
  then have prb: "?pr \<noteq> Blk b" "?pr \<noteq> Blk c \<or> c < b" for c
    using free_addrs_range [OF t(1)] by fastforce+
  have e: "pxEnd h = Some e" using fr by (simp add: heap_frame_def)
  show ?thesis
  proof (cases "vs \<noteq> [] \<and> \<not> snd (snd (hd vs))")
    case True
    then obtain k vs' where vs: "vs = (b + n, k, False) # vs'" using t(2) by (cases vs) auto
    have nx: "b + n = nextOf h it" "nextOf h it \<noteq> e" using next_adjacent [OF t(2) cv] True by auto
    have k: "sizeOf h (Blk (b + n)) = k" using hv vs by (simp add: headers_ok_def)
    have t': "tiles (b + (n + k)) vs' e" "k mod 8 = 0" using t(2) vs by (auto simp: add.assoc)
    have "heap_rep (join_next it b h) st (us @ (b, n + k, False) # vs') e"
    proof (rule link_free_block [OF fr t(1) t'(1) _ _ hu _ nu(1,2) _ _ cu, where q = "Blk (b + n)"])
      show "(n + k) mod 8 = 0" using t(4) t'(2) by presburger
      show "headers_ok h vs'" using hv vs by (simp add: headers_ok_def)
      show "vs' = [] \<or> snd (snd (hd vs'))" "coalesced vs'"
        using nu(3) vs by (cases vs'; auto)+
      show "chain h (Blk (b + n)) (free_addrs vs') e" using cv vs by simp
      show "xFreeBytesRemaining (join_next it b h) = free_bytes us + (n + k) + free_bytes vs'"
        using fb vs by (simp add: join_next_def upd_blk_def Let_def)
    qed (use t(3) nx blk k it prb fb e in
        \<open>auto simp: join_next_def upd_blk_def Let_def vs split: if_splits\<close>)
    then show ?thesis using vs merge_free_right [OF nu(3), of b n] by (simp add: right_merge_def)
  next
    case False
    then have nx: "\<not> (b + n = nextOf h it \<and> Some (nextOf h it) \<noteq> pxEnd h)"
      using next_adjacent [OF t(2) cv] e by auto
    have "heap_rep (join_next it b h) st (us @ (b, n, False) # vs) e"
      by (rule link_free_block [OF fr t hu hv nu(1,2) _ nu(3) cu cv])
        (use False nx blk it prb fb in \<open>auto simp: join_next_def upd_blk_def Let_def split: if_splits\<close>)
    then show ?thesis using False merge_free_right [OF nu(3), of b n] by (auto simp: right_merge_def)
  qed
qed

lemma insert_rep:
  assumes rep: "heap_rep h0 st (us @ (a, n, True) # vs) e"
    and h: "h = (upd_blk (Blk a) (\<lambda>x. x\<lparr>allocated := False\<rparr>) h0)
      \<lparr>xFreeBytesRemaining := xFreeBytesRemaining h0 + n\<rparr>"
  shows "\<exists>h'. prvInsertBlockIntoFreeList a h = Some h' \<and>
    heap_rep h' st (merge_free (us @ (a, n, False) # vs)) e"
proof -
  let ?F = "free_addrs us" and ?G = "free_addrs vs"
  let ?it = "last_blk xStart (free_addrs us)"
  note f = split_facts [OF rep]
  have nxt: "nextOf h r = nextOf h0 r" "sizeOf h r = sizeOf h0 r" for r
    by (auto simp: h upd_blk_def)
  have al: "\<not> allocated (blocks h (Blk a))" by (simp add: h upd_blk_def)
  have co: "coalesced us" "coalesced vs" using rep by (auto simp: heap_rep_def coalesced_append)
      (cases vs; auto)
  have ch: "chain h xStart (?F @ ?G) e" using rep
    by (auto simp: heap_rep_def nxt intro: chain_cong)
  note cu = chain_first [OF ch] and cv = chain_last_blk [OF ch]
  have fr: "heap_frame h st e"
    using heap_rep_frame [OF rep] by (simp add: heap_frame_def nxt) (simp add: h upd_blk_def)
  have hu: "headers_ok h us"
    by (rule headers_ok_cong [OF f(12)]) (use f(7) in \<open>fastforce simp: h upd_blk_def\<close>)
  have hv: "headers_ok h vs"
    by (rule headers_ok_cong [OF f(13)]) (use f(3,8) in \<open>fastforce simp: h upd_blk_def\<close>)
  have fb: "xMinimumEverFreeBytesRemaining h \<le> xFreeBytesRemaining h"
    "xFreeBytesRemaining h = free_bytes us + n + free_bytes vs"
    using rep by (auto simp: heap_rep_def h upd_blk_def)
  have it: "find_iterator h a xStart = Some ?it"
    by (rule find_iterator_last [OF ch]) (use f(9-11) in auto)
  show ?thesis
  proof (cases "us \<noteq> [] \<and> \<not> snd (snd (last us))")
    case True
    then obtain us' c k where us: "us = us' @ [(c, k, False)]"
      by (cases us rule: rev_cases) (auto simp: prod_eq_iff)
    have tl: "c + k = a" "tiles st us' c" "0 < k" "k mod 8 = 0"
      using f(1) us by (auto simp: tiles_append)
    have ck: "sizeOf h (Blk c) = k" "\<not> allocated (blocks h (Blk c))"
      using hu us by (auto simp: headers_ok_def)
    have itc: "?it = Blk c" by (simp add: us)
    define h2 where "h2 = upd_blk (Blk c) (\<lambda>x. x\<lparr>xBlockSize := xBlockSize x + n\<rparr>) h"
    have h2: "nextOf h2 r = nextOf h r" "allocated (blocks h2 r) = allocated (blocks h r)"
      "r \<noteq> Blk c \<Longrightarrow> sizeOf h2 r = sizeOf h r" "sizeOf h2 (Blk c) = k + n"
      "xFreeBytesRemaining h2 = xFreeBytesRemaining h"
      "xMinimumEverFreeBytesRemaining h2 = xMinimumEverFreeBytesRemaining h" for r
      by (auto simp: h2_def upd_blk_def ck)
    have "heapVALIDATE_BLOCK_POINTER h c = Some ()"
      using heap_rep_valid [OF rep, of c] us by (simp add: h upd_blk_def heapVALIDATE_BLOCK_POINTER_def)
    then have "prvInsertBlockIntoFreeList a h = Some (join_next (Blk c) c h2)"
      using it itc ck(1) tl(1) f(14) by (simp add: prvInsertBlockIntoFreeList_def h2_def nxt)
    moreover have "heap_rep (join_next (Blk c) c h2) st (us' @ merge_free ((c, k + n, False) # vs)) e"
    proof (rule join_next_rep [OF _ tl(2)])
      show "heap_frame h2 st e" using fr tl f(3,9) h2(1) h2(3) [of "Blk e"]
        by (auto simp: heap_frame_def) (auto simp: h2_def upd_blk_def)
      show "tiles (c + (k + n)) vs e" using f(2) tl(1) by (simp add: add.assoc [symmetric])
      show "(k + n) mod 8 = 0" using tl(4) f(4) by presburger
      show "headers_ok h2 us'"
        by (rule headers_ok_cong [of h]) (use hu us tiles_mem [OF tl(2)] h2 in \<open>fastforce simp: headers_ok_def\<close>)+
      show "headers_ok h2 vs"
        by (rule headers_ok_cong [OF hv]) (use f(8) f(3) tl h2 in fastforce)
      show "chain h2 xStart (free_addrs us') c"
        using ch by (auto simp: us chain_append h2 intro: chain_cong)
      show "chain h2 (Blk c) ?G e" using cv itc by (auto simp: h2 intro: chain_cong)
      show "Blk c = last_blk xStart (free_addrs us') \<or>
          Blk c = Blk c \<and> nextOf h2 (last_blk xStart (free_addrs us')) = c"
        using ch by (simp add: us chain_append h2 chain_last)
      show "us' = [] \<or> snd (snd (last us'))" "coalesced us'"
        using co(1) us by (auto simp: coalesced_append)
    qed (use co tl ck h2 fb us in auto)
    ultimately show ?thesis using merge_free_left [OF co(1), of a n vs] us
      by (auto simp: left_merge_def)
  next
    case False
    have "?it = Blk c \<Longrightarrow> c + sizeOf h (Blk c) \<noteq> a" for c
      using last_blk_cases [of xStart ?F] free_sizes [OF hu, of c] tiles_last [OF f(1), of c "sizeOf h (Blk c)" False]
        False by auto
    moreover have "?it = Blk c \<Longrightarrow> heapVALIDATE_BLOCK_POINTER h c = Some ()" for c
      using last_blk_cases [of xStart ?F] heap_rep_valid [OF rep, of c] 
      by (auto simp: h upd_blk_def heapVALIDATE_BLOCK_POINTER_def)
    ultimately have "prvInsertBlockIntoFreeList a h = Some (join_next ?it a h)"
      using it by (auto simp: prvInsertBlockIntoFreeList_def split: blk.splits)
    moreover have "heap_rep (join_next ?it a h) st (us @ merge_free ((a, n, False) # vs)) e"
      by (rule join_next_rep [OF fr f(1-4) hu hv _ co _ al cu cv]) (use False f(14) nxt fb in auto)
    ultimately show ?thesis using merge_free_left [OF co(1), of a n vs] False
      by (auto simp: left_merge_def)
  qed
qed

lemma spec_free_split:
  assumes "heap_rep h st (us @ (a, n, True) # vs) e"
  shows "spec_free a (us @ (a, n, True) # vs) = merge_free (us @ (a, n, False) # vs)"
proof -
  note f = split_facts [OF assms]
  have "map (\<lambda>(b, k, al). (b, k, al \<and> b \<noteq> a)) us = us" "map (\<lambda>(b, k, al). (b, k, al \<and> b \<noteq> a)) vs = vs"
    using f(3,7,8) by (auto intro!: map_idI)
  then show ?thesis by (simp add: spec_free_def)
qed

lemma free_bytes_merge [simp]: "free_bytes (merge_free bs) = free_bytes bs"
  by (induction bs rule: merge_free.induct) (auto simp: free_bytes_def)

lemma heap_free_refines:
  assumes rep: "heap_rep h st bs e" and a: "(a, n, True) \<in> set bs"
  shows "\<exists>h'. heap_free (a + xHeapStructSize) h = Some h' \<and> heap_rep h' st (spec_free a bs) e"
proof -
  obtain us vs where bs: "bs = us @ (a, n, True) # vs" using split_list [OF a] by blast
  note f = split_facts [OF rep [unfolded bs]]
  have sp: "spec_free a bs = merge_free (us @ (a, n, False) # vs)"
    using spec_free_split [OF rep [unfolded bs]] bs by simp
  have "heapVALIDATE_BLOCK_POINTER h a = Some ()"
    using rep tiles_le [OF f(1)] f(3,9)
    by (auto simp: heap_rep_def heapVALIDATE_BLOCK_POINTER_def xHeapStructSize_def)
  moreover obtain h' where "prvInsertBlockIntoFreeList a ((upd_blk (Blk a) (\<lambda>x. x\<lparr>allocated := False\<rparr>) h)
      \<lparr>xFreeBytesRemaining := xFreeBytesRemaining h + n\<rparr>) = Some h'"
      "heap_rep h' st (spec_free a bs) e"
    using insert_rep [OF rep [unfolded bs] refl] sp by auto
  moreover have "heap_rep (h'\<lparr>xNumberOfSuccessfulFrees := xNumberOfSuccessfulFrees h' + 1\<rparr>) st bs' e"
    if "heap_rep h' st bs' e" for h' bs'
  proof -
    have "chain (h'\<lparr>xNumberOfSuccessfulFrees := xNumberOfSuccessfulFrees h' + 1\<rparr>) xStart (free_addrs bs') e"
      using that by (auto simp: heap_rep_def intro: chain_cong)
    then show ?thesis using that by (simp add: heap_rep_def headers_ok_def)
  qed
  ultimately show ?thesis using f(14-16)
    by (auto simp: heap_free_def xHeapStructSize_def upd_blk_def)
qed

section \<open>Repeated use\<close>

lemma layout_unique:
  assumes "tiles a bs e" "tiles a bs' e" "headers_ok h bs" "headers_ok h bs'"
  shows "bs = bs'"
  using assms
proof (induction a bs e arbitrary: bs' rule: tiles.induct)
  case (1 a e)
  then show ?case using tiles_le by (cases bs') fastforce+
next
  case (2 a b n al bs e)
  have "bs' \<noteq> []" using 2 tiles_le by fastforce
  then obtain x bs'' where bs': "bs' = x # bs''" by (cases bs') auto
  then have x: "x = (b, n, al)" using 2 by (cases x) (auto simp: headers_ok_def)
  have "bs = bs''" by (rule "2.IH") (use 2 bs' x in \<open>auto simp: headers_ok_def\<close>)
  then show ?case using bs' x by simp
qed

text \<open>The heap invariant: either not yet initialised, or with a layout.\<close>

definition heap_inv :: "heap4 \<Rightarrow> bool" where
  "heap_inv h \<longleftrightarrow> 0 < ucHeap h \<and>
     (pxEnd h = None \<or> (\<exists>bs. heap_rep h (heap_start (ucHeap h)) bs (heap_end (ucHeap h))))"

text \<open>The payloads handed out: address and usable size.\<close>

definition heap_owned :: "heap4 \<Rightarrow> (addr \<times> nat) set" where
  "heap_owned h = {(p, k). \<exists>bs a n. heap_rep h (heap_start (ucHeap h)) bs (heap_end (ucHeap h)) \<and>
     (a, n, True) \<in> set bs \<and> p = a + xHeapStructSize \<and> k + xHeapStructSize = n}"

lemma heap_rep_unique: "heap_rep h st bs e \<Longrightarrow> heap_rep h st bs' e \<Longrightarrow> bs' = bs"
  by (rule layout_unique [of st bs' e bs h]) (simp_all only: heap_rep_def)

lemma heap_owned_rep:
  assumes "heap_rep h (heap_start (ucHeap h)) bs (heap_end (ucHeap h))"
  shows "heap_owned h = {(p, k). \<exists>a n. (a, n, True) \<in> set bs \<and> p = a + xHeapStructSize \<and> k + xHeapStructSize = n}"
  using assms heap_rep_unique [OF assms] unfolding heap_owned_def by blast

lemma heap_inv_cases:
  assumes "heap_inv h"
  obtains bs where "heap_rep (if pxEnd h = None then prvHeapInit h else h) (heap_start (ucHeap h)) bs
      (heap_end (ucHeap h))"
    "pxEnd h = None \<Longrightarrow> heap_owned h = {} \<and> (\<forall>a n. (a, n, True) \<notin> set bs)"
proof (cases "pxEnd h = None")
  case True
  then have "heap_owned h = {}" by (auto simp: heap_owned_def heap_rep_def)
  then show ?thesis using that prvHeapInit_rep [of h] assms True by (auto simp: heap_inv_def)
qed (use assms that in \<open>auto simp: heap_inv_def\<close>)

lemma ucHeap_prvHeapInit [simp]: "ucHeap (prvHeapInit h) = ucHeap h" "pxEnd (prvHeapInit h) \<noteq> None"
  by (simp_all add: prvHeapInit_def Let_def upd_blk_def)

lemma malloc_block_init: "pxEnd h = None \<Longrightarrow> malloc_block x h = malloc_block x (prvHeapInit h)"
  by (simp add: malloc_block_def)

lemma ucHeap_take_block: "take_block w p b h = Some (r, h') \<Longrightarrow> ucHeap h' = ucHeap h"
  by (auto simp: take_block_def upd_blk_def Let_def bind_eq_Some_conv split: if_splits)

lemma ucHeap_malloc: "malloc_block x h = Some (p, h') \<Longrightarrow> ucHeap h' = ucHeap h"
  by (auto simp: malloc_block_def Let_def bind_eq_Some_conv dest: ucHeap_take_block split: if_splits)

lemma ucHeap_upd_blk [simp]: "ucHeap (upd_blk b f h) = ucHeap h"
  by (simp add: upd_blk_def)

lemma ucHeap_join_next [simp]: "ucHeap (join_next it b h) = ucHeap h"
  by (simp add: join_next_def Let_def)

lemma ucHeap_insert:
  assumes "prvInsertBlockIntoFreeList b h = Some h'"
  shows "ucHeap h' = ucHeap h"
proof -
  obtain it where "h' = (case it of xStart \<Rightarrow> join_next it b h
       | Blk a \<Rightarrow> if a + sizeOf h it = b
           then join_next it a (upd_blk it (\<lambda>x. x\<lparr>xBlockSize := xBlockSize x + sizeOf h (Blk b)\<rparr>) h)
           else join_next it b h)"
    using assms unfolding prvInsertBlockIntoFreeList_def bind_eq_Some_conv by blast
  then show ?thesis by (cases it) simp_all
qed

lemma ucHeap_free: "heap_free p h = Some h' \<Longrightarrow> ucHeap h' = ucHeap h"
  by (auto simp: heap_free_def Let_def bind_eq_Some_conv dest: ucHeap_insert split: if_splits)

text \<open>
  What every client of an allocator may rely on, and the consequence for any sequence of calls
  that frees only what it got. A request that nothing fits does not return.
\<close>

inductive uses ::
  "(nat \<Rightarrow> 'h \<Rightarrow> (addr \<times> 'h) option) \<Rightarrow> (addr \<Rightarrow> 'h \<Rightarrow> 'h option) \<Rightarrow> 'h \<Rightarrow> 'h \<Rightarrow> (addr \<times> nat) set \<Rightarrow> bool"
  for malloc free h0 where
  uses_start: "uses malloc free h0 h0 {}"
| uses_malloc: "uses malloc free h0 h A \<Longrightarrow> malloc n h = Some (p, h') \<Longrightarrow> uses malloc free h0 h' (insert (p, n) A)"
| uses_free: "uses malloc free h0 h A \<Longrightarrow> (p, n) \<in> A \<Longrightarrow> free p h = Some h' \<Longrightarrow>
    uses malloc free h0 h' (A - {(p, n)})"

locale allocator =
  fixes malloc :: "nat \<Rightarrow> 'h \<Rightarrow> (addr \<times> 'h) option"
    and free :: "addr \<Rightarrow> 'h \<Rightarrow> 'h option"
    and inv :: "'h \<Rightarrow> bool"
    and fits :: "nat \<Rightarrow> 'h \<Rightarrow> bool"
    and owned :: "'h \<Rightarrow> (addr \<times> nat) set"
  assumes malloc_returns: "inv h \<Longrightarrow> malloc n h \<noteq> None \<longleftrightarrow> fits n h"
    and malloc_inv: "inv h \<Longrightarrow> malloc n h = Some (p, h') \<Longrightarrow> inv h'"
    and malloc_owned: "inv h \<Longrightarrow> malloc n h = Some (p, h') \<Longrightarrow>
      \<exists>k \<ge> n. owned h' = insert (p, k) (owned h) \<and> p \<notin> fst ` owned h"
    and free_total: "inv h \<Longrightarrow> (p, k) \<in> owned h \<Longrightarrow>
      \<exists>h'. free p h = Some h' \<and> inv h' \<and> owned h' = owned h - {(p, k)}"
    and owned_disjoint: "inv h \<Longrightarrow> (p, k) \<in> owned h \<Longrightarrow> (q, l) \<in> owned h \<Longrightarrow> (p, k) \<noteq> (q, l) \<Longrightarrow>
      p + k < q \<or> q + l < p"
begin

lemma uses_inv:
  assumes "uses malloc free h0 h A" "inv h0"
  shows "inv h \<and> inj_on fst A \<and> (\<forall>(p, n) \<in> A. \<exists>k \<ge> n. (p, k) \<in> owned h)"
  using assms
proof (induction rule: uses.induct)
  case (uses_malloc h A n p h')
  then obtain k where k: "n \<le> k" "owned h' = insert (p, k) (owned h)" "p \<notin> fst ` owned h"
    using malloc_owned by blast
  have "p \<notin> fst ` A" using uses_malloc k(3) by force
  then show ?case using uses_malloc k malloc_inv [of h n p h'] by (auto simp: inj_on_def)
next
  case (uses_free h A p n h')
  then obtain k where k: "(p, k) \<in> owned h" by blast
  then have h': "inv h'" "owned h' = owned h - {(p, k)}"
    using free_total [of h p k] uses_free by auto
  moreover have "\<exists>l \<ge> m. (q, l) \<in> owned h'" if "(q, m) \<in> A - {(p, n)}" for q m
  proof -
    have "q \<noteq> p" using that uses_free(2,5) uses_free.prems uses_free.IH by (force simp: inj_on_def)
    then show ?thesis using that uses_free h' by auto
  qed
  ultimately show ?case using uses_free by (auto intro: inj_on_diff)
qed simp

lemma uses_disjoint:
  assumes "uses malloc free h0 h A" "inv h0" "(p, n) \<in> A" "(q, m) \<in> A" "(p, n) \<noteq> (q, m)"
  shows "p + n \<le> q \<or> q + m \<le> p"
proof -
  obtain k l where "(p, k) \<in> owned h" "n \<le> k" "(q, l) \<in> owned h" "m \<le> l" "p \<noteq> q"
  proof -
    have "p \<noteq> q"
      using inj_onD [of fst A "(p, n)" "(q, m)"] uses_inv [OF assms(1,2)] assms(3-5) by auto
    moreover have "\<exists>k \<ge> n. (p, k) \<in> owned h" "\<exists>l \<ge> m. (q, l) \<in> owned h"
      using uses_inv [OF assms(1,2)] assms(3,4) by auto
    ultimately show ?thesis using that by blast
  qed
  then show ?thesis using owned_disjoint [of h p k q l] uses_inv [OF assms(1,2)] by auto
qed

lemma uses_progress:
  assumes "uses malloc free h0 h A" "inv h0"
  shows "malloc x h \<noteq> None \<longleftrightarrow> fits x h" "(p, n) \<in> A \<Longrightarrow> free p h \<noteq> None"
proof -
  show "malloc x h \<noteq> None \<longleftrightarrow> fits x h" using malloc_returns uses_inv [OF assms] by blast
  show "free p h \<noteq> None" if "(p, n) \<in> A" using free_total uses_inv [OF assms] that by fastforce
qed

end

lemma merge_free_allocated [simp]: "(b, k, True) \<in> set (merge_free bs) \<longleftrightarrow> (b, k, True) \<in> set bs"
  by (induction bs rule: merge_free.induct) auto

lemma spec_free_allocated:
  "(b, k, True) \<in> set (spec_free a bs) \<longleftrightarrow> (b, k, True) \<in> set bs \<and> b \<noteq> a"
  by (force simp: spec_free_def)

text \<open>What one successful call does to the layout, and when the call returns NULL.\<close>

lemma malloc_block_cases:
  assumes rep: "heap_rep h st bs e" and m: "malloc_block x h = Some (p, h')"
  obtains "p = 0" "h' = h"
  | a n us vs where "p = a + xHeapStructSize" "bs = us @ (a, n, False) # vs" "0 < x"
      "x + xHeapStructSize \<le> adjusted_size x" "adjusted_size x \<le> n"
      "heap_rep h' st (us @ carve (adjusted_size x) a n @ vs) e"
proof (cases "0 < x \<and> 0 < adjusted_size x")
  case True
  show ?thesis
  proof (cases "spec_malloc (adjusted_size x) bs")
    case None
    then have "malloc_block x h = Some (0, h)" using malloc_block_refines [OF rep, of x] True by auto
    then show ?thesis using that(1) m by auto
  next
    case (Some r)
    then obtain a bs' where r: "spec_malloc (adjusted_size x) bs = Some (a, bs')" by (cases r) auto
    then have p: "p = a + xHeapStructSize" "heap_rep h' st bs' e"
      using m malloc_block_refines [OF rep, of x] True by auto
    obtain us n vs where b: "bs = us @ (a, n, False) # vs" "adjusted_size x \<le> n"
      "bs' = us @ carve (adjusted_size x) a n @ vs"
      using spec_malloc_Some [OF r] by blast
    show ?thesis
      by (rule that(2) [OF p(1) b(1) _ _ b(2)]) (use True adjusted_size_ok(2) [of x] p(2) b(3) in simp_all)
  qed
next
  case False
  moreover have "adjusted_size 0 = 0" by (simp add: adjusted_size_def)
  ultimately have "adjusted_size x = 0" by (cases "x = 0") auto
  moreover have "pxEnd h \<noteq> None" using rep by (simp add: heap_rep_def)
  ultimately show ?thesis using that(1) m by (auto simp: malloc_block_def)
qed

lemma malloc_block_total:
  assumes rep: "heap_rep h st bs e"
  shows "\<exists>p h'. malloc_block x h = Some (p, h')"
proof (cases "0 < x \<and> 0 < adjusted_size x")
  case True
  then show ?thesis using malloc_block_refines [OF rep, of x] by (auto split: option.splits)
next
  case False
  moreover have "adjusted_size 0 = 0" by (simp add: adjusted_size_def)
  ultimately have "adjusted_size x = 0" by (cases "x = 0") auto
  then show ?thesis using rep by (auto simp: malloc_block_def heap_rep_def)
qed

lemma heap_inv_malloc_rep:
  assumes "heap_inv h"
  obtains h1 bs where "malloc_block x h = malloc_block x h1" "ucHeap h1 = ucHeap h"
    "heap_rep h1 (heap_start (ucHeap h)) bs (heap_end (ucHeap h))" "heap_owned h = heap_owned h1"
proof -
  obtain bs where bs: "heap_rep (if pxEnd h = None then prvHeapInit h else h) (heap_start (ucHeap h)) bs
      (heap_end (ucHeap h))"
    "pxEnd h = None \<Longrightarrow> heap_owned h = {} \<and> (\<forall>a n. (a, n, True) \<notin> set bs)"
    using heap_inv_cases [OF assms] by blast
  show ?thesis
  proof (cases "pxEnd h = None")
    case True
    then have "heap_owned (prvHeapInit h) = {}"
      using bs heap_owned_rep [of "prvHeapInit h" bs] by auto
    then show ?thesis using that [of "prvHeapInit h" bs] bs True malloc_block_init by auto
  next
    case False
    then have "heap_rep h (heap_start (ucHeap h)) bs (heap_end (ucHeap h))" using bs(1) by (simp only: if_False)
    then show ?thesis using that [of h bs] by simp
  qed
qed

lemma heap_owned_carve:
  assumes "heap_rep h' (heap_start (ucHeap h')) (us @ carve w a n @ vs) (heap_end (ucHeap h'))"
    "x + xHeapStructSize \<le> w" "w \<le> n"
    and h: "heap_rep h (heap_start (ucHeap h)) (us @ (a, n, False) # vs) (heap_end (ucHeap h))"
  shows "\<exists>k \<ge> x. heap_owned h' = insert (a + xHeapStructSize, k) (heap_owned h) \<and>
    a + xHeapStructSize \<notin> fst ` heap_owned h"
proof -
  define k where "k = (if n - w > heapMINIMUM_BLOCK_SIZE then w else n) - xHeapStructSize"
  have "x \<le> k" using assms(2,3) by (auto simp: k_def)
  moreover have "heap_owned h' = insert (a + xHeapStructSize, k) (heap_owned h)"
    unfolding heap_owned_rep [OF assms(1)] heap_owned_rep [OF h]
    using assms(2,3) by (auto simp: carve_def k_def)
  moreover have "a + xHeapStructSize \<notin> fst ` heap_owned h"
    using split_facts(3,7,8) [OF h] unfolding heap_owned_rep [OF h] by fastforce
  ultimately show ?thesis by blast
qed

lemma tiles_disjoint:
  assumes "tiles st bs e" "(a, n, al) \<in> set bs" "(b, m, bl) \<in> set bs" "(a, n, al) \<noteq> (b, m, bl)"
  shows "a + n \<le> b \<or> b + m \<le> a"
proof -
  obtain us vs where bs: "bs = us @ (a, n, al) # vs" using split_list [OF assms(2)] by blast
  then have t: "tiles st us a" "tiles (a + n) vs e" using assms(1) by (auto simp: tiles_append)
  show ?thesis using assms(3,4) bs tiles_mem [OF t(1), of b m bl] tiles_mem [OF t(2), of b m bl] by auto
qed

lemma heap_owned_disjoint:
  assumes "(p, k) \<in> heap_owned h" "(q, l) \<in> heap_owned h" "(p, k) \<noteq> (q, l)"
  shows "p + k < q \<or> q + l < p"
proof -
  obtain bs a n where a: "heap_rep h (heap_start (ucHeap h)) bs (heap_end (ucHeap h))"
    "(a, n, True) \<in> set bs" "p = a + xHeapStructSize" "k + xHeapStructSize = n"
    using assms(1) by (auto simp: heap_owned_def)
  obtain b m where b: "(b, m, True) \<in> set bs" "q = b + xHeapStructSize" "l + xHeapStructSize = m"
    using assms(2) heap_owned_rep [OF a(1)] by auto
  have "(a, n, True) \<noteq> (b, m, True)" using a b assms(3) by auto
  then have "a + n \<le> b \<or> b + m \<le> a" using a(1) tiles_disjoint [OF _ a(2) b(1)] by (auto simp: heap_rep_def)
  then show ?thesis using a b by (auto simp: xHeapStructSize_def)
qed

text \<open>Some free block has at least \<open>n\<close> bytes, header included.\<close>

definition has_room :: "heap4 \<Rightarrow> nat \<Rightarrow> bool" where
  "has_room h n \<longleftrightarrow> (\<exists>bs a m. heap_rep (if pxEnd h = None then prvHeapInit h else h)
     (heap_start (ucHeap h)) bs (heap_end (ucHeap h)) \<and> (a, m, False) \<in> set bs \<and> n \<le> m)"

definition heap_fits :: "nat \<Rightarrow> heap4 \<Rightarrow> bool" where
  "heap_fits n h \<longleftrightarrow> 0 < adjusted_size n \<and> has_room h (adjusted_size n)"

lemma heap_malloc_block:
  "heap_malloc x h = Some (p, h') \<longleftrightarrow> malloc_block x h = Some (p, h') \<and> p \<noteq> 0 \<and> p mod portBYTE_ALIGNMENT = 0"
  by (auto simp: heap_malloc_def vApplicationMallocFailedHook_def bind_eq_Some_conv split: if_splits)

lemma heap_malloc_refines:
  assumes rep: "heap_rep h st bs e"
  shows "case (if adjusted_size x = 0 then None else spec_malloc (adjusted_size x) bs) of
      None \<Rightarrow> malloc_block x h = Some (0, h) \<and> heap_malloc x h = None
    | Some (a, bs') \<Rightarrow> \<exists>h'. heap_malloc x h = Some (a + xHeapStructSize, h') \<and>
        heap_rep h' st bs' e \<and> (a + xHeapStructSize) mod 8 = 0"
proof (cases "adjusted_size x = 0")
  case True
  then show ?thesis using rep by (simp add: heap_malloc_def malloc_block_def heap_rep_def vApplicationMallocFailedHook_def)
next
  case False
  then have x: "0 < x" by (cases x) (simp_all add: adjusted_size_def)
  have "(a + xHeapStructSize) mod 8 = 0" if sp: "spec_malloc (adjusted_size x) bs = Some (a, bs')" for a bs'
  proof -
    obtain us n vs where "bs = us @ (a, n, False) # vs" using spec_malloc_Some [OF sp] by blast
    then have "a mod 8 = 0" using split_facts(5) rep by blast
    then show ?thesis unfolding xHeapStructSize_def by presburger
  qed
  then show ?thesis using malloc_block_refines [OF rep x] False
    by (auto simp: heap_malloc_block heap_malloc_def vApplicationMallocFailedHook_def portBYTE_ALIGNMENT_def
        xHeapStructSize_def split: option.split)
qed

lemma heap_malloc_returns:
  assumes "heap_inv h"
  shows "heap_malloc n h \<noteq> None \<longleftrightarrow> heap_fits n h"
proof -
  let ?g = "if pxEnd h = None then prvHeapInit h else h"
  obtain bs where bs: "heap_rep ?g (heap_start (ucHeap h)) bs (heap_end (ucHeap h))"
    by (rule heap_inv_cases [OF assms]) blast
  have "malloc_block n h = malloc_block n ?g" using malloc_block_init by simp
  then have g: "heap_malloc n h = heap_malloc n ?g" by (simp only: heap_malloc_def)
  have "has_room h w \<longleftrightarrow> (\<exists>a m. (a, m, False) \<in> set bs \<and> w \<le> m)" for w
    using heap_rep_unique [OF bs] bs unfolding has_room_def by metis
  then have "heap_fits n h \<longleftrightarrow> adjusted_size n \<noteq> 0 \<and> spec_malloc (adjusted_size n) bs \<noteq> None"
    unfolding heap_fits_def spec_malloc_None by fastforce
  then show ?thesis using heap_malloc_refines [OF bs, of n] unfolding g by (auto split: if_splits option.splits)
qed

interpretation heap4_alloc: allocator heap_malloc heap_free heap_inv heap_fits heap_owned
proof
  fix h n p h' k q l
  assume i: "heap_inv h"
  obtain h1 bs where h1: "malloc_block n h = malloc_block n h1" "ucHeap h1 = ucHeap h"
    "heap_rep h1 (heap_start (ucHeap h)) bs (heap_end (ucHeap h))" "heap_owned h = heap_owned h1"
    using heap_inv_malloc_rep [OF i] by metis
  show "heap_malloc n h \<noteq> None \<longleftrightarrow> heap_fits n h" by (rule heap_malloc_returns [OF i])
  show "heap_inv h'" if hm: "heap_malloc n h = Some (p, h')"
  proof -
    have m: "malloc_block n h = Some (p, h')" using hm by (simp add: heap_malloc_block)
    show ?thesis
      by (rule malloc_block_cases [OF h1(3) m [unfolded h1(1)]])
        (use i h1 ucHeap_malloc [OF m] in \<open>auto simp: heap_inv_def\<close>)
  qed
  show "\<exists>k \<ge> n. heap_owned h' = insert (p, k) (heap_owned h) \<and> p \<notin> fst ` heap_owned h"
    if hm: "heap_malloc n h = Some (p, h')"
  proof -
    have m: "malloc_block n h = Some (p, h')" "p \<noteq> 0" using hm by (simp_all add: heap_malloc_block)
    show ?thesis
    proof (rule malloc_block_cases [OF h1(3) m(1) [unfolded h1(1)]])
      fix a s us vs
      assume c: "p = a + xHeapStructSize" "bs = us @ (a, s, False) # vs"
        "n + xHeapStructSize \<le> adjusted_size n" "adjusted_size n \<le> s"
        "heap_rep h' (heap_start (ucHeap h)) (us @ carve (adjusted_size n) a s @ vs) (heap_end (ucHeap h))"
      then show ?thesis
        using heap_owned_carve [of h' us "adjusted_size n" a s vs n h1] h1 ucHeap_malloc [OF m(1)] by auto
    qed (use m(2) in simp)
  qed
  show "\<exists>h'. heap_free p h = Some h' \<and> heap_inv h' \<and> heap_owned h' = heap_owned h - {(p, k)}"
    if o: "(p, k) \<in> heap_owned h"
  proof -
    obtain bs a where a: "heap_rep h (heap_start (ucHeap h)) bs (heap_end (ucHeap h))"
      "(a, k + xHeapStructSize, True) \<in> set bs" "p = a + xHeapStructSize"
      using o by (auto simp: heap_owned_def)
    obtain h' where h': "heap_free p h = Some h'"
      "heap_rep h' (heap_start (ucHeap h)) (spec_free a bs) (heap_end (ucHeap h))"
      using heap_free_refines [OF a(1,2)] a(3) by blast
    have uc: "ucHeap h' = ucHeap h" by (rule ucHeap_free [OF h'(1)])
    have "(a, m, True) \<in> set bs \<Longrightarrow> m = k + xHeapStructSize" for m
      using a(1) headers_okD [of h bs a] a(2) unfolding heap_rep_def by blast
    then have "heap_owned h' = heap_owned h - {(p, k)}"
      using a(3) unfolding heap_owned_rep [OF a(1)] heap_owned_rep [OF h'(2) [folded uc]]
        spec_free_allocated by fastforce
    then show ?thesis using h' i uc by (auto simp: heap_inv_def)
  qed
  show "p + k < q \<or> q + l < p"
    if "(p, k) \<in> heap_owned h" "(q, l) \<in> heap_owned h" "(p, k) \<noteq> (q, l)"
    by (rule heap_owned_disjoint [OF that])
qed

text \<open>Releasing a freshly carved block restores the layout.\<close>

lemma spec_free_carve:
  assumes rep: "heap_rep h st (us @ (a, n, False) # vs) e" and w: "w \<le> n" "0 < w"
  shows "spec_free a (us @ carve w a n @ vs) = us @ (a, n, False) # vs"
proof -
  note f = split_facts [OF rep]
  let ?m = "map (\<lambda>(b, k, al). (b, k, al \<and> b \<noteq> a))"
  have m: "?m us = us" "?m vs = vs" using f(3,7,8) by (auto intro!: map_idI)
  have co: "coalesced (us @ (a, n, False) # vs)" using rep by (simp add: heap_rep_def)
  then have cu: "coalesced us" by (simp add: coalesced_append)
  have us: "us = [] \<or> snd (snd (last us))" using co by (auto simp: coalesced_append)
  have lm: "left_merge us a k = (us, a, k)" for k using us by (auto simp: left_merge_def)
  have fin: "us @ merge_free ((a, n, False) # vs) = us @ (a, n, False) # vs"
    using merge_free_id [of "(a, n, False) # vs"] co by (simp add: coalesced_append)
  show ?thesis
  proof (cases "n - w > heapMINIMUM_BLOCK_SIZE")
    case True
    then have "spec_free a (us @ carve w a n @ vs) =
        merge_free (us @ (a, w, False) # (a + w, n - w, False) # vs)"
      using m by (simp add: spec_free_def carve_def)
    also have "\<dots> = us @ merge_free ((a, n, False) # vs)"
      using merge_free_left [OF cu, of a w] lm w by simp
    finally show ?thesis using fin by simp
  next
    case False
    then have "spec_free a (us @ carve w a n @ vs) = merge_free (us @ (a, n, False) # vs)"
      using m by (simp add: spec_free_def carve_def)
    then show ?thesis using merge_free_id [OF co] by simp
  qed
qed

lemma stats_loop_chain:
  assumes "chain h p as e" "e \<notin> set as" "pxEnd h = Some e"
  shows "stats_loop h (nextOf h p) (n, mx, mn) =
    Some (n + length as, foldl max mx (map (\<lambda>a. sizeOf h (Blk a)) as),
      foldl min mn (map (\<lambda>a. sizeOf h (Blk a)) as))"
  using assms
proof (induction as arbitrary: p n mx mn)
  case (Cons a as)
  then have "stats_loop h (nextOf h (Blk a)) (n', x, y) = Some (n' + length as,
      foldl max x (map (\<lambda>a. sizeOf h (Blk a)) as), foldl min y (map (\<lambda>a. sizeOf h (Blk a)) as))" for n' x y
    by simp
  moreover have "nextOf h p = a" "a \<noteq> e" using Cons.prems by auto
  moreover have "(if x > mx then x else mx) = max mx x" "(if x < mn then x else mn) = min mn x" for x
    by simp_all
  ultimately show ?case using Cons.prems(3)
    by (simp add: stats_loop.simps [of h a])
qed (simp add: stats_loop.simps)

lemma foldl_max_Max: "foldl max (x :: nat) xs = Max (insert x (set xs))"
proof (induction xs arbitrary: x)
  case (Cons y ys)
  have "max x y \<le> z \<longleftrightarrow> x \<le> z \<and> y \<le> z" for z by simp
  then show ?case using Cons by (cases "ys = []") (auto simp: max.assoc Max_insert insert_commute)
qed simp

lemma foldl_min_Min: "foldl min (x :: nat) xs = Min (insert x (set xs))"
proof (induction xs arbitrary: x)
  case (Cons y ys)
  then show ?case by (cases "ys = []") (auto simp: min.assoc Min_insert insert_commute)
qed simp

lemma ucHeap_uses: "uses heap_malloc heap_free h0 h A \<Longrightarrow> ucHeap h = ucHeap h0"
  by (induction rule: uses.induct) (auto simp: heap_malloc_block dest: ucHeap_malloc ucHeap_free)

lemma heap_owned_range:
  assumes "(p, k) \<in> heap_owned h"
  shows "ucHeap h \<le> p \<and> p + k \<le> ucHeap h + configTOTAL_HEAP_SIZE"
proof -
  obtain bs a n where a: "heap_rep h (heap_start (ucHeap h)) bs (heap_end (ucHeap h))"
    "(a, n, True) \<in> set bs" "p = a + xHeapStructSize" "k + xHeapStructSize = n"
    using assms by (auto simp: heap_owned_def)
  then have "heap_start (ucHeap h) \<le> a \<and> a + n \<le> heap_end (ucHeap h)"
    using tiles_mem [of "heap_start (ucHeap h)" bs "heap_end (ucHeap h)" a n True] by (simp add: heap_rep_def)
  then show ?thesis using a(1,3,4) by (auto simp: heap_rep_def)
qed

section \<open>Properties\<close>

text \<open>The heap of a fresh system whose array \<open>ucHeap\<close> is at the given address.\<close>

definition boot_heap :: "addr \<Rightarrow> heap4" where
  "boot_heap base = \<lparr>ucHeap = base,
     blocks = (\<lambda>_. \<lparr>pxNextFreeBlock = 0, xBlockSize = 0, allocated = False\<rparr>),
     pxEnd = None, xFreeBytesRemaining = 0, xMinimumEverFreeBytesRemaining = 0,
     xNumberOfSuccessfulAllocations = 0, xNumberOfSuccessfulFrees = 0\<rparr>"

lemma boot_heap_rep:
  "heap_rep (prvHeapInit (boot_heap 8)) 8 [(8, 102392, False)] 102400"
  using prvHeapInit_rep [of "boot_heap 8"]
  by (simp add: boot_heap_def heap_start_def heap_end_def configTOTAL_HEAP_SIZE_def)

text \<open>
  C4: \<^verbatim>\<open>pvPortMalloc\<close> implements first fit on the sequence of heap blocks. On a well-formed heap, if
  some free block can hold the request with its header (rounded up to 8 bytes), the first such
  block in address order is used, split when more than 16 bytes remain, and the call returns the
  8-aligned payload address in a well-formed heap. Otherwise (also for a zero or an overflowing
  request) the search ends with the heap unchanged and no assertion fired, and the call does not
  return: it stops in \<^verbatim>\<open>vApplicationMallocFailedHook\<close>.
\<close>

theorem malloc_first_fit:
  assumes "heap_rep h st bs e"
  shows "case (if adjusted_size x = 0 then None else spec_malloc (adjusted_size x) bs) of
      None \<Rightarrow> malloc_block x h = Some (0, h) \<and> heap_malloc x h = None
    | Some (a, bs') \<Rightarrow> \<exists>h'. heap_malloc x h = Some (a + xHeapStructSize, h') \<and>
        heap_rep h' st bs' e \<and> (a + xHeapStructSize) mod 8 = 0 \<and>
        x + xHeapStructSize \<le> adjusted_size x \<and> adjusted_size x < x + 16"
proof (cases "adjusted_size x = 0")
  case True
  then show ?thesis using heap_malloc_refines [OF assms, of x] by simp
next
  case False
  then have x: "0 < x" by (cases x) (simp_all add: adjusted_size_def)
  show ?thesis using heap_malloc_refines [OF assms, of x] adjusted_size_ok(2,3) [of x] False x
    by (auto split: option.split)
qed

theorem malloc_first_fit_witness:
  "(\<exists>h'. heap_malloc 13 (prvHeapInit (boot_heap 8)) = Some (16, h') \<and>
     heap_rep h' 8 [(8, 24, True), (32, 102368, False)] 102400) \<and>
   heap_malloc 102385 (prvHeapInit (boot_heap 8)) = None"
proof
  have a: "adjusted_size 13 = 24" "adjusted_size 102385 = 102400" by (simp_all add: adjusted_size_def heap_defs Let_def)
  show "\<exists>h'. heap_malloc 13 (prvHeapInit (boot_heap 8)) = Some (16, h') \<and>
     heap_rep h' 8 [(8, 24, True), (32, 102368, False)] 102400"
    using malloc_first_fit [OF boot_heap_rep, of 13] a by (simp add: carve_def heap_defs)
  show "heap_malloc 102385 (prvHeapInit (boot_heap 8)) = None"
    using malloc_first_fit [OF boot_heap_rep, of 102385] a by (simp add: heap_defs)
qed

text \<open>
  C5: \<^verbatim>\<open>vPortFree\<close> of a block that was handed out returns, marks the block free and merges it with
  the free neighbours on both sides, so that two free blocks are never adjacent; no other
  allocated block changes.
\<close>

theorem free_coalesces:
  assumes "heap_rep h st bs e" "(a, n, True) \<in> set bs"
  shows "\<exists>h'. heap_free (a + xHeapStructSize) h = Some h' \<and> heap_rep h' st (spec_free a bs) e \<and>
    xPortGetFreeHeapSize h' = xPortGetFreeHeapSize h + n \<and>
    (\<forall>b k. (b, k, True) \<in> set (spec_free a bs) \<longleftrightarrow> (b, k, True) \<in> set bs \<and> b \<noteq> a)"
proof -
  obtain us vs where bs: "bs = us @ (a, n, True) # vs" using split_list [OF assms(2)] by blast
  obtain h' where h': "heap_free (a + xHeapStructSize) h = Some h'" "heap_rep h' st (spec_free a bs) e"
    using heap_free_refines [OF assms] by blast
  moreover have "xPortGetFreeHeapSize h' = xPortGetFreeHeapSize h + n"
    using h'(2) assms(1) spec_free_split [of h st us a n vs e] bs
    by (simp add: xPortGetFreeHeapSize_def heap_rep_def)
  ultimately show ?thesis using spec_free_allocated by blast
qed

theorem free_coalesces_witness:
  "\<exists>h1 h2 h3. heap_malloc 13 (prvHeapInit (boot_heap 8)) = Some (16, h1) \<and>
     heap_malloc 24 h1 = Some (40, h2) \<and> heap_free 16 h2 = Some h3 \<and>
     heap_rep h3 8 [(8, 24, False), (32, 32, True), (64, 102336, False)] 102400"
proof -
  have ad: "adjusted_size 13 = 24" "adjusted_size 24 = 32" by (simp_all add: adjusted_size_def heap_defs Let_def)
  obtain h1 where h1: "heap_malloc 13 (prvHeapInit (boot_heap 8)) = Some (16, h1)"
    "heap_rep h1 8 [(8, 24, True), (32, 102368, False)] 102400"
    using heap_malloc_refines [OF boot_heap_rep, of 13] ad by (auto simp: carve_def heap_defs)
  obtain h2 where h2: "heap_malloc 24 h1 = Some (40, h2)"
    "heap_rep h2 8 [(8, 24, True), (32, 32, True), (64, 102336, False)] 102400"
    using heap_malloc_refines [OF h1(2), of 24] ad by (auto simp: carve_def heap_defs)
  have "spec_free 8 [(8, 24, True), (32, 32, True), (64, 102336, False)] =
      [(8, 24, False), (32, 32, True), (64, 102336, False)]" by (simp add: spec_free_def)
  then show ?thesis using h1 h2 free_coalesces [OF h2(2), of 8 24] by (auto simp: xHeapStructSize_def)
qed

text \<open>
  Releasing a block that was just allocated restores the heap: after \<^verbatim>\<open>pvPortMalloc\<close> returns an
  address, \<^verbatim>\<open>vPortFree\<close> of that address returns and the heap has exactly the blocks it had
  before, so allocation followed by release leaks and fragments nothing.
\<close>

theorem malloc_free_roundtrip:
  assumes "heap_rep h st bs e" "heap_malloc x h = Some (p, h')"
  shows "\<exists>h''. heap_free p h' = Some h'' \<and> heap_rep h'' st bs e \<and>
    xPortGetFreeHeapSize h'' = xPortGetFreeHeapSize h"
proof -
  have m: "malloc_block x h = Some (p, h')" "p \<noteq> 0" using assms(2) by (simp_all add: heap_malloc_block)
  show ?thesis
  proof (rule malloc_block_cases [OF assms(1) m(1)])
  fix a n us vs
  assume c: "p = a + xHeapStructSize" "bs = us @ (a, n, False) # vs" "0 < x"
    "x + xHeapStructSize \<le> adjusted_size x" "adjusted_size x \<le> n"
    "heap_rep h' st (us @ carve (adjusted_size x) a n @ vs) e"
  obtain k where "(a, k, True) \<in> set (us @ carve (adjusted_size x) a n @ vs)"
    by (cases "n - adjusted_size x > heapMINIMUM_BLOCK_SIZE") (auto simp: carve_def)
  then obtain h'' where "heap_free p h' = Some h''"
    "heap_rep h'' st (spec_free a (us @ carve (adjusted_size x) a n @ vs)) e"
    using heap_free_refines [OF c(6)] c(1) by blast
  moreover have "spec_free a (us @ carve (adjusted_size x) a n @ vs) = bs"
    using spec_free_carve [of h st us a n vs e "adjusted_size x"] assms(1) c by simp
  ultimately show ?thesis using assms(1) by (simp add: xPortGetFreeHeapSize_def heap_rep_def)
  qed (use m(2) in simp)
qed

theorem malloc_free_roundtrip_witness:
  "\<exists>h1 h2. heap_malloc 13 (prvHeapInit (boot_heap 8)) = Some (16, h1) \<and> heap_free 16 h1 = Some h2 \<and>
     heap_rep h2 8 [(8, 102392, False)] 102400"
proof -
  have ad: "adjusted_size 13 = 24" by (simp add: adjusted_size_def heap_defs Let_def)
  obtain h1 where h1: "heap_malloc 13 (prvHeapInit (boot_heap 8)) = Some (16, h1)"
    using heap_malloc_refines [OF boot_heap_rep, of 13] ad by (auto simp: carve_def heap_defs)
  then show ?thesis using malloc_free_roundtrip [OF boot_heap_rep h1] by auto
qed

text \<open>
  C36: However a program interleaves allocations and releases of what it got, starting from the
  heap at reset: every release of an outstanding block returns; a further allocation returns if and
  only if some free block holds the request with its header, and stops in the failed-allocation hook
  otherwise; the outstanding blocks lie inside \<^verbatim>\<open>ucHeap\<close> and no two of them overlap.
\<close>

theorem heap_use_disjoint:
  assumes "uses heap_malloc heap_free (boot_heap base) h A" "0 < base"
  shows "(heap_malloc x h \<noteq> None \<longleftrightarrow> 0 < adjusted_size x \<and> has_room h (adjusted_size x)) \<and>
    (\<forall>(p, n) \<in> A. heap_free p h \<noteq> None \<and> base \<le> p \<and> p + n \<le> base + configTOTAL_HEAP_SIZE) \<and>
    (\<forall>(p, n) \<in> A. \<forall>(q, m) \<in> A. (p, n) \<noteq> (q, m) \<longrightarrow> p + n \<le> q \<or> q + m \<le> p)"
proof -
  have i: "heap_inv (boot_heap base)" using assms(2) by (simp add: heap_inv_def boot_heap_def)
  note u = heap4_alloc.uses_inv [OF assms(1) i] and d = heap4_alloc.uses_disjoint [OF assms(1) i]
    and g = heap4_alloc.uses_progress [OF assms(1) i]
  have "base \<le> p \<and> p + n \<le> base + configTOTAL_HEAP_SIZE" if pn: "(p, n) \<in> A" for p n
  proof -
    obtain k where "n \<le> k" "(p, k) \<in> heap_owned h"
      using u pn by blast
    then show ?thesis using heap_owned_range [of p k h] ucHeap_uses [OF assms(1)]
      by (auto simp: boot_heap_def)
  qed
  then have "\<forall>(p, n) \<in> A. heap_free p h \<noteq> None \<and> base \<le> p \<and> p + n \<le> base + configTOTAL_HEAP_SIZE"
    using g(2) by fast
  moreover have "\<forall>(p, n) \<in> A. \<forall>(q, m) \<in> A. (p, n) \<noteq> (q, m) \<longrightarrow> p + n \<le> q \<or> q + m \<le> p"
    using d by fast
  ultimately show ?thesis using g(1) [of x] unfolding heap_fits_def by blast
qed

theorem heap_use_disjoint_witness:
  "\<exists>h1 h2. uses heap_malloc heap_free (boot_heap 8) h2 {(16, 13), (40, 24)} \<and>
     heap_malloc 13 (boot_heap 8) = Some (16, h1) \<and> heap_malloc 24 h1 = Some (40, h2) \<and>
     heap_free 16 h2 \<noteq> None \<and> heap_malloc 100 h2 \<noteq> None"
proof -
  have ad: "adjusted_size 13 = 24" "adjusted_size 24 = 32" "adjusted_size 100 = 112" by (simp_all add: adjusted_size_def heap_defs Let_def)
  obtain h1 where h1: "heap_malloc 13 (boot_heap 8) = Some (16, h1)"
    "heap_rep h1 8 [(8, 24, True), (32, 102368, False)] 102400"
    using heap_malloc_refines [OF boot_heap_rep, of 13] malloc_block_init [of "boot_heap 8" 13] ad
    by (auto simp: carve_def heap_defs boot_heap_def heap_malloc_block)
  obtain h2 where h2: "heap_malloc 24 h1 = Some (40, h2)"
    "heap_rep h2 8 [(8, 24, True), (32, 32, True), (64, 102336, False)] 102400"
    using heap_malloc_refines [OF h1(2), of 24] ad by (auto simp: carve_def heap_defs)
  have "uses heap_malloc heap_free (boot_heap 8) h1 {(16, 13)}"
    using uses_malloc [of heap_malloc heap_free "boot_heap 8", OF uses_start h1(1)] by simp
  then have u: "uses heap_malloc heap_free (boot_heap 8) h2 {(16, 13), (40, 24)}"
    using uses_malloc [of heap_malloc heap_free "boot_heap 8" h1 "{(16, 13)}", OF _ h2(1)]
    by (simp add: insert_commute)
  have "ucHeap h2 = 8" using ucHeap_uses [OF u] by (simp add: boot_heap_def)
  moreover have "pxEnd h2 \<noteq> None" using h2(2) by (simp add: heap_rep_def)
  ultimately have r: "has_room h2 112"
    using h2(2) by (force simp: has_room_def heap_start_def heap_end_def heap_defs cfg_defs)
  show ?thesis using heap_use_disjoint [OF u, of 100] r ad(3) h1(1) h2(1) u by auto
qed

text \<open>
  \<^verbatim>\<open>vPortGetHeapStats\<close> returns, and reports the number of free blocks, the largest and the
  smallest of them (0 and \<^verbatim>\<open>SIZE_MAX\<close> when there is none), the free bytes and a minimum-ever
  figure that never exceeds them.
\<close>

theorem heap_stats_correct:
  assumes "heap_rep h st bs e"
  shows "\<exists>s. vPortGetHeapStats h = Some s \<and>
    xNumberOfFreeBlocks s = length (filter (\<lambda>(a, n, al). \<not> al) bs) \<and>
    xSizeOfLargestFreeBlockInBytes s = Max (insert 0 {n. \<exists>a. (a, n, False) \<in> set bs}) \<and>
    xSizeOfSmallestFreeBlockInBytes s = Min (insert SIZE_MAX {n. \<exists>a. (a, n, False) \<in> set bs}) \<and>
    xAvailableHeapSpaceInBytes s = free_bytes bs \<and> statsMinimumEver s \<le> free_bytes bs"
proof -
  have ch: "chain h xStart (free_addrs bs) e" and t: "tiles st bs e" and e: "pxEnd h = Some e"
    and hd: "headers_ok h bs" using assms by (auto simp: heap_rep_def)
  have ne: "e \<notin> set (free_addrs bs)" using free_addrs_range [OF t] by blast
  have "(\<lambda>a. sizeOf h (Blk a)) ` set (free_addrs bs) = {n. \<exists>a. (a, n, False) \<in> set bs}"
    using hd by (force simp: free_addrs_mem headers_ok_def image_def)
  then have sz: "set (map (\<lambda>a. sizeOf h (Blk a)) (free_addrs bs)) = {n. \<exists>a. (a, n, False) \<in> set bs}"
    by simp
  have "nextOf h xStart \<noteq> 0"
    using heap_rep_valid [OF assms, of "nextOf h xStart"] ch by (cases "free_addrs bs") auto
  then show ?thesis
    using stats_loop_chain [OF ch ne e, of 0 0 SIZE_MAX] sz assms
    by (simp add: vPortGetHeapStats_def foldl_max_Max foldl_min_Min free_addrs_def heap_rep_def)
qed

theorem heap_stats_correct_witness:
  "\<exists>s. vPortGetHeapStats (prvHeapInit (boot_heap 8)) = Some s \<and> xNumberOfFreeBlocks s = 1 \<and>
     xSizeOfLargestFreeBlockInBytes s = 102392"
  using heap_stats_correct [OF boot_heap_rep] by auto

end
