(* ===== verification/FR_Tasks.thy ===== *)
theory FR_Tasks
  imports FR_List FR_Heap4
begin

text \<open>
  \<^verbatim>\<open>tasks.c\<close>, the scheduler: its state (\<open>sched\<close>), and one definition per function, in the
  configuration of \<^verbatim>\<open>FreeRTOSConfig.h\<close> (one core, preemption, port-optimised task selection,
  32-bit ticks, dynamic and static allocation, task notifications with three entries).

  A task handle is the address of its control block, 0 is NULL. Each control block owns two list
  items, \<open>StateItem\<close> and \<open>EventItem\<close>; the lists are those of theory \<open>FR_List\<close>, whose refinement
  lemmas relate them to the linked memory of \<^verbatim>\<open>list.c\<close>. A critical section or a stretch of code
  with the scheduler suspended is one function; interrupts and other tasks act between functions.
  \<^verbatim>\<open>portYIELD\<close> sets the PendSV pending bit (\<open>pendSV\<close>); the switch itself is a step of its own.

  The stack contents (fill pattern, overflow check, initial frame) and the trace hooks are not
  part of the state; of the initial stack frame the entry address and its argument are kept.
\<close>

section \<open>State\<close>

datatype item = StateItem addr | EventItem addr

text \<open>The lists of the kernel, the two waiting lists of the queue and the one of the event group at an address.\<close>

datatype list_id =
    pxReadyTasksLists nat
  | xDelayedTaskList1
  | xDelayedTaskList2
  | xPendingReadyList
  | xTasksWaitingTermination
  | xSuspendedTaskList
  | xTasksWaitingToSend addr
  | xTasksWaitingToReceive addr
  | xTasksWaitingForBits addr

datatype notify_state =
  taskNOT_WAITING_NOTIFICATION | taskWAITING_NOTIFICATION | taskNOTIFICATION_RECEIVED

datatype alloc_kind =
    tskDYNAMICALLY_ALLOCATED_STACK_AND_TCB
  | tskSTATICALLY_ALLOCATED_STACK_ONLY
  | tskSTATICALLY_ALLOCATED_STACK_AND_TCB

text \<open>\<open>uxTraceNumber\<close> is the field \<^verbatim>\<open>uxTaskNumber\<close>, whose name the scheduler also gives to a variable of its own.\<close>

record TCB_t =
  uxPriority :: nat
  pxStack :: addr
  pcTaskName :: string
  uxTCBNumber :: nat
  uxTraceNumber :: nat
  uxBasePriority :: nat
  uxMutexesHeld :: nat
  ulNotifiedValue :: "nat \<Rightarrow> u32"
  ucNotifyState :: "nat \<Rightarrow> notify_state"
  tcbAlloc :: alloc_kind
  ucDelayAborted :: bool
  pxTaskCode :: addr
  pvParameters :: addr

record sched =
  lists :: "(list_id, item) list_state"
  tcb :: "addr \<Rightarrow> TCB_t"
  heap :: heap4
  pxCurrentTCB :: addr
  pxDelayedTaskList :: list_id
  pxOverflowDelayedTaskList :: list_id
  uxDeletedTasksWaitingCleanUp :: nat
  uxCurrentNumberOfTasks :: nat
  xTickCount :: TickType_t
  uxTopReadyPriority :: u32
  xSchedulerRunning :: bool
  xPendedTicks :: TickType_t
  xYieldPending :: bool
  xNumOfOverflows :: u32
  uxTaskNumber :: nat
  xNextTaskUnblockTime :: TickType_t
  uxSchedulerSuspended :: nat
  pendSV :: bool

abbreviation items :: "'a sched_scheme \<Rightarrow> list_id \<Rightarrow> item list" where
  "items k l \<equiv> lsItems (lists k) l"

abbreviation container :: "'a sched_scheme \<Rightarrow> item \<Rightarrow> list_id option" where
  "container k i \<equiv> liContainer (lists k) i"

abbreviation prio :: "'a sched_scheme \<Rightarrow> addr \<Rightarrow> nat" where
  "prio k t \<equiv> uxPriority (tcb k t)"

fun owner :: "item \<Rightarrow> addr" where
  "owner (StateItem t) = t"
| "owner (EventItem t) = t"

definition taskEVENT_LIST_ITEM_VALUE_IN_USE :: TickType_t where
  "taskEVENT_LIST_ITEM_VALUE_IN_USE = 0x80000000"

definition sizeof_TCB :: nat where
  "sizeof_TCB = 100"

definition configMAX_TASK_NAME_LEN :: nat where
  "configMAX_TASK_NAME_LEN = 12"

section \<open>Updates of parts of the state\<close>

definition upd_tcb :: "addr \<Rightarrow> (TCB_t \<Rightarrow> TCB_t) \<Rightarrow> 'a sched_scheme \<Rightarrow> 'a sched_scheme" where
  "upd_tcb t f k = k\<lparr>tcb := (tcb k)(t := f (tcb k t))\<rparr>"

definition upd_lists ::
  "((list_id, item) list_state \<Rightarrow> (list_id, item) list_state) \<Rightarrow> 'a sched_scheme \<Rightarrow> 'a sched_scheme" where
  "upd_lists f k = k\<lparr>lists := f (lists k)\<rparr>"

text \<open>\<^verbatim>\<open>uxListRemove\<close> and \<^verbatim>\<open>listREMOVE_ITEM\<close>; an item in no list has a NULL container.\<close>

definition list_remove :: "item \<Rightarrow> 'a sched_scheme \<Rightarrow> (nat \<times> 'a sched_scheme) option" where
  "list_remove i k = map_option (\<lambda>(n, s). (n, k\<lparr>lists := s\<rparr>)) (ls_remove i (lists k))"

definition listREMOVE_ITEM :: "item \<Rightarrow> 'a sched_scheme \<Rightarrow> 'a sched_scheme option" where
  "listREMOVE_ITEM i k = map_option snd (list_remove i k)"

text \<open>Remove the item from its list when it is in one.\<close>

definition remove_if_contained :: "item \<Rightarrow> 'a sched_scheme \<Rightarrow> 'a sched_scheme option" where
  "remove_if_contained i k =
     (if container k i \<noteq> None then listREMOVE_ITEM i k else Some k)"

text \<open>\<^verbatim>\<open>portYIELD\<close>, \<^verbatim>\<open>portYIELD_WITHIN_API\<close>: set the PendSV pending bit.\<close>

definition portYIELD :: "'a sched_scheme \<Rightarrow> 'a sched_scheme" where
  "portYIELD k = k\<lparr>pendSV := True\<rparr>"

definition taskYIELD_ANY_CORE_IF_USING_PREEMPTION :: "addr \<Rightarrow> 'a sched_scheme \<Rightarrow> 'a sched_scheme" where
  "taskYIELD_ANY_CORE_IF_USING_PREEMPTION t k =
     (if prio k (pxCurrentTCB k) < prio k t then portYIELD k else k)"

definition prvGetTCBFromHandle :: "addr \<Rightarrow> 'a sched_scheme \<Rightarrow> addr" where
  "prvGetTCBFromHandle h k = (if h = 0 then pxCurrentTCB k else h)"

section \<open>The ready lists and their bitmap\<close>

definition portRECORD_READY_PRIORITY :: "nat \<Rightarrow> u32 \<Rightarrow> u32" where
  "portRECORD_READY_PRIORITY p w = w OR push_bit p 1"

definition portRESET_READY_PRIORITY :: "nat \<Rightarrow> u32 \<Rightarrow> u32" where
  "portRESET_READY_PRIORITY p w = w AND NOT (push_bit p 1)"

text \<open>The CLZ instruction: the number of zero bits above the highest set bit.\<close>

definition ucPortCountLeadingZeros :: "u32 \<Rightarrow> nat" where
  "ucPortCountLeadingZeros w = length (takeWhile Not (map (bit w) (rev [0..<32])))"

text \<open>
  \<^verbatim>\<open>portGET_HIGHEST_PRIORITY\<close>; on an empty bitmap CLZ gives 32 and the index would leave the array
  of ready lists, which is \<open>None\<close> here.
\<close>

definition portGET_HIGHEST_PRIORITY :: "u32 \<Rightarrow> nat option" where
  "portGET_HIGHEST_PRIORITY w =
     (if ucPortCountLeadingZeros w \<le> 31 then Some (31 - ucPortCountLeadingZeros w) else None)"

definition taskSELECT_HIGHEST_PRIORITY_TASK :: "'a sched_scheme \<Rightarrow> 'a sched_scheme option" where
  "taskSELECT_HIGHEST_PRIORITY_TASK k = do {
     p \<leftarrow> portGET_HIGHEST_PRIORITY (uxTopReadyPriority k);
     configASSERT (items k (pxReadyTasksLists p) \<noteq> []);
     let (i, s) = ls_next_entry (pxReadyTasksLists p) (lists k);
     i \<leftarrow> i;
     Some (k\<lparr>lists := s, pxCurrentTCB := owner i\<rparr>)
   }"

definition taskRESET_READY_PRIORITY :: "nat \<Rightarrow> 'a sched_scheme \<Rightarrow> 'a sched_scheme" where
  "taskRESET_READY_PRIORITY p k =
     (if items k (pxReadyTasksLists p) = []
      then k\<lparr>uxTopReadyPriority := portRESET_READY_PRIORITY p (uxTopReadyPriority k)\<rparr> else k)"

definition prvAddTaskToReadyList :: "addr \<Rightarrow> 'a sched_scheme \<Rightarrow> 'a sched_scheme" where
  "prvAddTaskToReadyList t k =
     (let k = k\<lparr>uxTopReadyPriority := portRECORD_READY_PRIORITY (prio k t) (uxTopReadyPriority k)\<rparr>
      in upd_lists (ls_insert_end (pxReadyTasksLists (prio k t)) (StateItem t)) k)"

text \<open>\<^verbatim>\<open>uxListRemove\<close> of a state item, clearing the priority's bit when its list becomes empty.\<close>

definition remove_reset_priority :: "addr \<Rightarrow> nat \<Rightarrow> 'a sched_scheme \<Rightarrow> 'a sched_scheme option" where
  "remove_reset_priority t p k = do {
     (n, k) \<leftarrow> list_remove (StateItem t) k;
     Some (if n = 0
           then k\<lparr>uxTopReadyPriority := portRESET_READY_PRIORITY p (uxTopReadyPriority k)\<rparr> else k)
   }"

section \<open>Delayed tasks and the tick\<close>

definition prvResetNextTaskUnblockTime :: "'a sched_scheme \<Rightarrow> 'a sched_scheme" where
  "prvResetNextTaskUnblockTime k = k\<lparr>xNextTaskUnblockTime :=
     (case items k (pxDelayedTaskList k) of
        [] \<Rightarrow> portMAX_DELAY
      | i # _ \<Rightarrow> liValue (lists k) i)\<rparr>"

definition taskSWITCH_DELAYED_LISTS :: "'a sched_scheme \<Rightarrow> 'a sched_scheme option" where
  "taskSWITCH_DELAYED_LISTS k = do {
     configASSERT (items k (pxDelayedTaskList k) = []);
     let k = k\<lparr>pxDelayedTaskList := pxOverflowDelayedTaskList k,
               pxOverflowDelayedTaskList := pxDelayedTaskList k,
               xNumOfOverflows := xNumOfOverflows k + 1\<rparr>;
     Some (prvResetNextTaskUnblockTime k)
   }"

definition prvAddCurrentTaskToDelayedList ::
  "TickType_t \<Rightarrow> bool \<Rightarrow> 'a sched_scheme \<Rightarrow> 'a sched_scheme option" where
  "prvAddCurrentTaskToDelayedList xTicksToWait xCanBlockIndefinitely k = do {
     let cur = pxCurrentTCB k;
     let k = upd_tcb cur (\<lambda>t. t\<lparr>ucDelayAborted := False\<rparr>) k;
     k \<leftarrow> remove_reset_priority cur (prio k cur) k;
     if xTicksToWait = portMAX_DELAY \<and> xCanBlockIndefinitely
     then Some (upd_lists (ls_insert_end xSuspendedTaskList (StateItem cur)) k)
     else do {
       let xTimeToWake = xTickCount k + xTicksToWait;
       let k = upd_lists (ls_set_value (StateItem cur) xTimeToWake) k;
       if xTimeToWake < xTickCount k
       then Some (upd_lists (ls_insert (pxOverflowDelayedTaskList k) (StateItem cur)) k)
       else do {
         let k = upd_lists (ls_insert (pxDelayedTaskList k) (StateItem cur)) k;
         Some (if xTimeToWake < xNextTaskUnblockTime k
               then k\<lparr>xNextTaskUnblockTime := xTimeToWake\<rparr> else k)
       }
     }
   }"

text \<open>
  The loop of \<^verbatim>\<open>xTaskIncrementTick\<close> that readies every delayed task whose wake time has come; it
  also returns whether one of them has a higher priority than the running task.
\<close>

partial_function (option) unblock_loop ::
  "TickType_t \<Rightarrow> bool \<Rightarrow> 'a sched_scheme \<Rightarrow> (bool \<times> 'a sched_scheme) option" where
  "unblock_loop now sw k =
     (case items k (pxDelayedTaskList k) of
        [] \<Rightarrow> Some (sw, k\<lparr>xNextTaskUnblockTime := portMAX_DELAY\<rparr>)
      | i # _ \<Rightarrow>
          if now < liValue (lists k) (StateItem (owner i))
          then Some (sw, k\<lparr>xNextTaskUnblockTime := liValue (lists k) (StateItem (owner i))\<rparr>)
          else do {
            k \<leftarrow> listREMOVE_ITEM (StateItem (owner i)) k;
            k \<leftarrow> remove_if_contained (EventItem (owner i)) k;
            let k = prvAddTaskToReadyList (owner i) k;
            unblock_loop now (sw \<or> prio k (owner i) > prio k (pxCurrentTCB k)) k
          })"

definition xTaskIncrementTick :: "'a sched_scheme \<Rightarrow> (bool \<times> 'a sched_scheme) option" where
  "xTaskIncrementTick k =
     (if uxSchedulerSuspended k = 0 then do {
        let now = xTickCount k + 1;
        let k = k\<lparr>xTickCount := now\<rparr>;
        k \<leftarrow> (if now = 0 then taskSWITCH_DELAYED_LISTS k else Some k);
        (sw, k) \<leftarrow> (if now \<ge> xNextTaskUnblockTime k then unblock_loop now False k else Some (False, k));
        let sw = (sw \<or> length (items k (pxReadyTasksLists (prio k (pxCurrentTCB k)))) > 1);
        Some (sw \<or> xYieldPending k, k)
      }
      else Some (False, k\<lparr>xPendedTicks := xPendedTicks k + 1\<rparr>))"

section \<open>Suspending and resuming the scheduler\<close>

definition vTaskSuspendAll :: "'a sched_scheme \<Rightarrow> 'a sched_scheme" where
  "vTaskSuspendAll k = k\<lparr>uxSchedulerSuspended := uxSchedulerSuspended k + 1\<rparr>"

text \<open>The loop that readies the tasks made ready while the scheduler was suspended.\<close>

partial_function (option) pending_loop :: "bool \<Rightarrow> 'a sched_scheme \<Rightarrow> (bool \<times> 'a sched_scheme) option" where
  "pending_loop moved k =
     (case items k xPendingReadyList of
        [] \<Rightarrow> Some (moved, k)
      | i # _ \<Rightarrow> do {
          k \<leftarrow> listREMOVE_ITEM (EventItem (owner i)) k;
          k \<leftarrow> listREMOVE_ITEM (StateItem (owner i)) k;
          let k = prvAddTaskToReadyList (owner i) k;
          pending_loop True
            (if prio k (owner i) > prio k (pxCurrentTCB k) then k\<lparr>xYieldPending := True\<rparr> else k)
        })"

text \<open>The loop that catches up with the ticks counted meanwhile.\<close>

fun pended_loop :: "nat \<Rightarrow> 'a sched_scheme \<Rightarrow> 'a sched_scheme option" where
  "pended_loop 0 k = Some k"
| "pended_loop (Suc n) k = do {
     (sw, k) \<leftarrow> xTaskIncrementTick k;
     pended_loop n (if sw then k\<lparr>xYieldPending := True\<rparr> else k)
   }"

definition xTaskResumeAll :: "'a sched_scheme \<Rightarrow> (bool \<times> 'a sched_scheme) option" where
  "xTaskResumeAll k = do {
     configASSERT (uxSchedulerSuspended k \<noteq> 0);
     let k = k\<lparr>uxSchedulerSuspended := uxSchedulerSuspended k - 1\<rparr>;
     if uxSchedulerSuspended k = 0 \<and> uxCurrentNumberOfTasks k > 0 then do {
       (moved, k) \<leftarrow> pending_loop False k;
       let k = (if moved then prvResetNextTaskUnblockTime k else k);
       k \<leftarrow> (if xPendedTicks k > 0
              then map_option (\<lambda>k. k\<lparr>xPendedTicks := 0\<rparr>) (pended_loop (unat (xPendedTicks k)) k)
              else Some k);
       if xYieldPending k then Some (True, portYIELD k) else Some (False, k)
     }
     else Some (False, k)
   }"

definition xTaskGetTickCount :: "'a sched_scheme \<Rightarrow> TickType_t" where
  "xTaskGetTickCount k = xTickCount k"

definition xTaskCatchUpTicks :: "TickType_t \<Rightarrow> 'a sched_scheme \<Rightarrow> (bool \<times> 'a sched_scheme) option" where
  "xTaskCatchUpTicks n k = do {
     configASSERT (uxSchedulerSuspended k = 0);
     let k = vTaskSuspendAll k;
     xTaskResumeAll (k\<lparr>xPendedTicks := xPendedTicks k + n\<rparr>)
   }"

section \<open>Context switch\<close>

definition vTaskSwitchContext :: "'a sched_scheme \<Rightarrow> 'a sched_scheme option" where
  "vTaskSwitchContext k =
     (if uxSchedulerSuspended k \<noteq> 0 then Some (k\<lparr>xYieldPending := True\<rparr>)
      else taskSELECT_HIGHEST_PRIORITY_TASK (k\<lparr>xYieldPending := False\<rparr>))"

text \<open>The PendSV handler and the tick handler of the port (\<^verbatim>\<open>port.c\<close>).\<close>

definition xPortPendSVHandler :: "'a sched_scheme \<Rightarrow> 'a sched_scheme option" where
  "xPortPendSVHandler k = vTaskSwitchContext (k\<lparr>pendSV := False\<rparr>)"

definition xPortSysTickHandler :: "'a sched_scheme \<Rightarrow> 'a sched_scheme option" where
  "xPortSysTickHandler k = do {
     (sw, k) \<leftarrow> xTaskIncrementTick k;
     Some (if sw then portYIELD k else k)
   }"

end
