(* ===== verification/FR_Task_API.thy ===== *)
theory FR_Task_API
  imports FR_Tasks
begin

text \<open>
  The rest of \<^verbatim>\<open>tasks.c\<close>: memory for kernel objects, creation and deletion of tasks, delays,
  priorities, suspension, the event lists that queues block on, time-outs, priority inheritance
  for mutexes and task notifications. A function that blocks is split at its yield: the part
  before it, and the part that runs when the task is scheduled again.
\<close>

section \<open>Kernel memory\<close>

text \<open>
  \<^verbatim>\<open>pvPortMalloc\<close> with the scheduler suspended around the search. When no block is found,
  \<^verbatim>\<open>vApplicationMallocFailedHook\<close> of this build never returns.
\<close>

definition pvPortMalloc :: "nat \<Rightarrow> 'a sched_scheme \<Rightarrow> (addr \<times> 'a sched_scheme) option" where
  "pvPortMalloc n k = do {
     let k = vTaskSuspendAll k;
     (pvReturn, h) \<leftarrow> malloc_block n (heap k);
     (_, k) \<leftarrow> xTaskResumeAll (k\<lparr>heap := h\<rparr>);
     (if pvReturn = 0 then vApplicationMallocFailedHook else Some ());
     configASSERT (pvReturn mod portBYTE_ALIGNMENT = 0);
     Some (pvReturn, k)
   }"

definition vPortFree :: "addr \<Rightarrow> 'a sched_scheme \<Rightarrow> 'a sched_scheme option" where
  "vPortFree pv k =
     (if pv \<noteq> 0 then do {
        let k = vTaskSuspendAll k;
        h \<leftarrow> heap_free pv (heap k);
        map_option snd (xTaskResumeAll (k\<lparr>heap := h\<rparr>))
      } else Some k)"

section \<open>Creation and deletion\<close>

definition prvInitialiseTaskLists :: "'a sched_scheme \<Rightarrow> 'a sched_scheme" where
  "prvInitialiseTaskLists k =
     (let k = upd_lists (\<lambda>s. foldl (\<lambda>s p. ls_init (pxReadyTasksLists p) s) s [0..<configMAX_PRIORITIES]) k;
          k = upd_lists (ls_init xDelayedTaskList1) k;
          k = upd_lists (ls_init xDelayedTaskList2) k;
          k = upd_lists (ls_init xPendingReadyList) k;
          k = upd_lists (ls_init xTasksWaitingTermination) k;
          k = upd_lists (ls_init xSuspendedTaskList) k
      in k\<lparr>pxDelayedTaskList := xDelayedTaskList1, pxOverflowDelayedTaskList := xDelayedTaskList2\<rparr>)"

text \<open>\<^verbatim>\<open>pxPortInitialiseStack\<close> takes 16 words below the aligned top of the stack.\<close>

definition pxPortInitialiseStack :: "nat \<Rightarrow> nat" where
  "pxPortInitialiseStack tos = tos - 4 * (1 + 1 + 1 + 5 + 8)"

definition prvInitialiseNewTask ::
  "addr \<Rightarrow> string \<Rightarrow> nat \<Rightarrow> addr \<Rightarrow> nat \<Rightarrow> addr \<Rightarrow> 'a sched_scheme \<Rightarrow> 'a sched_scheme option" where
  "prvInitialiseNewTask code name uxStackDepth params priority new k = do {
     let tos = align_down (pxStack (tcb k new) + 4 * (uxStackDepth - 1));
     configASSERT (tos mod portBYTE_ALIGNMENT = 0);
     let k = upd_tcb new (\<lambda>t. t\<lparr>pcTaskName := take (configMAX_TASK_NAME_LEN - 1) name\<rparr>) k;
     configASSERT (priority < configMAX_PRIORITIES);
     let priority = (if priority \<ge> configMAX_PRIORITIES then configMAX_PRIORITIES - 1 else priority);
     let k = upd_tcb new (\<lambda>t. t\<lparr>uxPriority := priority, uxBasePriority := priority\<rparr>) k;
     let k = upd_lists (ls_init_item (StateItem new)) k;
     let k = upd_lists (ls_init_item (EventItem new)) k;
     let k = upd_lists (ls_set_value (EventItem new) (of_nat configMAX_PRIORITIES - of_nat priority)) k;
     let k = upd_tcb new (\<lambda>t. t\<lparr>pxTaskCode := code, pvParameters := params\<rparr>) k;
     configASSERT ((tos - pxPortInitialiseStack tos) div 4 < uxStackDepth);
     Some k
   }"

definition prvAddNewTaskToReadyList :: "addr \<Rightarrow> 'a sched_scheme \<Rightarrow> 'a sched_scheme" where
  "prvAddNewTaskToReadyList new k =
     (let k = k\<lparr>uxCurrentNumberOfTasks := uxCurrentNumberOfTasks k + 1\<rparr>;
          k = (if pxCurrentTCB k = 0 then
                 let k = k\<lparr>pxCurrentTCB := new\<rparr>
                 in if uxCurrentNumberOfTasks k = 1 then prvInitialiseTaskLists k else k
               else if \<not> xSchedulerRunning k \<and> prio k (pxCurrentTCB k) \<le> prio k new
               then k\<lparr>pxCurrentTCB := new\<rparr> else k);
          k = k\<lparr>uxTaskNumber := uxTaskNumber k + 1\<rparr>;
          k = upd_tcb new (\<lambda>t. t\<lparr>uxTCBNumber := uxTaskNumber k\<rparr>) k;
          k = prvAddTaskToReadyList new k
      in if xSchedulerRunning k then taskYIELD_ANY_CORE_IF_USING_PREEMPTION new k else k)"

definition empty_TCB :: TCB_t where
  "empty_TCB = \<lparr>uxPriority = 0, pxStack = 0, pcTaskName = [], uxTCBNumber = 0, uxTraceNumber = 0, uxBasePriority = 0,
     uxMutexesHeld = 0, ulNotifiedValue = (\<lambda>_. 0), ucNotifyState = (\<lambda>_. taskNOT_WAITING_NOTIFICATION),
     tcbAlloc = tskDYNAMICALLY_ALLOCATED_STACK_AND_TCB, ucDelayAborted = False,
     pxTaskCode = 0, pvParameters = 0\<rparr>"

definition prvCreateTask ::
  "addr \<Rightarrow> string \<Rightarrow> nat \<Rightarrow> addr \<Rightarrow> nat \<Rightarrow> 'a sched_scheme \<Rightarrow> (addr \<times> 'a sched_scheme) option" where
  "prvCreateTask code name uxStackDepth params priority k = do {
     (stack, k) \<leftarrow> pvPortMalloc ((uxStackDepth * 4) mod 2 ^ 32) k;
     (new, k) \<leftarrow> (if stack \<noteq> 0 then do {
          (new, k) \<leftarrow> pvPortMalloc sizeof_TCB k;
          if new \<noteq> 0
          then Some (new, upd_tcb new (\<lambda>_. empty_TCB\<lparr>pxStack := stack\<rparr>) k)
          else map_option (Pair 0) (vPortFree stack k)
        } else Some (0, k));
     if new \<noteq> 0 then do {
       let k = upd_tcb new (\<lambda>t. t\<lparr>tcbAlloc := tskDYNAMICALLY_ALLOCATED_STACK_AND_TCB\<rparr>) k;
       k \<leftarrow> prvInitialiseNewTask code name uxStackDepth params priority new k;
       Some (new, k)
     } else Some (0, k)
   }"

text \<open>\<^verbatim>\<open>xTaskCreate\<close>: the new handle, or 0 for \<^verbatim>\<open>errCOULD_NOT_ALLOCATE_REQUIRED_MEMORY\<close>.\<close>

definition xTaskCreate ::
  "addr \<Rightarrow> string \<Rightarrow> nat \<Rightarrow> addr \<Rightarrow> nat \<Rightarrow> 'a sched_scheme \<Rightarrow> (addr \<times> 'a sched_scheme) option" where
  "xTaskCreate code name uxStackDepth params priority k = do {
     (new, k) \<leftarrow> prvCreateTask code name uxStackDepth params priority k;
     if new \<noteq> 0 then Some (new, prvAddNewTaskToReadyList new k) else Some (0, k)
   }"

definition prvDeleteTCB :: "addr \<Rightarrow> 'a sched_scheme \<Rightarrow> 'a sched_scheme option" where
  "prvDeleteTCB t k =
     (case tcbAlloc (tcb k t) of
        tskDYNAMICALLY_ALLOCATED_STACK_AND_TCB \<Rightarrow> do {
          k \<leftarrow> vPortFree (pxStack (tcb k t)) k;
          vPortFree t k
        }
      | tskSTATICALLY_ALLOCATED_STACK_ONLY \<Rightarrow> vPortFree t k
      | tskSTATICALLY_ALLOCATED_STACK_AND_TCB \<Rightarrow> Some k)"

definition vTaskDelete :: "addr \<Rightarrow> 'a sched_scheme \<Rightarrow> 'a sched_scheme option" where
  "vTaskDelete h k = do {
     let t = prvGetTCBFromHandle h k;
     configASSERT (t \<noteq> 0);
     (n, k) \<leftarrow> list_remove (StateItem t) k;
     let k = (if n = 0 then taskRESET_READY_PRIORITY (prio k t) k else k);
     k \<leftarrow> remove_if_contained (EventItem t) k;
     let k = k\<lparr>uxTaskNumber := uxTaskNumber k + 1\<rparr>;
     let inIdle = (xSchedulerRunning k \<and> t = pxCurrentTCB k);
     let k = (if inIdle then
                (upd_lists (ls_insert_end xTasksWaitingTermination (StateItem t)) k)
                \<lparr>uxDeletedTasksWaitingCleanUp := uxDeletedTasksWaitingCleanUp k + 1\<rparr>
              else prvResetNextTaskUnblockTime (k\<lparr>uxCurrentNumberOfTasks := uxCurrentNumberOfTasks k - 1\<rparr>));
     k \<leftarrow> (if inIdle then Some k else prvDeleteTCB t k);
     if xSchedulerRunning k \<and> t = pxCurrentTCB k then do {
       configASSERT (uxSchedulerSuspended k = 0);
       Some (portYIELD k)
     } else Some k
   }"

text \<open>The idle task's \<^verbatim>\<open>prvCheckTasksWaitingTermination\<close> frees the tasks that deleted themselves.\<close>

partial_function (option) prvCheckTasksWaitingTermination :: "'a sched_scheme \<Rightarrow> 'a sched_scheme option" where
  "prvCheckTasksWaitingTermination k =
     (if uxDeletedTasksWaitingCleanUp k > 0 then do {
        i \<leftarrow> ls_head xTasksWaitingTermination (lists k);
        k \<leftarrow> listREMOVE_ITEM (StateItem (owner i)) k;
        k \<leftarrow> prvDeleteTCB (owner i)
               (k\<lparr>uxCurrentNumberOfTasks := uxCurrentNumberOfTasks k - 1,
                  uxDeletedTasksWaitingCleanUp := uxDeletedTasksWaitingCleanUp k - 1\<rparr>);
        prvCheckTasksWaitingTermination k
      } else Some k)"

section \<open>Delays\<close>

text \<open>\<^verbatim>\<open>vTaskDelay\<close> up to the yield.\<close>

definition vTaskDelay :: "TickType_t \<Rightarrow> 'a sched_scheme \<Rightarrow> 'a sched_scheme option" where
  "vTaskDelay xTicksToDelay k = do {
     (xAlreadyYielded, k) \<leftarrow> (if xTicksToDelay > 0 then do {
          let k = vTaskSuspendAll k;
          configASSERT (uxSchedulerSuspended k = 1);
          k \<leftarrow> prvAddCurrentTaskToDelayedList xTicksToDelay False k;
          xTaskResumeAll k
        } else Some (False, k));
     Some (if \<not> xAlreadyYielded then portYIELD k else k)
   }"

text \<open>\<^verbatim>\<open>xTaskDelayUntil\<close>: whether the caller is to be delayed, and the new wake time.\<close>

definition delay_until_blocks :: "TickType_t \<Rightarrow> TickType_t \<Rightarrow> TickType_t \<Rightarrow> bool" where
  "delay_until_blocks now prev wake =
     (if now < prev then wake < prev \<and> wake > now else wake < prev \<or> wake > now)"

definition xTaskDelayUntil ::
  "TickType_t \<Rightarrow> TickType_t \<Rightarrow> 'a sched_scheme \<Rightarrow> (bool \<times> TickType_t \<times> 'a sched_scheme) option" where
  "xTaskDelayUntil prev inc k = do {
     configASSERT (inc > 0);
     let k = vTaskSuspendAll k;
     configASSERT (uxSchedulerSuspended k = 1);
     let now = xTickCount k;
     let wake = prev + inc;
     let blocks = delay_until_blocks now prev wake;
     k \<leftarrow> (if blocks then prvAddCurrentTaskToDelayedList (wake - now) False k else Some k);
     (xAlreadyYielded, k) \<leftarrow> xTaskResumeAll k;
     Some (blocks, wake, if \<not> xAlreadyYielded then portYIELD k else k)
   }"

section \<open>State and priority\<close>

datatype eTaskState = eRunning | eReady | eBlocked | eSuspended | eDeleted | eInvalid

definition waits_notification :: "TCB_t \<Rightarrow> bool" where
  "waits_notification t \<longleftrightarrow>
     list_ex (\<lambda>x. ucNotifyState t x = taskWAITING_NOTIFICATION) [0..<configTASK_NOTIFICATION_ARRAY_ENTRIES]"

definition eTaskGetState :: "addr \<Rightarrow> 'a sched_scheme \<Rightarrow> eTaskState option" where
  "eTaskGetState t k = do {
     configASSERT (t \<noteq> 0);
     if t = pxCurrentTCB k then Some eRunning
     else do {
       let sl = container k (StateItem t);
       let el = container k (EventItem t);
       if el = Some xPendingReadyList then Some eReady
       else if sl = Some (pxDelayedTaskList k) \<or> sl = Some (pxOverflowDelayedTaskList k) then Some eBlocked
       else if sl = Some xSuspendedTaskList then
         Some (if el = None then if waits_notification (tcb k t) then eBlocked else eSuspended
               else eBlocked)
       else if sl = Some xTasksWaitingTermination \<or> sl = None then Some eDeleted
       else Some eReady
     }
   }"

definition uxTaskPriorityGet :: "addr \<Rightarrow> 'a sched_scheme \<Rightarrow> nat option" where
  "uxTaskPriorityGet h k = do {
     let t = prvGetTCBFromHandle h k;
     configASSERT (t \<noteq> 0);
     Some (uxPriority (tcb k t))
   }"

definition uxTaskBasePriorityGet :: "addr \<Rightarrow> 'a sched_scheme \<Rightarrow> nat option" where
  "uxTaskBasePriorityGet h k = do {
     let t = prvGetTCBFromHandle h k;
     configASSERT (t \<noteq> 0);
     Some (uxBasePriority (tcb k t))
   }"

text \<open>Set the value of an event item to the priority's, unless an event group is using it.\<close>

definition set_event_priority :: "addr \<Rightarrow> nat \<Rightarrow> 'a sched_scheme \<Rightarrow> 'a sched_scheme" where
  "set_event_priority t p k =
     (if liValue (lists k) (EventItem t) AND taskEVENT_LIST_ITEM_VALUE_IN_USE = 0
      then upd_lists (ls_set_value (EventItem t) (of_nat configMAX_PRIORITIES - of_nat p)) k else k)"

text \<open>Move a task that is in the ready list of priority \<open>old\<close> to the list of its present priority.\<close>

definition requeue_ready :: "addr \<Rightarrow> nat \<Rightarrow> 'a sched_scheme \<Rightarrow> 'a sched_scheme option" where
  "requeue_ready t old k =
     (if container k (StateItem t) = Some (pxReadyTasksLists old)
      then do { k \<leftarrow> remove_reset_priority t old k; Some (prvAddTaskToReadyList t k) }
      else Some k)"

definition vTaskPrioritySet :: "addr \<Rightarrow> nat \<Rightarrow> 'a sched_scheme \<Rightarrow> 'a sched_scheme option" where
  "vTaskPrioritySet h uxNewPriority k = do {
     configASSERT (uxNewPriority < configMAX_PRIORITIES);
     let t = prvGetTCBFromHandle h k;
     configASSERT (t \<noteq> 0);
     let base = uxBasePriority (tcb k t);
     if base \<noteq> uxNewPriority then do {
       let xYieldRequired =
         (if uxNewPriority > base
          then t \<noteq> pxCurrentTCB k \<and> uxNewPriority > prio k (pxCurrentTCB k)
          else t = pxCurrentTCB k);
       let old = prio k t;
       let k = (if base = prio k t \<or> uxNewPriority > prio k t
                then upd_tcb t (\<lambda>x. x\<lparr>uxPriority := uxNewPriority\<rparr>) k else k);
       let k = upd_tcb t (\<lambda>x. x\<lparr>uxBasePriority := uxNewPriority\<rparr>) k;
       let k = set_event_priority t uxNewPriority k;
       k \<leftarrow> requeue_ready t old k;
       Some (if xYieldRequired then portYIELD k else k)
     } else Some k
   }"

section \<open>Suspending and resuming tasks\<close>

definition vTaskSuspend :: "addr \<Rightarrow> 'a sched_scheme \<Rightarrow> 'a sched_scheme option" where
  "vTaskSuspend h k = do {
     let t = prvGetTCBFromHandle h k;
     configASSERT (t \<noteq> 0);
     (n, k) \<leftarrow> list_remove (StateItem t) k;
     let k = (if n = 0 then taskRESET_READY_PRIORITY (prio k t) k else k);
     k \<leftarrow> remove_if_contained (EventItem t) k;
     let k = upd_lists (ls_insert_end xSuspendedTaskList (StateItem t)) k;
     let k = upd_tcb t (\<lambda>x. x\<lparr>ucNotifyState := (\<lambda>i.
               if i < configTASK_NOTIFICATION_ARRAY_ENTRIES \<and> ucNotifyState x i = taskWAITING_NOTIFICATION
               then taskNOT_WAITING_NOTIFICATION else ucNotifyState x i)\<rparr>) k;
     let k = (if xSchedulerRunning k then prvResetNextTaskUnblockTime k else k);
     if t = pxCurrentTCB k then
       if xSchedulerRunning k then do {
         configASSERT (uxSchedulerSuspended k = 0);
         Some (portYIELD k)
       }
       else if length (items k xSuspendedTaskList) = uxCurrentNumberOfTasks k
       then Some (k\<lparr>pxCurrentTCB := 0\<rparr>)
       else vTaskSwitchContext k
     else Some k
   }"

definition prvTaskIsTaskSuspended :: "addr \<Rightarrow> 'a sched_scheme \<Rightarrow> bool" where
  "prvTaskIsTaskSuspended t k \<longleftrightarrow>
     container k (StateItem t) = Some xSuspendedTaskList \<and>
     container k (EventItem t) \<noteq> Some xPendingReadyList \<and>
     container k (EventItem t) = None \<and> \<not> waits_notification (tcb k t)"

definition vTaskResume :: "addr \<Rightarrow> 'a sched_scheme \<Rightarrow> 'a sched_scheme option" where
  "vTaskResume t k = do {
     configASSERT (t \<noteq> 0);
     if t \<noteq> pxCurrentTCB k \<and> prvTaskIsTaskSuspended t k then do {
       k \<leftarrow> listREMOVE_ITEM (StateItem t) k;
       let k = prvAddTaskToReadyList t k;
       Some (taskYIELD_ANY_CORE_IF_USING_PREEMPTION t k)
     } else Some k
   }"

definition xTaskResumeFromISR :: "addr \<Rightarrow> 'a sched_scheme \<Rightarrow> (bool \<times> 'a sched_scheme) option" where
  "xTaskResumeFromISR t k = do {
     configASSERT (t \<noteq> 0);
     if prvTaskIsTaskSuspended t k then
       if uxSchedulerSuspended k = 0 then do {
         let yield = prio k t > prio k (pxCurrentTCB k);
         let k = (if yield then k\<lparr>xYieldPending := True\<rparr> else k);
         k \<leftarrow> listREMOVE_ITEM (StateItem t) k;
         Some (yield, prvAddTaskToReadyList t k)
       }
       else Some (False, upd_lists (ls_insert_end xPendingReadyList (EventItem t)) k)
     else Some (False, k)
   }"

text \<open>\<^verbatim>\<open>xTaskAbortDelay\<close>.\<close>

definition xTaskAbortDelay :: "addr \<Rightarrow> 'a sched_scheme \<Rightarrow> (bool \<times> 'a sched_scheme) option" where
  "xTaskAbortDelay t k = do {
     configASSERT (t \<noteq> 0);
     let k = vTaskSuspendAll k;
     st \<leftarrow> eTaskGetState t k;
     (r, k) \<leftarrow> (if st = eBlocked then do {
          k \<leftarrow> listREMOVE_ITEM (StateItem t) k;
          k \<leftarrow> (if container k (EventItem t) \<noteq> None then do {
                  k \<leftarrow> listREMOVE_ITEM (EventItem t) k;
                  Some (upd_tcb t (\<lambda>x. x\<lparr>ucDelayAborted := True\<rparr>) k)
                } else Some k);
          let k = prvAddTaskToReadyList t k;
          Some (True, if prio k t > prio k (pxCurrentTCB k) then k\<lparr>xYieldPending := True\<rparr> else k)
        } else Some (False, k));
     (_, k) \<leftarrow> xTaskResumeAll k;
     Some (r, k)
   }"

section \<open>Event lists\<close>

definition vTaskPlaceOnEventList :: "list_id \<Rightarrow> TickType_t \<Rightarrow> 'a sched_scheme \<Rightarrow> 'a sched_scheme option" where
  "vTaskPlaceOnEventList l xTicksToWait k =
     prvAddCurrentTaskToDelayedList xTicksToWait True
       (upd_lists (ls_insert l (EventItem (pxCurrentTCB k))) k)"

definition vTaskPlaceOnEventListRestricted ::
  "list_id \<Rightarrow> TickType_t \<Rightarrow> bool \<Rightarrow> 'a sched_scheme \<Rightarrow> 'a sched_scheme option" where
  "vTaskPlaceOnEventListRestricted l xTicksToWait xWaitIndefinitely k =
     prvAddCurrentTaskToDelayedList (if xWaitIndefinitely then portMAX_DELAY else xTicksToWait)
       xWaitIndefinitely (upd_lists (ls_insert_end l (EventItem (pxCurrentTCB k))) k)"

definition vTaskPlaceOnUnorderedEventList ::
  "list_id \<Rightarrow> TickType_t \<Rightarrow> TickType_t \<Rightarrow> 'a sched_scheme \<Rightarrow> 'a sched_scheme option" where
  "vTaskPlaceOnUnorderedEventList l ulItem xTicksToWait k = do {
     configASSERT (uxSchedulerSuspended k \<noteq> 0);
     let cur = pxCurrentTCB k;
     let k = upd_lists (ls_set_value (EventItem cur) (ulItem OR taskEVENT_LIST_ITEM_VALUE_IN_USE)) k;
     let k = upd_lists (ls_insert_end l (EventItem cur)) k;
     prvAddCurrentTaskToDelayedList xTicksToWait True k
   }"

text \<open>
  \<^verbatim>\<open>xTaskRemoveFromEventList\<close>: the head of the list is readied, or parked in the pending ready list
  while the scheduler is suspended; returns whether it should run instead of the caller.
\<close>

definition xTaskRemoveFromEventList :: "list_id \<Rightarrow> 'a sched_scheme \<Rightarrow> (bool \<times> 'a sched_scheme) option" where
  "xTaskRemoveFromEventList l k = do {
     i \<leftarrow> ls_head l (lists k);
     let t = owner i;
     configASSERT (t \<noteq> 0);
     k \<leftarrow> listREMOVE_ITEM (EventItem t) k;
     k \<leftarrow> (if uxSchedulerSuspended k = 0 then do {
            k \<leftarrow> listREMOVE_ITEM (StateItem t) k;
            Some (prvAddTaskToReadyList t k)
          } else Some (upd_lists (ls_insert_end xPendingReadyList (EventItem t)) k));
     Some (if prio k t > prio k (pxCurrentTCB k) then (True, k\<lparr>xYieldPending := True\<rparr>) else (False, k))
   }"

definition vTaskRemoveFromUnorderedEventList ::
  "item \<Rightarrow> TickType_t \<Rightarrow> 'a sched_scheme \<Rightarrow> 'a sched_scheme option" where
  "vTaskRemoveFromUnorderedEventList i ulItem k = do {
     configASSERT (uxSchedulerSuspended k \<noteq> 0);
     let k = upd_lists (ls_set_value i (ulItem OR taskEVENT_LIST_ITEM_VALUE_IN_USE)) k;
     let t = owner i;
     configASSERT (t \<noteq> 0);
     k \<leftarrow> listREMOVE_ITEM i k;
     k \<leftarrow> listREMOVE_ITEM (StateItem t) k;
     let k = prvAddTaskToReadyList t k;
     Some (if prio k t > prio k (pxCurrentTCB k) then k\<lparr>xYieldPending := True\<rparr> else k)
   }"

definition vTaskMissedYield :: "'a sched_scheme \<Rightarrow> 'a sched_scheme" where
  "vTaskMissedYield k = k\<lparr>xYieldPending := True\<rparr>"

section \<open>Time-outs\<close>

record TimeOut_t =
  xOverflowCount :: u32
  xTimeOnEntering :: TickType_t

definition vTaskInternalSetTimeOutState :: "'a sched_scheme \<Rightarrow> TimeOut_t" where
  "vTaskInternalSetTimeOutState k = \<lparr>xOverflowCount = xNumOfOverflows k, xTimeOnEntering = xTickCount k\<rparr>"

definition xTaskCheckForTimeOut ::
  "TimeOut_t \<Rightarrow> TickType_t \<Rightarrow> 'a sched_scheme \<Rightarrow> bool \<times> TimeOut_t \<times> TickType_t \<times> 'a sched_scheme" where
  "xTaskCheckForTimeOut to w k =
     (let now = xTickCount k; elapsed = now - xTimeOnEntering to in
      if ucDelayAborted (tcb k (pxCurrentTCB k))
      then (True, to, w, upd_tcb (pxCurrentTCB k) (\<lambda>t. t\<lparr>ucDelayAborted := False\<rparr>) k)
      else if w = portMAX_DELAY then (False, to, w, k)
      else if xNumOfOverflows k \<noteq> xOverflowCount to \<and> now \<ge> xTimeOnEntering to
      then (True, to, 0, k)
      else if elapsed < w then (False, vTaskInternalSetTimeOutState k, w - elapsed, k)
      else (True, to, 0, k))"

section \<open>Priority inheritance\<close>

definition pvTaskIncrementMutexHeldCount :: "'a sched_scheme \<Rightarrow> addr \<times> 'a sched_scheme" where
  "pvTaskIncrementMutexHeldCount k =
     (pxCurrentTCB k,
      if pxCurrentTCB k \<noteq> 0
      then upd_tcb (pxCurrentTCB k) (\<lambda>t. t\<lparr>uxMutexesHeld := uxMutexesHeld t + 1\<rparr>) k else k)"

definition xTaskPriorityInherit :: "addr \<Rightarrow> 'a sched_scheme \<Rightarrow> (bool \<times> 'a sched_scheme) option" where
  "xTaskPriorityInherit m k =
     (let cp = prio k (pxCurrentTCB k) in
      if m \<noteq> 0 then
        if prio k m < cp then do {
          let k = set_event_priority m cp k;
          k \<leftarrow> (if container k (StateItem m) = Some (pxReadyTasksLists (prio k m)) then do {
                 k \<leftarrow> remove_reset_priority m (prio k m) k;
                 let k = upd_tcb m (\<lambda>t. t\<lparr>uxPriority := cp\<rparr>) k;
                 Some (prvAddTaskToReadyList m k)
               } else Some (upd_tcb m (\<lambda>t. t\<lparr>uxPriority := cp\<rparr>) k));
          Some (True, k)
        }
        else Some (uxBasePriority (tcb k m) < cp, k)
      else Some (False, k))"

definition xTaskPriorityDisinherit :: "addr \<Rightarrow> 'a sched_scheme \<Rightarrow> (bool \<times> 'a sched_scheme) option" where
  "xTaskPriorityDisinherit m k =
     (if m \<noteq> 0 then do {
        configASSERT (m = pxCurrentTCB k);
        configASSERT (uxMutexesHeld (tcb k m) \<noteq> 0);
        let k = upd_tcb m (\<lambda>t. t\<lparr>uxMutexesHeld := uxMutexesHeld t - 1\<rparr>) k;
        if prio k m \<noteq> uxBasePriority (tcb k m) \<and> uxMutexesHeld (tcb k m) = 0 then do {
          k \<leftarrow> remove_reset_priority m (prio k m) k;
          let k = upd_tcb m (\<lambda>t. t\<lparr>uxPriority := uxBasePriority t\<rparr>) k;
          let k = upd_lists (ls_set_value (EventItem m) (of_nat configMAX_PRIORITIES - of_nat (prio k m))) k;
          Some (True, prvAddTaskToReadyList m k)
        } else Some (False, k)
      } else Some (False, k))"

definition vTaskPriorityDisinheritAfterTimeout :: "addr \<Rightarrow> nat \<Rightarrow> 'a sched_scheme \<Rightarrow> 'a sched_scheme option" where
  "vTaskPriorityDisinheritAfterTimeout m uxHighestPriorityWaitingTask k =
     (if m \<noteq> 0 then do {
        configASSERT (uxMutexesHeld (tcb k m) \<noteq> 0);
        let use = (if uxBasePriority (tcb k m) < uxHighestPriorityWaitingTask
                   then uxHighestPriorityWaitingTask else uxBasePriority (tcb k m));
        if prio k m \<noteq> use \<and> uxMutexesHeld (tcb k m) = 1 then do {
          configASSERT (m \<noteq> pxCurrentTCB k);
          let old = prio k m;
          let k = upd_tcb m (\<lambda>t. t\<lparr>uxPriority := use\<rparr>) k;
          let k = set_event_priority m use k;
          requeue_ready m old k
        } else Some k
      } else Some k)"

definition uxTaskResetEventItemValue :: "'a sched_scheme \<Rightarrow> TickType_t \<times> 'a sched_scheme" where
  "uxTaskResetEventItemValue k =
     (let cur = pxCurrentTCB k in
      (liValue (lists k) (EventItem cur),
       upd_lists (ls_set_value (EventItem cur) (of_nat configMAX_PRIORITIES - of_nat (prio k cur))) k))"

datatype sched_state = taskSCHEDULER_SUSPENDED | taskSCHEDULER_NOT_STARTED | taskSCHEDULER_RUNNING

definition xTaskGetSchedulerState :: "'a sched_scheme \<Rightarrow> sched_state" where
  "xTaskGetSchedulerState k =
     (if \<not> xSchedulerRunning k then taskSCHEDULER_NOT_STARTED
      else if uxSchedulerSuspended k = 0 then taskSCHEDULER_RUNNING else taskSCHEDULER_SUSPENDED)"

section \<open>Task notifications\<close>

datatype eNotifyAction =
  eNoAction | eSetBits | eIncrement | eSetValueWithOverwrite | eSetValueWithoutOverwrite

abbreviation nvalue :: "'a sched_scheme \<Rightarrow> addr \<Rightarrow> nat \<Rightarrow> u32" where
  "nvalue k t x \<equiv> ulNotifiedValue (tcb k t) x"

abbreviation nstate :: "'a sched_scheme \<Rightarrow> addr \<Rightarrow> nat \<Rightarrow> notify_state" where
  "nstate k t x \<equiv> ucNotifyState (tcb k t) x"

definition set_nvalue :: "addr \<Rightarrow> nat \<Rightarrow> u32 \<Rightarrow> 'a sched_scheme \<Rightarrow> 'a sched_scheme" where
  "set_nvalue t x v k = upd_tcb t (\<lambda>r. r\<lparr>ulNotifiedValue := (ulNotifiedValue r)(x := v)\<rparr>) k"

definition set_nstate :: "addr \<Rightarrow> nat \<Rightarrow> notify_state \<Rightarrow> 'a sched_scheme \<Rightarrow> 'a sched_scheme" where
  "set_nstate t x v k = upd_tcb t (\<lambda>r. r\<lparr>ucNotifyState := (ucNotifyState r)(x := v)\<rparr>) k"

text \<open>The action of a notification on the value; the flag says whether it was carried out.\<close>

definition notify_action :: "eNotifyAction \<Rightarrow> u32 \<Rightarrow> notify_state \<Rightarrow> u32 \<Rightarrow> bool \<times> u32" where
  "notify_action a v original old =
     (case a of
        eSetBits \<Rightarrow> (True, old OR v)
      | eIncrement \<Rightarrow> (True, old + 1)
      | eSetValueWithOverwrite \<Rightarrow> (True, v)
      | eSetValueWithoutOverwrite \<Rightarrow>
          if original \<noteq> taskNOTIFICATION_RECEIVED then (True, v) else (False, old)
      | eNoAction \<Rightarrow> (True, old))"

definition xTaskGenericNotify ::
  "addr \<Rightarrow> nat \<Rightarrow> u32 \<Rightarrow> eNotifyAction \<Rightarrow> 'a sched_scheme \<Rightarrow> (bool \<times> u32 \<times> 'a sched_scheme) option" where
  "xTaskGenericNotify t x v a k = do {
     configASSERT (x < configTASK_NOTIFICATION_ARRAY_ENTRIES);
     configASSERT (t \<noteq> 0);
     let previous = nvalue k t x;
     let original = nstate k t x;
     let k = set_nstate t x taskNOTIFICATION_RECEIVED k;
     let (ok, new) = notify_action a v original previous;
     let k = set_nvalue t x new k;
     k \<leftarrow> (if original = taskWAITING_NOTIFICATION then do {
            k \<leftarrow> listREMOVE_ITEM (StateItem t) k;
            let k = prvAddTaskToReadyList t k;
            configASSERT (container k (EventItem t) = None);
            Some (taskYIELD_ANY_CORE_IF_USING_PREEMPTION t k)
          } else Some k);
     Some (ok, previous, k)
   }"

text \<open>\<^verbatim>\<open>xTaskGenericNotifyFromISR\<close>; the third result is \<^verbatim>\<open>*pxHigherPriorityTaskWoken\<close> being set.\<close>

definition xTaskGenericNotifyFromISR ::
  "addr \<Rightarrow> nat \<Rightarrow> u32 \<Rightarrow> eNotifyAction \<Rightarrow> 'a sched_scheme \<Rightarrow> (bool \<times> u32 \<times> bool \<times> 'a sched_scheme) option" where
  "xTaskGenericNotifyFromISR t x v a k = do {
     configASSERT (t \<noteq> 0);
     configASSERT (x < configTASK_NOTIFICATION_ARRAY_ENTRIES);
     let previous = nvalue k t x;
     let original = nstate k t x;
     let k = set_nstate t x taskNOTIFICATION_RECEIVED k;
     let (ok, new) = notify_action a v original previous;
     let k = set_nvalue t x new k;
     (woken, k) \<leftarrow> (if original = taskWAITING_NOTIFICATION then do {
            configASSERT (container k (EventItem t) = None);
            k \<leftarrow> (if uxSchedulerSuspended k = 0 then do {
                   k \<leftarrow> listREMOVE_ITEM (StateItem t) k;
                   Some (prvAddTaskToReadyList t k)
                 } else Some (upd_lists (ls_insert_end xPendingReadyList (EventItem t)) k));
            Some (if prio k t > prio k (pxCurrentTCB k) then (True, k\<lparr>xYieldPending := True\<rparr>) else (False, k))
          } else Some (False, k));
     Some (ok, previous, woken, k)
   }"

definition vTaskGenericNotifyGiveFromISR ::
  "addr \<Rightarrow> nat \<Rightarrow> 'a sched_scheme \<Rightarrow> (bool \<times> 'a sched_scheme) option" where
  "vTaskGenericNotifyGiveFromISR t x k = do {
     configASSERT (t \<noteq> 0);
     configASSERT (x < configTASK_NOTIFICATION_ARRAY_ENTRIES);
     let original = nstate k t x;
     let k = set_nstate t x taskNOTIFICATION_RECEIVED k;
     let k = set_nvalue t x (nvalue k t x + 1) k;
     if original = taskWAITING_NOTIFICATION then do {
       configASSERT (container k (EventItem t) = None);
       k \<leftarrow> (if uxSchedulerSuspended k = 0 then do {
              k \<leftarrow> listREMOVE_ITEM (StateItem t) k;
              Some (prvAddTaskToReadyList t k)
            } else Some (upd_lists (ls_insert_end xPendingReadyList (EventItem t)) k));
       Some (if prio k t > prio k (pxCurrentTCB k) then (True, k\<lparr>xYieldPending := True\<rparr>) else (False, k))
     } else Some (False, k)
   }"

text \<open>\<^verbatim>\<open>ulTaskGenericNotifyTake\<close> up to the yield, and what the task does when it runs again.\<close>

definition notify_block :: "nat \<Rightarrow> TickType_t \<Rightarrow> bool \<Rightarrow> ('a sched_scheme \<Rightarrow> 'a sched_scheme) \<Rightarrow>
    'a sched_scheme \<Rightarrow> 'a sched_scheme option" where
  "notify_block x w xShouldBlock mark k = do {
     let k = vTaskSuspendAll k;
     let k = (if xShouldBlock then set_nstate (pxCurrentTCB k) x taskWAITING_NOTIFICATION (mark k) else k);
     k \<leftarrow> (if xShouldBlock then prvAddCurrentTaskToDelayedList w True k else Some k);
     (xAlreadyYielded, k) \<leftarrow> xTaskResumeAll k;
     Some (if xShouldBlock \<and> \<not> xAlreadyYielded then portYIELD k else k)
   }"

definition ulTaskGenericNotifyTake_enter ::
  "nat \<Rightarrow> TickType_t \<Rightarrow> 'a sched_scheme \<Rightarrow> 'a sched_scheme option" where
  "ulTaskGenericNotifyTake_enter x w k = do {
     configASSERT (x < configTASK_NOTIFICATION_ARRAY_ENTRIES);
     if nvalue k (pxCurrentTCB k) x = 0 \<and> w > 0
     then notify_block x w (nvalue k (pxCurrentTCB k) x = 0) id k
     else Some k
   }"

definition ulTaskGenericNotifyTake_exit :: "nat \<Rightarrow> bool \<Rightarrow> 'a sched_scheme \<Rightarrow> u32 \<times> 'a sched_scheme" where
  "ulTaskGenericNotifyTake_exit x clear k =
     (let cur = pxCurrentTCB k;
          r = nvalue k cur x;
          k = (if r \<noteq> 0 then set_nvalue cur x (if clear then 0 else r - 1) k else k)
      in (r, set_nstate cur x taskNOT_WAITING_NOTIFICATION k))"

definition xTaskGenericNotifyWait_enter ::
  "nat \<Rightarrow> u32 \<Rightarrow> TickType_t \<Rightarrow> 'a sched_scheme \<Rightarrow> 'a sched_scheme option" where
  "xTaskGenericNotifyWait_enter x clr w k = do {
     configASSERT (x < configTASK_NOTIFICATION_ARRAY_ENTRIES);
     if nstate k (pxCurrentTCB k) x \<noteq> taskNOTIFICATION_RECEIVED \<and> w > 0
     then notify_block x w (nstate k (pxCurrentTCB k) x \<noteq> taskNOTIFICATION_RECEIVED)
            (\<lambda>k. set_nvalue (pxCurrentTCB k) x (nvalue k (pxCurrentTCB k) x AND NOT clr) k) k
     else Some k
   }"

definition xTaskGenericNotifyWait_exit :: "nat \<Rightarrow> u32 \<Rightarrow> 'a sched_scheme \<Rightarrow> bool \<times> u32 \<times> 'a sched_scheme" where
  "xTaskGenericNotifyWait_exit x clr k =
     (let cur = pxCurrentTCB k;
          v = nvalue k cur x;
          ok = (nstate k cur x = taskNOTIFICATION_RECEIVED);
          k = (if ok then set_nvalue cur x (v AND NOT clr) k else k)
      in (ok, v, set_nstate cur x taskNOT_WAITING_NOTIFICATION k))"

definition xTaskGenericNotifyStateClear :: "addr \<Rightarrow> nat \<Rightarrow> 'a sched_scheme \<Rightarrow> (bool \<times> 'a sched_scheme) option" where
  "xTaskGenericNotifyStateClear h x k = do {
     configASSERT (x < configTASK_NOTIFICATION_ARRAY_ENTRIES);
     let t = prvGetTCBFromHandle h k;
     configASSERT (t \<noteq> 0);
     Some (if nstate k t x = taskNOTIFICATION_RECEIVED
           then (True, set_nstate t x taskNOT_WAITING_NOTIFICATION k) else (False, k))
   }"

definition ulTaskGenericNotifyValueClear :: "addr \<Rightarrow> nat \<Rightarrow> u32 \<Rightarrow> 'a sched_scheme \<Rightarrow> (u32 \<times> 'a sched_scheme) option" where
  "ulTaskGenericNotifyValueClear h x bits k = do {
     configASSERT (x < configTASK_NOTIFICATION_ARRAY_ENTRIES);
     let t = prvGetTCBFromHandle h k;
     configASSERT (t \<noteq> 0);
     Some (nvalue k t x, set_nvalue t x (nvalue k t x AND NOT bits) k)
   }"

end
