(* ===== verification/FR_Sched_Inv.thy ===== *)
theory FR_Sched_Inv
  imports FR_Task_API
begin

text \<open>
  The invariant of the scheduler and what its operations promise: every list operation of the
  kernel keeps the lists well formed, the bitmap of ready priorities agrees with the ready lists,
  the delayed lists are in order of wake time and on the right side of the tick count, and a task
  that waits on an event list is blocked.
\<close>

section \<open>List operations\<close>

abbreviation delayed_lists :: "list_id set" where
  "delayed_lists \<equiv> {xDelayedTaskList1, xDelayedTaskList2}"

definition lists_ok :: "(list_id, item) list_state \<Rightarrow> bool" where
  "lists_ok s \<longleftrightarrow> ls_wf UNIV s \<and> (\<forall>l \<in> delayed_lists. sorted (map (liValue s) (lsItems s l)))"

lemma lists_ok_mem: "lists_ok s \<Longrightarrow> i \<in> set (lsItems s l) \<longleftrightarrow> liContainer s i = Some l"
  using wf_container [of UNIV s l i] by (simp add: lists_ok_def)

lemma lists_ok_nil: "lists_ok s \<Longrightarrow> lsItems s l = [] \<longleftrightarrow> (\<forall>i. liContainer s i \<noteq> Some l)"
  using lists_ok_mem by (metis empty_iff empty_set ex_in_conv set_empty2)

lemma ls_values [simp]:
  "liValue (ls_insert_end l i s) = liValue s" "liValue (ls_insert l i s) = liValue s"
  "liValue (ls_del l i s) = liValue s" "liValue (snd (ls_next_entry l s)) = liValue s"
  "liValue (ls_set_value i v s) = (liValue s)(i := v)"
  by (simp_all add: ls_insert_end_def ls_insert_def ls_del_def ls_next_entry_def ls_set_value_def Let_def)

lemma ls_containers [simp]:
  "liContainer (ls_insert_end l i s) = (liContainer s)(i := Some l)"
  "liContainer (ls_insert l i s) = (liContainer s)(i := Some l)"
  "liContainer (ls_del l i s) = (liContainer s)(i := None)"
  "liContainer (snd (ls_next_entry l s)) = liContainer s"
  "liContainer (ls_set_value i v s) = liContainer s"
  by (simp_all add: ls_insert_end_def ls_insert_def ls_del_def ls_next_entry_def ls_set_value_def Let_def)

lemma before_index_split: "\<exists>us vs. xs = us @ vs \<and> before_index j i xs = us @ i # vs"
proof (cases j)
  case (Some a)
  then show ?thesis
    by (intro exI [of _ "takeWhile (\<lambda>x. x \<noteq> a) xs"] exI [of _ "dropWhile (\<lambda>x. x \<noteq> a) xs"]) simp
qed (intro exI [of _ xs] exI [of _ "[]"], simp)

lemma lists_ok_insert_end:
  assumes "lists_ok s" "liContainer s i = None" "l \<notin> delayed_lists"
  shows "lists_ok (ls_insert_end l i s)"
proof -
  obtain us vs where "lsItems s l = us @ vs" "before_index (lsIndex s l) i (lsItems s l) = us @ i # vs"
    using before_index_split by metis
  then have "ls_wf UNIV (ls_insert_end l i s)"
    using ls_wf_insert_at [of UNIV s l us vs i] assms by (simp add: ls_insert_end_def lists_ok_def)
  moreover have "lsItems (ls_insert_end l i s) m = lsItems s m" if "m \<in> delayed_lists" for m
    using that assms(3) by (auto simp: ls_insert_end_def)
  ultimately show ?thesis using assms(1) unfolding lists_ok_def ls_values by (metis (no_types))
qed

lemma lists_ok_insert:
  assumes "lists_ok s" "liContainer s i = None"
  shows "lists_ok (ls_insert l i s)"
proof -
  have wf: "ls_wf UNIV s" using assms by (simp add: lists_ok_def)
  have "ls_wf UNIV (ls_insert l i s)"
    using seq.ins_law [OF wf, of l i] assms(2) by auto
  moreover have "sorted (map (liValue s) (lsItems (ls_insert l i s) m))" if "m \<in> delayed_lists" for m
    using assms that sorted_insert_by [of "liValue s" "lsItems s m" i]
    by (auto simp: lists_ok_def ls_insert_eq)
  ultimately show ?thesis by (simp add: lists_ok_def)
qed

lemma lists_ok_del:
  assumes "lists_ok s" "liContainer s i = Some l"
  shows "lists_ok (ls_del l i s)"
proof -
  have wf: "ls_wf UNIV s" using assms by (simp add: lists_ok_def)
  have "ls_wf UNIV (ls_del l i s)"
    using ls_wf_remove [OF wf, of i] assms(2) by (simp add: ls_remove_def)
  moreover have "sorted (map (liValue s) (lsItems (ls_del l i s) m))" if "m \<in> delayed_lists" for m
    using assms that by (auto simp: lists_ok_def ls_del_def sorted_map_remove1)
  ultimately show ?thesis by (simp add: lists_ok_def)
qed

lemma lists_ok_set_value:
  assumes "lists_ok s" "\<And>l. liContainer s i = Some l \<Longrightarrow> l \<notin> delayed_lists"
  shows "lists_ok (ls_set_value i v s)"
proof -
  have "ls_wf UNIV (ls_set_value i v s)" using assms by (simp add: lists_ok_def ls_wf_def ls_set_value_def)
  moreover have "i \<notin> set (lsItems s m)" if "m \<in> delayed_lists" for m
    using lists_ok_mem [OF assms(1)] assms(2) that by blast
  then have "map (liValue (ls_set_value i v s)) (lsItems (ls_set_value i v s) m) = map (liValue s) (lsItems s m)"
    if "m \<in> delayed_lists" for m
    using that by (auto simp: ls_set_value_def)
  ultimately show ?thesis using assms(1) unfolding lists_ok_def by (metis (no_types))
qed

lemma next_of_Nil: "next_of j [] = None"
  by (cases j) simp_all

lemma lists_ok_next:
  assumes "lists_ok s"
  shows "lists_ok (snd (ls_next_entry l s))"
proof -
  have "ls_wf UNIV (snd (ls_next_entry l s))"
    using assms next_of_in [of "lsItems s l" "lsIndex s l"] next_of_Nil [of "lsIndex s l"]
    by (cases "lsItems s l = []") (auto simp: lists_ok_def ls_wf_def ls_next_entry_def Let_def split: option.splits)
  then show ?thesis using assms by (simp add: lists_ok_def ls_next_entry_def Let_def)
qed

lemma ls_remove_Some:
  "liContainer s i = Some l \<Longrightarrow> ls_remove i s = Some (length (remove1 i (lsItems s l)), ls_del l i s)"
  by (simp add: ls_remove_def ls_del_def)

lemma remove_empty:
  assumes "lists_ok s" "liContainer s i = Some l"
  shows "length (remove1 i (lsItems s l)) = 0 \<longleftrightarrow> (\<forall>j. j \<noteq> i \<longrightarrow> liContainer s j \<noteq> Some l)"
proof -
  have "distinct (lsItems s l)" using assms by (simp add: lists_ok_def ls_wf_def)
  then have "set (remove1 i (lsItems s l)) = {j. j \<noteq> i \<and> liContainer s j = Some l}"
    using lists_ok_mem [OF assms(1)] by auto
  then show ?thesis by (metis (mono_tags, lifting) Collect_empty_eq length_0_conv set_empty2)
qed

lemmas lists_ok_intros = lists_ok_insert_end lists_ok_insert lists_ok_del lists_ok_set_value lists_ok_next

section \<open>The bitmap of ready priorities\<close>

lemma bit_record [simp]: "p < 32 \<Longrightarrow> bit (portRECORD_READY_PRIORITY p w) q \<longleftrightarrow> bit w q \<or> q = p"
  by (auto simp: portRECORD_READY_PRIORITY_def bit_or_iff bit_exp_iff)

lemma bit_reset [simp]: "bit (portRESET_READY_PRIORITY p w) q \<longleftrightarrow> bit w q \<and> q \<noteq> p"
  by (auto simp: portRESET_READY_PRIORITY_def bit_and_iff bit_not_iff bit_exp_iff
      dest: bit_imp_le_length)

lemma highest_priority_Some:
  assumes "bit w q"
  shows "\<exists>p. portGET_HIGHEST_PRIORITY w = Some p \<and> bit w p \<and> (\<forall>r. bit w r \<longrightarrow> r \<le> p)"
proof -
  let ?bs = "map (bit w) (rev [0..<32])" and ?n = "ucPortCountLeadingZeros w"
  have q: "q < 32" using assms bit_imp_le_length [of w q] by simp
  have nth: "?bs ! i = bit w (31 - i)" if "i < 32" for i using that by (simp add: rev_nth)
  have n: "?n = length (takeWhile Not ?bs)" by (simp add: ucPortCountLeadingZeros_def)
  have "?bs ! (31 - q)" using nth [of "31 - q"] q assms by simp
  then have lt: "?n \<le> 31 - q" unfolding n using q
    by (metis (mono_tags, lifting) length_map length_rev length_upt linorder_not_less nth_mem
        set_takeWhileD takeWhile_nth diff_zero)
  then have "?bs ! ?n" unfolding n using q nth_length_takeWhile [of Not ?bs] by simp
  then have "bit w (31 - ?n)" using nth [of ?n] lt q by simp
  moreover have "r \<le> 31 - ?n" if "bit w r" for r
  proof (rule ccontr)
    have r: "r < 32" using that bit_imp_le_length [of w r] by simp
    assume "\<not> r \<le> 31 - ?n"
    then have "31 - r < ?n" using r lt q by simp
    then have "\<not> ?bs ! (31 - r)" unfolding n by (metis nth_mem set_takeWhileD takeWhile_nth)
    moreover have "?bs ! (31 - r) = bit w r" by (subst nth) (use r in auto)
    ultimately show False using that by blast
  qed
  ultimately show ?thesis using lt q by (auto simp: portGET_HIGHEST_PRIORITY_def)
qed

section \<open>The invariant\<close>

fun state_list :: "list_id \<Rightarrow> bool" where
  "state_list (xTasksWaitingToSend q) = False"
| "state_list (xTasksWaitingToReceive q) = False"
| "state_list (xTasksWaitingForBits g) = False"
| "state_list xPendingReadyList = False"
| "state_list _ = True"

fun is_state :: "item \<Rightarrow> bool" where
  "is_state (StateItem t) = True"
| "is_state (EventItem t) = False"

abbreviation wake :: "'a sched_scheme \<Rightarrow> addr \<Rightarrow> TickType_t" where
  "wake k t \<equiv> liValue (lists k) (StateItem t)"

text \<open>A task is blocked when its state item is in a delayed list or in the suspended list.\<close>

definition blocked :: "'a sched_scheme \<Rightarrow> addr \<Rightarrow> bool" where
  "blocked k t \<longleftrightarrow> container k (StateItem t) = Some xSuspendedTaskList \<or>
     (\<exists>l \<in> delayed_lists. container k (StateItem t) = Some l)"

text \<open>
  \<open>X\<close> is a set of tasks whose move between lists is under way; \<open>strict\<close> says that the tick count
  has been processed, so that every delayed task wakes later than now.
\<close>

definition core_inv :: "addr set \<Rightarrow> bool \<Rightarrow> 'a sched_scheme \<Rightarrow> bool" where
  "core_inv X strict k \<longleftrightarrow>
     lists_ok (lists k) \<and>
     (\<forall>i l. container k i = Some l \<longrightarrow> state_list l = is_state i) \<and>
     (\<forall>i. owner i = 0 \<longrightarrow> container k i = None) \<and>
     (\<forall>t. prio k t < configMAX_PRIORITIES \<and> uxBasePriority (tcb k t) < configMAX_PRIORITIES) \<and>
     (\<forall>t p. container k (StateItem t) = Some (pxReadyTasksLists p) \<longrightarrow> prio k t = p) \<and>
     (\<forall>p. bit (uxTopReadyPriority k) p \<longleftrightarrow> (\<exists>t. container k (StateItem t) = Some (pxReadyTasksLists p))) \<and>
     {pxDelayedTaskList k, pxOverflowDelayedTaskList k} = delayed_lists \<and>
     (\<forall>t. container k (StateItem t) = Some (pxDelayedTaskList k) \<longrightarrow>
        xNextTaskUnblockTime k \<le> wake k t \<and> xTickCount k \<le> wake k t \<and>
        (strict \<longrightarrow> xTickCount k \<noteq> wake k t)) \<and>
     (\<forall>t. container k (StateItem t) = Some (pxOverflowDelayedTaskList k) \<longrightarrow> wake k t < xTickCount k) \<and>
     (\<forall>t. t \<notin> X \<longrightarrow> container k (EventItem t) \<noteq> None \<longrightarrow> blocked k t)"

abbreviation sched_inv :: "'a sched_scheme \<Rightarrow> bool" where
  "sched_inv \<equiv> core_inv {} True"

lemma core_invD:
  assumes "core_inv X strict k"
  shows "lists_ok (lists k)"
    "container k i = Some l \<Longrightarrow> state_list l = is_state i"
    "owner i = 0 \<Longrightarrow> container k i = None"
    "prio k t < configMAX_PRIORITIES" "uxBasePriority (tcb k t) < configMAX_PRIORITIES"
    "container k (StateItem t) = Some (pxReadyTasksLists p) \<Longrightarrow> prio k t = p"
    "bit (uxTopReadyPriority k) p \<longleftrightarrow> (\<exists>t. container k (StateItem t) = Some (pxReadyTasksLists p))"
    "{pxDelayedTaskList k, pxOverflowDelayedTaskList k} = delayed_lists"
    "container k (StateItem t) = Some (pxDelayedTaskList k) \<Longrightarrow>
       xNextTaskUnblockTime k \<le> wake k t \<and> xTickCount k \<le> wake k t \<and>
       (strict \<longrightarrow> xTickCount k \<noteq> wake k t)"
    "container k (StateItem t) = Some (pxOverflowDelayedTaskList k) \<Longrightarrow> wake k t < xTickCount k"
    "t \<notin> X \<Longrightarrow> container k (EventItem t) \<noteq> None \<Longrightarrow> blocked k t"
  using assms unfolding core_inv_def by blast+

lemma delayed_ptrs:
  assumes "core_inv X strict k"
  shows "pxDelayedTaskList k \<in> delayed_lists" "pxOverflowDelayedTaskList k \<in> delayed_lists"
    "pxDelayedTaskList k \<noteq> pxOverflowDelayedTaskList k" "state_list (pxDelayedTaskList k)"
    "state_list (pxOverflowDelayedTaskList k)"
proof -
  note d = core_invD(8) [OF assms]
  show "pxDelayedTaskList k \<in> delayed_lists" "pxOverflowDelayedTaskList k \<in> delayed_lists" using d by auto
  show "pxDelayedTaskList k \<noteq> pxOverflowDelayedTaskList k" using d by (auto simp: doubleton_eq_iff)
  show "state_list (pxDelayedTaskList k)" "state_list (pxOverflowDelayedTaskList k)"
    using d by (auto simp: doubleton_eq_iff)
qed

section \<open>Moving items\<close>

lemma upd_tcb_simps [simp]:
  "lists (upd_tcb t f k) = lists k" "heap (upd_tcb t f k) = heap k"
  "pxCurrentTCB (upd_tcb t f k) = pxCurrentTCB k" "xTickCount (upd_tcb t f k) = xTickCount k"
  "pxDelayedTaskList (upd_tcb t f k) = pxDelayedTaskList k"
  "pxOverflowDelayedTaskList (upd_tcb t f k) = pxOverflowDelayedTaskList k"
  "uxTopReadyPriority (upd_tcb t f k) = uxTopReadyPriority k"
  "xNextTaskUnblockTime (upd_tcb t f k) = xNextTaskUnblockTime k"
  "uxSchedulerSuspended (upd_tcb t f k) = uxSchedulerSuspended k"
  "xSchedulerRunning (upd_tcb t f k) = xSchedulerRunning k"
  "xPendedTicks (upd_tcb t f k) = xPendedTicks k" "xYieldPending (upd_tcb t f k) = xYieldPending k"
  "uxCurrentNumberOfTasks (upd_tcb t f k) = uxCurrentNumberOfTasks k"
  "pendSV (upd_tcb t f k) = pendSV k" "sched.more (upd_tcb t f k) = sched.more k"
  "xNumOfOverflows (upd_tcb t f k) = xNumOfOverflows k"
  "tcb (upd_tcb t f k) = (tcb k)(t := f (tcb k t))"
  by (simp_all add: upd_tcb_def)

lemma listREMOVE_ITEM_eq:
  "container k i = Some l \<Longrightarrow> listREMOVE_ITEM i k = Some (k\<lparr>lists := ls_del l i (lists k)\<rparr>)"
  by (simp add: listREMOVE_ITEM_def list_remove_def ls_remove_Some)

lemma core_inv_mono: "core_inv X strict k \<Longrightarrow> X \<subseteq> Y \<Longrightarrow> core_inv Y strict k"
  unfolding core_inv_def by blast

lemma core_inv_weaken: "core_inv X True k \<Longrightarrow> core_inv X False k"
  unfolding core_inv_def by blast

lemma core_inv_close:
  assumes "core_inv (insert t X) strict k" "container k (EventItem t) = None \<or> blocked k t"
  shows "core_inv X strict k"
  using assms unfolding core_inv_def by (elim conjE, intro conjI) (assumption | metis insertE)+

text \<open>
  The invariant after the items of one task have moved, everything about the other tasks being as
  before.
\<close>

lemma core_inv_move:
  assumes inv: "core_inv X strict k" and lo: "lists_ok (lists k')"
    and same: "\<And>i. owner i \<noteq> t \<Longrightarrow> container k' i = container k i"
      "\<And>u. u \<noteq> t \<Longrightarrow> wake k' u = wake k u" "\<And>u. u \<noteq> t \<Longrightarrow> tcb k' u = tcb k u"
    and ptr: "pxDelayedTaskList k' = pxDelayedTaskList k"
      "pxOverflowDelayedTaskList k' = pxOverflowDelayedTaskList k" "xTickCount k' = xTickCount k"
      "xNextTaskUnblockTime k' \<le> xNextTaskUnblockTime k"
    and prios: "prio k' t < configMAX_PRIORITIES" "uxBasePriority (tcb k' t) < configMAX_PRIORITIES"
    and bits: "\<And>p. bit (uxTopReadyPriority k') p \<longleftrightarrow> (\<exists>u. container k' (StateItem u) = Some (pxReadyTasksLists p))"
    and zero: "t = 0 \<Longrightarrow> container k' (StateItem 0) = None \<and> container k' (EventItem 0) = None"
    and st: "\<And>l. container k' (StateItem t) = Some l \<Longrightarrow> state_list l \<and>
      (\<forall>p. l = pxReadyTasksLists p \<longrightarrow> prio k' t = p) \<and>
      (l = pxDelayedTaskList k \<longrightarrow> xNextTaskUnblockTime k' \<le> wake k' t \<and> xTickCount k \<le> wake k' t \<and>
         (strict \<longrightarrow> xTickCount k \<noteq> wake k' t)) \<and>
      (l = pxOverflowDelayedTaskList k \<longrightarrow> wake k' t < xTickCount k)"
    and ev: "\<And>l. container k' (EventItem t) = Some l \<Longrightarrow> \<not> state_list l \<and>
      (t \<notin> X \<longrightarrow> blocked k' t)"
  shows "core_inv X strict k'"
proof -
  note D = core_invD [OF inv]
  have "state_list l = is_state i" if "container k' i = Some l" for i l
  proof (cases "owner i = t")
    case True
    then show ?thesis using that st [of l] ev [of l] by (cases i) auto
  next
    case False
    then show ?thesis using that same(1) [OF False] D(2) by simp
  qed
  moreover have "container k' i = None" if "owner i = 0" for i
  proof (cases "t = 0")
    case True
    then show ?thesis using zero that by (cases i) auto
  next
    case False
    then show ?thesis using that same(1) [of i] D(3) by simp
  qed
  moreover have "prio k' u < configMAX_PRIORITIES \<and> uxBasePriority (tcb k' u) < configMAX_PRIORITIES" for u
    using prios same(3) [of u] D(4,5) [of u] by (cases "u = t") auto
  moreover have "prio k' u = p" if "container k' (StateItem u) = Some (pxReadyTasksLists p)" for u p
    using that st same(1) [of "StateItem u"] same(3) [of u] D(6) [of u p] by (cases "u = t") auto
  moreover have "xNextTaskUnblockTime k' \<le> wake k' u \<and> xTickCount k' \<le> wake k' u \<and>
      (strict \<longrightarrow> xTickCount k' \<noteq> wake k' u)" if "container k' (StateItem u) = Some (pxDelayedTaskList k')" for u
    using that st same(1) [of "StateItem u"] same(2) [of u] D(9) [of u] ptr
    by (cases "u = t") (auto intro: order_trans)
  moreover have "wake k' u < xTickCount k'" if "container k' (StateItem u) = Some (pxOverflowDelayedTaskList k')" for u
    using that st same(1) [of "StateItem u"] same(2) [of u] D(10) [of u] ptr by (cases "u = t") auto
  moreover have "blocked k' u" if "u \<notin> X" "container k' (EventItem u) \<noteq> None" for u
    using that ev same(1) [of "StateItem u"] same(1) [of "EventItem u"] D(11) [of u]
    by (cases "u = t") (auto simp: blocked_def)
  moreover have "{pxDelayedTaskList k', pxOverflowDelayedTaskList k'} = delayed_lists" using D(8) ptr by simp
  ultimately show ?thesis unfolding core_inv_def using lo bits by (intro conjI allI impI) blast+
qed

text \<open>The bitmap is not affected by a move between lists that are not ready lists.\<close>

lemma bits_move:
  assumes inv: "core_inv X strict k" and "\<And>i. owner i \<noteq> t \<Longrightarrow> container k' i = container k i"
    "\<And>p. container k (StateItem t) \<noteq> Some (pxReadyTasksLists p)"
    "\<And>p. container k' (StateItem t) \<noteq> Some (pxReadyTasksLists p)"
    "uxTopReadyPriority k' = uxTopReadyPriority k"
  shows "bit (uxTopReadyPriority k') p \<longleftrightarrow> (\<exists>u. container k' (StateItem u) = Some (pxReadyTasksLists p))"
  unfolding assms(5) core_invD(7) [OF inv] using assms(2-4) by (metis owner.simps(1))

lemma event_not_ready:
  "core_inv X strict k \<Longrightarrow> container k (EventItem t) \<noteq> Some (pxReadyTasksLists p)"
  using core_invD(2) [of X strict k "EventItem t"] by fastforce

text \<open>Taking a blocked task out of its list, or an event item out of its list.\<close>

lemma core_inv_del_state:
  assumes inv: "core_inv X strict k" and c: "container k (StateItem t) = Some l"
    and l: "\<And>p. l \<noteq> pxReadyTasksLists p" and e: "t \<in> X \<or> container k (EventItem t) = None"
  shows "core_inv X strict (k\<lparr>lists := ls_del l (StateItem t) (lists k)\<rparr>)" (is "core_inv X strict ?k")
proof (rule core_inv_move [OF inv, where t = t])
  note D = core_invD [OF inv]
  show "lists_ok (lists ?k)" using lists_ok_del [OF D(1) c] by simp
  show "bit (uxTopReadyPriority ?k) p \<longleftrightarrow> (\<exists>u. container ?k (StateItem u) = Some (pxReadyTasksLists p))" for p
    by (rule bits_move [OF inv, of t]) (use c l in auto)
  show "\<not> state_list m \<and> (t \<notin> X \<longrightarrow> blocked ?k t)"
    if "container ?k (EventItem t) = Some m" for m
    using that e D(2) [of "EventItem t" m] by auto
qed (use core_invD [OF inv] in auto)

lemma core_inv_del_event:
  assumes inv: "core_inv X strict k" and c: "container k (EventItem t) = Some l"
  shows "core_inv X strict (k\<lparr>lists := ls_del l (EventItem t) (lists k)\<rparr>)" (is "core_inv X strict ?k")
proof (rule core_inv_move [OF inv, where t = t])
  note D = core_invD [OF inv]
  show "lists_ok (lists ?k)" using lists_ok_del [OF D(1) c] by simp
  show "bit (uxTopReadyPriority ?k) p \<longleftrightarrow> (\<exists>u. container ?k (StateItem u) = Some (pxReadyTasksLists p))" for p
    using D(7) [of p] by simp
  show "state_list m \<and> (\<forall>p. m = pxReadyTasksLists p \<longrightarrow> prio ?k t = p) \<and>
      (m = pxDelayedTaskList k \<longrightarrow> xNextTaskUnblockTime ?k \<le> wake ?k t \<and> xTickCount k \<le> wake ?k t \<and>
         (strict \<longrightarrow> xTickCount k \<noteq> wake ?k t)) \<and>
      (m = pxOverflowDelayedTaskList k \<longrightarrow> wake ?k t < xTickCount k)"
    if "container ?k (StateItem t) = Some m" for m
    using that D(2) [of "StateItem t" m] D(6,9,10) [of t] by auto
qed (use core_invD [OF inv] in auto)

text \<open>Taking a ready task out of its list; the bit goes when the list becomes empty.\<close>

lemma remove_reset_priority_inv:
  assumes inv: "core_inv X strict k" and c: "container k (StateItem t) = Some (pxReadyTasksLists p)"
  shows "\<exists>b. remove_reset_priority t p k =
      Some (k\<lparr>lists := ls_del (pxReadyTasksLists p) (StateItem t) (lists k), uxTopReadyPriority := b\<rparr>) \<and>
    core_inv X strict (k\<lparr>lists := ls_del (pxReadyTasksLists p) (StateItem t) (lists k), uxTopReadyPriority := b\<rparr>)"
proof -
  let ?l = "pxReadyTasksLists p"
  note D = core_invD [OF inv]
  define b where "b = (if length (remove1 (StateItem t) (items k ?l)) = 0
    then portRESET_READY_PRIORITY p (uxTopReadyPriority k) else uxTopReadyPriority k)"
  let ?k = "k\<lparr>lists := ls_del ?l (StateItem t) (lists k), uxTopReadyPriority := b\<rparr>"
  have "remove_reset_priority t p k = Some ?k"
    by (simp add: remove_reset_priority_def list_remove_def ls_remove_Some [OF c] b_def)
  moreover have "core_inv X strict ?k"
  proof (rule core_inv_move [OF inv, where t = t])
    show "lists_ok (lists ?k)" using lists_ok_del [OF D(1) c] by simp
    have "(\<forall>j. j \<noteq> StateItem t \<longrightarrow> container k j \<noteq> Some ?l) \<longleftrightarrow> (\<forall>u. u \<noteq> t \<longrightarrow> container k (StateItem u) \<noteq> Some ?l)"
      using event_not_ready [OF inv, of _ p] by (auto elim: item.exhaust) (metis item.exhaust)
    then have e: "length (remove1 (StateItem t) (items k ?l)) = 0 \<longleftrightarrow> (\<forall>u. u \<noteq> t \<longrightarrow> container k (StateItem u) \<noteq> Some ?l)"
      using remove_empty [OF D(1) c] by simp
    show "bit (uxTopReadyPriority ?k) q \<longleftrightarrow> (\<exists>u. container ?k (StateItem u) = Some (pxReadyTasksLists q))" for q
    proof (cases "q = p")
      case True
      then show ?thesis using D(7) [of p] e c unfolding b_def by auto
    next
      case False
      then have "bit b q = bit (uxTopReadyPriority k) q" by (simp add: b_def)
      then show ?thesis using D(7) [of q] False c by simp (metis list_id.inject(1) option.inject)
    qed
    show "\<not> state_list m \<and> (t \<notin> X \<longrightarrow> blocked ?k t)"
      if "container ?k (EventItem t) = Some m" for m
      using that D(2) [of "EventItem t" m] D(11) [of t] c by (auto simp: blocked_def)
  qed (use D in auto)
  ultimately show ?thesis by blast
qed

lemma prvAddTaskToReadyList_simps [simp]:
  "container (prvAddTaskToReadyList t k) i =
     (if i = StateItem t then Some (pxReadyTasksLists (prio k t)) else container k i)"
  "liValue (lists (prvAddTaskToReadyList t k)) = liValue (lists k)"
  "tcb (prvAddTaskToReadyList t k) = tcb k" "heap (prvAddTaskToReadyList t k) = heap k"
  "pxCurrentTCB (prvAddTaskToReadyList t k) = pxCurrentTCB k"
  "pxDelayedTaskList (prvAddTaskToReadyList t k) = pxDelayedTaskList k"
  "pxOverflowDelayedTaskList (prvAddTaskToReadyList t k) = pxOverflowDelayedTaskList k"
  "uxDeletedTasksWaitingCleanUp (prvAddTaskToReadyList t k) = uxDeletedTasksWaitingCleanUp k"
  "uxCurrentNumberOfTasks (prvAddTaskToReadyList t k) = uxCurrentNumberOfTasks k"
  "xTickCount (prvAddTaskToReadyList t k) = xTickCount k"
  "xSchedulerRunning (prvAddTaskToReadyList t k) = xSchedulerRunning k"
  "xPendedTicks (prvAddTaskToReadyList t k) = xPendedTicks k"
  "xYieldPending (prvAddTaskToReadyList t k) = xYieldPending k"
  "xNumOfOverflows (prvAddTaskToReadyList t k) = xNumOfOverflows k"
  "xNextTaskUnblockTime (prvAddTaskToReadyList t k) = xNextTaskUnblockTime k"
  "uxSchedulerSuspended (prvAddTaskToReadyList t k) = uxSchedulerSuspended k"
  "pendSV (prvAddTaskToReadyList t k) = pendSV k"
  "sched.more (prvAddTaskToReadyList t k) = sched.more k"
  by (simp_all add: prvAddTaskToReadyList_def upd_lists_def Let_def)

text \<open>Putting a task that is in no list into its ready list.\<close>

lemma core_inv_add_ready:
  assumes inv: "core_inv X strict k" and c: "container k (StateItem t) = None" and t: "t \<noteq> 0"
    and e: "t \<in> X \<or> container k (EventItem t) = None"
  shows "core_inv X strict (prvAddTaskToReadyList t k)"
proof (rule core_inv_move [OF inv, where t = t])
  note D = core_invD [OF inv]
  let ?k = "prvAddTaskToReadyList t k"
  show "lists_ok (lists ?k)"
    using lists_ok_insert_end [OF D(1) c] by (simp add: prvAddTaskToReadyList_def upd_lists_def)
  have "prio k t < 32" using D(4) [of t] by (simp add: configMAX_PRIORITIES_def)
  then have b: "bit (uxTopReadyPriority ?k) q \<longleftrightarrow> bit (uxTopReadyPriority k) q \<or> q = prio k t" for q
    by (simp add: prvAddTaskToReadyList_def upd_lists_def)
  show "bit (uxTopReadyPriority ?k) q \<longleftrightarrow> (\<exists>u. container ?k (StateItem u) = Some (pxReadyTasksLists q))" for q
  proof (cases "q = prio k t")
    case False
    then show ?thesis unfolding b D(7) [of q] using c by simp (metis option.distinct(1))
  qed (auto simp: b)
  show "\<not> state_list m \<and> (t \<notin> X \<longrightarrow> blocked ?k t)"
    if "container ?k (EventItem t) = Some m" for m
    using that e D(2) [of "EventItem t" m] by auto
qed (use core_invD [OF inv] delayed_ptrs [OF inv] t in \<open>auto dest: sym\<close>)


text \<open>Putting the state item of a task that is in no list into a list of blocked tasks.\<close>

lemma core_inv_add_suspended:
  assumes inv: "core_inv X strict k" and c: "container k (StateItem t) = None" and t: "t \<noteq> 0"
  shows "core_inv X strict (upd_lists (ls_insert_end xSuspendedTaskList (StateItem t)) k)"
    (is "core_inv X strict ?k")
proof (rule core_inv_move [OF inv, where t = t])
  note D = core_invD [OF inv]
  show "lists_ok (lists ?k)" using lists_ok_insert_end [OF D(1) c] by (simp add: upd_lists_def)
  show "bit (uxTopReadyPriority ?k) p \<longleftrightarrow> (\<exists>u. container ?k (StateItem u) = Some (pxReadyTasksLists p))" for p
    by (rule bits_move [OF inv, of t]) (use c in \<open>auto simp: upd_lists_def\<close>)
  show "\<not> state_list m \<and> (t \<notin> X \<longrightarrow> blocked ?k t)" if "container ?k (EventItem t) = Some m" for m
    using that D(2) [of "EventItem t" m] by (auto simp: blocked_def upd_lists_def)
qed (use core_invD [OF inv] delayed_ptrs [OF inv] t in \<open>auto simp: upd_lists_def\<close>)

lemma core_inv_add_delayed:
  assumes inv: "core_inv X strict k" and c: "container k (StateItem t) = None" and t: "t \<noteq> 0"
    and l: "l = pxDelayedTaskList k \<and> xTickCount k < w \<and> n \<le> w \<and> n \<le> xNextTaskUnblockTime k \<or>
      l = pxOverflowDelayedTaskList k \<and> w < xTickCount k \<and> n = xNextTaskUnblockTime k"
  shows "core_inv X strict (k\<lparr>lists := ls_insert l (StateItem t) (ls_set_value (StateItem t) w (lists k)),
    xNextTaskUnblockTime := n\<rparr>)" (is "core_inv X strict ?k")
proof (rule core_inv_move [OF inv, where t = t])
  note D = core_invD [OF inv] and P = delayed_ptrs [OF inv]
  have "lists_ok (ls_set_value (StateItem t) w (lists k))"
    by (rule lists_ok_set_value [OF D(1)]) (simp add: c)
  then show "lists_ok (lists ?k)" using lists_ok_insert c by simp
  show "bit (uxTopReadyPriority ?k) p \<longleftrightarrow> (\<exists>u. container ?k (StateItem u) = Some (pxReadyTasksLists p))" for p
    by (rule bits_move [OF inv, of t]) (use c l P in auto)
  show "\<not> state_list m \<and> (t \<notin> X \<longrightarrow> blocked ?k t)" if "container ?k (EventItem t) = Some m" for m
    using that D(2) [of "EventItem t" m] l P by (auto simp: blocked_def)
  show "state_list m \<and> (\<forall>p. m = pxReadyTasksLists p \<longrightarrow> prio ?k t = p) \<and>
      (m = pxDelayedTaskList k \<longrightarrow> xNextTaskUnblockTime ?k \<le> wake ?k t \<and> xTickCount k \<le> wake ?k t \<and>
         (strict \<longrightarrow> xTickCount k \<noteq> wake ?k t)) \<and>
      (m = pxOverflowDelayedTaskList k \<longrightarrow> wake ?k t < xTickCount k)"
    if "container ?k (StateItem t) = Some m" for m
    using that l P by auto
qed (use core_invD [OF inv] l t in auto)

lemma core_inv_upd_tcb:
  assumes inv: "core_inv X strict k" and "uxPriority (f (tcb k t)) = prio k t"
    "uxBasePriority (f (tcb k t)) < configMAX_PRIORITIES"
  shows "core_inv X strict (upd_tcb t f k)"
  using assms unfolding core_inv_def blocked_def upd_tcb_def by simp

section \<open>Blocking the running task\<close>

text \<open>The running task is in the ready list of its priority.\<close>

definition running_ready :: "'a sched_scheme \<Rightarrow> bool" where
  "running_ready k \<longleftrightarrow>
     container k (StateItem (pxCurrentTCB k)) = Some (pxReadyTasksLists (prio k (pxCurrentTCB k)))"

lemma running_nonzero: "core_inv X strict k \<Longrightarrow> running_ready k \<Longrightarrow> pxCurrentTCB k \<noteq> 0"
  using core_invD(3) [of X strict k "StateItem 0"]
  by (metis option.distinct(1) owner.simps(1) running_ready_def)

lemma word_add_cases:
  fixes a w :: "'l::len word"
  assumes "w \<noteq> 0"
  shows "a + w < a \<or> a < a + w"
  using assms by (metis add.right_neutral add_left_cancel linorder_neqE)

lemma prvAddCurrentTaskToDelayedList_inv:
  assumes inv: "core_inv X True k" and rr: "running_ready k" and w: "w \<noteq> 0"
  obtains s b n k' where
    "k' = upd_tcb (pxCurrentTCB k) (\<lambda>t. t\<lparr>ucDelayAborted := False\<rparr>)
        (k\<lparr>lists := s, uxTopReadyPriority := b, xNextTaskUnblockTime := n\<rparr>)"
    "prvAddCurrentTaskToDelayedList w ci k = Some k'" "core_inv X True k'"
    "\<And>i. i \<noteq> StateItem (pxCurrentTCB k) \<Longrightarrow> container k' i = container k i \<and> liValue s i = liValue (lists k) i"
    "w = portMAX_DELAY \<and> ci \<Longrightarrow> container k' (StateItem (pxCurrentTCB k)) = Some xSuspendedTaskList"
    "\<not> (w = portMAX_DELAY \<and> ci) \<Longrightarrow> wake k' (pxCurrentTCB k) = xTickCount k + w \<and>
       container k' (StateItem (pxCurrentTCB k)) =
         Some (if xTickCount k + w < xTickCount k then pxOverflowDelayedTaskList k else pxDelayedTaskList k)"
    "\<And>m. \<not> state_list m \<Longrightarrow> lsItems s m = items k m"
proof -
  let ?c = "pxCurrentTCB k" and ?t = "xTickCount k + w" and ?f = "\<lambda>t. t\<lparr>ucDelayAborted := False\<rparr>"
  let ?p = "prio k ?c"
  define k0 where "k0 = upd_tcb ?c ?f k"
  have inv0: "core_inv X True k0"
    unfolding k0_def by (rule core_inv_upd_tcb [OF inv]) (use core_invD(5) [OF inv] in auto)
  have c: "container k0 (StateItem ?c) = Some (pxReadyTasksLists ?p)"
    using rr by (simp add: running_ready_def k0_def upd_tcb_def)
  obtain b where b: "remove_reset_priority ?c ?p k0 =
      Some (k0\<lparr>lists := ls_del (pxReadyTasksLists ?p) (StateItem ?c) (lists k0), uxTopReadyPriority := b\<rparr>)"
    "core_inv X True (k0\<lparr>lists := ls_del (pxReadyTasksLists ?p) (StateItem ?c) (lists k0), uxTopReadyPriority := b\<rparr>)"
    (is "core_inv X True ?k1")
    using remove_reset_priority_inv [OF inv0 c] by blast
  have c1: "container ?k1 (StateItem ?c) = None" by simp
  have nz: "?c \<noteq> 0" by (rule running_nonzero [OF inv rr])
  have k0: "pxCurrentTCB k0 = ?c" "lists k0 = lists k" "xTickCount k0 = xTickCount k" "prio k0 ?c = ?p"
    "pxDelayedTaskList k0 = pxDelayedTaskList k" "xNextTaskUnblockTime k0 = xNextTaskUnblockTime k"
    "pxOverflowDelayedTaskList k0 = pxOverflowDelayedTaskList k"
    by (simp_all add: k0_def upd_tcb_def)
  show ?thesis
  proof (cases "w = portMAX_DELAY \<and> ci")
    case True
    define s where "s = ls_insert_end xSuspendedTaskList (StateItem ?c) (lists ?k1)"
    have k2: "?k1\<lparr>lists := s\<rparr> = upd_tcb ?c ?f (k\<lparr>lists := s, uxTopReadyPriority := b,
        xNextTaskUnblockTime := xNextTaskUnblockTime k\<rparr>)"
      by (simp add: k0_def upd_tcb_def)
    have "prvAddCurrentTaskToDelayedList w ci k = Some (?k1\<lparr>lists := s\<rparr>)"
      using True b(1) k0 by (simp add: prvAddCurrentTaskToDelayedList_def k0_def [symmetric] upd_lists_def s_def Let_def)
    moreover have "core_inv X True (?k1\<lparr>lists := s\<rparr>)"
      using core_inv_add_suspended [OF b(2) c1 nz] by (simp add: upd_lists_def s_def)
    ultimately show ?thesis
      by (intro that [OF k2]) (use True in \<open>auto simp: s_def k0 ls_insert_end_def ls_del_def\<close>)
  next
    case False
    define l where "l = (if ?t < xTickCount k then pxOverflowDelayedTaskList k else pxDelayedTaskList k)"
    define s where "s = ls_insert l (StateItem ?c) (ls_set_value (StateItem ?c) ?t (lists ?k1))"
    define n where "n = (if ?t < xTickCount k then xNextTaskUnblockTime k
      else if ?t < xNextTaskUnblockTime k then ?t else xNextTaskUnblockTime k)"
    have k2: "?k1\<lparr>lists := s, xNextTaskUnblockTime := n\<rparr> = upd_tcb ?c ?f (k\<lparr>lists := s, uxTopReadyPriority := b,
        xNextTaskUnblockTime := n\<rparr>)"
      by (simp add: k0_def upd_tcb_def)
    have "prvAddCurrentTaskToDelayedList w ci k = Some (?k1\<lparr>lists := s, xNextTaskUnblockTime := n\<rparr>)"
      using False b(1) k0
      by (auto simp: prvAddCurrentTaskToDelayedList_def k0_def [symmetric] upd_lists_def s_def l_def n_def Let_def)
    moreover have "core_inv X True (?k1\<lparr>lists := s, xNextTaskUnblockTime := n\<rparr>)"
      unfolding s_def
      by (rule core_inv_add_delayed [OF b(2) c1 nz])
        (use word_add_cases [OF w, of "xTickCount k"] k0 in \<open>auto simp: l_def n_def\<close>)
    ultimately show ?thesis
      by (intro that [OF k2]) (use False delayed_ptrs(4,5) [OF inv] in
        \<open>auto simp: s_def l_def k0 ls_insert_def ls_del_def ls_set_value_def\<close>)
  qed
qed

section \<open>The tick\<close>

text \<open>Two states that differ at most in the lists, the bitmap and the next unblock time.\<close>

definition same_but_lists :: "'a sched_scheme \<Rightarrow> 'a sched_scheme \<Rightarrow> bool" where
  "same_but_lists k k' \<longleftrightarrow> k'\<lparr>lists := lists k, uxTopReadyPriority := uxTopReadyPriority k,
     xNextTaskUnblockTime := xNextTaskUnblockTime k\<rparr> = k"

lemma same_but_listsD:
  assumes "same_but_lists k k'"
  shows "tcb k' = tcb k" "heap k' = heap k" "pxCurrentTCB k' = pxCurrentTCB k"
    "pxDelayedTaskList k' = pxDelayedTaskList k"
    "pxOverflowDelayedTaskList k' = pxOverflowDelayedTaskList k"
    "uxDeletedTasksWaitingCleanUp k' = uxDeletedTasksWaitingCleanUp k"
    "uxCurrentNumberOfTasks k' = uxCurrentNumberOfTasks k" "xTickCount k' = xTickCount k"
    "xSchedulerRunning k' = xSchedulerRunning k" "xPendedTicks k' = xPendedTicks k"
    "xYieldPending k' = xYieldPending k" "xNumOfOverflows k' = xNumOfOverflows k"
    "uxSchedulerSuspended k' = uxSchedulerSuspended k" "pendSV k' = pendSV k"
    "sched.more k' = sched.more k" "uxTaskNumber k' = uxTaskNumber k"
proof -
  let ?k = "k'\<lparr>lists := lists k, uxTopReadyPriority := uxTopReadyPriority k,
     xNextTaskUnblockTime := xNextTaskUnblockTime k\<rparr>"
  have "f ?k = f k" for f :: "'a sched_scheme \<Rightarrow> 'b" using assms by (simp add: same_but_lists_def)
  then have e: "?k = k" using assms by (simp add: same_but_lists_def)
  show "tcb k' = tcb k" "heap k' = heap k" "pxCurrentTCB k' = pxCurrentTCB k"
    "pxDelayedTaskList k' = pxDelayedTaskList k"
    "pxOverflowDelayedTaskList k' = pxOverflowDelayedTaskList k"
    "uxDeletedTasksWaitingCleanUp k' = uxDeletedTasksWaitingCleanUp k"
    "uxCurrentNumberOfTasks k' = uxCurrentNumberOfTasks k" "xTickCount k' = xTickCount k"
    "xSchedulerRunning k' = xSchedulerRunning k" "xPendedTicks k' = xPendedTicks k"
    "xYieldPending k' = xYieldPending k" "xNumOfOverflows k' = xNumOfOverflows k"
    "uxSchedulerSuspended k' = uxSchedulerSuspended k" "pendSV k' = pendSV k"
    "sched.more k' = sched.more k" "uxTaskNumber k' = uxTaskNumber k"
    by (subst e [symmetric], simp)+
qed

lemma same_but_lists_upd [simp]:
  "same_but_lists k (k\<lparr>lists := s\<rparr>)" "same_but_lists k (k\<lparr>xNextTaskUnblockTime := n\<rparr>)"
  "same_but_lists k k" "same_but_lists k (prvAddTaskToReadyList t k)"
  "same_but_lists k (k\<lparr>lists := s, uxTopReadyPriority := b\<rparr>)"
  by (simp_all add: same_but_lists_def prvAddTaskToReadyList_def upd_lists_def Let_def)

lemma same_but_lists_trans:
  assumes "same_but_lists k k'" "same_but_lists k' k''"
  shows "same_but_lists k k''"
proof -
  have "(k''\<lparr>lists := lists k', uxTopReadyPriority := uxTopReadyPriority k',
     xNextTaskUnblockTime := xNextTaskUnblockTime k'\<rparr>)\<lparr>lists := lists k, uxTopReadyPriority := uxTopReadyPriority k,
     xNextTaskUnblockTime := xNextTaskUnblockTime k\<rparr> = k"
    using assms unfolding same_but_lists_def by simp
  then show ?thesis unfolding same_but_lists_def by simp
qed

lemma reset_next_unblock_inv:
  assumes inv: "core_inv X strict k"
  shows "core_inv X strict (prvResetNextTaskUnblockTime k)"
proof -
  note D = core_invD [OF inv]
  have "xNextTaskUnblockTime (prvResetNextTaskUnblockTime k) \<le> wake k t"
    if c: "container k (StateItem t) = Some (pxDelayedTaskList k)" for t
  proof -
    have m: "StateItem t \<in> set (items k (pxDelayedTaskList k))" using lists_ok_mem [OF D(1)] c by simp
    then obtain i rest where rest: "items k (pxDelayedTaskList k) = i # rest" by (cases "items k (pxDelayedTaskList k)") auto
    have "sorted (map (liValue (lists k)) (i # rest))"
      using D(1) delayed_ptrs(1) [OF inv] rest by (auto simp: lists_ok_def)
    then have "liValue (lists k) i \<le> wake k t" using m rest by auto
    then show ?thesis using rest by (simp add: prvResetNextTaskUnblockTime_def)
  qed
  then show ?thesis using inv unfolding core_inv_def
    by (elim conjE, intro conjI) (simp_all add: prvResetNextTaskUnblockTime_def blocked_def)
qed

text \<open>One round of the loop: the head task goes to its ready list, its event item to none.\<close>

lemma unblock_step:
  assumes inv: "core_inv {} False k" and h: "items k (pxDelayedTaskList k) = i # rest"
  obtains t k' where "i = StateItem t"
    "unblock_loop now sw k = (if now < wake k t then Some (sw, k\<lparr>xNextTaskUnblockTime := wake k t\<rparr>)
       else unblock_loop now (sw \<or> prio k t > prio k (pxCurrentTCB k)) k')"
    "core_inv {} False k'" "items k' (pxDelayedTaskList k') = rest"
    "container k' (StateItem t) = Some (pxReadyTasksLists (prio k t))" "container k' (EventItem t) = None"
    "\<And>j. owner j \<noteq> t \<Longrightarrow> container k' j = container k j"
    "same_but_lists k k'" "liValue (lists k') = liValue (lists k)"
proof -
  note D = core_invD [OF inv]
  let ?l = "pxDelayedTaskList k"
  have ci: "container k i = Some ?l" using lists_ok_mem [OF D(1), of i ?l] h by simp
  then obtain t where t: "i = StateItem t" using D(2) [OF ci] delayed_ptrs(4) [OF inv] by (cases i) auto
  have t0: "t \<noteq> 0" using D(3) [of i] ci t by (cases "t = 0") auto
  have lr: "?l \<noteq> pxReadyTasksLists p" for p using delayed_ptrs(1) [OF inv] by auto
  define k1 where "k1 = k\<lparr>lists := ls_del ?l (StateItem t) (lists k)\<rparr>"
  have inv1: "core_inv {t} False k1"
    unfolding k1_def by (rule core_inv_del_state [OF core_inv_mono [OF inv]]) (use ci t lr in auto)
  obtain k2 where k2: "remove_if_contained (EventItem t) k1 = Some k2" "core_inv {t} False k2"
    "container k2 (EventItem t) = None" "\<And>j. j \<noteq> EventItem t \<Longrightarrow> container k2 j = container k1 j"
    "\<exists>s. k2 = k1\<lparr>lists := s\<rparr> \<and> liValue s = liValue (lists k1) \<and> lsItems s ?l = lsItems (lists k1) ?l"
  proof (cases "container k1 (EventItem t)")
    case None
    then show ?thesis
      by (intro that [of k1]) (use inv1 in \<open>auto simp: remove_if_contained_def intro!: exI [of _ "lists k1"]\<close>)
  next
    case (Some m)
    have "m \<noteq> ?l" using core_invD(2) [OF inv1 Some] delayed_ptrs(4) [OF inv] by auto
    then show ?thesis
      by (intro that [of "k1\<lparr>lists := ls_del m (EventItem t) (lists k1)\<rparr>"]
          exI [of _ "ls_del m (EventItem t) (lists k1)"])
        (use listREMOVE_ITEM_eq [OF Some] core_inv_del_event [OF inv1 Some] Some in
          \<open>auto simp: remove_if_contained_def ls_del_def\<close>)
  qed
  obtain s2 where s2: "k2 = k1\<lparr>lists := s2\<rparr>" "liValue s2 = liValue (lists k1)" "lsItems s2 ?l = lsItems (lists k1) ?l"
    using k2(5) by blast
  define k3 where "k3 = prvAddTaskToReadyList t k2"
  have c2: "container k2 (StateItem t) = None" using k2(4) by (simp add: k1_def)
  have inv3: "core_inv {} False k3"
    using core_inv_add_ready [OF core_inv_close [OF k2(2)] c2 t0] k2(3) by (simp add: k3_def)
  have tcbs: "tcb k3 = tcb k" "pxCurrentTCB k3 = pxCurrentTCB k" "tcb k2 = tcb k"
    "pxCurrentTCB k2 = pxCurrentTCB k" by (simp_all add: k3_def s2 k1_def)
  show ?thesis
  proof (rule that [of t k3])
    show "i = StateItem t" by (rule t)
    show "unblock_loop now sw k = (if now < wake k t then Some (sw, k\<lparr>xNextTaskUnblockTime := wake k t\<rparr>)
       else unblock_loop now (sw \<or> prio k t > prio k (pxCurrentTCB k)) k3)"
      using h t ci k2(1) listREMOVE_ITEM_eq [of k "StateItem t" ?l] tcbs
      by (simp add: unblock_loop.simps [of now sw k] k1_def [symmetric] k3_def [symmetric])
    show "items k3 (pxDelayedTaskList k3) = rest"
      using h t lr s2 by (simp add: k3_def prvAddTaskToReadyList_def upd_lists_def ls_insert_end_def k1_def ls_del_def)
    show "container k3 (StateItem t) = Some (pxReadyTasksLists (prio k t))" "container k3 (EventItem t) = None"
      using tcbs k2(3) by (simp_all add: k3_def)
    show "container k3 j = container k j" if "owner j \<noteq> t" for j
      using that k2(4) [of j] by (cases j) (auto simp: k3_def k1_def)
    show "same_but_lists k k3" unfolding k3_def k1_def s2 by (rule same_but_lists_trans [of _ k2]) (simp_all add: s2 k1_def)
    show "liValue (lists k3) = liValue (lists k)" using s2 by (simp add: k3_def k1_def)
  qed (rule inv3)
qed

text \<open>The tasks the tick wakes: delayed, with a wake time that has come.\<close>

definition due :: "TickType_t \<Rightarrow> 'a sched_scheme \<Rightarrow> addr \<Rightarrow> bool" where
  "due now k t \<longleftrightarrow> container k (StateItem t) = Some (pxDelayedTaskList k) \<and> wake k t \<le> now"

lemma core_inv_strict_next:
  assumes inv: "core_inv X False k"
    and n: "\<And>t. container k (StateItem t) = Some (pxDelayedTaskList k) \<Longrightarrow> n \<le> wake k t \<and> xTickCount k < wake k t"
  shows "core_inv X True (k\<lparr>xNextTaskUnblockTime := n\<rparr>)"
proof -
  have "\<forall>t. container k (StateItem t) = Some (pxDelayedTaskList k) \<longrightarrow>
      n \<le> wake k t \<and> xTickCount k \<le> wake k t \<and> (True \<longrightarrow> xTickCount k \<noteq> wake k t)"
    using n by (metis order_less_imp_le order_less_irrefl)
  then show ?thesis
    using inv unfolding core_inv_def blocked_def by (elim conjE, intro conjI) simp_all
qed

lemma unblock_loop_inv:
  assumes "core_inv {} False k" "xTickCount k = now"
  shows "\<exists>k'. unblock_loop now sw k =
      Some (sw \<or> (\<exists>t. due now k t \<and> prio k t > prio k (pxCurrentTCB k)), k') \<and>
    sched_inv k' \<and> same_but_lists k k' \<and> liValue (lists k') = liValue (lists k) \<and>
    (\<forall>t. container k' (StateItem t) =
       (if due now k t then Some (pxReadyTasksLists (prio k t)) else container k (StateItem t)) \<and>
       container k' (EventItem t) = (if due now k t then None else container k (EventItem t)))"
  using assms
proof (induction "items k (pxDelayedTaskList k)" arbitrary: k sw)
  case Nil
  note D = core_invD [OF Nil.prems(1)]
  have e: "container k (StateItem t) \<noteq> Some (pxDelayedTaskList k)" for t
    using lists_ok_nil [OF D(1)] Nil.hyps by metis
  then have nd: "\<not> due now k t" for t by (simp add: due_def)
  have "unblock_loop now sw k = Some (sw, k\<lparr>xNextTaskUnblockTime := portMAX_DELAY\<rparr>)"
    using Nil.hyps [symmetric] by (simp add: unblock_loop.simps [of now sw k])
  moreover have "core_inv {} True (k\<lparr>xNextTaskUnblockTime := portMAX_DELAY\<rparr>)"
    by (rule core_inv_strict_next [OF Nil.prems(1)]) (use e in blast)
  ultimately show ?case using nd by simp
next
  case (Cons i rest)
  note D = core_invD [OF Cons.prems(1)]
  have h: "items k (pxDelayedTaskList k) = i # rest" using Cons.hyps(2) by simp
  obtain t k' where st: "i = StateItem t"
    "unblock_loop now sw k = (if now < wake k t then Some (sw, k\<lparr>xNextTaskUnblockTime := wake k t\<rparr>)
       else unblock_loop now (sw \<or> prio k t > prio k (pxCurrentTCB k)) k')"
    "core_inv {} False k'" "items k' (pxDelayedTaskList k') = rest"
    "container k' (StateItem t) = Some (pxReadyTasksLists (prio k t))" "container k' (EventItem t) = None"
    "\<And>j. owner j \<noteq> t \<Longrightarrow> container k' j = container k j"
    "same_but_lists k k'" "liValue (lists k') = liValue (lists k)"
    by (rule unblock_step [OF Cons.prems(1) h, of now sw]) blast
  note S = same_but_listsD [OF st(8)]
  show ?case
  proof (cases "now < wake k t")
    case True
    have "sorted (map (liValue (lists k)) (i # rest))"
      using D(1) delayed_ptrs(1) [OF Cons.prems(1)] h by (auto simp: lists_ok_def)
    then have le: "wake k t \<le> wake k u" if "container k (StateItem u) = Some (pxDelayedTaskList k)" for u
      using that lists_ok_mem [OF D(1), of "StateItem u" "pxDelayedTaskList k"] h st(1) by auto
    have nd: "\<not> due now k u" for u using le [of u] True by (auto simp: due_def)
    have "core_inv {} True (k\<lparr>xNextTaskUnblockTime := wake k t\<rparr>)"
      by (rule core_inv_strict_next [OF Cons.prems(1)]) (use le True Cons.prems(2) in fastforce)
    then show ?thesis using nd st(2) True by simp
  next
    case False
    have rest: "rest = items k' (pxDelayedTaskList k')" and tk: "xTickCount k' = now"
      using st(4) S(8) Cons.prems(2) by simp_all
    obtain k'' where IH: "unblock_loop now (sw \<or> prio k t > prio k (pxCurrentTCB k)) k' =
        Some ((sw \<or> prio k t > prio k (pxCurrentTCB k)) \<or> (\<exists>t. due now k' t \<and> prio k' t > prio k' (pxCurrentTCB k')), k'')"
      "sched_inv k''" "same_but_lists k' k''" "liValue (lists k'') = liValue (lists k')"
      "\<forall>t. container k'' (StateItem t) =
       (if due now k' t then Some (pxReadyTasksLists (prio k' t)) else container k' (StateItem t)) \<and>
       container k'' (EventItem t) = (if due now k' t then None else container k' (EventItem t))"
      using Cons.hyps(1) [OF rest st(3) tk, of "sw \<or> prio k t > prio k (pxCurrentTCB k)"] by blast
    have ct: "container k (StateItem t) = Some (pxDelayedTaskList k)"
      using lists_ok_mem [OF D(1), of i "pxDelayedTaskList k"] h st(1) by simp
    have dt: "due now k t" using ct False by (simp add: due_def)
    have du: "due now k' u \<longleftrightarrow> u \<noteq> t \<and> due now k u" for u
      using st(5,9) st(7) [of "StateItem u"] S delayed_ptrs(1) [OF st(3)] by (cases "u = t") (auto simp: due_def)
    have sw: "(\<exists>u. due now k u \<and> prio k u > prio k (pxCurrentTCB k)) \<longleftrightarrow>
        prio k t > prio k (pxCurrentTCB k) \<or> (\<exists>u. due now k' u \<and> prio k' u > prio k' (pxCurrentTCB k'))"
      using dt S by (auto simp: du)
    have c: "container k'' (StateItem u) =
       (if due now k u then Some (pxReadyTasksLists (prio k u)) else container k (StateItem u)) \<and>
       container k'' (EventItem u) = (if due now k u then None else container k (EventItem u))" for u
      using IH(5) du [of u] dt S st(5,6) st(7) [of "StateItem u"] st(7) [of "EventItem u"] by (cases "u = t") auto
    have "unblock_loop now sw k = Some (sw \<or> (\<exists>t. due now k t \<and> prio k t > prio k (pxCurrentTCB k)), k'')"
      using st(2) IH(1) False by (simp add: sw disj_assoc)
    then show ?thesis using IH(2,4) st(9) c same_but_lists_trans [OF st(8) IH(3)] by auto
  qed
qed

text \<open>
  The list of the present round of the tick counter: \<open>pxDelayedTaskList\<close>, except at the tick that
  wraps to 0, where the lists are exchanged.
\<close>

lemma word_le_max [simp]: "(x :: 32 word) \<le> 0xffffffff"
  using le_portMAX_DELAY by (simp add: portMAX_DELAY_def)

lemma tick_wrap: "(x :: 32 word) + 1 = 0 \<Longrightarrow> x = portMAX_DELAY"
  by (simp add: portMAX_DELAY_def eq_neg_iff_add_eq_0 [symmetric])

lemma tick_succ:
  assumes "(x :: 32 word) + 1 \<noteq> 0"
  shows "x < x + 1" "x < y \<longleftrightarrow> x + 1 \<le> y"
proof -
  have "unat (x + 1) = Suc (unat x)" using unatSuc [of x] assms by (simp add: add.commute)
  then show "x < x + 1" "x < y \<longleftrightarrow> x + 1 \<le> y" by (simp_all add: word_less_nat_alt word_le_nat_alt Suc_le_eq)
qed

lemma switch_delayed_inv:
  assumes inv: "core_inv {} True k" and wrap: "xTickCount k + 1 = 0"
  shows "\<exists>k'. taskSWITCH_DELAYED_LISTS (k\<lparr>xTickCount := 0\<rparr>) = Some k' \<and> core_inv {} False k' \<and>
    k' = (prvResetNextTaskUnblockTime (k\<lparr>xTickCount := 0, pxDelayedTaskList := pxOverflowDelayedTaskList k,
      pxOverflowDelayedTaskList := pxDelayedTaskList k, xNumOfOverflows := xNumOfOverflows k + 1\<rparr>))"
proof -
  note D = core_invD [OF inv]
  have max: "xTickCount k = portMAX_DELAY" by (rule tick_wrap [OF wrap])
  have none: "container k (StateItem t) \<noteq> Some (pxDelayedTaskList k)" for t
    using D(9) [of t] max by (auto)
  have "container k i \<noteq> Some (pxDelayedTaskList k)" for i
    using none D(2) [of i "pxDelayedTaskList k"] delayed_ptrs(4) [OF inv] by (cases i) auto
  then have e: "items k (pxDelayedTaskList k) = []" using lists_ok_nil [OF D(1)] by simp
  define k1 where "k1 = k\<lparr>xTickCount := 0, xNextTaskUnblockTime := 0, pxDelayedTaskList := pxOverflowDelayedTaskList k,
      pxOverflowDelayedTaskList := pxDelayedTaskList k, xNumOfOverflows := xNumOfOverflows k + 1\<rparr>"
  have "core_inv {} False k1"
    using inv none unfolding core_inv_def blocked_def k1_def
    by (elim conjE, intro conjI) (simp_all add: insert_commute)
  then have "core_inv {} False (prvResetNextTaskUnblockTime k1)" by (rule reset_next_unblock_inv)
  moreover have "prvResetNextTaskUnblockTime k1 =
    prvResetNextTaskUnblockTime (k\<lparr>xTickCount := 0, pxDelayedTaskList := pxOverflowDelayedTaskList k,
      pxOverflowDelayedTaskList := pxDelayedTaskList k, xNumOfOverflows := xNumOfOverflows k + 1\<rparr>)"
    by (simp add: prvResetNextTaskUnblockTime_def k1_def split: list.split)
  ultimately show ?thesis using e by (simp add: taskSWITCH_DELAYED_LISTS_def)
qed

text \<open>Everything a tick leaves alone.\<close>

definition tick_frame :: "'a sched_scheme \<Rightarrow> 'a sched_scheme \<Rightarrow> bool" where
  "tick_frame k k' \<longleftrightarrow> tcb k' = tcb k \<and> heap k' = heap k \<and> pxCurrentTCB k' = pxCurrentTCB k \<and>
     uxDeletedTasksWaitingCleanUp k' = uxDeletedTasksWaitingCleanUp k \<and>
     uxCurrentNumberOfTasks k' = uxCurrentNumberOfTasks k \<and> xSchedulerRunning k' = xSchedulerRunning k \<and>
     xPendedTicks k' = xPendedTicks k \<and> uxSchedulerSuspended k' = uxSchedulerSuspended k \<and>
     pendSV k' = pendSV k \<and> sched.more k' = sched.more k \<and> liValue (lists k') = liValue (lists k)"

text \<open>The tasks that the next tick wakes, whichever of the two delayed lists they are in.\<close>

definition wakes :: "'a sched_scheme \<Rightarrow> addr \<Rightarrow> bool" where
  "wakes k t \<longleftrightarrow> (\<exists>l \<in> delayed_lists. container k (StateItem t) = Some l) \<and> wake k t = xTickCount k + 1"

lemma blocked_lists:
  assumes "core_inv X strict k"
  shows "(\<exists>l \<in> delayed_lists. container k (StateItem t) = Some l) \<longleftrightarrow>
    container k (StateItem t) = Some (pxDelayedTaskList k) \<or>
    container k (StateItem t) = Some (pxOverflowDelayedTaskList k)"
  using core_invD(8) [OF assms] by (auto simp: doubleton_eq_iff)

lemma tick_start:
  assumes inv: "sched_inv k"
  obtains k1 where "(if xTickCount k + 1 = 0 then taskSWITCH_DELAYED_LISTS (k\<lparr>xTickCount := xTickCount k + 1\<rparr>)
      else Some (k\<lparr>xTickCount := xTickCount k + 1\<rparr>)) = Some k1"
    "core_inv {} False k1" "xTickCount k1 = xTickCount k + 1" "tick_frame k k1" "lists k1 = lists k"
    "xYieldPending k1 = xYieldPending k" "\<And>t. due (xTickCount k + 1) k1 t \<longleftrightarrow> wakes k t"
    "xNumOfOverflows k1 = xNumOfOverflows k + (if xTickCount k + 1 = 0 then 1 else 0)"
proof (cases "xTickCount k + 1 = 0")
  case True
  note D = core_invD [OF inv]
  obtain k1 where k1: "taskSWITCH_DELAYED_LISTS (k\<lparr>xTickCount := 0\<rparr>) = Some k1" "core_inv {} False k1"
    "k1 = (prvResetNextTaskUnblockTime (k\<lparr>xTickCount := 0, pxDelayedTaskList := pxOverflowDelayedTaskList k,
      pxOverflowDelayedTaskList := pxDelayedTaskList k, xNumOfOverflows := xNumOfOverflows k + 1\<rparr>))"
    using switch_delayed_inv [OF inv True] by blast
  have max: "xTickCount k = portMAX_DELAY" by (rule tick_wrap [OF True])
  have "container k (StateItem t) \<noteq> Some (pxDelayedTaskList k)" for t using D(9) [of t] max by auto
  then have "due (xTickCount k + 1) k1 t \<longleftrightarrow> wakes k t" for t
    using True unfolding wakes_def blocked_lists [OF inv]
    by (auto simp: due_def k1(3) prvResetNextTaskUnblockTime_def)
  then show ?thesis using k1 True
    by (intro that [of k1]) (auto simp: prvResetNextTaskUnblockTime_def tick_frame_def)
next
  case False
  note D = core_invD [OF inv] and S = tick_succ [OF False]
  let ?k = "k\<lparr>xTickCount := xTickCount k + 1\<rparr>"
  have c: "\<forall>t. container k (StateItem t) = Some (pxDelayedTaskList k) \<longrightarrow>
      xNextTaskUnblockTime k \<le> wake k t \<and> xTickCount k + 1 \<le> wake k t"
    using D(9) S(2) by (metis order_le_less)
  have o: "\<forall>t. container k (StateItem t) = Some (pxOverflowDelayedTaskList k) \<longrightarrow> wake k t < xTickCount k + 1"
    using D(10) S(1) by (metis order_less_trans)
  have "core_inv {} False ?k"
    using inv c o unfolding core_inv_def blocked_def by (elim conjE, intro conjI) simp_all
  moreover have "due (xTickCount k + 1) ?k t \<longleftrightarrow> wakes k t" for t
    using c o unfolding wakes_def blocked_lists [OF inv] due_def by (auto)
  ultimately show ?thesis using False by (intro that [of ?k]) (auto simp: tick_frame_def)
qed

lemma xTaskIncrementTick_inv:
  assumes inv: "sched_inv k" and s: "uxSchedulerSuspended k = 0"
  obtains k' where "xTaskIncrementTick k =
      Some ((\<exists>t. wakes k t \<and> prio k t > prio k (pxCurrentTCB k)) \<or>
        length (items k' (pxReadyTasksLists (prio k (pxCurrentTCB k)))) > 1 \<or> xYieldPending k, k')"
    "sched_inv k'" "xTickCount k' = xTickCount k + 1" "tick_frame k k'" "xYieldPending k' = xYieldPending k"
    "\<And>t. container k' (StateItem t) =
       (if wakes k t then Some (pxReadyTasksLists (prio k t)) else container k (StateItem t))"
    "\<And>t. container k' (EventItem t) = (if wakes k t then None else container k (EventItem t))"
    "xNumOfOverflows k' = xNumOfOverflows k + (if xTickCount k + 1 = 0 then 1 else 0)"
proof -
  let ?now = "xTickCount k + 1"
  obtain k1 where k1: "(if xTickCount k + 1 = 0 then taskSWITCH_DELAYED_LISTS (k\<lparr>xTickCount := xTickCount k + 1\<rparr>)
      else Some (k\<lparr>xTickCount := xTickCount k + 1\<rparr>)) = Some k1"
    "core_inv {} False k1" "xTickCount k1 = xTickCount k + 1" "tick_frame k k1" "lists k1 = lists k"
    "xYieldPending k1 = xYieldPending k" "\<And>t. due (xTickCount k + 1) k1 t \<longleftrightarrow> wakes k t"
    "xNumOfOverflows k1 = xNumOfOverflows k + (if xTickCount k + 1 = 0 then 1 else 0)"
    by (rule tick_start [OF inv]) blast
  have p: "tcb k1 = tcb k" "pxCurrentTCB k1 = pxCurrentTCB k" using k1(4) by (simp_all add: tick_frame_def)
  obtain k2 where k2: "(if ?now \<ge> xNextTaskUnblockTime k1 then unblock_loop ?now False k1 else Some (False, k1)) =
      Some (\<exists>t. wakes k t \<and> prio k t > prio k (pxCurrentTCB k), k2)"
    "sched_inv k2" "same_but_lists k1 k2" "liValue (lists k2) = liValue (lists k1)"
    "\<forall>t. container k2 (StateItem t) =
       (if wakes k t then Some (pxReadyTasksLists (prio k t)) else container k (StateItem t)) \<and>
       container k2 (EventItem t) = (if wakes k t then None else container k (EventItem t))"
  proof (cases "?now \<ge> xNextTaskUnblockTime k1")
    case True
    then show ?thesis using unblock_loop_inv [OF k1(2,3), of False] that k1(5,7) p by auto
  next
    case False
    have lt: "xNextTaskUnblockTime k1 \<le> wake k1 t \<and> xTickCount k1 < wake k1 t"
      if "container k1 (StateItem t) = Some (pxDelayedTaskList k1)" for t
      using core_invD(9) [OF k1(2) that] False k1(3) by auto
    have "sched_inv (k1\<lparr>xNextTaskUnblockTime := xNextTaskUnblockTime k1\<rparr>)"
      by (rule core_inv_strict_next [OF k1(2)]) (use lt in blast)
    then have "sched_inv k1" by simp
    moreover have "\<not> wakes k t" for t
      unfolding k1(7) [symmetric] due_def using lt [of t] k1(3) by auto
    ultimately show ?thesis using False that [of k1] k1(5) by auto
  qed
  have "xTaskIncrementTick k =
      Some ((\<exists>t. wakes k t \<and> prio k t > prio k (pxCurrentTCB k)) \<or>
        length (items k2 (pxReadyTasksLists (prio k (pxCurrentTCB k)))) > 1 \<or> xYieldPending k, k2)"
    using s k1(1,6) k2(1) same_but_listsD [OF k2(3)] p by (simp add: xTaskIncrementTick_def)
  then show ?thesis
    by (rule that) (use k1 k2 same_but_listsD [OF k2(3)] in \<open>auto simp: tick_frame_def\<close>)
qed

section \<open>Resuming the scheduler\<close>

text \<open>From \<open>k\<close> to \<open>k'\<close> tasks are only made ready: each task either keeps its lists or was blocked
  and is now in its ready list and in no event list.\<close>

definition unblocks :: "'a sched_scheme \<Rightarrow> 'a sched_scheme \<Rightarrow> bool" where
  "unblocks k k' \<longleftrightarrow> (\<forall>t.
     container k' (StateItem t) = container k (StateItem t) \<and> container k' (EventItem t) = container k (EventItem t) \<or>
     blocked k t \<and> container k' (StateItem t) = Some (pxReadyTasksLists (prio k t)) \<and> container k' (EventItem t) = None)"

lemma unblocks_refl [simp]: "unblocks k k"
  by (simp add: unblocks_def)

lemma unblocks_same: "container k1 = container k \<Longrightarrow> tcb k1 = tcb k \<Longrightarrow> unblocks k1 k' \<longleftrightarrow> unblocks k k'"
  by (simp add: unblocks_def blocked_def)

lemma unblocks_trans:
  assumes "unblocks k k'" "unblocks k' k''" "tcb k' = tcb k"
  shows "unblocks k k''"
  unfolding unblocks_def
proof
  fix t
  have 1: "container k' (StateItem t) = container k (StateItem t) \<and> container k' (EventItem t) = container k (EventItem t) \<or>
     blocked k t \<and> container k' (StateItem t) = Some (pxReadyTasksLists (prio k t)) \<and> container k' (EventItem t) = None"
    using assms(1) unfolding unblocks_def by blast
  have 2: "container k'' (StateItem t) = container k' (StateItem t) \<and> container k'' (EventItem t) = container k' (EventItem t) \<or>
     blocked k' t \<and> container k'' (StateItem t) = Some (pxReadyTasksLists (prio k t)) \<and> container k'' (EventItem t) = None"
    using assms(2,3) unfolding unblocks_def by auto
  show "container k'' (StateItem t) = container k (StateItem t) \<and> container k'' (EventItem t) = container k (EventItem t) \<or>
     blocked k t \<and> container k'' (StateItem t) = Some (pxReadyTasksLists (prio k t)) \<and> container k'' (EventItem t) = None"
    using 1 2 by (auto simp: blocked_def)
qed

lemma unblocks_tick:
  "(\<And>t. container k' (StateItem t) = (if wakes k t then Some (pxReadyTasksLists (prio k t)) else container k (StateItem t))) \<Longrightarrow>
   (\<And>t. container k' (EventItem t) = (if wakes k t then None else container k (EventItem t))) \<Longrightarrow> unblocks k k'"
  by (auto simp: unblocks_def wakes_def blocked_def)

lemma unblocks_running:
  "unblocks k k' \<Longrightarrow> tcb k' = tcb k \<Longrightarrow> pxCurrentTCB k' = pxCurrentTCB k \<Longrightarrow> running_ready k \<Longrightarrow> running_ready k'"
  unfolding unblocks_def running_ready_def blocked_def by (metis)

lemma unblocks_ready:
  assumes "unblocks k k'" "container k (StateItem t) = Some (pxReadyTasksLists p)"
  shows "container k' (StateItem t) = Some (pxReadyTasksLists p)"
  using spec [OF assms(1) [unfolded unblocks_def], of t] assms(2) by (auto simp: blocked_def)

text \<open>What is left alone while the scheduler is resumed.\<close>

definition resume_frame :: "'a sched_scheme \<Rightarrow> 'a sched_scheme \<Rightarrow> bool" where
  "resume_frame k k' \<longleftrightarrow> tcb k' = tcb k \<and> heap k' = heap k \<and> pxCurrentTCB k' = pxCurrentTCB k \<and>
     uxDeletedTasksWaitingCleanUp k' = uxDeletedTasksWaitingCleanUp k \<and>
     uxCurrentNumberOfTasks k' = uxCurrentNumberOfTasks k \<and> xSchedulerRunning k' = xSchedulerRunning k \<and>
     sched.more k' = sched.more k \<and> liValue (lists k') = liValue (lists k)"

lemma resume_frame_refl [simp]: "resume_frame k k"
  by (simp add: resume_frame_def)

lemma resume_frame_trans: "resume_frame k k' \<Longrightarrow> resume_frame k' k'' \<Longrightarrow> resume_frame k k''"
  by (simp add: resume_frame_def)

lemma core_inv_frame [simp]:
  "core_inv X strict (k\<lparr>xYieldPending := y\<rparr>) = core_inv X strict k"
  "core_inv X strict (k\<lparr>uxSchedulerSuspended := n\<rparr>) = core_inv X strict k"
  "core_inv X strict (k\<lparr>xPendedTicks := d\<rparr>) = core_inv X strict k"
  "core_inv X strict (k\<lparr>pendSV := y\<rparr>) = core_inv X strict k"
  "core_inv X strict (k\<lparr>pxCurrentTCB := t\<rparr>) = core_inv X strict k"
  "core_inv X strict (k\<lparr>heap := h\<rparr>) = core_inv X strict k"
  "core_inv X strict (k\<lparr>uxTaskNumber := n\<rparr>) = core_inv X strict k"
  "core_inv X strict (k\<lparr>uxCurrentNumberOfTasks := n\<rparr>) = core_inv X strict k"
  "core_inv X strict (k\<lparr>uxDeletedTasksWaitingCleanUp := n\<rparr>) = core_inv X strict k"
  "core_inv X strict (k\<lparr>xSchedulerRunning := y\<rparr>) = core_inv X strict k"
  by (simp_all add: core_inv_def blocked_def)

lemma pending_step:
  assumes inv: "sched_inv k" and h: "items k xPendingReadyList = i # rest"
  obtains t k' where "i = EventItem t" "container k i = Some xPendingReadyList"
    "pending_loop moved k = pending_loop True k'" "sched_inv k'" "items k' xPendingReadyList = rest"
    "unblocks k k'" "resume_frame k k'"
    "uxSchedulerSuspended k' = uxSchedulerSuspended k" "xPendedTicks k' = xPendedTicks k"
    "xTickCount k' = xTickCount k" "pendSV k' = pendSV k"
    "xYieldPending k' \<longleftrightarrow> xYieldPending k \<or> prio k t > prio k (pxCurrentTCB k)"
    "\<And>j. owner j \<noteq> t \<Longrightarrow> container k' j = container k j"
proof -
  note D = core_invD [OF inv]
  have ci: "container k i = Some xPendingReadyList" using lists_ok_mem [OF D(1), of i xPendingReadyList] h by simp
  then obtain t where t: "i = EventItem t" using D(2) [OF ci] by (cases i) auto
  have t0: "t \<noteq> 0" using D(3) [of i] ci t by (cases "t = 0") auto
  have b: "blocked k t" using D(11) [of t] ci t by auto
  then obtain l where l: "container k (StateItem t) = Some l" "l \<in> insert xSuspendedTaskList delayed_lists"
    by (auto simp: blocked_def)
  define k1 where "k1 = k\<lparr>lists := ls_del xPendingReadyList (EventItem t) (lists k)\<rparr>"
  have inv1: "sched_inv k1" unfolding k1_def by (rule core_inv_del_event [OF inv]) (use ci t in simp)
  have l1: "container k1 (StateItem t) = Some l" "container k1 (EventItem t) = None" using l by (simp_all add: k1_def)
  define k2 where "k2 = k1\<lparr>lists := ls_del l (StateItem t) (lists k1)\<rparr>"
  have inv2: "sched_inv k2" unfolding k2_def by (rule core_inv_del_state [OF inv1 l1(1)]) (use l l1 in auto)
  define k3 where "k3 = prvAddTaskToReadyList t k2"
  have inv3: "sched_inv k3"
    unfolding k3_def by (rule core_inv_add_ready [OF inv2 _ t0]) (use l1 in \<open>auto simp: k2_def\<close>)
  define k4 where "k4 = (if prio k t > prio k (pxCurrentTCB k) then k3\<lparr>xYieldPending := True\<rparr> else k3)"
  have pk: "tcb k2 = tcb k" "pxCurrentTCB k2 = pxCurrentTCB k" "tcb k3 = tcb k" "pxCurrentTCB k3 = pxCurrentTCB k"
    by (simp_all add: k3_def k2_def k1_def)
  show ?thesis
  proof (rule that [of t k4])
    show "pending_loop moved k = pending_loop True k4"
      using h t listREMOVE_ITEM_eq [of k "EventItem t" xPendingReadyList] ci listREMOVE_ITEM_eq [OF l1(1)] pk
      by (simp add: pending_loop.simps [of moved k] k1_def [symmetric] k2_def [symmetric] k3_def [symmetric] k4_def)
    show "sched_inv k4" using inv3 by (simp add: k4_def)
    show "items k4 xPendingReadyList = rest"
      using h t l by (auto simp: k4_def k3_def k2_def k1_def prvAddTaskToReadyList_def upd_lists_def ls_insert_end_def ls_del_def)
    show "unblocks k k4" using b by (auto simp: unblocks_def k4_def k3_def k2_def k1_def)
    show "resume_frame k k4" by (simp add: resume_frame_def k4_def k3_def k2_def k1_def)
  qed (use t ci in \<open>auto simp: k4_def k3_def k2_def k1_def\<close>)
qed

lemma pending_loop_inv:
  assumes "sched_inv k"
  obtains k' where "pending_loop moved k = Some (moved \<or> items k xPendingReadyList \<noteq> [], k')" "sched_inv k'"
    "items k' xPendingReadyList = []" "unblocks k k'" "resume_frame k k'"
    "uxSchedulerSuspended k' = uxSchedulerSuspended k" "xPendedTicks k' = xPendedTicks k"
    "xTickCount k' = xTickCount k" "pendSV k' = pendSV k"
    "xYieldPending k' \<longleftrightarrow> xYieldPending k \<or> (\<exists>t. EventItem t \<in> set (items k xPendingReadyList) \<and> prio k t > prio k (pxCurrentTCB k))"
    "\<And>t. container k (EventItem t) \<noteq> Some xPendingReadyList \<Longrightarrow>
       container k' (StateItem t) = container k (StateItem t) \<and> container k' (EventItem t) = container k (EventItem t)"
  using assms
proof (induction "items k xPendingReadyList" arbitrary: k moved thesis)
  case Nil
  then show ?case by (simp add: pending_loop.simps [of moved k])
next
  case (Cons i rest)
  have h: "items k xPendingReadyList = i # rest" using Cons.hyps(2) by simp
  obtain t k1 where k1: "i = EventItem t" "container k i = Some xPendingReadyList"
    "pending_loop moved k = pending_loop True k1" "sched_inv k1" "items k1 xPendingReadyList = rest"
    "unblocks k k1" "resume_frame k k1"
    "uxSchedulerSuspended k1 = uxSchedulerSuspended k" "xPendedTicks k1 = xPendedTicks k"
    "xTickCount k1 = xTickCount k" "pendSV k1 = pendSV k"
    "xYieldPending k1 \<longleftrightarrow> xYieldPending k \<or> prio k t > prio k (pxCurrentTCB k)"
    "\<And>j. owner j \<noteq> t \<Longrightarrow> container k1 j = container k j"
    by (rule pending_step [OF Cons.prems(2) h, of moved]) blast
  have f: "tcb k1 = tcb k" "pxCurrentTCB k1 = pxCurrentTCB k" using k1(7) by (simp_all add: resume_frame_def)
  obtain k' where k': "pending_loop True k1 = Some (True \<or> items k1 xPendingReadyList \<noteq> [], k')" "sched_inv k'"
    "items k' xPendingReadyList = []" "unblocks k1 k'" "resume_frame k1 k'"
    "uxSchedulerSuspended k' = uxSchedulerSuspended k1" "xPendedTicks k' = xPendedTicks k1"
    "xTickCount k' = xTickCount k1" "pendSV k' = pendSV k1"
    "xYieldPending k' \<longleftrightarrow> xYieldPending k1 \<or> (\<exists>t. EventItem t \<in> set (items k1 xPendingReadyList) \<and> prio k1 t > prio k1 (pxCurrentTCB k1))"
    "\<And>t. container k1 (EventItem t) \<noteq> Some xPendingReadyList \<Longrightarrow>
       container k' (StateItem t) = container k1 (StateItem t) \<and> container k' (EventItem t) = container k1 (EventItem t)"
    by (rule Cons.hyps(1) [OF k1(5) [symmetric] _ k1(4), of True]) blast
  have other: "container k' (StateItem u) = container k (StateItem u) \<and> container k' (EventItem u) = container k (EventItem u)"
    if "container k (EventItem u) \<noteq> Some xPendingReadyList" for u
  proof -
    have "u \<noteq> t" using that k1(1,2) by auto
    then show ?thesis using k'(11) [of u] k1(13) [of "EventItem u"] k1(13) [of "StateItem u"] that by simp
  qed
  show ?case
    by (rule Cons.prems(1) [of k'])
      (use h other k1(1-12) k'(1-10) f unblocks_trans [OF k1(6) k'(4) f(1)] resume_frame_trans [OF k1(7) k'(5)] in auto)
qed

lemma pended_loop_inv:
  assumes "sched_inv k" "uxSchedulerSuspended k = 0"
  obtains k' where "pended_loop n k = Some k'" "sched_inv k'" "unblocks k k'" "resume_frame k k'"
    "uxSchedulerSuspended k' = 0" "xPendedTicks k' = xPendedTicks k" "xTickCount k' = xTickCount k + of_nat n"
    "pendSV k' = pendSV k" "xYieldPending k \<Longrightarrow> xYieldPending k'"
  using assms
proof (induction n arbitrary: k thesis)
  case 0
  then show ?case by simp
next
  case (Suc n)
  obtain sw k1 where k1: "xTaskIncrementTick k = Some (sw, k1)" "sched_inv k1" "xTickCount k1 = xTickCount k + 1"
    "tick_frame k k1" "unblocks k k1" "xYieldPending k1 = xYieldPending k"
    by (rule xTaskIncrementTick_inv [OF Suc.prems(2,3)]) (use unblocks_tick in blast)
  define k2 where "k2 = (if sw then k1\<lparr>xYieldPending := True\<rparr> else k1)"
  have f: "tcb k1 = tcb k" "pxCurrentTCB k1 = pxCurrentTCB k" using k1(4) by (simp_all add: tick_frame_def)
  have inv2: "sched_inv k2" "uxSchedulerSuspended k2 = 0"
    using k1(2,4) Suc.prems(3) by (auto simp: k2_def tick_frame_def)
  obtain k' where k': "pended_loop n k2 = Some k'" "sched_inv k'" "unblocks k2 k'" "resume_frame k2 k'"
    "uxSchedulerSuspended k' = 0" "xPendedTicks k' = xPendedTicks k2" "xTickCount k' = xTickCount k2 + of_nat n"
    "pendSV k' = pendSV k2" "xYieldPending k2 \<Longrightarrow> xYieldPending k'"
    by (rule Suc.IH [OF _ inv2]) blast
  have "unblocks k1 k'" using k'(3) unblocks_same [of k1 k2] by (simp add: k2_def split: if_splits)
  then have "unblocks k k'" by (rule unblocks_trans [OF k1(5) _ f(1)])
  moreover have "resume_frame k k'"
    using k1(4) k'(4) by (auto simp: resume_frame_def tick_frame_def k2_def)
  moreover have "pended_loop (Suc n) k = Some k'" using k1(1) k'(1) by (simp add: k2_def)
  ultimately show ?case
    by (intro Suc.prems(1) [of k']) (use k1 k' in \<open>auto simp: k2_def tick_frame_def\<close>)
qed

lemma xTaskResumeAll_inv:
  assumes inv: "sched_inv k" and s: "uxSchedulerSuspended k = Suc 0" and n: "0 < uxCurrentNumberOfTasks k"
  obtains y k' where "xTaskResumeAll k = Some (y, k')" "sched_inv k'" "unblocks k k'" "resume_frame k k'"
    "uxSchedulerSuspended k' = 0" "xPendedTicks k' = 0" "xTickCount k' = xTickCount k + xPendedTicks k"
    "\<And>t. container k (EventItem t) = Some xPendingReadyList \<Longrightarrow>
       container k' (StateItem t) = Some (pxReadyTasksLists (prio k t))"
    "pendSV k' \<longleftrightarrow> y \<or> pendSV k" "y \<longleftrightarrow> xYieldPending k'" "xYieldPending k \<Longrightarrow> y"
    "\<And>t. xPendedTicks k = 0 \<Longrightarrow> container k (EventItem t) \<noteq> Some xPendingReadyList \<Longrightarrow>
       container k' (StateItem t) = container k (StateItem t) \<and> container k' (EventItem t) = container k (EventItem t)"
proof -
  define k0 where "k0 = k\<lparr>uxSchedulerSuspended := 0\<rparr>"
  have inv0: "sched_inv k0" using inv by (simp add: k0_def)
  obtain k1 where k1: "pending_loop False k0 = Some (False \<or> items k0 xPendingReadyList \<noteq> [], k1)" "sched_inv k1"
    "items k1 xPendingReadyList = []" "unblocks k0 k1" "resume_frame k0 k1"
    "uxSchedulerSuspended k1 = uxSchedulerSuspended k0" "xPendedTicks k1 = xPendedTicks k0"
    "xTickCount k1 = xTickCount k0" "pendSV k1 = pendSV k0"
    "xYieldPending k1 \<longleftrightarrow> xYieldPending k0 \<or> (\<exists>t. EventItem t \<in> set (items k0 xPendingReadyList) \<and> prio k0 t > prio k0 (pxCurrentTCB k0))"
    "\<And>t. container k0 (EventItem t) \<noteq> Some xPendingReadyList \<Longrightarrow>
       container k1 (StateItem t) = container k0 (StateItem t) \<and> container k1 (EventItem t) = container k0 (EventItem t)"
    by (rule pending_loop_inv [OF inv0]) blast
  define k2 where "k2 = (if items k0 xPendingReadyList \<noteq> [] then prvResetNextTaskUnblockTime k1 else k1)"
  have inv2: "sched_inv k2" using reset_next_unblock_inv [OF k1(2)] k1(2) by (simp add: k2_def)
  have s2: "uxSchedulerSuspended k2 = 0" using k1(6) by (simp add: k2_def k0_def prvResetNextTaskUnblockTime_def)
  have same2: "lists k2 = lists k1" "tcb k2 = tcb k1" "resume_frame k1 k2" "pendSV k2 = pendSV k1"
    "xPendedTicks k2 = xPendedTicks k" "xTickCount k2 = xTickCount k" "xYieldPending k2 = xYieldPending k1"
    using k1(7,8) by (simp_all add: k2_def prvResetNextTaskUnblockTime_def resume_frame_def k0_def)
  obtain k3 where k3: "pended_loop (unat (xPendedTicks k2)) k2 = Some k3" "sched_inv k3" "unblocks k2 k3"
    "resume_frame k2 k3" "uxSchedulerSuspended k3 = 0" "xPendedTicks k3 = xPendedTicks k2"
    "xTickCount k3 = xTickCount k2 + of_nat (unat (xPendedTicks k2))" "pendSV k3 = pendSV k2"
    "xYieldPending k2 \<Longrightarrow> xYieldPending k3"
    by (rule pended_loop_inv [OF inv2 s2]) blast
  define k4 where "k4 = k3\<lparr>xPendedTicks := 0\<rparr>"
  have p4: "(if xPendedTicks k2 > 0 then map_option (\<lambda>k. k\<lparr>xPendedTicks := 0\<rparr>) (pended_loop (unat (xPendedTicks k2)) k2)
      else Some k2) = Some k4"
    using k3(1,6) by (cases "xPendedTicks k2 = 0") (auto simp: k4_def word_gt_0)
  have run: "xTaskResumeAll k = Some (xYieldPending k4, if xYieldPending k4 then portYIELD k4 else k4)"
  proof -
    have "xTaskResumeAll k = do {
        k \<leftarrow> (if xPendedTicks k2 > 0 then map_option (\<lambda>k. k\<lparr>xPendedTicks := 0\<rparr>) (pended_loop (unat (xPendedTicks k2)) k2)
          else Some k2);
        if xYieldPending k then Some (True, portYIELD k) else Some (False, k) }"
      using s n k1(1) by (simp add: xTaskResumeAll_def k0_def [symmetric] k2_def Let_def) (simp add: k0_def)
    then show ?thesis unfolding p4 by simp
  qed
  have u01: "unblocks k k1" using k1(4) unblocks_same [of k0 k] by (simp add: k0_def)
  have t1: "tcb k1 = tcb k" using k1(5) by (simp add: resume_frame_def k0_def)
  have u13: "unblocks k1 k3" using k3(3) unblocks_same [of k2 k1] same2(1,2) by simp
  have u: "unblocks k k3" by (rule unblocks_trans [OF u01 u13 t1])
  have fr: "resume_frame k k3"
    using resume_frame_trans [OF resume_frame_trans [OF k1(5) same2(3)] k3(4)] by (simp add: resume_frame_def k0_def)
  have pend: "container k3 (StateItem t) = Some (pxReadyTasksLists (prio k t))"
    if "container k (EventItem t) = Some xPendingReadyList" for t
  proof -
    have "container k1 (EventItem t) \<noteq> Some xPendingReadyList"
      using lists_ok_nil [OF core_invD(1) [OF k1(2)]] k1(3) by metis
    then have "container k1 (StateItem t) = Some (pxReadyTasksLists (prio k t))"
      using u01 that unfolding unblocks_def by metis
    then show ?thesis by (rule unblocks_ready [OF u13])
  qed
  have nopend: "container k3 (StateItem t) = container k (StateItem t) \<and> container k3 (EventItem t) = container k (EventItem t)"
    if "xPendedTicks k = 0" "container k (EventItem t) \<noteq> Some xPendingReadyList" for t
  proof -
    have "k3 = k2" using k3(1) that(1) same2(5) by simp
    then show ?thesis using k1(11) [of t] that(2) same2(1) by (simp add: k0_def)
  qed
  show ?thesis
    by (rule that [OF run])
      (use k3 u fr pend nopend same2 k1(9,10) unblocks_def in
        \<open>auto simp: k4_def portYIELD_def resume_frame_def k0_def unblocks_def\<close>)
qed

section \<open>Choosing the next task\<close>

lemma vTaskSwitchContext_inv:
  assumes inv: "core_inv X strict k" and s: "uxSchedulerSuspended k = 0"
    and r: "container k (StateItem u) = Some (pxReadyTasksLists q)"
  obtains t k' where "vTaskSwitchContext k = Some k'" "k' = k\<lparr>xYieldPending := False, lists := lists k', pxCurrentTCB := t\<rparr>"
    "core_inv X strict k'" "running_ready k'" "\<And>i. container k' i = container k i" "liValue (lists k') = liValue (lists k)"
    "\<And>v p. container k (StateItem v) = Some (pxReadyTasksLists p) \<Longrightarrow> p \<le> prio k t"
    "lists k' = snd (ls_next_entry (pxReadyTasksLists (prio k t)) (lists k))"
    "fst (ls_next_entry (pxReadyTasksLists (prio k t)) (lists k)) = Some (StateItem t)"
proof -
  note D = core_invD [OF inv]
  have "bit (uxTopReadyPriority k) q" using D(7) [of q] r by blast
  then obtain p where p: "portGET_HIGHEST_PRIORITY (uxTopReadyPriority k) = Some p" "bit (uxTopReadyPriority k) p"
    "\<forall>m. bit (uxTopReadyPriority k) m \<longrightarrow> m \<le> p" using highest_priority_Some by blast
  let ?l = "pxReadyTasksLists p"
  have ne: "items k ?l \<noteq> []" using D(7) [of p] p(2) lists_ok_nil [OF D(1), of ?l] by auto
  obtain j where j: "j \<in> set (items k ?l)" "next_of (lsIndex (lists k) ?l) (items k ?l) = Some j"
    using next_of_in [OF ne] by blast
  have cj: "container k j = Some ?l" using lists_ok_mem [OF D(1)] j(1) by simp
  then obtain t where t: "j = StateItem t" using D(2) [OF cj] by (cases j) auto
  have pt: "prio k t = p" using D(6) cj t by simp
  have n: "ls_next_entry ?l (lists k) = (Some j, snd (ls_next_entry ?l (lists k)))"
    using j(2) by (simp add: ls_next_entry_def Let_def)
  define k' where "k' = k\<lparr>xYieldPending := False, lists := snd (ls_next_entry ?l (lists k)), pxCurrentTCB := t\<rparr>"
  have run: "vTaskSwitchContext k = Some k'"
    using s p(1) ne t by (simp add: vTaskSwitchContext_def taskSELECT_HIGHEST_PRIORITY_TASK_def k'_def)
      (subst n, simp)
  have "core_inv X strict (k\<lparr>lists := snd (ls_next_entry ?l (lists k))\<rparr>)"
    using inv lists_ok_next [OF D(1), of ?l] unfolding core_inv_def blocked_def
    by (elim conjE, intro conjI) simp_all
  moreover have "k' = (k\<lparr>lists := snd (ls_next_entry ?l (lists k))\<rparr>)\<lparr>xYieldPending := False, pxCurrentTCB := t\<rparr>"
    by (simp add: k'_def)
  ultimately have inv': "core_inv X strict k'" by simp
  show ?thesis
  proof (rule that [OF run _ inv', of t])
    show "running_ready k'" using cj t pt by (simp add: running_ready_def k'_def)
    show "m \<le> prio k t" if "container k (StateItem v) = Some (pxReadyTasksLists m)" for v m
      using p(3) D(7) [of m] that pt by blast
    show "fst (ls_next_entry (pxReadyTasksLists (prio k t)) (lists k)) = Some (StateItem t)"
      using n t pt by (metis fst_conv)
  qed (use pt in \<open>auto simp: k'_def\<close>)
qed

end
