(* ===== verification/FR_Scheduler.thy ===== *)
theory FR_Scheduler
  imports FR_Sched_Inv
begin

text \<open>
  The properties of the scheduler: selection by priority, round robin among equals, the tick with
  its wrap-around, delays, time-outs, resumption of the scheduler and priority inheritance.
\<close>

section \<open>Concrete states\<close>

text \<open>The state at reset, and a state with three ready tasks at the addresses 1000, 2000 and 3000.\<close>

definition boot_lists :: "(list_id, item) list_state" where
  "boot_lists = \<lparr>liValue = (\<lambda>_. 0), liContainer = (\<lambda>_. None), lsItems = (\<lambda>_. []), lsIndex = (\<lambda>_. None)\<rparr>"

definition boot_sched :: sched where
  "boot_sched = \<lparr>lists = boot_lists, tcb = (\<lambda>_. empty_TCB), heap = boot_heap 8, pxCurrentTCB = 0,
     pxDelayedTaskList = xDelayedTaskList1, pxOverflowDelayedTaskList = xDelayedTaskList2,
     uxDeletedTasksWaitingCleanUp = 0, uxCurrentNumberOfTasks = 0, xTickCount = 0, uxTopReadyPriority = 0,
     xSchedulerRunning = False, xPendedTicks = 0, xYieldPending = False, xNumOfOverflows = 0,
     uxTaskNumber = 0, xNextTaskUnblockTime = portMAX_DELAY, uxSchedulerSuspended = 0, pendSV = False\<rparr>"

lemma boot_sched_inv: "sched_inv boot_sched"
  by (auto simp: core_inv_def lists_ok_def ls_wf_def boot_sched_def boot_lists_def empty_TCB_def blocked_def
      configMAX_PRIORITIES_def)

definition demo_tcbs :: "addr \<Rightarrow> TCB_t" where
  "demo_tcbs = (\<lambda>_. empty_TCB)(1000 := empty_TCB\<lparr>uxPriority := 3, uxBasePriority := 3\<rparr>,
     2000 := empty_TCB\<lparr>uxPriority := 3, uxBasePriority := 3\<rparr>,
     3000 := empty_TCB\<lparr>uxPriority := 1, uxBasePriority := 1\<rparr>)"

definition demo :: sched where
  "demo = prvAddTaskToReadyList 3000 (prvAddTaskToReadyList 2000 (prvAddTaskToReadyList 1000
     (boot_sched\<lparr>tcb := demo_tcbs, pxCurrentTCB := 1000, uxCurrentNumberOfTasks := 3, xSchedulerRunning := True\<rparr>)))"

lemma demo_simps [simp]:
  "tcb demo = demo_tcbs" "pxCurrentTCB demo = 1000" "uxCurrentNumberOfTasks demo = 3" "xTickCount demo = 0"
  "uxSchedulerSuspended demo = 0" "xPendedTicks demo = 0" "xSchedulerRunning demo" "xYieldPending demo = False"
  "pxDelayedTaskList demo = xDelayedTaskList1" "pxOverflowDelayedTaskList demo = xDelayedTaskList2"
  "heap demo = boot_heap 8" "pendSV demo = False"
  by (simp_all add: demo_def boot_sched_def)

lemma demo_container [simp]:
  "container demo (StateItem t) = (if t = 1000 \<or> t = 2000 then Some (pxReadyTasksLists 3)
     else if t = 3000 then Some (pxReadyTasksLists 1) else None)"
  "container demo (EventItem t) = None"
  by (simp_all add: demo_def demo_tcbs_def boot_sched_def boot_lists_def empty_TCB_def)

lemma demo_inv: "sched_inv demo"
proof -
  have "sched_inv (boot_sched\<lparr>tcb := demo_tcbs\<rparr>)"
    using boot_sched_inv unfolding core_inv_def blocked_def
    by (elim conjE, intro conjI)
      (simp_all add: demo_tcbs_def empty_TCB_def configMAX_PRIORITIES_def boot_sched_def boot_lists_def)
  then have "sched_inv (boot_sched\<lparr>tcb := demo_tcbs, pxCurrentTCB := 1000, uxCurrentNumberOfTasks := 3, xSchedulerRunning := True\<rparr>)"
    by simp
  then show ?thesis unfolding demo_def
    by (intro core_inv_add_ready) (auto simp: boot_sched_def boot_lists_def)
qed

lemma demo_running: "running_ready demo"
  by (simp add: running_ready_def demo_tcbs_def)

lemma demo_ready_list: "items demo (pxReadyTasksLists 3) = [StateItem 1000, StateItem 2000]"
  by (simp add: demo_def boot_sched_def boot_lists_def prvAddTaskToReadyList_def upd_lists_def ls_insert_end_def
      demo_tcbs_def empty_TCB_def)

section \<open>Properties\<close>

text \<open>
  C3: Fixed-priority preemptive scheduling. With the scheduler not suspended and some task ready,
  \<^verbatim>\<open>vTaskSwitchContext\<close> returns (the assertion that the chosen ready list is not empty never fires),
  the selected task is ready, no ready task has a higher priority, no task changes list and the
  scheduler invariant is kept. The bitmap with the CLZ instruction thus selects what a search of all
  ready lists would.
\<close>

theorem switch_selects_highest:
  assumes "sched_inv k" "uxSchedulerSuspended k = 0" "container k (StateItem u) = Some (pxReadyTasksLists q)"
  shows "\<exists>k'. vTaskSwitchContext k = Some k' \<and> sched_inv k' \<and> running_ready k' \<and>
    (\<forall>t p. container k (StateItem t) = Some (pxReadyTasksLists p) \<longrightarrow> prio k t \<le> prio k' (pxCurrentTCB k')) \<and>
    (\<forall>i. container k' i = container k i) \<and> \<not> xYieldPending k'"
proof -
  obtain t k' where k': "vTaskSwitchContext k = Some k'" "k' = k\<lparr>xYieldPending := False, lists := lists k', pxCurrentTCB := t\<rparr>"
    "sched_inv k'" "running_ready k'" "\<And>i. container k' i = container k i"
    "\<And>v p. container k (StateItem v) = Some (pxReadyTasksLists p) \<Longrightarrow> p \<le> prio k t"
    by (rule vTaskSwitchContext_inv [OF assms]) blast
  have "tcb k' = tcb k" "pxCurrentTCB k' = t" "\<not> xYieldPending k'" by (subst k'(2), simp)+
  then show ?thesis using k' core_invD(6) [OF assms(1)] by metis
qed

theorem switch_selects_highest_witness:
  "\<exists>k'. vTaskSwitchContext demo = Some k' \<and> running_ready k' \<and> prio k' (pxCurrentTCB k') = 3"
proof -
  obtain k' where k': "vTaskSwitchContext demo = Some k'" "sched_inv k'" "running_ready k'"
    "\<forall>t p. container demo (StateItem t) = Some (pxReadyTasksLists p) \<longrightarrow> prio demo t \<le> prio k' (pxCurrentTCB k')"
    "\<forall>i. container k' i = container demo i"
    using switch_selects_highest [OF demo_inv, of 1000 3] by auto
  have "container demo (StateItem (pxCurrentTCB k')) = Some (pxReadyTasksLists (prio k' (pxCurrentTCB k')))"
    using k'(3,5) by (simp add: running_ready_def)
  moreover have "3 \<le> prio k' (pxCurrentTCB k')"
    using spec [OF k'(4), of 1000] by (simp add: demo_tcbs_def)
  ultimately have "prio k' (pxCurrentTCB k') = 3" by (auto split: if_splits)
  then show ?thesis using k' by blast
qed

text \<open>
  C6: The tick wakes exactly the tasks that are due. With the scheduler not suspended,
  \<^verbatim>\<open>xTaskIncrementTick\<close> returns for every tick count, also at the wrap from 0xffffffff to 0, where the
  delayed lists are exchanged and the assertion that the old one is empty never fires; a delayed task
  whose wake time is the new tick count moves to its ready list and leaves its event list, every
  other task stays where it is; a switch is requested exactly when a woken task outranks the running
  one, another task of the running priority is ready, or a yield was pending.
\<close>

theorem tick_wakes_due_tasks:
  assumes "sched_inv k" "uxSchedulerSuspended k = 0"
  shows "\<exists>sw k'. xTaskIncrementTick k = Some (sw, k') \<and> sched_inv k' \<and> xTickCount k' = xTickCount k + 1 \<and>
    (\<forall>t. container k' (StateItem t) =
       (if wakes k t then Some (pxReadyTasksLists (prio k t)) else container k (StateItem t)) \<and>
       container k' (EventItem t) = (if wakes k t then None else container k (EventItem t))) \<and>
    (sw \<longleftrightarrow> (\<exists>t. wakes k t \<and> prio k t > prio k (pxCurrentTCB k)) \<or>
       length (items k' (pxReadyTasksLists (prio k (pxCurrentTCB k)))) > 1 \<or> xYieldPending k)"
  by (rule xTaskIncrementTick_inv [OF assms]) auto

theorem tick_wakes_due_tasks_witness:
  "\<exists>sw k'. xTaskIncrementTick demo = Some (sw, k') \<and> sched_inv k' \<and> xTickCount k' = 1"
  using tick_wakes_due_tasks [OF demo_inv] by auto

section \<open>Delays\<close>

text \<open>A run of \<open>n\<close> ticks.\<close>

fun ticks :: "nat \<Rightarrow> 'a sched_scheme \<Rightarrow> 'a sched_scheme option" where
  "ticks 0 k = Some k"
| "ticks (Suc n) k = do { (sw, k) \<leftarrow> xTaskIncrementTick k; ticks n k }"

text \<open>How many ticks a delayed task still has to wait, on the circle of tick counts.\<close>

definition left_to_wait :: "'a sched_scheme \<Rightarrow> addr \<Rightarrow> nat" where
  "left_to_wait k t = unat (wake k t - xTickCount k)"

definition delayed :: "'a sched_scheme \<Rightarrow> addr \<Rightarrow> bool" where
  "delayed k t \<longleftrightarrow> (\<exists>l \<in> delayed_lists. container k (StateItem t) = Some l)"

lemma wakes_iff:
  assumes "delayed k t"
  shows "wakes k t \<longleftrightarrow> left_to_wait k t = 1"
proof -
  have "wake k t = xTickCount k + 1 \<longleftrightarrow> wake k t - xTickCount k = 1" by (simp add: diff_eq_eq add.commute)
  also have "\<dots> \<longleftrightarrow> left_to_wait k t = 1" by (simp add: left_to_wait_def word_unat_eq_iff)
  finally show ?thesis using assms by (simp add: wakes_def delayed_def)
qed

lemma tick_step:
  fixes k :: "'a sched_scheme"
  assumes "sched_inv k" "uxSchedulerSuspended k = 0" "delayed k t" "0 < left_to_wait k t"
  obtains sw k' where "xTaskIncrementTick k = Some (sw, k')" "sched_inv k'" "uxSchedulerSuspended k' = 0"
    "tcb k' = tcb k" "left_to_wait k' t = left_to_wait k t - 1"
    "left_to_wait k t = 1 \<Longrightarrow> container k' (StateItem t) = Some (pxReadyTasksLists (prio k t))"
    "left_to_wait k t \<noteq> 1 \<Longrightarrow> delayed k' t"
proof (rule xTaskIncrementTick_inv [OF assms(1,2)])
  fix k' :: "'a sched_scheme"
  let ?sw = "(\<exists>t. wakes k t \<and> prio k (pxCurrentTCB k) < prio k t) \<or>
      1 < length (items k' (pxReadyTasksLists (prio k (pxCurrentTCB k)))) \<or> xYieldPending k"
  assume r: "xTaskIncrementTick k = Some (?sw, k')" "sched_inv k'" "xTickCount k' = xTickCount k + 1" "tick_frame k k'"
    "\<And>t. container k' (StateItem t) = (if wakes k t then Some (pxReadyTasksLists (prio k t)) else container k (StateItem t))"
  have w: "wake k' t = wake k t" using r(4) by (simp add: tick_frame_def)
  have "wake k t - xTickCount k \<noteq> 0" using assms(4) by (auto simp: left_to_wait_def)
  then have "left_to_wait k' t = left_to_wait k t - 1"
    unfolding left_to_wait_def w r(3) using unat_minus_one [of "wake k t - xTickCount k"]
    by (simp add: diff_diff_eq)
  then show thesis
    using that [of ?sw k'] r assms(2) wakes_iff [OF assms(3)] assms(3)
    by (auto simp: tick_frame_def delayed_def)
qed

lemma ticks_wait:
  assumes "sched_inv k" "uxSchedulerSuspended k = 0" "delayed k t" "m < left_to_wait k t"
  shows "\<exists>k'. ticks m k = Some k' \<and> delayed k' t"
    and "left_to_wait k t = Suc m \<Longrightarrow>
      \<exists>k'. ticks (Suc m) k = Some k' \<and> container k' (StateItem t) = Some (pxReadyTasksLists (prio k t))"
proof -
  have "(\<exists>k'. ticks m k = Some k' \<and> delayed k' t) \<and> (left_to_wait k t = Suc m \<longrightarrow>
      (\<exists>k'. ticks (Suc m) k = Some k' \<and> container k' (StateItem t) = Some (pxReadyTasksLists (prio k t))))"
    using assms
  proof (induction m arbitrary: k)
    case 0
    obtain sw k' where "xTaskIncrementTick k = Some (sw, k')"
      "left_to_wait k t = 1 \<Longrightarrow> container k' (StateItem t) = Some (pxReadyTasksLists (prio k t))"
      by (rule tick_step [OF 0]) blast
    then show ?case using 0 by auto
  next
    case (Suc m)
    have pos: "0 < left_to_wait k t" using Suc.prems(4) by simp
    obtain sw k' where k': "xTaskIncrementTick k = Some (sw, k')" "sched_inv k'" "uxSchedulerSuspended k' = 0"
      "tcb k' = tcb k" "left_to_wait k' t = left_to_wait k t - 1" "left_to_wait k t \<noteq> 1 \<Longrightarrow> delayed k' t"
      by (rule tick_step [OF Suc.prems(1-3) pos]) blast
    have "delayed k' t" "m < left_to_wait k' t" using k'(5,6) Suc.prems(4) by auto
    then have "(\<exists>k''. ticks m k' = Some k'' \<and> delayed k'' t) \<and> (left_to_wait k' t = Suc m \<longrightarrow>
      (\<exists>k''. ticks (Suc m) k' = Some k'' \<and> container k'' (StateItem t) = Some (pxReadyTasksLists (prio k' t))))"
      using Suc.IH k'(2,3) by blast
    then show ?case using k'(1,4,5) by (simp only: ticks.simps(2) [of "Suc m" k] ticks.simps(2) [of m k]) auto
  qed
  then show "\<exists>k'. ticks m k = Some k' \<and> delayed k' t"
    "left_to_wait k t = Suc m \<Longrightarrow>
      \<exists>k'. ticks (Suc m) k = Some k' \<and> container k' (StateItem t) = Some (pxReadyTasksLists (prio k t))" by blast+
qed

text \<open>What \<^verbatim>\<open>vTaskDelay\<close> does up to the yield.\<close>

lemma vTaskDelay_blocks:
  assumes inv: "sched_inv k" and rr: "running_ready k" and s: "uxSchedulerSuspended k = 0" "xPendedTicks k = 0"
    and n: "0 < uxCurrentNumberOfTasks k" and w: "w \<noteq> 0"
  obtains k' where "vTaskDelay w k = Some k'" "sched_inv k'" "uxSchedulerSuspended k' = 0" "pendSV k'"
    "delayed k' (pxCurrentTCB k)" "left_to_wait k' (pxCurrentTCB k) = unat w" "prio k' = prio k"
    "pxCurrentTCB k' = pxCurrentTCB k"
proof -
  let ?c = "pxCurrentTCB k"
  define k0 where "k0 = vTaskSuspendAll k"
  have inv0: "sched_inv k0" using inv by (simp add: k0_def vTaskSuspendAll_def)
  have rr0: "running_ready k0" using rr by (simp add: k0_def vTaskSuspendAll_def running_ready_def)
  have k0: "pxCurrentTCB k0 = ?c" "xTickCount k0 = xTickCount k" "tcb k0 = tcb k" "uxSchedulerSuspended k0 = 1"
    "xPendedTicks k0 = 0" "uxCurrentNumberOfTasks k0 = uxCurrentNumberOfTasks k"
    using s by (simp_all add: k0_def vTaskSuspendAll_def)
  obtain s1 b m k1 where k1:
    "k1 = upd_tcb (pxCurrentTCB k0) (\<lambda>t. t\<lparr>ucDelayAborted := False\<rparr>)
        (k0\<lparr>lists := s1, uxTopReadyPriority := b, xNextTaskUnblockTime := m\<rparr>)"
    "prvAddCurrentTaskToDelayedList w False k0 = Some k1" "sched_inv k1"
    "\<And>i. i \<noteq> StateItem (pxCurrentTCB k0) \<Longrightarrow> container k1 i = container k0 i"
    "wake k1 ?c = xTickCount k + w \<and> container k1 (StateItem ?c) =
         Some (if xTickCount k0 + w < xTickCount k0 then pxOverflowDelayedTaskList k0 else pxDelayedTaskList k0)"
    by (rule prvAddCurrentTaskToDelayedList_inv [OF inv0 rr0 w, of False]) (use k0 in auto)
  have f1: "pxCurrentTCB k1 = ?c" "xTickCount k1 = xTickCount k" "prio k1 = prio k" "uxSchedulerSuspended k1 = Suc 0"
    "xPendedTicks k1 = 0" "0 < uxCurrentNumberOfTasks k1"
    using k0 n by (auto simp: k1(1))
  have ev: "container k1 (EventItem ?c) \<noteq> Some xPendingReadyList"
    using core_invD(11) [OF inv0, of ?c] k1(4) [of "EventItem ?c"] rr0 k0
    by (auto simp: running_ready_def blocked_def)
  obtain y k2 where k2: "xTaskResumeAll k1 = Some (y, k2)" "sched_inv k2" "resume_frame k1 k2"
    "uxSchedulerSuspended k2 = 0" "xTickCount k2 = xTickCount k1 + xPendedTicks k1" "pendSV k2 \<longleftrightarrow> y \<or> pendSV k1"
    "\<And>t. xPendedTicks k1 = 0 \<Longrightarrow> container k1 (EventItem t) \<noteq> Some xPendingReadyList \<Longrightarrow>
       container k2 (StateItem t) = container k1 (StateItem t) \<and> container k2 (EventItem t) = container k1 (EventItem t)"
    by (rule xTaskResumeAll_inv [OF k1(3) f1(4,6)]) blast
  have "delayed k2 ?c"
    using k2(7) [OF f1(5) ev] k1(5) core_invD(8) [OF inv0] by (auto simp: delayed_def doubleton_eq_iff)
  moreover have "wake k2 ?c = xTickCount k + w" using k2(3) k1(5) by (simp add: resume_frame_def)
  then have "left_to_wait k2 ?c = unat w" using k2(5) f1(2,5) by (simp add: left_to_wait_def)
  moreover define k3 where "k3 = (if y then k2 else portYIELD k2)"
  have run: "vTaskDelay w k = Some k3"
    using w k0(4) k1(2) k2(1) by (simp add: vTaskDelay_def k0_def [symmetric] word_gt_0 Let_def k3_def)
  have f3: "lists k3 = lists k2" "xTickCount k3 = xTickCount k2" "sched_inv k3" "pendSV k3" "uxSchedulerSuspended k3 = 0"
    "pxCurrentTCB k3 = ?c" "prio k3 = prio k"
    using k2(2-4,6) f1(1,3) by (auto simp: k3_def portYIELD_def resume_frame_def)
  ultimately show ?thesis
    by (intro that [OF run]) (simp_all add: delayed_def left_to_wait_def f3(1,2,6) f3(3-5,7))
qed

text \<open>
  C15: A delay lasts exactly the number of ticks asked for. When the running task calls
  \<^verbatim>\<open>vTaskDelay( n )\<close> with \<open>n > 0\<close>, the call blocks it and requests a switch; for every \<open>m < n\<close> it is
  still in a delayed list after \<open>m\<close> ticks, and after \<open>n\<close> ticks it is in the ready list of its
  priority, whatever the tick count was, so also across the wrap of the 32-bit counter.
\<close>

theorem delay_exact:
  assumes "sched_inv k" "running_ready k" "uxSchedulerSuspended k = 0" "xPendedTicks k = 0"
    "0 < uxCurrentNumberOfTasks k" "n \<noteq> 0"
  shows "\<exists>k0. vTaskDelay n k = Some k0 \<and> sched_inv k0 \<and> pendSV k0 \<and>
    (\<forall>m < unat n. \<exists>k'. ticks m k0 = Some k' \<and> delayed k' (pxCurrentTCB k)) \<and>
    (\<exists>k'. ticks (unat n) k0 = Some k' \<and>
       container k' (StateItem (pxCurrentTCB k)) = Some (pxReadyTasksLists (prio k (pxCurrentTCB k))))"
proof -
  obtain k0 where k0: "vTaskDelay n k = Some k0" "sched_inv k0" "uxSchedulerSuspended k0 = 0" "pendSV k0"
    "delayed k0 (pxCurrentTCB k)" "left_to_wait k0 (pxCurrentTCB k) = unat n" "prio k0 = prio k"
    by (rule vTaskDelay_blocks [OF assms]) blast
  obtain m where m: "unat n = Suc m" using assms(6) by (cases "unat n") (auto simp: unat_eq_zero)
  have "\<exists>k'. ticks (unat n) k0 = Some k' \<and>
      container k' (StateItem (pxCurrentTCB k)) = Some (pxReadyTasksLists (prio k (pxCurrentTCB k)))"
    using ticks_wait(2) [OF k0(2,3,5), of m] k0(6) m fun_cong [OF k0(7), of "pxCurrentTCB k"] by simp
  then show ?thesis using k0 ticks_wait(1) [OF k0(2,3,5)] by auto
qed

theorem delay_exact_witness:
  "\<exists>k0 k'. vTaskDelay 5 demo = Some k0 \<and> ticks 5 k0 = Some k' \<and>
     container k' (StateItem 1000) = Some (pxReadyTasksLists 3)"
  using delay_exact [OF demo_inv demo_running, of 5] by (auto simp: demo_tcbs_def)

section \<open>Resuming, time slicing, time-outs\<close>

text \<open>
  Nothing is lost while the scheduler is suspended. \<^verbatim>\<open>xTaskResumeAll\<close> at the outermost level
  returns with the invariant kept; the tick count has advanced by all the ticks that were pended and
  none is left; every task that an interrupt or another call parked in the pending ready list is in
  its ready list; ready tasks stay ready; and it yields exactly when a switch is pending.
\<close>

theorem resume_all_catches_up:
  assumes "sched_inv k" "uxSchedulerSuspended k = Suc 0" "0 < uxCurrentNumberOfTasks k"
  shows "\<exists>y k'. xTaskResumeAll k = Some (y, k') \<and> sched_inv k' \<and> uxSchedulerSuspended k' = 0 \<and>
    xPendedTicks k' = 0 \<and> xTickCount k' = xTickCount k + xPendedTicks k \<and>
    (\<forall>t. container k (EventItem t) = Some xPendingReadyList \<longrightarrow>
       container k' (StateItem t) = Some (pxReadyTasksLists (prio k t))) \<and>
    (\<forall>t p. container k (StateItem t) = Some (pxReadyTasksLists p) \<longrightarrow>
       container k' (StateItem t) = Some (pxReadyTasksLists p)) \<and>
    (y \<longleftrightarrow> xYieldPending k') \<and> (xYieldPending k \<longrightarrow> y) \<and> (y \<longrightarrow> pendSV k')"
  by (rule xTaskResumeAll_inv [OF assms]) (use unblocks_ready in blast)

theorem resume_all_catches_up_witness:
  "\<exists>y k'. xTaskResumeAll (demo\<lparr>uxSchedulerSuspended := Suc 0, xPendedTicks := 7\<rparr>) = Some (y, k') \<and>
     xTickCount k' = 7 \<and> xPendedTicks k' = 0"
  using resume_all_catches_up [of "demo\<lparr>uxSchedulerSuspended := Suc 0, xPendedTicks := 7\<rparr>"] demo_inv by auto

text \<open>The tasks selected by \<open>n\<close> successive context switches.\<close>

fun switches :: "nat \<Rightarrow> 'a sched_scheme \<Rightarrow> (addr list \<times> 'a sched_scheme) option" where
  "switches 0 k = Some ([], k)"
| "switches (Suc n) k = do {
     k \<leftarrow> vTaskSwitchContext k;
     (ts, k') \<leftarrow> switches n k;
     Some (pxCurrentTCB k # ts, k')
   }"

text \<open>One switch, when the ready list of the highest priority has the items \<open>xs\<close>.\<close>

lemma switch_next:
  assumes inv: "sched_inv k" and s: "uxSchedulerSuspended k = 0" and xs: "items k (pxReadyTasksLists p) = xs" "xs \<noteq> []"
    and top: "\<forall>v q. container k (StateItem v) = Some (pxReadyTasksLists q) \<longrightarrow> q \<le> p"
  obtains k' where "vTaskSwitchContext k = Some k'" "sched_inv k'" "uxSchedulerSuspended k' = 0"
    "items k' (pxReadyTasksLists p) = xs" "\<And>i. container k' i = container k i"
    "next_of (lsIndex (lists k) (pxReadyTasksLists p)) xs = Some (StateItem (pxCurrentTCB k'))"
    "lsIndex (lists k') (pxReadyTasksLists p) = Some (StateItem (pxCurrentTCB k'))"
proof -
  note D = core_invD [OF inv]
  obtain j js where j: "xs = j # js" using xs(2) by (cases xs) auto
  have cj: "container k j = Some (pxReadyTasksLists p)" using lists_ok_mem [OF D(1)] xs j by (metis list.set_intros(1))
  then obtain u where u: "j = StateItem u" using D(2) [OF cj] by (cases j) auto
  obtain t k' where k': "vTaskSwitchContext k = Some k'" "k' = k\<lparr>xYieldPending := False, lists := lists k', pxCurrentTCB := t\<rparr>"
    "sched_inv k'" "running_ready k'" "\<And>i. container k' i = container k i"
    "\<And>v q. container k (StateItem v) = Some (pxReadyTasksLists q) \<Longrightarrow> q \<le> prio k t"
    "lists k' = snd (ls_next_entry (pxReadyTasksLists (prio k t)) (lists k))"
    "fst (ls_next_entry (pxReadyTasksLists (prio k t)) (lists k)) = Some (StateItem t)"
    by (rule vTaskSwitchContext_inv [OF inv s cj [unfolded u]]) blast
  have f: "pxCurrentTCB k' = t" "tcb k' = tcb k" "uxSchedulerSuspended k' = 0" by (subst k'(2), simp add: s)+
  have "container k (StateItem t) = Some (pxReadyTasksLists (prio k t))"
    using k'(4,5) f by (simp add: running_ready_def)
  then have "prio k t = p" using top k'(6) cj u by (metis order_antisym)
  then show ?thesis using k' f xs by (intro that [of k']) (auto simp: ls_next_entry_def Let_def)
qed

lemma switches_from:
  assumes "sched_inv k" "uxSchedulerSuspended k = 0" "items k (pxReadyTasksLists p) = xs" "xs \<noteq> []" "i < length xs"
    "\<forall>v q. container k (StateItem v) = Some (pxReadyTasksLists q) \<longrightarrow> q \<le> p"
    "next_of (lsIndex (lists k) (pxReadyTasksLists p)) xs = Some (xs ! i)"
  shows "\<exists>k'. switches n k = Some (map (\<lambda>j. owner (xs ! ((i + j) mod length xs))) [0..<n], k')"
  using assms
proof (induction n arbitrary: k i)
  case (Suc n)
  obtain k' where k': "vTaskSwitchContext k = Some k'" "sched_inv k'" "uxSchedulerSuspended k' = 0"
    "items k' (pxReadyTasksLists p) = xs" "\<And>i. container k' i = container k i"
    "next_of (lsIndex (lists k) (pxReadyTasksLists p)) xs = Some (StateItem (pxCurrentTCB k'))"
    "lsIndex (lists k') (pxReadyTasksLists p) = Some (StateItem (pxCurrentTCB k'))"
    by (rule switch_next [OF Suc.prems(1-4) Suc.prems(6)]) blast
  have cur: "xs ! i = StateItem (pxCurrentTCB k')" using k'(6) Suc.prems(7) by simp
  have "distinct xs" using core_invD(1) [OF Suc.prems(1)] Suc.prems(3) by (auto simp: lists_ok_def ls_wf_def)
  then have nx: "next_of (lsIndex (lists k') (pxReadyTasksLists p)) xs = Some (xs ! (Suc i mod length xs))"
    unfolding k'(7) cur [symmetric] by (rule next_of_nth [OF _ Suc.prems(5)])
  have "Suc i mod length xs < length xs" using Suc.prems(4) by simp
  then obtain k'' where "switches n k' = Some (map (\<lambda>j. owner (xs ! ((Suc i mod length xs + j) mod length xs))) [0..<n], k'')"
    using Suc.IH [OF k'(2-4) Suc.prems(4) _ _ nx] k'(5) Suc.prems(6) by auto
  moreover have "map (\<lambda>j. owner (xs ! ((i + j) mod length xs))) [0..<Suc n] =
      owner (xs ! i) # map (\<lambda>j. owner (xs ! ((Suc i mod length xs + j) mod length xs))) [0..<n]"
    using Suc.prems(5) by (simp add: map_upt_Suc mod_add_left_eq [of "Suc i"] del: upt_Suc)
  ultimately show ?case using k'(1) cur by simp
qed simp

text \<open>
  C35: Tasks of equal priority share the processor in turn. If the highest ready priority has \<open>n\<close>
  ready tasks, the next \<open>n\<close> context switches (as at \<open>n\<close> successive time slices) select each of them
  exactly once.
\<close>

theorem time_slicing_fair:
  assumes "sched_inv k" "uxSchedulerSuspended k = 0" "items k (pxReadyTasksLists p) \<noteq> []"
    "\<forall>v q. container k (StateItem v) = Some (pxReadyTasksLists q) \<longrightarrow> q \<le> p"
  shows "\<exists>ts k'. switches (length (items k (pxReadyTasksLists p))) k = Some (ts, k') \<and> distinct ts \<and>
    set ts = {t. container k (StateItem t) = Some (pxReadyTasksLists p)}"
proof -
  let ?xs = "items k (pxReadyTasksLists p)" and ?n = "length (items k (pxReadyTasksLists p))"
  note D = core_invD [OF assms(1)]
  obtain j where "j \<in> set ?xs" "next_of (lsIndex (lists k) (pxReadyTasksLists p)) ?xs = Some j"
    using next_of_in [OF assms(3)] by blast
  then obtain i where i: "i < ?n" "next_of (lsIndex (lists k) (pxReadyTasksLists p)) ?xs = Some (?xs ! i)"
    by (metis in_set_conv_nth)
  obtain k' where run: "switches ?n k = Some (map (\<lambda>j. owner (?xs ! ((i + j) mod ?n))) [0..<?n], k')"
    using switches_from [OF assms(1,2) refl assms(3) i(1) _ i(2), of ?n] assms(4) by blast
  have rot: "map (\<lambda>j. owner (?xs ! ((i + j) mod ?n))) [0..<?n] = map owner (rotate i ?xs)"
    by (rule nth_equalityI) (simp_all add: nth_rotate)
  have st: "\<exists>t. x = StateItem t" if "x \<in> set ?xs" for x
  proof -
    have "container k x = Some (pxReadyTasksLists p)" using that lists_ok_mem [OF D(1)] by simp
    then show ?thesis using D(2) [of x "pxReadyTasksLists p"] by (cases x) auto
  qed
  have "distinct ?xs" using D(1) by (auto simp: lists_ok_def ls_wf_def)
  moreover have "inj_on owner (set ?xs)" using st by (auto simp: inj_on_def dest!: st)
  ultimately have "distinct (map owner (rotate i ?xs))" by (simp add: distinct_map)
  moreover have "set (map owner (rotate i ?xs)) = {t. container k (StateItem t) = Some (pxReadyTasksLists p)}"
    using st lists_ok_mem [OF D(1)] by (auto simp: image_iff) (metis owner.simps(1))+
  ultimately show ?thesis using run rot by auto
qed

theorem time_slicing_fair_witness:
  "\<exists>ts k'. switches 2 demo = Some (ts, k') \<and> distinct ts \<and> set ts = {1000, 2000}"
proof -
  have "{t. container demo (StateItem t) = Some (pxReadyTasksLists 3)} = {1000, 2000}" by auto
  moreover have "\<forall>v q. container demo (StateItem v) = Some (pxReadyTasksLists q) \<longrightarrow> q \<le> 3" by auto
  ultimately show ?thesis using time_slicing_fair [OF demo_inv, of 3]
    by (simp add: demo_ready_list numeral_2_eq_2 del: switches.simps demo_container)
qed

text \<open>The check of a time-out, \<open>d\<close> ticks after its start.\<close>

lemma check_elapsed:
  fixes k :: "'a sched_scheme" and d :: nat
  assumes "\<not> ucDelayAborted (tcb k (pxCurrentTCB k))" "w \<noteq> portMAX_DELAY"
    and t: "xTickCount k = xTimeOnEntering to + of_nat d"
    and o: "xNumOfOverflows k = xOverflowCount to + of_nat ((unat (xTimeOnEntering to) + d) div 2 ^ 32)"
    and d: "unat (xTimeOnEntering to) + d < 2 ^ 33"
  shows "xTaskCheckForTimeOut to w k =
    (if d < unat w then (False, vTaskInternalSetTimeOutState k, w - of_nat d, k) else (True, to, 0, k))"
proof -
  let ?a = "xTimeOnEntering to"
  have a: "unat ?a < 2 ^ 32" using unsigned_less [of ?a] by simp
  have w: "unat w < 2 ^ 32" using unsigned_less [of w] by simp
  have now: "unat (xTickCount k) = (unat ?a + d) mod 2 ^ 32"
    unfolding t by (simp add: unat_word_ariths unat_of_nat mod_simps)
  have el: "xTickCount k - ?a = of_nat d" using t by simp
  have ab: "xTaskCheckForTimeOut to w k =
      (if xNumOfOverflows k \<noteq> xOverflowCount to \<and> xTickCount k \<ge> ?a then (True, to, 0, k)
       else if (of_nat d :: 32 word) < w then (False, vTaskInternalSetTimeOutState k, w - of_nat d, k)
       else (True, to, 0, k))"
    using assms(1,2) unfolding xTaskCheckForTimeOut_def Let_def el by simp
  show ?thesis
  proof (cases "unat ?a + d < 2 ^ 32")
    case True
    then have "xNumOfOverflows k = xOverflowCount to" using o by simp
    moreover have "((of_nat d :: 32 word) < w) = (d < unat w)"
      using True by (simp add: word_less_nat_alt unat_of_nat)
    ultimately show ?thesis using ab by simp
  next
    case False
    then have q: "(unat ?a + d) div 2 ^ 32 = 1" "(unat ?a + d) mod 2 ^ 32 = unat ?a + d - 2 ^ 32"
      using d by (simp_all add: div_nat_eqI le_mod_geq)
    have ov: "xNumOfOverflows k \<noteq> xOverflowCount to" using o q(1) by simp
    have ge: "xTickCount k \<ge> ?a \<longleftrightarrow> 2 ^ 32 \<le> d"
      unfolding word_le_nat_alt now q(2) using False by auto
    show ?thesis
    proof (cases "2 ^ 32 \<le> d")
      case True
      then show ?thesis using ab ov ge w by simp
    next
      case dl: False
      then have "((of_nat d :: 32 word) < w) = (d < unat w)" by (simp add: word_less_nat_alt unat_of_nat)
      then show ?thesis using ab ge dl by simp
    qed
  qed
qed

text \<open>
  Time-outs are measured correctly. Let a time-out be started at tick \<open>a\<close> and checked \<open>d\<close> ticks
  later, with the overflow counter advanced once per wrap of the tick count. For a finite wait of \<open>w\<close>
  ticks and a caller whose delay was not aborted, \<^verbatim>\<open>xTaskCheckForTimeOut\<close> reports a time-out exactly when
  \<open>w \<le> d\<close>, and otherwise restarts with the \<open>w - d\<close> ticks that are left. This holds as long as the tick
  count has not gone twice through zero, the limit of the check against the overflow counter.
\<close>

theorem timeout_exact:
  fixes k :: "'a sched_scheme" and d :: nat
  assumes "\<not> ucDelayAborted (tcb k (pxCurrentTCB k))" "w \<noteq> portMAX_DELAY"
    and t: "xTickCount k = xTimeOnEntering to + of_nat d"
    and o: "xNumOfOverflows k = xOverflowCount to + of_nat ((unat (xTimeOnEntering to) + d) div 2 ^ 32)"
    and d: "unat (xTimeOnEntering to) + d < 2 ^ 33"
  shows "xTaskCheckForTimeOut to w k =
    (if d < unat w then (False, vTaskInternalSetTimeOutState k, w - of_nat d, k) else (True, to, 0, k))"
  by (rule check_elapsed [OF assms])

theorem timeout_exact_witness:
  "xTaskCheckForTimeOut \<lparr>xOverflowCount = 0, xTimeOnEntering = 0xfffffffe\<rparr> 5
      (demo\<lparr>xTickCount := 2, xNumOfOverflows := 1\<rparr>) =
    (False, \<lparr>xOverflowCount = 1, xTimeOnEntering = 2\<rparr>, 1, demo\<lparr>xTickCount := 2, xNumOfOverflows := 1\<rparr>)"
proof -
  have "\<not> ucDelayAborted (demo_tcbs 1000)" by (simp add: demo_tcbs_def empty_TCB_def)
  then show ?thesis
    using timeout_exact [of "demo\<lparr>xTickCount := 2, xNumOfOverflows := 1\<rparr>" 5
        "\<lparr>xOverflowCount = 0, xTimeOnEntering = 0xfffffffe\<rparr>" 4]
    by (simp add: portMAX_DELAY_def vTaskInternalSetTimeOutState_def)
qed

end
