(* ===== verification/FR_Queue.thy ===== *)
theory FR_Queue
  imports FR_Task_API
begin

text \<open>
  \<^verbatim>\<open>queue.c\<close>: queues, semaphores and mutexes, the queue registry and queue sets. The kernel state
  extends the scheduler's by the queue structures (by address) and the byte memory that holds queue
  storage and the callers' item buffers; the pointers \<^verbatim>\<open>pcHead\<close>, \<^verbatim>\<open>pcTail\<close>, \<^verbatim>\<open>pcWriteTo\<close> and
  \<^verbatim>\<open>pcReadFrom\<close> are addresses in it, and the union of \<^verbatim>\<open>QueuePointers_t\<close> and \<^verbatim>\<open>SemaphoreData_t\<close>
  is kept: \<open>xMutexHolder\<close> is the word of \<open>pcTail\<close>, \<open>uxRecursiveCallCount\<close> the word of \<open>pcReadFrom\<close>.

  A function that may block is a loop whose body is cut at the points where interrupts and other
  tasks may act: the critical section (\<open>_try\<close>), the part with the scheduler suspended and the queue
  locked (\<open>_wait\<close>), and the unlocking with the yield (\<open>_exit\<close>). The loop variables of the caller's
  stack frame are a \<open>wait_frame\<close>.
\<close>

section \<open>State\<close>

record Queue_t =
  pcHead :: addr
  pcWriteTo :: addr
  pcTail :: addr
  pcReadFrom :: addr
  uxMessagesWaiting :: nat
  uxLength :: nat
  uxItemSize :: nat
  cRxLock :: int
  cTxLock :: int
  ucStaticallyAllocated :: bool
  pxQueueSetContainer :: addr

abbreviation xMutexHolder :: "Queue_t \<Rightarrow> addr" where
  "xMutexHolder \<equiv> pcTail"

abbreviation uxRecursiveCallCount :: "Queue_t \<Rightarrow> nat" where
  "uxRecursiveCallCount \<equiv> pcReadFrom"

record kernel = sched +
  queues :: "addr \<Rightarrow> Queue_t"
  mem :: "addr \<Rightarrow> u8"
  xQueueRegistry :: "(string option \<times> addr) list"

datatype copy_position = queueSEND_TO_BACK | queueSEND_TO_FRONT | queueOVERWRITE

definition queueUNLOCKED :: int where
  "queueUNLOCKED = - 1"

definition queueLOCKED_UNMODIFIED :: int where
  "queueLOCKED_UNMODIFIED = 0"

definition queueINT8_MAX :: int where
  "queueINT8_MAX = 127"

definition sizeof_Queue :: nat where
  "sizeof_Queue = 84"

text \<open>\<^verbatim>\<open>uxQueueType\<close> is \<^verbatim>\<open>pcHead\<close>, and \<^verbatim>\<open>queueQUEUE_IS_MUTEX\<close> is NULL.\<close>

definition is_mutex :: "Queue_t \<Rightarrow> bool" where
  "is_mutex Q \<longleftrightarrow> pcHead Q = 0"

definition upd_queue :: "addr \<Rightarrow> (Queue_t \<Rightarrow> Queue_t) \<Rightarrow> 'a kernel_scheme \<Rightarrow> 'a kernel_scheme" where
  "upd_queue q f k = k\<lparr>queues := (queues k)(q := f (queues k q))\<rparr>"

text \<open>\<^verbatim>\<open>memcpy\<close>: the bytes at an address, and writing bytes to an address.\<close>

definition bytes_at :: "(addr \<Rightarrow> u8) \<Rightarrow> addr \<Rightarrow> nat \<Rightarrow> u8 list" where
  "bytes_at m a n = map m [a..<a + n]"

definition write_bytes :: "addr \<Rightarrow> u8 list \<Rightarrow> (addr \<Rightarrow> u8) \<Rightarrow> addr \<Rightarrow> u8" where
  "write_bytes a bs m = (\<lambda>x. if a \<le> x \<and> x < a + length bs then bs ! (x - a) else m x)"

text \<open>The four bytes of a pointer in memory, least significant first.\<close>

definition pointer_bytes :: "addr \<Rightarrow> u8 list" where
  "pointer_bytes q = map (\<lambda>i. of_nat (q div 256 ^ i)) [0..<4]"

definition bytes_pointer :: "u8 list \<Rightarrow> addr" where
  "bytes_pointer bs = foldr (\<lambda>b v. unat b + 256 * v) bs 0"

section \<open>Copying items\<close>

text \<open>
  The ring buffer part of \<^verbatim>\<open>prvCopyDataToQueue\<close> and \<^verbatim>\<open>prvCopyDataFromQueue\<close>, on the queue structure
  and the memory.
\<close>

definition copy_to_ring :: "copy_position \<Rightarrow> u8 list \<Rightarrow> Queue_t \<times> (addr \<Rightarrow> u8) \<Rightarrow> Queue_t \<times> (addr \<Rightarrow> u8)" where
  "copy_to_ring pos item = (\<lambda>(Q, m).
     (if pos = queueSEND_TO_BACK then
        let m = write_bytes (pcWriteTo Q) item m;
            w = pcWriteTo Q + uxItemSize Q;
            Q = Q\<lparr>pcWriteTo := (if w \<ge> pcTail Q then pcHead Q else w)\<rparr>
        in (Q\<lparr>uxMessagesWaiting := uxMessagesWaiting Q + 1\<rparr>, m)
      else
        let m = write_bytes (pcReadFrom Q) item m;
            below = pcReadFrom Q < pcHead Q + uxItemSize Q;
            Q = Q\<lparr>pcReadFrom := (if below then pcTail Q - uxItemSize Q else pcReadFrom Q - uxItemSize Q)\<rparr>;
            n = (if pos = queueOVERWRITE \<and> uxMessagesWaiting Q > 0
                 then uxMessagesWaiting Q - 1 else uxMessagesWaiting Q)
        in (Q\<lparr>uxMessagesWaiting := n + 1\<rparr>, m)))"

text \<open>\<^verbatim>\<open>prvCopyDataToQueue\<close>; the item is given by its bytes. Returns whether a yield is required.\<close>

definition prvCopyDataToQueue ::
  "addr \<Rightarrow> u8 list \<Rightarrow> copy_position \<Rightarrow> 'a kernel_scheme \<Rightarrow> (bool \<times> 'a kernel_scheme) option" where
  "prvCopyDataToQueue q item pos k =
     (if uxItemSize (queues k q) = 0 then do {
        let n = uxMessagesWaiting (queues k q);
        (y, k) \<leftarrow> (if is_mutex (queues k q) then do {
             (y, k) \<leftarrow> xTaskPriorityDisinherit (xMutexHolder (queues k q)) k;
             Some (y, upd_queue q (\<lambda>Q. Q\<lparr>pcTail := 0\<rparr>) k)
           } else Some (False, k));
        Some (y, upd_queue q (\<lambda>Q. Q\<lparr>uxMessagesWaiting := n + 1\<rparr>) k)
      }
      else (let (Q, m) = copy_to_ring pos item (queues k q, mem k)
            in Some (False, upd_queue q (\<lambda>_. Q) (k\<lparr>mem := m\<rparr>))))"

definition copy_from_ring :: "addr \<Rightarrow> Queue_t \<times> (addr \<Rightarrow> u8) \<Rightarrow> Queue_t \<times> (addr \<Rightarrow> u8)" where
  "copy_from_ring buf = (\<lambda>(Q, m).
     let r = pcReadFrom Q + uxItemSize Q;
         r = (if r \<ge> pcTail Q then pcHead Q else r)
     in (Q\<lparr>pcReadFrom := r\<rparr>, write_bytes buf (bytes_at m r (uxItemSize Q)) m))"

definition prvCopyDataFromQueue :: "addr \<Rightarrow> addr \<Rightarrow> 'a kernel_scheme \<Rightarrow> 'a kernel_scheme" where
  "prvCopyDataFromQueue q buf k =
     (if uxItemSize (queues k q) \<noteq> 0
      then let (Q, m) = copy_from_ring buf (queues k q, mem k) in upd_queue q (\<lambda>_. Q) (k\<lparr>mem := m\<rparr>)
      else k)"

section \<open>Waiting lists, locks and queue sets\<close>

text \<open>Wake the first task of a waiting list, if there is one.\<close>

definition wake_first :: "list_id \<Rightarrow> 'a sched_scheme \<Rightarrow> (bool \<times> 'a sched_scheme) option" where
  "wake_first l k = (if items k l \<noteq> [] then xTaskRemoveFromEventList l k else Some (False, k))"

definition prvLockQueue :: "addr \<Rightarrow> 'a kernel_scheme \<Rightarrow> 'a kernel_scheme" where
  "prvLockQueue q k = upd_queue q (\<lambda>Q.
     Q\<lparr>cRxLock := (if cRxLock Q = queueUNLOCKED then queueLOCKED_UNMODIFIED else cRxLock Q),
       cTxLock := (if cTxLock Q = queueUNLOCKED then queueLOCKED_UNMODIFIED else cTxLock Q)\<rparr>) k"

definition prvIncrementQueueTxLock :: "addr \<Rightarrow> 'a kernel_scheme \<Rightarrow> 'a kernel_scheme option" where
  "prvIncrementQueueTxLock q k =
     (let c = cTxLock (queues k q) in
      if unat (word_of_int c :: u32) < uxCurrentNumberOfTasks k then do {
        configASSERT (c \<noteq> queueINT8_MAX);
        Some (upd_queue q (\<lambda>Q. Q\<lparr>cTxLock := c + 1\<rparr>) k)
      } else Some k)"

definition prvIncrementQueueRxLock :: "addr \<Rightarrow> 'a kernel_scheme \<Rightarrow> 'a kernel_scheme option" where
  "prvIncrementQueueRxLock q k =
     (let c = cRxLock (queues k q) in
      if unat (word_of_int c :: u32) < uxCurrentNumberOfTasks k then do {
        configASSERT (c \<noteq> queueINT8_MAX);
        Some (upd_queue q (\<lambda>Q. Q\<lparr>cRxLock := c + 1\<rparr>) k)
      } else Some k)"

text \<open>
  \<^verbatim>\<open>prvNotifyQueueSetContainer\<close>: the handle of the member queue is written to the set's queue.
\<close>

definition prvNotifyQueueSetContainer :: "addr \<Rightarrow> 'a kernel_scheme \<Rightarrow> (bool \<times> 'a kernel_scheme) option" where
  "prvNotifyQueueSetContainer q k = do {
     let c = pxQueueSetContainer (queues k q);
     configASSERT (c \<noteq> 0);
     configASSERT (uxMessagesWaiting (queues k c) < uxLength (queues k c));
     let unlocked = (cTxLock (queues k c) = queueUNLOCKED);
     (y, k) \<leftarrow> prvCopyDataToQueue c (pointer_bytes q) queueSEND_TO_BACK k;
     if unlocked then do {
       (w, k) \<leftarrow> wake_first (xTasksWaitingToReceive c) k;
       Some (y \<or> w, k)
     } else do {
       k \<leftarrow> prvIncrementQueueTxLock c k;
       Some (y, k)
     }
   }"

text \<open>The two loops of \<^verbatim>\<open>prvUnlockQueue\<close>, for the number of items sent and received meanwhile.\<close>

fun unlock_tx_loop :: "nat \<Rightarrow> addr \<Rightarrow> 'a kernel_scheme \<Rightarrow> 'a kernel_scheme option" where
  "unlock_tx_loop 0 q k = Some k"
| "unlock_tx_loop (Suc n) q k =
     (if pxQueueSetContainer (queues k q) \<noteq> 0 then do {
        (w, k) \<leftarrow> prvNotifyQueueSetContainer q k;
        unlock_tx_loop n q (if w then vTaskMissedYield k else k)
      }
      else if items k (xTasksWaitingToReceive q) \<noteq> [] then do {
        (w, k) \<leftarrow> xTaskRemoveFromEventList (xTasksWaitingToReceive q) k;
        unlock_tx_loop n q (if w then vTaskMissedYield k else k)
      }
      else Some k)"

fun unlock_rx_loop :: "nat \<Rightarrow> addr \<Rightarrow> 'a kernel_scheme \<Rightarrow> 'a kernel_scheme option" where
  "unlock_rx_loop 0 q k = Some k"
| "unlock_rx_loop (Suc n) q k =
     (if items k (xTasksWaitingToSend q) \<noteq> [] then do {
        (w, k) \<leftarrow> xTaskRemoveFromEventList (xTasksWaitingToSend q) k;
        unlock_rx_loop n q (if w then vTaskMissedYield k else k)
      }
      else Some k)"

definition prvUnlockQueue :: "addr \<Rightarrow> 'a kernel_scheme \<Rightarrow> 'a kernel_scheme option" where
  "prvUnlockQueue q k = do {
     k \<leftarrow> unlock_tx_loop (nat (cTxLock (queues k q))) q k;
     let k = upd_queue q (\<lambda>Q. Q\<lparr>cTxLock := queueUNLOCKED\<rparr>) k;
     k \<leftarrow> unlock_rx_loop (nat (cRxLock (queues k q))) q k;
     Some (upd_queue q (\<lambda>Q. Q\<lparr>cRxLock := queueUNLOCKED\<rparr>) k)
   }"

section \<open>Creation and reset\<close>

definition yield_if :: "bool \<times> 'a sched_scheme \<Rightarrow> 'a sched_scheme" where
  "yield_if = (\<lambda>(w, k). if w then portYIELD k else k)"

definition xQueueGenericReset :: "addr \<Rightarrow> bool \<Rightarrow> 'a kernel_scheme \<Rightarrow> 'a kernel_scheme option" where
  "xQueueGenericReset q xNewQueue k = do {
     configASSERT (q \<noteq> 0);
     configASSERT (uxLength (queues k q) \<ge> 1 \<and> SIZE_MAX div uxLength (queues k q) \<ge> uxItemSize (queues k q));
     let k = upd_queue q (\<lambda>Q. Q\<lparr>pcTail := pcHead Q + uxLength Q * uxItemSize Q, uxMessagesWaiting := 0,
               pcWriteTo := pcHead Q, pcReadFrom := pcHead Q + (uxLength Q - 1) * uxItemSize Q,
               cRxLock := queueUNLOCKED, cTxLock := queueUNLOCKED\<rparr>) k;
     if \<not> xNewQueue then map_option yield_if (wake_first (xTasksWaitingToSend q) k)
     else Some (upd_lists (ls_init (xTasksWaitingToReceive q)) (upd_lists (ls_init (xTasksWaitingToSend q)) k))
   }"

definition prvInitialiseNewQueue ::
  "nat \<Rightarrow> nat \<Rightarrow> addr \<Rightarrow> addr \<Rightarrow> 'a kernel_scheme \<Rightarrow> 'a kernel_scheme option" where
  "prvInitialiseNewQueue uxQueueLength uxItemSize' storage q k = do {
     let k = upd_queue q (\<lambda>Q. Q\<lparr>pcHead := (if uxItemSize' = 0 then q else storage),
               uxLength := uxQueueLength, uxItemSize := uxItemSize'\<rparr>) k;
     k \<leftarrow> xQueueGenericReset q True k;
     Some (upd_queue q (\<lambda>Q. Q\<lparr>pxQueueSetContainer := 0\<rparr>) k)
   }"

definition xQueueGenericCreate :: "nat \<Rightarrow> nat \<Rightarrow> 'a kernel_scheme \<Rightarrow> (addr \<times> 'a kernel_scheme) option" where
  "xQueueGenericCreate uxQueueLength uxItemSize' k =
     (if uxQueueLength > 0 \<and> SIZE_MAX div uxQueueLength \<ge> uxItemSize' \<and>
         SIZE_MAX - sizeof_Queue \<ge> uxQueueLength * uxItemSize'
      then do {
        (q, k) \<leftarrow> pvPortMalloc (sizeof_Queue + uxQueueLength * uxItemSize') k;
        if q \<noteq> 0 then do {
          let k = upd_queue q (\<lambda>Q. Q\<lparr>ucStaticallyAllocated := False\<rparr>) k;
          k \<leftarrow> prvInitialiseNewQueue uxQueueLength uxItemSize' (q + sizeof_Queue) q k;
          Some (q, k)
        } else Some (0, k)
      }
      else do { configASSERT False; Some (0, k) })"

definition xQueueGenericCreateStatic ::
  "nat \<Rightarrow> nat \<Rightarrow> addr \<Rightarrow> addr \<Rightarrow> 'a kernel_scheme \<Rightarrow> (addr \<times> 'a kernel_scheme) option" where
  "xQueueGenericCreateStatic uxQueueLength uxItemSize' storage q k = do {
     configASSERT (q \<noteq> 0);
     configASSERT (uxQueueLength > 0 \<and> \<not> (storage \<noteq> 0 \<and> uxItemSize' = 0) \<and> \<not> (storage = 0 \<and> uxItemSize' \<noteq> 0));
     let k = upd_queue q (\<lambda>Q. Q\<lparr>ucStaticallyAllocated := True\<rparr>) k;
     k \<leftarrow> prvInitialiseNewQueue uxQueueLength uxItemSize' storage q k;
     Some (q, k)
   }"

text \<open>\<^verbatim>\<open>xQueueGenericGetStaticBuffers\<close>: the storage and the structure of a static queue.\<close>

definition xQueueGenericGetStaticBuffers :: "addr \<Rightarrow> 'a kernel_scheme \<Rightarrow> (addr \<times> addr) option option" where
  "xQueueGenericGetStaticBuffers q k = do {
     configASSERT (q \<noteq> 0);
     Some (if ucStaticallyAllocated (queues k q) then Some (pcHead (queues k q), q) else None)
   }"

section \<open>Sending\<close>

record wait_frame =
  xTicksToWait :: TickType_t
  xEntryTimeSet :: bool
  xTimeOut :: TimeOut_t
  xInheritanceOccurred :: bool

text \<open>The frame on entry; \<open>xTimeOut\<close> is not initialised and not read before it is set.\<close>

definition start_frame :: "TickType_t \<Rightarrow> wait_frame" where
  "start_frame w = \<lparr>xTicksToWait = w, xEntryTimeSet = False,
     xTimeOut = \<lparr>xOverflowCount = 0, xTimeOnEntering = 0\<rparr>, xInheritanceOccurred = False\<rparr>"

text \<open>The outcome of a part of a blocking function: it returns to the caller, or goes on.\<close>

datatype attempt = Return bool | Again wait_frame

definition may_block :: "TickType_t \<Rightarrow> 'a sched_scheme \<Rightarrow> bool" where
  "may_block w k \<longleftrightarrow> \<not> (xTaskGetSchedulerState k = taskSCHEDULER_SUSPENDED \<and> w \<noteq> 0)"

definition enter_time :: "wait_frame \<Rightarrow> 'a sched_scheme \<Rightarrow> wait_frame" where
  "enter_time fr k =
     (if \<not> xEntryTimeSet fr
      then fr\<lparr>xTimeOut := vTaskInternalSetTimeOutState k, xEntryTimeSet := True\<rparr> else fr)"

text \<open>The assertions on entry to \<^verbatim>\<open>xQueueGenericSend\<close>.\<close>

definition xQueueGenericSend_entry ::
  "addr \<Rightarrow> addr \<Rightarrow> TickType_t \<Rightarrow> copy_position \<Rightarrow> 'a kernel_scheme \<Rightarrow> wait_frame option" where
  "xQueueGenericSend_entry q item w pos k = do {
     configASSERT (q \<noteq> 0);
     configASSERT (\<not> (item = 0 \<and> uxItemSize (queues k q) \<noteq> 0));
     configASSERT (\<not> (pos = queueOVERWRITE \<and> uxLength (queues k q) \<noteq> 1));
     configASSERT (may_block w k);
     Some (start_frame w)
   }"

text \<open>What a send does once the item is in the queue: notify the set, wake a receiver, or yield.\<close>

definition after_send :: "addr \<Rightarrow> copy_position \<Rightarrow> nat \<Rightarrow> bool \<Rightarrow> 'a kernel_scheme \<Rightarrow> 'a kernel_scheme option" where
  "after_send q pos uxPreviousMessagesWaiting xYieldRequired k =
     (if pxQueueSetContainer (queues k q) \<noteq> 0 then
        if pos = queueOVERWRITE \<and> uxPreviousMessagesWaiting \<noteq> 0 then Some k
        else map_option yield_if (prvNotifyQueueSetContainer q k)
      else if items k (xTasksWaitingToReceive q) \<noteq> []
      then map_option yield_if (xTaskRemoveFromEventList (xTasksWaitingToReceive q) k)
      else Some (if xYieldRequired then portYIELD k else k))"

definition xQueueGenericSend_try ::
  "addr \<Rightarrow> addr \<Rightarrow> copy_position \<Rightarrow> wait_frame \<Rightarrow> 'a kernel_scheme \<Rightarrow> (attempt \<times> 'a kernel_scheme) option" where
  "xQueueGenericSend_try q item pos fr k =
     (if uxMessagesWaiting (queues k q) < uxLength (queues k q) \<or> pos = queueOVERWRITE then do {
        let n = uxMessagesWaiting (queues k q);
        (y, k) \<leftarrow> prvCopyDataToQueue q (bytes_at (mem k) item (uxItemSize (queues k q))) pos k;
        k \<leftarrow> after_send q pos n y k;
        Some (Return True, k)
      }
      else if xTicksToWait fr = 0 then Some (Return False, k)
      else Some (Again (enter_time fr k), k))"

text \<open>With the scheduler suspended and the queue locked: time out, or wait while it is full.\<close>

definition prvIsQueueEmpty :: "addr \<Rightarrow> 'a kernel_scheme \<Rightarrow> bool" where
  "prvIsQueueEmpty q k \<longleftrightarrow> uxMessagesWaiting (queues k q) = 0"

definition prvIsQueueFull :: "addr \<Rightarrow> 'a kernel_scheme \<Rightarrow> bool" where
  "prvIsQueueFull q k \<longleftrightarrow> uxMessagesWaiting (queues k q) = uxLength (queues k q)"

datatype wait_result = Blocked | Retry | TimedOut

definition queue_enter :: "addr \<Rightarrow> 'a kernel_scheme \<Rightarrow> 'a kernel_scheme" where
  "queue_enter q k = prvLockQueue q (vTaskSuspendAll k)"

definition check_time :: "wait_frame \<Rightarrow> 'a sched_scheme \<Rightarrow> bool \<times> wait_frame \<times> 'a sched_scheme" where
  "check_time fr k =
     (let (out, to, w, k) = xTaskCheckForTimeOut (xTimeOut fr) (xTicksToWait fr) k
      in (out, fr\<lparr>xTimeOut := to, xTicksToWait := w\<rparr>, k))"

definition xQueueGenericSend_wait ::
  "addr \<Rightarrow> wait_frame \<Rightarrow> 'a kernel_scheme \<Rightarrow> (wait_result \<times> wait_frame \<times> 'a kernel_scheme) option" where
  "xQueueGenericSend_wait q fr k =
     (let (out, fr, k) = check_time fr k in
      if \<not> out then
        if prvIsQueueFull q k
        then map_option (\<lambda>k. (Blocked, fr, k)) (vTaskPlaceOnEventList (xTasksWaitingToSend q) (xTicksToWait fr) k)
        else Some (Retry, fr, k)
      else Some (TimedOut, fr, k))"

definition queue_exit :: "wait_result \<Rightarrow> addr \<Rightarrow> 'a kernel_scheme \<Rightarrow> 'a kernel_scheme option" where
  "queue_exit r q k = do {
     k \<leftarrow> prvUnlockQueue q k;
     (xAlreadyYielded, k) \<leftarrow> xTaskResumeAll k;
     Some (if r = Blocked \<and> \<not> xAlreadyYielded then portYIELD k else k)
   }"

text \<open>The whole blocking part, when no interrupt arrives between its steps.\<close>

definition xQueueGenericSend_block ::
  "addr \<Rightarrow> wait_frame \<Rightarrow> 'a kernel_scheme \<Rightarrow> (attempt \<times> 'a kernel_scheme) option" where
  "xQueueGenericSend_block q fr k = do {
     (r, fr, k) \<leftarrow> xQueueGenericSend_wait q fr (queue_enter q k);
     k \<leftarrow> queue_exit r q k;
     Some (if r = TimedOut then Return False else Again fr, k)
   }"

text \<open>A send that does not wait (\<^verbatim>\<open>xTicksToWait\<close> is 0) returns from its first critical section.\<close>

definition xQueueGenericSend_nowait ::
  "addr \<Rightarrow> addr \<Rightarrow> copy_position \<Rightarrow> 'a kernel_scheme \<Rightarrow> (bool \<times> 'a kernel_scheme) option" where
  "xQueueGenericSend_nowait q item pos k = do {
     fr \<leftarrow> xQueueGenericSend_entry q item 0 pos k;
     (a, k) \<leftarrow> xQueueGenericSend_try q item pos fr k;
     case a of Return r \<Rightarrow> Some (r, k) | Again _ \<Rightarrow> None
   }"

text \<open>\<^verbatim>\<open>xQueueGenericSendFromISR\<close>; the second result is \<^verbatim>\<open>*pxHigherPriorityTaskWoken\<close> being set.\<close>

definition after_send_isr :: "addr \<Rightarrow> copy_position \<Rightarrow> nat \<Rightarrow> bool \<Rightarrow> 'a kernel_scheme \<Rightarrow> (bool \<times> 'a kernel_scheme) option" where
  "after_send_isr q pos uxPreviousMessagesWaiting unlocked k =
     (if unlocked then
        if pxQueueSetContainer (queues k q) \<noteq> 0 then
          if pos = queueOVERWRITE \<and> uxPreviousMessagesWaiting \<noteq> 0 then Some (False, k)
          else prvNotifyQueueSetContainer q k
        else wake_first (xTasksWaitingToReceive q) k
      else map_option (Pair False) (prvIncrementQueueTxLock q k))"

definition xQueueGenericSendFromISR ::
  "addr \<Rightarrow> addr \<Rightarrow> copy_position \<Rightarrow> 'a kernel_scheme \<Rightarrow> (bool \<times> bool \<times> 'a kernel_scheme) option" where
  "xQueueGenericSendFromISR q item pos k = do {
     configASSERT (q \<noteq> 0 \<and> \<not> (item = 0 \<and> uxItemSize (queues k q) \<noteq> 0));
     configASSERT (q \<noteq> 0 \<and> \<not> (pos = queueOVERWRITE \<and> uxLength (queues k q) \<noteq> 1));
     if uxMessagesWaiting (queues k q) < uxLength (queues k q) \<or> pos = queueOVERWRITE then do {
       let unlocked = (cTxLock (queues k q) = queueUNLOCKED);
       let n = uxMessagesWaiting (queues k q);
       (_, k) \<leftarrow> prvCopyDataToQueue q (bytes_at (mem k) item (uxItemSize (queues k q))) pos k;
       (w, k) \<leftarrow> after_send_isr q pos n unlocked k;
       Some (True, w, k)
     } else Some (False, False, k)
   }"

definition xQueueGiveFromISR :: "addr \<Rightarrow> 'a kernel_scheme \<Rightarrow> (bool \<times> bool \<times> 'a kernel_scheme) option" where
  "xQueueGiveFromISR q k = do {
     configASSERT (q \<noteq> 0 \<and> uxItemSize (queues k q) = 0);
     configASSERT (q \<noteq> 0 \<and> \<not> (is_mutex (queues k q) \<and> xMutexHolder (queues k q) \<noteq> 0));
     let n = uxMessagesWaiting (queues k q);
     if n < uxLength (queues k q) then do {
       let unlocked = (cTxLock (queues k q) = queueUNLOCKED);
       let k = upd_queue q (\<lambda>Q. Q\<lparr>uxMessagesWaiting := n + 1\<rparr>) k;
       (w, k) \<leftarrow> after_send_isr q queueSEND_TO_BACK n unlocked k;
       Some (True, w, k)
     } else Some (False, False, k)
   }"

section \<open>Receiving and peeking\<close>

definition xQueueReceive_entry :: "addr \<Rightarrow> addr \<Rightarrow> TickType_t \<Rightarrow> 'a kernel_scheme \<Rightarrow> wait_frame option" where
  "xQueueReceive_entry q buf w k = do {
     configASSERT (q \<noteq> 0);
     configASSERT (\<not> (buf = 0 \<and> uxItemSize (queues k q) \<noteq> 0));
     configASSERT (may_block w k);
     Some (start_frame w)
   }"

definition set_waiting :: "addr \<Rightarrow> nat \<Rightarrow> 'a kernel_scheme \<Rightarrow> 'a kernel_scheme" where
  "set_waiting q n = upd_queue q (\<lambda>Q. Q\<lparr>uxMessagesWaiting := n\<rparr>)"

text \<open>What every receiver does when there is nothing to take.\<close>

definition empty_try :: "wait_frame \<Rightarrow> 'a kernel_scheme \<Rightarrow> attempt \<times> 'a kernel_scheme" where
  "empty_try fr k = (if xTicksToWait fr = 0 then Return False else Again (enter_time fr k), k)"

definition xQueueReceive_try ::
  "addr \<Rightarrow> addr \<Rightarrow> wait_frame \<Rightarrow> 'a kernel_scheme \<Rightarrow> (attempt \<times> 'a kernel_scheme) option" where
  "xQueueReceive_try q buf fr k =
     (let n = uxMessagesWaiting (queues k q) in
      if n > 0 then do {
        let k = prvCopyDataFromQueue q buf k;
        let k = set_waiting q (n - 1) k;
        wk \<leftarrow> wake_first (xTasksWaitingToSend q) k;
        Some (Return True, yield_if wk)
      } else Some (empty_try fr k))"

text \<open>\<^verbatim>\<open>xQueuePeek\<close> restores the read position and wakes another receiver.\<close>

definition xQueuePeek_try ::
  "addr \<Rightarrow> addr \<Rightarrow> wait_frame \<Rightarrow> 'a kernel_scheme \<Rightarrow> (attempt \<times> 'a kernel_scheme) option" where
  "xQueuePeek_try q buf fr k =
     (if uxMessagesWaiting (queues k q) > 0 then do {
        let pcOriginalReadPosition = pcReadFrom (queues k q);
        let k = prvCopyDataFromQueue q buf k;
        let k = upd_queue q (\<lambda>Q. Q\<lparr>pcReadFrom := pcOriginalReadPosition\<rparr>) k;
        wk \<leftarrow> wake_first (xTasksWaitingToReceive q) k;
        Some (Return True, yield_if wk)
      } else Some (empty_try fr k))"

text \<open>The waiting part shared by \<^verbatim>\<open>xQueueReceive\<close> and \<^verbatim>\<open>xQueuePeek\<close>.\<close>

definition xQueueReceive_wait ::
  "addr \<Rightarrow> wait_frame \<Rightarrow> 'a kernel_scheme \<Rightarrow> (wait_result \<times> wait_frame \<times> 'a kernel_scheme) option" where
  "xQueueReceive_wait q fr k =
     (let (out, fr, k) = check_time fr k in
      if \<not> out then
        if prvIsQueueEmpty q k
        then map_option (\<lambda>k. (Blocked, fr, k)) (vTaskPlaceOnEventList (xTasksWaitingToReceive q) (xTicksToWait fr) k)
        else Some (Retry, fr, k)
      else Some (TimedOut, fr, k))"

definition xQueueReceive_block ::
  "addr \<Rightarrow> wait_frame \<Rightarrow> 'a kernel_scheme \<Rightarrow> (attempt \<times> 'a kernel_scheme) option" where
  "xQueueReceive_block q fr k = do {
     (r, fr, k) \<leftarrow> xQueueReceive_wait q fr (queue_enter q k);
     k \<leftarrow> queue_exit r q k;
     Some (if r = TimedOut \<and> prvIsQueueEmpty q k then Return False else Again fr, k)
   }"

definition xQueuePeek_entry :: "addr \<Rightarrow> addr \<Rightarrow> TickType_t \<Rightarrow> 'a kernel_scheme \<Rightarrow> wait_frame option" where
  "xQueuePeek_entry q buf w k = do {
     configASSERT (q \<noteq> 0 \<and> \<not> (buf = 0 \<and> uxItemSize (queues k q) \<noteq> 0));
     configASSERT (may_block w k);
     Some (start_frame w)
   }"

definition xQueuePeek_block ::
  "addr \<Rightarrow> wait_frame \<Rightarrow> 'a kernel_scheme \<Rightarrow> (attempt \<times> 'a kernel_scheme) option" where
  "xQueuePeek_block q fr k = do {
     (r, fr, k) \<leftarrow> xQueueReceive_wait q fr (queue_enter q k);
     k \<leftarrow> queue_exit r q k;
     Some (if r = TimedOut \<and> prvIsQueueEmpty q k then Return False else Again fr, k)
   }"

definition xQueueReceiveFromISR ::
  "addr \<Rightarrow> addr \<Rightarrow> 'a kernel_scheme \<Rightarrow> (bool \<times> bool \<times> 'a kernel_scheme) option" where
  "xQueueReceiveFromISR q buf k = do {
     configASSERT (q \<noteq> 0);
     configASSERT (\<not> (buf = 0 \<and> uxItemSize (queues k q) \<noteq> 0));
     let n = uxMessagesWaiting (queues k q);
     if n > 0 then do {
       let unlocked = (cRxLock (queues k q) = queueUNLOCKED);
       let k = prvCopyDataFromQueue q buf k;
       let k = set_waiting q (n - 1) k;
       (w, k) \<leftarrow> (if unlocked then wake_first (xTasksWaitingToSend q) k
                  else map_option (Pair False) (prvIncrementQueueRxLock q k));
       Some (True, w, k)
     } else Some (False, False, k)
   }"

definition xQueuePeekFromISR :: "addr \<Rightarrow> addr \<Rightarrow> 'a kernel_scheme \<Rightarrow> (bool \<times> 'a kernel_scheme) option" where
  "xQueuePeekFromISR q buf k = do {
     configASSERT (q \<noteq> 0 \<and> \<not> (buf = 0 \<and> uxItemSize (queues k q) \<noteq> 0));
     configASSERT (q \<noteq> 0 \<and> uxItemSize (queues k q) \<noteq> 0);
     if uxMessagesWaiting (queues k q) > 0 then do {
       let pcOriginalReadPosition = pcReadFrom (queues k q);
       let k = prvCopyDataFromQueue q buf k;
       Some (True, upd_queue q (\<lambda>Q. Q\<lparr>pcReadFrom := pcOriginalReadPosition\<rparr>) k)
     } else Some (False, k)
   }"

section \<open>Semaphores and mutexes\<close>

definition xQueueSemaphoreTake_entry :: "addr \<Rightarrow> TickType_t \<Rightarrow> 'a kernel_scheme \<Rightarrow> wait_frame option" where
  "xQueueSemaphoreTake_entry q w k = do {
     configASSERT (q \<noteq> 0);
     configASSERT (uxItemSize (queues k q) = 0);
     configASSERT (may_block w k);
     Some (start_frame w)
   }"

definition xQueueSemaphoreTake_try ::
  "addr \<Rightarrow> wait_frame \<Rightarrow> 'a kernel_scheme \<Rightarrow> (attempt \<times> 'a kernel_scheme) option" where
  "xQueueSemaphoreTake_try q fr k =
     (let n = uxMessagesWaiting (queues k q) in
      if n > 0 then do {
        let k = set_waiting q (n - 1) k;
        let k = (if is_mutex (queues k q)
                 then let (h, k) = pvTaskIncrementMutexHeldCount k in upd_queue q (\<lambda>Q. Q\<lparr>pcTail := h\<rparr>) k
                 else k);
        wk \<leftarrow> wake_first (xTasksWaitingToSend q) k;
        Some (Return True, yield_if wk)
      } else Some (empty_try fr k))"

definition xQueueSemaphoreTake_wait ::
  "addr \<Rightarrow> wait_frame \<Rightarrow> 'a kernel_scheme \<Rightarrow> (wait_result \<times> wait_frame \<times> 'a kernel_scheme) option" where
  "xQueueSemaphoreTake_wait q fr k =
     (let (out, fr, k) = check_time fr k in
      if \<not> out then
        if prvIsQueueEmpty q k then do {
          (inh, k) \<leftarrow> (if is_mutex (queues k q) then xTaskPriorityInherit (xMutexHolder (queues k q)) k
                       else Some (xInheritanceOccurred fr, k));
          let fr = fr\<lparr>xInheritanceOccurred := inh\<rparr>;
          k \<leftarrow> vTaskPlaceOnEventList (xTasksWaitingToReceive q) (xTicksToWait fr) k;
          Some (Blocked, fr, k)
        }
        else Some (Retry, fr, k)
      else Some (TimedOut, fr, k))"

definition prvGetHighestPriorityOfWaitToReceiveList :: "addr \<Rightarrow> 'a sched_scheme \<Rightarrow> nat" where
  "prvGetHighestPriorityOfWaitToReceiveList q k =
     (case items k (xTasksWaitingToReceive q) of
        i # _ \<Rightarrow> unat (of_nat configMAX_PRIORITIES - liValue (lists k) i)
      | [] \<Rightarrow> tskIDLE_PRIORITY)"

definition xQueueSemaphoreTake_block ::
  "addr \<Rightarrow> wait_frame \<Rightarrow> 'a kernel_scheme \<Rightarrow> (attempt \<times> 'a kernel_scheme) option" where
  "xQueueSemaphoreTake_block q fr k = do {
     (r, fr, k) \<leftarrow> xQueueSemaphoreTake_wait q fr (queue_enter q k);
     k \<leftarrow> queue_exit r q k;
     if r = TimedOut \<and> prvIsQueueEmpty q k then do {
       k \<leftarrow> (if xInheritanceOccurred fr
              then vTaskPriorityDisinheritAfterTimeout (xMutexHolder (queues k q))
                     (prvGetHighestPriorityOfWaitToReceiveList q k) k
              else Some k);
       Some (Return False, k)
     }
     else Some (Again fr, k)
   }"

definition prvInitialiseMutex :: "addr \<Rightarrow> 'a kernel_scheme \<Rightarrow> 'a kernel_scheme option" where
  "prvInitialiseMutex q k =
     (if q \<noteq> 0 then do {
        let k = upd_queue q (\<lambda>Q. Q\<lparr>pcTail := 0, pcHead := 0, pcReadFrom := 0\<rparr>) k;
        map_option snd (xQueueGenericSend_nowait q 0 queueSEND_TO_BACK k)
      } else Some k)"

definition xQueueCreateMutex :: "'a kernel_scheme \<Rightarrow> (addr \<times> 'a kernel_scheme) option" where
  "xQueueCreateMutex k = do {
     (q, k) \<leftarrow> xQueueGenericCreate 1 0 k;
     k \<leftarrow> prvInitialiseMutex q k;
     Some (q, k)
   }"

definition xQueueCreateMutexStatic :: "addr \<Rightarrow> 'a kernel_scheme \<Rightarrow> (addr \<times> 'a kernel_scheme) option" where
  "xQueueCreateMutexStatic q k = do {
     (q, k) \<leftarrow> xQueueGenericCreateStatic 1 0 0 q k;
     k \<leftarrow> prvInitialiseMutex q k;
     Some (q, k)
   }"

definition xQueueGetMutexHolder :: "addr \<Rightarrow> 'a kernel_scheme \<Rightarrow> addr option" where
  "xQueueGetMutexHolder q k = do {
     configASSERT (q \<noteq> 0);
     Some (if is_mutex (queues k q) then xMutexHolder (queues k q) else 0)
   }"

definition xQueueGetMutexHolderFromISR :: "addr \<Rightarrow> 'a kernel_scheme \<Rightarrow> addr option" where
  "xQueueGetMutexHolderFromISR q k = do {
     configASSERT (q \<noteq> 0);
     Some (if is_mutex (queues k q) then xMutexHolder (queues k q) else 0)
   }"

definition xQueueGiveMutexRecursive :: "addr \<Rightarrow> 'a kernel_scheme \<Rightarrow> (bool \<times> 'a kernel_scheme) option" where
  "xQueueGiveMutexRecursive q k = do {
     configASSERT (q \<noteq> 0);
     if xMutexHolder (queues k q) = pxCurrentTCB k then do {
       let k = upd_queue q (\<lambda>Q. Q\<lparr>pcReadFrom := (uxRecursiveCallCount Q + (2 ^ 32 - 1)) mod 2 ^ 32\<rparr>) k;
       k \<leftarrow> (if uxRecursiveCallCount (queues k q) = 0
              then map_option snd (xQueueGenericSend_nowait q 0 queueSEND_TO_BACK k) else Some k);
       Some (True, k)
     } else Some (False, k)
   }"

definition count_recursive_call :: "addr \<Rightarrow> 'a kernel_scheme \<Rightarrow> 'a kernel_scheme option" where
  "count_recursive_call q k = do {
     let k = upd_queue q (\<lambda>Q. Q\<lparr>pcReadFrom := (uxRecursiveCallCount Q + 1) mod 2 ^ 32\<rparr>) k;
     configASSERT (uxRecursiveCallCount (queues k q) \<noteq> 0);
     Some k
   }"

text \<open>
  \<^verbatim>\<open>xQueueTakeMutexRecursive\<close>: a holder only counts the call; another task goes through
  \<^verbatim>\<open>xQueueSemaphoreTake\<close>, whose parts it shares, and counts the call when the take succeeds.
\<close>

definition xQueueTakeMutexRecursive_entry ::
  "addr \<Rightarrow> TickType_t \<Rightarrow> 'a kernel_scheme \<Rightarrow> (attempt \<times> 'a kernel_scheme) option" where
  "xQueueTakeMutexRecursive_entry q w k = do {
     configASSERT (q \<noteq> 0);
     if xMutexHolder (queues k q) = pxCurrentTCB k
     then map_option (Pair (Return True)) (count_recursive_call q k)
     else do { fr \<leftarrow> xQueueSemaphoreTake_entry q w k; Some (Again fr, k) }
   }"

definition xQueueTakeMutexRecursive_try ::
  "addr \<Rightarrow> wait_frame \<Rightarrow> 'a kernel_scheme \<Rightarrow> (attempt \<times> 'a kernel_scheme) option" where
  "xQueueTakeMutexRecursive_try q fr k = do {
     (a, k) \<leftarrow> xQueueSemaphoreTake_try q fr k;
     k \<leftarrow> (if a = Return True then count_recursive_call q k else Some k);
     Some (a, k)
   }"

definition xQueueCreateCountingSemaphore :: "nat \<Rightarrow> nat \<Rightarrow> 'a kernel_scheme \<Rightarrow> (addr \<times> 'a kernel_scheme) option" where
  "xQueueCreateCountingSemaphore uxMaxCount uxInitialCount k =
     (if uxMaxCount \<noteq> 0 \<and> uxInitialCount \<le> uxMaxCount then do {
        (q, k) \<leftarrow> xQueueGenericCreate uxMaxCount 0 k;
        Some (q, if q \<noteq> 0 then set_waiting q uxInitialCount k else k)
      }
      else do { configASSERT False; Some (0, k) })"

definition xQueueCreateCountingSemaphoreStatic ::
  "nat \<Rightarrow> nat \<Rightarrow> addr \<Rightarrow> 'a kernel_scheme \<Rightarrow> (addr \<times> 'a kernel_scheme) option" where
  "xQueueCreateCountingSemaphoreStatic uxMaxCount uxInitialCount q k =
     (if uxMaxCount \<noteq> 0 \<and> uxInitialCount \<le> uxMaxCount then do {
        (q, k) \<leftarrow> xQueueGenericCreateStatic uxMaxCount 0 0 q k;
        Some (q, if q \<noteq> 0 then set_waiting q uxInitialCount k else k)
      }
      else do { configASSERT False; Some (0, k) })"

section \<open>Queries, registry, deletion and sets\<close>

definition uxQueueMessagesWaiting :: "addr \<Rightarrow> 'a kernel_scheme \<Rightarrow> nat option" where
  "uxQueueMessagesWaiting q k = do { configASSERT (q \<noteq> 0); Some (uxMessagesWaiting (queues k q)) }"

definition uxQueueSpacesAvailable :: "addr \<Rightarrow> 'a kernel_scheme \<Rightarrow> nat option" where
  "uxQueueSpacesAvailable q k = do {
     configASSERT (q \<noteq> 0);
     Some (uxLength (queues k q) - uxMessagesWaiting (queues k q))
   }"

definition uxQueueMessagesWaitingFromISR :: "addr \<Rightarrow> 'a kernel_scheme \<Rightarrow> nat option" where
  "uxQueueMessagesWaitingFromISR q k = do { configASSERT (q \<noteq> 0); Some (uxMessagesWaiting (queues k q)) }"

definition uxQueueGetQueueItemSize :: "addr \<Rightarrow> 'a kernel_scheme \<Rightarrow> nat" where
  "uxQueueGetQueueItemSize q k = uxItemSize (queues k q)"

definition uxQueueGetQueueLength :: "addr \<Rightarrow> 'a kernel_scheme \<Rightarrow> nat" where
  "uxQueueGetQueueLength q k = uxLength (queues k q)"

definition xQueueIsQueueEmptyFromISR :: "addr \<Rightarrow> 'a kernel_scheme \<Rightarrow> bool option" where
  "xQueueIsQueueEmptyFromISR q k = do { configASSERT (q \<noteq> 0); Some (uxMessagesWaiting (queues k q) = 0) }"

definition xQueueIsQueueFullFromISR :: "addr \<Rightarrow> 'a kernel_scheme \<Rightarrow> bool option" where
  "xQueueIsQueueFullFromISR q k = do {
     configASSERT (q \<noteq> 0);
     Some (uxMessagesWaiting (queues k q) = uxLength (queues k q))
   }"

text \<open>The entry that \<^verbatim>\<open>vQueueAddToRegistry\<close> writes: the one of the handle, else the first free one.\<close>

fun registry_slot :: "addr \<Rightarrow> nat \<Rightarrow> nat option \<Rightarrow> (string option \<times> addr) list \<Rightarrow> nat option" where
  "registry_slot q ux found [] = found"
| "registry_slot q ux found ((name, h) # es) =
     (if q = h then Some ux
      else registry_slot q (ux + 1) (if found = None \<and> name = None then Some ux else found) es)"

definition vQueueAddToRegistry :: "addr \<Rightarrow> string option \<Rightarrow> 'a kernel_scheme \<Rightarrow> 'a kernel_scheme option" where
  "vQueueAddToRegistry q name k = do {
     configASSERT (q \<noteq> 0);
     Some (case (if name \<noteq> None then registry_slot q 0 None (xQueueRegistry k) else None) of
             Some ux \<Rightarrow> k\<lparr>xQueueRegistry := (xQueueRegistry k)[ux := (name, q)]\<rparr>
           | None \<Rightarrow> k)
   }"

definition pcQueueGetName :: "addr \<Rightarrow> 'a kernel_scheme \<Rightarrow> string option option" where
  "pcQueueGetName q k = do {
     configASSERT (q \<noteq> 0);
     Some (case find (\<lambda>e. snd e = q) (xQueueRegistry k) of Some e \<Rightarrow> fst e | None \<Rightarrow> None)
   }"

fun unregister :: "addr \<Rightarrow> (string option \<times> addr) list \<Rightarrow> (string option \<times> addr) list" where
  "unregister q [] = []"
| "unregister q ((name, h) # es) = (if h = q then (None, 0) # es else (name, h) # unregister q es)"

definition vQueueUnregisterQueue :: "addr \<Rightarrow> 'a kernel_scheme \<Rightarrow> 'a kernel_scheme option" where
  "vQueueUnregisterQueue q k = do {
     configASSERT (q \<noteq> 0);
     Some (k\<lparr>xQueueRegistry := unregister q (xQueueRegistry k)\<rparr>)
   }"

definition vQueueDelete :: "addr \<Rightarrow> 'a kernel_scheme \<Rightarrow> 'a kernel_scheme option" where
  "vQueueDelete q k = do {
     configASSERT (q \<noteq> 0);
     k \<leftarrow> vQueueUnregisterQueue q k;
     if \<not> ucStaticallyAllocated (queues k q) then vPortFree q k else Some k
   }"

definition vQueueWaitForMessageRestricted ::
  "addr \<Rightarrow> TickType_t \<Rightarrow> bool \<Rightarrow> 'a kernel_scheme \<Rightarrow> 'a kernel_scheme option" where
  "vQueueWaitForMessageRestricted q w forever k = do {
     let k = prvLockQueue q k;
     k \<leftarrow> (if uxMessagesWaiting (queues k q) = 0
            then vTaskPlaceOnEventListRestricted (xTasksWaitingToReceive q) w forever k else Some k);
     prvUnlockQueue q k
   }"

definition xQueueCreateSet :: "nat \<Rightarrow> 'a kernel_scheme \<Rightarrow> (addr \<times> 'a kernel_scheme) option" where
  "xQueueCreateSet uxEventQueueLength k = xQueueGenericCreate uxEventQueueLength 4 k"

definition xQueueCreateSetStatic :: "nat \<Rightarrow> addr \<Rightarrow> addr \<Rightarrow> 'a kernel_scheme \<Rightarrow> (addr \<times> 'a kernel_scheme) option" where
  "xQueueCreateSetStatic uxEventQueueLength storage q k = xQueueGenericCreateStatic uxEventQueueLength 4 storage q k"

definition xQueueAddToSet :: "addr \<Rightarrow> addr \<Rightarrow> 'a kernel_scheme \<Rightarrow> bool \<times> 'a kernel_scheme" where
  "xQueueAddToSet q s k =
     (if pxQueueSetContainer (queues k q) \<noteq> 0 then (False, k)
      else if uxMessagesWaiting (queues k q) \<noteq> 0 then (False, k)
      else (True, upd_queue q (\<lambda>Q. Q\<lparr>pxQueueSetContainer := s\<rparr>) k))"

definition xQueueRemoveFromSet :: "addr \<Rightarrow> addr \<Rightarrow> 'a kernel_scheme \<Rightarrow> bool \<times> 'a kernel_scheme" where
  "xQueueRemoveFromSet q s k =
     (if pxQueueSetContainer (queues k q) \<noteq> s then (False, k)
      else if uxMessagesWaiting (queues k q) \<noteq> 0 then (False, k)
      else (True, upd_queue q (\<lambda>Q. Q\<lparr>pxQueueSetContainer := 0\<rparr>) k))"

text \<open>
  \<^verbatim>\<open>xQueueSelectFromSet\<close> is a receive of a pointer from the set into a variable that holds NULL
  before; \<open>var\<close> is the address of that variable.
\<close>

definition xQueueSelectFromSet_try ::
  "addr \<Rightarrow> addr \<Rightarrow> wait_frame \<Rightarrow> 'a kernel_scheme \<Rightarrow> (attempt \<times> addr \<times> 'a kernel_scheme) option" where
  "xQueueSelectFromSet_try s var fr k = do {
     (a, k) \<leftarrow> xQueueReceive_try s var fr (k\<lparr>mem := write_bytes var (pointer_bytes 0) (mem k)\<rparr>);
     Some (a, bytes_pointer (bytes_at (mem k) var 4), k)
   }"

definition xQueueSelectFromSetFromISR :: "addr \<Rightarrow> addr \<Rightarrow> 'a kernel_scheme \<Rightarrow> (addr \<times> 'a kernel_scheme) option" where
  "xQueueSelectFromSetFromISR s var k = do {
     (_, _, k) \<leftarrow> xQueueReceiveFromISR s var (k\<lparr>mem := write_bytes var (pointer_bytes 0) (mem k)\<rparr>);
     Some (bytes_pointer (bytes_at (mem k) var 4), k)
   }"

lemmas [queue_defs] = copy_to_ring_def copy_from_ring_def prvCopyDataToQueue_def prvCopyDataFromQueue_def
  set_waiting_def upd_queue_def

end
