(* ===== verification/FR_Event_Inv.thy ===== *)
theory FR_Event_Inv
  imports FR_Scheduler FR_Queue
begin

text \<open>
  What the scheduler promises to the queues: putting the running task on a waiting list, waking the
  first task of a waiting list, and the changes of priority that mutexes cause keep the scheduler's
  invariant, with their effect on the tasks concerned and on no other.
\<close>

section \<open>Waiting lists\<close>

fun waiting_list :: "list_id \<Rightarrow> bool" where
  "waiting_list (xTasksWaitingToSend q) = True"
| "waiting_list (xTasksWaitingToReceive q) = True"
| "waiting_list (xTasksWaitingForBits g) = True"
| "waiting_list _ = False"

lemma waiting_listD: "waiting_list l \<Longrightarrow> \<not> state_list l \<and> l \<noteq> xPendingReadyList \<and> l \<notin> delayed_lists \<and> l \<noteq> pxReadyTasksLists p"
  by (cases l) auto

lemma core_inv_add_event:
  assumes inv: "core_inv X strict k" and t: "t \<noteq> 0" and s: "lists_ok s"
    "liContainer s = (liContainer (lists k))(EventItem t := Some l)" "liValue s = liValue (lists k)"
    and l: "\<not> state_list l" "t \<in> X \<or> blocked k t"
  shows "core_inv X strict (k\<lparr>lists := s\<rparr>)"
proof (rule core_inv_move [OF inv, where t = t])
  note D = core_invD [OF inv]
  show "bit (uxTopReadyPriority (k\<lparr>lists := s\<rparr>)) p \<longleftrightarrow>
      (\<exists>u. container (k\<lparr>lists := s\<rparr>) (StateItem u) = Some (pxReadyTasksLists p))" for p
    using D(7) [of p] s(2) by simp
  show "\<not> state_list m \<and> (t \<notin> X \<longrightarrow> blocked (k\<lparr>lists := s\<rparr>) t)"
    if "container (k\<lparr>lists := s\<rparr>) (EventItem t) = Some m" for m
    using that s(2) l by (auto simp: blocked_def)
qed (use core_invD [OF inv] s t in auto)

text \<open>
  \<^verbatim>\<open>xTaskRemoveFromEventList\<close> changes the lists of one task and may set the yield flag, and nothing
  else.
\<close>

definition wake_frame :: "'a sched_scheme \<Rightarrow> 'a sched_scheme \<Rightarrow> bool" where
  "wake_frame k k' \<longleftrightarrow> tcb k' = tcb k \<and> heap k' = heap k \<and> pxCurrentTCB k' = pxCurrentTCB k \<and>
     uxDeletedTasksWaitingCleanUp k' = uxDeletedTasksWaitingCleanUp k \<and>
     uxCurrentNumberOfTasks k' = uxCurrentNumberOfTasks k \<and> xTickCount k' = xTickCount k \<and>
     xSchedulerRunning k' = xSchedulerRunning k \<and> xPendedTicks k' = xPendedTicks k \<and>
     uxSchedulerSuspended k' = uxSchedulerSuspended k \<and> pendSV k' = pendSV k \<and>
     xNumOfOverflows k' = xNumOfOverflows k \<and> sched.more k' = sched.more k \<and> liValue (lists k') = liValue (lists k)"

lemma wake_frameD:
  assumes "wake_frame k k'"
  shows "tcb k' = tcb k" "heap k' = heap k" "pxCurrentTCB k' = pxCurrentTCB k"
    "uxDeletedTasksWaitingCleanUp k' = uxDeletedTasksWaitingCleanUp k"
    "uxCurrentNumberOfTasks k' = uxCurrentNumberOfTasks k" "xTickCount k' = xTickCount k"
    "xSchedulerRunning k' = xSchedulerRunning k" "xPendedTicks k' = xPendedTicks k"
    "uxSchedulerSuspended k' = uxSchedulerSuspended k" "pendSV k' = pendSV k" "xNumOfOverflows k' = xNumOfOverflows k"
    "sched.more k' = sched.more k" "liValue (lists k') = liValue (lists k)"
  using assms unfolding wake_frame_def by simp_all

lemma wake_frame_refl [simp]: "wake_frame k k"
  by (simp add: wake_frame_def)

lemma wake_frame_trans: "wake_frame k k' \<Longrightarrow> wake_frame k' k'' \<Longrightarrow> wake_frame k k''"
  by (simp add: wake_frame_def)

text \<open>Waking the first task: it is readied, or parked while the scheduler is suspended.\<close>

lemma xTaskRemoveFromEventList_inv:
  assumes inv: "sched_inv k" and h: "items k l = i # rest" and l: "waiting_list l"
  obtains t k' where "i = EventItem t" "t \<noteq> 0" "container k (EventItem t) = Some l" "blocked k t"
    "xTaskRemoveFromEventList l k = Some (prio k t > prio k (pxCurrentTCB k), k')" "sched_inv k'"
    "items k' l = rest" "wake_frame k k'" "xYieldPending k' \<longleftrightarrow> xYieldPending k \<or> prio k t > prio k (pxCurrentTCB k)"
    "\<And>j. owner j \<noteq> t \<Longrightarrow> container k' j = container k j"
    "\<And>m. waiting_list m \<Longrightarrow> m \<noteq> l \<Longrightarrow> items k' m = items k m"
    "container k' (StateItem t) = (if uxSchedulerSuspended k = 0 then Some (pxReadyTasksLists (prio k t)) else container k (StateItem t))"
    "container k' (EventItem t) = (if uxSchedulerSuspended k = 0 then None else Some xPendingReadyList)"
proof -
  note D = core_invD [OF inv]
  have ci: "container k i = Some l" using lists_ok_mem [OF D(1), of i l] h by simp
  then obtain t where t: "i = EventItem t" using D(2) [OF ci] waiting_listD [OF l] by (cases i) auto
  have t0: "t \<noteq> 0" using D(3) [of i] ci t by (cases "t = 0") auto
  have b: "blocked k t" using D(11) [of t] ci t by auto
  then obtain m where m: "container k (StateItem t) = Some m" "m \<in> insert xSuspendedTaskList delayed_lists"
    by (auto simp: blocked_def)
  define k1 where "k1 = k\<lparr>lists := ls_del l (EventItem t) (lists k)\<rparr>"
  have inv1: "sched_inv k1" unfolding k1_def by (rule core_inv_del_event [OF inv]) (use ci t in simp)
  have c1: "container k1 (StateItem t) = Some m" "container k1 (EventItem t) = None"
    "\<And>j. owner j \<noteq> t \<Longrightarrow> container k1 j = container k j" using m by (auto simp: k1_def)
  have i1: "items k1 l = rest" "\<And>n. n \<noteq> l \<Longrightarrow> items k1 n = items k n" using h t by (simp_all add: k1_def ls_del_def)
  define k2 where "k2 = k1\<lparr>lists := ls_del m (StateItem t) (lists k1)\<rparr>"
  define k3 where "k3 = (if uxSchedulerSuspended k = 0 then prvAddTaskToReadyList t k2
    else upd_lists (ls_insert_end xPendingReadyList (EventItem t)) k1)"
  define k4 where "k4 = (if prio k t > prio k (pxCurrentTCB k) then k3\<lparr>xYieldPending := True\<rparr> else k3)"
  have inv2: "sched_inv k2" unfolding k2_def by (rule core_inv_del_state [OF inv1 c1(1)]) (use m c1 in auto)
  have inv3: "sched_inv k3"
  proof (cases "uxSchedulerSuspended k = 0")
    case True
    then show ?thesis
      unfolding k3_def by (simp, intro core_inv_add_ready [OF inv2 _ t0]) (use c1 in \<open>auto simp: k2_def\<close>)
  next
    case False
    have "blocked k1 t" using c1(1) m(2) by (auto simp: blocked_def)
    then have "sched_inv (k1\<lparr>lists := ls_insert_end xPendingReadyList (EventItem t) (lists k1)\<rparr>)"
      using lists_ok_insert_end [OF core_invD(1) [OF inv1] c1(2)] by (intro core_inv_add_event [OF inv1 t0]) auto
    then show ?thesis using False by (simp add: k3_def upd_lists_def)
  qed
  have fr: "tcb k3 = tcb k" "pxCurrentTCB k3 = pxCurrentTCB k"
    by (simp_all add: k3_def k2_def k1_def upd_lists_def)
  have s1: "uxSchedulerSuspended k1 = uxSchedulerSuspended k" by (simp add: k1_def)
  have m3: "n \<noteq> m \<and> n \<noteq> xPendingReadyList \<and> (\<forall>p. n \<noteq> pxReadyTasksLists p)" if "waiting_list n" for n
    using waiting_listD [OF that] m(2) by auto
  have i3: "items k3 n = items k1 n" if "waiting_list n" for n
    using m3 [OF that] by (simp add: k3_def k2_def prvAddTaskToReadyList_def upd_lists_def ls_insert_end_def ls_del_def)
  show ?thesis
  proof (rule that [of t k4])
    have "listREMOVE_ITEM (EventItem t) k = Some k1" "listREMOVE_ITEM (StateItem t) k1 = Some k2"
      using listREMOVE_ITEM_eq [of k "EventItem t" l] ci t listREMOVE_ITEM_eq [OF c1(1)] by (simp_all add: k1_def k2_def)
    then show "xTaskRemoveFromEventList l k = Some (prio k t > prio k (pxCurrentTCB k), k4)"
      using h t t0 fr s1 by (cases "uxSchedulerSuspended k = 0") (simp_all add: xTaskRemoveFromEventList_def ls_head_def k4_def k3_def)
    show "sched_inv k4" using inv3 by (simp add: k4_def)
    show "wake_frame k k4"
      by (simp add: wake_frame_def k4_def k3_def k2_def k1_def upd_lists_def)
    show "items k4 l = rest" using i3 [OF l] i1 by (simp add: k4_def)
    show "items k4 n = items k n" if "waiting_list n" "n \<noteq> l" for n using i3 [OF that(1)] i1 that by (simp add: k4_def)
  qed (use t t0 ci b c1 in \<open>auto simp: k4_def k3_def k2_def k1_def upd_lists_def\<close>)
qed

text \<open>Waking the first task of a waiting list, if there is one.\<close>

lemma wake_first_inv:
  assumes inv: "sched_inv k" and l: "waiting_list l"
  obtains w k' where "wake_first l k = Some (w, k')" "sched_inv k'" "wake_frame k k'" "items k' l = tl (items k l)"
    "items k l = [] \<Longrightarrow> k' = k \<and> \<not> w"
    "\<And>t rest. items k l = EventItem t # rest \<Longrightarrow> (w \<longleftrightarrow> prio k t > prio k (pxCurrentTCB k)) \<and>
       (uxSchedulerSuspended k = 0 \<longrightarrow> container k' (StateItem t) = Some (pxReadyTasksLists (prio k t)))"
    "\<And>j. container k j \<noteq> Some l \<Longrightarrow> \<not> (\<exists>t. j = StateItem t \<and> container k (EventItem t) = Some l) \<Longrightarrow> container k' j = container k j"
    "\<And>m. waiting_list m \<Longrightarrow> m \<noteq> l \<Longrightarrow> items k' m = items k m"
proof (cases "items k l")
  case Nil
  then show ?thesis using inv by (intro that [of False k]) (simp_all add: wake_first_def)
next
  case (Cons i rest)
  obtain t k' where r: "i = EventItem t" "t \<noteq> 0" "container k (EventItem t) = Some l"
    "xTaskRemoveFromEventList l k = Some (prio k t > prio k (pxCurrentTCB k), k')" "sched_inv k'"
    "items k' l = rest" "wake_frame k k'" "\<And>j. owner j \<noteq> t \<Longrightarrow> container k' j = container k j"
    "\<And>m. waiting_list m \<Longrightarrow> m \<noteq> l \<Longrightarrow> items k' m = items k m"
    "container k' (StateItem t) = (if uxSchedulerSuspended k = 0 then Some (pxReadyTasksLists (prio k t)) else container k (StateItem t))"
    by (rule xTaskRemoveFromEventList_inv [OF inv Cons l]) blast
  show ?thesis
  proof (rule that [of "prio k t > prio k (pxCurrentTCB k)" k'])
    show "container k' j = container k j"
      if "container k j \<noteq> Some l" "\<not> (\<exists>t. j = StateItem t \<and> container k (EventItem t) = Some l)" for j
      using that r(3) by (intro r(8)) (cases j, auto)
  qed (use r Cons in \<open>auto simp: wake_first_def\<close>)
qed

lemma more_kernel:
  fixes k k' :: "'a kernel_scheme"
  assumes "sched.more k' = sched.more k"
  shows "queues k' = queues k" "mem k' = mem k" "xQueueRegistry k' = xQueueRegistry k"
    "kernel.more k' = kernel.more k"
  using assms by (cases k, cases k', simp)+

lemmas wake_kernel = more_kernel [OF wake_frameD(12)]

text \<open>Blocking on a waiting list: the running task leaves the ready lists and joins the waiters.\<close>

lemma running_no_event:
  assumes "core_inv X strict k" "running_ready k" "pxCurrentTCB k \<notin> X"
  shows "container k (EventItem (pxCurrentTCB k)) = None"
proof (rule ccontr)
  assume "container k (EventItem (pxCurrentTCB k)) \<noteq> None"
  then have "blocked k (pxCurrentTCB k)" by (rule core_invD(11) [OF assms(1) assms(3)])
  then show False using assms(2) by (auto simp: running_ready_def blocked_def)
qed

lemma core_inv_set_event_value:
  assumes inv: "core_inv X strict k"
  shows "core_inv X strict (upd_lists (ls_set_value (EventItem t) v) k)"
proof -
  have "l \<notin> delayed_lists" if "container k (EventItem t) = Some l" for l
    using core_invD(2) [OF inv that] by auto
  then have "lists_ok (ls_set_value (EventItem t) v (lists k))"
    by (rule lists_ok_set_value [OF core_invD(1) [OF inv]])
  then show ?thesis using inv unfolding core_inv_def blocked_def upd_lists_def
    by (elim conjE, intro conjI) simp_all
qed

text \<open>
  The running task goes to a waiting list, in whatever place, and to a delayed list or, for a wait
  without end, to the suspended list.
\<close>

lemma place_on_list_inv:
  fixes k :: "'a sched_scheme"
  assumes inv: "sched_inv k" and rr: "running_ready k" and l: "waiting_list l" and w: "w \<noteq> 0"
    and s1: "lists_ok s1" "liContainer s1 = (liContainer (lists k))(EventItem (pxCurrentTCB k) := Some l)"
      "liValue s1 = liValue (lists k)"
  obtains k' where "prvAddCurrentTaskToDelayedList w ci (k\<lparr>lists := s1\<rparr>) = Some k'" "sched_inv k'"
    "tcb k' = (tcb k)(pxCurrentTCB k := (tcb k (pxCurrentTCB k))\<lparr>ucDelayAborted := False\<rparr>)"
    "pxCurrentTCB k' = pxCurrentTCB k" "uxSchedulerSuspended k' = uxSchedulerSuspended k"
    "xPendedTicks k' = xPendedTicks k" "xTickCount k' = xTickCount k" "heap k' = heap k" "pendSV k' = pendSV k"
    "uxCurrentNumberOfTasks k' = uxCurrentNumberOfTasks k" "xSchedulerRunning k' = xSchedulerRunning k"
    "sched.more k' = sched.more k" "xYieldPending k' = xYieldPending k" "xNumOfOverflows k' = xNumOfOverflows k"
    "container k' (EventItem (pxCurrentTCB k)) = Some l" "blocked k' (pxCurrentTCB k)"
    "w = portMAX_DELAY \<and> ci \<Longrightarrow> container k' (StateItem (pxCurrentTCB k)) = Some xSuspendedTaskList"
    "\<not> (w = portMAX_DELAY \<and> ci) \<Longrightarrow> delayed k' (pxCurrentTCB k) \<and> wake k' (pxCurrentTCB k) = xTickCount k + w"
    "\<And>j. owner j \<noteq> pxCurrentTCB k \<Longrightarrow> container k' j = container k j \<and> liValue (lists k') j = liValue (lists k) j"
    "\<And>m. waiting_list m \<Longrightarrow> items k' m = lsItems s1 m" "liValue (lists k') (EventItem (pxCurrentTCB k)) = liValue (lists k) (EventItem (pxCurrentTCB k))"
proof -
  let ?c = "pxCurrentTCB k"
  have c0: "?c \<noteq> 0" by (rule running_nonzero [OF inv rr])
  define k1 where "k1 = k\<lparr>lists := s1\<rparr>"
  have inv1: "core_inv {?c} True k1"
    unfolding k1_def by (rule core_inv_add_event [OF core_inv_mono [OF inv] c0 s1]) (use waiting_listD [OF l] in auto)
  have rr1: "running_ready k1" using rr s1(2) by (simp add: k1_def running_ready_def)
  have cc: "pxCurrentTCB k1 = ?c" by (simp add: k1_def)
  obtain s b n k' where k': "k' = upd_tcb (pxCurrentTCB k1) (\<lambda>t. t\<lparr>ucDelayAborted := False\<rparr>)
        (k1\<lparr>lists := s, uxTopReadyPriority := b, xNextTaskUnblockTime := n\<rparr>)"
    "prvAddCurrentTaskToDelayedList w ci k1 = Some k'" "core_inv {?c} True k'"
    "\<forall>i. i \<noteq> StateItem (pxCurrentTCB k1) \<longrightarrow> container k' i = container k1 i \<and> liValue s i = liValue (lists k1) i"
    "w = portMAX_DELAY \<and> ci \<longrightarrow> container k' (StateItem (pxCurrentTCB k1)) = Some xSuspendedTaskList"
    "\<not> (w = portMAX_DELAY \<and> ci) \<longrightarrow> wake k' (pxCurrentTCB k1) = xTickCount k1 + w \<and>
       container k' (StateItem (pxCurrentTCB k1)) =
         Some (if xTickCount k1 + w < xTickCount k1 then pxOverflowDelayedTaskList k1 else pxDelayedTaskList k1)"
    "\<forall>m. \<not> state_list m \<longrightarrow> lsItems s m = items k1 m"
    by (rule prvAddCurrentTaskToDelayedList_inv [OF inv1 rr1 w, of ci]) blast
  have dl: "{pxDelayedTaskList k1, pxOverflowDelayedTaskList k1} = delayed_lists" by (rule core_invD(8) [OF inv1])
  have st: "w = portMAX_DELAY \<and> ci \<Longrightarrow> container k' (StateItem ?c) = Some xSuspendedTaskList"
    "\<not> (w = portMAX_DELAY \<and> ci) \<Longrightarrow> delayed k' ?c \<and> wake k' ?c = xTickCount k + w"
    using k'(5,6) dl by (auto simp: cc delayed_def k1_def)
  then have bl: "blocked k' ?c" by (auto simp: blocked_def delayed_def)
  have inv': "sched_inv k'" by (rule core_inv_close [OF k'(3)]) (use bl in simp)
  have v: "liValue (lists k') = liValue s" by (simp add: k'(1))
  show ?thesis
  proof (rule that [of k'])
    show "prvAddCurrentTaskToDelayedList w ci (k\<lparr>lists := s1\<rparr>) = Some k'" using k'(2) by (simp add: k1_def)
    show "container k' (EventItem ?c) = Some l" using k'(4) s1(2) by (simp add: k1_def)
    show "items k' m = lsItems s1 m" if "waiting_list m" for m
      using k'(7) waiting_listD [OF that] by (simp add: k'(1) k1_def)
    show "container k' j = container k j \<and> liValue (lists k') j = liValue (lists k) j" if "owner j \<noteq> ?c" for j
      using k'(4) that v s1 by (cases j) (auto simp: k1_def)
    show "liValue (lists k') (EventItem ?c) = liValue (lists k) (EventItem ?c)"
      using k'(4) v s1(3) by (simp add: k1_def)
  qed (use inv' bl st in \<open>simp_all add: k'(1) k1_def\<close>)
qed

lemma vTaskPlaceOnEventList_inv:
  assumes inv: "sched_inv k" and rr: "running_ready k" and l: "waiting_list l" and w: "w \<noteq> 0"
  obtains k' where "vTaskPlaceOnEventList l w k = Some k'" "sched_inv k'"
    "tcb k' = (tcb k)(pxCurrentTCB k := (tcb k (pxCurrentTCB k))\<lparr>ucDelayAborted := False\<rparr>)"
    "pxCurrentTCB k' = pxCurrentTCB k" "uxSchedulerSuspended k' = uxSchedulerSuspended k"
    "xPendedTicks k' = xPendedTicks k" "xTickCount k' = xTickCount k" "heap k' = heap k" "pendSV k' = pendSV k"
    "uxCurrentNumberOfTasks k' = uxCurrentNumberOfTasks k" "xSchedulerRunning k' = xSchedulerRunning k"
    "sched.more k' = sched.more k" "xYieldPending k' = xYieldPending k"
    "container k' (EventItem (pxCurrentTCB k)) = Some l" "blocked k' (pxCurrentTCB k)"
    "w = portMAX_DELAY \<Longrightarrow> container k' (StateItem (pxCurrentTCB k)) = Some xSuspendedTaskList"
    "w \<noteq> portMAX_DELAY \<Longrightarrow> delayed k' (pxCurrentTCB k) \<and> wake k' (pxCurrentTCB k) = xTickCount k + w"
    "\<And>j. owner j \<noteq> pxCurrentTCB k \<Longrightarrow> container k' j = container k j \<and> liValue (lists k') j = liValue (lists k) j"
    "\<And>m. waiting_list m \<Longrightarrow> items k' m = items (upd_lists (ls_insert l (EventItem (pxCurrentTCB k))) k) m"
proof -
  let ?c = "pxCurrentTCB k" and ?s1 = "ls_insert l (EventItem (pxCurrentTCB k)) (lists k)"
  have ev: "container k (EventItem ?c) = None" by (rule running_no_event [OF inv rr]) simp
  have s1: "lists_ok ?s1" "liContainer ?s1 = (liContainer (lists k))(EventItem ?c := Some l)" "liValue ?s1 = liValue (lists k)"
    using lists_ok_insert [OF core_invD(1) [OF inv] ev] by simp_all
  show ?thesis
  proof (rule place_on_list_inv [OF inv rr l w s1, of True], goal_cases)
    case (1 k')
    then show ?case by (intro that [of k']) (simp_all add: vTaskPlaceOnEventList_def upd_lists_def)
  qed
qed

lemma vTaskPlaceOnEventListRestricted_inv:
  assumes inv: "sched_inv k" and rr: "running_ready k" and l: "waiting_list l" and w: "\<not> forever \<Longrightarrow> w \<noteq> 0"
  obtains k' where "vTaskPlaceOnEventListRestricted l w forever k = Some k'" "sched_inv k'"
    "tcb k' = (tcb k)(pxCurrentTCB k := (tcb k (pxCurrentTCB k))\<lparr>ucDelayAborted := False\<rparr>)"
    "pxCurrentTCB k' = pxCurrentTCB k" "uxSchedulerSuspended k' = uxSchedulerSuspended k"
    "xPendedTicks k' = xPendedTicks k" "xTickCount k' = xTickCount k"
    "uxCurrentNumberOfTasks k' = uxCurrentNumberOfTasks k" "sched.more k' = sched.more k" "xNumOfOverflows k' = xNumOfOverflows k"
    "container k' (EventItem (pxCurrentTCB k)) = Some l"
    "forever \<Longrightarrow> container k' (StateItem (pxCurrentTCB k)) = Some xSuspendedTaskList"
    "\<not> forever \<Longrightarrow> delayed k' (pxCurrentTCB k) \<and> wake k' (pxCurrentTCB k) = xTickCount k + w"
    "\<And>j. owner j \<noteq> pxCurrentTCB k \<Longrightarrow> container k' j = container k j \<and> liValue (lists k') j = liValue (lists k) j"
proof -
  let ?c = "pxCurrentTCB k" and ?s1 = "ls_insert_end l (EventItem (pxCurrentTCB k)) (lists k)"
  let ?w = "if forever then portMAX_DELAY else w"
  have ev: "container k (EventItem ?c) = None" by (rule running_no_event [OF inv rr]) simp
  have s1: "lists_ok ?s1" "liContainer ?s1 = (liContainer (lists k))(EventItem ?c := Some l)" "liValue ?s1 = liValue (lists k)"
    using lists_ok_insert_end [OF core_invD(1) [OF inv] ev] waiting_listD [OF l] by auto
  have "portMAX_DELAY \<noteq> 0" by (simp add: portMAX_DELAY_def)
  then have w': "?w \<noteq> 0" using w by simp
  show ?thesis
  proof (rule place_on_list_inv [OF inv rr l w' s1, of forever], goal_cases)
    case (1 k')
    then show ?case by (intro that [of k']) (simp_all add: vTaskPlaceOnEventListRestricted_def upd_lists_def)
  qed
qed

lemma vTaskPlaceOnUnorderedEventList_inv:
  fixes k :: "'a sched_scheme"
  assumes inv: "sched_inv k" and rr: "running_ready k" and l: "waiting_list l" and w: "w \<noteq> 0"
    and su: "uxSchedulerSuspended k \<noteq> 0"
  obtains k' where "vTaskPlaceOnUnorderedEventList l v w k = Some k'" "sched_inv k'"
    "tcb k' = (tcb k)(pxCurrentTCB k := (tcb k (pxCurrentTCB k))\<lparr>ucDelayAborted := False\<rparr>)"
    "pxCurrentTCB k' = pxCurrentTCB k" "uxSchedulerSuspended k' = uxSchedulerSuspended k"
    "xPendedTicks k' = xPendedTicks k" "xTickCount k' = xTickCount k"
    "uxCurrentNumberOfTasks k' = uxCurrentNumberOfTasks k" "sched.more k' = sched.more k" "xNumOfOverflows k' = xNumOfOverflows k"
    "container k' (EventItem (pxCurrentTCB k)) = Some l"
    "liValue (lists k') (EventItem (pxCurrentTCB k)) = v OR taskEVENT_LIST_ITEM_VALUE_IN_USE"
    "w = portMAX_DELAY \<Longrightarrow> container k' (StateItem (pxCurrentTCB k)) = Some xSuspendedTaskList"
    "w \<noteq> portMAX_DELAY \<Longrightarrow> delayed k' (pxCurrentTCB k) \<and> wake k' (pxCurrentTCB k) = xTickCount k + w"
    "\<And>j. owner j \<noteq> pxCurrentTCB k \<Longrightarrow> container k' j = container k j \<and> liValue (lists k') j = liValue (lists k) j"
    "items k' l = before_index (lsIndex (lists k) l) (EventItem (pxCurrentTCB k)) (items k l)"
proof -
  let ?c = "pxCurrentTCB k" and ?v = "v OR taskEVENT_LIST_ITEM_VALUE_IN_USE"
  define k1 where "k1 = upd_lists (ls_set_value (EventItem ?c) ?v) k"
  let ?s1 = "ls_insert_end l (EventItem ?c) (lists k1)"
  have k1: "sched_inv k1" unfolding k1_def by (rule core_inv_set_event_value [OF inv])
  have f: "pxCurrentTCB k1 = ?c" "tcb k1 = tcb k" "container k1 = container k" "xTickCount k1 = xTickCount k"
    "liValue (lists k1) = (liValue (lists k))(EventItem ?c := ?v)" "sched.more k1 = sched.more k"
    "uxSchedulerSuspended k1 = uxSchedulerSuspended k" "xPendedTicks k1 = xPendedTicks k" "xNumOfOverflows k1 = xNumOfOverflows k"
    "uxCurrentNumberOfTasks k1 = uxCurrentNumberOfTasks k" "items k1 = items k" "lsIndex (lists k1) = lsIndex (lists k)"
    by (simp_all add: k1_def upd_lists_def) (simp_all add: ls_set_value_def)
  have rr1: "running_ready k1" using rr f by (simp add: running_ready_def)
  have ev: "container k1 (EventItem ?c) = None" unfolding f(3) by (rule running_no_event [OF inv rr]) simp
  have s1: "lists_ok ?s1" "liContainer ?s1 = (liContainer (lists k1))(EventItem (pxCurrentTCB k1) := Some l)" "liValue ?s1 = liValue (lists k1)"
    using lists_ok_insert_end [OF core_invD(1) [OF k1] ev] waiting_listD [OF l] f(1) by auto
  show ?thesis
  proof (rule place_on_list_inv [OF k1 rr1 l w s1, of True], goal_cases)
    case (1 k')
    have "vTaskPlaceOnUnorderedEventList l v w k = Some k'"
      using 1(1) su f(1) by (simp add: vTaskPlaceOnUnorderedEventList_def k1_def upd_lists_def Let_def)
    moreover have "items k' l = before_index (lsIndex (lists k) l) (EventItem ?c) (items k l)"
      using 1(20) [OF l] f(11,12) by (simp add: ls_insert_end_def)
    moreover have "j \<noteq> EventItem ?c" if "owner j \<noteq> ?c" for j using that by auto
    ultimately show ?case using 1 f by (intro that [of k']) simp_all
  qed
qed

section \<open>Changes of priority\<close>

lemma blocked_upd_tcb [simp]: "blocked (upd_tcb t f k) = blocked k"
  by (simp add: blocked_def fun_eq_iff)

lemma core_inv_set_prio:
  assumes inv: "core_inv X strict k" and c: "\<And>p. container k (StateItem t) \<noteq> Some (pxReadyTasksLists p)"
    and p: "uxPriority (f (tcb k t)) < configMAX_PRIORITIES" "uxBasePriority (f (tcb k t)) < configMAX_PRIORITIES"
  shows "core_inv X strict (upd_tcb t f k)"
  by (rule core_inv_move [OF inv, where t = t]) (use core_invD [OF inv] c p in auto)

lemma ready_no_event:
  assumes "sched_inv k" "container k (StateItem t) = Some (pxReadyTasksLists p)"
  shows "container k (EventItem t) = None"
proof (rule ccontr)
  assume "container k (EventItem t) \<noteq> None"
  then have "blocked k t" by (intro core_invD(11) [OF assms(1)]) simp_all
  then show False using assms(2) by (auto simp: blocked_def)
qed

text \<open>From \<open>k\<close> to \<open>k'\<close> only the control block of \<open>t\<close> and, when it is ready, its ready list have changed.\<close>

definition reprio :: "addr \<Rightarrow> 'a sched_scheme \<Rightarrow> 'a sched_scheme \<Rightarrow> bool" where
  "reprio t k k' \<longleftrightarrow> (\<forall>u. u \<noteq> t \<longrightarrow> tcb k' u = tcb k u) \<and> heap k' = heap k \<and> pxCurrentTCB k' = pxCurrentTCB k \<and>
     uxCurrentNumberOfTasks k' = uxCurrentNumberOfTasks k \<and> xTickCount k' = xTickCount k \<and>
     xSchedulerRunning k' = xSchedulerRunning k \<and> xPendedTicks k' = xPendedTicks k \<and>
     uxSchedulerSuspended k' = uxSchedulerSuspended k \<and> pendSV k' = pendSV k \<and> xYieldPending k' = xYieldPending k \<and>
     sched.more k' = sched.more k \<and> (\<forall>j. j \<noteq> EventItem t \<longrightarrow> liValue (lists k') j = liValue (lists k) j) \<and>
     (\<forall>j. j \<noteq> StateItem t \<longrightarrow> container k' j = container k j) \<and>
     container k' (StateItem t) = (if \<exists>p. container k (StateItem t) = Some (pxReadyTasksLists p)
       then Some (pxReadyTasksLists (prio k' t)) else container k (StateItem t)) \<and>
     (\<forall>l. waiting_list l \<longrightarrow> items k' l = items k l)"

lemma reprio_refl: "sched_inv k \<Longrightarrow> reprio t k k"
  using core_invD(6) [of "{}" True k t] by (auto simp: reprio_def)

lemma reprio_running:
  assumes "reprio t k k'" "running_ready k"
  shows "running_ready k'"
  using assms unfolding reprio_def running_ready_def by (cases "pxCurrentTCB k = t") auto

lemma set_event_priority_simps [simp]:
  "tcb (set_event_priority t p k) = tcb k" "pxCurrentTCB (set_event_priority t p k) = pxCurrentTCB k"
  "container (set_event_priority t p k) = container k" "items (set_event_priority t p k) = items k"
  "heap (set_event_priority t p k) = heap k" "uxCurrentNumberOfTasks (set_event_priority t p k) = uxCurrentNumberOfTasks k"
  "xTickCount (set_event_priority t p k) = xTickCount k" "xSchedulerRunning (set_event_priority t p k) = xSchedulerRunning k"
  "xPendedTicks (set_event_priority t p k) = xPendedTicks k" "pendSV (set_event_priority t p k) = pendSV k"
  "uxSchedulerSuspended (set_event_priority t p k) = uxSchedulerSuspended k"
  "xYieldPending (set_event_priority t p k) = xYieldPending k" "sched.more (set_event_priority t p k) = sched.more k"
  "j \<noteq> EventItem t \<Longrightarrow> liValue (lists (set_event_priority t p k)) j = liValue (lists k) j"
  by (simp_all add: set_event_priority_def upd_lists_def ls_set_value_def)

lemma set_event_priority_inv: "core_inv X strict k \<Longrightarrow> core_inv X strict (set_event_priority t p k)"
  by (simp add: set_event_priority_def core_inv_set_event_value)

text \<open>A ready task is taken out, its control block changed, and put into the list of its new priority.\<close>

lemma requeue_inv:
  assumes inv: "sched_inv k" and c: "container k (StateItem t) = Some (pxReadyTasksLists (prio k t))"
    and p: "uxPriority (f (tcb k t)) < configMAX_PRIORITIES" "uxBasePriority (f (tcb k t)) < configMAX_PRIORITIES"
  obtains b k1 where "k1 = k\<lparr>lists := ls_del (pxReadyTasksLists (prio k t)) (StateItem t) (lists k), uxTopReadyPriority := b\<rparr>"
    "remove_reset_priority t (prio k t) k = Some k1"
    "\<And>v. sched_inv (prvAddTaskToReadyList t (upd_lists (ls_set_value (EventItem t) v) (upd_tcb t f k1)))"
    "sched_inv (prvAddTaskToReadyList t (upd_tcb t f k1))"
proof -
  have t0: "t \<noteq> 0" using core_invD(3) [OF inv, of "StateItem t"] c by (cases "t = 0") auto
  obtain b where b: "remove_reset_priority t (prio k t) k =
      Some (k\<lparr>lists := ls_del (pxReadyTasksLists (prio k t)) (StateItem t) (lists k), uxTopReadyPriority := b\<rparr>)"
    "sched_inv (k\<lparr>lists := ls_del (pxReadyTasksLists (prio k t)) (StateItem t) (lists k), uxTopReadyPriority := b\<rparr>)"
    (is "sched_inv ?k1")
    using remove_reset_priority_inv [OF inv c] by blast
  have e: "container k (EventItem t) = None" by (rule ready_no_event [OF inv c])
  have inv2: "sched_inv (upd_tcb t f ?k1)" by (rule core_inv_set_prio [OF b(2)]) (use p in simp_all)
  show ?thesis
    by (rule that [OF refl b(1)]; rule core_inv_add_ready [OF _ _ t0])
      (use inv2 core_inv_set_event_value [OF inv2] e in \<open>simp_all add: upd_lists_def\<close>)
qed

section \<open>Priority inheritance\<close>

lemma items_add_ready: "waiting_list l \<Longrightarrow> items (prvAddTaskToReadyList t k) l = items k l"
  using waiting_listD [of l] by (simp add: prvAddTaskToReadyList_def upd_lists_def ls_insert_end_def)

lemma items_del_ready: "waiting_list l \<Longrightarrow> lsItems (ls_del (pxReadyTasksLists p) i s) l = lsItems s l"
  using waiting_listD [of l p] by (simp add: ls_del_def)

lemma xTaskPriorityInherit_inv:
  assumes inv: "sched_inv k"
  obtains k' where "xTaskPriorityInherit m k =
      Some (m \<noteq> 0 \<and> (prio k m < prio k (pxCurrentTCB k) \<or> uxBasePriority (tcb k m) < prio k (pxCurrentTCB k)), k')"
    "sched_inv k'" "reprio m k k'" "m \<noteq> 0 \<Longrightarrow> tcb k' m = (tcb k m)\<lparr>uxPriority := max (prio k m) (prio k (pxCurrentTCB k))\<rparr>"
    "m = 0 \<Longrightarrow> k' = k"
proof (cases "m \<noteq> 0 \<and> prio k m < prio k (pxCurrentTCB k)")
  case False
  show ?thesis
  proof (rule that [of k])
    show "tcb k m = (tcb k m)\<lparr>uxPriority := max (prio k m) (prio k (pxCurrentTCB k))\<rparr>" if "m \<noteq> 0"
      using False that by (simp add: max_absorb1)
    show "reprio m k k" by (rule reprio_refl [OF inv])
  qed (use False inv in \<open>auto simp: xTaskPriorityInherit_def Let_def\<close>)
next
  case True
  define cp where "cp = prio k (pxCurrentTCB k)"
  define k0 where "k0 = set_event_priority m cp k"
  let ?f = "\<lambda>t. t\<lparr>uxPriority := cp\<rparr>"
  have inv0: "sched_inv k0" unfolding k0_def by (rule set_event_priority_inv [OF inv])
  have k0: "tcb k0 = tcb k" "container k0 = container k" "items k0 = items k" "pxCurrentTCB k0 = pxCurrentTCB k"
    by (simp_all add: k0_def)
  have p: "uxPriority (?f (tcb k0 m)) < configMAX_PRIORITIES" "uxBasePriority (?f (tcb k0 m)) < configMAX_PRIORITIES"
    using core_invD(4,5) [OF inv] by (simp_all add: cp_def k0)
  have mx: "max (prio k m) (prio k (pxCurrentTCB k)) = cp" using True by (simp add: cp_def)
  show ?thesis
  proof (cases "container k (StateItem m) = Some (pxReadyTasksLists (prio k m))")
    case rd: True
    have c0: "container k0 (StateItem m) = Some (pxReadyTasksLists (prio k0 m))" using rd by (simp add: k0)
    obtain b k1 where k1: "k1 = k0\<lparr>lists := ls_del (pxReadyTasksLists (prio k0 m)) (StateItem m) (lists k0), uxTopReadyPriority := b\<rparr>"
      "remove_reset_priority m (prio k0 m) k0 = Some k1" "sched_inv (prvAddTaskToReadyList m (upd_tcb m ?f k1))"
      by (rule requeue_inv [where f = ?f, OF inv0 c0 p]) blast
    show ?thesis
    proof (rule that [of "prvAddTaskToReadyList m (upd_tcb m ?f k1)"])
      show "xTaskPriorityInherit m k = Some (m \<noteq> 0 \<and> (prio k m < prio k (pxCurrentTCB k) \<or>
          uxBasePriority (tcb k m) < prio k (pxCurrentTCB k)), prvAddTaskToReadyList m (upd_tcb m ?f k1))"
        using True rd k1(2) k0 by (simp add: xTaskPriorityInherit_def Let_def cp_def [symmetric] k0_def [symmetric])
      show "reprio m k (prvAddTaskToReadyList m (upd_tcb m ?f k1))"
        using rd by (simp add: reprio_def k1(1) items_add_ready items_del_ready k0_def)
    qed (use k1 True mx in \<open>simp_all add: k0\<close>)
  next
    case nr: False
    have nr': "container k0 (StateItem m) \<noteq> Some (pxReadyTasksLists q)" for q
      using nr core_invD(6) [OF inv, of m q] k0 by auto
    show ?thesis
    proof (rule that [of "upd_tcb m ?f k0"])
      show "sched_inv (upd_tcb m ?f k0)" by (rule core_inv_set_prio [OF inv0]) (use p nr' in auto)
      show "xTaskPriorityInherit m k = Some (m \<noteq> 0 \<and> (prio k m < prio k (pxCurrentTCB k) \<or>
          uxBasePriority (tcb k m) < prio k (pxCurrentTCB k)), upd_tcb m ?f k0)"
        using True nr k0 by (simp add: xTaskPriorityInherit_def Let_def cp_def [symmetric] k0_def [symmetric])
      show "reprio m k (upd_tcb m ?f k0)"
        using nr' unfolding k0_def by (simp add: reprio_def)
    qed (use True mx in \<open>simp_all add: k0\<close>)
  qed
qed

text \<open>Giving a mutex back: the last one held restores the base priority.\<close>

lemma xTaskPriorityDisinherit_inv:
  assumes inv: "sched_inv k" and rr: "running_ready k" and h: "uxMutexesHeld (tcb k (pxCurrentTCB k)) \<noteq> 0"
  obtains k' where "xTaskPriorityDisinherit (pxCurrentTCB k) k =
      Some (uxMutexesHeld (tcb k (pxCurrentTCB k)) = 1 \<and> prio k (pxCurrentTCB k) \<noteq> uxBasePriority (tcb k (pxCurrentTCB k)), k')"
    "sched_inv k'" "reprio (pxCurrentTCB k) k k'"
    "tcb k' (pxCurrentTCB k) = (tcb k (pxCurrentTCB k))\<lparr>uxMutexesHeld := uxMutexesHeld (tcb k (pxCurrentTCB k)) - 1,
       uxPriority := (if uxMutexesHeld (tcb k (pxCurrentTCB k)) = 1 then uxBasePriority (tcb k (pxCurrentTCB k))
         else prio k (pxCurrentTCB k))\<rparr>"
proof -
  let ?c = "pxCurrentTCB k"
  let ?g = "\<lambda>t. t\<lparr>uxMutexesHeld := uxMutexesHeld t - 1\<rparr>" and ?f = "\<lambda>t. t\<lparr>uxPriority := uxBasePriority t\<rparr>"
  define k0 where "k0 = upd_tcb ?c ?g k"
  have c0: "?c \<noteq> 0" by (rule running_nonzero [OF inv rr])
  have inv0: "sched_inv k0" unfolding k0_def by (rule core_inv_upd_tcb [OF inv]) (use core_invD(5) [OF inv] in simp_all)
  have cont: "container k0 (StateItem ?c) = Some (pxReadyTasksLists (prio k0 ?c))"
    using rr by (simp add: k0_def running_ready_def)
  show ?thesis
  proof (cases "uxMutexesHeld (tcb k ?c) = 1 \<and> prio k ?c \<noteq> uxBasePriority (tcb k ?c)")
    case True
    have p: "uxPriority (?f (tcb k0 ?c)) < configMAX_PRIORITIES" "uxBasePriority (?f (tcb k0 ?c)) < configMAX_PRIORITIES"
      using core_invD(5) [OF inv0] by simp_all
    obtain b k1 where k1: "k1 = k0\<lparr>lists := ls_del (pxReadyTasksLists (prio k0 ?c)) (StateItem ?c) (lists k0), uxTopReadyPriority := b\<rparr>"
      "remove_reset_priority ?c (prio k0 ?c) k0 = Some k1"
      "\<And>v. sched_inv (prvAddTaskToReadyList ?c (upd_lists (ls_set_value (EventItem ?c) v) (upd_tcb ?c ?f k1)))"
      by (rule requeue_inv [where f = ?f, OF inv0 cont p]) blast
    define v :: TickType_t where "v = of_nat configMAX_PRIORITIES - of_nat (prio (upd_tcb ?c ?f k1) ?c)"
    define k' where "k' = prvAddTaskToReadyList ?c (upd_lists (ls_set_value (EventItem ?c) v) (upd_tcb ?c ?f k1))"
    have t1: "tcb k1 ?c = ?g (tcb k ?c)" "prio k0 ?c = prio k ?c" by (simp_all add: k1(1) k0_def)
    show ?thesis
    proof (rule that [of k'])
      show "xTaskPriorityDisinherit ?c k =
          Some (uxMutexesHeld (tcb k ?c) = 1 \<and> prio k ?c \<noteq> uxBasePriority (tcb k ?c), k')"
        using True c0 k1(2) t1
        by (simp add: xTaskPriorityDisinherit_def Let_def k0_def [symmetric] k'_def v_def) (simp add: k0_def)
      show "sched_inv k'" unfolding k'_def by (rule k1(3))
      show "reprio ?c k k'"
        using rr by (simp add: reprio_def k'_def items_add_ready upd_lists_def)
          (simp add: k1(1) k0_def running_ready_def items_del_ready ls_set_value_def)
    qed (use True t1 in \<open>simp add: k'_def upd_lists_def\<close>)
  next
    case False
    have "uxPriority (?g (tcb k ?c)) = (if uxMutexesHeld (tcb k ?c) = 1 then uxBasePriority (tcb k ?c) else prio k ?c)"
      using False by auto
    then have e: "?g (tcb k ?c) = (tcb k ?c)\<lparr>uxMutexesHeld := uxMutexesHeld (tcb k ?c) - 1,
       uxPriority := (if uxMutexesHeld (tcb k ?c) = 1 then uxBasePriority (tcb k ?c) else prio k ?c)\<rparr>"
      by (intro TCB_t.equality) simp_all
    show ?thesis
    proof (rule that [of k0])
      show "xTaskPriorityDisinherit ?c k =
          Some (uxMutexesHeld (tcb k ?c) = 1 \<and> prio k ?c \<noteq> uxBasePriority (tcb k ?c), k0)"
        using False c0 h by (auto simp: xTaskPriorityDisinherit_def Let_def k0_def)
      show "reprio ?c k k0" using rr by (simp add: reprio_def k0_def running_ready_def)
    qed (use inv0 e in \<open>simp_all add: k0_def\<close>)
  qed
qed

lemma remove_reset_upd_tcb:
  "remove_reset_priority t p k = Some k1 \<Longrightarrow> remove_reset_priority t p (upd_tcb u f k) = Some (upd_tcb u f k1)"
  by (auto simp: remove_reset_priority_def list_remove_def upd_tcb_def split: Option.bind_splits if_splits)

lemma set_event_upd_tcb: "set_event_priority t p (upd_tcb u f k) = upd_tcb u f (set_event_priority t p k)"
  by (simp add: set_event_priority_def upd_lists_def upd_tcb_def)

text \<open>A wait for a mutex that timed out: the holder falls back to what the other waiters justify.\<close>

lemma vTaskPriorityDisinheritAfterTimeout_inv:
  assumes inv: "sched_inv k" and m: "m \<noteq> pxCurrentTCB k" "m \<noteq> 0" and h: "uxMutexesHeld (tcb k m) \<noteq> 0"
    and w: "w < configMAX_PRIORITIES"
  obtains k' where "vTaskPriorityDisinheritAfterTimeout m w k = Some k'" "sched_inv k'" "reprio m k k'"
    "tcb k' m = (tcb k m)\<lparr>uxPriority := (if uxMutexesHeld (tcb k m) = 1 then max (uxBasePriority (tcb k m)) w else prio k m)\<rparr>"
proof -
  define use where "use = max (uxBasePriority (tcb k m)) w"
  have use: "(if uxBasePriority (tcb k m) < w then w else uxBasePriority (tcb k m)) = use" by (simp add: use_def)
  let ?f = "\<lambda>t. t\<lparr>uxPriority := use\<rparr>"
  show ?thesis
  proof (cases "prio k m \<noteq> use \<and> uxMutexesHeld (tcb k m) = 1")
    case False
    have "vTaskPriorityDisinheritAfterTimeout m w k = Some k"
      using False m h by (auto simp: vTaskPriorityDisinheritAfterTimeout_def use Let_def)
    moreover have "tcb k m = (tcb k m)\<lparr>uxPriority := (if uxMutexesHeld (tcb k m) = 1 then max (uxBasePriority (tcb k m)) w else prio k m)\<rparr>"
      using False by (intro TCB_t.equality) (auto simp: use_def)
    ultimately show ?thesis using that [of k] inv reprio_refl [OF inv] by blast
  next
    case True
    define k0 where "k0 = set_event_priority m use k"
    have inv0: "sched_inv k0" unfolding k0_def by (rule set_event_priority_inv [OF inv])
    have k0: "tcb k0 = tcb k" "container k0 = container k" by (simp_all add: k0_def)
    have p: "uxPriority (?f (tcb k0 m)) < configMAX_PRIORITIES" "uxBasePriority (?f (tcb k0 m)) < configMAX_PRIORITIES"
      using core_invD(5) [OF inv] w by (simp_all add: use_def k0)
    have run: "vTaskPriorityDisinheritAfterTimeout m w k = requeue_ready m (prio k m) (upd_tcb m ?f k0)"
      using True m by (simp add: vTaskPriorityDisinheritAfterTimeout_def use Let_def set_event_upd_tcb k0_def)
    show ?thesis
    proof (cases "container k (StateItem m) = Some (pxReadyTasksLists (prio k m))")
      case rd: True
      have c0: "container k0 (StateItem m) = Some (pxReadyTasksLists (prio k0 m))" using rd by (simp add: k0)
      obtain b k1 where k1: "k1 = k0\<lparr>lists := ls_del (pxReadyTasksLists (prio k0 m)) (StateItem m) (lists k0), uxTopReadyPriority := b\<rparr>"
        "remove_reset_priority m (prio k0 m) k0 = Some k1" "sched_inv (prvAddTaskToReadyList m (upd_tcb m ?f k1))"
        by (rule requeue_inv [where f = ?f, OF inv0 c0 p]) blast
      have "requeue_ready m (prio k m) (upd_tcb m ?f k0) = Some (prvAddTaskToReadyList m (upd_tcb m ?f k1))"
        using rd remove_reset_upd_tcb [OF k1(2), of m ?f] by (simp add: requeue_ready_def k0)
      then show ?thesis using run k1 True rd
        by (intro that [of "prvAddTaskToReadyList m (upd_tcb m ?f k1)"])
          (simp_all add: reprio_def items_add_ready items_del_ready k0_def use_def)
    next
      case nr: False
      have nr': "container k (StateItem m) \<noteq> Some (pxReadyTasksLists q)" for q
        using nr core_invD(6) [OF inv, of m q] by auto
      have "requeue_ready m (prio k m) (upd_tcb m ?f k0) = Some (upd_tcb m ?f k0)"
        using nr by (simp add: requeue_ready_def k0)
      moreover have "sched_inv (upd_tcb m ?f k0)" by (rule core_inv_set_prio [OF inv0]) (use p nr' k0 in auto)
      ultimately show ?thesis using run True nr'
        by (intro that [of "upd_tcb m ?f k0"]) (simp_all add: reprio_def k0_def use_def)
    qed
  qed
qed

end
