(* ===== verification/FR_Ring.thy ===== *)
theory FR_Ring
  imports FR_Queue
begin

text \<open>
  The ring buffer of a queue and the sequence of items it holds: \<^verbatim>\<open>prvCopyDataToQueue\<close> and
  \<^verbatim>\<open>prvCopyDataFromQueue\<close> implement appending, prepending, replacing and taking the first item.
\<close>

section \<open>Bytes\<close>

lemma length_bytes_at [simp]: "length (bytes_at m a n) = n"
  by (simp add: bytes_at_def)

lemma nth_bytes_at: "i < n \<Longrightarrow> bytes_at m a n ! i = m (a + i)"
  by (simp add: bytes_at_def)

lemma bytes_at_write_same: "length bs = n \<Longrightarrow> bytes_at (write_bytes a bs m) a n = bs"
  by (rule nth_equalityI) (simp_all add: nth_bytes_at write_bytes_def)

lemma bytes_at_write_other:
  assumes "a + n \<le> b \<or> b + length bs \<le> a"
  shows "bytes_at (write_bytes b bs m) a n = bytes_at m a n"
  using assms by (intro nth_equalityI) (auto simp: nth_bytes_at write_bytes_def)

lemma write_bytes_outside: "x < a \<or> a + length bs \<le> x \<Longrightarrow> write_bytes a bs m x = m x"
  by (auto simp: write_bytes_def)

text \<open>A 32-bit value is the value of its four bytes.\<close>

lemma length_pointer_bytes [simp]: "length (pointer_bytes p) = 4"
  by (simp add: pointer_bytes_def)

lemma pointer_roundtrip:
  assumes "p < 2 ^ 32"
  shows "bytes_pointer (pointer_bytes p) = p"
proof -
  have u: "[0..<4] = [0, 1, 2, 3 :: nat]" by (simp add: upt_rec)
  have d: "p div 256 div 256 = p div 65536" "p div 65536 div 256 = p div 16777216" by (simp_all add: div_mult2_eq [symmetric])
  have e: "p = 256 * (p div 256) + p mod 256" for p :: nat by simp
  have "p div 16777216 < 256" using assms by (simp add: less_mult_imp_div_less)
  then have "p div 16777216 mod 256 = p div 16777216" by simp
  then have "bytes_pointer (pointer_bytes p) =
      p mod 256 + (256 * (p div 256 mod 256) + (65536 * (p div 65536 mod 256) + 16777216 * (p div 16777216)))"
    by (simp add: pointer_bytes_def bytes_pointer_def u unat_of_nat)
  also have "\<dots> = p" using e [of p] e [of "p div 256"] e [of "p div 65536"] unfolding d by linarith
  finally show ?thesis .
qed

section \<open>Slots\<close>

abbreviation slot :: "Queue_t \<Rightarrow> nat \<Rightarrow> addr" where
  "slot Q i \<equiv> pcHead Q + (i mod uxLength Q) * uxItemSize Q"

definition read_index :: "Queue_t \<Rightarrow> nat" where
  "read_index Q = (pcReadFrom Q - pcHead Q) div uxItemSize Q"

text \<open>
  The invariant of the pointers: \<^verbatim>\<open>pcReadFrom\<close> is the slot read last, and \<^verbatim>\<open>pcWriteTo\<close> the slot after
  the last waiting item.
\<close>

definition ring_ok :: "Queue_t \<Rightarrow> bool" where
  "ring_ok Q \<longleftrightarrow> 0 < uxItemSize Q \<and> 0 < uxLength Q \<and> uxMessagesWaiting Q \<le> uxLength Q \<and>
     pcTail Q = pcHead Q + uxLength Q * uxItemSize Q \<and> read_index Q < uxLength Q \<and>
     pcReadFrom Q = slot Q (read_index Q) \<and>
     pcWriteTo Q = slot Q (read_index Q + 1 + uxMessagesWaiting Q)"

definition queue_items :: "Queue_t \<Rightarrow> (addr \<Rightarrow> u8) \<Rightarrow> u8 list list" where
  "queue_items Q m = map (\<lambda>i. bytes_at m (slot Q (read_index Q + 1 + i)) (uxItemSize Q)) [0..<uxMessagesWaiting Q]"

lemma length_queue_items [simp]: "length (queue_items Q m) = uxMessagesWaiting Q"
  by (simp add: queue_items_def)

lemma read_index_eq: "0 < uxItemSize Q \<Longrightarrow> pcReadFrom Q = pcHead Q + r * uxItemSize Q \<Longrightarrow> read_index Q = r"
  by (simp add: read_index_def)

text \<open>Slots lie inside the storage area, and different slots do not overlap.\<close>

lemma slot_in_storage:
  assumes "0 < uxLength Q"
  shows "pcHead Q \<le> slot Q i" "slot Q i + uxItemSize Q \<le> pcHead Q + uxLength Q * uxItemSize Q"
proof -
  have "Suc (i mod uxLength Q) * uxItemSize Q \<le> uxLength Q * uxItemSize Q"
    using assms by (intro mult_le_mono1) (simp add: Suc_leI)
  then show "slot Q i + uxItemSize Q \<le> pcHead Q + uxLength Q * uxItemSize Q" by simp
qed simp

lemma slots_disjoint:
  assumes "i mod uxLength Q \<noteq> j mod uxLength Q"
  shows "slot Q i + uxItemSize Q \<le> slot Q j \<or> slot Q j + uxItemSize Q \<le> slot Q i"
proof (cases "i mod uxLength Q < j mod uxLength Q")
  case True
  then have "Suc (i mod uxLength Q) * uxItemSize Q \<le> (j mod uxLength Q) * uxItemSize Q" by (intro mult_le_mono1) simp
  then show ?thesis by simp
next
  case False
  then have "Suc (j mod uxLength Q) * uxItemSize Q \<le> (i mod uxLength Q) * uxItemSize Q"
    using assms by (intro mult_le_mono1) simp
  then show ?thesis by simp
qed

lemma mod_add_inj:
  assumes "i < n" "j < n" "i \<noteq> j"
  shows "(r + i) mod n \<noteq> (r + j) mod (n::nat)"
proof
  assume eq: "(r + i) mod n = (r + j) mod n"
  have "n dvd (r + max i j) - (r + min i j)"
    using eq by (intro iffD1 [OF mod_eq_dvd_iff_nat]) (auto simp: max_def min_def)
  then have "n dvd max i j - min i j" by simp
  then have "n \<le> max i j - min i j" using assms(3) by (intro dvd_imp_le) auto
  then show False using assms(1,2) by auto
qed

text \<open>The step of a pointer to the next slot with the wrap at the end of the storage.\<close>

lemma next_slot:
  assumes "0 < uxLength Q" "0 < uxItemSize Q" "i < uxLength Q"
  shows "(if pcHead Q + uxLength Q * uxItemSize Q \<le> pcHead Q + i * uxItemSize Q + uxItemSize Q then pcHead Q
      else pcHead Q + i * uxItemSize Q + uxItemSize Q) = slot Q (i + 1)"
proof (cases "i + 1 = uxLength Q")
  case True
  then have "uxLength Q * uxItemSize Q = i * uxItemSize Q + uxItemSize Q" by (metis Suc_eq_plus1 add.commute mult_Suc)
  then show ?thesis using True by simp
next
  case False
  then have l: "i + 1 < uxLength Q" using assms(3) by simp
  then have "(i + 1) * uxItemSize Q < uxLength Q * uxItemSize Q" using assms(2) by (intro mult_strict_right_mono)
  then have "i * uxItemSize Q + uxItemSize Q < uxLength Q * uxItemSize Q" by simp
  then show ?thesis using l by simp
qed

section \<open>Sending to the ring\<close>

lemma copy_back:
  assumes ok: "ring_ok Q" and n: "uxMessagesWaiting Q < uxLength Q" and len: "length item = uxItemSize Q"
    and r: "copy_to_ring queueSEND_TO_BACK item (Q, m) = (Q', m')"
  shows "ring_ok Q'" "queue_items Q' m' = queue_items Q m @ [item]" "Q' = Q\<lparr>pcWriteTo := pcWriteTo Q',
      uxMessagesWaiting := uxMessagesWaiting Q + 1\<rparr>"
    "\<And>x. x < pcHead Q \<or> pcTail Q \<le> x \<Longrightarrow> m' x = m x"
proof -
  let ?w = "read_index Q + 1 + uxMessagesWaiting Q"
  have ok': "0 < uxItemSize Q" "0 < uxLength Q" "pcTail Q = pcHead Q + uxLength Q * uxItemSize Q"
    "pcWriteTo Q = slot Q ?w" using ok by (simp_all add: ring_ok_def)
  have m': "m' = write_bytes (slot Q ?w) item m" and
    Q': "Q' = Q\<lparr>pcWriteTo := slot Q (?w mod uxLength Q + 1), uxMessagesWaiting := uxMessagesWaiting Q + 1\<rparr>"
    using r next_slot [OF ok'(2,1), of "?w mod uxLength Q"] ok'
    by (auto simp: copy_to_ring_def Let_def add.commute add.left_commute)
  have ri: "read_index Q' = read_index Q" by (simp add: Q' read_index_def)
  show "ring_ok Q'" using ok n ri unfolding ring_ok_def by (simp add: Q' mod_simps)
  have "bytes_at m' (slot Q (read_index Q + 1 + i)) (uxItemSize Q) = bytes_at m (slot Q (read_index Q + 1 + i)) (uxItemSize Q)"
    if "i < uxMessagesWaiting Q" for i
    unfolding m' using slots_disjoint [OF mod_add_inj [of i "uxLength Q" "uxMessagesWaiting Q" "read_index Q + 1"]] that n
    by (intro bytes_at_write_other) (simp add: len)
  moreover have "bytes_at m' (slot Q ?w) (uxItemSize Q) = item"
    unfolding m' using len by (rule bytes_at_write_same)
  ultimately show "queue_items Q' m' = queue_items Q m @ [item]"
    unfolding queue_items_def ri by (simp add: Q')
  show "m' x = m x" if "x < pcHead Q \<or> pcTail Q \<le> x" for x
    unfolding m' using that slot_in_storage [OF ok'(2), of ?w] len ok'(3) by (intro write_bytes_outside) auto
qed (use r in \<open>auto simp: copy_to_ring_def Let_def\<close>)

text \<open>The step to the previous slot.\<close>

lemma prev_slot:
  assumes "0 < uxLength Q" "0 < uxItemSize Q" "i < uxLength Q"
  shows "(if pcHead Q + i * uxItemSize Q < pcHead Q + uxItemSize Q then pcHead Q + uxLength Q * uxItemSize Q - uxItemSize Q
      else pcHead Q + i * uxItemSize Q - uxItemSize Q) = pcHead Q + (if i = 0 then uxLength Q - 1 else i - 1) * uxItemSize Q"
proof (cases i)
  case 0
  then show ?thesis using assms by (cases "uxLength Q") auto
next
  case (Suc j)
  then show ?thesis by simp
qed

lemma copy_front:
  assumes ok: "ring_ok Q" and n: "uxMessagesWaiting Q < uxLength Q" and len: "length item = uxItemSize Q"
    and r: "copy_to_ring queueSEND_TO_FRONT item (Q, m) = (Q', m')"
  shows "ring_ok Q'" "queue_items Q' m' = item # queue_items Q m" "Q' = Q\<lparr>pcReadFrom := pcReadFrom Q',
      uxMessagesWaiting := uxMessagesWaiting Q + 1\<rparr>"
    "\<And>x. x < pcHead Q \<or> pcTail Q \<le> x \<Longrightarrow> m' x = m x"
proof -
  let ?r = "read_index Q"
  let ?p = "if ?r = 0 then uxLength Q - 1 else ?r - 1"
  have ok': "0 < uxItemSize Q" "0 < uxLength Q" "pcTail Q = pcHead Q + uxLength Q * uxItemSize Q" "?r < uxLength Q"
    "pcReadFrom Q = pcHead Q + ?r * uxItemSize Q" "pcWriteTo Q = slot Q (?r + 1 + uxMessagesWaiting Q)"
    using ok by (simp_all add: ring_ok_def)
  have m': "m' = write_bytes (pcHead Q + ?r * uxItemSize Q) item m" and
    Q': "Q' = Q\<lparr>pcReadFrom := pcHead Q + ?p * uxItemSize Q, uxMessagesWaiting := uxMessagesWaiting Q + 1\<rparr>"
    using r prev_slot [OF ok'(2,1,4)] ok'(3,5)
    by (auto simp: copy_to_ring_def Let_def)
  have ri: "read_index Q' = ?p" by (rule read_index_eq) (simp_all add: Q' ok')
  have nx: "(?p + 1 + j) mod uxLength Q = (?r + j) mod uxLength Q" for j
    using ok'(2,4) by (cases "?r = 0") auto
  show "ring_ok Q'" unfolding ring_ok_def ri using ok' n nx [of "uxMessagesWaiting Q + 1"] by (auto simp: Q')
  have "bytes_at m' (slot Q (?r + Suc i)) (uxItemSize Q) = bytes_at m (slot Q (?r + Suc i)) (uxItemSize Q)"
    if "i < uxMessagesWaiting Q" for i
    unfolding m' using slots_disjoint [OF mod_add_inj [of "Suc i" "uxLength Q" 0 ?r]] that n ok'(4)
    by (intro bytes_at_write_other) (simp add: len)
  moreover have "bytes_at m' (slot Q ?r) (uxItemSize Q) = item"
    unfolding m' using len ok'(4) by (simp add: bytes_at_write_same)
  ultimately show "queue_items Q' m' = item # queue_items Q m"
    unfolding queue_items_def ri using nx by (simp add: Q' map_upt_Suc del: upt_Suc)
  show "m' x = m x" if "x < pcHead Q \<or> pcTail Q \<le> x" for x
    unfolding m' using that slot_in_storage [OF ok'(2), of ?r] len ok'(3,4) by (intro write_bytes_outside) auto
qed (use r in \<open>auto simp: copy_to_ring_def Let_def\<close>)

lemma copy_overwrite:
  assumes ok: "ring_ok Q" and n: "uxLength Q = 1" and len: "length item = uxItemSize Q"
    and r: "copy_to_ring queueOVERWRITE item (Q, m) = (Q', m')"
  shows "ring_ok Q'" "queue_items Q' m' = [item]" "Q' = Q\<lparr>pcReadFrom := pcReadFrom Q', uxMessagesWaiting := 1\<rparr>"
    "\<And>x. x < pcHead Q \<or> pcTail Q \<le> x \<Longrightarrow> m' x = m x"
proof -
  have ok': "0 < uxItemSize Q" "pcTail Q = pcHead Q + uxItemSize Q" "read_index Q = 0" "pcReadFrom Q = pcHead Q"
    "pcWriteTo Q = pcHead Q" "uxMessagesWaiting Q \<le> 1" using ok n by (simp_all add: ring_ok_def)
  have m': "m' = write_bytes (pcHead Q) item m" and
    Q': "Q' = Q\<lparr>pcReadFrom := pcHead Q, uxMessagesWaiting := 1\<rparr>"
    using r ok' by (auto simp: copy_to_ring_def Let_def split: if_splits)
  have ri: "read_index Q' = 0" by (simp add: Q' read_index_def)
  show "ring_ok Q'" using ok' n ri by (simp add: ring_ok_def Q')
  show "queue_items Q' m' = [item]" using len n ri by (simp add: queue_items_def Q' m' bytes_at_write_same)
  show "Q' = Q\<lparr>pcReadFrom := pcReadFrom Q', uxMessagesWaiting := 1\<rparr>" by (simp add: Q')
  show "m' x = m x" if "x < pcHead Q \<or> pcTail Q \<le> x" for x
    unfolding m' using that len ok'(2) by (intro write_bytes_outside) auto
qed

section \<open>Receiving from the ring\<close>

text \<open>
  \<^verbatim>\<open>prvCopyDataFromQueue\<close> followed by the decrement of the count; the caller's buffer does not overlap
  the storage.
\<close>

lemma copy_from:
  assumes ok: "ring_ok Q" and n: "0 < uxMessagesWaiting Q"
    and buf: "buf + uxItemSize Q \<le> pcHead Q \<or> pcTail Q \<le> buf"
    and r: "copy_from_ring buf (Q, m) = (Q', m')"
  shows "ring_ok (Q'\<lparr>uxMessagesWaiting := uxMessagesWaiting Q - 1\<rparr>)"
    "queue_items Q m = bytes_at m' buf (uxItemSize Q) # queue_items (Q'\<lparr>uxMessagesWaiting := uxMessagesWaiting Q - 1\<rparr>) m'"
    "Q' = Q\<lparr>pcReadFrom := pcReadFrom Q'\<rparr>" "queue_items Q m' = queue_items Q m"
    "\<And>x. x < buf \<or> buf + uxItemSize Q \<le> x \<Longrightarrow> m' x = m x"
proof -
  let ?r = "read_index Q"
  have ok': "0 < uxItemSize Q" "0 < uxLength Q" "pcTail Q = pcHead Q + uxLength Q * uxItemSize Q" "?r < uxLength Q"
    "pcReadFrom Q = pcHead Q + ?r * uxItemSize Q" "pcWriteTo Q = slot Q (?r + 1 + uxMessagesWaiting Q)"
    "uxMessagesWaiting Q \<le> uxLength Q"
    using ok by (simp_all add: ring_ok_def)
  have e: "(if pcTail Q \<le> pcReadFrom Q + uxItemSize Q then pcHead Q else pcReadFrom Q + uxItemSize Q) = slot Q (?r + 1)"
    using next_slot [OF ok'(2,1,4)] by (simp only: ok'(3,5))
  have m': "m' = write_bytes buf (bytes_at m (slot Q (?r + 1)) (uxItemSize Q)) m" and
    Q': "Q' = Q\<lparr>pcReadFrom := slot Q (?r + 1)\<rparr>"
    using r by (simp_all add: copy_from_ring_def Let_def e)
  define Q'' where "Q'' = Q'\<lparr>uxMessagesWaiting := uxMessagesWaiting Q - 1\<rparr>"
  have ri: "read_index Q'' = (?r + 1) mod uxLength Q" by (rule read_index_eq) (simp_all add: Q''_def Q' ok')
  have nx: "((?r + 1) mod uxLength Q + j) mod uxLength Q = (?r + 1 + j) mod uxLength Q" for j by (simp add: mod_simps)
  show "ring_ok (Q'\<lparr>uxMessagesWaiting := uxMessagesWaiting Q - 1\<rparr>)"
    unfolding Q''_def [symmetric] ring_ok_def ri using ok' n nx [of "Suc (uxMessagesWaiting Q - 1)"]
    by (simp add: Q''_def Q')
  have same: "bytes_at m' (slot Q j) (uxItemSize Q) = bytes_at m (slot Q j) (uxItemSize Q)" for j
    unfolding m' using slot_in_storage [OF ok'(2), of j] buf ok'(3) by (intro bytes_at_write_other) auto
  then show same_items: "queue_items Q m' = queue_items Q m" by (simp add: queue_items_def)
  obtain k where k: "uxMessagesWaiting Q = Suc k" using n by (cases "uxMessagesWaiting Q") auto
  have "bytes_at m' buf (uxItemSize Q) = bytes_at m (slot Q (?r + 1)) (uxItemSize Q)"
    unfolding m' by (rule bytes_at_write_same) simp
  then show "queue_items Q m = bytes_at m' buf (uxItemSize Q) # queue_items (Q'\<lparr>uxMessagesWaiting := uxMessagesWaiting Q - 1\<rparr>) m'"
    unfolding Q''_def [symmetric] queue_items_def ri using same nx [of "Suc i" for i]
    by (simp add: Q''_def Q' k map_upt_Suc del: upt_Suc)
  show "Q' = Q\<lparr>pcReadFrom := pcReadFrom Q'\<rparr>" by (simp add: Q')
  show "m' x = m x" if "x < buf \<or> buf + uxItemSize Q \<le> x" for x
    unfolding m' using that by (intro write_bytes_outside) auto
qed

end
