(* ===== verification/FR_Queue_Props.thy ===== *)
theory FR_Queue_Props
  imports FR_Event_Inv FR_Ring
begin

text \<open>
  The contract of queues: a bounded first-in first-out buffer whose operations return, keep the
  scheduler's invariant and wake the tasks that wait for them.
\<close>

section \<open>Updates of the queue part of the state\<close>

lemma core_inv_kernel [simp]:
  "core_inv X strict (upd_queue q f k) = core_inv X strict k"
  "core_inv X strict (k\<lparr>mem := m\<rparr>) = core_inv X strict k"
  "core_inv X strict (k\<lparr>queues := qs\<rparr>) = core_inv X strict k"
  by (simp_all add: core_inv_def blocked_def upd_queue_def)

lemma upd_queue_more [simp]: "kernel.more (upd_queue q f k) = kernel.more k"
  by (simp add: upd_queue_def)

lemma upd_queue_simps [simp]:
  "queues (upd_queue q f k) = (queues k)(q := f (queues k q))" "mem (upd_queue q f k) = mem k"
  "lists (upd_queue q f k) = lists k" "tcb (upd_queue q f k) = tcb k" "heap (upd_queue q f k) = heap k"
  "pxCurrentTCB (upd_queue q f k) = pxCurrentTCB k" "xTickCount (upd_queue q f k) = xTickCount k"
  "uxSchedulerSuspended (upd_queue q f k) = uxSchedulerSuspended k" "pendSV (upd_queue q f k) = pendSV k"
  "xPendedTicks (upd_queue q f k) = xPendedTicks k" "xYieldPending (upd_queue q f k) = xYieldPending k"
  "uxCurrentNumberOfTasks (upd_queue q f k) = uxCurrentNumberOfTasks k"
  "xSchedulerRunning (upd_queue q f k) = xSchedulerRunning k"
  "xNumOfOverflows (upd_queue q f k) = xNumOfOverflows k" "xQueueRegistry (upd_queue q f k) = xQueueRegistry k"
  "uxDeletedTasksWaitingCleanUp (upd_queue q f k) = uxDeletedTasksWaitingCleanUp k"
  by (simp_all add: upd_queue_def)

lemma running_ready_kernel [simp]:
  "running_ready (upd_queue q f k) = running_ready k" "running_ready (k\<lparr>mem := m\<rparr>) = running_ready k"
  by (simp_all add: running_ready_def)

text \<open>
  From \<open>k\<close> to \<open>k'\<close> the first task of the waiting list \<open>l\<close>, if there is one, has been woken: it leaves the
  list and, unless the scheduler is suspended, is ready; a switch is requested when its priority is
  above the running task's; no other task moves and no queue changes.
\<close>

definition wakes_head :: "list_id \<Rightarrow> 'a sched_scheme \<Rightarrow> 'a sched_scheme \<Rightarrow> bool" where
  "wakes_head l k k' \<longleftrightarrow> sched_inv k' \<and> wake_frame (k\<lparr>pendSV := pendSV k'\<rparr>) k' \<and> (pendSV k \<longrightarrow> pendSV k') \<and>
     items k' l = tl (items k l) \<and> (\<forall>m. waiting_list m \<longrightarrow> m \<noteq> l \<longrightarrow> items k' m = items k m) \<and>
     (\<forall>t rest. items k l = EventItem t # rest \<longrightarrow>
        (uxSchedulerSuspended k = 0 \<longrightarrow> container k' (StateItem t) = Some (pxReadyTasksLists (prio k t))) \<and>
        (prio k t > prio k (pxCurrentTCB k) \<longrightarrow> pendSV k')) \<and>
     (\<forall>j. container k j \<noteq> Some l \<longrightarrow> \<not> (\<exists>t. j = StateItem t \<and> container k (EventItem t) = Some l) \<longrightarrow>
        container k' j = container k j)"

lemma wakes_headD:
  assumes "wakes_head l k k'"
  shows "sched_inv k'" "tcb k' = tcb k" "heap k' = heap k" "pxCurrentTCB k' = pxCurrentTCB k"
    "uxCurrentNumberOfTasks k' = uxCurrentNumberOfTasks k" "xTickCount k' = xTickCount k"
    "xSchedulerRunning k' = xSchedulerRunning k" "xPendedTicks k' = xPendedTicks k"
    "uxSchedulerSuspended k' = uxSchedulerSuspended k" "sched.more k' = sched.more k"
    "items k' l = tl (items k l)" "waiting_list m \<Longrightarrow> m \<noteq> l \<Longrightarrow> items k' m = items k m"
  using assms wake_frameD [of "k\<lparr>pendSV := pendSV k'\<rparr>" k'] unfolding wakes_head_def by simp_all

lemmas wakes_head_kernel = more_kernel [OF wakes_headD(10)]

lemma wake_yield:
  assumes "sched_inv k" "waiting_list l"
  obtains w k1 where "wake_first l k = Some (w, k1)" "wakes_head l k (yield_if (w, k1))"
proof -
  obtain w k1 where k1: "wake_first l k = Some (w, k1)" "sched_inv k1" "wake_frame k k1" "items k1 l = tl (items k l)"
    "\<forall>t rest. items k l = EventItem t # rest \<longrightarrow> (w \<longleftrightarrow> prio k t > prio k (pxCurrentTCB k)) \<and>
       (uxSchedulerSuspended k = 0 \<longrightarrow> container k1 (StateItem t) = Some (pxReadyTasksLists (prio k t)))"
    "\<forall>j. container k j \<noteq> Some l \<longrightarrow> \<not> (\<exists>t. j = StateItem t \<and> container k (EventItem t) = Some l) \<longrightarrow> container k1 j = container k j"
    "\<forall>m. waiting_list m \<longrightarrow> m \<noteq> l \<longrightarrow> items k1 m = items k m"
    by (rule wake_first_inv [OF assms]) blast
  have "wakes_head l k (yield_if (w, k1))"
    using k1(2-) wake_frameD [OF k1(3)] unfolding wakes_head_def
    by (simp add: yield_if_def portYIELD_def wake_frame_def)
  then show ?thesis using k1(1) that by blast
qed

lemma wakes_head_running:
  assumes "wakes_head l k k'" "running_ready k" "sched_inv k" "waiting_list l"
  shows "running_ready k'"
proof -
  let ?c = "pxCurrentTCB k"
  have "container k (StateItem ?c) \<noteq> Some l" using assms(2) waiting_listD [OF assms(4)] by (simp add: running_ready_def) metis
  moreover have "container k (EventItem ?c) = None" by (rule running_no_event [OF assms(3,2)]) simp
  ultimately have "container k' (StateItem ?c) = container k (StateItem ?c)"
    using assms(1) unfolding wakes_head_def by simp
  then show ?thesis using wakes_headD(2,4) [OF assms(1)] assms(2) by (simp add: running_ready_def)
qed

section \<open>A concrete state\<close>

text \<open>
  The three tasks of \<open>demo\<close> with a queue of two 4-byte items at 500 (storage from 600), a mutex at 510,
  and a counting semaphore of at most 3 at 520.
\<close>

definition demo_queues :: "addr \<Rightarrow> Queue_t" where
  "demo_queues = (\<lambda>_. \<lparr>pcHead = 0, pcWriteTo = 0, pcTail = 0, pcReadFrom = 0, uxMessagesWaiting = 0, uxLength = 1,
     uxItemSize = 0, cRxLock = queueUNLOCKED, cTxLock = queueUNLOCKED, ucStaticallyAllocated = False, pxQueueSetContainer = 0\<rparr>)
   (500 := \<lparr>pcHead = 600, pcWriteTo = 600, pcTail = 608, pcReadFrom = 604, uxMessagesWaiting = 0, uxLength = 2,
     uxItemSize = 4, cRxLock = queueUNLOCKED, cTxLock = queueUNLOCKED, ucStaticallyAllocated = False, pxQueueSetContainer = 0\<rparr>,
    510 := \<lparr>pcHead = 0, pcWriteTo = 510, pcTail = 0, pcReadFrom = 0, uxMessagesWaiting = 1, uxLength = 1,
     uxItemSize = 0, cRxLock = queueUNLOCKED, cTxLock = queueUNLOCKED, ucStaticallyAllocated = False, pxQueueSetContainer = 0\<rparr>,
    520 := \<lparr>pcHead = 520, pcWriteTo = 520, pcTail = 520, pcReadFrom = 520, uxMessagesWaiting = 2, uxLength = 3,
     uxItemSize = 0, cRxLock = queueUNLOCKED, cTxLock = queueUNLOCKED, ucStaticallyAllocated = False, pxQueueSetContainer = 0\<rparr>)"

definition demo_kernel :: kernel where
  "demo_kernel = sched.extend demo \<lparr>queues = demo_queues, mem = (\<lambda>_. 0), xQueueRegistry = replicate 10 (None, 0)\<rparr>"

lemma demo_kernel_simps [simp]:
  "lists demo_kernel = lists demo" "tcb demo_kernel = demo_tcbs" "heap demo_kernel = boot_heap 8"
  "pxCurrentTCB demo_kernel = 1000" "uxCurrentNumberOfTasks demo_kernel = 3" "xTickCount demo_kernel = 0"
  "uxSchedulerSuspended demo_kernel = 0" "xPendedTicks demo_kernel = 0" "xSchedulerRunning demo_kernel"
  "xYieldPending demo_kernel = False" "pendSV demo_kernel = False" "queues demo_kernel = demo_queues" "mem demo_kernel = (\<lambda>_. 0)"
  by (simp_all add: demo_kernel_def sched.defs)

lemma demo_kernel_inv: "sched_inv demo_kernel"
  using demo_inv by (simp add: core_inv_def blocked_def demo_kernel_def sched.defs)

lemma demo_kernel_running: "running_ready demo_kernel"
  using demo_running by (simp add: running_ready_def demo_kernel_def sched.defs)

lemma demo_other_lists: "(\<And>p. l \<noteq> pxReadyTasksLists p) \<Longrightarrow> items demo l = []"
  by (simp add: demo_def boot_sched_def boot_lists_def prvAddTaskToReadyList_def upd_lists_def ls_insert_end_def)

section \<open>Sending\<close>

lemma after_send_wakes:
  "pxQueueSetContainer (queues k q) = 0 \<Longrightarrow>
   after_send q pos n False k = map_option yield_if (wake_first (xTasksWaitingToReceive q) k)"
  by (simp add: after_send_def wake_first_def yield_if_def)

text \<open>The state of the queue after an item has been copied into it.\<close>

definition sent :: "addr \<Rightarrow> copy_position \<Rightarrow> u8 list \<Rightarrow> 'a kernel_scheme \<Rightarrow> 'a kernel_scheme" where
  "sent q pos bs k = (let (Q, m) = copy_to_ring pos bs (queues k q, mem k) in upd_queue q (\<lambda>_. Q) (k\<lparr>mem := m\<rparr>))"

lemma sent_simps [simp]:
  "core_inv X strict (sent q pos bs k) = core_inv X strict k" "lists (sent q pos bs k) = lists k"
  "tcb (sent q pos bs k) = tcb k" "pxCurrentTCB (sent q pos bs k) = pxCurrentTCB k" "heap (sent q pos bs k) = heap k"
  "uxSchedulerSuspended (sent q pos bs k) = uxSchedulerSuspended k" "running_ready (sent q pos bs k) = running_ready k"
  "queues (sent q pos bs k) q = fst (copy_to_ring pos bs (queues k q, mem k))"
  "p \<noteq> q \<Longrightarrow> queues (sent q pos bs k) p = queues k p"
  "mem (sent q pos bs k) = snd (copy_to_ring pos bs (queues k q, mem k))"
  by (simp_all add: sent_def split_beta)

lemma copy_to_ring_container [simp]:
  "pxQueueSetContainer (fst (copy_to_ring pos bs (Q, m))) = pxQueueSetContainer Q"
  "uxItemSize (fst (copy_to_ring pos bs (Q, m))) = uxItemSize Q" "uxLength (fst (copy_to_ring pos bs (Q, m))) = uxLength Q"
  "pcHead (fst (copy_to_ring pos bs (Q, m))) = pcHead Q" "pcTail (fst (copy_to_ring pos bs (Q, m))) = pcTail Q"
  "cTxLock (fst (copy_to_ring pos bs (Q, m))) = cTxLock Q" "cRxLock (fst (copy_to_ring pos bs (Q, m))) = cRxLock Q"
  by (simp_all add: copy_to_ring_def Let_def)

lemma xQueueGenericSend_try_room:
  assumes inv: "sched_inv k" and sz: "0 < uxItemSize (queues k q)" and c: "pxQueueSetContainer (queues k q) = 0"
    and room: "uxMessagesWaiting (queues k q) < uxLength (queues k q) \<or> pos = queueOVERWRITE"
  obtains k' where "xQueueGenericSend_try q item pos fr k = Some (Return True, k')"
    "wakes_head (xTasksWaitingToReceive q) (sent q pos (bytes_at (mem k) item (uxItemSize (queues k q))) k) k'"
proof -
  let ?bs = "bytes_at (mem k) item (uxItemSize (queues k q))"
  have cp: "prvCopyDataToQueue q ?bs pos k = Some (False, sent q pos ?bs k)"
    using sz by (simp add: prvCopyDataToQueue_def sent_def split_beta)
  have invs: "sched_inv (sent q pos ?bs k)" using inv by simp
  obtain w k1 where w: "wake_first (xTasksWaitingToReceive q) (sent q pos ?bs k) = Some (w, k1)"
    "wakes_head (xTasksWaitingToReceive q) (sent q pos ?bs k) (yield_if (w, k1))"
    by (rule wake_yield [OF invs, of "xTasksWaitingToReceive q"]) auto
  show ?thesis
    by (rule that [OF _ w(2)]) (use room cp w(1) c in \<open>auto simp: xQueueGenericSend_try_def after_send_wakes\<close>)
qed

lemma xQueueGenericSend_try_full:
  assumes "uxMessagesWaiting (queues k q) = uxLength (queues k q)" "pos \<noteq> queueOVERWRITE" "xTicksToWait fr = 0"
  shows "xQueueGenericSend_try q item pos fr k = Some (Return False, k)"
  using assms by (simp add: xQueueGenericSend_try_def)

section \<open>Receiving\<close>

definition received :: "addr \<Rightarrow> addr \<Rightarrow> 'a kernel_scheme \<Rightarrow> 'a kernel_scheme" where
  "received q buf k = set_waiting q (uxMessagesWaiting (queues k q) - 1) (prvCopyDataFromQueue q buf k)"

lemma received_simps [simp]:
  "core_inv X strict (received q buf k) = core_inv X strict k" "lists (received q buf k) = lists k"
  "tcb (received q buf k) = tcb k" "pxCurrentTCB (received q buf k) = pxCurrentTCB k" "heap (received q buf k) = heap k"
  "uxSchedulerSuspended (received q buf k) = uxSchedulerSuspended k" "running_ready (received q buf k) = running_ready k"
  "p \<noteq> q \<Longrightarrow> queues (received q buf k) p = queues k p"
  by (simp_all add: received_def set_waiting_def prvCopyDataFromQueue_def split_beta)

lemma received_queue:
  "0 < uxItemSize (queues k q) \<Longrightarrow> queues (received q buf k) q =
     (fst (copy_from_ring buf (queues k q, mem k)))\<lparr>uxMessagesWaiting := uxMessagesWaiting (queues k q) - 1\<rparr>"
  "0 < uxItemSize (queues k q) \<Longrightarrow> mem (received q buf k) = snd (copy_from_ring buf (queues k q, mem k))"
  "uxItemSize (queues k q) = 0 \<Longrightarrow> queues (received q buf k) q = (queues k q)\<lparr>uxMessagesWaiting := uxMessagesWaiting (queues k q) - 1\<rparr>"
  "uxItemSize (queues k q) = 0 \<Longrightarrow> mem (received q buf k) = mem k"
  by (simp_all add: received_def set_waiting_def prvCopyDataFromQueue_def split_beta)

lemma xQueueReceive_try_some:
  assumes inv: "sched_inv k" and n: "0 < uxMessagesWaiting (queues k q)"
  obtains k' where "xQueueReceive_try q buf fr k = Some (Return True, k')"
    "wakes_head (xTasksWaitingToSend q) (received q buf k) k'"
proof -
  have invr: "sched_inv (received q buf k)" using inv by simp
  obtain w k1 where w: "wake_first (xTasksWaitingToSend q) (received q buf k) = Some (w, k1)"
    "wakes_head (xTasksWaitingToSend q) (received q buf k) (yield_if (w, k1))"
    by (rule wake_yield [OF invr, of "xTasksWaitingToSend q"]) auto
  show ?thesis
    by (rule that [OF _ w(2)]) (use n w(1) in \<open>simp add: xQueueReceive_try_def Let_def received_def\<close>)
qed

section \<open>Queues as bounded first-in first-out buffers\<close>

text \<open>
  The contract of a bounded buffer: a send is accepted while there is room and appends, a receive takes
  the first item, no operation stops the system. What a client sees of such a buffer follows.
\<close>

datatype 'i fifo_op = Send 'i | Receive

text \<open>What an operation reports: whether a send was accepted, what a receive got.\<close>

datatype 'i fifo_result = Accepted bool | Received "'i option"

fun fifo_run :: "('i \<Rightarrow> 's \<Rightarrow> (bool \<times> 's) option) \<Rightarrow> ('s \<Rightarrow> ('i option \<times> 's) option) \<Rightarrow>
    'i fifo_op list \<Rightarrow> 's \<Rightarrow> ('i fifo_result list \<times> 's) option" where
  "fifo_run snd_op rcv_op [] s = Some ([], s)"
| "fifo_run snd_op rcv_op (Send i # os) s = do {
     (b, s) \<leftarrow> snd_op i s;
     (rs, s) \<leftarrow> fifo_run snd_op rcv_op os s;
     Some (Accepted b # rs, s)
   }"
| "fifo_run snd_op rcv_op (Receive # os) s = do {
     (x, s) \<leftarrow> rcv_op s;
     (rs, s) \<leftarrow> fifo_run snd_op rcv_op os s;
     Some (Received x # rs, s)
   }"

text \<open>The reference: a list of at most \<open>n\<close> items. The results of the operations and the items left.\<close>

fun fifo_ref :: "nat \<Rightarrow> 'i fifo_op list \<Rightarrow> 'i list \<Rightarrow> 'i fifo_result list \<times> 'i list" where
  "fifo_ref n [] xs = ([], xs)"
| "fifo_ref n (Send i # os) xs =
     (if length xs < n then apfst ((#) (Accepted True)) (fifo_ref n os (xs @ [i]))
      else apfst ((#) (Accepted False)) (fifo_ref n os xs))"
| "fifo_ref n (Receive # os) [] = apfst ((#) (Received None)) (fifo_ref n os [])"
| "fifo_ref n (Receive # os) (x # xs) = apfst ((#) (Received (Some x))) (fifo_ref n os xs)"

text \<open>The items whose send was accepted, and the items received, in order.\<close>

fun accepted_items :: "'i fifo_op list \<Rightarrow> 'i fifo_result list \<Rightarrow> 'i list" where
  "accepted_items (Send i # os) (Accepted True # rs) = i # accepted_items os rs"
| "accepted_items (oper # os) (r # rs) = accepted_items os rs"
| "accepted_items _ _ = []"

fun received_items :: "'i fifo_result list \<Rightarrow> 'i list" where
  "received_items [] = []"
| "received_items (Received (Some i) # rs) = i # received_items rs"
| "received_items (r # rs) = received_items rs"

lemma fifo_ref_order:
  "xs @ accepted_items os (fst (fifo_ref n os xs)) = received_items (fst (fifo_ref n os xs)) @ snd (fifo_ref n os xs)"
  by (induction n os xs rule: fifo_ref.induct) auto

lemma fifo_ref_bounded: "length xs \<le> n \<Longrightarrow> length (snd (fifo_ref n os xs)) \<le> n"
  by (induction n os xs rule: fifo_ref.induct) auto

locale bounded_fifo =
  fixes ok :: "'s \<Rightarrow> bool" and contents :: "'s \<Rightarrow> 'i list" and cap :: nat and valid :: "'i \<Rightarrow> bool"
    and snd_op :: "'i \<Rightarrow> 's \<Rightarrow> (bool \<times> 's) option" and rcv_op :: "'s \<Rightarrow> ('i option \<times> 's) option"
  assumes send_law: "ok s \<Longrightarrow> valid i \<Longrightarrow> \<exists>s'. snd_op i s = Some (length (contents s) < cap, s') \<and> ok s' \<and>
      contents s' = (if length (contents s) < cap then contents s @ [i] else contents s)"
    and receive_law: "ok s \<Longrightarrow> \<exists>s'. rcv_op s = Some (case contents s of [] \<Rightarrow> None | x # _ \<Rightarrow> Some x, s') \<and> ok s' \<and>
      contents s' = tl (contents s)"
    and bounded: "ok s \<Longrightarrow> length (contents s) \<le> cap"
begin

lemma run_is_ref:
  assumes "ok s" "\<forall>i. Send i \<in> set os \<longrightarrow> valid i"
  shows "\<exists>s'. fifo_run snd_op rcv_op os s = Some (fst (fifo_ref cap os (contents s)), s') \<and> ok s' \<and>
    contents s' = snd (fifo_ref cap os (contents s))"
  using assms
proof (induction os arbitrary: s)
  case (Cons opn os)
  show ?case
  proof (cases opn)
    case (Send i)
    obtain s1 where s1: "snd_op i s = Some (length (contents s) < cap, s1)" "ok s1"
      "contents s1 = (if length (contents s) < cap then contents s @ [i] else contents s)"
      using send_law [OF Cons.prems(1), of i] Cons.prems(2) Send by auto
    then show ?thesis using Cons.IH [OF s1(2)] Cons.prems(2) Send by auto
  next
    case Receive
    obtain s1 where s1: "rcv_op s = Some (case contents s of [] \<Rightarrow> None | x # _ \<Rightarrow> Some x, s1)" "ok s1"
      "contents s1 = tl (contents s)"
      using receive_law [OF Cons.prems(1)] by auto
    then show ?thesis using Cons.IH [OF s1(2)] Cons.prems(2) Receive by (cases "contents s") auto
  qed
qed simp

lemma run_law:
  assumes "ok s" "\<forall>i. Send i \<in> set os \<longrightarrow> valid i"
  shows "\<exists>rs s'. fifo_run snd_op rcv_op os s = Some (rs, s') \<and> (rs, contents s') = fifo_ref cap os (contents s) \<and> ok s' \<and>
    contents s @ accepted_items os rs = received_items rs @ contents s' \<and> length (contents s') \<le> cap"
  using run_is_ref [OF assms] fifo_ref_order [of "contents s" os cap] fifo_ref_bounded [OF bounded [OF assms(1)], of os]
  by (auto simp: prod_eq_iff)

end

text \<open>A caller that writes its variable and sends it, and one that receives into a buffer, without waiting.\<close>

definition send_item :: "addr \<Rightarrow> addr \<Rightarrow> u8 list \<Rightarrow> 'a kernel_scheme \<Rightarrow> (bool \<times> 'a kernel_scheme) option" where
  "send_item q item bs k = xQueueGenericSend_nowait q item queueSEND_TO_BACK (k\<lparr>mem := write_bytes item bs (mem k)\<rparr>)"

definition receive_item :: "addr \<Rightarrow> addr \<Rightarrow> 'a kernel_scheme \<Rightarrow> (u8 list option \<times> 'a kernel_scheme) option" where
  "receive_item q buf k = do {
     fr \<leftarrow> xQueueReceive_entry q buf 0 k;
     (a, k) \<leftarrow> xQueueReceive_try q buf fr k;
     case a of
       Return True \<Rightarrow> Some (Some (bytes_at (mem k) buf (uxItemSize (queues k q))), k)
     | Return False \<Rightarrow> Some (None, k)
     | Again _ \<Rightarrow> None
   }"

text \<open>The area of \<open>n\<close> bytes at \<open>a\<close> does not meet the storage of the queue.\<close>

definition apart :: "addr \<Rightarrow> nat \<Rightarrow> Queue_t \<Rightarrow> bool" where
  "apart a n Q \<longleftrightarrow> a + n \<le> pcHead Q \<or> pcTail Q \<le> a"

definition queue_usable :: "addr \<Rightarrow> nat \<Rightarrow> nat \<Rightarrow> addr \<Rightarrow> addr \<Rightarrow> 'a kernel_scheme \<Rightarrow> bool" where
  "queue_usable q n sz item buf k \<longleftrightarrow> sched_inv k \<and> q \<noteq> 0 \<and> item \<noteq> 0 \<and> buf \<noteq> 0 \<and> ring_ok (queues k q) \<and>
     uxLength (queues k q) = n \<and> uxItemSize (queues k q) = sz \<and> pxQueueSetContainer (queues k q) = 0 \<and>
     apart item sz (queues k q) \<and> apart buf sz (queues k q)"

lemma queue_items_frame:
  assumes ok: "ring_ok Q" and same: "\<And>x. pcHead Q \<le> x \<Longrightarrow> x < pcTail Q \<Longrightarrow> m' x = m x"
  shows "queue_items Q m' = queue_items Q m"
proof -
  have "0 < uxLength Q" "pcTail Q = pcHead Q + uxLength Q * uxItemSize Q" using ok by (simp_all add: ring_ok_def)
  then have "bytes_at m' (slot Q i) (uxItemSize Q) = bytes_at m (slot Q i) (uxItemSize Q)" for i
    using slot_in_storage [of Q i] by (intro nth_equalityI) (auto simp: nth_bytes_at intro!: same)
  then show ?thesis by (simp add: queue_items_def)
qed

lemma queue_items_write_apart:
  "ring_ok Q \<Longrightarrow> apart a (length bs) Q \<Longrightarrow> queue_items Q (write_bytes a bs m) = queue_items Q m"
  by (intro queue_items_frame) (auto simp: apart_def write_bytes_def)

text \<open>Equations for the non-waiting forms.\<close>

lemma may_block_0 [simp]: "may_block 0 k"
  by (simp add: may_block_def)

lemma start_frame_simps [simp]: "xTicksToWait (start_frame w) = w" "\<not> xEntryTimeSet (start_frame w)"
  by (simp_all add: start_frame_def)

lemma send_nowait_room:
  assumes "sched_inv k" "q \<noteq> 0" "item \<noteq> 0" "0 < uxItemSize (queues k q)" "pxQueueSetContainer (queues k q) = 0"
    "uxMessagesWaiting (queues k q) < uxLength (queues k q) \<and> pos \<noteq> queueOVERWRITE \<or> pos = queueOVERWRITE \<and> uxLength (queues k q) = 1"
  obtains k' where "xQueueGenericSend_nowait q item pos k = Some (True, k')"
    "wakes_head (xTasksWaitingToReceive q) (sent q pos (bytes_at (mem k) item (uxItemSize (queues k q))) k) k'"
proof -
  have room: "uxMessagesWaiting (queues k q) < uxLength (queues k q) \<or> pos = queueOVERWRITE" using assms(6) by blast
  obtain k' where "xQueueGenericSend_try q item pos (start_frame 0) k = Some (Return True, k')"
    "wakes_head (xTasksWaitingToReceive q) (sent q pos (bytes_at (mem k) item (uxItemSize (queues k q))) k) k'"
    by (rule xQueueGenericSend_try_room [OF assms(1,4,5) room, of item "start_frame 0"]) blast
  then show ?thesis using assms
    by (intro that) (auto simp: xQueueGenericSend_nowait_def xQueueGenericSend_entry_def)
qed

lemma send_item_law:
  assumes k: "queue_usable q n sz item buf k" and bs: "length bs = sz"
  defines "len \<equiv> length (queue_items (queues k q) (mem k))"
  shows "\<exists>k'. send_item q item bs k = Some (len < n, k') \<and> queue_usable q n sz item buf k' \<and>
    queue_items (queues k' q) (mem k') =
      (if len < n then queue_items (queues k q) (mem k) @ [bs] else queue_items (queues k q) (mem k))"
proof -
  let ?Q = "queues k q"
  define k0 where "k0 = k\<lparr>mem := write_bytes item bs (mem k)\<rparr>"
  have k0: "queues k0 = queues k" "sched_inv k0" "mem k0 = write_bytes item bs (mem k)"
    "bytes_at (mem k0) item sz = bs" using k bs by (simp_all add: k0_def queue_usable_def bytes_at_write_same)
  have U: "q \<noteq> 0" "item \<noteq> 0" "ring_ok ?Q" "uxLength ?Q = n" "uxItemSize ?Q = sz" "pxQueueSetContainer ?Q = 0"
    "apart item sz ?Q" "apart buf sz ?Q" "buf \<noteq> 0" using k by (simp_all add: queue_usable_def)
  have sz: "0 < uxItemSize (queues k0 q)" using U(3) by (simp add: k0 ring_ok_def)
  have it: "queue_items ?Q (mem k0) = queue_items ?Q (mem k)"
    unfolding k0(3) by (rule queue_items_write_apart) (use U bs in auto)
  show ?thesis
  proof (cases "uxMessagesWaiting ?Q < n")
    case True
    have room: "uxMessagesWaiting (queues k0 q) < uxLength (queues k0 q) \<and> queueSEND_TO_BACK \<noteq> queueOVERWRITE \<or>
      queueSEND_TO_BACK = queueOVERWRITE \<and> uxLength (queues k0 q) = 1" using True U(4) by (simp add: k0)
    obtain k' where k': "xQueueGenericSend_nowait q item queueSEND_TO_BACK k0 = Some (True, k')"
      "wakes_head (xTasksWaitingToReceive q) (sent q queueSEND_TO_BACK (bytes_at (mem k0) item (uxItemSize (queues k0 q))) k0) k'"
      by (rule send_nowait_room [OF k0(2) U(1,2) sz _ room]) (use U(6) in \<open>auto simp: k0\<close>)
    obtain Q' m' where c: "copy_to_ring queueSEND_TO_BACK bs (?Q, mem k0) = (Q', m')" by fastforce
    have n: "uxMessagesWaiting ?Q < uxLength ?Q" using True U(4) by simp
    note cb = copy_back [OF U(3) n _ c]
    have q': "queues k' q = Q'" "mem k' = m'" "sched_inv k'"
      using wakes_head_kernel(1,2) [OF k'(2)] wakes_headD(1) [OF k'(2)] c k0 U(5) by simp_all
    have same: "uxLength Q' = n" "uxItemSize Q' = sz" "pxQueueSetContainer Q' = 0" "pcHead Q' = pcHead ?Q" "pcTail Q' = pcTail ?Q"
      using copy_to_ring_container [of queueSEND_TO_BACK bs ?Q "mem k0"] U c by simp_all
    have "queue_usable q n sz item buf k'"
      using q' same U cb(1) bs by (simp add: queue_usable_def apart_def)
    then show ?thesis using k'(1) True cb(2) q' bs U(5) it by (auto simp: send_item_def len_def k0_def [symmetric])
  next
    case False
    have "uxMessagesWaiting ?Q = uxLength ?Q" using False U(3,4) by (simp add: ring_ok_def)
    then have "xQueueGenericSend_nowait q item queueSEND_TO_BACK k0 = Some (False, k0)"
      using U by (simp add: xQueueGenericSend_nowait_def xQueueGenericSend_entry_def xQueueGenericSend_try_def k0)
    moreover have "queue_usable q n sz item buf k0" using k by (simp add: queue_usable_def k0_def)
    ultimately show ?thesis using False it by (auto simp: send_item_def len_def k0_def [symmetric] k0)
  qed
qed

text \<open>A receive from a queue that holds items, at any point of its loop.\<close>

lemma receive_try_first:
  assumes k: "queue_usable q n sz item buf k" and it: "queue_items (queues k q) (mem k) = x # xs"
  obtains k' where "xQueueReceive_try q buf fr k = Some (Return True, k')" "queue_usable q n sz item buf k'"
    "queue_items (queues k' q) (mem k') = xs" "bytes_at (mem k') buf sz = x"
    "wakes_head (xTasksWaitingToSend q) (received q buf k) k'"
proof -
  let ?Q = "queues k q"
  have U: "q \<noteq> 0" "buf \<noteq> 0" "ring_ok ?Q" "uxLength ?Q = n" "uxItemSize ?Q = sz" "pxQueueSetContainer ?Q = 0"
    "apart item sz ?Q" "apart buf sz ?Q" "item \<noteq> 0" "sched_inv k" using k by (simp_all add: queue_usable_def)
  have sz: "0 < uxItemSize ?Q" using U(3) by (simp add: ring_ok_def)
  have n: "0 < uxMessagesWaiting ?Q" using arg_cong [OF it, of length] by simp
  obtain k' where k': "xQueueReceive_try q buf fr k = Some (Return True, k')"
    "wakes_head (xTasksWaitingToSend q) (received q buf k) k'"
    by (rule xQueueReceive_try_some [OF U(10) n, of buf fr]) blast
  obtain Q' m' where c: "copy_from_ring buf (?Q, mem k) = (Q', m')" by fastforce
  have bufa: "buf + uxItemSize ?Q \<le> pcHead ?Q \<or> pcTail ?Q \<le> buf" using U(5,8) by (simp add: apart_def)
  note cf = copy_from [OF U(3) n bufa c]
  define Q'' where "Q'' = Q'\<lparr>uxMessagesWaiting := uxMessagesWaiting ?Q - 1\<rparr>"
  have q': "queues k' q = Q''" "mem k' = m'" "sched_inv k'"
    using wakes_head_kernel(1,2) [OF k'(2)] wakes_headD(1) [OF k'(2)] c received_queue(1,2) [OF sz] by (simp_all add: Q''_def)
  have "uxLength Q'' = n" "uxItemSize Q'' = sz" "pxQueueSetContainer Q'' = 0" "pcHead Q'' = pcHead ?Q" "pcTail Q'' = pcTail ?Q"
    unfolding Q''_def by (subst cf(3), simp add: U)+
  then have "queue_usable q n sz item buf k'"
    using q' U cf(1) by (simp add: queue_usable_def apart_def Q''_def)
  then show ?thesis using that [OF k'(1) _ _ _ k'(2)] cf(2) it q' U(5) by (simp add: Q''_def)
qed

lemma receive_item_law:
  assumes k: "queue_usable q n sz item buf k"
  shows "\<exists>k'. receive_item q buf k = Some (case queue_items (queues k q) (mem k) of [] \<Rightarrow> None | x # _ \<Rightarrow> Some x, k') \<and>
    queue_usable q n sz item buf k' \<and> queue_items (queues k' q) (mem k') = tl (queue_items (queues k q) (mem k))"
proof -
  let ?Q = "queues k q"
  have U: "q \<noteq> 0" "buf \<noteq> 0" "ring_ok ?Q" "uxLength ?Q = n" "uxItemSize ?Q = sz" "pxQueueSetContainer ?Q = 0"
    "apart item sz ?Q" "apart buf sz ?Q" "item \<noteq> 0" "sched_inv k" using k by (simp_all add: queue_usable_def)
  have sz: "0 < uxItemSize ?Q" using U(3) by (simp add: ring_ok_def)
  have entry: "xQueueReceive_entry q buf 0 k = Some (start_frame 0)" using U by (simp add: xQueueReceive_entry_def)
  show ?thesis
  proof (cases "uxMessagesWaiting ?Q = 0")
    case True
    then have "queue_items ?Q (mem k) = []" by (simp add: queue_items_def)
    moreover have "receive_item q buf k = Some (None, k)"
      using True entry by (simp add: receive_item_def xQueueReceive_try_def empty_try_def)
    ultimately show ?thesis using k by simp
  next
    case False
    then obtain x xs where x: "queue_items ?Q (mem k) = x # xs"
      by (cases "queue_items ?Q (mem k)") (auto dest: arg_cong [of _ _ length])
    obtain k' where "xQueueReceive_try q buf (start_frame 0) k = Some (Return True, k')" "queue_usable q n sz item buf k'"
      "queue_items (queues k' q) (mem k') = xs" "bytes_at (mem k') buf sz = x"
      by (rule receive_try_first [OF k x, of "start_frame 0"]) blast
    then show ?thesis using entry x by (simp add: receive_item_def queue_usable_def)
  qed
qed

interpretation kernel_queue: bounded_fifo "queue_usable q n sz item buf" "\<lambda>k. queue_items (queues k q) (mem k)" n
  "\<lambda>bs. length bs = sz" "send_item q item" "receive_item q buf"
proof (unfold_locales, goal_cases)
  case (1 k bs)
  then show ?case by (rule send_item_law)
next
  case (2 k)
  then show ?case by (rule receive_item_law)
next
  case (3 k)
  then show ?case by (simp add: queue_usable_def ring_ok_def)
qed

text \<open>
  C2: A queue is a bounded first-in first-out buffer. For every sequence of sends to the back and
  receives that do not wait, on a queue of \<open>n\<close> items of \<open>sz\<close> bytes whose storage the callers' variables do
  not overlap: no assertion fires, the scheduler's invariant and the ring pointers stay consistent, and
  every call has the result of the reference on lists: a send is accepted exactly when fewer than \<open>n\<close> items
  are in the queue, a receive gets the oldest item exactly when there is one, and the items left are
  those of the reference. So what was in the queue followed by the accepted items is what was received
  followed by what is left, and there are never more than \<open>n\<close> items.
\<close>

theorem queue_fifo:
  assumes "queue_usable q n sz item buf k" "\<forall>bs. Send bs \<in> set os \<longrightarrow> length bs = sz"
  shows "\<exists>rs k'. fifo_run (send_item q item) (receive_item q buf) os k = Some (rs, k') \<and>
    (rs, queue_items (queues k' q) (mem k')) = fifo_ref n os (queue_items (queues k q) (mem k)) \<and>
    queue_usable q n sz item buf k' \<and>
    queue_items (queues k q) (mem k) @ accepted_items os rs = received_items rs @ queue_items (queues k' q) (mem k') \<and>
    length (queue_items (queues k' q) (mem k')) \<le> n"
  by (rule kernel_queue.run_law [OF assms])

lemma demo_queue_usable: "queue_usable 500 2 4 700 800 demo_kernel"
  using demo_kernel_inv by (simp add: queue_usable_def ring_ok_def read_index_def apart_def demo_queues_def)

theorem queue_fifo_witness:
  "\<exists>k'. fifo_run (send_item 500 700) (receive_item 500 800)
      [Send [1, 2, 3, 4], Send [5, 6, 7, 8], Send [9, 9, 9, 9], Receive, Send [0, 1, 0, 1], Receive, Receive, Receive] demo_kernel =
    Some ([Accepted True, Accepted True, Accepted False, Received (Some [1, 2, 3, 4]), Accepted True,
      Received (Some [5, 6, 7, 8]), Received (Some [0, 1, 0, 1]), Received None], k') \<and>
    queue_items (queues k' 500) (mem k') = []"
proof -
  have "queue_items (demo_queues 500) (mem demo_kernel) = []" by (simp add: queue_items_def demo_queues_def)
  then show ?thesis
    using queue_fifo [OF demo_queue_usable, of "[Send [1, 2, 3, 4], Send [5, 6, 7, 8], Send [9, 9, 9, 9],
      Receive, Send [0, 1, 0, 1], Receive, Receive, Receive]"] by auto
qed

section \<open>Positions, errors and wake-ups\<close>

text \<open>What a send makes of the items.\<close>

fun place :: "copy_position \<Rightarrow> 'i \<Rightarrow> 'i list \<Rightarrow> 'i list" where
  "place queueSEND_TO_BACK i xs = xs @ [i]"
| "place queueSEND_TO_FRONT i xs = i # xs"
| "place queueOVERWRITE i xs = [i]"

lemma sent_items:
  assumes "ring_ok (queues k q)" "length bs = uxItemSize (queues k q)"
    "if pos = queueOVERWRITE then uxLength (queues k q) = 1 else uxMessagesWaiting (queues k q) < uxLength (queues k q)"
  shows "ring_ok (queues (sent q pos bs k) q)"
    "queue_items (queues (sent q pos bs k) q) (mem (sent q pos bs k)) = place pos bs (queue_items (queues k q) (mem k))"
    "\<And>x. x < pcHead (queues k q) \<or> pcTail (queues k q) \<le> x \<Longrightarrow> mem (sent q pos bs k) x = mem k x"
proof -
  obtain Q' m' where c: "copy_to_ring pos bs (queues k q, mem k) = (Q', m')" by fastforce
  have "ring_ok Q' \<and> queue_items Q' m' = place pos bs (queue_items (queues k q) (mem k)) \<and>
    (\<forall>x. x < pcHead (queues k q) \<or> pcTail (queues k q) \<le> x \<longrightarrow> m' x = mem k x)"
  proof (cases pos)
    case queueSEND_TO_BACK
    then show ?thesis using copy_back [OF assms(1) _ assms(2), of "mem k" Q' m'] assms(3) c by auto
  next
    case queueSEND_TO_FRONT
    then show ?thesis using copy_front [OF assms(1) _ assms(2), of "mem k" Q' m'] assms(3) c by auto
  next
    case queueOVERWRITE
    then show ?thesis using copy_overwrite [OF assms(1) _ assms(2), of "mem k" Q' m'] assms(3) c by auto
  qed
  then show "ring_ok (queues (sent q pos bs k) q)"
    "queue_items (queues (sent q pos bs k) q) (mem (sent q pos bs k)) = place pos bs (queue_items (queues k q) (mem k))"
    "\<And>x. x < pcHead (queues k q) \<or> pcTail (queues k q) \<le> x \<Longrightarrow> mem (sent q pos bs k) x = mem k x"
    using c by (simp_all, blast)
qed

lemma send_nowait_wakes:
  assumes "sched_inv k" "q \<noteq> 0" "item \<noteq> 0" "ring_ok (queues k q)" "pxQueueSetContainer (queues k q) = 0"
    "if pos = queueOVERWRITE then uxLength (queues k q) = 1 else uxMessagesWaiting (queues k q) < uxLength (queues k q)"
  shows "\<exists>k'. xQueueGenericSend_nowait q item pos k = Some (True, k') \<and> sched_inv k' \<and> ring_ok (queues k' q) \<and>
    queue_items (queues k' q) (mem k') =
      place pos (bytes_at (mem k) item (uxItemSize (queues k q))) (queue_items (queues k q) (mem k)) \<and>
    (\<forall>p. p \<noteq> q \<longrightarrow> queues k' p = queues k p) \<and>
    (\<forall>x. x < pcHead (queues k q) \<or> pcTail (queues k q) \<le> x \<longrightarrow> mem k' x = mem k x) \<and>
    (\<forall>t rest. items k (xTasksWaitingToReceive q) = EventItem t # rest \<longrightarrow> items k' (xTasksWaitingToReceive q) = rest \<and>
       (uxSchedulerSuspended k = 0 \<longrightarrow> container k' (StateItem t) = Some (pxReadyTasksLists (prio k t))) \<and>
       (prio k t > prio k (pxCurrentTCB k) \<longrightarrow> pendSV k'))"
proof -
  let ?bs = "bytes_at (mem k) item (uxItemSize (queues k q))"
  have sz: "0 < uxItemSize (queues k q)" using assms(4) by (simp add: ring_ok_def)
  have room: "uxMessagesWaiting (queues k q) < uxLength (queues k q) \<and> pos \<noteq> queueOVERWRITE \<or>
    pos = queueOVERWRITE \<and> uxLength (queues k q) = 1" using assms(6) by (auto split: if_splits)
  obtain k' where k': "xQueueGenericSend_nowait q item pos k = Some (True, k')"
    "wakes_head (xTasksWaitingToReceive q) (sent q pos ?bs k) k'"
    by (rule send_nowait_room [OF assms(1-3) sz assms(5) room]) blast
  note si = sent_items [OF assms(4) length_bytes_at [of "mem k" item] assms(6)]
  have ev: "items k' (xTasksWaitingToReceive q) = rest \<and>
       (uxSchedulerSuspended k = 0 \<longrightarrow> container k' (StateItem t) = Some (pxReadyTasksLists (prio k t))) \<and>
       (prio k t > prio k (pxCurrentTCB k) \<longrightarrow> pendSV k')"
    if "items k (xTasksWaitingToReceive q) = EventItem t # rest" for t rest
    using k'(2) that unfolding wakes_head_def by simp
  show ?thesis
    using k'(1) si wakes_head_kernel(1,2) [OF k'(2)] wakes_headD(1) [OF k'(2)] ev by (intro exI [of _ k']) simp
qed

text \<open>
  Sending. On a queue with room (or, for \<^verbatim>\<open>xQueueOverwrite\<close>, of length one) a send returns
  \<^verbatim>\<open>pdPASS\<close>: the item is last, first, or the only one, according to the position; only the queue's own
  storage is written and no other queue changes; if tasks wait to receive, the first of them leaves the
  waiting list and is ready unless the scheduler is suspended, and a context switch is requested when it
  outranks the caller; the scheduler's invariant is kept.
\<close>

theorem send_places_and_wakes:
  assumes "sched_inv k" "q \<noteq> 0" "item \<noteq> 0" "ring_ok (queues k q)" "pxQueueSetContainer (queues k q) = 0"
    "if pos = queueOVERWRITE then uxLength (queues k q) = 1 else uxMessagesWaiting (queues k q) < uxLength (queues k q)"
  shows "\<exists>k'. xQueueGenericSend_nowait q item pos k = Some (True, k') \<and> sched_inv k' \<and> ring_ok (queues k' q) \<and>
    queue_items (queues k' q) (mem k') =
      place pos (bytes_at (mem k) item (uxItemSize (queues k q))) (queue_items (queues k q) (mem k)) \<and>
    (\<forall>p. p \<noteq> q \<longrightarrow> queues k' p = queues k p) \<and>
    (\<forall>x. x < pcHead (queues k q) \<or> pcTail (queues k q) \<le> x \<longrightarrow> mem k' x = mem k x) \<and>
    (\<forall>t rest. items k (xTasksWaitingToReceive q) = EventItem t # rest \<longrightarrow> items k' (xTasksWaitingToReceive q) = rest \<and>
       (uxSchedulerSuspended k = 0 \<longrightarrow> container k' (StateItem t) = Some (pxReadyTasksLists (prio k t))) \<and>
       (prio k t > prio k (pxCurrentTCB k) \<longrightarrow> pendSV k'))"
  by (rule send_nowait_wakes [OF assms])

theorem send_places_and_wakes_witness:
  "\<exists>k'. xQueueGenericSend_nowait 500 700 queueSEND_TO_FRONT demo_kernel = Some (True, k') \<and>
     queue_items (queues k' 500) (mem k') = [[0, 0, 0, 0]]"
proof -
  have "ring_ok (demo_queues 500)" by (simp add: ring_ok_def read_index_def demo_queues_def)
  moreover have "bytes_at (\<lambda>_. 0) 700 4 = [0, 0, 0, 0 :: u8]" by (simp add: bytes_at_def upt_rec)
  ultimately show ?thesis
    using send_places_and_wakes [OF demo_kernel_inv, of 500 700 queueSEND_TO_FRONT]
    by (auto simp: demo_queues_def queue_items_def)
qed

text \<open>
  Refusals leave no trace. A send to a full queue, a receive or peek from an empty one, a take of a
  semaphore whose count is zero, and the interrupt versions of them, called without a wait time, return
  the error and leave the whole kernel state as it was.
\<close>

theorem refusals_change_nothing:
  assumes "q \<noteq> 0" "item \<noteq> 0" "pos \<noteq> queueOVERWRITE"
  shows "(uxMessagesWaiting (queues k q) = uxLength (queues k q) \<longrightarrow>
      xQueueGenericSend_nowait q item pos k = Some (False, k) \<and>
      xQueueGenericSendFromISR q item pos k = Some (False, False, k)) \<and>
    (uxMessagesWaiting (queues k q) = 0 \<longrightarrow>
      xQueueReceive_entry q item 0 k = Some (start_frame 0) \<and>
      xQueueReceive_try q item (start_frame 0) k = Some (Return False, k) \<and>
      xQueuePeek_try q item (start_frame 0) k = Some (Return False, k) \<and>
      xQueueSemaphoreTake_try q (start_frame 0) k = Some (Return False, k) \<and>
      xQueueReceiveFromISR q item k = Some (False, False, k))"
  using assms
  by (simp_all add: xQueueGenericSend_nowait_def xQueueGenericSend_entry_def xQueueGenericSend_try_def
      xQueueGenericSendFromISR_def xQueueReceive_entry_def xQueueReceive_try_def xQueuePeek_try_def
      xQueueSemaphoreTake_try_def xQueueReceiveFromISR_def empty_try_def)

theorem refusals_change_nothing_witness:
  "xQueueReceive_try 500 700 (start_frame 0) demo_kernel = Some (Return False, demo_kernel)"
  using refusals_change_nothing [of 500 700 queueSEND_TO_BACK demo_kernel] by (simp add: demo_queues_def)

end
