(* ===== verification/FR_Queue_Block.thy ===== *)
theory FR_Queue_Block
  imports FR_Queue_Props
begin

text \<open>
  Blocking on a queue: the locked queue while a task puts itself on a waiting list, what interrupts do
  meanwhile, and how the task comes back.
\<close>

section \<open>Locking and unlocking\<close>

definition unlocked :: "Queue_t \<Rightarrow> bool" where
  "unlocked Q \<longleftrightarrow> cRxLock Q = queueUNLOCKED \<and> cTxLock Q = queueUNLOCKED"

lemma ring_locks [simp]:
  "read_index (Q\<lparr>cRxLock := a\<rparr>) = read_index Q" "read_index (Q\<lparr>cTxLock := b\<rparr>) = read_index Q"
  "ring_ok (Q\<lparr>cRxLock := a\<rparr>) = ring_ok Q" "ring_ok (Q\<lparr>cTxLock := b\<rparr>) = ring_ok Q"
  "queue_items (Q\<lparr>cRxLock := a\<rparr>) m = queue_items Q m" "queue_items (Q\<lparr>cTxLock := b\<rparr>) m = queue_items Q m"
proof -
  show r: "read_index (Q\<lparr>cRxLock := a\<rparr>) = read_index Q" "read_index (Q\<lparr>cTxLock := b\<rparr>) = read_index Q"
    by (simp_all add: read_index_def)
  show "ring_ok (Q\<lparr>cRxLock := a\<rparr>) = ring_ok Q" "ring_ok (Q\<lparr>cTxLock := b\<rparr>) = ring_ok Q"
    "queue_items (Q\<lparr>cRxLock := a\<rparr>) m = queue_items Q m" "queue_items (Q\<lparr>cTxLock := b\<rparr>) m = queue_items Q m"
    by (simp_all add: ring_ok_def queue_items_def r)
qed

lemma queue_enter_simps [simp]:
  "core_inv X strict (queue_enter q k) = core_inv X strict k" "lists (queue_enter q k) = lists k"
  "tcb (queue_enter q k) = tcb k" "pxCurrentTCB (queue_enter q k) = pxCurrentTCB k" "mem (queue_enter q k) = mem k"
  "uxSchedulerSuspended (queue_enter q k) = uxSchedulerSuspended k + 1" "running_ready (queue_enter q k) = running_ready k"
  "xPendedTicks (queue_enter q k) = xPendedTicks k" "uxCurrentNumberOfTasks (queue_enter q k) = uxCurrentNumberOfTasks k"
  "xTickCount (queue_enter q k) = xTickCount k" "xNumOfOverflows (queue_enter q k) = xNumOfOverflows k"
  "pendSV (queue_enter q k) = pendSV k" "heap (queue_enter q k) = heap k" "xSchedulerRunning (queue_enter q k) = xSchedulerRunning k"
  "unlocked (queues k q) \<Longrightarrow> queues (queue_enter q k) = (queues k)(q := (queues k q)\<lparr>cRxLock := 0, cTxLock := 0\<rparr>)"
  by (simp_all add: queue_enter_def prvLockQueue_def vTaskSuspendAll_def running_ready_def unlocked_def
      queueLOCKED_UNMODIFIED_def)

text \<open>
  One turn of the loop per item sent while the queue was locked: as many waiting receivers are moved to
  the pending ready list, in order, and no other task moves.
\<close>

lemma unlock_tx_loop_inv:
  assumes "sched_inv k" "pxQueueSetContainer (queues k q) = 0" "uxSchedulerSuspended k \<noteq> 0"
  obtains k' where "unlock_tx_loop n q k = Some k'" "sched_inv k'" "wake_frame k k'"
    "items k' (xTasksWaitingToReceive q) = drop n (items k (xTasksWaitingToReceive q))"
    "\<And>t. EventItem t \<in> set (take n (items k (xTasksWaitingToReceive q))) \<Longrightarrow> container k' (EventItem t) = Some xPendingReadyList"
    "\<And>j. j \<notin> set (take n (items k (xTasksWaitingToReceive q))) \<Longrightarrow> container k' j = container k j"
  using assms
proof (induction n arbitrary: k thesis)
  case 0
  show ?case by (rule 0(1) [of k]) (use 0(2) in simp_all)
next
  case (Suc n)
  let ?l = "xTasksWaitingToReceive q"
  show ?case
  proof (cases "items k ?l")
    case Nil
    then show ?thesis using Suc.prems(2-4) by (intro Suc.prems(1) [of k]) auto
  next
    case (Cons i rest)
    obtain t k1 where r: "i = EventItem t" "container k (EventItem t) = Some ?l"
      "xTaskRemoveFromEventList ?l k = Some (prio k t > prio k (pxCurrentTCB k), k1)" "sched_inv k1"
      "items k1 ?l = rest" "wake_frame k k1" "\<forall>j. owner j \<noteq> t \<longrightarrow> container k1 j = container k j"
      "container k1 (StateItem t) = (if uxSchedulerSuspended k = 0 then Some (pxReadyTasksLists (prio k t)) else container k (StateItem t))"
      "container k1 (EventItem t) = (if uxSchedulerSuspended k = 0 then None else Some xPendingReadyList)"
      by (rule xTaskRemoveFromEventList_inv [OF Suc.prems(2) Cons]) auto
    define k2 where "k2 = (if prio k t > prio k (pxCurrentTCB k) then vTaskMissedYield k1 else k1)"
    have k2: "sched_inv k2" "lists k2 = lists k1" "wake_frame k k2" "queues k2 = queues k" "uxSchedulerSuspended k2 \<noteq> 0"
      using r(4,6) wake_frameD [OF r(6)] wake_kernel(1) [OF r(6)] Suc.prems(4)
      by (simp_all add: k2_def vTaskMissedYield_def wake_frame_def)
    obtain k' where k': "unlock_tx_loop n q k2 = Some k'" "sched_inv k'" "wake_frame k2 k'"
      "items k' ?l = drop n (items k2 ?l)"
      "\<forall>t. EventItem t \<in> set (take n (items k2 ?l)) \<longrightarrow> container k' (EventItem t) = Some xPendingReadyList"
      "\<forall>j. j \<notin> set (take n (items k2 ?l)) \<longrightarrow> container k' j = container k2 j"
      by (rule Suc.IH [of k2]) (use k2 Suc.prems(3) in auto)
    have cont1: "container k2 j = container k j" if "j \<noteq> EventItem t" for j
      using r(7,8) Suc.prems(4) that by (cases "owner j = t"; cases j) (auto simp: k2(2))
    have "container k' (EventItem t) = Some xPendingReadyList"
    proof (cases "EventItem t \<in> set (take n (items k2 ?l))")
      case False
      then show ?thesis using k'(6) r(9) Suc.prems(4) by (simp add: k2(2))
    qed (use k'(5) in simp)
    then show ?thesis
      using k' r(1,3,5) k2 cont1 Suc.prems(3) Cons wake_frame_trans [OF k2(3) k'(3)]
      by (intro Suc.prems(1) [of k']) (auto simp: k2_def [symmetric])
  qed
qed

lemma queue_enter_suspended: "uxSchedulerSuspended k = 0 \<Longrightarrow> uxSchedulerSuspended (queue_enter q k) = Suc 0"
  by simp

text \<open>Leaving the locked section when \<open>n\<close> items were sent and none received meanwhile.\<close>

lemma queue_exit_inv:
  assumes inv: "sched_inv k" and s: "uxSchedulerSuspended k = Suc 0" "0 < uxCurrentNumberOfTasks k"
    and l: "cTxLock (queues k q) = int n" "cRxLock (queues k q) = 0" "pxQueueSetContainer (queues k q) = 0"
  obtains k' where "queue_exit r q k = Some k'" "sched_inv k'" "uxSchedulerSuspended k' = 0" "tcb k' = tcb k"
    "pxCurrentTCB k' = pxCurrentTCB k" "mem k' = mem k" "r = Blocked \<Longrightarrow> pendSV k'" "heap k' = heap k"
    "uxCurrentNumberOfTasks k' = uxCurrentNumberOfTasks k" "xPendedTicks k' = 0" "xSchedulerRunning k' = xSchedulerRunning k"
    "queues k' = (queues k)(q := (queues k q)\<lparr>cTxLock := queueUNLOCKED, cRxLock := queueUNLOCKED\<rparr>)"
    "\<And>t. EventItem t \<in> set (take n (items k (xTasksWaitingToReceive q))) \<Longrightarrow>
       container k' (StateItem t) = Some (pxReadyTasksLists (prio k t))"
    "\<And>t. xPendedTicks k = 0 \<Longrightarrow> EventItem t \<notin> set (take n (items k (xTasksWaitingToReceive q))) \<Longrightarrow>
       container k (EventItem t) \<noteq> Some xPendingReadyList \<Longrightarrow>
       container k' (StateItem t) = container k (StateItem t) \<and> container k' (EventItem t) = container k (EventItem t)"
    "\<And>t p. container k (StateItem t) = Some (pxReadyTasksLists p) \<Longrightarrow> container k' (StateItem t) = Some (pxReadyTasksLists p)"
    "kernel.more k' = kernel.more k"
proof -
  let ?l = "xTasksWaitingToReceive q"
  obtain k1 where k1: "unlock_tx_loop n q k = Some k1" "sched_inv k1" "wake_frame k k1"
    "\<forall>t. EventItem t \<in> set (take n (items k ?l)) \<longrightarrow> container k1 (EventItem t) = Some xPendingReadyList"
    "\<forall>j. j \<notin> set (take n (items k ?l)) \<longrightarrow> container k1 j = container k j"
    by (rule unlock_tx_loop_inv [OF inv l(3), of n]) (use s in auto)
  have f1: "queues k1 = queues k" "mem k1 = mem k" "tcb k1 = tcb k" "uxSchedulerSuspended k1 = Suc 0"
    "0 < uxCurrentNumberOfTasks k1" "kernel.more k1 = kernel.more k"
    using wake_kernel [OF k1(3)] wake_frameD [OF k1(3)] s by simp_all
  define k2 where "k2 = upd_queue q (\<lambda>Q. Q\<lparr>cRxLock := queueUNLOCKED\<rparr>) (upd_queue q (\<lambda>Q. Q\<lparr>cTxLock := queueUNLOCKED\<rparr>) k1)"
  have un: "prvUnlockQueue q k = Some k2"
    using k1(1) l(1,2) f1(1) by (simp add: prvUnlockQueue_def k2_def)
  have inv2: "sched_inv k2" using k1(2) by (simp add: k2_def)
  have k2: "lists k2 = lists k1" "tcb k2 = tcb k" "uxSchedulerSuspended k2 = Suc 0" "0 < uxCurrentNumberOfTasks k2"
    "xPendedTicks k2 = xPendedTicks k" "mem k2 = mem k" "pxCurrentTCB k2 = pxCurrentTCB k" "heap k2 = heap k"
    "uxCurrentNumberOfTasks k2 = uxCurrentNumberOfTasks k" "xSchedulerRunning k2 = xSchedulerRunning k"
    "kernel.more k2 = kernel.more k"
    using f1 wake_frameD [OF k1(3)] by (simp_all add: k2_def)
  have q2: "queues k2 = (queues k)(q := (queues k q)\<lparr>cTxLock := queueUNLOCKED, cRxLock := queueUNLOCKED\<rparr>)"
    using f1(1) by (simp add: k2_def)
  obtain y k3 where k3: "xTaskResumeAll k2 = Some (y, k3)" "sched_inv k3" "unblocks k2 k3" "resume_frame k2 k3"
    "uxSchedulerSuspended k3 = 0" "xPendedTicks k3 = 0"
    "\<forall>t. container k2 (EventItem t) = Some xPendingReadyList \<longrightarrow> container k3 (StateItem t) = Some (pxReadyTasksLists (prio k2 t))"
    "pendSV k3 \<longleftrightarrow> y \<or> pendSV k2"
    "\<forall>t. xPendedTicks k2 = 0 \<longrightarrow> container k2 (EventItem t) \<noteq> Some xPendingReadyList \<longrightarrow>
       container k3 (StateItem t) = container k2 (StateItem t) \<and> container k3 (EventItem t) = container k2 (EventItem t)"
    by (rule xTaskResumeAll_inv [OF inv2 k2(3,4)]) blast
  have m3: "queues k3 = queues k2" "mem k3 = mem k2" "kernel.more k3 = kernel.more k2" using more_kernel [of k3 k2] k3(4) by (simp_all add: resume_frame_def)
  define k4 where "k4 = (if r = Blocked \<and> \<not> y then portYIELD k3 else k3)"
  have k4: "lists k4 = lists k3" "sched_inv k4" "queues k4 = queues k3" "mem k4 = mem k3" "uxSchedulerSuspended k4 = 0"
    "tcb k4 = tcb k3" "pxCurrentTCB k4 = pxCurrentTCB k3" "heap k4 = heap k3" "xPendedTicks k4 = 0"
    "uxCurrentNumberOfTasks k4 = uxCurrentNumberOfTasks k3" "xSchedulerRunning k4 = xSchedulerRunning k3"
    "kernel.more k4 = kernel.more k3"
    using k3 by (simp_all add: k4_def portYIELD_def)
  have st: "\<exists>l. i = EventItem l" if "i \<in> set (items k ?l)" for i
    using core_invD(2) [OF inv, of i ?l] lists_ok_mem [OF core_invD(1) [OF inv], of i ?l] that by (cases i) auto
  have rt: "j \<notin> set (take n (items k ?l))" if "j = StateItem t" for j t
    using st that by (metis in_set_takeD item.distinct(1))
  show ?thesis
  proof (rule that [of k4])
    show "queue_exit r q k = Some k4" using un k3(1) by (simp add: queue_exit_def k4_def)
    show "pendSV k4" if "r = Blocked" using that k3(8) by (simp add: k4_def portYIELD_def)
    show "container k4 (StateItem t) = Some (pxReadyTasksLists (prio k t))" if "EventItem t \<in> set (take n (items k ?l))" for t
      using k3(7) k1(4) that by (simp add: k4 k2)
    show "container k4 (StateItem t) = container k (StateItem t) \<and> container k4 (EventItem t) = container k (EventItem t)"
      if "xPendedTicks k = 0" "EventItem t \<notin> set (take n (items k ?l))" "container k (EventItem t) \<noteq> Some xPendingReadyList" for t
      using k3(9) k1(5) that rt [OF refl] by (simp add: k4 k2)
    show "container k4 (StateItem t) = Some (pxReadyTasksLists p)" if "container k (StateItem t) = Some (pxReadyTasksLists p)" for t p
      using unblocks_ready [OF k3(3)] k1(5) that rt [OF refl] by (simp add: k4 k2)
  qed (use k4 k3(4) k2 q2 m3 in \<open>simp_all add: resume_frame_def\<close>)
qed

section \<open>Waiting to receive\<close>

lemma check_time_going:
  assumes "check_time fr k = (False, fr', k')"
  shows "k' = k" "xTicksToWait fr' \<noteq> 0" "xInheritanceOccurred fr' = xInheritanceOccurred fr"
  using assms
  by (auto simp: check_time_def xTaskCheckForTimeOut_def Let_def portMAX_DELAY_def split: if_splits prod.splits)

lemma check_time_fresh:
  assumes "\<not> ucDelayAborted (tcb k' (pxCurrentTCB k'))" "w \<noteq> 0" "xTickCount k' = xTickCount k" "xNumOfOverflows k' = xNumOfOverflows k"
  shows "check_time (enter_time (start_frame w) k) k' = (False, enter_time (start_frame w) k, k')"
proof -
  let ?to = "\<lparr>xOverflowCount = xNumOfOverflows k, xTimeOnEntering = xTickCount k\<rparr>"
  have "0 < w" using assms(2) by (simp add: word_gt_0)
  then have "xTaskCheckForTimeOut ?to w k' = (False, ?to, w, k')"
    using assms by (simp add: xTaskCheckForTimeOut_def Let_def vTaskInternalSetTimeOutState_def)
  then show ?thesis by (simp add: check_time_def enter_time_def start_frame_def vTaskInternalSetTimeOutState_def)
qed

text \<open>
  From \<open>k\<close> to \<open>k'\<close> the running task has joined the waiting list \<open>l\<close>; it is blocked, no other task has
  moved, and nothing else that a caller can see has changed.
\<close>

definition joins :: "list_id \<Rightarrow> 'a sched_scheme \<Rightarrow> 'a sched_scheme \<Rightarrow> bool" where
  "joins l k k' \<longleftrightarrow> sched_inv k' \<and> tcb k' = (tcb k)(pxCurrentTCB k := (tcb k (pxCurrentTCB k))\<lparr>ucDelayAborted := False\<rparr>) \<and>
     pxCurrentTCB k' = pxCurrentTCB k \<and> uxSchedulerSuspended k' = uxSchedulerSuspended k \<and> xPendedTicks k' = xPendedTicks k \<and>
     uxCurrentNumberOfTasks k' = uxCurrentNumberOfTasks k \<and> heap k' = heap k \<and> xSchedulerRunning k' = xSchedulerRunning k \<and>
     sched.more k' = sched.more k \<and> container k' (EventItem (pxCurrentTCB k)) = Some l \<and> blocked k' (pxCurrentTCB k) \<and>
     (\<forall>j. owner j \<noteq> pxCurrentTCB k \<longrightarrow> container k' j = container k j) \<and>
     items k' l = items (upd_lists (ls_insert l (EventItem (pxCurrentTCB k))) k) l"

lemma place_joins:
  assumes "sched_inv k" "running_ready k" "waiting_list l" "w \<noteq> 0"
  obtains k' where "vTaskPlaceOnEventList l w k = Some k'" "joins l k k'"
proof -
  obtain k' where "vTaskPlaceOnEventList l w k = Some k'" "sched_inv k'"
    "tcb k' = (tcb k)(pxCurrentTCB k := (tcb k (pxCurrentTCB k))\<lparr>ucDelayAborted := False\<rparr>)"
    "pxCurrentTCB k' = pxCurrentTCB k" "uxSchedulerSuspended k' = uxSchedulerSuspended k"
    "xPendedTicks k' = xPendedTicks k" "heap k' = heap k" "uxCurrentNumberOfTasks k' = uxCurrentNumberOfTasks k"
    "xSchedulerRunning k' = xSchedulerRunning k" "sched.more k' = sched.more k"
    "container k' (EventItem (pxCurrentTCB k)) = Some l" "blocked k' (pxCurrentTCB k)"
    "\<forall>j. owner j \<noteq> pxCurrentTCB k \<longrightarrow> container k' j = container k j \<and> liValue (lists k') j = liValue (lists k) j"
    "\<forall>m. waiting_list m \<longrightarrow> items k' m = items (upd_lists (ls_insert l (EventItem (pxCurrentTCB k))) k) m"
    by (rule vTaskPlaceOnEventList_inv [OF assms]) blast
  then show ?thesis using assms(3) by (intro that [of k']) (simp_all add: joins_def)
qed

lemma joins_kernel:
  fixes k k' :: "'a kernel_scheme"
  assumes "joins l k k'"
  shows "queues k' = queues k" "mem k' = mem k"
  using assms more_kernel [of k' k] by (simp_all add: joins_def)

lemma xQueueReceive_wait_blocks:
  assumes "sched_inv k" "running_ready k" "uxMessagesWaiting (queues k q) = 0" "check_time fr k = (False, fr', k)"
  obtains k' where "xQueueReceive_wait q fr k = Some (Blocked, fr', k')" "joins (xTasksWaitingToReceive q) k k'"
proof -
  obtain k' where "vTaskPlaceOnEventList (xTasksWaitingToReceive q) (xTicksToWait fr') k = Some k'" "joins (xTasksWaitingToReceive q) k k'"
    by (rule place_joins [OF assms(1,2) _ check_time_going(2) [OF assms(4)], of "xTasksWaitingToReceive q"]) auto
  then show ?thesis using assms(3,4) by (intro that [of k']) (simp_all add: xQueueReceive_wait_def prvIsQueueEmpty_def)
qed

text \<open>A receive that finds the queue empty blocks the caller and requests a switch.\<close>

lemma queue_unlock_restore: "unlocked Q \<Longrightarrow> Q\<lparr>cTxLock := queueUNLOCKED, cRxLock := queueUNLOCKED\<rparr> = Q"
  by (simp add: unlocked_def)

lemma xQueueReceive_block_blocks:
  assumes k: "sched_inv k" "running_ready k" "uxSchedulerSuspended k = 0" "xPendedTicks k = 0" "0 < uxCurrentNumberOfTasks k"
    and q: "uxMessagesWaiting (queues k q) = 0" "unlocked (queues k q)" "pxQueueSetContainer (queues k q) = 0"
    and fr: "check_time fr (queue_enter q k) = (False, fr', queue_enter q k)"
  obtains k' where "xQueueReceive_block q fr k = Some (Again fr', k')" "sched_inv k'" "pendSV k'" "uxSchedulerSuspended k' = 0"
    "queues k' = queues k" "mem k' = mem k" "prio k' = prio k" "pxCurrentTCB k' = pxCurrentTCB k" "heap k' = heap k"
    "blocked k' (pxCurrentTCB k)" "container k' (EventItem (pxCurrentTCB k)) = Some (xTasksWaitingToReceive q)"
    "\<And>j. container k j \<noteq> Some xPendingReadyList \<Longrightarrow> owner j \<noteq> pxCurrentTCB k \<Longrightarrow>
       container k (EventItem (owner j)) \<noteq> Some xPendingReadyList \<Longrightarrow> container k' j = container k j"
proof -
  let ?c = "pxCurrentTCB k" and ?l = "xTasksWaitingToReceive q"
  define k0 where "k0 = queue_enter q k"
  have k0: "sched_inv k0" "running_ready k0" "uxMessagesWaiting (queues k0 q) = 0" "pxCurrentTCB k0 = ?c" "tcb k0 = tcb k"
    "lists k0 = lists k" "mem k0 = mem k" "heap k0 = heap k" "uxSchedulerSuspended k0 = Suc 0" "xPendedTicks k0 = 0"
    "uxCurrentNumberOfTasks k0 = uxCurrentNumberOfTasks k"
    "queues k0 = (queues k)(q := (queues k q)\<lparr>cRxLock := 0, cTxLock := 0\<rparr>)"
    using k q by (simp_all add: k0_def)
  obtain k1 where k1: "xQueueReceive_wait q fr k0 = Some (Blocked, fr', k1)" "joins ?l k0 k1"
    by (rule xQueueReceive_wait_blocks [OF k0(1-3) fr [folded k0_def]]) blast
  note J = k1(2) [unfolded joins_def k0(4-6)]
  have l1: "uxSchedulerSuspended k1 = Suc 0" "0 < uxCurrentNumberOfTasks k1" "cTxLock (queues k1 q) = int 0" "cRxLock (queues k1 q) = 0"
    "pxQueueSetContainer (queues k1 q) = 0" "sched_inv k1" "xPendedTicks k1 = 0"
    using J k0 joins_kernel(1) [OF k1(2)] q(3) k(5) by simp_all
  obtain k' where k': "queue_exit Blocked q k1 = Some k'" "sched_inv k'" "uxSchedulerSuspended k' = 0" "tcb k' = tcb k1"
    "pxCurrentTCB k' = pxCurrentTCB k1" "mem k' = mem k1" "pendSV k'" "heap k' = heap k1"
    "queues k' = (queues k1)(q := (queues k1 q)\<lparr>cTxLock := queueUNLOCKED, cRxLock := queueUNLOCKED\<rparr>)"
    "\<forall>t. container k1 (EventItem t) \<noteq> Some xPendingReadyList \<longrightarrow>
       container k' (StateItem t) = container k1 (StateItem t) \<and> container k' (EventItem t) = container k1 (EventItem t)"
    by (rule queue_exit_inv [OF l1(6,1-5), of Blocked]) (use l1(7) in auto)
  have qs: "queues k' = queues k"
  proof -
    have "(queues k q)\<lparr>cRxLock := 0, cTxLock := 0, cTxLock := queueUNLOCKED, cRxLock := queueUNLOCKED\<rparr> =
        (queues k q)\<lparr>cTxLock := queueUNLOCKED, cRxLock := queueUNLOCKED\<rparr>" by simp
    also have "\<dots> = queues k q" by (rule queue_unlock_restore [OF q(2)])
    finally show ?thesis using k'(9) k0(12) joins_kernel(1) [OF k1(2)] by (simp add: fun_eq_iff)
  qed
  have cc: "container k1 (EventItem ?c) = Some ?l" "blocked k1 ?c" using J by simp_all
  have c': "container k' (EventItem ?c) = Some ?l" "container k' (StateItem ?c) = container k1 (StateItem ?c)"
    using k'(10) cc(1) by simp_all
  have other: "container k' j = container k j"
    if "container k j \<noteq> Some xPendingReadyList" "owner j \<noteq> ?c" "container k (EventItem (owner j)) \<noteq> Some xPendingReadyList" for j
  proof -
    have "container k1 j = container k j" "container k1 (EventItem (owner j)) = container k (EventItem (owner j))"
      using J that(2) by simp_all
    then show ?thesis using k'(10) that(3) by (cases j) simp_all
  qed
  show ?thesis
  proof (rule that [of k'])
    show "xQueueReceive_block q fr k = Some (Again fr', k')"
      using k1(1) k'(1) by (simp add: xQueueReceive_block_def k0_def)
    show "blocked k' ?c" using cc(2) c'(2) by (simp add: blocked_def)
    show "prio k' = prio k" using k'(4) J by auto
  qed (use k' qs J joins_kernel(2) [OF k1(2)] k0 c' other in simp_all)
qed

section \<open>A receiver that waits gets the item\<close>

lemma distinct_singleton:
  assumes "set xs = {x}" "distinct xs"
  shows "xs = [x]"
proof (cases xs)
  case (Cons y ys)
  then have "y = x" "set ys \<subseteq> {x}" "x \<notin> set ys" using assms by auto
  then show ?thesis using Cons by (cases ys) auto
qed (use assms in simp)

lemma sole_waiter:
  assumes "sched_inv k" "container k (EventItem c) = Some l" "waiting_list l"
    "\<And>t. t \<noteq> c \<Longrightarrow> container k (EventItem t) \<noteq> Some l"
  shows "items k l = [EventItem c]"
proof -
  note D = core_invD [OF assms(1)]
  have "i = EventItem c" if "container k i = Some l" for i
  proof (cases i)
    case (StateItem t)
    then show ?thesis using D(2) [OF that] waiting_listD [OF assms(3)] by simp
  next
    case (EventItem t)
    then show ?thesis using assms(4) [of t] that by auto
  qed
  then have "set (items k l) = {EventItem c}"
    using assms(2) lists_ok_mem [OF D(1)] by blast
  moreover have "distinct (items k l)" using D(1) by (auto simp: lists_ok_def ls_wf_def)
  ultimately show ?thesis by (intro distinct_singleton)
qed

lemma queue_usable_cong:
  "queue_usable q n sz item buf k \<Longrightarrow> sched_inv k' \<Longrightarrow> queues k' q = queues k q \<Longrightarrow> queue_usable q n sz item buf k'"
  by (simp add: queue_usable_def)

text \<open>
  C7: A task that waits to receive gets what another task sends. The running task receives from an empty
  queue with a wait time (finite or endless) and nobody else waits: the first attempt goes on to block,
  the blocking part returns with the task in the queue's waiting list and in no ready list and requests
  a switch; the context switch runs another task; when that one sends an item, the send succeeds and the
  waiting task is ready again; when it next runs, its retry returns \<^verbatim>\<open>pdPASS\<close> with exactly that item in
  its buffer.
\<close>

theorem waiting_receiver_gets_item:
  assumes k: "queue_usable q n sz item buf k" "running_ready k" "uxSchedulerSuspended k = 0" "xPendedTicks k = 0"
      "0 < uxCurrentNumberOfTasks k"
    and q: "uxMessagesWaiting (queues k q) = 0" "unlocked (queues k q)"
    and alone: "items k (xTasksWaitingToReceive q) = []" "items k xPendingReadyList = []"
    and u: "container k (StateItem u) = Some (pxReadyTasksLists p)" "u \<noteq> pxCurrentTCB k"
    and w: "w \<noteq> 0" "\<not> ucDelayAborted (tcb k (pxCurrentTCB k))" and bs: "length bs = sz"
  shows "\<exists>fr fr' k1 k2 k3 k4.
    xQueueReceive_try q buf (start_frame w) k = Some (Again fr, k) \<and>
    xQueueReceive_block q fr k = Some (Again fr', k1) \<and> blocked k1 (pxCurrentTCB k) \<and> pendSV k1 \<and>
    vTaskSwitchContext k1 = Some k2 \<and> pxCurrentTCB k2 \<noteq> pxCurrentTCB k \<and>
    send_item q item bs k2 = Some (True, k3) \<and>
    container k3 (StateItem (pxCurrentTCB k)) = Some (pxReadyTasksLists (prio k (pxCurrentTCB k))) \<and>
    xQueueReceive_try q buf fr' (k3\<lparr>pxCurrentTCB := pxCurrentTCB k\<rparr>) = Some (Return True, k4) \<and>
    bytes_at (mem k4) buf sz = bs"
proof -
  let ?c = "pxCurrentTCB k" and ?l = "xTasksWaitingToReceive q"
  have inv: "sched_inv k" and con: "pxQueueSetContainer (queues k q) = 0" using k(1) by (simp_all add: queue_usable_def)
  note D = core_invD [OF inv]
  define fr where "fr = enter_time (start_frame w) k"
  have t: "xQueueReceive_try q buf (start_frame w) k = Some (Again fr, k)"
    using q(1) w(1) by (simp add: xQueueReceive_try_def empty_try_def fr_def)
  have ct: "check_time fr (queue_enter q k) = (False, fr, queue_enter q k)"
    unfolding fr_def by (rule check_time_fresh) (use w in simp_all)
  obtain k1 where k1: "xQueueReceive_block q fr k = Some (Again fr, k1)" "sched_inv k1" "pendSV k1" "uxSchedulerSuspended k1 = 0"
    "queues k1 = queues k" "mem k1 = mem k" "prio k1 = prio k" "pxCurrentTCB k1 = ?c" "blocked k1 ?c"
    "container k1 (EventItem ?c) = Some ?l"
    "\<forall>j. container k j \<noteq> Some xPendingReadyList \<longrightarrow> owner j \<noteq> ?c \<longrightarrow>
       container k (EventItem (owner j)) \<noteq> Some xPendingReadyList \<longrightarrow> container k1 j = container k j"
    by (rule xQueueReceive_block_blocks [OF inv k(2-5) q con ct]) blast
  have np: "container k i \<noteq> Some xPendingReadyList" "container k i \<noteq> Some ?l" for i
    using lists_ok_nil [OF D(1)] alone by blast+
  have oth: "container k1 j = container k j" if "owner j \<noteq> ?c" for j using k1(11) np(1) that by simp
  have sw: "items k1 ?l = [EventItem ?c]"
    by (rule sole_waiter [OF k1(2,10)]) (use oth np(2) in simp_all)
  have cu: "container k1 (StateItem u) = Some (pxReadyTasksLists p)" using oth u by simp
  obtain t2 k2 where k2: "vTaskSwitchContext k1 = Some k2" "k2 = k1\<lparr>xYieldPending := False, lists := lists k2, pxCurrentTCB := t2\<rparr>"
    "sched_inv k2" "running_ready k2" "\<forall>i. container k2 i = container k1 i"
    by (rule vTaskSwitchContext_inv [OF k1(2,4) cu]) blast
  have f2: "queues k2 = queues k" "mem k2 = mem k" "tcb k2 = tcb k1" "uxSchedulerSuspended k2 = 0" "pxCurrentTCB k2 = t2"
    by (subst k2(2), simp add: k1)+
  have "t2 \<noteq> ?c" using k2(4,5) f2(3,5) k1(9) by (auto simp: running_ready_def blocked_def)
  have sw2: "items k2 ?l = [EventItem ?c]"
    by (rule sole_waiter [OF k2(3)]) (use k2(5) k1(10) oth np(2) in simp_all)
  have us2: "queue_usable q n sz item buf k2" by (rule queue_usable_cong [OF k(1) k2(3)]) (simp add: f2)
  have e0: "queue_items (queues k2 q) (mem k2) = []" using q(1) by (simp add: f2 queue_items_def)
  have n0: "0 < n" using k(1) by (auto simp: queue_usable_def ring_ok_def)
  obtain k3 where k3: "send_item q item bs k2 = Some (True, k3)" "queue_usable q n sz item buf k3"
    "queue_items (queues k3 q) (mem k3) = [bs]"
    using send_item_law [OF us2 bs] e0 n0 by auto
  have rdy: "container k3 (StateItem ?c) = Some (pxReadyTasksLists (prio k ?c))"
  proof -
    define k2' where "k2' = k2\<lparr>mem := write_bytes item bs (mem k2)\<rparr>"
    have U: "sched_inv k2'" "q \<noteq> 0" "item \<noteq> 0" "ring_ok (queues k2' q)" "pxQueueSetContainer (queues k2' q) = 0"
      using us2 by (simp_all add: queue_usable_def k2'_def)
    have "if queueSEND_TO_BACK = queueOVERWRITE then uxLength (queues k2' q) = 1
        else uxMessagesWaiting (queues k2' q) < uxLength (queues k2' q)"
      using q(1) U(4) by (simp add: k2'_def f2 ring_ok_def)
    then obtain k3' where "xQueueGenericSend_nowait q item queueSEND_TO_BACK k2' = Some (True, k3')"
      "\<forall>t rest. items k2' ?l = EventItem t # rest \<longrightarrow> items k3' ?l = rest \<and>
       (uxSchedulerSuspended k2' = 0 \<longrightarrow> container k3' (StateItem t) = Some (pxReadyTasksLists (prio k2' t))) \<and>
       (prio k2' t > prio k2' (pxCurrentTCB k2') \<longrightarrow> pendSV k3')"
      using send_nowait_wakes [OF U] by blast
    then show ?thesis using k3(1) sw2 f2 k1(7) by (simp add: send_item_def k2'_def [symmetric]) (simp add: k2'_def fun_eq_iff)
  qed
  define k3c where "k3c = k3\<lparr>pxCurrentTCB := ?c\<rparr>"
  have us3: "queue_usable q n sz item buf k3c" using k3(2) by (simp add: queue_usable_def k3c_def)
  have i3: "queue_items (queues k3c q) (mem k3c) = [bs]" using k3(3) by (simp add: k3c_def)
  obtain k4 where k4: "xQueueReceive_try q buf fr k3c = Some (Return True, k4)" "bytes_at (mem k4) buf sz = bs"
    by (rule receive_try_first [OF us3 i3]) blast
  show ?thesis
    by (intro exI conjI) (use t k1 k2(1) f2 \<open>t2 \<noteq> ?c\<close> k3(1) rdy k4 in \<open>simp_all add: k3c_def\<close>)
qed

theorem waiting_receiver_gets_item_witness:
  "\<exists>fr fr' k1 k2 k3 k4. xQueueReceive_try 500 800 (start_frame 5) demo_kernel = Some (Again fr, demo_kernel) \<and>
    xQueueReceive_block 500 fr demo_kernel = Some (Again fr', k1) \<and> vTaskSwitchContext k1 = Some k2 \<and>
    send_item 500 700 [1, 2, 3, 4] k2 = Some (True, k3) \<and>
    xQueueReceive_try 500 800 fr' (k3\<lparr>pxCurrentTCB := 1000\<rparr>) = Some (Return True, k4) \<and>
    bytes_at (mem k4) 800 4 = [1, 2, 3, 4]"
proof -
  have "unlocked (queues demo_kernel 500)" "uxMessagesWaiting (queues demo_kernel 500) = 0"
    by (simp_all add: unlocked_def demo_queues_def)
  moreover have "items demo_kernel (xTasksWaitingToReceive 500) = []" "items demo_kernel xPendingReadyList = []"
    by (simp_all add: demo_other_lists)
  moreover have "\<not> ucDelayAborted (tcb demo_kernel (pxCurrentTCB demo_kernel))" by (simp add: demo_tcbs_def empty_TCB_def)
  ultimately show ?thesis
    using waiting_receiver_gets_item [OF demo_queue_usable demo_kernel_running, of 2000 3 5 "[1, 2, 3, 4]"]
    by simp blast
qed

section \<open>Interrupts while the queue is locked\<close>

lemma isr_send_locked:
  assumes k: "q \<noteq> 0" "item \<noteq> 0" "0 < uxItemSize (queues k q)" "uxMessagesWaiting (queues k q) < uxLength (queues k q)"
    and l: "cTxLock (queues k q) = 0" "0 < uxCurrentNumberOfTasks k"
  shows "xQueueGenericSendFromISR q item queueSEND_TO_BACK k = Some (True, False,
    upd_queue q (\<lambda>Q. Q\<lparr>cTxLock := 1\<rparr>) (sent q queueSEND_TO_BACK (bytes_at (mem k) item (uxItemSize (queues k q))) k))"
proof -
  let ?bs = "bytes_at (mem k) item (uxItemSize (queues k q))"
  have "prvCopyDataToQueue q ?bs queueSEND_TO_BACK k = Some (False, sent q queueSEND_TO_BACK ?bs k)"
    using k(3) by (simp add: prvCopyDataToQueue_def sent_def split_beta)
  moreover have "uxCurrentNumberOfTasks (sent q queueSEND_TO_BACK ?bs k) = uxCurrentNumberOfTasks k"
    by (simp add: sent_def split_beta)
  ultimately show ?thesis using k l
    by (simp add: xQueueGenericSendFromISR_def after_send_isr_def prvIncrementQueueTxLock_def queueUNLOCKED_def queueINT8_MAX_def)
qed

text \<open>
  C8: No wake-up is lost. A receiver that has found the queue empty suspends the scheduler and locks the
  queue before it puts itself on the waiting list. If an interrupt sends an item in that window, after
  the task has joined the list, the send succeeds and only counts itself in the lock (the task is still
  blocked); unlocking the queue and resuming the scheduler then makes the task ready, with the item in the queue.
\<close>

theorem no_lost_wakeup:
  assumes k: "queue_usable q n sz item buf k" "running_ready k" "uxSchedulerSuspended k = 0"
      "0 < uxCurrentNumberOfTasks k"
    and q: "uxMessagesWaiting (queues k q) = 0" "unlocked (queues k q)"
    and alone: "items k (xTasksWaitingToReceive q) = []"
    and w: "w \<noteq> 0" "\<not> ucDelayAborted (tcb k (pxCurrentTCB k))"
  shows "\<exists>k1 k2 k3.
    xQueueReceive_wait q (enter_time (start_frame w) k) (queue_enter q k) = Some (Blocked, enter_time (start_frame w) k, k1) \<and>
    xQueueGenericSendFromISR q item queueSEND_TO_BACK k1 = Some (True, False, k2) \<and> blocked k2 (pxCurrentTCB k) \<and>
    queue_exit Blocked q k2 = Some k3 \<and> sched_inv k3 \<and>
    container k3 (StateItem (pxCurrentTCB k)) = Some (pxReadyTasksLists (prio k (pxCurrentTCB k))) \<and>
    queue_items (queues k3 q) (mem k3) = [bytes_at (mem k) item sz]"
proof -
  let ?c = "pxCurrentTCB k" and ?l = "xTasksWaitingToReceive q" and ?fr = "enter_time (start_frame w) k"
  define k0 where "k0 = queue_enter q k"
  have inv: "sched_inv k" and U: "q \<noteq> 0" "item \<noteq> 0" "ring_ok (queues k q)" "uxItemSize (queues k q) = sz"
    "pxQueueSetContainer (queues k q) = 0" "uxLength (queues k q) = n" using k(1) by (simp_all add: queue_usable_def)
  have np: "container k i \<noteq> Some ?l" for i
    using lists_ok_nil [OF core_invD(1) [OF inv]] alone by blast
  have k0: "sched_inv k0" "running_ready k0" "uxMessagesWaiting (queues k0 q) = 0" "pxCurrentTCB k0 = ?c" "tcb k0 = tcb k"
    "lists k0 = lists k" "mem k0 = mem k" "queues k0 q = (queues k q)\<lparr>cRxLock := 0, cTxLock := 0\<rparr>"
    "uxSchedulerSuspended k0 = Suc 0" "uxCurrentNumberOfTasks k0 = uxCurrentNumberOfTasks k"
    using inv k q by (simp_all add: k0_def)
  have ct: "check_time ?fr k0 = (False, ?fr, k0)"
    by (rule check_time_fresh) (use w in \<open>simp_all add: k0_def\<close>)
  obtain k1 where k1: "xQueueReceive_wait q ?fr k0 = Some (Blocked, ?fr, k1)" "joins ?l k0 k1"
    by (rule xQueueReceive_wait_blocks [OF k0(1-3) ct]) blast
  note J = k1(2) [unfolded joins_def k0(4-6)]
  have k1q: "queues k1 q = (queues k q)\<lparr>cRxLock := 0, cTxLock := 0\<rparr>" "mem k1 = mem k"
    using joins_kernel [OF k1(2)] k0 by simp_all
  have it1: "items k1 ?l = [EventItem ?c]"
    by (rule sole_waiter) (use J np in auto)
  define bs where "bs = bytes_at (mem k) item sz"
  define k2 where "k2 = upd_queue q (\<lambda>Q. Q\<lparr>cTxLock := 1\<rparr>) (sent q queueSEND_TO_BACK bs k1)"
  have rok: "ring_ok (queues k1 q)" using U(3) by (simp add: k1q)
  have isr: "xQueueGenericSendFromISR q item queueSEND_TO_BACK k1 = Some (True, False, k2)"
    using isr_send_locked [OF U(1,2), of k1] rok q(1) U(4) k(4) J k0 by (simp add: k1q k2_def bs_def ring_ok_def)
  have s2: "lists k2 = lists k1" "sched_inv k2" "tcb k2 = tcb k1" "uxSchedulerSuspended k2 = Suc 0" "0 < uxCurrentNumberOfTasks k2"
    using J k0 k(4) by (simp_all add: k2_def sent_def split_beta)
  have q2: "cTxLock (queues k2 q) = int 1" "cRxLock (queues k2 q) = 0" "pxQueueSetContainer (queues k2 q) = 0"
    using U(5) by (simp_all add: k2_def k1q)
  obtain k3 where k3: "queue_exit Blocked q k2 = Some k3" "sched_inv k3" "mem k3 = mem k2"
    "queues k3 = (queues k2)(q := (queues k2 q)\<lparr>cTxLock := queueUNLOCKED, cRxLock := queueUNLOCKED\<rparr>)"
    "\<forall>t. EventItem t \<in> set (take 1 (items k2 ?l)) \<longrightarrow> container k3 (StateItem t) = Some (pxReadyTasksLists (prio k2 t))"
    by (rule queue_exit_inv [OF s2(2,4,5) q2, of Blocked]) blast
  have "prio k1 ?c = prio k ?c" using J by simp
  then have c3: "container k3 (StateItem ?c) = Some (pxReadyTasksLists (prio k ?c))"
    using k3(5) it1 by (simp add: s2)
  have room: "if queueSEND_TO_BACK = queueOVERWRITE then uxLength (queues k1 q) = 1 else uxMessagesWaiting (queues k1 q) < uxLength (queues k1 q)"
    using q(1) U(3) by (simp add: k1q ring_ok_def)
  have "queue_items (queues (sent q queueSEND_TO_BACK bs k1) q) (mem (sent q queueSEND_TO_BACK bs k1)) = [bs]"
    using sent_items(2) [OF rok _ room, of bs] q(1) U(4) by (simp add: bs_def k1q queue_items_def)
  then have "queue_items (queues k3 q) (mem k3) = [bs]"
    by (simp add: k3 k2_def)
  then show ?thesis using k1(1) isr J k3 c3 s2(1)
    by (intro exI [of _ k1] exI [of _ k2] exI [of _ k3]) (simp add: k0_def bs_def blocked_def)
qed

theorem no_lost_wakeup_witness:
  "\<exists>k1 k2 k3. xQueueReceive_wait 500 (enter_time (start_frame 5) demo_kernel) (queue_enter 500 demo_kernel) =
       Some (Blocked, enter_time (start_frame 5) demo_kernel, k1) \<and>
     xQueueGenericSendFromISR 500 700 queueSEND_TO_BACK k1 = Some (True, False, k2) \<and>
     queue_exit Blocked 500 k2 = Some k3 \<and> container k3 (StateItem 1000) = Some (pxReadyTasksLists 3)"
proof -
  have "unlocked (queues demo_kernel 500)" "uxMessagesWaiting (queues demo_kernel 500) = 0"
    by (simp_all add: unlocked_def demo_queues_def)
  moreover have "items demo_kernel (xTasksWaitingToReceive 500) = []" by (simp add: demo_other_lists)
  moreover have "\<not> ucDelayAborted (tcb demo_kernel (pxCurrentTCB demo_kernel))" by (simp add: demo_tcbs_def empty_TCB_def)
  moreover have "prio demo_kernel 1000 = 3" by (simp add: demo_tcbs_def)
  ultimately show ?thesis
    using no_lost_wakeup [OF demo_queue_usable demo_kernel_running, of 5] by (simp del: demo_kernel_simps(2)) blast
qed

end
