(* ===== verification/FR_Mutex.thy ===== *)
theory FR_Mutex
  imports FR_Queue_Block
begin

text \<open>
  Mutexes: a queue of length one without data, whose token is the right to hold it. A mutex has at most
  one holder, a recursive mutex counts its holder's calls, and a holder inherits the priority of a task
  that waits for it.
\<close>

section \<open>The state of a mutex\<close>

lemma upd_tcb_kernel [simp]: "queues (upd_tcb t f k) = queues k" "mem (upd_tcb t f k) = mem k"
  by (simp_all add: upd_tcb_def)

definition mutex_ok :: "addr \<Rightarrow> 'a kernel_scheme \<Rightarrow> bool" where
  "mutex_ok q k \<longleftrightarrow> (let Q = queues k q in q \<noteq> 0 \<and> is_mutex Q \<and> uxLength Q = 1 \<and> uxItemSize Q = 0 \<and>
     pxQueueSetContainer Q = 0 \<and>
     (if xMutexHolder Q = 0 then uxMessagesWaiting Q = 1
      else uxMessagesWaiting Q = 0 \<and> uxMutexesHeld (tcb k (xMutexHolder Q)) \<noteq> 0))"

lemma mutex_ok_current [simp]: "mutex_ok q (k\<lparr>pxCurrentTCB := t\<rparr>) = mutex_ok q k"
  by (simp add: mutex_ok_def)

definition ready :: "'a sched_scheme \<Rightarrow> addr \<Rightarrow> bool" where
  "ready k t \<longleftrightarrow> (\<exists>p. container k (StateItem t) = Some (pxReadyTasksLists p))"

lemma ready_running: "sched_inv k \<Longrightarrow> ready k t \<Longrightarrow> running_ready (k\<lparr>pxCurrentTCB := t\<rparr>)"
  using core_invD(6) [of "{}" True k t] by (auto simp: ready_def running_ready_def)

lemma ready_nonzero: "sched_inv k \<Longrightarrow> ready k t \<Longrightarrow> t \<noteq> 0"
  using core_invD(3) [of "{}" True k "StateItem 0"] by (cases "t = 0") (auto simp: ready_def)

lemma ready_wakes:
  assumes "wakes_head l k k'" "ready k t" "sched_inv k" "waiting_list l"
  shows "ready k' t"
proof -
  obtain p where p: "container k (StateItem t) = Some (pxReadyTasksLists p)" using assms(2) by (auto simp: ready_def)
  have "container k (EventItem t) = None" by (rule ready_no_event [OF assms(3) p])
  then have "container k' (StateItem t) = container k (StateItem t)"
    using assms(1) p waiting_listD [OF assms(4), of p] unfolding wakes_head_def by auto
  then show ?thesis using p by (auto simp: ready_def)
qed

lemma ready_reprio: "reprio m k k' \<Longrightarrow> ready k t \<Longrightarrow> ready k' t"
  unfolding reprio_def ready_def by (cases "t = m") auto

section \<open>Taking and giving\<close>

text \<open>Taking a free mutex makes the running task its holder.\<close>

lemma take_free:
  assumes inv: "sched_inv k" and q: "mutex_ok q k" "xMutexHolder (queues k q) = 0" and c: "pxCurrentTCB k \<noteq> 0"
  obtains k' where "xQueueSemaphoreTake_try q fr k = Some (Return True, k')" "sched_inv k'"
    "queues k' = (queues k)(q := (queues k q)\<lparr>uxMessagesWaiting := 0, pcTail := pxCurrentTCB k\<rparr>)"
    "tcb k' = (tcb k)(pxCurrentTCB k := (tcb k (pxCurrentTCB k))\<lparr>uxMutexesHeld := uxMutexesHeld (tcb k (pxCurrentTCB k)) + 1\<rparr>)"
    "pxCurrentTCB k' = pxCurrentTCB k" "mem k' = mem k" "heap k' = heap k" "uxSchedulerSuspended k' = uxSchedulerSuspended k"
    "xSchedulerRunning k' = xSchedulerRunning k" "uxCurrentNumberOfTasks k' = uxCurrentNumberOfTasks k"
    "\<And>t. ready k t \<Longrightarrow> ready k' t" "kernel.more k' = kernel.more k"
proof -
  let ?c = "pxCurrentTCB k" and ?f = "\<lambda>t. t\<lparr>uxMutexesHeld := uxMutexesHeld t + 1\<rparr>"
  define k1 where "k1 = upd_queue q (\<lambda>Q. Q\<lparr>pcTail := ?c\<rparr>) (upd_tcb ?c ?f (set_waiting q 0 k))"
  have Q: "is_mutex (queues k q)" "uxMessagesWaiting (queues k q) = 1" using q by (auto simp: mutex_ok_def Let_def)
  have inv1: "sched_inv k1"
    unfolding k1_def core_inv_kernel by (rule core_inv_upd_tcb) (use inv core_invD(5) [OF inv] in \<open>auto simp: set_waiting_def\<close>)
  have k1: "queues k1 = (queues k)(q := (queues k q)\<lparr>uxMessagesWaiting := 0, pcTail := ?c\<rparr>)" "lists k1 = lists k"
    "tcb k1 = (tcb k)(?c := ?f (tcb k ?c))" "pxCurrentTCB k1 = ?c" "mem k1 = mem k" "heap k1 = heap k"
    "uxSchedulerSuspended k1 = uxSchedulerSuspended k" "xSchedulerRunning k1 = xSchedulerRunning k"
    "uxCurrentNumberOfTasks k1 = uxCurrentNumberOfTasks k" "kernel.more k1 = kernel.more k"
    by (simp_all add: k1_def set_waiting_def upd_queue_def upd_tcb_def)
  obtain w k2 where w: "wake_first (xTasksWaitingToSend q) k1 = Some (w, k2)" "wakes_head (xTasksWaitingToSend q) k1 (yield_if (w, k2))"
    by (rule wake_yield [OF inv1, of "xTasksWaitingToSend q"]) auto
  have run: "xQueueSemaphoreTake_try q fr k = Some (Return True, yield_if (w, k2))"
  proof -
    have "(let (h, k) = pvTaskIncrementMutexHeldCount (set_waiting q 0 k) in upd_queue q (\<lambda>Q. Q\<lparr>pcTail := h\<rparr>) k) = k1"
      using c by (simp add: pvTaskIncrementMutexHeldCount_def k1_def set_waiting_def)
    moreover have "is_mutex (queues (set_waiting q 0 k) q)" using Q(1) by (simp add: set_waiting_def is_mutex_def)
    ultimately show ?thesis using Q(2) w(1) by (simp add: xQueueSemaphoreTake_try_def)
  qed
  have rdy: "ready (yield_if (w, k2)) t" if "ready k t" for t
    by (rule ready_wakes [OF w(2) _ inv1]) (use that k1(2) in \<open>simp_all add: ready_def\<close>)
  show ?thesis
    by (rule that [OF run]) (use wakes_headD [OF w(2)] wakes_head_kernel [OF w(2)] k1 rdy in simp_all)
qed

text \<open>Giving a mutex back by its holder.\<close>

lemma give_holder:
  assumes inv: "sched_inv k" and rr: "running_ready k" and q: "mutex_ok q k" "xMutexHolder (queues k q) = pxCurrentTCB k"
  obtains k' where "xQueueGenericSend_nowait q 0 queueSEND_TO_BACK k = Some (True, k')" "sched_inv k'"
    "queues k' = (queues k)(q := (queues k q)\<lparr>pcTail := 0, uxMessagesWaiting := 1\<rparr>)"
    "tcb k' = (tcb k)(pxCurrentTCB k := (tcb k (pxCurrentTCB k))\<lparr>uxMutexesHeld := uxMutexesHeld (tcb k (pxCurrentTCB k)) - 1,
       uxPriority := (if uxMutexesHeld (tcb k (pxCurrentTCB k)) = 1 then uxBasePriority (tcb k (pxCurrentTCB k))
         else prio k (pxCurrentTCB k))\<rparr>)"
    "pxCurrentTCB k' = pxCurrentTCB k" "mem k' = mem k" "heap k' = heap k" "uxSchedulerSuspended k' = uxSchedulerSuspended k"
    "\<And>t. ready k t \<Longrightarrow> ready k' t"
    "\<And>t rest. items k (xTasksWaitingToReceive q) = EventItem t # rest \<Longrightarrow> t \<noteq> pxCurrentTCB k \<Longrightarrow> uxSchedulerSuspended k = 0 \<Longrightarrow>
       container k' (StateItem t) = Some (pxReadyTasksLists (prio k t)) \<and> (prio k t > prio k' (pxCurrentTCB k) \<longrightarrow> pendSV k')"
    "items k (xTasksWaitingToReceive q) = [] \<Longrightarrow> uxMutexesHeld (tcb k (pxCurrentTCB k)) = 1 \<Longrightarrow>
       prio k (pxCurrentTCB k) \<noteq> uxBasePriority (tcb k (pxCurrentTCB k)) \<Longrightarrow> pendSV k'"
    "kernel.more k' = kernel.more k" "uxCurrentNumberOfTasks k' = uxCurrentNumberOfTasks k"
proof -
  let ?c = "pxCurrentTCB k" and ?l = "xTasksWaitingToReceive q"
  have c0: "?c \<noteq> 0" by (rule running_nonzero [OF inv rr])
  have Q: "q \<noteq> 0" "is_mutex (queues k q)" "uxMessagesWaiting (queues k q) = 0" "uxLength (queues k q) = 1" "uxItemSize (queues k q) = 0"
    "pxQueueSetContainer (queues k q) = 0" "uxMutexesHeld (tcb k ?c) \<noteq> 0"
    using q c0 by (simp_all add: mutex_ok_def Let_def)
  define y where "y \<longleftrightarrow> uxMutexesHeld (tcb k ?c) = 1 \<and> prio k ?c \<noteq> uxBasePriority (tcb k ?c)"
  obtain k1 where k1: "xTaskPriorityDisinherit ?c k = Some (y, k1)" "sched_inv k1" "reprio ?c k k1"
    "tcb k1 ?c = (tcb k ?c)\<lparr>uxMutexesHeld := uxMutexesHeld (tcb k ?c) - 1,
       uxPriority := (if uxMutexesHeld (tcb k ?c) = 1 then uxBasePriority (tcb k ?c) else prio k ?c)\<rparr>"
    unfolding y_def by (rule xTaskPriorityDisinherit_inv [OF inv rr Q(7)]) blast
  note R = k1(3) [unfolded reprio_def]
  have q1: "queues k1 = queues k" "mem k1 = mem k" "kernel.more k1 = kernel.more k" using more_kernel [of k1 k] R by simp_all
  define k2 where "k2 = upd_queue q (\<lambda>Q. Q\<lparr>uxMessagesWaiting := 1\<rparr>) (upd_queue q (\<lambda>Q. Q\<lparr>pcTail := 0\<rparr>) k1)"
  have inv2: "sched_inv k2" using k1(2) by (simp add: k2_def)
  have k2: "lists k2 = lists k1" "tcb k2 = tcb k1" "pxCurrentTCB k2 = ?c" "mem k2 = mem k" "heap k2 = heap k"
    "uxSchedulerSuspended k2 = uxSchedulerSuspended k" "pxQueueSetContainer (queues k2 q) = 0"
    "uxCurrentNumberOfTasks k2 = uxCurrentNumberOfTasks k"
    "queues k2 = (queues k)(q := (queues k q)\<lparr>pcTail := 0, uxMessagesWaiting := 1\<rparr>)"
    using R by (simp_all add: k2_def q1 Q(6))
  have m2: "kernel.more k2 = kernel.more k" using q1(3) by (simp add: k2_def upd_queue_def)
  have cp: "prvCopyDataToQueue q [] queueSEND_TO_BACK k = Some (y, k2)"
    using Q q(2) k1(1) by (simp add: prvCopyDataToQueue_def k2_def)
  have tcb2: "tcb k2 = (tcb k)(?c := (tcb k ?c)\<lparr>uxMutexesHeld := uxMutexesHeld (tcb k ?c) - 1,
       uxPriority := (if uxMutexesHeld (tcb k ?c) = 1 then uxBasePriority (tcb k ?c) else prio k ?c)\<rparr>)"
    using R k1(4) by (intro ext) (simp add: k2(2))
  obtain w k3 where w: "wake_first ?l k2 = Some (w, k3)" "wakes_head ?l k2 (yield_if (w, k3))"
    by (rule wake_yield [OF inv2, of ?l]) auto
  define k4 where "k4 = (if items k2 ?l = [] \<and> y then portYIELD k2 else yield_if (w, k3))"
  have e: "yield_if (w, k3) = k2" if "items k2 ?l = []" using w(1) that by (auto simp: wake_first_def yield_if_def)
  have as: "after_send q queueSEND_TO_BACK 0 y k2 = Some k4"
  proof (cases "items k2 ?l = []")
    case True
    then show ?thesis using k2(7) e by (simp add: after_send_def k4_def)
  next
    case False
    then have "xTaskRemoveFromEventList ?l k2 = Some (w, k3)" using w(1) by (simp add: wake_first_def)
    then show ?thesis using k2(7) False by (simp add: after_send_def k4_def)
  qed
  have run: "xQueueGenericSend_nowait q 0 queueSEND_TO_BACK k = Some (True, k4)"
    using Q cp as by (simp add: xQueueGenericSend_nowait_def xQueueGenericSend_entry_def xQueueGenericSend_try_def bytes_at_def)
  have k4: "sched_inv k4" "queues k4 = queues k2" "tcb k4 = tcb k2" "pxCurrentTCB k4 = ?c" "mem k4 = mem k" "heap k4 = heap k"
    "uxSchedulerSuspended k4 = uxSchedulerSuspended k" "kernel.more k4 = kernel.more k"
    "uxCurrentNumberOfTasks k4 = uxCurrentNumberOfTasks k"
    using wakes_headD [OF w(2)] wakes_head_kernel [OF w(2)] inv2 k2 m2 by (simp_all add: k4_def portYIELD_def)
  have rdy: "ready k4 t" if "ready k t" for t
  proof -
    have r2: "ready k2 t" using ready_reprio [OF k1(3) that] by (simp add: ready_def k2(1))
    show ?thesis using ready_wakes [OF w(2) r2 inv2] r2 by (auto simp: k4_def portYIELD_def ready_def)
  qed
  have wk: "container k4 (StateItem t) = Some (pxReadyTasksLists (prio k t)) \<and> (prio k t > prio k4 ?c \<longrightarrow> pendSV k4)"
    if it: "items k ?l = EventItem t # rest" and t: "t \<noteq> ?c" "uxSchedulerSuspended k = 0" for t rest
  proof -
    have "items k2 ?l = EventItem t # rest" using R it by (simp add: k2(1))
    then show ?thesis using w(2) t k4(3) k2(3,6) tcb2 by (auto simp: k4_def wakes_head_def)
  qed
  have yl: "pendSV k4" if "items k ?l = []" "y" using R that by (simp add: k4_def k2(1) portYIELD_def)
  show ?thesis
    by (rule that [OF run]) (use k4 k2(9) tcb2 rdy wk yl in \<open>simp_all add: y_def\<close>)
qed

section \<open>Recursive mutexes as re-entrant locks\<close>

text \<open>A re-entrant lock is free, or has an owner and the number of takes to be undone.\<close>

type_synonym 't lock = "('t \<times> nat) option"

fun may_take :: "'t \<Rightarrow> 't lock \<Rightarrow> bool" where
  "may_take t None = True"
| "may_take t (Some (h, n)) = (h = t)"

fun after_take :: "'t \<Rightarrow> 't lock \<Rightarrow> 't lock" where
  "after_take t None = Some (t, 1)"
| "after_take t (Some (h, n)) = (if h = t then Some (h, n + 1) else Some (h, n))"

fun depth :: "'t \<Rightarrow> 't lock \<Rightarrow> nat" where
  "depth t None = 0"
| "depth t (Some (h, n)) = (if h = t then n else 0)"

fun after_give :: "'t \<Rightarrow> 't lock \<Rightarrow> 't lock" where
  "after_give t None = None"
| "after_give t (Some (h, n)) = (if h \<noteq> t then Some (h, n) else if n = 1 then None else Some (h, n - 1))"

datatype 't lock_op = Take 't | Give 't

fun lock_run :: "('t \<Rightarrow> 's \<Rightarrow> (bool \<times> 's) option) \<Rightarrow> ('t \<Rightarrow> 's \<Rightarrow> (bool \<times> 's) option) \<Rightarrow>
    't lock_op list \<Rightarrow> 's \<Rightarrow> (bool list \<times> 's) option" where
  "lock_run take_op give_op [] s = Some ([], s)"
| "lock_run take_op give_op (oper # os) s = do {
     (b, s) \<leftarrow> (case oper of Take t \<Rightarrow> take_op t s | Give t \<Rightarrow> give_op t s);
     (bs, s) \<leftarrow> lock_run take_op give_op os s;
     Some (b # bs, s)
   }"

text \<open>
  The reference: a take succeeds exactly when the lock is free or the caller has it, a give exactly when
  the caller has it.
\<close>

fun allowed :: "'t lock_op \<Rightarrow> 't lock \<Rightarrow> bool" where
  "allowed (Take t) l = may_take t l"
| "allowed (Give t) l = (0 < depth t l)"

fun lock_after :: "'t lock_op \<Rightarrow> 't lock \<Rightarrow> 't lock" where
  "lock_after (Take t) l = after_take t l"
| "lock_after (Give t) l = after_give t l"

fun lock_ref :: "'t lock_op list \<Rightarrow> 't lock \<Rightarrow> bool list \<times> 't lock" where
  "lock_ref [] l = ([], l)"
| "lock_ref (oper # os) l = apfst ((#) (allowed oper l)) (lock_ref os (lock_after oper l))"

text \<open>The successful takes of a task minus its successful gives.\<close>

fun net_takes :: "'t \<Rightarrow> 't lock_op list \<Rightarrow> bool list \<Rightarrow> int" where
  "net_takes t (Take u # os) (b # bs) = (if b \<and> u = t then 1 else 0) + net_takes t os bs"
| "net_takes t (Give u # os) (b # bs) = (if b \<and> u = t then - 1 else 0) + net_takes t os bs"
| "net_takes t _ _ = 0"

fun actor :: "'t lock_op \<Rightarrow> 't" where
  "actor (Take t) = t"
| "actor (Give t) = t"

fun total_depth :: "'t lock \<Rightarrow> nat" where
  "total_depth None = 0"
| "total_depth (Some (h, n)) = n"

lemma depth_after_take: "int (depth t (after_take u l)) = int (depth t l) + (if may_take u l \<and> u = t then 1 else 0)"
  by (cases l) auto

lemma depth_after_give:
  assumes "\<And>h n. l = Some (h, n) \<Longrightarrow> 0 < n"
  shows "int (depth t (after_give u l)) = int (depth t l) + (if 0 < depth u l \<and> u = t then - 1 else 0)"
  using assms by (cases l) (auto split: if_splits)

lemma total_depth_after: "total_depth (lock_after oper l) \<le> Suc (total_depth l)"
  by (cases oper; cases l; auto)

lemma depth_exclusive: "t \<noteq> u \<Longrightarrow> depth t l = 0 \<or> depth u l = 0"
  by (cases l) auto

lemma net_takes_Cons: "net_takes t (oper # os) (b # bs) = net_takes t [oper] [b] + net_takes t os bs"
  by (cases oper) auto

lemma after_positive: "(\<And>h n. l = Some (h, n) \<Longrightarrow> 0 < n) \<Longrightarrow> lock_after oper l = Some (h, n) \<Longrightarrow> 0 < n"
  by (cases oper; cases l) (auto split: if_splits)

lemma ref_balance:
  assumes "\<And>h n. l = Some (h, n) \<Longrightarrow> 0 < n"
  shows "int (depth t (snd (lock_ref os l))) = int (depth t l) + net_takes t os (fst (lock_ref os l))"
  using assms
proof (induction os arbitrary: l)
  case (Cons oper os)
  have "int (depth t (lock_after oper l)) = int (depth t l) + net_takes t [oper] [allowed oper l]"
  proof (cases oper)
    case (Take u)
    then show ?thesis using depth_after_take [of t u l] by (auto split: if_splits)
  next
    case (Give u)
    then show ?thesis using depth_after_give [of l t u] Cons.prems by (auto split: if_splits)
  qed
  moreover have "int (depth t (snd (lock_ref os (lock_after oper l)))) =
      int (depth t (lock_after oper l)) + net_takes t os (fst (lock_ref os (lock_after oper l)))"
    by (rule Cons.IH) (rule after_positive [OF Cons.prems])
  ultimately show ?case by (simp add: net_takes_Cons [of t oper os] del: net_takes.simps)
qed simp

locale reentrant_lock =
  fixes ok :: "'s \<Rightarrow> bool" and lock_of :: "'s \<Rightarrow> 't lock" and can_run :: "'s \<Rightarrow> 't \<Rightarrow> bool" and limit :: nat
    and take_op :: "'t \<Rightarrow> 's \<Rightarrow> (bool \<times> 's) option" and give_op :: "'t \<Rightarrow> 's \<Rightarrow> (bool \<times> 's) option"
  assumes take_law: "ok s \<Longrightarrow> can_run s t \<Longrightarrow> total_depth (lock_of s) < limit \<Longrightarrow>
      \<exists>s'. take_op t s = Some (may_take t (lock_of s), s') \<and> ok s' \<and> lock_of s' = after_take t (lock_of s) \<and>
        (\<forall>u. can_run s u \<longrightarrow> can_run s' u)"
    and give_law: "ok s \<Longrightarrow> can_run s t \<Longrightarrow>
      \<exists>s'. give_op t s = Some (0 < depth t (lock_of s), s') \<and> ok s' \<and> lock_of s' = after_give t (lock_of s) \<and>
        (\<forall>u. can_run s u \<longrightarrow> can_run s' u)"
    and positive: "ok s \<Longrightarrow> lock_of s = Some (h, n) \<Longrightarrow> 0 < n"
begin

lemma op_law:
  assumes "ok s" "can_run s (actor oper)" "total_depth (lock_of s) < limit"
  obtains s' where "(case oper of Take t \<Rightarrow> take_op t s | Give t \<Rightarrow> give_op t s) = Some (allowed oper (lock_of s), s')" "ok s'"
    "\<And>u. can_run s u \<Longrightarrow> can_run s' u" "lock_of s' = lock_after oper (lock_of s)"
  using take_law [OF assms(1) _ assms(3)] give_law [OF assms(1)] assms(2) by (cases oper) fastforce+

lemma run_is_ref:
  assumes "ok s" "\<forall>oper \<in> set os. can_run s (actor oper)" "total_depth (lock_of s) + length os \<le> limit"
  shows "\<exists>s'. lock_run take_op give_op os s = Some (fst (lock_ref os (lock_of s)), s') \<and> ok s' \<and>
    lock_of s' = snd (lock_ref os (lock_of s))"
  using assms
proof (induction os arbitrary: s)
  case (Cons oper os)
  have c: "can_run s (actor oper)" "total_depth (lock_of s) < limit" using Cons.prems(2,3) by auto
  obtain s1 where s1: "(case oper of Take t \<Rightarrow> take_op t s | Give t \<Rightarrow> give_op t s) = Some (allowed oper (lock_of s), s1)" "ok s1"
    "\<forall>u. can_run s u \<longrightarrow> can_run s1 u" "lock_of s1 = lock_after oper (lock_of s)"
    by (rule op_law [OF Cons.prems(1) c]) blast
  have "total_depth (lock_of s1) + length os \<le> limit"
    using Cons.prems(3) total_depth_after [of oper "lock_of s"] s1(4) by simp
  then show ?case using Cons.IH [OF s1(2)] s1 Cons.prems(2) by auto
qed simp

lemma mutual_exclusion:
  assumes "ok s" "\<forall>oper \<in> set os. can_run s (actor oper)" "length os \<le> limit" "lock_of s = None" "t \<noteq> u"
  shows "\<exists>bs s'. lock_run take_op give_op os s = Some (bs, s') \<and> (bs, lock_of s') = lock_ref os None \<and>
    (\<forall>v. net_takes v os bs = int (depth v (lock_of s'))) \<and> \<not> (0 < net_takes t os bs \<and> 0 < net_takes u os bs)"
proof -
  obtain s' where r: "lock_run take_op give_op os s = Some (fst (lock_ref os None), s')" "lock_of s' = snd (lock_ref os None)"
    using run_is_ref [OF assms(1,2)] assms(3,4) by auto
  have "net_takes v os (fst (lock_ref os None)) = int (depth v (lock_of s'))" for v
    using ref_balance [of None v os] r(2) by simp
  then show ?thesis using r depth_exclusive [OF assms(5), of "lock_of s'"] by auto
qed

end

text \<open>The recursive mutex at \<open>q\<close>, taken without waiting and given by a task \<open>t\<close> that is running.\<close>

definition take_recursive :: "addr \<Rightarrow> addr \<Rightarrow> 'a kernel_scheme \<Rightarrow> (bool \<times> 'a kernel_scheme) option" where
  "take_recursive q t k = do {
     (a, k) \<leftarrow> xQueueTakeMutexRecursive_entry q 0 (k\<lparr>pxCurrentTCB := t\<rparr>);
     case a of
       Return b \<Rightarrow> Some (b, k)
     | Again fr \<Rightarrow> do {
         (a, k) \<leftarrow> xQueueTakeMutexRecursive_try q fr k;
         case a of Return b \<Rightarrow> Some (b, k) | Again _ \<Rightarrow> None
       }
   }"

definition give_recursive :: "addr \<Rightarrow> addr \<Rightarrow> 'a kernel_scheme \<Rightarrow> (bool \<times> 'a kernel_scheme) option" where
  "give_recursive q t k = xQueueGiveMutexRecursive q (k\<lparr>pxCurrentTCB := t\<rparr>)"

definition lock_state :: "addr \<Rightarrow> 'a kernel_scheme \<Rightarrow> addr lock" where
  "lock_state q k = (if xMutexHolder (queues k q) = 0 then None
     else Some (xMutexHolder (queues k q), uxRecursiveCallCount (queues k q)))"

definition recursive_ok :: "addr \<Rightarrow> 'a kernel_scheme \<Rightarrow> bool" where
  "recursive_ok q k \<longleftrightarrow> sched_inv k \<and> mutex_ok q k \<and>
     (if xMutexHolder (queues k q) = 0 then uxRecursiveCallCount (queues k q) = 0
      else 0 < uxRecursiveCallCount (queues k q) \<and> uxRecursiveCallCount (queues k q) < 2 ^ 32)"

lemma recursive_ok_current [simp]: "recursive_ok q (k\<lparr>pxCurrentTCB := t\<rparr>) = recursive_ok q k"
  by (simp add: recursive_ok_def)

lemma take_recursive_law:
  assumes ok: "recursive_ok q k" and t: "ready k t" and d: "total_depth (lock_state q k) < 2 ^ 32 - 1"
  shows "\<exists>k'. take_recursive q t k = Some (may_take t (lock_state q k), k') \<and> recursive_ok q k' \<and>
    lock_state q k' = after_take t (lock_state q k) \<and> (\<forall>u. ready k u \<longrightarrow> ready k' u)"
proof -
  define k0 where "k0 = k\<lparr>pxCurrentTCB := t\<rparr>"
  have inv: "sched_inv k0" and m: "mutex_ok q k0" using ok by (simp_all add: recursive_ok_def k0_def)
  have k0: "queues k0 = queues k" "tcb k0 = tcb k" "pxCurrentTCB k0 = t" "lists k0 = lists k" by (simp_all add: k0_def)
  have t0: "t \<noteq> 0" by (rule ready_nonzero [OF _ t]) (use ok in \<open>simp add: recursive_ok_def\<close>)
  have Q: "q \<noteq> 0" "uxItemSize (queues k q) = 0" using m by (simp_all add: mutex_ok_def Let_def k0)
  let ?h = "xMutexHolder (queues k q)" and ?n = "uxRecursiveCallCount (queues k q)"
  consider "?h = t" | "?h = 0" | "?h \<noteq> 0" "?h \<noteq> t" by blast
  then show ?thesis
  proof cases
    case 1
    have n: "0 < ?n" "?n + 1 < 2 ^ 32" using ok d 1 t0 by (auto simp: recursive_ok_def lock_state_def)
    define k' where "k' = upd_queue q (\<lambda>Q. Q\<lparr>pcReadFrom := ?n + 1\<rparr>) k0"
    have "count_recursive_call q k0 = Some k'"
      using n by (simp add: count_recursive_call_def k'_def k0 upd_queue_def)
    then have "take_recursive q t k = Some (True, k')"
      using 1 Q(1) by (simp add: take_recursive_def xQueueTakeMutexRecursive_entry_def k0_def [symmetric] k0)
    moreover have "recursive_ok q k'"
      using m n 1 t0 inv by (simp add: recursive_ok_def k'_def mutex_ok_def is_mutex_def Let_def k0)
    moreover have "lock_state q k' = Some (t, ?n + 1)" using 1 t0 by (simp add: lock_state_def k'_def k0)
    ultimately show ?thesis using 1 t0 by (intro exI [of _ k']) (simp add: lock_state_def k'_def k0 ready_def)
  next
    case 2
    obtain k1 where k1: "xQueueSemaphoreTake_try q (start_frame 0) k0 = Some (Return True, k1)" "sched_inv k1"
      "queues k1 = (queues k0)(q := (queues k0 q)\<lparr>uxMessagesWaiting := 0, pcTail := pxCurrentTCB k0\<rparr>)"
      "tcb k1 = (tcb k0)(pxCurrentTCB k0 := (tcb k0 (pxCurrentTCB k0))\<lparr>uxMutexesHeld := uxMutexesHeld (tcb k0 (pxCurrentTCB k0)) + 1\<rparr>)"
      "\<forall>t. ready k0 t \<longrightarrow> ready k1 t"
      by (rule take_free [OF inv m, of "start_frame 0"]) (use 2 t0 in \<open>auto simp: k0\<close>)
    have n: "?n = 0" using ok 2 by (simp add: recursive_ok_def)
    define k' where "k' = upd_queue q (\<lambda>Q. Q\<lparr>pcReadFrom := 1\<rparr>) k1"
    have "count_recursive_call q k1 = Some k'"
      using n by (simp add: count_recursive_call_def k'_def k1(3) k0 upd_queue_def)
    then have "take_recursive q t k = Some (True, k')"
      using 2 Q t0 k1(1)
      by (simp add: take_recursive_def xQueueTakeMutexRecursive_entry_def xQueueSemaphoreTake_entry_def
          xQueueTakeMutexRecursive_try_def k0_def [symmetric] k0)
    moreover have "recursive_ok q k'"
      using m k1(2) t0 by (simp add: recursive_ok_def mutex_ok_def is_mutex_def Let_def k'_def k1(3,4) k0)
    moreover have "lock_state q k' = Some (t, 1)" using t0 by (simp add: lock_state_def k'_def k1(3) k0)
    moreover have "\<forall>u. ready k u \<longrightarrow> ready k' u" using k1(5) by (simp add: ready_def k'_def k0)
    ultimately show ?thesis using 2 by (intro exI [of _ k']) (simp add: lock_state_def)
  next
    case 3
    then have "uxMessagesWaiting (queues k q) = 0" using m by (simp add: mutex_ok_def Let_def k0)
    then have "take_recursive q t k = Some (False, k0)"
      using 3 Q
      by (simp add: take_recursive_def xQueueTakeMutexRecursive_entry_def xQueueSemaphoreTake_entry_def
          xQueueTakeMutexRecursive_try_def xQueueSemaphoreTake_try_def empty_try_def k0_def [symmetric] k0)
    moreover have "recursive_ok q k0" using ok by (simp add: k0_def)
    ultimately show ?thesis using 3 by (intro exI [of _ k0]) (simp add: lock_state_def k0 ready_def)
  qed
qed

lemma give_recursive_law:
  assumes ok: "recursive_ok q k" and t: "ready k t"
  shows "\<exists>k'. give_recursive q t k = Some (0 < depth t (lock_state q k), k') \<and> recursive_ok q k' \<and>
    lock_state q k' = after_give t (lock_state q k) \<and> (\<forall>u. ready k u \<longrightarrow> ready k' u)"
proof -
  define k0 where "k0 = k\<lparr>pxCurrentTCB := t\<rparr>"
  have inv: "sched_inv k" "sched_inv k0" and m: "mutex_ok q k0" using ok by (simp_all add: recursive_ok_def k0_def)
  have k0: "queues k0 = queues k" "tcb k0 = tcb k" "pxCurrentTCB k0 = t" "lists k0 = lists k" by (simp_all add: k0_def)
  have t0: "t \<noteq> 0" by (rule ready_nonzero [OF inv(1) t])
  have q0: "q \<noteq> 0" using m by (simp add: mutex_ok_def Let_def)
  let ?h = "xMutexHolder (queues k q)" and ?n = "uxRecursiveCallCount (queues k q)"
  show ?thesis
  proof (cases "?h = t")
    case False
    then have "give_recursive q t k = Some (False, k0)"
      using q0 by (simp add: give_recursive_def xQueueGiveMutexRecursive_def k0_def [symmetric] k0)
    moreover have "recursive_ok q k0" using ok by (simp add: k0_def)
    ultimately show ?thesis using False by (intro exI [of _ k0]) (simp add: lock_state_def k0 ready_def)
  next
    case True
    have n: "0 < ?n" "?n < 2 ^ 32" using ok True t0 by (simp_all add: recursive_ok_def)
    then have dec: "(?n + (2 ^ 32 - 1)) mod 2 ^ 32 = ?n - 1" by (simp add: mod_if)
    define k1 where "k1 = upd_queue q (\<lambda>Q. Q\<lparr>pcReadFrom := ?n - 1\<rparr>) k0"
    have k1': "k1 = upd_queue q (\<lambda>Q. Q\<lparr>pcReadFrom := (uxRecursiveCallCount Q + (2 ^ 32 - 1)) mod 2 ^ 32\<rparr>) k0"
      using dec by (simp add: k1_def upd_queue_def k0)
    have m1: "mutex_ok q k1" "sched_inv k1" "xMutexHolder (queues k1 q) = pxCurrentTCB k1" "running_ready k1"
      using m inv True t0 ready_running [OF inv(1) t] by (simp_all add: k1_def mutex_ok_def is_mutex_def Let_def k0 k0_def)
    have give: "give_recursive q t k = (if ?n = 1 then map_option (\<lambda>r. (True, snd r)) (xQueueGenericSend_nowait q 0 queueSEND_TO_BACK k1)
        else Some (True, k1))"
    proof -
      have "give_recursive q t k = do {
          k \<leftarrow> (if uxRecursiveCallCount (queues k1 q) = 0
                 then map_option snd (xQueueGenericSend_nowait q 0 queueSEND_TO_BACK k1) else Some k1);
          Some (True, k) }"
        unfolding give_recursive_def xQueueGiveMutexRecursive_def k0_def [symmetric] Let_def k1' [symmetric]
        using q0 True k0 by simp
      moreover have "uxRecursiveCallCount (queues k1 q) = ?n - 1" by (simp add: k1_def)
      ultimately show ?thesis using n(1)
        by (cases "xQueueGenericSend_nowait q 0 queueSEND_TO_BACK k1") auto
    qed
    show ?thesis
    proof (cases "?n = 1")
      case False
      then have "recursive_ok q k1" using m1 n True t0 by (simp add: recursive_ok_def k1_def k0)
      then show ?thesis using give False True n t0
        by (intro exI [of _ k1]) (simp add: lock_state_def k1_def k0 ready_def)
    next
      case one: True
      obtain k' where k': "xQueueGenericSend_nowait q 0 queueSEND_TO_BACK k1 = Some (True, k')" "sched_inv k'"
        "queues k' = (queues k1)(q := (queues k1 q)\<lparr>pcTail := 0, uxMessagesWaiting := 1\<rparr>)"
        "\<forall>t. ready k1 t \<longrightarrow> ready k' t"
        by (rule give_holder [OF m1(2,4,1,3)]) blast
      have "recursive_ok q k'"
        using m1(1) k'(2) one by (simp add: recursive_ok_def mutex_ok_def is_mutex_def Let_def k'(3)) (simp add: k1_def k0)
      moreover have "\<forall>u. ready k u \<longrightarrow> ready k' u" using k'(4) by (simp add: ready_def k1_def k0)
      ultimately show ?thesis using give one True t0 k'(1,3)
        by (intro exI [of _ k']) (simp add: lock_state_def)
    qed
  qed
qed

interpretation recursive_mutex: reentrant_lock "recursive_ok q" "lock_state q" ready "2 ^ 32 - 1" "take_recursive q" "give_recursive q"
proof (unfold_locales, goal_cases)
  case (1 k t)
  then show ?case by (rule take_recursive_law)
next
  case (2 k t)
  then show ?case by (rule give_recursive_law)
next
  case (3 k h n)
  then show ?case by (auto simp: recursive_ok_def lock_state_def split: if_splits)
qed

text \<open>
  C11: A recursive mutex is a re-entrant lock. For every sequence of fewer than \<open>2\<^sup>3\<^sup>2\<close> takes and gives by
  tasks that are ready, on a mutex that is free at first: no assertion fires, and every call has the
  result of the reference lock: a take that does not wait succeeds exactly when the mutex is free or the
  caller holds it already, a give exactly when the caller holds it, and holder and call count are the
  reference's owner and depth. So for every task the successful takes minus the successful gives is the
  depth to which it holds the mutex, and at no time do two tasks hold it.
\<close>

theorem recursive_mutex_excludes:
  assumes "recursive_ok q k" "lock_state q k = None" "\<forall>oper \<in> set os. ready k (actor oper)" "length os < 2 ^ 32" "t \<noteq> u"
  shows "\<exists>bs k'. lock_run (take_recursive q) (give_recursive q) os k = Some (bs, k') \<and>
    (bs, lock_state q k') = lock_ref os None \<and>
    (\<forall>v. net_takes v os bs = int (depth v (lock_state q k'))) \<and> \<not> (0 < net_takes t os bs \<and> 0 < net_takes u os bs)"
  by (rule recursive_mutex.mutual_exclusion) (use assms in auto)

theorem recursive_mutex_excludes_witness:
  "let os = [Take 1000, Take 1000, Take 2000, Give 2000, Give 1000, Give 1000, Take 2000] :: addr lock_op list in
    \<exists>k'. lock_run (take_recursive 510) (give_recursive 510) os demo_kernel =
        Some ([True, True, False, False, True, True, True], k') \<and> lock_state 510 k' = Some (2000, 1)"
proof -
  let ?os = "[Take 1000, Take 1000, Take 2000, Give 2000, Give 1000, Give 1000, Take 2000] :: addr lock_op list"
  have k: "recursive_ok 510 demo_kernel" "lock_state 510 demo_kernel = None"
    using demo_kernel_inv by (simp_all add: recursive_ok_def mutex_ok_def is_mutex_def lock_state_def demo_queues_def)
  have r: "\<forall>oper \<in> set ?os. ready demo_kernel (actor oper)" by (simp add: ready_def)
  have "\<exists>bs k'. lock_run (take_recursive 510) (give_recursive 510) ?os demo_kernel = Some (bs, k') \<and>
      (bs, lock_state 510 k') = lock_ref ?os None"
    using recursive_mutex_excludes [OF k r, of 1000 2000] by auto
  then show ?thesis unfolding Let_def by auto
qed

section \<open>Waiting for a mutex\<close>

lemma take_wait_inherits:
  assumes k: "sched_inv k" "running_ready k" and q: "uxMessagesWaiting (queues k q) = 0" "is_mutex (queues k q)"
    "xMutexHolder (queues k q) = h" "h \<noteq> 0" "h \<noteq> pxCurrentTCB k" and fr: "check_time fr k = (False, fr', k)"
  obtains fr'' k1 k2 where "xQueueSemaphoreTake_wait q fr k = Some (Blocked, fr'', k2)"
    "xInheritanceOccurred fr'' \<longleftrightarrow> prio k h < prio k (pxCurrentTCB k) \<or> uxBasePriority (tcb k h) < prio k (pxCurrentTCB k)"
    "sched_inv k1" "reprio h k k1" "tcb k1 h = (tcb k h)\<lparr>uxPriority := max (prio k h) (prio k (pxCurrentTCB k))\<rparr>"
    "joins (xTasksWaitingToReceive q) k1 k2" "queues k2 = queues k" "mem k2 = mem k"
proof -
  let ?inh = "prio k h < prio k (pxCurrentTCB k) \<or> uxBasePriority (tcb k h) < prio k (pxCurrentTCB k)"
  obtain k1 where k1: "xTaskPriorityInherit h k = Some (h \<noteq> 0 \<and> ?inh, k1)" "sched_inv k1" "reprio h k k1"
    "tcb k1 h = (tcb k h)\<lparr>uxPriority := max (prio k h) (prio k (pxCurrentTCB k))\<rparr>"
    by (rule xTaskPriorityInherit_inv [OF k(1), of h]) (use q(4) in blast)
  have rr1: "running_ready k1" by (rule reprio_running [OF k1(3) k(2)])
  obtain k2 where k2: "vTaskPlaceOnEventList (xTasksWaitingToReceive q) (xTicksToWait fr') k1 = Some k2"
    "joins (xTasksWaitingToReceive q) k1 k2"
    by (rule place_joins [OF k1(2) rr1 _ check_time_going(2) [OF fr], of "xTasksWaitingToReceive q"]) auto
  have m1: "queues k1 = queues k" "mem k1 = mem k" using more_kernel [of k1 k] k1(3) by (simp_all add: reprio_def)
  have "xQueueSemaphoreTake_wait q fr k = Some (Blocked, fr'\<lparr>xInheritanceOccurred := ?inh\<rparr>, k2)"
    using fr q k1(1) k2(1) by (simp add: xQueueSemaphoreTake_wait_def prvIsQueueEmpty_def)
  then show ?thesis
    by (rule that) (use k1 k2(2) joins_kernel [OF k2(2)] m1 in simp_all)
qed

lemma take_block_inherits:
  assumes k: "sched_inv k" "running_ready k" "uxSchedulerSuspended k = 0" "xPendedTicks k = 0" "0 < uxCurrentNumberOfTasks k"
    and q: "mutex_ok q k" "unlocked (queues k q)" "xMutexHolder (queues k q) = h" "h \<noteq> 0" "h \<noteq> pxCurrentTCB k"
    and alone: "items k (xTasksWaitingToReceive q) = []" "items k xPendingReadyList = []"
    and fr: "check_time fr (queue_enter q k) = (False, fr', queue_enter q k)"
  obtains fr'' k' where "xQueueSemaphoreTake_block q fr k = Some (Again fr'', k')" "sched_inv k'" "pendSV k'"
    "uxSchedulerSuspended k' = 0" "queues k' = queues k" "mem k' = mem k" "pxCurrentTCB k' = pxCurrentTCB k"
    "tcb k' h = (tcb k h)\<lparr>uxPriority := max (prio k h) (prio k (pxCurrentTCB k))\<rparr>" "\<And>t. t \<noteq> h \<Longrightarrow> prio k' t = prio k t"
    "blocked k' (pxCurrentTCB k)" "container k' (EventItem (pxCurrentTCB k)) = Some (xTasksWaitingToReceive q)"
    "items k' (xTasksWaitingToReceive q) = [EventItem (pxCurrentTCB k)]" "\<And>t. t \<noteq> pxCurrentTCB k \<Longrightarrow> ready k t \<Longrightarrow> ready k' t"
proof -
  let ?c = "pxCurrentTCB k" and ?l = "xTasksWaitingToReceive q"
  note D = core_invD [OF k(1)]
  have none: "container k i \<noteq> Some ?l" "container k i \<noteq> Some xPendingReadyList" for i
    using lists_ok_nil [OF D(1)] alone by blast+
  define k0 where "k0 = queue_enter q k"
  have Q: "uxMessagesWaiting (queues k q) = 0" "is_mutex (queues k q)" "pxQueueSetContainer (queues k q) = 0"
    using q by (simp_all add: mutex_ok_def Let_def)
  have k0: "sched_inv k0" "running_ready k0" "pxCurrentTCB k0 = ?c" "tcb k0 = tcb k" "lists k0 = lists k" "mem k0 = mem k"
    "uxSchedulerSuspended k0 = Suc 0" "xPendedTicks k0 = 0" "uxCurrentNumberOfTasks k0 = uxCurrentNumberOfTasks k"
    "queues k0 = (queues k)(q := (queues k q)\<lparr>cRxLock := 0, cTxLock := 0\<rparr>)"
    using k q(2) by (simp_all add: k0_def)
  have q0: "uxMessagesWaiting (queues k0 q) = 0" "is_mutex (queues k0 q)" "xMutexHolder (queues k0 q) = h" "h \<noteq> pxCurrentTCB k0"
    using Q q by (simp_all add: k0 is_mutex_def)
  obtain fr'' k1 k2 where w: "xQueueSemaphoreTake_wait q fr k0 = Some (Blocked, fr'', k2)" "reprio h k0 k1"
    "tcb k1 h = (tcb k0 h)\<lparr>uxPriority := max (prio k0 h) (prio k0 (pxCurrentTCB k0))\<rparr>" "joins ?l k1 k2" "queues k2 = queues k0" "mem k2 = mem k0"
    by (rule take_wait_inherits [OF k0(1,2) q0(1-3) q(4) q0(4) fr [folded k0_def]]) blast
  note R = w(2) [unfolded reprio_def k0] and J = w(4) [unfolded joins_def]
  have c1: "pxCurrentTCB k1 = ?c" using R by simp
  have l2: "uxSchedulerSuspended k2 = Suc 0" "0 < uxCurrentNumberOfTasks k2" "cTxLock (queues k2 q) = int 0" "cRxLock (queues k2 q) = 0"
    "pxQueueSetContainer (queues k2 q) = 0" "sched_inv k2" "xPendedTicks k2 = 0"
    using J R k0 Q k(5) w(5) by simp_all
  obtain k' where k': "queue_exit Blocked q k2 = Some k'" "sched_inv k'" "uxSchedulerSuspended k' = 0" "tcb k' = tcb k2"
    "pxCurrentTCB k' = pxCurrentTCB k2" "mem k' = mem k2" "pendSV k'"
    "queues k' = (queues k2)(q := (queues k2 q)\<lparr>cTxLock := queueUNLOCKED, cRxLock := queueUNLOCKED\<rparr>)"
    "\<forall>t. container k2 (EventItem t) \<noteq> Some xPendingReadyList \<longrightarrow>
       container k' (StateItem t) = container k2 (StateItem t) \<and> container k' (EventItem t) = container k2 (EventItem t)"
    "\<forall>t p. container k2 (StateItem t) = Some (pxReadyTasksLists p) \<longrightarrow> container k' (StateItem t) = Some (pxReadyTasksLists p)"
    by (rule queue_exit_inv [OF l2(6,1-5), of Blocked]) (use l2(7) in auto)
  have ev: "container k2 (EventItem t) = (if t = ?c then Some ?l else container k (EventItem t))" for t
    using J R c1 by (cases "t = ?c") simp_all
  have ev': "container k' (EventItem t) = (if t = ?c then Some ?l else container k (EventItem t))" for t
    using k'(9) ev [of t] none(2) [of "EventItem t"] by (cases "t = ?c") auto
  have st: "container k' (StateItem t) = container k2 (StateItem t)" for t
    using k'(9) ev [of t] none(2) [of "EventItem t"] by (cases "t = ?c") auto
  have bl: "blocked k' ?c" using J c1 st by (simp add: blocked_def)
  have it: "items k' ?l = [EventItem ?c]"
    by (rule sole_waiter [OF k'(2)]) (use ev' none in auto)
  have rd: "ready k' t" if "t \<noteq> ?c" "ready k t" for t
  proof -
    have "ready k1 t" using ready_reprio [OF w(2), of t] that(2) by (simp add: ready_def k0)
    then have "ready k2 t" using J c1 that(1) by (auto simp: ready_def)
    then show ?thesis by (simp add: ready_def st)
  qed
  have qs: "queues k' = queues k"
  proof -
    have "(queues k q)\<lparr>cRxLock := 0, cTxLock := 0, cTxLock := queueUNLOCKED, cRxLock := queueUNLOCKED\<rparr> =
        (queues k q)\<lparr>cTxLock := queueUNLOCKED, cRxLock := queueUNLOCKED\<rparr>" by simp
    also have "\<dots> = queues k q" by (rule queue_unlock_restore [OF q(2)])
    finally show ?thesis using k'(8) k0(10) w(5) by (simp add: fun_eq_iff)
  qed
  have tc: "tcb k' h = (tcb k h)\<lparr>uxPriority := max (prio k h) (prio k ?c)\<rparr>"
    using J w(3) c1 q(5) k'(4) by (simp add: k0)
  have pr: "prio k' t = prio k t" if "t \<noteq> h" for t
    using J R c1 k'(4) that by simp
  show ?thesis
  proof (rule that [of fr'' k'])
    show "xQueueSemaphoreTake_block q fr k = Some (Again fr'', k')"
      using w(1) k'(1) by (simp add: xQueueSemaphoreTake_block_def k0_def)
  qed (use k' qs w(6) k0(6) J c1 tc pr bl ev' it rd in simp_all)
qed

text \<open>
  C10: Priority inheritance. The running task takes a mutex that another ready task \<open>h\<close> holds, with a wait
  time: it blocks in the mutex's waiting list and \<open>h\<close> has at least its priority, so that the next context
  switch does not run a task of lower priority than the blocked one; when \<open>h\<close> gives the mutex back, the
  mutex is free, the waiting task is ready, \<open>h\<close> is back at its base priority if it holds no other mutex,
  and a switch is requested if the woken task outranks it.
\<close>

theorem mutex_priority_inheritance:
  assumes k: "sched_inv k" "running_ready k" "uxSchedulerSuspended k = 0" "xPendedTicks k = 0" "0 < uxCurrentNumberOfTasks k"
    and q: "mutex_ok q k" "unlocked (queues k q)" "xMutexHolder (queues k q) = h" "h \<noteq> 0" "h \<noteq> pxCurrentTCB k" "ready k h"
    and alone: "items k (xTasksWaitingToReceive q) = []" "items k xPendingReadyList = []"
    and w: "w \<noteq> 0" "\<not> ucDelayAborted (tcb k (pxCurrentTCB k))"
  shows "\<exists>fr k1 k2 k3.
    xQueueSemaphoreTake_try q (start_frame w) k = Some (Again (enter_time (start_frame w) k), k) \<and>
    xQueueSemaphoreTake_block q (enter_time (start_frame w) k) k = Some (Again fr, k1) \<and>
    sched_inv k1 \<and> blocked k1 (pxCurrentTCB k) \<and> prio k1 h = max (prio k h) (prio k (pxCurrentTCB k)) \<and>
    vTaskSwitchContext k1 = Some k2 \<and> prio k (pxCurrentTCB k) \<le> prio k2 (pxCurrentTCB k2) \<and>
    xQueueGenericSend_nowait q 0 queueSEND_TO_BACK (k1\<lparr>pxCurrentTCB := h\<rparr>) = Some (True, k3) \<and>
    xMutexHolder (queues k3 q) = 0 \<and> uxMessagesWaiting (queues k3 q) = 1 \<and>
    container k3 (StateItem (pxCurrentTCB k)) = Some (pxReadyTasksLists (prio k (pxCurrentTCB k))) \<and>
    (uxMutexesHeld (tcb k h) = 1 \<longrightarrow> prio k3 h = uxBasePriority (tcb k h)) \<and>
    (prio k3 h < prio k (pxCurrentTCB k) \<longrightarrow> pendSV k3)"
proof -
  let ?c = "pxCurrentTCB k" and ?l = "xTasksWaitingToReceive q" and ?fr = "enter_time (start_frame w) k"
  have ct: "check_time ?fr (queue_enter q k) = (False, ?fr, queue_enter q k)"
    by (rule check_time_fresh) (use w in simp_all)
  have Q: "uxMessagesWaiting (queues k q) = 0" "uxMutexesHeld (tcb k h) \<noteq> 0" using q(1,3,4) by (simp_all add: mutex_ok_def Let_def)
  have t: "xQueueSemaphoreTake_try q (start_frame w) k = Some (Again ?fr, k)"
    using Q w by (simp add: xQueueSemaphoreTake_try_def empty_try_def)
  obtain fr k1 where k1: "xQueueSemaphoreTake_block q ?fr k = Some (Again fr, k1)" "sched_inv k1"
    "uxSchedulerSuspended k1 = 0" "queues k1 = queues k" "tcb k1 h = (tcb k h)\<lparr>uxPriority := max (prio k h) (prio k ?c)\<rparr>"
    "\<forall>t. t \<noteq> h \<longrightarrow> prio k1 t = prio k t" "blocked k1 ?c" "items k1 ?l = [EventItem ?c]"
    "\<forall>t. t \<noteq> ?c \<longrightarrow> ready k t \<longrightarrow> ready k1 t"
    by (rule take_block_inherits [OF k q(1-5) alone ct]) blast
  have rh: "ready k1 h" using k1(9) q(5,6) by blast
  then obtain p where p: "container k1 (StateItem h) = Some (pxReadyTasksLists p)" by (auto simp: ready_def)
  obtain t2 k2 where k2: "vTaskSwitchContext k1 = Some k2" "k2 = k1\<lparr>xYieldPending := False, lists := lists k2, pxCurrentTCB := t2\<rparr>"
    "\<forall>v p. container k1 (StateItem v) = Some (pxReadyTasksLists p) \<longrightarrow> p \<le> prio k1 t2"
    by (rule vTaskSwitchContext_inv [OF k1(2,3) p]) blast
  have f2: "pxCurrentTCB k2 = t2" "tcb k2 = tcb k1" by (subst k2(2), simp)+
  have "prio k1 h \<le> prio k1 t2" using k2(3) p core_invD(6) [OF k1(2) p] by blast
  then have sw: "prio k ?c \<le> prio k2 (pxCurrentTCB k2)" using k1(5) by (simp add: f2)
  define kh where "kh = k1\<lparr>pxCurrentTCB := h\<rparr>"
  have kh: "sched_inv kh" "running_ready kh" "mutex_ok q kh" "xMutexHolder (queues kh q) = pxCurrentTCB kh" "lists kh = lists k1"
    "tcb kh = tcb k1" "pxCurrentTCB kh = h" "uxSchedulerSuspended kh = 0"
    using k1 q ready_running [OF k1(2) rh] by (simp_all add: kh_def mutex_ok_def Let_def)
  obtain k3 where k3: "xQueueGenericSend_nowait q 0 queueSEND_TO_BACK kh = Some (True, k3)"
    "queues k3 = (queues kh)(q := (queues kh q)\<lparr>pcTail := 0, uxMessagesWaiting := 1\<rparr>)"
    "tcb k3 = (tcb kh)(pxCurrentTCB kh := (tcb kh (pxCurrentTCB kh))\<lparr>uxMutexesHeld := uxMutexesHeld (tcb kh (pxCurrentTCB kh)) - 1,
       uxPriority := (if uxMutexesHeld (tcb kh (pxCurrentTCB kh)) = 1 then uxBasePriority (tcb kh (pxCurrentTCB kh))
         else prio kh (pxCurrentTCB kh))\<rparr>)"
    "\<forall>t rest. items kh ?l = EventItem t # rest \<longrightarrow> t \<noteq> pxCurrentTCB kh \<longrightarrow> uxSchedulerSuspended kh = 0 \<longrightarrow>
       container k3 (StateItem t) = Some (pxReadyTasksLists (prio kh t)) \<and> (prio kh t > prio k3 (pxCurrentTCB kh) \<longrightarrow> pendSV k3)"
    by (rule give_holder [OF kh(1-4)]) blast
  have "prio k1 ?c = prio k ?c" using k1(6) q(5) by metis
  then have wk: "container k3 (StateItem ?c) = Some (pxReadyTasksLists (prio k ?c)) \<and> (prio k3 h < prio k ?c \<longrightarrow> pendSV k3)"
    using k3(4) k1(8) q(5) by (simp add: kh)
  have "uxMutexesHeld (tcb k h) = 1 \<longrightarrow> prio k3 h = uxBasePriority (tcb k h)" using k3(3) k1(5) by (simp add: kh)
  then show ?thesis using t k1 k2(1) sw k3(1,2) wk
    by (intro exI [of _ fr] exI [of _ k1] exI [of _ k2] exI [of _ k3]) (simp add: kh_def)
qed

text \<open>The mutex at 510 held by the task 3000 of priority 1, while the task 1000 of priority 3 runs.\<close>

definition demo_held :: kernel where
  "demo_held = upd_queue 510 (\<lambda>Q. Q\<lparr>uxMessagesWaiting := 0, pcTail := 3000\<rparr>)
     (upd_tcb 3000 (\<lambda>t. t\<lparr>uxMutexesHeld := 1\<rparr>) demo_kernel)"

lemma demo_held_simps [simp]:
  "lists demo_held = lists demo" "tcb demo_held = demo_tcbs(3000 := (demo_tcbs 3000)\<lparr>uxMutexesHeld := 1\<rparr>)"
  "pxCurrentTCB demo_held = 1000" "uxCurrentNumberOfTasks demo_held = 3" "uxSchedulerSuspended demo_held = 0" "xPendedTicks demo_held = 0"
  by (simp_all add: demo_held_def)

lemma demo_held_inv: "sched_inv demo_held"
  unfolding demo_held_def core_inv_kernel
  by (rule core_inv_upd_tcb [OF demo_kernel_inv]) (use core_invD(5) [OF demo_kernel_inv] in simp_all)

theorem mutex_priority_inheritance_witness:
  "\<exists>fr k1 k2 k3. xQueueSemaphoreTake_block 510 (enter_time (start_frame portMAX_DELAY) demo_held) demo_held = Some (Again fr, k1) \<and>
    prio k1 3000 = 3 \<and> vTaskSwitchContext k1 = Some k2 \<and> 3 \<le> prio k2 (pxCurrentTCB k2) \<and>
    xQueueGenericSend_nowait 510 0 queueSEND_TO_BACK (k1\<lparr>pxCurrentTCB := 3000\<rparr>) = Some (True, k3) \<and>
    prio k3 3000 = 1 \<and> pendSV k3"
proof -
  have q: "mutex_ok 510 demo_held" "unlocked (queues demo_held 510)" "xMutexHolder (queues demo_held 510) = 3000"
    by (simp_all add: mutex_ok_def is_mutex_def unlocked_def demo_held_def demo_queues_def)
  have r: "ready demo_held 3000" "running_ready demo_held" by (simp_all add: ready_def running_ready_def demo_tcbs_def empty_TCB_def)
  have e: "items demo_held (xTasksWaitingToReceive 510) = []" "items demo_held xPendingReadyList = []"
    by (simp_all add: demo_other_lists)
  have a: "\<not> ucDelayAborted (tcb demo_held (pxCurrentTCB demo_held))" by (simp add: demo_tcbs_def empty_TCB_def)
  have p: "prio demo_held 3000 = 1" "prio demo_held 1000 = 3" "uxBasePriority (tcb demo_held 3000) = 1"
    "uxMutexesHeld (tcb demo_held 3000) = 1" by (simp_all add: demo_tcbs_def empty_TCB_def)
  have w: "portMAX_DELAY \<noteq> (0 :: 32 word)" by (simp add: portMAX_DELAY_def)
  obtain fr k1 k2 k3 where "xQueueSemaphoreTake_block 510 (enter_time (start_frame portMAX_DELAY) demo_held) demo_held = Some (Again fr, k1)"
    "prio k1 3000 = max (prio demo_held 3000) (prio demo_held (pxCurrentTCB demo_held))" "vTaskSwitchContext k1 = Some k2"
    "prio demo_held (pxCurrentTCB demo_held) \<le> prio k2 (pxCurrentTCB k2)"
    "xQueueGenericSend_nowait 510 0 queueSEND_TO_BACK (k1\<lparr>pxCurrentTCB := 3000\<rparr>) = Some (True, k3)"
    "uxMutexesHeld (tcb demo_held 3000) = 1 \<longrightarrow> prio k3 3000 = uxBasePriority (tcb demo_held 3000)"
    "prio k3 3000 < prio demo_held (pxCurrentTCB demo_held) \<longrightarrow> pendSV k3"
    using mutex_priority_inheritance [OF demo_held_inv r(2) _ _ _ q _ _ r(1) e w a] by auto
  then show ?thesis using p by (intro exI [of _ fr] exI [of _ k1] exI [of _ k2] exI [of _ k3]) (simp del: demo_held_simps(2))
qed

end
