(* ===== verification/FR_Create.thy ===== *)
theory FR_Create
  imports FR_Mutex
begin

text \<open>
  Kernel objects and the heap: \<^verbatim>\<open>pvPortMalloc\<close> and \<^verbatim>\<open>vPortFree\<close> as the kernel calls them, with the
  scheduler suspended around the allocator; creation of queues, semaphores and tasks; deletion of the
  running task and the idle task's reclamation of its memory.
\<close>

section \<open>Allocation\<close>

text \<open>What a call that suspends and resumes the scheduler leaves alone: tasks are at most made ready.\<close>

definition calm :: "'a sched_scheme \<Rightarrow> 'a sched_scheme \<Rightarrow> bool" where
  "calm k k' \<longleftrightarrow> tcb k' = tcb k \<and> pxCurrentTCB k' = pxCurrentTCB k \<and>
     uxDeletedTasksWaitingCleanUp k' = uxDeletedTasksWaitingCleanUp k \<and>
     uxCurrentNumberOfTasks k' = uxCurrentNumberOfTasks k \<and> xSchedulerRunning k' = xSchedulerRunning k \<and>
     uxSchedulerSuspended k' = uxSchedulerSuspended k \<and>
     liValue (lists k') = liValue (lists k) \<and> unblocks k k'"

definition undisturbed :: "'a sched_scheme \<Rightarrow> 'a sched_scheme \<Rightarrow> bool" where
  "undisturbed k k' \<longleftrightarrow> calm k k' \<and> sched.more k' = sched.more k"

lemma calmD:
  assumes "calm k k'"
  shows "tcb k' = tcb k" "pxCurrentTCB k' = pxCurrentTCB k"
    "uxDeletedTasksWaitingCleanUp k' = uxDeletedTasksWaitingCleanUp k"
    "uxCurrentNumberOfTasks k' = uxCurrentNumberOfTasks k" "xSchedulerRunning k' = xSchedulerRunning k"
    "uxSchedulerSuspended k' = uxSchedulerSuspended k"
    "liValue (lists k') = liValue (lists k)" "unblocks k k'"
  using assms by (simp_all add: calm_def)

lemma undisturbedD: "undisturbed k k' \<Longrightarrow> calm k k'" "undisturbed k k' \<Longrightarrow> sched.more k' = sched.more k"
  by (simp_all add: undisturbed_def)

lemma calm_refl [simp]: "calm k k"
  by (simp add: calm_def)

lemma calm_trans: "calm k k' \<Longrightarrow> calm k' k'' \<Longrightarrow> calm k k''"
  using unblocks_trans [of k k' k''] by (simp add: calm_def)

lemma undisturbed_trans: "undisturbed k k' \<Longrightarrow> undisturbed k' k'' \<Longrightarrow> undisturbed k k''"
  using calm_trans [of k k' k''] by (simp add: undisturbed_def)

lemma calm_running: "calm k k' \<Longrightarrow> running_ready k \<Longrightarrow> running_ready k'"
  using unblocks_running [of k k'] by (simp add: calm_def)

lemma calm_same: "container k1 = container k \<Longrightarrow> tcb k1 = tcb k \<Longrightarrow> pxCurrentTCB k1 = pxCurrentTCB k \<Longrightarrow>
    uxDeletedTasksWaitingCleanUp k1 = uxDeletedTasksWaitingCleanUp k \<Longrightarrow> uxCurrentNumberOfTasks k1 = uxCurrentNumberOfTasks k \<Longrightarrow>
    xSchedulerRunning k1 = xSchedulerRunning k \<Longrightarrow> uxSchedulerSuspended k1 = uxSchedulerSuspended k \<Longrightarrow>
    liValue (lists k1) = liValue (lists k) \<Longrightarrow> calm k k1"
  by (simp add: calm_def unblocks_def)

lemmas undisturbed_kernel = more_kernel [OF undisturbedD(2)]

text \<open>An item that is in no list stays so, and a waiting list that is empty stays empty.\<close>

lemma calm_None: "calm k k' \<Longrightarrow> container k i = None \<Longrightarrow> container k' i = None"
  using calmD(8) [of k k'] unfolding unblocks_def blocked_def by (cases i) (metis option.distinct(1))+

lemma calm_waiting_Nil:
  assumes u: "calm k k'" and inv: "sched_inv k" "sched_inv k'" and l: "waiting_list l" and n: "items k l = []"
  shows "items k' l = []"
proof -
  have "container k' i \<noteq> Some l" for i
  proof (cases i)
    case (StateItem t)
    then show ?thesis using core_invD(2) [OF inv(2), of i l] waiting_listD [OF l] by auto
  next
    case (EventItem t)
    have "container k (EventItem t) \<noteq> Some l" using lists_ok_nil [OF core_invD(1) [OF inv(1)]] n by metis
    then show ?thesis using calmD(8) [OF u] EventItem unfolding unblocks_def by (metis option.distinct(1))
  qed
  then show ?thesis using lists_ok_nil [OF core_invD(1) [OF inv(2)]] by blast
qed

lemma suspend_resume:
  assumes inv: "sched_inv k" and n: "0 < uxCurrentNumberOfTasks k"
  obtains y k' where "xTaskResumeAll ((vTaskSuspendAll k)\<lparr>heap := h\<rparr>) = Some (y, k')" "sched_inv k'" "heap k' = h"
    "undisturbed k k'"
proof (cases "uxSchedulerSuspended k = 0")
  case True
  let ?k = "(vTaskSuspendAll k)\<lparr>heap := h\<rparr>"
  have i: "sched_inv ?k" "uxSchedulerSuspended ?k = Suc 0" "0 < uxCurrentNumberOfTasks ?k"
    using inv n True by (simp_all add: vTaskSuspendAll_def)
  obtain y k' where k': "xTaskResumeAll ?k = Some (y, k')" "sched_inv k'" "unblocks ?k k'" "resume_frame ?k k'"
    "uxSchedulerSuspended k' = 0"
    by (rule xTaskResumeAll_inv [OF i]) blast
  have "unblocks k k'" using k'(3) unblocks_same [of ?k k] by (simp add: vTaskSuspendAll_def)
  then show ?thesis
    by (intro that [OF k'(1,2)]) (use k'(4,5) True in \<open>simp_all add: resume_frame_def undisturbed_def calm_def vTaskSuspendAll_def\<close>)
next
  case False
  then show ?thesis
    by (intro that [of False "k\<lparr>heap := h\<rparr>"]) (use inv in \<open>simp_all add: xTaskResumeAll_def vTaskSuspendAll_def undisturbed_def calm_def unblocks_def\<close>)
qed

lemma has_room_inv: "has_room h n \<Longrightarrow> 0 < ucHeap h \<Longrightarrow> heap_inv h"
  by (auto simp: has_room_def heap_inv_def split: if_splits)

lemma has_room_malloc:
  assumes room: "has_room h (adjusted_size n + r)" and n: "0 < n" "0 < adjusted_size n" and r: "heapMINIMUM_BLOCK_SIZE < r"
  obtains p h' where "heap_malloc n h = Some (p, h')" "p \<noteq> 0" "p mod portBYTE_ALIGNMENT = 0" "has_room h' r"
proof -
  define g where "g = (if pxEnd h = None then prvHeapInit h else h)"
  have g: "heap_malloc n h = heap_malloc n g" "ucHeap g = ucHeap h" using malloc_block_init by (simp_all add: g_def heap_malloc_def)
  obtain bs a m where bs: "heap_rep g (heap_start (ucHeap h)) bs (heap_end (ucHeap h))" "(a, m, False) \<in> set bs"
    "adjusted_size n + r \<le> m" using room by (auto simp: has_room_def g_def)
  have "spec_malloc (adjusted_size n) bs \<noteq> None" using spec_malloc_None [of "adjusted_size n" bs] bs(2,3) by force
  then obtain b bs' where s: "spec_malloc (adjusted_size n) bs = Some (b, bs')" by auto
  then obtain h' where h': "heap_malloc n g = Some (b + xHeapStructSize, h')"
    "heap_rep h' (heap_start (ucHeap h)) bs' (heap_end (ucHeap h))"
    using heap_malloc_refines [OF bs(1), of n] n by auto
  obtain us l vs where b: "bs = us @ (b, l, False) # vs" "bs' = us @ carve (adjusted_size n) b l @ vs"
    using spec_malloc_Some [OF s] by blast
  have al: "b mod 8 = 0" by (rule split_facts(5) [OF bs(1) [unfolded b(1)]])
  have "\<exists>a' m'. (a', m', False) \<in> set bs' \<and> r \<le> m'"
  proof (cases "(a, m, False) = (b, l, False)")
    case True
    then have "(b + adjusted_size n, l - adjusted_size n, False) \<in> set bs'" "r \<le> l - adjusted_size n"
      using bs(3) r by (auto simp: b(2) carve_def)
    then show ?thesis by blast
  next
    case False
    then have "(a, m, False) \<in> set bs'" using bs(2) by (auto simp: b)
    then show ?thesis using bs(3) by (meson add_leD2)
  qed
  moreover have "pxEnd h' \<noteq> None" "ucHeap h' = ucHeap h"
    using h'(2) ucHeap_malloc [of n g _ h'] h'(1) g(2) by (auto simp: heap_rep_def heap_malloc_block)
  ultimately have "has_room h' r" using h'(2) by (simp only: has_room_def if_False) blast
  moreover have "(b + xHeapStructSize) mod portBYTE_ALIGNMENT = 0"
    using al by (simp add: xHeapStructSize_def portBYTE_ALIGNMENT_def mod_add_left_eq [symmetric])
  ultimately show ?thesis
    by (intro that [of "b + xHeapStructSize" h']) (use h'(1) g(1) in \<open>simp_all add: xHeapStructSize_def\<close>)
qed

text \<open>The payload addresses handed out.\<close>

abbreviation live :: "'a sched_scheme \<Rightarrow> addr set" where
  "live k \<equiv> fst ` heap_owned (heap k)"

lemma pvPortMalloc_room:
  assumes inv: "sched_inv k" "heap_inv (heap k)" and t: "0 < uxCurrentNumberOfTasks k"
    and room: "has_room (heap k) (adjusted_size n + r)" and n: "0 < n" "0 < adjusted_size n" and r: "heapMINIMUM_BLOCK_SIZE < r"
  obtains p sz k' where "pvPortMalloc n k = Some (p, k')" "p \<noteq> 0" "sched_inv k'" "heap_inv (heap k')" "undisturbed k k'"
    "has_room (heap k') r" "n \<le> sz" "heap_owned (heap k') = insert (p, sz) (heap_owned (heap k))" "p \<notin> live k"
proof -
  obtain p h where p: "heap_malloc n (heap k) = Some (p, h)" "p \<noteq> 0" "p mod portBYTE_ALIGNMENT = 0" "has_room h r"
    by (rule has_room_malloc [OF room n r]) (rule that)
  have h: "heap_inv h" by (rule heap4_alloc.malloc_inv [OF inv(2) p(1)])
  obtain sz where sz: "n \<le> sz" "heap_owned h = insert (p, sz) (heap_owned (heap k))" "p \<notin> live k"
    using heap4_alloc.malloc_owned [OF inv(2) p(1)] by blast
  obtain y k' where k': "xTaskResumeAll ((vTaskSuspendAll k)\<lparr>heap := h\<rparr>) = Some (y, k')" "sched_inv k'" "heap k' = h"
    "undisturbed k k'" by (rule suspend_resume [OF inv(1) t, of h]) blast
  have "heap (vTaskSuspendAll k) = heap k" by (simp add: vTaskSuspendAll_def)
  then have "pvPortMalloc n k = Some (p, k')" using p k'(1) by (simp add: pvPortMalloc_def Let_def heap_malloc_block)
  then show ?thesis by (rule that) (use p k' h sz in simp_all)
qed

lemma vPortFree_owned:
  assumes inv: "sched_inv k" "heap_inv (heap k)" and t: "0 < uxCurrentNumberOfTasks k" and p: "(p, sz) \<in> heap_owned (heap k)"
  obtains k' where "vPortFree p k = Some k'" "sched_inv k'" "heap_inv (heap k')" "undisturbed k k'"
    "heap_owned (heap k') = heap_owned (heap k) - {(p, sz)}"
proof -
  obtain h where h: "heap_free p (heap k) = Some h" "heap_inv h" "heap_owned h = heap_owned (heap k) - {(p, sz)}"
    using heap4_alloc.free_total [OF inv(2) p] by blast
  obtain y k' where k': "xTaskResumeAll ((vTaskSuspendAll k)\<lparr>heap := h\<rparr>) = Some (y, k')" "sched_inv k'" "heap k' = h"
    "undisturbed k k'" by (rule suspend_resume [OF inv(1) t, of h]) blast
  have "p \<noteq> 0" using p by (auto simp: heap_owned_def xHeapStructSize_def)
  moreover have "heap (vTaskSuspendAll k) = heap k" by (simp add: vTaskSuspendAll_def)
  ultimately have "vPortFree p k = Some k'" using h(1) k'(1) by (simp add: vPortFree_def Let_def)
  then show ?thesis by (rule that) (use k' h in simp_all)
qed

section \<open>Creation of queues and semaphores\<close>

lemmas more_shim = more_kernel(4)

text \<open>No task and no queue is at the address.\<close>

definition vacant :: "'a sched_scheme \<Rightarrow> addr \<Rightarrow> bool" where
  "vacant k a \<longleftrightarrow> container k (StateItem a) = None \<and> container k (EventItem a) = None \<and>
     items k (xTasksWaitingToSend a) = [] \<and> items k (xTasksWaitingToReceive a) = []"

text \<open>In the heap there are tasks and queues at allocated addresses only.\<close>

definition objects_live :: "'a sched_scheme \<Rightarrow> bool" where
  "objects_live k \<longleftrightarrow> (\<forall>a. ucHeap (heap k) \<le> a \<and> a \<le> ucHeap (heap k) + configTOTAL_HEAP_SIZE \<longrightarrow> a \<notin> live k \<longrightarrow> vacant k a)"

lemma calm_vacant: "calm k k' \<Longrightarrow> sched_inv k \<Longrightarrow> sched_inv k' \<Longrightarrow> vacant k a \<Longrightarrow> vacant k' a"
  using calm_None [of k k'] calm_waiting_Nil [of k k'] by (simp add: vacant_def)

lemma fresh_vacant:
  assumes "objects_live k" "heap_owned h = insert (p, sz) (heap_owned (heap k))" "p \<notin> live k" "ucHeap h = ucHeap (heap k)"
  shows "vacant k p"
proof -
  have "ucHeap h \<le> p \<and> p + sz \<le> ucHeap h + configTOTAL_HEAP_SIZE" by (rule heap_owned_range) (simp add: assms(2))
  then show ?thesis using assms(1,3,4) by (auto simp: objects_live_def)
qed

lemma lists_ok_init: "lists_ok s \<Longrightarrow> lsItems s l = [] \<Longrightarrow> lists_ok (ls_init l s)"
  by (auto simp: lists_ok_def ls_wf_def ls_init_def)

lemma core_inv_init_list:
  assumes "core_inv X strict k" "items k l = []"
  shows "core_inv X strict (upd_lists (ls_init l) k)"
  using assms(1) lists_ok_init [OF core_invD(1) [OF assms(1)] assms(2)] unfolding core_inv_def blocked_def
  by (simp add: upd_lists_def ls_init_def)

text \<open>The structure of an empty queue with its items at \<open>start\<close>, and the one that a new queue at \<open>q\<close> gets.\<close>

definition empty_queue :: "bool \<Rightarrow> nat \<Rightarrow> nat \<Rightarrow> addr \<Rightarrow> Queue_t" where
  "empty_queue static n sz start =
     \<lparr>pcHead = start, pcWriteTo = start, pcTail = start + n * sz, pcReadFrom = start + (n - 1) * sz,
      uxMessagesWaiting = 0, uxLength = n, uxItemSize = sz, cRxLock = queueUNLOCKED, cTxLock = queueUNLOCKED,
      ucStaticallyAllocated = static, pxQueueSetContainer = 0\<rparr>"

definition new_queue :: "nat \<Rightarrow> nat \<Rightarrow> addr \<Rightarrow> Queue_t" where
  "new_queue n sz q = empty_queue False n sz (if sz = 0 then q else q + sizeof_Queue)"

lemma upd_lists_kernel [simp]:
  "queues (upd_lists f k) = queues k" "mem (upd_lists f k) = mem k" "xQueueRegistry (upd_lists f k) = xQueueRegistry k"
  "kernel.more (upd_lists f k) = kernel.more k" "lists (upd_lists f k) = f (lists k)" "tcb (upd_lists f k) = tcb k"
  "heap (upd_lists f k) = heap k" "pxCurrentTCB (upd_lists f k) = pxCurrentTCB k"
  "uxSchedulerSuspended (upd_lists f k) = uxSchedulerSuspended k" "xSchedulerRunning (upd_lists f k) = xSchedulerRunning k"
  "uxCurrentNumberOfTasks (upd_lists f k) = uxCurrentNumberOfTasks k"
  "uxDeletedTasksWaitingCleanUp (upd_lists f k) = uxDeletedTasksWaitingCleanUp k"
  by (simp_all add: upd_lists_def)

lemma prvInitialiseNewQueue_at:
  assumes inv: "sched_inv k" and q: "q \<noteq> 0" "vacant k q" and n: "0 < n" "sz \<le> SIZE_MAX div n"
  obtains k' where "prvInitialiseNewQueue n sz storage q k = Some k'" "sched_inv k'"
    "queues k' = (queues k)(q := empty_queue (ucStaticallyAllocated (queues k q)) n sz (if sz = 0 then q else storage))" "container k' = container k" "items k' = items k" "liValue (lists k') = liValue (lists k)"
    "tcb k' = tcb k" "heap k' = heap k" "pxCurrentTCB k' = pxCurrentTCB k" "uxSchedulerSuspended k' = uxSchedulerSuspended k"
    "uxCurrentNumberOfTasks k' = uxCurrentNumberOfTasks k" "xSchedulerRunning k' = xSchedulerRunning k"
    "uxDeletedTasksWaitingCleanUp k' = uxDeletedTasksWaitingCleanUp k"
    "mem k' = mem k" "xQueueRegistry k' = xQueueRegistry k" "kernel.more k' = kernel.more k"
proof -
  define start where "start = (if sz = 0 then q else storage)"
  define k1 where "k1 = upd_queue q (\<lambda>Q. Q\<lparr>pcTail := pcHead Q + uxLength Q * uxItemSize Q, uxMessagesWaiting := 0,
      pcWriteTo := pcHead Q, pcReadFrom := pcHead Q + (uxLength Q - 1) * uxItemSize Q,
      cRxLock := queueUNLOCKED, cTxLock := queueUNLOCKED\<rparr>)
    (upd_queue q (\<lambda>Q. Q\<lparr>pcHead := start, uxLength := n, uxItemSize := sz\<rparr>) k)"
  define k2 where "k2 = upd_lists (ls_init (xTasksWaitingToReceive q)) (upd_lists (ls_init (xTasksWaitingToSend q)) k1)"
  define k' where "k' = upd_queue q (\<lambda>Q. Q\<lparr>pxQueueSetContainer := 0\<rparr>) k2"
  have run: "prvInitialiseNewQueue n sz storage q k = Some k'"
    using q(1) n by (simp add: prvInitialiseNewQueue_def xQueueGenericReset_def k'_def k2_def k1_def start_def Let_def)
  have v: "items k1 (xTasksWaitingToSend q) = []" "items k1 (xTasksWaitingToReceive q) = []"
    using q(2) by (simp_all add: k1_def vacant_def)
  have inv1: "sched_inv k1" using inv by (simp add: k1_def)
  have "sched_inv (upd_lists (ls_init (xTasksWaitingToSend q)) k1)" by (rule core_inv_init_list [OF inv1 v(1)])
  then have "sched_inv k2" unfolding k2_def by (rule core_inv_init_list) (use v(2) in \<open>simp add: ls_init_def\<close>)
  then have inv': "sched_inv k'" by (simp add: k'_def)
  have ls: "container k' = container k" "items k' = items k" "liValue (lists k') = liValue (lists k)"
    using v by (auto simp: k'_def k2_def k1_def ls_init_def)
  have "queues k' q = empty_queue (ucStaticallyAllocated (queues k q)) n sz start"
    by (cases "queues k q") (simp add: k'_def k2_def k1_def empty_queue_def start_def)
  then have "queues k' = (queues k)(q := empty_queue (ucStaticallyAllocated (queues k q)) n sz start)"
    by (auto simp: k'_def k2_def k1_def)
  then show ?thesis
    by (intro that [OF run inv']) (simp_all add: ls start_def, simp_all add: k'_def k2_def k1_def upd_queue_def)
qed

lemma prvInitialiseNewQueue_fresh:
  assumes inv: "sched_inv k" and q: "q \<noteq> 0" "vacant k q" and n: "0 < n" "sz \<le> SIZE_MAX div n"
    and st: "\<not> ucStaticallyAllocated (queues k q)"
  obtains k' where "prvInitialiseNewQueue n sz (q + sizeof_Queue) q k = Some k'" "sched_inv k'"
    "queues k' = (queues k)(q := new_queue n sz q)" "container k' = container k" "items k' = items k" "liValue (lists k') = liValue (lists k)"
    "tcb k' = tcb k" "heap k' = heap k" "pxCurrentTCB k' = pxCurrentTCB k" "uxSchedulerSuspended k' = uxSchedulerSuspended k"
    "uxCurrentNumberOfTasks k' = uxCurrentNumberOfTasks k" "xSchedulerRunning k' = xSchedulerRunning k"
    "uxDeletedTasksWaitingCleanUp k' = uxDeletedTasksWaitingCleanUp k"
    "mem k' = mem k" "xQueueRegistry k' = xQueueRegistry k" "kernel.more k' = kernel.more k"
  by (rule prvInitialiseNewQueue_at [OF inv q n, of "q + sizeof_Queue"]) (use st in \<open>simp add: new_queue_def\<close>)

text \<open>The state has room for a request, and the request is granted.\<close>

definition sound :: "'a sched_scheme \<Rightarrow> bool" where
  "sound k \<longleftrightarrow> sched_inv k \<and> heap_inv (heap k) \<and> objects_live k \<and> 0 < uxCurrentNumberOfTasks k"

lemma soundD:
  assumes "sound k"
  shows "sched_inv k" "heap_inv (heap k)" "objects_live k" "0 < uxCurrentNumberOfTasks k"
  using assms by (simp_all add: sound_def)

definition granted :: "addr \<Rightarrow> nat \<Rightarrow> nat \<Rightarrow> 'a sched_scheme \<Rightarrow> 'a sched_scheme \<Rightarrow> bool" where
  "granted p n r k k' \<longleftrightarrow> p \<noteq> 0 \<and> p \<notin> live k \<and> vacant k p \<and> has_room (heap k') r \<and> ucHeap (heap k') = ucHeap (heap k) \<and>
     (\<exists>sz \<ge> n. heap_owned (heap k') = insert (p, sz) (heap_owned (heap k)))"

lemma grantedD:
  assumes "granted p n r k k'"
  shows "p \<noteq> 0" "p \<notin> live k" "vacant k p" "has_room (heap k') r" "live k' = insert p (live k)"
  using assms by (auto simp: granted_def)

lemma ucHeap_pvPortMalloc: "pvPortMalloc n k = Some (p, k') \<Longrightarrow> sched_inv k \<Longrightarrow> 0 < uxCurrentNumberOfTasks k \<Longrightarrow> ucHeap (heap k') = ucHeap (heap k)"
proof -
  assume a: "pvPortMalloc n k = Some (p, k')" "sched_inv k" "0 < uxCurrentNumberOfTasks k"
  obtain q h y where h: "malloc_block n (heap k) = Some (q, h)" "xTaskResumeAll ((vTaskSuspendAll k)\<lparr>heap := h\<rparr>) = Some (y, k')"
    using a(1) by (auto simp: pvPortMalloc_def vTaskSuspendAll_def Let_def bind_eq_Some_conv split: if_splits)
  obtain y' k'' where "xTaskResumeAll ((vTaskSuspendAll k)\<lparr>heap := h\<rparr>) = Some (y', k'')" "heap k'' = h"
    by (rule suspend_resume [OF a(2,3), of h]) blast
  then show ?thesis using h ucHeap_malloc [OF h(1)] by simp
qed

lemma pvPortMalloc_granted:
  assumes "sound k" "has_room (heap k) (adjusted_size n + r)" "0 < n" "0 < adjusted_size n" "heapMINIMUM_BLOCK_SIZE < r"
  obtains p k' where "pvPortMalloc n k = Some (p, k')" "sound k'" "undisturbed k k'" "granted p n r k k'"
proof -
  note S = soundD [OF assms(1)]
  obtain p sz k' where k': "pvPortMalloc n k = Some (p, k')" "p \<noteq> 0" "sched_inv k'" "heap_inv (heap k')" "undisturbed k k'"
    "has_room (heap k') r" "n \<le> sz" "heap_owned (heap k') = insert (p, sz) (heap_owned (heap k))" "p \<notin> live k"
    by (rule pvPortMalloc_room [OF S(1,2,4) assms(2-5)]) blast
  have u: "ucHeap (heap k') = ucHeap (heap k)" by (rule ucHeap_pvPortMalloc [OF k'(1) S(1,4)])
  have v: "vacant k p" by (rule fresh_vacant [OF S(3) k'(8,9) u])
  note c = undisturbedD(1) [OF k'(5)]
  have "objects_live k'"
    using S(3) calm_vacant [OF c S(1) k'(3)] k'(8) u unfolding objects_live_def by simp
  then have "sound k'" using k'(3,4) S(4) calmD(4) [OF c] by (simp add: sound_def)
  then show ?thesis by (rule that [OF k'(1) _ k'(5)]) (use k' u v in \<open>auto simp: granted_def\<close>)
qed

lemma xQueueGenericCreate_granted:
  fixes k :: "'a kernel_scheme"
  assumes s: "sound k" and n: "0 < n" "sz \<le> SIZE_MAX div n" "n * sz \<le> SIZE_MAX - sizeof_Queue"
    and room: "has_room (heap k) (adjusted_size (sizeof_Queue + n * sz) + r)"
      "0 < adjusted_size (sizeof_Queue + n * sz)" "heapMINIMUM_BLOCK_SIZE < r"
  obtains q k' where "xQueueGenericCreate n sz k = Some (q, k')" "sound k'" "calm k k'" "granted q (sizeof_Queue + n * sz) r k k'"
    "queues k' = (queues k)(q := new_queue n sz q)" "mem k' = mem k" "xQueueRegistry k' = xQueueRegistry k"
    "kernel.more k' = kernel.more k" "items k' (xTasksWaitingToReceive q) = []" "items k' (xTasksWaitingToSend q) = []"
proof -
  obtain q k1 where k1: "pvPortMalloc (sizeof_Queue + n * sz) k = Some (q, k1)" "sound k1" "undisturbed k k1"
    "granted q (sizeof_Queue + n * sz) r k k1"
    by (rule pvPortMalloc_granted [OF s room(1) _ room(2,3)]) (simp add: sizeof_Queue_def, blast)
  define k2 where "k2 = upd_queue q (\<lambda>Q. Q\<lparr>ucStaticallyAllocated := False\<rparr>) k1"
  have v: "vacant k1 q" by (rule calm_vacant [OF undisturbedD(1) [OF k1(3)] soundD(1) [OF s] soundD(1) [OF k1(2)] grantedD(3) [OF k1(4)]])
  have i2: "sched_inv k2" "vacant k2 q" "\<not> ucStaticallyAllocated (queues k2 q)" using soundD(1) [OF k1(2)] v by (simp_all add: k2_def vacant_def)
  note g = grantedD [OF k1(4)]
  obtain k' where k': "prvInitialiseNewQueue n sz (q + sizeof_Queue) q k2 = Some k'" "sched_inv k'"
    "queues k' = (queues k2)(q := new_queue n sz q)" "container k' = container k2" "items k' = items k2" "liValue (lists k') = liValue (lists k2)"
    "tcb k' = tcb k2" "heap k' = heap k2" "pxCurrentTCB k' = pxCurrentTCB k2" "uxSchedulerSuspended k' = uxSchedulerSuspended k2"
    "uxCurrentNumberOfTasks k' = uxCurrentNumberOfTasks k2" "xSchedulerRunning k' = xSchedulerRunning k2"
    "uxDeletedTasksWaitingCleanUp k' = uxDeletedTasksWaitingCleanUp k2"
    "mem k' = mem k2" "xQueueRegistry k' = xQueueRegistry k2" "kernel.more k' = kernel.more k2"
    by (rule prvInitialiseNewQueue_fresh [OF i2(1) g(1) i2(2) n(1,2) i2(3)]) blast
  have run: "xQueueGenericCreate n sz k = Some (q, k')"
    using n k1(1) g(1) k'(1) by (simp add: xQueueGenericCreate_def k2_def Let_def)
  have c: "calm k k'"
    by (rule calm_trans [OF undisturbedD(1) [OF k1(3)]]) (rule calm_same; use k' in \<open>simp add: k2_def\<close>)
  have e: "heap k' = heap k1" "items k' = items k1" "container k' = container k1" using k' by (simp_all add: k2_def)
  have "sound k'"
    using k1(2) k'(2,11) by (simp add: sound_def objects_live_def vacant_def e k2_def)
  then show ?thesis
  proof (rule that [OF run _ c])
    show "granted q (sizeof_Queue + n * sz) r k k'" using k1(4) by (simp add: granted_def e)
    show "queues k' = (queues k)(q := new_queue n sz q)" "mem k' = mem k" "xQueueRegistry k' = xQueueRegistry k"
      "kernel.more k' = kernel.more k"
      using k' undisturbed_kernel [OF k1(3)] more_shim [OF undisturbedD(2) [OF k1(3)]] by (simp_all add: k2_def upd_queue_def)
    show "items k' (xTasksWaitingToReceive q) = []" "items k' (xTasksWaitingToSend q) = []"
      using v e(2) by (simp_all add: vacant_def)
  qed
qed

section \<open>Creation of tasks\<close>

definition new_tcb :: "addr \<Rightarrow> string \<Rightarrow> addr \<Rightarrow> nat \<Rightarrow> addr \<Rightarrow> TCB_t" where
  "new_tcb code name params priority stack = empty_TCB\<lparr>uxPriority := priority, pxStack := stack,
     pcTaskName := take (configMAX_TASK_NAME_LEN - 1) name, uxBasePriority := priority, pxTaskCode := code, pvParameters := params\<rparr>"

lemma prvInitialiseNewTask_any:
  assumes inv: "sched_inv k" and new: "new \<noteq> 0" "container k (StateItem new) = None" "container k (EventItem new) = None"
    and p: "priority < configMAX_PRIORITIES" and d: "16 < dep" and t: "tcb k new = empty_TCB\<lparr>pxStack := stack, tcbAlloc := al\<rparr>"
  obtains s where "prvInitialiseNewTask code name dep params priority new k =
      Some (k\<lparr>lists := s, tcb := (tcb k)(new := (new_tcb code name params priority stack)\<lparr>tcbAlloc := al\<rparr>)\<rparr>)"
    "sched_inv (k\<lparr>lists := s, tcb := (tcb k)(new := (new_tcb code name params priority stack)\<lparr>tcbAlloc := al\<rparr>)\<rparr>)"
    "liContainer s = liContainer (lists k)" "lsItems s = lsItems (lists k)"
    "\<And>i. i \<noteq> EventItem new \<Longrightarrow> liValue s i = liValue (lists k) i"
proof -
  define s where "s = ls_set_value (EventItem new) (of_nat configMAX_PRIORITIES - of_nat priority)
    (ls_init_item (EventItem new) (ls_init_item (StateItem new) (lists k)))"
  have c: "liContainer s = liContainer (lists k)" "lsItems s = lsItems (lists k)"
    "\<And>i. i \<noteq> EventItem new \<Longrightarrow> liValue s i = liValue (lists k) i"
    using new by (auto simp: s_def ls_set_value_def ls_init_item_def)
  have lo: "lists_ok s"
    using core_invD(1) [OF inv] lists_ok_set_value [of "lists k" "EventItem new"] new
    by (simp add: s_def ls_init_item_def fun_upd_idem)
  have ad: "align_down x mod portBYTE_ALIGNMENT = 0" for x by (simp add: align_down_def portBYTE_ALIGNMENT_def)
  have sp: "(x - pxPortInitialiseStack x) div 4 < dep" for x
  proof -
    have "x - pxPortInitialiseStack x \<le> 64" by (simp add: pxPortInitialiseStack_def)
    then have "(x - pxPortInitialiseStack x) div 4 \<le> 64 div 4" by (rule div_le_mono)
    then show ?thesis using d by simp
  qed
  let ?k = "k\<lparr>lists := s, tcb := (tcb k)(new := (new_tcb code name params priority stack)\<lparr>tcbAlloc := al\<rparr>)\<rparr>"
  have run: "prvInitialiseNewTask code name dep params priority new k = Some ?k"
    using p ad sp by (simp add: prvInitialiseNewTask_def upd_tcb_def upd_lists_def Let_def t s_def new_tcb_def empty_TCB_def)
  have "sched_inv ?k"
  proof (rule core_inv_move [OF inv, where t = new])
    show "lists_ok (lists ?k)" using lo by simp
    show "bit (uxTopReadyPriority ?k) p \<longleftrightarrow> (\<exists>u. container ?k (StateItem u) = Some (pxReadyTasksLists p))" for p
      using core_invD(7) [OF inv] by (simp add: c(1))
  qed (use new p c in \<open>simp_all add: new_tcb_def\<close>)
  then show ?thesis by (rule that [OF run]) (use c in simp_all)
qed

lemma prvInitialiseNewTask_new:
  assumes inv: "sched_inv k" and new: "new \<noteq> 0" "container k (StateItem new) = None" "container k (EventItem new) = None"
    and p: "priority < configMAX_PRIORITIES" and d: "16 < dep" and t: "tcb k new = empty_TCB\<lparr>pxStack := stack\<rparr>"
  obtains s where "prvInitialiseNewTask code name dep params priority new k =
      Some (k\<lparr>lists := s, tcb := (tcb k)(new := new_tcb code name params priority stack)\<rparr>)"
    "sched_inv (k\<lparr>lists := s, tcb := (tcb k)(new := new_tcb code name params priority stack)\<rparr>)"
    "liContainer s = liContainer (lists k)" "lsItems s = lsItems (lists k)"
    "\<And>i. i \<noteq> EventItem new \<Longrightarrow> liValue s i = liValue (lists k) i"
proof -
  have e: "(new_tcb code name params priority stack)\<lparr>tcbAlloc := tskDYNAMICALLY_ALLOCATED_STACK_AND_TCB\<rparr> = new_tcb code name params priority stack"
    by (simp add: new_tcb_def empty_TCB_def)
  have "tcb k new = empty_TCB\<lparr>pxStack := stack, tcbAlloc := tskDYNAMICALLY_ALLOCATED_STACK_AND_TCB\<rparr>" using t by (simp add: empty_TCB_def)
  from prvInitialiseNewTask_any [OF inv new p d this, of code name params] that show ?thesis unfolding e by blast
qed

lemma prvAddNewTaskToReadyList_new:
  assumes inv: "sched_inv k" and new: "new \<noteq> 0" "container k (StateItem new) = None" "container k (EventItem new) = None"
    and r: "pxCurrentTCB k \<noteq> 0" "xSchedulerRunning k"
  shows "sched_inv (prvAddNewTaskToReadyList new k)"
    "container (prvAddNewTaskToReadyList new k) = (container k)(StateItem new := Some (pxReadyTasksLists (prio k new)))"
    "tcb (prvAddNewTaskToReadyList new k) = (tcb k)(new := (tcb k new)\<lparr>uxTCBNumber := uxTaskNumber k + 1\<rparr>)"
    "uxCurrentNumberOfTasks (prvAddNewTaskToReadyList new k) = uxCurrentNumberOfTasks k + 1"
    "pxCurrentTCB (prvAddNewTaskToReadyList new k) = pxCurrentTCB k" "heap (prvAddNewTaskToReadyList new k) = heap k"
    "uxSchedulerSuspended (prvAddNewTaskToReadyList new k) = uxSchedulerSuspended k"
    "xSchedulerRunning (prvAddNewTaskToReadyList new k) = xSchedulerRunning k"
    "uxDeletedTasksWaitingCleanUp (prvAddNewTaskToReadyList new k) = uxDeletedTasksWaitingCleanUp k"
    "sched.more (prvAddNewTaskToReadyList new k) = sched.more k"
    "waiting_list l \<Longrightarrow> items (prvAddNewTaskToReadyList new k) l = items k l"
    "liValue (lists (prvAddNewTaskToReadyList new k)) = liValue (lists k)"
    "pendSV k \<or> prio k (pxCurrentTCB k) < prio k new \<Longrightarrow> pendSV (prvAddNewTaskToReadyList new k)"
proof -
  define k1 where "k1 = upd_tcb new (\<lambda>t. t\<lparr>uxTCBNumber := uxTaskNumber k + 1\<rparr>)
    (k\<lparr>uxCurrentNumberOfTasks := uxCurrentNumberOfTasks k + 1, uxTaskNumber := uxTaskNumber k + 1\<rparr>)"
  have e: "prvAddNewTaskToReadyList new k = taskYIELD_ANY_CORE_IF_USING_PREEMPTION new (prvAddTaskToReadyList new k1)"
    using r by (simp add: prvAddNewTaskToReadyList_def k1_def Let_def)
  have inv1: "sched_inv k1"
    unfolding k1_def by (rule core_inv_upd_tcb) (use inv core_invD(5) [OF inv] in simp_all)
  have c1: "container k1 = container k" by (simp add: k1_def)
  have "sched_inv (prvAddTaskToReadyList new k1)"
    by (rule core_inv_add_ready [OF inv1 _ new(1)]) (use new c1 in simp_all)
  then show "sched_inv (prvAddNewTaskToReadyList new k)"
    by (simp add: e taskYIELD_ANY_CORE_IF_USING_PREEMPTION_def portYIELD_def)
  show "waiting_list l \<Longrightarrow> items (prvAddNewTaskToReadyList new k) l = items k l"
    by (simp add: e taskYIELD_ANY_CORE_IF_USING_PREEMPTION_def portYIELD_def items_add_ready) (simp add: k1_def)
qed (auto simp: prvAddNewTaskToReadyList_def r Let_def taskYIELD_ANY_CORE_IF_USING_PREEMPTION_def portYIELD_def upd_tcb_def)

lemma calm_terminated:
  "calm k k' \<Longrightarrow> container k' (StateItem t) = Some xTasksWaitingTermination \<longleftrightarrow> container k (StateItem t) = Some xTasksWaitingTermination"
  using spec [OF calmD(8) [of k k', unfolded unblocks_def], of t] by (auto simp: blocked_def)

lemma calm_ready: "calm k k' \<Longrightarrow> ready k t \<Longrightarrow> ready k' t"
  using unblocks_ready [of k k' t] calmD(8) [of k k'] by (auto simp: ready_def)

text \<open>A state in which a task runs.\<close>

definition in_task :: "'a sched_scheme \<Rightarrow> bool" where
  "in_task k \<longleftrightarrow> sound k \<and> running_ready k \<and> xSchedulerRunning k"

lemma in_task_cong:
  assumes "lists k' = lists k" "tcb k' = tcb k" "heap k' = heap k" "pxCurrentTCB k' = pxCurrentTCB k"
    "uxCurrentNumberOfTasks k' = uxCurrentNumberOfTasks k" "xSchedulerRunning k' = xSchedulerRunning k" "sched_inv k' = sched_inv k"
  shows "in_task k' = in_task k"
  using assms by (simp add: in_task_def sound_def objects_live_def vacant_def running_ready_def)

text \<open>Two blocks one after the other.\<close>

lemma two_blocks:
  assumes s: "sound k" and n: "0 < n" "0 < adjusted_size n" "0 < m" "0 < adjusted_size m"
    and room: "has_room (heap k) (adjusted_size n + (adjusted_size m + r))" "heapMINIMUM_BLOCK_SIZE < r"
  obtains p k1 q k2 where "pvPortMalloc n k = Some (p, k1)" "pvPortMalloc m k1 = Some (q, k2)" "sound k2" "undisturbed k k2"
    "p \<noteq> 0" "q \<noteq> 0" "p \<notin> live k" "q \<notin> live k" "q \<noteq> p" "vacant k q" "has_room (heap k2) r" "ucHeap (heap k2) = ucHeap (heap k)"
    "\<exists>a \<ge> n. \<exists>b \<ge> m. heap_owned (heap k2) = insert (q, b) (insert (p, a) (heap_owned (heap k)))"
proof -
  have r2: "heapMINIMUM_BLOCK_SIZE < adjusted_size m + r" using room(2) by simp
  obtain p k1 where k1: "pvPortMalloc n k = Some (p, k1)" "sound k1" "undisturbed k k1" "granted p n (adjusted_size m + r) k k1"
    by (rule pvPortMalloc_granted [OF s room(1) n(1,2) r2]) blast
  have room1: "has_room (heap k1) (adjusted_size m + r)" by (rule grantedD(4) [OF k1(4)])
  obtain q k2 where k2: "pvPortMalloc m k1 = Some (q, k2)" "sound k2" "undisturbed k1 k2" "granted q m r k1 k2"
    by (rule pvPortMalloc_granted [OF k1(2) room1 n(3,4) room(2)]) blast
  note g1 = k1(4) [unfolded granted_def] and g2 = k2(4) [unfolded granted_def]
  have live1: "live k1 = insert p (live k)" by (rule grantedD(5) [OF k1(4)])
  have "\<exists>a \<ge> n. \<exists>b \<ge> m. heap_owned (heap k2) = insert (q, b) (insert (p, a) (heap_owned (heap k)))"
    using g1 g2 by (metis (no_types))
  moreover have "vacant k q"
  proof -
    obtain b where b: "heap_owned (heap k2) = insert (q, b) (heap_owned (heap k1))" using g2 by blast
    have "ucHeap (heap k2) \<le> q \<and> q + b \<le> ucHeap (heap k2) + configTOTAL_HEAP_SIZE" by (rule heap_owned_range) (simp add: b)
    then show ?thesis using soundD(3) [OF s] g1 g2 live1 by (simp add: objects_live_def)
  qed
  ultimately show ?thesis
    by (intro that [OF k1(1) k2(1,2)]) (use g1 g2 live1 undisturbed_trans [OF k1(3) k2(3)] in simp_all)
qed

lemma xTaskCreate_granted:
  assumes t: "in_task k" and p: "priority < configMAX_PRIORITIES"
    and d: "16 < dep" "dep * 4 < 2 ^ 32" "0 < adjusted_size (dep * 4)"
    and room: "has_room (heap k) (adjusted_size (dep * 4) + (adjusted_size sizeof_TCB + r))" "heapMINIMUM_BLOCK_SIZE < r"
  obtains new stack n a b k' where "xTaskCreate code name dep params priority k = Some (new, k')" "in_task k'"
    "new \<noteq> 0" "new \<notin> live k" "vacant k new" "has_room (heap k') r" "ucHeap (heap k') = ucHeap (heap k)"
    "heap_owned (heap k') = insert (new, b) (insert (stack, a) (heap_owned (heap k)))" "stack \<notin> live k" "new \<noteq> stack"
    "tcb k' = (tcb k)(new := (new_tcb code name params priority stack)\<lparr>uxTCBNumber := n\<rparr>)"
    "container k' (StateItem new) = Some (pxReadyTasksLists priority)" "container k' (EventItem new) = None"
    "pxCurrentTCB k' = pxCurrentTCB k" "uxSchedulerSuspended k' = uxSchedulerSuspended k" "sched.more k' = sched.more k"
    "uxCurrentNumberOfTasks k' = uxCurrentNumberOfTasks k + 1"
    "\<And>u. ready k u \<Longrightarrow> ready k' u" "\<And>u. u \<noteq> new \<Longrightarrow> vacant k u \<Longrightarrow> vacant k' u"
    "\<And>u. container k' (StateItem u) = Some xTasksWaitingTermination \<longleftrightarrow> container k (StateItem u) = Some xTasksWaitingTermination"
    "uxDeletedTasksWaitingCleanUp k' = uxDeletedTasksWaitingCleanUp k"
proof -
  have S: "sound k" "running_ready k" "xSchedulerRunning k" using t by (simp_all add: in_task_def)
  have ad: "0 < adjusted_size sizeof_TCB" by (simp add: adjusted_size_def sizeof_TCB_def heap_defs cfg_defs)
  have tc: "0 < sizeof_TCB" "0 < dep * 4" using d by (simp_all add: sizeof_TCB_def)
  obtain stack k1 new k2 where k2: "pvPortMalloc (dep * 4) k = Some (stack, k1)" "pvPortMalloc sizeof_TCB k1 = Some (new, k2)"
    "sound k2" "undisturbed k k2" "stack \<noteq> 0" "new \<noteq> 0" "stack \<notin> live k" "new \<notin> live k" "new \<noteq> stack" "vacant k new" "has_room (heap k2) r"
    "ucHeap (heap k2) = ucHeap (heap k)"
    "\<exists>a \<ge> dep * 4. \<exists>b \<ge> sizeof_TCB. heap_owned (heap k2) = insert (new, b) (insert (stack, a) (heap_owned (heap k)))"
    by (rule two_blocks [OF S(1) tc(2) d(3) tc(1) ad room]) blast
  obtain a b where ab: "heap_owned (heap k2) = insert (new, b) (insert (stack, a) (heap_owned (heap k)))" using k2(13) by blast
  note c = undisturbedD(1) [OF k2(4)] and inv2 = soundD(1) [OF k2(3)]
  note C = calmD [OF c]
  have v: "vacant k2 new" by (rule calm_vacant [OF c soundD(1) [OF S(1)] inv2 k2(10)])
  define k3 where "k3 = k2\<lparr>tcb := (tcb k2)(new := empty_TCB\<lparr>pxStack := stack\<rparr>)\<rparr>"
  have inv3: "sched_inv k3"
    by (rule core_inv_move [OF inv2, where t = new])
      (use k2(6) v core_invD [OF inv2] in \<open>simp_all add: k3_def vacant_def empty_TCB_def configMAX_PRIORITIES_def\<close>)
  have k3: "lists k3 = lists k2" "heap k3 = heap k2" "pxCurrentTCB k3 = pxCurrentTCB k" "xSchedulerRunning k3"
    "tcb k3 new = empty_TCB\<lparr>pxStack := stack\<rparr>"
    "container k3 (StateItem new) = None" "container k3 (EventItem new) = None"
    using C(2,5) S(3) v by (simp_all add: k3_def vacant_def)
  obtain s where s: "prvInitialiseNewTask code name dep params priority new k3 =
      Some (k3\<lparr>lists := s, tcb := (tcb k3)(new := new_tcb code name params priority stack)\<rparr>)"
    "sched_inv (k3\<lparr>lists := s, tcb := (tcb k3)(new := new_tcb code name params priority stack)\<rparr>)"
    "liContainer s = liContainer (lists k3)" "lsItems s = lsItems (lists k3)"
    by (rule prvInitialiseNewTask_new [OF inv3 k2(6) k3(6,7) p d(1) k3(5)]) blast
  define k4 where "k4 = k3\<lparr>lists := s, tcb := (tcb k3)(new := new_tcb code name params priority stack)\<rparr>"
  define k' where "k' = prvAddNewTaskToReadyList new k4"
  have cur: "pxCurrentTCB k \<noteq> 0" by (rule running_nonzero [OF soundD(1) [OF S(1)] S(2)])
  have k4: "sched_inv k4" "container k4 (StateItem new) = None" "container k4 (EventItem new) = None" "pxCurrentTCB k4 \<noteq> 0"
    "xSchedulerRunning k4" "container k4 = container k2" "items k4 = items k2" "heap k4 = heap k2" "pxCurrentTCB k4 = pxCurrentTCB k"
    "tcb k4 = (tcb k)(new := new_tcb code name params priority stack)" "uxSchedulerSuspended k4 = uxSchedulerSuspended k"
    "sched.more k4 = sched.more k" "uxCurrentNumberOfTasks k4 = uxCurrentNumberOfTasks k"
    using s k3 C cur undisturbedD(2) [OF k2(4)] by (simp_all add: k4_def) (simp_all add: k3_def)
  note A = prvAddNewTaskToReadyList_new [OF k4(1) k2(6) k4(2-5), folded k'_def]
  have run: "xTaskCreate code name dep params priority k = Some (new, k')"
    using k2(1,2,5,6) d(2) s(1) by (simp add: xTaskCreate_def prvCreateTask_def Let_def k'_def k4_def)
      (simp add: k3_def upd_tcb_def empty_TCB_def)
  have vac: "vacant k' u" if "u \<noteq> new" "vacant k2 u" for u
    using that A(2,11) k4(6,7) by (simp add: vacant_def)
  have live': "new \<in> live k'" "heap k' = heap k2" using ab A(6) k4(8) by simp_all
  have obj: "objects_live k'"
    using soundD(3) [OF k2(3)] live' vac unfolding objects_live_def by metis
  have cn: "pxCurrentTCB k \<noteq> new" using S(2) k2(10) by (auto simp: running_ready_def vacant_def)
  have "running_ready k2" by (rule calm_running [OF c S(2)])
  then have rr: "running_ready k'" using A(2,3,5) k4(6,9,10) C(1,2) cn by (simp add: running_ready_def)
  have "in_task k'"
    using A(1,4,8) k4(5) obj rr soundD(2) [OF k2(3)] live'(2) by (simp add: in_task_def sound_def)
  then show ?thesis
  proof (rule that [OF run, of b stack a "uxTaskNumber k4 + 1"])
    show "heap_owned (heap k') = insert (new, b) (insert (stack, a) (heap_owned (heap k)))" "has_room (heap k') r"
      "ucHeap (heap k') = ucHeap (heap k)" using ab k2(11,12) live'(2) by simp_all
    show "container k' (StateItem new) = Some (pxReadyTasksLists priority)" using A(2) k4(10) by (simp add: new_tcb_def)
    show "ready k' u" if "ready k u" for u
      using calm_ready [OF c that] A(2) k4(6) by (auto simp: ready_def)
    show "vacant k' u" if "u \<noteq> new" "vacant k u" for u
      by (rule vac [OF that(1) calm_vacant [OF c soundD(1) [OF S(1)] inv2 that(2)]])
    show "container k' (StateItem u) = Some xTasksWaitingTermination \<longleftrightarrow> container k (StateItem u) = Some xTasksWaitingTermination" for u
      using calm_terminated [OF c, of u] A(2) k4(6) k2(10) by (simp add: vacant_def)
    show "uxDeletedTasksWaitingCleanUp k' = uxDeletedTasksWaitingCleanUp k" using A(9) C(3) by (simp add: k4_def k3_def)
  qed (use k2 A(2,3,4,5,7,10) k4 in simp_all)
qed

section \<open>Deletion of the running task\<close>

lemma core_inv_add_terminated:
  assumes inv: "core_inv X strict k" and c: "container k (StateItem t) = None" "container k (EventItem t) = None" and t: "t \<noteq> 0"
  shows "core_inv X strict (upd_lists (ls_insert_end xTasksWaitingTermination (StateItem t)) k)" (is "core_inv X strict ?k")
proof (rule core_inv_move [OF inv, where t = t])
  note D = core_invD [OF inv]
  show "lists_ok (lists ?k)" using lists_ok_insert_end [OF D(1) c(1)] by (simp add: upd_lists_def)
  show "bit (uxTopReadyPriority ?k) p \<longleftrightarrow> (\<exists>u. container ?k (StateItem u) = Some (pxReadyTasksLists p))" for p
    by (rule bits_move [OF inv, of t]) (use c in \<open>auto simp: upd_lists_def\<close>)
qed (use core_invD [OF inv] delayed_ptrs [OF inv] c t in \<open>auto simp: upd_lists_def dest: sym\<close>)

text \<open>A task that deletes itself waits for the idle task to free it, and a switch is requested.\<close>

lemma vTaskDelete_self:
  assumes inv: "sched_inv k" and rr: "running_ready k" and r: "xSchedulerRunning k" "uxSchedulerSuspended k = 0"
  obtains k' where "vTaskDelete 0 k = Some k'" "sched_inv k'" "pendSV k'"
    "container k' = (container k)(StateItem (pxCurrentTCB k) := Some xTasksWaitingTermination)"
    "items k' xTasksWaitingTermination = before_index (lsIndex (lists k) xTasksWaitingTermination) (StateItem (pxCurrentTCB k)) (items k xTasksWaitingTermination)"
    "\<And>l. waiting_list l \<Longrightarrow> items k' l = items k l" "tcb k' = tcb k" "heap k' = heap k" "pxCurrentTCB k' = pxCurrentTCB k"
    "uxDeletedTasksWaitingCleanUp k' = uxDeletedTasksWaitingCleanUp k + 1" "uxCurrentNumberOfTasks k' = uxCurrentNumberOfTasks k"
    "uxSchedulerSuspended k' = 0" "xSchedulerRunning k'" "sched.more k' = sched.more k"
proof -
  let ?c = "pxCurrentTCB k" and ?l = "pxReadyTasksLists (prio k (pxCurrentTCB k))"
  have c: "container k (StateItem ?c) = Some ?l" using rr by (simp add: running_ready_def)
  have ev: "container k (EventItem ?c) = None" by (rule ready_no_event [OF inv c])
  have nz: "?c \<noteq> 0" by (rule running_nonzero [OF inv rr])
  obtain b where b: "remove_reset_priority ?c (prio k ?c) k = Some (k\<lparr>lists := ls_del ?l (StateItem ?c) (lists k), uxTopReadyPriority := b\<rparr>)"
    "sched_inv (k\<lparr>lists := ls_del ?l (StateItem ?c) (lists k), uxTopReadyPriority := b\<rparr>)" (is "sched_inv ?k1")
    using remove_reset_priority_inv [OF inv c] by blast
  define n where "n = length (remove1 (StateItem ?c) (items k ?l))"
  define k0 where "k0 = k\<lparr>lists := ls_del ?l (StateItem ?c) (lists k)\<rparr>"
  define k1 where "k1 = ?k1"
  have rm: "list_remove (StateItem ?c) k = Some (n, k0)"
    by (simp add: list_remove_def ls_remove_Some [OF c] n_def k0_def)
  have k1: "(if n = 0 then taskRESET_READY_PRIORITY (prio k0 ?c) k0 else k0) = k1"
  proof -
    have "n = 0 \<longleftrightarrow> items k0 ?l = []" "prio k0 ?c = prio k ?c" by (simp_all add: n_def k0_def ls_del_def)
    then show ?thesis using b(1) by (simp add: remove_reset_priority_def rm k1_def [symmetric] taskRESET_READY_PRIORITY_def split: if_splits)
  qed
  have k1s: "container k1 (EventItem ?c) = None" "container k1 (StateItem ?c) = None" "pxCurrentTCB k1 = ?c" "xSchedulerRunning k1"
    "uxSchedulerSuspended k1 = 0" "uxDeletedTasksWaitingCleanUp k1 = uxDeletedTasksWaitingCleanUp k" "tcb k1 = tcb k" "heap k1 = heap k"
    "uxCurrentNumberOfTasks k1 = uxCurrentNumberOfTasks k" "sched.more k1 = sched.more k"
    using ev r by (simp_all add: k1_def)
  have k1l: "items k1 l = items k l" "lsIndex (lists k1) l = lsIndex (lists k) l" if "l \<noteq> ?l" for l
    using that by (simp_all add: k1_def ls_del_def)
  have k1c: "container k1 = (container k)(StateItem ?c := None)" by (auto simp: k1_def)
  define k2 where "k2 = k1\<lparr>uxTaskNumber := uxTaskNumber k1 + 1\<rparr>"
  define k' where "k' = portYIELD ((upd_lists (ls_insert_end xTasksWaitingTermination (StateItem ?c)) k2)
    \<lparr>uxDeletedTasksWaitingCleanUp := uxDeletedTasksWaitingCleanUp k + 1\<rparr>)"
  have "sched_inv k2" using b(2) by (simp add: k2_def k1_def)
  then have "sched_inv (upd_lists (ls_insert_end xTasksWaitingTermination (StateItem ?c)) k2)"
    by (rule core_inv_add_terminated) (use k1s nz in \<open>simp_all add: k2_def\<close>)
  then have inv': "sched_inv k'" by (simp add: k'_def portYIELD_def)
  have rm2: "remove_if_contained (EventItem ?c) k1 = Some k1" unfolding remove_if_contained_def k1s by simp
  have hnd: "prvGetTCBFromHandle 0 k = ?c" by (simp add: prvGetTCBFromHandle_def)
  have run: "vTaskDelete 0 k = Some k'"
    unfolding vTaskDelete_def hnd Let_def using nz rm2
    by (simp add: rm k1 k1s k'_def k2_def upd_lists_def split del: if_split)
  have k': "container k' = (container k1)(StateItem ?c := Some xTasksWaitingTermination)"
    "items k' = (items k1)(xTasksWaitingTermination := before_index (lsIndex (lists k1) xTasksWaitingTermination) (StateItem ?c) (items k1 xTasksWaitingTermination))"
    "tcb k' = tcb k1" "heap k' = heap k1" "pxCurrentTCB k' = pxCurrentTCB k1" "sched.more k' = sched.more k1" "pendSV k'"
    "uxDeletedTasksWaitingCleanUp k' = uxDeletedTasksWaitingCleanUp k + 1" "uxCurrentNumberOfTasks k' = uxCurrentNumberOfTasks k1"
    "uxSchedulerSuspended k' = uxSchedulerSuspended k1" "xSchedulerRunning k' = xSchedulerRunning k1"
    by (simp_all add: k'_def portYIELD_def k2_def upd_lists_def ls_insert_end_def fun_upd_def)
  show ?thesis
  proof (rule that [OF run inv' k'(7)])
    show "items k' l = items k l" if "waiting_list l" for l
      using waiting_listD [OF that] that k1l(1) by (cases l) (auto simp: k'(2))
    show "container k' = (container k)(StateItem ?c := Some xTasksWaitingTermination)" by (rule ext) (simp add: k'(1) k1c)
  qed (simp_all add: k' k1s k1l)
qed

section \<open>The idle task reclaims deleted tasks\<close>

text \<open>\<open>T\<close> are the tasks that deleted themselves, each with its stack and control block still allocated.\<close>

definition doomed :: "addr set \<Rightarrow> 'a sched_scheme \<Rightarrow> bool" where
  "doomed T k \<longleftrightarrow> finite T \<and> (\<forall>t. container k (StateItem t) = Some xTasksWaitingTermination \<longleftrightarrow> t \<in> T) \<and>
     uxDeletedTasksWaitingCleanUp k = card T \<and> card T < uxCurrentNumberOfTasks k \<and>
     (\<forall>t \<in> T. tcbAlloc (tcb k t) = tskDYNAMICALLY_ALLOCATED_STACK_AND_TCB \<and> t \<in> live k \<and> pxStack (tcb k t) \<in> live k) \<and>
     inj_on (\<lambda>t. pxStack (tcb k t)) T \<and> (\<forall>t \<in> T. \<forall>u \<in> T. pxStack (tcb k t) \<noteq> u)"

text \<open>The blocks of the tasks \<open>T\<close>.\<close>

definition task_blocks :: "addr set \<Rightarrow> 'a sched_scheme \<Rightarrow> addr set" where
  "task_blocks T k = T \<union> (\<lambda>t. pxStack (tcb k t)) ` T"

lemma owned_minus: "heap_owned (heap k') = heap_owned (heap k) - {(p, sz)} \<Longrightarrow> (p, sz) \<in> heap_owned (heap k) \<Longrightarrow> heap_inv (heap k) \<Longrightarrow>
    live k' = live k - {p}"
proof -
  assume a: "heap_owned (heap k') = heap_owned (heap k) - {(p, sz)}" "(p, sz) \<in> heap_owned (heap k)"
  have "n = sz" if "(p, n) \<in> heap_owned (heap k)" for n
    using heap_owned_disjoint [OF that a(2)] by fastforce
  then show ?thesis unfolding a(1) by force
qed

lemma prvDeleteTCB_owned:
  assumes inv: "sched_inv k" "heap_inv (heap k)" and n: "0 < uxCurrentNumberOfTasks k"
    and t: "tcbAlloc (tcb k t) = tskDYNAMICALLY_ALLOCATED_STACK_AND_TCB" "t \<in> live k" "pxStack (tcb k t) \<in> live k" "pxStack (tcb k t) \<noteq> t"
  obtains k' where "prvDeleteTCB t k = Some k'" "sched_inv k'" "heap_inv (heap k')" "undisturbed k k'"
    "live k' = live k - {t, pxStack (tcb k t)}" "heap_owned (heap k') \<subseteq> heap_owned (heap k)"
proof -
  let ?s = "pxStack (tcb k t)"
  obtain a where a: "(?s, a) \<in> heap_owned (heap k)" using t(3) by force
  obtain k1 where k1: "vPortFree ?s k = Some k1" "sched_inv k1" "heap_inv (heap k1)" "undisturbed k k1"
    "heap_owned (heap k1) = heap_owned (heap k) - {(?s, a)}"
    by (rule vPortFree_owned [OF inv n a]) blast
  have l1: "live k1 = live k - {?s}" by (rule owned_minus [OF k1(5) a inv(2)])
  have "t \<in> live k1" unfolding l1 using t(2,4) by (metis DiffI singletonD)
  then obtain b where b: "(t, b) \<in> heap_owned (heap k1)" by force
  have n1: "0 < uxCurrentNumberOfTasks k1" using n calmD(4) [OF undisturbedD(1) [OF k1(4)]] by simp
  obtain k2 where k2: "vPortFree t k1 = Some k2" "sched_inv k2" "heap_inv (heap k2)" "undisturbed k1 k2"
    "heap_owned (heap k2) = heap_owned (heap k1) - {(t, b)}"
    by (rule vPortFree_owned [OF k1(2,3) n1 b]) blast
  have l2: "live k2 = live k - {t, ?s}" using owned_minus [OF k2(5) b k1(3)] l1 by auto
  have "prvDeleteTCB t k = Some k2" using t(1) k1(1) k2(1) by (simp add: prvDeleteTCB_def)
  then show ?thesis
    by (rule that) (use k2 l2 undisturbed_trans [OF k1(4) k2(4)] k1(5) in auto)
qed

text \<open>One turn of the loop.\<close>

lemma idle_step:
  fixes k :: "'a sched_scheme"
  assumes inv: "sched_inv k" "heap_inv (heap k)" and d: "doomed T k" "T \<noteq> {}"
  obtains t k' where "t \<in> T" "prvCheckTasksWaitingTermination k = prvCheckTasksWaitingTermination k'" "sched_inv k'" "heap_inv (heap k')"
    "doomed (T - {t}) k'" "tcb k' = tcb k" "live k' = live k - {t, pxStack (tcb k t)}" "heap_owned (heap k') \<subseteq> heap_owned (heap k)"
    "uxCurrentNumberOfTasks k' = uxCurrentNumberOfTasks k - 1" "pxCurrentTCB k' = pxCurrentTCB k" "sched.more k' = sched.more k"
    "\<And>u. ready k u \<Longrightarrow> ready k' u"
proof -
  let ?W = xTasksWaitingTermination
  note D = core_invD [OF inv(1)]
  have fin: "finite T" "card T = uxDeletedTasksWaitingCleanUp k" "card T < uxCurrentNumberOfTasks k" using d(1) by (simp_all add: doomed_def)
  have pos: "0 < uxDeletedTasksWaitingCleanUp k" using fin d(2) by (metis card_gt_0_iff)
  obtain i rest where i: "items k ?W = i # rest"
    using d lists_ok_nil [OF D(1), of ?W] by (cases "items k ?W") (auto simp: doomed_def)
  have ci: "container k i = Some ?W" using lists_ok_mem [OF D(1), of i ?W] i by simp
  then obtain t where t: "i = StateItem t" using D(2) [OF ci] by (cases i) auto
  have tT: "t \<in> T" using ci t d(1) by (simp add: doomed_def)
  define k1 where "k1 = k\<lparr>lists := ls_del ?W (StateItem t) (lists k)\<rparr>"
  define k2 where "k2 = k1\<lparr>uxCurrentNumberOfTasks := uxCurrentNumberOfTasks k1 - 1, uxDeletedTasksWaitingCleanUp := uxDeletedTasksWaitingCleanUp k1 - 1\<rparr>"
  have ev: "container k (EventItem t) = None" using D(11) [of t] ci t by (cases "container k (EventItem t)") (auto simp: blocked_def)
  have inv1: "sched_inv k1" unfolding k1_def by (rule core_inv_del_state [OF inv(1)]) (use ci t ev in auto)
  have inv2: "sched_inv k2" "heap_inv (heap k2)" "0 < uxCurrentNumberOfTasks k2" using inv1 inv(2) fin pos by (simp_all add: k2_def k1_def)
  have T: "tcbAlloc (tcb k2 t) = tskDYNAMICALLY_ALLOCATED_STACK_AND_TCB" "t \<in> live k2" "pxStack (tcb k2 t) \<in> live k2" "pxStack (tcb k2 t) \<noteq> t"
    using d(1) tT by (simp_all add: doomed_def k2_def k1_def)
  obtain k' where k': "prvDeleteTCB t k2 = Some k'" "sched_inv k'" "heap_inv (heap k')" "undisturbed k2 k'"
    "live k' = live k2 - {t, pxStack (tcb k2 t)}" "heap_owned (heap k') \<subseteq> heap_owned (heap k2)"
    by (rule prvDeleteTCB_owned [OF inv2 T]) blast
  note C = calmD [OF undisturbedD(1) [OF k'(4)]]
  have e: "tcb k' = tcb k" "live k' = live k - {t, pxStack (tcb k t)}" "uxCurrentNumberOfTasks k' = uxCurrentNumberOfTasks k - 1"
    "uxDeletedTasksWaitingCleanUp k' = uxDeletedTasksWaitingCleanUp k - 1" "pxCurrentTCB k' = pxCurrentTCB k"
    using C k'(5) by (simp_all add: k2_def k1_def)
  have run: "prvCheckTasksWaitingTermination k = prvCheckTasksWaitingTermination k'"
    by (subst prvCheckTasksWaitingTermination.simps)
      (use pos i t ci k'(1) [unfolded k2_def] in \<open>simp add: ls_head_def listREMOVE_ITEM_eq k1_def [symmetric]\<close>)
  have cont: "container k' (StateItem u) = Some ?W \<longleftrightarrow> u \<in> T - {t}" for u
    using calm_terminated [OF undisturbedD(1) [OF k'(4)], of u] d(1) by (auto simp: k2_def k1_def doomed_def)
  have cd: "card (T - {t}) = card T - 1" using tT by (rule card_Diff_singleton)
  have "doomed (T - {t}) k'"
    unfolding doomed_def e(1-4) using d(1) tT fin pos cont cd
    by (auto simp: doomed_def intro: inj_on_subset dest: inj_onD)
  moreover have "ready k' u" if "ready k u" for u
    by (rule calm_ready [OF undisturbedD(1) [OF k'(4)]]) (use that ci t in \<open>auto simp: k2_def k1_def ready_def\<close>)
  ultimately show ?thesis
    by (intro that [OF tT run k'(2,3)]) (use e k'(6) undisturbedD(2) [OF k'(4)] in \<open>simp_all add: k2_def k1_def\<close>)
qed

lemma idle_loop:
  assumes "sched_inv k" "heap_inv (heap k)" "doomed T k"
  shows "\<exists>k'. prvCheckTasksWaitingTermination k = Some k' \<and> sched_inv k' \<and> heap_inv (heap k') \<and> doomed {} k' \<and>
    live k' = live k - task_blocks T k \<and> heap_owned (heap k') \<subseteq> heap_owned (heap k) \<and>
    uxCurrentNumberOfTasks k' = uxCurrentNumberOfTasks k - card T \<and> (\<forall>u. ready k u \<longrightarrow> ready k' u)"
  using assms
proof (induction "card T" arbitrary: T k)
  case 0
  then have T: "T = {}" by (auto simp: doomed_def)
  have "prvCheckTasksWaitingTermination k = Some k"
    by (subst prvCheckTasksWaitingTermination.simps) (use 0 T in \<open>simp add: doomed_def\<close>)
  then show ?case using 0 T by (simp add: task_blocks_def)
next
  case (Suc n)
  then have ne: "T \<noteq> {}" by auto
  obtain t k1 where k1: "t \<in> T" "prvCheckTasksWaitingTermination k = prvCheckTasksWaitingTermination k1" "sched_inv k1" "heap_inv (heap k1)"
    "doomed (T - {t}) k1" "tcb k1 = tcb k" "live k1 = live k - {t, pxStack (tcb k t)}" "heap_owned (heap k1) \<subseteq> heap_owned (heap k)"
    "uxCurrentNumberOfTasks k1 = uxCurrentNumberOfTasks k - 1" "\<forall>u. ready k u \<longrightarrow> ready k1 u"
    by (rule idle_step [OF Suc.prems ne]) blast
  have n: "n = card (T - {t})" using Suc.hyps(2) k1(1) card_Diff_singleton [of t T] by simp
  obtain k' where k': "prvCheckTasksWaitingTermination k1 = Some k'" "sched_inv k'" "heap_inv (heap k')" "doomed {} k'"
    "live k' = live k1 - task_blocks (T - {t}) k1" "heap_owned (heap k') \<subseteq> heap_owned (heap k1)"
    "uxCurrentNumberOfTasks k' = uxCurrentNumberOfTasks k1 - card (T - {t})" "\<forall>u. ready k1 u \<longrightarrow> ready k' u"
    using Suc.hyps(1) [OF n k1(3-5)] by blast
  have b: "task_blocks T k = task_blocks (T - {t}) k1 \<union> {t, pxStack (tcb k t)}"
    using k1(1) by (auto simp: task_blocks_def k1(6))
  have "uxCurrentNumberOfTasks k' = uxCurrentNumberOfTasks k - card T" using k'(7) k1(9) n Suc.hyps(2) by simp
  moreover have "live k' = live k - task_blocks T k" unfolding k'(5) k1(7) b by blast
  ultimately show ?case using k'(1-4,6,8) k1(2,8,10) by (metis subset_trans)
qed

section \<open>Properties\<close>

text \<open>
  C18: The idle task's clean-up loop ends and frees exactly the memory of the deleted tasks. For any
  set \<open>T\<close> of tasks that deleted themselves, each with an allocated stack and control block,
  \<^verbatim>\<open>prvCheckTasksWaitingTermination\<close> returns with no task left waiting for termination; the live heap
  blocks are those of before without the control blocks and stacks of \<open>T\<close>, no other block changed its
  size, the count of tasks went down by the number of tasks of \<open>T\<close>, ready tasks are still ready and the
  scheduler and heap invariants hold.
\<close>

theorem idle_reclaims_deleted:
  assumes "sched_inv k" "heap_inv (heap k)" "doomed T k"
  shows "\<exists>k'. prvCheckTasksWaitingTermination k = Some k' \<and> sched_inv k' \<and> heap_inv (heap k') \<and>
    (\<forall>t. container k' (StateItem t) \<noteq> Some xTasksWaitingTermination) \<and> uxDeletedTasksWaitingCleanUp k' = 0 \<and>
    live k' = live k - task_blocks T k \<and> heap_owned (heap k') \<subseteq> heap_owned (heap k) \<and>
    uxCurrentNumberOfTasks k' = uxCurrentNumberOfTasks k - card T \<and> (\<forall>u. ready k u \<longrightarrow> ready k' u)"
  using idle_loop [OF assms] by (auto simp: doomed_def [of "{}"])

lemma in_task_current: "in_task k \<Longrightarrow> ready k t \<Longrightarrow> in_task (k\<lparr>pxCurrentTCB := t\<rparr>)"
  using ready_running [of k t] by (auto simp: in_task_def sound_def objects_live_def vacant_def)

text \<open>A new task that runs and deletes itself leaves a state in which it alone is doomed.\<close>

lemma create_delete_doomed:
  assumes t: "in_task k" and s: "uxSchedulerSuspended k = 0" and d0: "doomed {} k" and p: "priority < configMAX_PRIORITIES"
    and d: "16 < dep" "dep * 4 < 2 ^ 32" "0 < adjusted_size (dep * 4)"
    and room: "has_room (heap k) (adjusted_size (dep * 4) + (adjusted_size sizeof_TCB + r))" "heapMINIMUM_BLOCK_SIZE < r"
  obtains new stack a b k1 k2 where "xTaskCreate code name dep params priority k = Some (new, k1)"
    "container k1 (StateItem new) = Some (pxReadyTasksLists priority)" "pxTaskCode (tcb k1 new) = code" "pvParameters (tcb k1 new) = params"
    "vTaskDelete 0 (k1\<lparr>pxCurrentTCB := new\<rparr>) = Some k2" "sched_inv k2" "heap_inv (heap k2)" "doomed {new} k2" "pxStack (tcb k2 new) = stack"
    "heap_owned (heap k2) = insert (new, b) (insert (stack, a) (heap_owned (heap k)))" "stack \<notin> live k" "new \<notin> live k"
    "uxCurrentNumberOfTasks k2 = uxCurrentNumberOfTasks k + 1" "\<And>u. u \<noteq> new \<Longrightarrow> ready k u \<Longrightarrow> ready k2 u"
proof -
  obtain new stack n a b k1 where k1: "xTaskCreate code name dep params priority k = Some (new, k1)" "in_task k1"
    "new \<noteq> 0" "new \<notin> live k" "vacant k new"
    "heap_owned (heap k1) = insert (new, b) (insert (stack, a) (heap_owned (heap k)))" "stack \<notin> live k" "new \<noteq> stack"
    "tcb k1 = (tcb k)(new := (new_tcb code name params priority stack)\<lparr>uxTCBNumber := n\<rparr>)"
    "container k1 (StateItem new) = Some (pxReadyTasksLists priority)" "container k1 (EventItem new) = None"
    "uxSchedulerSuspended k1 = uxSchedulerSuspended k"
    "uxCurrentNumberOfTasks k1 = uxCurrentNumberOfTasks k + 1" "\<forall>u. ready k u \<longrightarrow> ready k1 u"
    "\<forall>u. container k1 (StateItem u) = Some xTasksWaitingTermination \<longleftrightarrow> container k (StateItem u) = Some xTasksWaitingTermination"
    "uxDeletedTasksWaitingCleanUp k1 = uxDeletedTasksWaitingCleanUp k"
    by (rule xTaskCreate_granted [OF t p d room]) blast
  have r1: "ready k1 new" using k1(10) by (auto simp: ready_def)
  have it: "in_task (k1\<lparr>pxCurrentTCB := new\<rparr>)" by (rule in_task_current [OF k1(2) r1])
  then have i: "sched_inv (k1\<lparr>pxCurrentTCB := new\<rparr>)" "running_ready (k1\<lparr>pxCurrentTCB := new\<rparr>)" "xSchedulerRunning (k1\<lparr>pxCurrentTCB := new\<rparr>)"
    "uxSchedulerSuspended (k1\<lparr>pxCurrentTCB := new\<rparr>) = 0" using s k1(12) by (simp_all add: in_task_def sound_def)
  obtain k2 where k2: "vTaskDelete 0 (k1\<lparr>pxCurrentTCB := new\<rparr>) = Some k2" "sched_inv k2"
    "container k2 = (container (k1\<lparr>pxCurrentTCB := new\<rparr>))(StateItem (pxCurrentTCB (k1\<lparr>pxCurrentTCB := new\<rparr>)) := Some xTasksWaitingTermination)"
    "tcb k2 = tcb (k1\<lparr>pxCurrentTCB := new\<rparr>)" "heap k2 = heap (k1\<lparr>pxCurrentTCB := new\<rparr>)"
    "uxDeletedTasksWaitingCleanUp k2 = uxDeletedTasksWaitingCleanUp (k1\<lparr>pxCurrentTCB := new\<rparr>) + 1"
    "uxCurrentNumberOfTasks k2 = uxCurrentNumberOfTasks (k1\<lparr>pxCurrentTCB := new\<rparr>)"
    by (rule vTaskDelete_self [OF i]) blast
  have st: "tcbAlloc (tcb k1 new) = tskDYNAMICALLY_ALLOCATED_STACK_AND_TCB" "pxStack (tcb k1 new) = stack"
    "pxTaskCode (tcb k1 new) = code" "pvParameters (tcb k1 new) = params"
    by (simp_all add: k1(9) new_tcb_def empty_TCB_def)
  have "container k2 (StateItem u) = Some xTasksWaitingTermination \<longleftrightarrow> u = new" for u
    using k2(3) k1(15) d0 by (simp add: doomed_def)
  then have "doomed {new} k2"
    using k2 k1(6,8,13,16) d0 st(1,2) by (simp add: doomed_def)
  moreover have "heap_inv (heap k2)" using k1(2) k2(5) by (simp add: in_task_def sound_def)
  moreover have "ready k2 u" if "u \<noteq> new" "ready k u" for u using that k1(14) k2(3) by (simp add: ready_def)
  ultimately show ?thesis
    by (intro that [OF k1(1,10) st(3,4) k2(1,2), of stack b a]) (use k1(4,6,7,13) k2(4,5,7) st(2) in simp_all)
qed

lemma owned_size: "(p, n) \<in> heap_owned h \<Longrightarrow> (p, m) \<in> heap_owned h \<Longrightarrow> n = m"
  using heap_owned_disjoint [of p n h p m] by fastforce

lemma owned_restored:
  assumes sub: "H3 \<subseteq> H2" "H2 = insert (n, b) (insert (s, a) H)" "n \<notin> fst ` H" "s \<notin> fst ` H" "fst ` H3 = fst ` H"
    and fn: "\<And>p x y. (p, x) \<in> H2 \<Longrightarrow> (p, y) \<in> H2 \<Longrightarrow> x = y"
  shows "H3 = H"
proof (rule subset_antisym)
  show "H3 \<subseteq> H"
  proof
    fix x assume x: "x \<in> H3"
    then have "fst x \<in> fst ` H" unfolding assms(5) [symmetric] by simp
    then have "fst x \<noteq> n" "fst x \<noteq> s" using assms(3,4) by blast+
    then show "x \<in> H" using x sub(1,2) by auto
  qed
  show "H \<subseteq> H3"
  proof
    fix x assume x: "x \<in> H"
    then obtain y where y: "(fst x, y) \<in> H3" using assms(5) by (metis (no_types, lifting) image_iff prod.collapse)
    have "(fst x, y) \<in> H2" "(fst x, snd x) \<in> H2" using y x sub(1,2) by auto
    then show "x \<in> H3" using fn y by (metis prod.collapse)
  qed
qed

text \<open>
  C17: The life cycle of a task leaks no memory. When a running task creates a task with enough heap,
  the call succeeds and the new task is ready at its priority with the given entry point and
  argument; once it runs and deletes itself (\<^verbatim>\<open>vTaskDelete( NULL )\<close>), and the idle task has run its
  clean-up loop, the heap hands out exactly the same blocks as before the creation, the number of
  tasks is the old one, and every task that was ready still is.
\<close>

theorem task_lifecycle_leaks_nothing:
  assumes "in_task k" "uxSchedulerSuspended k = 0" "doomed {} k" "priority < configMAX_PRIORITIES"
    "16 < dep" "dep * 4 < 2 ^ 32" "0 < adjusted_size (dep * 4)"
    "has_room (heap k) (adjusted_size (dep * 4) + (adjusted_size sizeof_TCB + r))" "heapMINIMUM_BLOCK_SIZE < r"
  shows "\<exists>new k1 k2 k3. xTaskCreate code name dep params priority k = Some (new, k1) \<and> new \<noteq> 0 \<and>
    container k1 (StateItem new) = Some (pxReadyTasksLists priority) \<and> pxTaskCode (tcb k1 new) = code \<and> pvParameters (tcb k1 new) = params \<and>
    vTaskDelete 0 (k1\<lparr>pxCurrentTCB := new\<rparr>) = Some k2 \<and> container k2 (StateItem new) = Some xTasksWaitingTermination \<and>
    prvCheckTasksWaitingTermination k2 = Some k3 \<and> sched_inv k3 \<and> heap_inv (heap k3) \<and>
    heap_owned (heap k3) = heap_owned (heap k) \<and> uxCurrentNumberOfTasks k3 = uxCurrentNumberOfTasks k \<and>
    (\<forall>u. u \<noteq> new \<and> ready k u \<longrightarrow> ready k3 u)"
proof -
  obtain new stack a b k1 k2 where k2: "xTaskCreate code name dep params priority k = Some (new, k1)"
    "container k1 (StateItem new) = Some (pxReadyTasksLists priority)" "pxTaskCode (tcb k1 new) = code" "pvParameters (tcb k1 new) = params"
    "vTaskDelete 0 (k1\<lparr>pxCurrentTCB := new\<rparr>) = Some k2" "sched_inv k2" "heap_inv (heap k2)" "doomed {new} k2" "pxStack (tcb k2 new) = stack"
    "heap_owned (heap k2) = insert (new, b) (insert (stack, a) (heap_owned (heap k)))" "stack \<notin> live k" "new \<notin> live k"
    "uxCurrentNumberOfTasks k2 = uxCurrentNumberOfTasks k + 1" "\<forall>u. u \<noteq> new \<longrightarrow> ready k u \<longrightarrow> ready k2 u"
    by (rule create_delete_doomed [OF assms]) blast
  obtain k3 where k3: "prvCheckTasksWaitingTermination k2 = Some k3" "sched_inv k3" "heap_inv (heap k3)"
    "live k3 = live k2 - task_blocks {new} k2" "heap_owned (heap k3) \<subseteq> heap_owned (heap k2)"
    "uxCurrentNumberOfTasks k3 = uxCurrentNumberOfTasks k2 - card {new}" "\<forall>u. ready k2 u \<longrightarrow> ready k3 u"
    using idle_loop [OF k2(6-8)] by blast
  have l2: "live k2 = insert new (insert stack (live k))" unfolding k2(10) by simp
  have l3: "live k3 = live k" unfolding k3(4) l2 task_blocks_def k2(9) using k2(9,11,12) by simp
  have "heap_owned (heap k3) = heap_owned (heap k)"
    by (rule owned_restored [OF k3(5) k2(10,12,11) l3]) (rule owned_size)
  moreover have c2: "container k2 (StateItem new) = Some xTasksWaitingTermination" using k2(8) unfolding doomed_def by blast
  moreover have "new \<noteq> 0" using c2 core_invD(3) [OF k2(6), of "StateItem new"] by (cases "new = 0") simp_all
  ultimately show ?thesis using k2 k3 by (intro exI [of _ new] exI [of _ k1] exI [of _ k2] exI [of _ k3]) simp
qed

text \<open>A concrete state: the three tasks of \<open>demo\<close>, with a fresh heap of 100 KiB at the address 8192.\<close>

definition demo_heap :: heap4 where
  "demo_heap = boot_heap 8192"

lemma demo_room: "n \<le> 102392 \<Longrightarrow> has_room demo_heap n"
  using prvHeapInit_rep [of demo_heap] unfolding has_room_def
  by (auto simp: demo_heap_def boot_heap_def heap_start_def heap_end_def configTOTAL_HEAP_SIZE_def)

lemma demo_heap_inv: "heap_inv demo_heap" "heap_owned demo_heap = {}"
  by (auto simp: heap_inv_def heap_owned_def heap_rep_def boot_heap_def demo_heap_def)

lemma demo_deleted: "uxDeletedTasksWaitingCleanUp demo = 0"
  by (simp add: demo_def boot_sched_def)

lemma demo_in_task:
  assumes "lists k = lists demo" "tcb k = tcb demo" "pxCurrentTCB k = 1000" "heap k = demo_heap"
    "uxCurrentNumberOfTasks k = 3" "xSchedulerRunning k" "sched_inv k"
  shows "in_task k" "uxDeletedTasksWaitingCleanUp k = 0 \<Longrightarrow> doomed {} k"
proof -
  have "vacant k a" if "8192 \<le> a" for a
    using that demo_other_lists by (simp add: vacant_def assms(1))
  then have "objects_live k" by (simp add: objects_live_def assms(4)) (simp add: demo_heap_def boot_heap_def)
  then show "in_task k"
    using assms demo_running demo_heap_inv(1) by (simp add: in_task_def sound_def running_ready_def)
  show "doomed {} k" if "uxDeletedTasksWaitingCleanUp k = 0" using that by (simp add: doomed_def assms)
qed

lemma demo_create:
  shows "in_task (demo\<lparr>heap := demo_heap\<rparr>)" "uxSchedulerSuspended (demo\<lparr>heap := demo_heap\<rparr>) = 0" "doomed {} (demo\<lparr>heap := demo_heap\<rparr>)"
    "2 < configMAX_PRIORITIES" "16 < (128 :: nat)" "128 * 4 < (2 :: nat) ^ 32" "0 < adjusted_size (128 * 4)"
    "has_room (heap (demo\<lparr>heap := demo_heap\<rparr>)) (adjusted_size (128 * 4) + (adjusted_size sizeof_TCB + 100))" "heapMINIMUM_BLOCK_SIZE < 100"
proof -
  let ?k = "demo\<lparr>heap := demo_heap\<rparr>"
  show "in_task ?k" "doomed {} ?k"
    by (rule demo_in_task; use demo_inv in \<open>simp add: demo_deleted\<close>)+
  have sz: "adjusted_size 512 = 520" "adjusted_size sizeof_TCB = 112"
    by (simp_all add: adjusted_size_def sizeof_TCB_def heap_defs cfg_defs)
  show "0 < adjusted_size (128 * 4)" "has_room (heap ?k) (adjusted_size (128 * 4) + (adjusted_size sizeof_TCB + 100))"
    using demo_room by (simp_all add: sz)
qed (simp_all add: configMAX_PRIORITIES_def heapMINIMUM_BLOCK_SIZE_def xHeapStructSize_def)

theorem task_lifecycle_leaks_nothing_witness:
  "\<exists>new k1 k2 k3. xTaskCreate 7 ''worker'' 128 9 2 (demo\<lparr>heap := demo_heap\<rparr>) = Some (new, k1) \<and> new \<noteq> 0 \<and>
    vTaskDelete 0 (k1\<lparr>pxCurrentTCB := new\<rparr>) = Some k2 \<and> prvCheckTasksWaitingTermination k2 = Some k3 \<and>
    heap_owned (heap k3) = {} \<and> uxCurrentNumberOfTasks k3 = 3"
proof -
  have "heap_owned (heap (demo\<lparr>heap := demo_heap\<rparr>)) = {}" "uxCurrentNumberOfTasks (demo\<lparr>heap := demo_heap\<rparr>) = 3"
    by (simp_all add: demo_heap_inv)
  then show ?thesis using task_lifecycle_leaks_nothing [OF demo_create, of 7 "''worker''" 9] by metis
qed

theorem idle_reclaims_deleted_witness:
  "\<exists>k new k'. uxDeletedTasksWaitingCleanUp k = 1 \<and> container k (StateItem new) = Some xTasksWaitingTermination \<and>
    prvCheckTasksWaitingTermination (k :: sched) = Some k' \<and> uxDeletedTasksWaitingCleanUp k' = 0 \<and> new \<in> live k \<and> new \<notin> live k'"
proof -
  obtain new and k2 :: sched where k2: "sched_inv k2" "heap_inv (heap k2)" "doomed {new} k2"
    by (rule create_delete_doomed [OF demo_create, of 0 "[]" 0]) blast
  obtain k' where "prvCheckTasksWaitingTermination k2 = Some k'" "uxDeletedTasksWaitingCleanUp k' = 0"
    "live k' = live k2 - task_blocks {new} k2"
    using idle_reclaims_deleted [OF k2] by blast
  then show ?thesis using k2(3) by (intro exI [of _ k2] exI [of _ new] exI [of _ k']) (simp add: doomed_def task_blocks_def)
qed

end
