(* ===== verification/Posix_Shim.thy ===== *)
theory Posix_Shim
  imports FR_Create
begin

text \<open>
  \<^verbatim>\<open>posix_shim.c\<close>: POSIX threads, mutexes, semaphores and sleeping on the kernel's tasks, mutexes,
  counting semaphores and delays. The state extends the kernel's by the thread descriptors
  (\<^verbatim>\<open>posix_thread_t\<close>, by address), the head of the registry \<^verbatim>\<open>g_thread_list\<close>, and the caller's one-word
  variables that hold handles and exit values (\<open>var\<close>, by address).

  Results are the C return values: 0 for success and -1 for an error. A function that waits is cut where
  the kernel function it calls is cut: \<open>_entry\<close> up to the first attempt, \<open>_try\<close> for an attempt and
  \<open>_block\<close> for the waiting; the handle that the function read is handed on from part to part.
\<close>

section \<open>State\<close>

record posix_thread_t =
  xTask :: addr
  start_routine :: addr
  arg :: addr
  retval :: addr
  join_sem :: addr
  detached :: bool
  next_thread :: addr

record shim = kernel +
  threads :: "addr \<Rightarrow> posix_thread_t"
  g_thread_list :: addr
  var :: "addr \<Rightarrow> addr"

definition sizeof_posix_thread :: nat where
  "sizeof_posix_thread = 28"

definition upd_thread :: "addr \<Rightarrow> (posix_thread_t \<Rightarrow> posix_thread_t) \<Rightarrow> 'a shim_scheme \<Rightarrow> 'a shim_scheme" where
  "upd_thread t f s = s\<lparr>threads := (threads s)(t := f (threads s t))\<rparr>"

definition set_var :: "addr \<Rightarrow> addr \<Rightarrow> 'a shim_scheme \<Rightarrow> 'a shim_scheme" where
  "set_var p v s = s\<lparr>var := (var s)(p := v)\<rparr>"

text \<open>A call has finished with a value, or goes on with the handle and the frame of the kernel call.\<close>

datatype 'r progress = Finished 'r | Waiting addr wait_frame

section \<open>The thread registry\<close>

definition add_thread :: "addr \<Rightarrow> 'a shim_scheme \<Rightarrow> 'a shim_scheme" where
  "add_thread t s =
     (let s = upd_thread t (\<lambda>x. x\<lparr>next_thread := g_thread_list s\<rparr>) s
      in s\<lparr>g_thread_list := t\<rparr>)"

partial_function (option) find_loop :: "addr \<Rightarrow> 'a shim_scheme \<Rightarrow> addr \<Rightarrow> addr option" where
  "find_loop task s cur =
     (if cur \<noteq> 0 then
        if xTask (threads s cur) = task then Some cur
        else find_loop task s (next_thread (threads s cur))
      else Some cur)"

definition find_thread :: "addr \<Rightarrow> 'a shim_scheme \<Rightarrow> addr option" where
  "find_thread task s = find_loop task s (g_thread_list s)"

text \<open>The pointers that \<^verbatim>\<open>remove_thread\<close> walks along: the list head, or the link field of a node.\<close>

datatype link = HeadPtr | NextPtr addr

fun deref :: "link \<Rightarrow> 'a shim_scheme \<Rightarrow> addr" where
  "deref HeadPtr s = g_thread_list s"
| "deref (NextPtr a) s = next_thread (threads s a)"

fun assign :: "link \<Rightarrow> addr \<Rightarrow> 'a shim_scheme \<Rightarrow> 'a shim_scheme" where
  "assign HeadPtr v s = s\<lparr>g_thread_list := v\<rparr>"
| "assign (NextPtr a) v s = upd_thread a (\<lambda>x. x\<lparr>next_thread := v\<rparr>) s"

partial_function (option) remove_loop :: "addr \<Rightarrow> 'a shim_scheme \<Rightarrow> link \<Rightarrow> 'a shim_scheme option" where
  "remove_loop t s cur =
     (if deref cur s \<noteq> 0 then
        if deref cur s = t then Some (assign cur (next_thread (threads s t)) s)
        else remove_loop t s (NextPtr (deref cur s))
      else Some s)"

definition remove_thread :: "addr \<Rightarrow> 'a shim_scheme \<Rightarrow> 'a shim_scheme option" where
  "remove_thread t s = remove_loop t s HeadPtr"

section \<open>Threads\<close>

definition xSemaphoreCreateBinary :: "'a kernel_scheme \<Rightarrow> (addr \<times> 'a kernel_scheme) option" where
  "xSemaphoreCreateBinary k = xQueueGenericCreate 1 0 k"

definition xSemaphoreGive :: "addr \<Rightarrow> 'a kernel_scheme \<Rightarrow> (bool \<times> 'a kernel_scheme) option" where
  "xSemaphoreGive q k = xQueueGenericSend_nowait q 0 queueSEND_TO_BACK k"

text \<open>\<open>wrapper\<close> is the code address of \<^verbatim>\<open>posix_thread_wrapper\<close>.\<close>

definition pthread_create ::
  "addr \<Rightarrow> addr \<Rightarrow> addr \<Rightarrow> addr \<Rightarrow> 'a shim_scheme \<Rightarrow> (int \<times> 'a shim_scheme) option" where
  "pthread_create wrapper thread start a s =
     (if thread = 0 \<or> start = 0 then Some (- 1, s) else do {
        (t, s) \<leftarrow> pvPortMalloc sizeof_posix_thread s;
        if t = 0 then Some (- 1, s) else do {
          let s = upd_thread t (\<lambda>x. x\<lparr>start_routine := start, arg := a, retval := 0, detached := False\<rparr>) s;
          (sem, s) \<leftarrow> xSemaphoreCreateBinary s;
          let s = upd_thread t (\<lambda>x. x\<lparr>join_sem := sem\<rparr>) s;
          if sem = 0 then do { s \<leftarrow> vPortFree t s; Some (- 1, s) } else do {
            let s = vTaskSuspendAll s;
            (new, s) \<leftarrow> xTaskCreate wrapper ''POSIX_Thread'' 1024 t (tskIDLE_PRIORITY + 1) s;
            if new = 0 then do {
              (_, s) \<leftarrow> xTaskResumeAll s;
              s \<leftarrow> vQueueDelete (join_sem (threads s t)) s;
              s \<leftarrow> vPortFree t s;
              Some (- 1, s)
            } else do {
              let s = upd_thread t (\<lambda>x. x\<lparr>xTask := new\<rparr>) s;
              let s = add_thread t s;
              let s = set_var thread t s;
              (_, s) \<leftarrow> xTaskResumeAll s;
              Some (0, s)
            }
          }
        }
      })"

definition pthread_join_entry :: "addr \<Rightarrow> 'a shim_scheme \<Rightarrow> int progress option" where
  "pthread_join_entry t s =
     (if t = 0 then Some (Finished (- 1))
      else map_option (Waiting (join_sem (threads s t))) (xQueueSemaphoreTake_entry (join_sem (threads s t)) portMAX_DELAY s))"

text \<open>What \<^verbatim>\<open>pthread_join\<close> does once it has the semaphore.\<close>

definition pthread_join_reap :: "addr \<Rightarrow> addr \<Rightarrow> 'a shim_scheme \<Rightarrow> 'a shim_scheme option" where
  "pthread_join_reap t p s = do {
     let s = (if p \<noteq> 0 then set_var p (retval (threads s t)) s else s);
     s \<leftarrow> remove_thread t s;
     s \<leftarrow> vQueueDelete (join_sem (threads s t)) s;
     vPortFree t s
   }"

definition join_outcome :: "addr \<Rightarrow> addr \<Rightarrow> addr \<Rightarrow> attempt \<times> 'a shim_scheme \<Rightarrow> (int progress \<times> 'a shim_scheme) option" where
  "join_outcome t p q = (\<lambda>(a, s). case a of
     Return True \<Rightarrow> map_option (Pair (Finished 0)) (pthread_join_reap t p s)
   | Return False \<Rightarrow> Some (Finished (- 1), s)
   | Again fr \<Rightarrow> Some (Waiting q fr, s))"

definition pthread_join_try ::
  "addr \<Rightarrow> addr \<Rightarrow> addr \<Rightarrow> wait_frame \<Rightarrow> 'a shim_scheme \<Rightarrow> (int progress \<times> 'a shim_scheme) option" where
  "pthread_join_try t p q fr s = xQueueSemaphoreTake_try q fr s \<bind> join_outcome t p q"

definition pthread_join_block ::
  "addr \<Rightarrow> addr \<Rightarrow> addr \<Rightarrow> wait_frame \<Rightarrow> 'a shim_scheme \<Rightarrow> (int progress \<times> 'a shim_scheme) option" where
  "pthread_join_block t p q fr s = xQueueSemaphoreTake_block q fr s \<bind> join_outcome t p q"

definition pthread_exit :: "addr \<Rightarrow> 'a shim_scheme \<Rightarrow> 'a shim_scheme option" where
  "pthread_exit v s = do {
     t \<leftarrow> find_thread (pxCurrentTCB s) s;
     s \<leftarrow> (if t \<noteq> 0 then do {
            let s = upd_thread t (\<lambda>x. x\<lparr>retval := v\<rparr>) s;
            if detached (threads s t) then do {
              s \<leftarrow> remove_thread t s;
              s \<leftarrow> vQueueDelete (join_sem (threads s t)) s;
              vPortFree t s
            }
            else map_option snd (xSemaphoreGive (join_sem (threads s t)) s)
          } else Some s);
     vTaskDelete 0 s
   }"

text \<open>\<open>user\<close> is the code of the application: what a routine returns for an argument, and its effect.\<close>

definition posix_thread_wrapper ::
  "(addr \<Rightarrow> addr \<Rightarrow> 'a shim_scheme \<Rightarrow> (addr \<times> 'a shim_scheme) option) \<Rightarrow> addr \<Rightarrow> 'a shim_scheme \<Rightarrow> 'a shim_scheme option" where
  "posix_thread_wrapper user t s = do {
     (v, s) \<leftarrow> user (start_routine (threads s t)) (arg (threads s t)) s;
     pthread_exit v s
   }"

definition pthread_detach :: "addr \<Rightarrow> 'a shim_scheme \<Rightarrow> int \<times> 'a shim_scheme" where
  "pthread_detach t s = (if t = 0 then (- 1, s) else (0, upd_thread t (\<lambda>x. x\<lparr>detached := True\<rparr>) s))"

definition pthread_self :: "'a shim_scheme \<Rightarrow> addr option" where
  "pthread_self s = find_thread (pxCurrentTCB s) s"

section \<open>Mutexes\<close>

definition pthread_mutex_init :: "addr \<Rightarrow> 'a shim_scheme \<Rightarrow> (int \<times> 'a shim_scheme) option" where
  "pthread_mutex_init m s =
     (if m = 0 then Some (- 1, s) else do {
        (q, s) \<leftarrow> xQueueCreateMutex s;
        Some (if q = 0 then (- 1, s) else (0, set_var m q s))
      })"

text \<open>The handle that a mutex or semaphore variable holds; a NULL pointer or a NULL handle is an error.\<close>

definition lock_entry :: "addr \<Rightarrow> 'a shim_scheme \<Rightarrow> int progress option" where
  "lock_entry m s =
     (if m = 0 then Some (Finished (- 1))
      else if var s m = 0 then Some (Finished (- 1))
      else map_option (Waiting (var s m)) (xQueueSemaphoreTake_entry (var s m) portMAX_DELAY s))"

fun lock_outcome :: "addr \<Rightarrow> attempt \<times> 'a shim_scheme \<Rightarrow> int progress \<times> 'a shim_scheme" where
  "lock_outcome q (Return b, s) = (Finished (if b then 0 else - 1), s)"
| "lock_outcome q (Again fr, s) = (Waiting q fr, s)"

definition lock_try :: "addr \<Rightarrow> wait_frame \<Rightarrow> 'a shim_scheme \<Rightarrow> (int progress \<times> 'a shim_scheme) option" where
  "lock_try q fr s = map_option (lock_outcome q) (xQueueSemaphoreTake_try q fr s)"

definition lock_block :: "addr \<Rightarrow> wait_frame \<Rightarrow> 'a shim_scheme \<Rightarrow> (int progress \<times> 'a shim_scheme) option" where
  "lock_block q fr s = map_option (lock_outcome q) (xQueueSemaphoreTake_block q fr s)"

definition pthread_mutex_lock_entry :: "addr \<Rightarrow> 'a shim_scheme \<Rightarrow> int progress option" where
  "pthread_mutex_lock_entry = lock_entry"

definition pthread_mutex_lock_try :: "addr \<Rightarrow> wait_frame \<Rightarrow> 'a shim_scheme \<Rightarrow> (int progress \<times> 'a shim_scheme) option" where
  "pthread_mutex_lock_try = lock_try"

definition pthread_mutex_lock_block :: "addr \<Rightarrow> wait_frame \<Rightarrow> 'a shim_scheme \<Rightarrow> (int progress \<times> 'a shim_scheme) option" where
  "pthread_mutex_lock_block = lock_block"

definition pthread_mutex_unlock :: "addr \<Rightarrow> 'a shim_scheme \<Rightarrow> (int \<times> 'a shim_scheme) option" where
  "pthread_mutex_unlock m s =
     (if m = 0 then Some (- 1, s)
      else if var s m = 0 then Some (- 1, s)
      else do {
        (b, s) \<leftarrow> xSemaphoreGive (var s m) s;
        Some (if b then 0 else - 1, s)
      })"

definition pthread_mutex_destroy :: "addr \<Rightarrow> 'a shim_scheme \<Rightarrow> (int \<times> 'a shim_scheme) option" where
  "pthread_mutex_destroy m s =
     (if m = 0 then Some (- 1, s)
      else do {
        s \<leftarrow> (if var s m \<noteq> 0 then map_option (set_var m 0) (vQueueDelete (var s m) s) else Some s);
        Some (0, s)
      })"

section \<open>Sleeping\<close>

text \<open>Both return 0 when the delay is over.\<close>

definition sleep_ticks :: "u32 \<Rightarrow> TickType_t" where
  "sleep_ticks seconds = pdMS_TO_TICKS (seconds * 1000)"

definition sleep :: "u32 \<Rightarrow> 'a shim_scheme \<Rightarrow> 'a shim_scheme option" where
  "sleep seconds s = vTaskDelay (sleep_ticks seconds) s"

definition usleep_ticks :: "u32 \<Rightarrow> TickType_t" where
  "usleep_ticks useconds =
     (let ticks = pdMS_TO_TICKS (useconds div 1000)
      in if ticks = 0 \<and> useconds > 0 then 1 else ticks)"

definition usleep :: "u32 \<Rightarrow> 'a shim_scheme \<Rightarrow> 'a shim_scheme option" where
  "usleep useconds s = vTaskDelay (usleep_ticks useconds) s"

section \<open>Semaphores\<close>

definition sem_init :: "addr \<Rightarrow> nat \<Rightarrow> 'a shim_scheme \<Rightarrow> (int \<times> 'a shim_scheme) option" where
  "sem_init sem v s =
     (if sem = 0 then Some (- 1, s) else do {
        (q, s) \<leftarrow> xQueueCreateCountingSemaphore 65535 v s;
        Some (if q = 0 then (- 1, s) else (0, set_var sem q s))
      })"

definition sem_wait_entry :: "addr \<Rightarrow> 'a shim_scheme \<Rightarrow> int progress option" where
  "sem_wait_entry = lock_entry"

definition sem_wait_try :: "addr \<Rightarrow> wait_frame \<Rightarrow> 'a shim_scheme \<Rightarrow> (int progress \<times> 'a shim_scheme) option" where
  "sem_wait_try = lock_try"

definition sem_wait_block :: "addr \<Rightarrow> wait_frame \<Rightarrow> 'a shim_scheme \<Rightarrow> (int progress \<times> 'a shim_scheme) option" where
  "sem_wait_block = lock_block"

definition sem_post :: "addr \<Rightarrow> 'a shim_scheme \<Rightarrow> (int \<times> 'a shim_scheme) option" where
  "sem_post sem s =
     (if sem = 0 then Some (- 1, s)
      else if var s sem = 0 then Some (- 1, s)
      else do {
        (b, s) \<leftarrow> xSemaphoreGive (var s sem) s;
        Some (if b then 0 else - 1, s)
      })"

definition sem_destroy :: "addr \<Rightarrow> 'a shim_scheme \<Rightarrow> (int \<times> 'a shim_scheme) option" where
  "sem_destroy sem s =
     (if sem = 0 then Some (- 1, s)
      else do {
        s \<leftarrow> (if var s sem \<noteq> 0 then map_option (set_var sem 0) (vQueueDelete (var s sem) s) else Some s);
        Some (0, s)
      })"

end
