(* ===== verification/Sys_Arch.thy ===== *)
theory Sys_Arch
  imports FR_Port Posix_Shim
begin

text \<open>
  \<^verbatim>\<open>sys_arch.c\<close>: the operating system layer of the network stack on the kernel. The variables that hold
  semaphore, mutex and mailbox handles (\<^verbatim>\<open>sys_sem_t *\<close> and the like) are one-word variables of the state
  (\<open>var\<close>, by address). A mailbox is a queue of pointers: the parameter \<open>argp\<close> is the address of the
  argument \<^verbatim>\<open>msg\<close> on the caller's stack that \<^verbatim>\<open>&msg\<close> denotes, \<open>dummy\<close> the address of the local
  variable of that name, and the four bytes of the pointer are in the byte memory.

  The waiting functions are cut as the kernel functions they call, with the tick count at their start
  and the handle they read handed on.
\<close>

datatype err_t = ERR_OK | ERR_MEM

definition SYS_ARCH_TIMEOUT :: u32 where
  "SYS_ARCH_TIMEOUT = 0xffffffff"

definition SYS_MBOX_EMPTY :: u32 where
  "SYS_MBOX_EMPTY = SYS_ARCH_TIMEOUT"

definition sys_init :: "'a shim_scheme \<Rightarrow> 'a shim_scheme" where
  "sys_init s = s"

text \<open>The common end of the three creation functions: store the handle and name it in the registry.\<close>

definition sys_register :: "addr \<Rightarrow> string \<Rightarrow> addr \<times> 'a shim_scheme \<Rightarrow> (err_t \<times> 'a shim_scheme) option" where
  "sys_register p name = (\<lambda>(q, s). do {
     let s = set_var p q s;
     s \<leftarrow> (if var s p \<noteq> 0 then vQueueAddToRegistry (var s p) (Some name) s else Some s);
     Some (if var s p \<noteq> 0 then ERR_OK else ERR_MEM, s)
   })"

text \<open>The common deletion.\<close>

definition sys_free :: "addr \<Rightarrow> 'a shim_scheme \<Rightarrow> 'a shim_scheme option" where
  "sys_free p s = (if p \<noteq> 0 \<and> var s p \<noteq> 0 then map_option (set_var p 0) (vQueueDelete (var s p) s) else Some s)"

definition sys_valid :: "addr \<Rightarrow> 'a shim_scheme \<Rightarrow> bool" where
  "sys_valid p s \<longleftrightarrow> p \<noteq> 0 \<and> var s p \<noteq> 0"

definition sys_set_invalid :: "addr \<Rightarrow> 'a shim_scheme \<Rightarrow> 'a shim_scheme" where
  "sys_set_invalid p s = (if p \<noteq> 0 then set_var p 0 s else s)"

section \<open>Waiting times\<close>

text \<open>A time-out of 0 waits for ever; another is converted to at least one tick.\<close>

definition wait_ticks :: "u32 \<Rightarrow> TickType_t" where
  "wait_ticks timeout =
     (if timeout = 0 then portMAX_DELAY
      else let timeout_ticks = pdMS_TO_TICKS timeout in if timeout_ticks = 0 then 1 else timeout_ticks)"

text \<open>What the kernel call returned, as the milliseconds that passed or as a time-out.\<close>

fun wait_outcome :: "TickType_t \<Rightarrow> addr \<Rightarrow> attempt \<times> 'a shim_scheme \<Rightarrow> u32 progress \<times> 'a shim_scheme" where
  "wait_outcome start q (Return b, s) =
     (Finished (if b then (xTaskGetTickCount s - start) * portTICK_PERIOD_MS else SYS_ARCH_TIMEOUT), s)"
| "wait_outcome start q (Again fr, s) = (Waiting q fr, s)"

section \<open>Semaphores\<close>

definition sys_sem_new :: "addr \<Rightarrow> u8 \<Rightarrow> 'a shim_scheme \<Rightarrow> (err_t \<times> 'a shim_scheme) option" where
  "sys_sem_new sem count s = xQueueCreateCountingSemaphore 65535 (unat count) s \<bind> sys_register sem ''lwip_sem''"

definition sys_sem_free :: "addr \<Rightarrow> 'a shim_scheme \<Rightarrow> 'a shim_scheme option" where
  "sys_sem_free = sys_free"

definition sys_sem_signal :: "addr \<Rightarrow> 'a shim_scheme \<Rightarrow> 'a shim_scheme option" where
  "sys_sem_signal sem s =
     (if sem \<noteq> 0 \<and> var s sem \<noteq> 0 then map_option snd (xSemaphoreGive (var s sem) s) else Some s)"

definition sys_arch_sem_wait_entry :: "addr \<Rightarrow> u32 \<Rightarrow> 'a shim_scheme \<Rightarrow> (TickType_t \<times> u32 progress) option" where
  "sys_arch_sem_wait_entry sem timeout s = do {
     let start_tick = xTaskGetTickCount s;
     fr \<leftarrow> xQueueSemaphoreTake_entry (var s sem) (wait_ticks timeout) s;
     Some (start_tick, Waiting (var s sem) fr)
   }"

definition sys_arch_sem_wait_try ::
  "TickType_t \<Rightarrow> addr \<Rightarrow> wait_frame \<Rightarrow> 'a shim_scheme \<Rightarrow> (u32 progress \<times> 'a shim_scheme) option" where
  "sys_arch_sem_wait_try start_tick q fr s = map_option (wait_outcome start_tick q) (xQueueSemaphoreTake_try q fr s)"

definition sys_arch_sem_wait_block ::
  "TickType_t \<Rightarrow> addr \<Rightarrow> wait_frame \<Rightarrow> 'a shim_scheme \<Rightarrow> (u32 progress \<times> 'a shim_scheme) option" where
  "sys_arch_sem_wait_block start_tick q fr s = map_option (wait_outcome start_tick q) (xQueueSemaphoreTake_block q fr s)"

definition sys_sem_valid :: "addr \<Rightarrow> 'a shim_scheme \<Rightarrow> bool" where
  "sys_sem_valid = sys_valid"

definition sys_sem_set_invalid :: "addr \<Rightarrow> 'a shim_scheme \<Rightarrow> 'a shim_scheme" where
  "sys_sem_set_invalid = sys_set_invalid"

section \<open>Mutexes\<close>

definition sys_mutex_new :: "addr \<Rightarrow> 'a shim_scheme \<Rightarrow> (err_t \<times> 'a shim_scheme) option" where
  "sys_mutex_new mutex s = xQueueCreateMutex s \<bind> sys_register mutex ''lwip_mutex''"

definition sys_mutex_free :: "addr \<Rightarrow> 'a shim_scheme \<Rightarrow> 'a shim_scheme option" where
  "sys_mutex_free = sys_free"

text \<open>\<^verbatim>\<open>sys_mutex_lock\<close> returns nothing, also when the take fails.\<close>

definition sys_mutex_lock_entry :: "addr \<Rightarrow> 'a shim_scheme \<Rightarrow> unit progress option" where
  "sys_mutex_lock_entry mutex s =
     (if mutex \<noteq> 0 \<and> var s mutex \<noteq> 0
      then map_option (Waiting (var s mutex)) (xQueueSemaphoreTake_entry (var s mutex) portMAX_DELAY s)
      else Some (Finished ()))"

fun void_outcome :: "addr \<Rightarrow> attempt \<times> 'a shim_scheme \<Rightarrow> unit progress \<times> 'a shim_scheme" where
  "void_outcome q (Return b, s) = (Finished (), s)"
| "void_outcome q (Again fr, s) = (Waiting q fr, s)"

definition sys_mutex_lock_try :: "addr \<Rightarrow> wait_frame \<Rightarrow> 'a shim_scheme \<Rightarrow> (unit progress \<times> 'a shim_scheme) option" where
  "sys_mutex_lock_try q fr s = map_option (void_outcome q) (xQueueSemaphoreTake_try q fr s)"

definition sys_mutex_lock_block :: "addr \<Rightarrow> wait_frame \<Rightarrow> 'a shim_scheme \<Rightarrow> (unit progress \<times> 'a shim_scheme) option" where
  "sys_mutex_lock_block q fr s = map_option (void_outcome q) (xQueueSemaphoreTake_block q fr s)"

definition sys_mutex_unlock :: "addr \<Rightarrow> 'a shim_scheme \<Rightarrow> 'a shim_scheme option" where
  "sys_mutex_unlock mutex s =
     (if mutex \<noteq> 0 \<and> var s mutex \<noteq> 0 then map_option snd (xSemaphoreGive (var s mutex) s) else Some s)"

definition sys_mutex_valid :: "addr \<Rightarrow> 'a shim_scheme \<Rightarrow> bool" where
  "sys_mutex_valid = sys_valid"

definition sys_mutex_set_invalid :: "addr \<Rightarrow> 'a shim_scheme \<Rightarrow> 'a shim_scheme" where
  "sys_mutex_set_invalid = sys_set_invalid"

section \<open>Mailboxes\<close>

text \<open>A negative size becomes a large unsigned length in the call.\<close>

definition sys_mbox_new :: "addr \<Rightarrow> int \<Rightarrow> 'a shim_scheme \<Rightarrow> (err_t \<times> 'a shim_scheme) option" where
  "sys_mbox_new mbox sz s = xQueueGenericCreate (unat (word_of_int sz :: u32)) 4 s \<bind> sys_register mbox ''lwip_mbox''"

definition sys_mbox_free :: "addr \<Rightarrow> 'a shim_scheme \<Rightarrow> 'a shim_scheme option" where
  "sys_mbox_free = sys_free"

definition put_argument :: "addr \<Rightarrow> addr \<Rightarrow> 'a shim_scheme \<Rightarrow> 'a shim_scheme" where
  "put_argument argp msg s = s\<lparr>mem := write_bytes argp (pointer_bytes msg) (mem s)\<rparr>"

definition sys_mbox_post_entry :: "addr \<Rightarrow> addr \<Rightarrow> addr \<Rightarrow> 'a shim_scheme \<Rightarrow> (unit progress \<times> 'a shim_scheme) option" where
  "sys_mbox_post_entry argp mbox msg s = do {
     let s = put_argument argp msg s;
     fr \<leftarrow> xQueueGenericSend_entry (var s mbox) argp portMAX_DELAY queueSEND_TO_BACK s;
     Some (Waiting (var s mbox) fr, s)
   }"

definition sys_mbox_post_try ::
  "addr \<Rightarrow> addr \<Rightarrow> wait_frame \<Rightarrow> 'a shim_scheme \<Rightarrow> (unit progress \<times> 'a shim_scheme) option" where
  "sys_mbox_post_try argp q fr s = map_option (void_outcome q) (xQueueGenericSend_try q argp queueSEND_TO_BACK fr s)"

definition sys_mbox_post_block ::
  "addr \<Rightarrow> wait_frame \<Rightarrow> 'a shim_scheme \<Rightarrow> (unit progress \<times> 'a shim_scheme) option" where
  "sys_mbox_post_block q fr s = map_option (void_outcome q) (xQueueGenericSend_block q fr s)"

definition sys_mbox_trypost :: "addr \<Rightarrow> addr \<Rightarrow> addr \<Rightarrow> 'a shim_scheme \<Rightarrow> (err_t \<times> 'a shim_scheme) option" where
  "sys_mbox_trypost argp mbox msg s = do {
     let s = put_argument argp msg s;
     (b, s) \<leftarrow> xQueueGenericSend_nowait (var s mbox) argp queueSEND_TO_BACK s;
     Some (if b then ERR_OK else ERR_MEM, s)
   }"

text \<open>The address that receives the message: a NULL \<^verbatim>\<open>msg\<close> is replaced by the local variable.\<close>

definition msg_target :: "addr \<Rightarrow> addr \<Rightarrow> addr" where
  "msg_target dummy msg = (if msg = 0 then dummy else msg)"

definition sys_arch_mbox_fetch_entry ::
  "addr \<Rightarrow> addr \<Rightarrow> addr \<Rightarrow> u32 \<Rightarrow> 'a shim_scheme \<Rightarrow> (TickType_t \<times> addr \<times> u32 progress) option" where
  "sys_arch_mbox_fetch_entry dummy mbox msg timeout s = do {
     let msg = msg_target dummy msg;
     let start_tick = xTaskGetTickCount s;
     fr \<leftarrow> xQueueReceive_entry (var s mbox) msg (wait_ticks timeout) s;
     Some (start_tick, msg, Waiting (var s mbox) fr)
   }"

definition sys_arch_mbox_fetch_try ::
  "TickType_t \<Rightarrow> addr \<Rightarrow> addr \<Rightarrow> wait_frame \<Rightarrow> 'a shim_scheme \<Rightarrow> (u32 progress \<times> 'a shim_scheme) option" where
  "sys_arch_mbox_fetch_try start_tick msg q fr s = map_option (wait_outcome start_tick q) (xQueueReceive_try q msg fr s)"

definition sys_arch_mbox_fetch_block ::
  "TickType_t \<Rightarrow> addr \<Rightarrow> wait_frame \<Rightarrow> 'a shim_scheme \<Rightarrow> (u32 progress \<times> 'a shim_scheme) option" where
  "sys_arch_mbox_fetch_block start_tick q fr s = map_option (wait_outcome start_tick q) (xQueueReceive_block q fr s)"

definition sys_arch_mbox_tryfetch :: "addr \<Rightarrow> addr \<Rightarrow> addr \<Rightarrow> 'a shim_scheme \<Rightarrow> (u32 \<times> 'a shim_scheme) option" where
  "sys_arch_mbox_tryfetch dummy mbox msg s = do {
     let msg = msg_target dummy msg;
     fr \<leftarrow> xQueueReceive_entry (var s mbox) msg 0 s;
     (a, s) \<leftarrow> xQueueReceive_try (var s mbox) msg fr s;
     case a of Return b \<Rightarrow> Some (if b then 0 else SYS_MBOX_EMPTY, s) | Again _ \<Rightarrow> None
   }"

definition sys_mbox_valid :: "addr \<Rightarrow> 'a shim_scheme \<Rightarrow> bool" where
  "sys_mbox_valid = sys_valid"

definition sys_mbox_set_invalid :: "addr \<Rightarrow> 'a shim_scheme \<Rightarrow> 'a shim_scheme" where
  "sys_mbox_set_invalid = sys_set_invalid"

section \<open>Threads, time and protection\<close>

definition sys_thread_new ::
  "string \<Rightarrow> addr \<Rightarrow> addr \<Rightarrow> int \<Rightarrow> int \<Rightarrow> 'a shim_scheme \<Rightarrow> (addr \<times> 'a shim_scheme) option" where
  "sys_thread_new name thread a stacksize priority s =
     xTaskCreate thread name (unat (word_of_int stacksize :: u32)) a (unat (word_of_int priority :: u32)) s"

definition sys_now :: "'a shim_scheme \<Rightarrow> u32" where
  "sys_now s = xTaskGetTickCount s * portTICK_PERIOD_MS"

definition sys_arch_protect :: "cpu \<Rightarrow> (u32 \<times> cpu) option" where
  "sys_arch_protect c = map_option (Pair 0) (vPortEnterCritical c)"

definition sys_arch_unprotect :: "u32 \<Rightarrow> cpu \<Rightarrow> cpu option" where
  "sys_arch_unprotect pval c = vPortExitCritical c"

end
