(* ===== verification/FR_Timeout.thy ===== *)
theory FR_Timeout
  imports FR_Queue_Block
begin

text \<open>
  Waiting with a time-out that nobody answers: the task blocks, wakes after exactly the time it asked
  for and returns the error.
\<close>

section \<open>The clock\<close>

text \<open>Only the tick changes the tick count and the count of its overflows.\<close>

definition same_clock :: "'a sched_scheme \<Rightarrow> 'a sched_scheme \<Rightarrow> bool" where
  "same_clock k k' \<longleftrightarrow> xTickCount k' = xTickCount k \<and> xNumOfOverflows k' = xNumOfOverflows k \<and>
     xPendedTicks k' = xPendedTicks k"

lemma same_clock_simps [simp]:
  "same_clock k k" "same_clock k (upd_lists f k') = same_clock k k'" "same_clock k (upd_tcb t g k') = same_clock k k'"
  "same_clock k (portYIELD k') = same_clock k k'" "same_clock k (prvAddTaskToReadyList t k') = same_clock k k'"
  "same_clock k (prvResetNextTaskUnblockTime k') = same_clock k k'"
  by (simp_all add: same_clock_def upd_lists_def upd_tcb_def portYIELD_def prvAddTaskToReadyList_def
      prvResetNextTaskUnblockTime_def Let_def)

lemma same_clock_remove: "listREMOVE_ITEM i k = Some k' \<Longrightarrow> same_clock k0 k' = same_clock k0 k"
  by (auto simp: listREMOVE_ITEM_def list_remove_def same_clock_def)

lemma same_clock_trans: "same_clock k k' \<Longrightarrow> same_clock k' k'' \<Longrightarrow> same_clock k k''"
  by (simp add: same_clock_def)

lemma pending_loop_clock:
  assumes "pending_loop b k = Some r"
  shows "same_clock k (snd r)"
proof (rule pending_loop.raw_induct [where P = "\<lambda>b k r. same_clock k (snd r)", OF _ assms], goal_cases)
  case (1 f b k r)
  show ?case
  proof (cases "items k xPendingReadyList")
    case Nil
    then show ?thesis using 1(2) by auto
  next
    case (Cons i rest)
    then obtain k1 k2 where r: "listREMOVE_ITEM (EventItem (owner i)) k = Some k1" "listREMOVE_ITEM (StateItem (owner i)) k1 = Some k2"
      "f True (let k = prvAddTaskToReadyList (owner i) k2 in
         if prio k (owner i) > prio k (pxCurrentTCB k) then k\<lparr>xYieldPending := True\<rparr> else k) = Some r"
      using 1(2) by (auto simp: bind_eq_Some_conv Let_def)
    have "same_clock k k2" using same_clock_remove [OF r(1)] same_clock_remove [OF r(2)] by simp
    then show ?thesis
      by (intro same_clock_trans [OF _ 1(1) [OF r(3)]]) (simp add: Let_def same_clock_def prvAddTaskToReadyList_def upd_lists_def)
  qed
qed

lemma resume_clock:
  assumes "xTaskResumeAll k = Some (y, k')" "xPendedTicks k = 0"
  shows "same_clock k k'"
proof -
  define k0 where "k0 = k\<lparr>uxSchedulerSuspended := uxSchedulerSuspended k - Suc 0\<rparr>"
  have c0: "same_clock k k0" "xPendedTicks k0 = 0" using assms(2) by (simp_all add: k0_def same_clock_def)
  show ?thesis
  proof (cases "uxSchedulerSuspended k0 = 0 \<and> uxCurrentNumberOfTasks k0 > 0")
    case False
    then have "k' = k0" using assms(1) by (auto simp: xTaskResumeAll_def k0_def [symmetric] bind_eq_Some_conv Let_def)
    then show ?thesis using c0 by simp
  next
    case True
    obtain b k1 where k1: "pending_loop False k0 = Some (b, k1)"
      using assms(1) True by (auto simp: xTaskResumeAll_def k0_def [symmetric] bind_eq_Some_conv Let_def)
    define k2 where "k2 = (if b then prvResetNextTaskUnblockTime k1 else k1)"
    have "same_clock k k1" using same_clock_trans [OF c0(1) pending_loop_clock [OF k1]] by simp
    then have k2: "same_clock k k2" by (simp add: k2_def)
    then have "xPendedTicks k2 = 0" using assms(2) by (simp add: same_clock_def)
    then have "k' = (if xYieldPending k2 then portYIELD k2 else k2)"
      using assms(1) True k1 by (simp add: xTaskResumeAll_def k0_def [symmetric] Let_def k2_def [symmetric] split: if_splits)
    then show ?thesis using k2 by simp
  qed
qed

text \<open>Leaving the locked queue when nothing happened meanwhile.\<close>

lemma quiet_exit:
  assumes inv: "sched_inv k" and s: "uxSchedulerSuspended k = Suc 0" "0 < uxCurrentNumberOfTasks k" "xPendedTicks k = 0"
    and l: "cTxLock (queues k q) = 0" "cRxLock (queues k q) = 0"
  obtains k' where "queue_exit r q k = Some k'" "sched_inv k'" "uxSchedulerSuspended k' = 0" "resume_frame (k\<lparr>queues := queues k'\<rparr>) k'"
    "same_clock k k'" "unblocks k k'"
    "queues k' = (queues k)(q := (queues k q)\<lparr>cTxLock := queueUNLOCKED, cRxLock := queueUNLOCKED\<rparr>)"
    "\<And>t. container k (EventItem t) \<noteq> Some xPendingReadyList \<Longrightarrow>
       container k' (StateItem t) = container k (StateItem t) \<and> container k' (EventItem t) = container k (EventItem t)"
proof -
  define k1 where "k1 = upd_queue q (\<lambda>Q. Q\<lparr>cRxLock := queueUNLOCKED\<rparr>) (upd_queue q (\<lambda>Q. Q\<lparr>cTxLock := queueUNLOCKED\<rparr>) k)"
  have un: "prvUnlockQueue q k = Some k1" using l by (simp add: prvUnlockQueue_def k1_def)
  have k1: "sched_inv k1" "uxSchedulerSuspended k1 = Suc 0" "0 < uxCurrentNumberOfTasks k1" "xPendedTicks k1 = 0" "lists k1 = lists k"
    "tcb k1 = tcb k" "same_clock k k1"
    "queues k1 = (queues k)(q := (queues k q)\<lparr>cTxLock := queueUNLOCKED, cRxLock := queueUNLOCKED\<rparr>)"
    using inv s by (simp_all add: k1_def same_clock_def)
  obtain y k2 where k2: "xTaskResumeAll k1 = Some (y, k2)" "sched_inv k2" "unblocks k1 k2" "resume_frame k1 k2"
    "uxSchedulerSuspended k2 = 0"
    "\<forall>t. xPendedTicks k1 = 0 \<longrightarrow> container k1 (EventItem t) \<noteq> Some xPendingReadyList \<longrightarrow>
       container k2 (StateItem t) = container k1 (StateItem t) \<and> container k2 (EventItem t) = container k1 (EventItem t)"
    by (rule xTaskResumeAll_inv [OF k1(1-3)]) blast
  define k' where "k' = (if r = Blocked \<and> \<not> y then portYIELD k2 else k2)"
  have sm: "sched.more k2 = sched.more k1" using k2(4) by (simp add: resume_frame_def)
  have q': "queues k' = queues k1" using more_kernel(1) [OF sm] by (simp add: k'_def portYIELD_def)
  have ex: "queue_exit r q k = Some k'" using un k2(1) by (simp add: queue_exit_def k'_def)
  show ?thesis
  proof (rule that [OF ex])
    show "sched_inv k'" "uxSchedulerSuspended k' = 0" using k2(2,5) by (simp_all add: k'_def portYIELD_def)
    show "same_clock k k'" using same_clock_trans [OF k1(7) resume_clock [OF k2(1) k1(4)]] by (simp add: k'_def)
    show "unblocks k k'" using k2(3) k1(5,6) by (simp add: k'_def portYIELD_def unblocks_def blocked_def)
    show "queues k' = (queues k)(q := (queues k q)\<lparr>cTxLock := queueUNLOCKED, cRxLock := queueUNLOCKED\<rparr>)" using q' k1(8) by simp
    show "container k' (StateItem t) = container k (StateItem t) \<and> container k' (EventItem t) = container k (EventItem t)"
      if "container k (EventItem t) \<noteq> Some xPendingReadyList" for t
      using k2(6) k1(4,5) that by (simp add: k'_def portYIELD_def)
    show "resume_frame (k\<lparr>queues := queues k'\<rparr>) k'"
      using k2(4) sm unfolding q' by (simp add: resume_frame_def k'_def portYIELD_def k1_def upd_queue_def)
  qed
qed

text \<open>A run of ticks: it returns, and the overflow counter counts the wraps of the tick count.\<close>

lemma overflow_step:
  fixes t :: TickType_t and v :: u32
  shows "v + (if t + 1 = 0 then 1 else 0) + of_nat ((unat (t + 1) + m) div 2 ^ 32) = v + of_nat ((unat t + Suc m) div 2 ^ 32)"
proof (cases "t + 1 = 0")
  case True
  then have "t = - 1" by (simp add: eq_neg_iff_add_eq_0)
  then have "unat t = 2 ^ 32 - 1" by (simp add: unsigned_minus_1_eq_mask mask_eq_exp_minus_1)
  then have "(unat t + Suc m) div 2 ^ 32 = 1 + m div 2 ^ 32" by simp
  then show ?thesis using True by simp
next
  case False
  then have "unat (t + 1) = Suc (unat t)" by (metis add.commute unatSuc)
  then show ?thesis using False by simp
qed

lemma ticks_run:
  assumes "sched_inv k" "uxSchedulerSuspended k = 0"
  obtains k' where "ticks m k = Some k'" "sched_inv k'" "tick_frame k k'" "xTickCount k' = xTickCount k + of_nat m"
    "xNumOfOverflows k' = xNumOfOverflows k + of_nat ((unat (xTickCount k) + m) div 2 ^ 32)"
proof -
  have "\<exists>k'. ticks m k = Some k' \<and> sched_inv k' \<and> tick_frame k k' \<and> xTickCount k' = xTickCount k + of_nat m \<and>
    xNumOfOverflows k' = xNumOfOverflows k + of_nat ((unat (xTickCount k) + m) div 2 ^ 32)"
    using assms
  proof (induction m arbitrary: k)
    case 0
    have "unat (xTickCount k) < 2 ^ 32" using unsigned_less [of "xTickCount k"] by simp
    then have "unat (xTickCount k) div 2 ^ 32 = 0" by simp
    then show ?case using 0 by (simp add: tick_frame_def)
  next
    case (Suc m)
    obtain b k1 where k1: "xTaskIncrementTick k = Some (b, k1)" "sched_inv k1" "xTickCount k1 = xTickCount k + 1" "tick_frame k k1"
      "xNumOfOverflows k1 = xNumOfOverflows k + (if xTickCount k + 1 = 0 then 1 else 0)"
      by (rule xTaskIncrementTick_inv [OF Suc.prems]) blast
    have "uxSchedulerSuspended k1 = 0" using k1(4) Suc.prems(2) by (simp add: tick_frame_def)
    then obtain k' where k': "ticks m k1 = Some k'" "sched_inv k'" "tick_frame k1 k'" "xTickCount k' = xTickCount k1 + of_nat m"
      "xNumOfOverflows k' = xNumOfOverflows k1 + of_nat ((unat (xTickCount k1) + m) div 2 ^ 32)"
      using Suc.IH [OF k1(2)] by blast
    have "tick_frame k k'" using k1(4) k'(3) by (simp add: tick_frame_def)
    moreover have "xNumOfOverflows k' = xNumOfOverflows k + of_nat ((unat (xTickCount k) + Suc m) div 2 ^ 32)"
      unfolding k'(5) k1(3,5) by (rule overflow_step)
    ultimately show ?case using k1(1,3) k'(1,2,4) by simp
  qed
  then show ?thesis using that by blast
qed

section \<open>Blocking for a time\<close>

text \<open>The receiver of an empty queue with a finite wait is in a delayed list, to wake when the wait is over.\<close>

lemma xQueueReceive_block_delays:
  fixes k :: "'a kernel_scheme"
  assumes k: "sched_inv k" "running_ready k" "uxSchedulerSuspended k = 0" "xPendedTicks k = 0" "0 < uxCurrentNumberOfTasks k"
    and q: "uxMessagesWaiting (queues k q) = 0" "unlocked (queues k q)"
    and fr: "check_time fr (queue_enter q k) = (False, fr', queue_enter q k)" "xTicksToWait fr' \<noteq> portMAX_DELAY"
  obtains k' where "xQueueReceive_block q fr k = Some (Again fr', k')" "sched_inv k'" "uxSchedulerSuspended k' = 0"
    "queues k' = queues k" "kernel.more k' = kernel.more k" "prio k' = prio k" "\<not> ucDelayAborted (tcb k' (pxCurrentTCB k))"
    "same_clock k k'" "uxCurrentNumberOfTasks k' = uxCurrentNumberOfTasks k" "pxCurrentTCB k' = pxCurrentTCB k"
    "delayed k' (pxCurrentTCB k)" "left_to_wait k' (pxCurrentTCB k) = unat (xTicksToWait fr')"
    "\<And>t p. t \<noteq> pxCurrentTCB k \<Longrightarrow> container k (StateItem t) = Some (pxReadyTasksLists p) \<Longrightarrow>
       container k' (StateItem t) = Some (pxReadyTasksLists p)"
proof -
  let ?c = "pxCurrentTCB k" and ?l = "xTasksWaitingToReceive q"
  define k0 where "k0 = queue_enter q k"
  have k0: "sched_inv k0" "running_ready k0" "uxMessagesWaiting (queues k0 q) = 0" "pxCurrentTCB k0 = ?c" "tcb k0 = tcb k"
    "lists k0 = lists k" "uxSchedulerSuspended k0 = Suc 0" "xPendedTicks k0 = 0" "kernel.more k0 = kernel.more k"
    "uxCurrentNumberOfTasks k0 = uxCurrentNumberOfTasks k" "same_clock k k0"
    "queues k0 = (queues k)(q := (queues k q)\<lparr>cRxLock := 0, cTxLock := 0\<rparr>)"
    using k q by (simp_all add: k0_def same_clock_def) (simp add: queue_enter_def prvLockQueue_def upd_queue_def vTaskSuspendAll_def)
  have w: "xTicksToWait fr' \<noteq> 0" by (rule check_time_going(2) [OF fr(1)])
  obtain k1 where k1: "vTaskPlaceOnEventList ?l (xTicksToWait fr') k0 = Some k1" "sched_inv k1"
    "tcb k1 = (tcb k0)(pxCurrentTCB k0 := (tcb k0 (pxCurrentTCB k0))\<lparr>ucDelayAborted := False\<rparr>)"
    "pxCurrentTCB k1 = pxCurrentTCB k0" "uxSchedulerSuspended k1 = uxSchedulerSuspended k0"
    "xPendedTicks k1 = xPendedTicks k0" "xTickCount k1 = xTickCount k0"
    "uxCurrentNumberOfTasks k1 = uxCurrentNumberOfTasks k0" "sched.more k1 = sched.more k0"
    "container k1 (EventItem (pxCurrentTCB k0)) = Some ?l"
    "xTicksToWait fr' \<noteq> portMAX_DELAY \<longrightarrow> delayed k1 (pxCurrentTCB k0) \<and> wake k1 (pxCurrentTCB k0) = xTickCount k0 + xTicksToWait fr'"
    "\<forall>j. owner j \<noteq> pxCurrentTCB k0 \<longrightarrow> container k1 j = container k0 j \<and> liValue (lists k1) j = liValue (lists k0) j"
    by (rule vTaskPlaceOnEventList_inv [OF k0(1,2) _ w, of ?l]) (simp, blast)
  have ov: "xNumOfOverflows k1 = xNumOfOverflows k0" using k1(1)
    by (auto simp: vTaskPlaceOnEventList_def prvAddCurrentTaskToDelayedList_def remove_reset_priority_def list_remove_def
        bind_eq_Some_conv Let_def upd_lists_def upd_tcb_def split: if_splits)
  note m1 = more_kernel [OF k1(9)]
  have wt: "xQueueReceive_wait q fr k0 = Some (Blocked, fr', k1)"
    using fr(1) k1(1) k0(3) by (simp add: xQueueReceive_wait_def k0_def [symmetric] prvIsQueueEmpty_def)
  have l1: "uxSchedulerSuspended k1 = Suc 0" "0 < uxCurrentNumberOfTasks k1" "xPendedTicks k1 = 0"
    "cTxLock (queues k1 q) = 0" "cRxLock (queues k1 q) = 0"
    using k1(5,6,8) k0 k(5) m1(1) by simp_all
  obtain k' where k': "queue_exit Blocked q k1 = Some k'" "sched_inv k'" "uxSchedulerSuspended k' = 0"
    "resume_frame (k1\<lparr>queues := queues k'\<rparr>) k'" "same_clock k1 k'" "unblocks k1 k'"
    "queues k' = (queues k1)(q := (queues k1 q)\<lparr>cTxLock := queueUNLOCKED, cRxLock := queueUNLOCKED\<rparr>)"
    "\<forall>t. container k1 (EventItem t) \<noteq> Some xPendingReadyList \<longrightarrow>
       container k' (StateItem t) = container k1 (StateItem t) \<and> container k' (EventItem t) = container k1 (EventItem t)"
    by (rule quiet_exit [OF k1(2) l1, of Blocked]) blast
  have r: "tcb k' = tcb k1" "pxCurrentTCB k' = ?c" "liValue (lists k') = liValue (lists k1)" "uxCurrentNumberOfTasks k' = uxCurrentNumberOfTasks k"
    "sched.more k' = sched.more (k1\<lparr>queues := queues k'\<rparr>)"
    using k'(4) k1(4,8) k0(4,10) by (simp_all add: resume_frame_def)
  have sc: "same_clock k k'" using k0(11) k1(6,7) ov k'(5) by (simp add: same_clock_def)
  have cc: "container k' (StateItem ?c) = container k1 (StateItem ?c)" using k'(8) k1(10) k0(4) by simp
  have dl: "delayed k1 ?c" "wake k1 ?c = xTickCount k + xTicksToWait fr'"
    using k1(11) fr(2) k0(4,11) by (simp_all add: same_clock_def)
  show ?thesis
  proof (rule that [of k'])
    show "xQueueReceive_block q fr k = Some (Again fr', k')" using wt k'(1) by (simp add: xQueueReceive_block_def k0_def [symmetric])
    show "delayed k' ?c" using dl(1) cc by (simp add: delayed_def)
    show "left_to_wait k' ?c = unat (xTicksToWait fr')" using dl(2) r(3) sc by (simp add: left_to_wait_def same_clock_def)
    show "kernel.more k' = kernel.more k" using more_kernel(4) [OF r(5)] m1(4) k0(9) by simp
    have "(queues k q)\<lparr>cRxLock := 0, cTxLock := 0, cTxLock := queueUNLOCKED, cRxLock := queueUNLOCKED\<rparr> =
        (queues k q)\<lparr>cTxLock := queueUNLOCKED, cRxLock := queueUNLOCKED\<rparr>" by simp
    also have "\<dots> = queues k q" by (rule queue_unlock_restore [OF q(2)])
    finally show "queues k' = queues k" using k'(7) k0(12) m1(1) by (simp add: fun_eq_iff)
    show "container k' (StateItem t) = Some (pxReadyTasksLists p)" if "t \<noteq> ?c" "container k (StateItem t) = Some (pxReadyTasksLists p)" for t p
      using unblocks_ready [OF k'(6)] k1(12) that k0(4,6) by simp
    show "prio k' = prio k" using r(1) k1(3) k0(4,5) by auto
  qed (use k' r sc k1(3) k0(4,5) in simp_all)
qed

text \<open>The blocking part of a receiver whose time is over and whose queue is still empty.\<close>

lemma xQueueReceive_block_expires:
  fixes k :: "'a kernel_scheme"
  assumes k: "sched_inv k" "uxSchedulerSuspended k = 0" "xPendedTicks k = 0" "0 < uxCurrentNumberOfTasks k"
    and q: "uxMessagesWaiting (queues k q) = 0" "unlocked (queues k q)"
    and fr: "check_time fr (queue_enter q k) = (True, fr', queue_enter q k)"
  obtains k' where "xQueueReceive_block q fr k = Some (Return False, k')" "sched_inv k'" "queues k' = queues k"
    "kernel.more k' = kernel.more k" "same_clock k k'" "pxCurrentTCB k' = pxCurrentTCB k" "tcb k' = tcb k"
proof -
  define k0 where "k0 = queue_enter q k"
  have k0: "sched_inv k0" "uxSchedulerSuspended k0 = Suc 0" "0 < uxCurrentNumberOfTasks k0" "xPendedTicks k0 = 0"
    "cTxLock (queues k0 q) = 0" "cRxLock (queues k0 q) = 0" "kernel.more k0 = kernel.more k" "same_clock k k0"
    "queues k0 = (queues k)(q := (queues k q)\<lparr>cRxLock := 0, cTxLock := 0\<rparr>)" "tcb k0 = tcb k" "pxCurrentTCB k0 = pxCurrentTCB k"
    using k q by (simp_all add: k0_def same_clock_def) (simp add: queue_enter_def prvLockQueue_def upd_queue_def vTaskSuspendAll_def)
  obtain k' where k': "queue_exit TimedOut q k0 = Some k'" "sched_inv k'" "resume_frame (k0\<lparr>queues := queues k'\<rparr>) k'" "same_clock k0 k'"
    "queues k' = (queues k0)(q := (queues k0 q)\<lparr>cTxLock := queueUNLOCKED, cRxLock := queueUNLOCKED\<rparr>)"
    by (rule quiet_exit [OF k0(1-6), of TimedOut]) blast
  have qs: "queues k' = queues k"
  proof -
    have "(queues k q)\<lparr>cRxLock := 0, cTxLock := 0, cTxLock := queueUNLOCKED, cRxLock := queueUNLOCKED\<rparr> =
        (queues k q)\<lparr>cTxLock := queueUNLOCKED, cRxLock := queueUNLOCKED\<rparr>" by simp
    also have "\<dots> = queues k q" by (rule queue_unlock_restore [OF q(2)])
    finally show ?thesis using k'(5) k0(9) by (simp add: fun_eq_iff)
  qed
  have m: "sched.more k' = sched.more (k0\<lparr>queues := queues k'\<rparr>)" "tcb k' = tcb k0" "pxCurrentTCB k' = pxCurrentTCB k0"
    using k'(3) by (simp_all add: resume_frame_def)
  show ?thesis
  proof (rule that [of k'])
    show "xQueueReceive_block q fr k = Some (Return False, k')"
      using fr k'(1) qs q(1) by (simp add: xQueueReceive_block_def xQueueReceive_wait_def k0_def [symmetric] prvIsQueueEmpty_def)
    show "kernel.more k' = kernel.more k" using more_kernel(4) [OF m(1)] k0(7) by simp
    show "same_clock k k'" by (rule same_clock_trans [OF k0(8) k'(4)])
  qed (use k'(2) qs m k0 in simp_all)
qed

section \<open>A wait that nobody answers\<close>

lemma receive_times_out:
  fixes k :: "'a kernel_scheme"
  assumes k: "sched_inv k" "running_ready k" "uxSchedulerSuspended k = 0" "xPendedTicks k = 0" "0 < uxCurrentNumberOfTasks k"
    and q: "uxMessagesWaiting (queues k q) = 0" "unlocked (queues k q)"
    and u: "container k (StateItem u) = Some (pxReadyTasksLists p)" "u \<noteq> pxCurrentTCB k"
    and w: "w \<noteq> 0" "w \<noteq> portMAX_DELAY" "\<not> ucDelayAborted (tcb k (pxCurrentTCB k))"
  obtains fr k1 k2 k3 k4 where "xQueueReceive_try q buf (start_frame w) k = Some (Again fr, k)"
    "xQueueReceive_block q fr k = Some (Again fr, k1)" "vTaskSwitchContext k1 = Some k2" "pxCurrentTCB k2 \<noteq> pxCurrentTCB k"
    "\<And>m. m < unat w \<Longrightarrow> \<exists>k'. ticks m k2 = Some k' \<and> delayed k' (pxCurrentTCB k)"
    "ticks (unat w) k2 = Some k3" "container k3 (StateItem (pxCurrentTCB k)) = Some (pxReadyTasksLists (prio k (pxCurrentTCB k)))"
    "xQueueReceive_try q buf fr (k3\<lparr>pxCurrentTCB := pxCurrentTCB k\<rparr>) = Some (Again fr, k3\<lparr>pxCurrentTCB := pxCurrentTCB k\<rparr>)"
    "xQueueReceive_block q fr (k3\<lparr>pxCurrentTCB := pxCurrentTCB k\<rparr>) = Some (Return False, k4)" "sched_inv k4"
    "queues k4 = queues k" "kernel.more k4 = kernel.more k" "xTickCount k4 = xTickCount k + w"
proof -
  let ?c = "pxCurrentTCB k"
  define fr where "fr = enter_time (start_frame w) k"
  have fr: "xTicksToWait fr = w" "xEntryTimeSet fr" "xTimeOut fr = \<lparr>xOverflowCount = xNumOfOverflows k, xTimeOnEntering = xTickCount k\<rparr>"
    by (simp_all add: fr_def enter_time_def start_frame_def vTaskInternalSetTimeOutState_def)
  have t: "xQueueReceive_try q buf (start_frame w) k = Some (Again fr, k)"
    using q(1) w(1) by (simp add: xQueueReceive_try_def empty_try_def fr_def)
  have ct: "check_time fr (queue_enter q k) = (False, fr, queue_enter q k)"
    unfolding fr_def by (rule check_time_fresh) (use w in simp_all)
  obtain k1 where k1: "xQueueReceive_block q fr k = Some (Again fr, k1)" "sched_inv k1" "uxSchedulerSuspended k1 = 0"
    "queues k1 = queues k" "kernel.more k1 = kernel.more k" "prio k1 = prio k" "\<not> ucDelayAborted (tcb k1 ?c)" "same_clock k k1"
    "uxCurrentNumberOfTasks k1 = uxCurrentNumberOfTasks k" "pxCurrentTCB k1 = ?c" "delayed k1 ?c" "left_to_wait k1 ?c = unat w"
    "\<forall>t p. t \<noteq> ?c \<longrightarrow> container k (StateItem t) = Some (pxReadyTasksLists p) \<longrightarrow> container k1 (StateItem t) = Some (pxReadyTasksLists p)"
    by (rule xQueueReceive_block_delays [OF k q ct]) (use fr(1) w(2) in simp, simp only: fr(1), blast)
  have cu: "container k1 (StateItem u) = Some (pxReadyTasksLists p)" using k1(13) u by blast
  obtain t2 k2 where k2: "vTaskSwitchContext k1 = Some k2" "k2 = k1\<lparr>xYieldPending := False, lists := lists k2, pxCurrentTCB := t2\<rparr>"
    "sched_inv k2" "running_ready k2" "\<forall>i. container k2 i = container k1 i" "liValue (lists k2) = liValue (lists k1)"
    by (rule vTaskSwitchContext_inv [OF k1(2,3) cu]) blast
  have f2: "queues k2 = queues k" "kernel.more k2 = kernel.more k" "tcb k2 = tcb k1" "uxSchedulerSuspended k2 = 0" "pxCurrentTCB k2 = t2"
    "same_clock k k2" "uxCurrentNumberOfTasks k2 = uxCurrentNumberOfTasks k"
    by (subst k2(2), use k1 in \<open>simp add: same_clock_def\<close>)+
  have ne: "t2 \<noteq> ?c" using k2(4,5) f2(3,5) k1(11) by (auto simp: running_ready_def delayed_def)
  have d2: "delayed k2 ?c" "left_to_wait k2 ?c = unat w"
    using k1(8,11,12) k2(5,6) f2(6) by (simp_all add: delayed_def left_to_wait_def same_clock_def)
  obtain m where m: "unat w = Suc m" using w(1) by (cases "unat w") (auto simp: unat_eq_zero)
  obtain k3 where k3: "ticks (unat w) k2 = Some k3" "sched_inv k3" "tick_frame k2 k3" "xTickCount k3 = xTickCount k2 + of_nat (unat w)"
    "xNumOfOverflows k3 = xNumOfOverflows k2 + of_nat ((unat (xTickCount k2) + unat w) div 2 ^ 32)"
    by (rule ticks_run [OF k2(3) f2(4), of "unat w"]) blast
  have rd: "container k3 (StateItem ?c) = Some (pxReadyTasksLists (prio k ?c))"
    using ticks_wait(2) [OF k2(3) f2(4) d2(1), of m] d2(2) m k3(1) f2(3) fun_cong [OF k1(6), of ?c] by simp
  define k3c where "k3c = k3\<lparr>pxCurrentTCB := ?c\<rparr>"
  have f3: "sched_inv k3c" "queues k3c = queues k" "kernel.more k3c = kernel.more k" "tcb k3c = tcb k1" "uxSchedulerSuspended k3c = 0"
    "xPendedTicks k3c = 0" "0 < uxCurrentNumberOfTasks k3c" "pxCurrentTCB k3c = ?c"
    "xTickCount k3c = xTickCount k + w"
    "xNumOfOverflows k3c = xNumOfOverflows k + of_nat ((unat (xTickCount k) + unat w) div 2 ^ 32)"
    using k3 f2 k(4,5) more_kernel(1,4) [of k3 k2] by (simp_all add: k3c_def tick_frame_def same_clock_def)
  have t3: "xQueueReceive_try q buf fr k3c = Some (Again fr, k3c)"
    using q(1) w(1) fr f3(2) by (simp add: xQueueReceive_try_def empty_try_def enter_time_def)
  define K where "K = queue_enter q k3c"
  have K: "pxCurrentTCB K = ?c" "tcb K = tcb k1" "xTickCount K = xTickCount k + w"
    "xNumOfOverflows K = xNumOfOverflows k + of_nat ((unat (xTickCount k) + unat w) div 2 ^ 32)"
    using f3 by (simp_all add: K_def)
  have "unat (xTickCount k) < 2 ^ 32" "unat w < 2 ^ 32" using unsigned_less [of "xTickCount k"] unsigned_less [of w] by simp_all
  then have b: "unat (xTickCount k) + unat w < 2 ^ 33" by simp
  have "xTaskCheckForTimeOut (xTimeOut fr) w K = (True, xTimeOut fr, 0, K)"
    using check_elapsed [of K w "xTimeOut fr" "unat w"] k1(7) w(2) K b by (simp add: fr(3))
  then have ct3: "check_time fr (queue_enter q k3c) = (True, fr\<lparr>xTicksToWait := 0\<rparr>, queue_enter q k3c)"
    by (simp add: check_time_def fr(1) K_def)
  obtain k4 where k4: "xQueueReceive_block q fr k3c = Some (Return False, k4)" "sched_inv k4" "queues k4 = queues k3c"
    "kernel.more k4 = kernel.more k3c" "same_clock k3c k4"
    by (rule xQueueReceive_block_expires [OF f3(1,5,6,7) _ _ ct3]) (use f3(2) q in \<open>auto\<close>)
  show ?thesis
    by (rule that [of fr k1 k2 k3 k4, OF t k1(1) k2(1)])
      (use ne f2(5) ticks_wait(1) [OF k2(3) f2(4) d2(1)] d2(2) k3(1) rd t3 k4 f3 in \<open>simp_all add: k3c_def same_clock_def\<close>)
qed

end
