(* ===== verification/Posix_Props.thy ===== *)
theory Posix_Props
  imports Posix_Shim
begin

text \<open>
  Properties of the POSIX layer: the registry of threads as a list, the creation of a thread, the
  hand-over of the exit value to the joiner, mutexes, counting semaphores and sleeping.
\<close>

section \<open>The registry as a list of threads\<close>

fun thread_chain :: "'a shim_scheme \<Rightarrow> addr \<Rightarrow> addr list \<Rightarrow> bool" where
  "thread_chain s a [] \<longleftrightarrow> a = 0"
| "thread_chain s a (t # ts) \<longleftrightarrow> a = t \<and> t \<noteq> 0 \<and> thread_chain s (next_thread (threads s t)) ts"

definition registry :: "'a shim_scheme \<Rightarrow> addr list \<Rightarrow> bool" where
  "registry s ts \<longleftrightarrow> thread_chain s (g_thread_list s) ts \<and> distinct ts"

lemma upd_thread_simps [simp]:
  "threads (upd_thread t f s) = (threads s)(t := f (threads s t))" "g_thread_list (upd_thread t f s) = g_thread_list s"
  "var (upd_thread t f s) = var s" "queues (upd_thread t f s) = queues s" "mem (upd_thread t f s) = mem s"
  "xQueueRegistry (upd_thread t f s) = xQueueRegistry s" "lists (upd_thread t f s) = lists s" "tcb (upd_thread t f s) = tcb s"
  "heap (upd_thread t f s) = heap s" "pxCurrentTCB (upd_thread t f s) = pxCurrentTCB s"
  "uxSchedulerSuspended (upd_thread t f s) = uxSchedulerSuspended s" "xSchedulerRunning (upd_thread t f s) = xSchedulerRunning s"
  "uxCurrentNumberOfTasks (upd_thread t f s) = uxCurrentNumberOfTasks s" "pendSV (upd_thread t f s) = pendSV s"
  "uxDeletedTasksWaitingCleanUp (upd_thread t f s) = uxDeletedTasksWaitingCleanUp s"
  by (simp_all add: upd_thread_def)

lemma thread_chain_cong:
  "(\<And>t. t \<in> set ts \<Longrightarrow> next_thread (threads s' t) = next_thread (threads s t)) \<Longrightarrow> thread_chain s' a ts = thread_chain s a ts"
  by (induction ts arbitrary: a) auto

lemma thread_chain_nonzero: "thread_chain s a ts \<Longrightarrow> 0 \<notin> set ts"
  by (induction ts arbitrary: a) auto

lemma registry_cong:
  "threads s' = threads s \<Longrightarrow> g_thread_list s' = g_thread_list s \<Longrightarrow> registry s' ts = registry s ts"
  using thread_chain_cong [of ts s' s] by (simp add: registry_def)

lemma add_thread_registry:
  assumes "registry s ts" "t \<noteq> 0" "t \<notin> set ts"
  shows "registry (add_thread t s) (t # ts)" "xTask (threads (add_thread t s) u) = xTask (threads s u)"
proof -
  have "thread_chain (add_thread t s) (g_thread_list s) ts = thread_chain s (g_thread_list s) ts"
    by (rule thread_chain_cong) (use assms(3) in \<open>auto simp: add_thread_def Let_def\<close>)
  then show "registry (add_thread t s) (t # ts)"
    using assms by (simp add: registry_def add_thread_def Let_def)
qed (simp add: add_thread_def Let_def)

lemma find_loop_chain:
  "thread_chain s a ts \<Longrightarrow>
    find_loop task s a = Some (case find (\<lambda>t. xTask (threads s t) = task) ts of None \<Rightarrow> 0 | Some t \<Rightarrow> t)"
proof (induction ts arbitrary: a)
  case Nil
  then show ?case by (subst find_loop.simps) simp
next
  case (Cons t ts)
  then show ?case by (subst find_loop.simps) simp
qed

lemma find_thread_registry:
  "registry s ts \<Longrightarrow> find_thread task s = Some (case find (\<lambda>t. xTask (threads s t) = task) ts of None \<Rightarrow> 0 | Some t \<Rightarrow> t)"
  by (simp add: find_thread_def registry_def find_loop_chain)

text \<open>States that differ in the thread nodes and the list head only.\<close>

definition relinked :: "'a shim_scheme \<Rightarrow> 'a shim_scheme \<Rightarrow> bool" where
  "relinked s s' \<longleftrightarrow> s' = s\<lparr>threads := threads s', g_thread_list := g_thread_list s'\<rparr>"

lemma relinked_refl [simp]: "relinked s s"
  by (simp add: relinked_def)

lemma relinkedD:
  assumes "relinked s s'"
  shows "lists s' = lists s" "tcb s' = tcb s" "heap s' = heap s" "pxCurrentTCB s' = pxCurrentTCB s" "queues s' = queues s"
    "mem s' = mem s" "xQueueRegistry s' = xQueueRegistry s" "var s' = var s" "uxSchedulerSuspended s' = uxSchedulerSuspended s"
    "uxCurrentNumberOfTasks s' = uxCurrentNumberOfTasks s" "xSchedulerRunning s' = xSchedulerRunning s" "pendSV s' = pendSV s"
    "core_inv X strict s' = core_inv X strict s" "uxDeletedTasksWaitingCleanUp s' = uxDeletedTasksWaitingCleanUp s"
proof -
  have e: "s' = s\<lparr>threads := threads s', g_thread_list := g_thread_list s'\<rparr>" using assms unfolding relinked_def .
  show "core_inv X strict s' = core_inv X strict s" by (subst e) (simp add: core_inv_def blocked_def)
qed (subst assms [unfolded relinked_def], simp)+

text \<open>The walk of \<^verbatim>\<open>remove_thread\<close> from a link: the nodes before it are not touched.\<close>

lemma remove_loop_chain:
  assumes "thread_chain s (deref l s) ts" "distinct ts" "\<And>a. l = NextPtr a \<Longrightarrow> a \<notin> set ts"
  obtains s' where "remove_loop t s l = Some s'" "thread_chain s' (deref l s') (remove1 t ts)"
    "\<And>a. a \<notin> set ts \<Longrightarrow> l \<noteq> NextPtr a \<Longrightarrow> threads s' a = threads s a" "l \<noteq> HeadPtr \<Longrightarrow> g_thread_list s' = g_thread_list s"
    "\<And>a. xTask (threads s' a) = xTask (threads s a) \<and> join_sem (threads s' a) = join_sem (threads s a) \<and>
       retval (threads s' a) = retval (threads s a)"
    "relinked s s'"
  using assms
proof (induction ts arbitrary: l thesis)
  case Nil
  show ?case
    by (rule Nil.prems(1) [of s]) (use Nil.prems(2) in \<open>simp_all add: remove_loop.simps [of t s l]\<close>)
next
  case (Cons u ts)
  have u: "deref l s = u" "u \<noteq> 0" "thread_chain s (next_thread (threads s u)) ts" "u \<notin> set ts" "distinct ts" using Cons.prems(2,3) by auto
  show ?case
  proof (cases "u = t")
    case True
    let ?s = "assign l (next_thread (threads s t)) s"
    have run: "remove_loop t s l = Some ?s" using u True by (subst remove_loop.simps) simp
    have d: "deref l ?s = next_thread (threads s t)" by (cases l) simp_all
    have "next_thread (threads ?s x) = next_thread (threads s x)" if "x \<in> set ts" for x
      using Cons.prems(4) that by (cases l) auto
    then have "thread_chain ?s (next_thread (threads s u)) ts" using u(3) thread_chain_cong [of ts ?s s] by simp
    then show ?thesis
      by (intro Cons.prems(1) [OF run]) (use True d in \<open>cases l; auto simp: upd_thread_def relinked_def\<close>)+
  next
    case False
    have c: "thread_chain s (deref (NextPtr u) s) ts" using u(3) by simp
    obtain s' where s': "remove_loop t s (NextPtr u) = Some s'" "thread_chain s' (deref (NextPtr u) s') (remove1 t ts)"
      "\<forall>a. a \<notin> set ts \<longrightarrow> NextPtr u \<noteq> NextPtr a \<longrightarrow> threads s' a = threads s a" "g_thread_list s' = g_thread_list s"
      "\<forall>a. xTask (threads s' a) = xTask (threads s a) \<and> join_sem (threads s' a) = join_sem (threads s a) \<and>
        retval (threads s' a) = retval (threads s a)"
      "relinked s s'"
      by (rule Cons.IH [OF _ c u(5)]) (use u(4) in auto)
    have run: "remove_loop t s l = Some s'" using u False s'(1) by (subst remove_loop.simps) simp
    have d: "deref l s' = deref l s" using s'(3,4) Cons.prems(4) by (cases l) auto
    show ?thesis
      by (rule Cons.prems(1) [OF run]) (use False d u(1,2) s' in auto)
  qed
qed

lemma remove_thread_registry:
  assumes "registry s ts"
  obtains s' where "remove_thread t s = Some s'" "registry s' (remove1 t ts)" "relinked s s'"
    "\<And>a. xTask (threads s' a) = xTask (threads s a) \<and> join_sem (threads s' a) = join_sem (threads s a) \<and>
       retval (threads s' a) = retval (threads s a)"
proof -
  have c: "thread_chain s (deref HeadPtr s) ts" "distinct ts" using assms by (simp_all add: registry_def)
  obtain s' where "remove_loop t s HeadPtr = Some s'" "thread_chain s' (deref HeadPtr s') (remove1 t ts)" "relinked s s'"
    "\<forall>a. xTask (threads s' a) = xTask (threads s a) \<and> join_sem (threads s' a) = join_sem (threads s a) \<and>
       retval (threads s' a) = retval (threads s a)"
    by (rule remove_loop_chain [OF c]) blast+
  then show ?thesis by (intro that [of s']) (use c(2) in \<open>simp_all add: remove_thread_def registry_def\<close>)
qed

text \<open>
  What the functions of the layer rely on: a registry is a list of live nodes; a node is added in front,
  looked up by its task and removed. The client's view of any sequence of additions and removals.
\<close>

datatype registry_op = Add addr | Remove addr

fun registry_run :: "(addr \<Rightarrow> 's \<Rightarrow> 's) \<Rightarrow> (addr \<Rightarrow> 's \<Rightarrow> 's option) \<Rightarrow> registry_op list \<Rightarrow> 's \<Rightarrow> 's option" where
  "registry_run add rm [] s = Some s"
| "registry_run add rm (Add t # os) s = registry_run add rm os (add t s)"
| "registry_run add rm (Remove t # os) s = rm t s \<bind> registry_run add rm os"

text \<open>The threads left after a sequence of operations, and that every added node is new and not NULL.\<close>

fun left_after :: "registry_op list \<Rightarrow> addr list \<Rightarrow> addr list" where
  "left_after [] ts = ts"
| "left_after (Add t # os) ts = left_after os (t # ts)"
| "left_after (Remove t # os) ts = left_after os (remove1 t ts)"

fun adds_new :: "registry_op list \<Rightarrow> addr list \<Rightarrow> bool" where
  "adds_new [] ts = True"
| "adds_new (Add t # os) ts = (t \<noteq> 0 \<and> t \<notin> set ts \<and> adds_new os (t # ts))"
| "adds_new (Remove t # os) ts = adds_new os (remove1 t ts)"

locale thread_registry =
  fixes view :: "'s \<Rightarrow> addr list \<Rightarrow> bool" and task_of :: "'s \<Rightarrow> addr \<Rightarrow> addr"
    and add :: "addr \<Rightarrow> 's \<Rightarrow> 's" and lookup :: "addr \<Rightarrow> 's \<Rightarrow> addr option" and rm :: "addr \<Rightarrow> 's \<Rightarrow> 's option"
  assumes nodes: "view s ts \<Longrightarrow> distinct ts \<and> 0 \<notin> set ts"
    and add_law: "view s ts \<Longrightarrow> t \<noteq> 0 \<Longrightarrow> t \<notin> set ts \<Longrightarrow> view (add t s) (t # ts) \<and> task_of (add t s) = task_of s"
    and lookup_law: "view s ts \<Longrightarrow> lookup k s = Some (case find (\<lambda>t. task_of s t = k) ts of None \<Rightarrow> 0 | Some t \<Rightarrow> t)"
    and rm_law: "view s ts \<Longrightarrow> \<exists>s'. rm t s = Some s' \<and> view s' (remove1 t ts) \<and> task_of s' = task_of s"
begin

lemma run_view:
  assumes "view s ts" "adds_new os ts"
  shows "\<exists>s'. registry_run add rm os s = Some s' \<and> view s' (left_after os ts) \<and> task_of s' = task_of s"
  using assms
proof (induction os arbitrary: s ts)
  case (Cons oper os)
  show ?case
  proof (cases oper)
    case (Add t)
    then have "view (add t s) (t # ts)" "task_of (add t s) = task_of s" using add_law [OF Cons.prems(1)] Cons.prems(2) by auto
    then show ?thesis using Cons.IH [of "add t s" "t # ts"] Cons.prems(2) Add by auto
  next
    case (Remove t)
    obtain s1 where "rm t s = Some s1" "view s1 (remove1 t ts)" "task_of s1 = task_of s" using rm_law [OF Cons.prems(1)] by blast
    then show ?thesis using Cons.IH [of s1 "remove1 t ts"] Cons.prems(2) Remove by auto
  qed
qed simp

lemma lookup_live:
  assumes "view s ts" "inj_on (task_of s) (set ts)" "t \<in> set ts"
  shows "lookup (task_of s t) s = Some t"
proof -
  obtain u where u: "find (\<lambda>u. task_of s u = task_of s t) ts = Some u"
    using assms(3) by (cases "find (\<lambda>u. task_of s u = task_of s t) ts") (auto simp: find_None_iff)
  then have "task_of s u = task_of s t" "u \<in> set ts" by (auto simp: find_Some_iff in_set_conv_nth)
  then have "u = t" using assms(2,3) by (auto dest: inj_onD)
  then show ?thesis using lookup_law [OF assms(1)] u by simp
qed

lemma lookup_dead: "view s ts \<Longrightarrow> k \<notin> task_of s ` set ts \<Longrightarrow> lookup k s = Some 0"
  using lookup_law [of s ts k] by (cases "find (\<lambda>t. task_of s t = k) ts") (auto simp: find_Some_iff image_iff)

lemma run_lookup:
  assumes "view s ts" "adds_new os ts" "inj_on (task_of s) (set (left_after os ts))"
  shows "\<exists>s'. registry_run add rm os s = Some s' \<and> view s' (left_after os ts) \<and>
    (\<forall>t \<in> set (left_after os ts). lookup (task_of s t) s' = Some t) \<and>
    (\<forall>k. k \<notin> task_of s ` set (left_after os ts) \<longrightarrow> lookup k s' = Some 0)"
proof -
  obtain s' where s': "registry_run add rm os s = Some s'" "view s' (left_after os ts)" "task_of s' = task_of s"
    using run_view [OF assms(1,2)] by blast
  then show ?thesis using lookup_live [OF s'(2)] lookup_dead [OF s'(2)] assms(3) by (intro exI [of _ s']) simp
qed

end

interpretation shim_registry: thread_registry registry "\<lambda>s t. xTask (threads s t)" add_thread find_thread remove_thread
proof (unfold_locales, goal_cases)
  case (1 s ts)
  then show ?case using thread_chain_nonzero by (auto simp: registry_def)
next
  case (2 s ts t)
  then show ?case using add_thread_registry by blast
next
  case (3 s ts k)
  then show ?case by (rule find_thread_registry)
next
  case (4 s ts t)
  then show ?case by (rule remove_thread_registry [of s ts t]) auto
qed

text \<open>
  C14: The registry finds exactly the live threads. Starting from a registry of the nodes \<open>ts\<close>, any
  sequence of \<^verbatim>\<open>add_thread\<close> (of new nodes) and \<^verbatim>\<open>remove_thread\<close> (of any node, present or not) returns;
  the linked list then holds exactly the nodes added and not removed, and when no two of them have the
  same task, \<^verbatim>\<open>find_thread\<close> returns for the task of each live node that node, and NULL for every other
  task handle.
\<close>

theorem registry_finds_live_threads:
  assumes "registry s ts" "adds_new os ts" "inj_on (\<lambda>t. xTask (threads s t)) (set (left_after os ts))"
  shows "\<exists>s'. registry_run add_thread remove_thread os s = Some s' \<and> registry s' (left_after os ts) \<and>
    (\<forall>t \<in> set (left_after os ts). find_thread (xTask (threads s t)) s' = Some t) \<and>
    (\<forall>k. k \<notin> (\<lambda>t. xTask (threads s t)) ` set (left_after os ts) \<longrightarrow> find_thread k s' = Some 0)"
  by (rule shim_registry.run_lookup [OF assms])

definition empty_node :: posix_thread_t where
  "empty_node = \<lparr>xTask = 0, start_routine = 0, arg = 0, retval = 0, join_sem = 0, detached = False, next_thread = 0\<rparr>"

text \<open>The demonstration kernel with an empty registry, and nodes whose task is named by their address.\<close>

definition demo_shim :: shim where
  "demo_shim = kernel.extend (demo_kernel\<lparr>heap := demo_heap\<rparr>)
     (shim.fields (\<lambda>t. empty_node\<lparr>xTask := t + 1\<rparr>) 0 (\<lambda>_. 0))"

theorem registry_finds_live_threads_witness:
  "\<exists>s'. registry_run add_thread remove_thread [Add 10, Add 20, Add 30, Remove 20] demo_shim = Some s' \<and>
     registry s' [30, 10] \<and> find_thread 11 s' = Some 10 \<and> find_thread 21 s' = Some 0"
  using registry_finds_live_threads [of demo_shim "[]" "[Add 10, Add 20, Add 30, Remove 20]"]
  by (auto simp: demo_shim_def shim.defs kernel.defs registry_def inj_on_def)

section \<open>Sleeping\<close>

lemma sleep_ticks_unat: "unat (sleep_ticks n) = (1000 * unat n) mod 2 ^ 32"
  by (simp add: sleep_ticks_def pdMS_TO_TICKS_id unat_word_ariths mult.commute)

lemma usleep_ticks_unat: "u \<noteq> 0 \<Longrightarrow> unat (usleep_ticks u) = max 1 (unat u div 1000)"
  by (auto simp: usleep_ticks_def Let_def pdMS_TO_TICKS_id word_unat_eq_iff unat_div word_gt_0 max_def)

text \<open>The call blocks the running task for exactly \<open>n\<close> ticks.\<close>

definition blocks_for :: "('a sched_scheme \<Rightarrow> 'a sched_scheme option) \<Rightarrow> 'a sched_scheme \<Rightarrow> nat \<Rightarrow> bool" where
  "blocks_for f s n \<longleftrightarrow> (\<exists>s0. f s = Some s0 \<and> sched_inv s0 \<and> pendSV s0 \<and>
     (\<forall>m < n. \<exists>s'. ticks m s0 = Some s' \<and> delayed s' (pxCurrentTCB s)) \<and>
     (\<exists>s'. ticks n s0 = Some s' \<and> container s' (StateItem (pxCurrentTCB s)) = Some (pxReadyTasksLists (prio s (pxCurrentTCB s)))))"

lemma vTaskDelay_blocks_for:
  assumes "sched_inv k" "running_ready k" "uxSchedulerSuspended k = 0" "xPendedTicks k = 0" "0 < uxCurrentNumberOfTasks k" "w \<noteq> 0"
  shows "blocks_for (vTaskDelay w) k (unat w)"
proof -
  obtain k0 where k0: "vTaskDelay w k = Some k0" "sched_inv k0" "uxSchedulerSuspended k0 = 0" "pendSV k0"
    "delayed k0 (pxCurrentTCB k)" "left_to_wait k0 (pxCurrentTCB k) = unat w" "prio k0 = prio k"
    by (rule vTaskDelay_blocks [OF assms]) blast
  obtain m where m: "unat w = Suc m" using assms(6) by (cases "unat w") (auto simp: unat_eq_zero)
  have "\<exists>k'. ticks (unat w) k0 = Some k' \<and>
      container k' (StateItem (pxCurrentTCB k)) = Some (pxReadyTasksLists (prio k (pxCurrentTCB k)))"
    using ticks_wait(2) [OF k0(2,3,5), of m] k0(6) m fun_cong [OF k0(7), of "pxCurrentTCB k"] by simp
  then show ?thesis using k0 ticks_wait(1) [OF k0(2,3,5)] by (auto simp: blocks_for_def)
qed

text \<open>
  C38: How long the sleeping calls block. \<^verbatim>\<open>usleep(u)\<close> with \<open>u > 0\<close> blocks the caller for exactly
  \<open>u div 1000\<close> ticks of a millisecond, at least one; \<^verbatim>\<open>sleep(n)\<close> blocks it for exactly \<open>1000 * n\<close> ticks
  reduced modulo 2 to the 32, because the product is computed on 32 bits: up to 4294967 seconds
  that is \<open>n\<close> seconds, and beyond it the call returns early. When the number of ticks is 0 the call only
  yields.
\<close>

theorem sleeping_calls_block_for:
  fixes s :: "'a shim_scheme"
  assumes "sched_inv s" "running_ready s" "uxSchedulerSuspended s = 0" "xPendedTicks s = 0" "0 < uxCurrentNumberOfTasks s"
  shows "(u \<noteq> 0 \<longrightarrow> blocks_for (usleep u) s (max 1 (unat u div 1000))) \<and> usleep 0 s = Some (portYIELD s) \<and>
    (n \<noteq> 0 \<and> unat n \<le> 4294967 \<longrightarrow> blocks_for (sleep n) s (1000 * unat n)) \<and>
    (if 1000 * unat n mod 2 ^ 32 = 0 then sleep n s = Some (portYIELD s) else blocks_for (sleep n) s (1000 * unat n mod 2 ^ 32))"
proof (intro conjI impI)
  show "blocks_for (usleep u) s (max 1 (unat u div 1000))" if "u \<noteq> 0"
  proof -
    have "unat (usleep_ticks u) \<noteq> 0" unfolding usleep_ticks_unat [OF that] by simp
    then have "usleep_ticks u \<noteq> 0" by auto
    then show ?thesis using vTaskDelay_blocks_for [OF assms, of "usleep_ticks u"] usleep_ticks_unat [OF that]
      by (simp add: blocks_for_def usleep_def)
  qed
  have zero: "vTaskDelay 0 s = Some (portYIELD s)" by (simp add: vTaskDelay_def)
  show "usleep 0 s = Some (portYIELD s)" using zero by (simp add: usleep_def usleep_ticks_def pdMS_TO_TICKS_id)
  have nz: "blocks_for (sleep n) s (1000 * unat n mod 2 ^ 32)" if "1000 * unat n mod 2 ^ 32 \<noteq> 0"
  proof -
    have "unat (sleep_ticks n) \<noteq> 0" unfolding sleep_ticks_unat by (rule that)
    then have "sleep_ticks n \<noteq> 0" by auto
    then have "blocks_for (vTaskDelay (sleep_ticks n)) s (unat (sleep_ticks n))" by (rule vTaskDelay_blocks_for [OF assms])
    then show ?thesis unfolding sleep_ticks_unat by (simp add: blocks_for_def sleep_def)
  qed
  then show "if 1000 * unat n mod 2 ^ 32 = 0 then sleep n s = Some (portYIELD s) else blocks_for (sleep n) s (1000 * unat n mod 2 ^ 32)"
    using zero sleep_ticks_unat [of n] by (auto simp: sleep_def unat_eq_zero)
  show "blocks_for (sleep n) s (1000 * unat n)" if "n \<noteq> 0 \<and> unat n \<le> 4294967"
  proof -
    have "1000 * unat n < 2 ^ 32" "1000 * unat n \<noteq> 0" using that by (auto simp: unat_eq_zero)
    then show ?thesis using nz by simp
  qed
qed

text \<open>The demonstration state.\<close>

lemma demo_shim_simps [simp]:
  "lists demo_shim = lists demo" "tcb demo_shim = demo_tcbs" "pxCurrentTCB demo_shim = 1000" "heap demo_shim = demo_heap"
  "uxCurrentNumberOfTasks demo_shim = 3" "xSchedulerRunning demo_shim" "uxSchedulerSuspended demo_shim = 0" "xPendedTicks demo_shim = 0"
  "uxDeletedTasksWaitingCleanUp demo_shim = 0" "g_thread_list demo_shim = 0" "queues demo_shim = demo_queues" "pendSV demo_shim = False"
  "threads demo_shim = (\<lambda>t. empty_node\<lparr>xTask := t + 1\<rparr>)" "var demo_shim = (\<lambda>_. 0)"
  by (simp_all add: demo_shim_def shim.defs kernel.defs demo_kernel_def sched.defs demo_deleted)

lemma demo_shim_inv: "sched_inv demo_shim"
  using demo_kernel_inv by (simp add: core_inv_def blocked_def demo_shim_def kernel.defs demo_kernel_def sched.defs)

lemma demo_shim_in_task: "in_task demo_shim" "running_ready demo_shim"
  using demo_in_task(1) [of demo_shim] demo_shim_inv by (simp_all add: in_task_def)

theorem sleeping_calls_block_for_witness:
  "blocks_for (usleep 5500) demo_shim 5 \<and> blocks_for (sleep 3) demo_shim 3000 \<and> blocks_for (sleep 4294968) demo_shim 704"
proof -
  note i = demo_shim_inv demo_shim_in_task(2)
  have "blocks_for (usleep 5500) demo_shim 5" "blocks_for (sleep 3) demo_shim 3000"
    using sleeping_calls_block_for [OF i, of 5500 3] by simp_all
  moreover have "blocks_for (sleep 4294968) demo_shim 704"
    using sleeping_calls_block_for [OF i, of 0 4294968] by simp
  ultimately show ?thesis by blast
qed

section \<open>Creating a thread\<close>

lemma more_threads:
  fixes s s' :: "'a shim_scheme"
  assumes "kernel.more s' = kernel.more s"
  shows "threads s' = threads s" "g_thread_list s' = g_thread_list s" "var s' = var s"
  using assms by (cases s, cases s', simp)+

lemma shim_inv [simp]:
  "core_inv X strict (upd_thread t f s) = core_inv X strict s" "core_inv X strict (set_var p v s) = core_inv X strict s"
  "core_inv X strict (add_thread t s) = core_inv X strict s" "core_inv X strict (vTaskSuspendAll k) = core_inv X strict k"
  by (simp_all add: core_inv_def blocked_def upd_thread_def set_var_def add_thread_def Let_def vTaskSuspendAll_def)

lemma in_task_shim [simp]:
  "in_task (upd_thread t f s) = in_task s" "in_task (set_var p v s) = in_task s" "in_task (add_thread t s) = in_task s"
  "in_task (vTaskSuspendAll k) = in_task k"
proof -
  show "in_task (upd_thread t f s) = in_task s" by (rule in_task_cong) simp_all
  show "in_task (set_var p v s) = in_task s" by (rule in_task_cong) (simp_all, simp_all add: set_var_def)
  show "in_task (add_thread t s) = in_task s" by (rule in_task_cong) (simp_all, simp_all add: add_thread_def Let_def)
  show "in_task (vTaskSuspendAll k) = in_task k" by (rule in_task_cong) (simp_all, simp_all add: vTaskSuspendAll_def)
qed

lemma calm_in_task: "calm k k' \<Longrightarrow> sound k' \<Longrightarrow> in_task k \<Longrightarrow> in_task k'"
  using calm_running [of k k'] calmD(5) [of k k'] by (simp add: in_task_def)

text \<open>The kernel requests of \<^verbatim>\<open>pthread_create\<close>: node, semaphore, stack and control block.\<close>

lemma thread_sizes:
  "adjusted_size sizeof_posix_thread = 40" "adjusted_size (sizeof_Queue + 1 * 0) = 96" "adjusted_size (1024 * 4) = 4104"
  "adjusted_size sizeof_TCB = 112" "heapMINIMUM_BLOCK_SIZE = 16"
  by (simp_all add: adjusted_size_def sizeof_posix_thread_def sizeof_Queue_def sizeof_TCB_def heap_defs cfg_defs)

lemma resume_undisturbed:
  assumes inv: "sched_inv k" and s: "uxSchedulerSuspended k = 1" and n: "0 < uxCurrentNumberOfTasks k"
  obtains y k' where "xTaskResumeAll k = Some (y, k')" "sched_inv k'" "heap k' = heap k" "undisturbed (k\<lparr>uxSchedulerSuspended := 0\<rparr>) k'"
proof -
  let ?k = "k\<lparr>uxSchedulerSuspended := 0\<rparr>"
  have e: "(vTaskSuspendAll ?k)\<lparr>heap := heap k\<rparr> = k" using s by (cases k) (simp add: vTaskSuspendAll_def)
  have i: "sched_inv ?k" "0 < uxCurrentNumberOfTasks ?k" using inv n by simp_all
  obtain y k' where "xTaskResumeAll ((vTaskSuspendAll ?k)\<lparr>heap := heap k\<rparr>) = Some (y, k')" "sched_inv k'" "heap k' = heap k" "undisturbed ?k k'"
    by (rule suspend_resume [OF i, of "heap k"]) blast
  then show ?thesis unfolding e by (rule that)
qed

text \<open>The state of a new thread: descriptor \<open>t\<close>, completion semaphore \<open>q\<close>, task \<open>new\<close>.\<close>

definition thread_started :: "addr \<Rightarrow> addr \<Rightarrow> addr \<Rightarrow> addr \<Rightarrow> addr \<Rightarrow> addr \<Rightarrow> 'a shim_scheme \<Rightarrow> bool" where
  "thread_started wrapper start a t q new s \<longleftrightarrow> t \<noteq> 0 \<and> q \<noteq> 0 \<and> new \<noteq> 0 \<and> {t, q, new} \<subseteq> live s \<and> distinct [t, q, new] \<and>
     start_routine (threads s t) = start \<and> arg (threads s t) = a \<and> retval (threads s t) = 0 \<and> \<not> detached (threads s t) \<and>
     join_sem (threads s t) = q \<and> xTask (threads s t) = new \<and> queues s q = new_queue 1 0 q \<and>
     items s (xTasksWaitingToReceive q) = [] \<and> items s (xTasksWaitingToSend q) = [] \<and>
     container s (StateItem new) = Some (pxReadyTasksLists 1) \<and> pxTaskCode (tcb s new) = wrapper \<and> pvParameters (tcb s new) = t"

lemma pthread_create_parts:
  fixes s :: "'a shim_scheme"
  assumes t: "in_task s" and sus: "uxSchedulerSuspended s = 0" and room: "has_room (heap s) 4369"
    and args: "thread \<noteq> 0" "start \<noteq> 0"
  obtains t q new s9 y s' where "pthread_create wrapper thread start a s = Some (0, s')" "xTaskResumeAll s9 = Some (y, s')"
    "sched_inv s'" "in_task s9" "undisturbed (s9\<lparr>uxSchedulerSuspended := 0\<rparr>) s'" "heap s' = heap s9"
    "thread_started wrapper start a t q new s9" "t \<notin> live s" "q \<notin> live s" "new \<notin> live s" "vacant s new" "live s \<subseteq> live s9"
    "var s9 = (var s)(thread := t)" "g_thread_list s9 = t" "\<And>x. x \<noteq> t \<Longrightarrow> threads s9 x = threads s x"
    "next_thread (threads s9 t) = g_thread_list s" "\<And>x. x \<noteq> q \<Longrightarrow> queues s9 x = queues s x" "uxSchedulerSuspended s9 = 1"
    "pxCurrentTCB s9 = pxCurrentTCB s" "uxCurrentNumberOfTasks s9 = uxCurrentNumberOfTasks s + 1"
proof -
  have S: "sound s" using t by (simp add: in_task_def)
  have sz: "0 < sizeof_posix_thread" by (simp add: sizeof_posix_thread_def)
  have r1: "has_room (heap s) (adjusted_size sizeof_posix_thread + 4329)" "0 < adjusted_size sizeof_posix_thread" "heapMINIMUM_BLOCK_SIZE < 4329"
    using room by (simp_all add: thread_sizes)
  obtain t s1 where s1: "pvPortMalloc sizeof_posix_thread s = Some (t, s1)" "sound s1" "undisturbed s s1" "granted t sizeof_posix_thread 4329 s s1"
    by (rule pvPortMalloc_granted [OF S r1(1) sz r1(2,3)]) blast
  note m1 = more_threads [OF more_shim [OF undisturbedD(2) [OF s1(3)]]] and u1 = undisturbed_kernel [OF s1(3)]
  note c1 = calmD [OF undisturbedD(1) [OF s1(3)]] and g1 = grantedD [OF s1(4)]
  define s2 where "s2 = upd_thread t (\<lambda>x. x\<lparr>start_routine := start, arg := a, retval := 0, detached := False\<rparr>) s1"
  have it2: "in_task s2" using calm_in_task [OF undisturbedD(1) [OF s1(3)] s1(2) t] by (simp add: s2_def)
  have S2: "sound s2" using it2 by (simp add: in_task_def)
  have r2: "has_room (heap s2) (adjusted_size (sizeof_Queue + 1 * 0) + 4233)" "0 < adjusted_size (sizeof_Queue + 1 * 0)" "heapMINIMUM_BLOCK_SIZE < 4233"
    using g1(4) unfolding thread_sizes(2,5) by (simp_all add: s2_def)
  have q1: "0 < (1 :: nat)" "0 \<le> SIZE_MAX div 1" "1 * 0 \<le> SIZE_MAX - sizeof_Queue" by simp_all
  obtain q s3 where s3: "xQueueGenericCreate 1 0 s2 = Some (q, s3)" "sound s3" "calm s2 s3" "granted q (sizeof_Queue + 1 * 0) 4233 s2 s3"
    "queues s3 = (queues s2)(q := new_queue 1 0 q)" "kernel.more s3 = kernel.more s2"
    "items s3 (xTasksWaitingToReceive q) = []" "items s3 (xTasksWaitingToSend q) = []"
    by (rule xQueueGenericCreate_granted [OF S2 q1 r2]) blast
  note m3 = more_threads [OF s3(6)] and c3 = calmD [OF s3(3)] and g3 = grantedD [OF s3(4)]
  define s5 where "s5 = vTaskSuspendAll (upd_thread t (\<lambda>x. x\<lparr>join_sem := q\<rparr>) s3)"
  have it5: "in_task s5" using calm_in_task [OF s3(3,2) it2] by (simp add: s5_def)
  have s5: "threads s5 = (threads s3)(t := (threads s3 t)\<lparr>join_sem := q\<rparr>)" "queues s5 = queues s3" "lists s5 = lists s3" "heap s5 = heap s3"
    "g_thread_list s5 = g_thread_list s3" "var s5 = var s3" "uxSchedulerSuspended s5 = 1" "pxCurrentTCB s5 = pxCurrentTCB s"
    "uxCurrentNumberOfTasks s5 = uxCurrentNumberOfTasks s"
    using sus c1 c3 by (simp_all add: s5_def vTaskSuspendAll_def) (simp_all add: s2_def)
  have r5: "has_room (heap s5) (adjusted_size (1024 * 4) + (adjusted_size sizeof_TCB + 17))" "0 < adjusted_size (1024 * 4)" "heapMINIMUM_BLOCK_SIZE < 17"
    using g3(4) unfolding thread_sizes by (simp_all add: s5(4))
  have p5: "tskIDLE_PRIORITY + 1 < configMAX_PRIORITIES" "16 < (1024 :: nat)" "1024 * 4 < (2 :: nat) ^ 32"
    by (simp_all add: tskIDLE_PRIORITY_def configMAX_PRIORITIES_def)
  obtain new stack n x y s6 where s6: "xTaskCreate wrapper ''POSIX_Thread'' 1024 t (tskIDLE_PRIORITY + 1) s5 = Some (new, s6)" "in_task s6"
    "new \<noteq> 0" "new \<notin> live s5" "vacant s5 new" "heap_owned (heap s6) = insert (new, y) (insert (stack, x) (heap_owned (heap s5)))"
    "tcb s6 = (tcb s5)(new := (new_tcb wrapper ''POSIX_Thread'' t (tskIDLE_PRIORITY + 1) stack)\<lparr>uxTCBNumber := n\<rparr>)"
    "container s6 (StateItem new) = Some (pxReadyTasksLists (tskIDLE_PRIORITY + 1))" "pxCurrentTCB s6 = pxCurrentTCB s5"
    "uxSchedulerSuspended s6 = uxSchedulerSuspended s5" "sched.more s6 = sched.more s5" "uxCurrentNumberOfTasks s6 = uxCurrentNumberOfTasks s5 + 1"
    "\<forall>u. u \<noteq> new \<longrightarrow> vacant s5 u \<longrightarrow> vacant s6 u" "ucHeap (heap s6) = ucHeap (heap s5)"
    by (rule xTaskCreate_granted [OF it5 p5 r5(2,1,3)]) blast
  note m6 = more_threads [OF more_shim [OF s6(11)]] and u6 = more_kernel [OF s6(11)]
  define s9 where "s9 = set_var thread t (add_thread t (upd_thread t (\<lambda>x. x\<lparr>xTask := new\<rparr>) s6))"
  have it9: "in_task s9" using s6(2) by (simp add: s9_def)
  have s9: "lists s9 = lists s6" "heap s9 = heap s6" "queues s9 = queues s6" "tcb s9 = tcb s6" "pxCurrentTCB s9 = pxCurrentTCB s6"
    "uxSchedulerSuspended s9 = uxSchedulerSuspended s6" "uxCurrentNumberOfTasks s9 = uxCurrentNumberOfTasks s6"
    "g_thread_list s9 = t" "var s9 = (var s6)(thread := t)"
    "threads s9 = (threads s6)(t := (threads s6 t)\<lparr>xTask := new, next_thread := g_thread_list s6\<rparr>)"
    by (simp_all add: s9_def set_var_def add_thread_def Let_def)
  have i9: "sched_inv s9" "uxSchedulerSuspended s9 = 1" "0 < uxCurrentNumberOfTasks s9"
    using it9 s9(6,7) s6(10,12) s5(7) by (simp_all add: in_task_def sound_def)
  obtain z s' where s': "xTaskResumeAll s9 = Some (z, s')" "sched_inv s'" "heap s' = heap s9" "undisturbed (s9\<lparr>uxSchedulerSuspended := 0\<rparr>) s'"
    by (rule resume_undisturbed [OF i9]) blast
  have run: "pthread_create wrapper thread start a s = Some (0, s')"
    using args s1(1) g1(1) s3(1) g3(1) s6(1,3) s'(1)
    by (simp add: pthread_create_def xSemaphoreCreateBinary_def Let_def s2_def [symmetric] s5_def [symmetric] s9_def [symmetric])
  have h2: "heap s2 = heap s1" by (simp add: s2_def)
  have lv: "live s2 = insert t (live s)" "live s5 = insert q (live s2)" "live s9 = insert new (insert stack (live s5))"
    using g1(5) g3(5) by (simp_all add: h2 s5(4) s9(2) s6(6))
  have q2: "q \<notin> live s2" by (rule g3(2))
  have ne: "q \<noteq> t" "new \<noteq> t" "new \<noteq> q" "q \<notin> live s" "new \<notin> live s" using s6(4) lv q2 by auto
  have v5: "vacant s5 q"
    using calm_vacant [OF s3(3) soundD(1) [OF S2] soundD(1) [OF s3(2)] g3(3)] by (simp add: vacant_def s5(3))
  have v6: "vacant s6 q" using s6(13) v5 ne(3) by metis
  have vn: "vacant s new"
  proof -
    have "ucHeap (heap s6) \<le> new \<and> new + y \<le> ucHeap (heap s6) + configTOTAL_HEAP_SIZE" by (rule heap_owned_range) (simp add: s6(6))
    then show ?thesis using soundD(3) [OF S] ne(5) s6(14) s5(4) s1(4) s3(4) by (simp add: objects_live_def granted_def h2)
  qed
  have th: "thread_started wrapper start a t q new s9"
    unfolding thread_started_def
  proof (intro conjI)
    show "{t, q, new} \<subseteq> live s9" using lv by blast
    show "distinct [t, q, new]" using ne by auto
    show "items s9 (xTasksWaitingToReceive q) = []" "items s9 (xTasksWaitingToSend q) = []" using v6 s9(1) by (simp_all add: vacant_def)
    show "queues s9 q = new_queue 1 0 q" using s9(3) u6 s5(2) s3(5) by simp
    show "container s9 (StateItem new) = Some (pxReadyTasksLists 1)" using s6(8) s9(1) by (simp add: tskIDLE_PRIORITY_def)
    show "pxTaskCode (tcb s9 new) = wrapper" "pvParameters (tcb s9 new) = t" using s6(7) s9(4) by (simp_all add: new_tcb_def)
  qed (use g1(1) g3(1) s6(3) in \<open>simp_all add: s9(10) m6 s5(1) m3 s2_def\<close>)
  show thesis
    by (rule that [OF run s'(1,2) it9 s'(4,3) th g1(2) ne(4,5) vn])
      (use lv i9 s9 m6 s5 m3 m1 u6 u1 s3(5) s6(9,12) in \<open>auto simp: s2_def\<close>)
qed

text \<open>A started thread stays so when the scheduler resumes.\<close>

lemma thread_started_undisturbed:
  assumes u: "undisturbed s s'" and inv: "sched_inv s" "sched_inv s'" and h: "heap s' = heap s" and t: "thread_started wrapper start a t q new s"
  shows "thread_started wrapper start a t q new s'"
proof -
  note m = more_threads [OF more_shim [OF undisturbedD(2) [OF u]]] undisturbed_kernel [OF u] and c = calmD [OF undisturbedD(1) [OF u]]
  have i: "items s' (xTasksWaitingToReceive q) = []" "items s' (xTasksWaitingToSend q) = []"
    using calm_waiting_Nil [OF undisturbedD(1) [OF u] inv] t by (auto simp: thread_started_def)
  have "container s' (StateItem new) = Some (pxReadyTasksLists 1)"
    by (rule unblocks_ready [OF c(8)]) (use t in \<open>simp add: thread_started_def\<close>)
  then show ?thesis using t i by (simp add: thread_started_def m c(1) h)
qed

lemma undisturbed_in_task:
  assumes "undisturbed s s'" "in_task s" "sched_inv s'" "heap s' = heap s"
  shows "in_task s'"
proof (rule calm_in_task [OF undisturbedD(1) [OF assms(1)] _ assms(2)])
  have "sound s" using assms(2) by (simp add: in_task_def)
  note S = soundD [OF this]
  have "vacant s' a" if "vacant s a" for a by (rule calm_vacant [OF undisturbedD(1) [OF assms(1)] S(1) assms(3) that])
  then show "sound s'" using S(2-4) assms(3,4) calmD(4) [OF undisturbedD(1) [OF assms(1)]] unfolding sound_def objects_live_def assms(4) by simp
qed

lemma pthread_create_ok:
  fixes s :: "'a shim_scheme"
  assumes "in_task s" "uxSchedulerSuspended s = 0" "has_room (heap s) 4369" "thread \<noteq> 0" "start \<noteq> 0" "registry s ts" "set ts \<subseteq> live s"
  shows "\<exists>t q new s'. pthread_create wrapper thread start a s = Some (0, s') \<and> in_task s' \<and> uxSchedulerSuspended s' = 0 \<and>
    var s' = (var s)(thread := t) \<and> registry s' (t # ts) \<and> t \<notin> live s \<and> live s \<subseteq> live s' \<and>
    thread_started wrapper start a t q new s' \<and> pthread_self (s'\<lparr>pxCurrentTCB := new\<rparr>) = Some t \<and>
    pxCurrentTCB s' = pxCurrentTCB s \<and> vacant s new"
proof -
  obtain t q new s9 y s' where r: "pthread_create wrapper thread start a s = Some (0, s')"
    "sched_inv s'" "in_task s9" "undisturbed (s9\<lparr>uxSchedulerSuspended := 0\<rparr>) s'" "heap s' = heap s9"
    "thread_started wrapper start a t q new s9" "t \<notin> live s" "live s \<subseteq> live s9"
    "var s9 = (var s)(thread := t)" "g_thread_list s9 = t" "\<forall>x. x \<noteq> t \<longrightarrow> threads s9 x = threads s x"
    "next_thread (threads s9 t) = g_thread_list s" "pxCurrentTCB s9 = pxCurrentTCB s" "vacant s new"
    by (rule pthread_create_parts [OF assms(1-5)]) blast
  let ?s = "s9\<lparr>uxSchedulerSuspended := 0\<rparr>"
  have it: "in_task ?s" using r(3) by (simp add: in_task_def sound_def objects_live_def vacant_def running_ready_def)
  have i: "sched_inv ?s" using it by (simp add: in_task_def sound_def)
  have h: "heap s' = heap ?s" using r(5) by simp
  have ts: "thread_started wrapper start a t q new s'"
    by (rule thread_started_undisturbed [OF r(4) i r(2) h]) (use r(6) in \<open>simp add: thread_started_def\<close>)
  note m = more_threads [OF more_shim [OF undisturbedD(2) [OF r(4)]]]
  have tn: "t \<notin> set ts" using assms(7) r(7) by blast
  have "next_thread (threads s' x) = next_thread (threads s x)" if "x \<in> set ts" for x
    using r(11) tn that m(1) by (cases "x = t") simp_all
  then have "thread_chain s' (g_thread_list s) ts" using assms(6) thread_chain_cong [of ts s' s] by (simp add: registry_def)
  then have reg: "registry s' (t # ts)"
    using assms(6) r(10,12) tn ts by (simp add: registry_def m thread_started_def)
  then have reg': "registry (s'\<lparr>pxCurrentTCB := new\<rparr>) (t # ts)" using registry_cong [of "s'\<lparr>pxCurrentTCB := new\<rparr>" s'] by simp
  have "pthread_self (s'\<lparr>pxCurrentTCB := new\<rparr>) = Some t"
    using find_thread_registry [OF reg', of new] ts by (simp add: pthread_self_def thread_started_def)
  moreover have "in_task s'" by (rule undisturbed_in_task [OF r(4) it r(2) h])
  moreover have "uxSchedulerSuspended s' = 0" using calmD(6) [OF undisturbedD(1) [OF r(4)]] by simp
  moreover have "pxCurrentTCB s' = pxCurrentTCB s" using calmD(2) [OF undisturbedD(1) [OF r(4)]] r(13) by simp
  ultimately show ?thesis
    by (intro exI [of _ t] exI [of _ q] exI [of _ new] exI [of _ s']) (use r(1,5,7-9,14) m reg ts in simp)
qed

text \<open>
  C37: Creating a thread. With enough heap, \<^verbatim>\<open>pthread_create\<close> returns 0 and has stored in the caller's
  variable a descriptor that is new, is the head of the registry, holds the entry routine and the
  argument, is joinable and has an empty completion semaphore; its task is ready at priority 1, will
  enter \<^verbatim>\<open>posix_thread_wrapper\<close> with the descriptor, and is registered before the scheduler is resumed,
  so that \<^verbatim>\<open>pthread_self\<close> called by the new task returns exactly the handle that the creator got. The
  scheduler is running again and its invariant holds; the other threads stay registered.
\<close>

theorem pthread_create_registers:
  fixes s :: "'a shim_scheme"
  assumes "in_task s" "uxSchedulerSuspended s = 0" "has_room (heap s) 4369" "thread \<noteq> 0" "start \<noteq> 0" "registry s ts" "set ts \<subseteq> live s"
  shows "\<exists>t q new s'. pthread_create wrapper thread start a s = Some (0, s') \<and> in_task s' \<and> uxSchedulerSuspended s' = 0 \<and>
    var s' = (var s)(thread := t) \<and> registry s' (t # ts) \<and> t \<notin> live s \<and> live s \<subseteq> live s' \<and>
    thread_started wrapper start a t q new s' \<and> pthread_self (s'\<lparr>pxCurrentTCB := new\<rparr>) = Some t"
  using pthread_create_ok [OF assms, of wrapper a] by blast

theorem pthread_create_registers_witness:
  "\<exists>t q new s'. pthread_create 44 700 55 66 demo_shim = Some (0, s') \<and> registry s' [t] \<and> var s' 700 = t \<and>
    thread_started 44 55 66 t q new s' \<and> pthread_self (s'\<lparr>pxCurrentTCB := new\<rparr>) = Some t"
proof -
  have r: "registry demo_shim []" "set [] \<subseteq> live demo_shim" "has_room (heap demo_shim) 4369"
    using demo_room by (simp_all add: registry_def)
  show ?thesis using pthread_create_registers [OF demo_shim_in_task(1) _ r(3) _ _ r(1,2), of 700 55 44 66] by auto
qed

end
