(* ===== verification/Posix_Sync.thy ===== *)
theory Posix_Sync
  imports Posix_Props
begin

text \<open>
  Synchronisation in the POSIX layer: counting semaphores as bounded counters, mutexes with their error
  cases, and the hand-over of the exit value from a thread to the thread that joins it.
\<close>

section \<open>Kernel semaphores\<close>

definition sem_ok :: "addr \<Rightarrow> 'a kernel_scheme \<Rightarrow> bool" where
  "sem_ok q k \<longleftrightarrow> (let Q = queues k q in q \<noteq> 0 \<and> \<not> is_mutex Q \<and> uxItemSize Q = 0 \<and> pxQueueSetContainer Q = 0 \<and>
     uxMessagesWaiting Q \<le> uxLength Q)"

abbreviation count :: "addr \<Rightarrow> 'a kernel_scheme \<Rightarrow> nat" where
  "count q k \<equiv> uxMessagesWaiting (queues k q)"

text \<open>Giving adds one and wakes the first waiting task, unless the count is at its maximum.\<close>

lemma semaphore_give:
  assumes inv: "sched_inv k" and q: "sem_ok q k" "count q k < uxLength (queues k q)"
  obtains k' where "xSemaphoreGive q k = Some (True, k')"
    "wakes_head (xTasksWaitingToReceive q) (set_waiting q (count q k + 1) k) k'"
proof -
  let ?l = "xTasksWaitingToReceive q"
  define k1 where "k1 = set_waiting q (count q k + 1) k"
  have inv1: "sched_inv k1" using inv by (simp add: k1_def set_waiting_def)
  have Q: "q \<noteq> 0" "\<not> is_mutex (queues k q)" "uxItemSize (queues k q) = 0" "pxQueueSetContainer (queues k q) = 0"
    using q(1) by (simp_all add: sem_ok_def Let_def)
  have cp: "prvCopyDataToQueue q [] queueSEND_TO_BACK k = Some (False, k1)"
    using Q by (simp add: prvCopyDataToQueue_def k1_def set_waiting_def)
  obtain w k2 where w: "wake_first ?l k1 = Some (w, k2)" "wakes_head ?l k1 (yield_if (w, k2))"
    by (rule wake_yield [OF inv1, of ?l]) auto
  have c1: "pxQueueSetContainer (queues k1 q) = 0" using Q(4) by (simp add: k1_def set_waiting_def)
  have "after_send q queueSEND_TO_BACK (count q k) False k1 = Some (yield_if (w, k2))"
  proof (cases "items k1 ?l = []")
    case True
    then have "w = False" "k2 = k1" using w(1) by (simp_all add: wake_first_def)
    then show ?thesis using c1 True by (simp add: after_send_def yield_if_def)
  next
    case False
    then show ?thesis using w(1) c1 by (simp add: after_send_def wake_first_def)
  qed
  then have "xSemaphoreGive q k = Some (True, yield_if (w, k2))"
    using Q q(2) cp by (simp add: xSemaphoreGive_def xQueueGenericSend_nowait_def xQueueGenericSend_entry_def xQueueGenericSend_try_def bytes_at_def)
  then show ?thesis by (rule that) (use w(2) in \<open>simp add: k1_def\<close>)
qed

lemma semaphore_give_full:
  assumes "q \<noteq> 0" "uxItemSize (queues k q) = 0" "count q k = uxLength (queues k q)"
  shows "xSemaphoreGive q k = Some (False, k)"
  using assms by (simp add: xSemaphoreGive_def xQueueGenericSend_nowait_def xQueueGenericSend_entry_def xQueueGenericSend_try_def)

lemma semaphore_take:
  assumes inv: "sched_inv k" and q: "sem_ok q k" "0 < count q k"
  obtains k' where "xQueueSemaphoreTake_try q fr k = Some (Return True, k')"
    "wakes_head (xTasksWaitingToSend q) (set_waiting q (count q k - 1) k) k'"
proof -
  define k1 where "k1 = set_waiting q (count q k - 1) k"
  have inv1: "sched_inv k1" using inv by (simp add: k1_def set_waiting_def)
  obtain w k2 where w: "wake_first (xTasksWaitingToSend q) k1 = Some (w, k2)" "wakes_head (xTasksWaitingToSend q) k1 (yield_if (w, k2))"
    by (rule wake_yield [OF inv1, of "xTasksWaitingToSend q"]) auto
  have "\<not> is_mutex (queues k1 q)" using q(1) by (simp add: sem_ok_def Let_def k1_def set_waiting_def is_mutex_def)
  then have "xQueueSemaphoreTake_try q fr k = Some (Return True, yield_if (w, k2))"
    using q(2) w(1) by (simp add: xQueueSemaphoreTake_try_def Let_def k1_def)
  then show ?thesis by (rule that) (use w(2) in \<open>simp add: k1_def\<close>)
qed

lemma wakes_head_sem:
  assumes "wakes_head l (set_waiting q n k) k'"
  shows "queues k' = (queues k)(q := (queues k q)\<lparr>uxMessagesWaiting := n\<rparr>)" "kernel.more k' = kernel.more k" "mem k' = mem k"
    "sched_inv k'" "tcb k' = tcb k" "heap k' = heap k" "pxCurrentTCB k' = pxCurrentTCB k" "xSchedulerRunning k' = xSchedulerRunning k"
    "uxSchedulerSuspended k' = uxSchedulerSuspended k" "uxCurrentNumberOfTasks k' = uxCurrentNumberOfTasks k" "xQueueRegistry k' = xQueueRegistry k"
  using wakes_headD [OF assms] wakes_head_kernel [OF assms] more_shim [OF wakes_headD(10) [OF assms]]
  by (simp_all add: set_waiting_def upd_queue_def)

section \<open>Counting semaphores\<close>

text \<open>A bounded counter used by several tasks: posting adds one up to the limit, waiting takes one or is refused.\<close>

datatype 't counter_op = Post 't | Wait 't

fun counter_run :: "('t \<Rightarrow> 's \<Rightarrow> (bool \<times> 's) option) \<Rightarrow> ('t \<Rightarrow> 's \<Rightarrow> (bool \<times> 's) option) \<Rightarrow>
    't counter_op list \<Rightarrow> 's \<Rightarrow> (bool list \<times> 's) option" where
  "counter_run post wait [] s = Some ([], s)"
| "counter_run post wait (oper # os) s = do {
     (b, s) \<leftarrow> (case oper of Post t \<Rightarrow> post t s | Wait t \<Rightarrow> wait t s);
     (bs, s) \<leftarrow> counter_run post wait os s;
     Some (b # bs, s)
   }"

fun user_of :: "'t counter_op \<Rightarrow> 't" where
  "user_of (Post t) = t"
| "user_of (Wait t) = t"

text \<open>The reference: a post succeeds exactly below the limit, a wait exactly above 0.\<close>

fun counter_ref :: "nat \<Rightarrow> 't counter_op list \<Rightarrow> nat \<Rightarrow> bool list \<times> nat" where
  "counter_ref limit [] n = ([], n)"
| "counter_ref limit (Post t # os) n = apfst ((#) (n < limit)) (counter_ref limit os (if n < limit then n + 1 else n))"
| "counter_ref limit (Wait t # os) n = apfst ((#) (0 < n)) (counter_ref limit os (n - 1))"

text \<open>Successful posts minus successful waits.\<close>

fun net_posts :: "'t counter_op list \<Rightarrow> bool list \<Rightarrow> int" where
  "net_posts (Post t # os) (b # bs) = (if b then 1 else 0) + net_posts os bs"
| "net_posts (Wait t # os) (b # bs) = (if b then - 1 else 0) + net_posts os bs"
| "net_posts _ _ = 0"

lemma counter_ref_level: "int (snd (counter_ref limit os n)) = int n + net_posts os (fst (counter_ref limit os n))"
  by (induction limit os n rule: counter_ref.induct) auto

lemma counter_ref_bounded: "n \<le> limit \<Longrightarrow> snd (counter_ref limit os n) \<le> limit"
  by (induction limit os n rule: counter_ref.induct) auto

locale bounded_counter =
  fixes ok :: "'s \<Rightarrow> bool" and level :: "'s \<Rightarrow> nat" and can_run :: "'s \<Rightarrow> 't \<Rightarrow> bool" and limit :: nat
    and post :: "'t \<Rightarrow> 's \<Rightarrow> (bool \<times> 's) option" and wait :: "'t \<Rightarrow> 's \<Rightarrow> (bool \<times> 's) option"
  assumes level_le: "ok s \<Longrightarrow> level s \<le> limit"
    and post_law: "ok s \<Longrightarrow> can_run s t \<Longrightarrow> \<exists>s'. post t s = Some (level s < limit, s') \<and> ok s' \<and>
      level s' = (if level s < limit then level s + 1 else level s) \<and> (\<forall>u. can_run s u \<longrightarrow> can_run s' u)"
    and wait_law: "ok s \<Longrightarrow> can_run s t \<Longrightarrow> \<exists>s'. wait t s = Some (0 < level s, s') \<and> ok s' \<and>
      level s' = level s - 1 \<and> (\<forall>u. can_run s u \<longrightarrow> can_run s' u)"
begin

lemma run_is_ref:
  assumes "ok s" "\<forall>oper \<in> set os. can_run s (user_of oper)"
  shows "\<exists>s'. counter_run post wait os s = Some (fst (counter_ref limit os (level s)), s') \<and> ok s' \<and>
    level s' = snd (counter_ref limit os (level s))"
  using assms
proof (induction os arbitrary: s)
  case (Cons oper os)
  show ?case
  proof (cases oper)
    case (Post t)
    obtain s1 where s1: "post t s = Some (level s < limit, s1)" "ok s1" "level s1 = (if level s < limit then level s + 1 else level s)"
      "\<forall>u. can_run s u \<longrightarrow> can_run s1 u" using post_law [OF Cons.prems(1), of t] Cons.prems(2) Post by auto
    then show ?thesis using Cons.IH [OF s1(2)] Cons.prems(2) Post by auto
  next
    case (Wait t)
    obtain s1 where s1: "wait t s = Some (0 < level s, s1)" "ok s1" "level s1 = level s - 1" "\<forall>u. can_run s u \<longrightarrow> can_run s1 u"
      using wait_law [OF Cons.prems(1), of t] Cons.prems(2) Wait by auto
    then show ?thesis using Cons.IH [OF s1(2)] Cons.prems(2) Wait by auto
  qed
qed simp

lemma run_level:
  assumes "ok s" "\<forall>oper \<in> set os. can_run s (user_of oper)"
  shows "\<exists>bs s'. counter_run post wait os s = Some (bs, s') \<and> (bs, level s') = counter_ref limit os (level s) \<and>
    ok s' \<and> level s' \<le> limit \<and> int (level s') = int (level s) + net_posts os bs"
  using run_is_ref [OF assms] counter_ref_level [of limit os "level s"] counter_ref_bounded [OF level_le [OF assms(1)], of os]
  by (auto simp: prod_eq_iff)

end

text \<open>A POSIX semaphore used by the task \<open>t\<close>: a post, and a wait up to the point where it would block.\<close>

definition post_by :: "addr \<Rightarrow> addr \<Rightarrow> 'a shim_scheme \<Rightarrow> (bool \<times> 'a shim_scheme) option" where
  "post_by sem t s = map_option (\<lambda>(r, s). (r = 0, s)) (sem_post sem (s\<lparr>pxCurrentTCB := t\<rparr>))"

definition wait_by :: "addr \<Rightarrow> addr \<Rightarrow> 'a shim_scheme \<Rightarrow> (bool \<times> 'a shim_scheme) option" where
  "wait_by sem t s = do {
     let s = s\<lparr>pxCurrentTCB := t\<rparr>;
     p \<leftarrow> sem_wait_entry sem s;
     (case p of
        Finished r \<Rightarrow> Some (r = 0, s)
      | Waiting q fr \<Rightarrow> do { (p, s) \<leftarrow> sem_wait_try q fr s; Some (p = Finished 0, s) })
   }"

definition sem_usable :: "addr \<Rightarrow> addr \<Rightarrow> nat \<Rightarrow> 'a shim_scheme \<Rightarrow> bool" where
  "sem_usable sem q n s \<longleftrightarrow> sched_inv s \<and> sem \<noteq> 0 \<and> var s sem = q \<and> sem_ok q s \<and> uxLength (queues s q) = n \<and> uxSchedulerSuspended s = 0"

lemma sem_usable_current [simp]: "sem_usable sem q n (s\<lparr>pxCurrentTCB := t\<rparr>) = sem_usable sem q n s"
  by (simp add: sem_usable_def sem_ok_def)

lemma sem_usable_wakes:
  assumes "wakes_head l (set_waiting q m s) s'" "sem_usable sem q n s" "m \<le> n"
  shows "sem_usable sem q n s'" "count q s' = m"
  using assms(2,3) wakes_head_sem [OF assms(1)] more_threads [OF wakes_head_sem(2) [OF assms(1)]]
  by (simp_all add: sem_usable_def sem_ok_def Let_def is_mutex_def)

lemma ready_wakes_sem:
  assumes "wakes_head l (set_waiting q m s) s'" "sched_inv s" "waiting_list l" "ready s t"
  shows "ready s' t"
  by (rule ready_wakes [OF assms(1)]) (use assms(2-4) in \<open>simp_all add: set_waiting_def ready_def\<close>)

lemma post_by_law:
  assumes ok: "sem_usable sem q n s"
  shows "\<exists>s'. post_by sem t s = Some (count q s < n, s') \<and> sem_usable sem q n s' \<and>
    count q s' = (if count q s < n then count q s + 1 else count q s) \<and> (\<forall>u. ready s u \<longrightarrow> ready s' u)"
proof -
  let ?s = "s\<lparr>pxCurrentTCB := t\<rparr>"
  have S: "sched_inv ?s" "sem \<noteq> 0" "var ?s sem = q" "sem_ok q ?s" "uxLength (queues ?s q) = n" "q \<noteq> 0" "uxItemSize (queues ?s q) = 0"
    "count q ?s \<le> n" using ok by (simp_all add: sem_usable_def sem_ok_def Let_def)
  have rd: "ready ?s u = ready s u" for u by (simp add: ready_def)
  show ?thesis
  proof (cases "count q s < n")
    case True
    then have lt: "count q ?s < uxLength (queues ?s q)" using S(5) by simp
    obtain s' where s': "xSemaphoreGive q ?s = Some (True, s')" "wakes_head (xTasksWaitingToReceive q) (set_waiting q (count q ?s + 1) ?s) s'"
      by (rule semaphore_give [OF S(1,4) lt]) blast
    have u: "sem_usable sem q n s'" "count q s' = count q s + 1"
      using sem_usable_wakes [OF s'(2), of sem n] ok True by simp_all
    have "ready s' v" if "ready s v" for v using ready_wakes_sem [OF s'(2) S(1)] that rd by simp
    then show ?thesis using S(2,3,6) s'(1) u True by (simp add: post_by_def sem_post_def)
  next
    case False
    then have "count q ?s = uxLength (queues ?s q)" using S(5,8) by simp
    then have "xSemaphoreGive q ?s = Some (False, ?s)" by (rule semaphore_give_full [OF S(6,7)])
    then show ?thesis using S(2,3,6) False ok rd by (simp add: post_by_def sem_post_def)
  qed
qed

lemma take_entry_ok:
  "q \<noteq> 0 \<Longrightarrow> uxItemSize (queues k q) = 0 \<Longrightarrow> uxSchedulerSuspended k = 0 \<Longrightarrow> xQueueSemaphoreTake_entry q w k = Some (start_frame w)"
  by (simp add: xQueueSemaphoreTake_entry_def may_block_def xTaskGetSchedulerState_def)

lemma take_try_empty:
  "count q k = 0 \<Longrightarrow> xQueueSemaphoreTake_try q (start_frame portMAX_DELAY) k = Some (Again (enter_time (start_frame portMAX_DELAY) k), k)"
  by (simp add: xQueueSemaphoreTake_try_def empty_try_def portMAX_DELAY_def)

lemma wait_by_law:
  assumes ok: "sem_usable sem q n s"
  shows "\<exists>s'. wait_by sem t s = Some (0 < count q s, s') \<and> sem_usable sem q n s' \<and> count q s' = count q s - 1 \<and>
    (\<forall>u. ready s u \<longrightarrow> ready s' u)"
proof -
  let ?s = "s\<lparr>pxCurrentTCB := t\<rparr>" and ?fr = "start_frame portMAX_DELAY"
  have S: "sched_inv ?s" "sem \<noteq> 0" "var ?s sem = q" "sem_ok q ?s" "uxLength (queues ?s q) = n" "q \<noteq> 0" "uxItemSize (queues ?s q) = 0"
    "count q ?s \<le> n" "uxSchedulerSuspended ?s = 0" using ok by (simp_all add: sem_usable_def sem_ok_def Let_def)
  have rd: "ready ?s u = ready s u" for u by (simp add: ready_def)
  have e: "sem_wait_entry sem ?s = Some (Waiting q ?fr)"
    using S(2,3,6) take_entry_ok [OF S(6,7,9)] by (simp add: sem_wait_entry_def lock_entry_def)
  show ?thesis
  proof (cases "0 < count q s")
    case True
    then have lt: "0 < count q ?s" by simp
    obtain s' where s': "xQueueSemaphoreTake_try q ?fr ?s = Some (Return True, s')" "wakes_head (xTasksWaitingToSend q) (set_waiting q (count q ?s - 1) ?s) s'"
      by (rule semaphore_take [OF S(1,4) lt, of ?fr]) blast
    have u: "sem_usable sem q n s'" "count q s' = count q s - 1"
      using sem_usable_wakes [OF s'(2), of sem n] ok S(8) by simp_all
    have "ready s' v" if "ready s v" for v using ready_wakes_sem [OF s'(2) S(1)] that rd by simp
    then show ?thesis using e s'(1) u True by (simp add: wait_by_def Let_def sem_wait_try_def lock_try_def)
  next
    case False
    then show ?thesis using e take_try_empty [of ?s q] ok rd by (simp add: wait_by_def Let_def sem_wait_try_def lock_try_def)
  qed
qed

interpretation posix_sem: bounded_counter "sem_usable sem q n" "count q" ready n "post_by sem" "wait_by sem"
proof (unfold_locales, goal_cases)
  case (1 s)
  then show ?case by (simp add: sem_usable_def sem_ok_def Let_def)
next
  case (2 s t)
  show ?case by (rule post_by_law [OF 2(1)])
next
  case (3 s t)
  show ?case by (rule wait_by_law [OF 3(1)])
qed

lemma sem_init_usable:
  fixes s :: "'a shim_scheme"
  assumes t: "in_task s" "uxSchedulerSuspended s = 0" and room: "has_room (heap s) 113" and sem: "sem \<noteq> 0" and v: "v \<le> 65535"
  obtains q s' where "sem_init sem v s = Some (0, s')" "in_task s'" "sem_usable sem q 65535 s'" "count q s' = v" "q \<notin> live s" "q \<in> live s'"
    "\<And>u. ready s u \<Longrightarrow> ready s' u"
proof -
  have S: "sound s" using t by (simp add: in_task_def)
  have r: "has_room (heap s) (adjusted_size (sizeof_Queue + 65535 * 0) + 17)" "0 < adjusted_size (sizeof_Queue + 65535 * 0)" "heapMINIMUM_BLOCK_SIZE < 17"
    using room thread_sizes(2,5) by simp_all
  have b: "0 < (65535 :: nat)" "0 \<le> SIZE_MAX div 65535" "65535 * 0 \<le> SIZE_MAX - sizeof_Queue" by simp_all
  obtain q s1 where s1: "xQueueGenericCreate 65535 0 s = Some (q, s1)" "sound s1" "calm s s1" "granted q (sizeof_Queue + 65535 * 0) 17 s s1"
    "queues s1 = (queues s)(q := new_queue 65535 0 q)" "kernel.more s1 = kernel.more s"
    by (rule xQueueGenericCreate_granted [OF S b r]) blast
  note g = grantedD [OF s1(4)] and c = calmD [OF s1(3)]
  define s' where "s' = set_var sem q (set_waiting q v s1)"
  have run: "sem_init sem v s = Some (0, s')"
    using sem v s1(1) g(1) by (simp add: sem_init_def xQueueCreateCountingSemaphore_def s'_def)
  have it1: "in_task s1" by (rule calm_in_task [OF s1(3,2) t(1)])
  have s': "lists s' = lists s1" "tcb s' = tcb s1" "heap s' = heap s1" "pxCurrentTCB s' = pxCurrentTCB s1"
    "uxCurrentNumberOfTasks s' = uxCurrentNumberOfTasks s1" "xSchedulerRunning s' = xSchedulerRunning s1" "var s' sem = q"
    "queues s' q = (new_queue 65535 0 q)\<lparr>uxMessagesWaiting := v\<rparr>" "uxSchedulerSuspended s' = 0" "sched_inv s' = sched_inv s1"
    using c(6) t(2) s1(5) by (simp_all add: s'_def set_waiting_def) (simp_all add: set_var_def)
  have it: "in_task s'" using it1 in_task_cong [OF s'(1-6,10)] by simp
  show ?thesis
  proof (rule that [OF run it])
    show "sem_usable sem q 65535 s'"
      using it s' sem g(1) v by (simp add: sem_usable_def sem_ok_def Let_def new_queue_def empty_queue_def is_mutex_def in_task_def sound_def)
    show "count q s' = v" using s'(8) by simp
    show "q \<notin> live s" "q \<in> live s'" using g(2,5) s'(3) by simp_all
    show "ready s' u" if "ready s u" for u using calm_ready [OF s1(3) that] by (simp add: ready_def s'(1))
  qed
qed

text \<open>
  C19: A POSIX semaphore is a counter between 0 and 65535. With enough heap, \<^verbatim>\<open>sem_init\<close> with a value up
  to 65535 returns 0; afterwards in any sequence of \<^verbatim>\<open>sem_post\<close> calls and \<^verbatim>\<open>sem_wait\<close> attempts by ready
  tasks no call traps and each has the result of the reference counter: a post succeeds exactly when
  the count is below 65535, a wait goes through exactly when it is above 0, and the count is the
  reference's. So the count is the initial value plus the successful posts minus the successful waits
  and stays within the bounds. \<^verbatim>\<open>sem_init\<close> with a larger value does not return -1: it stops in an
  assertion of the kernel.
\<close>

theorem posix_semaphore_counts:
  fixes s :: "'a shim_scheme"
  assumes "in_task s" "uxSchedulerSuspended s = 0" "has_room (heap s) 113" "sem \<noteq> 0"
  shows "(v \<le> 65535 \<longrightarrow> (\<exists>q s1. sem_init sem v s = Some (0, s1) \<and> var s1 sem = q \<and> count q s1 = v \<and>
      (\<forall>os. (\<forall>oper \<in> set os. ready s (user_of oper)) \<longrightarrow>
        (\<exists>bs s'. counter_run (post_by sem) (wait_by sem) os s1 = Some (bs, s') \<and> (bs, count q s') = counter_ref 65535 os v \<and>
          count q s' \<le> 65535 \<and> int (count q s') = int v + net_posts os bs)))) \<and>
    (65535 < v \<longrightarrow> sem_init sem v s = None)"
proof (intro conjI impI)
  assume v: "v \<le> 65535"
  obtain q s1 where s1: "sem_init sem v s = Some (0, s1)" "sem_usable sem q 65535 s1" "count q s1 = v" "\<forall>u. ready s u \<longrightarrow> ready s1 u"
    by (rule sem_init_usable [OF assms v]) blast
  have "\<exists>bs s'. counter_run (post_by sem) (wait_by sem) os s1 = Some (bs, s') \<and> (bs, count q s') = counter_ref 65535 os v \<and>
      count q s' \<le> 65535 \<and> int (count q s') = int v + net_posts os bs" if "\<forall>oper \<in> set os. ready s (user_of oper)" for os
    using posix_sem.run_level [OF s1(2), of os] that s1(3,4) by auto
  then show "\<exists>q s1. sem_init sem v s = Some (0, s1) \<and> var s1 sem = q \<and> count q s1 = v \<and>
      (\<forall>os. (\<forall>oper \<in> set os. ready s (user_of oper)) \<longrightarrow>
        (\<exists>bs s'. counter_run (post_by sem) (wait_by sem) os s1 = Some (bs, s') \<and> (bs, count q s') = counter_ref 65535 os v \<and>
          count q s' \<le> 65535 \<and> int (count q s') = int v + net_posts os bs))"
    using s1(1-3) by (intro exI [of _ q] exI [of _ s1]) (simp add: sem_usable_def)
next
  assume "65535 < v"
  then show "sem_init sem v s = None" using assms(4) by (simp add: sem_init_def xQueueCreateCountingSemaphore_def)
qed

theorem posix_semaphore_counts_witness:
  "(\<exists>q s1 s'. sem_init 700 1 demo_shim = Some (0, s1) \<and>
     counter_run (post_by 700) (wait_by 700) [Wait 1000, Wait 2000, Post 2000, Post 3000] s1 = Some ([True, False, True, True], s') \<and>
     count q s' = 2) \<and>
   (\<exists>q s1 s'. sem_init 700 65534 demo_shim = Some (0, s1) \<and>
     counter_run (post_by 700) (wait_by 700) [Post 1000, Post 2000] s1 = Some ([True, False], s') \<and> count q s' = 65535)"
proof -
  have h: "uxSchedulerSuspended demo_shim = 0" "has_room (heap demo_shim) 113" "700 \<noteq> (0 :: addr)" using demo_room by simp_all
  have r: "ready demo_shim 1000" "ready demo_shim 2000" "ready demo_shim 3000" by (simp_all add: ready_def)
  have run: "\<exists>q s1 s'. sem_init 700 v demo_shim = Some (0, s1) \<and>
      counter_run (post_by 700) (wait_by 700) os s1 = Some (fst (counter_ref 65535 os v), s') \<and> count q s' = snd (counter_ref 65535 os v)"
    if "v \<le> 65535" "\<forall>oper \<in> set os. ready demo_shim (user_of oper)" for v os
    using posix_semaphore_counts [OF demo_shim_in_task(1) h, of v] that by (metis fst_conv snd_conv)
  show ?thesis
    using run [of 1 "[Wait 1000, Wait 2000, Post 2000, Post 3000]"] run [of 65534 "[Post 1000, Post 2000]"] r
    by (simp add: numeral_2_eq_2 del: counter_run.simps)
qed

section \<open>Mutexes\<close>

text \<open>A call of \<^verbatim>\<open>pthread_mutex_lock\<close> up to the point where it returns or would block.\<close>

definition lock_call :: "addr \<Rightarrow> 'a shim_scheme \<Rightarrow> (int progress \<times> 'a shim_scheme) option" where
  "lock_call m s = do {
     p \<leftarrow> pthread_mutex_lock_entry m s;
     (case p of
        Finished r \<Rightarrow> Some (Finished r, s)
      | Waiting q fr \<Rightarrow> pthread_mutex_lock_try q fr s)
   }"

lemma lock_call_eq:
  assumes "m \<noteq> 0" "var s m = q" "mutex_ok q s" "uxSchedulerSuspended s = 0"
  shows "lock_call m s = map_option (lock_outcome q) (xQueueSemaphoreTake_try q (start_frame portMAX_DELAY) s)"
  using assms take_entry_ok [of q s portMAX_DELAY]
  by (simp add: lock_call_def pthread_mutex_lock_entry_def lock_entry_def pthread_mutex_lock_try_def lock_try_def mutex_ok_def Let_def)

lemma unlock_eq:
  assumes "m \<noteq> 0" "var s m = q" "q \<noteq> 0"
  shows "pthread_mutex_unlock m s = map_option (\<lambda>(b, s). (if b then 0 else - 1, s)) (xSemaphoreGive q s)"
  using assms by (cases "xSemaphoreGive q s") (auto simp: pthread_mutex_unlock_def)

lemma give_stranger:
  assumes "mutex_ok q k" "xMutexHolder (queues k q) \<noteq> 0" "xMutexHolder (queues k q) \<noteq> pxCurrentTCB k"
  shows "xSemaphoreGive q k = None"
  using assms by (simp add: xSemaphoreGive_def xQueueGenericSend_nowait_def xQueueGenericSend_entry_def xQueueGenericSend_try_def
      prvCopyDataToQueue_def xTaskPriorityDisinherit_def mutex_ok_def Let_def configASSERT_def)

text \<open>
  C20: The behaviour of a POSIX mutex in every case, for the running thread and a mutex variable \<open>m\<close>
  that holds the kernel mutex \<open>q\<close>. Locking a free mutex returns 0 and makes the caller its holder;
  locking a held mutex does not return but goes on to wait, also when the caller holds it itself (the
  mutex is not recursive); unlocking by the holder returns 0, frees the mutex and readies the first
  waiting thread; unlocking a free mutex returns -1 and changes nothing; unlocking a mutex that another
  thread holds does not return -1 but stops in an assertion of the kernel. NULL arguments and NULL
  handles are refused with -1.
\<close>

theorem posix_mutex_cases:
  fixes s :: "'a shim_scheme"
  assumes s: "sched_inv s" "running_ready s" "uxSchedulerSuspended s = 0" and m: "m \<noteq> 0" "var s m = q" "mutex_ok q s"
  shows "(xMutexHolder (queues s q) = 0 \<longrightarrow> (\<exists>s'. lock_call m s = Some (Finished 0, s') \<and> sched_inv s' \<and> mutex_ok q s' \<and>
      xMutexHolder (queues s' q) = pxCurrentTCB s \<and> var s' = var s)) \<and>
    (xMutexHolder (queues s q) \<noteq> 0 \<longrightarrow> (\<exists>fr. lock_call m s = Some (Waiting q fr, s))) \<and>
    (xMutexHolder (queues s q) = pxCurrentTCB s \<longrightarrow> (\<exists>s'. pthread_mutex_unlock m s = Some (0, s') \<and> sched_inv s' \<and> mutex_ok q s' \<and>
      xMutexHolder (queues s' q) = 0 \<and> var s' = var s \<and>
      (\<forall>t rest. items s (xTasksWaitingToReceive q) = EventItem t # rest \<longrightarrow> t \<noteq> pxCurrentTCB s \<longrightarrow> ready s' t))) \<and>
    (xMutexHolder (queues s q) = 0 \<longrightarrow> pthread_mutex_unlock m s = Some (- 1, s)) \<and>
    (xMutexHolder (queues s q) \<noteq> 0 \<and> xMutexHolder (queues s q) \<noteq> pxCurrentTCB s \<longrightarrow> pthread_mutex_unlock m s = None) \<and>
    lock_call 0 s = Some (Finished (- 1), s) \<and> pthread_mutex_unlock 0 s = Some (- 1, s) \<and>
    (\<forall>n. var s n = 0 \<longrightarrow> lock_call n s = Some (Finished (- 1), s) \<and> pthread_mutex_unlock n s = Some (- 1, s))"
proof -
  have Q: "q \<noteq> 0" "uxItemSize (queues s q) = 0" "uxLength (queues s q) = 1" using m(3) by (simp_all add: mutex_ok_def Let_def)
  have c0: "pxCurrentTCB s \<noteq> 0" by (rule running_nonzero [OF s(1,2)])
  note L = lock_call_eq [OF m s(3)] and U = unlock_eq [OF m(1,2) Q(1)]
  show ?thesis
  proof (intro conjI impI)
    assume h: "xMutexHolder (queues s q) = 0"
    obtain s' where s': "xQueueSemaphoreTake_try q (start_frame portMAX_DELAY) s = Some (Return True, s')" "sched_inv s'"
      "queues s' = (queues s)(q := (queues s q)\<lparr>uxMessagesWaiting := 0, pcTail := pxCurrentTCB s\<rparr>)"
      "tcb s' = (tcb s)(pxCurrentTCB s := (tcb s (pxCurrentTCB s))\<lparr>uxMutexesHeld := uxMutexesHeld (tcb s (pxCurrentTCB s)) + 1\<rparr>)"
      "kernel.more s' = kernel.more s"
      by (rule take_free [OF s(1) m(3) h c0]) blast
    have "mutex_ok q s'" using m(3) c0 by (simp add: mutex_ok_def Let_def s'(3,4) is_mutex_def)
    then show "\<exists>s'. lock_call m s = Some (Finished 0, s') \<and> sched_inv s' \<and> mutex_ok q s' \<and>
      xMutexHolder (queues s' q) = pxCurrentTCB s \<and> var s' = var s"
      using L s'(1-3) more_threads(3) [OF s'(5)] by simp
    have "count q s = uxLength (queues s q)" using h m(3) by (simp add: mutex_ok_def Let_def)
    then show "pthread_mutex_unlock m s = Some (- 1, s)" using U semaphore_give_full [OF Q(1,2)] by simp
  next
    assume "xMutexHolder (queues s q) \<noteq> 0"
    then have "count q s = 0" using m(3) by (simp add: mutex_ok_def Let_def)
    then show "\<exists>fr. lock_call m s = Some (Waiting q fr, s)" using L take_try_empty [of s q] by simp
  next
    assume h: "xMutexHolder (queues s q) = pxCurrentTCB s"
    obtain s' where s': "xQueueGenericSend_nowait q 0 queueSEND_TO_BACK s = Some (True, s')" "sched_inv s'"
      "queues s' = (queues s)(q := (queues s q)\<lparr>pcTail := 0, uxMessagesWaiting := 1\<rparr>)" "kernel.more s' = kernel.more s"
      "\<forall>t rest. items s (xTasksWaitingToReceive q) = EventItem t # rest \<longrightarrow> t \<noteq> pxCurrentTCB s \<longrightarrow> uxSchedulerSuspended s = 0 \<longrightarrow>
         container s' (StateItem t) = Some (pxReadyTasksLists (prio s t)) \<and> (prio s t > prio s' (pxCurrentTCB s) \<longrightarrow> pendSV s')"
      by (rule give_holder [OF s(1,2) m(3) h]) blast
    have "mutex_ok q s'" using m(3) by (simp add: mutex_ok_def Let_def s'(3) is_mutex_def)
    moreover have "ready s' t" if "items s (xTasksWaitingToReceive q) = EventItem t # rest" "t \<noteq> pxCurrentTCB s" for t rest
      using s'(5) that s(3) by (auto simp: ready_def)
    ultimately show "\<exists>s'. pthread_mutex_unlock m s = Some (0, s') \<and> sched_inv s' \<and> mutex_ok q s' \<and>
      xMutexHolder (queues s' q) = 0 \<and> var s' = var s \<and>
      (\<forall>t rest. items s (xTasksWaitingToReceive q) = EventItem t # rest \<longrightarrow> t \<noteq> pxCurrentTCB s \<longrightarrow> ready s' t)"
      using U s'(1-3) more_threads(3) [OF s'(4)] by (auto simp: xSemaphoreGive_def)
  next
    assume "xMutexHolder (queues s q) \<noteq> 0 \<and> xMutexHolder (queues s q) \<noteq> pxCurrentTCB s"
    then show "pthread_mutex_unlock m s = None" using U give_stranger [OF m(3)] by simp
  qed (simp_all add: lock_call_def pthread_mutex_lock_entry_def lock_entry_def pthread_mutex_unlock_def)
qed

theorem posix_mutex_cases_witness:
  "\<exists>s'. lock_call 700 (set_var 700 510 demo_shim) = Some (Finished 0, s') \<and> xMutexHolder (queues s' 510) = 1000"
proof -
  let ?s = "set_var 700 510 demo_shim"
  have e: "lists ?s = lists demo_shim" "tcb ?s = tcb demo_shim" "pxCurrentTCB ?s = 1000" "uxSchedulerSuspended ?s = 0" "queues ?s = demo_queues"
    by (simp_all add: set_var_def)
  have h: "sched_inv ?s" "running_ready ?s" "uxSchedulerSuspended ?s = 0" "(700 :: addr) \<noteq> 0" "var ?s 700 = 510" "mutex_ok 510 ?s"
    "xMutexHolder (queues ?s 510) = 0"
    using demo_shim_inv demo_shim_in_task(2)
    by (simp_all add: running_ready_def e) (simp_all add: set_var_def mutex_ok_def Let_def is_mutex_def demo_queues_def)
  show ?thesis using posix_mutex_cases [OF h(1-6)] h(7) e(3) by auto
qed

section \<open>Exit and join\<close>

text \<open>Moving tasks between lists keeps a state sound, as long as no task appears at a vacant address.\<close>

lemma sound_move:
  assumes s: "sound k" and inv: "sched_inv k'" and h: "heap k' = heap k" and n: "uxCurrentNumberOfTasks k' = uxCurrentNumberOfTasks k"
    and v: "\<And>a. vacant k a \<Longrightarrow> vacant k' a"
  shows "sound k'"
  using soundD [OF s] inv v by (simp add: sound_def objects_live_def h n)

lemma wakes_head_vacant:
  assumes w: "wakes_head l k k'" and inv: "sched_inv k" and l: "waiting_list l" and v: "vacant k a"
  shows "vacant k' a"
proof -
  have "container k' (StateItem a) = None" "container k' (EventItem a) = None"
    using w v unfolding wakes_head_def vacant_def by auto
  moreover have "items k' m = []" if "waiting_list m" "items k m = []" for m
    using wakes_headD(11,12) [OF w] that by (cases "m = l") simp_all
  ultimately show ?thesis using v by (simp add: vacant_def)
qed

lemma vQueueDelete_live:
  fixes s :: "'a kernel_scheme"
  assumes s: "sound s" and q: "q \<in> live s" "\<not> ucStaticallyAllocated (queues s q)"
  obtains s' where "vQueueDelete q s = Some s'" "sched_inv s'" "heap_inv (heap s')" "calm s s'" "live s' = live s - {q}"
    "queues s' = queues s" "kernel.more s' = kernel.more s" "heap_owned (heap s') \<subseteq> heap_owned (heap s)"
proof -
  obtain sz where sz: "(q, sz) \<in> heap_owned (heap s)" using q(1) by force
  define s1 where "s1 = s\<lparr>xQueueRegistry := unregister q (xQueueRegistry s)\<rparr>"
  have i1: "sched_inv s1" "heap_inv (heap s1)" "0 < uxCurrentNumberOfTasks s1" "(q, sz) \<in> heap_owned (heap s1)"
    using soundD [OF s] sz by (simp_all add: s1_def core_inv_def blocked_def)
  have q0: "q \<noteq> 0" using sz by (auto simp: heap_owned_def xHeapStructSize_def)
  obtain s' where s': "vPortFree q s1 = Some s'" "sched_inv s'" "heap_inv (heap s')" "undisturbed s1 s'"
    "heap_owned (heap s') = heap_owned (heap s1) - {(q, sz)}"
    by (rule vPortFree_owned [OF i1]) blast
  have c: "calm s s'" using undisturbedD(1) [OF s'(4)] by (simp add: calm_def unblocks_def blocked_def s1_def)
  have lv: "live s' = live s - {q}" using owned_minus [OF s'(5) i1(4,2)] by (simp add: s1_def)
  have "vQueueDelete q s = Some s'"
    using q0 q(2) s'(1) by (simp add: vQueueDelete_def vQueueUnregisterQueue_def s1_def [symmetric]) (simp add: s1_def)
  then show ?thesis
    by (rule that [OF _ s'(2,3) c lv])
      (use undisturbed_kernel [OF s'(4)] s'(5) in \<open>auto simp: s1_def\<close>)
qed

text \<open>What is left to do once the joiner has the semaphore.\<close>

lemma join_reap:
  fixes s :: "'a shim_scheme"
  assumes s: "sound s" and r: "registry s ts" and q: "join_sem (threads s t) = q" "q \<in> live s" "\<not> ucStaticallyAllocated (queues s q)"
    and t: "t \<in> live s" "t \<noteq> q" and p: "p \<noteq> 0"
  obtains s' where "pthread_join_reap t p s = Some s'" "sched_inv s'" "heap_inv (heap s')" "var s' p = retval (threads s t)"
    "registry s' (remove1 t ts)" "live s' = live s - {t, q}" "calm s s'"
proof -
  define s1 where "s1 = set_var p (retval (threads s t)) s"
  have s1: "threads s1 = threads s" "g_thread_list s1 = g_thread_list s" "lists s1 = lists s" "heap s1 = heap s" "queues s1 = queues s"
    "uxCurrentNumberOfTasks s1 = uxCurrentNumberOfTasks s" "sched_inv s1 = sched_inv s" "var s1 p = retval (threads s t)"
    by (simp_all add: s1_def) (simp_all add: set_var_def)
  have r1: "registry s1 ts" using r registry_cong [of s1 s] by (simp add: s1)
  obtain s2 where s2: "remove_thread t s1 = Some s2" "registry s2 (remove1 t ts)" "relinked s1 s2"
    "\<forall>a. xTask (threads s2 a) = xTask (threads s1 a) \<and> join_sem (threads s2 a) = join_sem (threads s1 a) \<and> retval (threads s2 a) = retval (threads s1 a)"
    by (rule remove_thread_registry [OF r1, of t]) blast
  note R = relinkedD [OF s2(3)]
  have S2: "sound s2" by (rule sound_move [OF s]) (use soundD(1) [OF s] in \<open>simp_all add: R s1 vacant_def\<close>)
  have q2: "q \<in> live s2" "\<not> ucStaticallyAllocated (queues s2 q)" "join_sem (threads s2 t) = q" using q s2(4) by (simp_all add: R s1)
  obtain s3 where s3: "vQueueDelete q s2 = Some s3" "sched_inv s3" "heap_inv (heap s3)" "calm s2 s3" "live s3 = live s2 - {q}"
    "kernel.more s3 = kernel.more s2"
    by (rule vQueueDelete_live [OF S2 q2(1,2)]) blast
  have "t \<in> live s3" unfolding s3(5) using t by (simp add: R s1)
  then obtain sz where sz: "(t, sz) \<in> heap_owned (heap s3)" by force
  have n3: "0 < uxCurrentNumberOfTasks s3" using calmD(4) [OF s3(4)] soundD(4) [OF S2] by simp
  obtain s4 where s4: "vPortFree t s3 = Some s4" "sched_inv s4" "heap_inv (heap s4)" "undisturbed s3 s4"
    "heap_owned (heap s4) = heap_owned (heap s3) - {(t, sz)}"
    by (rule vPortFree_owned [OF s3(2,3) n3 sz]) blast
  note m4 = more_threads [OF more_shim [OF undisturbedD(2) [OF s4(4)]]] and m3 = more_threads [OF s3(6)]
  have run: "pthread_join_reap t p s = Some s4"
    using p s2(1) s3(1) s4(1) q2(3) by (simp add: pthread_join_reap_def Let_def s1_def)
  have l4: "live s4 = live s - {t, q}" unfolding owned_minus [OF s4(5) sz s3(3)] s3(5) by (auto simp: R s1)
  have "calm s s2" by (rule calm_same) (simp_all add: R s1, simp_all add: s1_def set_var_def)
  then have c: "calm s s4" using calm_trans [OF _ calm_trans [OF s3(4) undisturbedD(1) [OF s4(4)]]] by blast
  have "registry s4 (remove1 t ts)" using s2(2) registry_cong [of s4 s2] m3 m4 by simp
  then show ?thesis by (intro that [OF run s4(2,3)]) (use l4 c m3 m4 s1(8) R(8) in simp_all)
qed

text \<open>The running task is the thread \<open>t\<close>, joinable, with the completion semaphore \<open>q\<close> not given yet.\<close>

definition joinable :: "addr \<Rightarrow> addr \<Rightarrow> addr list \<Rightarrow> 'a shim_scheme \<Rightarrow> bool" where
  "joinable t q ts s \<longleftrightarrow> registry s ts \<and> inj_on (\<lambda>x. xTask (threads s x)) (set ts) \<and> t \<in> set ts \<and>
     xTask (threads s t) = pxCurrentTCB s \<and> join_sem (threads s t) = q \<and> \<not> detached (threads s t) \<and>
     sem_ok q s \<and> count q s = 0 \<and> uxLength (queues s q) = 1 \<and> \<not> ucStaticallyAllocated (queues s q) \<and>
     t \<in> live s \<and> q \<in> live s \<and> t \<noteq> q"

lemma exit_signals:
  fixes s :: "'a shim_scheme"
  assumes it: "in_task s" "uxSchedulerSuspended s = 0" and j: "joinable t q ts s"
  obtains s1 where "pthread_exit v s = Some s1" "sound s1" "uxSchedulerSuspended s1 = 0" "xSchedulerRunning s1" "heap s1 = heap s"
    "container s1 (StateItem (pxCurrentTCB s)) = Some xTasksWaitingTermination" "pendSV s1"
    "queues s1 = (queues s)(q := (queues s q)\<lparr>uxMessagesWaiting := 1\<rparr>)" "retval (threads s1 t) = v" "join_sem (threads s1 t) = q"
    "registry s1 ts" "var s1 = var s" "\<And>u. u \<noteq> pxCurrentTCB s \<Longrightarrow> ready s u \<Longrightarrow> ready s1 u"
    "\<And>u rest. items s (xTasksWaitingToReceive q) = EventItem u # rest \<Longrightarrow> ready s1 u"
proof -
  let ?c = "pxCurrentTCB s" and ?l = "xTasksWaitingToReceive q"
  have S: "sound s" "running_ready s" "xSchedulerRunning s" using it(1) by (simp_all add: in_task_def)
  have t0: "t \<noteq> 0" using j thread_chain_nonzero [of s "g_thread_list s" ts] unfolding joinable_def registry_def by metis
  have f: "find_thread ?c s = Some t"
  proof -
    have "registry s ts" "inj_on (\<lambda>x. xTask (threads s x)) (set ts)" "t \<in> set ts" "xTask (threads s t) = ?c"
      using j by (simp_all add: joinable_def)
    then show ?thesis using shim_registry.lookup_live [of s ts t] by simp
  qed
  define s0 where "s0 = upd_thread t (\<lambda>x. x\<lparr>retval := v\<rparr>) s"
  have s0: "queues s0 = queues s" "lists s0 = lists s" "tcb s0 = tcb s" "pxCurrentTCB s0 = ?c" "heap s0 = heap s" "var s0 = var s"
    "uxSchedulerSuspended s0 = 0" "xSchedulerRunning s0" "retval (threads s0 t) = v" "join_sem (threads s0 t) = q" "\<not> detached (threads s0 t)"
    "uxCurrentNumberOfTasks s0 = uxCurrentNumberOfTasks s"
    using j it(2) S(3) by (simp_all add: s0_def joinable_def)
  have i0: "sched_inv s0" using soundD(1) [OF S(1)] by (simp add: s0_def)
  have q0: "sem_ok q s0" "count q s0 < uxLength (queues s0 q)" "count q s0 = 0" using j by (simp_all add: joinable_def sem_ok_def s0)
  obtain s2 where s2: "xSemaphoreGive q s0 = Some (True, s2)" "wakes_head ?l (set_waiting q (count q s0 + 1) s0) s2"
    by (rule semaphore_give [OF i0 q0(1,2)]) blast
  note W = wakes_head_sem [OF s2(2)] and m2 = more_threads [OF wakes_head_sem(2) [OF s2(2)]]
  have rr2: "running_ready s2"
  proof (rule wakes_head_running [OF s2(2)])
  qed (use i0 S(2) in \<open>simp_all add: set_waiting_def running_ready_def s0\<close>)
  have r2: "xSchedulerRunning s2" "uxSchedulerSuspended s2 = 0" using W s0 by simp_all
  obtain s1 where s1: "vTaskDelete 0 s2 = Some s1" "sched_inv s1" "pendSV s1"
    "container s1 = (container s2)(StateItem (pxCurrentTCB s2) := Some xTasksWaitingTermination)"
    "\<forall>l. waiting_list l \<longrightarrow> items s1 l = items s2 l" "tcb s1 = tcb s2" "heap s1 = heap s2"
    "uxCurrentNumberOfTasks s1 = uxCurrentNumberOfTasks s2" "uxSchedulerSuspended s1 = 0" "xSchedulerRunning s1" "sched.more s1 = sched.more s2"
    by (rule vTaskDelete_self [OF W(4) rr2 r2]) blast
  note m1 = more_kernel [OF s1(11)] and mt = more_threads [OF more_kernel(4) [OF s1(11)]]
  have run: "pthread_exit v s = Some s1"
    using f t0 s2(1) s1(1) s0(10,11) by (simp add: pthread_exit_def s0_def [symmetric] Let_def)
  have cur: "pxCurrentTCB s2 = ?c" using W(7) s0(4) by simp
  have iw: "sched_inv (set_waiting q (count q s0 + 1) s0)" using i0 by (simp add: set_waiting_def)
  have vac: "vacant s1 a" if "vacant s a" for a
  proof -
    have "vacant (set_waiting q (count q s0 + 1) s0) a" using that by (simp add: vacant_def set_waiting_def s0)
    then have "vacant s2 a" by (rule wakes_head_vacant [OF s2(2) iw, rotated]) simp
    moreover have "a \<noteq> ?c" using that S(2) by (auto simp: vacant_def running_ready_def)
    ultimately show ?thesis using s1(4,5) cur by (simp add: vacant_def)
  qed
  have snd1: "sound s1"
    by (rule sound_move [OF S(1) s1(2)]) (use s1(7,8) W(6,10) s0(5,12) vac in simp_all)
  have rd: "ready s1 u" if "u \<noteq> ?c" "ready s2 u" for u using that s1(4) cur by (simp add: ready_def)
  show ?thesis
  proof (rule that [OF run snd1 s1(9,10)])
    show "registry s1 ts"
    proof -
      have "thread_chain s0 (g_thread_list s) ts = thread_chain s (g_thread_list s) ts" by (rule thread_chain_cong) (simp add: s0_def)
      then have "registry s0 ts" using j by (simp add: joinable_def registry_def s0_def)
      then show ?thesis using registry_cong [of s1 s0] mt m2 by simp
    qed
    show "ready s1 u" if "u \<noteq> ?c" "ready s u" for u
      by (rule rd [OF that(1) ready_wakes_sem [OF s2(2) i0]]) (use that(2) in \<open>simp_all add: ready_def s0\<close>)
    show "ready s1 u" if h: "items s ?l = EventItem u # rest" for u rest
    proof (rule rd)
      have cu: "container s (EventItem u) = Some ?l"
        using lists_ok_mem [OF core_invD(1) [OF soundD(1) [OF S(1)]], of "EventItem u" ?l] h by simp
      have "container s (EventItem ?c) = None"
        by (rule ready_no_event [OF soundD(1) [OF S(1)]]) (use S(2) in \<open>simp add: running_ready_def\<close>)
      then show "u \<noteq> ?c" using cu by auto
      show "ready s2 u" using s2(2) h s0(7) unfolding wakes_head_def ready_def by (simp add: set_waiting_def s0)
    qed
  qed (use s1 W s0 m1 mt m2 q0(3) cur in simp_all)
qed

text \<open>
  C12: A joiner gets the exit value. When the running, joinable thread \<open>t\<close> calls \<^verbatim>\<open>pthread_exit(v)\<close>, the
  call ends with its task waiting for the idle task to free it and a switch requested, and a thread that
  was already waiting in \<^verbatim>\<open>pthread_join\<close> is ready, as is every other task that was. Whenever a ready thread \<open>u\<close> then tries the completion
  semaphore in \<^verbatim>\<open>pthread_join(t, p)\<close>, the call returns 0 with \<open>v\<close> stored at \<open>p\<close>; the thread is out of the
  registry, the descriptor and the semaphore are freed and nothing else is, and the scheduler and heap
  invariants hold.
\<close>

theorem join_returns_exit_value:
  fixes s :: "'a shim_scheme"
  assumes s: "in_task s" "uxSchedulerSuspended s = 0" and j: "joinable t q ts s" and p: "p \<noteq> 0"
  shows "\<exists>s1. pthread_exit v s = Some s1 \<and> pendSV s1 \<and> container s1 (StateItem (pxCurrentTCB s)) = Some xTasksWaitingTermination \<and>
    (\<forall>u rest. items s (xTasksWaitingToReceive q) = EventItem u # rest \<longrightarrow> ready s1 u) \<and>
    (\<forall>u. u \<noteq> pxCurrentTCB s \<and> ready s u \<longrightarrow> ready s1 u) \<and>
    (\<forall>u. ready s1 u \<longrightarrow> pthread_join_entry t (s1\<lparr>pxCurrentTCB := u\<rparr>) = Some (Waiting q (start_frame portMAX_DELAY)) \<and>
      (\<exists>s2. pthread_join_try t p q (start_frame portMAX_DELAY) (s1\<lparr>pxCurrentTCB := u\<rparr>) = Some (Finished 0, s2) \<and>
        var s2 p = v \<and> registry s2 (remove1 t ts) \<and> live s2 = live s - {t, q} \<and> sched_inv s2 \<and> heap_inv (heap s2)))"
proof -
  obtain s1 where s1: "pthread_exit v s = Some s1" "sound s1" "uxSchedulerSuspended s1 = 0" "xSchedulerRunning s1" "heap s1 = heap s"
    "container s1 (StateItem (pxCurrentTCB s)) = Some xTasksWaitingTermination" "pendSV s1"
    "queues s1 = (queues s)(q := (queues s q)\<lparr>uxMessagesWaiting := 1\<rparr>)" "retval (threads s1 t) = v" "join_sem (threads s1 t) = q"
    "registry s1 ts" "\<forall>u rest. items s (xTasksWaitingToReceive q) = EventItem u # rest \<longrightarrow> ready s1 u"
    "\<forall>u. u \<noteq> pxCurrentTCB s \<longrightarrow> ready s u \<longrightarrow> ready s1 u"
    by (rule exit_signals [OF s j, of v]) blast
  have J: "t \<noteq> 0" "q \<noteq> 0" "sem_ok q s" "uxLength (queues s q) = 1" "t \<in> live s" "q \<in> live s" "t \<noteq> q" "\<not> ucStaticallyAllocated (queues s q)"
    using j thread_chain_nonzero [of s "g_thread_list s" ts] unfolding joinable_def registry_def sem_ok_def by (metis | blast)+
  have "pthread_join_entry t (s1\<lparr>pxCurrentTCB := u\<rparr>) = Some (Waiting q (start_frame portMAX_DELAY)) \<and>
      (\<exists>s2. pthread_join_try t p q (start_frame portMAX_DELAY) (s1\<lparr>pxCurrentTCB := u\<rparr>) = Some (Finished 0, s2) \<and>
        var s2 p = v \<and> registry s2 (remove1 t ts) \<and> live s2 = live s - {t, q} \<and> sched_inv s2 \<and> heap_inv (heap s2))"
    if u: "ready s1 u" for u
  proof -
    let ?s = "s1\<lparr>pxCurrentTCB := u\<rparr>" and ?fr = "start_frame portMAX_DELAY"
    have S: "sound ?s" by (rule sound_move [OF s1(2)]) (use soundD(1) [OF s1(2)] in \<open>simp_all add: vacant_def\<close>)
    have Q: "sem_ok q ?s" "0 < count q ?s" "uxItemSize (queues ?s q) = 0" "uxSchedulerSuspended ?s = 0" "count q ?s = 1"
      using J(3,4) s1(3) by (simp_all add: sem_ok_def Let_def s1(8) is_mutex_def)
    have e: "pthread_join_entry t ?s = Some (Waiting q ?fr)"
      using J(1) s1(10) take_entry_ok [OF J(2) Q(3,4)] by (simp add: pthread_join_entry_def)
    obtain s3 where s3: "xQueueSemaphoreTake_try q ?fr ?s = Some (Return True, s3)" "wakes_head (xTasksWaitingToSend q) (set_waiting q (count q ?s - 1) ?s) s3"
      by (rule semaphore_take [OF soundD(1) [OF S] Q(1,2), of ?fr]) blast
    note W = wakes_head_sem [OF s3(2)] and m = more_threads [OF wakes_head_sem(2) [OF s3(2)]]
    have iw: "sched_inv (set_waiting q (count q ?s - 1) ?s)" using soundD(1) [OF S] by (simp add: set_waiting_def)
    have vac: "vacant s3 a" if "vacant ?s a" for a
      by (rule wakes_head_vacant [OF s3(2) iw]) (use that in \<open>simp_all add: vacant_def set_waiting_def\<close>)
    have S3: "sound s3" by (rule sound_move [OF S W(4)]) (use W(6,10) vac in simp_all)
    have f3: "registry s3 ts" "join_sem (threads s3 t) = q" "q \<in> live s3" "\<not> ucStaticallyAllocated (queues s3 q)" "t \<in> live s3"
      "retval (threads s3 t) = v"
      using s1(11) registry_cong [of s3 s1] m s1(9,10) W(1,6) s1(5,8) J(5,6,8) by simp_all
    obtain s2 where s2: "pthread_join_reap t p s3 = Some s2" "sched_inv s2" "heap_inv (heap s2)" "var s2 p = retval (threads s3 t)"
      "registry s2 (remove1 t ts)" "live s2 = live s3 - {t, q}"
      by (rule join_reap [OF S3 f3(1-5) J(7) p]) blast
    have "pthread_join_try t p q ?fr ?s = Some (Finished 0, s2)"
      using s3(1) s2(1) by (simp add: pthread_join_try_def join_outcome_def)
    then show ?thesis using e s2(2-6) f3(6) W(6) s1(5) by auto
  qed
  then show ?thesis using s1(1,6,7,12,13) by (intro exI [of _ s1]) simp
qed

theorem join_returns_exit_value_witness:
  "\<exists>t q new s s1 s2. pthread_create 44 700 55 66 demo_shim = Some (0, s) \<and> pthread_exit 99 (s\<lparr>pxCurrentTCB := new\<rparr>) = Some s1 \<and>
    pthread_join_try t 800 q (start_frame portMAX_DELAY) (s1\<lparr>pxCurrentTCB := 1000\<rparr>) = Some (Finished 0, s2) \<and>
    var s2 800 = 99 \<and> registry s2 []"
proof -
  have r: "registry demo_shim []" "set [] \<subseteq> live demo_shim" "has_room (heap demo_shim) 4369" "uxSchedulerSuspended demo_shim = 0"
    "700 \<noteq> (0 :: addr)" "55 \<noteq> (0 :: addr)" using demo_room by (simp_all add: registry_def)
  obtain t q new s where s: "pthread_create 44 700 55 66 demo_shim = Some (0, s)" "in_task s" "uxSchedulerSuspended s = 0"
    "registry s [t]" "thread_started 44 55 66 t q new s" "pxCurrentTCB s = 1000" "vacant demo_shim new"
    using pthread_create_ok [OF demo_shim_in_task(1) r(4,3,5,6,1,2), of 44 66] by auto
  let ?s = "s\<lparr>pxCurrentTCB := new\<rparr>"
  note T = s(5) [unfolded thread_started_def]
  have rn: "ready s new" "ready s 1000"
    using T s(2,6) by (auto simp: ready_def in_task_def running_ready_def)
  have it: "in_task ?s" by (rule in_task_current [OF s(2) rn(1)])
  have "registry ?s [t]" using s(4) registry_cong [of ?s s] by simp
  then have j: "joinable t q [t] ?s" using T by (simp add: joinable_def sem_ok_def Let_def new_queue_def empty_queue_def is_mutex_def)
  have s0: "uxSchedulerSuspended ?s = 0" and p8: "800 \<noteq> (0 :: addr)" using s(3) by simp_all
  have ne: "1000 \<noteq> pxCurrentTCB ?s" using s(7) by (auto simp: vacant_def)
  obtain s1 where s1: "pthread_exit 99 ?s = Some s1" "\<forall>u. u \<noteq> pxCurrentTCB ?s \<and> ready ?s u \<longrightarrow> ready s1 u"
    "\<forall>u. ready s1 u \<longrightarrow> (\<exists>s2. pthread_join_try t 800 q (start_frame portMAX_DELAY) (s1\<lparr>pxCurrentTCB := u\<rparr>) = Some (Finished 0, s2) \<and>
        var s2 800 = 99 \<and> registry s2 (remove1 t [t]))"
    using join_returns_exit_value [OF it s0 j p8, of 99] by metis
  have "ready s1 1000" using s1(2) ne rn(2) by (simp add: ready_def)
  then show ?thesis using s(1) s1(1,3) by fastforce
qed

end
