(* ===== verification/Sys_Props.thy ===== *)
theory Sys_Props
  imports Sys_Arch FR_Timeout Posix_Sync
begin

text \<open>
  The network stack's operating system layer: mailboxes are bounded first-in first-out buffers of
  pointers, and a wait with a time-out that nobody answers ends after exactly that many milliseconds.
\<close>

section \<open>Mailboxes\<close>

lemma SYS_MBOX_EMPTY_nonzero [simp]: "SYS_MBOX_EMPTY \<noteq> 0" "0 \<noteq> SYS_MBOX_EMPTY"
  by (simp_all add: SYS_MBOX_EMPTY_def SYS_ARCH_TIMEOUT_def)

text \<open>One post and one fetch without waiting, as a client sees them.\<close>

definition mbox_post :: "addr \<Rightarrow> addr \<Rightarrow> addr \<Rightarrow> 'a shim_scheme \<Rightarrow> (bool \<times> 'a shim_scheme) option" where
  "mbox_post argp mbox msg s = map_option (\<lambda>(e, s). (e = ERR_OK, s)) (sys_mbox_trypost argp mbox msg s)"

definition mbox_take :: "addr \<Rightarrow> addr \<Rightarrow> addr \<Rightarrow> 'a shim_scheme \<Rightarrow> (addr option \<times> 'a shim_scheme) option" where
  "mbox_take dummy mbox msg s = map_option
     (\<lambda>(r, s). (if r = SYS_MBOX_EMPTY then None else Some (bytes_pointer (bytes_at (mem s) (msg_target dummy msg) 4)), s))
     (sys_arch_mbox_tryfetch dummy mbox msg s)"

definition mbox_usable :: "addr \<Rightarrow> addr \<Rightarrow> nat \<Rightarrow> addr \<Rightarrow> addr \<Rightarrow> 'a shim_scheme \<Rightarrow> bool" where
  "mbox_usable mbox q n argp buf s \<longleftrightarrow> var s mbox = q \<and> queue_usable q n 4 argp buf s"

definition messages :: "addr \<Rightarrow> 'a shim_scheme \<Rightarrow> addr list" where
  "messages q s = map bytes_pointer (queue_items (queues s q) (mem s))"

lemma send_item_keeps:
  fixes k :: "'a kernel_scheme"
  assumes k: "queue_usable q n sz item buf k" and bs: "length bs = sz" and run: "send_item q item bs k = Some (b, k')"
  shows "kernel.more k' = kernel.more k"
proof (cases "uxMessagesWaiting (queues k q) < n")
  case True
  define k0 where "k0 = k\<lparr>mem := write_bytes item bs (mem k)\<rparr>"
  have k0: "sched_inv k0" "q \<noteq> 0" "item \<noteq> 0" "0 < uxItemSize (queues k0 q)" "pxQueueSetContainer (queues k0 q) = 0"
    "uxMessagesWaiting (queues k0 q) < uxLength (queues k0 q) \<and> queueSEND_TO_BACK \<noteq> queueOVERWRITE \<or>
      queueSEND_TO_BACK = queueOVERWRITE \<and> uxLength (queues k0 q) = 1"
    using k True by (simp_all add: queue_usable_def k0_def ring_ok_def)
  obtain k1 where "xQueueGenericSend_nowait q item queueSEND_TO_BACK k0 = Some (True, k1)"
    "wakes_head (xTasksWaitingToReceive q) (sent q queueSEND_TO_BACK (bytes_at (mem k0) item (uxItemSize (queues k0 q))) k0) k1"
    by (rule send_nowait_room [OF k0]) blast
  then show ?thesis using run wakes_head_kernel(4) [of "xTasksWaitingToReceive q" _ k']
    by (auto simp: send_item_def k0_def [symmetric] sent_def split_beta) (simp add: k0_def)
next
  case False
  then show ?thesis using run k
    by (auto simp: send_item_def queue_usable_def xQueueGenericSend_nowait_def xQueueGenericSend_entry_def
        xQueueGenericSend_try_def ring_ok_def)
qed

lemma receive_keeps:
  fixes k :: "'a kernel_scheme"
  assumes "sched_inv k" "xQueueReceive_try q buf fr k = Some (a, k')"
  shows "kernel.more k' = kernel.more k"
proof (cases "uxMessagesWaiting (queues k q) = 0")
  case True
  then show ?thesis using assms(2) by (auto simp: xQueueReceive_try_def empty_try_def)
next
  case False
  obtain k1 where "xQueueReceive_try q buf fr k = Some (Return True, k1)" "wakes_head (xTasksWaitingToSend q) (received q buf k) k1"
    by (rule xQueueReceive_try_some [OF assms(1), of q buf fr]) (use False in auto)
  then show ?thesis using assms(2) wakes_head_kernel(4) [of "xTasksWaitingToSend q" "received q buf k" k']
    by (simp add: received_def prvCopyDataFromQueue_def split_beta set_waiting_def Let_def)
qed

lemma mbox_post_law:
  fixes s :: "'a shim_scheme"
  assumes s: "mbox_usable mbox q n argp buf s" and m: "msg < 2 ^ 32"
  defines "len \<equiv> length (messages q s)"
  shows "\<exists>s'. mbox_post argp mbox msg s = Some (len < n, s') \<and> mbox_usable mbox q n argp buf s' \<and>
    messages q s' = (if len < n then messages q s @ [msg] else messages q s)"
proof -
  have u: "queue_usable q n 4 argp buf s" "var s mbox = q" using s by (simp_all add: mbox_usable_def)
  obtain s' where s': "send_item q argp (pointer_bytes msg) s = Some (len < n, s')" "queue_usable q n 4 argp buf s'"
    "queue_items (queues s' q) (mem s') =
      (if len < n then queue_items (queues s q) (mem s) @ [pointer_bytes msg] else queue_items (queues s q) (mem s))"
    using send_item_law [OF u(1) length_pointer_bytes] by (auto simp: len_def messages_def)
  have "var s' = var s" by (rule more_threads(3) [OF send_item_keeps [OF u(1) length_pointer_bytes s'(1)]])
  moreover have "mbox_post argp mbox msg s = Some (len < n, s')"
    using s'(1) u(2) by (simp add: mbox_post_def sys_mbox_trypost_def put_argument_def send_item_def Let_def)
  ultimately show ?thesis using s'(2,3) u(2) pointer_roundtrip [OF m] by (simp add: mbox_usable_def messages_def)
qed

lemma mbox_take_law:
  fixes s :: "'a shim_scheme"
  assumes s: "mbox_usable mbox q n argp (msg_target dummy msg) s"
  shows "\<exists>s'. mbox_take dummy mbox msg s = Some (case messages q s of [] \<Rightarrow> None | x # _ \<Rightarrow> Some x, s') \<and>
    mbox_usable mbox q n argp (msg_target dummy msg) s' \<and> messages q s' = tl (messages q s)"
proof -
  let ?b = "msg_target dummy msg"
  have u: "queue_usable q n 4 argp ?b s" "var s mbox = q" using s by (simp_all add: mbox_usable_def)
  obtain s' where s': "receive_item q ?b s = Some (case queue_items (queues s q) (mem s) of [] \<Rightarrow> None | x # _ \<Rightarrow> Some x, s')"
    "queue_usable q n 4 argp ?b s'" "queue_items (queues s' q) (mem s') = tl (queue_items (queues s q) (mem s))"
    using receive_item_law [OF u(1)] by blast
  have en: "xQueueReceive_entry q ?b 0 s = Some (start_frame 0)"
    using u(1) by (simp add: xQueueReceive_entry_def queue_usable_def)
  obtain a s1 where a: "xQueueReceive_try q ?b (start_frame 0) s = Some (a, s1)"
    using s'(1) en by (auto simp: receive_item_def bind_eq_Some_conv)
  have e: "s1 = s'" using s'(1) en a by (cases a) (auto simp: receive_item_def split: bool.splits if_splits)
  note a = a [unfolded e]
  have "var s' = var s" by (rule more_threads(3) [OF receive_keeps [OF _ a]]) (use u(1) in \<open>simp add: queue_usable_def\<close>)
  moreover have "mbox_take dummy mbox msg s = Some (case messages q s of [] \<Rightarrow> None | x # _ \<Rightarrow> Some x, s')"
    using s'(1,2) en a u(2)
    by (cases "queue_items (queues s q) (mem s)")
      (auto simp: mbox_take_def sys_arch_mbox_tryfetch_def receive_item_def messages_def Let_def
        queue_usable_def split: attempt.splits bool.splits, metis SYS_MBOX_EMPTY_nonzero(2))
  ultimately show ?thesis using s'(2,3) u(2) by (simp add: mbox_usable_def messages_def map_tl)
qed

interpretation mailbox: bounded_fifo "mbox_usable mbox q n argp (msg_target dummy msg)" "messages q" n "\<lambda>p. p < 2 ^ 32"
  "mbox_post argp mbox" "mbox_take dummy mbox msg"
proof (unfold_locales, goal_cases)
  case (1 s p)
  then show ?case by (rule mbox_post_law)
next
  case (2 s)
  then show ?case by (rule mbox_take_law)
next
  case (3 s)
  then show ?case by (simp add: mbox_usable_def messages_def queue_usable_def ring_ok_def)
qed

lemma adjusted_size_pos: "0 < x \<Longrightarrow> x + 16 \<le> SIZE_MAX \<Longrightarrow> 0 < adjusted_size x"
  by (auto simp: adjusted_size_def heap_defs cfg_defs Let_def)

lemma has_room_less: "has_room h n \<Longrightarrow> m \<le> n \<Longrightarrow> has_room h m"
  unfolding has_room_def using le_trans by blast

lemma new_ring: "0 < n \<Longrightarrow> ring_ok (new_queue n 4 q)" "queue_items (new_queue n 4 q) m = []"
proof -
  assume n: "0 < n"
  have r: "read_index (new_queue n 4 q) = n - 1" by (simp add: read_index_def new_queue_def empty_queue_def Let_def)
  have "Suc (n - 1) = n" using n by simp
  then show "ring_ok (new_queue n 4 q)"
    using n unfolding ring_ok_def r by (simp add: new_queue_def empty_queue_def Let_def)
qed (simp add: queue_items_def new_queue_def empty_queue_def Let_def)

lemma core_inv_registry [simp]:
  "core_inv X strict (k\<lparr>xQueueRegistry := r\<rparr>) = core_inv X strict k" "core_inv X strict (s\<lparr>var := v\<rparr>) = core_inv X strict s"
  by (simp_all add: core_inv_def blocked_def)

lemma sys_mbox_new_usable:
  fixes s :: "'a shim_scheme"
  assumes s: "in_task s" and n: "0 < n" "n < 2 ^ 29" and room: "has_room (heap s) (4 * n + 117)"
  obtains q s' where "sys_mbox_new mbox (int n) s = Some (ERR_OK, s')" "in_task s'" "var s' mbox = q" "q \<noteq> 0"
    "queues s' q = new_queue n 4 q" "q \<notin> live s" "q \<in> live s'" "uxSchedulerSuspended s' = uxSchedulerSuspended s"
proof -
  have S: "sound s" using s by (simp add: in_task_def)
  have w: "unat (word_of_int (int n) :: u32) = n" using n(2) by (simp add: unat_of_nat)
  let ?x = "sizeof_Queue + n * 4"
  have x: "0 < adjusted_size ?x" by (rule adjusted_size_pos) (use n(2) in \<open>simp_all add: sizeof_Queue_def SIZE_MAX_def\<close>)
  have "adjusted_size ?x + 17 \<le> 4 * n + 117"
    using adjusted_size_ok(3) [OF x] by (simp add: sizeof_Queue_def)
  then have r: "has_room (heap s) (adjusted_size ?x + 17)" by (rule has_room_less [OF room])
  have b: "4 \<le> SIZE_MAX div n" "n * 4 \<le> SIZE_MAX - sizeof_Queue" "heapMINIMUM_BLOCK_SIZE < 17"
    using n thread_sizes(5) by (simp_all add: less_eq_div_iff_mult_less_eq SIZE_MAX_def sizeof_Queue_def)
  obtain q s1 where s1: "xQueueGenericCreate n 4 s = Some (q, s1)" "sound s1" "calm s s1" "granted q ?x 17 s s1"
    "queues s1 = (queues s)(q := new_queue n 4 q)"
    by (rule xQueueGenericCreate_granted [OF S n(1) b(1,2) r x b(3)]) blast
  note g = grantedD [OF s1(4)]
  define s' where "s' = (case registry_slot q 0 None (xQueueRegistry s1) of
      Some ux \<Rightarrow> (set_var mbox q s1)\<lparr>xQueueRegistry := (xQueueRegistry s1)[ux := (Some ''lwip_mbox'', q)]\<rparr>
    | None \<Rightarrow> set_var mbox q s1)"
  have s': "vQueueAddToRegistry q (Some ''lwip_mbox'') (set_var mbox q s1) = Some s'"
    using g(1) by (simp add: vQueueAddToRegistry_def s'_def set_var_def split: option.split)
  have f: "lists s' = lists s1" "tcb s' = tcb s1" "heap s' = heap s1" "pxCurrentTCB s' = pxCurrentTCB s1"
    "uxCurrentNumberOfTasks s' = uxCurrentNumberOfTasks s1" "xSchedulerRunning s' = xSchedulerRunning s1"
    "var s' mbox = q" "queues s' = queues s1" "uxSchedulerSuspended s' = uxSchedulerSuspended s1" "sched_inv s' = sched_inv s1"
    by (simp_all add: s'_def set_var_def split: option.split)
  have i1: "in_task s1" by (rule calm_in_task [OF s1(3,2) s])
  show ?thesis
  proof (rule that [of s' q])
    show "sys_mbox_new mbox (int n) s = Some (ERR_OK, s')"
      using s1(1) s' w f(7) g(1) by (simp add: sys_mbox_new_def sys_register_def Let_def set_var_def)
    show "in_task s'" using i1 in_task_cong [OF f(1-6,10)] by simp
    show "uxSchedulerSuspended s' = uxSchedulerSuspended s" using f(9) calmD(6) [OF s1(3)] by simp
  qed (use f s1(5) g in simp_all)
qed

text \<open>
  C13: A mailbox is a bounded first-in first-out buffer of pointers. With enough heap, \<^verbatim>\<open>sys_mbox_new\<close> for
  \<open>n\<close> messages returns \<^verbatim>\<open>ERR_OK\<close> and an empty valid mailbox; then for every sequence of
  \<^verbatim>\<open>sys_mbox_trypost\<close> and \<^verbatim>\<open>sys_arch_mbox_tryfetch\<close> calls, with arguments and targets outside of the
  mailbox's own storage, no call traps and every call has the result of the reference on lists: a post
  is accepted exactly when fewer than \<open>n\<close> pointers are inside, a fetch gets the oldest pointer exactly
  when there is one, and the pointers left are those of the reference. So the pointers fetched followed
  by those still inside are the pointers that were accepted, in order and unchanged, and there are at
  most \<open>n\<close> inside. A NULL target discards the message.
\<close>

theorem mailbox_fifo:
  fixes s :: "'a shim_scheme"
  assumes "in_task s" "0 < n" "n < 2 ^ 29" "has_room (heap s) (4 * n + 117)" "mbox \<noteq> 0"
  shows "\<exists>q s'. sys_mbox_new mbox (int n) s = Some (ERR_OK, s') \<and> sys_mbox_valid mbox s' \<and> var s' mbox = q \<and> messages q s' = [] \<and>
    (\<forall>argp dummy msg os. argp \<noteq> 0 \<and> msg_target dummy msg \<noteq> 0 \<and> apart argp 4 (queues s' q) \<and>
       apart (msg_target dummy msg) 4 (queues s' q) \<and> (\<forall>p. Send p \<in> set os \<longrightarrow> p < 2 ^ 32) \<longrightarrow>
       (\<exists>rs s''. fifo_run (mbox_post argp mbox) (mbox_take dummy mbox msg) os s' = Some (rs, s'') \<and>
          (rs, messages q s'') = fifo_ref n os [] \<and>
          accepted_items os rs = received_items rs @ messages q s'' \<and> length (messages q s'') \<le> n))"
proof -
  obtain q s' where s': "sys_mbox_new mbox (int n) s = Some (ERR_OK, s')" "in_task s'" "var s' mbox = q" "q \<noteq> 0"
    "queues s' q = new_queue n 4 q"
    by (rule sys_mbox_new_usable [OF assms(1-4)]) blast
  have e: "messages q s' = []" using s'(5) new_ring(2) by (simp add: messages_def)
  have "\<exists>rs s''. fifo_run (mbox_post argp mbox) (mbox_take dummy mbox msg) os s' = Some (rs, s'') \<and>
      (rs, messages q s'') = fifo_ref n os [] \<and>
      accepted_items os rs = received_items rs @ messages q s'' \<and> length (messages q s'') \<le> n"
    if a: "argp \<noteq> 0" "msg_target dummy msg \<noteq> 0" "apart argp 4 (queues s' q)" "apart (msg_target dummy msg) 4 (queues s' q)"
      and os: "\<forall>p. Send p \<in> set os \<longrightarrow> p < 2 ^ 32" for argp dummy msg os
  proof -
    have "uxLength (queues s' q) = n" "uxItemSize (queues s' q) = 4" "pxQueueSetContainer (queues s' q) = 0"
      by (simp_all add: s'(5) new_queue_def empty_queue_def Let_def)
    then have u: "mbox_usable mbox q n argp (msg_target dummy msg) s'"
      using a s' new_ring(1) [OF assms(2)] by (simp add: mbox_usable_def queue_usable_def in_task_def sound_def)
    obtain rs s'' where "fifo_run (mbox_post argp mbox) (mbox_take dummy mbox msg) os s' = Some (rs, s'')"
      "(rs, messages q s'') = fifo_ref n os (messages q s')"
      "messages q s' @ accepted_items os rs = received_items rs @ messages q s''" "length (messages q s'') \<le> n"
      using mailbox.run_law [OF u os] by blast
    then show ?thesis using e by auto
  qed
  then show ?thesis using s' assms(5) e by (intro exI [of _ q] exI [of _ s']) (simp add: sys_mbox_valid_def sys_valid_def)
qed

theorem mailbox_fifo_witness:
  "\<exists>q s' argp msg s''. sys_mbox_new 700 2 demo_shim = Some (ERR_OK, s') \<and> sys_mbox_valid 700 s' \<and> messages q s' = [] \<and>
    fifo_run (mbox_post argp 700) (mbox_take 0 700 msg) [Send 41, Send 42, Send 43, Receive, Send 44, Receive, Receive, Receive] s' =
      Some ([Accepted True, Accepted True, Accepted False, Received (Some 41), Accepted True, Received (Some 42),
        Received (Some 44), Received None], s'') \<and> messages q s'' = []"
proof -
  let ?os = "[Send 41, Send 42, Send 43, Receive, Send 44, Receive, Receive, Receive] :: addr fifo_op list"
  have r: "has_room (heap demo_shim) (4 * 2 + 117)" using demo_room [of 125] by simp
  obtain q s' where s': "sys_mbox_new 700 2 demo_shim = Some (ERR_OK, s')" "sys_mbox_valid 700 s'" "messages q s' = []"
    "\<forall>argp dummy msg os. argp \<noteq> 0 \<and> msg_target dummy msg \<noteq> 0 \<and> apart argp 4 (queues s' q) \<and>
       apart (msg_target dummy msg) 4 (queues s' q) \<and> (\<forall>p. Send p \<in> set os \<longrightarrow> p < 2 ^ 32) \<longrightarrow>
       (\<exists>rs s''. fifo_run (mbox_post argp 700) (mbox_take dummy 700 msg) os s' = Some (rs, s'') \<and>
          (rs, messages q s'') = fifo_ref 2 os [] \<and>
          accepted_items os rs = received_items rs @ messages q s'' \<and> length (messages q s'') \<le> 2)"
    using mailbox_fifo [OF demo_shim_in_task(1) _ _ r, of 700] by auto
  let ?a = "pcTail (queues s' q) + 1"
  have "msg_target 0 ?a = ?a" by (simp add: msg_target_def)
  then have "\<exists>rs s''. fifo_run (mbox_post ?a 700) (mbox_take 0 700 ?a) ?os s' = Some (rs, s'') \<and> (rs, messages q s'') = fifo_ref 2 ?os []"
    using s'(4) [rule_format, of ?a 0 ?a ?os] by (auto simp: apart_def)
  then show ?thesis using s'(1-3) 
    by - (rule exI [of _ q], rule exI [of _ s'], rule exI [of _ ?a], rule exI [of _ ?a], auto simp del: fifo_run.simps)
qed

section \<open>Time-outs\<close>

lemma wait_ticks_id: "t \<noteq> 0 \<Longrightarrow> wait_ticks t = t"
  by (simp add: wait_ticks_def pdMS_TO_TICKS_id)

text \<open>
  C34: A fetch that nobody answers times out after exactly the given time. A task that calls
  \<^verbatim>\<open>sys_arch_mbox_fetch\<close> on an empty mailbox with a time-out of \<open>t\<close> milliseconds, \<open>t\<close> neither 0 nor
  0xffffffff, blocks and another task runs; after any smaller number of ticks it is still delayed; after
  \<open>t\<close> ticks it is ready, and when it runs again it returns \<^verbatim>\<open>SYS_ARCH_TIMEOUT\<close> with the mailbox as it
  was and \<^verbatim>\<open>sys_now\<close> exactly \<open>t\<close> later, whether or not the tick count wrapped meanwhile.
\<close>

theorem mbox_fetch_times_out:
  fixes s :: "'a shim_scheme"
  assumes s: "sched_inv s" "running_ready s" "uxSchedulerSuspended s = 0" "xPendedTicks s = 0" "0 < uxCurrentNumberOfTasks s"
    and q: "var s mbox = q" "q \<noteq> 0" "msg_target dummy msg \<noteq> 0" "uxMessagesWaiting (queues s q) = 0" "unlocked (queues s q)"
    and u: "container s (StateItem u) = Some (pxReadyTasksLists p)" "u \<noteq> pxCurrentTCB s"
    and t: "t \<noteq> 0" "t \<noteq> 0xffffffff" "\<not> ucDelayAborted (tcb s (pxCurrentTCB s))" "xSchedulerRunning s"
  shows "\<exists>start buf fr0 fr s1 s2 s3 s4.
    sys_arch_mbox_fetch_entry dummy mbox msg t s = Some (start, buf, Waiting q fr0) \<and>
    sys_arch_mbox_fetch_try start buf q fr0 s = Some (Waiting q fr, s) \<and>
    sys_arch_mbox_fetch_block start q fr s = Some (Waiting q fr, s1) \<and>
    vTaskSwitchContext s1 = Some s2 \<and> pxCurrentTCB s2 \<noteq> pxCurrentTCB s \<and>
    (\<forall>m < unat t. \<exists>s'. ticks m s2 = Some s' \<and> delayed s' (pxCurrentTCB s)) \<and>
    ticks (unat t) s2 = Some s3 \<and>
    container s3 (StateItem (pxCurrentTCB s)) = Some (pxReadyTasksLists (prio s (pxCurrentTCB s))) \<and>
    sys_arch_mbox_fetch_try start buf q fr (s3\<lparr>pxCurrentTCB := pxCurrentTCB s\<rparr>) =
      Some (Waiting q fr, s3\<lparr>pxCurrentTCB := pxCurrentTCB s\<rparr>) \<and>
    sys_arch_mbox_fetch_block start q fr (s3\<lparr>pxCurrentTCB := pxCurrentTCB s\<rparr>) = Some (Finished SYS_ARCH_TIMEOUT, s4) \<and>
    queues s4 = queues s \<and> var s4 = var s \<and> sys_now s4 = sys_now s + t"
proof -
  let ?b = "msg_target dummy msg"
  have w: "wait_ticks t = t" "t \<noteq> portMAX_DELAY" using t wait_ticks_id by (simp_all add: portMAX_DELAY_def)
  obtain fr s1 s2 s3 s4 where r: "xQueueReceive_try q ?b (start_frame t) s = Some (Again fr, s)"
    "xQueueReceive_block q fr s = Some (Again fr, s1)" "vTaskSwitchContext s1 = Some s2" "pxCurrentTCB s2 \<noteq> pxCurrentTCB s"
    "\<forall>m. m < unat t \<longrightarrow> (\<exists>k'. ticks m s2 = Some k' \<and> delayed k' (pxCurrentTCB s))"
    "ticks (unat t) s2 = Some s3" "container s3 (StateItem (pxCurrentTCB s)) = Some (pxReadyTasksLists (prio s (pxCurrentTCB s)))"
    "xQueueReceive_try q ?b fr (s3\<lparr>pxCurrentTCB := pxCurrentTCB s\<rparr>) = Some (Again fr, s3\<lparr>pxCurrentTCB := pxCurrentTCB s\<rparr>)"
    "xQueueReceive_block q fr (s3\<lparr>pxCurrentTCB := pxCurrentTCB s\<rparr>) = Some (Return False, s4)"
    "queues s4 = queues s" "kernel.more s4 = kernel.more s" "xTickCount s4 = xTickCount s + t"
    by (rule receive_times_out [OF s q(4,5) u t(1) w(2) t(3), of ?b]) blast
  have en: "sys_arch_mbox_fetch_entry dummy mbox msg t s = Some (xTickCount s, ?b, Waiting q (start_frame t))"
    using q(1-3) w(1) s(3) t(4)
    by (simp add: sys_arch_mbox_fetch_entry_def xQueueReceive_entry_def may_block_def xTaskGetSchedulerState_def
        xTaskGetTickCount_def Let_def)
  show ?thesis
    by (intro exI [of _ "xTickCount s"] exI [of _ ?b] exI [of _ "start_frame t"] exI [of _ fr] exI [of _ s1] exI [of _ s2]
        exI [of _ s3] exI [of _ s4] conjI)
      (use en r more_threads(3) [OF r(11)] in \<open>simp_all add: sys_arch_mbox_fetch_try_def sys_arch_mbox_fetch_block_def
         sys_now_def xTaskGetTickCount_def portTICK_PERIOD_MS_def\<close>)
qed

theorem mbox_fetch_times_out_witness:
  "\<exists>fr s1 s2 s3 s4. sys_arch_mbox_fetch_block 0 500 fr (demo_shim\<lparr>var := (\<lambda>_. 500)\<rparr>) = Some (Waiting 500 fr, s1) \<and>
     vTaskSwitchContext s1 = Some s2 \<and> ticks 30 s2 = Some s3 \<and>
     sys_arch_mbox_fetch_block 0 500 fr (s3\<lparr>pxCurrentTCB := 1000\<rparr>) = Some (Finished SYS_ARCH_TIMEOUT, s4)"
proof -
  let ?s = "demo_shim\<lparr>var := (\<lambda>_. 500)\<rparr>"
  have "sched_inv ?s" "running_ready ?s" using demo_shim_inv demo_shim_in_task(2)
    by (simp_all add: core_inv_def blocked_def running_ready_def)
  moreover have "unlocked (queues ?s 500)" "uxMessagesWaiting (queues ?s 500) = 0"
    by (simp_all add: unlocked_def demo_queues_def)
  moreover have "\<not> ucDelayAborted (tcb ?s (pxCurrentTCB ?s))" by (simp add: demo_tcbs_def empty_TCB_def)
  moreover have "container ?s (StateItem 2000) = Some (pxReadyTasksLists 3)" by simp
  ultimately obtain start buf fr0 fr s1 s2 s3 s4 where
    r: "sys_arch_mbox_fetch_entry 700 900 0 30 ?s = Some (start, buf, Waiting 500 fr0)"
    "sys_arch_mbox_fetch_block start 500 fr ?s = Some (Waiting 500 fr, s1)" "vTaskSwitchContext s1 = Some s2"
    "ticks (unat (30 :: u32)) s2 = Some s3"
    "sys_arch_mbox_fetch_block start 500 fr (s3\<lparr>pxCurrentTCB := pxCurrentTCB ?s\<rparr>) = Some (Finished SYS_ARCH_TIMEOUT, s4)"
    using mbox_fetch_times_out [of ?s 900 500 700 0 2000 3 30] by (auto simp: msg_target_def)
  have "start = 0" using r(1)
    by (auto simp: sys_arch_mbox_fetch_entry_def bind_eq_Some_conv Let_def xTaskGetTickCount_def demo_shim_def shim.defs kernel.defs)
  then show ?thesis using r(2-5) by (intro exI [of _ fr] exI [of _ s1] exI [of _ s2] exI [of _ s3] exI [of _ s4]) simp
qed

end
