(* ===== verification/Blinky_App.thy ===== *)
theory Blinky_App
  imports Posix_Shim
begin

text \<open>
  \<^verbatim>\<open>main_blinky.c\<close>: the worker threads that increment a shared counter under a mutex, the thread that
  waits for a semaphore, and the start of the application's main thread. The state extends the POSIX
  layer's by the global \<^verbatim>\<open>g_shared_counter\<close> (a 32-bit \<^verbatim>\<open>int\<close>) and the configuration blocks, by address.

  A thread's routine is a program over its local variables; the program counter stands before the next
  action that other threads can observe, and the waiting functions of the POSIX layer are cut as there.
  Output by \<^verbatim>\<open>printf\<close> is not part of the state.
\<close>

section \<open>State\<close>

record thread_config_t =
  thread_id :: int
  iterations :: int

definition sizeof_thread_config :: nat where
  "sizeof_thread_config = 8"

record app = shim +
  g_shared_counter :: u32
  configs :: "addr \<Rightarrow> thread_config_t"

section \<open>The workers\<close>

datatype worker_pc =
    W_Test
  | W_Take addr wait_frame
  | W_Block addr wait_frame
  | W_Read
  | W_Sleep
  | W_Write
  | W_Unlock
  | W_Pause
  | W_Free
  | W_Return addr

record worker =
  pc :: worker_pc
  config :: addr
  loop_i :: int
  temp :: u32

definition start_worker :: "addr \<Rightarrow> worker" where
  "start_worker a = \<lparr>pc = W_Test, config = a, loop_i = 0, temp = 0\<rparr>"

text \<open>The result of \<^verbatim>\<open>pthread_mutex_lock\<close> is not looked at.\<close>

fun after_lock :: "(addr \<Rightarrow> wait_frame \<Rightarrow> worker_pc) \<Rightarrow> int progress \<Rightarrow> worker_pc" where
  "after_lock go_on (Finished r) = W_Read"
| "after_lock go_on (Waiting q fr) = go_on q fr"

text \<open>
  One action of \<^verbatim>\<open>worker_thread_mutex\<close>; \<open>m\<close> is the address of \<^verbatim>\<open>g_counter_mutex\<close>. The exit value is
  the worker's identifier, as a pointer.
\<close>

fun worker_step :: "addr \<Rightarrow> worker \<times> 'a app_scheme \<Rightarrow> (worker \<times> 'a app_scheme) option" where
  "worker_step m (w, s) = (case pc w of
     W_Test \<Rightarrow>
       (if loop_i w < iterations (configs s (config w)) then do {
          p \<leftarrow> pthread_mutex_lock_entry m s;
          Some (w\<lparr>pc := after_lock W_Take p\<rparr>, s)
        }
        else Some (w\<lparr>pc := W_Free\<rparr>, s))
   | W_Take q fr \<Rightarrow> do {
       (p, s) \<leftarrow> pthread_mutex_lock_try q fr s;
       Some (w\<lparr>pc := after_lock W_Block p\<rparr>, s)
     }
   | W_Block q fr \<Rightarrow> do {
       (p, s) \<leftarrow> pthread_mutex_lock_block q fr s;
       Some (w\<lparr>pc := after_lock W_Take p\<rparr>, s)
     }
   | W_Read \<Rightarrow> Some (w\<lparr>temp := g_shared_counter s, pc := W_Sleep\<rparr>, s)
   | W_Sleep \<Rightarrow> do { s \<leftarrow> usleep 50000 s; Some (w\<lparr>pc := W_Write\<rparr>, s) }
   | W_Write \<Rightarrow> Some (w\<lparr>pc := W_Unlock\<rparr>, s\<lparr>g_shared_counter := temp w + 1\<rparr>)
   | W_Unlock \<Rightarrow> do { (_, s) \<leftarrow> pthread_mutex_unlock m s; Some (w\<lparr>pc := W_Pause\<rparr>, s) }
   | W_Pause \<Rightarrow> do { s \<leftarrow> usleep 10000 s; Some (w\<lparr>loop_i := loop_i w + 1, pc := W_Test\<rparr>, s) }
   | W_Free \<Rightarrow> do {
       let v = unat (word_of_int (thread_id (configs s (config w))) :: u32);
       s \<leftarrow> vPortFree (config w) s;
       Some (w\<lparr>pc := W_Return v\<rparr>, s)
     }
   | W_Return v \<Rightarrow> Some (w, s))"

section \<open>The semaphore worker\<close>

datatype sem_pc = S_Start | S_Take addr wait_frame | S_Block addr wait_frame | S_Sleep | S_Return addr

fun after_wait :: "(addr \<Rightarrow> wait_frame \<Rightarrow> sem_pc) \<Rightarrow> int progress \<Rightarrow> sem_pc" where
  "after_wait go_on (Finished r) = S_Sleep"
| "after_wait go_on (Waiting q fr) = go_on q fr"

fun sem_worker_step :: "addr \<Rightarrow> sem_pc \<times> 'a app_scheme \<Rightarrow> (sem_pc \<times> 'a app_scheme) option" where
  "sem_worker_step sem (p, s) = (case p of
     S_Start \<Rightarrow> map_option (\<lambda>r. (after_wait S_Take r, s)) (sem_wait_entry sem s)
   | S_Take q fr \<Rightarrow> map_option (\<lambda>(r, s). (after_wait S_Block r, s)) (sem_wait_try q fr s)
   | S_Block q fr \<Rightarrow> map_option (\<lambda>(r, s). (after_wait S_Take r, s)) (sem_wait_block q fr s)
   | S_Sleep \<Rightarrow> map_option (Pair (S_Return 0)) (sleep 1 s)
   | S_Return v \<Rightarrow> Some (p, s))"

section \<open>The main thread\<close>

text \<open>
  A configuration block: allocated and filled. \<open>main_posix_app_start\<close> is the main thread up to its
  \<^verbatim>\<open>sleep( 2 )\<close>; \<open>m\<close>, \<open>sem\<close> and \<open>t1\<close> to \<open>t4\<close> are the addresses of its mutex, semaphore and thread
  variables, and the code addresses are those of the wrapper and of the three thread routines. The
  result is whether the initialisation succeeded; a failure of \<^verbatim>\<open>pthread_create\<close> only prints a
  message.
\<close>

definition new_config :: "int \<Rightarrow> int \<Rightarrow> 'a app_scheme \<Rightarrow> (addr \<times> 'a app_scheme) option" where
  "new_config tid n s = do {
     (c, s) \<leftarrow> pvPortMalloc sizeof_thread_config s;
     Some (c, if c \<noteq> 0 then s\<lparr>configs := (configs s)(c := \<lparr>thread_id = tid, iterations = n\<rparr>)\<rparr> else s)
   }"

record routines =
  wrapper_code :: addr
  worker_mutex_code :: addr
  worker_semaphore_code :: addr
  web_server_code :: addr

definition main_posix_app_start ::
  "routines \<Rightarrow> addr \<Rightarrow> addr \<Rightarrow> addr \<Rightarrow> addr \<Rightarrow> addr \<Rightarrow> addr \<Rightarrow> 'a app_scheme \<Rightarrow> (bool \<times> 'a app_scheme) option" where
  "main_posix_app_start R m sem t1 t2 t3 t4 s = do {
     (r, s) \<leftarrow> pthread_mutex_init m s;
     if r \<noteq> 0 then Some (False, s) else do {
       (r, s) \<leftarrow> sem_init sem 0 s;
       if r \<noteq> 0 then do { (_, s) \<leftarrow> pthread_mutex_destroy m s; Some (False, s) } else do {
         (config1, s) \<leftarrow> new_config 1 5 s;
         (config2, s) \<leftarrow> new_config 2 5 s;
         (_, s) \<leftarrow> pthread_create (wrapper_code R) t1 (worker_mutex_code R) config1 s;
         (_, s) \<leftarrow> pthread_create (wrapper_code R) t2 (worker_mutex_code R) config2 s;
         (_, s) \<leftarrow> pthread_create (wrapper_code R) t3 (worker_semaphore_code R) 0 s;
         (_, s) \<leftarrow> pthread_create (wrapper_code R) t4 (web_server_code R) 0 s;
         Some (True, s)
       }
     }
   }"

text \<open>After the \<^verbatim>\<open>sleep\<close> the main thread posts, and after the joins it cleans up.\<close>

definition main_posix_app_post :: "addr \<Rightarrow> 'a app_scheme \<Rightarrow> 'a app_scheme option" where
  "main_posix_app_post sem s = map_option snd (sem_post sem s)"

definition main_posix_app_cleanup :: "addr \<Rightarrow> addr \<Rightarrow> 'a app_scheme \<Rightarrow> 'a app_scheme option" where
  "main_posix_app_cleanup m sem s = do {
     (_, s) \<leftarrow> pthread_mutex_destroy m s;
     (_, s) \<leftarrow> sem_destroy sem s;
     Some s
   }"

text \<open>\<^verbatim>\<open>main_blinky\<close> up to the start of the scheduler; \<open>main_code\<close> is the address of \<^verbatim>\<open>main_posix_app\<close>.\<close>

definition main_blinky_start :: "addr \<Rightarrow> addr \<Rightarrow> addr \<Rightarrow> 'a shim_scheme \<Rightarrow> 'a shim_scheme option" where
  "main_blinky_start wrapper main_code main_thread s = do {
     (r, s) \<leftarrow> pthread_create wrapper main_thread main_code 0 s;
     Some (if r = 0 then snd (pthread_detach (var s main_thread) s) else s)
   }"

end
