(* ===== verification/Blinky_Props.thy ===== *)
theory Blinky_Props
  imports Blinky_App Posix_Sync
begin

text \<open>
  The application on the whole kernel: any number of workers that share a counter under one POSIX mutex,
  interleaved by ticks and context switches of the modelled scheduler, never lose an increment, never
  stop in an assertion, and are never in their critical sections together.
\<close>

section \<open>What a kernel call leaves alone\<close>

lemma more_app:
  fixes s s' :: "'a app_scheme"
  assumes "kernel.more s' = kernel.more s"
  shows "var s' = var s" "g_shared_counter s' = g_shared_counter s" "configs s' = configs s"
  using assms by (cases s, cases s', simp)+

text \<open>
  From \<open>k\<close> to \<open>k'\<close> the running task has made a call that returned, and may have blocked itself, in
  which case a switch is pending.
\<close>

definition moves :: "'a kernel_scheme \<Rightarrow> 'a kernel_scheme \<Rightarrow> bool" where
  "moves k k' \<longleftrightarrow> sched_inv k' \<and> uxSchedulerSuspended k' = 0 \<and> 0 < uxCurrentNumberOfTasks k' \<and> heap k' = heap k \<and>
     pxCurrentTCB k' = pxCurrentTCB k \<and> kernel.more k' = kernel.more k \<and> (pendSV k' \<or> ready k' (pxCurrentTCB k)) \<and>
     (\<forall>t. t \<noteq> pxCurrentTCB k \<longrightarrow> ready k t \<longrightarrow> ready k' t) \<and>
     (\<forall>t. \<not> ucDelayAborted (tcb k t) \<longrightarrow> \<not> ucDelayAborted (tcb k' t))"

text \<open>Neither queues nor the counts of held mutexes change.\<close>

definition same_locks :: "'a kernel_scheme \<Rightarrow> 'a kernel_scheme \<Rightarrow> bool" where
  "same_locks k k' \<longleftrightarrow> queues k' = queues k \<and> (\<forall>t. uxMutexesHeld (tcb k' t) = uxMutexesHeld (tcb k t))"

lemma same_locks_mutex: "same_locks k k' \<Longrightarrow> mutex_ok q k \<Longrightarrow> mutex_ok q k'"
  by (simp add: same_locks_def mutex_ok_def Let_def)

lemma mutex_ok_cong: "queues k' = queues k \<Longrightarrow> tcb k' = tcb k \<Longrightarrow> mutex_ok q k' = mutex_ok q k"
  by (simp add: mutex_ok_def)

lemma core_inv_counter [simp]: "core_inv X strict (s\<lparr>g_shared_counter := g\<rparr>) = core_inv X strict s"
  by (simp add: core_inv_def blocked_def)

text \<open>A state in which a task may call the kernel.\<close>

definition callable :: "'a kernel_scheme \<Rightarrow> bool" where
  "callable k \<longleftrightarrow> sched_inv k \<and> uxSchedulerSuspended k = 0 \<and> 0 < uxCurrentNumberOfTasks k \<and> ready k (pxCurrentTCB k)"

lemma callableD:
  assumes "callable k"
  shows "sched_inv k" "uxSchedulerSuspended k = 0" "0 < uxCurrentNumberOfTasks k" "ready k (pxCurrentTCB k)" "running_ready k"
    "pxCurrentTCB k \<noteq> 0"
  using assms ready_running [of k "pxCurrentTCB k"] ready_nonzero [of k "pxCurrentTCB k"] by (simp_all add: callable_def)

section \<open>Sleeping\<close>

lemma vTaskDelay_moves:
  fixes k :: "'a kernel_scheme"
  assumes k: "callable k" and w: "w \<noteq> 0"
  obtains k' where "vTaskDelay w k = Some k'" "moves k k'" "same_locks k k'"
proof -
  let ?c = "pxCurrentTCB k"
  note C = callableD [OF k]
  define k0 where "k0 = vTaskSuspendAll k"
  have k0: "sched_inv k0" "running_ready k0" "pxCurrentTCB k0 = ?c" "tcb k0 = tcb k" "lists k0 = lists k" "heap k0 = heap k"
    "uxSchedulerSuspended k0 = Suc 0" "uxCurrentNumberOfTasks k0 = uxCurrentNumberOfTasks k" "sched.more k0 = sched.more k"
    using C by (simp_all add: k0_def vTaskSuspendAll_def running_ready_def)
  obtain s b n k1 where k1: "k1 = upd_tcb (pxCurrentTCB k0) (\<lambda>t. t\<lparr>ucDelayAborted := False\<rparr>)
        (k0\<lparr>lists := s, uxTopReadyPriority := b, xNextTaskUnblockTime := n\<rparr>)"
    "prvAddCurrentTaskToDelayedList w False k0 = Some k1" "sched_inv k1"
    "\<forall>i. i \<noteq> StateItem (pxCurrentTCB k0) \<longrightarrow> container k1 i = container k0 i"
    by (rule prvAddCurrentTaskToDelayedList_inv [OF k0(1,2) w, of False]) blast
  have f1: "uxSchedulerSuspended k1 = Suc 0" "0 < uxCurrentNumberOfTasks k1" "heap k1 = heap k" "pxCurrentTCB k1 = ?c"
    "uxCurrentNumberOfTasks k1 = uxCurrentNumberOfTasks k"
    "sched.more k1 = sched.more k" "tcb k1 = (tcb k)(?c := (tcb k ?c)\<lparr>ucDelayAborted := False\<rparr>)"
    using k0 C(3) by (simp_all add: k1(1))
  obtain y k2 where k2: "xTaskResumeAll k1 = Some (y, k2)" "sched_inv k2" "unblocks k1 k2" "resume_frame k1 k2"
    "uxSchedulerSuspended k2 = 0" "pendSV k2 \<longleftrightarrow> y \<or> pendSV k1"
    by (rule xTaskResumeAll_inv [OF k1(3) f1(1,2)]) blast
  define k' where "k' = (if y then k2 else portYIELD k2)"
  have run: "vTaskDelay w k = Some k'"
    using w k0(7) k1(2) k2(1) by (simp add: vTaskDelay_def k0_def [symmetric] word_gt_0 Let_def k'_def)
  have f: "tcb k' = tcb k1" "heap k' = heap k" "pxCurrentTCB k' = ?c" "uxCurrentNumberOfTasks k' = uxCurrentNumberOfTasks k"
    "sched.more k' = sched.more k" "sched_inv k'" "uxSchedulerSuspended k' = 0" "pendSV k'" "lists k' = lists k2"
    using k2 f1 by (auto simp: k'_def portYIELD_def resume_frame_def)
  have rd: "ready k' t" if "t \<noteq> ?c" "ready k t" for t
  proof -
    have "ready k1 t" using k1(4) that k0(3,5) by (auto simp: ready_def)
    then show ?thesis using unblocks_ready [OF k2(3)] f(9) by (auto simp: ready_def)
  qed
  note M = more_kernel [OF f(5)]
  show ?thesis
  proof (rule that [OF run])
    show "moves k k'" using f f1(7) C(3) rd M by (simp add: moves_def)
    show "same_locks k k'" using f f1(7) M by (simp add: same_locks_def)
  qed
qed

lemma usleep_moves:
  assumes "callable k" "u = 50000 \<or> u = 10000"
  obtains k' where "usleep u k = Some k'" "moves k k'" "same_locks k k'"
proof -
  have "usleep_ticks u \<noteq> 0" using assms(2) by (auto simp: usleep_ticks_def pdMS_TO_TICKS_id Let_def)
  then show ?thesis using vTaskDelay_moves [OF assms(1)] that by (auto simp: usleep_def)
qed

section \<open>The mutex\<close>

lemma take_free_moves:
  fixes k :: "'a kernel_scheme"
  assumes k: "callable k" and q: "mutex_ok q k" "xMutexHolder (queues k q) = 0"
  obtains k' where "xQueueSemaphoreTake_try q fr k = Some (Return True, k')" "moves k k'" "mutex_ok q k'"
    "queues k' = (queues k)(q := (queues k q)\<lparr>uxMessagesWaiting := 0, pcTail := pxCurrentTCB k\<rparr>)"
proof -
  note C = callableD [OF k]
  obtain k' where k': "xQueueSemaphoreTake_try q fr k = Some (Return True, k')" "sched_inv k'"
    "queues k' = (queues k)(q := (queues k q)\<lparr>uxMessagesWaiting := 0, pcTail := pxCurrentTCB k\<rparr>)"
    "tcb k' = (tcb k)(pxCurrentTCB k := (tcb k (pxCurrentTCB k))\<lparr>uxMutexesHeld := uxMutexesHeld (tcb k (pxCurrentTCB k)) + 1\<rparr>)"
    "pxCurrentTCB k' = pxCurrentTCB k" "heap k' = heap k" "uxSchedulerSuspended k' = uxSchedulerSuspended k"
    "uxCurrentNumberOfTasks k' = uxCurrentNumberOfTasks k" "\<forall>t. ready k t \<longrightarrow> ready k' t" "kernel.more k' = kernel.more k"
    by (rule take_free [OF C(1) q C(6), of fr]) blast
  have "moves k k'" using k' C by (simp add: moves_def)
  moreover have "mutex_ok q k'" using q(1) C(6) by (simp add: mutex_ok_def Let_def k'(3,4) is_mutex_def)
  ultimately show ?thesis using that k'(1,3) by blast
qed

lemma give_moves:
  fixes k :: "'a kernel_scheme"
  assumes k: "callable k" and q: "mutex_ok q k" "xMutexHolder (queues k q) = pxCurrentTCB k"
  obtains k' where "xSemaphoreGive q k = Some (True, k')" "moves k k'" "mutex_ok q k'"
    "queues k' = (queues k)(q := (queues k q)\<lparr>pcTail := 0, uxMessagesWaiting := 1\<rparr>)"
proof -
  note C = callableD [OF k]
  obtain k' where k': "xQueueGenericSend_nowait q 0 queueSEND_TO_BACK k = Some (True, k')" "sched_inv k'"
    "queues k' = (queues k)(q := (queues k q)\<lparr>pcTail := 0, uxMessagesWaiting := 1\<rparr>)"
    "tcb k' = (tcb k)(pxCurrentTCB k := (tcb k (pxCurrentTCB k))\<lparr>uxMutexesHeld := uxMutexesHeld (tcb k (pxCurrentTCB k)) - 1,
       uxPriority := (if uxMutexesHeld (tcb k (pxCurrentTCB k)) = 1 then uxBasePriority (tcb k (pxCurrentTCB k))
         else prio k (pxCurrentTCB k))\<rparr>)"
    "pxCurrentTCB k' = pxCurrentTCB k" "heap k' = heap k" "uxSchedulerSuspended k' = uxSchedulerSuspended k"
    "\<forall>t. ready k t \<longrightarrow> ready k' t" "kernel.more k' = kernel.more k" "uxCurrentNumberOfTasks k' = uxCurrentNumberOfTasks k"
    by (rule give_holder [OF C(1,5) q]) blast
  have "moves k k'" using k' C by (simp add: moves_def)
  moreover have "mutex_ok q k'" using q(1) by (simp add: mutex_ok_def Let_def k'(3) is_mutex_def)
  ultimately show ?thesis using that k'(1,3) by (simp add: xSemaphoreGive_def)
qed

text \<open>Waiting for ever: the time check never reports a time-out.\<close>

lemma check_time_forever:
  assumes "xTicksToWait fr = portMAX_DELAY" "\<not> ucDelayAborted (tcb k (pxCurrentTCB k))"
  shows "check_time fr k = (False, fr, k)"
  using assms by (simp add: check_time_def xTaskCheckForTimeOut_def Let_def)

lemma block_moves:
  fixes k :: "'a kernel_scheme"
  assumes k: "callable k" and q: "mutex_ok q k" "unlocked (queues k q)" "xMutexHolder (queues k q) \<noteq> pxCurrentTCB k"
    and fr: "xTicksToWait fr = portMAX_DELAY" "\<not> ucDelayAborted (tcb k (pxCurrentTCB k))"
  obtains fr' k' where "xQueueSemaphoreTake_block q fr k = Some (Again fr', k')" "xTicksToWait fr' = portMAX_DELAY"
    "moves k k'" "same_locks k k'"
proof -
  let ?c = "pxCurrentTCB k" and ?h = "xMutexHolder (queues k q)" and ?l = "xTasksWaitingToReceive q"
  note C = callableD [OF k]
  define k0 where "k0 = queue_enter q k"
  have k0: "sched_inv k0" "running_ready k0" "pxCurrentTCB k0 = ?c" "tcb k0 = tcb k" "lists k0 = lists k" "heap k0 = heap k"
    "uxSchedulerSuspended k0 = Suc 0" "uxCurrentNumberOfTasks k0 = uxCurrentNumberOfTasks k" "kernel.more k0 = kernel.more k"
    "queues k0 = (queues k)(q := (queues k q)\<lparr>cRxLock := 0, cTxLock := 0\<rparr>)"
    using C q(2) by (simp_all add: k0_def) (simp add: queue_enter_def prvLockQueue_def upd_queue_def vTaskSuspendAll_def)
  have ct: "check_time fr k0 = (False, fr, k0)" by (rule check_time_forever) (use fr k0 in simp_all)
  have Q: "is_mutex (queues k0 q)" "pxQueueSetContainer (queues k0 q) = 0" "xMutexHolder (queues k0 q) = ?h"
    "uxMessagesWaiting (queues k0 q) = (if ?h = 0 then 1 else 0)"
    using q(1) by (auto simp: mutex_ok_def Let_def k0(10) is_mutex_def split: if_splits)
  obtain r fr' k2 where w: "xQueueSemaphoreTake_wait q fr k0 = Some (r, fr', k2)" "r \<noteq> TimedOut" "xTicksToWait fr' = portMAX_DELAY"
    "sched_inv k2" "queues k2 = queues k0" "kernel.more k2 = kernel.more k0" "heap k2 = heap k" "pxCurrentTCB k2 = ?c"
    "uxSchedulerSuspended k2 = Suc 0" "uxCurrentNumberOfTasks k2 = uxCurrentNumberOfTasks k" "r = Blocked \<or> ready k2 ?c"
    "\<forall>t. t \<noteq> ?c \<longrightarrow> ready k t \<longrightarrow> ready k2 t" "\<forall>t. uxMutexesHeld (tcb k2 t) = uxMutexesHeld (tcb k t)"
    "\<forall>t. \<not> ucDelayAborted (tcb k t) \<longrightarrow> \<not> ucDelayAborted (tcb k2 t)"
  proof (cases "?h = 0")
    case True
    then have "xQueueSemaphoreTake_wait q fr k0 = Some (Retry, fr, k0)"
      using ct Q(4) by (simp add: xQueueSemaphoreTake_wait_def prvIsQueueEmpty_def)
    then show ?thesis using k0 C(4) fr(1) by (intro that [of Retry fr k0]) (simp_all add: ready_def)
  next
    case False
    have ne: "?h \<noteq> pxCurrentTCB k0" and e: "uxMessagesWaiting (queues k0 q) = 0" using q(3) k0(3) Q(4) False by simp_all
    obtain fr'' k1 k2 where w: "xQueueSemaphoreTake_wait q fr k0 = Some (Blocked, fr'', k2)" "sched_inv k1" "reprio ?h k0 k1"
      "tcb k1 ?h = (tcb k0 ?h)\<lparr>uxPriority := max (prio k0 ?h) (prio k0 (pxCurrentTCB k0))\<rparr>" "joins ?l k1 k2" "queues k2 = queues k0"
      by (rule take_wait_inherits [OF k0(1,2) e Q(1,3) False ne ct]) blast
    note R = w(3) [unfolded reprio_def] and J = w(5) [unfolded joins_def]
    have fr'': "xTicksToWait fr'' = portMAX_DELAY"
      using w(1) ct fr(1) e by (auto simp: xQueueSemaphoreTake_wait_def prvIsQueueEmpty_def bind_eq_Some_conv Let_def split: if_splits)
    have tcbs: "uxMutexesHeld (tcb k1 t) = uxMutexesHeld (tcb k t) \<and> ucDelayAborted (tcb k1 t) = ucDelayAborted (tcb k t)" for t
      using R w(4) k0(4) by (cases "t = ?h") auto
    have rd: "ready k2 t" if "t \<noteq> ?c" "ready k t" for t
    proof -
      have "ready k1 t" by (rule ready_reprio [OF w(3)]) (use that k0(5) in \<open>simp add: ready_def\<close>)
      then show ?thesis using J R that(1) k0(3) by (simp add: ready_def)
    qed
    have m: "kernel.more k2 = kernel.more k0" using more_kernel(4) [of k1 k0] more_kernel(4) [of k2 k1] R J by simp
    have cur: "pxCurrentTCB k1 = ?c" using R k0(3) by simp
    show ?thesis
    proof (rule that [of Blocked fr'' k2])
      show "\<forall>t. uxMutexesHeld (tcb k2 t) = uxMutexesHeld (tcb k t)" "\<forall>t. \<not> ucDelayAborted (tcb k t) \<longrightarrow> \<not> ucDelayAborted (tcb k2 t)"
        using J tcbs cur by simp_all
    qed (use w fr'' J R k0 m rd cur in simp_all)
  qed
  have l2: "cTxLock (queues k2 q) = int 0" "cRxLock (queues k2 q) = 0" "pxQueueSetContainer (queues k2 q) = 0"
    using w(5) Q(2) k0(10) by simp_all
  obtain k' where k': "queue_exit r q k2 = Some k'" "sched_inv k'" "uxSchedulerSuspended k' = 0" "tcb k' = tcb k2"
    "pxCurrentTCB k' = pxCurrentTCB k2" "r = Blocked \<longrightarrow> pendSV k'" "heap k' = heap k2"
    "uxCurrentNumberOfTasks k' = uxCurrentNumberOfTasks k2"
    "queues k' = (queues k2)(q := (queues k2 q)\<lparr>cTxLock := queueUNLOCKED, cRxLock := queueUNLOCKED\<rparr>)"
    "\<forall>t p. container k2 (StateItem t) = Some (pxReadyTasksLists p) \<longrightarrow> container k' (StateItem t) = Some (pxReadyTasksLists p)"
    "kernel.more k' = kernel.more k2"
    by (rule queue_exit_inv [OF w(4,9) _ l2, of r]) (use w(10) C(3) in \<open>simp, blast\<close>)
  have qs: "queues k' = queues k"
  proof -
    have "(queues k q)\<lparr>cRxLock := 0, cTxLock := 0, cTxLock := queueUNLOCKED, cRxLock := queueUNLOCKED\<rparr> =
        (queues k q)\<lparr>cTxLock := queueUNLOCKED, cRxLock := queueUNLOCKED\<rparr>" by simp
    also have "\<dots> = queues k q" by (rule queue_unlock_restore [OF q(2)])
    finally show ?thesis using k'(9) w(5) k0(10) by (simp add: fun_eq_iff)
  qed
  have rd: "ready k' t" if "ready k2 t" for t using k'(10) that by (auto simp: ready_def)
  show ?thesis
  proof (rule that [of fr' k'])
    show "xQueueSemaphoreTake_block q fr k = Some (Again fr', k')"
      using w(1,2) k'(1) by (simp add: xQueueSemaphoreTake_block_def k0_def [symmetric])
    show "same_locks k k'" using qs k'(4) w(13) by (simp add: same_locks_def)
    show "moves k k'" using k' w rd k0(9) C(3) by (auto simp: moves_def)
  qed (rule w(3))
qed

section \<open>Ticks, switches and the heap\<close>

lemma tick_moves:
  fixes k :: "'a kernel_scheme"
  assumes "sched_inv k" "uxSchedulerSuspended k = 0" "0 < uxCurrentNumberOfTasks k"
  obtains k' where "xPortSysTickHandler k = Some k'" "sched_inv k'" "uxSchedulerSuspended k' = 0" "0 < uxCurrentNumberOfTasks k'"
    "heap k' = heap k" "pxCurrentTCB k' = pxCurrentTCB k" "kernel.more k' = kernel.more k" "queues k' = queues k" "tcb k' = tcb k"
    "pendSV k \<Longrightarrow> pendSV k'" "\<And>t. ready k t \<Longrightarrow> ready k' t"
proof -
  obtain b k1 where k1: "xTaskIncrementTick k = Some (b, k1)" "sched_inv k1" "tick_frame k k1"
    "\<forall>t. container k1 (StateItem t) = (if wakes k t then Some (pxReadyTasksLists (prio k t)) else container k (StateItem t))"
    by (rule xTaskIncrementTick_inv [OF assms(1,2)]) blast
  define k' where "k' = (if b then portYIELD k1 else k1)"
  have f: "tick_frame (k\<lparr>pendSV := pendSV k'\<rparr>) k'" "sched_inv k'" "lists k' = lists k1" "pendSV k \<longrightarrow> pendSV k'"
    using k1(2,3) by (simp_all add: k'_def portYIELD_def tick_frame_def)
  note F = f(1) [unfolded tick_frame_def]
  note M = more_kernel [of k' "k\<lparr>pendSV := pendSV k'\<rparr>"]
  show ?thesis
    by (rule that [of k']) (use k1(1,4) f F M assms in \<open>auto simp: xPortSysTickHandler_def k'_def [symmetric] ready_def\<close>)
qed

lemma switch_moves:
  fixes k :: "'a kernel_scheme"
  assumes "sched_inv k" "uxSchedulerSuspended k = 0" "ready k u"
  obtains k' where "xPortPendSVHandler k = Some k'" "sched_inv k'" "uxSchedulerSuspended k' = 0"
    "uxCurrentNumberOfTasks k' = uxCurrentNumberOfTasks k" "heap k' = heap k" "kernel.more k' = kernel.more k" "queues k' = queues k"
    "tcb k' = tcb k" "ready k' (pxCurrentTCB k')" "\<And>t. ready k t \<Longrightarrow> ready k' t"
proof -
  define k0 where "k0 = k\<lparr>pendSV := False\<rparr>"
  obtain p where p: "container k0 (StateItem u) = Some (pxReadyTasksLists p)" using assms(3) by (auto simp: ready_def k0_def)
  have inv: "sched_inv k0" using assms(1) by (simp add: k0_def)
  obtain t k' where k': "vTaskSwitchContext k0 = Some k'" "k' = k0\<lparr>xYieldPending := False, lists := lists k', pxCurrentTCB := t\<rparr>"
    "sched_inv k'" "running_ready k'" "\<forall>i. container k' i = container k0 i"
    by (rule vTaskSwitchContext_inv [OF inv _ p]) (use assms(2) in \<open>simp add: k0_def\<close>, blast)
  have f: "uxSchedulerSuspended k' = 0" "uxCurrentNumberOfTasks k' = uxCurrentNumberOfTasks k" "heap k' = heap k"
    "kernel.more k' = kernel.more k" "queues k' = queues k" "tcb k' = tcb k"
    by (subst k'(2), use assms(2) in \<open>simp add: k0_def\<close>)+
  show ?thesis
  proof (rule that [of k'])
    show "ready k' (pxCurrentTCB k')" using k'(4) by (auto simp: running_ready_def ready_def)
    show "ready k' t" if "ready k t" for t using k'(5) that by (simp add: ready_def k0_def)
  qed (use k'(1,3) f in \<open>simp_all add: xPortPendSVHandler_def k0_def [symmetric]\<close>)
qed

section \<open>The workers\<close>

fun in_critical :: "worker_pc \<Rightarrow> bool" where
  "in_critical W_Read = True"
| "in_critical W_Sleep = True"
| "in_critical W_Write = True"
| "in_critical W_Unlock = True"
| "in_critical _ = False"

fun returned :: "worker_pc \<Rightarrow> bool" where
  "returned (W_Return v) = True"
| "returned _ = False"

text \<open>The increments that a worker has written to the counter.\<close>

definition increments :: "worker \<Rightarrow> int" where
  "increments w = loop_i w + (if pc w = W_Unlock \<or> pc w = W_Pause then 1 else 0)"

text \<open>
  The assertion at each point of the program of a worker with \<open>n\<close> iterations, when the counter is \<open>g\<close>,
  \<open>lv\<close> are the blocks in use, and the worker is the holder of the mutex \<open>q\<close> or not.
\<close>

definition loop_at :: "worker_pc \<Rightarrow> int \<Rightarrow> int \<Rightarrow> bool" where
  "loop_at p n i \<longleftrightarrow> 0 \<le> i \<and> (case p of W_Test \<Rightarrow> i \<le> max 0 n | W_Free \<Rightarrow> i = max 0 n | W_Return _ \<Rightarrow> i = max 0 n | _ \<Rightarrow> i < n)"

definition frame_at :: "addr \<Rightarrow> worker_pc \<Rightarrow> bool" where
  "frame_at q p \<longleftrightarrow> (case p of
     W_Take q' fr \<Rightarrow> q' = q \<and> xTicksToWait fr = portMAX_DELAY
   | W_Block q' fr \<Rightarrow> q' = q \<and> xTicksToWait fr = portMAX_DELAY
   | _ \<Rightarrow> True)"

definition worker_ok ::
  "addr \<Rightarrow> int \<Rightarrow> u32 \<Rightarrow> (addr \<Rightarrow> thread_config_t) \<Rightarrow> addr set \<Rightarrow> bool \<Rightarrow> worker \<Rightarrow> bool" where
  "worker_ok q n g cf lv holds w \<longleftrightarrow> (in_critical (pc w) \<longleftrightarrow> holds) \<and>
     (pc w = W_Sleep \<or> pc w = W_Write \<longrightarrow> temp w = g) \<and> loop_at (pc w) n (loop_i w) \<and> frame_at q (pc w) \<and>
     (\<not> returned (pc w) \<longrightarrow> config w \<in> lv \<and> iterations (cf (config w)) = n)"

definition workers_ok ::
  "addr \<Rightarrow> addr set \<Rightarrow> (addr \<Rightarrow> int) \<Rightarrow> addr \<Rightarrow> u32 \<Rightarrow> (addr \<Rightarrow> thread_config_t) \<Rightarrow> addr set \<Rightarrow> (addr \<Rightarrow> worker) \<Rightarrow> bool" where
  "workers_ok q W n h g cf lv L \<longleftrightarrow> finite W \<and> 0 \<notin> W \<and> (h = 0 \<or> h \<in> W) \<and>
     (\<forall>t \<in> W. worker_ok q (n t) g cf lv (h = t) (L t)) \<and>
     inj_on (\<lambda>t. config (L t)) {t \<in> W. \<not> returned (pc (L t))} \<and>
     g = word_of_int (\<Sum>t \<in> W. increments (L t))"

lemma workers_step:
  assumes D: "workers_ok q W n h g cf lv L" and t: "t \<in> W"
    and w: "worker_ok q (n t) g' cf lv' (h' = t) w" "config w = config (L t)" "returned (pc (L t)) \<longrightarrow> returned (pc w)"
    and h: "h' = 0 \<or> h' \<in> W" and g: "g' = g + word_of_int (increments w - increments (L t))"
    and u: "\<And>u. u \<in> W \<Longrightarrow> u \<noteq> t \<Longrightarrow> worker_ok q (n u) g' cf lv' (h' = u) (L u)"
  shows "workers_ok q W n h' g' cf lv' (L(t := w))"
proof -
  have fin: "finite W" and g0: "g = word_of_int (\<Sum>t \<in> W. increments (L t))" using D by (simp_all add: workers_ok_def)
  have "(\<Sum>u \<in> W. increments ((L(t := w)) u)) = increments w + (\<Sum>u \<in> W - {t}. increments (L u))"
    using sum.remove [OF fin t, of "\<lambda>u. increments ((L(t := w)) u)"] by simp
  also have "\<dots> = (increments w - increments (L t)) + (\<Sum>u \<in> W. increments (L u))"
    using sum.remove [OF fin t, of "\<lambda>u. increments (L u)"] by simp
  finally have "g' = word_of_int (\<Sum>u \<in> W. increments ((L(t := w)) u))"
    by (simp only: g g0 of_int_add [symmetric] add.commute)
  moreover have "inj_on (\<lambda>u. config ((L(t := w)) u)) {u \<in> W. \<not> returned (pc ((L(t := w)) u))}"
    using D w(2,3) unfolding workers_ok_def inj_on_def by auto
  ultimately show ?thesis using D w(1) u h by (auto simp: workers_ok_def)
qed

text \<open>A step that changes neither the holder, the counter nor the heap.\<close>

lemma workers_step_local:
  assumes D: "workers_ok q W n h g cf lv L" and t: "t \<in> W"
    and w: "worker_ok q (n t) g cf lv (h = t) w" "config w = config (L t)" "returned (pc (L t)) \<longrightarrow> returned (pc w)"
    "increments w = increments (L t)"
  shows "workers_ok q W n h g cf lv (L(t := w))"
  by (rule workers_step [OF D t w(1-3)]) (use D w(4) in \<open>auto simp: workers_ok_def\<close>)

text \<open>What holds of the kernel between the steps; \<open>idle\<close> is a task that is always ready.\<close>

definition kernel_ok :: "addr \<Rightarrow> addr \<Rightarrow> addr set \<Rightarrow> addr \<Rightarrow> 'a app_scheme \<Rightarrow> bool" where
  "kernel_ok m q W idle s \<longleftrightarrow> sched_inv s \<and> uxSchedulerSuspended s = 0 \<and> 0 < uxCurrentNumberOfTasks s \<and> heap_inv (heap s) \<and>
     (pendSV s \<or> ready s (pxCurrentTCB s)) \<and> ready s idle \<and> idle \<notin> W \<and> m \<noteq> 0 \<and> var s m = q \<and> mutex_ok q s \<and>
     unlocked (queues s q) \<and> (\<forall>t \<in> W. \<not> ucDelayAborted (tcb s t))"

lemma kernel_ok_callable: "kernel_ok m q W idle s \<Longrightarrow> \<not> pendSV s \<Longrightarrow> callable s"
  by (simp add: kernel_ok_def callable_def)

lemma kernel_ok_moves:
  fixes s s' :: "'a app_scheme"
  assumes "kernel_ok m q W idle s" "moves s s'" "pxCurrentTCB s \<in> W" "mutex_ok q s'" "unlocked (queues s' q)"
  shows "kernel_ok m q W idle s'"
proof -
  have "idle \<noteq> pxCurrentTCB s" using assms(1,3) by (auto simp: kernel_ok_def)
  then show ?thesis using assms more_app(1) [of s' s] unfolding kernel_ok_def moves_def by simp
qed

abbreviation holder :: "addr \<Rightarrow> 'a app_scheme \<Rightarrow> addr" where
  "holder q s \<equiv> xMutexHolder (queues s q)"

definition app_inv :: "addr \<Rightarrow> addr \<Rightarrow> addr set \<Rightarrow> addr \<Rightarrow> (addr \<Rightarrow> int) \<Rightarrow> (addr \<Rightarrow> worker) \<times> 'a app_scheme \<Rightarrow> bool" where
  "app_inv m q W idle n = (\<lambda>(L, s). kernel_ok m q W idle s \<and>
     workers_ok q W n (holder q s) (g_shared_counter s) (configs s) (live s) L)"

lemma app_invD:
  assumes "app_inv m q W idle n (L, s)" "t \<in> W"
  shows "kernel_ok m q W idle s" "workers_ok q W n (holder q s) (g_shared_counter s) (configs s) (live s) L"
    "worker_ok q (n t) (g_shared_counter s) (configs s) (live s) (holder q s = t) (L t)" "t \<noteq> 0"
    "holder q s = 0 \<or> holder q s \<in> W"
  using assms by (auto simp: app_inv_def workers_ok_def intro!: gr0I)

lemmas worker_defs = worker_ok_def loop_at_def frame_at_def increments_def

text \<open>A step that leaves the kernel's queues alone and moves one worker on within or outside of its section.\<close>

lemma step_same_locks:
  fixes s s' :: "'a app_scheme"
  assumes I: "app_inv m q W idle n (L, s)" and t: "t \<in> W" "pxCurrentTCB s = t" and s': "moves s s'" "same_locks s s'"
    and w: "worker_ok q (n t) (g_shared_counter s) (configs s) (live s) (holder q s = t) w" "config w = config (L t)"
      "returned (pc (L t)) \<longrightarrow> returned (pc w)" "increments w = increments (L t)"
  shows "app_inv m q W idle n (L(t := w), s')"
proof -
  note D = app_invD [OF I t(1)]
  have q': "queues s' = queues s" using s'(2) by (simp add: same_locks_def)
  have k: "kernel_ok m q W idle s'"
    by (rule kernel_ok_moves [OF D(1) s'(1)]) (use t D(1) q' same_locks_mutex [OF s'(2)] in \<open>simp_all add: kernel_ok_def\<close>)
  have "heap s' = heap s" "kernel.more s' = kernel.more s" using s'(1) by (simp_all add: moves_def)
  then show ?thesis
    using k workers_step_local [OF D(2) t(1) w] more_app [of s' s] q' by (simp add: app_inv_def)
qed

lemma moves_refl: "callable k \<Longrightarrow> moves k k" "same_locks k k"
  by (simp_all add: callable_def moves_def same_locks_def)

lemma lock_entry_eq:
  assumes "kernel_ok m q W idle s"
  shows "pthread_mutex_lock_entry m s = Some (Waiting q (start_frame portMAX_DELAY))"
  using assms take_entry_ok [of q s portMAX_DELAY]
  by (simp add: kernel_ok_def pthread_mutex_lock_entry_def lock_entry_def mutex_ok_def Let_def)

text \<open>The step of each program point.\<close>

lemma step_test:
  fixes s :: "'a app_scheme"
  assumes I: "app_inv m q W idle n (L, s)" and t: "t \<in> W" "pxCurrentTCB s = t" "\<not> pendSV s" and p: "pc (L t) = W_Test"
  shows "\<exists>w s'. worker_step m (L t, s) = Some (w, s') \<and> app_inv m q W idle n (L(t := w), s')"
proof -
  note D = app_invD [OF I t(1)]
  have c: "callable s" by (rule kernel_ok_callable [OF D(1) t(3)])
  note S = step_same_locks [OF I t(1,2) moves_refl(1) [OF c] moves_refl(2)]
  have wo: "iterations (configs s (config (L t))) = n t" "loop_at W_Test (n t) (loop_i (L t))" "holder q s \<noteq> t" "config (L t) \<in> live s"
    using D(3) p by (auto simp: worker_ok_def)
  show ?thesis
  proof (cases "loop_i (L t) < n t")
    case True
    let ?w = "(L t)\<lparr>pc := W_Take q (start_frame portMAX_DELAY)\<rparr>"
    have "worker_step m (L t, s) = Some (?w, s)" using p True wo(1) lock_entry_eq [OF D(1)] by simp
    moreover have "app_inv m q W idle n (L(t := ?w), s)"
      by (rule S) (use wo True p in \<open>auto simp: worker_defs\<close>)
    ultimately show ?thesis by blast
  next
    case False
    let ?w = "(L t)\<lparr>pc := W_Free\<rparr>"
    have "worker_step m (L t, s) = Some (?w, s)" using p False wo(1) by simp
    moreover have "app_inv m q W idle n (L(t := ?w), s)"
      by (rule S) (use wo False p in \<open>auto simp: worker_defs\<close>)
    ultimately show ?thesis by blast
  qed
qed

lemma step_take:
  fixes s :: "'a app_scheme"
  assumes I: "app_inv m q W idle n (L, s)" and t: "t \<in> W" "pxCurrentTCB s = t" "\<not> pendSV s" and p: "pc (L t) = W_Take q' fr"
  shows "\<exists>w s'. worker_step m (L t, s) = Some (w, s') \<and> app_inv m q W idle n (L(t := w), s')"
proof -
  note D = app_invD [OF I t(1)]
  have c: "callable s" by (rule kernel_ok_callable [OF D(1) t(3)])
  have mo: "mutex_ok q s" "unlocked (queues s q)" using D(1) by (simp_all add: kernel_ok_def)
  have wo: "q' = q" "xTicksToWait fr = portMAX_DELAY" "holder q s \<noteq> t"
    using D(3) p by (auto simp: worker_defs)
  show ?thesis
  proof (cases "holder q s = 0")
    case False
    let ?w = "(L t)\<lparr>pc := W_Block q (enter_time fr s)\<rparr>"
    have "uxMessagesWaiting (queues s q) = 0" using mo(1) False by (simp add: mutex_ok_def Let_def)
    then have "worker_step m (L t, s) = Some (?w, s)"
      using p wo by (simp add: pthread_mutex_lock_try_def lock_try_def xQueueSemaphoreTake_try_def empty_try_def portMAX_DELAY_def)
    moreover have "app_inv m q W idle n (L(t := ?w), s)"
      by (rule step_same_locks [OF I t(1,2) moves_refl(1) [OF c] moves_refl(2)])
        (use wo D(3) p in \<open>auto simp: worker_defs enter_time_def\<close>)
    ultimately show ?thesis by blast
  next
    case True
    let ?w = "(L t)\<lparr>pc := W_Read\<rparr>"
    obtain s' where s': "xQueueSemaphoreTake_try q fr s = Some (Return True, s')" "moves s s'" "mutex_ok q s'"
      "queues s' = (queues s)(q := (queues s q)\<lparr>uxMessagesWaiting := 0, pcTail := pxCurrentTCB s\<rparr>)"
      by (rule take_free_moves [OF c mo(1) True]) blast
    have st: "worker_step m (L t, s) = Some (?w, s')"
      using p wo s'(1) by (simp add: pthread_mutex_lock_try_def lock_try_def)
    have h: "holder q s' = t" using s'(4) t(2) by simp
    have k: "kernel_ok m q W idle s'"
      by (rule kernel_ok_moves [OF D(1) s'(2)]) (use t s'(3,4) mo in \<open>simp_all add: unlocked_def\<close>)
    have "workers_ok q W n t (g_shared_counter s) (configs s) (live s) (L(t := ?w))"
    proof (rule workers_step [OF D(2) t(1)])
      show "worker_ok q (n t) (g_shared_counter s) (configs s) (live s) (t = t) ?w" using D(3) p by (auto simp: worker_defs)
      show "worker_ok q (n u) (g_shared_counter s) (configs s) (live s) (t = u) (L u)" if "u \<in> W" "u \<noteq> t" for u
        using app_invD(3,4) [OF I that(1)] that(2) True by simp
    qed (use t p in \<open>auto simp: increments_def\<close>)
    moreover have "heap s' = heap s" "kernel.more s' = kernel.more s" using s'(2) by (simp_all add: moves_def)
    ultimately have "app_inv m q W idle n (L(t := ?w), s')" using k h more_app [of s' s] by (simp add: app_inv_def)
    then show ?thesis using st by blast
  qed
qed

lemma step_block:
  fixes s :: "'a app_scheme"
  assumes I: "app_inv m q W idle n (L, s)" and t: "t \<in> W" "pxCurrentTCB s = t" "\<not> pendSV s" and p: "pc (L t) = W_Block q' fr"
  shows "\<exists>w s'. worker_step m (L t, s) = Some (w, s') \<and> app_inv m q W idle n (L(t := w), s')"
proof -
  note D = app_invD [OF I t(1)]
  have c: "callable s" by (rule kernel_ok_callable [OF D(1) t(3)])
  have mo: "mutex_ok q s" "unlocked (queues s q)" "\<not> ucDelayAborted (tcb s (pxCurrentTCB s))" using D(1) t by (simp_all add: kernel_ok_def)
  have wo: "q' = q" "xTicksToWait fr = portMAX_DELAY" "holder q s \<noteq> pxCurrentTCB s"
    using D(3) p t(2) by (auto simp: worker_defs)
  obtain fr' s' where s': "xQueueSemaphoreTake_block q fr s = Some (Again fr', s')" "xTicksToWait fr' = portMAX_DELAY"
    "moves s s'" "same_locks s s'"
    by (rule block_moves [OF c mo(1,2) wo(3,2) mo(3)]) blast
  let ?w = "(L t)\<lparr>pc := W_Take q fr'\<rparr>"
  have "worker_step m (L t, s) = Some (?w, s')"
    using p wo s'(1) by (simp add: pthread_mutex_lock_block_def lock_block_def)
  moreover have "app_inv m q W idle n (L(t := ?w), s')"
    by (rule step_same_locks [OF I t(1,2) s'(3,4)]) (use s'(2) D(3) p in \<open>auto simp: worker_defs\<close>)
  ultimately show ?thesis by blast
qed

lemma step_read:
  fixes s :: "'a app_scheme"
  assumes I: "app_inv m q W idle n (L, s)" and t: "t \<in> W" "pxCurrentTCB s = t" "\<not> pendSV s" and p: "pc (L t) = W_Read"
  shows "\<exists>w s'. worker_step m (L t, s) = Some (w, s') \<and> app_inv m q W idle n (L(t := w), s')"
proof -
  note D = app_invD [OF I t(1)]
  have c: "callable s" by (rule kernel_ok_callable [OF D(1) t(3)])
  let ?w = "(L t)\<lparr>temp := g_shared_counter s, pc := W_Sleep\<rparr>"
  have "app_inv m q W idle n (L(t := ?w), s)"
    by (rule step_same_locks [OF I t(1,2) moves_refl(1) [OF c] moves_refl(2)]) (use D(3) p in \<open>auto simp: worker_defs\<close>)
  then show ?thesis using p by simp
qed

lemma step_sleeps:
  fixes s :: "'a app_scheme"
  assumes I: "app_inv m q W idle n (L, s)" and t: "t \<in> W" "pxCurrentTCB s = t" "\<not> pendSV s" and p: "pc (L t) = W_Sleep \<or> pc (L t) = W_Pause"
  shows "\<exists>w s'. worker_step m (L t, s) = Some (w, s') \<and> app_inv m q W idle n (L(t := w), s')"
proof -
  note D = app_invD [OF I t(1)]
  have c: "callable s" by (rule kernel_ok_callable [OF D(1) t(3)])
  define w where "w = (if pc (L t) = W_Sleep then (L t)\<lparr>pc := W_Write\<rparr> else (L t)\<lparr>loop_i := loop_i (L t) + 1, pc := W_Test\<rparr>)"
  obtain s' where s': "usleep (if pc (L t) = W_Sleep then 50000 else 10000) s = Some s'" "moves s s'" "same_locks s s'"
    by (rule usleep_moves [OF c, of "if pc (L t) = W_Sleep then 50000 else 10000"]) auto
  have "worker_step m (L t, s) = Some (w, s')" using p s'(1) by (auto simp: w_def)
  moreover have "app_inv m q W idle n (L(t := w), s')"
    by (rule step_same_locks [OF I t(1,2) s'(2,3)]) (use D(3) p in \<open>auto simp: worker_defs w_def\<close>)
  ultimately show ?thesis by blast
qed

lemma step_write:
  fixes s :: "'a app_scheme"
  assumes I: "app_inv m q W idle n (L, s)" and t: "t \<in> W" "pxCurrentTCB s = t" "\<not> pendSV s" and p: "pc (L t) = W_Write"
  shows "\<exists>w s'. worker_step m (L t, s) = Some (w, s') \<and> app_inv m q W idle n (L(t := w), s')"
proof -
  note D = app_invD [OF I t(1)]
  let ?w = "(L t)\<lparr>pc := W_Unlock\<rparr>" and ?s = "s\<lparr>g_shared_counter := temp (L t) + 1\<rparr>"
  have wo: "temp (L t) = g_shared_counter s" "holder q s = t" using D(3) p by (auto simp: worker_defs)
  have k: "kernel_ok m q W idle ?s" using D(1) mutex_ok_cong [of ?s s q] by (simp add: kernel_ok_def ready_def)
  have "workers_ok q W n t (g_shared_counter s + 1) (configs s) (live s) (L(t := ?w))"
  proof (rule workers_step [OF D(2) t(1)])
    show "worker_ok q (n t) (g_shared_counter s + 1) (configs s) (live s) (t = t) ?w" using D(3) p by (auto simp: worker_defs)
    show "worker_ok q (n u) (g_shared_counter s + 1) (configs s) (live s) (t = u) (L u)" if "u \<in> W" "u \<noteq> t" for u
      using app_invD(3) [OF I that(1)] that(2) wo(2) by (auto simp: worker_ok_def)
  qed (use t p in \<open>auto simp: increments_def\<close>)
  then have "app_inv m q W idle n (L(t := ?w), ?s)" using k wo by (simp add: app_inv_def)
  then show ?thesis using p by simp
qed

lemma step_unlock:
  fixes s :: "'a app_scheme"
  assumes I: "app_inv m q W idle n (L, s)" and t: "t \<in> W" "pxCurrentTCB s = t" "\<not> pendSV s" and p: "pc (L t) = W_Unlock"
  shows "\<exists>w s'. worker_step m (L t, s) = Some (w, s') \<and> app_inv m q W idle n (L(t := w), s')"
proof -
  note D = app_invD [OF I t(1)]
  have c: "callable s" by (rule kernel_ok_callable [OF D(1) t(3)])
  have mo: "mutex_ok q s" "unlocked (queues s q)" "m \<noteq> 0" "var s m = q" "q \<noteq> 0" using D(1) by (simp_all add: kernel_ok_def mutex_ok_def Let_def)
  have h: "holder q s = pxCurrentTCB s" using D(3) p t(2) by (auto simp: worker_defs)
  obtain s' where s': "xSemaphoreGive q s = Some (True, s')" "moves s s'" "mutex_ok q s'"
    "queues s' = (queues s)(q := (queues s q)\<lparr>pcTail := 0, uxMessagesWaiting := 1\<rparr>)"
    by (rule give_moves [OF c mo(1) h]) blast
  let ?w = "(L t)\<lparr>pc := W_Pause\<rparr>"
  have st: "worker_step m (L t, s) = Some (?w, s')" using p s'(1) unlock_eq [OF mo(3-5)] by simp
  have h': "holder q s' = 0" using s'(4) by simp
  have k: "kernel_ok m q W idle s'"
    by (rule kernel_ok_moves [OF D(1) s'(2)]) (use t s'(3,4) mo in \<open>simp_all add: unlocked_def\<close>)
  have "workers_ok q W n 0 (g_shared_counter s) (configs s) (live s) (L(t := ?w))"
  proof (rule workers_step [OF D(2) t(1)])
    show "worker_ok q (n t) (g_shared_counter s) (configs s) (live s) (0 = t) ?w" using D(3,4) p by (auto simp: worker_defs)
    show "worker_ok q (n u) (g_shared_counter s) (configs s) (live s) (0 = u) (L u)" if "u \<in> W" "u \<noteq> t" for u
      using app_invD(3,4) [OF I that(1)] that(2) h t(2) by (auto simp: worker_ok_def)
  qed (use t p in \<open>auto simp: increments_def\<close>)
  moreover have "heap s' = heap s" "kernel.more s' = kernel.more s" using s'(2) by (simp_all add: moves_def)
  ultimately have "app_inv m q W idle n (L(t := ?w), s')" using k h' more_app [of s' s] by (simp add: app_inv_def)
  then show ?thesis using st by blast
qed

lemma step_free:
  fixes s :: "'a app_scheme"
  assumes I: "app_inv m q W idle n (L, s)" and t: "t \<in> W" "pxCurrentTCB s = t" "\<not> pendSV s" and p: "pc (L t) = W_Free"
  shows "\<exists>w s'. worker_step m (L t, s) = Some (w, s') \<and> app_inv m q W idle n (L(t := w), s')"
proof -
  note D = app_invD [OF I t(1)]
  let ?c = "config (L t)"
  have c: "callable s" by (rule kernel_ok_callable [OF D(1) t(3)])
  note C = callableD [OF c]
  have hi: "heap_inv (heap s)" using D(1) by (simp add: kernel_ok_def)
  have "?c \<in> live s" using D(3) p by (auto simp: worker_defs)
  then obtain sz where sz: "(?c, sz) \<in> heap_owned (heap s)" by auto
  obtain s' where s': "vPortFree ?c s = Some s'" "sched_inv s'" "heap_inv (heap s')" "undisturbed s s'"
    "heap_owned (heap s') = heap_owned (heap s) - {(?c, sz)}"
    by (rule vPortFree_owned [OF C(1) hi C(3) sz]) blast
  note U = undisturbedD [OF s'(4)]
  note cm = calmD [OF U(1)] and M = more_kernel [OF U(2)]
  define v where "v = unat (word_of_int (thread_id (configs s ?c)) :: u32)"
  let ?w = "(L t)\<lparr>pc := W_Return v\<rparr>"
  have st: "worker_step m (L t, s) = Some (?w, s')" using p s'(1) by (simp add: v_def Let_def)
  have k: "kernel_ok m q W idle s'"
    using D(1) s'(2,3) cm M more_app(1) [OF M(4)] calm_ready [OF U(1)] C(4)
      mutex_ok_cong [OF M(1) cm(1), of q]
    by (simp add: kernel_ok_def)
  have lv: "config (L u) \<in> live s'" if "u \<in> W" "u \<noteq> t" "\<not> returned (pc (L u))" for u
  proof -
    have "config (L u) \<noteq> ?c" using D(2) that t(1) p by (auto simp: workers_ok_def inj_on_def)
    moreover have "config (L u) \<in> live s" using app_invD(3) [OF I that(1)] that(3) by (simp add: worker_ok_def)
    ultimately show ?thesis using s'(5) by (auto simp: image_iff)
  qed
  have "workers_ok q W n (holder q s) (g_shared_counter s) (configs s) (live s') (L(t := ?w))"
  proof (rule workers_step [OF D(2) t(1)])
    show "worker_ok q (n t) (g_shared_counter s) (configs s) (live s') (holder q s = t) ?w" using D(3) p by (auto simp: worker_defs)
    show "worker_ok q (n u) (g_shared_counter s) (configs s) (live s') (holder q s = u) (L u)" if "u \<in> W" "u \<noteq> t" for u
      using app_invD(3) [OF I that(1)] lv [OF that] by (simp add: worker_ok_def)
  qed (use D(5) p in \<open>auto simp: increments_def\<close>)
  then have "app_inv m q W idle n (L(t := ?w), s')" using k more_app [OF M(4)] M(1) by (simp add: app_inv_def)
  then show ?thesis using st by blast
qed

section \<open>Interleavings\<close>

text \<open>
  The steps of the system: the running worker does its next action, unless a switch is pending; a pending
  switch is taken by the PendSV handler; the tick interrupt may come at any time.
\<close>

inductive app_step :: "addr \<Rightarrow> addr set \<Rightarrow> (addr \<Rightarrow> worker) \<times> 'a app_scheme \<Rightarrow> (addr \<Rightarrow> worker) \<times> 'a app_scheme \<Rightarrow> bool"
  for m W where
  run: "t \<in> W \<Longrightarrow> pxCurrentTCB s = t \<Longrightarrow> \<not> pendSV s \<Longrightarrow> worker_step m (L t, s) = Some (w, s') \<Longrightarrow>
    app_step m W (L, s) (L(t := w), s')"
| switch: "pendSV s \<Longrightarrow> xPortPendSVHandler s = Some s' \<Longrightarrow> app_step m W (L, s) (L, s')"
| tick: "xPortSysTickHandler s = Some s' \<Longrightarrow> app_step m W (L, s) (L, s')"

lemma worker_step_inv:
  fixes s :: "'a app_scheme"
  assumes "app_inv m q W idle n (L, s)" "t \<in> W" "pxCurrentTCB s = t" "\<not> pendSV s"
  shows "\<exists>w s'. worker_step m (L t, s) = Some (w, s') \<and> app_inv m q W idle n (L(t := w), s')"
proof (cases "pc (L t)")
  case W_Test
  then show ?thesis by (rule step_test [OF assms])
next
  case (W_Take q' fr)
  then show ?thesis by (rule step_take [OF assms])
next
  case (W_Block q' fr)
  then show ?thesis by (rule step_block [OF assms])
next
  case W_Read
  then show ?thesis by (rule step_read [OF assms])
next
  case W_Sleep
  then show ?thesis by (intro step_sleeps [OF assms]) simp
next
  case W_Write
  then show ?thesis by (rule step_write [OF assms])
next
  case W_Unlock
  then show ?thesis by (rule step_unlock [OF assms])
next
  case W_Pause
  then show ?thesis by (intro step_sleeps [OF assms]) simp
next
  case W_Free
  then show ?thesis by (rule step_free [OF assms])
next
  case (W_Return v)
  then show ?thesis using assms(1) by (simp add: fun_upd_idem)
qed

lemma switch_inv:
  fixes s :: "'a app_scheme"
  assumes "app_inv m q W idle n (L, s)"
  shows "\<exists>s'. xPortPendSVHandler s = Some s' \<and> app_inv m q W idle n (L, s')"
proof -
  have k: "kernel_ok m q W idle s" using assms by (simp add: app_inv_def)
  obtain s' where s': "xPortPendSVHandler s = Some s'" "sched_inv s'" "uxSchedulerSuspended s' = 0"
    "uxCurrentNumberOfTasks s' = uxCurrentNumberOfTasks s" "heap s' = heap s" "kernel.more s' = kernel.more s" "queues s' = queues s"
    "tcb s' = tcb s" "ready s' (pxCurrentTCB s')" "\<forall>t. ready s t \<longrightarrow> ready s' t"
    by (rule switch_moves [of s idle]) (use k in \<open>auto simp: kernel_ok_def\<close>)
  then show ?thesis using assms more_app [OF s'(6)] mutex_ok_cong [OF s'(7,8), of q] by (simp add: app_inv_def kernel_ok_def)
qed

lemma tick_inv:
  fixes s :: "'a app_scheme"
  assumes "app_inv m q W idle n (L, s)"
  shows "\<exists>s'. xPortSysTickHandler s = Some s' \<and> app_inv m q W idle n (L, s')"
proof -
  have k: "kernel_ok m q W idle s" using assms by (simp add: app_inv_def)
  obtain s' where s': "xPortSysTickHandler s = Some s'" "sched_inv s'" "uxSchedulerSuspended s' = 0" "0 < uxCurrentNumberOfTasks s'"
    "heap s' = heap s" "pxCurrentTCB s' = pxCurrentTCB s" "kernel.more s' = kernel.more s" "queues s' = queues s" "tcb s' = tcb s"
    "pendSV s \<longrightarrow> pendSV s'" "\<forall>t. ready s t \<longrightarrow> ready s' t"
    by (rule tick_moves [of s]) (use k in \<open>auto simp: kernel_ok_def\<close>)
  then show ?thesis using assms more_app [OF s'(7)] mutex_ok_cong [OF s'(8,9), of q] by (auto simp: app_inv_def kernel_ok_def)
qed

lemma app_step_inv:
  assumes "app_step m W c c'" "app_inv m q W idle n c"
  shows "app_inv m q W idle n c'"
  using assms
proof (induction rule: app_step.induct)
  case (run t s L w s')
  then show ?case using worker_step_inv [of m q W idle n L s t] by auto
next
  case (switch s s' L)
  then show ?case using switch_inv [of m q W idle n L s] by auto
next
  case (tick s s' L)
  then show ?case using tick_inv [of m q W idle n L s] by auto
qed

lemma app_reachable_inv:
  "(app_step m W)\<^sup>*\<^sup>* c c' \<Longrightarrow> app_inv m q W idle n c \<Longrightarrow> app_inv m q W idle n c'"
  by (induction rule: rtranclp_induct) (use app_step_inv in blast)+

text \<open>The start: every worker before its first iteration, the mutex free, the counter zero.\<close>

definition app_init :: "addr \<Rightarrow> addr \<Rightarrow> addr set \<Rightarrow> addr \<Rightarrow> (addr \<Rightarrow> int) \<Rightarrow> (addr \<Rightarrow> addr) \<Rightarrow> 'a app_scheme \<Rightarrow> bool" where
  "app_init m q W idle n cfg s \<longleftrightarrow> kernel_ok m q W idle s \<and> finite W \<and> 0 \<notin> W \<and> holder q s = 0 \<and> g_shared_counter s = 0 \<and>
     inj_on cfg W \<and> cfg ` W \<subseteq> live s \<and> (\<forall>t \<in> W. iterations (configs s (cfg t)) = n t)"

lemma app_init_inv:
  assumes "app_init m q W idle n cfg s"
  shows "app_inv m q W idle n (\<lambda>t. start_worker (cfg t), s)"
  using assms
  by (auto simp: app_init_def app_inv_def workers_ok_def worker_defs start_worker_def inj_on_def intro!: gr0I)

text \<open>
  C1: The application loses no increment. Any number of \<^verbatim>\<open>worker_thread_mutex\<close> threads start with a free
  mutex, the counter at zero and configurations of their own. Then in every state that the interleaving
  of their actions with context switches and ticks can reach: no kernel assertion fires and no call gets
  stuck (the running worker's next action, the switch and the tick all return); at most one worker is
  between its lock and its unlock; the counter is the number of increments done; and when all workers
  have returned, it is the sum of their iterations.
\<close>

theorem shared_counter_exact:
  fixes s :: "'a app_scheme"
  assumes "app_init m q W idle n cfg s" "(app_step m W)\<^sup>*\<^sup>* (\<lambda>t. start_worker (cfg t), s) (L, s')"
  shows "(pxCurrentTCB s' \<in> W \<and> \<not> pendSV s' \<longrightarrow> worker_step m (L (pxCurrentTCB s'), s') \<noteq> None) \<and>
    xPortPendSVHandler s' \<noteq> None \<and> xPortSysTickHandler s' \<noteq> None \<and>
    (\<forall>t \<in> W. \<forall>u \<in> W. in_critical (pc (L t)) \<and> in_critical (pc (L u)) \<longrightarrow> t = u) \<and>
    g_shared_counter s' = word_of_int (\<Sum>t \<in> W. increments (L t)) \<and>
    ((\<forall>t \<in> W. returned (pc (L t))) \<longrightarrow> g_shared_counter s' = word_of_int (\<Sum>t \<in> W. max 0 (n t)))"
proof -
  have I: "app_inv m q W idle n (L, s')" by (rule app_reachable_inv [OF assms(2) app_init_inv [OF assms(1)]])
  have D: "workers_ok q W n (holder q s') (g_shared_counter s') (configs s') (live s') L" using I by (simp add: app_inv_def)
  have g: "g_shared_counter s' = word_of_int (\<Sum>t \<in> W. increments (L t))" using D unfolding workers_ok_def by blast
  have "increments (L t) = max 0 (n t)" if "t \<in> W" "returned (pc (L t))" for t
    using app_invD(3) [OF I that(1)] that(2) by (cases "pc (L t)") (auto simp: worker_defs)
  then have fin: "(\<Sum>t \<in> W. increments (L t)) = (\<Sum>t \<in> W. max 0 (n t))" if "\<forall>t \<in> W. returned (pc (L t))"
    using that by (intro sum.cong) auto
  have ex: "t = u" if "t \<in> W" "u \<in> W" "in_critical (pc (L t))" "in_critical (pc (L u))" for t u
    using app_invD(3) [OF I that(1)] app_invD(3) [OF I that(2)] that(3,4) by (simp add: worker_ok_def)
  show ?thesis
    using worker_step_inv [OF I, of "pxCurrentTCB s'"] switch_inv [OF I] tick_inv [OF I] g fin ex
    by (intro conjI) (auto simp del: worker_step.simps of_int_sum)
qed

text \<open>Two workers, the tasks 1000 and 2000, with the mutex at 510 and the task 3000 always ready.\<close>

definition demo_app :: app where
  "demo_app = shim.extend (demo_shim\<lparr>var := (\<lambda>_. 510)\<rparr>)
     \<lparr>g_shared_counter = 0, configs = (\<lambda>_. \<lparr>thread_id = 1, iterations = 5\<rparr>)\<rparr>"

lemma demo_app_simps [simp]:
  "lists demo_app = lists demo" "tcb demo_app = demo_tcbs" "pxCurrentTCB demo_app = 1000" "heap demo_app = demo_heap"
  "uxCurrentNumberOfTasks demo_app = 3" "xSchedulerRunning demo_app" "uxSchedulerSuspended demo_app = 0" "queues demo_app = demo_queues"
  "pendSV demo_app = False" "var demo_app = (\<lambda>_. 510)" "g_shared_counter demo_app = 0"
  "configs demo_app = (\<lambda>_. \<lparr>thread_id = 1, iterations = 5\<rparr>)"
  by (simp_all add: demo_app_def app.defs shim.defs demo_shim_def kernel.defs demo_kernel_def sched.defs)

lemma demo_app_inv: "sched_inv demo_app"
  using demo_shim_inv by (simp add: core_inv_def blocked_def demo_app_def shim.defs demo_shim_def kernel.defs demo_kernel_def sched.defs)

theorem shared_counter_exact_witness:
  "\<exists>cfg s. app_init 700 510 {1000, 2000} 3000 (\<lambda>_. 5) cfg (s :: app) \<and>
     worker_step 700 (start_worker (cfg 1000), s) \<noteq> None \<and> xPortPendSVHandler s \<noteq> None"
proof -
  have S: "sound demo_app" using demo_in_task(1) [of demo_app] demo_app_inv by (simp add: in_task_def)
  have z: "adjusted_size sizeof_thread_config = 16" by (simp add: adjusted_size_def sizeof_thread_config_def heap_defs cfg_defs)
  have r: "has_room (heap demo_app) (adjusted_size sizeof_thread_config + (adjusted_size sizeof_thread_config + 17))" "heapMINIMUM_BLOCK_SIZE < 17"
    unfolding z thread_sizes(5) using demo_room [of "16 + (16 + 17)"] by simp_all
  have n: "0 < sizeof_thread_config" "0 < adjusted_size sizeof_thread_config" using z by (simp_all add: sizeof_thread_config_def)
  obtain p k1 p' s where s: "sound s" "undisturbed demo_app s" "p' \<noteq> p" "p \<in> live s" "p' \<in> live s"
    by (rule two_blocks [OF S n n r]) auto
  note U = undisturbedD [OF s(2)]
  note cm = calmD [OF U(1)] and M = more_kernel [OF U(2)]
  define cfg where "cfg = (\<lambda>t :: addr. if t = 1000 then p else p')"
  define s0 where "s0 = s\<lparr>pendSV := False\<rparr>"
  have f: "sched_inv s0" "heap s0 = heap s" "queues s0 = demo_queues" "tcb s0 = demo_tcbs" "pxCurrentTCB s0 = 1000" "\<not> pendSV s0"
    "uxSchedulerSuspended s0 = 0" "uxCurrentNumberOfTasks s0 = 3" "var s0 = (\<lambda>_. 510)" "g_shared_counter s0 = 0"
    "configs s0 = (\<lambda>_. \<lparr>thread_id = 1, iterations = 5\<rparr>)" "ready s0 1000" "ready s0 3000" "heap_inv (heap s0)"
    using s(1) cm M(1) more_app [OF M(4)] calm_ready [OF U(1), of 1000] calm_ready [OF U(1), of 3000]
    by (simp_all add: s0_def sound_def ready_def)
  have "kernel_ok 700 510 {1000, 2000} 3000 s0"
    using f by (simp add: kernel_ok_def unlocked_def mutex_ok_def is_mutex_def demo_queues_def demo_tcbs_def empty_TCB_def)
  then have init: "app_init 700 510 {1000, 2000} 3000 (\<lambda>_. 5) cfg s0"
    using s(3-5) f by (auto simp: app_init_def cfg_def demo_queues_def)
  show ?thesis
    using shared_counter_exact [OF init rtranclp.rtrancl_refl] init f(5,6)
    by (intro exI [of _ cfg] exI [of _ s0]) (simp del: worker_step.simps)
qed

end
