(* ===== verification/FR_Task_More.thy ===== *)
theory FR_Task_More
  imports FR_Queue
begin

text \<open>
  The remaining functions of \<^verbatim>\<open>tasks.c\<close> in this build: statically allocated tasks, queries by name
  and by handle, the idle task, and the stack high-water mark, which reads the fill pattern of the
  byte memory.
\<close>

section \<open>Statically allocated tasks\<close>

definition prvCreateStaticTask ::
  "addr \<Rightarrow> string \<Rightarrow> nat \<Rightarrow> addr \<Rightarrow> nat \<Rightarrow> addr \<Rightarrow> addr \<Rightarrow> 'a sched_scheme \<Rightarrow> (addr \<times> 'a sched_scheme) option" where
  "prvCreateStaticTask code name uxStackDepth params priority puxStackBuffer pxTaskBuffer k = do {
     configASSERT (puxStackBuffer \<noteq> 0);
     configASSERT (pxTaskBuffer \<noteq> 0);
     if pxTaskBuffer \<noteq> 0 \<and> puxStackBuffer \<noteq> 0 then do {
       let k = upd_tcb pxTaskBuffer (\<lambda>_. empty_TCB\<lparr>pxStack := puxStackBuffer,
                 tcbAlloc := tskSTATICALLY_ALLOCATED_STACK_AND_TCB\<rparr>) k;
       k \<leftarrow> prvInitialiseNewTask code name uxStackDepth params priority pxTaskBuffer k;
       Some (pxTaskBuffer, k)
     } else Some (0, k)
   }"

definition xTaskCreateStatic ::
  "addr \<Rightarrow> string \<Rightarrow> nat \<Rightarrow> addr \<Rightarrow> nat \<Rightarrow> addr \<Rightarrow> addr \<Rightarrow> 'a sched_scheme \<Rightarrow> (addr \<times> 'a sched_scheme) option" where
  "xTaskCreateStatic code name uxStackDepth params priority puxStackBuffer pxTaskBuffer k = do {
     (new, k) \<leftarrow> prvCreateStaticTask code name uxStackDepth params priority puxStackBuffer pxTaskBuffer k;
     if new \<noteq> 0 then Some (new, prvAddNewTaskToReadyList new k) else Some (0, k)
   }"

text \<open>The stack and control block buffers of a statically allocated task; a NULL control block is 0.\<close>

definition xTaskGetStaticBuffers :: "addr \<Rightarrow> 'a sched_scheme \<Rightarrow> (addr \<times> addr) option option" where
  "xTaskGetStaticBuffers h k = do {
     let t = prvGetTCBFromHandle h k;
     configASSERT (t \<noteq> 0);
     Some (case tcbAlloc (tcb k t) of
         tskSTATICALLY_ALLOCATED_STACK_AND_TCB \<Rightarrow> Some (pxStack (tcb k t), t)
       | tskSTATICALLY_ALLOCATED_STACK_ONLY \<Rightarrow> Some (pxStack (tcb k t), 0)
       | tskDYNAMICALLY_ALLOCATED_STACK_AND_TCB \<Rightarrow> None)
   }"

section \<open>Queries\<close>

definition uxTaskPriorityGetFromISR :: "addr \<Rightarrow> 'a sched_scheme \<Rightarrow> nat option" where
  "uxTaskPriorityGetFromISR h k = do {
     let t = prvGetTCBFromHandle h k;
     configASSERT (t \<noteq> 0);
     Some (prio k t)
   }"

definition uxTaskBasePriorityGetFromISR :: "addr \<Rightarrow> 'a sched_scheme \<Rightarrow> nat option" where
  "uxTaskBasePriorityGetFromISR h k = do {
     let t = prvGetTCBFromHandle h k;
     configASSERT (t \<noteq> 0);
     Some (uxBasePriority (tcb k t))
   }"

definition xTaskGetTickCountFromISR :: "'a sched_scheme \<Rightarrow> TickType_t" where
  "xTaskGetTickCountFromISR k = xTickCount k"

definition uxTaskGetNumberOfTasks :: "'a sched_scheme \<Rightarrow> nat" where
  "uxTaskGetNumberOfTasks k = uxCurrentNumberOfTasks k"

definition xTaskGetCurrentTaskHandle :: "'a sched_scheme \<Rightarrow> addr" where
  "xTaskGetCurrentTaskHandle k = pxCurrentTCB k"

text \<open>The only valid core is 0.\<close>

definition xTaskGetCurrentTaskHandleForCore :: "int \<Rightarrow> 'a sched_scheme \<Rightarrow> addr" where
  "xTaskGetCurrentTaskHandleForCore xCoreID k = (if xCoreID = 0 then pxCurrentTCB k else 0)"

definition pcTaskGetName :: "addr \<Rightarrow> 'a sched_scheme \<Rightarrow> string option" where
  "pcTaskGetName h k = do {
     let t = prvGetTCBFromHandle h k;
     configASSERT (t \<noteq> 0);
     Some (pcTaskName (tcb k t))
   }"

definition vTaskSetTimeOutState :: "'a sched_scheme \<Rightarrow> TimeOut_t" where
  "vTaskSetTimeOutState k = \<lparr>xOverflowCount = xNumOfOverflows k, xTimeOnEntering = xTickCount k\<rparr>"

text \<open>
  The comparison loop of \<^verbatim>\<open>prvSearchForNameWithinSingleList\<close> over at most \<open>n\<close> characters of two
  NUL-terminated strings; reading past the terminator of a string gives NUL here, and the loop has
  stopped before in both strings.
\<close>

fun name_matches :: "nat \<Rightarrow> string \<Rightarrow> string \<Rightarrow> bool" where
  "name_matches 0 a b = False"
| "name_matches (Suc n) [] b = (b = [])"
| "name_matches (Suc n) (c # a) [] = False"
| "name_matches (Suc n) (c # a) (d # b) = (c = d \<and> name_matches n a b)"

fun search_items :: "string \<Rightarrow> 'a sched_scheme \<Rightarrow> item list \<Rightarrow> addr" where
  "search_items name k [] = 0"
| "search_items name k (i # is) =
     (if name_matches configMAX_TASK_NAME_LEN (pcTaskName (tcb k (owner i))) name then owner i
      else search_items name k is)"

definition prvSearchForNameWithinSingleList :: "list_id \<Rightarrow> string \<Rightarrow> 'a sched_scheme \<Rightarrow> addr" where
  "prvSearchForNameWithinSingleList l name k = search_items name k (items k l)"

text \<open>The lists in the order of the search: the first one that has a task of that name gives it.\<close>

fun search_lists :: "string \<Rightarrow> 'a sched_scheme \<Rightarrow> list_id list \<Rightarrow> addr" where
  "search_lists name k [] = 0"
| "search_lists name k (l # ls) =
     (let t = prvSearchForNameWithinSingleList l name k in if t \<noteq> 0 then t else search_lists name k ls)"

definition xTaskGetHandle :: "string \<Rightarrow> 'a sched_scheme \<Rightarrow> (addr \<times> 'a sched_scheme) option" where
  "xTaskGetHandle name k = do {
     configASSERT (length name < configMAX_TASK_NAME_LEN);
     let k = vTaskSuspendAll k;
     let t = search_lists name k (map pxReadyTasksLists (rev [0..<configMAX_PRIORITIES]) @
       [pxDelayedTaskList k, pxOverflowDelayedTaskList k, xSuspendedTaskList, xTasksWaitingTermination]);
     (_, k) \<leftarrow> xTaskResumeAll k;
     Some (t, k)
   }"

section \<open>Task numbers of the trace viewer\<close>

definition uxTaskGetTaskNumber :: "addr \<Rightarrow> 'a sched_scheme \<Rightarrow> nat" where
  "uxTaskGetTaskNumber t k = (if t \<noteq> 0 then uxTraceNumber (tcb k t) else 0)"

definition vTaskSetTaskNumber :: "addr \<Rightarrow> nat \<Rightarrow> 'a sched_scheme \<Rightarrow> 'a sched_scheme" where
  "vTaskSetTaskNumber t uxHandle k = (if t \<noteq> 0 then upd_tcb t (\<lambda>x. x\<lparr>uxTraceNumber := uxHandle\<rparr>) k else k)"

section \<open>Stack high-water mark, idle task, reset\<close>

definition tskSTACK_FILL_BYTE :: u8 where
  "tskSTACK_FILL_BYTE = 0xa5"

text \<open>The count of fill bytes from the end of the stack upwards, in words; the loop stops at the
  first other byte, and does not stop in a memory that has none.\<close>

partial_function (option) fill_count :: "(addr \<Rightarrow> u8) \<Rightarrow> addr \<Rightarrow> nat \<Rightarrow> nat option" where
  "fill_count m a n = (if m a = tskSTACK_FILL_BYTE then fill_count m (a + 1) (n + 1) else Some n)"

definition prvTaskCheckFreeStackSpace :: "addr \<Rightarrow> 'a kernel_scheme \<Rightarrow> nat option" where
  "prvTaskCheckFreeStackSpace a k = map_option (\<lambda>n. n div 4) (fill_count (mem k) a 0)"

definition uxTaskGetStackHighWaterMark :: "addr \<Rightarrow> 'a kernel_scheme \<Rightarrow> nat option" where
  "uxTaskGetStackHighWaterMark h k = do {
     let t = prvGetTCBFromHandle h k;
     configASSERT (t \<noteq> 0);
     prvTaskCheckFreeStackSpace (pxStack (tcb k t)) k
   }"

text \<open>One iteration of the idle task.\<close>

definition prvIdleTask :: "'a sched_scheme \<Rightarrow> 'a sched_scheme option" where
  "prvIdleTask k = prvCheckTasksWaitingTermination k"

definition vTaskResetState :: "'a sched_scheme \<Rightarrow> 'a sched_scheme" where
  "vTaskResetState k = k\<lparr>pxCurrentTCB := 0, uxDeletedTasksWaitingCleanUp := 0, uxCurrentNumberOfTasks := 0,
     xTickCount := 0, uxTopReadyPriority := of_nat tskIDLE_PRIORITY, xSchedulerRunning := False, xPendedTicks := 0,
     xYieldPending := False, xNumOfOverflows := 0, uxTaskNumber := 0, xNextTaskUnblockTime := 0,
     uxSchedulerSuspended := 0\<rparr>"

end
