(* ===== verification/FR_Timers.thy ===== *)
theory FR_Timers
  imports FR_Task_More
begin

text \<open>
  \<^verbatim>\<open>timers.c\<close>: software timers. The state extends the kernel's by the timer structures (by
  address), the two lists of active timers and the variables of the timer service task. A timer's
  list item belongs to that timer, so the lists hold timer addresses.

  Timer callbacks and pended functions are code of the application: the parameter \<open>user\<close> gives the
  effect of a call on the state. The command messages are built at the address \<open>xMessage\<close> of the
  caller's local variable and travel as sixteen bytes through the timer queue. The service task is
  a state machine (\<open>prvTimerTask\<close>) whose steps are the calls of its loop.
\<close>

section \<open>State\<close>

datatype timer_list = xActiveTimerList1 | xActiveTimerList2

record Timer_t =
  pcTimerName :: addr
  xTimerPeriodInTicks :: TickType_t
  pvTimerID :: addr
  pxCallbackFunction :: addr
  ucStatus :: u8

record tmr = kernel +
  timer :: "addr \<Rightarrow> Timer_t"
  tmr_lists :: "(timer_list, addr) list_state"
  pxCurrentTimerList :: timer_list
  pxOverflowTimerList :: timer_list
  xTimerQueue :: addr
  xTimerTaskHandle :: addr
  xLastTime :: TickType_t

text \<open>Calls of application code: a timer's callback, and a function pended by an API call.\<close>

datatype call = TimerCallback addr addr | PendedFunction addr addr u32

type_synonym 's user_code = "call \<Rightarrow> 's \<Rightarrow> 's option"

definition tmrSTATUS_IS_ACTIVE :: u8 where
  "tmrSTATUS_IS_ACTIVE = 0x01"

definition tmrSTATUS_IS_STATICALLY_ALLOCATED :: u8 where
  "tmrSTATUS_IS_STATICALLY_ALLOCATED = 0x02"

definition tmrSTATUS_IS_AUTORELOAD :: u8 where
  "tmrSTATUS_IS_AUTORELOAD = 0x04"

definition tmrMAX_TIME_BEFORE_OVERFLOW :: TickType_t where
  "tmrMAX_TIME_BEFORE_OVERFLOW = - 1"

definition configTIMER_QUEUE_LENGTH :: nat where
  "configTIMER_QUEUE_LENGTH = 20"

definition sizeof_DaemonTaskMessage :: nat where
  "sizeof_DaemonTaskMessage = 16"

definition sizeof_Timer :: nat where
  "sizeof_Timer = 44"

definition tmrCOMMAND_EXECUTE_CALLBACK_FROM_ISR :: int where "tmrCOMMAND_EXECUTE_CALLBACK_FROM_ISR = - 2"
definition tmrCOMMAND_EXECUTE_CALLBACK :: int where "tmrCOMMAND_EXECUTE_CALLBACK = - 1"
definition tmrCOMMAND_START :: int where "tmrCOMMAND_START = 1"
definition tmrCOMMAND_RESET :: int where "tmrCOMMAND_RESET = 2"
definition tmrCOMMAND_STOP :: int where "tmrCOMMAND_STOP = 3"
definition tmrCOMMAND_CHANGE_PERIOD :: int where "tmrCOMMAND_CHANGE_PERIOD = 4"
definition tmrCOMMAND_DELETE :: int where "tmrCOMMAND_DELETE = 5"
definition tmrFIRST_FROM_ISR_COMMAND :: int where "tmrFIRST_FROM_ISR_COMMAND = 6"
definition tmrCOMMAND_START_FROM_ISR :: int where "tmrCOMMAND_START_FROM_ISR = 6"
definition tmrCOMMAND_RESET_FROM_ISR :: int where "tmrCOMMAND_RESET_FROM_ISR = 7"
definition tmrCOMMAND_STOP_FROM_ISR :: int where "tmrCOMMAND_STOP_FROM_ISR = 8"
definition tmrCOMMAND_CHANGE_PERIOD_FROM_ISR :: int where "tmrCOMMAND_CHANGE_PERIOD_FROM_ISR = 9"

definition upd_timer :: "addr \<Rightarrow> (Timer_t \<Rightarrow> Timer_t) \<Rightarrow> 'a tmr_scheme \<Rightarrow> 'a tmr_scheme" where
  "upd_timer t f s = s\<lparr>timer := (timer s)(t := f (timer s t))\<rparr>"

definition upd_tmr_lists ::
  "((timer_list, addr) list_state \<Rightarrow> (timer_list, addr) list_state) \<Rightarrow> 'a tmr_scheme \<Rightarrow> 'a tmr_scheme" where
  "upd_tmr_lists f s = s\<lparr>tmr_lists := f (tmr_lists s)\<rparr>"

definition set_status :: "addr \<Rightarrow> u8 \<Rightarrow> 'a tmr_scheme \<Rightarrow> 'a tmr_scheme" where
  "set_status t b = upd_timer t (\<lambda>x. x\<lparr>ucStatus := ucStatus x OR b\<rparr>)"

definition clear_status :: "addr \<Rightarrow> u8 \<Rightarrow> 'a tmr_scheme \<Rightarrow> 'a tmr_scheme" where
  "clear_status t b = upd_timer t (\<lambda>x. x\<lparr>ucStatus := ucStatus x AND NOT b\<rparr>)"

definition has_status :: "addr \<Rightarrow> u8 \<Rightarrow> 'a tmr_scheme \<Rightarrow> bool" where
  "has_status t b s \<longleftrightarrow> ucStatus (timer s t) AND b \<noteq> 0"

section \<open>Creation\<close>

text \<open>\<open>xStaticTimerQueue\<close> and \<open>ucStaticTimerQueueStorage\<close> are the addresses of the static buffers.\<close>

definition prvCheckForValidListAndQueue :: "addr \<Rightarrow> addr \<Rightarrow> 'a tmr_scheme \<Rightarrow> 'a tmr_scheme option" where
  "prvCheckForValidListAndQueue ucStaticTimerQueueStorage xStaticTimerQueue s =
     (if xTimerQueue s = 0 then do {
        let s = upd_tmr_lists (ls_init xActiveTimerList1) s;
        let s = upd_tmr_lists (ls_init xActiveTimerList2) s;
        let s = s\<lparr>pxCurrentTimerList := xActiveTimerList1, pxOverflowTimerList := xActiveTimerList2\<rparr>;
        (q, s) \<leftarrow> xQueueGenericCreateStatic configTIMER_QUEUE_LENGTH sizeof_DaemonTaskMessage
                    ucStaticTimerQueueStorage xStaticTimerQueue s;
        let s = s\<lparr>xTimerQueue := q\<rparr>;
        if xTimerQueue s \<noteq> 0 then vQueueAddToRegistry (xTimerQueue s) (Some ''TmrQ'') s else Some s
      } else Some s)"

definition prvInitialiseNewTimer ::
  "addr \<Rightarrow> addr \<Rightarrow> addr \<Rightarrow> TickType_t \<Rightarrow> bool \<Rightarrow> addr \<Rightarrow> addr \<Rightarrow> addr \<Rightarrow> 'a tmr_scheme \<Rightarrow> 'a tmr_scheme option" where
  "prvInitialiseNewTimer storage tq name period xAutoReload ident callback t s = do {
     configASSERT (period > 0);
     s \<leftarrow> prvCheckForValidListAndQueue storage tq s;
     let s = upd_timer t (\<lambda>x. x\<lparr>pcTimerName := name, xTimerPeriodInTicks := period, pvTimerID := ident,
               pxCallbackFunction := callback\<rparr>) s;
     let s = upd_tmr_lists (ls_init_item t) s;
     Some (if xAutoReload then set_status t tmrSTATUS_IS_AUTORELOAD s else s)
   }"

definition xTimerCreate ::
  "addr \<Rightarrow> addr \<Rightarrow> addr \<Rightarrow> TickType_t \<Rightarrow> bool \<Rightarrow> addr \<Rightarrow> addr \<Rightarrow> 'a tmr_scheme \<Rightarrow> (addr \<times> 'a tmr_scheme) option" where
  "xTimerCreate storage tq name period xAutoReload ident callback s = do {
     (t, s) \<leftarrow> pvPortMalloc sizeof_Timer s;
     s \<leftarrow> (if t \<noteq> 0 then do {
            let s = upd_timer t (\<lambda>x. x\<lparr>ucStatus := 0\<rparr>) s;
            prvInitialiseNewTimer storage tq name period xAutoReload ident callback t s
          } else Some s);
     Some (t, s)
   }"

definition xTimerCreateStatic ::
  "addr \<Rightarrow> addr \<Rightarrow> addr \<Rightarrow> TickType_t \<Rightarrow> bool \<Rightarrow> addr \<Rightarrow> addr \<Rightarrow> addr \<Rightarrow> 'a tmr_scheme \<Rightarrow> (addr \<times> 'a tmr_scheme) option" where
  "xTimerCreateStatic storage tq name period xAutoReload ident callback pxTimerBuffer s = do {
     configASSERT (pxTimerBuffer \<noteq> 0);
     let t = pxTimerBuffer;
     let s = upd_timer t (\<lambda>x. x\<lparr>ucStatus := tmrSTATUS_IS_STATICALLY_ALLOCATED\<rparr>) s;
     s \<leftarrow> prvInitialiseNewTimer storage tq name period xAutoReload ident callback t s;
     Some (t, s)
   }"

section \<open>Messages\<close>

text \<open>The 32-bit words of memory, least significant byte first.\<close>

definition put_word :: "addr \<Rightarrow> u32 \<Rightarrow> 'a kernel_scheme \<Rightarrow> 'a kernel_scheme" where
  "put_word a v k = k\<lparr>mem := write_bytes a (pointer_bytes (unat v)) (mem k)\<rparr>"

definition get_word :: "addr \<Rightarrow> 'a kernel_scheme \<Rightarrow> u32" where
  "get_word a k = of_nat (bytes_pointer (bytes_at (mem k) a 4))"

definition timer_message :: "addr \<Rightarrow> int \<Rightarrow> TickType_t \<Rightarrow> addr \<Rightarrow> 'a kernel_scheme \<Rightarrow> 'a kernel_scheme" where
  "timer_message xMessage xCommandID xMessageValue t k =
     put_word (xMessage + 8) (of_nat t)
       (put_word (xMessage + 4) xMessageValue (put_word xMessage (word_of_int xCommandID) k))"

definition callback_message :: "addr \<Rightarrow> int \<Rightarrow> addr \<Rightarrow> addr \<Rightarrow> u32 \<Rightarrow> 'a kernel_scheme \<Rightarrow> 'a kernel_scheme" where
  "callback_message xMessage xCommandID f p1 p2 k =
     put_word (xMessage + 12) p2
       (put_word (xMessage + 8) (of_nat p1)
         (put_word (xMessage + 4) (of_nat f) (put_word xMessage (word_of_int xCommandID) k)))"

section \<open>Commands\<close>

text \<open>
  \<^verbatim>\<open>xTimerGenericCommandFromTask\<close> up to the first attempt to send; the attempts themselves are those
  of \<^verbatim>\<open>xQueueSendToBack\<close> on the timer queue.
\<close>

definition xTimerGenericCommandFromTask_entry ::
  "addr \<Rightarrow> addr \<Rightarrow> int \<Rightarrow> TickType_t \<Rightarrow> TickType_t \<Rightarrow> 'a tmr_scheme \<Rightarrow> (attempt \<times> 'a tmr_scheme) option" where
  "xTimerGenericCommandFromTask_entry xMessage t xCommandID xOptionalValue w s =
     (if xTimerQueue s \<noteq> 0 \<and> t \<noteq> 0 then do {
        let s = timer_message xMessage xCommandID xOptionalValue t s;
        configASSERT (xCommandID < tmrFIRST_FROM_ISR_COMMAND);
        fr \<leftarrow> xQueueGenericSend_entry (xTimerQueue s) xMessage
               (if xTaskGetSchedulerState s = taskSCHEDULER_RUNNING then w else 0) queueSEND_TO_BACK s;
        Some (Again fr, s)
      } else Some (Return False, s))"

definition xTimerGenericCommandFromTask_try ::
  "addr \<Rightarrow> wait_frame \<Rightarrow> 'a tmr_scheme \<Rightarrow> (attempt \<times> 'a tmr_scheme) option" where
  "xTimerGenericCommandFromTask_try xMessage fr s =
     xQueueGenericSend_try (xTimerQueue s) xMessage queueSEND_TO_BACK fr s"

definition xTimerGenericCommandFromTask_block ::
  "wait_frame \<Rightarrow> 'a tmr_scheme \<Rightarrow> (attempt \<times> 'a tmr_scheme) option" where
  "xTimerGenericCommandFromTask_block fr s = xQueueGenericSend_block (xTimerQueue s) fr s"

definition xTimerGenericCommandFromISR ::
  "addr \<Rightarrow> addr \<Rightarrow> int \<Rightarrow> TickType_t \<Rightarrow> 'a tmr_scheme \<Rightarrow> (bool \<times> bool \<times> 'a tmr_scheme) option" where
  "xTimerGenericCommandFromISR xMessage t xCommandID xOptionalValue s =
     (if xTimerQueue s \<noteq> 0 \<and> t \<noteq> 0 then do {
        let s = timer_message xMessage xCommandID xOptionalValue t s;
        configASSERT (xCommandID \<ge> tmrFIRST_FROM_ISR_COMMAND);
        xQueueGenericSendFromISR (xTimerQueue s) xMessage queueSEND_TO_BACK s
      } else Some (False, False, s))"

definition xTimerPendFunctionCallFromISR ::
  "addr \<Rightarrow> addr \<Rightarrow> addr \<Rightarrow> u32 \<Rightarrow> 'a tmr_scheme \<Rightarrow> (bool \<times> bool \<times> 'a tmr_scheme) option" where
  "xTimerPendFunctionCallFromISR xMessage f p1 p2 s =
     xQueueGenericSendFromISR (xTimerQueue s) xMessage queueSEND_TO_BACK
       (callback_message xMessage tmrCOMMAND_EXECUTE_CALLBACK_FROM_ISR f p1 p2 s)"

definition xTimerPendFunctionCall_entry ::
  "addr \<Rightarrow> addr \<Rightarrow> addr \<Rightarrow> u32 \<Rightarrow> TickType_t \<Rightarrow> 'a tmr_scheme \<Rightarrow> (attempt \<times> 'a tmr_scheme) option" where
  "xTimerPendFunctionCall_entry xMessage f p1 p2 w s = do {
     configASSERT (xTimerQueue s \<noteq> 0);
     let s = callback_message xMessage tmrCOMMAND_EXECUTE_CALLBACK f p1 p2 s;
     fr \<leftarrow> xQueueGenericSend_entry (xTimerQueue s) xMessage w queueSEND_TO_BACK s;
     Some (Again fr, s)
   }"

section \<open>Queries and settings\<close>

definition xTimerGetTimerDaemonTaskHandle :: "'a tmr_scheme \<Rightarrow> addr option" where
  "xTimerGetTimerDaemonTaskHandle s = do { configASSERT (xTimerTaskHandle s \<noteq> 0); Some (xTimerTaskHandle s) }"

definition xTimerGetPeriod :: "addr \<Rightarrow> 'a tmr_scheme \<Rightarrow> TickType_t option" where
  "xTimerGetPeriod t s = do { configASSERT (t \<noteq> 0); Some (xTimerPeriodInTicks (timer s t)) }"

definition vTimerSetReloadMode :: "addr \<Rightarrow> bool \<Rightarrow> 'a tmr_scheme \<Rightarrow> 'a tmr_scheme option" where
  "vTimerSetReloadMode t xAutoReload s = do {
     configASSERT (t \<noteq> 0);
     Some (if xAutoReload then set_status t tmrSTATUS_IS_AUTORELOAD s else clear_status t tmrSTATUS_IS_AUTORELOAD s)
   }"

definition xTimerGetReloadMode :: "addr \<Rightarrow> 'a tmr_scheme \<Rightarrow> bool option" where
  "xTimerGetReloadMode t s = do { configASSERT (t \<noteq> 0); Some (has_status t tmrSTATUS_IS_AUTORELOAD s) }"

definition uxTimerGetReloadMode :: "addr \<Rightarrow> 'a tmr_scheme \<Rightarrow> bool option" where
  "uxTimerGetReloadMode t s = xTimerGetReloadMode t s"

definition xTimerGetExpiryTime :: "addr \<Rightarrow> 'a tmr_scheme \<Rightarrow> TickType_t option" where
  "xTimerGetExpiryTime t s = do { configASSERT (t \<noteq> 0); Some (liValue (tmr_lists s) t) }"

definition xTimerGetStaticBuffer :: "addr \<Rightarrow> 'a tmr_scheme \<Rightarrow> addr option" where
  "xTimerGetStaticBuffer t s = (if has_status t tmrSTATUS_IS_STATICALLY_ALLOCATED s then Some t else None)"

definition pcTimerGetName :: "addr \<Rightarrow> 'a tmr_scheme \<Rightarrow> addr option" where
  "pcTimerGetName t s = do { configASSERT (t \<noteq> 0); Some (pcTimerName (timer s t)) }"

definition xTimerIsTimerActive :: "addr \<Rightarrow> 'a tmr_scheme \<Rightarrow> bool option" where
  "xTimerIsTimerActive t s = do { configASSERT (t \<noteq> 0); Some (has_status t tmrSTATUS_IS_ACTIVE s) }"

definition pvTimerGetTimerID :: "addr \<Rightarrow> 'a tmr_scheme \<Rightarrow> addr option" where
  "pvTimerGetTimerID t s = do { configASSERT (t \<noteq> 0); Some (pvTimerID (timer s t)) }"

definition vTimerSetTimerID :: "addr \<Rightarrow> addr \<Rightarrow> 'a tmr_scheme \<Rightarrow> 'a tmr_scheme option" where
  "vTimerSetTimerID t ident s = do {
     configASSERT (t \<noteq> 0);
     Some (upd_timer t (\<lambda>x. x\<lparr>pvTimerID := ident\<rparr>) s)
   }"

definition vTimerResetState :: "'a tmr_scheme \<Rightarrow> 'a tmr_scheme" where
  "vTimerResetState s = s\<lparr>xTimerQueue := 0, xTimerTaskHandle := 0\<rparr>"

section \<open>The active timers\<close>

text \<open>\<^verbatim>\<open>uxListRemove\<close> of a timer's list item.\<close>

definition remove_timer :: "addr \<Rightarrow> 'a tmr_scheme \<Rightarrow> 'a tmr_scheme option" where
  "remove_timer t s = map_option (\<lambda>(n, l). s\<lparr>tmr_lists := l\<rparr>) (ls_remove t (tmr_lists s))"

definition run_callback :: "'a tmr_scheme user_code \<Rightarrow> addr \<Rightarrow> 'a tmr_scheme \<Rightarrow> 'a tmr_scheme option" where
  "run_callback user t s = user (TimerCallback (pxCallbackFunction (timer s t)) t) s"

definition prvInsertTimerInActiveList ::
  "addr \<Rightarrow> TickType_t \<Rightarrow> TickType_t \<Rightarrow> TickType_t \<Rightarrow> 'a tmr_scheme \<Rightarrow> bool \<times> 'a tmr_scheme" where
  "prvInsertTimerInActiveList t xNextExpiryTime xTimeNow xCommandTime s =
     (let s = upd_tmr_lists (ls_set_value t xNextExpiryTime) s in
      if xNextExpiryTime \<le> xTimeNow then
        if xTimeNow - xCommandTime \<ge> xTimerPeriodInTicks (timer s t)
        then (True, s)
        else (False, upd_tmr_lists (ls_insert (pxOverflowTimerList s) t) s)
      else
        if xTimeNow < xCommandTime \<and> xNextExpiryTime \<ge> xCommandTime
        then (True, s)
        else (False, upd_tmr_lists (ls_insert (pxCurrentTimerList s) t) s))"

partial_function (option) prvReloadTimer ::
  "'a tmr_scheme user_code \<Rightarrow> addr \<Rightarrow> TickType_t \<Rightarrow> TickType_t \<Rightarrow> 'a tmr_scheme \<Rightarrow> 'a tmr_scheme option" where
  "prvReloadTimer user t xExpiredTime xTimeNow s =
     (case prvInsertTimerInActiveList t (xExpiredTime + xTimerPeriodInTicks (timer s t)) xTimeNow xExpiredTime s of
        (now, s) \<Rightarrow>
          if now then do {
            let xExpiredTime = xExpiredTime + xTimerPeriodInTicks (timer s t);
            s \<leftarrow> run_callback user t s;
            prvReloadTimer user t xExpiredTime xTimeNow s
          } else Some s)"

definition prvProcessExpiredTimer ::
  "'a tmr_scheme user_code \<Rightarrow> TickType_t \<Rightarrow> TickType_t \<Rightarrow> 'a tmr_scheme \<Rightarrow> 'a tmr_scheme option" where
  "prvProcessExpiredTimer user xNextExpireTime xTimeNow s = do {
     t \<leftarrow> ls_head (pxCurrentTimerList s) (tmr_lists s);
     s \<leftarrow> remove_timer t s;
     s \<leftarrow> (if has_status t tmrSTATUS_IS_AUTORELOAD s
            then prvReloadTimer user t xNextExpireTime xTimeNow s
            else Some (clear_status t tmrSTATUS_IS_ACTIVE s));
     run_callback user t s
   }"

partial_function (option) switch_loop :: "'a tmr_scheme user_code \<Rightarrow> 'a tmr_scheme \<Rightarrow> 'a tmr_scheme option" where
  "switch_loop user s =
     (case lsItems (tmr_lists s) (pxCurrentTimerList s) of
        [] \<Rightarrow> Some s
      | t # _ \<Rightarrow> do {
          s \<leftarrow> prvProcessExpiredTimer user (liValue (tmr_lists s) t) tmrMAX_TIME_BEFORE_OVERFLOW s;
          switch_loop user s
        })"

definition prvSwitchTimerLists :: "'a tmr_scheme user_code \<Rightarrow> 'a tmr_scheme \<Rightarrow> 'a tmr_scheme option" where
  "prvSwitchTimerLists user s = do {
     s \<leftarrow> switch_loop user s;
     Some (s\<lparr>pxCurrentTimerList := pxOverflowTimerList s, pxOverflowTimerList := pxCurrentTimerList s\<rparr>)
   }"

text \<open>Returns the time, whether the lists were switched, and the state.\<close>

definition prvSampleTimeNow ::
  "'a tmr_scheme user_code \<Rightarrow> 'a tmr_scheme \<Rightarrow> (TickType_t \<times> bool \<times> 'a tmr_scheme) option" where
  "prvSampleTimeNow user s = do {
     let xTimeNow = xTaskGetTickCount s;
     (sw, s) \<leftarrow> (if xTimeNow < xLastTime s then map_option (Pair True) (prvSwitchTimerLists user s)
                   else Some (False, s));
     Some (xTimeNow, sw, s\<lparr>xLastTime := xTimeNow\<rparr>)
   }"

definition prvGetNextExpireTime :: "'a tmr_scheme \<Rightarrow> TickType_t \<times> bool" where
  "prvGetNextExpireTime s =
     (case lsItems (tmr_lists s) (pxCurrentTimerList s) of
        [] \<Rightarrow> (0, True)
      | t # _ \<Rightarrow> (liValue (tmr_lists s) t, False))"

definition prvProcessTimerOrBlockTask ::
  "'a tmr_scheme user_code \<Rightarrow> TickType_t \<Rightarrow> bool \<Rightarrow> 'a tmr_scheme \<Rightarrow> 'a tmr_scheme option" where
  "prvProcessTimerOrBlockTask user xNextExpireTime xListWasEmpty s = do {
     let s = vTaskSuspendAll s;
     (xTimeNow, sw, s) \<leftarrow> prvSampleTimeNow user s;
     if \<not> sw then
       if \<not> xListWasEmpty \<and> xNextExpireTime \<le> xTimeNow then do {
         (_, s) \<leftarrow> xTaskResumeAll s;
         prvProcessExpiredTimer user xNextExpireTime xTimeNow s
       } else do {
         let xListWasEmpty = (if xListWasEmpty then lsItems (tmr_lists s) (pxOverflowTimerList s) = [] else xListWasEmpty);
         s \<leftarrow> vQueueWaitForMessageRestricted (xTimerQueue s) (xNextExpireTime - xTimeNow) xListWasEmpty s;
         (xAlreadyYielded, s) \<leftarrow> xTaskResumeAll s;
         Some (if \<not> xAlreadyYielded then portYIELD s else s)
       }
     else map_option snd (xTaskResumeAll s)
   }"

section \<open>The service task\<close>

text \<open>The case \<^verbatim>\<open>tmrCOMMAND_START\<close> of the switch: the timer starts now, or it has already expired.\<close>

definition start_timer :: "'a tmr_scheme user_code \<Rightarrow> addr \<Rightarrow> TickType_t \<Rightarrow> TickType_t \<Rightarrow> 'a tmr_scheme \<Rightarrow> 'a tmr_scheme option" where
  "start_timer user t xMessageValue xTimeNow s = do {
     let s = set_status t tmrSTATUS_IS_ACTIVE s;
     let (now, s) = prvInsertTimerInActiveList t (xMessageValue + xTimerPeriodInTicks (timer s t)) xTimeNow xMessageValue s;
     if now then do {
       s \<leftarrow> (if has_status t tmrSTATUS_IS_AUTORELOAD s
              then prvReloadTimer user t (xMessageValue + xTimerPeriodInTicks (timer s t)) xTimeNow s
              else Some (clear_status t tmrSTATUS_IS_ACTIVE s));
       run_callback user t s
     } else Some s
   }"

definition change_period :: "addr \<Rightarrow> TickType_t \<Rightarrow> TickType_t \<Rightarrow> 'a tmr_scheme \<Rightarrow> 'a tmr_scheme option" where
  "change_period t xMessageValue xTimeNow s = do {
     let s = set_status t tmrSTATUS_IS_ACTIVE s;
     let s = upd_timer t (\<lambda>x. x\<lparr>xTimerPeriodInTicks := xMessageValue\<rparr>) s;
     configASSERT (xTimerPeriodInTicks (timer s t) > 0);
     Some (snd (prvInsertTimerInActiveList t (xTimeNow + xTimerPeriodInTicks (timer s t)) xTimeNow xTimeNow s))
   }"

definition delete_timer :: "addr \<Rightarrow> 'a tmr_scheme \<Rightarrow> 'a tmr_scheme option" where
  "delete_timer t s =
     (if \<not> has_status t tmrSTATUS_IS_STATICALLY_ALLOCATED s then vPortFree t s
      else Some (clear_status t tmrSTATUS_IS_ACTIVE s))"

text \<open>The body of the loop of \<^verbatim>\<open>prvProcessReceivedCommands\<close> for a command on a timer.\<close>

definition timer_command ::
  "'a tmr_scheme user_code \<Rightarrow> int \<Rightarrow> TickType_t \<Rightarrow> addr \<Rightarrow> 'a tmr_scheme \<Rightarrow> 'a tmr_scheme option" where
  "timer_command user xMessageID xMessageValue t s =
     (if t \<noteq> 0 then do {
        s \<leftarrow> (if liContainer (tmr_lists s) t \<noteq> None then remove_timer t s else Some s);
        (xTimeNow, _, s) \<leftarrow> prvSampleTimeNow user s;
        if xMessageID \<in> {tmrCOMMAND_START, tmrCOMMAND_START_FROM_ISR, tmrCOMMAND_RESET, tmrCOMMAND_RESET_FROM_ISR}
        then start_timer user t xMessageValue xTimeNow s
        else if xMessageID \<in> {tmrCOMMAND_STOP, tmrCOMMAND_STOP_FROM_ISR}
        then Some (clear_status t tmrSTATUS_IS_ACTIVE s)
        else if xMessageID \<in> {tmrCOMMAND_CHANGE_PERIOD, tmrCOMMAND_CHANGE_PERIOD_FROM_ISR}
        then change_period t xMessageValue xTimeNow s
        else if xMessageID = tmrCOMMAND_DELETE then delete_timer t s
        else Some s
      } else Some s)"

text \<open>The body of the loop, for the message that was received at \<open>xMessage\<close>.\<close>

definition process_message :: "'a tmr_scheme user_code \<Rightarrow> addr \<Rightarrow> 'a tmr_scheme \<Rightarrow> 'a tmr_scheme option" where
  "process_message user xMessage s =
     (let xMessageID = sint (get_word xMessage s) in
      if xMessageID < 0
      then user (PendedFunction (unat (get_word (xMessage + 4) s)) (unat (get_word (xMessage + 8) s))
                   (get_word (xMessage + 12) s)) s
      else timer_command user xMessageID (get_word (xMessage + 4) s) (unat (get_word (xMessage + 8) s)) s)"

definition xQueueReceive_nowait :: "addr \<Rightarrow> addr \<Rightarrow> 'a kernel_scheme \<Rightarrow> (bool \<times> 'a kernel_scheme) option" where
  "xQueueReceive_nowait q buf k = do {
     fr \<leftarrow> xQueueReceive_entry q buf 0 k;
     (a, k) \<leftarrow> xQueueReceive_try q buf fr k;
     case a of Return b \<Rightarrow> Some (b, k) | Again _ \<Rightarrow> None
   }"

partial_function (option) prvProcessReceivedCommands ::
  "'a tmr_scheme user_code \<Rightarrow> addr \<Rightarrow> 'a tmr_scheme \<Rightarrow> 'a tmr_scheme option" where
  "prvProcessReceivedCommands user xMessage s = do {
     (received, s) \<leftarrow> xQueueReceive_nowait (xTimerQueue s) xMessage s;
     if received then do {
       s \<leftarrow> process_message user xMessage s;
       prvProcessReceivedCommands user xMessage s
     } else Some s
   }"

text \<open>
  The loop of the service task. After \<^verbatim>\<open>prvProcessTimerOrBlockTask\<close> the task may be blocked; the
  next step is taken when it runs again. \<open>xMessage\<close> is the local variable of
  \<^verbatim>\<open>prvProcessReceivedCommands\<close>, cleared on entry.
\<close>

datatype daemon_pc = D_Next | D_Wait TickType_t bool | D_Commands

fun prvTimerTask ::
  "'a tmr_scheme user_code \<Rightarrow> addr \<Rightarrow> daemon_pc \<times> 'a tmr_scheme \<Rightarrow> (daemon_pc \<times> 'a tmr_scheme) option" where
  "prvTimerTask user xMessage (D_Next, s) = Some (case prvGetNextExpireTime s of (x, e) \<Rightarrow> D_Wait x e, s)"
| "prvTimerTask user xMessage (D_Wait x e, s) = map_option (Pair D_Commands) (prvProcessTimerOrBlockTask user x e s)"
| "prvTimerTask user xMessage (D_Commands, s) =
     map_option (Pair D_Next) (prvProcessReceivedCommands user xMessage
       (s\<lparr>mem := write_bytes xMessage (replicate sizeof_DaemonTaskMessage 0) (mem s)\<rparr>))"

end
