(* ===== verification/FR_Timer_Props.thy ===== *)
theory FR_Timer_Props
  imports FR_Timers FR_Timeout
begin

text \<open>
  Software timers against absolute time. The 32-bit tick count and the two lists of active timers
  encode expiry times that grow without bound: with \<open>E\<close> wraps of the tick count behind the service
  task, a timer in the current list expires at \<open>E * 2 ^ 32\<close> plus its list value, and one in the
  overflow list \<open>2 ^ 32\<close> ticks later (\<open>due_at\<close>). In these terms the insertion, the reload, the
  expiry and the switch of the lists are exact, across any wrap of the tick count.
\<close>

section \<open>Tick counts\<close>

lemma tick_less: "unat (v :: TickType_t) < 2 ^ 32"
  using unsigned_less [of v] by simp

lemma unat_tick: "unat (of_nat n :: TickType_t) = n mod 2 ^ 32"
  by (simp add: unat_of_nat)

lemma tick_elapsed:
  assumes "C \<le> N" "N < C + 2 ^ 32"
  shows "unat (of_nat N - of_nat C :: TickType_t) = N - C"
proof -
  have "(of_nat N - of_nat C :: TickType_t) = of_nat (N - C)" using assms(1) by simp
  then show ?thesis using assms(2) by (simp only: unat_tick) (simp add: mod_less)
qed

text \<open>The comparisons of \<^verbatim>\<open>prvInsertTimerInActiveList\<close>, for a command given at \<open>C\<close> and processed at \<open>N\<close>.\<close>

lemma insert_decision:
  fixes p :: TickType_t
  assumes CN: "C \<le> N" "N < C + 2 ^ 32"
  defines "c \<equiv> of_nat C :: TickType_t" and "now \<equiv> of_nat N :: TickType_t"
  shows "c + p \<le> now \<Longrightarrow> now - c \<ge> p \<longleftrightarrow> C + unat p \<le> N"
    and "c + p \<le> now \<Longrightarrow> N < C + unat p \<Longrightarrow> (C + unat p) div 2 ^ 32 = N div 2 ^ 32 + 1"
    and "\<not> c + p \<le> now \<Longrightarrow> (now < c \<and> c + p \<ge> c) \<longleftrightarrow> C + unat p \<le> N"
    and "\<not> c + p \<le> now \<Longrightarrow> N < C + unat p \<Longrightarrow> (C + unat p) div 2 ^ 32 = N div 2 ^ 32"
    and "unat (c + p) = (C + unat p) mod 2 ^ 32"
proof -
  have p: "unat p < 2 ^ 32" using unsigned_less [of p] by simp
  have cp: "c + p = of_nat (C + unat p)" by (simp add: c_def)
  show u: "unat (c + p) = (C + unat p) mod 2 ^ 32" by (simp only: cp unat_tick)
  have un: "unat now = N mod 2 ^ 32" and uc: "unat c = C mod 2 ^ 32" by (simp_all only: now_def c_def unat_tick)
  have el: "unat (now - c) = N - C" using tick_elapsed [OF CN] by (simp add: now_def c_def)
  define a ca b nb d db where "a = C div 2 ^ 32" "ca = C mod 2 ^ 32" "b = N div 2 ^ 32" "nb = N mod 2 ^ 32"
    "d = (C + unat p) div 2 ^ 32" "db = (C + unat p) mod 2 ^ 32"
  note parts = this
  have C: "C = a * 4294967296 + ca" "ca < 4294967296" and N: "N = b * 4294967296 + nb" "nb < 4294967296"
    and D: "C + unat p = d * 4294967296 + db" "db < 4294967296"
    by (simp_all add: parts)
  have le: "c + p \<le> now \<longleftrightarrow> db \<le> nb" "now < c \<longleftrightarrow> nb < ca" "c + p \<ge> c \<longleftrightarrow> ca \<le> db"
    by (simp_all add: word_le_nat_alt word_less_nat_alt u un uc parts)
  have ab: "b = a \<or> b = a + 1" "d = a \<or> d = a + 1"
    using C N D CN p by auto
  note ar = ab C N D p CN and fold = parts(1,3,5) [symmetric]
  show "c + p \<le> now \<Longrightarrow> now - c \<ge> p \<longleftrightarrow> C + unat p \<le> N"
    using CN(1) by (auto simp: word_le_nat_alt el)
  show "c + p \<le> now \<Longrightarrow> N < C + unat p \<Longrightarrow> (C + unat p) div 2 ^ 32 = N div 2 ^ 32 + 1"
    using ar unfolding le fold by auto
  show "\<not> c + p \<le> now \<Longrightarrow> (now < c \<and> c + p \<ge> c) \<longleftrightarrow> C + unat p \<le> N"
    using ar unfolding le by auto
  show "\<not> c + p \<le> now \<Longrightarrow> N < C + unat p \<Longrightarrow> (C + unat p) div 2 ^ 32 = N div 2 ^ 32"
    using ar unfolding le fold by auto
qed

section \<open>Callbacks, expiry times and the invariant\<close>

definition same_timers :: "'a tmr_scheme \<Rightarrow> 'a tmr_scheme \<Rightarrow> bool" where
  "same_timers s s' \<longleftrightarrow> timer s' = timer s \<and> tmr_lists s' = tmr_lists s \<and> xLastTime s' = xLastTime s \<and>
     pxCurrentTimerList s' = pxCurrentTimerList s \<and> pxOverflowTimerList s' = pxOverflowTimerList s \<and>
     xTimerQueue s' = xTimerQueue s"

text \<open>
  Application code that returns, leaves the timers to the service task, and whose calls can be read
  off its own state with \<open>tr\<close>.
\<close>

definition records :: "'a tmr_scheme user_code \<Rightarrow> ('a \<Rightarrow> call list) \<Rightarrow> bool" where
  "records user tr \<longleftrightarrow>
     (\<forall>c s. \<exists>s'. user c s = Some s' \<and> same_timers s s' \<and> tr (tmr.more s') = tr (tmr.more s) @ [c])"

definition due_at :: "nat \<Rightarrow> 'a tmr_scheme \<Rightarrow> addr \<Rightarrow> nat option" where
  "due_at E s t =
     (case liContainer (tmr_lists s) t of
        None \<Rightarrow> None
      | Some l \<Rightarrow> Some ((if l = pxCurrentTimerList s then E else E + 1) * 2 ^ 32 + unat (liValue (tmr_lists s) t)))"

definition in_order :: "('l, 'i) list_state \<Rightarrow> bool" where
  "in_order s \<longleftrightarrow> ls_wf UNIV s \<and> (\<forall>l. sorted (map (liValue s) (lsItems s l)))"

definition tmr_inv :: "'a tmr_scheme \<Rightarrow> bool" where
  "tmr_inv s \<longleftrightarrow> in_order (tmr_lists s) \<and> pxCurrentTimerList s \<noteq> pxOverflowTimerList s \<and>
     (\<forall>t. liContainer (tmr_lists s) t \<noteq> None \<longrightarrow>
        has_status t tmrSTATUS_IS_ACTIVE s \<and> xTimerPeriodInTicks (timer s t) > 0)"

text \<open>The first expiry after \<open>N\<close> of a timer of period \<open>p\<close> that expires at \<open>d\<close>, and how many there are up to \<open>N\<close>.\<close>

definition expiries :: "nat \<Rightarrow> nat \<Rightarrow> nat \<Rightarrow> nat" where
  "expiries d p N = (if d \<le> N then (N - d) div p + 1 else 0)"

definition next_due :: "nat \<Rightarrow> nat \<Rightarrow> nat \<Rightarrow> nat" where
  "next_due d p N = d + expiries d p N * p"

lemma expiries_step: "0 < p \<Longrightarrow> d \<le> N \<Longrightarrow> expiries d p N = expiries (d + p) p N + 1"
proof (cases "d + p \<le> N")
  case True
  assume p: "0 < p"
  have "(N - d) = (N - (d + p)) + p" using True by simp
  then have "(N - d) div p = (N - (d + p)) div p + 1" using p by (metis div_add_self2 neq0_conv)
  then show ?thesis using True by (simp add: expiries_def)
qed (simp add: expiries_def)

lemma next_due_step: "0 < p \<Longrightarrow> d \<le> N \<Longrightarrow> next_due d p N = next_due (d + p) p N"
  by (simp add: next_due_def expiries_step)

lemma expiries_0 [simp]: "N < d \<Longrightarrow> expiries d p N = 0"
  by (simp add: expiries_def)

lemma next_due_0 [simp]: "N < d \<Longrightarrow> next_due d p N = d"
  by (simp add: next_due_def)

lemma next_due_bounds: "0 < p \<Longrightarrow> N < next_due d p N \<and> (d \<le> N \<longrightarrow> next_due d p N \<le> N + p)"
proof (cases "d \<le> N")
  case True
  assume p: "0 < p"
  obtain q r where qr: "q = (N - d) div p" "q * p + r = N - d" "r < p"
    using p div_mult_mod_eq [of "N - d" p] mod_less_divisor by metis
  have "next_due d p N = d + q * p + p" using True by (simp add: next_due_def expiries_def qr(1))
  moreover have "N = d + q * p + r" using qr(2) True by linarith
  ultimately show ?thesis using qr(3) by simp
qed simp

lemma in_order_ops:
  assumes "in_order s"
  shows "liContainer s i = None \<Longrightarrow> in_order (ls_insert l i s)"
    and "liContainer s i = Some l \<Longrightarrow> in_order (ls_del l i s)"
    and "liContainer s i = None \<Longrightarrow> in_order (ls_set_value i v s)"
proof -
  have wf: "ls_wf UNIV s" and so: "sorted (map (liValue s) (lsItems s m))" for m
    using assms by (simp_all add: in_order_def)
  show "in_order (ls_insert l i s)" if n: "liContainer s i = None"
  proof -
    have "ls_wf UNIV (ls_insert l i s)" using seq.ins_law [OF wf, of l i] n by auto
    moreover have "sorted (map (liValue s) (lsItems (ls_insert l i s) m))" for m
      using so sorted_insert_by [of "liValue s" "lsItems s m" i] by (auto simp: ls_insert_eq)
    ultimately show ?thesis by (simp add: in_order_def)
  qed
  show "in_order (ls_del l i s)" if n: "liContainer s i = Some l"
  proof -
    have "ls_wf UNIV (ls_del l i s)" using ls_wf_remove [OF wf, of i] n by (simp add: ls_remove_def)
    moreover have "sorted (map (liValue s) (lsItems (ls_del l i s) m))" for m
      using so by (auto simp: ls_del_def sorted_map_remove1)
    ultimately show ?thesis by (simp add: in_order_def)
  qed
  show "in_order (ls_set_value i v s)" if n: "liContainer s i = None"
  proof -
    have "ls_wf UNIV (ls_set_value i v s)" using wf by (simp add: ls_wf_def ls_set_value_def)
    moreover have "map (liValue (ls_set_value i v s)) (lsItems (ls_set_value i v s) m) = map (liValue s) (lsItems s m)" for m
      using wf_free [OF wf n] by (auto simp: ls_set_value_def)
    ultimately show ?thesis using so by (simp add: in_order_def)
  qed
qed

lemma set_value_twice [simp]: "ls_set_value t v (ls_set_value t w s) = ls_set_value t v s"
  by (simp add: ls_set_value_def)

lemma upd_tmr_lists_simps [simp]:
  "timer (upd_tmr_lists f s) = timer s" "tmr_lists (upd_tmr_lists f s) = f (tmr_lists s)"
  "pxCurrentTimerList (upd_tmr_lists f s) = pxCurrentTimerList s"
  "pxOverflowTimerList (upd_tmr_lists f s) = pxOverflowTimerList s"
  "xLastTime (upd_tmr_lists f s) = xLastTime s" "xTimerQueue (upd_tmr_lists f s) = xTimerQueue s"
  "tmr.more (upd_tmr_lists f s) = tmr.more s" "xTickCount (upd_tmr_lists f s) = xTickCount s"
  by (simp_all add: upd_tmr_lists_def)

section \<open>Insertion and reload\<close>

text \<open>The list for an expiry at \<open>D\<close>, seen at time \<open>N\<close>.\<close>

definition list_for :: "nat \<Rightarrow> nat \<Rightarrow> 'a tmr_scheme \<Rightarrow> timer_list" where
  "list_for N D s = (if D div 2 ^ 32 = N div 2 ^ 32 then pxCurrentTimerList s else pxOverflowTimerList s)"

lemma insert_exact:
  fixes s :: "'a tmr_scheme" and t :: addr and C N :: nat
  assumes "C \<le> N" "N < C + 2 ^ 32"
  defines "p \<equiv> xTimerPeriodInTicks (timer s t)"
  defines "ls \<equiv> ls_set_value t (of_nat (C + unat p)) (tmr_lists s)"
  shows "prvInsertTimerInActiveList t (of_nat C + p) (of_nat N) (of_nat C) s =
     (if C + unat p \<le> N then (True, s\<lparr>tmr_lists := ls\<rparr>)
      else (False, s\<lparr>tmr_lists := ls_insert (list_for N (C + unat p) s) t ls\<rparr>))"
proof -
  note d = insert_decision [OF assms(1,2), of p]
  have v: "(of_nat C :: TickType_t) + p = of_nat (C + unat p)" by simp
  show ?thesis
  proof (cases "(of_nat C :: TickType_t) + p \<le> of_nat N")
    case True
    show ?thesis using d(1,2) [OF True] True unfolding v
      by (cases "C + unat p \<le> N")
        (simp_all add: prvInsertTimerInActiveList_def upd_tmr_lists_def p_def ls_def list_for_def Let_def)
  next
    case False
    show ?thesis using d(3,4) [OF False] False unfolding v
      by (cases "C + unat p \<le> N")
        (simp_all add: prvInsertTimerInActiveList_def upd_tmr_lists_def p_def ls_def list_for_def Let_def)
  qed
qed

text \<open>
  \<^verbatim>\<open>prvReloadTimer\<close> returns: it calls back once for every further expiry up to \<open>N\<close> and inserts the
  timer for the first expiry after \<open>N\<close>.
\<close>

definition callback_of :: "addr \<Rightarrow> 'a tmr_scheme \<Rightarrow> call" where
  "callback_of t s = TimerCallback (pxCallbackFunction (timer s t)) t"

definition others_same :: "'a tmr_scheme \<Rightarrow> 'a tmr_scheme \<Rightarrow> bool" where
  "others_same s s' \<longleftrightarrow> pxCurrentTimerList s' = pxCurrentTimerList s \<and>
     pxOverflowTimerList s' = pxOverflowTimerList s \<and> xLastTime s' = xLastTime s \<and> xTimerQueue s' = xTimerQueue s"

lemma records_run:
  assumes "records user tr"
  obtains s' where "run_callback user t s = Some s'" "timer s' = timer s" "tmr_lists s' = tmr_lists s"
    "others_same s s'" "tr (tmr.more s') = tr (tmr.more s) @ [callback_of t s]"
proof -
  obtain s' where "user (callback_of t s) s = Some s'" "same_timers s s'"
    "tr (tmr.more s') = tr (tmr.more s) @ [callback_of t s]"
    using assms unfolding records_def by blast
  then show ?thesis using that by (simp add: run_callback_def callback_of_def same_timers_def others_same_def)
qed

lemma reload_exact:
  fixes s :: "'a tmr_scheme"
  assumes rec: "records user tr" and p: "xTimerPeriodInTicks (timer s t) > 0"
    and CN: "C \<le> N" "N < C + 2 ^ 32"
  defines "D \<equiv> next_due (C + unat (xTimerPeriodInTicks (timer s t))) (unat (xTimerPeriodInTicks (timer s t))) N"
  shows "\<exists>s'. prvReloadTimer user t (of_nat C) (of_nat N) s = Some s' \<and> timer s' = timer s \<and> others_same s s' \<and>
     tmr_lists s' = ls_insert (list_for N D s) t (ls_set_value t (of_nat D) (tmr_lists s)) \<and>
     tr (tmr.more s') = tr (tmr.more s) @
       replicate (expiries (C + unat (xTimerPeriodInTicks (timer s t))) (unat (xTimerPeriodInTicks (timer s t))) N) (callback_of t s)"
  using p CN unfolding D_def
proof (induction "N - C" arbitrary: C s rule: less_induct)
  case less
  let ?p = "unat (xTimerPeriodInTicks (timer s t))"
  have p: "0 < ?p" using less.prems(1) by (simp add: word_less_nat_alt)
  note ins = insert_exact [OF less.prems(2,3), of t s]
  show ?case
  proof (cases "C + ?p \<le> N")
    case False
    then have "prvReloadTimer user t (of_nat C) (of_nat N) s =
      Some (s\<lparr>tmr_lists := ls_insert (list_for N (C + ?p) s) t (ls_set_value t (of_nat (C + ?p)) (tmr_lists s))\<rparr>)"
      by (subst prvReloadTimer.simps) (simp only: ins if_False case_prod_conv)
    then show ?thesis using False by (simp add: others_same_def)
  next
    case True
    let ?s1 = "s\<lparr>tmr_lists := ls_set_value t (of_nat (C + ?p)) (tmr_lists s)\<rparr>"
    obtain s2 where s2: "run_callback user t ?s1 = Some s2" "timer s2 = timer s" "tmr_lists s2 = tmr_lists ?s1"
      "others_same ?s1 s2" "tr (tmr.more s2) = tr (tmr.more s) @ [callback_of t s]"
      by (rule records_run [OF rec, of t ?s1]) (simp_all add: callback_of_def)
    have "prvReloadTimer user t (of_nat C) (of_nat N) s = prvReloadTimer user t (of_nat (C + ?p)) (of_nat N) s2"
      by (subst prvReloadTimer.simps) (use True in \<open>simp add: ins s2(1) del: of_nat_add\<close>, simp)
    moreover have "N - (C + ?p) < N - C" using True p by simp
    note less.hyps [OF this, of s2]
    moreover have "list_for N d s2 = list_for N d s" for d using s2(4) by (simp add: list_for_def others_same_def)
    moreover have "callback_of t s2 = callback_of t s" by (simp add: callback_of_def s2(2))
    ultimately show ?thesis
      using s2 less.prems True p next_due_step [OF p True] expiries_step [OF p True]
      by (simp add: others_same_def replicate_append_same)
  qed
qed

section \<open>Expiry\<close>

lemma due_encoding:
  assumes "N < D" "D \<le> N + p" "p < 2 ^ 32"
  shows "(if D div 2 ^ 32 = N div 2 ^ 32 then N div 2 ^ 32 else N div 2 ^ 32 + 1) * 2 ^ 32 +
    unat (of_nat D :: TickType_t) = D"
proof -
  define a b n m where ab: "a = D div 2 ^ 32" "b = D mod 2 ^ 32" and nm: "n = N div 2 ^ 32" "m = N mod 2 ^ 32"
  have D: "D = a * 4294967296 + b" "b < 4294967296" and N: "N = n * 4294967296 + m" "m < 4294967296"
    by (simp_all add: ab nm)
  have "a = n \<or> a = n + 1" using assms(1,2) assms(3) [simplified] D N by linarith
  then show ?thesis unfolding unat_tick ab [symmetric] nm [symmetric] using D(1) by auto
qed

lemma current_iff:
  "tmr_inv s \<Longrightarrow> t \<in> set (lsItems (tmr_lists s) l) \<longleftrightarrow> liContainer (tmr_lists s) t = Some l"
  using wf_container [of UNIV "tmr_lists s" l t] by (simp add: tmr_inv_def in_order_def)

lemma set_status_simps [simp]:
  "tmr_lists (set_status t b s) = tmr_lists s" "tmr_lists (clear_status t b s) = tmr_lists s"
  "pxCurrentTimerList (clear_status t b s) = pxCurrentTimerList s"
  "pxOverflowTimerList (clear_status t b s) = pxOverflowTimerList s"
  "pxCurrentTimerList (set_status t b s) = pxCurrentTimerList s"
  "pxOverflowTimerList (set_status t b s) = pxOverflowTimerList s"
  "xLastTime (clear_status t b s) = xLastTime s" "xTimerQueue (clear_status t b s) = xTimerQueue s"
  "xLastTime (set_status t b s) = xLastTime s" "xTimerQueue (set_status t b s) = xTimerQueue s"
  "tmr.more (clear_status t b s) = tmr.more s" "tmr.more (set_status t b s) = tmr.more s"
  "xTimerPeriodInTicks (timer (clear_status t b s) u) = xTimerPeriodInTicks (timer s u)"
  "xTimerPeriodInTicks (timer (set_status t b s) u) = xTimerPeriodInTicks (timer s u)"
  "pxCallbackFunction (timer (clear_status t b s) u) = pxCallbackFunction (timer s u)"
  "pxCallbackFunction (timer (set_status t b s) u) = pxCallbackFunction (timer s u)"
  "u \<noteq> t \<Longrightarrow> timer (clear_status t b s) u = timer s u" "u \<noteq> t \<Longrightarrow> timer (set_status t b s) u = timer s u"
  by (simp_all add: set_status_def clear_status_def upd_timer_def)

text \<open>A state whose lists come from those of \<open>s\<close> by taking \<open>t\<close> out, and perhaps inserting it for \<open>D\<close>.\<close>

definition without_timer :: "addr \<Rightarrow> (timer_list, addr) list_state \<Rightarrow> (timer_list, addr) list_state \<Rightarrow> bool" where
  "without_timer t L L' \<longleftrightarrow> in_order L' \<and> liContainer L' = (liContainer L)(t := None) \<and>
     (\<forall>u. u \<noteq> t \<longrightarrow> liValue L' u = liValue L u)"

lemma without_timer_del: "in_order L \<Longrightarrow> liContainer L t = Some l \<Longrightarrow> without_timer t L (ls_del l t L)"
  using in_order_ops(2) [of L t l] by (simp add: without_timer_def)

lemma without_timer_set:
  assumes "in_order L" "liContainer L t = None"
  shows "without_timer t L (ls_set_value t v L)" "without_timer t L L"
proof -
  have "(liContainer L)(t := None) = liContainer L" using assms(2) by (rule fun_upd_idem)
  then show "without_timer t L (ls_set_value t v L)" "without_timer t L L"
    using assms in_order_ops(3) [OF assms] by (simp_all add: without_timer_def)
qed

lemma moved_timer:
  fixes s s' :: "'a tmr_scheme"
  assumes inv: "tmr_inv s" and L0: "without_timer t (tmr_lists s) L"
    and oth: "others_same s s'" and tm: "\<forall>u. u \<noteq> t \<longrightarrow> timer s' u = timer s u"
    and E: "E = N div 2 ^ 32"
    and again: "again \<Longrightarrow> has_status t tmrSTATUS_IS_ACTIVE s' \<and> xTimerPeriodInTicks (timer s' t) > 0 \<and>
      N < D \<and> D \<le> N + p \<and> p < 2 ^ 32"
    and ls: "tmr_lists s' = (if again then ls_insert (list_for N D s) t (ls_set_value t (of_nat D) L) else L)"
  shows "tmr_inv s'" "\<forall>u. due_at E s' u = (if u = t then (if again then Some D else None) else due_at E s u)"
proof -
  let ?L = "tmr_lists s"
  have del: "in_order L" "liContainer L = (liContainer ?L)(t := None)" "u \<noteq> t \<Longrightarrow> liValue L u = liValue ?L u" for u
    using L0 by (simp_all add: without_timer_def)
  have ne: "pxCurrentTimerList s \<noteq> pxOverflowTimerList s" using inv by (simp add: tmr_inv_def)
  have set: "in_order (ls_set_value t v L)" for v by (rule in_order_ops(3) [OF del(1)]) (simp add: del(2))
  have ins: "in_order (ls_insert m t (ls_set_value t v L))" for m v by (rule in_order_ops(1) [OF set]) (simp add: del(2))
  have "in_order (tmr_lists s')" using del(1) ins by (cases again) (simp_all add: ls)
  moreover have "has_status u tmrSTATUS_IS_ACTIVE s' \<and> xTimerPeriodInTicks (timer s' u) > 0"
    if "liContainer (tmr_lists s') u \<noteq> None" for u
  proof (cases "u = t")
    case True
    then show ?thesis using that again by (cases again) (auto simp: ls del(2))
  next
    case False
    then have "liContainer ?L u \<noteq> None" using that by (cases again) (auto simp: ls del(2))
    then show ?thesis using inv tm False by (simp add: tmr_inv_def has_status_def)
  qed
  ultimately show "tmr_inv s'" using ne oth by (simp add: tmr_inv_def others_same_def)
  have enc: "again \<Longrightarrow> (if D div 2 ^ 32 = E then E else E + 1) * 2 ^ 32 + unat (of_nat D :: TickType_t) = D"
    using due_encoding [of N D p] again E by blast
  show "\<forall>u. due_at E s' u = (if u = t then (if again then Some D else None) else due_at E s u)"
  proof
    fix u
    show "due_at E s' u = (if u = t then (if again then Some D else None) else due_at E s u)"
    proof (cases "u = t")
      case True
      show ?thesis
      proof (cases again)
        case True
        have "(list_for N D s = pxCurrentTimerList s) = (D div 2 ^ 32 = E)" using ne E by (simp add: list_for_def)
        then show ?thesis using True \<open>u = t\<close> enc oth by (simp add: due_at_def ls others_same_def)
      qed (simp add: due_at_def ls del(2) True)
    next
      case False
      then have "liContainer (tmr_lists s') u = liContainer ?L u" "liValue (tmr_lists s') u = liValue ?L u"
        by (simp_all add: ls del)
      then show ?thesis using oth False by (simp add: due_at_def others_same_def cong: option.case_cong)
    qed
  qed
qed

lemma tick_of_due [simp]: "(of_nat (E * 2 ^ 32 + unat v) :: TickType_t) = v"
proof -
  have "unat v < 2 ^ 32" using unsigned_less [of v] by simp
  then have "unat (of_nat (E * 2 ^ 32 + unat v) :: TickType_t) = unat v"
    by (simp only: unat_tick) simp
  then show ?thesis by (simp only: word_unat_eq_iff)
qed

lemma process_expired_exact:
  fixes s :: "'a tmr_scheme"
  assumes rec: "records user tr" and inv: "tmr_inv s" and hd: "lsItems (tmr_lists s) (pxCurrentTimerList s) = t # ts"
    and d: "due_at (N div 2 ^ 32) s t = Some d" "d \<le> N"
  defines "auto \<equiv> has_status t tmrSTATUS_IS_AUTORELOAD s" and "p \<equiv> unat (xTimerPeriodInTicks (timer s t))"
  shows "\<exists>s'. prvProcessExpiredTimer user (liValue (tmr_lists s) t) (of_nat N) s = Some s' \<and> tmr_inv s' \<and> others_same s s' \<and>
     timer s' = (if auto then timer s else timer (clear_status t tmrSTATUS_IS_ACTIVE s)) \<and>
     (\<forall>u. due_at (N div 2 ^ 32) s' u =
        (if u = t then (if auto then Some (next_due d p N) else None) else due_at (N div 2 ^ 32) s u)) \<and>
     (next_due d p N div 2 ^ 32 \<noteq> N div 2 ^ 32 \<longrightarrow> lsItems (tmr_lists s') (pxCurrentTimerList s) = ts) \<and>
     tr (tmr.more s') = tr (tmr.more s) @ replicate (if auto then expiries d p N else 1) (callback_of t s)"
proof -
  let ?L = "tmr_lists s" and ?cur = "pxCurrentTimerList s" and ?D = "next_due d p N"
  let ?s1 = "s\<lparr>tmr_lists := ls_del ?cur t ?L\<rparr>"
  have c: "liContainer ?L t = Some ?cur" using current_iff [OF inv, of t ?cur] hd by simp
  then have P: "has_status t tmrSTATUS_IS_ACTIVE s" "0 < xTimerPeriodInTicks (timer s t)" and ne: "?cur \<noteq> pxOverflowTimerList s"
    using inv by (simp_all add: tmr_inv_def)
  then have p: "0 < p" "p < 2 ^ 32" using unsigned_less [of "xTimerPeriodInTicks (timer s t)"]
    by (simp_all add: p_def word_less_nat_alt)
  have D: "N < ?D" "?D \<le> N + p" using next_due_bounds [OF p(1), of N d] d(2) by simp_all
  have dv: "d = N div 2 ^ 32 * 2 ^ 32 + unat (liValue ?L t)" using d(1) c by (simp add: due_at_def)
  have v: "of_nat d = liValue ?L t" unfolding dv by (rule tick_of_due)
  have dN: "N < d + 2 ^ 32" using dv by simp
  have head: "ls_head ?cur ?L = Some t" "remove_timer t s = Some ?s1"
    using hd c by (simp_all add: ls_head_def remove_timer_def ls_remove_def)
  have it1: "lsItems (ls_del ?cur t ?L) ?cur = ts" using hd by (simp add: ls_del_def)
  obtain s2 where s2: "(if auto then prvReloadTimer user t (liValue ?L t) (of_nat N) ?s1
        else Some (clear_status t tmrSTATUS_IS_ACTIVE ?s1)) = Some s2"
      "timer s2 = (if auto then timer s else timer (clear_status t tmrSTATUS_IS_ACTIVE s))" "others_same s s2"
      "tmr_lists s2 = (if auto then ls_insert (list_for N ?D s) t (ls_set_value t (of_nat ?D) (ls_del ?cur t ?L)) else ls_del ?cur t ?L)"
      "tr (tmr.more s2) = tr (tmr.more s) @ replicate (if auto then expiries d p N - 1 else 0) (callback_of t s)"
  proof (cases auto)
    case True
    have pp: "0 < xTimerPeriodInTicks (timer ?s1 t)" using P(2) by simp
    have sp: "xTimerPeriodInTicks (timer ?s1 t) = xTimerPeriodInTicks (timer s t)" by simp
    have e: "next_due (d + p) p N = ?D" "expiries (d + p) p N = expiries d p N - 1"
      using next_due_step [OF p(1) d(2)] expiries_step [OF p(1) d(2)] by simp_all
    have l: "list_for N ?D ?s1 = list_for N ?D s" "callback_of t ?s1 = callback_of t s"
      by (simp_all add: list_for_def callback_of_def)
    obtain s2 where "prvReloadTimer user t (of_nat d) (of_nat N) ?s1 = Some s2" "timer s2 = timer ?s1" "others_same ?s1 s2"
      "tmr_lists s2 = ls_insert (list_for N ?D s) t (ls_set_value t (of_nat ?D) (tmr_lists ?s1))"
      "tr (tmr.more s2) = tr (tmr.more ?s1) @ replicate (expiries d p N - 1) (callback_of t s)"
      using reload_exact [OF rec pp d(2) dN] unfolding sp p_def [symmetric] e l by blast
    then show ?thesis using True by (intro that [of s2]) (simp_all add: v others_same_def)
  next
    case False
    show ?thesis by (rule that [of "clear_status t tmrSTATUS_IS_ACTIVE ?s1"])
      (use False in \<open>simp_all add: others_same_def clear_status_def upd_timer_def\<close>)
  qed
  have cb: "callback_of t s2 = callback_of t s" using s2(2) by (simp add: callback_of_def)
  obtain s' where s': "run_callback user t s2 = Some s'" "timer s' = timer s2" "tmr_lists s' = tmr_lists s2"
      "others_same s2 s'" "tr (tmr.more s') = tr (tmr.more s2) @ [callback_of t s]"
    by (rule records_run [OF rec, of t s2]) (simp add: cb)
  have run: "prvProcessExpiredTimer user (liValue ?L t) (of_nat N) s = Some s'"
    using s2(1) s'(1) head by (simp add: prvProcessExpiredTimer_def auto_def has_status_def)
  have oth: "others_same s s'" using s2(3) s'(4) by (simp add: others_same_def)
  have st: "auto \<Longrightarrow> timer s' = timer s" by (simp add: s'(2) s2(2))
  have tm: "\<forall>u. u \<noteq> t \<longrightarrow> timer s' u = timer s u" by (simp add: s'(2) s2(2))
  have ag: "auto \<Longrightarrow> has_status t tmrSTATUS_IS_ACTIVE s' \<and> 0 < xTimerPeriodInTicks (timer s' t) \<and> N < ?D \<and> ?D \<le> N + p \<and> p < 2 ^ 32"
    using P D p(2) st by (simp add: has_status_def)
  have io: "in_order ?L" using inv by (simp add: tmr_inv_def)
  note M = moved_timer [OF inv without_timer_del [OF io c] oth tm refl ag s2(4) [folded s'(3)]]
  have "lsItems (tmr_lists s') ?cur = ts" if "?D div 2 ^ 32 \<noteq> N div 2 ^ 32"
    using that it1 ne by (cases auto) (simp_all add: s'(3) s2(4) list_for_def ls_insert_eq ls_set_value_def)
  moreover have "tr (tmr.more s') = tr (tmr.more s) @ replicate (if auto then expiries d p N else 1) (callback_of t s)"
    using s'(5) s2(5) expiries_step [OF p(1) d(2)] by (cases auto) (simp_all add: replicate_append_same)
  ultimately show ?thesis using run oth M s2(4) s'(2,3) s2(2) by (cases auto) simp_all
qed

section \<open>The switch of the lists\<close>

definition autoreload :: "addr \<Rightarrow> 'a tmr_scheme \<Rightarrow> bool" where
  "autoreload t s = has_status t tmrSTATUS_IS_AUTORELOAD s"

definition period :: "addr \<Rightarrow> 'a tmr_scheme \<Rightarrow> nat" where
  "period t s = unat (xTimerPeriodInTicks (timer s t))"

text \<open>What is left of a timer that was due when the clock has reached \<open>N\<close>, and the calls it owes.\<close>

definition due_after :: "nat \<Rightarrow> nat \<Rightarrow> 'a tmr_scheme \<Rightarrow> addr \<Rightarrow> nat option" where
  "due_after E N s t = (if autoreload t s then Some (next_due (the (due_at E s t)) (period t s) N) else None)"

definition owed_calls :: "nat \<Rightarrow> nat \<Rightarrow> 'a tmr_scheme \<Rightarrow> addr list \<Rightarrow> call list" where
  "owed_calls E N s ts = concat (map (\<lambda>t.
     replicate (if autoreload t s then expiries (the (due_at E s t)) (period t s) N else 1) (callback_of t s)) ts)"

definition after_expiry :: "addr set \<Rightarrow> 'a tmr_scheme \<Rightarrow> 'a tmr_scheme \<Rightarrow> bool" where
  "after_expiry T s s' \<longleftrightarrow> (\<forall>u. timer s' u =
     (if u \<in> T \<and> \<not> autoreload u s then timer (clear_status u tmrSTATUS_IS_ACTIVE s) u else timer s u))"

lemma last_tick:
  "((E + 1) * 2 ^ 32 - 1) div 2 ^ 32 = (E :: nat)" "(of_nat ((E + 1) * 2 ^ 32 - 1) :: TickType_t) = tmrMAX_TIME_BEFORE_OVERFLOW"
proof -
  have e: "(E + 1) * 2 ^ 32 - 1 = E * 2 ^ 32 + (2 ^ 32 - 1 :: nat)" by simp
  show "((E + 1) * 2 ^ 32 - 1) div 2 ^ 32 = E" unfolding e by simp
  have "of_nat (E * 2 ^ 32 + unat (- 1 :: TickType_t)) = (- 1 :: TickType_t)" by (rule tick_of_due)
  moreover have "unat (- 1 :: TickType_t) = 2 ^ 32 - 1" by (simp add: unsigned_minus_1_eq_mask mask_eq_exp_minus_1)
  ultimately show "(of_nat ((E + 1) * 2 ^ 32 - 1) :: TickType_t) = tmrMAX_TIME_BEFORE_OVERFLOW"
    unfolding e tmrMAX_TIME_BEFORE_OVERFLOW_def by simp
qed

lemma current_due:
  assumes "tmr_inv s" "t \<in> set (lsItems (tmr_lists s) (pxCurrentTimerList s))"
  obtains d where "due_at E s t = Some d" "d < (E + 1) * 2 ^ 32" "d = E * 2 ^ 32 + unat (liValue (tmr_lists s) t)"
proof -
  have "liContainer (tmr_lists s) t = Some (pxCurrentTimerList s)" using current_iff [OF assms(1)] assms(2) by simp
  then show ?thesis using that tick_less [of "liValue (tmr_lists s) t"] by (simp add: due_at_def)
qed

lemma switch_loop_exact:
  fixes s :: "'a tmr_scheme" and E :: nat
  assumes rec: "records user tr" and inv: "tmr_inv s" and its: "lsItems (tmr_lists s) (pxCurrentTimerList s) = ts"
  defines "N \<equiv> (E + 1) * 2 ^ 32 - 1"
  shows "\<exists>s'. switch_loop user s = Some s' \<and> tmr_inv s' \<and> others_same s s' \<and>
     lsItems (tmr_lists s') (pxCurrentTimerList s) = [] \<and> after_expiry (set ts) s s' \<and>
     (\<forall>u. due_at E s' u = (if u \<in> set ts then due_after E N s u else due_at E s u)) \<and>
     tr (tmr.more s') = tr (tmr.more s) @ owed_calls E N s ts"
  using inv its
proof (induction ts arbitrary: s)
  case Nil
  then have "switch_loop user s = Some s" by (subst switch_loop.simps) simp
  then show ?case using Nil by (simp add: others_same_def after_expiry_def owed_calls_def)
next
  case (Cons t ts)
  have N: "N div 2 ^ 32 = E" "of_nat N = tmrMAX_TIME_BEFORE_OVERFLOW" by (simp_all only: N_def last_tick)
  have "t \<in> set (lsItems (tmr_lists s) (pxCurrentTimerList s))" by (simp add: Cons.prems(2))
  then obtain d where d: "due_at E s t = Some d" "d < (E + 1) * 2 ^ 32"
    by (rule current_due [OF Cons.prems(1)])
  have dN: "d \<le> N" using d(2) by (simp add: N_def)
  have "0 < period t s" using Cons.prems current_iff [OF Cons.prems(1), of t "pxCurrentTimerList s"]
    by (simp add: tmr_inv_def period_def word_less_nat_alt)
  then have "N < next_due d (period t s) N" using next_due_bounds by blast
  then have ov: "next_due d (period t s) N div 2 ^ 32 \<noteq> E"
    using div_less_iff_less_mult [of "2 ^ 32" "next_due d (period t s) N" "E + 1"] by (simp add: N_def)
  obtain s1 where s1: "prvProcessExpiredTimer user (liValue (tmr_lists s) t) tmrMAX_TIME_BEFORE_OVERFLOW s = Some s1"
      "tmr_inv s1" "others_same s s1" "lsItems (tmr_lists s1) (pxCurrentTimerList s) = ts"
      "timer s1 = (if autoreload t s then timer s else timer (clear_status t tmrSTATUS_IS_ACTIVE s))"
      "\<forall>u. due_at E s1 u = (if u = t then due_after E N s t else due_at E s u)"
      "tr (tmr.more s1) = tr (tmr.more s) @ owed_calls E N s [t]"
    using process_expired_exact [OF rec Cons.prems(1,2), of N d] d(1) dN N ov
    by (auto simp: autoreload_def period_def due_after_def owed_calls_def)
  have nt: "t \<notin> set ts"
    using wf_distinct [of UNIV "tmr_lists s" "pxCurrentTimerList s"] Cons.prems by (simp add: tmr_inv_def in_order_def)
  have same: "u \<noteq> t \<Longrightarrow> timer s1 u = timer s u" for u by (simp add: s1(5))
  have cur: "pxCurrentTimerList s1 = pxCurrentTimerList s" using s1(3) by (simp add: others_same_def)
  obtain s' where s': "switch_loop user s1 = Some s'" "tmr_inv s'" "others_same s1 s'"
      "lsItems (tmr_lists s') (pxCurrentTimerList s) = []" "after_expiry (set ts) s1 s'"
      "\<forall>u. due_at E s' u = (if u \<in> set ts then due_after E N s1 u else due_at E s1 u)"
      "tr (tmr.more s') = tr (tmr.more s1) @ owed_calls E N s1 ts"
    using Cons.IH [OF s1(2)] s1(4) cur by auto
  have eq: "due_after E N s1 u = due_after E N s u" "callback_of u s1 = callback_of u s"
    "autoreload u s1 = autoreload u s" "period u s1 = period u s" "due_at E s1 u = due_at E s u" if "u \<noteq> t" for u
    using that same [OF that] s1(6)
    by (simp_all add: due_after_def callback_of_def autoreload_def period_def has_status_def)
  have ow: "owed_calls E N s1 ts = owed_calls E N s ts"
    unfolding owed_calls_def
  proof (rule arg_cong [where f = concat], rule map_cong [OF refl])
    fix u assume "u \<in> set ts"
    then have ne: "u \<noteq> t" using nt by blast
    show "replicate (if autoreload u s1 then expiries (the (due_at E s1 u)) (period u s1) N else 1) (callback_of u s1) =
      replicate (if autoreload u s then expiries (the (due_at E s u)) (period u s) N else 1) (callback_of u s)"
      unfolding eq(2-5) [OF ne] by (rule refl)
  qed
  have "switch_loop user s = Some s'"
    by (subst switch_loop.simps) (simp add: Cons.prems(2) s1(1) s'(1))
  moreover have "after_expiry (set (t # ts)) s s'"
    unfolding after_expiry_def
  proof
    fix u
    have "timer s' u = (if u \<in> set ts \<and> \<not> autoreload u s1 then timer (clear_status u tmrSTATUS_IS_ACTIVE s1) u else timer s1 u)"
      using s'(5) unfolding after_expiry_def by blast
    then show "timer s' u = (if u \<in> set (t # ts) \<and> \<not> autoreload u s then timer (clear_status u tmrSTATUS_IS_ACTIVE s) u else timer s u)"
      using nt eq(3) [of u] same [of u] by (cases "u = t") (simp_all add: s1(5) clear_status_def upd_timer_def)
  qed
  moreover have "\<forall>u. due_at E s' u = (if u \<in> set (t # ts) then due_after E N s u else due_at E s u)"
  proof
    fix u
    show "due_at E s' u = (if u \<in> set (t # ts) then due_after E N s u else due_at E s u)"
      using s'(6) s1(6) nt eq(1,5) [of u] by (cases "u = t") simp_all
  qed
  moreover have "tr (tmr.more s') = tr (tmr.more s) @ owed_calls E N s (t # ts)"
    using s'(7) s1(7) ow by (simp add: owed_calls_def)
  ultimately show ?case using s'(2,4) s'(3) s1(3) by (auto simp: others_same_def)
qed

lemma switch_exact:
  fixes s :: "'a tmr_scheme" and E :: nat
  assumes rec: "records user tr" and inv: "tmr_inv s"
  defines "N \<equiv> (E + 1) * 2 ^ 32 - 1" and "cur \<equiv> lsItems (tmr_lists s) (pxCurrentTimerList s)"
  obtains s' where "prvSwitchTimerLists user s = Some s'" "tmr_inv s'"
    "pxCurrentTimerList s' = pxOverflowTimerList s" "pxOverflowTimerList s' = pxCurrentTimerList s"
    "xLastTime s' = xLastTime s" "xTimerQueue s' = xTimerQueue s" "after_expiry (set cur) s s'"
    "\<forall>u. due_at (E + 1) s' u = (if u \<in> set cur then due_after E N s u else due_at E s u)"
    "tr (tmr.more s') = tr (tmr.more s) @ owed_calls E N s cur"
proof -
  obtain s1 where s1: "switch_loop user s = Some s1" "tmr_inv s1" "others_same s s1"
     "lsItems (tmr_lists s1) (pxCurrentTimerList s) = []" "after_expiry (set cur) s s1"
     "\<forall>u. due_at E s1 u = (if u \<in> set cur then due_after E N s u else due_at E s u)"
     "tr (tmr.more s1) = tr (tmr.more s) @ owed_calls E N s cur"
    using switch_loop_exact [OF rec inv refl, of E] unfolding N_def cur_def by blast
  let ?s' = "s1\<lparr>pxCurrentTimerList := pxOverflowTimerList s1, pxOverflowTimerList := pxCurrentTimerList s1\<rparr>"
  have run: "prvSwitchTimerLists user s = Some ?s'" by (simp add: prvSwitchTimerLists_def s1(1))
  have inv': "tmr_inv ?s'" using s1(2) by (auto simp: tmr_inv_def has_status_def)
  have cur: "pxCurrentTimerList s1 = pxCurrentTimerList s" "pxOverflowTimerList s1 = pxOverflowTimerList s"
    using s1(3) by (simp_all add: others_same_def)
  have "due_at (E + 1) ?s' u = due_at E s1 u" for u
  proof (cases "liContainer (tmr_lists s1) u")
    case (Some l)
    then have "l \<noteq> pxCurrentTimerList s1" using current_iff [OF s1(2), of u l] s1(4) cur by auto
    moreover have "l = pxCurrentTimerList s1 \<or> l = pxOverflowTimerList s1"
      using s1(2) unfolding tmr_inv_def by (metis timer_list.exhaust)
    ultimately show ?thesis using Some by (simp add: due_at_def)
  qed (simp add: due_at_def)
  then show ?thesis
    using s1 cur by (intro that [OF run inv']) (simp_all add: others_same_def after_expiry_def)
qed

lemma sample_exact:
  fixes s :: "'a tmr_scheme"
  assumes rec: "records user tr" and inv: "tmr_inv s"
    and clock: "xLastTime s = of_nat A" "xTickCount s = of_nat N" "A \<le> N" "N < A + 2 ^ 32"
  defines "E \<equiv> A div 2 ^ 32" and "E' \<equiv> N div 2 ^ 32"
    and "late \<equiv> (if N div 2 ^ 32 = A div 2 ^ 32 then [] else lsItems (tmr_lists s) (pxCurrentTimerList s))"
    and "B \<equiv> (A div 2 ^ 32 + 1) * 2 ^ 32 - 1"
  obtains s' where "prvSampleTimeNow user s = Some (of_nat N, E' \<noteq> E, s')" "tmr_inv s'" "xLastTime s' = of_nat N"
    "xTimerQueue s' = xTimerQueue s" "after_expiry (set late) s s'"
    "\<forall>u. due_at E' s' u = (if u \<in> set late then due_after E B s u else due_at E s u)"
    "tr (tmr.more s') = tr (tmr.more s) @ owed_calls E B s late"
    "E' = E \<longrightarrow> s' = s\<lparr>xLastTime := of_nat N\<rparr>"
proof -
  have e: "E' = E \<or> E' = E + 1" and less: "(of_nat N :: TickType_t) < of_nat A \<longleftrightarrow> E' \<noteq> E"
  proof -
    define a b n m where ab: "a = A div 2 ^ 32" "b = A mod 2 ^ 32" and nm: "n = N div 2 ^ 32" "m = N mod 2 ^ 32"
    have A: "A = a * 4294967296 + b" "b < 4294967296" and N: "N = n * 4294967296 + m" "m < 4294967296"
      by (simp_all add: ab nm)
    have "n = a \<or> n = a + 1" using clock(3) clock(4) [simplified] A N by linarith
    then show "E' = E \<or> E' = E + 1" by (simp add: E_def E'_def ab nm)
    have "m < b \<longleftrightarrow> n \<noteq> a" using clock(3) clock(4) [simplified] A N \<open>n = a \<or> n = a + 1\<close> by auto
    then show "(of_nat N :: TickType_t) < of_nat A \<longleftrightarrow> E' \<noteq> E"
      unfolding word_less_nat_alt unat_tick E_def E'_def ab nm .
  qed
  have tick: "xTaskGetTickCount s = of_nat N" using clock(2) by (simp add: xTaskGetTickCount_def)
  show ?thesis
  proof (cases "E' = E")
    case True
    let ?s' = "s\<lparr>xLastTime := of_nat N\<rparr>"
    have "late = []" using True by (simp add: late_def E_def E'_def)
    moreover have "prvSampleTimeNow user s = Some (of_nat N, E' \<noteq> E, ?s')"
      using less True by (simp add: prvSampleTimeNow_def tick clock(1) Let_def)
    moreover have "due_at E' ?s' u = due_at E s u" for u by (simp add: due_at_def True cong: option.case_cong)
    moreover have "tmr_inv ?s'" using inv by (simp add: tmr_inv_def has_status_def)
    ultimately show ?thesis by (intro that [of ?s']) (simp_all add: after_expiry_def owed_calls_def)
  next
    case False
    then have l: "late = lsItems (tmr_lists s) (pxCurrentTimerList s)" and E1: "E' = E + 1"
      using e by (simp_all add: late_def E_def E'_def)
    obtain s1 where s1: "prvSwitchTimerLists user s = Some s1" "tmr_inv s1" "xTimerQueue s1 = xTimerQueue s"
        "after_expiry (set late) s s1"
        "\<forall>u. due_at (E + 1) s1 u = (if u \<in> set late then due_after E B s u else due_at E s u)"
        "tr (tmr.more s1) = tr (tmr.more s) @ owed_calls E B s late"
      using switch_exact [OF rec inv, of E] unfolding l B_def E_def [symmetric] by metis
    let ?s' = "s1\<lparr>xLastTime := of_nat N\<rparr>"
    have "prvSampleTimeNow user s = Some (of_nat N, E' \<noteq> E, ?s')"
      using less False by (simp add: prvSampleTimeNow_def tick clock(1) s1(1) Let_def)
    moreover have "due_at E' ?s' u = due_at (E + 1) s1 u" for u by (simp add: due_at_def E1 cong: option.case_cong)
    moreover have "tmr_inv ?s'" using s1(2) by (simp add: tmr_inv_def has_status_def)
    ultimately show ?thesis using s1 False by (intro that [of ?s']) (simp_all add: after_expiry_def)
  qed
qed

section \<open>Commands\<close>

lemma status_words:
  "tmrSTATUS_IS_ACTIVE = push_bit 0 1" "tmrSTATUS_IS_STATICALLY_ALLOCATED = push_bit 1 1" "tmrSTATUS_IS_AUTORELOAD = push_bit 2 1"
  by (simp_all add: tmrSTATUS_IS_ACTIVE_def tmrSTATUS_IS_AUTORELOAD_def tmrSTATUS_IS_STATICALLY_ALLOCATED_def)

lemma has_status_bit: "has_status t (push_bit n 1) s \<longleftrightarrow> bit (ucStatus (timer s t)) n"
  by (simp add: has_status_def bit_iff_and_push_bit_not_eq_0)

lemma status_bits [simp]:
  "has_status t tmrSTATUS_IS_ACTIVE (set_status t tmrSTATUS_IS_ACTIVE s)"
  "\<not> has_status t tmrSTATUS_IS_ACTIVE (clear_status t tmrSTATUS_IS_ACTIVE s)"
  "autoreload t (set_status t tmrSTATUS_IS_ACTIVE s) = autoreload t s"
  unfolding autoreload_def status_words has_status_bit
  by (auto simp: set_status_def clear_status_def upd_timer_def bit_or_iff bit_and_iff bit_not_iff bit_push_bit_iff)

lemma replicate_pred: "0 < n \<Longrightarrow> replicate (n - Suc 0) x @ x # xs = replicate n x @ xs"
  by (cases n) (simp_all add: replicate_app_Cons_same)

lemma start_timer_exact:
  fixes s :: "'a tmr_scheme" and C :: nat
  assumes rec: "records user tr" and inv: "tmr_inv s" and out: "liContainer (tmr_lists s) t = None"
    and P: "xTimerPeriodInTicks (timer s t) > 0" and CN: "C \<le> N" "N < C + 2 ^ 32"
  defines "p \<equiv> period t s"
  defines "d \<equiv> C + p" and "E \<equiv> N div 2 ^ 32"
  defines "dn \<equiv> (if C + p \<le> N \<and> \<not> autoreload t s then None else Some (next_due (C + p) p N))"
  obtains s' where "start_timer user t (of_nat C) (of_nat N) s = Some s'" "tmr_inv s'" "others_same s s'"
    "\<forall>u. u \<noteq> t \<longrightarrow> timer s' u = timer s u" "\<forall>u. due_at E s' u = (if u = t then dn else due_at E s u)"
    "has_status t tmrSTATUS_IS_ACTIVE s' \<longleftrightarrow> dn \<noteq> None"
    "tr (tmr.more s') = tr (tmr.more s) @
       replicate (if autoreload t s then expiries d p N else if d \<le> N then 1 else 0) (callback_of t s)"
proof -
  let ?L = "tmr_lists s" and ?s1 = "set_status t tmrSTATUS_IS_ACTIVE s"
  have p: "0 < p" "p < 2 ^ 32" using P tick_less [of "xTimerPeriodInTicks (timer s t)"]
    by (simp_all add: p_def period_def word_less_nat_alt)
  have pw: "unat (xTimerPeriodInTicks (timer ?s1 t)) = p" "unat (xTimerPeriodInTicks (timer s t)) = p"
    by (simp_all add: p_def period_def)
  have io: "in_order ?L" using inv by (simp add: tmr_inv_def)
  have nd: "N < next_due d p N" using next_due_bounds [OF p(1)] by blast
  have ndp: "next_due d p N \<le> N + p"
    using next_due_bounds [OF p(1), of N d] CN(1) by (cases "d \<le> N") (simp_all add: d_def)
  let ?set = "ls_set_value t (of_nat d) ?L"
  have w: "without_timer t ?L ?set" "without_timer t ?L ?L" by (rule without_timer_set [OF io out])+
  have lf: "list_for N D ?s1 = list_for N D s" "callback_of t ?s1 = callback_of t s" for D
    by (simp_all add: list_for_def callback_of_def)
  have ins: "prvInsertTimerInActiveList t (of_nat C + xTimerPeriodInTicks (timer s t)) (of_nat N) (of_nat C) ?s1 =
     (if d \<le> N then (True, ?s1\<lparr>tmr_lists := ?set\<rparr>)
      else (False, ?s1\<lparr>tmr_lists := ls_insert (list_for N d s) t ?set\<rparr>))"
    using insert_exact [OF CN, of t ?s1] unfolding pw d_def [symmetric] lf by simp
  show ?thesis
  proof (cases "d \<le> N")
    case False
    let ?s' = "?s1\<lparr>tmr_lists := ls_insert (list_for N d s) t ?set\<rparr>"
    have run: "start_timer user t (of_nat C) (of_nat N) s = Some ?s'"
      using ins False by (simp add: start_timer_def Let_def)
    have dn: "dn = Some d" using False by (simp add: dn_def d_def)
    have act: "has_status t tmrSTATUS_IS_ACTIVE ?s'" using status_bits(1) [of t s] by (simp add: has_status_def)
    have oth: "others_same s ?s'" and tm: "\<forall>u. u \<noteq> t \<longrightarrow> timer ?s' u = timer s u" by (simp_all add: others_same_def)
    have ag: "True \<Longrightarrow> has_status t tmrSTATUS_IS_ACTIVE ?s' \<and> 0 < xTimerPeriodInTicks (timer ?s' t) \<and> N < d \<and> d \<le> N + p \<and> p < 2 ^ 32"
      using act False P ndp p(2) by simp
    have ls: "tmr_lists ?s' = (if True then ls_insert (list_for N d s) t (ls_set_value t (of_nat d) ?L) else ?L)" by simp
    note M = moved_timer [OF inv w(2) oth tm _ ag ls, of E]
    show ?thesis
      by (rule that [OF run M(1) oth tm]) (use M(2) dn False act in \<open>simp_all add: E_def\<close>)
  next
    case True
    let ?s2 = "?s1\<lparr>tmr_lists := ?set\<rparr>" and ?D = "next_due d p N"
    have dN: "N < d + 2 ^ 32" using CN(2) by (simp add: d_def)
    have e: "next_due (d + p) p N = ?D" "expiries (d + p) p N = expiries d p N - 1" "0 < expiries d p N"
      using next_due_step [OF p(1) True] expiries_step [OF p(1) True] by simp_all
    have p2: "0 < xTimerPeriodInTicks (timer ?s2 t)" "unat (xTimerPeriodInTicks (timer ?s2 t)) = p" using P pw by simp_all
    have lf2: "list_for N D ?s2 = list_for N D s" "callback_of t ?s2 = callback_of t s" for D
      by (simp_all add: list_for_def callback_of_def)
    obtain s3 where s3: "(if autoreload t s then prvReloadTimer user t (of_nat d) (of_nat N) ?s2
          else Some (clear_status t tmrSTATUS_IS_ACTIVE ?s2)) = Some s3"
        "timer s3 = (if autoreload t s then timer ?s2 else timer (clear_status t tmrSTATUS_IS_ACTIVE ?s2))" "others_same s s3"
        "tmr_lists s3 = (if autoreload t s then ls_insert (list_for N ?D s) t (ls_set_value t (of_nat ?D) ?set) else ?set)"
        "tr (tmr.more s3) = tr (tmr.more s) @ replicate (if autoreload t s then expiries d p N - 1 else 0) (callback_of t s)"
    proof (cases "autoreload t s")
      case auto: True
      obtain s3 where "prvReloadTimer user t (of_nat d) (of_nat N) ?s2 = Some s3" "timer s3 = timer ?s2" "others_same ?s2 s3"
          "tmr_lists s3 = ls_insert (list_for N ?D s) t (ls_set_value t (of_nat ?D) (tmr_lists ?s2))"
          "tr (tmr.more s3) = tr (tmr.more ?s2) @ replicate (expiries d p N - 1) (callback_of t s)"
        using reload_exact [OF rec p2(1) True dN] unfolding p2(2) e lf2 by blast
      then show ?thesis using auto by (intro that [of s3]) (simp_all add: others_same_def)
    next
      case False
      then show ?thesis
        by (intro that [of "clear_status t tmrSTATUS_IS_ACTIVE ?s2"]) (simp_all add: others_same_def)
    qed
    have cb: "callback_of t s3 = callback_of t s" using s3(2) by (simp add: callback_of_def)
    obtain s' where s': "run_callback user t s3 = Some s'" "timer s' = timer s3" "tmr_lists s' = tmr_lists s3"
        "others_same s3 s'" "tr (tmr.more s') = tr (tmr.more s3) @ [callback_of t s]"
      by (rule records_run [OF rec, of t s3]) (simp add: cb)
    have v: "(of_nat C :: TickType_t) + xTimerPeriodInTicks (timer s t) = of_nat d" by (simp add: d_def flip: pw(2))
    have "has_status t tmrSTATUS_IS_AUTORELOAD ?s2 = autoreload t s"
      using status_bits(3) [of t s] by (simp add: autoreload_def has_status_def)
    then have run: "start_timer user t (of_nat C) (of_nat N) s = Some s'"
      using ins [unfolded v] True s3(1) s'(1) by (cases "autoreload t s") (simp_all add: start_timer_def Let_def v)
    have oth: "others_same s s'" using s3(3) s'(4) by (simp add: others_same_def)
    have tm: "\<forall>u. u \<noteq> t \<longrightarrow> timer s' u = timer s u" by (simp add: s'(2) s3(2))
    have act: "has_status t tmrSTATUS_IS_ACTIVE s' = autoreload t s"
      using status_bits(1) [of t s] status_bits(2) [of t ?s2] by (cases "autoreload t s") (simp_all add: has_status_def s'(2) s3(2))
    have per: "xTimerPeriodInTicks (timer s' t) = xTimerPeriodInTicks (timer s t)" by (simp add: s'(2) s3(2))
    have ag: "autoreload t s \<Longrightarrow> has_status t tmrSTATUS_IS_ACTIVE s' \<and> 0 < xTimerPeriodInTicks (timer s' t) \<and> N < ?D \<and> ?D \<le> N + p \<and> p < 2 ^ 32"
      using act per P nd ndp p(2) by simp
    note M = moved_timer [OF inv w(1) oth tm _ ag s3(4) [folded s'(3)], of E]
    have dn: "dn = (if autoreload t s then Some ?D else None)" using True by (simp add: dn_def d_def)
    have "tr (tmr.more s') = tr (tmr.more s) @ replicate (if autoreload t s then expiries d p N else 1) (callback_of t s)"
      using s'(5) s3(5) e(3) by (cases "autoreload t s") (simp_all add: replicate_pred)
    then show ?thesis by (intro that [OF run M(1) oth tm]) (use M(2) dn act True in \<open>simp_all add: E_def\<close>)
  qed
qed

lemma expiry_frame:
  assumes "\<forall>u. u \<noteq> t \<longrightarrow> timer s' u = timer s u" "\<forall>u. u \<noteq> t \<longrightarrow> due_at E s' u = due_at E s u" "t \<notin> set ts"
  shows "owed_calls E N s' ts = owed_calls E N s ts" "u \<noteq> t \<Longrightarrow> due_after E N s' u = due_after E N s u"
proof -
  have eq: "callback_of u s' = callback_of u s" "autoreload u s' = autoreload u s" "period u s' = period u s"
    "due_at E s' u = due_at E s u" if "u \<noteq> t" for u
    using that assms(1,2) by (simp_all add: callback_of_def autoreload_def period_def has_status_def)
  show "u \<noteq> t \<Longrightarrow> due_after E N s' u = due_after E N s u" by (simp add: due_after_def eq)
  show "owed_calls E N s' ts = owed_calls E N s ts" unfolding owed_calls_def
  proof (rule arg_cong [where f = concat], rule map_cong [OF refl])
    fix u assume "u \<in> set ts"
    then have ne: "u \<noteq> t" using assms(3) by blast
    show "replicate (if autoreload u s' then expiries (the (due_at E s' u)) (period u s') N else 1) (callback_of u s') =
      replicate (if autoreload u s then expiries (the (due_at E s u)) (period u s) N else 1) (callback_of u s)"
      unfolding eq [OF ne] by (rule refl)
  qed
qed

text \<open>Taking the timer of a command out of its list.\<close>

lemma take_out:
  assumes inv: "tmr_inv s"
  obtains s1 where "(if liContainer (tmr_lists s) t \<noteq> None then remove_timer t s else Some s) = Some s1" "tmr_inv s1"
    "others_same s s1" "timer s1 = timer s" "liContainer (tmr_lists s1) t = None" "\<forall>u. u \<noteq> t \<longrightarrow> due_at E s1 u = due_at E s u"
    "lsItems (tmr_lists s1) (pxCurrentTimerList s1) = remove1 t (lsItems (tmr_lists s) (pxCurrentTimerList s))"
    "tmr.more s1 = tmr.more s" "xTickCount s1 = xTickCount s"
proof (cases "liContainer (tmr_lists s) t")
  case None
  then have "t \<notin> set (lsItems (tmr_lists s) (pxCurrentTimerList s))" using current_iff [OF inv] by auto
  then show ?thesis using None inv by (intro that [of s]) (simp_all add: others_same_def remove1_idem)
next
  case (Some l)
  let ?s1 = "s\<lparr>tmr_lists := ls_del l t (tmr_lists s)\<rparr>"
  have io: "in_order (tmr_lists s)" using inv by (simp add: tmr_inv_def)
  have oth: "others_same s ?s1" by (simp add: others_same_def)
  have M: "tmr_inv ?s1" "\<forall>u. due_at E ?s1 u = (if u = t then (if False then Some 0 else None) else due_at E s u)"
    by (rule moved_timer [OF inv without_timer_del [OF io Some] oth, where again = False and D = 0 and N = "E * 2 ^ 32"]; simp)+
  have rm: "remove_timer t s = Some ?s1" using Some by (simp add: remove_timer_def ls_remove_def)
  have its: "lsItems (ls_del l t (tmr_lists s)) m = remove1 t (lsItems (tmr_lists s) m)" for m
  proof (cases "m = l")
    case False
    then have "t \<notin> set (lsItems (tmr_lists s) m)" using current_iff [OF inv, of t m] Some by simp
    then show ?thesis using False by (simp add: ls_del_def remove1_idem)
  qed (simp add: ls_del_def)
  show ?thesis by (rule that [OF _ M(1) oth]) (use Some M(2) rm its in \<open>simp_all\<close>)
qed

end
