(* ===== verification/FR_Timer_Service.thy ===== *)
theory FR_Timer_Service
  imports FR_Timer_Props
begin

text \<open>
  The timer service task on the kernel: what a switch of the timer lists leaves behind, and a timer
  expiring on time, from the service task blocking on its command queue to the callback.
\<close>

section \<open>Frames\<close>

lemma more_tmr:
  fixes k k' :: "'a tmr_scheme"
  assumes "kernel.more k' = kernel.more k"
  shows "timer k' = timer k" "tmr_lists k' = tmr_lists k" "pxCurrentTimerList k' = pxCurrentTimerList k"
    "pxOverflowTimerList k' = pxOverflowTimerList k" "xTimerQueue k' = xTimerQueue k" "xLastTime k' = xLastTime k"
    "tmr.more k' = tmr.more k"
  using assms by (cases k, cases k', simp)+

lemma same_more:
  fixes k k' :: "'a tmr_scheme"
  assumes "kernel.more k' = kernel.more k"
  shows "same_timers k k'" "tmr.more k' = tmr.more k" "tmr_inv k' = tmr_inv k" "due_at E k' = due_at E k"
    "callback_of t k' = callback_of t k" "autoreload t k' = autoreload t k" "period t k' = period t k"
  using more_tmr [OF assms]
  by (simp_all add: same_timers_def tmr_inv_def has_status_def due_at_def callback_of_def autoreload_def period_def
      fun_eq_iff cong: option.case_cong)

lemma tmr_frame [simp]:
  fixes s :: "'a tmr_scheme"
  shows "core_inv X strict (s\<lparr>xLastTime := v\<rparr>) = core_inv X strict s"
    "core_inv X strict (s\<lparr>mem := m\<rparr>) = core_inv X strict s"
    "running_ready (s\<lparr>xLastTime := v\<rparr>) = running_ready s" "running_ready (s\<lparr>mem := m\<rparr>) = running_ready s"
    "same_clock s (s\<lparr>xLastTime := v\<rparr>)"
  by (simp_all add: core_inv_def blocked_def running_ready_def same_clock_def)

definition service_ready :: "'a tmr_scheme \<Rightarrow> bool" where
  "service_ready s \<longleftrightarrow> sched_inv s \<and> running_ready s \<and> uxSchedulerSuspended s = 0 \<and> xPendedTicks s = 0 \<and>
     0 < uxCurrentNumberOfTasks s \<and> xTimerQueue s \<noteq> 0 \<and> uxMessagesWaiting (queues s (xTimerQueue s)) = 0 \<and>
     unlocked (queues s (xTimerQueue s))"

text \<open>With no wrap since the last look at the clock, sampling only notes the time.\<close>

lemma sample_no_wrap:
  assumes "xLastTime s = of_nat A" "xTickCount s = of_nat N" "A \<le> N" "N div 2 ^ 32 = A div 2 ^ 32"
  shows "prvSampleTimeNow user s = Some (of_nat N, False, s\<lparr>xLastTime := of_nat N\<rparr>)"
proof -
  have "A mod 2 ^ 32 = A - A div 2 ^ 32 * 2 ^ 32" "N mod 2 ^ 32 = N - A div 2 ^ 32 * 2 ^ 32"
    using assms(4) minus_div_mult_eq_mod [of A "2 ^ 32"] minus_div_mult_eq_mod [of N "2 ^ 32"] by simp_all
  then have "A mod 2 ^ 32 \<le> N mod 2 ^ 32" using assms(3) by (simp only: diff_le_mono)
  then have "\<not> (of_nat N :: TickType_t) < of_nat A" by (simp only: word_less_nat_alt unat_tick not_less)
  then show ?thesis using assms(1,2) by (simp add: prvSampleTimeNow_def xTaskGetTickCount_def Let_def)
qed

section \<open>Blocking until the next expiry\<close>

lemma service_blocks:
  fixes s :: "'a tmr_scheme"
  assumes r: "service_ready s" and clock: "xLastTime s = of_nat A" "xTickCount s = of_nat N" "A \<le> N" "N div 2 ^ 32 = A div 2 ^ 32"
    and d: "N < d" "d < N + 2 ^ 32" "\<not> (of_nat d :: TickType_t) \<le> of_nat N"
  defines "c \<equiv> pxCurrentTCB s"
  obtains s' where "prvProcessTimerOrBlockTask user (of_nat d) False s = Some s'" "sched_inv s'" "uxSchedulerSuspended s' = 0"
    "queues s' = queues s" "kernel.more s' = kernel.more (s\<lparr>xLastTime := of_nat N\<rparr>)" "prio s' = prio s" "same_clock s s'"
    "uxCurrentNumberOfTasks s' = uxCurrentNumberOfTasks s" "pxCurrentTCB s' = c" "delayed s' c" "left_to_wait s' c = d - N"
    "\<And>t p. t \<noteq> c \<Longrightarrow> container s (StateItem t) = Some (pxReadyTasksLists p) \<Longrightarrow> container s' (StateItem t) = Some (pxReadyTasksLists p)"
proof -
  define q where "q = xTimerQueue s"
  define s0 where "s0 = s\<lparr>xLastTime := of_nat N\<rparr>"
  define k0 where "k0 = queue_enter q s0"
  let ?l = "xTasksWaitingToReceive q" and ?w = "of_nat d - of_nat N :: TickType_t"
  have s0: "sched_inv s0" "running_ready s0" "uxSchedulerSuspended s0 = 0" "xPendedTicks s0 = 0" "0 < uxCurrentNumberOfTasks s0"
    "uxMessagesWaiting (queues s0 q) = 0" "unlocked (queues s0 q)" "queues s0 = queues s" "pxCurrentTCB s0 = c" "tcb s0 = tcb s"
    "lists s0 = lists s" "same_clock s s0" "uxCurrentNumberOfTasks s0 = uxCurrentNumberOfTasks s" "xTickCount s0 = of_nat N"
    using r clock by (simp_all add: s0_def service_ready_def q_def c_def)
  have k0: "sched_inv k0" "running_ready k0" "uxMessagesWaiting (queues k0 q) = 0" "pxCurrentTCB k0 = c" "tcb k0 = tcb s"
    "lists k0 = lists s" "uxSchedulerSuspended k0 = Suc 0" "xPendedTicks k0 = 0" "kernel.more k0 = kernel.more s0"
    "uxCurrentNumberOfTasks k0 = uxCurrentNumberOfTasks s" "same_clock s k0"
    "queues k0 = (queues s)(q := (queues s q)\<lparr>cRxLock := 0, cTxLock := 0\<rparr>)" "xTickCount k0 = of_nat N"
    using s0 by (simp_all add: k0_def same_clock_def) (simp add: queue_enter_def prvLockQueue_def upd_queue_def vTaskSuspendAll_def)
  have uw: "unat ?w = d - N" by (rule tick_elapsed) (use d in simp_all)
  then have w: "?w \<noteq> 0" using d(1) by (metis unat_0 zero_less_diff less_numeral_extra(3))
  obtain k1 where k1: "vTaskPlaceOnEventListRestricted ?l ?w False k0 = Some k1" "sched_inv k1"
    "tcb k1 = (tcb k0)(pxCurrentTCB k0 := (tcb k0 (pxCurrentTCB k0))\<lparr>ucDelayAborted := False\<rparr>)"
    "pxCurrentTCB k1 = pxCurrentTCB k0" "uxSchedulerSuspended k1 = uxSchedulerSuspended k0"
    "xPendedTicks k1 = xPendedTicks k0" "xTickCount k1 = xTickCount k0"
    "uxCurrentNumberOfTasks k1 = uxCurrentNumberOfTasks k0" "sched.more k1 = sched.more k0" "xNumOfOverflows k1 = xNumOfOverflows k0"
    "container k1 (EventItem (pxCurrentTCB k0)) = Some ?l"
    "\<not> False \<longrightarrow> delayed k1 (pxCurrentTCB k0) \<and> wake k1 (pxCurrentTCB k0) = xTickCount k0 + ?w"
    "\<forall>j. owner j \<noteq> pxCurrentTCB k0 \<longrightarrow> container k1 j = container k0 j \<and> liValue (lists k1) j = liValue (lists k0) j"
    by (rule vTaskPlaceOnEventListRestricted_inv [OF k0(1,2), of ?l False ?w]) (simp, rule w, blast)
  note m1 = more_kernel [OF k1(9)]
  have l1: "uxSchedulerSuspended k1 = Suc 0" "0 < uxCurrentNumberOfTasks k1" "xPendedTicks k1 = 0"
    "cTxLock (queues k1 q) = 0" "cRxLock (queues k1 q) = 0"
    using k1(5,6,8) k0 m1(1) s0(5,13) by simp_all
  obtain k' where k': "queue_exit Blocked q k1 = Some k'" "sched_inv k'" "uxSchedulerSuspended k' = 0"
    "resume_frame (k1\<lparr>queues := queues k'\<rparr>) k'" "same_clock k1 k'" "unblocks k1 k'"
    "queues k' = (queues k1)(q := (queues k1 q)\<lparr>cTxLock := queueUNLOCKED, cRxLock := queueUNLOCKED\<rparr>)"
    "\<forall>t. container k1 (EventItem t) \<noteq> Some xPendingReadyList \<longrightarrow>
       container k' (StateItem t) = container k1 (StateItem t) \<and> container k' (EventItem t) = container k1 (EventItem t)"
    by (rule quiet_exit [OF k1(2) l1, of Blocked]) blast
  have r: "tcb k' = tcb k1" "pxCurrentTCB k' = c" "liValue (lists k') = liValue (lists k1)" "uxCurrentNumberOfTasks k' = uxCurrentNumberOfTasks s"
    "sched.more k' = sched.more (k1\<lparr>queues := queues k'\<rparr>)"
    using k'(4) k1(4,8) k0(4,10) by (simp_all add: resume_frame_def)
  have sc: "same_clock s k'" using k0(11) k1(6,7,10) k'(5) by (simp add: same_clock_def)
  have cc: "container k' (StateItem c) = container k1 (StateItem c)" using k'(8) k1(11) k0(4) by simp
  have dl: "delayed k1 c" "wake k1 c = of_nat N + ?w" using k1(12) k0(4,13) by simp_all
  have sa: "(vTaskSuspendAll s)\<lparr>xLastTime := of_nat N\<rparr> = vTaskSuspendAll s0" by (simp add: s0_def vTaskSuspendAll_def)
  have lk: "prvLockQueue q (vTaskSuspendAll s0) = k0" by (simp add: k0_def queue_enter_def)
  have sp: "prvSampleTimeNow user (vTaskSuspendAll s) = Some (of_nat N, False, vTaskSuspendAll s0)"
    unfolding sa [symmetric] by (rule sample_no_wrap [where A = A]) (use clock in \<open>simp_all add: vTaskSuspendAll_def\<close>)
  have q0: "xTimerQueue (vTaskSuspendAll s0) = q" by (simp add: s0_def q_def vTaskSuspendAll_def)
  show ?thesis
  proof (rule that [of k'])
    show "prvProcessTimerOrBlockTask user (of_nat d) False s = Some k'"
      using sp d(3) k'(1) k1(1) k0(3)
      by (simp add: prvProcessTimerOrBlockTask_def vQueueWaitForMessageRestricted_def q0 lk Let_def queue_exit_def)
    show "delayed k' c" using dl(1) cc by (simp add: delayed_def)
    show "left_to_wait k' c = d - N" using dl(2) r(3) sc uw clock(2) by (simp add: left_to_wait_def same_clock_def)
    show "kernel.more k' = kernel.more (s\<lparr>xLastTime := of_nat N\<rparr>)" using more_kernel(4) [OF r(5)] m1(4) k0(9) by (simp add: s0_def)
    have "(queues s q)\<lparr>cRxLock := 0, cTxLock := 0, cTxLock := queueUNLOCKED, cRxLock := queueUNLOCKED\<rparr> =
        (queues s q)\<lparr>cTxLock := queueUNLOCKED, cRxLock := queueUNLOCKED\<rparr>" by simp
    also have "\<dots> = queues s q" by (rule queue_unlock_restore) (use s0(7,8) in simp)
    finally show "queues k' = queues s" using k'(7) k0(12) m1(1) by (simp add: fun_eq_iff)
    show "container k' (StateItem t) = Some (pxReadyTasksLists p)" if "t \<noteq> c" "container s (StateItem t) = Some (pxReadyTasksLists p)" for t p
      using unblocks_ready [OF k'(6)] k1(13) that k0(4,6) by simp
    show "prio k' = prio s" using r(1) k1(3) k0(4,5) by auto
  qed (use k' r sc in simp_all)
qed

section \<open>Properties\<close>

text \<open>
  C21: A start command is exact across any wrap of the tick count. The service task last looked at the
  clock at time \<open>A\<close>; the command was given at time \<open>C\<close> and is processed at time \<open>N\<close>, all in ticks
  since the start, less than \<open>2 ^ 32\<close> apart. Then the command returns and keeps the timer lists
  consistent; a timer whose first expiry \<open>C + p\<close> lies ahead is queued for that time, one whose
  expiry has passed is called back at once, an auto-reload timer once for every expiry up to \<open>N\<close> and
  queued for the first one after \<open>N\<close>; it is marked active just when it is queued. The other timers
  keep their expiry times, except that those which were due before a wrap of the tick count
  are called back first, and callbacks happen in exactly this order.
\<close>

theorem timer_start_exact:
  fixes s :: "'a tmr_scheme" and A C N :: nat
  assumes "records user tr" "tmr_inv s" "t \<noteq> 0" "xTimerPeriodInTicks (timer s t) > 0"
    and "xLastTime s = of_nat A" "xTickCount s = of_nat N" "A \<le> N" "N < A + 2 ^ 32" "C \<le> N" "N < C + 2 ^ 32"
  defines "p \<equiv> period t s" and "E \<equiv> A div 2 ^ 32" and "B \<equiv> (A div 2 ^ 32 + 1) * 2 ^ 32 - 1"
    and "late \<equiv> (if N div 2 ^ 32 = A div 2 ^ 32 then []
                  else remove1 t (lsItems (tmr_lists s) (pxCurrentTimerList s)))"
  shows "\<exists>s'. timer_command user tmrCOMMAND_START (of_nat C) t s = Some s' \<and> tmr_inv s' \<and> xLastTime s' = of_nat N \<and>
     due_at (N div 2 ^ 32) s' t =
       (if N < C + p then Some (C + p) else if autoreload t s then Some (next_due (C + p) p N) else None) \<and>
     (has_status t tmrSTATUS_IS_ACTIVE s' \<longleftrightarrow> due_at (N div 2 ^ 32) s' t \<noteq> None) \<and>
     (\<forall>u. u \<noteq> t \<longrightarrow> due_at (N div 2 ^ 32) s' u = (if u \<in> set late then due_after E B s u else due_at E s u)) \<and>
     tr (tmr.more s') = tr (tmr.more s) @ owed_calls E B s late @
       replicate (if autoreload t s then expiries (C + p) p N else if C + p \<le> N then 1 else 0) (callback_of t s)"
proof -
  obtain s1 where s1: "(if liContainer (tmr_lists s) t \<noteq> None then remove_timer t s else Some s) = Some s1" "tmr_inv s1"
    "others_same s s1" "timer s1 = timer s" "liContainer (tmr_lists s1) t = None" "\<forall>u. u \<noteq> t \<longrightarrow> due_at E s1 u = due_at E s u"
    "lsItems (tmr_lists s1) (pxCurrentTimerList s1) = remove1 t (lsItems (tmr_lists s) (pxCurrentTimerList s))"
    "tmr.more s1 = tmr.more s" "xTickCount s1 = xTickCount s"
    by (rule take_out [OF assms(2), of t E])
  have out: "t \<notin> set late" using current_iff [OF s1(2), of t] s1(5,7) unfolding late_def by (metis option.distinct(1) empty_iff empty_set)
  have l1: "xLastTime s1 = of_nat A" "xTickCount s1 = of_nat N" using s1(3,9) assms(5,6) by (simp_all add: others_same_def)
  obtain s2 where s2: "prvSampleTimeNow user s1 = Some (of_nat N, N div 2 ^ 32 \<noteq> E, s2)" "tmr_inv s2" "xLastTime s2 = of_nat N"
    "after_expiry (set late) s1 s2"
    "\<forall>u. due_at (N div 2 ^ 32) s2 u = (if u \<in> set late then due_after E B s1 u else due_at E s1 u)"
    "tr (tmr.more s2) = tr (tmr.more s1) @ owed_calls E B s1 late"
    using sample_exact [OF assms(1) s1(2) l1 assms(7,8), unfolded s1(7), folded late_def B_def E_def] by metis
  have t2: "timer s2 t = timer s t" using s2(4) out s1(4) by (simp add: after_expiry_def)
  then have P: "xTimerPeriodInTicks (timer s2 t) > 0" "period t s2 = p" "autoreload t s2 = autoreload t s" "callback_of t s2 = callback_of t s"
    using assms(4) by (simp_all add: p_def period_def autoreload_def has_status_def callback_of_def)
  have "due_at (N div 2 ^ 32) s2 t = None" using s2(5) out s1(5) by (simp add: due_at_def)
  then have o2: "liContainer (tmr_lists s2) t = None" by (simp add: due_at_def split: option.splits)
  obtain s' where s': "start_timer user t (of_nat C) (of_nat N) s2 = Some s'" "tmr_inv s'" "others_same s2 s'"
    "\<forall>u. due_at (N div 2 ^ 32) s' u = (if u = t then (if C + p \<le> N \<and> \<not> autoreload t s then None else Some (next_due (C + p) p N))
        else due_at (N div 2 ^ 32) s2 u)"
    "has_status t tmrSTATUS_IS_ACTIVE s' \<longleftrightarrow> (if C + p \<le> N \<and> \<not> autoreload t s then None else Some (next_due (C + p) p N)) \<noteq> None"
    "tr (tmr.more s') = tr (tmr.more s2) @
       replicate (if autoreload t s then expiries (C + p) p N else if C + p \<le> N then 1 else 0) (callback_of t s)"
    by (rule start_timer_exact [OF assms(1) s2(2) o2 P(1) assms(9,10)]) (use P(2-4) in simp)
  note fr = expiry_frame [OF _ s1(6) out, where N = B]
  have run: "timer_command user tmrCOMMAND_START (of_nat C) t s = Some s'"
    using s1(1) s2(1) s'(1) assms(3) by (simp add: timer_command_def)
  moreover have "xLastTime s' = of_nat N" using s'(3) s2(3) by (simp add: others_same_def)
  moreover have "\<forall>u. u \<noteq> t \<longrightarrow> due_at (N div 2 ^ 32) s' u = (if u \<in> set late then due_after E B s u else due_at E s u)"
    using s'(4) s2(5) s1(6) fr(2) s1(4) by simp
  ultimately show ?thesis using s'(2,4,5,6) s2(6) fr(1) s1(4,8) by simp
qed

text \<open>
  C27: When the tick count has wrapped, \<^verbatim>\<open>prvSwitchTimerLists\<close> returns and leaves the timer lists
  consistent, with the roles of the two lists exchanged: every timer that was due before the wrap has
  been called back, a one-shot timer once and an auto-reload timer once for each of its expiries
  before the wrap, in the order of the list, and is now inactive or queued for its first expiry
  after the wrap; the other timers keep their expiry times; nothing that is still queued is overdue.
\<close>

theorem timer_lists_switch:
  fixes s :: "'a tmr_scheme" and E :: nat
  assumes "records user tr" "tmr_inv s"
  defines "B \<equiv> (E + 1) * 2 ^ 32 - 1" and "cur \<equiv> lsItems (tmr_lists s) (pxCurrentTimerList s)"
  shows "\<exists>s'. prvSwitchTimerLists user s = Some s' \<and> tmr_inv s' \<and>
     pxCurrentTimerList s' = pxOverflowTimerList s \<and> pxOverflowTimerList s' = pxCurrentTimerList s \<and>
     (\<forall>t. due_at (E + 1) s' t =
        (if t \<in> set cur then if autoreload t s then Some (next_due (the (due_at E s t)) (period t s) B) else None
         else due_at E s t)) \<and>
     (\<forall>t d. due_at (E + 1) s' t = Some d \<longrightarrow> B < d) \<and>
     tr (tmr.more s') = tr (tmr.more s) @ owed_calls E B s cur"
proof -
  obtain s' where s': "prvSwitchTimerLists user s = Some s'" "tmr_inv s'"
    "pxCurrentTimerList s' = pxOverflowTimerList s" "pxOverflowTimerList s' = pxCurrentTimerList s"
    "\<forall>u. due_at (E + 1) s' u = (if u \<in> set cur then due_after E B s u else due_at E s u)"
    "tr (tmr.more s') = tr (tmr.more s) @ owed_calls E B s cur"
    unfolding B_def cur_def by (rule switch_exact [OF assms(1,2), of E])
  have "B < d" if "due_at (E + 1) s' t = Some d" for t d
    using that by (auto simp: due_at_def B_def split: option.splits if_splits)
  then show ?thesis using s' by (auto simp: due_after_def)
qed

lemma current_not_passed:
  assumes "tmr_inv s" "lsItems (tmr_lists s) (pxCurrentTimerList s) = t # ts" "due_at (N div 2 ^ 32) s t = Some d" "N < d"
  shows "liValue (tmr_lists s) t = of_nat d" "d div 2 ^ 32 = N div 2 ^ 32" "d < N + 2 ^ 32" "\<not> (of_nat d :: TickType_t) \<le> of_nat N"
proof -
  let ?E = "N div 2 ^ 32" and ?v = "liValue (tmr_lists s) t"
  have "t \<in> set (lsItems (tmr_lists s) (pxCurrentTimerList s))" by (simp add: assms(2))
  then obtain d' where "due_at ?E s t = Some d'" "d' < (?E + 1) * 2 ^ 32" "d' = ?E * 2 ^ 32 + unat ?v"
    by (rule current_due [OF assms(1)])
  then have d: "d = ?E * 2 ^ 32 + unat ?v" using assms(3) by simp
  show "?v = of_nat d" unfolding d by (rule tick_of_due [symmetric])
  show "d div 2 ^ 32 = ?E" using tick_less [of ?v] unfolding d by simp
  have "N = ?E * 2 ^ 32 + N mod 2 ^ 32" by simp
  then show "d < N + 2 ^ 32" using d tick_less [of ?v] by linarith
  have "unat ?v > N mod 2 ^ 32" using d \<open>N = ?E * 2 ^ 32 + N mod 2 ^ 32\<close> assms(4) by linarith
  then show "\<not> (of_nat d :: TickType_t) \<le> of_nat N"
    unfolding \<open>?v = of_nat d\<close> [symmetric] word_le_nat_alt unat_tick by simp
qed

lemma receive_nothing:
  assumes "uxMessagesWaiting (queues k q) = 0" "q \<noteq> 0" "buf \<noteq> 0"
  shows "xQueueReceive_nowait q buf k = Some (False, k)"
  using assms by (simp add: xQueueReceive_nowait_def xQueueReceive_entry_def xQueueReceive_try_def empty_try_def
      start_frame_def may_block_def)

text \<open>The expiry itself: the service task finds its timer due, with nothing in its command queue.\<close>

lemma service_fires:
  fixes s :: "'a tmr_scheme"
  assumes rec: "records user tr" and inv: "tmr_inv s" and k: "sched_inv s" "uxSchedulerSuspended s = 0" "0 < uxCurrentNumberOfTasks s"
    and clock: "xLastTime s = of_nat A" "xTickCount s = of_nat N" "A \<le> N" "N div 2 ^ 32 = A div 2 ^ 32"
    and hd: "lsItems (tmr_lists s) (pxCurrentTimerList s) = t # ts" and d: "due_at (N div 2 ^ 32) s t = Some N"
  obtains s' where "prvProcessTimerOrBlockTask user (of_nat N) False s = Some s'" "tmr_inv s'"
    "due_at (N div 2 ^ 32) s' t = (if autoreload t s then Some (N + period t s) else None)"
    "tr (tmr.more s') = tr (tmr.more s) @ [callback_of t s]"
proof -
  define s0 where "s0 = (vTaskSuspendAll s)\<lparr>xLastTime := of_nat N\<rparr>"
  have sp: "prvSampleTimeNow user (vTaskSuspendAll s) = Some (of_nat N, False, s0)"
    unfolding s0_def by (rule sample_no_wrap [where A = A]) (use clock in \<open>simp_all add: vTaskSuspendAll_def\<close>)
  have s0: "sched_inv s0" "uxSchedulerSuspended s0 = Suc 0" "0 < uxCurrentNumberOfTasks s0" "tmr.more s0 = tmr.more s"
    using k by (simp_all add: s0_def vTaskSuspendAll_def)
  obtain y s1 where s1: "xTaskResumeAll s0 = Some (y, s1)" "sched_inv s1" "unblocks s0 s1" "resume_frame s0 s1"
    by (rule xTaskResumeAll_inv [OF s0(1-3)]) blast
  have m: "kernel.more s1 = kernel.more s0" using s1(4) by (intro more_kernel(4)) (simp add: resume_frame_def)
  note f = more_tmr [OF m]
  have g: "timer s1 = timer s" "tmr_lists s1 = tmr_lists s" "pxCurrentTimerList s1 = pxCurrentTimerList s"
    "pxOverflowTimerList s1 = pxOverflowTimerList s" "tmr.more s1 = tmr.more s"
    using f by (simp_all add: s0_def vTaskSuspendAll_def)
  have inv1: "tmr_inv s1" and hd1: "lsItems (tmr_lists s1) (pxCurrentTimerList s1) = t # ts"
    and d1: "due_at (N div 2 ^ 32) s1 t = Some N"
    using inv hd d g by (simp_all add: tmr_inv_def has_status_def due_at_def cong: option.case_cong)
  have v: "liValue (tmr_lists s1) t = of_nat N"
  proof -
    have "t \<in> set (lsItems (tmr_lists s1) (pxCurrentTimerList s1))" by (simp add: hd1)
    then obtain d' where "due_at (N div 2 ^ 32) s1 t = Some d'" "d' = N div 2 ^ 32 * 2 ^ 32 + unat (liValue (tmr_lists s1) t)"
      by (rule current_due [OF inv1])
    then have "N = N div 2 ^ 32 * 2 ^ 32 + unat (liValue (tmr_lists s1) t)" using d1 by simp
    then show ?thesis by (metis tick_of_due)
  qed
  obtain s' where s': "prvProcessExpiredTimer user (of_nat N) (of_nat N) s1 = Some s'" "tmr_inv s'"
    "\<forall>u. due_at (N div 2 ^ 32) s' u = (if u = t then (if has_status t tmrSTATUS_IS_AUTORELOAD s1
        then Some (next_due N (unat (xTimerPeriodInTicks (timer s1 t))) N) else None) else due_at (N div 2 ^ 32) s1 u)"
    "tr (tmr.more s') = tr (tmr.more s1) @ replicate (if has_status t tmrSTATUS_IS_AUTORELOAD s1
        then expiries N (unat (xTimerPeriodInTicks (timer s1 t))) N else 1) (callback_of t s1)"
    using process_expired_exact [OF rec inv1 hd1 d1 order_refl] unfolding v by blast
  have au: "has_status t tmrSTATUS_IS_AUTORELOAD s1 = autoreload t s" "callback_of t s1 = callback_of t s"
    "unat (xTimerPeriodInTicks (timer s1 t)) = period t s"
    by (simp_all add: autoreload_def has_status_def callback_of_def period_def g)
  show ?thesis
  proof (rule that [of s'])
    show "prvProcessTimerOrBlockTask user (of_nat N) False s = Some s'"
      using sp s1(1) s'(1) by (simp add: prvProcessTimerOrBlockTask_def Let_def)
    show "due_at (N div 2 ^ 32) s' t = (if autoreload t s then Some (N + period t s) else None)"
      using s'(3) by (simp add: au next_due_def expiries_def)
    show "tr (tmr.more s') = tr (tmr.more s) @ [callback_of t s]"
      using s'(4) by (simp add: au g(5) expiries_def)
  qed (rule s'(2))
qed

text \<open>
  C9: A timer expires on time. The service task runs with an empty command queue at time \<open>N\<close>, the
  first timer of the current list expires at \<open>d\<close>, later than now, and another task is ready. Then the
  service task blocks, the other tasks run for exactly \<open>d - N\<close> ticks during which it stays blocked and
  no callback is called, the tick \<open>d\<close> makes it ready, and when it runs again it finds no command and
  calls the timer's callback, once; an auto-reload timer is queued for \<open>d\<close> plus its period, a one-shot
  timer is no longer queued.
\<close>

theorem timer_fires_on_time:
  fixes s :: "'a tmr_scheme" and A N d :: nat
  assumes "records user tr" "tmr_inv s" "service_ready s" "m \<noteq> 0"
    and "xLastTime s = of_nat A" "xTickCount s = of_nat N" "A \<le> N" "N div 2 ^ 32 = A div 2 ^ 32"
    and "lsItems (tmr_lists s) (pxCurrentTimerList s) = t # ts" "due_at (N div 2 ^ 32) s t = Some d" "N < d"
    and "container s (StateItem u) = Some (pxReadyTasksLists p)" "u \<noteq> pxCurrentTCB s"
  defines "c \<equiv> pxCurrentTCB s"
  shows "\<exists>s1 s2 s3 s4 s5. prvTimerTask user m (D_Next, s) = Some (D_Wait (of_nat d) False, s) \<and>
     prvTimerTask user m (D_Wait (of_nat d) False, s) = Some (D_Commands, s1) \<and>
     vTaskSwitchContext s1 = Some s2 \<and> pxCurrentTCB s2 \<noteq> c \<and>
     (\<forall>j < d - N. \<exists>s'. ticks j s2 = Some s' \<and> delayed s' c) \<and>
     ticks (d - N) s2 = Some s3 \<and> container s3 (StateItem c) = Some (pxReadyTasksLists (prio s c)) \<and>
     tr (tmr.more s3) = tr (tmr.more s) \<and>
     prvTimerTask user m (D_Commands, s3\<lparr>pxCurrentTCB := c\<rparr>) = Some (D_Next, s4) \<and>
     prvTimerTask user m (D_Next, s4) = Some (D_Wait (of_nat d) False, s4) \<and>
     prvTimerTask user m (D_Wait (of_nat d) False, s4) = Some (D_Commands, s5) \<and>
     tr (tmr.more s5) = tr (tmr.more s) @ [callback_of t s] \<and> tmr_inv s5 \<and>
     due_at (N div 2 ^ 32) s5 t = (if autoreload t s then Some (d + period t s) else None)"
proof -
  note cn = current_not_passed [OF assms(2,9,10,11)]
  have nx: "prvGetNextExpireTime s = (of_nat d, False)" using assms(9) cn(1) by (simp add: prvGetNextExpireTime_def)
  obtain s1 where s1: "prvProcessTimerOrBlockTask user (of_nat d) False s = Some s1" "sched_inv s1" "uxSchedulerSuspended s1 = 0"
    "queues s1 = queues s" "kernel.more s1 = kernel.more (s\<lparr>xLastTime := of_nat N\<rparr>)" "prio s1 = prio s" "same_clock s s1"
    "uxCurrentNumberOfTasks s1 = uxCurrentNumberOfTasks s" "pxCurrentTCB s1 = c" "delayed s1 c" "left_to_wait s1 c = d - N"
    "\<forall>t p. t \<noteq> c \<longrightarrow> container s (StateItem t) = Some (pxReadyTasksLists p) \<longrightarrow> container s1 (StateItem t) = Some (pxReadyTasksLists p)"
    unfolding c_def by (rule service_blocks [OF assms(3,5-8,11) cn(3,4)]) blast
  have cu: "container s1 (StateItem u) = Some (pxReadyTasksLists p)" using s1(12) assms(12,13) by (simp add: c_def)
  obtain t2 s2 where s2: "vTaskSwitchContext s1 = Some s2" "s2 = s1\<lparr>xYieldPending := False, lists := lists s2, pxCurrentTCB := t2\<rparr>"
    "sched_inv s2" "running_ready s2" "\<forall>i. container s2 i = container s1 i" "liValue (lists s2) = liValue (lists s1)"
    by (rule vTaskSwitchContext_inv [OF s1(2,3) cu]) blast
  have f2: "queues s2 = queues s1" "kernel.more s2 = kernel.more s1" "tcb s2 = tcb s1" "uxSchedulerSuspended s2 = 0" "pxCurrentTCB s2 = t2"
    "xTickCount s2 = of_nat N" "uxCurrentNumberOfTasks s2 = uxCurrentNumberOfTasks s"
    by (subst s2(2), use s1 assms(6) in \<open>simp add: same_clock_def\<close>)+
  have ne: "t2 \<noteq> c" using s2(4,5) f2(3,5) s1(10) by (auto simp: running_ready_def delayed_def)
  have d2: "delayed s2 c" "left_to_wait s2 c = d - N"
    using s1(7,10,11) s2(5,6) f2(6) assms(6) by (simp_all add: delayed_def left_to_wait_def same_clock_def)
  obtain j where j: "d - N = Suc j" using assms(11) by (cases "d - N") simp_all
  obtain s3 where s3: "ticks (d - N) s2 = Some s3" "sched_inv s3" "tick_frame s2 s3" "xTickCount s3 = xTickCount s2 + of_nat (d - N)"
    by (rule ticks_run [OF s2(3) f2(4), of "d - N"]) blast
  have rd: "container s3 (StateItem c) = Some (pxReadyTasksLists (prio s c))"
    using ticks_wait(2) [OF s2(3) f2(4) d2(1), of j] d2(2) j s3(1) f2(3) fun_cong [OF s1(6), of c] by simp
  have tk: "xTickCount s3 = of_nat d" using s3(4) f2(6) assms(11) by (simp flip: of_nat_add)
  have m3: "sched.more s3 = sched.more s2" using s3(3) by (simp add: tick_frame_def)
  have km: "kernel.more s3 = kernel.more (s\<lparr>xLastTime := of_nat N\<rparr>)" using more_kernel(4) [OF m3] f2(2) s1(5) by simp
  note T = more_tmr [OF km]
  define s4 where "s4 = s3\<lparr>pxCurrentTCB := c, mem := write_bytes m (replicate sizeof_DaemonTaskMessage 0) (mem s3)\<rparr>"
  have k4: "sched_inv s4" "uxSchedulerSuspended s4 = 0" "0 < uxCurrentNumberOfTasks s4" "queues s4 = queues s"
    "xTickCount s4 = of_nat d" "xLastTime s4 = of_nat N"
    using s3 f2 assms(3) more_kernel(1) [OF m3] tk T(6) s1(4) by (simp_all add: s4_def tick_frame_def service_ready_def)
  have g4: "timer s4 = timer s" "tmr_lists s4 = tmr_lists s" "pxCurrentTimerList s4 = pxCurrentTimerList s"
    "pxOverflowTimerList s4 = pxOverflowTimerList s" "tmr.more s4 = tmr.more s" "xTimerQueue s4 = xTimerQueue s"
    using T by (simp_all add: s4_def)
  have inv4: "tmr_inv s4" and hd4: "lsItems (tmr_lists s4) (pxCurrentTimerList s4) = t # ts" and d4: "due_at (d div 2 ^ 32) s4 t = Some d"
    using assms(2,9,10) g4 cn(2) by (simp_all add: tmr_inv_def has_status_def due_at_def cong: option.case_cong)
  have au: "callback_of t s4 = callback_of t s" "autoreload t s4 = autoreload t s" "period t s4 = period t s"
    by (simp_all add: callback_of_def autoreload_def has_status_def period_def g4)
  have "prvProcessReceivedCommands user m s4 = Some s4"
    using assms(3,4) k4(4) g4(6) by (subst prvProcessReceivedCommands.simps) (simp add: receive_nothing service_ready_def)
  then have cm: "prvTimerTask user m (D_Commands, s3\<lparr>pxCurrentTCB := c\<rparr>) = Some (D_Next, s4)" by (simp add: s4_def)
  have nx4: "prvGetNextExpireTime s4 = (of_nat d, False)" using hd4 cn(1) g4(2) by (simp add: prvGetNextExpireTime_def)
  obtain s5 where s5: "prvProcessTimerOrBlockTask user (of_nat d) False s4 = Some s5" "tmr_inv s5"
    "due_at (d div 2 ^ 32) s5 t = (if autoreload t s4 then Some (d + period t s4) else None)"
    "tr (tmr.more s5) = tr (tmr.more s4) @ [callback_of t s4]"
    by (rule service_fires [OF assms(1) inv4 k4(1-3) k4(6,5) _ cn(2) hd4 d4]) (use assms(11) in simp)
  have wt: "\<forall>j < d - N. \<exists>s'. ticks j s2 = Some s' \<and> delayed s' c"
    using ticks_wait(1) [OF s2(3) f2(4) d2(1)] d2(2) by simp
  have "prvTimerTask user m (D_Next, s) = Some (D_Wait (of_nat d) False, s)" by (simp add: nx)
  moreover have "prvTimerTask user m (D_Wait (of_nat d) False, s) = Some (D_Commands, s1)" by (simp add: s1(1))
  moreover have "pxCurrentTCB s2 \<noteq> c" using f2(5) ne by simp
  moreover have "tr (tmr.more s3) = tr (tmr.more s)" using T(7) by simp
  moreover have "prvTimerTask user m (D_Next, s4) = Some (D_Wait (of_nat d) False, s4)" by (simp add: nx4)
  moreover have "prvTimerTask user m (D_Wait (of_nat d) False, s4) = Some (D_Commands, s5)" by (simp add: s5(1))
  moreover have "tr (tmr.more s5) = tr (tmr.more s) @ [callback_of t s]" using s5(4) au g4(5) by simp
  moreover have "due_at (N div 2 ^ 32) s5 t = (if autoreload t s then Some (d + period t s) else None)"
    using s5(3) au unfolding cn(2) by (simp only:)
  ultimately show ?thesis using s2(1) wt s3(1) rd cm s5(2) by (intro exI conjI)
qed

section \<open>Concrete states\<close>

text \<open>
  A one-shot timer at 200 in the current list, an auto-reload timer at 100 that is not started; the
  application keeps the list of its calls.
\<close>

definition demo_user :: "call list tmr_scheme user_code" where
  "demo_user c s = Some (tmr.more_update (\<lambda>cs. cs @ [c]) s)"

definition demo_timers :: "TickType_t \<Rightarrow> TickType_t \<Rightarrow> TickType_t \<Rightarrow> call list tmr_scheme" where
  "demo_timers v before tick = tmr.extend (kernel.extend (demo_kernel\<lparr>xTickCount := tick\<rparr>)
     (tmr.fields
        ((\<lambda>_. \<lparr>pcTimerName = 0, xTimerPeriodInTicks = 10, pvTimerID = 0, pxCallbackFunction = 7, ucStatus = 1\<rparr>)
         (100 := \<lparr>pcTimerName = 0, xTimerPeriodInTicks = 2, pvTimerID = 0, pxCallbackFunction = 9, ucStatus = 4\<rparr>))
        \<lparr>liValue = (\<lambda>_. v), liContainer = (\<lambda>_. None)(200 := Some xActiveTimerList1),
         lsItems = (\<lambda>_. [])(xActiveTimerList1 := [200]), lsIndex = (\<lambda>_. None)\<rparr>
        xActiveTimerList1 xActiveTimerList2 500 1000 before)) []"

lemma demo_timers_simps [simp]:
  "lists (demo_timers v b k) = lists demo" "tcb (demo_timers v b k) = demo_tcbs" "pxCurrentTCB (demo_timers v b k) = 1000"
  "uxCurrentNumberOfTasks (demo_timers v b k) = 3" "uxSchedulerSuspended (demo_timers v b k) = 0" "xPendedTicks (demo_timers v b k) = 0"
  "queues (demo_timers v b k) = demo_queues" "xTickCount (demo_timers v b k) = k" "xLastTime (demo_timers v b k) = b"
  "pxCurrentTimerList (demo_timers v b k) = xActiveTimerList1" "pxOverflowTimerList (demo_timers v b k) = xActiveTimerList2"
  "xTimerQueue (demo_timers v b k) = 500" "tmr.more (demo_timers v b k) = []"
  "tmr_lists (demo_timers v b k) = \<lparr>liValue = (\<lambda>_. v), liContainer = (\<lambda>_. None)(200 := Some xActiveTimerList1),
     lsItems = (\<lambda>_. [])(xActiveTimerList1 := [200]), lsIndex = (\<lambda>_. None)\<rparr>"
  "xTimerPeriodInTicks (timer (demo_timers v b k) 100) = 2" "xTimerPeriodInTicks (timer (demo_timers v b k) 200) = 10"
  "ucStatus (timer (demo_timers v b k) 100) = 4" "ucStatus (timer (demo_timers v b k) 200) = 1"
  "callback_of 100 (demo_timers v b k) = TimerCallback 9 100" "callback_of 200 (demo_timers v b k) = TimerCallback 7 200"
  by (simp_all add: demo_timers_def tmr.defs kernel.defs demo_kernel_def sched.defs callback_of_def)

lemma demo_timers_facts [simp]:
  "autoreload 100 (demo_timers v b k)" "\<not> autoreload 200 (demo_timers v b k)" "period 100 (demo_timers v b k) = 2"
  "due_at E (demo_timers v b k) 200 = Some (E * 2 ^ 32 + unat v)"
  by (simp_all add: autoreload_def has_status_def period_def due_at_def tmrSTATUS_IS_AUTORELOAD_def)

lemma demo_timers_inv: "tmr_inv (demo_timers v b k)"
  by (simp add: tmr_inv_def in_order_def ls_wf_def has_status_def tmrSTATUS_IS_ACTIVE_def)

lemma demo_records: "records demo_user (\<lambda>cs. cs)"
  by (simp add: records_def demo_user_def same_timers_def)

lemma demo_timers_ready: "service_ready (demo_timers v b 0)"
proof -
  have "sched_inv (demo_timers v b 0)"
    using demo_kernel_inv by (simp add: core_inv_def blocked_def demo_timers_def tmr.defs kernel.defs demo_kernel_def sched.defs)
  moreover have "running_ready (demo_timers v b 0)" by (simp add: running_ready_def demo_tcbs_def)
  ultimately show ?thesis by (simp add: service_ready_def unlocked_def demo_queues_def)
qed

theorem timer_start_exact_witness:
  "\<exists>s'. timer_command demo_user tmrCOMMAND_START 4294967294 100 (demo_timers (- 2) (- 5) 3) = Some s' \<and>
     due_at 1 s' 100 = Some (2 ^ 32 + 4) \<and> due_at 1 s' 200 = None \<and>
     tmr.more s' = [TimerCallback 7 200, TimerCallback 9 100, TimerCallback 9 100]"
proof -
  let ?s = "demo_timers (- 2) (- 5) 3"
  have clock: "xLastTime ?s = of_nat 4294967291" "xTickCount ?s = of_nat 4294967299" by simp_all
  have t: "(100 :: addr) \<noteq> 0" "0 < xTimerPeriodInTicks (timer ?s 100)" by simp_all
  show ?thesis
    using timer_start_exact [OF demo_records demo_timers_inv t clock, of 4294967294]
    by (auto simp: owed_calls_def due_after_def next_due_def expiries_def)
qed

theorem timer_lists_switch_witness:
  "\<exists>s'. prvSwitchTimerLists demo_user (demo_timers (- 2) (- 5) 3) = Some s' \<and> due_at 1 s' 200 = None \<and>
     tmr.more s' = [TimerCallback 7 200]"
  using timer_lists_switch [OF demo_records demo_timers_inv [of "- 2" "- 5" 3], where E = 0]
  by (auto simp: owed_calls_def)

theorem timer_fires_on_time_witness:
  "\<exists>s1 s2 s3 s4 s5. prvTimerTask demo_user 900 (D_Wait 5 False, demo_timers 5 0 0) = Some (D_Commands, s1) \<and>
     vTaskSwitchContext s1 = Some s2 \<and> ticks 5 s2 = Some s3 \<and>
     prvTimerTask demo_user 900 (D_Commands, s3\<lparr>pxCurrentTCB := 1000\<rparr>) = Some (D_Next, s4) \<and>
     prvTimerTask demo_user 900 (D_Wait 5 False, s4) = Some (D_Commands, s5) \<and> tmr.more s5 = [TimerCallback 7 200]"
proof -
  let ?s = "demo_timers 5 0 0"
  have clock: "xLastTime ?s = of_nat 0" "xTickCount ?s = of_nat 0" by simp_all
  have hd: "lsItems (tmr_lists ?s) (pxCurrentTimerList ?s) = 200 # []" "due_at (0 div 2 ^ 32) ?s 200 = Some 5" by simp_all
  have u: "container ?s (StateItem 2000) = Some (pxReadyTasksLists 3)" "2000 \<noteq> pxCurrentTCB ?s" by simp_all
  show ?thesis
    using timer_fires_on_time [OF demo_records demo_timers_inv demo_timers_ready _ clock _ _ hd _ u, of 900] by auto
qed

end
