(* ===== verification/FR_Event_Groups.thy ===== *)
theory FR_Event_Groups
  imports FR_Timers
begin

text \<open>
  \<^verbatim>\<open>event_groups.c\<close>: groups of 24 event bits that tasks set, clear and wait for. The state extends that
  of the timers, because the interrupt-safe variants pend functions on the timer service task. The
  condition a task waits for is in the value of its event list item: the bits, and above them the
  control bits.

  A waiting call is cut where other tasks may act: \<open>_enter\<close> is the part up to the yield, \<open>_exit\<close> what the
  task does when it runs again.
\<close>

section \<open>State\<close>

record EventGroup_t =
  uxEventBits :: u32
  groupStaticallyAllocated :: bool

record evg = tmr +
  groups :: "addr \<Rightarrow> EventGroup_t"

definition eventCLEAR_EVENTS_ON_EXIT_BIT :: u32 where "eventCLEAR_EVENTS_ON_EXIT_BIT = 0x01000000"
definition eventUNBLOCKED_DUE_TO_BIT_SET :: u32 where "eventUNBLOCKED_DUE_TO_BIT_SET = 0x02000000"
definition eventWAIT_FOR_ALL_BITS :: u32 where "eventWAIT_FOR_ALL_BITS = 0x04000000"
definition eventEVENT_BITS_CONTROL_BYTES :: u32 where "eventEVENT_BITS_CONTROL_BYTES = 0xff000000"

definition sizeof_EventGroup :: nat where
  "sizeof_EventGroup = 32"

definition upd_group :: "addr \<Rightarrow> (EventGroup_t \<Rightarrow> EventGroup_t) \<Rightarrow> 'a evg_scheme \<Rightarrow> 'a evg_scheme" where
  "upd_group g f s = s\<lparr>groups := (groups s)(g := f (groups s g))\<rparr>"

definition clear_bits :: "addr \<Rightarrow> u32 \<Rightarrow> 'a evg_scheme \<Rightarrow> 'a evg_scheme" where
  "clear_bits g b = upd_group g (\<lambda>x. x\<lparr>uxEventBits := uxEventBits x AND NOT b\<rparr>)"

section \<open>Creation\<close>

definition init_group :: "addr \<Rightarrow> bool \<Rightarrow> 'a evg_scheme \<Rightarrow> 'a evg_scheme" where
  "init_group g static s = upd_lists (ls_init (xTasksWaitingForBits g))
     (upd_group g (\<lambda>_. \<lparr>uxEventBits = 0, groupStaticallyAllocated = static\<rparr>) s)"

definition xEventGroupCreateStatic :: "addr \<Rightarrow> 'a evg_scheme \<Rightarrow> (addr \<times> 'a evg_scheme) option" where
  "xEventGroupCreateStatic g s = do { configASSERT (g \<noteq> 0); Some (g, init_group g True s) }"

definition xEventGroupCreate :: "'a evg_scheme \<Rightarrow> (addr \<times> 'a evg_scheme) option" where
  "xEventGroupCreate s = do {
     (g, s) \<leftarrow> pvPortMalloc sizeof_EventGroup s;
     Some (g, if g \<noteq> 0 then init_group g False s else s)
   }"

definition xEventGroupGetStaticBuffer :: "addr \<Rightarrow> 'a evg_scheme \<Rightarrow> addr option option" where
  "xEventGroupGetStaticBuffer g s = do {
     configASSERT (g \<noteq> 0);
     Some (if groupStaticallyAllocated (groups s g) then Some g else None)
   }"

section \<open>Setting and clearing bits\<close>

definition prvTestWaitCondition :: "u32 \<Rightarrow> u32 \<Rightarrow> bool \<Rightarrow> bool" where
  "prvTestWaitCondition uxCurrentEventBits uxBitsToWaitFor xWaitForAllBits =
     (if \<not> xWaitForAllBits then uxCurrentEventBits AND uxBitsToWaitFor \<noteq> 0
      else uxCurrentEventBits AND uxBitsToWaitFor = uxBitsToWaitFor)"

definition xEventGroupClearBits :: "addr \<Rightarrow> u32 \<Rightarrow> 'a evg_scheme \<Rightarrow> (u32 \<times> 'a evg_scheme) option" where
  "xEventGroupClearBits g uxBitsToClear s = do {
     configASSERT (g \<noteq> 0);
     configASSERT (uxBitsToClear AND eventEVENT_BITS_CONTROL_BYTES = 0);
     Some (uxEventBits (groups s g), clear_bits g uxBitsToClear s)
   }"

definition xEventGroupGetBitsFromISR :: "addr \<Rightarrow> 'a evg_scheme \<Rightarrow> u32" where
  "xEventGroupGetBitsFromISR g s = uxEventBits (groups s g)"

text \<open>
  The walk of \<^verbatim>\<open>xEventGroupSetBits\<close> over the waiting tasks. The successor of an item is read before the
  item may leave the list, and no other item leaves it meanwhile, so the walk goes over the items that
  were in the list at the start; it collects the bits to clear.
\<close>

fun set_bits_loop :: "addr \<Rightarrow> item list \<Rightarrow> u32 \<Rightarrow> 'a evg_scheme \<Rightarrow> (u32 \<times> 'a evg_scheme) option" where
  "set_bits_loop g [] uxBitsToClear s = Some (uxBitsToClear, s)"
| "set_bits_loop g (i # rest) uxBitsToClear s =
     (let v = liValue (lists s) i;
          uxControlBits = v AND eventEVENT_BITS_CONTROL_BYTES;
          uxBitsWaitedFor = v AND NOT eventEVENT_BITS_CONTROL_BYTES;
          bits = uxEventBits (groups s g);
          xMatchFound = (if uxControlBits AND eventWAIT_FOR_ALL_BITS = 0 then uxBitsWaitedFor AND bits \<noteq> 0
                         else uxBitsWaitedFor AND bits = uxBitsWaitedFor)
      in if xMatchFound then do {
           let uxBitsToClear = (if uxControlBits AND eventCLEAR_EVENTS_ON_EXIT_BIT \<noteq> 0
                                then uxBitsToClear OR uxBitsWaitedFor else uxBitsToClear);
           s \<leftarrow> vTaskRemoveFromUnorderedEventList i (bits OR eventUNBLOCKED_DUE_TO_BIT_SET) s;
           set_bits_loop g rest uxBitsToClear s
         } else set_bits_loop g rest uxBitsToClear s)"

definition xEventGroupSetBits :: "addr \<Rightarrow> u32 \<Rightarrow> 'a evg_scheme \<Rightarrow> (u32 \<times> 'a evg_scheme) option" where
  "xEventGroupSetBits g uxBitsToSet s = do {
     configASSERT (g \<noteq> 0);
     configASSERT (uxBitsToSet AND eventEVENT_BITS_CONTROL_BYTES = 0);
     let s = vTaskSuspendAll s;
     let waiting = items s (xTasksWaitingForBits g);
     let s = upd_group g (\<lambda>x. x\<lparr>uxEventBits := uxEventBits x OR uxBitsToSet\<rparr>) s;
     (uxBitsToClear, s) \<leftarrow> set_bits_loop g waiting 0 s;
     let s = clear_bits g uxBitsToClear s;
     let uxReturnBits = uxEventBits (groups s g);
     (_, s) \<leftarrow> xTaskResumeAll s;
     Some (uxReturnBits, s)
   }"

definition vEventGroupSetBitsCallback :: "addr \<Rightarrow> u32 \<Rightarrow> 'a evg_scheme \<Rightarrow> 'a evg_scheme option" where
  "vEventGroupSetBitsCallback g b s = map_option snd (xEventGroupSetBits g b s)"

definition vEventGroupClearBitsCallback :: "addr \<Rightarrow> u32 \<Rightarrow> 'a evg_scheme \<Rightarrow> 'a evg_scheme option" where
  "vEventGroupClearBitsCallback g b s = map_option snd (xEventGroupClearBits g b s)"

text \<open>\<open>callback\<close> is the code address of the callback above, \<open>xMessage\<close> that of the message.\<close>

definition xEventGroupClearBitsFromISR ::
  "addr \<Rightarrow> addr \<Rightarrow> addr \<Rightarrow> u32 \<Rightarrow> 'a evg_scheme \<Rightarrow> (bool \<times> 'a evg_scheme) option" where
  "xEventGroupClearBitsFromISR callback xMessage g b s =
     map_option (\<lambda>(r, _, s). (r, s)) (xTimerPendFunctionCallFromISR xMessage callback g b s)"

definition xEventGroupSetBitsFromISR ::
  "addr \<Rightarrow> addr \<Rightarrow> addr \<Rightarrow> u32 \<Rightarrow> 'a evg_scheme \<Rightarrow> (bool \<times> bool \<times> 'a evg_scheme) option" where
  "xEventGroupSetBitsFromISR callback xMessage g b s = xTimerPendFunctionCallFromISR xMessage callback g b s"

section \<open>Waiting\<close>

text \<open>The result of the first part of a waiting call: the bits to return, or the task waits.\<close>

datatype bits_result = Bits u32 | Wait_Bits

definition resume_and_yield :: "bits_result \<Rightarrow> 'a evg_scheme \<Rightarrow> (bits_result \<times> 'a evg_scheme) option" where
  "resume_and_yield r s = do {
     (xAlreadyYielded, s) \<leftarrow> xTaskResumeAll s;
     Some (r, if r = Wait_Bits \<and> \<not> xAlreadyYielded then portYIELD s else s)
   }"

definition wait_asserts :: "u32 \<Rightarrow> TickType_t \<Rightarrow> 'a sched_scheme \<Rightarrow> unit option" where
  "wait_asserts uxBitsToWaitFor w s = do {
     configASSERT (uxBitsToWaitFor AND eventEVENT_BITS_CONTROL_BYTES = 0);
     configASSERT (uxBitsToWaitFor \<noteq> 0);
     configASSERT (may_block w s)
   }"

definition xEventGroupWaitBits_enter ::
  "addr \<Rightarrow> u32 \<Rightarrow> bool \<Rightarrow> bool \<Rightarrow> TickType_t \<Rightarrow> 'a evg_scheme \<Rightarrow> (bits_result \<times> 'a evg_scheme) option" where
  "xEventGroupWaitBits_enter g uxBitsToWaitFor xClearOnExit xWaitForAllBits w s = do {
     configASSERT (g \<noteq> 0);
     wait_asserts uxBitsToWaitFor w s;
     let s = vTaskSuspendAll s;
     let bits = uxEventBits (groups s g);
     if prvTestWaitCondition bits uxBitsToWaitFor xWaitForAllBits
     then resume_and_yield (Bits bits) (if xClearOnExit then clear_bits g uxBitsToWaitFor s else s)
     else if w = 0 then resume_and_yield (Bits bits) s
     else do {
       let uxControlBits = (if xClearOnExit then eventCLEAR_EVENTS_ON_EXIT_BIT else 0) OR
                           (if xWaitForAllBits then eventWAIT_FOR_ALL_BITS else 0);
       s \<leftarrow> vTaskPlaceOnUnorderedEventList (xTasksWaitingForBits g) (uxBitsToWaitFor OR uxControlBits) w s;
       resume_and_yield Wait_Bits s
     }
   }"

definition xEventGroupWaitBits_exit ::
  "addr \<Rightarrow> u32 \<Rightarrow> bool \<Rightarrow> bool \<Rightarrow> 'a evg_scheme \<Rightarrow> u32 \<times> 'a evg_scheme" where
  "xEventGroupWaitBits_exit g uxBitsToWaitFor xClearOnExit xWaitForAllBits s =
     (let (r, s) = uxTaskResetEventItemValue s;
          (r, s) = (if r AND eventUNBLOCKED_DUE_TO_BIT_SET = 0 then
                      let r = uxEventBits (groups s g)
                      in (r, if prvTestWaitCondition r uxBitsToWaitFor xWaitForAllBits \<and> xClearOnExit
                             then clear_bits g uxBitsToWaitFor s else s)
                    else (r, s))
      in (r AND NOT eventEVENT_BITS_CONTROL_BYTES, s))"

definition xEventGroupSync_enter ::
  "addr \<Rightarrow> u32 \<Rightarrow> u32 \<Rightarrow> TickType_t \<Rightarrow> 'a evg_scheme \<Rightarrow> (bits_result \<times> 'a evg_scheme) option" where
  "xEventGroupSync_enter g uxBitsToSet uxBitsToWaitFor w s = do {
     wait_asserts uxBitsToWaitFor w s;
     let s = vTaskSuspendAll s;
     let uxOriginalBitValue = uxEventBits (groups s g);
     (_, s) \<leftarrow> xEventGroupSetBits g uxBitsToSet s;
     if (uxOriginalBitValue OR uxBitsToSet) AND uxBitsToWaitFor = uxBitsToWaitFor
     then resume_and_yield (Bits (uxOriginalBitValue OR uxBitsToSet)) (clear_bits g uxBitsToWaitFor s)
     else if w \<noteq> 0 then do {
       s \<leftarrow> vTaskPlaceOnUnorderedEventList (xTasksWaitingForBits g)
              (uxBitsToWaitFor OR eventCLEAR_EVENTS_ON_EXIT_BIT OR eventWAIT_FOR_ALL_BITS) w s;
       resume_and_yield Wait_Bits s
     }
     else resume_and_yield (Bits (uxEventBits (groups s g))) s
   }"

definition xEventGroupSync_exit :: "addr \<Rightarrow> u32 \<Rightarrow> 'a evg_scheme \<Rightarrow> u32 \<times> 'a evg_scheme" where
  "xEventGroupSync_exit g uxBitsToWaitFor s =
     (let (r, s) = uxTaskResetEventItemValue s;
          (r, s) = (if r AND eventUNBLOCKED_DUE_TO_BIT_SET = 0 then
                      let r = uxEventBits (groups s g)
                      in (r, if r AND uxBitsToWaitFor = uxBitsToWaitFor then clear_bits g uxBitsToWaitFor s else s)
                    else (r, s))
      in (r AND NOT eventEVENT_BITS_CONTROL_BYTES, s))"

section \<open>Deletion\<close>

partial_function (option) delete_loop :: "addr \<Rightarrow> 'a evg_scheme \<Rightarrow> 'a evg_scheme option" where
  "delete_loop g s =
     (case items s (xTasksWaitingForBits g) of
        [] \<Rightarrow> Some s
      | i # _ \<Rightarrow> do {
          s \<leftarrow> vTaskRemoveFromUnorderedEventList i eventUNBLOCKED_DUE_TO_BIT_SET s;
          delete_loop g s
        })"

definition vEventGroupDelete :: "addr \<Rightarrow> 'a evg_scheme \<Rightarrow> 'a evg_scheme option" where
  "vEventGroupDelete g s = do {
     configASSERT (g \<noteq> 0);
     let s = vTaskSuspendAll s;
     s \<leftarrow> delete_loop g s;
     (_, s) \<leftarrow> xTaskResumeAll s;
     if \<not> groupStaticallyAllocated (groups s g) then vPortFree g s else Some s
   }"

end
