(* ===== verification/FR_Event_Props.thy ===== *)
theory FR_Event_Props
  imports FR_Event_Groups FR_Timeout
begin

text \<open>
  The contract of the event groups: setting bits wakes exactly the waiting tasks whose condition has
  become true, with the bits as they were then, and a task that waits gets the bits it has waited for.
\<close>

section \<open>Waking one waiting task\<close>

lemma vTaskRemoveFromUnorderedEventList_inv:
  fixes k :: "'a sched_scheme"
  assumes inv: "sched_inv k" and c: "container k (EventItem t) = Some l" and l: "waiting_list l"
    and su: "uxSchedulerSuspended k \<noteq> 0"
  obtains k' where "vTaskRemoveFromUnorderedEventList (EventItem t) v k = Some k'" "sched_inv k'"
    "container k' (StateItem t) = Some (pxReadyTasksLists (prio k t))" "container k' (EventItem t) = None"
    "liValue (lists k') = (liValue (lists k))(EventItem t := v OR taskEVENT_LIST_ITEM_VALUE_IN_USE)"
    "\<And>j. owner j \<noteq> t \<Longrightarrow> container k' j = container k j" "tcb k' = tcb k" "pxCurrentTCB k' = pxCurrentTCB k"
    "uxSchedulerSuspended k' = uxSchedulerSuspended k" "xPendedTicks k' = xPendedTicks k"
    "uxCurrentNumberOfTasks k' = uxCurrentNumberOfTasks k" "sched.more k' = sched.more k" "heap k' = heap k"
    "xYieldPending k' \<longleftrightarrow> xYieldPending k \<or> prio k t > prio k (pxCurrentTCB k)"
proof -
  define k0 where "k0 = upd_lists (ls_set_value (EventItem t) (v OR taskEVENT_LIST_ITEM_VALUE_IN_USE)) k"
  have inv0: "sched_inv k0" unfolding k0_def by (rule core_inv_set_event_value [OF inv])
  have c0: "container k0 = container k" by (simp add: k0_def upd_lists_def ls_set_value_def)
  have t0: "t \<noteq> 0" using core_invD(3) [OF inv, of "EventItem t"] c by (cases "t = 0") auto
  obtain m where m: "container k (StateItem t) = Some m" "m \<in> insert xSuspendedTaskList delayed_lists"
    using core_invD(11) [OF inv, of t] c by (auto simp: blocked_def)
  define k1 where "k1 = k0\<lparr>lists := ls_del l (EventItem t) (lists k0)\<rparr>"
  have inv1: "sched_inv k1" unfolding k1_def by (rule core_inv_del_event [OF inv0]) (use c c0 in simp)
  have c1: "container k1 (StateItem t) = Some m" "container k1 (EventItem t) = None"
    "\<And>j. owner j \<noteq> t \<Longrightarrow> container k1 j = container k j"
    using m(1) c0 by (auto simp: k1_def)
  define k2 where "k2 = k1\<lparr>lists := ls_del m (StateItem t) (lists k1)\<rparr>"
  have inv2: "sched_inv k2" unfolding k2_def by (rule core_inv_del_state [OF inv1 c1(1)]) (use m(2) c1 in auto)
  define k3 where "k3 = prvAddTaskToReadyList t k2"
  define k4 where "k4 = (if prio k t > prio k (pxCurrentTCB k) then k3\<lparr>xYieldPending := True\<rparr> else k3)"
  have inv3: "sched_inv k3"
    unfolding k3_def by (rule core_inv_add_ready [OF inv2 _ t0]) (use c1 in \<open>auto simp: k2_def\<close>)
  have fr: "tcb k3 = tcb k" "pxCurrentTCB k3 = pxCurrentTCB k" "uxSchedulerSuspended k3 = uxSchedulerSuspended k"
    "tcb k2 = tcb k" "pxCurrentTCB k2 = pxCurrentTCB k"
    by (simp_all add: k3_def k2_def k1_def k0_def upd_lists_def)
  have rm: "listREMOVE_ITEM (EventItem t) k0 = Some k1" "listREMOVE_ITEM (StateItem t) k1 = Some k2"
    using listREMOVE_ITEM_eq [of k0 "EventItem t" l] c c0 listREMOVE_ITEM_eq [OF c1(1)] by (simp_all add: k1_def k2_def)
  show ?thesis
  proof (rule that [of k4])
    show "vTaskRemoveFromUnorderedEventList (EventItem t) v k = Some k4"
      using rm su t0 fr unfolding vTaskRemoveFromUnorderedEventList_def
      by (simp add: k0_def [symmetric] k3_def [symmetric] k4_def Let_def)
    show "sched_inv k4" using inv3 by (simp add: k4_def)
  qed (use c1 in \<open>auto simp: k4_def k3_def k2_def k1_def k0_def upd_lists_def ls_set_value_def\<close>)
qed


section \<open>Which tasks wake\<close>

text \<open>
  The value \<open>v\<close> of a waiting task's event item: the bits it waits for and, in the control bits, how. The
  bits that are cleared are those that a woken task wants cleared.
\<close>

definition waited_for :: "u32 \<Rightarrow> u32" where
  "waited_for v = v AND NOT eventEVENT_BITS_CONTROL_BYTES"

definition wait_met :: "u32 \<Rightarrow> u32 \<Rightarrow> bool" where
  "wait_met bits v = prvTestWaitCondition bits (waited_for v) (v AND eventWAIT_FOR_ALL_BITS \<noteq> 0)"

fun cleared :: "u32 \<Rightarrow> u32 list \<Rightarrow> u32" where
  "cleared bits [] = 0"
| "cleared bits (v # vs) =
     (if wait_met bits v \<and> v AND eventCLEAR_EVENTS_ON_EXIT_BIT \<noteq> 0 then waited_for v else 0) OR cleared bits vs"

lemma bit_cleared:
  "bit (cleared bits vs) n \<longleftrightarrow> (\<exists>v\<in>set vs. wait_met bits v \<and> v AND eventCLEAR_EVENTS_ON_EXIT_BIT \<noteq> 0 \<and> bit (waited_for v) n)"
  by (induction vs) (auto simp: bit_simps)

lemma control_masks:
  "(v AND eventEVENT_BITS_CONTROL_BYTES) AND eventWAIT_FOR_ALL_BITS = v AND eventWAIT_FOR_ALL_BITS"
  "(v AND eventEVENT_BITS_CONTROL_BYTES) AND eventCLEAR_EVENTS_ON_EXIT_BIT = v AND eventCLEAR_EVENTS_ON_EXIT_BIT"
  by (simp_all add: and.assoc eventEVENT_BITS_CONTROL_BYTES_def eventWAIT_FOR_ALL_BITS_def eventCLEAR_EVENTS_ON_EXIT_BIT_def)

lemma set_bits_loop_Cons:
  "set_bits_loop g (i # rest) c s =
     (let v = liValue (lists s) i; bits = uxEventBits (groups s g) in
      if wait_met bits v then
        Option.bind (vTaskRemoveFromUnorderedEventList i (bits OR eventUNBLOCKED_DUE_TO_BIT_SET) s)
          (set_bits_loop g rest (c OR (if v AND eventCLEAR_EVENTS_ON_EXIT_BIT \<noteq> 0 then waited_for v else 0)))
      else set_bits_loop g rest c s)"
  unfolding set_bits_loop.simps Let_def control_masks wait_met_def prvTestWaitCondition_def waited_for_def
  by (simp add: and.commute)

declare set_bits_loop.simps(2) [simp del]

text \<open>From \<open>k\<close> to \<open>k'\<close> the tasks of \<open>T\<close> have been made ready, with \<open>v\<close> as the value of their event items.\<close>

definition bits_woken :: "addr set \<Rightarrow> u32 \<Rightarrow> 'a sched_scheme \<Rightarrow> 'a sched_scheme \<Rightarrow> bool" where
  "bits_woken T v k k' \<longleftrightarrow> sched_inv k' \<and>
     (\<forall>t. container k' (StateItem t) = (if t \<in> T then Some (pxReadyTasksLists (prio k t)) else container k (StateItem t))) \<and>
     (\<forall>t. container k' (EventItem t) = (if t \<in> T then None else container k (EventItem t))) \<and>
     (\<forall>j. liValue (lists k') j = (if \<exists>t\<in>T. j = EventItem t then v else liValue (lists k) j)) \<and>
     tcb k' = tcb k \<and> pxCurrentTCB k' = pxCurrentTCB k \<and> uxSchedulerSuspended k' = uxSchedulerSuspended k \<and>
     xPendedTicks k' = xPendedTicks k \<and> uxCurrentNumberOfTasks k' = uxCurrentNumberOfTasks k \<and>
     sched.more k' = sched.more k \<and> (xYieldPending k \<longrightarrow> xYieldPending k') \<and>
     (\<forall>t\<in>T. prio k t > prio k (pxCurrentTCB k) \<longrightarrow> xYieldPending k')"

lemma bits_woken_refl: "sched_inv k \<Longrightarrow> bits_woken {} v k k"
  by (simp add: bits_woken_def)

lemma bits_woken_trans:
  assumes "bits_woken T v k k'" "bits_woken U v k' k''"
  shows "bits_woken (T \<union> U) v k k''"
  using assms unfolding bits_woken_def by (elim conjE, intro conjI) auto

lemma wake_one_for_bits:
  fixes k :: "'a sched_scheme"
  assumes "sched_inv k" "container k (EventItem t) = Some l" "waiting_list l" "uxSchedulerSuspended k \<noteq> 0"
  obtains k' where "vTaskRemoveFromUnorderedEventList (EventItem t) v k = Some k'"
    "bits_woken {t} (v OR taskEVENT_LIST_ITEM_VALUE_IN_USE) k k'"
proof -
  let ?v = "v OR taskEVENT_LIST_ITEM_VALUE_IN_USE"
  obtain k' where k': "vTaskRemoveFromUnorderedEventList (EventItem t) v k = Some k'" "sched_inv k'"
    "container k' (StateItem t) = Some (pxReadyTasksLists (prio k t))" "container k' (EventItem t) = None"
    "liValue (lists k') = (liValue (lists k))(EventItem t := ?v)"
    "\<forall>j. owner j \<noteq> t \<longrightarrow> container k' j = container k j" "tcb k' = tcb k" "pxCurrentTCB k' = pxCurrentTCB k"
    "uxSchedulerSuspended k' = uxSchedulerSuspended k" "xPendedTicks k' = xPendedTicks k"
    "uxCurrentNumberOfTasks k' = uxCurrentNumberOfTasks k" "sched.more k' = sched.more k"
    "xYieldPending k' \<longleftrightarrow> xYieldPending k \<or> prio k t > prio k (pxCurrentTCB k)"
    by (rule vTaskRemoveFromUnorderedEventList_inv [OF assms]) blast
  have "bits_woken {t} ?v k k'" using k' unfolding bits_woken_def by (intro conjI) simp_all
  with k'(1) show ?thesis by (rule that)
qed

lemma more_evg:
  fixes k k' :: "'a evg_scheme"
  assumes "sched.more k' = sched.more k"
  shows "groups k' = groups k"
  using assms by (cases k, cases k', simp)

abbreviation "woken_value bits \<equiv> bits OR eventUNBLOCKED_DUE_TO_BIT_SET OR taskEVENT_LIST_ITEM_VALUE_IN_USE"

lemma set_bits_loop_spec:
  fixes s :: "'a evg_scheme"
  assumes "sched_inv s" "uxSchedulerSuspended s \<noteq> 0" "waiting_list l" "distinct ts"
    "\<And>t. t \<in> set ts \<Longrightarrow> container s (EventItem t) = Some l"
  shows "\<exists>s'. set_bits_loop g (map EventItem ts) c s =
      Some (c OR cleared (uxEventBits (groups s g)) (map (\<lambda>t. liValue (lists s) (EventItem t)) ts), s') \<and>
    bits_woken {t \<in> set ts. wait_met (uxEventBits (groups s g)) (liValue (lists s) (EventItem t))}
      (woken_value (uxEventBits (groups s g))) s s'"
  using assms
proof (induction ts arbitrary: c s)
  case Nil
  then show ?case by (simp add: bits_woken_refl)
next
  case (Cons t ts)
  let ?b = "uxEventBits (groups s g)" and ?v = "\<lambda>t. liValue (lists s) (EventItem t)"
  show ?case
  proof (cases "wait_met ?b (?v t)")
    case False
    then have "{u \<in> set (t # ts). wait_met ?b (?v u)} = {u \<in> set ts. wait_met ?b (?v u)}" by auto
    then show ?thesis using Cons.IH [OF Cons.prems(1-3), of c] Cons.prems(4,5) False by (simp add: set_bits_loop_Cons)
  next
    case True
    let ?c = "c OR (if ?v t AND eventCLEAR_EVENTS_ON_EXIT_BIT \<noteq> 0 then waited_for (?v t) else 0)"
    have ct: "container s (EventItem t) = Some l" using Cons.prems(5) by simp
    obtain s1 where s1: "vTaskRemoveFromUnorderedEventList (EventItem t) (?b OR eventUNBLOCKED_DUE_TO_BIT_SET) s = Some s1"
      "bits_woken {t} (woken_value ?b) s s1"
      by (rule wake_one_for_bits [OF Cons.prems(1) ct Cons.prems(3,2), of "?b OR eventUNBLOCKED_DUE_TO_BIT_SET"])
        (simp add: or.assoc)
    note w = s1(2) [unfolded bits_woken_def]
    have g1: "groups s1 = groups s" using w by (intro more_evg) simp
    have v1: "liValue (lists s1) (EventItem u) = ?v u" "container s1 (EventItem u) = Some l" if "u \<in> set ts" for u
      using w that Cons.prems(4,5) by auto
    have "\<exists>s'. set_bits_loop g (map EventItem ts) ?c s1 = Some (?c OR cleared ?b (map ?v ts), s') \<and>
        bits_woken {u \<in> set ts. wait_met ?b (?v u)} (woken_value ?b) s1 s'"
      using Cons.IH [of s1 ?c] w Cons.prems v1 g1 by (simp cong: conj_cong map_cong)
    then obtain s' where s': "set_bits_loop g (map EventItem ts) ?c s1 = Some (?c OR cleared ?b (map ?v ts), s')"
      "bits_woken {u \<in> set ts. wait_met ?b (?v u)} (woken_value ?b) s1 s'" by blast
    have "{t} \<union> {u \<in> set ts. wait_met ?b (?v u)} = {u \<in> set (t # ts). wait_met ?b (?v u)}" using True by auto
    then have "bits_woken {u \<in> set (t # ts). wait_met ?b (?v u)} (woken_value ?b) s s'"
      using bits_woken_trans [OF s1(2) s'(2)] by simp
    moreover have "set_bits_loop g (map EventItem (t # ts)) c s = Some (c OR cleared ?b (map ?v (t # ts)), s')"
      using s1(1) s'(1) True by (simp add: set_bits_loop_Cons or.assoc Let_def)
    ultimately show ?thesis by blast
  qed
qed


section \<open>Setting bits\<close>

lemma upd_group_simps [simp]:
  "lists (upd_group g f s) = lists s" "tcb (upd_group g f s) = tcb s" "pxCurrentTCB (upd_group g f s) = pxCurrentTCB s"
  "uxSchedulerSuspended (upd_group g f s) = uxSchedulerSuspended s" "xPendedTicks (upd_group g f s) = xPendedTicks s"
  "uxCurrentNumberOfTasks (upd_group g f s) = uxCurrentNumberOfTasks s" "xTickCount (upd_group g f s) = xTickCount s"
  "xYieldPending (upd_group g f s) = xYieldPending s" "pendSV (upd_group g f s) = pendSV s"
  "core_inv X strict (upd_group g f s) = core_inv X strict s"
  "groups (upd_group g f s) = (groups s)(g := f (groups s g))"
  by (simp_all add: upd_group_def core_inv_def blocked_def)

lemma waiters_of:
  assumes "sched_inv k" "waiting_list l"
  obtains ts where "items k l = map EventItem ts" "distinct ts" "\<And>t. t \<in> set ts \<longleftrightarrow> container k (EventItem t) = Some l"
proof -
  note D = core_invD [OF assms(1)]
  have "i \<in> range EventItem" if "i \<in> set (items k l)" for i
    using D(2) [of i l] lists_ok_mem [OF D(1), of i l] that waiting_listD [OF assms(2)] by (cases i) auto
  then obtain ts where ts: "items k l = map EventItem ts" using ex_map_conv [of "items k l" EventItem] by blast
  have "distinct (items k l)" using D(1) by (simp add: lists_ok_def ls_wf_def)
  then have "distinct ts" using ts by (simp add: distinct_map)
  moreover have "t \<in> set ts \<longleftrightarrow> container k (EventItem t) = Some l" for t
    using lists_ok_mem [OF D(1), of "EventItem t" l] ts by auto
  ultimately show ?thesis by (intro that [OF ts])
qed

lemma xEventGroupSetBits_spec:
  fixes s :: "'a evg_scheme" and g b
  defines "l \<equiv> xTasksWaitingForBits g" and "new \<equiv> uxEventBits (groups s g) OR b"
  assumes inv: "sched_inv s" and st: "uxSchedulerSuspended s = 0" "xPendedTicks s = 0" "0 < uxCurrentNumberOfTasks s"
    and g: "g \<noteq> 0" "b AND eventEVENT_BITS_CONTROL_BYTES = 0"
  obtains s' ts where "xEventGroupSetBits g b s = Some (new AND NOT (cleared new (map (\<lambda>t. liValue (lists s) (EventItem t)) ts)), s')"
    "\<And>t. t \<in> set ts \<longleftrightarrow> container s (EventItem t) = Some l" "sched_inv s'"
    "groups s' = (groups s)(g := (groups s g)\<lparr>uxEventBits := new AND NOT (cleared new (map (\<lambda>t. liValue (lists s) (EventItem t)) ts))\<rparr>)"
    "\<And>t. t \<in> set ts \<Longrightarrow> wait_met new (liValue (lists s) (EventItem t)) \<Longrightarrow>
       container s' (StateItem t) = Some (pxReadyTasksLists (prio s t)) \<and> container s' (EventItem t) = None \<and>
       liValue (lists s') (EventItem t) = woken_value new \<and> (prio s t > prio s (pxCurrentTCB s) \<longrightarrow> pendSV s')"
    "\<And>t. t \<in> set ts \<Longrightarrow> \<not> wait_met new (liValue (lists s) (EventItem t)) \<Longrightarrow>
       container s' (StateItem t) = container s (StateItem t) \<and> container s' (EventItem t) = Some l \<and>
       liValue (lists s') (EventItem t) = liValue (lists s) (EventItem t)"
    "tcb s' = tcb s" "pxCurrentTCB s' = pxCurrentTCB s" "uxSchedulerSuspended s' = 0" "xPendedTicks s' = 0"
proof -
  have wl: "waiting_list l" by (simp add: l_def)
  define s0 where "s0 = upd_group g (\<lambda>x. x\<lparr>uxEventBits := uxEventBits x OR b\<rparr>) (vTaskSuspendAll s)"
  have s0: "sched_inv s0" "uxSchedulerSuspended s0 = Suc 0" "lists s0 = lists s" "tcb s0 = tcb s" "pxCurrentTCB s0 = pxCurrentTCB s"
    "xPendedTicks s0 = 0" "uxCurrentNumberOfTasks s0 = uxCurrentNumberOfTasks s" "xYieldPending s0 = xYieldPending s"
    "groups s0 = (groups s)(g := (groups s g)\<lparr>uxEventBits := new\<rparr>)"
    using inv st by (simp_all add: s0_def vTaskSuspendAll_def new_def)
  obtain ts where ts: "items s l = map EventItem ts" "distinct ts" "\<forall>t. t \<in> set ts \<longleftrightarrow> container s (EventItem t) = Some l"
    by (rule waiters_of [OF inv wl]) blast
  let ?v = "\<lambda>t. liValue (lists s) (EventItem t)" and ?T = "{t \<in> set ts. wait_met new (liValue (lists s) (EventItem t))}"
  define cl where "cl = cleared new (map ?v ts)"
  obtain s1 where s1: "set_bits_loop g (map EventItem ts) 0 s0 = Some (cl, s1)" "bits_woken ?T (woken_value new) s0 s1"
    using set_bits_loop_spec [OF s0(1) _ wl ts(2), of g 0] s0 ts(3) by (auto simp: cl_def)
  note W = s1(2) [unfolded bits_woken_def]
  have g1: "groups s1 = groups s0" using W by (intro more_evg) simp
  define s2 where "s2 = clear_bits g cl s1"
  have s2: "sched_inv s2" "uxSchedulerSuspended s2 = Suc 0" "0 < uxCurrentNumberOfTasks s2" "xPendedTicks s2 = 0"
    "lists s2 = lists s1" "tcb s2 = tcb s" "pxCurrentTCB s2 = pxCurrentTCB s"
    "groups s2 = (groups s)(g := (groups s g)\<lparr>uxEventBits := new AND NOT cl\<rparr>)" "xYieldPending s2 = xYieldPending s1"
    using W s0 st(3) g1 by (simp_all add: s2_def clear_bits_def)
  obtain y s' where s': "xTaskResumeAll s2 = Some (y, s')" "sched_inv s'" "resume_frame s2 s'" "uxSchedulerSuspended s' = 0"
    "xPendedTicks s' = 0" "pendSV s' \<longleftrightarrow> y \<or> pendSV s2" "xYieldPending s2 \<longrightarrow> y"
    "\<forall>t. container s2 (EventItem t) \<noteq> Some xPendingReadyList \<longrightarrow>
       container s' (StateItem t) = container s2 (StateItem t) \<and> container s' (EventItem t) = container s2 (EventItem t)"
    by (rule xTaskResumeAll_inv [OF s2(1-3)]) (use s2(4) in blast)
  have f: "tcb s' = tcb s" "pxCurrentTCB s' = pxCurrentTCB s" "liValue (lists s') = liValue (lists s1)" "sched.more s' = sched.more s2"
    using s'(3) s2 by (simp_all add: resume_frame_def)
  have g': "groups s' = groups s2" by (rule more_evg [OF f(4)])
  have "lists (vTaskSuspendAll s) = lists s" by (simp add: vTaskSuspendAll_def)
  then have eq: "xEventGroupSetBits g b s = Some (new AND NOT cl, s')"
    using g s1(1) s'(1) s2(8) ts(1)
    by (simp add: xEventGroupSetBits_def s0_def [symmetric] s2_def [symmetric] l_def Let_def)
  have c': "container s' (StateItem t) = container s1 (StateItem t) \<and> container s' (EventItem t) = container s1 (EventItem t)"
    if "t \<in> set ts" for t
    using s'(8) W that ts(3) s0(3) s2(5) by (auto simp: l_def)
  show ?thesis
  proof (rule that [of ts s'])
    fix t assume t: "t \<in> set ts"
    show "container s' (StateItem t) = Some (pxReadyTasksLists (prio s t)) \<and> container s' (EventItem t) = None \<and>
       liValue (lists s') (EventItem t) = woken_value new \<and> (prio s t > prio s (pxCurrentTCB s) \<longrightarrow> pendSV s')"
      if "wait_met new (liValue (lists s) (EventItem t))"
      using c' [OF t] W t that f s0 s'(6,7) s2(9) by auto
    show "container s' (StateItem t) = container s (StateItem t) \<and> container s' (EventItem t) = Some l \<and>
       liValue (lists s') (EventItem t) = liValue (lists s) (EventItem t)"
      if "\<not> wait_met new (liValue (lists s) (EventItem t))"
      using c' [OF t] W t that f s0 ts(3) by auto
  qed (use eq ts(3) s' g' s2(8) f in \<open>simp_all add: cl_def\<close>)
qed


text \<open>
  C22: Setting bits wakes exactly the tasks whose condition has become true. \<^verbatim>\<open>xEventGroupSetBits\<close>
  returns; every task waiting for the group whose condition (any of its bits, or all of them) holds of
  the new bits is made ready, told the new bits, and preempts the caller if its priority is higher; every other waiting
  task stays as it was. A bit of the group is set afterwards, and in the result, just if it was
  set before or by the call and no woken task has asked to clear it. The other groups are not touched.
\<close>

theorem set_bits_wakes_satisfied:
  fixes s :: "'a evg_scheme" and g b
  defines "new \<equiv> uxEventBits (groups s g) OR b" and "v \<equiv> \<lambda>t. liValue (lists s) (EventItem t)"
  assumes s: "sched_inv s" "uxSchedulerSuspended s = 0" "xPendedTicks s = 0" "0 < uxCurrentNumberOfTasks s"
    and g: "g \<noteq> 0" "b AND eventEVENT_BITS_CONTROL_BYTES = 0"
  shows "\<exists>r s'. xEventGroupSetBits g b s = Some (r, s') \<and> sched_inv s' \<and> uxEventBits (groups s' g) = r \<and>
    (\<forall>h. h \<noteq> g \<longrightarrow> groups s' h = groups s h) \<and>
    (\<forall>n. bit r n \<longleftrightarrow> (bit (uxEventBits (groups s g)) n \<or> bit b n) \<and>
       \<not> (\<exists>t. container s (EventItem t) = Some (xTasksWaitingForBits g) \<and> wait_met new (v t) \<and>
            v t AND eventCLEAR_EVENTS_ON_EXIT_BIT \<noteq> 0 \<and> bit (waited_for (v t)) n)) \<and>
    (\<forall>t. container s (EventItem t) = Some (xTasksWaitingForBits g) \<longrightarrow>
       (if wait_met new (v t) then
          container s' (StateItem t) = Some (pxReadyTasksLists (prio s t)) \<and> container s' (EventItem t) = None \<and>
          liValue (lists s') (EventItem t) = woken_value new \<and> (prio s t > prio s (pxCurrentTCB s) \<longrightarrow> pendSV s')
        else container s' (StateItem t) = container s (StateItem t) \<and>
          container s' (EventItem t) = Some (xTasksWaitingForBits g) \<and> liValue (lists s') (EventItem t) = v t))"
proof -
  obtain s' ts where s': "xEventGroupSetBits g b s = Some (new AND NOT (cleared new (map v ts)), s')" "sched_inv s'"
    "\<forall>t. t \<in> set ts \<longleftrightarrow> container s (EventItem t) = Some (xTasksWaitingForBits g)"
    "groups s' = (groups s)(g := (groups s g)\<lparr>uxEventBits := new AND NOT (cleared new (map v ts))\<rparr>)"
    "\<forall>t. t \<in> set ts \<longrightarrow> wait_met new (v t) \<longrightarrow>
       container s' (StateItem t) = Some (pxReadyTasksLists (prio s t)) \<and> container s' (EventItem t) = None \<and>
       liValue (lists s') (EventItem t) = woken_value new \<and> (prio s t > prio s (pxCurrentTCB s) \<longrightarrow> pendSV s')"
    "\<forall>t. t \<in> set ts \<longrightarrow> \<not> wait_met new (v t) \<longrightarrow>
       container s' (StateItem t) = container s (StateItem t) \<and> container s' (EventItem t) = Some (xTasksWaitingForBits g) \<and>
       liValue (lists s') (EventItem t) = v t"
    unfolding new_def v_def by (rule xEventGroupSetBits_spec [OF s g]) blast
  let ?r = "new AND NOT (cleared new (map v ts))"
  have bits: "bit ?r n \<longleftrightarrow> (bit (uxEventBits (groups s g)) n \<or> bit b n) \<and>
     \<not> (\<exists>t. container s (EventItem t) = Some (xTasksWaitingForBits g) \<and> wait_met new (v t) \<and>
          v t AND eventCLEAR_EVENTS_ON_EXIT_BIT \<noteq> 0 \<and> bit (waited_for (v t)) n)" for n
  proof -
    have "bit new n \<Longrightarrow> n < 32" using bit_imp_le_length [of new n] by simp
    then have "bit ?r n \<longleftrightarrow> bit new n \<and> \<not> bit (cleared new (map v ts)) n" by (auto simp: bit_simps)
    moreover have "bit new n \<longleftrightarrow> bit (uxEventBits (groups s g)) n \<or> bit b n" by (simp add: new_def bit_simps)
    ultimately show ?thesis using s'(3) by (auto simp: bit_cleared)
  qed
  show ?thesis
    by (intro exI [of _ ?r] exI [of _ s'] conjI allI impI bits) (use s' in auto)
qed

section \<open>Waiting for bits\<close>

lemma event_masks:
  "eventUNBLOCKED_DUE_TO_BIT_SET AND eventEVENT_BITS_CONTROL_BYTES = eventUNBLOCKED_DUE_TO_BIT_SET"
  "taskEVENT_LIST_ITEM_VALUE_IN_USE AND eventEVENT_BITS_CONTROL_BYTES = taskEVENT_LIST_ITEM_VALUE_IN_USE"
  "eventCLEAR_EVENTS_ON_EXIT_BIT AND eventEVENT_BITS_CONTROL_BYTES = eventCLEAR_EVENTS_ON_EXIT_BIT"
  "eventWAIT_FOR_ALL_BITS AND eventEVENT_BITS_CONTROL_BYTES = eventWAIT_FOR_ALL_BITS"
  "taskEVENT_LIST_ITEM_VALUE_IN_USE AND eventUNBLOCKED_DUE_TO_BIT_SET = 0"
  by (simp_all add: eventUNBLOCKED_DUE_TO_BIT_SET_def eventEVENT_BITS_CONTROL_BYTES_def taskEVENT_LIST_ITEM_VALUE_IN_USE_def
      eventCLEAR_EVENTS_ON_EXIT_BIT_def eventWAIT_FOR_ALL_BITS_def)

definition wait_value :: "u32 \<Rightarrow> bool \<Rightarrow> bool \<Rightarrow> u32" where
  "wait_value want clear all = want OR
     ((if clear then eventCLEAR_EVENTS_ON_EXIT_BIT else 0) OR (if all then eventWAIT_FOR_ALL_BITS else 0)) OR
     taskEVENT_LIST_ITEM_VALUE_IN_USE"

lemma control_free:
  fixes want m :: u32
  assumes "want AND eventEVENT_BITS_CONTROL_BYTES = 0" "m AND eventEVENT_BITS_CONTROL_BYTES = m"
  shows "want AND m = 0" "want AND NOT m = want" "m AND NOT eventEVENT_BITS_CONTROL_BYTES = 0"
proof -
  have "want AND m = (want AND eventEVENT_BITS_CONTROL_BYTES) AND m"
    unfolding and.assoc and.commute [of eventEVENT_BITS_CONTROL_BYTES] assms(2) ..
  then show a: "want AND m = 0" by (simp add: assms(1))
  have "\<not> (bit want n \<and> bit m n)" for n using a by (metis bit_0_eq bit_and_iff bot_apply bot_bool_def)
  then show "want AND NOT m = want" by (intro bit_eqI) (auto simp: bit_simps)
  have "m AND NOT eventEVENT_BITS_CONTROL_BYTES = (m AND eventEVENT_BITS_CONTROL_BYTES) AND NOT eventEVENT_BITS_CONTROL_BYTES"
    unfolding assms(2) ..
  then show "m AND NOT eventEVENT_BITS_CONTROL_BYTES = 0" by (simp add: and.assoc)
qed

lemma wait_value_read:
  assumes w: "want AND eventEVENT_BITS_CONTROL_BYTES = 0"
  shows "waited_for (wait_value want clear all) = want"
    "wait_value want clear all AND eventWAIT_FOR_ALL_BITS \<noteq> 0 \<longleftrightarrow> all"
    "wait_value want clear all AND eventCLEAR_EVENTS_ON_EXIT_BIT \<noteq> 0 \<longleftrightarrow> clear"
    "wait_value want clear all AND eventUNBLOCKED_DUE_TO_BIT_SET = 0"
    "wait_met bits (wait_value want clear all) \<longleftrightarrow> prvTestWaitCondition bits want all"
proof -
  note masks = eventCLEAR_EVENTS_ON_EXIT_BIT_def eventWAIT_FOR_ALL_BITS_def eventUNBLOCKED_DUE_TO_BIT_SET_def
    taskEVENT_LIST_ITEM_VALUE_IN_USE_def
  have n: "want AND NOT eventEVENT_BITS_CONTROL_BYTES = want" by (rule control_free(2) [OF w]) simp
  show 1: "waited_for (wait_value want clear all) = want"
    unfolding waited_for_def wait_value_def bit.conj_disj_distrib2 n
    using control_free(3) [OF w event_masks(3)] control_free(3) [OF w event_masks(4)] control_free(3) [OF w event_masks(2)]
    by simp
  show 2: "wait_value want clear all AND eventWAIT_FOR_ALL_BITS \<noteq> 0 \<longleftrightarrow> all"
    unfolding wait_value_def bit.conj_disj_distrib2 control_free(1) [OF w event_masks(4)] by (simp add: masks)
  show "wait_value want clear all AND eventCLEAR_EVENTS_ON_EXIT_BIT \<noteq> 0 \<longleftrightarrow> clear"
    unfolding wait_value_def bit.conj_disj_distrib2 control_free(1) [OF w event_masks(3)] by (simp add: masks)
  show "wait_value want clear all AND eventUNBLOCKED_DUE_TO_BIT_SET = 0"
    unfolding wait_value_def bit.conj_disj_distrib2 control_free(1) [OF w event_masks(1)] by (simp add: masks)
  show "wait_met bits (wait_value want clear all) \<longleftrightarrow> prvTestWaitCondition bits want all"
    by (simp only: wait_met_def 1 2)
qed

text \<open>A task whose condition does not hold yet goes to wait.\<close>

lemma xEventGroupWaitBits_enter_waits:
  fixes s :: "'a evg_scheme"
  assumes inv: "sched_inv s" and rr: "running_ready s" and st: "uxSchedulerSuspended s = 0" "xPendedTicks s = 0"
      "0 < uxCurrentNumberOfTasks s"
    and g: "g \<noteq> 0" "want AND eventEVENT_BITS_CONTROL_BYTES = 0" "want \<noteq> 0" "w \<noteq> 0"
    and no: "\<not> prvTestWaitCondition (uxEventBits (groups s g)) want all"
  obtains s' where "xEventGroupWaitBits_enter g want clear all w s = Some (Wait_Bits, s')" "sched_inv s'"
    "container s' (EventItem (pxCurrentTCB s)) = Some (xTasksWaitingForBits g)"
    "liValue (lists s') (EventItem (pxCurrentTCB s)) = wait_value want clear all" "groups s' = groups s"
    "\<And>t. t \<noteq> pxCurrentTCB s \<Longrightarrow> container s (EventItem t) \<noteq> Some xPendingReadyList \<Longrightarrow>
       container s' (StateItem t) = container s (StateItem t) \<and> container s' (EventItem t) = container s (EventItem t)"
    "prio s' = prio s" "pxCurrentTCB s' = pxCurrentTCB s" "uxSchedulerSuspended s' = 0" "xPendedTicks s' = 0"
    "uxCurrentNumberOfTasks s' = uxCurrentNumberOfTasks s" "pendSV s'" "blocked s' (pxCurrentTCB s)"
    "w \<noteq> portMAX_DELAY \<Longrightarrow> delayed s' (pxCurrentTCB s) \<and> left_to_wait s' (pxCurrentTCB s) = unat w"
proof -
  let ?c = "pxCurrentTCB s" and ?l = "xTasksWaitingForBits g"
  let ?u = "want OR ((if clear then eventCLEAR_EVENTS_ON_EXIT_BIT else 0) OR (if all then eventWAIT_FOR_ALL_BITS else 0))"
  define s0 where "s0 = vTaskSuspendAll s"
  have s0: "sched_inv s0" "running_ready s0" "uxSchedulerSuspended s0 = Suc 0" "lists s0 = lists s" "tcb s0 = tcb s"
    "pxCurrentTCB s0 = ?c" "xPendedTicks s0 = 0" "uxCurrentNumberOfTasks s0 = uxCurrentNumberOfTasks s" "groups s0 = groups s"
    using inv rr st by (simp_all add: s0_def vTaskSuspendAll_def running_ready_def)
  have su: "uxSchedulerSuspended s0 \<noteq> 0" "waiting_list ?l" using s0 by simp_all
  obtain s1 where s1: "vTaskPlaceOnUnorderedEventList ?l ?u w s0 = Some s1" "sched_inv s1"
    "tcb s1 = (tcb s0)(?c := (tcb s0 ?c)\<lparr>ucDelayAborted := False\<rparr>)" "pxCurrentTCB s1 = ?c"
    "uxSchedulerSuspended s1 = Suc 0" "xPendedTicks s1 = 0" "uxCurrentNumberOfTasks s1 = uxCurrentNumberOfTasks s"
    "sched.more s1 = sched.more s0" "container s1 (EventItem ?c) = Some ?l"
    "liValue (lists s1) (EventItem ?c) = ?u OR taskEVENT_LIST_ITEM_VALUE_IN_USE"
    "\<forall>j. owner j \<noteq> ?c \<longrightarrow> container s1 j = container s j \<and> liValue (lists s1) j = liValue (lists s) j"
    "w \<noteq> portMAX_DELAY \<longrightarrow> delayed s1 ?c \<and> wake s1 ?c = xTickCount s0 + w" "xTickCount s1 = xTickCount s0"
    by (rule vTaskPlaceOnUnorderedEventList_inv [OF s0(1,2) su(2) g(4) su(1), of ?u, unfolded s0(3,4,6-8)]) blast
  obtain y s2 where s2: "xTaskResumeAll s1 = Some (y, s2)" "sched_inv s2" "resume_frame s1 s2" "uxSchedulerSuspended s2 = 0"
    "xPendedTicks s2 = 0" "pendSV s2 \<longleftrightarrow> y \<or> pendSV s1"
    "\<forall>t. container s1 (EventItem t) \<noteq> Some xPendingReadyList \<longrightarrow>
       container s2 (StateItem t) = container s1 (StateItem t) \<and> container s2 (EventItem t) = container s1 (EventItem t)"
    by (rule xTaskResumeAll_inv [OF s1(2)]) (use s1(5-7) st(3) in auto)
  note F = s2(3) [unfolded resume_frame_def]
  define s' where "s' = (if y then s2 else portYIELD s2)"
  have mb: "may_block w s" using st(1) by (simp add: may_block_def xTaskGetSchedulerState_def)
  have eq: "xEventGroupWaitBits_enter g want clear all w s = Some (Wait_Bits, s')"
    unfolding xEventGroupWaitBits_enter_def wait_asserts_def resume_and_yield_def Let_def s0_def [symmetric]
    using g mb no s0(9) s1(1) s2(1) by (simp add: s'_def)
  have same: "lists s' = lists s2" "tcb s' = tcb s2" "sched_inv s'" "pxCurrentTCB s' = pxCurrentTCB s2" "uxSchedulerSuspended s' = 0"
    "xPendedTicks s' = 0" "uxCurrentNumberOfTasks s' = uxCurrentNumberOfTasks s2" "sched.more s' = sched.more s2" "pendSV s'"
    using s2 by (simp_all add: s'_def portYIELD_def)
  have gs: "groups s' = groups s"
    using more_evg [of s' s0] same(8) F s1(8) s0(9) by simp
  have ticks: "xTickCount s' = xTickCount s1"
    using resume_clock [OF s2(1) s1(6)] by (simp add: s'_def portYIELD_def same_clock_def)
  show ?thesis
  proof (rule that [OF eq same(3)])
    show c: "container s' (EventItem ?c) = Some ?l" using same s2(7) s1(9) by simp
    then show "blocked s' ?c" using core_invD(11) [OF same(3)] by simp
    show "liValue (lists s') (EventItem ?c) = wait_value want clear all"
      using same F s1(10) by (simp add: wait_value_def or.assoc)
    show "container s' (StateItem t) = container s (StateItem t) \<and> container s' (EventItem t) = container s (EventItem t)"
      if "t \<noteq> ?c" "container s (EventItem t) \<noteq> Some xPendingReadyList" for t using that same(1) s2(7) s1(11) by simp
    show "prio s' = prio s" using same F s1(3) s0(5) by auto
    show "delayed s' ?c \<and> left_to_wait s' ?c = unat w" if "w \<noteq> portMAX_DELAY"
      using s1(12,13) that same(1) s2(7) s1(9) F ticks by (simp add: delayed_def left_to_wait_def)
  qed (use gs same F s1 in simp_all)
qed


text \<open>What the waiting task reads when it runs again: told the bits by a setter, or woken by the tick.\<close>

lemma xEventGroupWaitBits_exit_told:
  assumes "bits AND eventEVENT_BITS_CONTROL_BYTES = 0" "liValue (lists s) (EventItem (pxCurrentTCB s)) = woken_value bits"
  shows "fst (xEventGroupWaitBits_exit g want clear all s) = bits"
    "groups (snd (xEventGroupWaitBits_exit g want clear all s)) = groups s"
proof -
  have n: "bits AND NOT eventEVENT_BITS_CONTROL_BYTES = bits" by (rule control_free(2) [OF assms(1)]) simp
  have "woken_value bits AND NOT eventEVENT_BITS_CONTROL_BYTES = bits"
    unfolding bit.conj_disj_distrib2 n
    using control_free(3) [OF assms(1) event_masks(1)] control_free(3) [OF assms(1) event_masks(2)] by simp
  moreover have "woken_value bits AND eventUNBLOCKED_DUE_TO_BIT_SET \<noteq> 0"
    unfolding bit.conj_disj_distrib2 control_free(1) [OF assms(1) event_masks(1)] event_masks(5)
    by (simp add: eventUNBLOCKED_DUE_TO_BIT_SET_def)
  ultimately show "fst (xEventGroupWaitBits_exit g want clear all s) = bits"
    "groups (snd (xEventGroupWaitBits_exit g want clear all s)) = groups s"
    using assms(2) by (simp_all add: xEventGroupWaitBits_exit_def uxTaskResetEventItemValue_def upd_lists_def Let_def)
qed

lemma xEventGroupWaitBits_exit_timeout:
  assumes "want AND eventEVENT_BITS_CONTROL_BYTES = 0" "uxEventBits (groups s g) AND eventEVENT_BITS_CONTROL_BYTES = 0"
    "liValue (lists s) (EventItem (pxCurrentTCB s)) = wait_value want clear all"
    "\<not> prvTestWaitCondition (uxEventBits (groups s g)) want all"
  shows "fst (xEventGroupWaitBits_exit g want clear all s) = uxEventBits (groups s g)"
    "groups (snd (xEventGroupWaitBits_exit g want clear all s)) = groups s"
proof -
  have "uxEventBits (groups s g) AND NOT eventEVENT_BITS_CONTROL_BYTES = uxEventBits (groups s g)"
    by (rule control_free(2) [OF assms(2)]) simp
  then show "fst (xEventGroupWaitBits_exit g want clear all s) = uxEventBits (groups s g)"
    "groups (snd (xEventGroupWaitBits_exit g want clear all s)) = groups s"
    using wait_value_read(4) [OF assms(1), of clear all] assms(3,4)
    by (simp_all add: xEventGroupWaitBits_exit_def uxTaskResetEventItemValue_def upd_lists_def Let_def)
qed

text \<open>
  The waiting task when nobody answers: it is ready again after exactly the time it asked for and no
  earlier, and its call returns the bits as they are.
\<close>

lemma event_wait_times_out:
  fixes s :: "'a evg_scheme"
  assumes s1: "sched_inv s1" "uxSchedulerSuspended s1 = 0" "delayed s1 c" "left_to_wait s1 c = unat w" "w \<noteq> 0"
    "liValue (lists s1) (EventItem c) = wait_value want clear all" "container s1 (StateItem v) = Some (pxReadyTasksLists p)"
    and g: "want AND eventEVENT_BITS_CONTROL_BYTES = 0" "uxEventBits (groups s1 g) AND eventEVENT_BITS_CONTROL_BYTES = 0"
      "\<not> prvTestWaitCondition (uxEventBits (groups s1 g)) want all"
  obtains s2 s3 where "vTaskSwitchContext s1 = Some s2" "pxCurrentTCB s2 \<noteq> c"
    "\<And>m. m < unat w \<Longrightarrow> \<exists>s'. ticks m s2 = Some s' \<and> delayed s' c" "ticks (unat w) s2 = Some s3" "sched_inv s3"
    "container s3 (StateItem c) = Some (pxReadyTasksLists (prio s1 c))"
    "fst (xEventGroupWaitBits_exit g want clear all (s3\<lparr>pxCurrentTCB := c\<rparr>)) = uxEventBits (groups s1 g)"
    "groups (snd (xEventGroupWaitBits_exit g want clear all (s3\<lparr>pxCurrentTCB := c\<rparr>))) = groups s1"
proof -
  obtain t2 s2 where s2: "vTaskSwitchContext s1 = Some s2" "s2 = s1\<lparr>xYieldPending := False, lists := lists s2, pxCurrentTCB := t2\<rparr>"
    "sched_inv s2" "running_ready s2" "\<forall>i. container s2 i = container s1 i" "liValue (lists s2) = liValue (lists s1)"
    by (rule vTaskSwitchContext_inv [OF s1(1,2,7)]) blast
  have f2: "tcb s2 = tcb s1" "uxSchedulerSuspended s2 = 0" "pxCurrentTCB s2 = t2" "groups s2 = groups s1" "xTickCount s2 = xTickCount s1"
    by (subst s2(2), use s1(2) in simp)+
  have ne: "t2 \<noteq> c" using s2(4,5) f2(1,3) s1(3) by (auto simp: running_ready_def delayed_def)
  have d2: "delayed s2 c" "left_to_wait s2 c = unat w"
    using s1(3,4) s2(5,6) f2(5) by (simp_all add: delayed_def left_to_wait_def)
  obtain m where m: "unat w = Suc m" using s1(5) by (cases "unat w") (auto simp: unat_eq_zero)
  obtain s3 where s3: "ticks (unat w) s2 = Some s3" "sched_inv s3" "tick_frame s2 s3"
    by (rule ticks_run [OF s2(3) f2(2), of "unat w"]) blast
  have rd: "container s3 (StateItem c) = Some (pxReadyTasksLists (prio s1 c))"
    using ticks_wait(2) [OF s2(3) f2(2) d2(1), of m] d2(2) m s3(1) f2(1) by simp
  have f3: "groups s3 = groups s1" "liValue (lists s3) = liValue (lists s1)"
    using s3(3) s2(6) f2(4) more_evg [of s3 s2] by (simp_all add: tick_frame_def)
  have "fst (xEventGroupWaitBits_exit g want clear all (s3\<lparr>pxCurrentTCB := c\<rparr>)) = uxEventBits (groups s1 g)"
    "groups (snd (xEventGroupWaitBits_exit g want clear all (s3\<lparr>pxCurrentTCB := c\<rparr>))) = groups s1"
    using xEventGroupWaitBits_exit_timeout [OF g(1), of "s3\<lparr>pxCurrentTCB := c\<rparr>" g clear all] g(2,3) s1(6) f3 by simp_all
  then show ?thesis
    by (intro that [OF s2(1)]) (use ne f2(3) ticks_wait(1) [OF s2(3) f2(2) d2(1)] d2(2) s3 rd in simp_all)
qed

text \<open>
  C23: A task that waits for bits gets them. When its condition does not hold, \<^verbatim>\<open>xEventGroupWaitBits\<close> blocks
  the task. If another task then sets bits that make the condition true, the waiting task is made ready and, when it runs
  again, its call returns the bits of the moment they were set; with clear-on-exit the bits it has
  waited for are clear in the group. If nobody sets bits and the wait is finite, another ready task
  takes over, the waiting task stays delayed for any smaller number of ticks, after exactly the given
  number of ticks it is ready, and when it runs again its call returns the bits as they are, on which
  the condition fails, and clears none.
\<close>

theorem event_wait_returns_bits:
  fixes s :: "'a evg_scheme"
  assumes s: "sched_inv s" "running_ready s" "uxSchedulerSuspended s = 0" "xPendedTicks s = 0" "0 < uxCurrentNumberOfTasks s"
    and g: "g \<noteq> 0" "want AND eventEVENT_BITS_CONTROL_BYTES = 0" "want \<noteq> 0" "w \<noteq> 0"
      "uxEventBits (groups s g) AND eventEVENT_BITS_CONTROL_BYTES = 0"
    and no: "\<not> prvTestWaitCondition (uxEventBits (groups s g)) want all"
    and b: "b AND eventEVENT_BITS_CONTROL_BYTES = 0" "prvTestWaitCondition (uxEventBits (groups s g) OR b) want all"
  shows "\<exists>s1 r s2. xEventGroupWaitBits_enter g want clear all w s = Some (Wait_Bits, s1) \<and> blocked s1 (pxCurrentTCB s) \<and> pendSV s1 \<and>
    xEventGroupSetBits g b (s1\<lparr>pxCurrentTCB := u\<rparr>) = Some (r, s2) \<and> sched_inv s2 \<and>
    container s2 (StateItem (pxCurrentTCB s)) = Some (pxReadyTasksLists (prio s (pxCurrentTCB s))) \<and>
    fst (xEventGroupWaitBits_exit g want clear all (s2\<lparr>pxCurrentTCB := pxCurrentTCB s\<rparr>)) = uxEventBits (groups s g) OR b \<and>
    groups (snd (xEventGroupWaitBits_exit g want clear all (s2\<lparr>pxCurrentTCB := pxCurrentTCB s\<rparr>))) = groups s2 \<and>
    (clear \<longrightarrow> uxEventBits (groups s2 g) AND want = 0) \<and>
    (w \<noteq> portMAX_DELAY \<and> v \<noteq> pxCurrentTCB s \<and> container s (StateItem v) = Some (pxReadyTasksLists p) \<longrightarrow>
      (\<exists>s3 s4. vTaskSwitchContext s1 = Some s3 \<and> pxCurrentTCB s3 \<noteq> pxCurrentTCB s \<and>
        (\<forall>m < unat w. \<exists>s'. ticks m s3 = Some s' \<and> delayed s' (pxCurrentTCB s)) \<and> ticks (unat w) s3 = Some s4 \<and> sched_inv s4 \<and>
        container s4 (StateItem (pxCurrentTCB s)) = Some (pxReadyTasksLists (prio s (pxCurrentTCB s))) \<and>
        fst (xEventGroupWaitBits_exit g want clear all (s4\<lparr>pxCurrentTCB := pxCurrentTCB s\<rparr>)) = uxEventBits (groups s g) \<and>
        groups (snd (xEventGroupWaitBits_exit g want clear all (s4\<lparr>pxCurrentTCB := pxCurrentTCB s\<rparr>))) = groups s))"
proof -
  let ?c = "pxCurrentTCB s" and ?new = "uxEventBits (groups s g) OR b"
  obtain s1 where s1: "xEventGroupWaitBits_enter g want clear all w s = Some (Wait_Bits, s1)" "sched_inv s1"
    "container s1 (EventItem ?c) = Some (xTasksWaitingForBits g)" "liValue (lists s1) (EventItem ?c) = wait_value want clear all"
    "groups s1 = groups s" "prio s1 = prio s" "pxCurrentTCB s1 = ?c" "uxSchedulerSuspended s1 = 0" "xPendedTicks s1 = 0"
    "uxCurrentNumberOfTasks s1 = uxCurrentNumberOfTasks s" "pendSV s1" "blocked s1 ?c"
    "w \<noteq> portMAX_DELAY \<longrightarrow> delayed s1 ?c \<and> left_to_wait s1 ?c = unat w"
    "\<forall>t. t \<noteq> ?c \<longrightarrow> container s (EventItem t) \<noteq> Some xPendingReadyList \<longrightarrow> container s1 (StateItem t) = container s (StateItem t)"
    by (rule xEventGroupWaitBits_enter_waits [OF s g(1-4) no, of clear]) blast
  define s1u where "s1u = s1\<lparr>pxCurrentTCB := u\<rparr>"
  have u: "sched_inv s1u" "uxSchedulerSuspended s1u = 0" "xPendedTicks s1u = 0" "0 < uxCurrentNumberOfTasks s1u"
    "lists s1u = lists s1" "groups s1u = groups s" "tcb s1u = tcb s1" using s1 s(5) by (simp_all add: s1u_def)
  have c: "container s1u (EventItem ?c) = Some (xTasksWaitingForBits g)" "liValue (lists s1u) (EventItem ?c) = wait_value want clear all"
    using s1(3,4) u(5) by simp_all
  have met: "wait_met ?new (wait_value want clear all)" using wait_value_read(5) [OF g(2)] b(2) by simp
  obtain s2 ts where s2: "xEventGroupSetBits g b s1u = Some (?new AND NOT (cleared ?new (map (\<lambda>t. liValue (lists s1u) (EventItem t)) ts)), s2)"
    "sched_inv s2" "\<forall>t. t \<in> set ts \<longleftrightarrow> container s1u (EventItem t) = Some (xTasksWaitingForBits g)"
    "groups s2 = (groups s)(g := (groups s g)\<lparr>uxEventBits := ?new AND NOT (cleared ?new (map (\<lambda>t. liValue (lists s1u) (EventItem t)) ts))\<rparr>)"
    "\<forall>t. t \<in> set ts \<longrightarrow> wait_met ?new (liValue (lists s1u) (EventItem t)) \<longrightarrow>
       container s2 (StateItem t) = Some (pxReadyTasksLists (prio s1u t)) \<and> liValue (lists s2) (EventItem t) = woken_value ?new"
    by (rule xEventGroupSetBits_spec [OF u(1-4) g(1) b(1), unfolded u(6)]) blast
  have w: "container s2 (StateItem ?c) = Some (pxReadyTasksLists (prio s ?c))" "liValue (lists s2) (EventItem ?c) = woken_value ?new"
    using s2(3,5) c met s1(6) u(7) by (auto dest: fun_cong)
  have free: "?new AND eventEVENT_BITS_CONTROL_BYTES = 0" using g(5) b(1) by (simp add: bit.conj_disj_distrib2)
  have told: "fst (xEventGroupWaitBits_exit g want clear all (s2\<lparr>pxCurrentTCB := ?c\<rparr>)) = ?new"
    "groups (snd (xEventGroupWaitBits_exit g want clear all (s2\<lparr>pxCurrentTCB := ?c\<rparr>))) = groups s2"
    using xEventGroupWaitBits_exit_told [OF free, of "s2\<lparr>pxCurrentTCB := ?c\<rparr>"] w(2) by simp_all
  have late: "\<exists>s3 s4. vTaskSwitchContext s1 = Some s3 \<and> pxCurrentTCB s3 \<noteq> ?c \<and>
      (\<forall>m < unat w. \<exists>s'. ticks m s3 = Some s' \<and> delayed s' ?c) \<and> ticks (unat w) s3 = Some s4 \<and> sched_inv s4 \<and>
      container s4 (StateItem ?c) = Some (pxReadyTasksLists (prio s ?c)) \<and>
      fst (xEventGroupWaitBits_exit g want clear all (s4\<lparr>pxCurrentTCB := ?c\<rparr>)) = uxEventBits (groups s g) \<and>
      groups (snd (xEventGroupWaitBits_exit g want clear all (s4\<lparr>pxCurrentTCB := ?c\<rparr>))) = groups s"
    if v: "w \<noteq> portMAX_DELAY" "v \<noteq> ?c" "container s (StateItem v) = Some (pxReadyTasksLists p)"
  proof -
    have "\<not> blocked s v" using v(3) by (auto simp: blocked_def)
    then have "container s (EventItem v) = None" using core_invD(11) [OF s(1), of v] by blast
    then have r: "container s1 (StateItem v) = Some (pxReadyTasksLists p)" using s1(14) v(2,3) by simp
    have d: "delayed s1 ?c" "left_to_wait s1 ?c = unat w" using s1(13) v(1) by blast+
    have b1: "uxEventBits (groups s1 g) AND eventEVENT_BITS_CONTROL_BYTES = 0"
      "\<not> prvTestWaitCondition (uxEventBits (groups s1 g)) want all" using g(5) no s1(5) by simp_all
    show ?thesis
      by (rule event_wait_times_out [OF s1(2,8) d g(4) s1(4) r g(2) b1])
        (use s1(5) fun_cong [OF s1(6), of ?c] in \<open>simp only:\<close>, blast)
  qed
  have clr: "uxEventBits (groups s2 g) AND want = 0" if clear
  proof (rule bit_eqI)
    fix n
    have "bit (cleared ?new (map (\<lambda>t. liValue (lists s1u) (EventItem t)) ts)) n" if "bit want n"
      unfolding bit_cleared
      by (rule bexI [of _ "wait_value want clear all"])
        (use c s2(3) met wait_value_read(1,3) [OF g(2), of clear all] \<open>clear\<close> that in \<open>auto intro!: image_eqI [of _ _ ?c]\<close>)
    then show "bit (uxEventBits (groups s2 g) AND want) n \<longleftrightarrow> bit (0 :: u32) n" by (auto simp: s2(4) bit_simps)
  qed
  show ?thesis
    using s1(1,11,12) s2(1,2) w(1) told late clr unfolding s1u_def by blast
qed

section \<open>Examples\<close>

text \<open>The demonstration kernel with the timers idle and one event group, at 64, with bit 0 set.\<close>

definition demo_groups :: evg where
  "demo_groups = tmr.extend (kernel.extend demo_kernel
     (tmr.fields (\<lambda>_. \<lparr>pcTimerName = 0, xTimerPeriodInTicks = 1, pvTimerID = 0, pxCallbackFunction = 0, ucStatus = 0\<rparr>)
        \<lparr>liValue = (\<lambda>_. 0), liContainer = (\<lambda>_. None), lsItems = (\<lambda>_. []), lsIndex = (\<lambda>_. None)\<rparr>
        xActiveTimerList1 xActiveTimerList2 0 0 0))
     \<lparr>groups = (\<lambda>_. \<lparr>uxEventBits = 1, groupStaticallyAllocated = True\<rparr>)\<rparr>"

lemma demo_groups_simps [simp]:
  "lists demo_groups = lists demo" "tcb demo_groups = demo_tcbs" "pxCurrentTCB demo_groups = 1000"
  "uxCurrentNumberOfTasks demo_groups = 3" "uxSchedulerSuspended demo_groups = 0" "xPendedTicks demo_groups = 0"
  "uxEventBits (groups demo_groups g) = 1"
  by (simp_all add: demo_groups_def tmr.defs kernel.defs demo_kernel_def sched.defs)

lemma demo_groups_ok: "sched_inv demo_groups" "running_ready demo_groups"
  using demo_kernel_inv by (simp_all add: core_inv_def blocked_def demo_groups_def tmr.defs kernel.defs demo_kernel_def sched.defs
      running_ready_def demo_tcbs_def)

text \<open>The running task waits for bits 0 and 2, both, and wants them cleared.\<close>

lemma demo_waits:
  obtains s1 where "xEventGroupWaitBits_enter 64 5 True True 10 demo_groups = Some (Wait_Bits, s1)" "sched_inv s1"
    "container s1 (EventItem 1000) = Some (xTasksWaitingForBits 64)" "liValue (lists s1) (EventItem 1000) = wait_value 5 True True"
    "groups s1 = groups demo_groups" "uxSchedulerSuspended s1 = 0" "xPendedTicks s1 = 0" "uxCurrentNumberOfTasks s1 = 3"
    "prio s1 1000 = 3"
proof -
  have d: "uxSchedulerSuspended demo_groups = 0" "xPendedTicks demo_groups = 0" "0 < uxCurrentNumberOfTasks demo_groups"
    "(64 :: addr) \<noteq> 0" "(5 :: u32) AND eventEVENT_BITS_CONTROL_BYTES = 0" "(5 :: u32) \<noteq> 0" "(10 :: TickType_t) \<noteq> 0"
    "\<not> prvTestWaitCondition (uxEventBits (groups demo_groups 64)) 5 True"
    by (simp_all add: eventEVENT_BITS_CONTROL_BYTES_def prvTestWaitCondition_def)
  have p: "prio demo_groups 1000 = 3" by (simp add: demo_tcbs_def)
  show ?thesis
  proof (rule xEventGroupWaitBits_enter_waits [OF demo_groups_ok d, of True], goal_cases)
    case (1 s1)
    then show ?case using p fun_cong [OF 1(7), of 1000] by (intro that [of s1]) simp_all
  qed
qed

theorem set_bits_wakes_satisfied_witness:
  "\<exists>s1 r s'. xEventGroupWaitBits_enter 64 5 True True 10 demo_groups = Some (Wait_Bits, s1) \<and>
     xEventGroupSetBits 64 6 s1 = Some (r, s') \<and> container s' (StateItem 1000) = Some (pxReadyTasksLists 3) \<and>
     \<not> bit r 0 \<and> \<not> bit r 2"
proof -
  have ctl: "(5 :: u32) AND eventEVENT_BITS_CONTROL_BYTES = 0" "(6 :: u32) AND eventEVENT_BITS_CONTROL_BYTES = 0"
    by (simp_all add: eventEVENT_BITS_CONTROL_BYTES_def)
  obtain s1 where s1: "xEventGroupWaitBits_enter 64 5 True True 10 demo_groups = Some (Wait_Bits, s1)" "sched_inv s1"
    "container s1 (EventItem 1000) = Some (xTasksWaitingForBits 64)" "liValue (lists s1) (EventItem 1000) = wait_value 5 True True"
    "groups s1 = groups demo_groups" "uxSchedulerSuspended s1 = 0" "xPendedTicks s1 = 0" "uxCurrentNumberOfTasks s1 = 3"
    "prio s1 1000 = 3" by (rule demo_waits)
  note r = wait_value_read(1-3) [OF ctl(1), of True True]
  have met: "wait_met 7 (wait_value 5 True True)" by (simp add: wait_value_read(5) [OF ctl(1)] prvTestWaitCondition_def)
  have new: "uxEventBits (groups s1 64) OR 6 = 7" by (simp add: s1(5))
  have n: "0 < uxCurrentNumberOfTasks s1" "(64 :: addr) \<noteq> 0" using s1(8) by simp_all
  have b: "bit (5 :: u32) 0" "bit (5 :: u32) 2" by (simp_all add: bit_numeral_rec)
  show ?thesis
    using set_bits_wakes_satisfied [OF s1(2,6,7) n ctl(2), unfolded new]
  proof (elim exE conjE, goal_cases)
    case (1 r s')
    have "\<not> bit r 0" "\<not> bit r 2" unfolding 1(5) [rule_format] using s1(3,4) met r b by (auto intro!: exI [of _ 1000])
    moreover have "container s' (StateItem 1000) = Some (pxReadyTasksLists 3)"
      using 1(6) [rule_format, OF s1(3)] s1(4,9) met by simp
    ultimately show ?case using s1(1) 1(1) by blast
  qed
qed

theorem event_wait_returns_bits_witness:
  "\<exists>s1 r s2. xEventGroupWaitBits_enter 64 5 True True 10 demo_groups = Some (Wait_Bits, s1) \<and>
     xEventGroupSetBits 64 6 (s1\<lparr>pxCurrentTCB := 2000\<rparr>) = Some (r, s2) \<and>
     fst (xEventGroupWaitBits_exit 64 5 True True (s2\<lparr>pxCurrentTCB := 1000\<rparr>)) = 7 \<and> uxEventBits (groups s2 64) AND 5 = 0 \<and>
     (\<exists>s3 s4. vTaskSwitchContext s1 = Some s3 \<and> ticks 10 s3 = Some s4 \<and>
        fst (xEventGroupWaitBits_exit 64 5 True True (s4\<lparr>pxCurrentTCB := 1000\<rparr>)) = 1)"
proof -
  have "container demo_groups (StateItem 2000) = Some (pxReadyTasksLists 3)" "10 \<noteq> portMAX_DELAY" by (simp_all add: portMAX_DELAY_def)
  then show ?thesis
    using event_wait_returns_bits [OF demo_groups_ok, of 64 5 10 True 6 True 2000 2000 3]
    by (simp add: eventEVENT_BITS_CONTROL_BYTES_def prvTestWaitCondition_def) blast
qed

end
