(* ===== verification/FR_Stream_Buffer.thy ===== *)
theory FR_Stream_Buffer
  imports FR_Task_More
begin

text \<open>
  \<^verbatim>\<open>stream_buffer.c\<close>: byte streams and message buffers between one writer and one reader. Sizes and
  positions are 32 bits wide; \<open>add32\<close> and \<open>sub32\<close> are the arithmetic of \<^verbatim>\<open>size_t\<close>. The data of a write is
  given by its bytes, a read returns the bytes it copies: the callers' buffers do not overlap the storage.

  The waiting calls are cut where other tasks and interrupts may act: \<open>_check\<close> is the critical section
  in which the task registers itself, \<open>_woken\<close> what it does when it runs again, \<open>_finish\<close> the transfer.
\<close>

section \<open>State\<close>

record StreamBuffer_t =
  xTail :: nat
  xHead :: nat
  xLength :: nat
  xTriggerLevelBytes :: nat
  xTaskWaitingToReceive :: addr
  xTaskWaitingToSend :: addr
  pucBuffer :: addr
  ucFlags :: u8
  uxNotificationIndex :: nat

record sbs = kernel +
  streams :: "addr \<Rightarrow> StreamBuffer_t"

definition sbBYTES_TO_STORE_MESSAGE_LENGTH :: nat where "sbBYTES_TO_STORE_MESSAGE_LENGTH = 4"
definition sbFLAGS_IS_MESSAGE_BUFFER :: u8 where "sbFLAGS_IS_MESSAGE_BUFFER = 1"
definition sbFLAGS_IS_STATICALLY_ALLOCATED :: u8 where "sbFLAGS_IS_STATICALLY_ALLOCATED = 2"
definition sbFLAGS_IS_BATCHING_BUFFER :: u8 where "sbFLAGS_IS_BATCHING_BUFFER = 4"

datatype sb_type = sbTYPE_STREAM_BUFFER | sbTYPE_MESSAGE_BUFFER | sbTYPE_STREAM_BATCHING_BUFFER

definition sizeof_StreamBuffer :: nat where
  "sizeof_StreamBuffer = 40"

definition add32 :: "nat \<Rightarrow> nat \<Rightarrow> nat" where
  "add32 a b = (a + b) mod 2 ^ 32"

definition sub32 :: "nat \<Rightarrow> nat \<Rightarrow> nat" where
  "sub32 a b = (a + (2 ^ 32 - b)) mod 2 ^ 32"

definition upd_sb :: "addr \<Rightarrow> (StreamBuffer_t \<Rightarrow> StreamBuffer_t) \<Rightarrow> 'a sbs_scheme \<Rightarrow> 'a sbs_scheme" where
  "upd_sb b f s = s\<lparr>streams := (streams s)(b := f (streams s b))\<rparr>"

definition has_flag :: "u8 \<Rightarrow> StreamBuffer_t \<Rightarrow> bool" where
  "has_flag f S \<longleftrightarrow> ucFlags S AND f \<noteq> 0"

abbreviation is_message :: "StreamBuffer_t \<Rightarrow> bool" where
  "is_message \<equiv> has_flag sbFLAGS_IS_MESSAGE_BUFFER"

section \<open>Creation, deletion, reset\<close>

definition zero_StreamBuffer :: StreamBuffer_t where
  "zero_StreamBuffer = \<lparr>xTail = 0, xHead = 0, xLength = 0, xTriggerLevelBytes = 0, xTaskWaitingToReceive = 0,
     xTaskWaitingToSend = 0, pucBuffer = 0, ucFlags = 0, uxNotificationIndex = 0\<rparr>"

definition STREAM_BUFFER_BUFFER_WRITE_VALUE :: u8 where
  "STREAM_BUFFER_BUFFER_WRITE_VALUE = 0x55"

definition prvInitialiseNewStreamBuffer ::
  "addr \<Rightarrow> addr \<Rightarrow> nat \<Rightarrow> nat \<Rightarrow> u8 \<Rightarrow> 'a sbs_scheme \<Rightarrow> 'a sbs_scheme" where
  "prvInitialiseNewStreamBuffer b buf len trigger flags s =
     upd_sb b (\<lambda>_. zero_StreamBuffer\<lparr>pucBuffer := buf, xLength := len, xTriggerLevelBytes := trigger, ucFlags := flags\<rparr>)
       (s\<lparr>mem := write_bytes buf (replicate len STREAM_BUFFER_BUFFER_WRITE_VALUE) (mem s)\<rparr>)"

definition xStreamBufferGenericCreate ::
  "nat \<Rightarrow> nat \<Rightarrow> sb_type \<Rightarrow> 'a sbs_scheme \<Rightarrow> (addr \<times> 'a sbs_scheme) option" where
  "xStreamBufferGenericCreate xBufferSizeBytes xTrigger ty s = do {
     flags \<leftarrow> (case ty of
         sbTYPE_MESSAGE_BUFFER \<Rightarrow> do {
           configASSERT (xBufferSizeBytes > sbBYTES_TO_STORE_MESSAGE_LENGTH); Some sbFLAGS_IS_MESSAGE_BUFFER }
       | sbTYPE_STREAM_BATCHING_BUFFER \<Rightarrow> do { configASSERT (xBufferSizeBytes > 0); Some sbFLAGS_IS_BATCHING_BUFFER }
       | sbTYPE_STREAM_BUFFER \<Rightarrow> do { configASSERT (xBufferSizeBytes > 0); Some 0 });
     configASSERT (xTrigger \<le> xBufferSizeBytes);
     let trigger = (if xTrigger = 0 then 1 else xTrigger);
     if xBufferSizeBytes < add32 (add32 xBufferSizeBytes 1) sizeof_StreamBuffer then do {
       let xBufferSizeBytes = add32 xBufferSizeBytes 1;
       (pv, s) \<leftarrow> pvPortMalloc (add32 xBufferSizeBytes sizeof_StreamBuffer) s;
       Some (pv, if pv \<noteq> 0
                 then prvInitialiseNewStreamBuffer pv (pv + sizeof_StreamBuffer) xBufferSizeBytes trigger flags s else s)
     } else Some (0, s)
   }"

definition xStreamBufferGenericCreateStatic ::
  "nat \<Rightarrow> nat \<Rightarrow> sb_type \<Rightarrow> addr \<Rightarrow> addr \<Rightarrow> 'a sbs_scheme \<Rightarrow> (addr \<times> 'a sbs_scheme) option" where
  "xStreamBufferGenericCreateStatic xBufferSizeBytes xTrigger ty storage b s = do {
     configASSERT (storage \<noteq> 0);
     configASSERT (b \<noteq> 0);
     configASSERT (xTrigger \<le> xBufferSizeBytes);
     let trigger = (if xTrigger = 0 then 1 else xTrigger);
     flags \<leftarrow> (case ty of
         sbTYPE_MESSAGE_BUFFER \<Rightarrow> do {
           configASSERT (xBufferSizeBytes > sbBYTES_TO_STORE_MESSAGE_LENGTH);
           Some (sbFLAGS_IS_MESSAGE_BUFFER OR sbFLAGS_IS_STATICALLY_ALLOCATED) }
       | sbTYPE_STREAM_BATCHING_BUFFER \<Rightarrow> do {
           configASSERT (xBufferSizeBytes > 0); Some (sbFLAGS_IS_BATCHING_BUFFER OR sbFLAGS_IS_STATICALLY_ALLOCATED) }
       | sbTYPE_STREAM_BUFFER \<Rightarrow> Some sbFLAGS_IS_STATICALLY_ALLOCATED);
     let s = prvInitialiseNewStreamBuffer b storage xBufferSizeBytes trigger flags s;
     Some (b, upd_sb b (\<lambda>S. S\<lparr>ucFlags := ucFlags S OR sbFLAGS_IS_STATICALLY_ALLOCATED\<rparr>) s)
   }"

text \<open>The result is the storage area and the structure of a static buffer, or \<open>None\<close> for \<^verbatim>\<open>pdFALSE\<close>.\<close>

definition xStreamBufferGetStaticBuffers :: "addr \<Rightarrow> 'a sbs_scheme \<Rightarrow> (addr \<times> addr) option option" where
  "xStreamBufferGetStaticBuffers b s = do {
     configASSERT (b \<noteq> 0);
     Some (if has_flag sbFLAGS_IS_STATICALLY_ALLOCATED (streams s b) then Some (pucBuffer (streams s b), b) else None)
   }"

definition vStreamBufferDelete :: "addr \<Rightarrow> 'a sbs_scheme \<Rightarrow> 'a sbs_scheme option" where
  "vStreamBufferDelete b s = do {
     configASSERT (b \<noteq> 0);
     if \<not> has_flag sbFLAGS_IS_STATICALLY_ALLOCATED (streams s b) then vPortFree b s
     else Some (upd_sb b (\<lambda>_. zero_StreamBuffer) s)
   }"

definition xStreamBufferReset :: "addr \<Rightarrow> 'a sbs_scheme \<Rightarrow> (bool \<times> 'a sbs_scheme) option" where
  "xStreamBufferReset b s = do {
     configASSERT (b \<noteq> 0);
     let S = streams s b;
     Some (if xTaskWaitingToReceive S = 0 \<and> xTaskWaitingToSend S = 0
           then (True, prvInitialiseNewStreamBuffer b (pucBuffer S) (xLength S) (xTriggerLevelBytes S) (ucFlags S) s)
           else (False, s))
   }"

definition xStreamBufferResetFromISR :: "addr \<Rightarrow> 'a sbs_scheme \<Rightarrow> (bool \<times> 'a sbs_scheme) option" where
  "xStreamBufferResetFromISR b s = do {
     configASSERT (b \<noteq> 0);
     let S = streams s b;
     Some (if xTaskWaitingToReceive S = 0 \<and> xTaskWaitingToSend S = 0
           then (True, prvInitialiseNewStreamBuffer b (pucBuffer S) (xLength S) (xTriggerLevelBytes S) (ucFlags S) s)
           else (False, s))
   }"

definition xStreamBufferSetTriggerLevel :: "addr \<Rightarrow> nat \<Rightarrow> 'a sbs_scheme \<Rightarrow> (bool \<times> 'a sbs_scheme) option" where
  "xStreamBufferSetTriggerLevel b xTriggerLevel s = do {
     configASSERT (b \<noteq> 0);
     let level = (if xTriggerLevel = 0 then 1 else xTriggerLevel);
     Some (if level < xLength (streams s b) then (True, upd_sb b (\<lambda>S. S\<lparr>xTriggerLevelBytes := level\<rparr>) s) else (False, s))
   }"

section \<open>The ring of bytes\<close>

definition prvBytesInBuffer :: "StreamBuffer_t \<Rightarrow> nat" where
  "prvBytesInBuffer S =
     (let xCount = sub32 (add32 (xLength S) (xHead S)) (xTail S)
      in if xCount \<ge> xLength S then xCount - xLength S else xCount)"

text \<open>
  \<^verbatim>\<open>xStreamBufferSpacesAvailable\<close>. The code reads the tail again until it has not changed meanwhile;
  within one step of the model it does not change.
\<close>

definition spaces_available :: "StreamBuffer_t \<Rightarrow> nat" where
  "spaces_available S =
     (let xSpace = sub32 (sub32 (add32 (xLength S) (xTail S)) (xHead S)) 1
      in if xSpace \<ge> xLength S then xSpace - xLength S else xSpace)"

definition xStreamBufferSpacesAvailable :: "addr \<Rightarrow> 'a sbs_scheme \<Rightarrow> nat option" where
  "xStreamBufferSpacesAvailable b s = do { configASSERT (b \<noteq> 0); Some (spaces_available (streams s b)) }"

definition xStreamBufferBytesAvailable :: "addr \<Rightarrow> 'a sbs_scheme \<Rightarrow> nat option" where
  "xStreamBufferBytesAvailable b s = do { configASSERT (b \<noteq> 0); Some (prvBytesInBuffer (streams s b)) }"

definition prvWriteBytesToBuffer ::
  "StreamBuffer_t \<Rightarrow> u8 list \<Rightarrow> nat \<Rightarrow> (addr \<Rightarrow> u8) \<Rightarrow> (nat \<times> (addr \<Rightarrow> u8)) option" where
  "prvWriteBytesToBuffer S data head m = do {
     let xCount = length data;
     configASSERT (xCount > 0);
     let xFirstLength = min (sub32 (xLength S) head) xCount;
     configASSERT (add32 head xFirstLength \<le> xLength S);
     let m = write_bytes (pucBuffer S + head) (take xFirstLength data) m;
     m \<leftarrow> (if xCount > xFirstLength then do {
            configASSERT (xCount - xFirstLength \<le> xLength S);
            Some (write_bytes (pucBuffer S) (drop xFirstLength data) m)
          } else Some m);
     let head = add32 head xCount;
     Some (if head \<ge> xLength S then head - xLength S else head, m)
   }"

definition prvReadBytesFromBuffer ::
  "StreamBuffer_t \<Rightarrow> nat \<Rightarrow> nat \<Rightarrow> (addr \<Rightarrow> u8) \<Rightarrow> (u8 list \<times> nat) option" where
  "prvReadBytesFromBuffer S xCount tail m = do {
     configASSERT (xCount \<noteq> 0);
     let xFirstLength = min (sub32 (xLength S) tail) xCount;
     configASSERT (xFirstLength \<le> xCount);
     configASSERT (add32 tail xFirstLength \<le> xLength S);
     let data = bytes_at m (pucBuffer S + tail) xFirstLength;
     let data = (if xCount > xFirstLength then data @ bytes_at m (pucBuffer S) (xCount - xFirstLength) else data);
     let tail = add32 tail xCount;
     Some (data, if tail \<ge> xLength S then tail - xLength S else tail)
   }"

definition prvWriteMessageToBuffer ::
  "addr \<Rightarrow> addr \<Rightarrow> nat \<Rightarrow> nat \<Rightarrow> nat \<Rightarrow> 'a sbs_scheme \<Rightarrow> (nat \<times> 'a sbs_scheme) option" where
  "prvWriteMessageToBuffer b pvTxData xDataLengthBytes xSpace xRequiredSpace s = do {
     let S = streams s b;
     (n, xNextHead, m) \<leftarrow> (if is_message S then
         (if xSpace \<ge> xRequiredSpace then do {
            (h, m) \<leftarrow> prvWriteBytesToBuffer S (pointer_bytes xDataLengthBytes) (xHead S) (mem s);
            Some (xDataLengthBytes, h, m)
          } else Some (0, xHead S, mem s))
       else Some (min xDataLengthBytes xSpace, xHead S, mem s));
     if n \<noteq> 0 then do {
       (h, m) \<leftarrow> prvWriteBytesToBuffer S (bytes_at m pvTxData n) xNextHead m;
       Some (n, upd_sb b (\<lambda>S. S\<lparr>xHead := h\<rparr>) (s\<lparr>mem := m\<rparr>))
     } else Some (n, s\<lparr>mem := m\<rparr>)
   }"

definition prvReadMessageFromBuffer ::
  "addr \<Rightarrow> addr \<Rightarrow> nat \<Rightarrow> nat \<Rightarrow> 'a sbs_scheme \<Rightarrow> (nat \<times> 'a sbs_scheme) option" where
  "prvReadMessageFromBuffer b pvRxData xBufferLengthBytes xBytesAvailable s = do {
     let S = streams s b;
     (xNextMessageLength, xNextTail, avail) \<leftarrow> (if is_message S then do {
         (bs, t) \<leftarrow> prvReadBytesFromBuffer S sbBYTES_TO_STORE_MESSAGE_LENGTH (xTail S) (mem s);
         let n = bytes_pointer bs;
         Some (if n > xBufferLengthBytes then 0 else n, t, sub32 xBytesAvailable sbBYTES_TO_STORE_MESSAGE_LENGTH)
       } else Some (xBufferLengthBytes, xTail S, xBytesAvailable));
     let xCount = min xNextMessageLength avail;
     if xCount \<noteq> 0 then do {
       (bs, t) \<leftarrow> prvReadBytesFromBuffer S xCount xNextTail (mem s);
       Some (xCount, upd_sb b (\<lambda>S. S\<lparr>xTail := t\<rparr>) (s\<lparr>mem := write_bytes pvRxData bs (mem s)\<rparr>))
     } else Some (xCount, s)
   }"

section \<open>Waking the other side\<close>

text \<open>The task registered in the field \<open>who\<close> is notified and the field cleared by \<open>clr\<close>.\<close>

definition sb_notify ::
  "(StreamBuffer_t \<Rightarrow> addr) \<Rightarrow> (StreamBuffer_t \<Rightarrow> StreamBuffer_t) \<Rightarrow> addr \<Rightarrow> 'a sbs_scheme \<Rightarrow> 'a sbs_scheme option" where
  "sb_notify who clr b s = do {
     let s = vTaskSuspendAll s;
     s \<leftarrow> (if who (streams s b) \<noteq> 0 then do {
            (_, _, s) \<leftarrow> xTaskGenericNotify (who (streams s b)) (uxNotificationIndex (streams s b)) 0 eNoAction s;
            Some (upd_sb b clr s)
          } else Some s);
     map_option snd (xTaskResumeAll s)
   }"

definition sb_notify_from_isr ::
  "(StreamBuffer_t \<Rightarrow> addr) \<Rightarrow> (StreamBuffer_t \<Rightarrow> StreamBuffer_t) \<Rightarrow> addr \<Rightarrow> 'a sbs_scheme \<Rightarrow> (bool \<times> bool \<times> 'a sbs_scheme) option" where
  "sb_notify_from_isr who clr b s =
     (if who (streams s b) \<noteq> 0 then do {
        (_, _, woken, s) \<leftarrow> xTaskGenericNotifyFromISR (who (streams s b)) (uxNotificationIndex (streams s b)) 0 eNoAction s;
        Some (True, woken, upd_sb b clr s)
      } else Some (False, False, s))"

definition sbSEND_COMPLETED :: "addr \<Rightarrow> 'a sbs_scheme \<Rightarrow> 'a sbs_scheme option" where
  "sbSEND_COMPLETED = sb_notify xTaskWaitingToReceive (\<lambda>S. S\<lparr>xTaskWaitingToReceive := 0\<rparr>)"

definition sbRECEIVE_COMPLETED :: "addr \<Rightarrow> 'a sbs_scheme \<Rightarrow> 'a sbs_scheme option" where
  "sbRECEIVE_COMPLETED = sb_notify xTaskWaitingToSend (\<lambda>S. S\<lparr>xTaskWaitingToSend := 0\<rparr>)"

definition sbSEND_COMPLETE_FROM_ISR :: "addr \<Rightarrow> 'a sbs_scheme \<Rightarrow> (bool \<times> bool \<times> 'a sbs_scheme) option" where
  "sbSEND_COMPLETE_FROM_ISR = sb_notify_from_isr xTaskWaitingToReceive (\<lambda>S. S\<lparr>xTaskWaitingToReceive := 0\<rparr>)"

definition sbRECEIVE_COMPLETED_FROM_ISR :: "addr \<Rightarrow> 'a sbs_scheme \<Rightarrow> (bool \<times> bool \<times> 'a sbs_scheme) option" where
  "sbRECEIVE_COMPLETED_FROM_ISR = sb_notify_from_isr xTaskWaitingToSend (\<lambda>S. S\<lparr>xTaskWaitingToSend := 0\<rparr>)"

text \<open>The results are that a task was waiting, and \<^verbatim>\<open>*pxHigherPriorityTaskWoken\<close> being set.\<close>

definition xStreamBufferSendCompletedFromISR :: "addr \<Rightarrow> 'a sbs_scheme \<Rightarrow> (bool \<times> bool \<times> 'a sbs_scheme) option" where
  "xStreamBufferSendCompletedFromISR b s = do { configASSERT (b \<noteq> 0); sbSEND_COMPLETE_FROM_ISR b s }"

definition xStreamBufferReceiveCompletedFromISR :: "addr \<Rightarrow> 'a sbs_scheme \<Rightarrow> (bool \<times> bool \<times> 'a sbs_scheme) option" where
  "xStreamBufferReceiveCompletedFromISR b s = do { configASSERT (b \<noteq> 0); sbRECEIVE_COMPLETED_FROM_ISR b s }"

section \<open>Sending\<close>

text \<open>The space a send asks for and the time it waits: a message that can never fit does not wait.\<close>

definition xStreamBufferSend_entry ::
  "addr \<Rightarrow> addr \<Rightarrow> nat \<Rightarrow> TickType_t \<Rightarrow> 'a sbs_scheme \<Rightarrow> (nat \<times> TickType_t) option" where
  "xStreamBufferSend_entry b pvTxData xDataLengthBytes w s = do {
     configASSERT (pvTxData \<noteq> 0);
     configASSERT (b \<noteq> 0);
     let xMaxReportedSpace = sub32 (xLength (streams s b)) 1;
     if is_message (streams s b) then do {
       let xRequiredSpace = add32 xDataLengthBytes sbBYTES_TO_STORE_MESSAGE_LENGTH;
       configASSERT (xRequiredSpace > xDataLengthBytes);
       Some (xRequiredSpace, if xRequiredSpace > xMaxReportedSpace then 0 else w)
     }
     else Some (if xDataLengthBytes > xMaxReportedSpace then xMaxReportedSpace else xDataLengthBytes, w)
   }"

text \<open>Either there is space, and its size is the result, or the task is registered as waiting.\<close>

definition xStreamBufferSend_check :: "addr \<Rightarrow> nat \<Rightarrow> 'a sbs_scheme \<Rightarrow> (nat option \<times> nat \<times> 'a sbs_scheme) option" where
  "xStreamBufferSend_check b xRequiredSpace s = do {
     xSpace \<leftarrow> xStreamBufferSpacesAvailable b s;
     if xSpace < xRequiredSpace then do {
       (_, s) \<leftarrow> xTaskGenericNotifyStateClear 0 (uxNotificationIndex (streams s b)) s;
       configASSERT (xTaskWaitingToSend (streams s b) = 0);
       Some (None, xSpace, upd_sb b (\<lambda>S. S\<lparr>xTaskWaitingToSend := pxCurrentTCB s\<rparr>) s)
     } else Some (Some xSpace, xSpace, s)
   }"

definition sb_wait :: "addr \<Rightarrow> TickType_t \<Rightarrow> 'a sbs_scheme \<Rightarrow> 'a sbs_scheme option" where
  "sb_wait b w s = xTaskGenericNotifyWait_enter (uxNotificationIndex (streams s b)) 0 w s"

definition xStreamBufferSend_woken ::
  "addr \<Rightarrow> TimeOut_t \<Rightarrow> TickType_t \<Rightarrow> 'a sbs_scheme \<Rightarrow> bool \<times> TimeOut_t \<times> TickType_t \<times> 'a sbs_scheme" where
  "xStreamBufferSend_woken b to w s =
     (let (_, _, s) = xTaskGenericNotifyWait_exit (uxNotificationIndex (streams s b)) 0 s;
          s = upd_sb b (\<lambda>S. S\<lparr>xTaskWaitingToSend := 0\<rparr>) s
      in xTaskCheckForTimeOut to w s)"

definition xStreamBufferSend_finish ::
  "addr \<Rightarrow> addr \<Rightarrow> nat \<Rightarrow> nat \<Rightarrow> nat \<Rightarrow> 'a sbs_scheme \<Rightarrow> (nat \<times> 'a sbs_scheme) option" where
  "xStreamBufferSend_finish b pvTxData xDataLengthBytes xSpace xRequiredSpace s = do {
     xSpace \<leftarrow> (if xSpace = 0 then xStreamBufferSpacesAvailable b s else Some xSpace);
     (r, s) \<leftarrow> prvWriteMessageToBuffer b pvTxData xDataLengthBytes xSpace xRequiredSpace s;
     if r > 0 \<and> prvBytesInBuffer (streams s b) \<ge> xTriggerLevelBytes (streams s b)
     then do { s \<leftarrow> sbSEND_COMPLETED b s; Some (r, s) }
     else Some (r, s)
   }"

text \<open>A send with a time-out of zero.\<close>

definition xStreamBufferSend_nowait :: "addr \<Rightarrow> addr \<Rightarrow> nat \<Rightarrow> 'a sbs_scheme \<Rightarrow> (nat \<times> 'a sbs_scheme) option" where
  "xStreamBufferSend_nowait b pvTxData n s = do {
     (xRequiredSpace, _) \<leftarrow> xStreamBufferSend_entry b pvTxData n 0 s;
     xStreamBufferSend_finish b pvTxData n 0 xRequiredSpace s
   }"

definition xStreamBufferSendFromISR :: "addr \<Rightarrow> addr \<Rightarrow> nat \<Rightarrow> 'a sbs_scheme \<Rightarrow> (nat \<times> bool \<times> 'a sbs_scheme) option" where
  "xStreamBufferSendFromISR b pvTxData xDataLengthBytes s = do {
     configASSERT (pvTxData \<noteq> 0);
     configASSERT (b \<noteq> 0);
     xRequiredSpace \<leftarrow> (if is_message (streams s b) then do {
         let r = add32 xDataLengthBytes sbBYTES_TO_STORE_MESSAGE_LENGTH;
         configASSERT (r > xDataLengthBytes);
         Some r
       } else Some xDataLengthBytes);
     xSpace \<leftarrow> xStreamBufferSpacesAvailable b s;
     (r, s) \<leftarrow> prvWriteMessageToBuffer b pvTxData xDataLengthBytes xSpace xRequiredSpace s;
     if r > 0 \<and> prvBytesInBuffer (streams s b) \<ge> xTriggerLevelBytes (streams s b)
     then do { (_, woken, s) \<leftarrow> sbSEND_COMPLETE_FROM_ISR b s; Some (r, woken, s) }
     else Some (r, False, s)
   }"

section \<open>Receiving\<close>

text \<open>More bytes than this have to be in the buffer for a read.\<close>

definition rx_threshold :: "StreamBuffer_t \<Rightarrow> nat" where
  "rx_threshold S =
     (if is_message S then sbBYTES_TO_STORE_MESSAGE_LENGTH
      else if has_flag sbFLAGS_IS_BATCHING_BUFFER S then xTriggerLevelBytes S else 0)"

definition xStreamBufferReceive_check :: "addr \<Rightarrow> 'a sbs_scheme \<Rightarrow> (nat option \<times> 'a sbs_scheme) option" where
  "xStreamBufferReceive_check b s =
     (let avail = prvBytesInBuffer (streams s b)
      in if avail \<le> rx_threshold (streams s b) then do {
           (_, s) \<leftarrow> xTaskGenericNotifyStateClear 0 (uxNotificationIndex (streams s b)) s;
           configASSERT (xTaskWaitingToReceive (streams s b) = 0);
           Some (None, upd_sb b (\<lambda>S. S\<lparr>xTaskWaitingToReceive := pxCurrentTCB s\<rparr>) s)
         } else Some (Some avail, s))"

definition xStreamBufferReceive_woken :: "addr \<Rightarrow> 'a sbs_scheme \<Rightarrow> nat \<times> 'a sbs_scheme" where
  "xStreamBufferReceive_woken b s =
     (let (_, _, s) = xTaskGenericNotifyWait_exit (uxNotificationIndex (streams s b)) 0 s;
          s = upd_sb b (\<lambda>S. S\<lparr>xTaskWaitingToReceive := 0\<rparr>) s
      in (prvBytesInBuffer (streams s b), s))"

text \<open>\<open>threshold\<close> is the value computed at the start of the call.\<close>

definition xStreamBufferReceive_finish ::
  "addr \<Rightarrow> addr \<Rightarrow> nat \<Rightarrow> nat \<Rightarrow> nat \<Rightarrow> 'a sbs_scheme \<Rightarrow> (nat \<times> 'a sbs_scheme) option" where
  "xStreamBufferReceive_finish b pvRxData xBufferLengthBytes threshold avail s =
     (if avail > threshold then do {
        (r, s) \<leftarrow> prvReadMessageFromBuffer b pvRxData xBufferLengthBytes avail s;
        if r \<noteq> 0 then do { s \<leftarrow> sbRECEIVE_COMPLETED b s; Some (r, s) } else Some (r, s)
      } else Some (0, s))"

definition xStreamBufferReceive_entry :: "addr \<Rightarrow> addr \<Rightarrow> unit option" where
  "xStreamBufferReceive_entry b pvRxData = do { configASSERT (pvRxData \<noteq> 0); configASSERT (b \<noteq> 0) }"

text \<open>A receive with a time-out of zero.\<close>

definition xStreamBufferReceive_nowait :: "addr \<Rightarrow> addr \<Rightarrow> nat \<Rightarrow> 'a sbs_scheme \<Rightarrow> (nat \<times> 'a sbs_scheme) option" where
  "xStreamBufferReceive_nowait b pvRxData n s = do {
     xStreamBufferReceive_entry b pvRxData;
     xStreamBufferReceive_finish b pvRxData n (rx_threshold (streams s b)) (prvBytesInBuffer (streams s b)) s
   }"

definition xStreamBufferReceiveFromISR :: "addr \<Rightarrow> addr \<Rightarrow> nat \<Rightarrow> 'a sbs_scheme \<Rightarrow> (nat \<times> bool \<times> 'a sbs_scheme) option" where
  "xStreamBufferReceiveFromISR b pvRxData xBufferLengthBytes s = do {
     xStreamBufferReceive_entry b pvRxData;
     let threshold = (if is_message (streams s b) then sbBYTES_TO_STORE_MESSAGE_LENGTH else 0);
     let avail = prvBytesInBuffer (streams s b);
     if avail > threshold then do {
       (r, s) \<leftarrow> prvReadMessageFromBuffer b pvRxData xBufferLengthBytes avail s;
       if r \<noteq> 0 then do { (_, woken, s) \<leftarrow> sbRECEIVE_COMPLETED_FROM_ISR b s; Some (r, woken, s) } else Some (r, False, s)
     } else Some (0, False, s)
   }"

section \<open>Queries\<close>

definition xStreamBufferNextMessageLengthBytes :: "addr \<Rightarrow> 'a sbs_scheme \<Rightarrow> nat option" where
  "xStreamBufferNextMessageLengthBytes b s = do {
     configASSERT (b \<noteq> 0);
     let S = streams s b;
     if is_message S then do {
       let avail = prvBytesInBuffer S;
       if avail > sbBYTES_TO_STORE_MESSAGE_LENGTH then do {
         (bs, _) \<leftarrow> prvReadBytesFromBuffer S sbBYTES_TO_STORE_MESSAGE_LENGTH (xTail S) (mem s);
         Some (bytes_pointer bs)
       } else do { configASSERT (avail = 0); Some 0 }
     } else Some 0
   }"

definition xStreamBufferIsEmpty :: "addr \<Rightarrow> 'a sbs_scheme \<Rightarrow> bool option" where
  "xStreamBufferIsEmpty b s = do { configASSERT (b \<noteq> 0); Some (xHead (streams s b) = xTail (streams s b)) }"

definition xStreamBufferIsFull :: "addr \<Rightarrow> 'a sbs_scheme \<Rightarrow> bool option" where
  "xStreamBufferIsFull b s = do {
     configASSERT (b \<noteq> 0);
     let n = (if is_message (streams s b) then sbBYTES_TO_STORE_MESSAGE_LENGTH else 0);
     xSpace \<leftarrow> xStreamBufferSpacesAvailable b s;
     Some (xSpace \<le> n)
   }"

definition uxStreamBufferGetStreamBufferNotificationIndex :: "addr \<Rightarrow> 'a sbs_scheme \<Rightarrow> nat option" where
  "uxStreamBufferGetStreamBufferNotificationIndex b s = do { configASSERT (b \<noteq> 0); Some (uxNotificationIndex (streams s b)) }"

definition vStreamBufferSetStreamBufferNotificationIndex :: "addr \<Rightarrow> nat \<Rightarrow> 'a sbs_scheme \<Rightarrow> 'a sbs_scheme option" where
  "vStreamBufferSetStreamBufferNotificationIndex b x s = do {
     configASSERT (b \<noteq> 0 \<and> xTaskWaitingToReceive (streams s b) = 0);
     configASSERT (b \<noteq> 0 \<and> xTaskWaitingToSend (streams s b) = 0);
     configASSERT (x < configTASK_NOTIFICATION_ARRAY_ENTRIES);
     Some (upd_sb b (\<lambda>S. S\<lparr>uxNotificationIndex := x\<rparr>) s)
   }"

end
