(* ===== verification/FR_Stream_Props.thy ===== *)
theory FR_Stream_Props
  imports FR_Stream_Buffer FR_Create
begin

text \<open>
  A stream buffer is a bounded pipe of bytes and a message buffer a bounded pipe of messages: whatever
  is written comes out in order, whole and once, for every sequence of writes and reads and across the
  wrap of the ring.
\<close>

section \<open>The ring of bytes\<close>

text \<open>The \<open>n\<close> bytes from position \<open>p\<close> of a ring of \<open>L\<close> bytes at \<open>a\<close>, and writing bytes there.\<close>

definition ring_get :: "nat \<Rightarrow> addr \<Rightarrow> nat \<Rightarrow> nat \<Rightarrow> (addr \<Rightarrow> u8) \<Rightarrow> u8 list" where
  "ring_get L a p n m = map (\<lambda>i. m (a + (p + i) mod L)) [0..<n]"

definition ring_put :: "nat \<Rightarrow> addr \<Rightarrow> nat \<Rightarrow> u8 list \<Rightarrow> (addr \<Rightarrow> u8) \<Rightarrow> addr \<Rightarrow> u8" where
  "ring_put L a p bs m = (\<lambda>x. if a \<le> x \<and> x < a + L \<and> (x - a + (L - p)) mod L < length bs
     then bs ! ((x - a + (L - p)) mod L) else m x)"

lemma length_ring_get [simp]: "length (ring_get L a p n m) = n"
  by (simp add: ring_get_def)

lemma ring_get_0 [simp]: "ring_get L a p 0 m = []"
  by (simp add: ring_get_def)

lemma ring_get_add: "ring_get L a p (i + j) m = ring_get L a p i m @ ring_get L a ((p + i) mod L) j m"
  by (rule nth_equalityI) (auto simp: ring_get_def nth_append mod_add_left_eq add.assoc)

lemma ring_offset: "0 < L \<Longrightarrow> p < L \<Longrightarrow> i < L \<Longrightarrow> ((p + i) mod L + (L - p)) mod L = (i :: nat)"
  by (metis add.commute add_diff_inverse_nat less_imp_le_nat linorder_not_le mod_add_left_eq mod_add_self2 mod_less nat_arith.add1)

lemma ring_put_read:
  assumes "p < L" "i < L"
  shows "ring_put L a p bs m (a + (p + i) mod L) = (if i < length bs then bs ! i else m (a + (p + i) mod L))"
proof -
  have L: "0 < L" using assms by simp
  show ?thesis using ring_offset [OF L assms] mod_less_divisor [OF L, of "p + i"] by (simp add: ring_put_def)
qed

lemma ring_put_outside: "x < a \<or> a + L \<le> x \<Longrightarrow> ring_put L a p bs m x = m x"
  by (auto simp: ring_put_def)

text \<open>Bytes written after the last one of the contents are appended to them.\<close>

lemma ring_get_put:
  assumes "p < L" "n + length bs \<le> L"
  shows "ring_get L a p (n + length bs) (ring_put L a ((p + n) mod L) bs m) = ring_get L a p n m @ bs"
proof (rule nth_equalityI)
  fix i assume i: "i < length (ring_get L a p (n + length bs) (ring_put L a ((p + n) mod L) bs m))"
  have L: "0 < L" and q: "(p + n) mod L < L" using assms by simp_all
  show "ring_get L a p (n + length bs) (ring_put L a ((p + n) mod L) bs m) ! i = (ring_get L a p n m @ bs) ! i"
  proof (cases "n \<le> i")
    case True
    then have "p + i = p + n + (i - n)" by simp
    then have "(p + i) mod L = ((p + n) mod L + (i - n)) mod L" by (metis mod_add_left_eq)
    moreover have "i - n < L" "i - n < length bs" using i True assms(2) by simp_all
    ultimately show ?thesis using i True ring_put_read [OF q, of "i - n" a bs m]
      by (simp add: ring_get_def nth_append del: diff_diff_left Nat.add_diff_assoc Nat.diff_add_assoc)
  next
    case False
    have "p + i + L = p + n + (L - n + i)" using assms(2) by simp
    then have "(p + i) mod L = ((p + n) mod L + (L - n + i)) mod L" by (metis mod_add_left_eq mod_add_self2)
    moreover have "L - n + i < L" "\<not> L - n + i < length bs" using False assms(2) by simp_all
    ultimately show ?thesis
      using i False ring_put_read [OF q, of "L - n + i" a bs m] by (simp add: ring_get_def nth_append)
  qed
qed simp

lemma ring_get_same: "(\<And>x. a \<le> x \<Longrightarrow> x < a + L \<Longrightarrow> m' x = m x) \<Longrightarrow> 0 < L \<Longrightarrow> ring_get L a p n m' = ring_get L a p n m"
  by (simp add: ring_get_def)

section \<open>Copying bytes\<close>

definition sb_ok :: "StreamBuffer_t \<Rightarrow> bool" where
  "sb_ok S \<longleftrightarrow> xHead S < xLength S \<and> xTail S < xLength S \<and> xLength S < 2 ^ 31"

definition used :: "StreamBuffer_t \<Rightarrow> nat" where
  "used S = (xLength S + xHead S - xTail S) mod xLength S"

lemma wrap_once: "n < 2 * L \<Longrightarrow> (if n \<ge> L then n - L else n) = n mod (L :: nat)"
  by (simp add: mod_if)

lemma sub32_eq: "b \<le> a \<Longrightarrow> a < 2 ^ 32 \<Longrightarrow> sub32 a b = a - b"
proof -
  assume "b \<le> a" "a < 2 ^ 32"
  then have "a + (2 ^ 32 - b) = a - b + 2 ^ 32" "a - b < 2 ^ 32" by linarith+
  then show "sub32 a b = a - b" unfolding sub32_def by (metis mod_add_self2 mod_less)
qed

lemma add32_eq: "a + b < 2 ^ 32 \<Longrightarrow> add32 a b = a + b"
  by (simp add: add32_def)

lemma used_less: "sb_ok S \<Longrightarrow> used S < xLength S"
  by (simp add: used_def sb_ok_def)

lemma prvBytesInBuffer_eq:
  assumes "sb_ok S"
  shows "prvBytesInBuffer S = used S"
proof -
  have S: "xHead S < xLength S" "xTail S < xLength S" "xLength S < 2 ^ 31" using assms by (simp_all add: sb_ok_def)
  have "sub32 (add32 (xLength S) (xHead S)) (xTail S) = xLength S + xHead S - xTail S"
    using S by (simp add: add32_eq sub32_eq)
  moreover have "xLength S + xHead S - xTail S < 2 * xLength S" using S by linarith
  ultimately show ?thesis
    using wrap_once [of "xLength S + xHead S - xTail S" "xLength S"] by (simp add: prvBytesInBuffer_def used_def Let_def)
qed

lemma used_cases:
  assumes "sb_ok S"
  shows "used S = (if xTail S \<le> xHead S then xHead S - xTail S else xLength S + xHead S - xTail S)"
proof (cases "xTail S \<le> xHead S")
  case True
  then have "xLength S + xHead S - xTail S = xHead S - xTail S + xLength S" "xHead S - xTail S < xLength S"
    using assms by (auto simp: sb_ok_def)
  then show ?thesis unfolding used_def using True by (simp only: mod_add_self2 mod_less if_True)
qed (use assms in \<open>auto simp: used_def sb_ok_def\<close>)

lemma spaces_available_eq:
  assumes "sb_ok S"
  shows "spaces_available S = xLength S - 1 - used S"
proof -
  have S: "xHead S < xLength S" "xTail S < xLength S" "xLength S < 2 ^ 31" using assms by (simp_all add: sb_ok_def)
  have "sub32 (sub32 (add32 (xLength S) (xTail S)) (xHead S)) 1 = xLength S + xTail S - xHead S - 1"
    using S by (simp add: add32_eq sub32_eq)
  then show ?thesis using S used_cases [OF assms] by (auto simp: spaces_available_def Let_def)
qed

lemma ring_put_split:
  assumes "h < L" "length bs \<le> L" "k = min (L - h) (length bs)"
  shows "ring_put L a h bs m = write_bytes a (drop k bs) (write_bytes (a + h) (take k bs) m)"
proof
  fix x
  consider "x < a \<or> a + L \<le> x" | "a \<le> x" "x < a + h" | "a + h \<le> x" "x < a + L" by linarith
  then show "ring_put L a h bs m x = write_bytes a (drop k bs) (write_bytes (a + h) (take k bs) m) x"
  proof cases
    case 1
    then have "x < a \<or> a + length (drop k bs) \<le> x" "x < a + h \<or> a + h + length (take k bs) \<le> x" using assms by auto
    then show ?thesis using 1 by (simp add: ring_put_outside write_bytes_outside)
  next
    case 2
    then have "(x - a + (L - h)) mod L = x - a + (L - h)" using assms(1) by simp
    then show ?thesis using 2 assms by (auto simp: ring_put_def write_bytes_def min_def nth_append add.commute)
  next
    case 3
    then have "x - a + (L - h) = x - (a + h) + L" "x - (a + h) < L" using assms(1) by linarith+
    then have "(x - a + (L - h)) mod L = x - (a + h)" by (simp only: mod_add_self2 mod_less)
    then show ?thesis using 3 assms by (auto simp: ring_put_def write_bytes_def min_def)
  qed
qed

lemma prvWriteBytesToBuffer_eq:
  assumes S: "sb_ok S" and h: "h < xLength S" and bs: "0 < length bs" "length bs < xLength S"
  shows "prvWriteBytesToBuffer S bs h m = Some ((h + length bs) mod xLength S, ring_put (xLength S) (pucBuffer S) h bs m)"
proof -
  define k where "k = min (xLength S - h) (length bs)"
  have L: "xLength S < 2 ^ 31" using S by (simp add: sb_ok_def)
  have e: "min (sub32 (xLength S) h) (length bs) = k" "add32 h k = h + k" "add32 h (length bs) = h + length bs"
    using h bs L by (auto simp: k_def sub32_eq intro!: add32_eq)
  have w: "write_bytes (pucBuffer S) (drop k bs) (write_bytes (pucBuffer S + h) (take k bs) m) = ring_put (xLength S) (pucBuffer S) h bs m"
    by (rule ring_put_split [symmetric]) (use h bs in \<open>simp_all add: k_def\<close>)
  have "write_bytes (pucBuffer S) [] m' = m'" for m' by (rule ext) (auto simp: write_bytes_def)
  then have w0: "write_bytes (pucBuffer S + h) (take k bs) m = ring_put (xLength S) (pucBuffer S) h bs m" if "\<not> k < length bs"
    using w that by simp
  have "(if xLength S \<le> h + length bs then h + length bs - xLength S else h + length bs) = (h + length bs) mod xLength S"
    by (rule wrap_once) (use h bs in linarith)
  moreover have "h + k \<le> xLength S" "length bs - k \<le> xLength S" using h bs by (simp_all add: k_def)
  ultimately show ?thesis using bs(1) w w0 by (simp add: prvWriteBytesToBuffer_def e Let_def split: if_splits)
qed

lemma ring_get_split:
  assumes "t < L" "n \<le> L" "k = min (L - t) n"
  shows "ring_get L a t n m = bytes_at m (a + t) k @ bytes_at m a (n - k)"
proof (rule nth_equalityI)
  show "length (ring_get L a t n m) = length (bytes_at m (a + t) k @ bytes_at m a (n - k))" using assms by simp
  fix i assume "i < length (ring_get L a t n m)"
  then have i: "i < n" by simp
  show "ring_get L a t n m ! i = (bytes_at m (a + t) k @ bytes_at m a (n - k)) ! i"
  proof (cases "i < k")
    case True
    then show ?thesis using i assms by (simp add: ring_get_def bytes_at_def nth_append add.assoc)
  next
    case False
    then have "L \<le> t + i" "k = L - t" using i assms by (auto simp: min_def split: if_splits)
    then have "t + i = i - k + L" "i - k < L" using assms i by linarith+
    then have "(t + i) mod L = i - k" by simp
    then show ?thesis using i False by (simp add: ring_get_def bytes_at_def nth_append)
  qed
qed

lemma prvReadBytesFromBuffer_eq:
  assumes S: "sb_ok S" and t: "t < xLength S" and n: "0 < n" "n < xLength S"
  shows "prvReadBytesFromBuffer S n t m = Some (ring_get (xLength S) (pucBuffer S) t n m, (t + n) mod xLength S)"
proof -
  define k where "k = min (xLength S - t) n"
  have L: "xLength S < 2 ^ 31" using S by (simp add: sb_ok_def)
  have e: "min (sub32 (xLength S) t) n = k" "add32 t k = t + k" "add32 t n = t + n"
    using t n L by (auto simp: k_def sub32_eq intro!: add32_eq)
  have g: "ring_get (xLength S) (pucBuffer S) t n m = bytes_at m (pucBuffer S + t) k @ bytes_at m (pucBuffer S) (n - k)"
    by (rule ring_get_split) (use t n in \<open>simp_all add: k_def\<close>)
  have "(if xLength S \<le> t + n then t + n - xLength S else t + n) = (t + n) mod xLength S"
    by (rule wrap_once) (use t n in linarith)
  moreover have "t + k \<le> xLength S" "k \<le> n" using t by (simp_all add: k_def)
  ultimately show ?thesis using n g by (auto simp: prvReadBytesFromBuffer_def e Let_def bytes_at_def)
qed


section \<open>Pipes\<close>

text \<open>
  What a buffer between a writer and a reader promises. \<open>room c d\<close> is what the buffer accepts of the
  data \<open>d\<close> when it holds \<open>c\<close>, \<open>takes n c\<close> the number of elements a read with a buffer of \<open>n\<close> bytes
  takes. The reference implementation is on lists.
\<close>

datatype 'd pipe_op = Put 'd | Get nat

fun pipe_ref :: "('c list \<Rightarrow> 'd \<Rightarrow> 'c list) \<Rightarrow> (nat \<Rightarrow> 'c list \<Rightarrow> nat) \<Rightarrow> 'd pipe_op list \<Rightarrow> 'c list \<Rightarrow> 'c list list \<times> 'c list" where
  "pipe_ref room takes [] c = ([], c)"
| "pipe_ref room takes (Put d # os) c =
     (let (rs, c') = pipe_ref room takes os (c @ room c d) in (room c d # rs, c'))"
| "pipe_ref room takes (Get n # os) c =
     (let (rs, c') = pipe_ref room takes os (drop (takes n c) c) in (take (takes n c) c # rs, c'))"

fun pipe_run :: "('d \<Rightarrow> 's \<Rightarrow> ('c list \<times> 's) option) \<Rightarrow> (nat \<Rightarrow> 's \<Rightarrow> ('c list \<times> 's) option) \<Rightarrow> 'd pipe_op list \<Rightarrow> 's \<Rightarrow>
    ('c list list \<times> 's) option" where
  "pipe_run put get [] s = Some ([], s)"
| "pipe_run put get (Put d # os) s = do { (r, s) \<leftarrow> put d s; (rs, s) \<leftarrow> pipe_run put get os s; Some (r # rs, s) }"
| "pipe_run put get (Get n # os) s = do { (r, s) \<leftarrow> get n s; (rs, s) \<leftarrow> pipe_run put get os s; Some (r # rs, s) }"

locale pipe =
  fixes ok :: "'s \<Rightarrow> bool" and contents :: "'s \<Rightarrow> 'c list" and valid :: "'d pipe_op \<Rightarrow> bool"
    and put :: "'d \<Rightarrow> 's \<Rightarrow> ('c list \<times> 's) option" and get :: "nat \<Rightarrow> 's \<Rightarrow> ('c list \<times> 's) option"
    and room :: "'c list \<Rightarrow> 'd \<Rightarrow> 'c list" and takes :: "nat \<Rightarrow> 'c list \<Rightarrow> nat"
  assumes put_law: "ok s \<Longrightarrow> valid (Put d) \<Longrightarrow>
      \<exists>s'. put d s = Some (room (contents s) d, s') \<and> ok s' \<and> contents s' = contents s @ room (contents s) d"
    and get_law: "ok s \<Longrightarrow> valid (Get n) \<Longrightarrow>
      \<exists>s'. get n s = Some (take (takes n (contents s)) (contents s), s') \<and> ok s' \<and>
        contents s' = drop (takes n (contents s)) (contents s)"
begin

lemma run_law:
  assumes "ok s" "\<forall>opn\<in>set os. valid opn"
  shows "\<exists>s'. pipe_run put get os s = Some (fst (pipe_ref room takes os (contents s)), s') \<and> ok s' \<and>
    contents s' = snd (pipe_ref room takes os (contents s))"
  using assms
proof (induction os arbitrary: s)
  case Nil
  then show ?case by simp
next
  case (Cons opn os)
  show ?case
  proof (cases opn)
    case (Put d)
    obtain s1 where s1: "put d s = Some (room (contents s) d, s1)" "ok s1" "contents s1 = contents s @ room (contents s) d"
      using put_law [OF Cons.prems(1)] Cons.prems(2) Put by auto
    then show ?thesis using Cons.IH [OF s1(2)] Cons.prems(2) Put by (auto simp: split_beta)
  next
    case (Get n)
    obtain s1 where s1: "get n s = Some (take (takes n (contents s)) (contents s), s1)" "ok s1"
      "contents s1 = drop (takes n (contents s)) (contents s)"
      using get_law [OF Cons.prems(1)] Cons.prems(2) Get by auto
    then show ?thesis using Cons.IH [OF s1(2)] Cons.prems(2) Get by (auto simp: split_beta)
  qed
qed

end

section \<open>Transfers\<close>

text \<open>
  A buffer that is in use but on which no task waits, the bytes it holds, and a caller that writes its
  variable at \<open>tx\<close> and sends it, or receives into its variable at \<open>rx\<close>, without waiting; both variables
  have room for \<open>N\<close> bytes and do not overlap the storage.
\<close>

definition sb_bytes :: "addr \<Rightarrow> 'a sbs_scheme \<Rightarrow> u8 list" where
  "sb_bytes b s = (let S = streams s b in ring_get (xLength S) (pucBuffer S) (xTail S) (used S) (mem s))"

definition sb_usable :: "addr \<Rightarrow> addr \<Rightarrow> addr \<Rightarrow> nat \<Rightarrow> 'a sbs_scheme \<Rightarrow> bool" where
  "sb_usable b tx rx N s \<longleftrightarrow> b \<noteq> 0 \<and> tx \<noteq> 0 \<and> rx \<noteq> 0 \<and> sched_inv s \<and> 0 < uxCurrentNumberOfTasks s \<and>
     (let S = streams s b in sb_ok S \<and> xTaskWaitingToReceive S = 0 \<and> xTaskWaitingToSend S = 0 \<and>
        (tx + N \<le> pucBuffer S \<or> pucBuffer S + xLength S \<le> tx) \<and> (rx + N \<le> pucBuffer S \<or> pucBuffer S + xLength S \<le> rx))"

definition send_bytes :: "addr \<Rightarrow> addr \<Rightarrow> u8 list \<Rightarrow> 'a sbs_scheme \<Rightarrow> (nat \<times> 'a sbs_scheme) option" where
  "send_bytes b tx bs s = xStreamBufferSend_nowait b tx (length bs) (s\<lparr>mem := write_bytes tx bs (mem s)\<rparr>)"

definition receive_bytes :: "addr \<Rightarrow> addr \<Rightarrow> nat \<Rightarrow> 'a sbs_scheme \<Rightarrow> (u8 list \<times> 'a sbs_scheme) option" where
  "receive_bytes b rx n s = do {
     (r, s) \<leftarrow> xStreamBufferReceive_nowait b rx n s;
     Some (bytes_at (mem s) rx r, s)
   }"

lemma length_sb_bytes [simp]: "length (sb_bytes b s) = used (streams s b)"
  by (simp add: sb_bytes_def Let_def)

lemma upd_sb_simps [simp]:
  "streams (upd_sb b f s) = (streams s)(b := f (streams s b))" "mem (upd_sb b f s) = mem s"
  "uxCurrentNumberOfTasks (upd_sb b f s) = uxCurrentNumberOfTasks s" "core_inv X strict (upd_sb b f s) = core_inv X strict s"
  by (simp_all add: upd_sb_def core_inv_def blocked_def)

lemma more_sbs:
  fixes k k' :: "'a sbs_scheme"
  assumes "sched.more k' = sched.more k"
  shows "streams k' = streams k" "mem k' = mem k"
  using assms by (cases k, cases k', simp)+

lemma sb_notify_nobody:
  fixes s :: "'a sbs_scheme"
  assumes "sched_inv s" "0 < uxCurrentNumberOfTasks s" "who (streams s b) = 0"
  obtains s' where "sb_notify who clr b s = Some s'" "sched_inv s'" "0 < uxCurrentNumberOfTasks s'" "streams s' = streams s" "mem s' = mem s"
proof -
  obtain y s' where s': "xTaskResumeAll ((vTaskSuspendAll s)\<lparr>heap := heap s\<rparr>) = Some (y, s')" "sched_inv s'" "undisturbed s s'"
    by (rule suspend_resume [OF assms(1,2), of "heap s"]) blast
  have "(vTaskSuspendAll s)\<lparr>heap := heap s\<rparr> = vTaskSuspendAll s" "streams (vTaskSuspendAll s) = streams s"
    by (simp_all add: vTaskSuspendAll_def)
  then show ?thesis
    using s' assms(2,3) more_sbs [OF undisturbedD(2) [OF s'(3)]]
    by (intro that [of s']) (simp_all add: sb_notify_def undisturbed_def calm_def)
qed


lemma sb_usableD:
  assumes "sb_usable b tx rx N s"
  shows "b \<noteq> 0" "tx \<noteq> 0" "rx \<noteq> 0" "sched_inv s" "0 < uxCurrentNumberOfTasks s" "sb_ok (streams s b)"
    "xTaskWaitingToReceive (streams s b) = 0" "xTaskWaitingToSend (streams s b) = 0"
    "tx + N \<le> pucBuffer (streams s b) \<or> pucBuffer (streams s b) + xLength (streams s b) \<le> tx"
    "rx + N \<le> pucBuffer (streams s b) \<or> pucBuffer (streams s b) + xLength (streams s b) \<le> rx"
  using assms by (simp_all add: sb_usable_def Let_def)

lemma used_advance:
  assumes "sb_ok S" "k \<le> xLength S - 1 - used S"
  shows "used (S\<lparr>xHead := (xHead S + k) mod xLength S\<rparr>) = used S + k" "sb_ok (S\<lparr>xHead := (xHead S + k) mod xLength S\<rparr>)"
    "xHead S = (xTail S + used S) mod xLength S"
proof -
  have S: "xHead S < xLength S" "xTail S < xLength S" "xLength S < 2 ^ 31" using assms(1) by (simp_all add: sb_ok_def)
  show ok: "sb_ok (S\<lparr>xHead := (xHead S + k) mod xLength S\<rparr>)" using S by (simp add: sb_ok_def)
  have "xHead S + k < 2 * xLength S" using assms S used_less [OF assms(1)] by linarith
  from wrap_once [OF this] show "used (S\<lparr>xHead := (xHead S + k) mod xLength S\<rparr>) = used S + k"
    using used_cases [OF ok] used_cases [OF assms(1)] assms(2) S by (auto split: if_splits)
  have "xTail S + used S < 2 * xLength S" using S used_less [OF assms(1)] by linarith
  from wrap_once [OF this] show "xHead S = (xTail S + used S) mod xLength S"
    using used_cases [OF assms(1)] S by (auto split: if_splits)
qed

lemma used_consume:
  assumes "sb_ok S" "k \<le> used S"
  shows "used (S\<lparr>xTail := (xTail S + k) mod xLength S\<rparr>) = used S - k" "sb_ok (S\<lparr>xTail := (xTail S + k) mod xLength S\<rparr>)"
proof -
  have S: "xHead S < xLength S" "xTail S < xLength S" "xLength S < 2 ^ 31" using assms(1) by (simp_all add: sb_ok_def)
  show ok: "sb_ok (S\<lparr>xTail := (xTail S + k) mod xLength S\<rparr>)" using S by (simp add: sb_ok_def)
  have "xTail S + k < 2 * xLength S" using assms S used_less [OF assms(1)] by linarith
  from wrap_once [OF this] show "used (S\<lparr>xTail := (xTail S + k) mod xLength S\<rparr>) = used S - k"
    using used_cases [OF ok] used_cases [OF assms(1)] assms(2) S by (auto split: if_splits)
qed

text \<open>Writing after the contents, and reading from their front.\<close>

lemma sb_append:
  assumes S: "sb_ok (streams s b)" and k: "length bs \<le> xLength (streams s b) - 1 - used (streams s b)"
    and s': "streams s' b = (streams s b)\<lparr>xHead := (xHead (streams s b) + length bs) mod xLength (streams s b)\<rparr>"
      "mem s' = ring_put (xLength (streams s b)) (pucBuffer (streams s b)) (xHead (streams s b)) bs (mem s)"
  shows "sb_bytes b s' = sb_bytes b s @ bs"
proof -
  have "used (streams s b) + length bs \<le> xLength (streams s b)" "xTail (streams s b) < xLength (streams s b)"
    using k used_less [OF S] S by (simp_all add: sb_ok_def)
  then show ?thesis
    using ring_get_put [of "xTail (streams s b)" "xLength (streams s b)" "used (streams s b)" bs] used_advance [OF S k] s'
    by (simp add: sb_bytes_def Let_def)
qed

lemma sb_bytes_front:
  assumes S: "sb_ok (streams s b)" and n: "n \<le> used (streams s b)"
  shows "ring_get (xLength (streams s b)) (pucBuffer (streams s b)) (xTail (streams s b)) n (mem s) = take n (sb_bytes b s)"
    "ring_get (xLength (streams s b)) (pucBuffer (streams s b)) ((xTail (streams s b) + n) mod xLength (streams s b))
       (used (streams s b) - n) (mem s) = drop n (sb_bytes b s)"
  using ring_get_add [of "xLength (streams s b)" "pucBuffer (streams s b)" "xTail (streams s b)" n "used (streams s b) - n" "mem s"] n
  by (simp_all add: sb_bytes_def Let_def)


lemma ring_put_append:
  assumes "p < L" "length bs + length cs \<le> L"
  shows "ring_put L a ((p + length bs) mod L) cs (ring_put L a p bs m) = ring_put L a p (bs @ cs) m"
proof
  fix x
  have L: "0 < L" and q: "(p + length bs) mod L < L" using assms by simp_all
  show "ring_put L a ((p + length bs) mod L) cs (ring_put L a p bs m) x = ring_put L a p (bs @ cs) m x"
  proof (cases "a \<le> x \<and> x < a + L")
    case False
    then show ?thesis by (auto simp: ring_put_def)
  next
    case True
    define i where "i = (x - a + (L - p)) mod L"
    have "p + (x - a + (L - p)) = x - a + L" "x - a < L" using assms(1) True by linarith+
    then have "(p + i) mod L = x - a" unfolding i_def by (metis mod_add_right_eq mod_add_self2 mod_less)
    then have x: "x = a + (p + i) mod L" using True by simp
    have i: "i < L" using L by (simp add: i_def)
    show ?thesis
    proof (cases "length bs \<le> i")
      case True
      then have "p + i = p + length bs + (i - length bs)" by simp
      then have y: "(p + i) mod L = ((p + length bs) mod L + (i - length bs)) mod L" by (metis mod_add_left_eq)
      have "ring_put L a ((p + length bs) mod L) cs (ring_put L a p bs m) x =
          (if i - length bs < length cs then cs ! (i - length bs) else ring_put L a p bs m x)"
        unfolding x y using ring_put_read [OF q, of "i - length bs"] i by simp
      moreover have "i - length bs < length cs \<longleftrightarrow> i < length bs + length cs" using True by linarith
      ultimately show ?thesis unfolding x using ring_put_read [OF assms(1) i] True by (simp add: nth_append)
    next
      case False
      have "p + i + L = p + length bs + (L - length bs + i)" using assms(2) by simp
      then have y: "(p + i) mod L = ((p + length bs) mod L + (L - length bs + i)) mod L" by (metis mod_add_left_eq mod_add_self2)
      have "L - length bs + i < L" "\<not> L - length bs + i < length cs" using False assms(2) by simp_all
      then have "ring_put L a ((p + length bs) mod L) cs (ring_put L a p bs m) x = ring_put L a p bs m x"
        unfolding x y using ring_put_read [OF q, of "L - length bs + i" a cs "ring_put L a p bs m"] by simp
      then show ?thesis unfolding x using ring_put_read [OF assms(1) i] False by (simp add: nth_append)
    qed
  qed
qed

text \<open>The end of a write and of a read: the positions are updated and nobody is woken.\<close>

lemma sb_finish_write:
  fixes s :: "'a sbs_scheme"
  assumes u: "sb_usable b tx rx N s" and k: "length ds \<le> xLength (streams s b) - 1 - used (streams s b)"
    and s1: "s1 = upd_sb b (\<lambda>S. S\<lparr>xHead := (xHead S + length ds) mod xLength S\<rparr>)
      (s\<lparr>mem := ring_put (xLength (streams s b)) (pucBuffer (streams s b)) (xHead (streams s b)) ds (mem s)\<rparr>)"
  obtains s' where "(if c then do { s \<leftarrow> sbSEND_COMPLETED b s1; Some (r, s) } else Some (r, s1)) = Some (r, s')"
    "sb_usable b tx rx N s'" "sb_bytes b s' = sb_bytes b s @ ds" "ucFlags (streams s' b) = ucFlags (streams s b)"
    "xLength (streams s' b) = xLength (streams s b)"
proof -
  note D = sb_usableD [OF u]
  have inv1: "sched_inv s1" "0 < uxCurrentNumberOfTasks s1" "xTaskWaitingToReceive (streams s1 b) = 0" using D by (simp_all add: s1)
  obtain s2 where s2: "sbSEND_COMPLETED b s1 = Some s2" "sched_inv s2" "0 < uxCurrentNumberOfTasks s2" "streams s2 = streams s1" "mem s2 = mem s1"
    unfolding sbSEND_COMPLETED_def by (rule sb_notify_nobody [where who = xTaskWaitingToReceive and b = b, OF inv1]) blast
  have by1: "sb_bytes b s1 = sb_bytes b s @ ds" by (rule sb_append [OF D(6) k]) (simp_all add: s1)
  have "sb_usable b tx rx N s1" using D inv1 used_advance(2) [OF D(6) k] unfolding sb_usable_def by (simp add: s1 Let_def)
  moreover from this have "sb_usable b tx rx N s2" using s2 by (simp add: sb_usable_def)
  moreover have "sb_bytes b s2 = sb_bytes b s1" using s2 by (simp add: sb_bytes_def)
  ultimately show ?thesis using s2 by1 by (intro that [of "if c then s2 else s1"]) (simp_all add: s1)
qed

lemma sb_finish_read:
  fixes s :: "'a sbs_scheme"
  assumes u: "sb_usable b tx rx N s" and k: "k \<le> used (streams s b)" and bs: "length bs \<le> N"
    and s1: "s1 = upd_sb b (\<lambda>S. S\<lparr>xTail := (xTail S + k) mod xLength S\<rparr>) (s\<lparr>mem := write_bytes rx bs (mem s)\<rparr>)"
  obtains s' where "sbRECEIVE_COMPLETED b s1 = Some s'"
    "sb_usable b tx rx N s'" "sb_bytes b s' = drop k (sb_bytes b s)" "ucFlags (streams s' b) = ucFlags (streams s b)"
    "xLength (streams s' b) = xLength (streams s b)" "mem s' = write_bytes rx bs (mem s)"
proof -
  note D = sb_usableD [OF u]
  have inv1: "sched_inv s1" "0 < uxCurrentNumberOfTasks s1" "xTaskWaitingToSend (streams s1 b) = 0" using D by (simp_all add: s1)
  obtain s2 where s2: "sbRECEIVE_COMPLETED b s1 = Some s2" "sched_inv s2" "0 < uxCurrentNumberOfTasks s2" "streams s2 = streams s1" "mem s2 = mem s1"
    unfolding sbRECEIVE_COMPLETED_def by (rule sb_notify_nobody [where who = xTaskWaitingToSend and b = b, OF inv1]) blast
  have L: "0 < xLength (streams s b)" using D(6) by (simp add: sb_ok_def)
  have "write_bytes rx bs (mem s) x = mem s x" if "pucBuffer (streams s b) \<le> x" "x < pucBuffer (streams s b) + xLength (streams s b)" for x
    by (rule write_bytes_outside) (use D(10) bs that in linarith)
  then have "ring_get (xLength (streams s b)) (pucBuffer (streams s b)) p n (write_bytes rx bs (mem s)) =
      ring_get (xLength (streams s b)) (pucBuffer (streams s b)) p n (mem s)" for p n by (intro ring_get_same L)
  then have "sb_bytes b s2 = drop k (sb_bytes b s)"
    using sb_bytes_front(2) [OF D(6) k] used_consume(1) [OF D(6) k] s2(4,5) by (simp add: sb_bytes_def s1 Let_def)
  moreover have "sb_usable b tx rx N s2" using D s2 used_consume(2) [OF D(6) k] unfolding sb_usable_def by (simp add: s1 Let_def)
  ultimately show ?thesis using s2 by (intro that [of s2]) (simp_all add: s1)
qed

text \<open>The caller has written its variable.\<close>

lemma sb_caller_writes:
  assumes u: "sb_usable b tx rx N s" and n: "length bs \<le> N" and s0: "s0 = s\<lparr>mem := write_bytes tx bs (mem s)\<rparr>"
  shows "sb_usable b tx rx N s0" "sb_bytes b s0 = sb_bytes b s" "streams s0 = streams s"
    "k \<le> length bs \<Longrightarrow> bytes_at (mem s0) tx k = take k bs"
proof -
  note D = sb_usableD [OF u]
  have L: "0 < xLength (streams s b)" using D(6) by (simp add: sb_ok_def)
  have i0: "sched_inv s0" using D(4) by (simp add: s0 core_inv_def blocked_def)
  then show "sb_usable b tx rx N s0" using u by (simp add: sb_usable_def s0)
  have "write_bytes tx bs (mem s) x = mem s x" if "pucBuffer (streams s b) \<le> x" "x < pucBuffer (streams s b) + xLength (streams s b)" for x
    by (rule write_bytes_outside) (use D(9) n that in linarith)
  then show "sb_bytes b s0 = sb_bytes b s" by (simp add: sb_bytes_def s0 Let_def) (intro ring_get_same L)
  show "streams s0 = streams s" by (simp add: s0)
  show "bytes_at (mem s0) tx k = take k bs" if "k \<le> length bs"
    by (rule nth_equalityI) (use that in \<open>simp_all add: s0 nth_bytes_at write_bytes_def\<close>)
qed


section \<open>Stream buffers\<close>

definition stream_put :: "addr \<Rightarrow> addr \<Rightarrow> u8 list \<Rightarrow> 'a sbs_scheme \<Rightarrow> (u8 list \<times> 'a sbs_scheme) option" where
  "stream_put b tx bs s = map_option (\<lambda>(r, s). (take r bs, s)) (send_bytes b tx bs s)"

definition stream_ok :: "addr \<Rightarrow> nat \<Rightarrow> addr \<Rightarrow> addr \<Rightarrow> nat \<Rightarrow> 'a sbs_scheme \<Rightarrow> bool" where
  "stream_ok b cap tx rx N s \<longleftrightarrow> sb_usable b tx rx N s \<and> xLength (streams s b) = Suc cap \<and>
     \<not> is_message (streams s b) \<and> \<not> has_flag sbFLAGS_IS_BATCHING_BUFFER (streams s b)"

fun small_op :: "nat \<Rightarrow> u8 list pipe_op \<Rightarrow> bool" where
  "small_op N (Put bs) \<longleftrightarrow> length bs \<le> N"
| "small_op N (Get n) \<longleftrightarrow> n \<le> N"

definition stream_room :: "nat \<Rightarrow> u8 list \<Rightarrow> u8 list \<Rightarrow> u8 list" where
  "stream_room cap c bs = take (cap - length c) bs"

definition stream_takes :: "nat \<Rightarrow> u8 list \<Rightarrow> nat" where
  "stream_takes n c = min n (length c)"

lemma has_flag_cong: "ucFlags S' = ucFlags S \<Longrightarrow> has_flag f S' = has_flag f S"
  by (simp add: has_flag_def)

lemma stream_put_law:
  fixes s :: "'a sbs_scheme"
  assumes u: "stream_ok b cap tx rx N s" and n: "length bs \<le> N"
  shows "\<exists>s'. stream_put b tx bs s = Some (stream_room cap (sb_bytes b s) bs, s') \<and> stream_ok b cap tx rx N s' \<and>
    sb_bytes b s' = sb_bytes b s @ stream_room cap (sb_bytes b s) bs"
proof -
  have us: "sb_usable b tx rx N s" and L: "xLength (streams s b) = Suc cap" and nm: "\<not> is_message (streams s b)"
    "\<not> has_flag sbFLAGS_IS_BATCHING_BUFFER (streams s b)" using u by (simp_all add: stream_ok_def)
  define s0 where "s0 = s\<lparr>mem := write_bytes tx bs (mem s)\<rparr>"
  note c0 = sb_caller_writes [OF us n s0_def]
  note D = sb_usableD [OF c0(1)]
  define k where "k = min (length bs) (cap - used (streams s b))"
  have sp: "spaces_available (streams s0 b) = cap - used (streams s b)"
    using spaces_available_eq [OF D(6)] L c0(3) by simp
  have entry: "\<exists>q. xStreamBufferSend_entry b tx (length bs) 0 s0 = Some q"
    using D(1,2) nm c0(3) by (simp add: xStreamBufferSend_entry_def Let_def)
  have room: "stream_room cap (sb_bytes b s) bs = take k bs" by (simp add: stream_room_def k_def min_def)
  have lk: "length (take k bs) = k" by (simp add: k_def)
  define s1 where "s1 = upd_sb b (\<lambda>S. S\<lparr>xHead := (xHead S + k) mod xLength S\<rparr>)
      (s0\<lparr>mem := ring_put (xLength (streams s0 b)) (pucBuffer (streams s0 b)) (xHead (streams s0 b)) (take k bs) (mem s0)\<rparr>)"
  have s1': "s1 = upd_sb b (\<lambda>S. S\<lparr>xHead := (xHead S + length (take k bs)) mod xLength S\<rparr>)
      (s0\<lparr>mem := ring_put (xLength (streams s0 b)) (pucBuffer (streams s0 b)) (xHead (streams s0 b)) (take k bs) (mem s0)\<rparr>)"
    unfolding lk by (rule s1_def)
  have kk: "length (take k bs) \<le> xLength (streams s0 b) - 1 - used (streams s0 b)" using L c0(3) by (simp add: k_def)
  show ?thesis
  proof (cases "k = 0")
    case True
    have "stream_put b tx bs s = Some ([], s0)"
      using entry True D(1) nm sp c0(3)
      by (auto simp: stream_put_def send_bytes_def xStreamBufferSend_nowait_def s0_def [symmetric] xStreamBufferSend_finish_def
          xStreamBufferSpacesAvailable_def prvWriteMessageToBuffer_def k_def min_def split: if_splits)
    then show ?thesis using True room c0 L nm by (simp add: stream_ok_def)
  next
    case False
    have h: "xHead (streams s0 b) < xLength (streams s0 b)" using D(6) by (simp add: sb_ok_def)
    have "k < xLength (streams s0 b)" "bs \<noteq> []" using L c0(3) False by (auto simp: k_def)
    then have w: "prvWriteBytesToBuffer (streams s0 b) (take k bs) (xHead (streams s0 b)) (mem s0) =
        Some ((xHead (streams s0 b) + k) mod xLength (streams s0 b), mem s1)"
      using prvWriteBytesToBuffer_eq [OF D(6) h, of "take k bs" "mem s0"] lk False by (simp add: s1_def)
    have "prvWriteMessageToBuffer b tx (length bs) (cap - used (streams s b)) q s0 = Some (k, s1)" for q
      using nm False w c0(3) c0(4) [of k] unfolding prvWriteMessageToBuffer_def k_def [symmetric]
      by (simp add: k_def [symmetric] Let_def s1_def upd_sb_def) (simp add: k_def)
    then have r: "stream_put b tx bs s = map_option (\<lambda>(r, s). (take r bs, s))
        (if k > 0 \<and> prvBytesInBuffer (streams s1 b) \<ge> xTriggerLevelBytes (streams s1 b)
         then do { s \<leftarrow> sbSEND_COMPLETED b s1; Some (k, s) } else Some (k, s1))"
      using entry D(1) sp
      by (auto simp: stream_put_def send_bytes_def xStreamBufferSend_nowait_def s0_def [symmetric] xStreamBufferSend_finish_def
          xStreamBufferSpacesAvailable_def)
    obtain s' where s': "(if k > 0 \<and> prvBytesInBuffer (streams s1 b) \<ge> xTriggerLevelBytes (streams s1 b)
        then do { s \<leftarrow> sbSEND_COMPLETED b s1; Some (k, s) } else Some (k, s1)) = Some (k, s')"
      "sb_usable b tx rx N s'" "sb_bytes b s' = sb_bytes b s0 @ take k bs" "ucFlags (streams s' b) = ucFlags (streams s0 b)"
      "xLength (streams s' b) = xLength (streams s0 b)"
      by (rule sb_finish_write [OF c0(1) kk s1'])
    show ?thesis using r s' room c0 L nm has_flag_cong [OF s'(4)] by (simp add: stream_ok_def)
  qed
qed

lemma stream_get_law:
  fixes s :: "'a sbs_scheme"
  assumes u: "stream_ok b cap tx rx N s" and n: "n \<le> N"
  shows "\<exists>s'. receive_bytes b rx n s = Some (take (stream_takes n (sb_bytes b s)) (sb_bytes b s), s') \<and> stream_ok b cap tx rx N s' \<and>
    sb_bytes b s' = drop (stream_takes n (sb_bytes b s)) (sb_bytes b s)"
proof -
  have us: "sb_usable b tx rx N s" and L: "xLength (streams s b) = Suc cap" and nm: "\<not> is_message (streams s b)"
    "\<not> has_flag sbFLAGS_IS_BATCHING_BUFFER (streams s b)" using u by (simp_all add: stream_ok_def)
  note D = sb_usableD [OF us]
  define k where "k = min n (used (streams s b))"
  have tk: "stream_takes n (sb_bytes b s) = k" by (simp add: stream_takes_def k_def)
  have th: "rx_threshold (streams s b) = 0" using nm by (simp add: rx_threshold_def)
  note av = prvBytesInBuffer_eq [OF D(6)]
  show ?thesis
  proof (cases "k = 0")
    case True
    then have "xStreamBufferReceive_nowait b rx n s = Some (0, s)"
      using D(1,3) nm th av
      by (auto simp: xStreamBufferReceive_nowait_def xStreamBufferReceive_entry_def xStreamBufferReceive_finish_def
          prvReadMessageFromBuffer_def k_def min_def split: if_splits)
    then show ?thesis using True tk u by (simp add: receive_bytes_def bytes_at_def)
  next
    case False
    have t: "xTail (streams s b) < xLength (streams s b)" using D(6) by (simp add: sb_ok_def)
    have k: "k \<le> used (streams s b)" "0 < k" "k < xLength (streams s b)" "0 < used (streams s b)"
      using False used_less [OF D(6)] by (auto simp: k_def)
    have n0: "0 < n" using False by (simp add: k_def)
    define bs where "bs = take k (sb_bytes b s)"
    have bs: "length bs \<le> N" "length bs = k" using k(1) n by (simp_all add: bs_def k_def)
    define s1 where "s1 = upd_sb b (\<lambda>S. S\<lparr>xTail := (xTail S + k) mod xLength S\<rparr>) (s\<lparr>mem := write_bytes rx bs (mem s)\<rparr>)"
    have "prvReadBytesFromBuffer (streams s b) k (xTail (streams s b)) (mem s) =
        Some (bs, (xTail (streams s b) + k) mod xLength (streams s b))"
      using prvReadBytesFromBuffer_eq [OF D(6) t k(2,3)] sb_bytes_front(1) [OF D(6) k(1)] by (simp add: bs_def)
    then have "prvReadMessageFromBuffer b rx n (used (streams s b)) s = Some (k, s1)"
      using nm k(4) k(2) n0 unfolding prvReadMessageFromBuffer_def k_def [symmetric]
      by (simp add: k_def [symmetric] Let_def s1_def upd_sb_def)
    then have r: "xStreamBufferReceive_nowait b rx n s = map_option (Pair k) (sbRECEIVE_COMPLETED b s1)"
      using D(1,3) th av False k(4)
      by (cases "sbRECEIVE_COMPLETED b s1")
        (simp_all add: xStreamBufferReceive_nowait_def xStreamBufferReceive_entry_def xStreamBufferReceive_finish_def)
    obtain s' where s': "sbRECEIVE_COMPLETED b s1 = Some s'"
      "sb_usable b tx rx N s'" "sb_bytes b s' = drop k (sb_bytes b s)" "ucFlags (streams s' b) = ucFlags (streams s b)"
      "xLength (streams s' b) = xLength (streams s b)" "mem s' = write_bytes rx bs (mem s)"
      by (rule sb_finish_read [OF us k(1) bs(1) s1_def])
    have "bytes_at (mem s') rx k = bs" using bytes_at_write_same [OF bs(2)] s'(6) by simp
    then show ?thesis using r s' tk L nm has_flag_cong [OF s'(4)] by (simp add: stream_ok_def receive_bytes_def bs_def)
  qed
qed

interpretation stream: pipe "stream_ok b cap tx rx N" "sb_bytes b" "small_op N" "stream_put b tx" "receive_bytes b rx"
    "stream_room cap" stream_takes
  by unfold_locales (simp_all add: stream_put_law stream_get_law)


section \<open>Message buffers\<close>

text \<open>A message in the ring is its length, in four bytes, and its bytes.\<close>

definition enc :: "u8 list \<Rightarrow> u8 list" where
  "enc m = pointer_bytes (length m) @ m"

function decode :: "u8 list \<Rightarrow> u8 list list" where
  "decode bs = (if bs = [] then []
     else let n = bytes_pointer (take 4 bs) in take n (drop 4 bs) # decode (drop (4 + n) bs))"
  by pat_completeness auto
termination by (relation "measure length") auto

declare decode.simps [simp del]

lemma length_enc [simp]: "length (enc m) = 4 + length m"
  by (simp add: enc_def)

lemma decode_enc: "\<forall>m\<in>set ms. length m < 2 ^ 32 \<Longrightarrow> decode (concat (map enc ms)) = ms"
proof (induction ms)
  case Nil
  then show ?case by (simp add: decode.simps)
next
  case (Cons m ms)
  have "enc m \<noteq> []" by (metis length_enc add_is_0 length_0_conv zero_neq_numeral)
  moreover have "take 4 (enc m @ r) = pointer_bytes (length m)" "drop 4 (enc m @ r) = m @ r" for r by (simp_all add: enc_def)
  moreover have "drop (4 + length m) (enc m @ r) = r" for r by simp
  ultimately show ?case using Cons pointer_roundtrip [of "length m"] by (subst decode.simps) (simp add: Let_def)
qed

definition messages_in :: "addr \<Rightarrow> 'a sbs_scheme \<Rightarrow> u8 list list" where
  "messages_in b s = decode (sb_bytes b s)"

definition message_put :: "addr \<Rightarrow> addr \<Rightarrow> u8 list \<Rightarrow> 'a sbs_scheme \<Rightarrow> (u8 list list \<times> 'a sbs_scheme) option" where
  "message_put b tx bs s = map_option (\<lambda>(r, s). (if r > 0 then [bs] else [], s)) (send_bytes b tx bs s)"

definition message_get :: "addr \<Rightarrow> addr \<Rightarrow> nat \<Rightarrow> 'a sbs_scheme \<Rightarrow> (u8 list list \<times> 'a sbs_scheme) option" where
  "message_get b rx n s = map_option (\<lambda>(bs, s). (if bs \<noteq> [] then [bs] else [], s)) (receive_bytes b rx n s)"

definition message_ok :: "addr \<Rightarrow> nat \<Rightarrow> addr \<Rightarrow> addr \<Rightarrow> nat \<Rightarrow> 'a sbs_scheme \<Rightarrow> bool" where
  "message_ok b cap tx rx N s \<longleftrightarrow> sb_usable b tx rx N s \<and> xLength (streams s b) = Suc cap \<and> is_message (streams s b) \<and> N < 2 ^ 31 \<and>
     (\<exists>ms. sb_bytes b s = concat (map enc ms) \<and> (\<forall>m\<in>set ms. m \<noteq> [] \<and> length m < 2 ^ 32))"

definition message_room :: "nat \<Rightarrow> u8 list list \<Rightarrow> u8 list \<Rightarrow> u8 list list" where
  "message_room cap c m = (if m \<noteq> [] \<and> (\<Sum>x\<leftarrow>c. 4 + length x) + 4 + length m \<le> cap then [m] else [])"

fun message_takes :: "nat \<Rightarrow> u8 list list \<Rightarrow> nat" where
  "message_takes n [] = 0"
| "message_takes n (m # _) = (if length m \<le> n then 1 else 0)"

lemma message_okE:
  assumes "message_ok b cap tx rx N s"
  obtains ms where "sb_usable b tx rx N s" "xLength (streams s b) = Suc cap" "is_message (streams s b)" "N < 2 ^ 31"
    "sb_bytes b s = concat (map enc ms)" "\<forall>m\<in>set ms. m \<noteq> [] \<and> length m < 2 ^ 32" "messages_in b s = ms"
    "used (streams s b) = (\<Sum>x\<leftarrow>ms. 4 + length x)"
proof -
  obtain ms where ms: "sb_bytes b s = concat (map enc ms)" "\<forall>m\<in>set ms. m \<noteq> [] \<and> length m < 2 ^ 32"
    using assms by (auto simp: message_ok_def)
  have "messages_in b s = ms" using ms decode_enc [of ms] by (simp add: messages_in_def)
  moreover have "used (streams s b) = (\<Sum>x\<leftarrow>ms. 4 + length x)"
    using arg_cong [OF ms(1), of length] by (simp add: length_concat comp_def)
  ultimately show ?thesis using assms ms by (intro that) (simp_all add: message_ok_def)
qed

lemma message_put_law:
  fixes s :: "'a sbs_scheme"
  assumes u: "message_ok b cap tx rx N s" and n: "length bs \<le> N"
  shows "\<exists>s'. message_put b tx bs s = Some (message_room cap (messages_in b s) bs, s') \<and> message_ok b cap tx rx N s' \<and>
    messages_in b s' = messages_in b s @ message_room cap (messages_in b s) bs"
proof -
  obtain ms where us: "sb_usable b tx rx N s" and L: "xLength (streams s b) = Suc cap" and im: "is_message (streams s b)"
    and N: "N < 2 ^ 31" and ms: "sb_bytes b s = concat (map enc ms)" "\<forall>m\<in>set ms. m \<noteq> [] \<and> length m < 2 ^ 32"
      "messages_in b s = ms" "used (streams s b) = (\<Sum>x\<leftarrow>ms. 4 + length x)"
    by (rule message_okE [OF u])
  define s0 where "s0 = s\<lparr>mem := write_bytes tx bs (mem s)\<rparr>"
  note c0 = sb_caller_writes [OF us n s0_def]
  note D = sb_usableD [OF c0(1)]
  have sp: "spaces_available (streams s0 b) = cap - used (streams s b)"
    using spaces_available_eq [OF D(6)] L c0(3) by simp
  have a: "add32 (length bs) 4 = length bs + 4" by (rule add32_eq) (use n N in simp)
  then have entry: "\<exists>w. xStreamBufferSend_entry b tx (length bs) 0 s0 = Some (length bs + 4, w)"
    using D(1,2) im c0(3) by (simp add: xStreamBufferSend_entry_def Let_def sbBYTES_TO_STORE_MESSAGE_LENGTH_def)
  have put: "message_put b tx bs s = map_option (\<lambda>(r, s). (if r > 0 then [bs] else [], s))
      (xStreamBufferSend_finish b tx (length bs) 0 (length bs + 4) s0)"
    using entry by (auto simp: message_put_def send_bytes_def xStreamBufferSend_nowait_def s0_def [symmetric])
  let ?L = "xLength (streams s0 b)" and ?a = "pucBuffer (streams s0 b)" and ?h = "xHead (streams s0 b)"
  have h: "?h < ?L" using D(6) by (simp add: sb_ok_def)
  have ul: "used (streams s0 b) \<le> cap" using used_less [OF D(6)] L c0(3) by simp
  have w4: "prvWriteBytesToBuffer (streams s0 b) (pointer_bytes (length bs)) ?h (mem s0) =
      Some ((?h + 4) mod ?L, ring_put ?L ?a ?h (pointer_bytes (length bs)) (mem s0))" if "length bs + 4 \<le> cap - used (streams s b)"
    using prvWriteBytesToBuffer_eq [OF D(6) h, of "pointer_bytes (length bs)"] that L c0(3) by simp
  have same: ?thesis if "xStreamBufferSend_finish b tx (length bs) 0 (length bs + 4) s0 = Some (0, s1)" "sb_usable b tx rx N s1"
      "sb_bytes b s1 = sb_bytes b s" "streams s1 = streams s" "message_room cap ms bs = []" for s1
    using that put ms u by (auto simp: message_ok_def messages_in_def)
  consider (full) "cap - used (streams s b) < length bs + 4" | (empty) "length bs + 4 \<le> cap - used (streams s b)" "bs = []"
    | (fits) "length bs + 4 \<le> cap - used (streams s b)" "bs \<noteq> []" by linarith
  then show ?thesis
  proof cases
    case full
    then have "message_room cap ms bs = []" using ms(4) by (auto simp: message_room_def)
    moreover have "xStreamBufferSend_finish b tx (length bs) 0 (length bs + 4) s0 = Some (0, s0)"
      using full D(1) im sp c0(3) by (simp add: xStreamBufferSend_finish_def xStreamBufferSpacesAvailable_def prvWriteMessageToBuffer_def Let_def)
    ultimately show ?thesis using c0 by (intro same)
  next
    case empty
    define s1 where "s1 = s0\<lparr>mem := ring_put ?L ?a ?h (pointer_bytes 0) (mem s0)\<rparr>"
    have t: "xTail (streams s0 b) < ?L" "used (streams s0 b) + length (pointer_bytes 0) \<le> ?L"
      using D(6) empty L c0(3) by (simp_all add: sb_ok_def)
    have "sb_bytes b s1 = sb_bytes b s0"
      using ring_get_put [OF t, of ?a "mem s0"] used_advance(3) [OF D(6), of 0]
      by (simp add: sb_bytes_def s1_def Let_def ring_get_add)
    moreover have "sched_inv s1" using D(4) by (simp add: s1_def core_inv_def blocked_def)
    then have "sb_usable b tx rx N s1" using c0(1) by (simp add: sb_usable_def s1_def)
    moreover have "xStreamBufferSend_finish b tx (length bs) 0 (length bs + 4) s0 = Some (0, s1)"
      using empty D(1) im sp c0(3) w4
      by (simp add: xStreamBufferSend_finish_def xStreamBufferSpacesAvailable_def prvWriteMessageToBuffer_def Let_def s1_def)
    moreover have "message_room cap ms bs = []" using empty by (simp add: message_room_def)
    moreover have "streams s1 = streams s" using c0(3) by (simp add: s1_def)
    ultimately show ?thesis using c0(2) by (intro same [of s1]) simp_all
  next
    case fits
    have kk: "length (enc bs) \<le> ?L - 1 - used (streams s0 b)" using fits(1) L c0(3) by simp
    define s1 where "s1 = upd_sb b (\<lambda>S. S\<lparr>xHead := (xHead S + length (enc bs)) mod xLength S\<rparr>) (s0\<lparr>mem := ring_put ?L ?a ?h (enc bs) (mem s0)\<rparr>)"
    have tx: "bytes_at (ring_put ?L ?a ?h ds (mem s0)) tx (length bs) = bs" for ds
    proof -
      have "ring_put ?L ?a ?h ds (mem s0) (tx + i) = mem s0 (tx + i)" if "i < length bs" for i
        by (rule ring_put_outside) (use D(9) n that c0(3) in linarith)
      then have "bytes_at (ring_put ?L ?a ?h ds (mem s0)) tx (length bs) = bytes_at (mem s0) tx (length bs)"
        by (intro nth_equalityI) (simp_all add: nth_bytes_at)
      then show ?thesis using c0(4) [of "length bs"] by simp
    qed
    have "prvWriteBytesToBuffer (streams s0 b) bs ((?h + 4) mod ?L) (ring_put ?L ?a ?h (pointer_bytes (length bs)) (mem s0)) =
        Some ((?h + length (enc bs)) mod ?L, ring_put ?L ?a ?h (enc bs) (mem s0))"
      using prvWriteBytesToBuffer_eq [OF D(6), of "(?h + 4) mod ?L" bs] ring_put_append [OF h, of "pointer_bytes (length bs)" bs] fits kk L c0(3)
      by (simp add: enc_def mod_add_left_eq add.assoc)
    then have "prvWriteMessageToBuffer b tx (length bs) (cap - used (streams s b)) (length bs + 4) s0 = Some (length bs, s1)"
      using im fits w4 [OF fits(1)] tx c0(3) by (simp add: prvWriteMessageToBuffer_def Let_def s1_def upd_sb_def)
    then have r: "xStreamBufferSend_finish b tx (length bs) 0 (length bs + 4) s0 =
        (if length bs > 0 \<and> prvBytesInBuffer (streams s1 b) \<ge> xTriggerLevelBytes (streams s1 b)
         then do { s \<leftarrow> sbSEND_COMPLETED b s1; Some (length bs, s) } else Some (length bs, s1))"
      using D(1) sp by (simp add: xStreamBufferSend_finish_def xStreamBufferSpacesAvailable_def)
    obtain s' where s': "(if length bs > 0 \<and> prvBytesInBuffer (streams s1 b) \<ge> xTriggerLevelBytes (streams s1 b)
         then do { s \<leftarrow> sbSEND_COMPLETED b s1; Some (length bs, s) } else Some (length bs, s1)) = Some (length bs, s')"
      "sb_usable b tx rx N s'" "sb_bytes b s' = sb_bytes b s0 @ enc bs" "ucFlags (streams s' b) = ucFlags (streams s0 b)"
      "xLength (streams s' b) = xLength (streams s0 b)"
      by (rule sb_finish_write [OF c0(1) kk s1_def])
    have by': "sb_bytes b s' = concat (map enc (ms @ [bs]))" "\<forall>m\<in>set (ms @ [bs]). m \<noteq> [] \<and> length m < 2 ^ 32"
      using s'(3) c0(2) ms(1,2) fits(2) n N by auto
    then have "message_ok b cap tx rx N s'"
      unfolding message_ok_def using s' c0(3) L im N has_flag_cong [OF s'(4)] by (intro conjI exI [of _ "ms @ [bs]"]) simp_all
    moreover have "messages_in b s' = ms @ [bs]" unfolding messages_in_def by'(1) by (rule decode_enc) (use by'(2) in blast)
    moreover have "message_room cap ms bs = [bs]" using fits ms(4) by (simp add: message_room_def)
    ultimately show ?thesis using put r s'(1) fits(2) ms(3) by simp
  qed
qed

lemma message_get_law:
  fixes s :: "'a sbs_scheme"
  assumes u: "message_ok b cap tx rx N s" and n: "n \<le> N"
  shows "\<exists>s'. message_get b rx n s = Some (take (message_takes n (messages_in b s)) (messages_in b s), s') \<and> message_ok b cap tx rx N s' \<and>
    messages_in b s' = drop (message_takes n (messages_in b s)) (messages_in b s)"
proof -
  obtain ms where us: "sb_usable b tx rx N s" and L: "xLength (streams s b) = Suc cap" and im: "is_message (streams s b)"
    and N: "N < 2 ^ 31" and ms: "sb_bytes b s = concat (map enc ms)" "\<forall>m\<in>set ms. m \<noteq> [] \<and> length m < 2 ^ 32"
      "messages_in b s = ms" "used (streams s b) = (\<Sum>x\<leftarrow>ms. 4 + length x)"
    by (rule message_okE [OF u])
  note D = sb_usableD [OF us]
  note av = prvBytesInBuffer_eq [OF D(6)]
  have th: "rx_threshold (streams s b) = 4" using im by (simp add: rx_threshold_def sbBYTES_TO_STORE_MESSAGE_LENGTH_def)
  have get: "message_get b rx n s = map_option (\<lambda>(bs, s). (if bs \<noteq> [] then [bs] else [], s))
      (do { (r, s) \<leftarrow> xStreamBufferReceive_finish b rx n 4 (used (streams s b)) s; Some (bytes_at (mem s) rx r, s) })"
    using D(1,3) th av by (simp add: message_get_def receive_bytes_def xStreamBufferReceive_nowait_def xStreamBufferReceive_entry_def)
  have stay: ?thesis if "xStreamBufferReceive_finish b rx n 4 (used (streams s b)) s = Some (0, s)" "message_takes n ms = 0"
    using that get ms(3) u by (simp add: bytes_at_def)
  show ?thesis
  proof (cases ms)
    case Nil
    then show ?thesis using ms(4) by (intro stay) (simp_all add: xStreamBufferReceive_finish_def)
  next
    case (Cons m ms')
    let ?L = "xLength (streams s b)" and ?a = "pucBuffer (streams s b)" and ?t = "xTail (streams s b)"
    have m: "m \<noteq> []" "length m < 2 ^ 32" "4 + length m \<le> used (streams s b)" using ms(2,4) Cons by simp_all
    have ul: "used (streams s b) < ?L" "?L < 2 ^ 31" using used_less [OF D(6)] D(6) by (simp_all add: sb_ok_def)
    have t: "?t < ?L" "(?t + 4) mod ?L < ?L" using D(6) by (simp_all add: sb_ok_def)
    have all: "sb_bytes b s = pointer_bytes (length m) @ m @ concat (map enc ms')" using ms(1) Cons by (simp add: enc_def)
    have "ring_get ?L ?a ?t 4 (mem s) = pointer_bytes (length m)"
      using sb_bytes_front(1) [OF D(6), of 4] m(3) all by simp
    then have r4: "prvReadBytesFromBuffer (streams s b) 4 ?t (mem s) = Some (pointer_bytes (length m), (?t + 4) mod ?L)"
      using prvReadBytesFromBuffer_eq [OF D(6) t(1), of 4 "mem s"] m(3) ul by simp
    have "ring_get ?L ?a ((?t + 4) mod ?L) (used (streams s b) - 4) (mem s) = m @ concat (map enc ms')"
      using sb_bytes_front(2) [OF D(6), of 4] m(3) all by simp
    then have "ring_get ?L ?a ((?t + 4) mod ?L) (length m) (mem s) = m"
      using ring_get_add [of ?L ?a "(?t + 4) mod ?L" "length m" "used (streams s b) - 4 - length m" "mem s"] m(3) by simp
    then have rm: "prvReadBytesFromBuffer (streams s b) (length m) ((?t + 4) mod ?L) (mem s) = Some (m, (?t + (4 + length m)) mod ?L)"
      using prvReadBytesFromBuffer_eq [OF D(6) t(2), of "length m" "mem s"] m ul by (simp add: mod_add_left_eq add.assoc)
    have su: "sub32 (used (streams s b)) 4 = used (streams s b) - 4" by (rule sub32_eq) (use m(3) ul in simp_all)
    have bp: "bytes_pointer (pointer_bytes (length m)) = length m" by (rule pointer_roundtrip [OF m(2)])
    have big: "4 < used (streams s b)" using m by (cases m) simp_all
    show ?thesis
    proof (cases "length m \<le> n")
      case False
      have "prvReadMessageFromBuffer b rx n (used (streams s b)) s = Some (0, s)"
        using im r4 bp False by (simp add: prvReadMessageFromBuffer_def Let_def sbBYTES_TO_STORE_MESSAGE_LENGTH_def)
      then show ?thesis using False Cons big by (intro stay) (simp_all add: xStreamBufferReceive_finish_def)
    next
      case True
      define s1 where "s1 = upd_sb b (\<lambda>S. S\<lparr>xTail := (xTail S + (4 + length m)) mod xLength S\<rparr>) (s\<lparr>mem := write_bytes rx m (mem s)\<rparr>)"
      have mN: "length m \<le> N" using True n by simp
      have "min (length m) (used (streams s b) - 4) = length m" using m(3) by simp
      then have "prvReadMessageFromBuffer b rx n (used (streams s b)) s = Some (length m, s1)"
        using im r4 rm bp True m(1) su big
        by (simp add: prvReadMessageFromBuffer_def Let_def sbBYTES_TO_STORE_MESSAGE_LENGTH_def s1_def upd_sb_def)
      then have r: "xStreamBufferReceive_finish b rx n 4 (used (streams s b)) s = map_option (Pair (length m)) (sbRECEIVE_COMPLETED b s1)"
        using big m(1) by (cases "sbRECEIVE_COMPLETED b s1") (simp_all add: xStreamBufferReceive_finish_def)
      obtain s' where s': "sbRECEIVE_COMPLETED b s1 = Some s'"
        "sb_usable b tx rx N s'" "sb_bytes b s' = drop (4 + length m) (sb_bytes b s)" "ucFlags (streams s' b) = ucFlags (streams s b)"
        "xLength (streams s' b) = xLength (streams s b)" "mem s' = write_bytes rx m (mem s)"
        by (rule sb_finish_read [OF us m(3) mN s1_def])
      have by': "sb_bytes b s' = concat (map enc ms')" "\<forall>m\<in>set ms'. m \<noteq> [] \<and> length m < 2 ^ 32" using s'(3) all ms(2) Cons by simp_all
      then have "message_ok b cap tx rx N s'"
        unfolding message_ok_def using s' L im N has_flag_cong [OF s'(4)] by (intro conjI exI [of _ ms']) simp_all
      moreover have "messages_in b s' = ms'" unfolding messages_in_def by'(1) by (rule decode_enc) (use by'(2) in blast)
      moreover have "bytes_at (mem s') rx (length m) = m" using bytes_at_write_same [of m "length m"] s'(6) by simp
      ultimately show ?thesis using get r s'(1) m(1) ms(3) Cons True by simp
    qed
  qed
qed

interpretation message: pipe "message_ok b cap tx rx N" "messages_in b" "small_op N" "message_put b tx" "message_get b rx"
    "message_room cap" message_takes
  by unfold_locales (simp_all add: message_put_law message_get_law)


section \<open>Pipes of bytes and of messages\<close>

text \<open>
  C25: A stream buffer is a bounded pipe of bytes. For every sequence of writes and reads that do not wait,
  with data of any length up to the callers' variables and across any number of wraps of the ring, no assertion
  fires and every operation has the result of the reference on lists: a write accepts as many bytes as
  fit into \<open>cap\<close>, a read gets the oldest bytes, at most as many as it asks for, and the bytes in the buffer are those of the reference.
\<close>

theorem stream_buffer_is_pipe:
  assumes "stream_ok b cap tx rx N s" "\<forall>opn\<in>set os. small_op N opn"
  shows "\<exists>s'. pipe_run (stream_put b tx) (receive_bytes b rx) os s =
      Some (fst (pipe_ref (stream_room cap) stream_takes os (sb_bytes b s)), s') \<and>
    stream_ok b cap tx rx N s' \<and> sb_bytes b s' = snd (pipe_ref (stream_room cap) stream_takes os (sb_bytes b s))"
  by (rule stream.run_law [OF assms])

text \<open>
  C24: A message buffer delivers messages whole, in order and once. For every sequence of non-waiting
  sends and receives: a message is accepted just if it is not empty and it fits, with its length, into the bytes that
  are free; a receive returns the oldest message as it was sent, or nothing, and leaves the message in the buffer, when the reader's
  buffer is too small for it.
\<close>

theorem message_buffer_delivers:
  assumes "message_ok b cap tx rx N s" "\<forall>opn\<in>set os. small_op N opn"
  shows "\<exists>s'. pipe_run (message_put b tx) (message_get b rx) os s =
      Some (fst (pipe_ref (message_room cap) message_takes os (messages_in b s)), s') \<and>
    message_ok b cap tx rx N s' \<and> messages_in b s' = snd (pipe_ref (message_room cap) message_takes os (messages_in b s))"
  by (rule message.run_law [OF assms])

text \<open>The demonstration kernel with a static buffer at 64 for ten bytes, its storage at 600, both positions at 7.\<close>

definition demo_sbs :: "u8 \<Rightarrow> sbs" where
  "demo_sbs flags = kernel.extend demo_kernel \<lparr>streams = (\<lambda>_. zero_StreamBuffer)(64 := zero_StreamBuffer\<lparr>pucBuffer := 600,
     xLength := 11, xHead := 7, xTail := 7, xTriggerLevelBytes := 1, ucFlags := flags\<rparr>)\<rparr>"

lemma demo_sbs_simps [simp]:
  "streams (demo_sbs f) 64 = zero_StreamBuffer\<lparr>pucBuffer := 600, xLength := 11, xHead := 7, xTail := 7, xTriggerLevelBytes := 1, ucFlags := f\<rparr>"
  "uxCurrentNumberOfTasks (demo_sbs f) = 3"
  by (simp_all add: demo_sbs_def kernel.defs demo_kernel_def sched.defs)

lemma demo_sbs_usable: "sb_usable 64 700 800 50 (demo_sbs f)"
proof -
  have "sched_inv (demo_sbs f)"
    using demo_kernel_inv by (simp add: core_inv_def blocked_def demo_sbs_def kernel.defs demo_kernel_def sched.defs)
  then show ?thesis by (simp add: sb_usable_def sb_ok_def Let_def zero_StreamBuffer_def)
qed

lemma demo_sbs_empty: "sb_bytes 64 (demo_sbs f) = []"
  by (simp add: sb_bytes_def used_def)

theorem stream_buffer_is_pipe_witness:
  "\<exists>s'. pipe_run (stream_put 64 700) (receive_bytes 64 800)
      [Put [1, 2, 3, 4, 5, 6], Get 4, Put [7, 8, 9, 10, 11, 12, 13, 14, 15], Get 20] (demo_sbs 2) =
    Some ([[1, 2, 3, 4, 5, 6], [1, 2, 3, 4], [7, 8, 9, 10, 11, 12, 13, 14], [5, 6, 7, 8, 9, 10, 11, 12, 13, 14]], s') \<and> sb_bytes 64 s' = []"
proof -
  have "stream_ok 64 10 700 800 50 (demo_sbs 2)"
    using demo_sbs_usable [of 2] by (simp add: stream_ok_def has_flag_def sbFLAGS_IS_MESSAGE_BUFFER_def sbFLAGS_IS_BATCHING_BUFFER_def)
  from stream_buffer_is_pipe [OF this, of "[Put [1, 2, 3, 4, 5, 6], Get 4, Put [7, 8, 9, 10, 11, 12, 13, 14, 15], Get 20]"]
  show ?thesis by (simp add: demo_sbs_empty stream_room_def stream_takes_def) blast
qed

theorem message_buffer_delivers_witness:
  "\<exists>s'. pipe_run (message_put 64 700) (message_get 64 800) [Put [1, 2, 3], Put [4, 5], Get 2, Get 3, Put [6, 7, 8, 9], Get 10] (demo_sbs 3) =
    Some ([[[1, 2, 3]], [], [], [[1, 2, 3]], [[6, 7, 8, 9]], [[6, 7, 8, 9]]], s') \<and> messages_in 64 s' = []"
proof -
  have "message_ok 64 10 700 800 50 (demo_sbs 3)"
    using demo_sbs_usable [of 3] demo_sbs_empty [of 3]
    by (simp add: message_ok_def has_flag_def sbFLAGS_IS_MESSAGE_BUFFER_def exI [of _ "[]"])
  moreover have "messages_in 64 (demo_sbs 3) = []" by (simp add: messages_in_def demo_sbs_empty decode.simps)
  ultimately show ?thesis
    using message_buffer_delivers [of 64 10 700 800 50 "demo_sbs 3" "[Put [1, 2, 3], Put [4, 5], Get 2, Get 3, Put [6, 7, 8, 9], Get 10]"]
    by (simp add: message_room_def) blast
qed

end
