(* ===== verification/Printf_Stdarg.thy ===== *)
theory Printf_Stdarg
  imports FR_Prelude
begin

text \<open>
  \<^verbatim>\<open>build/gcc/printf-stdarg.c\<close>: the formatted output of the program. A string is the list of its bytes
  without the terminator, an argument a 32-bit word; a string argument is the address of the string and is read when its
  conversion is reached, so it must not overlap the output buffer. \<open>None\<close> is a read or write outside an object, a
  missing argument, or a width that overflows an \<^verbatim>\<open>int\<close>.
\<close>

section \<open>Characters\<close>

text \<open>\<open>outp\<close> is \<^verbatim>\<open>*out\<close>, or \<open>None\<close> when \<^verbatim>\<open>out\<close> is NULL and characters go to the UART.\<close>

record printer =
  ram :: "addr \<Rightarrow> u8"
  uart :: "u32 list"
  outp :: "addr option"

abbreviation chr :: "char \<Rightarrow> u8" where
  "chr c \<equiv> of_char c"

definition printchar :: "u8 \<Rightarrow> addr \<Rightarrow> printer \<Rightarrow> printer" where
  "printchar c buflimit p =
     (case outp p of
        Some a \<Rightarrow>
          if buflimit = 0 then p\<lparr>ram := (ram p)(a := c), outp := Some (a + 1)\<rparr>
          else if a < buflimit then p\<lparr>ram := (ram p)(a := c), outp := Some (a + 1)\<rparr>
          else p
      | None \<Rightarrow> p\<lparr>uart := uart p @ [ucast c]\<rparr>)"

definition PAD_RIGHT :: u32 where "PAD_RIGHT = 1"
definition PAD_ZERO :: u32 where "PAD_ZERO = 2"

text \<open>The loops \<^verbatim>\<open>for ( ; width > 0; --width)\<close> and \<^verbatim>\<open>for ( ; *string ; ++string)\<close> of \<^verbatim>\<open>prints\<close>; both count in \<open>pc\<close>.\<close>

fun print_all :: "u8 list \<Rightarrow> addr \<Rightarrow> int \<times> printer \<Rightarrow> int \<times> printer" where
  "print_all [] buflimit (pc, p) = (pc, p)"
| "print_all (c # cs) buflimit (pc, p) = print_all cs buflimit (pc + 1, printchar c buflimit p)"

definition print_pad :: "int \<Rightarrow> u8 \<Rightarrow> addr \<Rightarrow> int \<times> printer \<Rightarrow> int \<times> printer" where
  "print_pad width padchar = print_all (replicate (nat width) padchar)"

definition prints :: "u8 list \<Rightarrow> int \<Rightarrow> u32 \<Rightarrow> addr \<Rightarrow> printer \<Rightarrow> int \<times> printer" where
  "prints str width pad buflimit p =
     (let len = int (length str);
          padchar = (if width > 0 \<and> pad AND PAD_ZERO \<noteq> 0 then chr CHR ''0'' else chr CHR '' '');
          width = (if width > 0 then (if len \<ge> width then 0 else width - len) else width);
          left = (if pad AND PAD_RIGHT = 0 then width else 0);
          right = (if pad AND PAD_RIGHT = 0 then min width 0 else width)
      in print_pad right padchar buflimit (print_all str buflimit (print_pad left padchar buflimit (0, p))))"

section \<open>Numbers\<close>

definition PRINT_BUF_LEN :: nat where "PRINT_BUF_LEN = 12"

text \<open>The digit loop of \<^verbatim>\<open>printi\<close>: \<open>s\<close> is the index of the last character written to \<^verbatim>\<open>print_buf\<close>.\<close>

partial_function (option) put_digits :: "u32 \<Rightarrow> u32 \<Rightarrow> int \<Rightarrow> nat \<Rightarrow> u8 list \<Rightarrow> (nat \<times> u8 list) option" where
  "put_digits u b letbase s buf =
     (if u = 0 then Some (s, buf)
      else if s = 0 then None
      else let t = uint (u mod b);
               t = (if t \<ge> 10 then t + (letbase - 48 - 10) else t)
           in put_digits (u div b) b letbase (s - 1) (buf[s - 1 := of_int (t + 48)]))"

definition printi :: "u32 \<Rightarrow> u32 \<Rightarrow> bool \<Rightarrow> int \<Rightarrow> u32 \<Rightarrow> int \<Rightarrow> addr \<Rightarrow> printer \<Rightarrow> (int \<times> printer) option" where
  "printi i b sg width pad letbase buflimit p =
     (if i = 0 then Some (prints [chr CHR ''0''] width pad buflimit p)
      else do {
        let neg = (sg \<and> b = 10 \<and> sint i < 0);
        let u = (if neg then - i else i);
        (s, buf) \<leftarrow> put_digits u b letbase (PRINT_BUF_LEN - 1) (replicate PRINT_BUF_LEN 0);
        (pc, width, s, buf, p) \<leftarrow>
          (if neg then
             if width \<noteq> 0 \<and> pad AND PAD_ZERO \<noteq> 0
             then Some (1, width - 1, s, buf, printchar (chr CHR ''-'') buflimit p)
             else if s = 0 then None
             else Some (0, width, s - 1, buf[s - 1 := chr CHR ''-''], p)
           else Some (0, width, s, buf, p));
        let (n, p) = prints (takeWhile (\<lambda>c. c \<noteq> 0) (drop s buf)) width pad buflimit p;
        Some (pc + n, p)
      })"

section \<open>Formats\<close>

text \<open>The string at an address.\<close>

partial_function (option) c_string :: "(addr \<Rightarrow> u8) \<Rightarrow> addr \<Rightarrow> u8 list option" where
  "c_string m a = (if m a = 0 then Some [] else do { cs \<leftarrow> c_string m (a + 1); Some (m a # cs) })"

fun scan_width :: "int \<Rightarrow> u8 list \<Rightarrow> (int \<times> u8 list) option" where
  "scan_width width [] = Some (width, [])"
| "scan_width width (c # fmt) =
     (if chr CHR ''0'' \<le> c \<and> c \<le> chr CHR ''9'' then
        let w = width * 10 + uint (c - chr CHR ''0'')
        in if w < 2 ^ 31 then scan_width w fmt else None
      else Some (width, c # fmt))"

definition null_text :: "u8 list" where
  "null_text = map chr ''(null)''"

text \<open>One conversion, with the character \<open>k\<close>; an unknown one prints nothing.\<close>

definition convert :: "u8 \<Rightarrow> int \<Rightarrow> u32 \<Rightarrow> addr \<Rightarrow> u32 list \<Rightarrow> printer \<Rightarrow> (int \<times> u32 list \<times> printer) option" where
  "convert k width pad buflimit args p =
     (if k \<in> chr ` {CHR ''s'', CHR ''d'', CHR ''x'', CHR ''X'', CHR ''u'', CHR ''c''} then
        case args of
          [] \<Rightarrow> None
        | v # args \<Rightarrow> do {
            (n, p) \<leftarrow>
              (if k = chr CHR ''s'' then do {
                 str \<leftarrow> (if v \<noteq> 0 then c_string (ram p) (unat v) else Some null_text);
                 Some (prints str width pad buflimit p)
               }
               else if k = chr CHR ''d'' then printi v 10 True width pad 97 buflimit p
               else if k = chr CHR ''x'' then printi v 16 False width pad 97 buflimit p
               else if k = chr CHR ''X'' then printi v 16 False width pad 65 buflimit p
               else if k = chr CHR ''u'' then printi v 10 False width pad 97 buflimit p
               else Some (prints (takeWhile (\<lambda>c. c \<noteq> 0) [ucast v]) width pad buflimit p));
            Some (n, args, p)
          }
      else Some (0, args, p))"

text \<open>
  The loop over the format. After a \<^verbatim>\<open>%\<close> with flags or a width at the end of the format the code steps
  over the terminator.
\<close>

lemma scan_width_length: "scan_width w fmt = Some (w', rest) \<Longrightarrow> length rest \<le> length fmt"
  by (induction w fmt rule: scan_width.induct) (auto simp: Let_def split: if_splits)

function (sequential) tiny_loop :: "u8 list \<Rightarrow> u32 list \<Rightarrow> addr \<Rightarrow> int \<Rightarrow> printer \<Rightarrow> (int \<times> printer) option" where
  "tiny_loop [] args buflimit pc p = Some (pc, p)"
| "tiny_loop (c # fmt) args buflimit pc p =
     (if c \<noteq> chr CHR ''%'' then tiny_loop fmt args buflimit (pc + 1) (printchar c buflimit p)
      else case fmt of
        [] \<Rightarrow> Some (pc, p)
      | d # fmt' \<Rightarrow>
          if d = chr CHR ''%'' then tiny_loop fmt' args buflimit (pc + 1) (printchar d buflimit p)
          else
            let (pad, f) = (if d = chr CHR ''-'' then (PAD_RIGHT, fmt') else (0, d # fmt'));
                pad = (if f \<noteq> [] \<and> hd f = chr CHR ''0'' then pad OR PAD_ZERO else pad);
                f = dropWhile (\<lambda>c. c = chr CHR ''0'') f
            in case scan_width 0 f of
                 None \<Rightarrow> None
               | Some (width, []) \<Rightarrow> None
               | Some (width, k # rest) \<Rightarrow>
                   (case convert k width pad buflimit args p of
                      None \<Rightarrow> None
                    | Some (n, args, p) \<Rightarrow> tiny_loop rest args buflimit (pc + n) p))"
  by pat_completeness auto
termination
proof (relation "measure (\<lambda>(fmt, _). length fmt)", goal_cases)
  case (4 c fmt args buflimit pc p d fmt' x pad f pad' f' z width w k rest y n q args' p')
  then have "length (k # rest) \<le> length f'" using scan_width_length [of 0 f' width "k # rest"] by simp
  also have "\<dots> \<le> length f" using 4 by (simp add: length_dropWhile_le)
  also have "\<dots> \<le> length fmt" using 4 by (auto split: if_splits)
  finally show ?case by simp
qed auto

definition tiny_print :: "u8 list \<Rightarrow> u32 list \<Rightarrow> nat \<Rightarrow> printer \<Rightarrow> (int \<times> printer) option" where
  "tiny_print fmt args buflen p = do {
     buflimit \<leftarrow> (if buflen = 0 then Some 0 else map_option (\<lambda>a. a + (buflen - 1)) (outp p));
     (pc, p) \<leftarrow> tiny_loop fmt args buflimit 0 p;
     Some (pc, case outp p of None \<Rightarrow> p | Some a \<Rightarrow> p\<lparr>ram := (ram p)(a := 0)\<rparr>)
   }"

definition printf :: "u8 list \<Rightarrow> u32 list \<Rightarrow> printer \<Rightarrow> (int \<times> printer) option" where
  "printf fmt args p = tiny_print fmt args 0 (p\<lparr>outp := None\<rparr>)"

definition sprintf :: "addr \<Rightarrow> u8 list \<Rightarrow> u32 list \<Rightarrow> printer \<Rightarrow> (int \<times> printer) option" where
  "sprintf out fmt args p = tiny_print fmt args 0 (p\<lparr>outp := Some out\<rparr>)"

definition snprintf :: "addr \<Rightarrow> nat \<Rightarrow> u8 list \<Rightarrow> u32 list \<Rightarrow> printer \<Rightarrow> (int \<times> printer) option" where
  "snprintf buf count fmt args p = tiny_print fmt args count (p\<lparr>outp := Some buf\<rparr>)"

end
