(* ===== verification/Printf_Props.thy ===== *)
theory Printf_Props
  imports Printf_Stdarg
begin

text \<open>
  What the formatted output prints: the text of every directive, computed by a reference on numbers
  and lists, and nothing outside the buffer.
\<close>

section \<open>Emitting characters\<close>

definition emit :: "addr \<Rightarrow> u8 list \<Rightarrow> printer \<Rightarrow> printer" where
  "emit lim cs p = fold (\<lambda>c. printchar c lim) cs p"

lemma emit_Nil [simp]: "emit lim [] p = p"
  by (simp add: emit_def)

lemma emit_append: "emit lim (cs @ ds) p = emit lim ds (emit lim cs p)"
  by (simp add: emit_def)

lemma print_all_eq: "print_all cs lim (pc, p) = (pc + int (length cs), emit lim cs p)"
  by (induction cs arbitrary: pc p) (simp_all add: emit_def)

text \<open>To the UART, and to a buffer with a limit.\<close>

lemma emit_uart: "outp p = None \<Longrightarrow> emit lim cs p = p\<lparr>uart := uart p @ map ucast cs\<rparr>"
  by (induction cs arbitrary: p) (simp_all add: emit_def printchar_def)

lemma emit_buffer:
  assumes "outp p = Some a" "a \<le> lim" "lim \<noteq> 0"
  shows "outp (emit lim cs p) = Some (a + min (length cs) (lim - a))" "uart (emit lim cs p) = uart p"
    "ram (emit lim cs p) x = (if a \<le> x \<and> x < a + min (length cs) (lim - a) then cs ! (x - a) else ram p x)"
  using assms
proof (induction cs arbitrary: p a)
  case (Cons c cs)
  { case 1 then show ?case using Cons.IH(1) [of "printchar c lim p" "if a < lim then a + 1 else a"] by (auto simp: emit_def printchar_def) }
  { case 2 then show ?case using Cons.IH(2) [of "printchar c lim p" "if a < lim then a + 1 else a"] by (auto simp: emit_def printchar_def) }
  { case 3
    then show ?case using Cons.IH(3) [of "printchar c lim p" "if a < lim then a + 1 else a"]
      by (cases "x = a") (auto simp: emit_def printchar_def nth_Cons') }
qed (auto simp: emit_def)

section \<open>The reference\<close>

text \<open>Digits of a number, most significant first; letters start at \<open>L\<close>.\<close>

definition digit :: "nat \<Rightarrow> nat \<Rightarrow> u8" where
  "digit L d = of_nat (if d < 10 then 48 + d else L + (d - 10))"

function digits :: "nat \<Rightarrow> nat \<Rightarrow> nat \<Rightarrow> u8 list" where
  "digits b L n = (if n < b \<or> b < 2 then [digit L n] else digits b L (n div b) @ [digit L (n mod b)])"
  by pat_completeness auto
termination by (relation "measure (\<lambda>(_, _, n). n)") (auto intro: div_less_dividend)

declare digits.simps [simp del]

definition pad_text :: "bool \<Rightarrow> bool \<Rightarrow> nat \<Rightarrow> u8 list \<Rightarrow> u8 list" where
  "pad_text lft zro width text =
     (let fill = replicate (width - length text) (if zro then chr CHR ''0'' else chr CHR '' '')
      in if lft then text @ fill else fill @ text)"

definition pad_flags :: "bool \<Rightarrow> bool \<Rightarrow> u32" where
  "pad_flags lft zro = (if lft then PAD_RIGHT else 0) OR (if zro then PAD_ZERO else 0)"

lemma pad_flags_read [simp]: "pad_flags lft zro AND PAD_RIGHT = 0 \<longleftrightarrow> \<not> lft" "pad_flags lft zro AND PAD_ZERO = 0 \<longleftrightarrow> \<not> zro"
  by (cases lft; cases zro; simp add: pad_flags_def PAD_RIGHT_def PAD_ZERO_def)+

lemma prints_eq:
  "prints text (int width) (pad_flags lft zro) lim p =
     (int (length (pad_text lft zro width text)), emit lim (pad_text lft zro width text) p)"
  by (cases "width = 0")
    (auto simp: prints_def print_pad_def print_all_eq pad_text_def emit_append Let_def nat_diff_distrib not_le of_nat_diff)


section \<open>Numbers\<close>

lemma digits_small: "n < b \<Longrightarrow> digits b L n = [digit L n]"
  by (subst digits.simps) simp

lemma digits_big: "b \<le> n \<Longrightarrow> 2 \<le> b \<Longrightarrow> digits b L n = digits b L (n div b) @ [digit L (n mod b)]"
  by (subst digits.simps) simp

lemma length_digits: "n < b ^ k \<Longrightarrow> 0 < k \<Longrightarrow> 2 \<le> b \<Longrightarrow> length (digits b L n) \<le> k"
proof (induction k arbitrary: n)
  case (Suc k)
  show ?case
  proof (cases "n < b")
    case False
    then have "0 < k" using Suc.prems(1) by (cases k) auto
    moreover have "n div b < b ^ k" using Suc.prems(1,3) by (simp add: less_mult_imp_div_less mult.commute)
    ultimately show ?thesis using Suc.IH [of "n div b"] Suc.prems(3) False digits_big [of b n L] by simp
  qed (simp add: digits_small)
qed simp

text \<open>The bases and letters of the conversions.\<close>

definition radix_ok :: "nat \<Rightarrow> nat \<Rightarrow> bool" where
  "radix_ok b L \<longleftrightarrow> (b = 10 \<or> b = 16) \<and> (L = 97 \<or> L = 65)"

lemma digit_code:
  assumes "radix_ok b L" "d < b"
  shows "of_int ((if int d \<ge> 10 then int d + (int L - 48 - 10) else int d) + 48) = digit L d" "digit L d \<noteq> 0"
proof -
  have "(if int d \<ge> 10 then int d + (int L - 48 - 10) else int d) + 48 = int (if d < 10 then 48 + d else L + (d - 10))"
    by (auto simp: of_nat_diff)
  then show "of_int ((if int d \<ge> 10 then int d + (int L - 48 - 10) else int d) + 48) = digit L d"
    unfolding digit_def by (metis of_int_of_nat_eq)
  have "unat (digit L d) = (if d < 10 then 48 + d else L + (d - 10))"
    using assms by (auto simp: digit_def radix_ok_def unat_of_nat)
  then show "digit L d \<noteq> 0" using assms by (auto simp: radix_ok_def split: if_splits)
qed

lemma digits_nonzero: "radix_ok b L \<Longrightarrow> c \<in> set (digits b L n) \<Longrightarrow> c \<noteq> 0"
proof (induction b L n rule: digits.induct)
  case (1 b L n)
  have b: "2 \<le> b" using 1(2) by (auto simp: radix_ok_def)
  show ?case
  proof (cases "n < b")
    case True
    then show ?thesis using 1(3) digit_code(2) [OF 1(2) True] by (simp add: digits_small)
  next
    case False
    then have "c \<in> set (digits b L (n div b)) \<or> c = digit L (n mod b)" using 1(3) b digits_big [of b n L] by auto
    moreover have "digit L (n mod b) \<noteq> 0" using b by (intro digit_code(2) [OF 1(2)]) simp
    moreover have "c \<noteq> 0" if "c \<in> set (digits b L (n div b))" using 1(1) [OF _ 1(2) that] False b by simp
    ultimately show ?thesis by auto
  qed
qed

lemma put_digits_eq:
  assumes "radix_ok b L" "u \<noteq> 0" "length (digits b L (unat u)) \<le> s" "s \<le> length buf"
  shows "put_digits u (of_nat b) (int L) s buf =
    Some (s - length (digits b L (unat u)), take (s - length (digits b L (unat u))) buf @ digits b L (unat u) @ drop s buf)"
  using assms(2-)
proof (induction "unat u" arbitrary: u s buf rule: less_induct)
  case less
  have b: "2 \<le> b" "b < 2 ^ 32" using assms(1) by (auto simp: radix_ok_def)
  have ub: "unat (of_nat b :: u32) = b" using b by (simp add: unat_of_nat)
  have dm: "unat (u div of_nat b) = unat u div b" "unat (u mod of_nat b) = unat u mod b"
    using ub by (simp_all add: unat_div unat_mod)
  have s0: "0 < s" using less.prems(2) by (metis digits.simps length_append_singleton length_Cons list.size(3) gr_zeroI le_zero_eq nat.distinct(1))
  define c where "c = digit L (unat u mod b)"
  have ui: "uint (u mod of_nat b) = int (unat u mod b)" using dm(2) by (metis uint_nat)
  have c: "of_int ((if uint (u mod of_nat b) \<ge> 10 then uint (u mod of_nat b) + (int L - 48 - 10) else uint (u mod of_nat b)) + 48) = c"
    unfolding c_def ui by (rule digit_code(1) [OF assms(1)]) (use b in simp)
  have step: "put_digits u (of_nat b) (int L) s buf = put_digits (u div of_nat b) (of_nat b) (int L) (s - 1) (buf[s - 1 := c])"
    using less.prems(1) s0 c by (subst put_digits.simps) (simp add: Let_def)
  have dr: "drop (s - 1) (buf[s - 1 := c]) = c # drop s buf"
    using s0 less.prems(3) Cons_nth_drop_Suc [of "s - 1" "buf[s - 1 := c]"] by simp
  show ?case
  proof (cases "unat u < b")
    case True
    then have "u div of_nat b = 0" using dm(1) by (simp add: word_unat_eq_iff)
    then have "put_digits u (of_nat b) (int L) s buf = Some (s - 1, buf[s - 1 := c])"
      unfolding step by (subst put_digits.simps) simp
    moreover have "buf[s - 1 := c] = take (s - 1) buf @ c # drop s buf"
      using dr append_take_drop_id [of "s - 1" "buf[s - 1 := c]"] by (metis take_update_cancel order_refl)
    ultimately show ?thesis using True by (simp add: digits_small c_def)
  next
    case False
    define ds where "ds = digits b L (unat u div b)"
    have d: "digits b L (unat u) = ds @ [c]" using False b by (simp add: digits_big ds_def c_def)
    have "0 < unat u div b" using False b by (simp add: div_greater_zero_iff)
    then have nz: "u div of_nat b \<noteq> 0" "unat (u div of_nat b) < unat u" using dm(1) b False by auto
    have l: "length ds \<le> s - 1" "s - 1 \<le> length (buf[s - 1 := c])" using less.prems(2,3) d by simp_all
    have "put_digits u (of_nat b) (int L) s buf =
        Some (s - 1 - length ds, take (s - 1 - length ds) (buf[s - 1 := c]) @ ds @ c # drop s buf)"
      unfolding step using less.hyps [OF nz(2,1), of "s - 1" "buf[s - 1 := c]"] l unfolding dm(1) ds_def [symmetric] dr by simp
    then show ?thesis using d by simp
  qed
qed

lemma takeWhile_digits: "\<forall>c\<in>set ds. c \<noteq> 0 \<Longrightarrow> takeWhile (\<lambda>c. c \<noteq> 0) (ds @ [0 :: u8]) = ds"
  by (induction ds) auto

lemma digits_fit:
  assumes "radix_ok b L" "n < 2 ^ 32"
  shows "length (digits b L n) \<le> 10"
  by (rule length_digits) (use assms in \<open>auto simp: radix_ok_def\<close>)

lemma print_buf_eq:
  assumes "radix_ok b L" "u \<noteq> 0" "ds = digits b L (unat u)"
  shows "put_digits u (of_nat b) (int L) (PRINT_BUF_LEN - 1) (replicate PRINT_BUF_LEN 0) = Some (11 - length ds, replicate (11 - length ds) 0 @ ds @ [0])"
    "length ds \<le> 10" "takeWhile (\<lambda>c. c \<noteq> 0) (ds @ [0]) = ds"
proof -
  have "unat u < 2 ^ 32" using unsigned_less [of u] by simp
  then show l: "length ds \<le> 10" using digits_fit [OF assms(1)] assms(3) by simp
  then show "put_digits u (of_nat b) (int L) (PRINT_BUF_LEN - 1) (replicate PRINT_BUF_LEN 0) = Some (11 - length ds, replicate (11 - length ds) 0 @ ds @ [0])"
    using put_digits_eq [OF assms(1,2), of 11 "replicate 12 0"] assms(3) by (simp add: PRINT_BUF_LEN_def)
  show "takeWhile (\<lambda>c. c \<noteq> 0) (ds @ [0]) = ds"
    by (rule takeWhile_digits) (use assms digits_nonzero in blast)
qed

lemma printi_unsigned:
  assumes r: "radix_ok b L" and t: "t = pad_text lft zro width (digits b L (unat v))"
  shows "printi v (of_nat b) False (int width) (pad_flags lft zro) (int L) lim p = Some (int (length t), emit lim t p)"
proof (cases "v = 0")
  case True
  have "digits b L 0 = [48]" using r by (subst digits_small) (auto simp: radix_ok_def digit_def)
  then show ?thesis using True t by (simp add: printi_def prints_eq)
next
  case False
  note B = print_buf_eq [OF r False refl]
  then show ?thesis using False t by (simp add: printi_def prints_eq)
qed

definition int_text :: "bool \<Rightarrow> bool \<Rightarrow> nat \<Rightarrow> int \<Rightarrow> u8 list" where
  "int_text lft zro width i =
     (if i < 0 \<and> zro \<and> 0 < width then chr CHR ''-'' # pad_text lft zro (width - 1) (digits 10 97 (nat (- i)))
      else pad_text lft zro width ((if i < 0 then [chr CHR ''-''] else []) @ digits 10 97 (nat \<bar>i\<bar>)))"

lemma abs_sint:
  fixes v :: u32
  shows "sint v < 0 \<Longrightarrow> nat (- sint v) = unat (- v)" "\<not> sint v < 0 \<Longrightarrow> nat (sint v) = unat v"
proof -
  have b: "- (2 ^ 31) \<le> sint v" "sint v < 2 ^ 31" using sint_ge [of v] sint_lt [of v] by simp_all
  have e: "unat (of_int k :: u32) = nat k" if "0 \<le> k" "k < 2 ^ 32" for k :: int
  proof -
    have "(of_int k :: u32) = of_nat (nat k)" using that by simp
    then show ?thesis using that by (simp add: unat_of_nat nat_less_iff del: of_nat_nat)
  qed
  have v: "of_int (sint v) = v" by simp
  then have "of_int (- sint v) = - v" by (metis of_int_minus)
  then show "sint v < 0 \<Longrightarrow> nat (- sint v) = unat (- v)" using e [of "- sint v"] b by simp
  show "\<not> sint v < 0 \<Longrightarrow> nat (sint v) = unat v" using e [of "sint v"] b v by simp
qed

lemma replace_last: "(replicate (Suc k) (0 :: u8) @ xs)[k := c] = replicate k 0 @ c # xs"
  by (induction k) simp_all

lemma printi_signed:
  assumes t: "t = int_text lft zro width (sint v)"
  shows "printi v 10 True (int width) (pad_flags lft zro) 97 lim p = Some (int (length t), emit lim t p)"
proof -
  have r: "radix_ok 10 97" by (simp add: radix_ok_def)
  show ?thesis
  proof (cases "sint v < 0")
    case False
    then have "printi v 10 True (int width) (pad_flags lft zro) 97 lim p = printi v 10 False (int width) (pad_flags lft zro) 97 lim p"
      by (simp add: printi_def)
    moreover have "nat \<bar>sint v\<bar> = unat v" using abs_sint(2) [OF False] False by simp
    ultimately show ?thesis using printi_unsigned [OF r, of t lft zro width v lim p] t False by (simp add: int_text_def)
  next
    case True
    define ds where "ds = digits 10 97 (unat (- v))"
    have nz: "v \<noteq> 0" "- v \<noteq> 0" using True by auto
    note n = abs_sint(1) [OF True]
    note B = print_buf_eq [OF r nz(2) ds_def]
    have "11 - length ds = Suc (10 - length ds)" using B(2) by simp
    then have rep: "(replicate (11 - length ds) 0 @ ds @ [0])[10 - length ds := 45] = replicate (10 - length ds) 0 @ 45 # ds @ [0 :: u8]"
      by (simp only: replace_last)
    have dr: "drop (11 - length ds) (replicate (11 - length ds) 0 @ ds @ [0]) = ds @ [0]"
      "drop (10 - length ds) (replicate (10 - length ds) 0 @ 45 # ds @ [0]) = 45 # ds @ [0]" by simp_all
    show ?thesis
    proof (cases "width \<noteq> 0 \<and> zro")
      case True
      then obtain w where w: "width = Suc w" by (cases width) auto
      then have "int width - 1 = int w" by simp
      then show ?thesis using True w \<open>sint v < 0\<close> nz B n t dr(1) prints_eq [of ds w lft zro lim "printchar 45 lim p"]
        by (simp add: printi_def int_text_def ds_def [symmetric] emit_def)
    next
      case False
      then show ?thesis using \<open>sint v < 0\<close> nz B n t rep dr(2)
        by (auto simp: printi_def prints_eq int_text_def ds_def [symmetric])
    qed
  qed
qed


section \<open>Directives\<close>

text \<open>A format as a list of directives, its text, its arguments, and what it prints.\<close>

datatype val = Str u32 "u8 list" | Dec u32 | Hex u32 | HEX u32 | Uns u32 | Chr u32

datatype dir = Lit u8 | Conv bool bool nat val

definition width_text :: "nat \<Rightarrow> u8 list" where
  "width_text w = (if w = 0 then [] else digits 10 97 w)"

fun kind :: "val \<Rightarrow> u8" where
  "kind (Str _ _) = chr CHR ''s''"
| "kind (Dec _) = chr CHR ''d''"
| "kind (Hex _) = chr CHR ''x''"
| "kind (HEX _) = chr CHR ''X''"
| "kind (Uns _) = chr CHR ''u''"
| "kind (Chr _) = chr CHR ''c''"

fun arg :: "val \<Rightarrow> u32" where
  "arg (Str v _) = v"
| "arg (Dec v) = v"
| "arg (Hex v) = v"
| "arg (HEX v) = v"
| "arg (Uns v) = v"
| "arg (Chr v) = v"

fun dir_format :: "dir \<Rightarrow> u8 list" where
  "dir_format (Lit c) = (if c = chr CHR ''%'' then [c, c] else [c])"
| "dir_format (Conv lft zro w v) =
     chr CHR ''%'' # (if lft then [chr CHR ''-''] else []) @ (if zro then [chr CHR ''0''] else []) @ width_text w @ [kind v]"

fun dir_args :: "dir \<Rightarrow> u32 list" where
  "dir_args (Lit c) = []"
| "dir_args (Conv lft zro w v) = [arg v]"

fun val_text :: "bool \<Rightarrow> bool \<Rightarrow> nat \<Rightarrow> val \<Rightarrow> u8 list" where
  "val_text lft zro w (Str v bs) = pad_text lft zro w bs"
| "val_text lft zro w (Dec v) = int_text lft zro w (sint v)"
| "val_text lft zro w (Hex v) = pad_text lft zro w (digits 16 97 (unat v))"
| "val_text lft zro w (HEX v) = pad_text lft zro w (digits 16 65 (unat v))"
| "val_text lft zro w (Uns v) = pad_text lft zro w (digits 10 97 (unat v))"
| "val_text lft zro w (Chr v) = pad_text lft zro w (if ucast v = (0 :: u8) then [] else [ucast v])"

fun dir_text :: "dir \<Rightarrow> u8 list" where
  "dir_text (Lit c) = [c]"
| "dir_text (Conv lft zro w v) = val_text lft zro w v"

definition format_of :: "dir list \<Rightarrow> u8 list" where
  "format_of ds = concat (map dir_format ds)"

definition args_of :: "dir list \<Rightarrow> u32 list" where
  "args_of ds = concat (map dir_args ds)"

definition text_of :: "dir list \<Rightarrow> u8 list" where
  "text_of ds = concat (map dir_text ds)"

text \<open>A string argument is NULL or the address of a string that the output does not overwrite.\<close>

definition str_at :: "(addr \<Rightarrow> u8) \<Rightarrow> addr \<Rightarrow> u8 list \<Rightarrow> bool" where
  "str_at m a bs \<longleftrightarrow> (\<forall>i<length bs. m (a + i) = bs ! i \<and> bs ! i \<noteq> 0) \<and> m (a + length bs) = 0"

fun dir_ok :: "(addr \<Rightarrow> u8) \<Rightarrow> addr \<Rightarrow> addr \<Rightarrow> dir \<Rightarrow> bool" where
  "dir_ok m lo hi (Lit c) \<longleftrightarrow> c \<noteq> 0"
| "dir_ok m lo hi (Conv lft zro w v) \<longleftrightarrow> w < 2 ^ 31 \<and>
     (case v of
        Str a bs \<Rightarrow> if a = 0 then bs = null_text
                    else str_at m (unat a) bs \<and> (unat a + length bs < lo \<or> hi \<le> unat a)
      | _ \<Rightarrow> True)"

lemma c_string_eq: "str_at m a bs \<Longrightarrow> c_string m a = Some bs"
proof (induction bs arbitrary: a)
  case Nil
  then show ?case by (subst c_string.simps) (simp add: str_at_def)
next
  case (Cons b bs)
  then have "m a = b" "b \<noteq> 0" by (auto simp: str_at_def)
  moreover have "str_at m (a + 1) bs" using Cons.prems by (auto simp: str_at_def)
  ultimately show ?case using Cons.IH by (subst c_string.simps) simp
qed

lemma convert_eq:
  assumes ok: "dir_ok (ram p) lo hi (Conv lft zro w v)" and t: "t = val_text lft zro w v"
  shows "convert (kind v) (int w) (pad_flags lft zro) lim (arg v # args) p = Some (int (length t), args, emit lim t p)"
proof -
  have r: "radix_ok 10 97" "radix_ok 16 97" "radix_ok 16 65" by (simp_all add: radix_ok_def)
  show ?thesis
  proof (cases v)
    case (Str a bs)
    then have "(if a \<noteq> 0 then c_string (ram p) (unat a) else Some null_text) = Some bs"
      using ok c_string_eq [of "ram p" "unat a" bs] by (auto split: if_splits)
    then show ?thesis using Str t by (simp add: convert_def prints_eq)
  next
    case (Dec i)
    then show ?thesis using t printi_signed [of t lft zro w i lim p] by (simp add: convert_def)
  next
    case (Hex i)
    then show ?thesis using t printi_unsigned [OF r(2), of t lft zro w i lim p] by (simp add: convert_def)
  next
    case (HEX i)
    then show ?thesis using t printi_unsigned [OF r(3), of t lft zro w i lim p] by (simp add: convert_def)
  next
    case (Uns i)
    then show ?thesis using t printi_unsigned [OF r(1), of t lft zro w i lim p] by (simp add: convert_def)
  next
    case (Chr i)
    then show ?thesis using t by (simp add: convert_def prints_eq)
  qed
qed

text \<open>Scanning flags and width.\<close>

lemma digit_scan:
  assumes "d < 10"
  shows "(48 :: u8) \<le> digit 97 d" "digit 97 d \<le> 57" "uint (digit 97 d - 48) = int d" "0 < d \<Longrightarrow> digit 97 d \<noteq> 48"
proof -
  have "digit 97 d = of_nat (48 + d)" using assms by (simp only: digit_def if_True)
  then have "unat (digit 97 d) = (48 + d) mod 2 ^ 8" by (simp only: unat_of_nat) simp
  then have u: "unat (digit 97 d) = 48 + d" using assms by simp
  show "(48 :: u8) \<le> digit 97 d" "digit 97 d \<le> 57" using u assms by (simp_all add: word_le_nat_alt)
  have "digit 97 d - 48 = of_nat d" using assms by (simp add: digit_def)
  then show "uint (digit 97 d - 48) = int d" using assms by (simp add: unsigned_of_nat take_bit_nat_eq_self)
  show "0 < d \<Longrightarrow> digit 97 d \<noteq> 48" using u by auto
qed

lemma scan_digits:
  assumes "acc * 10 ^ length (digits 10 97 n) + int n < 2 ^ 31" "0 \<le> acc"
  shows "scan_width acc (digits 10 97 n @ rest) = scan_width (acc * 10 ^ length (digits 10 97 n) + int n) rest"
  using assms
proof (induction n arbitrary: rest rule: less_induct)
  case (less n)
  show ?case
  proof (cases "n < 10")
    case True
    then show ?thesis using less.prems digit_scan [OF True] by (simp add: digits_small)
  next
    case False
    define ds where "ds = digits 10 97 (n div 10)"
    have d: "digits 10 97 n = ds @ [digit 97 (n mod 10)]" using False by (simp add: digits_big ds_def)
    let ?a = "acc * 10 ^ length ds + int (n div 10)"
    have e: "?a * 10 + int (n mod 10) = acc * 10 ^ length (digits 10 97 n) + int n"
      using d by (simp add: algebra_simps zmod_int zdiv_int)
    have nn: "0 \<le> acc * 10 ^ length ds" using less.prems(2) by simp
    moreover have "0 \<le> int (n div 10)" "0 \<le> int (n mod 10)" by simp_all
    moreover define X Y Z where "X = acc * 10 ^ length ds" and "Y = int (n div 10)" and "Z = int (n mod 10)"
    moreover have "(X + Y) * 10 + Z < 2 ^ 31" using e less.prems(1) unfolding X_def Y_def Z_def by linarith
    ultimately have "0 \<le> X" "0 \<le> Y" "0 \<le> Z" "(X + Y) * 10 + Z < 2147483648" by simp_all
    then have "X + Y < 2147483648" by presburger
    then have a: "?a < 2 ^ 31" by (simp add: X_def Y_def)
    have "scan_width acc (ds @ (digit 97 (n mod 10) # rest)) = scan_width ?a (digit 97 (n mod 10) # rest)"
      unfolding ds_def by (rule less.IH) (use a False less.prems(2) in \<open>simp_all add: ds_def\<close>)
    also have "\<dots> = scan_width (?a * 10 + int (n mod 10)) rest"
      using digit_scan [of "n mod 10"] e less.prems(1) by simp
    finally show ?thesis unfolding e using d by simp
  qed
qed


lemma scan_width_text:
  assumes "w < 2 ^ 31" "\<not> ((48 :: u8) \<le> k \<and> k \<le> 57)"
  shows "scan_width 0 (width_text w @ k # rest) = Some (int w, k # rest)"
  using assms scan_digits [of 0 w "k # rest"] by (auto simp: width_text_def)

lemma hd_digits: "0 < n \<Longrightarrow> hd (digits 10 97 n) \<noteq> 48 \<and> hd (digits 10 97 n) \<noteq> 37 \<and> hd (digits 10 97 n) \<noteq> 45 \<and> digits 10 97 n \<noteq> []"
proof (induction n rule: less_induct)
  case (less n)
  show ?case
  proof (cases "n < 10")
    case True
    then show ?thesis using less.prems digit_scan(1,4) [OF True] by (auto simp: digits_small)
  next
    case False
    then show ?thesis using less.IH [of "n div 10"] by (auto simp: digits_big)
  qed
qed

lemma kind_codes: "kind v \<noteq> 48" "kind v \<noteq> 37" "kind v \<noteq> 45" "\<not> ((48 :: u8) \<le> kind v \<and> kind v \<le> 57)"
  by (cases v; simp)+

lemma tiny_loop_conv:
  assumes w: "w < 2 ^ 31"
  shows "tiny_loop (dir_format (Conv lft zro w v) @ fmt) args lim pc p =
    (case convert (kind v) (int w) (pad_flags lft zro) lim args p of
       None \<Rightarrow> None | Some (n, args, p) \<Rightarrow> tiny_loop fmt args lim (pc + n) p)"
proof -
  define f where "f = (if zro then [48] else []) @ width_text w @ kind v # fmt"
  define g where "g = width_text w @ kind v # fmt"
  have g: "g \<noteq> []" "hd g \<noteq> 48" "hd g \<noteq> 37" "hd g \<noteq> 45"
    using hd_digits [of w] kind_codes [of v] by (auto simp: g_def width_text_def)
  then have f: "f \<noteq> []" "hd f = 48 \<longleftrightarrow> zro" "hd f \<noteq> 37" "hd f \<noteq> 45" "dropWhile (\<lambda>c. c = 48) f = g"
    by (auto simp: f_def g_def [symmetric] neq_Nil_conv)
  have sc: "scan_width 0 g = Some (int w, kind v # fmt)" unfolding g_def by (rule scan_width_text [OF w kind_codes(4)])
  have fm: "dir_format (Conv lft zro w v) @ fmt = 37 # (if lft then [45] else []) @ f" by (simp add: f_def)
  obtain d f' where df: "f = d # f'" using f(1) by (cases f) auto
  show ?thesis
  proof (cases lft)
    case True
    then show ?thesis unfolding fm using f sc by (cases zro) (simp_all add: pad_flags_def)
  next
    case False
    then show ?thesis unfolding fm df using f(2-4) [unfolded df] sc [folded f(5), unfolded df]
      by (cases zro) (simp_all add: pad_flags_def)
  qed
qed

text \<open>Output stays inside the buffer.\<close>

definition inside :: "addr \<Rightarrow> addr \<Rightarrow> printer \<Rightarrow> bool" where
  "inside lo lim p \<longleftrightarrow> (case outp p of None \<Rightarrow> True | Some a \<Rightarrow> lo \<le> a \<and> a \<le> lim \<and> lim \<noteq> 0)"

lemma emit_inside:
  assumes "inside lo lim p"
  shows "inside lo lim (emit lim cs p)" "x < lo \<or> lim \<le> x \<Longrightarrow> ram (emit lim cs p) x = ram p x"
  using assms emit_uart [of p lim cs] emit_buffer [of p _ lim cs] by (auto simp: inside_def split: option.splits)

lemma dir_ok_emit:
  assumes "inside lo lim p" "dir_ok (ram p) lo (Suc lim) d"
  shows "dir_ok (ram (emit lim cs p)) lo (Suc lim) d"
  using assms emit_inside(2) [OF assms(1)]
  by (cases d) (auto simp: str_at_def split: val.splits)

lemma tiny_loop_eq:
  assumes "inside lo lim p" "\<forall>d\<in>set ds. dir_ok (ram p) lo (Suc lim) d"
  shows "tiny_loop (format_of ds) (args_of ds) lim pc p = Some (pc + int (length (text_of ds)), emit lim (text_of ds) p)"
  using assms
proof (induction ds arbitrary: pc p)
  case Nil
  then show ?case by (simp add: format_of_def args_of_def text_of_def)
next
  case (Cons d ds)
  define t where "t = dir_text d"
  have ih: "tiny_loop (format_of ds) (args_of ds) lim pc' (emit lim t p) = Some (pc' + int (length (text_of ds)), emit lim (text_of ds) (emit lim t p))" for pc'
    by (rule Cons.IH) (use Cons.prems emit_inside(1) dir_ok_emit in auto)
  have one: "tiny_loop (dir_format d @ format_of ds) (dir_args d @ args_of ds) lim pc p =
      tiny_loop (format_of ds) (args_of ds) lim (pc + int (length t)) (emit lim t p)"
  proof (cases d)
    case (Lit c)
    then show ?thesis by (simp add: t_def emit_def)
  next
    case (Conv lft zro w v)
    have ok: "dir_ok (ram p) lo (Suc lim) (Conv lft zro w v)" using Cons.prems(2) Conv by simp
    then have "w < 2 ^ 31" by simp
    from tiny_loop_conv [OF this, of lft zro v "format_of ds" "arg v # args_of ds" lim pc p]
    show ?thesis using convert_eq [OF ok, of t lim "args_of ds"] Conv by (simp add: t_def del: dir_format.simps)
  qed
  have "format_of (d # ds) = dir_format d @ format_of ds" "args_of (d # ds) = dir_args d @ args_of ds" "text_of (d # ds) = t @ text_of ds"
    by (simp_all add: format_of_def args_of_def text_of_def t_def)
  then show ?case using one ih by (simp add: emit_append add.assoc)
qed


lemma pad_text_nonzero: "\<forall>c\<in>set t. c \<noteq> 0 \<Longrightarrow> \<forall>c\<in>set (pad_text lft zro w t). c \<noteq> 0"
  by (auto simp: pad_text_def Let_def split: if_splits)

lemma text_nonzero:
  assumes ok: "dir_ok m lo hi d" and c: "c \<in> set (dir_text d)"
  shows "c \<noteq> 0"
proof (cases d)
  case (Conv lft zro w v)
  have dg: "\<forall>c\<in>set (digits b L n). c \<noteq> 0" if "(b, L) \<in> {(10, 97), (16, 97), (16, 65)}" for b L n
    by (intro ballI digits_nonzero) (use that in \<open>auto simp: radix_ok_def\<close>)
  have d10: "\<forall>c\<in>set (digits 10 97 n). c \<noteq> 0" for n by (rule dg) simp
  have "\<forall>c\<in>set (val_text lft zro w v). c \<noteq> 0"
  proof (cases v)
    case (Str a bs)
    have "\<forall>c\<in>set null_text. c \<noteq> 0" by (simp add: null_text_def)
    then have "\<forall>c\<in>set bs. c \<noteq> 0" using ok Conv Str by (auto simp: str_at_def in_set_conv_nth split: if_splits)
    then show ?thesis using Str by (simp add: pad_text_nonzero)
  next
    case (Dec i)
    have "\<forall>c\<in>set ((if sint i < 0 then [chr CHR ''-''] else []) @ digits 10 97 n). c \<noteq> 0" for n using d10 [of n] by auto
    from pad_text_nonzero [OF this] pad_text_nonzero [OF d10] show ?thesis unfolding Dec val_text.simps int_text_def
      by (simp del: of_char_eq_iff)
  next
    case (Hex i)
    have "\<forall>c\<in>set (digits 16 97 n). c \<noteq> 0" for n by (rule dg) simp
    from pad_text_nonzero [OF this] show ?thesis using Hex by simp
  next
    case (HEX i)
    have "\<forall>c\<in>set (digits 16 65 n). c \<noteq> 0" for n by (rule dg) simp
    from pad_text_nonzero [OF this] show ?thesis using HEX by simp
  next
    case (Uns i)
    then show ?thesis using pad_text_nonzero [OF d10] by simp
  next
    case (Chr i)
    have "\<forall>c\<in>set (if ucast i = (0 :: u8) then [] else [ucast i]). c \<noteq> (0 :: u8)" by auto
    from pad_text_nonzero [OF this] show ?thesis unfolding Chr val_text.simps .
  qed
  then show ?thesis using c Conv by auto
qed (use ok c in auto)

section \<open>Output\<close>

text \<open>
  C26: Formatted output prints what the format says, and nothing outside the buffer. For every format made
  of characters and conversions (strings, signed and unsigned decimals, hexadecimals, characters, with
  flags and widths) and the matching arguments: \<^verbatim>\<open>printf\<close> sends exactly the text of the
  directives to the UART; \<^verbatim>\<open>snprintf\<close> with a buffer of \<open>count\<close> bytes, at least one, stores as much of the text as
  leaves room for the terminator, terminates it, changes no byte outside the buffer, and returns the
  length of the whole text. The text is the reference on numbers and lists, for every 32-bit value.
\<close>

theorem console_output_exact:
  assumes ok: "\<forall>d\<in>set ds. dir_ok (ram p) buf (buf + count) d" and b: "0 < count" "0 < buf"
  shows "printf (format_of ds) (args_of ds) p =
      Some (int (length (text_of ds)), p\<lparr>outp := None, uart := uart p @ map ucast (text_of ds)\<rparr>) \<and>
    (\<exists>p'. snprintf buf count (format_of ds) (args_of ds) p = Some (int (length (text_of ds)), p') \<and> uart p' = uart p \<and>
       str_at (ram p') buf (take (count - 1) (text_of ds)) \<and> (\<forall>x. x < buf \<or> buf + count \<le> x \<longrightarrow> ram p' x = ram p x))"
proof (rule conjI)
  have hi: "buf + count = Suc (buf + (count - 1))" using b by simp
  note ok' = ok [unfolded hi]
  show "printf (format_of ds) (args_of ds) p =
      Some (int (length (text_of ds)), p\<lparr>outp := None, uart := uart p @ map ucast (text_of ds)\<rparr>)"
  proof -
    have "inside buf 0 (p\<lparr>outp := None\<rparr>)" by (simp add: inside_def)
    moreover have "dir_ok (ram (p\<lparr>outp := None\<rparr>)) buf (Suc 0) d" if "d \<in> set ds" for d
    proof (cases d)
      case (Conv lft zro w v)
      have "unat a \<noteq> 0" if "a \<noteq> 0" for a :: u32 using that unat_gt_0 [of a] by linarith
      then show ?thesis using ok that Conv by (auto split: val.splits simp: Suc_le_eq)
    qed (use ok that in auto)
    ultimately show ?thesis
      using tiny_loop_eq [of buf 0 "p\<lparr>outp := None\<rparr>" ds 0] emit_uart [of "p\<lparr>outp := None\<rparr>" 0 "text_of ds"]
      by (simp add: printf_def tiny_print_def)
  qed
  show "\<exists>p'. snprintf buf count (format_of ds) (args_of ds) p = Some (int (length (text_of ds)), p') \<and> uart p' = uart p \<and>
       str_at (ram p') buf (take (count - 1) (text_of ds)) \<and> (\<forall>x. x < buf \<or> buf + count \<le> x \<longrightarrow> ram p' x = ram p x)"
  proof -
    define q where "q = p\<lparr>outp := Some buf\<rparr>"
    define q1 where "q1 = emit (buf + (count - 1)) (text_of ds) q"
    define n where "n = min (length (text_of ds)) (count - 1)"
    have "inside buf (buf + (count - 1)) q" using b by (simp add: inside_def q_def)
    moreover have "\<forall>d\<in>set ds. dir_ok (ram q) buf (Suc (buf + (count - 1))) d" using ok' by (simp add: q_def)
    ultimately have e: "tiny_loop (format_of ds) (args_of ds) (buf + (count - 1)) 0 q = Some (int (length (text_of ds)), q1)"
      using tiny_loop_eq [of buf "buf + (count - 1)" q ds 0] by (simp add: q1_def)
    have q1: "outp q1 = Some (buf + n)" "uart q1 = uart p"
      "\<And>x. ram q1 x = (if buf \<le> x \<and> x < buf + n then text_of ds ! (x - buf) else ram p x)"
      using emit_buffer [of q buf "buf + (count - 1)" "text_of ds"] b by (simp_all add: q1_def q_def n_def)
    have nz: "text_of ds ! i \<noteq> 0" if "i < n" for i
    proof -
      have "text_of ds ! i \<in> set (text_of ds)" using that by (simp add: n_def)
      then obtain d where "d \<in> set ds" "text_of ds ! i \<in> set (dir_text d)" by (auto simp: text_of_def)
      then show ?thesis using ok text_nonzero by blast
    qed
    have "snprintf buf count (format_of ds) (args_of ds) p = Some (int (length (text_of ds)), q1\<lparr>ram := (ram q1)(buf + n := 0)\<rparr>)"
      using e q1(1) b by (simp add: snprintf_def tiny_print_def q_def)
    moreover have "length (take (count - 1) (text_of ds)) = n" by (simp add: n_def)
    then have "str_at ((ram q1)(buf + n := 0)) buf (take (count - 1) (text_of ds))"
      using q1(3) nz unfolding str_at_def by (auto simp: n_def)
    moreover have "((ram q1)(buf + n := 0)) x = ram p x" if "x < buf \<or> buf + count \<le> x" for x
      using that q1(3) b by (auto simp: n_def)
    ultimately show ?thesis using q1(2) by (intro exI [of _ "q1\<lparr>ram := (ram q1)(buf + n := 0)\<rparr>"]) auto
  qed
qed

text \<open>
  Two inputs outside these formats: a buffer of size zero is taken for one without a limit, and a
  format that ends after a width makes the code read past its terminator.
\<close>

lemma snprintf_zero_is_sprintf: "snprintf buf 0 fmt args p = sprintf buf fmt args p"
  by (simp add: snprintf_def sprintf_def)

lemma format_end_overrun: "printf (map chr ''%5'') args p = None"
  by (simp add: printf_def tiny_print_def)

text \<open>An example: \<^verbatim>\<open>snprintf( buf, 8, "%-4s=%05d!", s, -42 )\<close> with the string \<^verbatim>\<open>ab\<close> at address 16.\<close>

definition demo_printer :: printer where
  "demo_printer = \<lparr>ram = (\<lambda>_. 0)(16 := chr CHR ''a'', 17 := chr CHR ''b''), uart = [], outp = None\<rparr>"

definition demo_format :: "dir list" where
  "demo_format = [Conv True False 4 (Str 16 (map chr ''ab'')), Lit (chr CHR ''=''), Conv False True 5 (Dec (- 42)), Lit (chr CHR ''!'')]"

theorem console_output_exact_witness:
  "format_of demo_format = map chr ''%-4s=%05d!'' \<and> args_of demo_format = [16, - 42] \<and>
   (\<exists>p'. printf (map chr ''%-4s=%05d!'') [16, - 42] demo_printer = Some (11, p') \<and> uart p' = map of_char ''ab  =-0042!'') \<and>
   (\<exists>p'. snprintf 64 8 (map chr ''%-4s=%05d!'') [16, - 42] demo_printer = Some (11, p') \<and> str_at (ram p') 64 (map chr ''ab  =-0''))"
proof -
  have f: "format_of demo_format = map chr ''%-4s=%05d!''" "args_of demo_format = [16, - 42]"
    by (simp_all add: demo_format_def format_of_def args_of_def width_text_def digits_small digit_def)
  have t: "text_of demo_format = map chr ''ab  =-0042!''"
    by code_simp
  have "\<forall>d\<in>set demo_format. dir_ok (ram demo_printer) 64 (64 + 8) d"
    by (simp add: demo_format_def demo_printer_def str_at_def less_Suc_eq all_conj_distrib)
  from console_output_exact [OF this] show ?thesis by (simp add: f t demo_printer_def) blast
qed

end
