(* ===== verification/FR_Start.thy ===== *)
theory FR_Start
  imports FR_Timer_Service FR_Create FR_Port
begin

text \<open>
  Start of the system: \<^verbatim>\<open>vTaskStartScheduler\<close> with the idle and the timer service tasks (\<^verbatim>\<open>tasks.c\<close>,
  \<^verbatim>\<open>timers.c\<close>, \<^verbatim>\<open>main.c\<close>), \<^verbatim>\<open>xPortStartScheduler\<close> with the probing of the interrupt priority bits and
  the set-up of the tick (\<^verbatim>\<open>port.c\<close>), \<^verbatim>\<open>vPortValidateInterruptPriority\<close> and \<^verbatim>\<open>vTaskEndScheduler\<close>.

  The addresses that the linker gives to static variables and to code are the record \<open>image\<close>, a
  parameter. The processor's registers are the record \<open>nvic\<close>: a priority register keeps the bits that
  the hardware implements (\<open>ip_mask\<close>) and drops the others. The state of the system, \<open>board\<close>, adds
  the registers and the idle task's handle to the kernel and the timers.
\<close>

section \<open>Processor\<close>

record nvic = cpu +
  vectors :: "addr list"
  ip_mask :: u8
  ip_registers :: "nat \<Rightarrow> u8"
  aircr :: u32
  shpr2 :: u32
  shpr3 :: u32
  systick_ctrl :: u32
  systick_load :: u32
  systick_current :: u32
  primask :: bool
  faultmask :: bool
  msp :: addr
  ucMaxSysCallPriority :: u8
  ulMaxPRIGROUPValue :: u32

record image =
  estack :: addr
  Reset_Handler :: addr
  Default_Handler :: addr
  HardFault_Handler :: addr
  xPortSysTickHandler_code :: addr
  TIMER0_Handler :: addr
  TIMER1_Handler :: addr
  EthernetISR_code :: addr
  xIdleTaskTCB :: addr
  uxIdleTaskStack :: addr
  xTimerTaskTCB :: addr
  uxTimerTaskStack :: addr
  xStaticTimerQueue :: addr
  ucStaticTimerQueueStorage :: addr
  prvIdleTask_code :: addr
  prvTimerTask_code :: addr
  vPortSVCHandler_code :: addr
  xPortPendSVHandler_code :: addr

text \<open>The vector table of \<^verbatim>\<open>startup_gcc.c\<close>.\<close>

definition isr_vector :: "image \<Rightarrow> addr list" where
  "isr_vector img =
     [estack img, Reset_Handler img, Default_Handler img, HardFault_Handler img, Default_Handler img,
      Default_Handler img, Default_Handler img, 0, 0, 0, 0, vPortSVCHandler_code img, Default_Handler img, 0,
      xPortPendSVHandler_code img, xPortSysTickHandler_code img, 0, 0, 0, 0, 0, 0, 0, 0,
      TIMER0_Handler img, TIMER1_Handler img, 0, 0, 0, EthernetISR_code img]"

definition portVECTOR_INDEX_SVC :: nat where "portVECTOR_INDEX_SVC = 11"
definition portVECTOR_INDEX_PENDSV :: nat where "portVECTOR_INDEX_PENDSV = 14"
definition portFIRST_USER_INTERRUPT_NUMBER :: nat where "portFIRST_USER_INTERRUPT_NUMBER = 16"
definition portMAX_8_BIT_VALUE :: u8 where "portMAX_8_BIT_VALUE = 0xff"
definition portTOP_BIT_OF_BYTE :: u8 where "portTOP_BIT_OF_BYTE = 0x80"
definition portMAX_PRIGROUP_BITS :: u32 where "portMAX_PRIGROUP_BITS = 7"
definition portPRIORITY_GROUP_MASK :: u32 where "portPRIORITY_GROUP_MASK = push_bit 8 0x07"
definition portPRIGROUP_SHIFT :: nat where "portPRIGROUP_SHIFT = 8"
definition portNVIC_PENDSV_PRI :: u32 where "portNVIC_PENDSV_PRI = push_bit 16 255"
definition portNVIC_SYSTICK_PRI :: u32 where "portNVIC_SYSTICK_PRI = push_bit 24 255"
definition portNVIC_SYSTICK_CLK_BIT :: u32 where "portNVIC_SYSTICK_CLK_BIT = push_bit 2 1"
definition portNVIC_SYSTICK_INT_BIT :: u32 where "portNVIC_SYSTICK_INT_BIT = push_bit 1 1"
definition portNVIC_SYSTICK_ENABLE_BIT :: u32 where "portNVIC_SYSTICK_ENABLE_BIT = push_bit 0 1"
definition configCPU_CLOCK_HZ :: u32 where "configCPU_CLOCK_HZ = 25000000"
definition configTICK_RATE_HZ :: u32 where "configTICK_RATE_HZ = 1000"

text \<open>A store to a priority register.\<close>

definition write_priority :: "nat \<Rightarrow> u8 \<Rightarrow> 'a nvic_scheme \<Rightarrow> 'a nvic_scheme" where
  "write_priority n v c = c\<lparr>ip_registers := (ip_registers c)(n := v AND ip_mask c)\<rparr>"

text \<open>
  The loop that counts the leading ones of the value read back. Shifting out a one leaves one bit less,
  so the loop ends.
\<close>

function count_priority_bits :: "u8 \<Rightarrow> u32 \<Rightarrow> u32" where
  "count_priority_bits ucMaxPriorityValue ulImplementedPrioBits =
     (if ucMaxPriorityValue AND portTOP_BIT_OF_BYTE = portTOP_BIT_OF_BYTE
      then count_priority_bits (push_bit 1 ucMaxPriorityValue) (ulImplementedPrioBits + 1)
      else ulImplementedPrioBits)"
  by pat_completeness auto

lemma shift_loses_bit:
  assumes "v AND portTOP_BIT_OF_BYTE = portTOP_BIT_OF_BYTE"
  shows "card {i. bit (push_bit 1 v) i} < card {i. bit (v :: u8) i}"
proof -
  have "bit (v AND portTOP_BIT_OF_BYTE) 7" unfolding assms by (simp add: portTOP_BIT_OF_BYTE_def)
  then have top: "bit v 7" by (simp add: bit_and_iff)
  have fin: "finite {i. bit v i}" by (rule finite_subset [of _ "{..<8}"]) (auto dest: bit_imp_le_length)
  have "{i. bit (push_bit 1 v) i} \<subseteq> Suc ` ({i. bit v i} - {7})"
  proof
    fix i assume "i \<in> {i. bit (push_bit 1 v) i}"
    then have i: "bit (push_bit 1 v) i" by simp
    have "i < 8" using bit_imp_le_length [OF i] by simp
    moreover have "1 \<le> i" "bit v (i - 1)" using i by (simp_all only: bit_push_bit_iff)
    ultimately show "i \<in> Suc ` ({i. bit v i} - {7})" by (intro image_eqI [of _ _ "i - 1"]) simp_all
  qed
  then have "card {i. bit (push_bit 1 v) i} \<le> card ({i. bit v i} - {7})"
    by (meson card_image_le card_mono dual_order.trans fin finite_Diff finite_imageI)
  also have "\<dots> < card {i. bit v i}" by (rule card_Diff1_less [OF fin]) (simp add: top)
  finally show ?thesis .
qed

termination count_priority_bits
  by (relation "measure (\<lambda>(v, n). card {i. bit v i})") (simp, simp only: in_measure prod.case, rule shift_loses_bit)

declare count_priority_bits.simps [simp del]

text \<open>
  The probing at the start: all bits are written to the first priority register and read back, and
  the register gets its old value again.
\<close>

definition probe_priorities :: "'a nvic_scheme \<Rightarrow> 'a nvic_scheme option" where
  "probe_priorities c = do {
     let ucOriginalPriority = ip_registers c portFIRST_USER_INTERRUPT_NUMBER;
     let c = write_priority portFIRST_USER_INTERRUPT_NUMBER portMAX_8_BIT_VALUE c;
     let ucMaxPriorityValue = ip_registers c portFIRST_USER_INTERRUPT_NUMBER;
     let c = c\<lparr>ucMaxSysCallPriority := ucast configMAX_SYSCALL_INTERRUPT_PRIORITY AND ucMaxPriorityValue\<rparr>;
     configASSERT (ucMaxSysCallPriority c \<noteq> 0);
     configASSERT (configMAX_SYSCALL_INTERRUPT_PRIORITY AND NOT (ucast ucMaxPriorityValue) = 0);
     let ulImplementedPrioBits = count_priority_bits ucMaxPriorityValue 0;
     c \<leftarrow> (if ulImplementedPrioBits = 8 then do {
            configASSERT (configMAX_SYSCALL_INTERRUPT_PRIORITY AND 0x1 = 0);
            Some (c\<lparr>ulMaxPRIGROUPValue := 0\<rparr>)
          } else Some (c\<lparr>ulMaxPRIGROUPValue := portMAX_PRIGROUP_BITS - ulImplementedPrioBits\<rparr>));
     let c = c\<lparr>ulMaxPRIGROUPValue := push_bit portPRIGROUP_SHIFT (ulMaxPRIGROUPValue c)\<rparr>;
     let c = c\<lparr>ulMaxPRIGROUPValue := ulMaxPRIGROUPValue c AND portPRIORITY_GROUP_MASK\<rparr>;
     Some (write_priority portFIRST_USER_INTERRUPT_NUMBER ucOriginalPriority c)
   }"

definition vPortSetupTimerInterrupt :: "'a nvic_scheme \<Rightarrow> 'a nvic_scheme" where
  "vPortSetupTimerInterrupt c =
     (let c = c\<lparr>systick_ctrl := 0, systick_current := 0\<rparr>;
          c = c\<lparr>systick_load := configCPU_CLOCK_HZ div configTICK_RATE_HZ - 1\<rparr>
      in c\<lparr>systick_ctrl := portNVIC_SYSTICK_CLK_BIT OR portNVIC_SYSTICK_INT_BIT OR portNVIC_SYSTICK_ENABLE_BIT\<rparr>)"

text \<open>
  \<^verbatim>\<open>vPortSVCHandler\<close> unmasks the interrupts and returns into the task; the task's registers and stack
  pointer are not part of the state. The processor takes an \<^verbatim>\<open>svc\<close> only when the priority of SVCall,
  the top byte of SHPR2, is more urgent than BASEPRI; otherwise it faults.
\<close>

definition vPortSVCHandler :: "'a nvic_scheme \<Rightarrow> 'a nvic_scheme" where
  "vPortSVCHandler c = c\<lparr>basepri := 0\<rparr>"

definition prvPortStartFirstTask :: "'a nvic_scheme \<Rightarrow> 'a nvic_scheme option" where
  "prvPortStartFirstTask c = do {
     let c = c\<lparr>msp := vectors c ! 0, primask := False, faultmask := False\<rparr>;
     if basepri c \<noteq> 0 \<and> basepri c \<le> drop_bit 24 (shpr2 c) then None
     else Some (vPortSVCHandler c)
   }"

text \<open>
  \<^verbatim>\<open>xPortStartScheduler\<close> up to the point where the first task runs. It does not return: the calls
  behind \<^verbatim>\<open>prvPortStartFirstTask\<close> are there for the compiler.
\<close>

definition xPortStartScheduler :: "image \<Rightarrow> 'a nvic_scheme \<Rightarrow> 'a nvic_scheme option" where
  "xPortStartScheduler img c = do {
     configASSERT (vectors c ! portVECTOR_INDEX_SVC = vPortSVCHandler_code img);
     configASSERT (vectors c ! portVECTOR_INDEX_PENDSV = xPortPendSVHandler_code img);
     c \<leftarrow> probe_priorities c;
     let c = c\<lparr>shpr3 := shpr3 c OR portNVIC_PENDSV_PRI\<rparr>;
     let c = c\<lparr>shpr3 := shpr3 c OR portNVIC_SYSTICK_PRI\<rparr>;
     let c = c\<lparr>shpr2 := 0\<rparr>;
     let c = vPortSetupTimerInterrupt c;
     let c = c\<lparr>uxCriticalNesting := 0\<rparr>;
     prvPortStartFirstTask c
   }"

definition vPortEndScheduler :: "'a nvic_scheme \<Rightarrow> unit option" where
  "vPortEndScheduler c = configASSERT (uxCriticalNesting c = 1000)"

text \<open>The function a task returns to: an assertion, and then a loop that is not left.\<close>

definition prvTaskExitError :: "'a nvic_scheme \<Rightarrow> unit option" where
  "prvTaskExitError c = do { configASSERT (uxCriticalNesting c = NOT 0); None }"

text \<open>The check of every interrupt that calls the kernel; \<open>vectactive\<close> is the number in IPSR.\<close>

definition vPortValidateInterruptPriority :: "'a nvic_scheme \<Rightarrow> unit option" where
  "vPortValidateInterruptPriority c = do {
     (if vectactive c \<ge> portFIRST_USER_INTERRUPT_NUMBER
      then configASSERT (ip_registers c (vectactive c) \<ge> ucMaxSysCallPriority c)
      else Some ());
     configASSERT (aircr c AND portPRIORITY_GROUP_MASK \<le> ulMaxPRIGROUPValue c)
   }"

section \<open>Kernel\<close>

record board = tmr +
  xIdleTaskHandles :: "nat \<Rightarrow> addr"
  nvic_regs :: nvic

definition configNUMBER_OF_CORES :: nat where "configNUMBER_OF_CORES = 1"
definition configMINIMAL_STACK_SIZE :: nat where "configMINIMAL_STACK_SIZE = 128"
definition configTIMER_TASK_STACK_DEPTH :: nat where "configTIMER_TASK_STACK_DEPTH = configMINIMAL_STACK_SIZE * 2"
definition configTIMER_TASK_PRIORITY :: nat where "configTIMER_TASK_PRIORITY = configMAX_PRIORITIES - 4"
definition configINITIAL_TICK_COUNT :: TickType_t where "configINITIAL_TICK_COUNT = 0"
definition portPRIVILEGE_BIT :: nat where "portPRIVILEGE_BIT = 0"
definition taskRESERVED_TASK_NAME_LENGTH :: nat where "taskRESERVED_TASK_NAME_LENGTH = 1"
definition errCOULD_NOT_ALLOCATE_REQUIRED_MEMORY :: int where "errCOULD_NOT_ALLOCATE_REQUIRED_MEMORY = - 1"
definition pdPASS :: int where "pdPASS = 1"
definition pdFAIL :: int where "pdFAIL = 0"

definition vApplicationGetIdleTaskMemory :: "image \<Rightarrow> addr \<times> addr \<times> nat" where
  "vApplicationGetIdleTaskMemory img = (xIdleTaskTCB img, uxIdleTaskStack img, configMINIMAL_STACK_SIZE)"

definition vApplicationGetTimerTaskMemory :: "image \<Rightarrow> addr \<times> addr \<times> nat" where
  "vApplicationGetTimerTaskMemory img = (xTimerTaskTCB img, uxTimerTaskStack img, configTIMER_TASK_STACK_DEPTH)"

text \<open>The loop over the cores, and before it the copy of the name up to its terminator or the limit.\<close>

fun create_idle :: "image \<Rightarrow> string \<Rightarrow> nat list \<Rightarrow> int \<Rightarrow> 'a board_scheme \<Rightarrow> (int \<times> 'a board_scheme) option" where
  "create_idle img cIdleName [] xReturn s = Some (xReturn, s)"
| "create_idle img cIdleName (xCoreID # cores) xReturn s = do {
     let (tcb_buffer, stack_buffer, depth) = vApplicationGetIdleTaskMemory img;
     (h, s) \<leftarrow> xTaskCreateStatic (prvIdleTask_code img) cIdleName depth 0 portPRIVILEGE_BIT stack_buffer tcb_buffer s;
     let s = s\<lparr>xIdleTaskHandles := (xIdleTaskHandles s)(xCoreID := h)\<rparr>;
     let xReturn = (if xIdleTaskHandles s xCoreID \<noteq> 0 then pdPASS else pdFAIL);
     if xReturn \<noteq> pdPASS then Some (xReturn, s) else create_idle img cIdleName cores xReturn s
   }"

definition prvCreateIdleTasks :: "image \<Rightarrow> 'a board_scheme \<Rightarrow> (int \<times> 'a board_scheme) option" where
  "prvCreateIdleTasks img s =
     (let cIdleName = take (configMAX_TASK_NAME_LEN - taskRESERVED_TASK_NAME_LENGTH) ''IDLE''
      in create_idle img cIdleName [0..<configNUMBER_OF_CORES] pdPASS s)"

definition xTimerCreateTimerTask :: "image \<Rightarrow> 'a tmr_scheme \<Rightarrow> (int \<times> 'a tmr_scheme) option" where
  "xTimerCreateTimerTask img s = do {
     s \<leftarrow> prvCheckForValidListAndQueue (ucStaticTimerQueueStorage img) (xStaticTimerQueue img) s;
     (xReturn, s) \<leftarrow>
       (if xTimerQueue s \<noteq> 0 then do {
          let (tcb_buffer, stack_buffer, depth) = vApplicationGetTimerTaskMemory img;
          (h, s) \<leftarrow> xTaskCreateStatic (prvTimerTask_code img) ''Tmr Svc'' depth 0
                      (configTIMER_TASK_PRIORITY OR portPRIVILEGE_BIT) stack_buffer tcb_buffer s;
          let s = s\<lparr>xTimerTaskHandle := h\<rparr>;
          Some (if xTimerTaskHandle s \<noteq> 0 then pdPASS else pdFAIL, s)
        } else Some (pdFAIL, s));
     configASSERT (xReturn \<noteq> 0);
     Some (xReturn, s)
   }"

text \<open>\<open>vTaskStartScheduler\<close> gives the state in which the first task, \<^verbatim>\<open>pxCurrentTCB\<close>, starts to run.\<close>

definition vTaskStartScheduler :: "image \<Rightarrow> 'a board_scheme \<Rightarrow> 'a board_scheme option" where
  "vTaskStartScheduler img s = do {
     (xReturn, s) \<leftarrow> prvCreateIdleTasks img s;
     (xReturn, s) \<leftarrow> (if xReturn = pdPASS then xTimerCreateTimerTask img s else Some (xReturn, s));
     if xReturn = pdPASS then do {
       let s = s\<lparr>nvic_regs := vPortRaiseBASEPRI (nvic_regs s)\<rparr>;
       let s = s\<lparr>xNextTaskUnblockTime := portMAX_DELAY\<rparr>;
       let s = s\<lparr>xSchedulerRunning := True\<rparr>;
       let s = s\<lparr>xTickCount := configINITIAL_TICK_COUNT\<rparr>;
       c \<leftarrow> xPortStartScheduler img (nvic_regs s);
       Some (s\<lparr>nvic_regs := c\<rparr>)
     }
     else do {
       configASSERT (xReturn \<noteq> errCOULD_NOT_ALLOCATE_REQUIRED_MEMORY);
       Some s
     }
   }"

fun delete_idle :: "nat list \<Rightarrow> 'a board_scheme \<Rightarrow> 'a board_scheme option" where
  "delete_idle [] s = Some s"
| "delete_idle (xCoreID # cores) s = do {
     s \<leftarrow> vTaskDelete (xIdleTaskHandles s xCoreID) s;
     delete_idle cores s
   }"

definition vTaskEndScheduler :: "'a board_scheme \<Rightarrow> 'a board_scheme option" where
  "vTaskEndScheduler s = do {
     h \<leftarrow> xTimerGetTimerDaemonTaskHandle s;
     s \<leftarrow> vTaskDelete h s;
     s \<leftarrow> delete_idle [0..<configNUMBER_OF_CORES] s;
     s \<leftarrow> prvCheckTasksWaitingTermination s;
     let s = s\<lparr>nvic_regs := vPortRaiseBASEPRI (nvic_regs s)\<rparr>;
     let s = s\<lparr>xSchedulerRunning := False\<rparr>;
     vPortEndScheduler (nvic_regs s);
     Some s
   }"

definition xTaskGetIdleTaskHandle :: "'a board_scheme \<Rightarrow> addr option" where
  "xTaskGetIdleTaskHandle s = do {
     configASSERT (xIdleTaskHandles s 0 \<noteq> 0);
     Some (xIdleTaskHandles s 0)
   }"

definition xTaskGetIdleTaskHandleForCore :: "int \<Rightarrow> 'a board_scheme \<Rightarrow> addr option" where
  "xTaskGetIdleTaskHandleForCore xCoreID s = do {
     configASSERT (0 \<le> xCoreID \<and> xCoreID < int configNUMBER_OF_CORES);
     configASSERT (xIdleTaskHandles s (nat xCoreID) \<noteq> 0);
     Some (xIdleTaskHandles s (nat xCoreID))
   }"

end
