(* ===== verification/FR_Start_Props.thy ===== *)
theory FR_Start_Props
  imports FR_Start
begin

text \<open>
  What the start of the scheduler establishes: the well-formed state that the theorems about the
  scheduler, the timers and the critical sections start from.
\<close>

section \<open>Processor\<close>

text \<open>Hardware with \<open>n\<close> priority bits keeps the top \<open>n\<close> bits of a priority register.\<close>

definition priority_mask :: "nat \<Rightarrow> u8" where
  "priority_mask n = push_bit (8 - n) 0xff"

definition prigroup_limit :: "nat \<Rightarrow> u32" where
  "prigroup_limit n = (if n = 8 then 0 else push_bit 8 (7 - of_nat n))"

lemma priority_masks: "priority_mask 8 = 0xff" "priority_mask 7 = 0xfe" "priority_mask 6 = 0xfc"
  by (simp_all add: priority_mask_def)

lemma priority_counts: "count_priority_bits 0xff 0 = 8" "count_priority_bits 0xfe 0 = 7" "count_priority_bits 0xfc 0 = 6"
  by code_simp+

lemma ip_registers_restored:
  assumes "f = ip_registers c"
  shows "c\<lparr>ucMaxSysCallPriority := a, ulMaxPRIGROUPValue := b, ip_registers := f\<rparr> = c\<lparr>ucMaxSysCallPriority := a, ulMaxPRIGROUPValue := b\<rparr>"
  unfolding assms by (cases c) simp

lemma probe_priorities_ok:
  assumes n: "n \<in> {6, 7, 8}" and m: "ip_mask c = priority_mask n" and r: "ip_registers c 16 AND ip_mask c = ip_registers c 16"
  shows "probe_priorities c = Some (c\<lparr>ucMaxSysCallPriority := 4, ulMaxPRIGROUPValue := prigroup_limit n\<rparr>)"
proof -
  have cnt: "count_priority_bits (0xff AND priority_mask n) 0 = of_nat n"
    using n by (elim insertE emptyE; simp only: priority_masks) (simp_all add: priority_counts)
  have lim: "push_bit 8 (if (of_nat n :: u32) = 8 then 0 else 7 - of_nat n) AND push_bit 8 7 = prigroup_limit n"
    using n by (elim insertE emptyE; simp add: prigroup_limit_def)
  have msk: "4 AND (0xff AND priority_mask n) = 4" "(4 :: u32) AND NOT (ucast (0xff AND priority_mask n)) = 0"
    using n by (elim insertE emptyE; simp add: priority_masks)+
  have "probe_priorities c = Some (c\<lparr>ucMaxSysCallPriority := 4, ulMaxPRIGROUPValue := prigroup_limit n,
      ip_registers := (ip_registers c)(16 := ip_registers c 16)\<rparr>)"
    unfolding probe_priorities_def write_priority_def Let_def portFIRST_USER_INTERRUPT_NUMBER_def portMAX_8_BIT_VALUE_def
      configMAX_SYSCALL_INTERRUPT_PRIORITY_def portMAX_PRIGROUP_BITS_def portPRIGROUP_SHIFT_def portPRIORITY_GROUP_MASK_def
    using cnt lim msk r by (cases "(of_nat n :: u32) = 8") (simp_all add: m)
  then show ?thesis by (simp only: ip_registers_restored fun_upd_triv)
qed

text \<open>
  Hardware this configuration runs on, with no interrupt active: the vector table of the start-up code, at least six priority
  bits, and priority registers that hold implemented bits only.
\<close>

definition port_ready :: "nat \<Rightarrow> image \<Rightarrow> 'a nvic_scheme \<Rightarrow> bool" where
  "port_ready n img c \<longleftrightarrow> n \<in> {6, 7, 8} \<and> vectactive c = 0 \<and> vectors c = isr_vector img \<and> ip_mask c = priority_mask n \<and>
     (\<forall>i. ip_registers c i AND priority_mask n = ip_registers c i)"

definition started :: "nat \<Rightarrow> image \<Rightarrow> 'a nvic_scheme \<Rightarrow> 'a nvic_scheme" where
  "started n img c = c\<lparr>ucMaxSysCallPriority := 4, ulMaxPRIGROUPValue := prigroup_limit n,
     shpr3 := shpr3 c OR 0xffff0000, shpr2 := 0, systick_current := 0, systick_load := 24999, systick_ctrl := 7,
     uxCriticalNesting := 0, msp := estack img, primask := False, faultmask := False, basepri := 0\<rparr>"

lemma xPortStartScheduler_ok:
  assumes "port_ready n img c"
  shows "xPortStartScheduler img c = Some (started n img c)"
proof -
  have p: "probe_priorities c = Some (c\<lparr>ucMaxSysCallPriority := 4, ulMaxPRIGROUPValue := prigroup_limit n\<rparr>)"
    by (rule probe_priorities_ok) (use assms in \<open>simp_all add: port_ready_def\<close>)
  have v: "vectors c ! 11 = vPortSVCHandler_code img" "vectors c ! 14 = xPortPendSVHandler_code img" "vectors c ! 0 = estack img"
    using assms by (simp_all add: port_ready_def isr_vector_def)
  have pri: "(x OR push_bit 16 255) OR push_bit 24 255 = x OR (0xffff0000 :: u32)" for x
    by (simp add: or.assoc)
  show ?thesis
    unfolding xPortStartScheduler_def p portVECTOR_INDEX_SVC_def portVECTOR_INDEX_PENDSV_def v
    by (simp add: prvPortStartFirstTask_def vPortSetupTimerInterrupt_def vPortSVCHandler_def started_def v pri Let_def
        portNVIC_PENDSV_PRI_def portNVIC_SYSTICK_PRI_def portNVIC_SYSTICK_CLK_BIT_def portNVIC_SYSTICK_INT_BIT_def
        portNVIC_SYSTICK_ENABLE_BIT_def configCPU_CLOCK_HZ_def configTICK_RATE_HZ_def or.assoc)
qed

text \<open>With fewer bits the configured priority does not fit, and the start stops in an assertion.\<close>

lemma xPortStartScheduler_few_bits:
  assumes "n < 6" "ip_mask c = priority_mask n"
  shows "xPortStartScheduler img c = None"
proof -
  have "n \<in> {0, 1, 2, 3, 4, 5}" using assms(1) by auto
  then have "4 AND (0xff AND priority_mask n) = 0" by (elim insertE emptyE; simp add: priority_mask_def)
  then have "probe_priorities c = None"
    by (simp add: probe_priorities_def write_priority_def Let_def portMAX_8_BIT_VALUE_def assms(2)
        configMAX_SYSCALL_INTERRUPT_PRIORITY_def)
  then show ?thesis by (simp add: xPortStartScheduler_def bind_eq_None_conv)
qed

text \<open>The processor holds an interrupt off while BASEPRI is set and the interrupt is not more urgent.\<close>

definition held_off :: "'a nvic_scheme \<Rightarrow> nat \<Rightarrow> bool" where
  "held_off c i \<longleftrightarrow> basepri c \<noteq> 0 \<and> basepri c \<le> ucast (ip_registers c i)"

lemma vPortEnterCritical_basepri:
  "vPortEnterCritical c = Some c' \<Longrightarrow> basepri c' = 4 \<and> nvic.more c' = nvic.more c \<and> ip_registers c' = ip_registers c"
  by (auto simp: vPortEnterCritical_def port_defs Let_def split: if_splits)

lemma four_le_ucast: "(4 :: u8) \<le> x \<longleftrightarrow> (4 :: u32) \<le> ucast x"
  by transfer (simp add: take_bit_take_bit)

text \<open>
  The check that every interrupt service routine makes when it calls the kernel is exact. After the
  port has started on hardware with six to eight priority bits, with no bits used for sub-priorities, an
  interrupt passes \<^verbatim>\<open>vPortValidateInterruptPriority\<close> if and only if a task's critical section holds that
  interrupt off; an interrupt that could break into a critical section is stopped by the assertion.
\<close>

theorem checked_interrupts_are_masked:
  assumes "port_ready n img c" "xPortStartScheduler img c = Some c0"
    "ucMaxSysCallPriority t = ucMaxSysCallPriority c0" "ulMaxPRIGROUPValue t = ulMaxPRIGROUPValue c0"
    "aircr t AND portPRIORITY_GROUP_MASK = 0" "vPortEnterCritical t = Some t'" "portFIRST_USER_INTERRUPT_NUMBER \<le> i"
  shows "vPortValidateInterruptPriority (t\<lparr>vectactive := i\<rparr>) = Some () \<longleftrightarrow> held_off t' i"
proof -
  have "c0 = started n img c" using assms(2) xPortStartScheduler_ok [OF assms(1)] by simp
  then have c0: "ucMaxSysCallPriority c0 = 4" by (simp only: started_def) simp
  have t': "basepri t' = 4" "ip_registers t' = ip_registers t" using vPortEnterCritical_basepri [OF assms(6)] by simp_all
  show ?thesis
    using assms(3-5,7) four_le_ucast [of "ip_registers t i"] by (simp add: vPortValidateInterruptPriority_def held_off_def t' c0)
qed

text \<open>
  The simulated board: eight priority bits; the Ethernet interrupt (number 29) at priority 128.
\<close>

definition demo_image :: image where
  "demo_image = \<lparr>estack = 0x20400000, Reset_Handler = 1001, Default_Handler = 1003, HardFault_Handler = 1005,
     xPortSysTickHandler_code = 1007, TIMER0_Handler = 1009, TIMER1_Handler = 1011, EthernetISR_code = 1013,
     xIdleTaskTCB = 0x20000100, uxIdleTaskStack = 0x20000200, xTimerTaskTCB = 0x20000400, uxTimerTaskStack = 0x20000500,
     xStaticTimerQueue = 0x20000900, ucStaticTimerQueueStorage = 0x20000a00, prvIdleTask_code = 1015,
     prvTimerTask_code = 1017, vPortSVCHandler_code = 1019, xPortPendSVHandler_code = 1021\<rparr>"

definition demo_nvic :: nvic where
  "demo_nvic = \<lparr>basepri = 4, uxCriticalNesting = 0xaaaaaaaa, vectactive = 0, vectors = isr_vector demo_image,
     ip_mask = 0xff, ip_registers = (\<lambda>_. 0)(29 := 128), aircr = 0, shpr2 = 0, shpr3 = 0, systick_ctrl = 0,
     systick_load = 0, systick_current = 0, primask = True, faultmask = False, msp = 0,
     ucMaxSysCallPriority = 0, ulMaxPRIGROUPValue = 0\<rparr>"

lemma demo_port_ready: "port_ready 8 demo_image demo_nvic"
  by (simp add: port_ready_def demo_nvic_def priority_masks)

theorem checked_interrupts_are_masked_witness:
  "\<exists>c0 t'. xPortStartScheduler demo_image demo_nvic = Some c0 \<and> vPortEnterCritical c0 = Some t' \<and>
     vPortValidateInterruptPriority (c0\<lparr>vectactive := 29\<rparr>) = Some () \<and> held_off t' 29 \<and>
     vPortValidateInterruptPriority (c0\<lparr>vectactive := 30\<rparr>) \<noteq> Some () \<and> \<not> held_off t' 30"
proof -
  let ?c0 = "started 8 demo_image demo_nvic"
  let ?t = "?c0\<lparr>basepri := 4, uxCriticalNesting := 1\<rparr>"
  have c0: "xPortStartScheduler demo_image demo_nvic = Some ?c0" by (rule xPortStartScheduler_ok [OF demo_port_ready])
  have t: "vPortEnterCritical ?c0 = Some ?t"
    by (simp add: vPortEnterCritical_def port_defs started_def demo_nvic_def Let_def)
  have a: "aircr ?c0 AND portPRIORITY_GROUP_MASK = 0" by (simp add: started_def demo_nvic_def)
  have h: "held_off ?t 29" "\<not> held_off ?t 30" by (simp_all add: held_off_def started_def demo_nvic_def)
  have "vPortValidateInterruptPriority (?c0\<lparr>vectactive := i\<rparr>) = Some () \<longleftrightarrow> held_off ?t i" if "i \<in> {29, 30}" for i
    by (rule checked_interrupts_are_masked [OF demo_port_ready c0 refl refl a t])
      (use that in \<open>auto simp: portFIRST_USER_INTERRUPT_NUMBER_def\<close>)
  then show ?thesis using c0 t h by blast
qed

section \<open>Tasks created before the start\<close>

text \<open>
  Before the scheduler starts, tasks are only created: each is in its ready list, and the current task is
  one of the highest priority.
\<close>

definition not_started :: "'a sched_scheme \<Rightarrow> bool" where
  "not_started k \<longleftrightarrow> sched_inv k \<and> \<not> xSchedulerRunning k \<and> uxSchedulerSuspended k = 0 \<and> xPendedTicks k = 0 \<and>
     (\<forall>i l. container k i = Some l \<longrightarrow> (\<exists>p. l = pxReadyTasksLists p)) \<and>
     (if pxCurrentTCB k = 0 then uxCurrentNumberOfTasks k = 0 \<and> (\<forall>i. container k i = None)
      else 0 < uxCurrentNumberOfTasks k \<and> running_ready k \<and> (\<forall>t. ready k t \<longrightarrow> prio k t \<le> prio k (pxCurrentTCB k)))"

lemma ls_init_empty:
  assumes "\<forall>l. lsItems s l = []" "lists_ok s"
  shows "lists_ok (ls_init l s)" "\<forall>l'. lsItems (ls_init l s) l' = []" "liContainer (ls_init l s) = liContainer s"
    "liValue (ls_init l s) = liValue s"
  using assms lists_ok_init [of s l] by (simp_all add: ls_init_def)

lemma ls_init_all:
  assumes "\<forall>l. lsItems s l = []" "lists_ok s"
  shows "let s' = foldl (\<lambda>s p. ls_init (f p) s) s ps in
    lists_ok s' \<and> (\<forall>l. lsItems s' l = []) \<and> liContainer s' = liContainer s \<and> liValue s' = liValue s"
  using assms
proof (induction ps arbitrary: s)
  case (Cons p ps)
  note I = ls_init_empty [OF Cons.prems, of "f p"]
  show ?case using Cons.IH [OF I(2,1)] I(3,4) by (simp add: Let_def)
qed simp

lemma prvInitialiseTaskLists_empty:
  assumes inv: "sched_inv k" and none: "\<forall>i. container k i = None"
  shows "sched_inv (prvInitialiseTaskLists k)" "container (prvInitialiseTaskLists k) = container k"
    "liValue (lists (prvInitialiseTaskLists k)) = liValue (lists k)" "items (prvInitialiseTaskLists k) = items k"
proof -
  define s0 where "s0 = foldl (\<lambda>s p. ls_init (pxReadyTasksLists p) s) (lists k) [0..<configMAX_PRIORITIES]"
  define ls where "ls = [xDelayedTaskList1, xDelayedTaskList2, xPendingReadyList, xTasksWaitingTermination, xSuspendedTaskList]"
  define s1 where "s1 = foldl (\<lambda>s l. ls_init (id l) s) s0 ls"
  have e: "\<forall>l. items k l = []" using lists_ok_nil [OF core_invD(1) [OF inv]] none by simp
  note A = ls_init_all [OF e core_invD(1) [OF inv], of pxReadyTasksLists "[0..<configMAX_PRIORITIES]", folded s0_def, unfolded Let_def]
  note B = ls_init_all [OF A [THEN conjunct2, THEN conjunct1] A [THEN conjunct1], of id ls, folded s1_def, unfolded Let_def]
  have k: "prvInitialiseTaskLists k = k\<lparr>lists := s1, pxDelayedTaskList := xDelayedTaskList1, pxOverflowDelayedTaskList := xDelayedTaskList2\<rparr>"
    by (simp add: prvInitialiseTaskLists_def upd_lists_def Let_def s1_def ls_def s0_def)
  have s1: "lists_ok s1" "liContainer s1 = liContainer (lists k)" "liValue s1 = liValue (lists k)" "lsItems s1 = lsItems (lists k)"
    using A B e by auto
  show "container (prvInitialiseTaskLists k) = container k" "liValue (lists (prvInitialiseTaskLists k)) = liValue (lists k)"
    "items (prvInitialiseTaskLists k) = items k"
    using s1 by (simp_all add: k)
  show "sched_inv (prvInitialiseTaskLists k)"
    using inv none s1(1,2) unfolding core_inv_def blocked_def k by simp
qed

text \<open>The first step of adding a task: the current task is chosen and the lists are set up once.\<close>

definition choose_first :: "addr \<Rightarrow> 'a sched_scheme \<Rightarrow> 'a sched_scheme" where
  "choose_first new k =
     (let k = k\<lparr>uxCurrentNumberOfTasks := uxCurrentNumberOfTasks k + 1\<rparr>
      in if pxCurrentTCB k = 0 then prvInitialiseTaskLists (k\<lparr>pxCurrentTCB := new\<rparr>)
         else if prio k (pxCurrentTCB k) \<le> prio k new then k\<lparr>pxCurrentTCB := new\<rparr> else k)"

lemma prvInitialiseTaskLists_frame [simp]:
  "tcb (prvInitialiseTaskLists k) = tcb k" "heap (prvInitialiseTaskLists k) = heap k" "pxCurrentTCB (prvInitialiseTaskLists k) = pxCurrentTCB k"
  "uxCurrentNumberOfTasks (prvInitialiseTaskLists k) = uxCurrentNumberOfTasks k" "uxTaskNumber (prvInitialiseTaskLists k) = uxTaskNumber k"
  "xSchedulerRunning (prvInitialiseTaskLists k) = xSchedulerRunning k" "uxSchedulerSuspended (prvInitialiseTaskLists k) = uxSchedulerSuspended k"
  "xPendedTicks (prvInitialiseTaskLists k) = xPendedTicks k" "sched.more (prvInitialiseTaskLists k) = sched.more k"
  "uxDeletedTasksWaitingCleanUp (prvInitialiseTaskLists k) = uxDeletedTasksWaitingCleanUp k"
  by (simp_all add: prvInitialiseTaskLists_def upd_lists_def Let_def)

lemma choose_first_facts:
  assumes "not_started k"
  shows "sched_inv (choose_first new k)" "container (choose_first new k) = container k" "items (choose_first new k) = items k"
    "liValue (lists (choose_first new k)) = liValue (lists k)" "tcb (choose_first new k) = tcb k" "heap (choose_first new k) = heap k"
    "pxCurrentTCB (choose_first new k) = (if pxCurrentTCB k = 0 \<or> prio k (pxCurrentTCB k) \<le> prio k new then new else pxCurrentTCB k)"
    "uxCurrentNumberOfTasks (choose_first new k) = uxCurrentNumberOfTasks k + 1" "sched.more (choose_first new k) = sched.more k"
    "\<not> xSchedulerRunning (choose_first new k)" "uxSchedulerSuspended (choose_first new k) = 0" "xPendedTicks (choose_first new k) = 0"
    "uxTaskNumber (choose_first new k) = uxTaskNumber k"
    "uxDeletedTasksWaitingCleanUp (choose_first new k) = uxDeletedTasksWaitingCleanUp k"
proof -
  have n: "sched_inv k" "\<not> xSchedulerRunning k" "uxSchedulerSuspended k = 0" "xPendedTicks k = 0"
    "pxCurrentTCB k = 0 \<Longrightarrow> \<forall>i. container k i = None"
    using assms by (auto simp: not_started_def)
  let ?k = "k\<lparr>uxCurrentNumberOfTasks := uxCurrentNumberOfTasks k + 1, pxCurrentTCB := new\<rparr>"
  have i: "sched_inv (prvInitialiseTaskLists ?k)" "container (prvInitialiseTaskLists ?k) = container k"
    "liValue (lists (prvInitialiseTaskLists ?k)) = liValue (lists k)" "items (prvInitialiseTaskLists ?k) = items k" if "pxCurrentTCB k = 0"
    using prvInitialiseTaskLists_empty [of ?k] n(1) n(5) [OF that] by simp_all
  show "sched_inv (choose_first new k)" "container (choose_first new k) = container k" "items (choose_first new k) = items k"
    "liValue (lists (choose_first new k)) = liValue (lists k)"
    using i n(1) by (simp_all add: choose_first_def Let_def)
qed (use assms in \<open>simp_all add: choose_first_def not_started_def Let_def\<close>)

lemma prvAddNewTaskToReadyList_before:
  assumes ns: "not_started k" and new: "new \<noteq> 0" "container k (StateItem new) = None" "container k (EventItem new) = None"
  shows "not_started (prvAddNewTaskToReadyList new k)"
    "container (prvAddNewTaskToReadyList new k) = (container k)(StateItem new := Some (pxReadyTasksLists (prio k new)))"
    "tcb (prvAddNewTaskToReadyList new k) = (tcb k)(new := (tcb k new)\<lparr>uxTCBNumber := uxTaskNumber k + 1\<rparr>)"
    "uxCurrentNumberOfTasks (prvAddNewTaskToReadyList new k) = uxCurrentNumberOfTasks k + 1"
    "heap (prvAddNewTaskToReadyList new k) = heap k" "sched.more (prvAddNewTaskToReadyList new k) = sched.more k"
    "uxDeletedTasksWaitingCleanUp (prvAddNewTaskToReadyList new k) = uxDeletedTasksWaitingCleanUp k"
    "waiting_list l \<Longrightarrow> items (prvAddNewTaskToReadyList new k) l = items k l"
    "pxCurrentTCB (prvAddNewTaskToReadyList new k) = (if pxCurrentTCB k = 0 \<or> prio k (pxCurrentTCB k) \<le> prio k new then new else pxCurrentTCB k)"
proof -
  note C = choose_first_facts [OF ns, of new]
  define k1 where "k1 = upd_tcb new (\<lambda>t. t\<lparr>uxTCBNumber := uxTaskNumber k + 1\<rparr>) ((choose_first new k)\<lparr>uxTaskNumber := uxTaskNumber k + 1\<rparr>)"
  define k' where "k' = prvAddTaskToReadyList new k1"
  have first: "pxCurrentTCB k = 0 \<Longrightarrow> uxCurrentNumberOfTasks k = 0" "\<not> xSchedulerRunning k" using ns by (simp_all add: not_started_def)
  have e: "prvAddNewTaskToReadyList new k = k'"
    using C(10,13) first by (simp add: prvAddNewTaskToReadyList_def k'_def k1_def choose_first_def Let_def)
  have inv1: "sched_inv k1"
    unfolding k1_def by (rule core_inv_upd_tcb) (use C(1,5) core_invD(5) [OF C(1), of new] in simp_all)
  have c1: "container k1 = container k" "tcb k1 = (tcb k)(new := (tcb k new)\<lparr>uxTCBNumber := uxTaskNumber k + 1\<rparr>)" "items k1 = items k"
    "pxCurrentTCB k1 = pxCurrentTCB (choose_first new k)"
    using C(2,3,5) by (simp_all add: k1_def upd_tcb_def)
  have inv': "sched_inv k'" unfolding k'_def by (rule core_inv_add_ready [OF inv1 _ new(1)]) (use new c1 in simp_all)
  have c': "container k' = (container k)(StateItem new := Some (pxReadyTasksLists (prio k new)))"
    by (rule ext) (simp add: k'_def c1)
  have t': "tcb k' = (tcb k)(new := (tcb k new)\<lparr>uxTCBNumber := uxTaskNumber k + 1\<rparr>)"
    "pxCurrentTCB k' = (if pxCurrentTCB k = 0 \<or> prio k (pxCurrentTCB k) \<le> prio k new then new else pxCurrentTCB k)"
    using c1 C(7) by (simp_all add: k'_def)
  note c' = c' t'
  show "container (prvAddNewTaskToReadyList new k) = (container k)(StateItem new := Some (pxReadyTasksLists (prio k new)))"
    "tcb (prvAddNewTaskToReadyList new k) = (tcb k)(new := (tcb k new)\<lparr>uxTCBNumber := uxTaskNumber k + 1\<rparr>)"
    "pxCurrentTCB (prvAddNewTaskToReadyList new k) = (if pxCurrentTCB k = 0 \<or> prio k (pxCurrentTCB k) \<le> prio k new then new else pxCurrentTCB k)"
    unfolding e by (fact c')+
  show rest: "uxCurrentNumberOfTasks (prvAddNewTaskToReadyList new k) = uxCurrentNumberOfTasks k + 1"
    "heap (prvAddNewTaskToReadyList new k) = heap k" "sched.more (prvAddNewTaskToReadyList new k) = sched.more k"
    "uxDeletedTasksWaitingCleanUp (prvAddNewTaskToReadyList new k) = uxDeletedTasksWaitingCleanUp k"
    using C by (simp_all add: e k'_def k1_def upd_tcb_def)
  show "waiting_list l \<Longrightarrow> items (prvAddNewTaskToReadyList new k) l = items k l"
    using c1(3) by (simp add: e k'_def items_add_ready)
  have flags: "\<not> xSchedulerRunning k'" "uxSchedulerSuspended k' = 0" "xPendedTicks k' = 0"
    using C(10-12) by (simp_all add: k'_def k1_def)
  have rdy: "ready k' t \<longleftrightarrow> t = new \<or> ready k t" for t by (simp add: ready_def c')
  have old: "running_ready k" "ready k t \<Longrightarrow> prio k t \<le> prio k (pxCurrentTCB k)" if "pxCurrentTCB k \<noteq> 0" for t
    using ns that by (simp_all add: not_started_def)
  have none: "pxCurrentTCB k = 0 \<Longrightarrow> \<not> ready k t" for t using ns by (simp add: not_started_def ready_def)
  have cur: "pxCurrentTCB k' \<noteq> 0" using new(1) c'(3) by simp
  have ne: "pxCurrentTCB k \<noteq> new" if "pxCurrentTCB k \<noteq> 0" using old(1) [OF that] new(2) by (auto simp: running_ready_def)
  have rr: "running_ready k'" using old(1) ne by (auto simp: running_ready_def c')
  have max: "prio k' t \<le> prio k' (pxCurrentTCB k')" if "ready k' t" for t
  proof (cases "t = new \<or> pxCurrentTCB k = 0")
    case True
    then have "t = new" using that none rdy by blast
    then show ?thesis by (simp add: c'(2,3))
  next
    case False
    then have "prio k t \<le> prio k (pxCurrentTCB k)" using that old(2) [of t] rdy by blast
    then show ?thesis using False ne by (simp add: c'(2,3))
  qed
  have lst: "\<exists>p. l = pxReadyTasksLists p" if "container k' i = Some l" for i l
    using that ns by (auto simp: c'(1) not_started_def split: if_splits)
  show "not_started (prvAddNewTaskToReadyList new k)"
    unfolding e not_started_def using inv' flags cur rr max lst rest(1) by (simp add: e)
qed

text \<open>A task in static memory.\<close>

definition static_tcb :: "addr \<Rightarrow> string \<Rightarrow> nat \<Rightarrow> addr \<Rightarrow> nat \<Rightarrow> TCB_t" where
  "static_tcb code name priority stack n =
     (new_tcb code name 0 priority stack)\<lparr>tcbAlloc := tskSTATICALLY_ALLOCATED_STACK_AND_TCB, uxTCBNumber := n\<rparr>"

lemma xTaskCreateStatic_before:
  assumes ns: "not_started k" and new: "buf \<noteq> 0" "stack \<noteq> 0" "container k (StateItem buf) = None" "container k (EventItem buf) = None"
    and p: "priority < configMAX_PRIORITIES" and d: "16 < dep"
  obtains k' n where "xTaskCreateStatic code name dep 0 priority stack buf k = Some (buf, k')" "not_started k'"
    "container k' = (container k)(StateItem buf := Some (pxReadyTasksLists priority))"
    "tcb k' = (tcb k)(buf := static_tcb code name priority stack n)"
    "uxCurrentNumberOfTasks k' = uxCurrentNumberOfTasks k + 1" "heap k' = heap k" "sched.more k' = sched.more k"
    "\<And>l. waiting_list l \<Longrightarrow> items k' l = items k l"
proof -
  let ?E = "empty_TCB\<lparr>pxStack := stack, tcbAlloc := tskSTATICALLY_ALLOCATED_STACK_AND_TCB\<rparr>"
  let ?T = "(new_tcb code name 0 priority stack)\<lparr>tcbAlloc := tskSTATICALLY_ALLOCATED_STACK_AND_TCB\<rparr>"
  define k1 where "k1 = k\<lparr>tcb := (tcb k)(buf := ?E)\<rparr>"
  have inv: "sched_inv k" using ns by (simp add: not_started_def)
  have inv1: "sched_inv k1"
    by (rule core_inv_move [OF inv, where t = buf])
      (use new core_invD [OF inv] in \<open>simp_all add: k1_def empty_TCB_def configMAX_PRIORITIES_def\<close>)
  have k1: "container k1 (StateItem buf) = None" "container k1 (EventItem buf) = None" "tcb k1 buf = ?E"
    using new by (simp_all add: k1_def)
  obtain s where s: "prvInitialiseNewTask code name dep 0 priority buf k1 = Some (k1\<lparr>lists := s, tcb := (tcb k1)(buf := ?T)\<rparr>)"
    "sched_inv (k1\<lparr>lists := s, tcb := (tcb k1)(buf := ?T)\<rparr>)" "liContainer s = liContainer (lists k1)" "lsItems s = lsItems (lists k1)"
    by (rule prvInitialiseNewTask_any [OF inv1 new(1) k1(1,2) p d k1(3)]) blast
  define k2 where "k2 = k1\<lparr>lists := s, tcb := (tcb k1)(buf := ?T)\<rparr>"
  have k2: "container k2 = container k" "items k2 = items k" "tcb k2 = (tcb k)(buf := ?T)" "heap k2 = heap k"
    "sched.more k2 = sched.more k" "uxCurrentNumberOfTasks k2 = uxCurrentNumberOfTasks k" "pxCurrentTCB k2 = pxCurrentTCB k"
    "sched_inv k2"
    using s(2-4) by (simp_all add: k2_def k1_def)
  have nb: "t \<noteq> buf" if "ready k t" for t using that new(3) by (auto simp: ready_def)
  have rd: "ready k2 t = ready k t" for t by (simp add: ready_def k2(1))
  have "pxCurrentTCB k \<noteq> 0 \<Longrightarrow> pxCurrentTCB k \<noteq> buf" using ns new(3) by (auto simp: not_started_def running_ready_def)
  then have ns2: "not_started k2"
    using ns k2(8) nb unfolding not_started_def running_ready_def rd k2(1,3,6,7) by (simp add: k2_def k1_def)
  have c2: "container k2 (StateItem buf) = None" "container k2 (EventItem buf) = None" using new by (simp_all add: k2(1))
  note A = prvAddNewTaskToReadyList_before [OF ns2 new(1) c2]
  have run: "xTaskCreateStatic code name dep 0 priority stack buf k = Some (buf, prvAddNewTaskToReadyList buf k2)"
    using new(1,2) s(1) by (simp add: xTaskCreateStatic_def prvCreateStaticTask_def Let_def upd_tcb_def k1_def k2_def)
  have pr: "prio k2 buf = priority" by (simp add: k2(3) new_tcb_def)
  show ?thesis
    by (rule that [OF run A(1) A(2) [unfolded pr k2(1)], of "uxTaskNumber k2 + 1"])
      (use A(3-8) k2 in \<open>simp_all add: static_tcb_def\<close>)
qed

section \<open>The timer queue\<close>

lemma vQueueAddToRegistry_frame:
  assumes "q \<noteq> 0"
  obtains r where "vQueueAddToRegistry q name k = Some (k\<lparr>xQueueRegistry := r\<rparr>)"
proof (cases "if name \<noteq> None then registry_slot q 0 None (xQueueRegistry k) else None")
  case None
  show ?thesis by (rule that [of "xQueueRegistry k"]) (unfold vQueueAddToRegistry_def None, use assms in simp)
next
  case (Some ux)
  show ?thesis by (rule that [of "(xQueueRegistry k)[ux := (name, q)]"]) (unfold vQueueAddToRegistry_def Some, use assms in simp)
qed

lemma not_started_same:
  assumes "not_started k" "sched_inv k'" "container k' = container k" "tcb k' = tcb k" "pxCurrentTCB k' = pxCurrentTCB k"
    "uxCurrentNumberOfTasks k' = uxCurrentNumberOfTasks k" "xSchedulerRunning k' = xSchedulerRunning k"
    "uxSchedulerSuspended k' = uxSchedulerSuspended k" "xPendedTicks k' = xPendedTicks k"
  shows "not_started k'"
  using assms(1,2) unfolding not_started_def running_ready_def ready_def assms(3-9) by simp

lemma empty_timer_lists: "\<forall>t. liContainer s t = None \<Longrightarrow> in_order (ls_init xActiveTimerList2 (ls_init xActiveTimerList1 s))"
proof -
  assume n: "\<forall>t. liContainer s t = None"
  have "lsItems (ls_init xActiveTimerList2 (ls_init xActiveTimerList1 s)) l = []"
    "lsIndex (ls_init xActiveTimerList2 (ls_init xActiveTimerList1 s)) l = None" for l
    by (cases l; simp add: ls_init_def)+
  then show ?thesis using n by (simp add: in_order_def ls_wf_def) (simp add: ls_init_def)
qed

lemma prvInitialiseNewQueue_pended: "prvInitialiseNewQueue n sz storage q k = Some k' \<Longrightarrow> xPendedTicks k' = xPendedTicks k"
  by (auto simp: prvInitialiseNewQueue_def xQueueGenericReset_def Let_def bind_eq_Some_conv upd_queue_def upd_lists_def)

lemma prvCheckForValidListAndQueue_first:
  assumes ns: "not_started s" and q: "xTimerQueue s = 0" "q \<noteq> 0" "storage \<noteq> 0" "vacant s q"
    and t: "\<forall>t. liContainer (tmr_lists s) t = None"
  obtains s' where "prvCheckForValidListAndQueue storage q s = Some s'" "not_started s'" "tmr_inv s'"
    "container s' = container s" "items s' = items s" "tcb s' = tcb s" "uxCurrentNumberOfTasks s' = uxCurrentNumberOfTasks s"
    "xTimerQueue s' = q" "queues s' q = empty_queue True configTIMER_QUEUE_LENGTH sizeof_DaemonTaskMessage storage"
    "tmr.more s' = tmr.more s" "heap s' = heap s" "xLastTime s' = xLastTime s"
proof -
  define s1 where "s1 = s\<lparr>tmr_lists := ls_init xActiveTimerList2 (ls_init xActiveTimerList1 (tmr_lists s)),
    pxCurrentTimerList := xActiveTimerList1, pxOverflowTimerList := xActiveTimerList2\<rparr>"
  define s2 where "s2 = upd_queue q (\<lambda>Q. Q\<lparr>ucStaticallyAllocated := True\<rparr>) s1"
  have inv: "sched_inv s" using ns by (simp add: not_started_def)
  have "sched_inv s1" using inv by (simp add: s1_def core_inv_def blocked_def)
  then have i2: "sched_inv s2" "vacant s2 q" using q(4) by (simp_all add: s2_def) (simp add: s1_def vacant_def)
  have sz: "0 < configTIMER_QUEUE_LENGTH" "sizeof_DaemonTaskMessage \<le> SIZE_MAX div configTIMER_QUEUE_LENGTH" "sizeof_DaemonTaskMessage \<noteq> 0"
    by (simp_all add: configTIMER_QUEUE_LENGTH_def sizeof_DaemonTaskMessage_def SIZE_MAX_def)
  obtain s3 where s3: "prvInitialiseNewQueue configTIMER_QUEUE_LENGTH sizeof_DaemonTaskMessage storage q s2 = Some s3" "sched_inv s3"
    "queues s3 = (queues s2)(q := empty_queue (ucStaticallyAllocated (queues s2 q)) configTIMER_QUEUE_LENGTH sizeof_DaemonTaskMessage
        (if sizeof_DaemonTaskMessage = 0 then q else storage))"
    "container s3 = container s2" "items s3 = items s2" "tcb s3 = tcb s2" "heap s3 = heap s2" "pxCurrentTCB s3 = pxCurrentTCB s2"
    "uxSchedulerSuspended s3 = uxSchedulerSuspended s2" "uxCurrentNumberOfTasks s3 = uxCurrentNumberOfTasks s2"
    "xSchedulerRunning s3 = xSchedulerRunning s2" "kernel.more s3 = kernel.more s2"
    by (rule prvInitialiseNewQueue_at [OF i2(1) q(2) i2(2) sz(1,2)]) blast
  have pt: "xPendedTicks s3 = xPendedTicks s2" using s3(1) by (rule prvInitialiseNewQueue_pended)
  obtain r where r: "vQueueAddToRegistry q (Some ''TmrQ'') (s3\<lparr>xTimerQueue := q\<rparr>) = Some (s3\<lparr>xTimerQueue := q, xQueueRegistry := r\<rparr>)"
    by (rule vQueueAddToRegistry_frame [OF q(2), of "Some ''TmrQ''" "s3\<lparr>xTimerQueue := q\<rparr>"]) blast
  define s' where "s' = s3\<lparr>xTimerQueue := q, xQueueRegistry := r\<rparr>"
  have run: "prvCheckForValidListAndQueue storage q s = Some s'"
    using q(1-3) sz(1,3) s3(1) r
    by (simp add: prvCheckForValidListAndQueue_def xQueueGenericCreateStatic_def upd_tmr_lists_def s2_def s1_def s'_def Let_def)
  have same: "container s' = container s" "items s' = items s" "tcb s' = tcb s" "uxCurrentNumberOfTasks s' = uxCurrentNumberOfTasks s"
    "heap s' = heap s" "pxCurrentTCB s' = pxCurrentTCB s" "uxSchedulerSuspended s' = uxSchedulerSuspended s"
    "xSchedulerRunning s' = xSchedulerRunning s" "xPendedTicks s' = xPendedTicks s"
    using s3(4-11) pt by (simp_all add: s'_def s2_def upd_queue_def) (simp_all add: s1_def)
  have tm: "timer s' = timer s" "tmr_lists s' = tmr_lists s1" "pxCurrentTimerList s' = xActiveTimerList1"
    "pxOverflowTimerList s' = xActiveTimerList2" "tmr.more s' = tmr.more s" "xLastTime s' = xLastTime s" "xTimerQueue s' = q"
    using more_tmr [OF s3(12)] by (simp_all add: s'_def s2_def s1_def upd_queue_def)
  have "sched_inv s'" using s3(2) by (simp add: s'_def core_inv_def blocked_def)
  then have "not_started s'" by (rule not_started_same [OF ns]) (fact same)+
  moreover have "tmr_inv s'"
    using empty_timer_lists [OF t] t by (simp add: tmr_inv_def tm) (simp add: s1_def ls_init_def)
  moreover have "queues s' q = empty_queue True configTIMER_QUEUE_LENGTH sizeof_DaemonTaskMessage storage"
    using s3(3) sz(3) by (simp add: s'_def s2_def)
  ultimately show ?thesis by (intro that [OF run]) (simp_all add: same tm)
qed

section \<open>The start of the scheduler\<close>

text \<open>The static variables of the image are at different addresses, none of them NULL or in use.\<close>

definition statics_ok :: "image \<Rightarrow> 'a sched_scheme \<Rightarrow> bool" where
  "statics_ok img s \<longleftrightarrow>
     0 \<notin> {xIdleTaskTCB img, uxIdleTaskStack img, xTimerTaskTCB img, uxTimerTaskStack img, xStaticTimerQueue img,
        ucStaticTimerQueueStorage img} \<and>
     distinct [xIdleTaskTCB img, xTimerTaskTCB img, xStaticTimerQueue img] \<and>
     vacant s (xIdleTaskTCB img) \<and> vacant s (xTimerTaskTCB img) \<and> vacant s (xStaticTimerQueue img)"

lemma more_board:
  assumes "tmr.more s = tmr.more (s' :: 'a board_scheme)"
  shows "xIdleTaskHandles s = xIdleTaskHandles s'" "nvic_regs s = nvic_regs s'" "board.more s = board.more s'"
  using assms by (cases s; cases s'; simp)+

text \<open>What creating one more static task keeps of the rest of the state.\<close>

lemma vacant_created:
  assumes "container k' = (container k)(StateItem a := Some l)" "\<And>l. waiting_list l \<Longrightarrow> items k' l = items k l" "vacant k b" "b \<noteq> a"
  shows "vacant k' b"
  using assms by (simp add: vacant_def)

lemma prvCreateIdleTasks_ok:
  fixes s :: "'a board_scheme"
  assumes ns: "not_started s" and a: "xIdleTaskTCB img \<noteq> 0" "uxIdleTaskStack img \<noteq> 0" "vacant s (xIdleTaskTCB img)"
  obtains s' n where "prvCreateIdleTasks img s = Some (pdPASS, s')" "not_started s'"
    "container s' = (container s)(StateItem (xIdleTaskTCB img) := Some (pxReadyTasksLists 0))"
    "tcb s' = (tcb s)(xIdleTaskTCB img := static_tcb (prvIdleTask_code img) ''IDLE'' 0 (uxIdleTaskStack img) n)"
    "uxCurrentNumberOfTasks s' = uxCurrentNumberOfTasks s + 1" "\<And>b. b \<noteq> xIdleTaskTCB img \<Longrightarrow> vacant s b \<Longrightarrow> vacant s' b"
    "xIdleTaskHandles s' 0 = xIdleTaskTCB img" "xTimerQueue s' = xTimerQueue s" "tmr_lists s' = tmr_lists s" "nvic_regs s' = nvic_regs s"
    "xLastTime s' = xLastTime s"
proof -
  have c: "container s (StateItem (xIdleTaskTCB img)) = None" "container s (EventItem (xIdleTaskTCB img)) = None"
    using a(3) by (simp_all add: vacant_def)
  have p: "0 < configMAX_PRIORITIES" "16 < configMINIMAL_STACK_SIZE" by (simp_all add: configMAX_PRIORITIES_def configMINIMAL_STACK_SIZE_def)
  obtain k n where k: "xTaskCreateStatic (prvIdleTask_code img) ''IDLE'' configMINIMAL_STACK_SIZE 0 0 (uxIdleTaskStack img) (xIdleTaskTCB img) s =
      Some (xIdleTaskTCB img, k)" "not_started k"
    "container k = (container s)(StateItem (xIdleTaskTCB img) := Some (pxReadyTasksLists 0))"
    "tcb k = (tcb s)(xIdleTaskTCB img := static_tcb (prvIdleTask_code img) ''IDLE'' 0 (uxIdleTaskStack img) n)"
    "uxCurrentNumberOfTasks k = uxCurrentNumberOfTasks s + 1" "sched.more k = sched.more s" "\<forall>l. waiting_list l \<longrightarrow> items k l = items s l"
    by (rule xTaskCreateStatic_before [OF ns a(1,2) c p]) blast
  define s' where "s' = k\<lparr>xIdleTaskHandles := (xIdleTaskHandles k)(0 := xIdleTaskTCB img)\<rparr>"
  have run: "prvCreateIdleTasks img s = Some (pdPASS, s')"
    using k(1) a(1) by (simp add: prvCreateIdleTasks_def vApplicationGetIdleTaskMemory_def configNUMBER_OF_CORES_def portPRIVILEGE_BIT_def
        configMAX_TASK_NAME_LEN_def taskRESERVED_TASK_NAME_LENGTH_def Let_def s'_def)
  note K = more_kernel(4) [OF k(6)]
  note M = more_tmr [OF K]
  have inv: "sched_inv s'" using k(2) by (simp add: s'_def not_started_def core_inv_def blocked_def)
  show ?thesis
  proof (rule that [OF run])
    show "not_started s'" by (rule not_started_same [OF k(2) inv]) (simp_all add: s'_def)
    show "container s' = (container s)(StateItem (xIdleTaskTCB img) := Some (pxReadyTasksLists 0))"
      by (rule ext) (simp add: s'_def k(3))
    show "vacant s' b" if "b \<noteq> xIdleTaskTCB img" "vacant s b" for b
      using vacant_created [OF k(3) _ that(2,1)] k(7) by (simp add: s'_def vacant_def)
  qed (use k M more_board [OF M(7)] in \<open>simp_all add: s'_def\<close>)
qed

lemma xTimerCreateTimerTask_ok:
  fixes s :: "'a tmr_scheme"
  assumes ns: "not_started s" and a: "xTimerTaskTCB img \<noteq> 0" "uxTimerTaskStack img \<noteq> 0" "vacant s (xTimerTaskTCB img)"
    and q: "xTimerQueue s = 0" "xStaticTimerQueue img \<noteq> 0" "ucStaticTimerQueueStorage img \<noteq> 0" "vacant s (xStaticTimerQueue img)"
    and t: "\<forall>t. liContainer (tmr_lists s) t = None"
  obtains s' n where "xTimerCreateTimerTask img s = Some (pdPASS, s')" "not_started s'" "tmr_inv s'"
    "container s' = (container s)(StateItem (xTimerTaskTCB img) := Some (pxReadyTasksLists configTIMER_TASK_PRIORITY))"
    "tcb s' = (tcb s)(xTimerTaskTCB img := static_tcb (prvTimerTask_code img) ''Tmr Svc'' configTIMER_TASK_PRIORITY (uxTimerTaskStack img) n)"
    "uxCurrentNumberOfTasks s' = uxCurrentNumberOfTasks s + 1" "xTimerTaskHandle s' = xTimerTaskTCB img" "xTimerQueue s' = xStaticTimerQueue img"
    "queues s' (xStaticTimerQueue img) =
       empty_queue True configTIMER_QUEUE_LENGTH sizeof_DaemonTaskMessage (ucStaticTimerQueueStorage img)"
    "tmr.more s' = tmr.more s" "xLastTime s' = xLastTime s"
proof -
  obtain s1 where s1: "prvCheckForValidListAndQueue (ucStaticTimerQueueStorage img) (xStaticTimerQueue img) s = Some s1" "not_started s1"
    "tmr_inv s1" "container s1 = container s" "items s1 = items s" "tcb s1 = tcb s" "uxCurrentNumberOfTasks s1 = uxCurrentNumberOfTasks s"
    "xTimerQueue s1 = xStaticTimerQueue img" "queues s1 (xStaticTimerQueue img) =
       empty_queue True configTIMER_QUEUE_LENGTH sizeof_DaemonTaskMessage (ucStaticTimerQueueStorage img)"
    "tmr.more s1 = tmr.more s" "xLastTime s1 = xLastTime s"
    by (rule prvCheckForValidListAndQueue_first [OF ns q t]) blast
  have c: "container s1 (StateItem (xTimerTaskTCB img)) = None" "container s1 (EventItem (xTimerTaskTCB img)) = None"
    using a(3) s1(4) by (simp_all add: vacant_def)
  have p: "configTIMER_TASK_PRIORITY < configMAX_PRIORITIES" "16 < configTIMER_TASK_STACK_DEPTH"
    by (simp_all add: configMAX_PRIORITIES_def configTIMER_TASK_STACK_DEPTH_def configTIMER_TASK_PRIORITY_def configMINIMAL_STACK_SIZE_def)
  obtain k n where k: "xTaskCreateStatic (prvTimerTask_code img) ''Tmr Svc'' configTIMER_TASK_STACK_DEPTH 0 configTIMER_TASK_PRIORITY
      (uxTimerTaskStack img) (xTimerTaskTCB img) s1 = Some (xTimerTaskTCB img, k)" "not_started k"
    "container k = (container s1)(StateItem (xTimerTaskTCB img) := Some (pxReadyTasksLists configTIMER_TASK_PRIORITY))"
    "tcb k = (tcb s1)(xTimerTaskTCB img := static_tcb (prvTimerTask_code img) ''Tmr Svc'' configTIMER_TASK_PRIORITY (uxTimerTaskStack img) n)"
    "uxCurrentNumberOfTasks k = uxCurrentNumberOfTasks s1 + 1" "sched.more k = sched.more s1"
    by (rule xTaskCreateStatic_before [OF s1(2) a(1,2) c p]) blast
  define s' where "s' = k\<lparr>xTimerTaskHandle := xTimerTaskTCB img\<rparr>"
  note K = more_kernel [OF k(6)]
  note M = more_tmr [OF K(4)]
  have run: "xTimerCreateTimerTask img s = Some (pdPASS, s')"
    using s1(1,8) q(2) k(1) a(1) by (simp add: xTimerCreateTimerTask_def vApplicationGetTimerTaskMemory_def portPRIVILEGE_BIT_def s'_def
        pdPASS_def Let_def)
  have inv: "sched_inv s'" using k(2) by (simp add: s'_def not_started_def core_inv_def blocked_def)
  show ?thesis
  proof (rule that [OF run])
    show "not_started s'" by (rule not_started_same [OF k(2) inv]) (simp_all add: s'_def)
    show "container s' = (container s)(StateItem (xTimerTaskTCB img) := Some (pxReadyTasksLists configTIMER_TASK_PRIORITY))"
      by (rule ext) (simp add: s'_def k(3) s1(4))
    show "tmr_inv s'" using s1(3) M by (simp add: tmr_inv_def has_status_def s'_def)
  qed (use k s1 K M in \<open>simp_all add: s'_def\<close>)
qed

lemma sched_inv_clock_reset:
  assumes ns: "not_started k" and same: "lists k' = lists k" "tcb k' = tcb k" "uxTopReadyPriority k' = uxTopReadyPriority k"
    "pxDelayedTaskList k' = pxDelayedTaskList k" "pxOverflowDelayedTaskList k' = pxOverflowDelayedTaskList k"
  shows "sched_inv k'"
proof -
  have inv: "sched_inv k" and r: "\<forall>i l. container k i = Some l \<longrightarrow> (\<exists>p. l = pxReadyTasksLists p)"
    using ns by (simp_all add: not_started_def)
  have d: "pxDelayedTaskList k \<in> delayed_lists" "pxOverflowDelayedTaskList k \<in> delayed_lists"
    using core_invD(8) [OF inv] by blast+
  have nd: "container k i \<noteq> Some (pxDelayedTaskList k)" "container k i \<noteq> Some (pxOverflowDelayedTaskList k)" for i
    using r d by fastforce+
  show ?thesis using inv nd unfolding core_inv_def blocked_def same by simp
qed

text \<open>
  C28: The start of the scheduler establishes the system. From a state in which tasks were only created (or
  none was), with the vector table of the start-up code and at least six interrupt priority bits,
  \<^verbatim>\<open>vTaskStartScheduler\<close> runs through to the first task: the scheduler's invariant holds, the tick count is
  0, exactly the idle task (priority 0) and the timer service task (priority 5) have been added to
  the ready tasks, the task that runs is a ready one of the highest priority, the timer queue is empty
  and the timer lists are well formed, so that the timer service can work, no task is inside a critical
  section and interrupts are enabled, and SysTick is set for 25000 clock cycles, one millisecond.
\<close>

theorem scheduler_start_establishes:
  assumes "not_started s" "xTimerQueue s = 0" "\<forall>t. liContainer (tmr_lists s) t = None" "statics_ok img s"
    "port_ready n img (nvic_regs s)"
  shows "\<exists>s'. vTaskStartScheduler img s = Some s' \<and> sched_inv s' \<and> xSchedulerRunning s' \<and> xTickCount s' = 0 \<and>
    (\<forall>t. ready s' t \<longleftrightarrow> ready s t \<or> t = xIdleTaskTCB img \<or> t = xTimerTaskTCB img) \<and>
    prio s' (xIdleTaskTCB img) = 0 \<and> pxTaskCode (tcb s' (xIdleTaskTCB img)) = prvIdleTask_code img \<and>
    prio s' (xTimerTaskTCB img) = 5 \<and> pxTaskCode (tcb s' (xTimerTaskTCB img)) = prvTimerTask_code img \<and>
    xTaskGetIdleTaskHandle s' = Some (xIdleTaskTCB img) \<and> xTimerGetTimerDaemonTaskHandle s' = Some (xTimerTaskTCB img) \<and>
    ready s' (pxCurrentTCB s') \<and> (\<forall>t. ready s' t \<longrightarrow> prio s' t \<le> prio s' (pxCurrentTCB s')) \<and>
    service_ready s' \<and> tmr_inv s' \<and> inside 0 (nvic_regs s') \<and> systick_load (nvic_regs s') = 25000 - 1"
proof -
  have st: "xIdleTaskTCB img \<noteq> 0" "uxIdleTaskStack img \<noteq> 0" "vacant s (xIdleTaskTCB img)" "xTimerTaskTCB img \<noteq> 0"
    "uxTimerTaskStack img \<noteq> 0" "vacant s (xTimerTaskTCB img)" "xStaticTimerQueue img \<noteq> 0" "ucStaticTimerQueueStorage img \<noteq> 0"
    "vacant s (xStaticTimerQueue img)" "xTimerTaskTCB img \<noteq> xIdleTaskTCB img" "xStaticTimerQueue img \<noteq> xIdleTaskTCB img"
    using assms(4) by (auto simp: statics_ok_def)
  obtain s1 m where s1: "prvCreateIdleTasks img s = Some (pdPASS, s1)" "not_started s1"
    "container s1 = (container s)(StateItem (xIdleTaskTCB img) := Some (pxReadyTasksLists 0))"
    "tcb s1 = (tcb s)(xIdleTaskTCB img := static_tcb (prvIdleTask_code img) ''IDLE'' 0 (uxIdleTaskStack img) m)"
    "\<forall>b. b \<noteq> xIdleTaskTCB img \<longrightarrow> vacant s b \<longrightarrow> vacant s1 b"
    "xIdleTaskHandles s1 0 = xIdleTaskTCB img" "xTimerQueue s1 = xTimerQueue s" "tmr_lists s1 = tmr_lists s" "nvic_regs s1 = nvic_regs s"
    by (rule prvCreateIdleTasks_ok [OF assms(1) st(1-3)]) blast
  have v1: "vacant s1 (xTimerTaskTCB img)" "vacant s1 (xStaticTimerQueue img)" "xTimerQueue s1 = 0" "\<forall>t. liContainer (tmr_lists s1) t = None"
    using s1(5,7,8) st assms(2,3) by simp_all
  obtain s2 l where s2: "xTimerCreateTimerTask img s1 = Some (pdPASS, s2)" "not_started s2" "tmr_inv s2"
    "container s2 = (container s1)(StateItem (xTimerTaskTCB img) := Some (pxReadyTasksLists configTIMER_TASK_PRIORITY))"
    "tcb s2 = (tcb s1)(xTimerTaskTCB img := static_tcb (prvTimerTask_code img) ''Tmr Svc'' configTIMER_TASK_PRIORITY (uxTimerTaskStack img) l)"
    "uxCurrentNumberOfTasks s2 = uxCurrentNumberOfTasks s1 + 1" "xTimerTaskHandle s2 = xTimerTaskTCB img" "xTimerQueue s2 = xStaticTimerQueue img"
    "queues s2 (xStaticTimerQueue img) =
       empty_queue True configTIMER_QUEUE_LENGTH sizeof_DaemonTaskMessage (ucStaticTimerQueueStorage img)" "tmr.more s2 = tmr.more s1"
    by (rule xTimerCreateTimerTask_ok [OF s1(2) st(4,5) v1(1,3) st(7,8) v1(2,4)]) blast
  note B = more_board [OF s2(10)]
  let ?c = "vPortRaiseBASEPRI (nvic_regs s2)"
  define s' where "s' = s2\<lparr>nvic_regs := started n img ?c, xNextTaskUnblockTime := portMAX_DELAY, xSchedulerRunning := True, xTickCount := 0\<rparr>"
  have pr: "port_ready n img ?c" using assms(5) s1(9) B(2) by (simp add: port_ready_def vPortRaiseBASEPRI_def)
  have run: "vTaskStartScheduler img s = Some s'"
    using s1(1) s2(1) xPortStartScheduler_ok [OF pr]
    by (simp add: vTaskStartScheduler_def pdPASS_def configINITIAL_TICK_COUNT_def s'_def)
  have inv: "sched_inv s'" by (rule sched_inv_clock_reset [OF s2(2)]) (simp_all add: s'_def)
  have cur: "running_ready s2" "\<forall>t. ready s2 t \<longrightarrow> prio s2 t \<le> prio s2 (pxCurrentTCB s2)" "pxCurrentTCB s2 \<noteq> 0"
    using s2(2,6) by (auto simp: not_started_def split: if_splits)
  have f: "container s' = container s2" "tcb s' = tcb s2" "pxCurrentTCB s' = pxCurrentTCB s2" "tmr_lists s' = tmr_lists s2" "timer s' = timer s2"
    "xTimerQueue s' = xTimerQueue s2" "queues s' = queues s2" "uxSchedulerSuspended s' = 0" "xPendedTicks s' = 0" "0 < uxCurrentNumberOfTasks s'"
    "pxCurrentTimerList s' = pxCurrentTimerList s2" "pxOverflowTimerList s' = pxOverflowTimerList s2" "nvic_regs s' = started n img ?c"
    "xTimerTaskHandle s' = xTimerTaskTCB img" "xIdleTaskHandles s' 0 = xIdleTaskTCB img" "xSchedulerRunning s'" "xTickCount s' = 0"
    using s2(2,6,7) s1(6) B(1) by (simp_all add: s'_def not_started_def)
  have rr: "running_ready s'" using cur(1) by (simp add: running_ready_def f(1-3))
  have sv: "service_ready s'"
    unfolding service_ready_def f(6-10) s2(8,9) using inv rr st(7) f(10) by (simp add: empty_queue_def unlocked_def)
  have ti: "tmr_inv s'" using s2(3) unfolding tmr_inv_def has_status_def f(4,5,11,12) .
  have rd: "ready s' t \<longleftrightarrow> ready s t \<or> t = xIdleTaskTCB img \<or> t = xTimerTaskTCB img" for t
    by (auto simp: ready_def f(1) s2(4) s1(3))
  have pt: "tcb s' (xIdleTaskTCB img) = static_tcb (prvIdleTask_code img) ''IDLE'' 0 (uxIdleTaskStack img) m"
    "tcb s' (xTimerTaskTCB img) = static_tcb (prvTimerTask_code img) ''Tmr Svc'' configTIMER_TASK_PRIORITY (uxTimerTaskStack img) l"
    using st(10) by (simp_all add: f(2) s2(5) s1(4))
  have tp: "prio s' (xIdleTaskTCB img) = 0" "pxTaskCode (tcb s' (xIdleTaskTCB img)) = prvIdleTask_code img"
    "prio s' (xTimerTaskTCB img) = 5" "pxTaskCode (tcb s' (xTimerTaskTCB img)) = prvTimerTask_code img"
    unfolding pt by (simp_all add: static_tcb_def new_tcb_def configTIMER_TASK_PRIORITY_def configMAX_PRIORITIES_def)
  have mx: "\<forall>t. ready s' t \<longrightarrow> prio s' t \<le> prio s' (pxCurrentTCB s')" using cur(2) by (simp add: ready_def f(1-3))
  have rc: "ready s' (pxCurrentTCB s')" using rr unfolding running_ready_def ready_def by blast
  have hd: "xTaskGetIdleTaskHandle s' = Some (xIdleTaskTCB img)" "xTimerGetTimerDaemonTaskHandle s' = Some (xTimerTaskTCB img)"
    using f(14,15) st(1,4) by (simp_all add: xTaskGetIdleTaskHandle_def xTimerGetTimerDaemonTaskHandle_def)
  have vz: "vectactive ?c = 0" using pr unfolding port_ready_def by blast
  have nv: "inside 0 (nvic_regs s')" "systick_load (nvic_regs s') = 25000 - 1"
    unfolding f(13) started_def using vz by (simp_all add: inside_def)
  show ?thesis by (intro exI [of _ s'] conjI run inv f(16,17) tp hd rc mx sv ti nv allI rd)
qed

text \<open>The board at reset: no task, empty lists, the registers of \<open>demo_nvic\<close>.\<close>

definition reset_board :: board where
  "reset_board = tmr.extend (kernel.extend (sched.extend boot_sched
       (kernel.fields (\<lambda>_. empty_queue False 0 0 0) (\<lambda>_. 0) (replicate 10 (None, 0))))
     (tmr.fields (\<lambda>_. \<lparr>pcTimerName = 0, xTimerPeriodInTicks = 0, pvTimerID = 0, pxCallbackFunction = 0, ucStatus = 0\<rparr>)
        \<lparr>liValue = (\<lambda>_. 0), liContainer = (\<lambda>_. None), lsItems = (\<lambda>_. []), lsIndex = (\<lambda>_. None)\<rparr>
        xActiveTimerList1 xActiveTimerList2 0 0 0))
     (board.fields (\<lambda>_. 0) demo_nvic)"

lemma reset_board_simps [simp]:
  "lists reset_board = boot_lists" "tcb reset_board = (\<lambda>_. empty_TCB)" "pxCurrentTCB reset_board = 0" "uxCurrentNumberOfTasks reset_board = 0"
  "\<not> xSchedulerRunning reset_board" "uxSchedulerSuspended reset_board = 0" "xPendedTicks reset_board = 0" "xTimerQueue reset_board = 0"
  "liContainer (tmr_lists reset_board) t = None" "nvic_regs reset_board = demo_nvic"
  by (simp_all add: reset_board_def board.defs tmr.defs kernel.defs sched.defs boot_sched_def)

lemma reset_not_started: "not_started reset_board"
proof -
  have "sched_inv reset_board"
    using boot_sched_inv by (simp add: core_inv_def blocked_def reset_board_def board.defs tmr.defs kernel.defs sched.defs)
  then show ?thesis by (simp add: not_started_def boot_lists_def)
qed

lemma reset_statics: "statics_ok demo_image reset_board"
  by (simp add: statics_ok_def demo_image_def vacant_def boot_lists_def)

theorem scheduler_start_establishes_witness:
  "\<exists>s'. vTaskStartScheduler demo_image reset_board = Some s' \<and> xSchedulerRunning s' \<and> pxCurrentTCB s' = xTimerTaskTCB demo_image \<and>
     service_ready s' \<and> inside 0 (nvic_regs s')"
proof -
  have r: "port_ready 8 demo_image (nvic_regs reset_board)" using demo_port_ready by simp
  have n: "\<not> ready reset_board t" for t by (simp add: ready_def boot_lists_def)
  obtain s' where s': "vTaskStartScheduler demo_image reset_board = Some s'" "xSchedulerRunning s'"
    "\<forall>t. ready s' t \<longleftrightarrow> ready reset_board t \<or> t = xIdleTaskTCB demo_image \<or> t = xTimerTaskTCB demo_image"
    "prio s' (xIdleTaskTCB demo_image) = 0" "prio s' (xTimerTaskTCB demo_image) = 5" "ready s' (pxCurrentTCB s')"
    "\<forall>t. ready s' t \<longrightarrow> prio s' t \<le> prio s' (pxCurrentTCB s')" "service_ready s'" "inside 0 (nvic_regs s')"
    using scheduler_start_establishes [OF reset_not_started _ _ reset_statics r] by auto
  have "prio s' (xTimerTaskTCB demo_image) \<le> prio s' (pxCurrentTCB s')" using s'(3,7) by blast
  then have "pxCurrentTCB s' = xTimerTaskTCB demo_image" using s'(3-6) n by auto
  then show ?thesis using s'(1,2,8,9) by blast
qed

end
