(* ===== verification/FR_Task_Info.thy ===== *)
theory FR_Task_Info
  imports FR_Task_More FR_Create
begin

text \<open>
  The status of tasks (\<^verbatim>\<open>tasks.c\<close>, \<^verbatim>\<open>configUSE_TRACE_FACILITY\<close>): \<^verbatim>\<open>vTaskGetInfo\<close> describes one task and
  \<^verbatim>\<open>uxTaskGetSystemState\<close> every task of the system, in an array of the caller. A write past the end of
  that array is \<open>None\<close>. The property shows that the array is never overrun, that every task is
  described exactly once, and that the description agrees with the queries on single tasks.
\<close>

section \<open>One task\<close>

text \<open>\<open>pcTaskName\<close> is the text that the pointer of the structure leads to.\<close>

record TaskStatus_t =
  xHandle :: addr
  pcTaskName :: string
  xTaskNumber :: nat
  eCurrentState :: eTaskState
  uxCurrentPriority :: nat
  uxBasePriority :: nat
  ulRunTimeCounter :: nat
  pxStackBase :: addr
  usStackHighWaterMark :: nat

definition vTaskGetInfo ::
  "addr \<Rightarrow> bool \<Rightarrow> eTaskState \<Rightarrow> 'a kernel_scheme \<Rightarrow> (TaskStatus_t \<times> 'a kernel_scheme) option" where
  "vTaskGetInfo xTask xGetFreeStackSpace eState k = do {
     let t = prvGetTCBFromHandle xTask k;
     configASSERT (t \<noteq> 0);
     let st = \<lparr>xHandle = t, pcTaskName = TCB_t.pcTaskName (tcb k t), xTaskNumber = uxTCBNumber (tcb k t),
               eCurrentState = eState, uxCurrentPriority = uxPriority (tcb k t),
               uxBasePriority = TCB_t.uxBasePriority (tcb k t), ulRunTimeCounter = 0,
               pxStackBase = pxStack (tcb k t), usStackHighWaterMark = 0\<rparr>;
     (st, k) \<leftarrow>
       (if eState \<noteq> eInvalid then
          if t = pxCurrentTCB k then Some (st\<lparr>eCurrentState := eRunning\<rparr>, k)
          else do {
            (st, k) \<leftarrow>
              (if eState = eSuspended then do {
                 let k = vTaskSuspendAll k;
                 let st = (if container k (EventItem t) \<noteq> None then st\<lparr>eCurrentState := eBlocked\<rparr>
                           else if waits_notification (tcb k t) then st\<lparr>eCurrentState := eBlocked\<rparr> else st);
                 (_, k) \<leftarrow> xTaskResumeAll k;
                 Some (st, k)
               } else Some (st, k));
            Some (if container k (EventItem t) = Some xPendingReadyList then st\<lparr>eCurrentState := eReady\<rparr> else st, k)
          }
        else do {
          e \<leftarrow> eTaskGetState t k;
          Some (st\<lparr>eCurrentState := e\<rparr>, k)
        });
     n \<leftarrow> (if xGetFreeStackSpace then prvTaskCheckFreeStackSpace (pxStack (tcb k t)) k else Some 0);
     Some (st\<lparr>usStackHighWaterMark := n\<rparr>, k)
   }"

section \<open>All tasks\<close>

definition put_status :: "nat \<Rightarrow> TaskStatus_t \<Rightarrow> TaskStatus_t list \<Rightarrow> TaskStatus_t list option" where
  "put_status i st a = (if i < length a then Some (a[i := st]) else None)"

text \<open>
  The loop of \<^verbatim>\<open>prvListTasksWithinSingleList\<close> from the head entry to the end marker; \<open>base\<close> is the
  position in the caller's array of the part that the function is given.
\<close>

fun list_tasks :: "nat \<Rightarrow> eTaskState \<Rightarrow> item list \<Rightarrow> nat \<Rightarrow> TaskStatus_t list \<Rightarrow> 'a kernel_scheme \<Rightarrow>
    (nat \<times> TaskStatus_t list \<times> 'a kernel_scheme) option" where
  "list_tasks base eState [] uxTask a k = Some (uxTask, a, k)"
| "list_tasks base eState (i # is) uxTask a k = do {
     (st, k) \<leftarrow> vTaskGetInfo (owner i) True eState k;
     a \<leftarrow> put_status (base + uxTask) st a;
     list_tasks base eState is (uxTask + 1) a k
   }"

definition prvListTasksWithinSingleList :: "nat \<Rightarrow> TaskStatus_t list \<Rightarrow> list_id \<Rightarrow> eTaskState \<Rightarrow> 'a kernel_scheme \<Rightarrow>
    (nat \<times> TaskStatus_t list \<times> 'a kernel_scheme) option" where
  "prvListTasksWithinSingleList base a pxList eState k =
     (if length (items k pxList) > 0 then list_tasks base eState (items k pxList) 0 a k else Some (0, a, k))"

text \<open>The loop over the ready lists, from the highest priority down to the idle priority.\<close>

fun list_ready :: "nat \<Rightarrow> nat \<Rightarrow> TaskStatus_t list \<Rightarrow> 'a kernel_scheme \<Rightarrow>
    (nat \<times> TaskStatus_t list \<times> 'a kernel_scheme) option" where
  "list_ready 0 uxTask a k = Some (uxTask, a, k)"
| "list_ready (Suc uxQueue) uxTask a k = do {
     (n, a, k) \<leftarrow> prvListTasksWithinSingleList uxTask a (pxReadyTasksLists uxQueue) eReady k;
     list_ready uxQueue (uxTask + n) a k
   }"

text \<open>The lists in the order of \<^verbatim>\<open>uxTaskGetSystemState\<close>.\<close>

definition list_all_states :: "TaskStatus_t list \<Rightarrow> 'a kernel_scheme \<Rightarrow> (nat \<times> TaskStatus_t list \<times> 'a kernel_scheme) option" where
  "list_all_states a k = do {
     (uxTask, a, k) \<leftarrow> list_ready configMAX_PRIORITIES 0 a k;
     (n, a, k) \<leftarrow> prvListTasksWithinSingleList uxTask a (pxDelayedTaskList k) eBlocked k;
     let uxTask = uxTask + n;
     (n, a, k) \<leftarrow> prvListTasksWithinSingleList uxTask a (pxOverflowDelayedTaskList k) eBlocked k;
     let uxTask = uxTask + n;
     (n, a, k) \<leftarrow> prvListTasksWithinSingleList uxTask a xTasksWaitingTermination eDeleted k;
     let uxTask = uxTask + n;
     (n, a, k) \<leftarrow> prvListTasksWithinSingleList uxTask a xSuspendedTaskList eSuspended k;
     Some (uxTask + n, a, k)
   }"

text \<open>\<open>pulTotalRunTime\<close> is the number that the pointer leads to, \<open>None\<close> for NULL.\<close>

definition uxTaskGetSystemState :: "TaskStatus_t list \<Rightarrow> nat \<Rightarrow> nat option \<Rightarrow> 'a kernel_scheme \<Rightarrow>
    (nat \<times> TaskStatus_t list \<times> nat option \<times> 'a kernel_scheme) option" where
  "uxTaskGetSystemState a uxArraySize pulTotalRunTime k = do {
     let k = vTaskSuspendAll k;
     (uxTask, a, pulTotalRunTime, k) \<leftarrow>
       (if uxArraySize \<ge> uxCurrentNumberOfTasks k then do {
          (uxTask, a, k) \<leftarrow> list_all_states a k;
          Some (uxTask, a, map_option (\<lambda>_. 0) pulTotalRunTime, k)
        }
        else Some (0, a, pulTotalRunTime, k));
     (_, k) \<leftarrow> xTaskResumeAll k;
     Some (uxTask, a, pulTotalRunTime, k)
   }"

section \<open>The description of a task\<close>

text \<open>The number of words at the end of a stack that have never been written: whole words of fill bytes.\<close>

definition untouched :: "(addr \<Rightarrow> u8) \<Rightarrow> addr \<Rightarrow> nat \<Rightarrow> bool" where
  "untouched m a w \<longleftrightarrow> (\<exists>n. w = n div 4 \<and> (\<forall>i<n. m (a + i) = tskSTACK_FILL_BYTE) \<and> m (a + n) \<noteq> tskSTACK_FILL_BYTE)"

definition stack_used :: "'a kernel_scheme \<Rightarrow> addr \<Rightarrow> bool" where
  "stack_used k t \<longleftrightarrow> (\<exists>n. mem k (pxStack (tcb k t) + n) \<noteq> tskSTACK_FILL_BYTE)"

lemma fill_count_run: "\<forall>i<n. m (a + i) = tskSTACK_FILL_BYTE \<Longrightarrow> m (a + n) \<noteq> tskSTACK_FILL_BYTE \<Longrightarrow>
    fill_count m a c = Some (c + n)"
proof (induction n arbitrary: a c)
  case 0
  then show ?case by (simp add: fill_count.simps)
next
  case (Suc n)
  have "m a = tskSTACK_FILL_BYTE" using Suc.prems(1) by fastforce
  moreover have "fill_count m (a + 1) (c + 1) = Some (c + 1 + n)"
    by (rule Suc.IH) (use Suc.prems in \<open>simp_all, metis Suc_less_eq add_Suc_right\<close>)
  ultimately show ?case by (subst fill_count.simps) simp
qed

lemma free_stack_space:
  assumes "stack_used k t"
  obtains w where "prvTaskCheckFreeStackSpace (pxStack (tcb k t)) k = Some w" "untouched (mem k) (pxStack (tcb k t)) w"
proof -
  let ?a = "pxStack (tcb k t)" and ?n = "LEAST n. mem k (pxStack (tcb k t) + n) \<noteq> tskSTACK_FILL_BYTE"
  have n: "\<forall>i<?n. mem k (?a + i) = tskSTACK_FILL_BYTE" "mem k (?a + ?n) \<noteq> tskSTACK_FILL_BYTE"
    using assms LeastI_ex [of "\<lambda>n. mem k (?a + n) \<noteq> tskSTACK_FILL_BYTE"] not_less_Least unfolding stack_used_def by blast+
  show ?thesis
    by (rule that [of "?n div 4"]) (use n in \<open>auto simp: prvTaskCheckFreeStackSpace_def fill_count_run untouched_def\<close>)
qed

text \<open>What a status says is what the queries on the task itself say.\<close>

definition describes :: "'a kernel_scheme \<Rightarrow> TaskStatus_t \<Rightarrow> bool" where
  "describes k st \<longleftrightarrow>
     eTaskGetState (xHandle st) k = Some (eCurrentState st) \<and>
     uxTaskPriorityGet (xHandle st) k = Some (uxCurrentPriority st) \<and>
     uxTaskBasePriorityGet (xHandle st) k = Some (uxBasePriority st) \<and>
     pcTaskGetName (xHandle st) k = Some (pcTaskName st) \<and>
     xTaskNumber st = uxTCBNumber (tcb k (xHandle st)) \<and> ulRunTimeCounter st = 0 \<and>
     pxStackBase st = pxStack (tcb k (xHandle st)) \<and>
     untouched (mem k) (pxStackBase st) (usStackHighWaterMark st)"

text \<open>The state that a list says its tasks have.\<close>

fun state_of_list :: "'a sched_scheme \<Rightarrow> list_id \<Rightarrow> eTaskState" where
  "state_of_list k l =
     (if l = xSuspendedTaskList then eSuspended else if l = xTasksWaitingTermination then eDeleted
      else if l = pxDelayedTaskList k \<or> l = pxOverflowDelayedTaskList k then eBlocked else eReady)"

lemma resume_nested: "uxSchedulerSuspended k \<noteq> 0 \<Longrightarrow> xTaskResumeAll (vTaskSuspendAll k) = Some (False, k)"
  by (simp add: xTaskResumeAll_def vTaskSuspendAll_def)

lemma vTaskGetInfo_eq:
  assumes s: "uxSchedulerSuspended k \<noteq> 0" and t: "t \<noteq> 0" and e: "e \<noteq> eInvalid"
    and w: "prvTaskCheckFreeStackSpace (pxStack (tcb k t)) k = Some w"
  shows "vTaskGetInfo t True e k =
    Some (\<lparr>xHandle = t, pcTaskName = TCB_t.pcTaskName (tcb k t), xTaskNumber = uxTCBNumber (tcb k t),
      eCurrentState = (if t = pxCurrentTCB k then eRunning
        else if container k (EventItem t) = Some xPendingReadyList then eReady
        else if e = eSuspended \<and> (container k (EventItem t) \<noteq> None \<or> waits_notification (tcb k t)) then eBlocked else e),
      uxCurrentPriority = uxPriority (tcb k t), uxBasePriority = TCB_t.uxBasePriority (tcb k t), ulRunTimeCounter = 0,
      pxStackBase = pxStack (tcb k t), usStackHighWaterMark = w\<rparr>, k)"
proof -
  have v: "lists (vTaskSuspendAll k) = lists k" "tcb (vTaskSuspendAll k) = tcb k" by (simp_all add: vTaskSuspendAll_def)
  show ?thesis using w e t
    by (cases "t = pxCurrentTCB k") (simp_all add: vTaskGetInfo_def prvGetTCBFromHandle_def resume_nested [OF s] v Let_def)
qed

lemma eTaskGetState_of_list:
  assumes inv: "sched_inv k" and t: "t \<noteq> 0" "container k (StateItem t) = Some l"
  shows "eTaskGetState t k = Some (if t = pxCurrentTCB k then eRunning
    else if container k (EventItem t) = Some xPendingReadyList then eReady
    else if state_of_list k l = eSuspended \<and> (container k (EventItem t) \<noteq> None \<or> waits_notification (tcb k t)) then eBlocked
    else state_of_list k l)"
  using delayed_ptrs(1,2) [OF inv] by (auto simp: eTaskGetState_def t)

lemma vTaskGetInfo_describes:
  assumes s: "uxSchedulerSuspended k \<noteq> 0" and inv: "sched_inv k" and t: "t \<noteq> 0" "container k (StateItem t) = Some l"
    and u: "stack_used k t"
  obtains st where "vTaskGetInfo t True (state_of_list k l) k = Some (st, k)" "xHandle st = t" "describes k st"
proof -
  obtain w where w: "prvTaskCheckFreeStackSpace (pxStack (tcb k t)) k = Some w" "untouched (mem k) (pxStack (tcb k t)) w"
    by (rule free_stack_space [OF u])
  have e: "state_of_list k l \<noteq> eInvalid" by simp
  show thesis
    by (rule that [OF vTaskGetInfo_eq [OF s t(1) e w(1)]])
      (use w(2) t(1) in \<open>simp_all add: describes_def eTaskGetState_of_list [OF inv t] uxTaskPriorityGet_def uxTaskBasePriorityGet_def
         pcTaskGetName_def prvGetTCBFromHandle_def del: state_of_list.simps\<close>)
qed

section \<open>The array of the caller\<close>

definition overwrite :: "nat \<Rightarrow> 'b list \<Rightarrow> 'b list \<Rightarrow> 'b list" where
  "overwrite p xs a = take p a @ xs @ drop (p + length xs) a"

lemma overwrite_Nil [simp]: "overwrite p [] a = a"
  by (simp add: overwrite_def)

lemma length_overwrite [simp]: "p + length xs \<le> length a \<Longrightarrow> length (overwrite p xs a) = length a"
  by (simp add: overwrite_def)

lemma overwrite_append: "p + length xs + length ys \<le> length a \<Longrightarrow>
    overwrite (p + length xs) ys (overwrite p xs a) = overwrite p (xs @ ys) a"
  by (simp add: overwrite_def ac_simps)

lemma update_overwrite: "p < length a \<Longrightarrow> a[p := x] = overwrite p [x] a"
  by (simp add: overwrite_def upd_conv_take_nth_drop)

lemma overwrite_all: "length xs \<le> length a \<Longrightarrow> take (length xs) (overwrite 0 xs a) = xs"
  "length xs \<le> length a \<Longrightarrow> drop (length xs) (overwrite 0 xs a) = drop (length xs) a"
  by (simp_all add: overwrite_def)

text \<open>One list: its tasks are described in order from the given position on, and the state is as before.\<close>

definition listing :: "'a kernel_scheme \<Rightarrow> item list \<Rightarrow> TaskStatus_t list \<Rightarrow> bool" where
  "listing k is sts \<longleftrightarrow> map xHandle sts = map owner is \<and> (\<forall>st \<in> set sts. describes k st)"

lemma listing_append: "listing k is sts \<Longrightarrow> listing k js sts' \<Longrightarrow> listing k (is @ js) (sts @ sts')"
  by (auto simp: listing_def)

lemma listing_length: "listing k is sts \<Longrightarrow> length sts = length is"
  unfolding listing_def by (metis length_map)

lemma list_tasks_listing:
  assumes "uxSchedulerSuspended k \<noteq> 0" "sched_inv k" "\<forall>i \<in> set is. container k i = Some l"
    "\<forall>t l. container k (StateItem t) = Some l \<longrightarrow> stack_used k t" "state_list l" "base + n + length is \<le> length a"
  obtains sts where "list_tasks base (state_of_list k l) is n a k = Some (n + length is, overwrite (base + n) sts a, k)"
    "listing k is sts"
  using assms
proof (induction "is" arbitrary: n a thesis)
  case Nil
  show ?case by (rule Nil.prems(1) [of "[]"]) (simp_all add: listing_def del: state_of_list.simps)
next
  case (Cons i "is")
  note D = core_invD [OF Cons.prems(3)]
  have ci: "container k i = Some l" using Cons.prems(4) by simp
  obtain t where i: "i = StateItem t" using D(2) [OF ci] Cons.prems(6) by (cases i) simp_all
  have t: "t \<noteq> 0" using D(3) [of i] ci i by (cases "t = 0") simp_all
  obtain st where st: "vTaskGetInfo t True (state_of_list k l) k = Some (st, k)" "xHandle st = t" "describes k st"
    by (rule vTaskGetInfo_describes [OF Cons.prems(2,3) t ci [unfolded i]]) (use Cons.prems(5) ci i in blast)
  have b: "base + n < length a" using Cons.prems(7) by simp
  obtain sts where sts: "list_tasks base (state_of_list k l) is (n + 1) (overwrite (base + n) [st] a) k =
      Some (n + 1 + length is, overwrite (base + (n + 1)) sts (overwrite (base + n) [st] a), k)" "listing k is sts"
    by (rule Cons.IH [OF _ Cons.prems(2,3) _ Cons.prems(5,6), of "n + 1" "overwrite (base + n) [st] a"])
      (use Cons.prems(4,7) in \<open>simp_all del: state_of_list.simps\<close>)
  have l: "length sts = length is" by (rule listing_length [OF sts(2)])
  have o: "overwrite (base + (n + 1)) sts (overwrite (base + n) [st] a) = overwrite (base + n) (st # sts) a"
    using overwrite_append [of "base + n" "[st]" sts a] Cons.prems(7) l by simp
  show ?case
  proof (rule Cons.prems(1) [of "st # sts"])
    show "list_tasks base (state_of_list k l) (i # is) n a k = Some (n + length (i # is), overwrite (base + n) (st # sts) a, k)"
      using st(1) sts(1) [unfolded o] b by (simp add: i put_status_def update_overwrite del: state_of_list.simps)
    show "listing k (i # is) (st # sts)" using sts(2) st(2,3) by (simp add: listing_def i)
  qed
qed

text \<open>The tasks of the system have their state item in a list and a byte of their stack that was written.\<close>

definition tasks_of :: "'a sched_scheme \<Rightarrow> addr set" where
  "tasks_of k = {t. container k (StateItem t) \<noteq> None}"

lemma single_list:
  assumes k: "uxSchedulerSuspended k \<noteq> 0" "sched_inv k" "\<forall>t \<in> tasks_of k. stack_used k t"
    and l: "state_list l" and n: "base + length (items k l) \<le> length a"
  obtains sts where "prvListTasksWithinSingleList base a l (state_of_list k l) k = Some (length (items k l), overwrite base sts a, k)"
    "listing k (items k l) sts"
proof -
  have c: "\<forall>i \<in> set (items k l). container k i = Some l" using lists_ok_mem [OF core_invD(1) [OF k(2)]] by simp
  have u: "\<forall>t l. container k (StateItem t) = Some l \<longrightarrow> stack_used k t" using k(3) by (simp add: tasks_of_def)
  obtain sts where sts: "list_tasks base (state_of_list k l) (items k l) 0 a k =
      Some (0 + length (items k l), overwrite (base + 0) sts a, k)" "listing k (items k l) sts"
    by (rule list_tasks_listing [OF k(1,2) c u l, of base 0 a]) (use n in simp_all)
  show ?thesis by (rule that [OF _ sts(2)])
      (use sts in \<open>auto simp: prvListTasksWithinSingleList_def listing_def simp del: state_of_list.simps\<close>)
qed

definition ready_items :: "'a sched_scheme \<Rightarrow> nat \<Rightarrow> item list" where
  "ready_items k n = concat (map (\<lambda>q. items k (pxReadyTasksLists q)) (rev [0..<n]))"

lemma list_ready_listing:
  assumes "uxSchedulerSuspended k \<noteq> 0" "sched_inv k" "\<forall>t \<in> tasks_of k. stack_used k t"
    "u + length (ready_items k n) \<le> length a"
  obtains sts where "list_ready n u a k = Some (u + length (ready_items k n), overwrite u sts a, k)" "listing k (ready_items k n) sts"
  using assms
proof (induction n arbitrary: u a thesis)
  case 0
  show ?case by (rule "0.prems"(1) [of "[]"]) (simp_all add: listing_def ready_items_def)
next
  case (Suc n)
  let ?l = "pxReadyTasksLists n"
  have s: "ready_items k (Suc n) = items k ?l @ ready_items k n" by (simp add: ready_items_def)
  have e: "state_of_list k ?l = eReady" using delayed_ptrs(1,2) [OF Suc.prems(3)] by auto
  obtain sts where sts: "prvListTasksWithinSingleList u a ?l (state_of_list k ?l) k = Some (length (items k ?l), overwrite u sts a, k)"
    "listing k (items k ?l) sts"
    by (rule single_list [OF Suc.prems(2-4), of ?l u a]) (use Suc.prems(5) in \<open>simp_all add: s\<close>)
  note n = listing_length [OF sts(2)]
  obtain sts' where sts': "list_ready n (u + length sts) (overwrite u sts a) k =
      Some (u + length sts + length (ready_items k n), overwrite (u + length sts) sts' (overwrite u sts a), k)"
    "listing k (ready_items k n) sts'"
    by (rule Suc.IH [OF _ Suc.prems(2-4), of "u + length sts" "overwrite u sts a"]) (use Suc.prems(5) n in \<open>simp_all add: s\<close>)
  have "overwrite (u + length sts) sts' (overwrite u sts a) = overwrite u (sts @ sts') a"
    by (rule overwrite_append) (use Suc.prems(5) n listing_length [OF sts'(2)] in \<open>simp add: s\<close>)
  then show ?case
    by (intro Suc.prems(1) [of "sts @ sts'"])
      (use sts(1) [unfolded e] sts'(1) n listing_append [OF sts(2) sts'(2)] in \<open>simp_all add: s ac_simps\<close>)
qed

definition all_items :: "'a sched_scheme \<Rightarrow> item list" where
  "all_items k = (((ready_items k configMAX_PRIORITIES @ items k (pxDelayedTaskList k)) @ items k (pxOverflowDelayedTaskList k)) @
     items k xTasksWaitingTermination) @ items k xSuspendedTaskList"

text \<open>One more list after the tasks that are described already.\<close>

lemma next_list:
  assumes k: "uxSchedulerSuspended k \<noteq> 0" "sched_inv k" "\<forall>t \<in> tasks_of k. stack_used k t" and l: "state_list l"
    and e: "state_of_list k l = e" and n: "length is + length (items k l) \<le> length a" and sts: "listing k is sts"
  obtains sts' where "prvListTasksWithinSingleList (length is) (overwrite 0 sts a) l e k =
      Some (length (items k l), overwrite 0 sts' a, k)" "listing k (is @ items k l) sts'"
proof -
  note m = listing_length [OF sts]
  obtain st where st: "prvListTasksWithinSingleList (length is) (overwrite 0 sts a) l (state_of_list k l) k =
      Some (length (items k l), overwrite (length is) st (overwrite 0 sts a), k)" "listing k (items k l) st"
    by (rule single_list [OF k l, of "length is" "overwrite 0 sts a"]) (use n m in simp_all)
  have "overwrite (length is) st (overwrite 0 sts a) = overwrite 0 (sts @ st) a"
    using overwrite_append [of 0 sts st a] n m listing_length [OF st(2)] by simp
  then show ?thesis using that [of "sts @ st"] st(1) e listing_append [OF sts st(2)] by simp
qed

lemma all_items_owners:
  assumes inv: "sched_inv k"
  shows "distinct (map owner (all_items k))" "set (map owner (all_items k)) = tasks_of k"
proof -
  note D = core_invD [OF inv]
  note m = lists_ok_mem [OF D(1)]
  have w: "ls_wf UNIV (lists k)" using D(1) by (simp add: lists_ok_def)
  have dl: "distinct (items k l)" for l by (rule wf_distinct [OF w]) simp
  have r: "set (ready_items k n) = {i. \<exists>q<n. container k i = Some (pxReadyTasksLists q)}" for n
    by (auto simp: ready_items_def m)
  have dr: "distinct (ready_items k n)" for n
  proof (induction n)
    case (Suc n)
    have "ready_items k (Suc n) = items k (pxReadyTasksLists n) @ ready_items k n" by (simp add: ready_items_def)
    then show ?case using Suc.IH dl by (auto simp: r m)
  qed (simp add: ready_items_def)
  note p = delayed_ptrs [OF inv]
  have d: "distinct (all_items k)" using p(1-3) by (auto simp: all_items_def r m dl dr)
  have st: "\<exists>t. i = StateItem t" if "i \<in> set (all_items k)" for i
  proof -
    have "\<exists>l. container k i = Some l \<and> state_list l" using that p(4,5) unfolding all_items_def set_append r Un_iff m by auto
    then show ?thesis using D(2) [of i] by (cases i) auto
  qed
  have "inj_on owner (set (all_items k))" by (rule inj_onI) (metis st owner.simps(1))
  then show "distinct (map owner (all_items k))" using d by (simp add: distinct_map)
  have a: "StateItem t \<in> set (all_items k)" if c: "container k (StateItem t) = Some l" for t l
  proof (cases l)
    case (pxReadyTasksLists q)
    then have "q < configMAX_PRIORITIES" using D(4) [of t] D(6) [of t q] c by simp
    then show ?thesis using c pxReadyTasksLists by (auto simp: all_items_def r)
  qed (use c D(2) [OF c] D(8) in \<open>auto simp: all_items_def m doubleton_eq_iff\<close>)
  show "set (map owner (all_items k)) = tasks_of k"
  proof (intro set_eqI iffI)
    fix t
    assume "t \<in> set (map owner (all_items k))"
    then obtain i where i: "i \<in> set (all_items k)" "t = owner i" by auto
    have "container k i \<noteq> None" using i(1) by (auto simp: all_items_def r m)
    then show "t \<in> tasks_of k" using st [OF i(1)] i(2) by (auto simp: tasks_of_def)
  next
    fix t
    assume "t \<in> tasks_of k"
    then obtain l where "container k (StateItem t) = Some l" by (auto simp: tasks_of_def)
    from a [OF this] show "t \<in> set (map owner (all_items k))" by force
  qed
qed

lemma list_all_tasks:
  assumes k: "uxSchedulerSuspended k \<noteq> 0" "sched_inv k" "\<forall>t \<in> tasks_of k. stack_used k t" and n: "length (all_items k) \<le> length a"
  obtains sts where "listing k (all_items k) sts"
    "list_all_states a k = Some (length (all_items k), overwrite 0 sts a, k)"
proof -
  let ?r = "ready_items k configMAX_PRIORITIES" and ?d = "items k (pxDelayedTaskList k)" and ?o = "items k (pxOverflowDelayedTaskList k)"
    and ?t = "items k xTasksWaitingTermination" and ?s = "items k xSuspendedTaskList"
  note q = delayed_ptrs [OF k(2)]
  have e: "state_of_list k (pxDelayedTaskList k) = eBlocked" "state_of_list k (pxOverflowDelayedTaskList k) = eBlocked"
    "state_of_list k xTasksWaitingTermination = eDeleted" "state_of_list k xSuspendedTaskList = eSuspended"
    using q(1,2) by auto
  have len: "length ?r + length ?d + length ?o + length ?t + length ?s \<le> length a" using n by (simp add: all_items_def)
  obtain s0 where s0: "list_ready configMAX_PRIORITIES 0 a k = Some (0 + length ?r, overwrite 0 s0 a, k)" "listing k ?r s0"
    by (rule list_ready_listing [OF k, of 0 configMAX_PRIORITIES a]) (use len in simp_all)
  obtain s1 where s1: "prvListTasksWithinSingleList (length ?r) (overwrite 0 s0 a) (pxDelayedTaskList k) eBlocked k =
      Some (length ?d, overwrite 0 s1 a, k)" "listing k (?r @ ?d) s1"
    by (rule next_list [OF k q(4) e(1) _ s0(2), of a]) (use len in simp_all)
  obtain s2 where s2: "prvListTasksWithinSingleList (length (?r @ ?d)) (overwrite 0 s1 a) (pxOverflowDelayedTaskList k) eBlocked k =
      Some (length ?o, overwrite 0 s2 a, k)" "listing k ((?r @ ?d) @ ?o) s2"
    by (rule next_list [OF k q(5) e(2) _ s1(2), of a]) (use len in simp_all)
  obtain s3 where s3: "prvListTasksWithinSingleList (length ((?r @ ?d) @ ?o)) (overwrite 0 s2 a) xTasksWaitingTermination eDeleted k =
      Some (length ?t, overwrite 0 s3 a, k)" "listing k (((?r @ ?d) @ ?o) @ ?t) s3"
    by (rule next_list [OF k _ e(3) _ s2(2), of a]) (use len in simp_all)
  obtain s4 where s4: "prvListTasksWithinSingleList (length (((?r @ ?d) @ ?o) @ ?t)) (overwrite 0 s3 a) xSuspendedTaskList eSuspended k =
      Some (length ?s, overwrite 0 s4 a, k)" "listing k ((((?r @ ?d) @ ?o) @ ?t) @ ?s) s4"
    by (rule next_list [OF k _ e(4) _ s3(2), of a]) (use len in simp_all)
  show ?thesis
  proof (rule that [of s4])
    show "listing k (all_items k) s4" using s4(2) by (simp only: all_items_def)
  qed (use s0(1) s1(1) s2(1) s3(1) s4(1) in \<open>simp add: list_all_states_def all_items_def add.assoc\<close>)
qed

section \<open>The state of the system\<close>

lemma suspended_fields [simp]:
  "lists (vTaskSuspendAll k) = lists k" "tcb (vTaskSuspendAll k) = tcb k" "pxCurrentTCB (vTaskSuspendAll k) = pxCurrentTCB k"
  "pxDelayedTaskList (vTaskSuspendAll k) = pxDelayedTaskList k"
  "pxOverflowDelayedTaskList (vTaskSuspendAll k) = pxOverflowDelayedTaskList k"
  "uxCurrentNumberOfTasks (vTaskSuspendAll k) = uxCurrentNumberOfTasks k" "mem (vTaskSuspendAll l) = mem l"
  by (simp_all add: vTaskSuspendAll_def)

lemma eTaskGetState_suspended [simp]: "eTaskGetState t (vTaskSuspendAll k) = eTaskGetState t k"
  unfolding eTaskGetState_def suspended_fields ..

lemma describes_suspended [simp]: "describes (vTaskSuspendAll k) st = describes k st"
  by (simp add: describes_def uxTaskPriorityGet_def uxTaskBasePriorityGet_def pcTaskGetName_def prvGetTCBFromHandle_def)

text \<open>
  C33: \<open>uxTaskGetSystemState\<close> returns, whatever lists the tasks are in and also when ticks and wake-ups are
  pending. With room for all tasks it describes every task of the system exactly once, in the first
  entries of the array: its state, priorities and name are what \<open>eTaskGetState\<close>, \<open>uxTaskPriorityGet\<close>,
  \<open>uxTaskBasePriorityGet\<close> and \<open>pcTaskGetName\<close> say of it, and the high-water mark is the number of
  untouched words at the end of its stack. The rest of the array is not written, never a position
  past its end. With less room nothing is written and the result is 0. The kernel is left as by
  suspending and resuming the scheduler.
\<close>

theorem system_state_complete:
  assumes "sched_inv k" and "\<forall>t \<in> tasks_of k. stack_used k t"
    and "uxCurrentNumberOfTasks k = card (tasks_of k)" and "0 < card (tasks_of k)" and "uxArraySize \<le> length a"
  shows "\<exists>y k' a' n r. uxTaskGetSystemState a uxArraySize pulTotalRunTime k = Some (n, a', r, k') \<and>
    xTaskResumeAll (vTaskSuspendAll k) = Some (y, k') \<and> sched_inv k' \<and>
    (if uxArraySize < card (tasks_of k) then n = 0 \<and> a' = a \<and> r = pulTotalRunTime
     else n = card (tasks_of k) \<and> r = map_option (\<lambda>_. 0) pulTotalRunTime \<and> length a' = length a \<and> drop n a' = drop n a \<and>
       distinct (map xHandle (take n a')) \<and> set (map xHandle (take n a')) = tasks_of k \<and>
       (\<forall>st \<in> set (take n a'). describes k st))"
proof -
  let ?k = "vTaskSuspendAll k"
  have s: "uxSchedulerSuspended ?k \<noteq> 0" "sched_inv ?k" "\<forall>t \<in> tasks_of ?k. stack_used ?k t"
    using assms(1,2) by (simp_all add: vTaskSuspendAll_def tasks_of_def stack_used_def)
  have f: "tasks_of ?k = tasks_of k" "uxCurrentNumberOfTasks ?k = card (tasks_of k)" "heap ?k = heap k"
    using assms(3) by (simp_all add: vTaskSuspendAll_def tasks_of_def)
  obtain y k' where r: "xTaskResumeAll (?k\<lparr>heap := heap k\<rparr>) = Some (y, k')" "sched_inv k'"
    by (rule suspend_resume [OF assms(1), of "heap k"]) (use assms(3,4) in simp_all)
  have r': "xTaskResumeAll ?k = Some (y, k')" using r(1) by (simp add: vTaskSuspendAll_def)
  show ?thesis
  proof (cases "uxArraySize < card (tasks_of k)")
    case True
    then show ?thesis using f(2) r' r(2) by (simp add: uxTaskGetSystemState_def)
  next
    case False
    note o = all_items_owners [OF s(2)]
    have n: "length (all_items ?k) = card (tasks_of k)" using distinct_card [OF o(1)] o(2) f(1) by simp
    obtain sts where sts: "listing ?k (all_items ?k) sts" and eq: "list_all_states a ?k = Some (length (all_items ?k), overwrite 0 sts a, ?k)"
      by (rule list_all_tasks [OF s, of a]) (use False assms(5) n in simp_all)
    have eq: "uxTaskGetSystemState a uxArraySize pulTotalRunTime k =
        Some (length (all_items ?k), overwrite 0 sts a, map_option (\<lambda>_. 0) pulTotalRunTime, k')"
      using False f(2) eq r' by (simp add: uxTaskGetSystemState_def)
    have l: "length sts = card (tasks_of k)" "length sts \<le> length a" using listing_length [OF sts] n False assms(5) by simp_all
    note w = overwrite_all [OF l(2)]
    have "distinct (map xHandle sts)" "set (map xHandle sts) = tasks_of k" "\<forall>st \<in> set sts. describes k st"
      using sts o f(1) by (simp_all add: listing_def)
    then show ?thesis using False eq r' r(2) n w l by auto
  qed
qed

text \<open>The three tasks of \<open>demo_kernel\<close> in an array of four entries.\<close>

lemma demo_tasks: "tasks_of demo_kernel = {1000, 2000, 3000}"
  by (auto simp: tasks_of_def demo_def boot_sched_def boot_lists_def prvAddTaskToReadyList_def upd_lists_def)

definition blank_status :: TaskStatus_t where
  "blank_status = \<lparr>xHandle = 0, pcTaskName = [], xTaskNumber = 0, eCurrentState = eInvalid, uxCurrentPriority = 0,
     uxBasePriority = 0, ulRunTimeCounter = 0, pxStackBase = 0, usStackHighWaterMark = 0\<rparr>"

theorem system_state_complete_witness:
  "\<exists>y k' a'. uxTaskGetSystemState (replicate 4 blank_status) 4 (Some 7) demo_kernel = Some (3, a', Some 0, k') \<and>
    xTaskResumeAll (vTaskSuspendAll demo_kernel) = Some (y, k') \<and> length a' = 4 \<and> drop 3 a' = [blank_status] \<and>
    xHandle ` set (take 3 a') = {1000, 2000, 3000} \<and> (\<forall>st \<in> set (take 3 a'). describes demo_kernel st)"
proof -
  have u: "\<forall>t \<in> tasks_of demo_kernel. stack_used demo_kernel t" by (simp add: stack_used_def tskSTACK_FILL_BYTE_def)
  have c: "card (tasks_of demo_kernel) = 3" by (simp add: demo_tasks)
  have d: "drop 3 (replicate 4 blank_status) = [blank_status]" by (simp add: drop_replicate)
  have "uxCurrentNumberOfTasks demo_kernel = card (tasks_of demo_kernel)" "0 < card (tasks_of demo_kernel)"
    "4 \<le> length (replicate 4 blank_status)" by (simp_all add: c)
  from system_state_complete [OF demo_kernel_inv u this, of "Some 7"]
  show ?thesis by (simp add: c d demo_tasks numeral_3_eq_3) blast
qed

end
