(* ===== verification/Lwip_Pbuf.thy ===== *)
theory Lwip_Pbuf
  imports FR_Start
begin

text \<open>
  Packet buffers of lwIP: \<^verbatim>\<open>pbuf.c\<close>, with the two pools of \<^verbatim>\<open>memp.c\<close> that its buffers come from, in the
  configuration of \<^verbatim>\<open>lwipopts.h\<close> (eight pool buffers of 1514 bytes, alignment 4, no overflow and sanity
  checks). The state extends the board's by the buffers by address, the heads of the two free lists and
  the flag of a queued reclaim. A free element of a pool is linked by its first word, which is the field
  \<^verbatim>\<open>next\<close> of the buffer it was; payloads are in the byte memory.

  \<open>None\<close> is a failed \<^verbatim>\<open>LWIP_ASSERT\<close> or \<^verbatim>\<open>LWIP_ERROR\<close>, which call \<^verbatim>\<open>abort\<close> in this build. The heap of
  \<^verbatim>\<open>mem.c\<close> (whose sizes are 16 bits wide, as \<^verbatim>\<open>MEM_SIZE\<close> is 16384), the message to the TCP thread and the input function of an interface are a parameter, the record \<open>lwip\<close>.
  The statistics counters are left out.
\<close>

section \<open>State\<close>

type_synonym u16 = "16 word"

datatype pbuf_layer = PBUF_TRANSPORT | PBUF_IP | PBUF_LINK | PBUF_RAW

datatype pbuf_type = PBUF_RAM | PBUF_ROM | PBUF_REF | PBUF_POOL

text \<open>\<^verbatim>\<open>struct pbuf\<close>, and the function pointer that follows it in a \<^verbatim>\<open>struct pbuf_custom\<close>.\<close>

record pbuf =
  pb_next :: addr
  pb_payload :: addr
  pb_tot_len :: u16
  pb_len :: u16
  pb_type :: pbuf_type
  pb_flags :: u8
  pb_ref :: u16
  custom_free_function :: addr

datatype memp_t = MEMP_PBUF | MEMP_PBUF_POOL

record net = board +
  pbufs :: "addr \<Rightarrow> pbuf"
  memp_tab :: "memp_t \<Rightarrow> addr"
  pbuf_free_ooseq_queued :: bool

record 's lwip =
  mem_malloc :: "u16 \<Rightarrow> 's \<Rightarrow> (addr \<times> 's) option"
  mem_trim :: "addr \<Rightarrow> u16 \<Rightarrow> 's \<Rightarrow> (addr \<times> 's) option"
  mem_free :: "addr \<Rightarrow> 's \<Rightarrow> 's option"
  call_custom_free :: "addr \<Rightarrow> addr \<Rightarrow> 's \<Rightarrow> 's option"
  tcpip_callback_free_ooseq :: "'s \<Rightarrow> int \<times> 's"
  netif_input :: "addr \<Rightarrow> addr \<Rightarrow> 's \<Rightarrow> int \<times> 's"

definition ERR_OK :: int where "ERR_OK = 0"
definition ERR_ARG :: int where "ERR_ARG = - 14"

definition LWIP_ASSERT :: "bool \<Rightarrow> unit option" where
  "LWIP_ASSERT b = (if b then Some () else None)"

definition MEM_ALIGNMENT :: nat where "MEM_ALIGNMENT = 4"
definition PBUF_POOL_BUFSIZE :: nat where "PBUF_POOL_BUFSIZE = 1514"

text \<open>\<^verbatim>\<open>LWIP_MEM_ALIGN_SIZE\<close> and \<^verbatim>\<open>LWIP_MEM_ALIGN\<close>: up to the next multiple of four.\<close>

definition LWIP_MEM_ALIGN :: "nat \<Rightarrow> nat" where
  "LWIP_MEM_ALIGN n = (n + MEM_ALIGNMENT - 1) div MEM_ALIGNMENT * MEM_ALIGNMENT"

definition SIZEOF_STRUCT_PBUF :: nat where "SIZEOF_STRUCT_PBUF = LWIP_MEM_ALIGN 16"
definition PBUF_POOL_BUFSIZE_ALIGNED :: nat where "PBUF_POOL_BUFSIZE_ALIGNED = LWIP_MEM_ALIGN PBUF_POOL_BUFSIZE"
definition PBUF_FLAG_IS_CUSTOM :: u8 where "PBUF_FLAG_IS_CUSTOM = 0x02"

definition upd_pbuf :: "addr \<Rightarrow> (pbuf \<Rightarrow> pbuf) \<Rightarrow> 'a net_scheme \<Rightarrow> 'a net_scheme" where
  "upd_pbuf p f s = s\<lparr>pbufs := (pbufs s)(p := f (pbufs s p))\<rparr>"

definition upd_mem :: "((addr \<Rightarrow> u8) \<Rightarrow> (addr \<Rightarrow> u8)) \<Rightarrow> 'a net_scheme \<Rightarrow> 'a net_scheme" where
  "upd_mem f s = s\<lparr>mem := f (mem s)\<rparr>"

section \<open>Pools\<close>

definition memp_malloc :: "memp_t \<Rightarrow> 'a net_scheme \<Rightarrow> (addr \<times> 'a net_scheme) option" where
  "memp_malloc type s = do {
     let memp = memp_tab s type;
     if memp \<noteq> 0 then do {
       let s = s\<lparr>memp_tab := (memp_tab s)(type := pb_next (pbufs s memp))\<rparr>;
       LWIP_ASSERT (memp mod MEM_ALIGNMENT = 0);
       Some (memp, s)
     } else Some (0, s)
   }"

definition memp_free :: "memp_t \<Rightarrow> addr \<Rightarrow> 'a net_scheme \<Rightarrow> 'a net_scheme option" where
  "memp_free type m s =
     (if m = 0 then Some s
      else do {
        LWIP_ASSERT (m mod MEM_ALIGNMENT = 0);
        let s = upd_pbuf m (\<lambda>b. b\<lparr>pb_next := memp_tab s type\<rparr>) s;
        Some (s\<lparr>memp_tab := (memp_tab s)(type := m)\<rparr>)
      })"

text \<open>The part of \<^verbatim>\<open>memp_init\<close> for one pool: \<open>n\<close> elements of a size from an address on; the address behind them.\<close>

fun init_elements :: "memp_t \<Rightarrow> nat \<Rightarrow> nat \<Rightarrow> addr \<Rightarrow> 'a net_scheme \<Rightarrow> addr \<times> 'a net_scheme" where
  "init_elements type sz 0 memp s = (memp, s)"
| "init_elements type sz (Suc n) memp s =
     (let s = upd_pbuf memp (\<lambda>b. b\<lparr>pb_next := memp_tab s type\<rparr>) s;
          s = s\<lparr>memp_tab := (memp_tab s)(type := memp)\<rparr>
      in init_elements type sz n (memp + sz) s)"

definition memp_init_pool :: "memp_t \<Rightarrow> nat \<Rightarrow> nat \<Rightarrow> addr \<Rightarrow> 'a net_scheme \<Rightarrow> addr \<times> 'a net_scheme" where
  "memp_init_pool type num sz memp s = init_elements type sz num memp (s\<lparr>memp_tab := (memp_tab s)(type := 0)\<rparr>)"

section \<open>Release\<close>

definition pbuf_pool_is_empty :: "'a net_scheme lwip \<Rightarrow> 'a net_scheme \<Rightarrow> 'a net_scheme" where
  "pbuf_pool_is_empty L s =
     (let queued = pbuf_free_ooseq_queued s;
          s = s\<lparr>pbuf_free_ooseq_queued := True\<rparr>
      in if \<not> queued then
           let (err, s) = tcpip_callback_free_ooseq L s
           in if err \<noteq> ERR_OK then s\<lparr>pbuf_free_ooseq_queued := False\<rparr> else s
         else s)"

definition release_pbuf :: "'a net_scheme lwip \<Rightarrow> addr \<Rightarrow> 'a net_scheme \<Rightarrow> 'a net_scheme option" where
  "release_pbuf L p s =
     (if pb_flags (pbufs s p) AND PBUF_FLAG_IS_CUSTOM \<noteq> 0 then do {
        LWIP_ASSERT (custom_free_function (pbufs s p) \<noteq> 0);
        call_custom_free L (custom_free_function (pbufs s p)) p s
      }
      else case pb_type (pbufs s p) of
        PBUF_POOL \<Rightarrow> memp_free MEMP_PBUF_POOL p s
      | PBUF_ROM \<Rightarrow> memp_free MEMP_PBUF p s
      | PBUF_REF \<Rightarrow> memp_free MEMP_PBUF p s
      | PBUF_RAM \<Rightarrow> mem_free L p s)"

text \<open>The loop over the chain; \<open>count\<close> is 8 bits wide.\<close>

partial_function (option) free_loop :: "'a net_scheme lwip \<Rightarrow> addr \<Rightarrow> u8 \<Rightarrow> 'a net_scheme \<Rightarrow> (u8 \<times> 'a net_scheme) option" where
  "free_loop L p count s =
     (if p \<noteq> 0 then do {
        LWIP_ASSERT (pb_ref (pbufs s p) > 0);
        let s = upd_pbuf p (\<lambda>b. b\<lparr>pb_ref := pb_ref b - 1\<rparr>) s;
        if pb_ref (pbufs s p) = 0 then do {
          let q = pb_next (pbufs s p);
          s \<leftarrow> release_pbuf L p s;
          free_loop L q (count + 1) s
        }
        else Some (count, s)
      }
      else Some (count, s))"

definition pbuf_free :: "'a net_scheme lwip \<Rightarrow> addr \<Rightarrow> 'a net_scheme \<Rightarrow> (u8 \<times> 'a net_scheme) option" where
  "pbuf_free L p s = do {
     LWIP_ASSERT (p \<noteq> 0);
     free_loop L p 0 s
   }"

section \<open>Allocation\<close>

definition PBUF_TRANSPORT_HLEN :: nat where "PBUF_TRANSPORT_HLEN = 20"
definition PBUF_IP_HLEN :: nat where "PBUF_IP_HLEN = 20"
definition PBUF_LINK_HLEN :: nat where "PBUF_LINK_HLEN = 14"

text \<open>The cascade of cases at the head of \<^verbatim>\<open>pbuf_alloc\<close> and \<^verbatim>\<open>pbuf_alloced_custom\<close>.\<close>

fun header_offset :: "pbuf_layer \<Rightarrow> nat" where
  "header_offset PBUF_TRANSPORT = PBUF_TRANSPORT_HLEN + PBUF_IP_HLEN + PBUF_LINK_HLEN"
| "header_offset PBUF_IP = PBUF_IP_HLEN + PBUF_LINK_HLEN"
| "header_offset PBUF_LINK = PBUF_LINK_HLEN"
| "header_offset PBUF_RAW = 0"

text \<open>The loop that adds buffers of the pool to the chain from \<open>p\<close>, whose last buffer is \<open>r\<close>; 0 when the pool runs out.\<close>

partial_function (option) alloc_tail :: "'a net_scheme lwip \<Rightarrow> addr \<Rightarrow> addr \<Rightarrow> nat \<Rightarrow> 'a net_scheme \<Rightarrow> (addr \<times> 'a net_scheme) option" where
  "alloc_tail L p r rem_len s =
     (if rem_len > 0 then do {
        (q, s) \<leftarrow> memp_malloc MEMP_PBUF_POOL s;
        if q = 0 then do {
          let s = pbuf_pool_is_empty L s;
          (_, s) \<leftarrow> pbuf_free L p s;
          Some (0, s)
        }
        else do {
          let s = upd_pbuf q (\<lambda>b. b\<lparr>pb_type := PBUF_POOL, pb_flags := 0, pb_next := 0\<rparr>) s;
          let s = upd_pbuf r (\<lambda>b. b\<lparr>pb_next := q\<rparr>) s;
          LWIP_ASSERT (rem_len < 0xffff);
          let s = upd_pbuf q (\<lambda>b. b\<lparr>pb_tot_len := of_nat rem_len, pb_len := of_nat (min rem_len PBUF_POOL_BUFSIZE_ALIGNED),
                    pb_payload := q + SIZEOF_STRUCT_PBUF\<rparr>) s;
          LWIP_ASSERT (pb_payload (pbufs s q) mod MEM_ALIGNMENT = 0);
          LWIP_ASSERT (pb_payload (pbufs s p) + unat (pb_len (pbufs s p)) \<le> p + SIZEOF_STRUCT_PBUF + PBUF_POOL_BUFSIZE_ALIGNED);
          let s = upd_pbuf q (\<lambda>b. b\<lparr>pb_ref := 1\<rparr>) s;
          alloc_tail L p q (rem_len - unat (pb_len (pbufs s q))) s
        }
      }
      else Some (p, s))"

definition alloc_pool :: "'a net_scheme lwip \<Rightarrow> nat \<Rightarrow> u16 \<Rightarrow> 'a net_scheme \<Rightarrow> (addr \<times> 'a net_scheme) option" where
  "alloc_pool L offset len s = do {
     (p, s) \<leftarrow> memp_malloc MEMP_PBUF_POOL s;
     if p = 0 then Some (0, pbuf_pool_is_empty L s)
     else do {
       let s = upd_pbuf p (\<lambda>b. b\<lparr>pb_type := PBUF_POOL, pb_next := 0,
                 pb_payload := LWIP_MEM_ALIGN (p + (SIZEOF_STRUCT_PBUF + offset))\<rparr>) s;
       LWIP_ASSERT (pb_payload (pbufs s p) mod MEM_ALIGNMENT = 0);
       let s = upd_pbuf p (\<lambda>b. b\<lparr>pb_tot_len := len,
                 pb_len := of_nat (min (unat len) (PBUF_POOL_BUFSIZE_ALIGNED - LWIP_MEM_ALIGN offset))\<rparr>) s;
       LWIP_ASSERT (pb_payload (pbufs s p) + unat (pb_len (pbufs s p)) \<le> p + SIZEOF_STRUCT_PBUF + PBUF_POOL_BUFSIZE_ALIGNED);
       LWIP_ASSERT (PBUF_POOL_BUFSIZE_ALIGNED - LWIP_MEM_ALIGN offset > 0);
       let s = upd_pbuf p (\<lambda>b. b\<lparr>pb_ref := 1\<rparr>) s;
       alloc_tail L p p (unat len - unat (pb_len (pbufs s p))) s
     }
   }"

definition pbuf_alloc :: "'a net_scheme lwip \<Rightarrow> pbuf_layer \<Rightarrow> u16 \<Rightarrow> pbuf_type \<Rightarrow> 'a net_scheme \<Rightarrow> (addr \<times> 'a net_scheme) option" where
  "pbuf_alloc L layer len type s = do {
     let offset = header_offset layer;
     (p, s) \<leftarrow>
       (case type of
          PBUF_POOL \<Rightarrow> alloc_pool L offset len s
        | PBUF_RAM \<Rightarrow> do {
            (p, s) \<leftarrow> mem_malloc L (of_nat (LWIP_MEM_ALIGN (SIZEOF_STRUCT_PBUF + offset) + LWIP_MEM_ALIGN (unat len))) s;
            if p = 0 then Some (0, s)
            else do {
              let s = upd_pbuf p (\<lambda>b. b\<lparr>pb_payload := LWIP_MEM_ALIGN (p + SIZEOF_STRUCT_PBUF + offset), pb_tot_len := len,
                        pb_len := len, pb_next := 0, pb_type := type\<rparr>) s;
              LWIP_ASSERT (pb_payload (pbufs s p) mod MEM_ALIGNMENT = 0);
              Some (p, s)
            }
          }
        | _ \<Rightarrow> do {
            (p, s) \<leftarrow> memp_malloc MEMP_PBUF s;
            if p = 0 then Some (0, s)
            else Some (p, upd_pbuf p (\<lambda>b. b\<lparr>pb_payload := 0, pb_tot_len := len, pb_len := len, pb_next := 0, pb_type := type\<rparr>) s)
          });
     if p = 0 then Some (0, s)
     else Some (p, upd_pbuf p (\<lambda>b. b\<lparr>pb_ref := 1, pb_flags := 0\<rparr>) s)
   }"

text \<open>The result of \<^verbatim>\<open>pbuf_alloced_custom\<close> is the given buffer or NULL.\<close>

definition pbuf_alloced_custom :: "pbuf_layer \<Rightarrow> u16 \<Rightarrow> pbuf_type \<Rightarrow> addr \<Rightarrow> addr \<Rightarrow> u16 \<Rightarrow> 'a net_scheme \<Rightarrow> addr \<times> 'a net_scheme" where
  "pbuf_alloced_custom l len type p payload_mem payload_mem_len s =
     (let offset = header_offset l
      in if LWIP_MEM_ALIGN offset + unat len < unat payload_mem_len then (0, s)
         else (p, upd_pbuf p (\<lambda>b. b\<lparr>pb_next := 0,
                pb_payload := (if payload_mem \<noteq> 0 then LWIP_MEM_ALIGN (payload_mem + offset) else 0),
                pb_flags := PBUF_FLAG_IS_CUSTOM, pb_tot_len := len, pb_len := len, pb_type := type, pb_ref := 1\<rparr>) s))"

section \<open>Length and header\<close>

text \<open>The loop of \<^verbatim>\<open>pbuf_realloc\<close> over the buffers that stay as they are but for the total length.\<close>

partial_function (option) realloc_skip :: "addr \<Rightarrow> u16 \<Rightarrow> u16 \<Rightarrow> 'a net_scheme \<Rightarrow> (addr \<times> u16 \<times> 'a net_scheme) option" where
  "realloc_skip q rem_len grow s =
     (if rem_len > pb_len (pbufs s q) then do {
        let rem_len = rem_len - pb_len (pbufs s q);
        let s = upd_pbuf q (\<lambda>b. b\<lparr>pb_tot_len := pb_tot_len b + grow\<rparr>) s;
        let q = pb_next (pbufs s q);
        LWIP_ASSERT (q \<noteq> 0);
        realloc_skip q rem_len grow s
      }
      else Some (q, rem_len, s))"

definition pbuf_realloc :: "'a net_scheme lwip \<Rightarrow> addr \<Rightarrow> u16 \<Rightarrow> 'a net_scheme \<Rightarrow> 'a net_scheme option" where
  "pbuf_realloc L p new_len s = do {
     LWIP_ASSERT (p \<noteq> 0);
     if new_len \<ge> pb_tot_len (pbufs s p) then Some s
     else do {
       let grow = new_len - pb_tot_len (pbufs s p);
       (q, rem_len, s) \<leftarrow> realloc_skip p new_len grow s;
       (q, s) \<leftarrow>
         (if pb_type (pbufs s q) = PBUF_RAM \<and> rem_len \<noteq> pb_len (pbufs s q) then do {
            (q, s) \<leftarrow> mem_trim L q (of_nat (pb_payload (pbufs s q) - q) + rem_len) s;
            LWIP_ASSERT (q \<noteq> 0);
            Some (q, s)
          }
          else Some (q, s));
       let s = upd_pbuf q (\<lambda>b. b\<lparr>pb_len := rem_len, pb_tot_len := rem_len\<rparr>) s;
       s \<leftarrow> (if pb_next (pbufs s q) \<noteq> 0 then map_option snd (pbuf_free L (pb_next (pbufs s q)) s) else Some s);
       Some (upd_pbuf q (\<lambda>b. b\<lparr>pb_next := 0\<rparr>) s)
     }
   }"

text \<open>\<^verbatim>\<open>pbuf_header\<close>; the increment is a signed 16-bit number.\<close>

definition pbuf_header :: "addr \<Rightarrow> u16 \<Rightarrow> 'a net_scheme \<Rightarrow> (u8 \<times> 'a net_scheme) option" where
  "pbuf_header p header_size_increment s = do {
     LWIP_ASSERT (p \<noteq> 0);
     if header_size_increment = 0 then Some (0, s)
     else do {
       let hide = (sint header_size_increment < 0);
       let increment_magnitude = (if hide then - header_size_increment else header_size_increment);
       LWIP_ASSERT (hide \<longrightarrow> increment_magnitude \<le> pb_len (pbufs s p));
       let payload = nat (int (pb_payload (pbufs s p)) - sint header_size_increment);
       let fails =
         (case pb_type (pbufs s p) of
            PBUF_RAM \<Rightarrow> payload < p + SIZEOF_STRUCT_PBUF
          | PBUF_POOL \<Rightarrow> payload < p + SIZEOF_STRUCT_PBUF
          | _ \<Rightarrow> \<not> (hide \<and> increment_magnitude \<le> pb_len (pbufs s p)));
       if fails then Some (1, s)
       else Some (0, upd_pbuf p (\<lambda>b. b\<lparr>pb_payload := payload, pb_len := pb_len b + header_size_increment,
                    pb_tot_len := pb_tot_len b + header_size_increment\<rparr>) s)
     }
   }"

section \<open>Chains\<close>

partial_function (option) clen_loop :: "addr \<Rightarrow> u8 \<Rightarrow> 'a net_scheme \<Rightarrow> u8 option" where
  "clen_loop p n s = (if p \<noteq> 0 then clen_loop (pb_next (pbufs s p)) (n + 1) s else Some n)"

definition pbuf_clen :: "addr \<Rightarrow> 'a net_scheme \<Rightarrow> u8 option" where
  "pbuf_clen p s = clen_loop p 0 s"

definition pbuf_ref :: "addr \<Rightarrow> 'a net_scheme \<Rightarrow> 'a net_scheme" where
  "pbuf_ref p s = (if p \<noteq> 0 then upd_pbuf p (\<lambda>b. b\<lparr>pb_ref := pb_ref b + 1\<rparr>) s else s)"

text \<open>The loop to the last buffer of the first chain.\<close>

partial_function (option) cat_loop :: "addr \<Rightarrow> addr \<Rightarrow> 'a net_scheme \<Rightarrow> (addr \<times> 'a net_scheme) option" where
  "cat_loop p t s =
     (if pb_next (pbufs s p) \<noteq> 0 then do {
        let s = upd_pbuf p (\<lambda>b. b\<lparr>pb_tot_len := pb_tot_len b + pb_tot_len (pbufs s t)\<rparr>) s;
        cat_loop (pb_next (pbufs s p)) t s
      }
      else Some (p, s))"

definition pbuf_cat :: "addr \<Rightarrow> addr \<Rightarrow> 'a net_scheme \<Rightarrow> 'a net_scheme option" where
  "pbuf_cat h t s = do {
     LWIP_ASSERT (h \<noteq> 0 \<and> t \<noteq> 0);
     (p, s) \<leftarrow> cat_loop h t s;
     LWIP_ASSERT (pb_tot_len (pbufs s p) = pb_len (pbufs s p));
     LWIP_ASSERT (pb_next (pbufs s p) = 0);
     let s = upd_pbuf p (\<lambda>b. b\<lparr>pb_tot_len := pb_tot_len b + pb_tot_len (pbufs s t)\<rparr>) s;
     Some (upd_pbuf p (\<lambda>b. b\<lparr>pb_next := t\<rparr>) s)
   }"

definition pbuf_chain :: "addr \<Rightarrow> addr \<Rightarrow> 'a net_scheme \<Rightarrow> 'a net_scheme option" where
  "pbuf_chain h t s = map_option (pbuf_ref t) (pbuf_cat h t s)"

definition pbuf_dechain :: "'a net_scheme lwip \<Rightarrow> addr \<Rightarrow> 'a net_scheme \<Rightarrow> (addr \<times> 'a net_scheme) option" where
  "pbuf_dechain L p s = do {
     let q = pb_next (pbufs s p);
     (tail_gone, s) \<leftarrow>
       (if q \<noteq> 0 then do {
          LWIP_ASSERT (int (unat (pb_tot_len (pbufs s q))) = int (unat (pb_tot_len (pbufs s p))) - int (unat (pb_len (pbufs s p))));
          let s = upd_pbuf q (\<lambda>b. b\<lparr>pb_tot_len := pb_tot_len (pbufs s p) - pb_len (pbufs s p)\<rparr>) s;
          let s = upd_pbuf p (\<lambda>b. b\<lparr>pb_next := 0, pb_tot_len := pb_len b\<rparr>) s;
          pbuf_free L q s
        }
        else Some (1, s));
     LWIP_ASSERT (pb_tot_len (pbufs s p) = pb_len (pbufs s p));
     Some (if tail_gone > 0 then 0 else q, s)
   }"

section \<open>Copying\<close>

text \<open>\<^verbatim>\<open>MEMCPY\<close> of \<open>n\<close> bytes.\<close>

definition MEMCPY :: "addr \<Rightarrow> addr \<Rightarrow> nat \<Rightarrow> 'a net_scheme \<Rightarrow> 'a net_scheme" where
  "MEMCPY dst from n s = upd_mem (\<lambda>m. write_bytes dst (bytes_at m from n) m) s"

partial_function (option) copy_loop :: "addr \<Rightarrow> u16 \<Rightarrow> addr \<Rightarrow> u16 \<Rightarrow> 'a net_scheme \<Rightarrow> (int \<times> 'a net_scheme) option" where
  "copy_loop p_to offset_to p_from offset_from s = do {
     LWIP_ASSERT (p_to \<noteq> 0);
     let t = pbufs s p_to;
     let f = pbufs s p_from;
     let len = (if int (unat (pb_len t)) - int (unat offset_to) \<ge> int (unat (pb_len f)) - int (unat offset_from)
                then pb_len f - offset_from else pb_len t - offset_to);
     let s = MEMCPY (pb_payload t + unat offset_to) (pb_payload f + unat offset_from) (unat len) s;
     let offset_to = offset_to + len;
     let offset_from = offset_from + len;
     LWIP_ASSERT (offset_to \<le> pb_len t);
     let (p_to, offset_to) = (if offset_to = pb_len t then (pb_next t, 0) else (p_to, offset_to));
     LWIP_ASSERT (offset_from \<le> pb_len f);
     let (p_from, offset_from) = (if offset_from \<ge> pb_len f then (pb_next f, 0) else (p_from, offset_from));
     LWIP_ASSERT (p_from \<noteq> 0 \<and> pb_len (pbufs s p_from) = pb_tot_len (pbufs s p_from) \<longrightarrow> pb_next (pbufs s p_from) = 0);
     LWIP_ASSERT (p_to \<noteq> 0 \<and> pb_len (pbufs s p_to) = pb_tot_len (pbufs s p_to) \<longrightarrow> pb_next (pbufs s p_to) = 0);
     if p_from \<noteq> 0 then copy_loop p_to offset_to p_from offset_from s else Some (ERR_OK, s)
   }"

definition pbuf_copy :: "addr \<Rightarrow> addr \<Rightarrow> 'a net_scheme \<Rightarrow> (int \<times> 'a net_scheme) option" where
  "pbuf_copy p_to p_from s = do {
     LWIP_ASSERT (p_to \<noteq> 0 \<and> p_from \<noteq> 0 \<and> pb_tot_len (pbufs s p_to) \<ge> pb_tot_len (pbufs s p_from));
     copy_loop p_to 0 p_from 0 s
   }"

partial_function (option) partial_loop :: "addr \<Rightarrow> addr \<Rightarrow> u16 \<Rightarrow> u16 \<Rightarrow> u16 \<Rightarrow> u16 \<Rightarrow> 'a net_scheme \<Rightarrow> (u16 \<times> 'a net_scheme) option" where
  "partial_loop dataptr p len offset left copied_total s =
     (if len \<noteq> 0 \<and> p \<noteq> 0 then
        let b = pbufs s p
        in if offset \<noteq> 0 \<and> offset \<ge> pb_len b
           then partial_loop dataptr (pb_next b) len (offset - pb_len b) left copied_total s
           else let buf_copy_len = pb_len b - offset;
                    buf_copy_len = (if buf_copy_len > len then len else buf_copy_len);
                    s = MEMCPY (dataptr + unat left) (pb_payload b + unat offset) (unat buf_copy_len) s
                in partial_loop dataptr (pb_next b) (len - buf_copy_len) 0 (left + buf_copy_len) (copied_total + buf_copy_len) s
      else Some (copied_total, s))"

definition pbuf_copy_partial :: "addr \<Rightarrow> addr \<Rightarrow> u16 \<Rightarrow> u16 \<Rightarrow> 'a net_scheme \<Rightarrow> (u16 \<times> 'a net_scheme) option" where
  "pbuf_copy_partial buf dataptr len offset s = do {
     LWIP_ASSERT (buf \<noteq> 0);
     LWIP_ASSERT (dataptr \<noteq> 0);
     partial_loop dataptr buf len offset 0 0 s
   }"

partial_function (option) take_loop :: "addr \<Rightarrow> addr \<Rightarrow> u16 \<Rightarrow> u16 \<Rightarrow> 'a net_scheme \<Rightarrow> (u16 \<times> u16 \<times> 'a net_scheme) option" where
  "take_loop dataptr p total_copy_len copied_total s =
     (if total_copy_len \<noteq> 0 then do {
        LWIP_ASSERT (p \<noteq> 0);
        let b = pbufs s p;
        let buf_copy_len = (if total_copy_len > pb_len b then pb_len b else total_copy_len);
        let s = MEMCPY (pb_payload b) (dataptr + unat copied_total) (unat buf_copy_len) s;
        take_loop dataptr (pb_next b) (total_copy_len - buf_copy_len) (copied_total + buf_copy_len) s
      }
      else Some (total_copy_len, copied_total, s))"

definition pbuf_take :: "addr \<Rightarrow> addr \<Rightarrow> u16 \<Rightarrow> 'a net_scheme \<Rightarrow> (int \<times> 'a net_scheme) option" where
  "pbuf_take buf dataptr len s = do {
     LWIP_ASSERT (buf \<noteq> 0);
     LWIP_ASSERT (dataptr \<noteq> 0);
     if pb_tot_len (pbufs s buf) < len then Some (ERR_ARG, s)
     else do {
       (total_copy_len, copied_total, s) \<leftarrow> take_loop dataptr buf len 0 s;
       LWIP_ASSERT (total_copy_len = 0 \<and> copied_total = len);
       Some (ERR_OK, s)
     }
   }"

definition pbuf_coalesce :: "'a net_scheme lwip \<Rightarrow> addr \<Rightarrow> pbuf_layer \<Rightarrow> 'a net_scheme \<Rightarrow> (addr \<times> 'a net_scheme) option" where
  "pbuf_coalesce L p layer s =
     (if pb_next (pbufs s p) = 0 then Some (p, s)
      else do {
        (q, s) \<leftarrow> pbuf_alloc L layer (pb_tot_len (pbufs s p)) PBUF_RAM s;
        if q = 0 then Some (p, s)
        else do {
          (err, s) \<leftarrow> pbuf_copy q p s;
          LWIP_ASSERT (err = ERR_OK);
          (_, s) \<leftarrow> pbuf_free L p s;
          Some (q, s)
        }
      })"

section \<open>Searching\<close>

text \<open>The loop to the buffer that has the byte at an offset, with the offset in it.\<close>

partial_function (option) seek :: "addr \<Rightarrow> u16 \<Rightarrow> 'a net_scheme \<Rightarrow> (addr \<times> u16) option" where
  "seek q start s =
     (if q \<noteq> 0 \<and> pb_len (pbufs s q) \<le> start then seek (pb_next (pbufs s q)) (start - pb_len (pbufs s q)) s
      else Some (q, start))"

definition pbuf_get_at :: "addr \<Rightarrow> u16 \<Rightarrow> 'a net_scheme \<Rightarrow> u8 option" where
  "pbuf_get_at p offset s = do {
     (q, copy_from) \<leftarrow> seek p offset s;
     Some (if q \<noteq> 0 \<and> pb_len (pbufs s q) > copy_from then mem s (pb_payload (pbufs s q) + unat copy_from) else 0)
   }"

partial_function (option) memcmp_loop :: "addr \<Rightarrow> u16 \<Rightarrow> addr \<Rightarrow> u16 \<Rightarrow> u16 \<Rightarrow> 'a net_scheme \<Rightarrow> u16 option" where
  "memcmp_loop q start s2 n i s =
     (if i < n then do {
        a \<leftarrow> pbuf_get_at q (start + i) s;
        if a \<noteq> mem s (s2 + unat i) then Some (i + 1) else memcmp_loop q start s2 n (i + 1) s
      }
      else Some 0)"

definition pbuf_memcmp :: "addr \<Rightarrow> u16 \<Rightarrow> addr \<Rightarrow> u16 \<Rightarrow> 'a net_scheme \<Rightarrow> u16 option" where
  "pbuf_memcmp p offset s2 n s = do {
     (q, start) \<leftarrow> seek p offset s;
     if q \<noteq> 0 \<and> pb_len (pbufs s q) > start then memcmp_loop q start s2 n 0 s else Some 0xffff
   }"

partial_function (option) memfind_loop :: "addr \<Rightarrow> addr \<Rightarrow> u16 \<Rightarrow> u16 \<Rightarrow> u16 \<Rightarrow> 'a net_scheme \<Rightarrow> u16 option" where
  "memfind_loop p m mem_len max_i i s =
     (if i \<le> max_i then do {
        plus \<leftarrow> pbuf_memcmp p i m mem_len s;
        if plus = 0 then Some i else memfind_loop p m mem_len max_i (i + plus) s
      }
      else Some 0xFFFF)"

definition pbuf_memfind :: "addr \<Rightarrow> addr \<Rightarrow> u16 \<Rightarrow> u16 \<Rightarrow> 'a net_scheme \<Rightarrow> u16 option" where
  "pbuf_memfind p m mem_len start_offset s =
     (let max_i = pb_tot_len (pbufs s p) - mem_len
      in if unat (pb_tot_len (pbufs s p)) \<ge> unat mem_len + unat start_offset
         then memfind_loop p m mem_len max_i start_offset s else Some 0xFFFF)"

partial_function (option) strlen_loop :: "(addr \<Rightarrow> u8) \<Rightarrow> addr \<Rightarrow> nat \<Rightarrow> nat option" where
  "strlen_loop m a n = (if m (a + n) \<noteq> 0 then strlen_loop m a (n + 1) else Some n)"

definition pbuf_strstr :: "addr \<Rightarrow> addr \<Rightarrow> 'a net_scheme \<Rightarrow> u16 option" where
  "pbuf_strstr p substr s =
     (if substr = 0 \<or> mem s substr = 0 \<or> pb_tot_len (pbufs s p) = 0xFFFF then Some 0xFFFF
      else do {
        substr_len \<leftarrow> strlen_loop (mem s) substr 0;
        if substr_len \<ge> 0xFFFF then Some 0xFFFF else pbuf_memfind p substr (of_nat substr_len) 0 s
      })"

end
