(* ===== verification/Smsc9220.thy ===== *)
theory Smsc9220
  imports FR_Prelude "HOL-Library.State_Monad"
begin

text \<open>
  \<^verbatim>\<open>smsc9220_eth_drv.c\<close>: the driver of the Ethernet controller. The controller is hardware: its state has
  the type \<open>'d\<close>, and the record \<open>bus\<close>, a parameter, says what reading and writing a register and
  letting time pass do to it. The driver's own data are the other fields of \<open>smsc\<close>; \<open>wait_ms\<close> tells
  whether the delay function has been installed. The functions are written in the state monad, register
  access by register access, since each access can change the controller.
\<close>

section \<open>Registers and data\<close>

datatype smsc9220_reg = rx_data_port | tx_data_port | rx_status_port | rx_status_peek | tx_status_port | tx_status_peek
  | id_revision | irq_cfg | irq_status | irq_enable | byte_test | fifo_level_irq | rx_cfg | tx_cfg | hw_cfg
  | rx_datapath_ctrl | rx_fifo_inf | tx_fifo_inf | pmt_ctrl | gpio_cfg | gptimer_cfg | gptimer_count | word_swap
  | free_run_counter | rx_dropped_frames | mac_csr_cmd | mac_csr_data | afc_cfg | eeprom_cmd | eeprom_data

datatype smsc9220_error = SMSC9220_ERROR_NONE | SMSC9220_ERROR_TIMEOUT | SMSC9220_ERROR_BUSY | SMSC9220_ERROR_PARAM
  | SMSC9220_ERROR_INTERNAL

record 'd bus =
  bus_read :: "smsc9220_reg \<Rightarrow> 'd \<Rightarrow> u32 \<times> 'd"
  bus_write :: "smsc9220_reg \<Rightarrow> u32 \<Rightarrow> 'd \<Rightarrow> 'd"
  bus_wait :: "u32 \<Rightarrow> 'd \<Rightarrow> 'd"

record 'd smsc =
  chip :: 'd
  drv_state :: u32
  wait_ms :: bool
  ongoing_packet_length :: u32
  ongoing_packet_length_sent :: u32
  current_rx_size_words :: u32

type_synonym ('d, 'a) drv = "('d smsc, 'a) state"

definition read_reg :: "'d bus \<Rightarrow> smsc9220_reg \<Rightarrow> ('d, u32) drv" where
  "read_reg B r = State (\<lambda>s. let (v, c) = bus_read B r (chip s) in (v, s\<lparr>chip := c\<rparr>))"

definition write_reg :: "'d bus \<Rightarrow> smsc9220_reg \<Rightarrow> u32 \<Rightarrow> ('d, unit) drv" where
  "write_reg B r v = State (\<lambda>s. ((), s\<lparr>chip := bus_write B r v (chip s)\<rparr>))"

definition wait :: "'d bus \<Rightarrow> u32 \<Rightarrow> ('d, unit) drv" where
  "wait B n = State (\<lambda>s. ((), if wait_ms s then s\<lparr>chip := bus_wait B n (chip s)\<rparr> else s))"

definition modify :: "('d smsc \<Rightarrow> 'd smsc) \<Rightarrow> ('d, unit) drv" where
  "modify f = State (\<lambda>s. ((), f s))"

text \<open>The macros on words, and their use on a register, which reads it and writes it back.\<close>

definition SET_BIT :: "nat \<Rightarrow> u32 \<Rightarrow> u32" where "SET_BIT i w = w OR push_bit i 1"
definition CLR_BIT :: "nat \<Rightarrow> u32 \<Rightarrow> u32" where "CLR_BIT i w = w AND NOT (push_bit i 1)"
definition GET_BIT :: "nat \<Rightarrow> u32 \<Rightarrow> bool" where "GET_BIT i w \<longleftrightarrow> w AND push_bit i 1 \<noteq> 0"
definition SET_BIT_FIELD :: "u32 \<Rightarrow> nat \<Rightarrow> u32 \<Rightarrow> u32 \<Rightarrow> u32" where "SET_BIT_FIELD m off v w = w OR push_bit off (v AND m)"
definition CLR_BIT_FIELD :: "u32 \<Rightarrow> nat \<Rightarrow> u32 \<Rightarrow> u32 \<Rightarrow> u32" where "CLR_BIT_FIELD m off v w = w AND NOT (push_bit off (v AND m))"
definition GET_BIT_FIELD :: "u32 \<Rightarrow> nat \<Rightarrow> u32 \<Rightarrow> u32" where "GET_BIT_FIELD m off w = drop_bit off w AND m"

definition update_reg :: "'d bus \<Rightarrow> smsc9220_reg \<Rightarrow> (u32 \<Rightarrow> u32) \<Rightarrow> ('d, unit) drv" where
  "update_reg B r f = do { v \<leftarrow> read_reg B r; write_reg B r (f v) }"

text \<open>\<^verbatim>\<open>do \<dots> while( time_out && \<dots> )\<close>: the loops that wait for the controller, and what is left of the time.\<close>

fun poll :: "('d, unit) drv \<Rightarrow> ('d, bool) drv \<Rightarrow> nat \<Rightarrow> ('d, nat) drv" where
  "poll body test 0 = State_Monad.return 0"
| "poll body test (Suc n) = do {
     body;
     if n = 0 then State_Monad.return 0
     else do { b \<leftarrow> test; if b then poll body test n else State_Monad.return n }
   }"

section \<open>FIFO ports\<close>

text \<open>A word as the four bytes of its memory, and back.\<close>

definition word_bytes :: "u32 \<Rightarrow> u8 list" where
  "word_bytes w = [ucast w, ucast (drop_bit 8 w), ucast (drop_bit 16 w), ucast (drop_bit 24 w)]"

fun bytes_word :: "u8 list \<Rightarrow> u32" where
  "bytes_word [] = 0"
| "bytes_word (b # bs) = ucast b OR push_bit 8 (bytes_word bs)"

fun write_words :: "'d bus \<Rightarrow> u8 list \<Rightarrow> ('d, unit) drv" where
  "write_words B (a # b # c # d # bs) = do { write_reg B tx_data_port (bytes_word [a, b, c, d]); write_words B bs }"
| "write_words B bs = State_Monad.return ()"

definition fill_tx_fifo :: "'d bus \<Rightarrow> u8 list \<Rightarrow> ('d, unit) drv" where
  "fill_tx_fifo B data = do {
     let remainder_bytes = length data mod 4;
     let filler_bytes = 4 - remainder_bytes;
     write_reg B tx_data_port (bytes_word (replicate filler_bytes 0 @ take remainder_bytes data));
     write_words B (drop remainder_bytes data)
   }"

fun read_words :: "'d bus \<Rightarrow> nat \<Rightarrow> ('d, u8 list) drv" where
  "read_words B 0 = State_Monad.return []"
| "read_words B (Suc n) = do { w \<leftarrow> read_reg B rx_data_port; bs \<leftarrow> read_words B n; State_Monad.return (word_bytes w @ bs) }"

definition empty_rx_fifo :: "'d bus \<Rightarrow> u32 \<Rightarrow> ('d, u8 list) drv" where
  "empty_rx_fifo B size_bytes = do {
     let remainder_bytes = unat size_bytes mod 4;
     bs \<leftarrow> read_words B (unat size_bytes div 4);
     w \<leftarrow> read_reg B rx_data_port;
     State_Monad.return (bs @ take remainder_bytes (word_bytes w))
   }"

section \<open>MAC and PHY registers\<close>

definition REG_WRITE_TIME_OUT_MS :: nat where "REG_WRITE_TIME_OUT_MS = 50"

definition smsc9220_mac_regread :: "'d bus \<Rightarrow> u32 \<Rightarrow> u32 \<Rightarrow> ('d, smsc9220_error \<times> u32) drv" where
  "smsc9220_mac_regread B regoffset data = do {
     let maccmd = GET_BIT_FIELD 0x0F 0 regoffset;
     c \<leftarrow> read_reg B mac_csr_cmd;
     if \<not> GET_BIT 31 c then do {
       let maccmd = SET_BIT 31 (SET_BIT 30 maccmd);
       write_reg B mac_csr_cmd maccmd;
       time_out \<leftarrow> poll (do { _ \<leftarrow> read_reg B byte_test; wait B 1 })
                      (do { c \<leftarrow> read_reg B mac_csr_cmd; State_Monad.return (GET_BIT 31 c) }) REG_WRITE_TIME_OUT_MS;
       if time_out = 0 then State_Monad.return (SMSC9220_ERROR_TIMEOUT, data)
       else do { v \<leftarrow> read_reg B mac_csr_data; State_Monad.return (SMSC9220_ERROR_NONE, v) }
     }
     else State_Monad.return (SMSC9220_ERROR_BUSY, data)
   }"

text \<open>
  The loop of the write tests \<^verbatim>\<open>mac_csr_cmd & GET_BIT( mac_csr_cmd, 31 )\<close>: the macro yields 0 or 1, so
  the conjunction is bit 0 of the first of the two reads, if bit 31 of the second is set.
\<close>

definition smsc9220_mac_regwrite :: "'d bus \<Rightarrow> u32 \<Rightarrow> u32 \<Rightarrow> ('d, smsc9220_error) drv" where
  "smsc9220_mac_regwrite B regoffset data = do {
     let maccmd = GET_BIT_FIELD 0x0F 0 regoffset;
     c \<leftarrow> read_reg B mac_csr_cmd;
     if \<not> GET_BIT 31 c then do {
       write_reg B mac_csr_data data;
       let maccmd = SET_BIT 31 (CLR_BIT 30 maccmd);
       write_reg B mac_csr_cmd maccmd;
       time_out \<leftarrow> poll (do { _ \<leftarrow> read_reg B byte_test; wait B 1 })
                      (do { c \<leftarrow> read_reg B mac_csr_cmd; d \<leftarrow> read_reg B mac_csr_cmd;
                            State_Monad.return (c AND (if GET_BIT 31 d then 1 else 0) \<noteq> 0) }) REG_WRITE_TIME_OUT_MS;
       State_Monad.return (if time_out = 0 then SMSC9220_ERROR_TIMEOUT else SMSC9220_ERROR_NONE)
     }
     else State_Monad.return SMSC9220_ERROR_BUSY
   }"

definition SMSC9220_MAC_REG_OFFSET_CR :: u32 where "SMSC9220_MAC_REG_OFFSET_CR = 0x1"
definition SMSC9220_MAC_REG_OFFSET_ADDRH :: u32 where "SMSC9220_MAC_REG_OFFSET_ADDRH = 0x2"
definition SMSC9220_MAC_REG_OFFSET_ADDRL :: u32 where "SMSC9220_MAC_REG_OFFSET_ADDRL = 0x3"
definition SMSC9220_MAC_REG_OFFSET_MII_ACC :: u32 where "SMSC9220_MAC_REG_OFFSET_MII_ACC = 0x6"
definition SMSC9220_MAC_REG_OFFSET_MII_DATA :: u32 where "SMSC9220_MAC_REG_OFFSET_MII_DATA = 0x7"

text \<open>
  The loops of the PHY functions: a step waits and reads the MII access register; an error of that read ends
  the function. The result is the time left and the value read, or \<open>None\<close> for the error.
\<close>

fun phy_poll :: "'d bus \<Rightarrow> nat \<Rightarrow> u32 \<Rightarrow> ('d, (nat \<times> u32) option) drv" where
  "phy_poll B 0 val = State_Monad.return (Some (0, val))"
| "phy_poll B (Suc n) val = do {
     wait B 1;
     (e, val) \<leftarrow> smsc9220_mac_regread B SMSC9220_MAC_REG_OFFSET_MII_ACC val;
     if e \<noteq> SMSC9220_ERROR_NONE then State_Monad.return None
     else if n \<noteq> 0 \<and> GET_BIT 0 val then phy_poll B n val
     else State_Monad.return (Some (n, val))
   }"

definition phy_command :: "u32 \<Rightarrow> bool \<Rightarrow> u32" where
  "phy_command regoffset w =
     (let phycmd = SET_BIT 11 0;
          phycmd = SET_BIT_FIELD 0x1F 6 regoffset phycmd;
          phycmd = (if w then SET_BIT 1 phycmd else CLR_BIT 1 phycmd)
      in SET_BIT 0 phycmd)"

definition smsc9220_phy_regread :: "'d bus \<Rightarrow> u32 \<Rightarrow> u32 \<Rightarrow> ('d, smsc9220_error \<times> u32) drv" where
  "smsc9220_phy_regread B regoffset data = do {
     (e, val) \<leftarrow> smsc9220_mac_regread B SMSC9220_MAC_REG_OFFSET_MII_ACC 0;
     if e \<noteq> SMSC9220_ERROR_NONE then State_Monad.return (SMSC9220_ERROR_INTERNAL, data)
     else if \<not> GET_BIT 0 val then do {
       e \<leftarrow> smsc9220_mac_regwrite B SMSC9220_MAC_REG_OFFSET_MII_ACC (phy_command regoffset False);
       if e \<noteq> SMSC9220_ERROR_NONE then State_Monad.return (SMSC9220_ERROR_INTERNAL, data)
       else do {
         r \<leftarrow> phy_poll B REG_WRITE_TIME_OUT_MS 0;
         case r of
           None \<Rightarrow> State_Monad.return (SMSC9220_ERROR_INTERNAL, data)
         | Some (time_out, val) \<Rightarrow>
             if time_out = 0 then State_Monad.return (SMSC9220_ERROR_TIMEOUT, data)
             else do {
               (e, data) \<leftarrow> smsc9220_mac_regread B SMSC9220_MAC_REG_OFFSET_MII_DATA data;
               State_Monad.return (if e \<noteq> SMSC9220_ERROR_NONE then SMSC9220_ERROR_INTERNAL else SMSC9220_ERROR_NONE, data)
             }
       }
     }
     else State_Monad.return (SMSC9220_ERROR_BUSY, data)
   }"

definition smsc9220_phy_regwrite :: "'d bus \<Rightarrow> u32 \<Rightarrow> u32 \<Rightarrow> ('d, smsc9220_error) drv" where
  "smsc9220_phy_regwrite B regoffset data = do {
     (e, val) \<leftarrow> smsc9220_mac_regread B SMSC9220_MAC_REG_OFFSET_MII_ACC 0;
     if e \<noteq> SMSC9220_ERROR_NONE then State_Monad.return SMSC9220_ERROR_INTERNAL
     else if \<not> GET_BIT 0 val then do {
       e \<leftarrow> smsc9220_mac_regwrite B SMSC9220_MAC_REG_OFFSET_MII_DATA (data AND 0xFFFF);
       if e \<noteq> SMSC9220_ERROR_NONE then State_Monad.return SMSC9220_ERROR_INTERNAL
       else do {
         e \<leftarrow> smsc9220_mac_regwrite B SMSC9220_MAC_REG_OFFSET_MII_ACC (phy_command regoffset True);
         if e \<noteq> SMSC9220_ERROR_NONE then State_Monad.return SMSC9220_ERROR_INTERNAL
         else do {
           r \<leftarrow> phy_poll B REG_WRITE_TIME_OUT_MS 0;
           State_Monad.return (case r of
               None \<Rightarrow> SMSC9220_ERROR_INTERNAL
             | Some (time_out, val) \<Rightarrow> if time_out = 0 then SMSC9220_ERROR_TIMEOUT else SMSC9220_ERROR_NONE)
         }
       }
     }
     else State_Monad.return SMSC9220_ERROR_BUSY
   }"

section \<open>Configuration\<close>

definition smsc9220_read_id :: "'d bus \<Rightarrow> ('d, u32) drv" where
  "smsc9220_read_id B = read_reg B id_revision"

definition RESET_TIME_OUT_MS :: nat where "RESET_TIME_OUT_MS = 10"

definition smsc9220_soft_reset :: "'d bus \<Rightarrow> ('d, smsc9220_error) drv" where
  "smsc9220_soft_reset B = do {
     update_reg B hw_cfg (SET_BIT 0);
     time_out \<leftarrow> poll (wait B 1) (do { v \<leftarrow> read_reg B hw_cfg; State_Monad.return (GET_BIT 1 v) }) RESET_TIME_OUT_MS;
     State_Monad.return (if time_out = 0 then SMSC9220_ERROR_TIMEOUT else SMSC9220_ERROR_NONE)
   }"

definition smsc9220_set_txfifo :: "'d bus \<Rightarrow> u32 \<Rightarrow> ('d, unit) drv" where
  "smsc9220_set_txfifo B val =
     (if 2 \<le> val \<and> val \<le> 14 then write_reg B hw_cfg (push_bit 16 val) else State_Monad.return ())"

definition smsc9220_set_fifo_level_irq :: "'d bus \<Rightarrow> nat \<Rightarrow> u32 \<Rightarrow> ('d, smsc9220_error) drv" where
  "smsc9220_set_fifo_level_irq B irq_level_pos level =
     (if level \<le> 0xFF then do {
        update_reg B fifo_level_irq (CLR_BIT_FIELD 0xFF irq_level_pos 0xFF);
        update_reg B fifo_level_irq (SET_BIT_FIELD 0xFF irq_level_pos level);
        State_Monad.return SMSC9220_ERROR_NONE
      }
      else State_Monad.return SMSC9220_ERROR_PARAM)"

definition smsc9220_wait_eeprom :: "'d bus \<Rightarrow> ('d, smsc9220_error) drv" where
  "smsc9220_wait_eeprom B = do {
     time_out \<leftarrow> poll (wait B 1) (do { v \<leftarrow> read_reg B eeprom_cmd; State_Monad.return (GET_BIT 31 v) }) REG_WRITE_TIME_OUT_MS;
     State_Monad.return (if time_out = 0 then SMSC9220_ERROR_TIMEOUT else SMSC9220_ERROR_NONE)
   }"

definition smsc9220_enable_interrupt :: "'d bus \<Rightarrow> nat \<Rightarrow> ('d, unit) drv" where
  "smsc9220_enable_interrupt B source = update_reg B irq_enable (SET_BIT source)"

definition smsc9220_disable_interrupt :: "'d bus \<Rightarrow> nat \<Rightarrow> ('d, unit) drv" where
  "smsc9220_disable_interrupt B source = update_reg B irq_enable (CLR_BIT source)"

definition smsc9220_disable_all_interrupts :: "'d bus \<Rightarrow> ('d, unit) drv" where
  "smsc9220_disable_all_interrupts B = write_reg B irq_enable 0"

definition smsc9220_clear_interrupt :: "'d bus \<Rightarrow> nat \<Rightarrow> ('d, unit) drv" where
  "smsc9220_clear_interrupt B source = update_reg B irq_status (SET_BIT source)"

definition get_irq_status :: "'d bus \<Rightarrow> ('d, u32) drv" where
  "get_irq_status B = read_reg B irq_status"

definition smsc9220_clear_all_interrupts :: "'d bus \<Rightarrow> ('d, unit) drv" where
  "smsc9220_clear_all_interrupts B = write_reg B irq_status 0xFFFFFFFF"

definition smsc9220_get_interrupt :: "'d bus \<Rightarrow> nat \<Rightarrow> ('d, bool) drv" where
  "smsc9220_get_interrupt B source = do { v \<leftarrow> read_reg B irq_status; State_Monad.return (GET_BIT source v) }"

definition smsc9220_init_irqs :: "'d bus \<Rightarrow> ('d, unit) drv" where
  "smsc9220_init_irqs B = do {
     smsc9220_disable_all_interrupts B;
     smsc9220_clear_all_interrupts B;
     update_reg B irq_cfg (SET_BIT_FIELD 0xFF 24 0x22);
     update_reg B irq_cfg (SET_BIT 0);
     update_reg B irq_cfg (SET_BIT 4);
     update_reg B irq_cfg (SET_BIT 8)
   }"

definition SMSC9220_PHY_REG_OFFSET_BCTRL :: u32 where "SMSC9220_PHY_REG_OFFSET_BCTRL = 0"
definition SMSC9220_PHY_REG_OFFSET_ID1 :: u32 where "SMSC9220_PHY_REG_OFFSET_ID1 = 2"
definition SMSC9220_PHY_REG_OFFSET_ID2 :: u32 where "SMSC9220_PHY_REG_OFFSET_ID2 = 3"
definition SMSC9220_PHY_REG_OFFSET_ANEG_ADV :: u32 where "SMSC9220_PHY_REG_OFFSET_ANEG_ADV = 4"

definition smsc9220_check_phy :: "'d bus \<Rightarrow> ('d, smsc9220_error) drv" where
  "smsc9220_check_phy B = do {
     (e, phyid1) \<leftarrow> smsc9220_phy_regread B SMSC9220_PHY_REG_OFFSET_ID1 0;
     if e \<noteq> SMSC9220_ERROR_NONE then State_Monad.return SMSC9220_ERROR_INTERNAL
     else do {
       (e, phyid2) \<leftarrow> smsc9220_phy_regread B SMSC9220_PHY_REG_OFFSET_ID2 0;
       State_Monad.return
         (if e \<noteq> SMSC9220_ERROR_NONE then SMSC9220_ERROR_INTERNAL
          else if phyid1 = 0xFFFF \<and> phyid2 = 0xFFFF \<or> phyid1 = 0 \<and> phyid2 = 0 then SMSC9220_ERROR_INTERNAL
          else SMSC9220_ERROR_NONE)
     }
   }"

definition smsc9220_reset_phy :: "'d bus \<Rightarrow> ('d, smsc9220_error) drv" where
  "smsc9220_reset_phy B = do {
     (e, v) \<leftarrow> smsc9220_phy_regread B SMSC9220_PHY_REG_OFFSET_BCTRL 0;
     if e \<noteq> SMSC9220_ERROR_NONE then State_Monad.return SMSC9220_ERROR_INTERNAL
     else do {
       e \<leftarrow> smsc9220_phy_regwrite B SMSC9220_PHY_REG_OFFSET_BCTRL (SET_BIT 15 v);
       State_Monad.return (if e \<noteq> SMSC9220_ERROR_NONE then SMSC9220_ERROR_INTERNAL else SMSC9220_ERROR_NONE)
     }
   }"

definition smsc9220_advertise_cap :: "'d bus \<Rightarrow> ('d, unit) drv" where
  "smsc9220_advertise_cap B = do {
     (_, aneg_adv) \<leftarrow> smsc9220_phy_regread B SMSC9220_PHY_REG_OFFSET_ANEG_ADV 0;
     let aneg_adv = SET_BIT 11 (SET_BIT 10 (SET_BIT 8 (SET_BIT 7 (SET_BIT 6 (SET_BIT 5 aneg_adv)))));
     _ \<leftarrow> smsc9220_phy_regwrite B SMSC9220_PHY_REG_OFFSET_ANEG_ADV aneg_adv;
     State_Monad.return ()
   }"

definition smsc9220_enable_xmit :: "'d bus \<Rightarrow> ('d, unit) drv" where
  "smsc9220_enable_xmit B = update_reg B tx_cfg (SET_BIT 1)"

definition smsc9220_disable_xmit :: "'d bus \<Rightarrow> ('d, unit) drv" where
  "smsc9220_disable_xmit B = update_reg B tx_cfg (CLR_BIT 1)"

text \<open>The four functions that change the MAC control register, by the change.\<close>

definition update_mac_cr :: "'d bus \<Rightarrow> (u32 \<Rightarrow> u32) \<Rightarrow> ('d, unit) drv" where
  "update_mac_cr B f = do {
     (_, mac_cr) \<leftarrow> smsc9220_mac_regread B SMSC9220_MAC_REG_OFFSET_CR 0;
     _ \<leftarrow> smsc9220_mac_regwrite B SMSC9220_MAC_REG_OFFSET_CR (f mac_cr);
     State_Monad.return ()
   }"

definition smsc9220_enable_mac_xmit :: "'d bus \<Rightarrow> ('d, unit) drv" where
  "smsc9220_enable_mac_xmit B = update_mac_cr B (SET_BIT 3)"

definition smsc9220_disable_mac_xmit :: "'d bus \<Rightarrow> ('d, unit) drv" where
  "smsc9220_disable_mac_xmit B = update_mac_cr B (CLR_BIT 3)"

definition smsc9220_enable_mac_recv :: "'d bus \<Rightarrow> ('d, unit) drv" where
  "smsc9220_enable_mac_recv B = update_mac_cr B (SET_BIT 2)"

definition smsc9220_disable_mac_recv :: "'d bus \<Rightarrow> ('d, unit) drv" where
  "smsc9220_disable_mac_recv B = update_mac_cr B (CLR_BIT 2)"

text \<open>The result 1 of a wrong chip is the value of \<^verbatim>\<open>SMSC9220_ERROR_TIMEOUT\<close> for the caller.\<close>

definition smsc9220_check_id :: "'d bus \<Rightarrow> ('d, smsc9220_error) drv" where
  "smsc9220_check_id B = do {
     i \<leftarrow> smsc9220_read_id B;
     State_Monad.return (if GET_BIT_FIELD 0xFFFF 16 i = 0x0118 then SMSC9220_ERROR_NONE else SMSC9220_ERROR_TIMEOUT)
   }"

definition smsc9220_establish_link :: "'d bus \<Rightarrow> ('d, unit) drv" where
  "smsc9220_establish_link B = do {
     (_, bcr) \<leftarrow> smsc9220_phy_regread B SMSC9220_PHY_REG_OFFSET_BCTRL 0;
     _ \<leftarrow> smsc9220_phy_regwrite B SMSC9220_PHY_REG_OFFSET_BCTRL (SET_BIT 9 (SET_BIT 12 bcr));
     update_reg B hw_cfg (SET_BIT 20)
   }"

text \<open>The six bytes are written through \<open>mac\<close> when both registers were read; \<open>mac\<close> is whether it is not NULL.\<close>

definition smsc9220_read_mac_address :: "'d bus \<Rightarrow> bool \<Rightarrow> ('d, smsc9220_error \<times> u8 list) drv" where
  "smsc9220_read_mac_address B mac =
     (if \<not> mac then State_Monad.return (SMSC9220_ERROR_PARAM, [])
      else do {
        (e, mac_high) \<leftarrow> smsc9220_mac_regread B SMSC9220_MAC_REG_OFFSET_ADDRH 0;
        if e \<noteq> SMSC9220_ERROR_NONE then State_Monad.return (SMSC9220_ERROR_INTERNAL, [])
        else do {
          (e, mac_low) \<leftarrow> smsc9220_mac_regread B SMSC9220_MAC_REG_OFFSET_ADDRL 0;
          State_Monad.return
            (if e \<noteq> SMSC9220_ERROR_NONE then (SMSC9220_ERROR_INTERNAL, [])
             else (SMSC9220_ERROR_NONE, word_bytes mac_low @ take 2 (word_bytes mac_high)))
        }
      })"

definition smsc9220_get_tx_data_fifo_size :: "'d bus \<Rightarrow> ('d, u32) drv" where
  "smsc9220_get_tx_data_fifo_size B = do {
     v \<leftarrow> read_reg B hw_cfg;
     State_Monad.return (GET_BIT_FIELD 0x0F 16 v * 1024 - 512)
   }"

text \<open>\<^verbatim>\<open>smsc9220_init\<close> returns at the first step that fails.\<close>

definition unless_error :: "('d, smsc9220_error) drv \<Rightarrow> ('d, smsc9220_error) drv \<Rightarrow> ('d, smsc9220_error) drv" where
  "unless_error m f = do { e \<leftarrow> m; if e \<noteq> SMSC9220_ERROR_NONE then State_Monad.return e else f }"

definition smsc9220_init :: "'d bus \<Rightarrow> bool \<Rightarrow> ('d, smsc9220_error) drv" where
  "smsc9220_init B wait_ms_function =
     (if \<not> wait_ms_function then State_Monad.return SMSC9220_ERROR_PARAM
      else do {
        modify (\<lambda>s. s\<lparr>wait_ms := True\<rparr>);
        unless_error (smsc9220_check_id B)
        (unless_error (smsc9220_soft_reset B) (do {
           smsc9220_set_txfifo B 5;
           update_reg B afc_cfg (SET_BIT_FIELD 0x0F 4 4);
           update_reg B afc_cfg (SET_BIT_FIELD 0xFF 8 55);
           update_reg B afc_cfg (SET_BIT_FIELD 0xFF 16 110);
           unless_error (smsc9220_wait_eeprom B) (do {
             write_reg B gpio_cfg 0;
             update_reg B gpio_cfg (SET_BIT 16);
             update_reg B gpio_cfg (SET_BIT 17);
             update_reg B gpio_cfg (SET_BIT 18);
             update_reg B gpio_cfg (SET_BIT 28);
             update_reg B gpio_cfg (SET_BIT 29);
             update_reg B gpio_cfg (SET_BIT 30);
             smsc9220_init_irqs B;
             unless_error (smsc9220_check_phy B)
             (unless_error (smsc9220_reset_phy B) (do {
                wait B 100;
                (e, phyreset) \<leftarrow> smsc9220_phy_regread B SMSC9220_PHY_REG_OFFSET_BCTRL 0;
                if e \<noteq> SMSC9220_ERROR_NONE then State_Monad.return e
                else if GET_BIT 15 phyreset then State_Monad.return SMSC9220_ERROR_INTERNAL
                else do {
                  smsc9220_advertise_cap B;
                  smsc9220_establish_link B;
                  smsc9220_enable_mac_xmit B;
                  smsc9220_enable_xmit B;
                  smsc9220_enable_mac_recv B;
                  wait B 2000;
                  modify (\<lambda>s. s\<lparr>drv_state := 1\<rparr>);
                  State_Monad.return SMSC9220_ERROR_NONE
                }
              }))
           })
         }))
      })"

section \<open>Sending and receiving\<close>

text \<open>\<^verbatim>\<open>smsc9220_send_by_chunks\<close>; \<open>None\<close> is a NULL pointer for the data.\<close>

definition txcmd_a :: "bool \<Rightarrow> bool \<Rightarrow> u32 \<Rightarrow> u32" where
  "txcmd_a is_first_segment is_last_segment current_size =
     (let w = (if is_last_segment then SET_BIT 12 0 else 0);
          w = (if is_first_segment then SET_BIT 13 w else w);
          data_start_offset_bytes = 4 - current_size mod 4;
          w = SET_BIT_FIELD 0x7FF 0 current_size w
      in SET_BIT_FIELD 0x1F 16 data_start_offset_bytes w)"

definition txcmd_b :: "u32 \<Rightarrow> u32" where
  "txcmd_b current_size = SET_BIT_FIELD 0xFFFF 16 current_size (SET_BIT_FIELD 0x7FF 0 current_size 0)"

definition smsc9220_send_by_chunks :: "'d bus \<Rightarrow> u32 \<Rightarrow> bool \<Rightarrow> u8 list option \<Rightarrow> ('d, smsc9220_error) drv" where
  "smsc9220_send_by_chunks B total_payload_length is_new_packet data =
     (case data of None \<Rightarrow> State_Monad.return SMSC9220_ERROR_PARAM
      | Some bytes \<Rightarrow> do {
          let current_size = word_of_nat (length bytes);
          s \<leftarrow> State_Monad.get;
          if \<not> is_new_packet \<and> (ongoing_packet_length s \<noteq> total_payload_length \<or>
               total_payload_length \<le> ongoing_packet_length_sent s)
          then State_Monad.return SMSC9220_ERROR_PARAM
          else do {
            (if is_new_packet
             then modify (\<lambda>s. s\<lparr>ongoing_packet_length := total_payload_length, ongoing_packet_length_sent := 0\<rparr>)
             else State_Monad.return ());
            v \<leftarrow> read_reg B tx_fifo_inf;
            let tx_buffer_free_space = GET_BIT_FIELD 0xFFFF 0 v;
            if tx_buffer_free_space < current_size then State_Monad.return SMSC9220_ERROR_INTERNAL
            else do {
              s \<leftarrow> State_Monad.get;
              let is_last_segment = (ongoing_packet_length_sent s + current_size = total_payload_length);
              write_reg B tx_data_port (txcmd_a is_new_packet is_last_segment current_size);
              write_reg B tx_data_port (txcmd_b current_size);
              fill_tx_fifo B bytes;
              (if is_last_segment then do { _ \<leftarrow> read_reg B tx_status_port; State_Monad.return () } else State_Monad.return ());
              modify (\<lambda>s. s\<lparr>ongoing_packet_length_sent := ongoing_packet_length_sent s + current_size\<rparr>);
              State_Monad.return SMSC9220_ERROR_NONE
            }
          }
        })"

definition smsc9220_get_rxfifo_data_used_space :: "'d bus \<Rightarrow> ('d, u32) drv" where
  "smsc9220_get_rxfifo_data_used_space B = do { v \<leftarrow> read_reg B rx_fifo_inf; State_Monad.return (GET_BIT_FIELD 0xFFFF 0 v) }"

text \<open>The bytes that \<^verbatim>\<open>smsc9220_receive_by_chunks\<close> stores through its pointer, and its result; \<open>data\<close> is whether the pointer is not NULL.\<close>

definition smsc9220_receive_by_chunks :: "'d bus \<Rightarrow> bool \<Rightarrow> u32 \<Rightarrow> ('d, u8 list \<times> u32) drv" where
  "smsc9220_receive_by_chunks B data dlen =
     (if \<not> data then State_Monad.return ([], 0)
      else do {
        let packet_length_byte = dlen;
        modify (\<lambda>s. s\<lparr>current_rx_size_words := packet_length_byte\<rparr>);
        bs \<leftarrow> empty_rx_fifo B packet_length_byte;
        modify (\<lambda>s. s\<lparr>current_rx_size_words := 0\<rparr>);
        State_Monad.return (bs, packet_length_byte)
      })"

definition smsc9220_peek_next_packet_size :: "'d bus \<Rightarrow> ('d, u32) drv" where
  "smsc9220_peek_next_packet_size B = do {
     used \<leftarrow> smsc9220_get_rxfifo_data_used_space B;
     if used \<noteq> 0 then do {
       _ \<leftarrow> read_reg B rx_status_peek;
       v \<leftarrow> read_reg B rx_status_port;
       State_Monad.return (GET_BIT_FIELD 0x3FFF 16 v)
     }
     else State_Monad.return 0
   }"

end
