(* ===== verification/Ethernet_If.thy ===== *)
theory Ethernet_If
  imports Lwip_Pbuf Smsc9220
begin

text \<open>
  \<^verbatim>\<open>ethernetif.c\<close>: the network interface between lwIP and the Ethernet controller: interrupt service
  routine, receiving task, transmission and initialisation. The state extends the board's by the file's
  static variables (\<^verbatim>\<open>xRxTaskHandle\<close>, the driver's device data), the enable bits of the interrupt
  controller, and lwIP's interfaces by address; the packet buffers are those of theory \<open>Lwip_Pbuf\<close>.
  What lwIP does with a received packet, the function behind \<^verbatim>\<open>netif->input\<close>, is a parameter.
\<close>

section \<open>State\<close>

text \<open>\<^verbatim>\<open>struct netif\<close>, the fields that this file uses.\<close>

record netif =
  if_name :: string
  if_output :: addr
  if_linkoutput :: addr
  if_hwaddr_len :: u8
  if_hwaddr :: "u8 list"
  if_mtu :: u16
  if_flags :: u8

record 'd eth = net +
  xRxTaskHandle :: addr
  SMSC9220_ETH_DEV :: "'d smsc"
  nvic_enabled :: u32
  netifs :: "addr \<Rightarrow> netif"

definition ERR_IF :: int where "ERR_IF = - 15"

definition SMSC9220_INTERRUPT_RX_STATUS_FIFO_LEVEL :: nat where "SMSC9220_INTERRUPT_RX_STATUS_FIFO_LEVEL = 3"
definition SMSC9220_FIFO_LEVEL_IRQ_RX_STATUS_POS :: nat where "SMSC9220_FIFO_LEVEL_IRQ_RX_STATUS_POS = 0"
definition SMSC9220_FIFO_LEVEL_IRQ_LEVEL_MIN :: u32 where "SMSC9220_FIFO_LEVEL_IRQ_LEVEL_MIN = 0"

text \<open>A call of the driver on \<^verbatim>\<open>&SMSC9220_ETH_DEV\<close>.\<close>

definition on_dev :: "('d, 'a) drv \<Rightarrow> ('d, 'z) eth_scheme \<Rightarrow> 'a \<times> ('d, 'z) eth_scheme" where
  "on_dev m s = (let (r, d) = run_state m (SMSC9220_ETH_DEV s) in (r, s\<lparr>SMSC9220_ETH_DEV := d\<rparr>))"

definition upd_netif :: "addr \<Rightarrow> (netif \<Rightarrow> netif) \<Rightarrow> ('d, 'z) eth_scheme \<Rightarrow> ('d, 'z) eth_scheme" where
  "upd_netif n f s = s\<lparr>netifs := (netifs s)(n := f (netifs s n))\<rparr>"

text \<open>
  The callback that the driver sleeps with. A driver function that sleeps (theory \<open>Smsc9220\<close>, where the time
  that passes acts on the controller) blocks its task here; what the kernel and the other tasks do until it
  runs again happens between the parts that a caller of such a function is cut into.
\<close>

definition prvWait_ms :: "u32 \<Rightarrow> 'a sched_scheme \<Rightarrow> 'a sched_scheme option" where
  "prvWait_ms ms k = vTaskDelay (pdMS_TO_TICKS ms) k"

section \<open>Receiving task\<close>

text \<open>The loop that discards a packet in pieces of the size of \<^verbatim>\<open>drop_buf\<close>, a local variable.\<close>

function drop_packet :: "'d bus \<Rightarrow> u32 \<Rightarrow> ('d, unit) drv" where
  "drop_packet B remaining =
     (if remaining > 0 then
        let chunk = (if remaining > 64 then 64 else remaining)
        in do { _ \<leftarrow> smsc9220_receive_by_chunks B True chunk; drop_packet B (remaining - chunk) }
      else State_Monad.return ())"
  by pat_completeness auto

lemma chunk_less:
  assumes "(0 :: u32) < remaining"
  shows "unat (remaining - (if remaining > 64 then 64 else remaining)) < unat remaining"
proof (rule unat_mono, cases "remaining > 64")
  case True
  then show "remaining - (if remaining > 64 then 64 else remaining) < remaining"
    by (simp add: word_less_nat_alt unat_sub_if_size)
qed (use assms in simp)

termination drop_packet
  by (relation "measure (\<lambda>(B, remaining). unat remaining)") (simp_all only: wf_measure in_measure prod.case chunk_less)

declare drop_packet.simps [simp del]

text \<open>
  One turn of the inner loop behind a successful peek; with the new state comes the packet that was handed
  to \<^verbatim>\<open>netif->input\<close>: the buffer and the bytes it held then.
\<close>

definition rx_packet :: "'d bus \<Rightarrow> ('d, 'z) eth_scheme lwip \<Rightarrow> addr \<Rightarrow> u32 \<Rightarrow> ('d, 'z) eth_scheme \<Rightarrow>
    ((addr \<times> u8 list) list \<times> ('d, 'z) eth_scheme) option" where
  "rx_packet B L netif packet_len s = do {
     (p, s) \<leftarrow> pbuf_alloc L PBUF_RAW (ucast packet_len) PBUF_POOL s;
     if p \<noteq> 0 then do {
       let ((bs, read_len), s) = on_dev (smsc9220_receive_by_chunks B (pb_payload (pbufs s p) \<noteq> 0) packet_len) s;
       let s = s\<lparr>mem := write_bytes (pb_payload (pbufs s p)) bs (mem s)\<rparr>;
       let s = upd_pbuf p (\<lambda>b. b\<lparr>pb_len := ucast read_len\<rparr>) s;
       let s = upd_pbuf p (\<lambda>b. b\<lparr>pb_tot_len := ucast read_len\<rparr>) s;
       let handed = bytes_at (mem s) (pb_payload (pbufs s p)) (unat (pb_len (pbufs s p)));
       let (err, s) = netif_input L p netif s;
       s \<leftarrow> (if err \<noteq> ERR_OK then map_option snd (pbuf_free L p s) else Some s);
       Some ([(p, handed)], s)
     }
     else do {
       let (_, s) = on_dev (drop_packet B packet_len) s;
       Some ([], s)
     }
   }"

text \<open>
  The task as a program: the counter stands before waiting for a notification, before the return of that
  wait, before the next peek, and before the interrupt is enabled again.
\<close>

datatype rx_pc = Rx_Wait | Rx_Taken | Rx_Peek | Rx_Enable

fun ethernetif_input_task :: "'d bus \<Rightarrow> ('d, 'z) eth_scheme lwip \<Rightarrow> addr \<Rightarrow> rx_pc \<times> ('d, 'z) eth_scheme \<Rightarrow>
    ((addr \<times> u8 list) list \<times> rx_pc \<times> ('d, 'z) eth_scheme) option" where
  "ethernetif_input_task B L netif (pc, s) = (case pc of
     Rx_Wait \<Rightarrow> do { s \<leftarrow> ulTaskGenericNotifyTake_enter 0 portMAX_DELAY s; Some ([], Rx_Taken, s) }
   | Rx_Taken \<Rightarrow> (let (_, s) = ulTaskGenericNotifyTake_exit 0 True s in Some ([], Rx_Peek, s))
   | Rx_Peek \<Rightarrow>
       (let (packet_len, s) = on_dev (smsc9220_peek_next_packet_size B) s
        in if packet_len > 0 then do { (handed, s) \<leftarrow> rx_packet B L netif packet_len s; Some (handed, Rx_Peek, s) }
           else Some ([], Rx_Enable, s))
   | Rx_Enable \<Rightarrow>
       (let (_, s) = on_dev (smsc9220_enable_interrupt B SMSC9220_INTERRUPT_RX_STATUS_FIFO_LEVEL) s
        in Some ([], Rx_Wait, s)))"

section \<open>Interrupt service routine\<close>

text \<open>The kernel call, with the check of the interrupt's priority that it starts with.\<close>

definition vTaskNotifyGiveFromISR :: "addr \<Rightarrow> 'a board_scheme \<Rightarrow> (bool \<times> 'a board_scheme) option" where
  "vTaskNotifyGiveFromISR t s = do {
     configASSERT (t \<noteq> 0);
     vPortValidateInterruptPriority (nvic_regs s);
     vTaskGenericNotifyGiveFromISR t 0 s
   }"

definition EthernetISR :: "'d bus \<Rightarrow> ('d, 'z) eth_scheme \<Rightarrow> ('d, 'z) eth_scheme option" where
  "EthernetISR B s = do {
     let ulRXFifoStatusIRQBit = push_bit SMSC9220_INTERRUPT_RX_STATUS_FIFO_LEVEL 1;
     let (ulIRQStatus, s) = on_dev (get_irq_status B) s;
     (xHigherPriorityTaskWoken, s) \<leftarrow>
       (if ulIRQStatus AND ulRXFifoStatusIRQBit \<noteq> 0 then do {
          (woken, s) \<leftarrow> (if xRxTaskHandle s \<noteq> 0 then vTaskNotifyGiveFromISR (xRxTaskHandle s) s else Some (False, s));
          let (_, s) = on_dev (smsc9220_clear_interrupt B SMSC9220_INTERRUPT_RX_STATUS_FIFO_LEVEL) s;
          let (_, s) = on_dev (smsc9220_disable_interrupt B SMSC9220_INTERRUPT_RX_STATUS_FIFO_LEVEL) s;
          Some (woken, s)
        }
        else Some (False, s));
     let (_, s) = on_dev (smsc9220_clear_all_interrupts B) s;
     Some (if xHigherPriorityTaskWoken then portYIELD s else s)
   }"

section \<open>Initialisation\<close>

text \<open>\<^verbatim>\<open>NVIC_SetPriority\<close> of \<^verbatim>\<open>core_cm3.h\<close> for a device interrupt, with three priority bits.\<close>

definition NVIC_PRIO_BITS :: nat where "NVIC_PRIO_BITS = 3"

definition NVIC_SetPriority :: "nat \<Rightarrow> u32 \<Rightarrow> 'a nvic_scheme \<Rightarrow> 'a nvic_scheme" where
  "NVIC_SetPriority IRQn priority c =
     write_priority (portFIRST_USER_INTERRUPT_NUMBER + IRQn) (ucast (push_bit (8 - NVIC_PRIO_BITS) priority AND 0xFF)) c"

text \<open>
  \<^verbatim>\<open>low_level_init\<close> sleeps inside \<^verbatim>\<open>smsc9220_init\<close> and inside both calls of \<^verbatim>\<open>smsc9220_mac_regwrite\<close>, while the
  rest of the system runs; it is cut behind each of the three calls, whose results are not looked at. Behind
  the third it does not sleep any more. \<open>input_task\<close> is the address of the receiving task's code.
\<close>

definition low_level_init_start :: "'d bus \<Rightarrow> ('d, 'z) eth_scheme \<Rightarrow> ('d, 'z) eth_scheme" where
  "low_level_init_start B s = snd (on_dev (smsc9220_init B True) s)"

definition low_level_init_mac_low :: "'d bus \<Rightarrow> u32 \<Rightarrow> ('d, 'z) eth_scheme \<Rightarrow> ('d, 'z) eth_scheme" where
  "low_level_init_mac_low B ucMACLow s = snd (on_dev (smsc9220_mac_regwrite B SMSC9220_MAC_REG_OFFSET_ADDRL ucMACLow) s)"

definition low_level_init_mac_high :: "'d bus \<Rightarrow> u32 \<Rightarrow> ('d, 'z) eth_scheme \<Rightarrow> ('d, 'z) eth_scheme" where
  "low_level_init_mac_high B ucMACHigh s = snd (on_dev (smsc9220_mac_regwrite B SMSC9220_MAC_REG_OFFSET_ADDRH ucMACHigh) s)"

definition low_level_init_rest :: "'d bus \<Rightarrow> addr \<Rightarrow> addr \<Rightarrow> ('d, 'z) eth_scheme \<Rightarrow> ('d, 'z) eth_scheme option" where
  "low_level_init_rest B input_task netif s = do {
     let ulEthernetIRQ = (13 :: nat);
     let s = s\<lparr>nvic_enabled := nvic_enabled s AND NOT (push_bit ulEthernetIRQ 1)\<rparr>;
     let (_, s) = on_dev (smsc9220_disable_all_interrupts B) s;
     let (_, s) = on_dev (smsc9220_clear_all_interrupts B) s;
     let s = s\<lparr>nvic_regs := NVIC_SetPriority ulEthernetIRQ configMAX_SYSCALL_INTERRUPT_PRIORITY (nvic_regs s)\<rparr>;
     let (_, s) = on_dev (smsc9220_set_fifo_level_irq B SMSC9220_FIFO_LEVEL_IRQ_RX_STATUS_POS SMSC9220_FIFO_LEVEL_IRQ_LEVEL_MIN) s;
     let (_, s) = on_dev (smsc9220_enable_interrupt B SMSC9220_INTERRUPT_RX_STATUS_FIFO_LEVEL) s;
     (h, s) \<leftarrow> xTaskCreate input_task ''LWIP_RX'' 1024 netif (configMAX_PRIORITIES - 3) s;
     let s = (if h \<noteq> 0 then s\<lparr>xRxTaskHandle := h\<rparr> else s);
     Some (s\<lparr>nvic_enabled := nvic_enabled s OR push_bit ulEthernetIRQ 1\<rparr>)
   }"

text \<open>The two words of the hardware address that \<^verbatim>\<open>low_level_init\<close> takes before it sleeps.\<close>

definition mac_words :: "addr \<Rightarrow> ('d, 'z) eth_scheme \<Rightarrow> u32 \<times> u32" where
  "mac_words netif s =
     (bytes_word (take 4 (if_hwaddr (netifs s netif))), bytes_word (take 2 (drop 4 (if_hwaddr (netifs s netif)))))"

definition NETIF_FLAG_BROADCAST :: u8 where "NETIF_FLAG_BROADCAST = 0x02"
definition NETIF_FLAG_LINK_UP :: u8 where "NETIF_FLAG_LINK_UP = 0x10"
definition NETIF_FLAG_ETHARP :: u8 where "NETIF_FLAG_ETHARP = 0x20"
definition NETIF_FLAG_ETHERNET :: u8 where "NETIF_FLAG_ETHERNET = 0x40"

text \<open>
  \<^verbatim>\<open>ethernetif_init\<close> up to the end of \<^verbatim>\<open>smsc9220_init\<close>; then come the two address words, and behind them
  \<open>low_level_init_rest\<close>, and it returns \<^verbatim>\<open>ERR_OK\<close>. \<open>out\<close> and \<open>linkout\<close> are the addresses of \<^verbatim>\<open>etharp_output\<close> and \<^verbatim>\<open>low_level_output\<close>.
\<close>

definition configure_netif :: "addr \<Rightarrow> addr \<Rightarrow> addr \<Rightarrow> ('d, 'z) eth_scheme \<Rightarrow> ('d, 'z) eth_scheme" where
  "configure_netif out linkout netif s =
     upd_netif netif (\<lambda>n. n\<lparr>if_name := ''en'', if_output := out, if_linkoutput := linkout, if_hwaddr_len := 6,
       if_hwaddr := [0x00, 0x08, 0x29, 0x11, 0x22, 0x33], if_mtu := 1500,
       if_flags := NETIF_FLAG_BROADCAST OR NETIF_FLAG_ETHARP OR NETIF_FLAG_ETHERNET OR NETIF_FLAG_LINK_UP\<rparr>) s"

definition ethernetif_init_start :: "'d bus \<Rightarrow> addr \<Rightarrow> addr \<Rightarrow> addr \<Rightarrow> ('d, 'z) eth_scheme \<Rightarrow> (u32 \<times> u32) \<times> ('d, 'z) eth_scheme" where
  "ethernetif_init_start B out linkout netif s =
     (let s = configure_netif out linkout netif s
      in (mac_words netif s, low_level_init_start B s))"

definition ethernetif_init_rest :: "'d bus \<Rightarrow> addr \<Rightarrow> addr \<Rightarrow> ('d, 'z) eth_scheme \<Rightarrow> (int \<times> ('d, 'z) eth_scheme) option" where
  "ethernetif_init_rest B input_task netif s = map_option (Pair ERR_OK) (low_level_init_rest B input_task netif s)"

section \<open>Transmission\<close>

text \<open>The loop over the chain of buffers; a chain that is a ring would not end.\<close>

partial_function (option) output_loop :: "'d bus \<Rightarrow> u32 \<Rightarrow> bool \<Rightarrow> addr \<Rightarrow> ('d, 'z) eth_scheme \<Rightarrow> (int \<times> ('d, 'z) eth_scheme) option" where
  "output_loop B total_len is_start q s =
     (if q \<noteq> 0 then
        let b = pbufs s q;
            data = (if pb_payload b \<noteq> 0 then Some (bytes_at (mem s) (pb_payload b) (unat (pb_len b))) else None);
            (err, s) = on_dev (smsc9220_send_by_chunks B total_len is_start data) s
        in if err \<noteq> SMSC9220_ERROR_NONE then Some (ERR_IF, s) else output_loop B total_len False (pb_next b) s
      else Some (ERR_OK, s))"

definition low_level_output :: "'d bus \<Rightarrow> addr \<Rightarrow> ('d, 'z) eth_scheme \<Rightarrow> (int \<times> ('d, 'z) eth_scheme) option" where
  "low_level_output B p s = output_loop B (ucast (pb_tot_len (pbufs s p))) True p s"

end
