(* ===== verification/Smsc9220_Props.thy ===== *)
theory Smsc9220_Props
  imports Smsc9220
begin

text \<open>
  The driver's monad, evaluated, and what the driver reports of a controller that does not finish a command.
\<close>

section \<open>The driver's monad\<close>

lemma run_bind [simp]: "run_state (State_Monad.bind m f) s = (case run_state m s of (a, t) \<Rightarrow> run_state (f a) t)"
  by (simp add: State_Monad.bind_def Let_def)

lemma run_return [simp]: "run_state (State_Monad.return x) s = (x, s)"
  by (simp add: State_Monad.return_def)

lemma run_get [simp]: "run_state State_Monad.get s = (s, s)"
  by (simp add: State_Monad.get_def)

lemma run_modify [simp]: "run_state (modify f) s = ((), f s)"
  by (simp add: modify_def)

lemma run_read [simp]: "run_state (read_reg B r) s = (fst (bus_read B r (chip s)), s\<lparr>chip := snd (bus_read B r (chip s))\<rparr>)"
  by (simp add: read_reg_def split_beta)

lemma run_write [simp]: "run_state (write_reg B r v) s = ((), s\<lparr>chip := bus_write B r v (chip s)\<rparr>)"
  by (simp add: write_reg_def)

lemma smsc_chip_upd [simp]: "d\<lparr>chip := chip d\<rparr> = (d :: 'd smsc)"
  by simp

lemma bit_SET_BIT: "k < 32 \<Longrightarrow> bit (SET_BIT k w) i \<longleftrightarrow> bit w i \<or> i = k"
  by (auto simp: SET_BIT_def bit_or_iff bit_exp_iff)

lemma GET_BIT_bit: "GET_BIT i w \<longleftrightarrow> bit w i"
  by (simp add: GET_BIT_def and_exp_eq_0_iff_not_bit)

section \<open>A controller that stays busy\<close>

text \<open>
  The command register of the MAC keeps what is written to it, so that a command is never reported as done;
  the other accesses of the driver leave it alone.
\<close>

definition stays_busy :: "'d bus \<Rightarrow> ('d \<Rightarrow> u32) \<Rightarrow> bool" where
  "stays_busy B cmd \<longleftrightarrow>
     (\<forall>c. fst (bus_read B mac_csr_cmd c) = cmd c \<and> cmd (snd (bus_read B mac_csr_cmd c)) = cmd c) \<and>
     (\<forall>c v. cmd (bus_write B mac_csr_cmd v c) = v \<and> cmd (bus_write B mac_csr_data v c) = cmd c) \<and>
     (\<forall>c. cmd (snd (bus_read B byte_test c)) = cmd c) \<and> (\<forall>n c. cmd (bus_wait B n c) = cmd c)"

lemma stays_busyD:
  assumes "stays_busy B cmd"
  shows "fst (bus_read B mac_csr_cmd c) = cmd c" "cmd (snd (bus_read B mac_csr_cmd c)) = cmd c"
    "cmd (bus_write B mac_csr_cmd v c) = v" "cmd (bus_write B mac_csr_data v c) = cmd c"
    "cmd (snd (bus_read B byte_test c)) = cmd c" "cmd (bus_wait B n c) = cmd c"
  using assms by (simp_all add: stays_busy_def)

lemma poll_exhausted:
  assumes "\<And>s. I s \<Longrightarrow> I (snd (run_state body s))" "\<And>s. I s \<Longrightarrow> fst (run_state test s) \<and> I (snd (run_state test s))"
  shows "I s \<Longrightarrow> fst (run_state (poll body test n) s) = 0"
  using assms by (induction n arbitrary: s) (simp_all add: split_beta)

lemma poll_first:
  assumes "1 < n" "\<not> fst (run_state test (snd (run_state body s)))"
  shows "fst (run_state (poll body test n) s) = n - 1"
  using assms by (cases n) (simp_all add: split_beta)

lemma run_wait [simp]: "snd (run_state (wait B n) s) = (if wait_ms s then s\<lparr>chip := bus_wait B n (chip s)\<rparr> else s)"
  by (simp add: wait_def)

lemma mac_command_bits:
  "bit (SET_BIT 31 (SET_BIT 30 (GET_BIT_FIELD 0x0F 0 off))) 31" "bit (SET_BIT 31 (CLR_BIT 30 (GET_BIT_FIELD 0x0F 0 off))) 31"
  "bit (SET_BIT 31 (CLR_BIT 30 (GET_BIT_FIELD 0x0F 0 off))) 0 \<longleftrightarrow> bit off 0"
  by (simp_all add: bit_SET_BIT CLR_BIT_def GET_BIT_FIELD_def bit_and_iff bit_not_iff bit_exp_iff)

text \<open>
  C40: What the driver reports when the controller accepts a command and never finishes it. A read
  of a MAC register gives up after its time-out and says so, and so does a write of an
  odd-numbered register; a write of an even-numbered register reports success although the
  command is still under way.
\<close>

theorem mac_access_never_finished:
  assumes hw: "stays_busy B cmd" and idle: "\<not> bit (cmd (chip d)) 31"
  shows "fst (run_state (smsc9220_mac_regread B off v) d) = (SMSC9220_ERROR_TIMEOUT, v) \<and>
    fst (run_state (smsc9220_mac_regwrite B off v) d) = (if bit off 0 then SMSC9220_ERROR_TIMEOUT else SMSC9220_ERROR_NONE)"
proof -
  note D = stays_busyD [OF hw]
  let ?body = "do { _ \<leftarrow> read_reg B byte_test; wait B 1 }"
  let ?rt = "do { c \<leftarrow> read_reg B mac_csr_cmd; State_Monad.return (GET_BIT 31 c) }"
  let ?wt = "do { c \<leftarrow> read_reg B mac_csr_cmd; d \<leftarrow> read_reg B mac_csr_cmd;
      State_Monad.return (c AND (if GET_BIT 31 d then 1 else 0) \<noteq> 0) }"
  have rd: "fst (run_state (poll ?body ?rt n) s) = 0" if "bit (cmd (chip s)) 31" for s n
    by (rule poll_exhausted [where I = "\<lambda>s. bit (cmd (chip s)) 31", OF _ _ that]) (simp_all add: D GET_BIT_bit split_beta)
  have wr1: "fst (run_state (poll ?body ?wt n) s) = 0" if "bit (cmd (chip s)) 31 \<and> bit (cmd (chip s)) 0" for s n
    by (rule poll_exhausted [where I = "\<lambda>s. bit (cmd (chip s)) 31 \<and> bit (cmd (chip s)) 0", OF _ _ that])
      (simp_all add: D GET_BIT_bit split_beta and_one_eq bit_0 flip: odd_iff_mod_2_eq_one)
  have wr0: "fst (run_state (poll ?body ?wt 50) s) = 49" if "\<not> bit (cmd (chip s)) 0" for s
    using that by (subst poll_first) (simp_all add: D GET_BIT_bit split_beta and_one_eq bit_0 flip: even_iff_mod_2_eq_zero)
  show ?thesis
    using idle rd wr1 wr0 mac_command_bits [of off]
    by (simp add: smsc9220_mac_regread_def smsc9220_mac_regwrite_def Let_def split_beta D GET_BIT_bit REG_WRITE_TIME_OUT_MS_def)
qed

text \<open>A controller whose registers are a memory.\<close>

definition reg_bus :: "(smsc9220_reg \<Rightarrow> u32) bus" where
  "reg_bus = \<lparr>bus_read = (\<lambda>r c. (c r, c)), bus_write = (\<lambda>r v c. c(r := v)), bus_wait = (\<lambda>n c. c)\<rparr>"

lemma reg_bus_busy: "stays_busy reg_bus (\<lambda>c. c mac_csr_cmd)"
  by (simp add: stays_busy_def reg_bus_def)

definition idle_dev :: "(smsc9220_reg \<Rightarrow> u32) smsc" where
  "idle_dev = \<lparr>chip = (\<lambda>_. 0), drv_state = 0, wait_ms = True, ongoing_packet_length = 0, ongoing_packet_length_sent = 0,
     current_rx_size_words = 0\<rparr>"

theorem mac_access_never_finished_witness:
  "fst (run_state (smsc9220_mac_regwrite reg_bus SMSC9220_MAC_REG_OFFSET_ADDRL 0x11290800) idle_dev) = SMSC9220_ERROR_TIMEOUT \<and>
   fst (run_state (smsc9220_mac_regwrite reg_bus SMSC9220_MAC_REG_OFFSET_ADDRH 0x3322) idle_dev) = SMSC9220_ERROR_NONE"
proof -
  have i: "\<not> bit (chip idle_dev mac_csr_cmd) 31" by (simp add: idle_dev_def)
  have T: "fst (run_state (smsc9220_mac_regwrite reg_bus off v) idle_dev) = (if bit off 0 then SMSC9220_ERROR_TIMEOUT else SMSC9220_ERROR_NONE)" for off v
    using mac_access_never_finished [OF reg_bus_busy, where d = idle_dev and off = off and v = v] i by simp
  show ?thesis
    unfolding T by (simp add: SMSC9220_MAC_REG_OFFSET_ADDRL_def SMSC9220_MAC_REG_OFFSET_ADDRH_def)
qed

end
