(* ===== verification/Lwip_Props.thy ===== *)
theory Lwip_Props
  imports Lwip_Pbuf FR_Start_Props
begin

text \<open>
  Properties of the packet buffers of lwIP: the pools as lists, allocation of a chain and its release,
  copying bytes into and out of a chain, and searching in it.
\<close>

section \<open>Basic facts\<close>

lemma LWIP_ASSERT_simps [simp]: "LWIP_ASSERT True = Some ()" "LWIP_ASSERT False = None"
  by (simp_all add: LWIP_ASSERT_def)

lemma LWIP_ASSERT_bind [simp]: "(LWIP_ASSERT b \<bind> f) = (if b then f () else None)"
  by (simp add: LWIP_ASSERT_def)

lemma upd_pbuf_simps [simp]:
  "pbufs (upd_pbuf p f s) = (pbufs s)(p := f (pbufs s p))" "memp_tab (upd_pbuf p f s) = memp_tab s"
  "mem (upd_pbuf p f s) = mem s" "pbuf_free_ooseq_queued (upd_pbuf p f s) = pbuf_free_ooseq_queued s"
  "net.more (upd_pbuf p f s) = net.more s"
  by (simp_all add: upd_pbuf_def)

lemma sizes [simp]: "MEM_ALIGNMENT = 4" "SIZEOF_STRUCT_PBUF = 16" "PBUF_POOL_BUFSIZE_ALIGNED = 1516"
  by (simp_all add: MEM_ALIGNMENT_def SIZEOF_STRUCT_PBUF_def PBUF_POOL_BUFSIZE_ALIGNED_def PBUF_POOL_BUFSIZE_def LWIP_MEM_ALIGN_def)

lemma align_aligned [simp]: "n mod 4 = 0 \<Longrightarrow> LWIP_MEM_ALIGN n = n"
  by (auto simp: LWIP_MEM_ALIGN_def mod_eq_0_iff_dvd elim!: dvdE)

text \<open>An operation that changes only buffers and the heads of the pools.\<close>

definition only_bufs :: "'a net_scheme \<Rightarrow> 'a net_scheme \<Rightarrow> bool" where
  "only_bufs s s' \<longleftrightarrow> s' = s\<lparr>pbufs := pbufs s', memp_tab := memp_tab s'\<rparr>"

lemma only_bufs_refl [simp]: "only_bufs s s"
  by (simp add: only_bufs_def)

lemma only_bufs_trans: "only_bufs s s' \<Longrightarrow> only_bufs s' s'' \<Longrightarrow> only_bufs s s''"
  by (cases s; cases s'; cases s'') (simp add: only_bufs_def)

lemma only_bufs_upd [simp]: "only_bufs s (upd_pbuf p f s')= only_bufs s s'" "only_bufs s (s'\<lparr>memp_tab := t\<rparr>) = only_bufs s s'"
  by (cases s; cases s'; simp add: only_bufs_def upd_pbuf_def)+

lemma only_bufsD:
  assumes "only_bufs s s'"
  shows "mem s' = mem s" "net.more s' = net.more s" "pbuf_free_ooseq_queued s' = pbuf_free_ooseq_queued s"
  using assms by (cases s; cases s'; simp add: only_bufs_def)+

section \<open>Lists of buffers\<close>

fun pchain :: "(addr \<Rightarrow> pbuf) \<Rightarrow> addr \<Rightarrow> addr list \<Rightarrow> bool" where
  "pchain b p [] \<longleftrightarrow> p = 0"
| "pchain b p (q # qs) \<longleftrightarrow> p = q \<and> q \<noteq> 0 \<and> pchain b (pb_next (b q)) qs"

lemma pchain_cong: "(\<And>q. q \<in> set qs \<Longrightarrow> pb_next (b' q) = pb_next (b q)) \<Longrightarrow> pchain b' p qs = pchain b p qs"
  by (induction qs arbitrary: p) auto

lemma pchain_upd: "p \<notin> set qs \<Longrightarrow> pchain (b(p := x)) q qs = pchain b q qs"
  by (rule pchain_cong) auto

lemma pchain_head: "pchain b p qs \<Longrightarrow> p = (case qs of [] \<Rightarrow> 0 | q # _ \<Rightarrow> q)"
  by (cases qs) auto

lemma pchain_nonzero: "pchain b p qs \<Longrightarrow> 0 \<notin> set qs"
  by (induction qs arbitrary: p) auto

text \<open>The free elements of a pool, in the order of its list: aligned, distinct, and not marked as custom buffers.\<close>

definition free_list :: "'a net_scheme \<Rightarrow> memp_t \<Rightarrow> addr list \<Rightarrow> bool" where
  "free_list s type fs \<longleftrightarrow> pchain (pbufs s) (memp_tab s type) fs \<and> distinct fs \<and>
     (\<forall>f \<in> set fs. f mod 4 = 0 \<and> pb_flags (pbufs s f) AND PBUF_FLAG_IS_CUSTOM = 0)"

lemma free_list_cong:
  "(\<And>q. q \<in> set fs \<Longrightarrow> pbufs s' q = pbufs s q) \<Longrightarrow> memp_tab s' type = memp_tab s type \<Longrightarrow> free_list s' type fs = free_list s type fs"
  using pchain_cong [of fs "pbufs s'" "pbufs s"] by (auto simp: free_list_def)

lemma malloc_nil: "free_list s type [] \<Longrightarrow> memp_malloc type s = Some (0, s)"
  by (simp add: free_list_def memp_malloc_def)

lemma malloc_cons:
  assumes "free_list s type (f # fs)"
  shows "memp_malloc type s = Some (f, s\<lparr>memp_tab := (memp_tab s)(type := pb_next (pbufs s f))\<rparr>)"
    "free_list (s\<lparr>memp_tab := (memp_tab s)(type := pb_next (pbufs s f))\<rparr>) type fs" "f \<noteq> 0" "f mod 4 = 0" "f \<notin> set fs"
    "pb_flags (pbufs s f) AND PBUF_FLAG_IS_CUSTOM = 0"
  using assms by (simp_all add: free_list_def memp_malloc_def)

lemma free_cons:
  assumes "free_list s type fs" "p \<noteq> 0" "p mod 4 = 0" "p \<notin> set fs" "pb_flags (pbufs s p) AND PBUF_FLAG_IS_CUSTOM = 0"
  obtains s' where "memp_free type p s = Some s'" "free_list s' type (p # fs)" "only_bufs s s'"
    "\<forall>x. x \<noteq> p \<longrightarrow> pbufs s' x = pbufs s x" "\<forall>t. t \<noteq> type \<longrightarrow> memp_tab s' t = memp_tab s t"
proof (rule that)
  show "memp_free type p s = Some ((upd_pbuf p (\<lambda>b. b\<lparr>pb_next := memp_tab s type\<rparr>) s)\<lparr>memp_tab := (memp_tab s)(type := p)\<rparr>)"
    using assms by (simp add: memp_free_def)
  show "free_list ((upd_pbuf p (\<lambda>b. b\<lparr>pb_next := memp_tab s type\<rparr>) s)\<lparr>memp_tab := (memp_tab s)(type := p)\<rparr>) type (p # fs)"
    using assms pchain_upd [of p fs "pbufs s"] by (auto simp: free_list_def)
qed auto

section \<open>Release of a chain\<close>

text \<open>Buffers of the pool that are referenced once.\<close>

definition pool_buf :: "pbuf \<Rightarrow> bool" where
  "pool_buf b \<longleftrightarrow> pb_type b = PBUF_POOL \<and> pb_flags b AND PBUF_FLAG_IS_CUSTOM = 0 \<and> pb_ref b = 1"

lemma free_loop_pool:
  assumes "pchain (pbufs s) p ps" "distinct ps" "\<forall>q \<in> set ps. pool_buf (pbufs s q) \<and> q mod 4 = 0" "free_list s MEMP_PBUF_POOL fs"
    "set ps \<inter> set fs = {}"
  obtains s' where "free_loop L p c s = Some (c + of_nat (length ps), s')" "free_list s' MEMP_PBUF_POOL (rev ps @ fs)"
    "only_bufs s s'" "\<forall>x. x \<notin> set ps \<longrightarrow> pbufs s' x = pbufs s x" "memp_tab s' MEMP_PBUF = memp_tab s MEMP_PBUF"
  using assms
proof (induction ps arbitrary: p c s fs thesis)
  case Nil
  show ?case by (rule Nil.prems(1) [of s]) (use Nil.prems in \<open>simp_all add: free_loop.simps\<close>)
next
  case (Cons p' ps)
  have p: "p' = p" "p \<noteq> 0" "pchain (pbufs s) (pb_next (pbufs s p)) ps" "p \<notin> set ps" "distinct ps" "p mod 4 = 0" "p \<notin> set fs"
    and b: "pb_type (pbufs s p) = PBUF_POOL" "pb_flags (pbufs s p) AND PBUF_FLAG_IS_CUSTOM = 0" "pb_ref (pbufs s p) = 1"
    using Cons.prems by (auto simp: pool_buf_def)
  let ?s = "upd_pbuf p (\<lambda>b. b\<lparr>pb_ref := pb_ref b - 1\<rparr>) s"
  have f: "free_list ?s MEMP_PBUF_POOL fs" using Cons.prems(5) p(7) free_list_cong [of fs ?s s MEMP_PBUF_POOL] by force
  obtain s1 where s1: "memp_free MEMP_PBUF_POOL p ?s = Some s1" "free_list s1 MEMP_PBUF_POOL (p # fs)" "only_bufs ?s s1"
    "\<forall>x. x \<noteq> p \<longrightarrow> pbufs s1 x = pbufs ?s x" "\<forall>t. t \<noteq> MEMP_PBUF_POOL \<longrightarrow> memp_tab s1 t = memp_tab ?s t"
    by (rule free_cons [OF f p(2,6,7)]) (use b in simp_all)
  have c1: "pchain (pbufs s1) (pb_next (pbufs s p)) ps" using p(3) pchain_cong [of ps "pbufs s1" "pbufs s"] s1(4) p(4) by force
  have b1: "\<forall>q \<in> set ps. pbufs s1 q = pbufs s q" using s1(4) p(4) by force
  obtain s' where s': "free_loop L (pb_next (pbufs s p)) (c + 1) s1 = Some (c + 1 + of_nat (length ps), s')"
    "free_list s' MEMP_PBUF_POOL (rev ps @ p # fs)" "only_bufs s1 s'" "\<forall>x. x \<notin> set ps \<longrightarrow> pbufs s' x = pbufs s1 x"
    "memp_tab s' MEMP_PBUF = memp_tab s1 MEMP_PBUF"
    by (rule Cons.IH [OF _ c1 p(5) _ s1(2)]) (use Cons.prems(4,6) p(1,4) b1 in auto)
  show ?case
  proof (rule Cons.prems(1) [of s'])
    show "free_loop L p c s = Some (c + of_nat (length (p' # ps)), s')"
      using s'(1) s1(1) p(2) b by (subst free_loop.simps) (simp add: release_pbuf_def ac_simps)
    show "only_bufs s s'" using only_bufs_trans [OF s1(3) s'(3)] by (cases s; cases s') (simp add: only_bufs_def upd_pbuf_def)
  qed (use s'(2,4,5) s1(4,5) p(1) in auto)
qed

section \<open>Allocation from the pool\<close>

text \<open>
  The buffers of a chain for \<open>m\<close> bytes: each but the last one full, with the number of bytes from it on,
  its payload right behind its structure, and one reference.
\<close>

definition pool_part :: "pbuf \<Rightarrow> addr \<Rightarrow> nat \<Rightarrow> bool" where
  "pool_part b q m \<longleftrightarrow> pool_buf b \<and> pb_payload b = q + 16 \<and> unat (pb_tot_len b) = m \<and> unat (pb_len b) = min m 1516"

fun filled :: "(addr \<Rightarrow> pbuf) \<Rightarrow> addr list \<Rightarrow> nat \<Rightarrow> bool" where
  "filled b [] m \<longleftrightarrow> m = 0"
| "filled b (q # qs) m \<longleftrightarrow> 0 < m \<and> pool_part (b q) q m \<and> filled b qs (m - 1516)"

lemma filled_cong: "(\<And>q. q \<in> set qs \<Longrightarrow> b' q = b q) \<Longrightarrow> filled b' qs m = filled b qs m"
  by (induction qs arbitrary: m) auto

lemma filled_upd: "p \<notin> set qs \<Longrightarrow> filled (b(p := x)) qs m = filled b qs m"
  by (rule filled_cong) auto

lemma unat_u16: "n < 65536 \<Longrightarrow> unat (of_nat n :: u16) = n"
  by (simp add: unsigned_of_nat take_bit_nat_eq_self)

text \<open>How many more buffers \<open>m\<close> bytes take.\<close>

definition parts :: "nat \<Rightarrow> nat" where
  "parts m = (m + 1515) div 1516"

lemma parts_0 [simp]: "parts 0 = 0" by (simp add: parts_def)

lemma parts_step: "0 < m \<Longrightarrow> parts m = Suc (parts (m - 1516))"
  by (cases "m \<le> 1516") (simp_all add: parts_def le_div_geq)

lemma alloc_tail_part:
  assumes f: "free_list s MEMP_PBUF_POOL (q # fs)" and m: "0 < m" "m < 65535"
    and r: "r \<notin> set (q # fs)" "p \<notin> set (q # fs)" and p: "pb_payload (pbufs s p) + unat (pb_len (pbufs s p)) \<le> p + 1532"
  obtains s1 where "alloc_tail L p r m s = alloc_tail L p q (m - 1516) s1" "free_list s1 MEMP_PBUF_POOL fs"
    "pool_part (pbufs s1 q) q m" "pb_next (pbufs s1 q) = 0" "pbufs s1 r = (pbufs s r)\<lparr>pb_next := q\<rparr>"
    "\<forall>x. x \<noteq> q \<and> x \<noteq> r \<longrightarrow> pbufs s1 x = pbufs s x" "only_bufs s s1" "memp_tab s1 MEMP_PBUF = memp_tab s MEMP_PBUF"
proof -
  note M = malloc_cons [OF f]
  let ?s0 = "s\<lparr>memp_tab := (memp_tab s)(MEMP_PBUF_POOL := pb_next (pbufs s q))\<rparr>"
  let ?l = "min m 1516"
  let ?b = "(pbufs s q)\<lparr>pb_type := PBUF_POOL, pb_flags := 0, pb_next := 0, pb_tot_len := of_nat m, pb_len := of_nat ?l, pb_payload := q + 16, pb_ref := 1\<rparr>"
  define s1 where "s1 = ?s0\<lparr>pbufs := (pbufs s)(q := ?b, r := (pbufs s r)\<lparr>pb_next := q\<rparr>)\<rparr>"
  have rq: "r \<noteq> q" "p \<noteq> q" using r by auto
  have l: "unat (of_nat ?l :: u16) = ?l" "unat (of_nat m :: u16) = m" using m by (auto intro!: unat_u16)
  have a: "(q + 16) mod 4 = 0" using M(4) by presburger
  have "alloc_tail L p r m s = alloc_tail L p q (m - unat (of_nat ?l :: u16)) s1"
    using m M(1,3) rq a p by (subst alloc_tail.simps) (cases "p = r"; simp add: s1_def upd_pbuf_def fun_upd_twist)
  then have e: "alloc_tail L p r m s = alloc_tail L p q (m - 1516) s1" using l(1) by (simp add: min_def split: if_splits)
  show ?thesis
  proof (rule that [OF e])
    have "free_list s1 MEMP_PBUF_POOL fs = free_list ?s0 MEMP_PBUF_POOL fs" by (rule free_list_cong) (use r M(5) in \<open>auto simp: s1_def\<close>)
    then show "free_list s1 MEMP_PBUF_POOL fs" using M(2) by simp
    show "pool_part (pbufs s1 q) q m" using rq l by (simp add: s1_def pool_part_def pool_buf_def)
  qed (use rq in \<open>auto simp: s1_def only_bufs_def\<close>)
qed

lemma alloc_tail_filled:
  assumes "free_list s MEMP_PBUF_POOL (us @ vs)" "length us = parts m" "m < 65535" "r \<notin> set (us @ vs)" "p \<notin> set (us @ vs)"
    "pb_payload (pbufs s p) + unat (pb_len (pbufs s p)) \<le> p + 1532" "pb_next (pbufs s r) = 0"
  obtains s' where "alloc_tail L p r m s = Some (p, s')" "free_list s' MEMP_PBUF_POOL vs" "filled (pbufs s') us m"
    "pchain (pbufs s') (pb_next (pbufs s' r)) us" "(pbufs s' r)\<lparr>pb_next := 0\<rparr> = (pbufs s r)\<lparr>pb_next := 0\<rparr>"
    "\<forall>x. x \<notin> set us \<and> x \<noteq> r \<longrightarrow> pbufs s' x = pbufs s x" "only_bufs s s'" "memp_tab s' MEMP_PBUF = memp_tab s MEMP_PBUF"
  using assms
proof (induction us arbitrary: m r s thesis)
  case Nil
  have "m = 0" using Nil.prems(3) parts_step [of m] by (cases "m = 0") auto
  then show ?case by (intro Nil.prems(1) [of s]) (use Nil.prems in \<open>simp_all add: alloc_tail.simps\<close>)
next
  case (Cons q us)
  have m: "0 < m" using Cons.prems(3) by (cases "m = 0") simp_all
  have f: "free_list s MEMP_PBUF_POOL (q # (us @ vs))" using Cons.prems(2) by simp
  have o: "r \<notin> set (q # us @ vs)" "p \<notin> set (q # us @ vs)" using Cons.prems(5,6) by simp_all
  obtain s1 where s1: "alloc_tail L p r m s = alloc_tail L p q (m - 1516) s1" "free_list s1 MEMP_PBUF_POOL (us @ vs)"
    "pool_part (pbufs s1 q) q m" "pb_next (pbufs s1 q) = 0" "pbufs s1 r = (pbufs s r)\<lparr>pb_next := q\<rparr>"
    "\<forall>x. x \<noteq> q \<and> x \<noteq> r \<longrightarrow> pbufs s1 x = pbufs s x" "only_bufs s s1" "memp_tab s1 MEMP_PBUF = memp_tab s MEMP_PBUF"
    by (rule alloc_tail_part [OF f m Cons.prems(4) o Cons.prems(7)])
  have q: "q \<noteq> 0" "q \<notin> set (us @ vs)" using malloc_cons(3,5) [OF f] by auto
  have p1: "pb_payload (pbufs s1 p) + unat (pb_len (pbufs s1 p)) \<le> p + 1532"
    using Cons.prems(6,7) s1(5,6) by (cases "p = r") auto
  have n: "length us = parts (m - 1516)" using Cons.prems(3) parts_step [OF m] by simp
  obtain s' where s': "alloc_tail L p q (m - 1516) s1 = Some (p, s')" "free_list s' MEMP_PBUF_POOL vs" "filled (pbufs s') us (m - 1516)"
    "pchain (pbufs s') (pb_next (pbufs s' q)) us" "(pbufs s' q)\<lparr>pb_next := 0\<rparr> = (pbufs s1 q)\<lparr>pb_next := 0\<rparr>"
    "\<forall>x. x \<notin> set us \<and> x \<noteq> q \<longrightarrow> pbufs s' x = pbufs s1 x" "only_bufs s1 s'" "memp_tab s' MEMP_PBUF = memp_tab s1 MEMP_PBUF"
    by (rule Cons.IH [OF _ s1(2) n _ q(2) _ p1 s1(4)]) (use Cons.prems(4,6) in simp_all)
  have "pool_part (pbufs s' q) q m = pool_part (pbufs s1 q) q m"
    using s'(5) by (cases "pbufs s' q"; cases "pbufs s1 q") (simp add: pool_part_def pool_buf_def)
  moreover have "pbufs s' r = (pbufs s r)\<lparr>pb_next := q\<rparr>" using s'(6) s1(5) Cons.prems(5) by simp
  ultimately show ?case
    by (intro Cons.prems(1) [of s'])
      (use s1 s' q m Cons.prems(5) only_bufs_trans [OF s1(7) s'(7)] in auto)
qed

text \<open>A packet of \<open>n\<close> bytes in pool buffers; an empty packet has one buffer too.\<close>

fun packet :: "(addr \<Rightarrow> pbuf) \<Rightarrow> addr list \<Rightarrow> nat \<Rightarrow> bool" where
  "packet b [] n \<longleftrightarrow> False"
| "packet b (p # ps) n \<longleftrightarrow> pchain b p (p # ps) \<and> pool_part (b p) p n \<and> filled b ps (n - 1516)"

definition buffers_for :: "nat \<Rightarrow> nat" where
  "buffers_for n = Suc (parts (n - 1516))"

lemma pbuf_alloc_pool_ok:
  assumes f: "free_list s MEMP_PBUF_POOL (us @ vs)" and u: "length us = buffers_for (unat len)"
  obtains s' where "pbuf_alloc L PBUF_RAW len PBUF_POOL s = Some (hd us, s')" "packet (pbufs s') us (unat len)"
    "free_list s' MEMP_PBUF_POOL vs" "only_bufs s s'" "\<forall>x. x \<notin> set us \<longrightarrow> pbufs s' x = pbufs s x"
    "memp_tab s' MEMP_PBUF = memp_tab s MEMP_PBUF"
proof -
  obtain p us' where us: "us = p # us'" "length us' = parts (unat len - 1516)" using u by (cases us) (auto simp: buffers_for_def)
  have f': "free_list s MEMP_PBUF_POOL (p # (us' @ vs))" using f us by simp
  note M = malloc_cons [OF f']
  let ?s0 = "s\<lparr>memp_tab := (memp_tab s)(MEMP_PBUF_POOL := pb_next (pbufs s p))\<rparr>" and ?l = "min (unat len) 1516"
  let ?b = "(pbufs s p)\<lparr>pb_type := PBUF_POOL, pb_next := 0, pb_payload := p + 16, pb_tot_len := len, pb_len := of_nat ?l, pb_ref := 1\<rparr>"
  define s1 where "s1 = ?s0\<lparr>pbufs := (pbufs s)(p := ?b)\<rparr>"
  have len: "unat len < 65536" using unsigned_less [of len] by simp
  have l: "unat (of_nat ?l :: u16) = ?l" using len by (intro unat_u16) simp
  have a: "(p + 16) mod 4 = 0" using M(4) by presburger
  have "free_list s1 MEMP_PBUF_POOL (us' @ vs) = free_list ?s0 MEMP_PBUF_POOL (us' @ vs)"
    by (rule free_list_cong) (use M(5) in \<open>auto simp: s1_def\<close>)
  then have f1: "free_list s1 MEMP_PBUF_POOL (us' @ vs)" using M(2) by simp
  have e: "alloc_pool L 0 len s = alloc_tail L p p (unat len - 1516) s1"
    using M(1,3) a l by (simp add: alloc_pool_def s1_def upd_pbuf_def min_def split: if_splits)
  have c: "pb_payload (pbufs s1 p) + unat (pb_len (pbufs s1 p)) \<le> p + 1532" "pb_next (pbufs s1 p) = 0"
    using l by (simp_all add: s1_def)
  obtain s' where s': "alloc_tail L p p (unat len - 1516) s1 = Some (p, s')" "free_list s' MEMP_PBUF_POOL vs"
    "filled (pbufs s') us' (unat len - 1516)" "pchain (pbufs s') (pb_next (pbufs s' p)) us'"
    "(pbufs s' p)\<lparr>pb_next := 0\<rparr> = (pbufs s1 p)\<lparr>pb_next := 0\<rparr>"
    "\<forall>x. x \<notin> set us' \<and> x \<noteq> p \<longrightarrow> pbufs s' x = pbufs s1 x" "only_bufs s1 s'" "memp_tab s' MEMP_PBUF = memp_tab s1 MEMP_PBUF"
    by (rule alloc_tail_filled [OF f1 us(2) _ M(5) M(5) c(1,2)]) (use len in simp)
  let ?s = "upd_pbuf p (\<lambda>b. b\<lparr>pb_ref := 1, pb_flags := 0\<rparr>) s'"
  have p: "p \<notin> set us'" "p \<notin> set vs" using M(5) by simp_all
  have h: "pb_type (pbufs s' p) = PBUF_POOL" "pb_payload (pbufs s' p) = p + 16" "pb_tot_len (pbufs s' p) = len" "pb_len (pbufs s' p) = of_nat ?l"
    using arg_cong [OF s'(5), of pb_type] arg_cong [OF s'(5), of pb_payload] arg_cong [OF s'(5), of pb_tot_len] arg_cong [OF s'(5), of pb_len]
    by (simp_all add: s1_def)
  show ?thesis
  proof (rule that [of ?s])
    show "pbuf_alloc L PBUF_RAW len PBUF_POOL s = Some (hd us, ?s)" using e s'(1) M(3) us by (simp add: pbuf_alloc_def)
    show "packet (pbufs ?s) us (unat len)"
      using us s'(3,4) p(1) M(3) h l filled_upd [of p us' "pbufs s'"] pchain_upd [of p us' "pbufs s'"]
      by (auto simp: pool_part_def pool_buf_def)
    have "free_list ?s MEMP_PBUF_POOL vs = free_list s' MEMP_PBUF_POOL vs" by (rule free_list_cong) (use p(2) in auto)
    then show "free_list ?s MEMP_PBUF_POOL vs" using s'(2) by simp
    have "only_bufs s s1" by (simp add: s1_def only_bufs_def)
    then show "only_bufs s ?s" using only_bufs_trans [OF _ s'(7)] by simp
  qed (use s'(6,8) us in \<open>auto simp: s1_def\<close>)
qed

section \<open>When the pool runs out\<close>

text \<open>The message to the TCP thread leaves the buffers alone.\<close>

definition callback_ok :: "'a net_scheme lwip \<Rightarrow> bool" where
  "callback_ok L \<longleftrightarrow> (\<forall>s. pbufs (snd (tcpip_callback_free_ooseq L s)) = pbufs s \<and> memp_tab (snd (tcpip_callback_free_ooseq L s)) = memp_tab s)"

lemma pool_is_empty_frame:
  "callback_ok L \<Longrightarrow> pbufs (pbuf_pool_is_empty L s) = pbufs s \<and> memp_tab (pbuf_pool_is_empty L s) = memp_tab s"
  using callback_ok_def [of L] by (simp add: pbuf_pool_is_empty_def split_beta Let_def)

lemma pchain_snoc:
  "pchain b p (xs @ [r]) \<Longrightarrow> distinct (xs @ [r]) \<Longrightarrow> q \<noteq> 0 \<Longrightarrow> (\<And>x. x \<in> set xs \<Longrightarrow> pb_next (b' x) = pb_next (b x)) \<Longrightarrow>
   pb_next (b' r) = q \<Longrightarrow> pb_next (b' q) = 0 \<Longrightarrow> pchain b' p ((xs @ [r]) @ [q])"
  by (induction xs arbitrary: p) auto

lemma alloc_tail_fails:
  assumes cb: "callback_ok L" and "pchain (pbufs s) p (xs @ [r])" "distinct ((xs @ [r]) @ fs)"
    "\<forall>q \<in> set (xs @ [r]). pool_buf (pbufs s q) \<and> q mod 4 = 0" "free_list s MEMP_PBUF_POOL fs" "length fs < parts m" "m < 65535"
    "pb_payload (pbufs s p) + unat (pb_len (pbufs s p)) \<le> p + 1532"
  obtains s' where "alloc_tail L p r m s = Some (0, s')" "free_list s' MEMP_PBUF_POOL (rev ((xs @ [r]) @ fs))"
    "\<forall>x. x \<notin> set ((xs @ [r]) @ fs) \<longrightarrow> pbufs s' x = pbufs s x"
  using assms(2-)
proof (induction fs arbitrary: xs r m s thesis)
  case Nil
  have m: "0 < m" using Nil.prems(6) by (cases "m = 0") simp_all
  have p0: "p \<noteq> 0" using Nil.prems(2) by (cases xs) auto
  let ?s = "pbuf_pool_is_empty L s"
  note fr = pool_is_empty_frame [OF cb, of s]
  have h: "pchain (pbufs ?s) p (xs @ [r])" "distinct (xs @ [r])" "\<forall>q \<in> set (xs @ [r]). pool_buf (pbufs ?s q) \<and> q mod 4 = 0"
    "free_list ?s MEMP_PBUF_POOL []" "set (xs @ [r]) \<inter> set [] = {}"
    using Nil.prems(2-5) fr by (simp_all add: free_list_def)
  obtain s' where s': "free_loop L p 0 ?s = Some (0 + of_nat (length (xs @ [r])), s')" "free_list s' MEMP_PBUF_POOL (rev (xs @ [r]) @ [])"
    "\<forall>x. x \<notin> set (xs @ [r]) \<longrightarrow> pbufs s' x = pbufs ?s x"
    by (rule free_loop_pool [OF h]) blast
  show ?case
    by (rule Nil.prems(1) [of s'], subst alloc_tail.simps)
      (use s' m p0 fr malloc_nil [OF Nil.prems(5)] in \<open>simp_all add: pbuf_free_def\<close>)
next
  case (Cons q fs)
  have m: "0 < m" using Cons.prems(6) by (cases "m = 0") simp_all
  have p: "p \<in> set (xs @ [r])" using Cons.prems(2) by (cases xs) auto
  have o: "r \<notin> set (q # fs)" "p \<notin> set (q # fs)" using Cons.prems(3) p by auto
  obtain s1 where s1: "alloc_tail L p r m s = alloc_tail L p q (m - 1516) s1" "free_list s1 MEMP_PBUF_POOL fs"
    "pool_part (pbufs s1 q) q m" "pb_next (pbufs s1 q) = 0" "pbufs s1 r = (pbufs s r)\<lparr>pb_next := q\<rparr>"
    "\<forall>x. x \<noteq> q \<and> x \<noteq> r \<longrightarrow> pbufs s1 x = pbufs s x"
    by (rule alloc_tail_part [OF Cons.prems(5) m Cons.prems(7) o Cons.prems(8)]) blast
  note q = malloc_cons(3,4) [OF Cons.prems(5)]
  have same: "\<forall>x \<in> set xs. pbufs s1 x = pbufs s x" using s1(6) Cons.prems(3) by auto
  have c1: "pchain (pbufs s1) p ((xs @ [r]) @ [q])"
    by (rule pchain_snoc [OF Cons.prems(2) _ q(1)]) (use Cons.prems(3) same s1(4,5) in auto)
  have b1: "\<forall>x \<in> set ((xs @ [r]) @ [q]). pool_buf (pbufs s1 x) \<and> x mod 4 = 0"
    using Cons.prems(4) same s1(3,5) q(2) by (auto simp: pool_part_def pool_buf_def)
  have p1: "pb_payload (pbufs s1 p) + unat (pb_len (pbufs s1 p)) \<le> p + 1532"
    using Cons.prems(8) o(2) s1(5,6) by (cases "p = r") auto
  obtain s' where "alloc_tail L p q (m - 1516) s1 = Some (0, s')" "free_list s' MEMP_PBUF_POOL (rev (((xs @ [r]) @ [q]) @ fs))"
    "\<forall>x. x \<notin> set (((xs @ [r]) @ [q]) @ fs) \<longrightarrow> pbufs s' x = pbufs s1 x"
    by (rule Cons.IH [where m = "m - 1516", OF _ c1 _ b1 s1(2) _ _ p1]) (use Cons.prems(3,6,7) parts_step [OF m] in auto)
  then show ?case by (intro Cons.prems(1) [of s']) (use s1(1,6) in auto)
qed

section \<open>Life of a packet\<close>

lemma filled_pool: "filled b qs m \<Longrightarrow> q \<in> set qs \<Longrightarrow> pool_buf (b q)"
  by (induction qs arbitrary: m) (auto simp: pool_part_def)

lemma packet_pool: "packet b ps n \<Longrightarrow> q \<in> set ps \<Longrightarrow> pool_buf (b q)"
  by (cases ps) (auto simp: pool_part_def dest: filled_pool)

lemma packet_chain: "packet b ps n \<Longrightarrow> pchain b (hd ps) ps"
  by (cases ps) auto

lemma alloc_pool_fails:
  assumes cb: "callback_ok L" and f: "free_list s MEMP_PBUF_POOL fs" and n: "length fs < buffers_for (unat len)"
  obtains s' where "pbuf_alloc L PBUF_RAW len PBUF_POOL s = Some (0, s')" "free_list s' MEMP_PBUF_POOL (rev fs)"
    "\<forall>x. x \<notin> set fs \<longrightarrow> pbufs s' x = pbufs s x"
proof (cases fs)
  case Nil
  then show ?thesis
    using that [of "pbuf_pool_is_empty L s"] malloc_nil [of s MEMP_PBUF_POOL] f pool_is_empty_frame [OF cb, of s]
    by (simp add: pbuf_alloc_def alloc_pool_def free_list_def)
next
  case (Cons p vs)
  have f': "free_list s MEMP_PBUF_POOL (p # vs)" using f Cons by simp
  note M = malloc_cons [OF f']
  let ?s0 = "s\<lparr>memp_tab := (memp_tab s)(MEMP_PBUF_POOL := pb_next (pbufs s p))\<rparr>" and ?l = "min (unat len) 1516"
  let ?b = "(pbufs s p)\<lparr>pb_type := PBUF_POOL, pb_next := 0, pb_payload := p + 16, pb_tot_len := len, pb_len := of_nat ?l, pb_ref := 1\<rparr>"
  define s1 where "s1 = ?s0\<lparr>pbufs := (pbufs s)(p := ?b)\<rparr>"
  have len: "unat len < 65536" using unsigned_less [of len] by simp
  have l: "unat (of_nat ?l :: u16) = ?l" using len by (intro unat_u16) simp
  have a: "(p + 16) mod 4 = 0" using M(4) by presburger
  have "free_list s1 MEMP_PBUF_POOL vs = free_list ?s0 MEMP_PBUF_POOL vs" by (rule free_list_cong) (use M(5) in \<open>auto simp: s1_def\<close>)
  then have f1: "free_list s1 MEMP_PBUF_POOL vs" using M(2) by simp
  have e: "alloc_pool L 0 len s = alloc_tail L p p (unat len - 1516) s1"
    using M(1,3) a l by (simp add: alloc_pool_def s1_def upd_pbuf_def min_def split: if_splits)
  have c: "pb_payload (pbufs s1 p) + unat (pb_len (pbufs s1 p)) \<le> p + 1532" using l by (simp add: s1_def)
  have h: "pchain (pbufs s1) p ([] @ [p])" "distinct (([] @ [p]) @ vs)" "\<forall>q \<in> set ([] @ [p]). pool_buf (pbufs s1 q) \<and> q mod 4 = 0"
    using M(3-6) f1 by (simp_all add: s1_def pool_buf_def free_list_def)
  obtain s' where "alloc_tail L p p (unat len - 1516) s1 = Some (0, s')" "free_list s' MEMP_PBUF_POOL (rev (([] @ [p]) @ vs))"
    "\<forall>x. x \<notin> set (([] @ [p]) @ vs) \<longrightarrow> pbufs s' x = pbufs s1 x"
    by (rule alloc_tail_fails [OF cb h f1 _ _ c, of "unat len - 1516"]) (use n len Cons in \<open>simp_all add: buffers_for_def\<close>)
  then show ?thesis by (intro that [of s']) (use e Cons in \<open>simp_all add: pbuf_alloc_def s1_def\<close>)
qed

text \<open>
  A packet buffer allocated from the pool is a chain of free buffers of the pool, each full but the
  last, with consistent lengths and its payload behind its structure; releasing it puts exactly these
  buffers back. When the pool has too few buffers the result is NULL and all of them are back in the pool.
  No other buffer changes.
\<close>

theorem pool_packet_roundtrip:
  assumes "callback_ok L" "free_list s MEMP_PBUF_POOL fs"
  shows "if buffers_for (unat len) \<le> length fs then
      \<exists>s' s''. pbuf_alloc L PBUF_RAW len PBUF_POOL s = Some (hd fs, s') \<and> packet (pbufs s') (take (buffers_for (unat len)) fs) (unat len) \<and>
        free_list s' MEMP_PBUF_POOL (drop (buffers_for (unat len)) fs) \<and> (\<forall>x. x \<notin> set fs \<longrightarrow> pbufs s' x = pbufs s x) \<and> mem s' = mem s \<and>
        pbuf_free L (hd fs) s' = Some (of_nat (buffers_for (unat len)), s'') \<and>
        free_list s'' MEMP_PBUF_POOL (rev (take (buffers_for (unat len)) fs) @ drop (buffers_for (unat len)) fs)
    else \<exists>s'. pbuf_alloc L PBUF_RAW len PBUF_POOL s = Some (0, s') \<and> free_list s' MEMP_PBUF_POOL (rev fs) \<and>
        (\<forall>x. x \<notin> set fs \<longrightarrow> pbufs s' x = pbufs s x)"
proof (cases "buffers_for (unat len) \<le> length fs")
  case True
  define us vs where "us = take (buffers_for (unat len)) fs" and "vs = drop (buffers_for (unat len)) fs"
  have f: "free_list s MEMP_PBUF_POOL (us @ vs)" "fs = us @ vs" "length us = buffers_for (unat len)"
    using assms(2) True by (simp_all add: us_def vs_def)
  have ne: "us \<noteq> []" using f(3) by (auto simp: buffers_for_def)
  obtain s' where s': "pbuf_alloc L PBUF_RAW len PBUF_POOL s = Some (hd us, s')" "packet (pbufs s') us (unat len)"
    "free_list s' MEMP_PBUF_POOL vs" "only_bufs s s'" "\<forall>x. x \<notin> set us \<longrightarrow> pbufs s' x = pbufs s x"
    by (rule pbuf_alloc_pool_ok [OF f(1,3)]) blast
  have d: "distinct us" "set us \<inter> set vs = {}" "\<forall>q \<in> set us. q mod 4 = 0" using f(1) by (auto simp: free_list_def)
  have b: "\<forall>q \<in> set us. pool_buf (pbufs s' q) \<and> q mod 4 = 0" using packet_pool [OF s'(2)] d(3) by simp
  obtain s'' where s'': "free_loop L (hd us) 0 s' = Some (0 + of_nat (length us), s'')" "free_list s'' MEMP_PBUF_POOL (rev us @ vs)"
    by (rule free_loop_pool [OF packet_chain [OF s'(2)] d(1) b s'(3) d(2)]) blast
  have h: "hd us = hd fs" "hd fs \<noteq> 0" using ne f(2) packet_chain [OF s'(2)] by (cases us; auto)+
  have "pbuf_free L (hd fs) s' = Some (of_nat (buffers_for (unat len)), s'')" using s''(1) h f(3) by (simp add: pbuf_free_def)
  moreover have "\<forall>x. x \<notin> set fs \<longrightarrow> pbufs s' x = pbufs s x" using s'(5) unfolding f(2) by simp
  ultimately show ?thesis using True s'(1-3) s''(2) h(1) only_bufsD(1) [OF s'(4)] by (simp add: us_def [symmetric] vs_def [symmetric])
next
  case False
  then have n: "length fs < buffers_for (unat len)" by simp
  obtain s' where "pbuf_alloc L PBUF_RAW len PBUF_POOL s = Some (0, s')" "free_list s' MEMP_PBUF_POOL (rev fs)"
    "\<forall>x. x \<notin> set fs \<longrightarrow> pbufs s' x = pbufs s x"
    by (rule alloc_pool_fails [OF assms n])
  then show ?thesis using False by auto
qed

section \<open>Copying\<close>

definition region :: "(addr \<Rightarrow> pbuf) \<Rightarrow> addr \<Rightarrow> addr set" where
  "region b p = {pb_payload (b p) ..< pb_payload (b p) + unat (pb_len (b p))}"

fun separate :: "(addr \<Rightarrow> pbuf) \<Rightarrow> addr list \<Rightarrow> bool" where
  "separate b [] \<longleftrightarrow> True"
| "separate b (p # ps) \<longleftrightarrow> (\<forall>q \<in> set ps. region b p \<inter> region b q = {}) \<and> separate b ps"

text \<open>The bytes of a chain.\<close>

definition contents :: "(addr \<Rightarrow> u8) \<Rightarrow> (addr \<Rightarrow> pbuf) \<Rightarrow> addr list \<Rightarrow> u8 list" where
  "contents m b ps = concat (map (\<lambda>p. bytes_at m (pb_payload (b p)) (unat (pb_len (b p)))) ps)"

lemma contents_simps [simp]:
  "contents m b [] = []" "contents m b (p # ps) = bytes_at m (pb_payload (b p)) (unat (pb_len (b p))) @ contents m b ps"
  by (simp_all add: contents_def)

lemma bytes_at_0 [simp]: "bytes_at m a 0 = []"
  by (simp add: bytes_at_def)

lemma bytes_at_add: "bytes_at m a (k + n) = bytes_at m a k @ bytes_at m (a + k) n"
  by (rule nth_equalityI) (auto simp: bytes_at_def nth_append)

lemma bytes_at_cong: "(\<And>x. a \<le> x \<Longrightarrow> x < a + n \<Longrightarrow> m' x = m x) \<Longrightarrow> bytes_at m' a n = bytes_at m a n"
  by (simp add: bytes_at_def)

lemma contents_cong: "(\<And>p x. p \<in> set ps \<Longrightarrow> x \<in> region b p \<Longrightarrow> m' x = m x) \<Longrightarrow> contents m' b ps = contents m b ps"
  by (induction ps) (auto simp: region_def intro!: bytes_at_cong)

lemma write_bytes_nil [simp]: "write_bytes a [] m = m"
  by (auto simp: write_bytes_def fun_eq_iff)

lemma write_bytes_out: "x < a \<or> a + length bs \<le> x \<Longrightarrow> write_bytes a bs m x = m x"
  by (auto simp: write_bytes_def)

lemma write_bytes_append: "write_bytes (a + length xs) ys (write_bytes a xs m) = write_bytes a (xs @ ys) m"
  by (auto simp: write_bytes_def nth_append fun_eq_iff)

lemma bytes_at_write: "length bs \<le> n \<Longrightarrow> bytes_at (write_bytes a bs m) a n = bs @ drop (length bs) (bytes_at m a n)"
  by (rule nth_equalityI) (auto simp: bytes_at_def write_bytes_def nth_append)

lemma take_bytes_at: "take k (bytes_at m a n) = bytes_at m a (min k n)"
  by (rule nth_equalityI) (auto simp: bytes_at_def)

lemma splice: "k = min n (length as) \<Longrightarrow> length ds = n - k \<Longrightarrow>
    (cs @ drop k as) @ (ds @ drop (n - k) rs) = (cs @ ds) @ drop n (as @ rs)"
  by (cases "n \<le> length as") auto

lemma upd_mem_simps [simp]: "pbufs (upd_mem f s) = pbufs s" "mem (upd_mem f s) = f (mem s)" "upd_mem g (upd_mem f s) = upd_mem (g \<circ> f) s"
  by (simp_all add: upd_mem_def)

lemma take_loop_copies:
  assumes "pchain (pbufs s) p ps" "separate (pbufs s) ps" "unat n \<le> length (contents (mem s) (pbufs s) ps)" "unat c + unat n < 65536"
    "\<forall>q \<in> set ps. region (pbufs s) q \<inter> {d ..< d + unat c + unat n} = {}"
  obtains m where "take_loop d p n c s = Some (0, c + n, s\<lparr>mem := m\<rparr>)"
    "contents m (pbufs s) ps = bytes_at (mem s) (d + unat c) (unat n) @ drop (unat n) (contents (mem s) (pbufs s) ps)"
    "\<forall>x. (\<forall>q \<in> set ps. x \<notin> region (pbufs s) q) \<longrightarrow> m x = mem s x"
  using assms
proof (induction ps arbitrary: p n c s thesis)
  case Nil
  then have "n = 0" by (simp add: unat_eq_zero)
  then show ?case by (intro Nil.prems(1) [of "mem s"]) (simp_all add: take_loop.simps)
next
  case (Cons q ps)
  show ?case
  proof (cases "n = 0")
    case True
    then show ?thesis by (intro Cons.prems(1) [of "mem s"]) (simp_all add: take_loop.simps)
  next
    case False
    let ?b = "pbufs s" and ?m = "mem s"
    let ?L = "unat (pb_len (?b q))" and ?a = "pb_payload (?b q)"
    define k where "k = (if n > pb_len (?b q) then pb_len (?b q) else n)"
    have k: "unat k = min (unat n) ?L" by (auto simp: k_def word_less_nat_alt)
    have kn: "k \<le> n" using k by (simp add: word_le_nat_alt)
    have u: "unat (n - k) = unat n - unat k" "unat (c + k) = unat c + unat k"
      using kn Cons.prems(5) k by (simp_all add: unat_sub_if_size word_le_nat_alt unat_word_ariths)
    have p: "p = q" "q \<noteq> 0" "pchain ?b (pb_next (?b q)) ps" using Cons.prems(2) by simp_all
    let ?m1 = "write_bytes ?a (bytes_at ?m (d + unat c) (unat k)) ?m"
    let ?s1 = "s\<lparr>mem := ?m1\<rparr>"
    have same: "x \<notin> region ?b q \<Longrightarrow> ?m1 x = ?m x" for x
      by (rule write_bytes_out) (use k in \<open>auto simp: region_def\<close>)
    have src: "bytes_at ?m1 (d + unat c + unat k) (unat n - unat k) = bytes_at ?m (d + unat c + unat k) (unat n - unat k)"
    proof (rule bytes_at_cong)
      fix x
      assume x: "d + unat c + unat k \<le> x" "x < d + unat c + unat k + (unat n - unat k)"
      then have "x \<in> {d ..< d + unat c + unat n}" using k by auto
      then show "?m1 x = ?m x" using Cons.prems(6) by (intro same) auto
    qed
    have rest: "contents ?m1 ?b ps = contents ?m ?b ps" by (rule contents_cong) (use Cons.prems(3) same in auto)
    have h: "pchain (pbufs ?s1) (pb_next (?b q)) ps" "separate (pbufs ?s1) ps" "unat (n - k) \<le> length (contents (mem ?s1) (pbufs ?s1) ps)"
      "unat (c + k) + unat (n - k) < 65536" "\<forall>r \<in> set ps. region (pbufs ?s1) r \<inter> {d ..< d + unat (c + k) + unat (n - k)} = {}"
      using p(3) Cons.prems(3-6) rest u k by (simp_all add: add.assoc)
    obtain m where m: "take_loop d (pb_next (?b q)) (n - k) (c + k) ?s1 = Some (0, c + k + (n - k), ?s1\<lparr>mem := m\<rparr>)"
      "contents m (pbufs ?s1) ps = bytes_at (mem ?s1) (d + unat (c + k)) (unat (n - k)) @ drop (unat (n - k)) (contents (mem ?s1) (pbufs ?s1) ps)"
      "\<forall>x. (\<forall>q \<in> set ps. x \<notin> region (pbufs ?s1) q) \<longrightarrow> m x = mem ?s1 x"
      by (rule Cons.IH [OF _ h])
    have q: "bytes_at m ?a ?L = bytes_at ?m1 ?a ?L"
    proof (rule bytes_at_cong)
      fix x
      assume "?a \<le> x" "x < ?a + ?L"
      then have "x \<in> region ?b q" by (simp add: region_def)
      then have "\<forall>r \<in> set ps. x \<notin> region ?b r" using Cons.prems(3) by auto
      then show "m x = ?m1 x" using m(3) by simp
    qed
    have split: "bytes_at ?m (d + unat c) (unat n) = bytes_at ?m (d + unat c) (unat k) @ bytes_at ?m (d + unat c + unat k) (unat n - unat k)"
      using bytes_at_add [of ?m "d + unat c" "unat k" "unat n - unat k"] k by simp
    show ?thesis
    proof (rule Cons.prems(1) [of m])
      show "take_loop d p n c s = Some (0, c + n, s\<lparr>mem := m\<rparr>)"
        using m(1) p False by (subst take_loop.simps) (simp add: k_def [symmetric] MEMCPY_def upd_mem_def Let_def)
      show "contents m ?b (q # ps) = bytes_at ?m (d + unat c) (unat n) @ drop (unat n) (contents ?m ?b (q # ps))"
      proof -
        have "contents m ?b ps = bytes_at ?m (d + unat c + unat k) (unat n - unat k) @ drop (unat n - unat k) (contents ?m ?b ps)"
          using m(2) rest src unfolding u by (simp add: add.assoc)
        moreover have "bytes_at m ?a ?L = bytes_at ?m (d + unat c) (unat k) @ drop (unat k) (bytes_at ?m ?a ?L)"
          unfolding q using bytes_at_write [of "bytes_at ?m (d + unat c) (unat k)" ?L ?a ?m] k by simp
        moreover have "unat k = min (unat n) (length (bytes_at ?m ?a ?L))" using k by simp
        note splice [OF this, of "bytes_at ?m (d + unat c + unat k) (unat n - unat k)" "bytes_at ?m (d + unat c) (unat k)" "contents ?m ?b ps"]
        ultimately show ?thesis unfolding split contents_simps by simp
      qed
      show "\<forall>x. (\<forall>r \<in> set (q # ps). x \<notin> region ?b r) \<longrightarrow> m x = ?m x" using m(3) same by simp
    qed
  qed
qed

lemma partial_loop_copies:
  assumes "pchain (pbufs s) p ps" "unat c + unat n < 65536" "\<forall>q \<in> set ps. region (pbufs s) q \<inter> {d ..< d + unat c + unat n} = {}"
  shows "partial_loop d p n off c c s =
    Some (c + of_nat (length (take (unat n) (drop (unat off) (contents (mem s) (pbufs s) ps)))),
      s\<lparr>mem := write_bytes (d + unat c) (take (unat n) (drop (unat off) (contents (mem s) (pbufs s) ps))) (mem s)\<rparr>)"
  using assms
proof (induction ps arbitrary: p n off c s)
  case Nil
  then show ?case by (simp add: partial_loop.simps)
next
  case (Cons q ps)
  let ?b = "pbufs s" and ?m = "mem s"
  let ?L = "unat (pb_len (?b q))" and ?a = "pb_payload (?b q)"
  have p: "p = q" "q \<noteq> 0" "pchain ?b (pb_next (?b q)) ps" using Cons.prems(1) by simp_all
  consider (none) "n = 0" | (skip) "n \<noteq> 0" "off \<noteq> 0" "?L \<le> unat off" | (copy) "n \<noteq> 0" "unat off \<le> ?L" "off = 0 \<or> unat off < ?L"
    by (metis le_less_linear less_imp_le unat_0 zero_le)
  then show ?case
  proof cases
    case none
    then show ?thesis by (simp add: partial_loop.simps)
  next
    case skip
    have o: "unat (off - pb_len (?b q)) = unat off - ?L" using skip(3) by (simp add: unat_sub_if_size)
    have "partial_loop d p n off c c s = partial_loop d (pb_next (?b q)) n (off - pb_len (?b q)) c c s"
      using skip p by (subst partial_loop.simps) (simp add: word_le_nat_alt Let_def)
    then show ?thesis using Cons.IH [OF p(3), of c n "off - pb_len (?b q)"] Cons.prems(2,3) o skip(3) by simp
  next
    case copy
    define k where "k = (if pb_len (?b q) - off > n then n else pb_len (?b q) - off)"
    have lo: "unat (pb_len (?b q) - off) = ?L - unat off" using copy(2) by (simp add: unat_sub_if_size)
    have k: "unat k = min (unat n) (?L - unat off)" using lo by (auto simp: k_def word_less_nat_alt)
    have u: "unat (n - k) = unat n - unat k" "unat (c + k) = unat c + unat k"
      using k Cons.prems(2) by (simp_all add: unat_sub_if_size word_le_nat_alt unat_word_ariths)
    let ?x = "bytes_at ?m (?a + unat off) (unat k)"
    let ?m1 = "write_bytes (d + unat c) ?x ?m"
    let ?s1 = "s\<lparr>mem := ?m1\<rparr>"
    have rest: "contents ?m1 ?b ps = contents ?m ?b ps"
    proof (rule contents_cong)
      fix r x
      assume r: "r \<in> set ps" "x \<in> region ?b r"
      then have "x \<notin> {d ..< d + unat c + unat n}" using Cons.prems(3) by (meson disjoint_iff list.set_intros(2))
      then show "?m1 x = ?m x" by (intro write_bytes_out) (use k in auto)
    qed
    have IH: "partial_loop d (pb_next (?b q)) (n - k) 0 (c + k) (c + k) ?s1 =
      Some (c + k + of_nat (length (take (unat n - unat k) (contents ?m ?b ps))),
        s\<lparr>mem := write_bytes (d + unat c + unat k) (take (unat n - unat k) (contents ?m ?b ps)) ?m1\<rparr>)"
      using Cons.IH [of ?s1 "pb_next (?b q)" "c + k" "n - k" 0] p(3) Cons.prems(2,3) u k rest by (simp add: add.assoc)
    have step: "partial_loop d p n off c c s = partial_loop d (pb_next (?b q)) (n - k) 0 (c + k) (c + k) ?s1"
      using copy(1,3) p by (subst partial_loop.simps) (auto simp: k_def [symmetric] word_le_nat_alt Let_def MEMCPY_def upd_mem_def)
    have A: "bytes_at ?m ?a ?L = bytes_at ?m ?a (unat off) @ bytes_at ?m (?a + unat off) (?L - unat off)"
      using bytes_at_add [of ?m ?a "unat off" "?L - unat off"] copy(2) by simp
    have X: "take (unat n) (drop (unat off) (bytes_at ?m ?a ?L)) = ?x"
      using k by (simp add: A take_bytes_at)
    have all: "take (unat n) (drop (unat off) (contents ?m ?b (q # ps))) = ?x @ take (unat n - unat k) (contents ?m ?b ps)"
    proof -
      have "unat n - (?L - unat off) = unat n - unat k" using k by (simp add: min_def)
      then show ?thesis using X copy(2) by simp
    qed
    show ?thesis unfolding step IH all using write_bytes_append [of "d + unat c" ?x] by (simp add: add.assoc)
  qed
qed

text \<open>
  \<open>pbuf_take\<close> fills a chain with data and \<open>pbuf_copy_partial\<close> reads it back, whatever the lengths of
  the buffers: after the first, the bytes of the chain are the data followed by what was there behind it;
  the second copies, from any offset on, as many bytes of the chain as are asked for and there, to the
  given address and nowhere else, and returns their number. Data that is longer than the chain is refused.
\<close>

theorem chain_data_roundtrip:
  assumes "pchain (pbufs s) p ps" "ps \<noteq> []" "separate (pbufs s) ps"
    and "unat (pb_tot_len (pbufs s p)) = length (contents (mem s) (pbufs s) ps)"
    and "src \<noteq> 0" "\<forall>q \<in> set ps. region (pbufs s) q \<inter> {src ..< src + unat len} = {}"
    and "dst \<noteq> 0" "\<forall>q \<in> set ps. region (pbufs s) q \<inter> {dst ..< dst + unat n} = {}"
  shows "if pb_tot_len (pbufs s p) < len then pbuf_take p src len s = Some (ERR_ARG, s)
    else \<exists>m bs. pbuf_take p src len s = Some (ERR_OK, s\<lparr>mem := m\<rparr>) \<and>
      contents m (pbufs s) ps = bytes_at (mem s) src (unat len) @ drop (unat len) (contents (mem s) (pbufs s) ps) \<and>
      (\<forall>x. (\<forall>q \<in> set ps. x \<notin> region (pbufs s) q) \<longrightarrow> m x = mem s x) \<and>
      bs = take (unat n) (drop (unat off) (contents m (pbufs s) ps)) \<and>
      pbuf_copy_partial p dst n off (s\<lparr>mem := m\<rparr>) = Some (of_nat (length bs), s\<lparr>mem := write_bytes dst bs m\<rparr>)"
proof (cases "pb_tot_len (pbufs s p) < len")
  case True
  have "p \<noteq> 0" using assms(1,2) by (cases ps) auto
  then show ?thesis using True assms(5) by (simp add: pbuf_take_def)
next
  case False
  have p: "p \<noteq> 0" using assms(1,2) by (cases ps) auto
  have b: "unat len < 65536" "unat n < 65536" using unsigned_less [of len] unsigned_less [of n] by simp_all
  have c: "unat len \<le> length (contents (mem s) (pbufs s) ps)" "unat (0 :: u16) + unat len < 65536"
    "\<forall>q \<in> set ps. region (pbufs s) q \<inter> {src ..< src + unat (0 :: u16) + unat len} = {}"
    using False assms(4,6) b by (simp_all add: word_less_nat_alt)
  obtain m where m: "take_loop src p len 0 s = Some (0, 0 + len, s\<lparr>mem := m\<rparr>)"
    "contents m (pbufs s) ps = bytes_at (mem s) (src + unat (0 :: u16)) (unat len) @ drop (unat len) (contents (mem s) (pbufs s) ps)"
    "\<forall>x. (\<forall>q \<in> set ps. x \<notin> region (pbufs s) q) \<longrightarrow> m x = mem s x"
    by (rule take_loop_copies [OF assms(1,3) c])
  let ?s = "s\<lparr>mem := m\<rparr>"
  define bs where "bs = take (unat n) (drop (unat off) (contents m (pbufs s) ps))"
  have P: "pbuf_copy_partial p dst n off ?s = Some (of_nat (length bs), s\<lparr>mem := write_bytes dst bs m\<rparr>)"
    using partial_loop_copies [of ?s p ps 0 n dst off] assms(1,7,8) b p by (simp add: pbuf_copy_partial_def bs_def)
  have T: "pbuf_take p src len s = Some (ERR_OK, ?s)" using False m(1) p assms(5) by (simp add: pbuf_take_def)
  show ?thesis unfolding if_not_P [OF False]
    by (intro exI [of _ m] exI [of _ bs] conjI) (rule T, use m(2) in simp, rule m(3), rule bs_def, rule P)
qed

section \<open>Searching\<close>

lemma seek_finds:
  assumes "pchain (pbufs s) p ps"
  obtains us q vs r where "seek p off s = Some (q, r)" "ps = us @ q # vs" "pchain (pbufs s) q (q # vs)" "unat r < unat (pb_len (pbufs s q))"
      "unat off = length (contents m (pbufs s) us) + unat r"
  | r where "seek p off s = Some (0, r)" "length (contents m (pbufs s) ps) \<le> unat off"
  using assms
proof (induction ps arbitrary: p off thesis)
  case Nil
  then show ?case by (simp add: seek.simps)
next
  case (Cons q ps)
  let ?b = "pbufs s"
  have p: "p = q" "q \<noteq> 0" "pchain ?b (pb_next (?b q)) ps" using Cons.prems(3) by simp_all
  show ?case
  proof (cases "pb_len (?b q) \<le> off")
    case True
    have e: "seek p off s = seek (pb_next (?b q)) (off - pb_len (?b q)) s" using True p by (subst seek.simps) simp
    have u: "unat off = unat (pb_len (?b q)) + unat (off - pb_len (?b q))" using True by (simp add: unat_sub_if_size word_le_nat_alt)
    show ?thesis
    proof (rule Cons.IH [OF _ _ p(3), of "off - pb_len (?b q)"])
      fix us q' vs r
      assume a: "seek (pb_next (?b q)) (off - pb_len (?b q)) s = Some (q', r)" "ps = us @ q' # vs" "pchain ?b q' (q' # vs)"
        "unat r < unat (pb_len (?b q'))" "unat (off - pb_len (?b q)) = length (contents m ?b us) + unat r"
      show thesis by (rule Cons.prems(1) [of q' r "q # us" vs]) (use a e u in simp_all)
    next
      fix r
      assume "seek (pb_next (?b q)) (off - pb_len (?b q)) s = Some (0, r)" "length (contents m ?b ps) \<le> unat (off - pb_len (?b q))"
      then show thesis by (intro Cons.prems(2) [of r]) (use e u in simp_all)
    qed
  next
    case False
    then show ?thesis
      by (intro Cons.prems(1) [of q off "[]" ps]) (use p in \<open>simp_all add: seek.simps word_le_nat_alt\<close>)
  qed
qed

lemma contents_append [simp]: "contents m b (us @ vs) = contents m b us @ contents m b vs"
  by (simp add: contents_def)

lemma pbuf_get_at_nth:
  assumes "pchain (pbufs s) p ps" "unat off < length (contents (mem s) (pbufs s) ps)"
  shows "pbuf_get_at p off s = Some (contents (mem s) (pbufs s) ps ! unat off)"
proof (rule seek_finds [OF assms(1), of off "mem s"])
  fix us q vs r
  assume a: "seek p off s = Some (q, r)" "ps = us @ q # vs" "pchain (pbufs s) q (q # vs)" "unat r < unat (pb_len (pbufs s q))"
    "unat off = length (contents (mem s) (pbufs s) us) + unat r"
  then show ?thesis by (simp add: pbuf_get_at_def word_less_nat_alt nth_append bytes_at_def)
next
  fix r
  assume "length (contents (mem s) (pbufs s) ps) \<le> unat off"
  then show ?thesis using assms(2) by simp
qed

text \<open>The result of a comparison: 0, or one more than the position of the first difference.\<close>

definition first_difference :: "u8 list \<Rightarrow> u8 list \<Rightarrow> u16 \<Rightarrow> bool" where
  "first_difference as bs w \<longleftrightarrow> (if w = 0 then as = bs
     else unat w \<le> length bs \<and> take (unat w - 1) as = take (unat w - 1) bs \<and> as ! (unat w - 1) \<noteq> bs ! (unat w - 1))"

lemma memcmp_loop_result:
  assumes c: "pchain (pbufs s) q ps" and n: "unat start + unat n \<le> length (contents (mem s) (pbufs s) ps)"
    "unat start + unat n < 65536"
  shows "i \<le> n \<Longrightarrow> take (unat i) (drop (unat start) (contents (mem s) (pbufs s) ps)) = bytes_at (mem s) s2 (unat i) \<Longrightarrow>
    \<exists>w. memcmp_loop q start s2 n i s = Some w \<and>
      first_difference (take (unat n) (drop (unat start) (contents (mem s) (pbufs s) ps))) (bytes_at (mem s) s2 (unat n)) w"
proof (induction "unat n - unat i" arbitrary: i)
  case 0
  then have "unat i = unat n" by (simp add: word_le_nat_alt)
  then have "i = n" by (rule unsigned_word_eqI)
  then show ?case using 0 by (simp add: memcmp_loop.simps first_difference_def)
next
  case (Suc d)
  let ?t = "contents (mem s) (pbufs s) ps"
  let ?a = "take (unat n) (drop (unat start) ?t)" and ?b = "bytes_at (mem s) s2 (unat n)"
  have i: "i < n" "unat i < unat n" using Suc.hyps(2) by (simp_all add: word_less_nat_alt)
  have i1: "unat (i + 1) = Suc (unat i)" using i n(2) by (simp add: unat_word_ariths)
  have u: "unat (start + i) = unat start + unat i" using i(2) n(2) by (simp add: unat_word_ariths)
  have g: "pbuf_get_at q (start + i) s = Some (?a ! unat i)"
    using pbuf_get_at_nth [OF c, of "start + i"] i n by (simp add: u)
  have bi: "mem s (s2 + unat i) = ?b ! unat i" using i(2) by (simp add: bytes_at_def)
  have e: "memcmp_loop q start s2 n i s = (if ?a ! unat i \<noteq> ?b ! unat i then Some (i + 1) else memcmp_loop q start s2 n (i + 1) s)"
    using i g bi by (subst memcmp_loop.simps) simp
  have pre: "take (unat i) ?a = take (unat i) ?b" using Suc.prems(2) i(2) by (simp add: take_bytes_at min.absorb1 min.absorb2)
  show ?case
  proof (cases "?a ! unat i = ?b ! unat i")
    case True
    have "take (Suc (unat i)) ?a = take (Suc (unat i)) ?b"
      using pre True i(2) n by (simp add: take_Suc_conv_app_nth)
    then have "take (unat (i + 1)) (drop (unat start) ?t) = bytes_at (mem s) s2 (unat (i + 1))"
      using i(2) by (simp add: i1 take_bytes_at min.absorb1)
    moreover have "i + 1 \<le> n" "d = unat n - unat (i + 1)" using i i1 Suc.hyps(2) by (simp_all add: word_le_nat_alt)
    ultimately show ?thesis using Suc.hyps(1) [of "i + 1"] True e by simp
  next
    case False
    have "i + 1 \<noteq> 0" using i1 by (metis unat_0 nat.distinct(1))
    then show ?thesis using False e pre i(2) by (simp add: first_difference_def i1)
  qed
qed

lemma pbuf_memcmp_result:
  assumes c: "pchain (pbufs s) p ps" and n: "n \<noteq> 0" "unat off + unat n \<le> length (contents (mem s) (pbufs s) ps)"
    and b: "length (contents (mem s) (pbufs s) ps) < 65536"
  shows "\<exists>w. pbuf_memcmp p off s2 n s = Some w \<and>
    first_difference (take (unat n) (drop (unat off) (contents (mem s) (pbufs s) ps))) (bytes_at (mem s) s2 (unat n)) w"
proof (rule seek_finds [OF c, of off "mem s"])
  fix us q vs r
  assume a: "seek p off s = Some (q, r)" "ps = us @ q # vs" "pchain (pbufs s) q (q # vs)" "unat r < unat (pb_len (pbufs s q))"
    "unat off = length (contents (mem s) (pbufs s) us) + unat r"
  have "drop (unat off) (contents (mem s) (pbufs s) ps) = drop (unat r) (contents (mem s) (pbufs s) (q # vs))"
    unfolding a(2,5) contents_append by (simp only: drop_append) simp
  then show ?thesis
    using memcmp_loop_result [OF a(3), of r n 0 s2] a n(2) b by (simp add: pbuf_memcmp_def word_less_nat_alt)
next
  fix r
  assume "length (contents (mem s) (pbufs s) ps) \<le> unat off"
  moreover have "0 < unat n" using n(1) by (simp add: unat_gt_0)
  ultimately show ?thesis using n(2) by linarith
qed

definition occurs_at :: "u8 list \<Rightarrow> u8 list \<Rightarrow> nat \<Rightarrow> bool" where
  "occurs_at pat text i \<longleftrightarrow> i + length pat \<le> length text \<and> take (length pat) (drop i text) = pat"

lemma memfind_loop_sound:
  assumes c: "pchain (pbufs s) p ps" and n: "n \<noteq> 0" and tl: "length (contents (mem s) (pbufs s) ps) < 65535"
    and x: "unat mx + unat n = length (contents (mem s) (pbufs s) ps)"
  shows "\<exists>r. memfind_loop p m n mx i s = Some r \<and>
    (r \<noteq> 0xFFFF \<longrightarrow> i \<le> r \<and> occurs_at (bytes_at (mem s) m (unat n)) (contents (mem s) (pbufs s) ps) (unat r))"
proof (induction "Suc (unat mx) - unat i" arbitrary: i rule: less_induct)
  case less
  let ?t = "contents (mem s) (pbufs s) ps" and ?p = "bytes_at (mem s) m (unat n)"
  show ?case
  proof (cases "i \<le> mx")
    case False
    then show ?thesis by (simp add: memfind_loop.simps)
  next
    case True
    then have i: "unat i + unat n \<le> length ?t" using x by (simp add: word_le_nat_alt)
    obtain w where w: "pbuf_memcmp p i m n s = Some w" "first_difference (take (unat n) (drop (unat i) ?t)) ?p w"
      using pbuf_memcmp_result [OF c n i, of m] tl by auto
    show ?thesis
    proof (cases "w = 0")
      case z: True
      then show ?thesis using True w i by (subst memfind_loop.simps) (simp add: first_difference_def occurs_at_def)
    next
      case z: False
      then have "unat w \<le> unat n" "0 < unat w" using w(2) by (simp_all add: first_difference_def unat_gt_0)
      then have u: "unat (i + w) = unat i + unat w" "unat i < unat (i + w)" using i tl by (simp_all add: unat_word_ariths)
      have "Suc (unat mx) - unat (i + w) < Suc (unat mx) - unat i" using u True by (simp add: word_le_nat_alt)
      then obtain r where "memfind_loop p m n mx (i + w) s = Some r"
        "r \<noteq> 0xFFFF \<longrightarrow> i + w \<le> r \<and> occurs_at ?p ?t (unat r)" using less by blast
      then show ?thesis using True w(1) z u by (subst memfind_loop.simps) (auto simp: word_le_nat_alt)
    qed
  qed
qed

text \<open>
  \<open>pbuf_memfind\<close> always ends, and a position that it returns is one at or behind the start where the
  bytes searched for are. But it advances by the number of bytes that agreed and one more, so that it can pass
  over an occurrence: in a packet of the bytes x, x, y it does not find x, y, which is there at position 1.
\<close>

theorem memfind_sound_but_incomplete:
  assumes "pchain (pbufs s) p ps" "n \<noteq> 0" "length (contents (mem s) (pbufs s) ps) < 65535"
    "unat (pb_tot_len (pbufs s p)) = length (contents (mem s) (pbufs s) ps)"
  shows "\<exists>r. pbuf_memfind p m n start s = Some r \<and>
    (r \<noteq> 0xFFFF \<longrightarrow> start \<le> r \<and> occurs_at (bytes_at (mem s) m (unat n)) (contents (mem s) (pbufs s) ps) (unat r)) \<and>
    (\<forall>x y. x \<noteq> y \<and> start = 0 \<and> contents (mem s) (pbufs s) ps = [x, x, y] \<and> bytes_at (mem s) m (unat n) = [x, y] \<longrightarrow>
       r = 0xFFFF \<and> occurs_at (bytes_at (mem s) m (unat n)) (contents (mem s) (pbufs s) ps) 1)"
proof (cases "unat (pb_tot_len (pbufs s p)) \<ge> unat n + unat start")
  case False
  have no: "False" if "start = 0" "contents (mem s) (pbufs s) ps = [x, x, y]" "bytes_at (mem s) m (unat n) = [x, y]" for x y
  proof -
    have "length [x, y] = unat n" unfolding that(3) [symmetric] by simp
    then show ?thesis using False that(1,2) assms(4) by simp
  qed
  show ?thesis using False no by (auto simp: pbuf_memfind_def)
next
  case True
  let ?t = "contents (mem s) (pbufs s) ps" and ?mx = "pb_tot_len (pbufs s p) - n"
  have x: "unat ?mx + unat n = length ?t" using True assms(4) by (simp add: unat_sub_if_size)
  note L = memfind_loop_sound [OF assms(1-3) x, of m]
  have e: "pbuf_memfind p m n start s = memfind_loop p m n ?mx start s" using True by (simp add: pbuf_memfind_def Let_def)
  obtain r where r: "memfind_loop p m n ?mx start s = Some r" "r \<noteq> 0xFFFF \<longrightarrow> start \<le> r \<and> occurs_at (bytes_at (mem s) m (unat n)) ?t (unat r)"
    using L by blast
  have "r = 0xFFFF \<and> occurs_at [a, b] [a, a, b] 1" if h: "a \<noteq> b" "start = 0" "?t = [a, a, b]" "bytes_at (mem s) m (unat n) = [a, b]" for a b
  proof -
    have "length [a, b] = unat n" unfolding h(4) [symmetric] by simp
    then have n2: "unat n = 2" by simp
    have mx: "unat ?mx = 1" using x h(3) n2 by simp
    obtain w where w: "pbuf_memcmp p 0 m n s = Some w" "first_difference (take (unat n) (drop (unat (0 :: u16)) ?t)) (bytes_at (mem s) m (unat n)) w"
      using pbuf_memcmp_result [OF assms(1,2), of 0 m] assms(3) x n2 h(3) by auto
    have "w \<noteq> 0" "unat w \<le> 2" "unat w - 1 \<noteq> 0" using w(2) h n2 by (auto simp: first_difference_def split: if_splits)
    then have w2: "unat w = 2" by linarith
    have "memfind_loop p m n ?mx 0 s = memfind_loop p m n ?mx w s" using w(1) \<open>w \<noteq> 0\<close> by (subst memfind_loop.simps) simp
    also have "\<dots> = Some 0xFFFF" using w2 mx by (subst memfind_loop.simps) (simp add: word_le_nat_alt)
    finally show ?thesis using r(1) h(2) by (simp add: occurs_at_def)
  qed
  then show ?thesis using e r by auto
qed

section \<open>A concrete state\<close>

lemma init_elements_free:
  assumes "free_list s type fs" "0 < memp" "memp mod 4 = 0" "0 < sz" "sz mod 4 = 0" "\<forall>f \<in> set fs. f < memp"
    "\<forall>x. pb_flags (pbufs s x) AND PBUF_FLAG_IS_CUSTOM = 0"
  shows "free_list (snd (init_elements type sz n memp s)) type (rev (map (\<lambda>i. memp + i * sz) [0..<n]) @ fs)"
  using assms
proof (induction n arbitrary: memp s fs)
  case (Suc n)
  let ?s = "(upd_pbuf memp (\<lambda>b. b\<lparr>pb_next := memp_tab s type\<rparr>) s)\<lparr>memp_tab := (memp_tab s)(type := memp)\<rparr>"
  have f: "free_list ?s type (memp # fs)"
    using Suc.prems pchain_upd [of memp fs "pbufs s"] by (auto simp: free_list_def)
  have g: "(memp + sz) mod 4 = 0" using Suc.prems(3,5) by presburger
  have "free_list (snd (init_elements type sz n (memp + sz) ?s)) type (rev (map (\<lambda>i. memp + sz + i * sz) [0..<n]) @ memp # fs)"
    by (rule Suc.IH [OF f _ g]) (use Suc.prems in auto)
  moreover have "map (\<lambda>i. memp + i * sz) [0..<Suc n] = memp # map (\<lambda>i. memp + sz + i * sz) [0..<n]"
    unfolding upt_conv_Cons [OF zero_less_Suc] map_Suc_upt [symmetric] by (simp add: add.assoc)
  ultimately show ?case by (simp only: init_elements.simps Let_def rev.simps append.assoc append_Cons append_Nil upd_pbuf_simps)
qed simp

definition blank_pbuf :: pbuf where
  "blank_pbuf = \<lparr>pb_next = 0, pb_payload = 0, pb_tot_len = 0, pb_len = 0, pb_type = PBUF_RAM, pb_flags = 0, pb_ref = 0, custom_free_function = 0\<rparr>"

definition demo_net :: "(addr \<Rightarrow> pbuf) \<Rightarrow> net" where
  "demo_net b = board.extend (tmr.extend (kernel.extend (sched.extend (demo\<lparr>heap := demo_heap\<rparr>)
       (kernel.fields (\<lambda>_. empty_queue False 0 0 0) (\<lambda>_. 0) (replicate 10 (None, 0))))
     (tmr.fields (\<lambda>_. \<lparr>pcTimerName = 0, xTimerPeriodInTicks = 0, pvTimerID = 0, pxCallbackFunction = 0, ucStatus = 0\<rparr>)
        \<lparr>liValue = (\<lambda>_. 0), liContainer = (\<lambda>_. None), lsItems = (\<lambda>_. []), lsIndex = (\<lambda>_. None)\<rparr>
        xActiveTimerList1 xActiveTimerList2 0 0 0))
     (board.fields (\<lambda>_. 0) ((started 8 demo_image demo_nvic)\<lparr>vectactive := 0\<rparr>)))
     (net.fields b (\<lambda>_. 0) False)"

lemma demo_net_simps [simp]: "pbufs (demo_net b) = b" "memp_tab (demo_net b) = (\<lambda>_. 0)" "mem (demo_net b) = (\<lambda>_. 0)"
  by (simp_all add: demo_net_def net.defs board.defs tmr.defs kernel.defs sched.defs)

text \<open>A pool of two buffers at 7000 and 8532, made by \<open>memp_init_pool\<close>, and a stack that does nothing.\<close>

definition demo_pool :: net where
  "demo_pool = snd (memp_init_pool MEMP_PBUF_POOL 2 1532 7000 (demo_net (\<lambda>_. blank_pbuf)))"

lemma demo_pool_free: "free_list demo_pool MEMP_PBUF_POOL [8532, 7000]"
proof -
  let ?s = "(demo_net (\<lambda>_. blank_pbuf))\<lparr>memp_tab := (\<lambda>_. 0)(MEMP_PBUF_POOL := 0)\<rparr>"
  have "free_list ?s MEMP_PBUF_POOL []" by (simp add: free_list_def)
  from init_elements_free [OF this, of 7000 1532 2] show ?thesis
    by (simp add: demo_pool_def memp_init_pool_def blank_pbuf_def upt_rec)
qed

definition idle_lwip :: "'s lwip" where
  "idle_lwip = \<lparr>mem_malloc = (\<lambda>n s. Some (0, s)), mem_trim = (\<lambda>p n s. Some (p, s)), mem_free = (\<lambda>p s. Some s),
     call_custom_free = (\<lambda>f p s. Some s), tcpip_callback_free_ooseq = (\<lambda>s. (ERR_OK, s)), netif_input = (\<lambda>p n s. (ERR_OK, s))\<rparr>"

theorem pool_packet_roundtrip_witness:
  "(\<exists>s' s''. pbuf_alloc idle_lwip PBUF_RAW 1518 PBUF_POOL demo_pool = Some (8532, s') \<and> packet (pbufs s') [8532, 7000] 1518 \<and>
     pbuf_free idle_lwip 8532 s' = Some (2, s'') \<and> free_list s'' MEMP_PBUF_POOL [7000, 8532]) \<and>
   (\<exists>s'. pbuf_alloc idle_lwip PBUF_RAW 4000 PBUF_POOL demo_pool = Some (0, s') \<and> free_list s' MEMP_PBUF_POOL [7000, 8532])"
proof -
  have "callback_ok (idle_lwip :: net lwip)" by (simp add: callback_ok_def idle_lwip_def)
  note T = pool_packet_roundtrip [OF this demo_pool_free]
  have n: "buffers_for 1518 = 2" "buffers_for 4000 = 3" by (simp_all add: buffers_for_def parts_def)
  have u: "unat (1518 :: u16) = 1518" "unat (4000 :: u16) = 4000" by simp_all
  show ?thesis using T [of 1518, unfolded u n] T [of 4000, unfolded u n] by (auto simp del: packet.simps)
qed

text \<open>A chain of a buffer of three bytes at 7000 and one of two bytes at 7100.\<close>

definition demo_pbufs :: "addr \<Rightarrow> pbuf" where
  "demo_pbufs = (\<lambda>_. blank_pbuf\<lparr>pb_payload := 8000\<rparr>)
     (7000 := \<lparr>pb_next = 7100, pb_payload = 8000, pb_tot_len = 5, pb_len = 3, pb_type = PBUF_POOL, pb_flags = 0, pb_ref = 1, custom_free_function = 0\<rparr>,
      7100 := \<lparr>pb_next = 0, pb_payload = 9000, pb_tot_len = 2, pb_len = 2, pb_type = PBUF_POOL, pb_flags = 0, pb_ref = 1, custom_free_function = 0\<rparr>)"

lemma demo_chain:
  "pchain demo_pbufs 7000 [7000, 7100]" "separate demo_pbufs [7000, 7100]" "pb_tot_len (demo_pbufs 7000) = 5"
  "region demo_pbufs 7000 = {8000..<8003}" "region demo_pbufs 7100 = {9000..<9002}" "length (contents m demo_pbufs [7000, 7100]) = 5"
  "pb_payload (demo_pbufs 7000) = 8000" "pb_payload (demo_pbufs 7100) = 9000" "pb_len (demo_pbufs 7000) = 3" "pb_len (demo_pbufs 7100) = 2"
  by (auto simp: demo_pbufs_def region_def)

theorem chain_data_roundtrip_witness:
  "\<exists>m. pbuf_take 7000 100 4 ((demo_net demo_pbufs)\<lparr>mem := write_bytes 100 [1, 2, 3, 4] (\<lambda>_. 0)\<rparr>) =
       Some (ERR_OK, (demo_net demo_pbufs)\<lparr>mem := m\<rparr>) \<and>
     pbuf_copy_partial 7000 200 9 2 ((demo_net demo_pbufs)\<lparr>mem := m\<rparr>) =
       Some (3, (demo_net demo_pbufs)\<lparr>mem := write_bytes 200 [3, 4, 0] m\<rparr>)"
proof -
  let ?s = "(demo_net demo_pbufs)\<lparr>mem := write_bytes 100 [1, 2, 3, 4] (\<lambda>_. 0)\<rparr>"
  have b: "bytes_at (mem ?s) 100 4 = [1, 2, 3, 4]" using bytes_at_write [of "[1, 2, 3, 4]" 4 100 "\<lambda>_. 0"] by simp
  have c: "contents (mem ?s) demo_pbufs [7000, 7100] = [0, 0, 0, 0, 0]"
    by (simp add: demo_chain bytes_at_def write_bytes_def upt_rec)
  have "pchain (pbufs ?s) 7000 [7000, 7100]" "[7000, 7100] \<noteq> ([] :: addr list)" "separate (pbufs ?s) [7000, 7100]"
    "unat (pb_tot_len (pbufs ?s 7000)) = length (contents (mem ?s) (pbufs ?s) [7000, 7100])" "(100 :: addr) \<noteq> 0"
    "\<forall>q \<in> set [7000, 7100]. region (pbufs ?s) q \<inter> {100 ..< 100 + unat (4 :: u16)} = {}" "(200 :: addr) \<noteq> 0"
    "\<forall>q \<in> set [7000, 7100]. region (pbufs ?s) q \<inter> {200 ..< 200 + unat (9 :: u16)} = {}"
    using demo_chain by (simp_all add: demo_chain)
  note T = chain_data_roundtrip [OF this, of 2]
  have nl: "\<not> pb_tot_len (pbufs ?s 7000) < 4" and ps: "pbufs ?s = demo_pbufs" by (simp_all add: demo_chain)
  obtain m bs where m: "pbuf_take 7000 100 4 ?s = Some (ERR_OK, ?s\<lparr>mem := m\<rparr>)"
    "contents m (pbufs ?s) [7000, 7100] = bytes_at (mem ?s) 100 (unat (4 :: u16)) @ drop (unat (4 :: u16)) (contents (mem ?s) (pbufs ?s) [7000, 7100])"
    "bs = take (unat (9 :: u16)) (drop (unat (2 :: u16)) (contents m (pbufs ?s) [7000, 7100]))"
    "pbuf_copy_partial 7000 200 9 2 (?s\<lparr>mem := m\<rparr>) = Some (of_nat (length bs), ?s\<lparr>mem := write_bytes 200 bs m\<rparr>)"
    using T unfolding if_not_P [OF nl] by blast
  have u: "unat (4 :: u16) = 4" "unat (9 :: u16) = 9" "unat (2 :: u16) = 2" by simp_all
  have d: "contents m demo_pbufs [7000, 7100] = [1, 2, 3, 4, 0]" using m(2) unfolding ps u b c by (simp del: contents_simps)
  have "bs = [3, 4, 0]" using m(3) unfolding ps d u by simp
  then show ?thesis using m(1,4) by (intro exI [of _ m]) simp
qed

theorem memfind_sound_but_incomplete_witness:
  "\<exists>s p ps. contents (mem s) (pbufs (s :: net)) ps = [1, 1, 2] \<and> bytes_at (mem s) 100 2 = [1, 2] \<and>
     pbuf_memfind p 100 2 0 s = Some 0xFFFF \<and> occurs_at [1, 2] [1, 1, 2] 1"
proof -
  let ?b = "demo_pbufs(7000 := (demo_pbufs 7000)\<lparr>pb_next := 0, pb_tot_len := 3\<rparr>)"
  let ?s = "(demo_net ?b)\<lparr>mem := write_bytes 100 [1, 2] (write_bytes 8000 [1, 1, 2] (\<lambda>_. 0))\<rparr>"
  have c: "contents (mem ?s) (pbufs ?s) [7000] = [1, 1, 2]" "bytes_at (mem ?s) 100 2 = [1, 2]"
    by (simp_all add: demo_chain bytes_at_def write_bytes_def upt_rec)
  have "pchain (pbufs ?s) 7000 [7000]" "(2 :: u16) \<noteq> 0" "length (contents (mem ?s) (pbufs ?s) [7000]) < 65535"
    "unat (pb_tot_len (pbufs ?s 7000)) = length (contents (mem ?s) (pbufs ?s) [7000])"
    by (simp_all add: demo_chain)
  from memfind_sound_but_incomplete [OF this, of 100 0] c show ?thesis
    by (intro exI [of _ ?s] exI [of _ 7000] exI [of _ "[7000]"]) auto
qed

end
