(* ===== verification/Ethernet_Props.thy ===== *)
theory Ethernet_Props
  imports Ethernet_If Smsc9220_Props Lwip_Props
begin

text \<open>
  The network interface: frames come out of the receive FIFO in order and whole, a packet is written to the
  transmit FIFO in the controller's format, and the interrupt wakes the receiving task. What the controller
  does is stated by named hypotheses on the bus: what its FIFOs hold is a view of its state.
\<close>

section \<open>Words and bytes\<close>

lemma unat_small: "n < 2 ^ 32 \<Longrightarrow> unat (of_nat n :: u32) = n"
  by (simp add: unat_of_nat take_bit_nat_eq_self)

lemma bytes_word_bit:
  "bit (bytes_word bs) i \<longleftrightarrow> i < 32 \<and> i div 8 < length bs \<and> bit (bs ! (i div 8)) (i mod 8)"
proof (induction bs arbitrary: i)
  case (Cons b bs)
  show ?case
  proof (cases "i < 8")
    case True
    then show ?thesis by (auto simp: bit_or_iff bit_ucast_iff bit_push_bit_iff)
  next
    case False
    then have "bit b i = False" using bit_imp_le_length [of b i] by auto
    moreover have "i div 8 = Suc ((i - 8) div 8)" "i mod 8 = (i - 8) mod 8" using False by (simp_all add: le_div_geq le_mod_geq)
    ultimately show ?thesis using False Cons.IH [of "i - 8"] by (auto simp: bit_or_iff bit_ucast_iff bit_push_bit_iff)
  qed
qed simp

lemma length_word_bytes [simp]: "length (word_bytes w) = 4"
  by (simp add: word_bytes_def)

lemma word_bytes_nth: "j < 4 \<Longrightarrow> word_bytes w ! j = ucast (drop_bit (8 * j) w)"
  by (cases j; simp add: word_bytes_def; cases "j - 1"; simp; cases "j - 2"; simp; cases "j - 3"; simp)

lemma word_bytes_nth_bytes:
  assumes "j < length bs" "length bs \<le> 4"
  shows "word_bytes (bytes_word bs) ! j = bs ! j"
proof (rule bit_eqI)
  fix n :: nat
  assume "possible_bit TYPE(8 word) n"
  then have n: "n < 8" by simp
  then have "(8 * j + n) div 8 = j" "(8 * j + n) mod 8 = n" by simp_all
  moreover have "8 * j + n < 32" using assms n by simp
  ultimately show "bit (word_bytes (bytes_word bs) ! j) n = bit (bs ! j) n"
    using assms n by (simp add: word_bytes_nth bit_ucast_iff bit_drop_bit_eq bytes_word_bit)
qed

lemma word_bytes_word: "length bs \<le> 4 \<Longrightarrow> take (length bs) (word_bytes (bytes_word bs)) = bs"
  by (rule nth_equalityI) (simp_all add: word_bytes_nth_bytes)

lemma word_bytes_word4: "length bs = 4 \<Longrightarrow> word_bytes (bytes_word bs) = bs"
  using word_bytes_word [of bs] by simp

lemma bytes_word_zeros [simp]: "bytes_word (bs @ replicate n 0) = bytes_word bs"
  by (rule bit_eqI) (auto simp: bytes_word_bit nth_append nth_replicate)

text \<open>The words of a sequence of bytes, the last one filled up with zeros.\<close>

fun frame_words :: "u8 list \<Rightarrow> u32 list" where
  "frame_words [] = []"
| "frame_words (b # bs) = bytes_word (take 4 (b # bs)) # frame_words (drop 4 (b # bs))"

lemma frame_words_step: "bs \<noteq> [] \<Longrightarrow> frame_words bs = bytes_word (take 4 bs) # frame_words (drop 4 bs)"
  by (cases bs) simp_all

declare frame_words.simps(2) [simp del]

lemma frame_words_nil [simp]: "frame_words bs = [] \<longleftrightarrow> bs = []"
  by (cases bs) (simp_all add: frame_words.simps)

section \<open>Reception\<close>

text \<open>
  The receive side of the controller: a FIFO of status words and a FIFO of data words. The information
  register tells the bytes used in the data FIFO, the two ports take the first element. Other registers that
  the receiving task uses leave the FIFOs alone.
\<close>

definition rx_hw :: "'d bus \<Rightarrow> ('d \<Rightarrow> u32 list) \<Rightarrow> ('d \<Rightarrow> u32 list) \<Rightarrow> bool" where
  "rx_hw B sts dat \<longleftrightarrow>
     (\<forall>c. length (dat c) < 2 ^ 14 \<longrightarrow> GET_BIT_FIELD 0xFFFF 0 (fst (bus_read B rx_fifo_inf c)) = of_nat (4 * length (dat c))) \<and>
     (\<forall>c. fst (bus_read B rx_status_port c) = (case sts c of [] \<Rightarrow> 0 | x # xs \<Rightarrow> x) \<and>
        sts (snd (bus_read B rx_status_port c)) = tl (sts c) \<and> dat (snd (bus_read B rx_status_port c)) = dat c) \<and>
     (\<forall>c. fst (bus_read B rx_data_port c) = (case dat c of [] \<Rightarrow> 0 | w # ws \<Rightarrow> w) \<and>
        dat (snd (bus_read B rx_data_port c)) = tl (dat c) \<and> sts (snd (bus_read B rx_data_port c)) = sts c) \<and>
     (\<forall>c. \<forall>r \<in> {rx_fifo_inf, rx_status_peek, irq_enable}. sts (snd (bus_read B r c)) = sts c \<and> dat (snd (bus_read B r c)) = dat c) \<and>
     (\<forall>c v. sts (bus_write B irq_enable v c) = sts c \<and> dat (bus_write B irq_enable v c) = dat c)"

text \<open>The FIFOs hold these frames: the length of each is in a field of its status word.\<close>

definition status_of :: "u32 \<Rightarrow> u8 list \<Rightarrow> bool" where
  "status_of x f \<longleftrightarrow> GET_BIT_FIELD 0x3FFF 16 x = of_nat (length f)"

definition holds_frames :: "u8 list list \<Rightarrow> u32 list \<Rightarrow> u32 list \<Rightarrow> bool" where
  "holds_frames fs st da \<longleftrightarrow> list_all2 status_of st fs \<and> da = concat (map frame_words fs)"

lemma rx_hwD:
  assumes "rx_hw B sts dat"
  shows "length (dat c) < 2 ^ 14 \<Longrightarrow> GET_BIT_FIELD 0xFFFF 0 (fst (bus_read B rx_fifo_inf c)) = of_nat (4 * length (dat c))"
    "fst (bus_read B rx_status_port c) = (case sts c of [] \<Rightarrow> 0 | x # xs \<Rightarrow> x)"
    "sts (snd (bus_read B rx_status_port c)) = tl (sts c)" "dat (snd (bus_read B rx_status_port c)) = dat c"
    "fst (bus_read B rx_data_port c) = (case dat c of [] \<Rightarrow> 0 | w # ws \<Rightarrow> w)"
    "dat (snd (bus_read B rx_data_port c)) = tl (dat c)" "sts (snd (bus_read B rx_data_port c)) = sts c"
    "sts (snd (bus_read B rx_fifo_inf c)) = sts c" "dat (snd (bus_read B rx_fifo_inf c)) = dat c"
    "sts (snd (bus_read B rx_status_peek c)) = sts c" "dat (snd (bus_read B rx_status_peek c)) = dat c"
    "sts (snd (bus_read B irq_enable c)) = sts c" "dat (snd (bus_read B irq_enable c)) = dat c"
    "sts (bus_write B irq_enable v c) = sts c" "dat (bus_write B irq_enable v c) = dat c"
  using assms unfolding rx_hw_def by simp_all

lemma read_words_takes:
  assumes hw: "rx_hw B sts dat"
  shows "dat (chip d) = ws @ rest \<Longrightarrow> length ws = n \<Longrightarrow> \<exists>d'. run_state (read_words B n) d = (concat (map word_bytes ws), d') \<and>
     dat (chip d') = rest \<and> sts (chip d') = sts (chip d)"
proof (induction n arbitrary: d ws)
  case (Suc n)
  then obtain w ws' where w: "ws = w # ws'" "length ws' = n" by (cases ws) auto
  let ?d = "d\<lparr>chip := snd (bus_read B rx_data_port (chip d))\<rparr>"
  have "dat (chip ?d) = ws' @ rest" using Suc.prems by (simp add: rx_hwD [OF hw] w)
  from Suc.IH [OF this w(2)] show ?case
    using Suc.prems(1) by (auto simp: rx_hwD [OF hw] w)
qed simp

lemma concat_frame_words:
  assumes "length bs mod 4 = 0"
  shows "concat (map word_bytes (frame_words bs)) = bs"
  using assms
proof (induction bs rule: length_induct)
  case (1 bs)
  show ?case
  proof (cases "bs = []")
    case False
    then have l: "4 \<le> length bs" using 1(2) by (cases "length bs < 4") auto
    then have "concat (map word_bytes (frame_words (drop 4 bs))) = drop 4 bs"
      using 1 False by (auto simp: le_mod_geq)
    then show ?thesis using False l by (simp add: frame_words_step word_bytes_word4)
  qed simp
qed

lemma frame_words_append: "length as mod 4 = 0 \<Longrightarrow> frame_words (as @ bs) = frame_words as @ frame_words bs"
proof (induction as rule: length_induct)
  case (1 as)
  show ?case
  proof (cases "as = []")
    case False
    then have l: "4 \<le> length as" using 1(2) by (cases "length as < 4") auto
    then have "frame_words (drop 4 as @ bs) = frame_words (drop 4 as) @ frame_words bs"
      using 1 False by (auto simp: le_mod_geq)
    then show ?thesis using False l by (simp add: frame_words_step)
  qed simp
qed

lemma length_frame_words: "length (frame_words bs) = (length bs + 3) div 4"
proof (induction bs rule: length_induct)
  case (1 bs)
  show ?case
  proof (cases "bs = []")
    case False
    then have "length (frame_words (drop 4 bs)) = (length bs - 4 + 3) div 4" using 1 by auto
    moreover have "Suc ((n - 4 + 3) div 4) = (n + 3) div 4" if "0 < n" for n :: nat
    proof (cases "4 \<le> n")
      case True
      then have "n + 3 = (n - 4 + 3) + 4" by simp
      then show ?thesis by simp
    next
      case False
      then have "n \<in> {1, 2, 3}" using that by auto
      then show ?thesis by auto
    qed
    ultimately show ?thesis using False by (simp add: frame_words_step)
  qed simp
qed

text \<open>The words of a frame: the whole ones, and one for the rest.\<close>

lemma frame_words_split:
  fixes bs :: "u8 list"
  defines "r \<equiv> length bs mod 4"
  defines "m \<equiv> length bs - r"
  shows "frame_words bs = frame_words (take m bs) @ (if r = 0 then [] else [bytes_word (drop m bs)])"
    "length (frame_words (take m bs)) = length bs div 4" "concat (map word_bytes (frame_words (take m bs))) = take m bs"
proof -
  have m: "length (take m bs) = m" "m mod 4 = 0" "length (drop m bs) = r" "m div 4 = length bs div 4"
    by (simp_all add: m_def r_def minus_mod_eq_mult_div [symmetric], simp_all add: minus_mod_eq_mult_div)
  have "frame_words (take m bs @ drop m bs) = frame_words (take m bs) @ frame_words (drop m bs)"
    by (rule frame_words_append) (simp only: m(1,2))
  moreover have "frame_words (drop m bs) = (if r = 0 then [] else [bytes_word (drop m bs)])"
    using m(3) by (cases "drop m bs = []") (auto simp: frame_words_step r_def)
  ultimately show "frame_words bs = frame_words (take m bs) @ (if r = 0 then [] else [bytes_word (drop m bs)])"
    unfolding append_take_drop_id by simp
  show "length (frame_words (take m bs)) = length bs div 4"
    using m(2) by (simp only: length_frame_words m(1) flip: m(4)) (simp add: div_add1_eq [of m 3 4])
  show "concat (map word_bytes (frame_words (take m bs))) = take m bs"
    by (rule concat_frame_words) (simp only: m(1,2))
qed

lemma receive_takes_frame:
  assumes hw: "rx_hw B sts dat" and d: "dat (chip d) = frame_words f @ rest" and f: "length f < 2 ^ 14"
  obtains d' where "run_state (smsc9220_receive_by_chunks B True (of_nat (length f))) d = ((f, of_nat (length f)), d')"
    "dat (chip d') = (if length f mod 4 = 0 then tl rest else rest)" "sts (chip d') = sts (chip d)"
proof -
  define r where "r = length f mod 4"
  define m where "m = length f - r"
  note S = frame_words_split [of f, folded r_def, folded m_def]
  let ?d0 = "d\<lparr>current_rx_size_words := of_nat (length f)\<rparr>"
  have n: "unat (of_nat (length f) :: u32) = length f" using f by (intro unat_small) simp
  obtain d1 where d1: "run_state (read_words B (length f div 4)) ?d0 = (take m f, d1)"
    "dat (chip d1) = (if r = 0 then [] else [bytes_word (drop m f)]) @ rest" "sts (chip d1) = sts (chip d)"
    using read_words_takes [OF hw, of ?d0 "frame_words (take m f)" "(if r = 0 then [] else [bytes_word (drop m f)]) @ rest"] d S
    by fastforce
  let ?d2 = "d1\<lparr>chip := snd (bus_read B rx_data_port (chip d1))\<rparr>"
  have "length (drop m f) = r" "r \<le> 4" by (simp_all add: m_def r_def)
  then have "take m f @ take r (word_bytes (fst (bus_read B rx_data_port (chip d1)))) = f"
    using word_bytes_word [of "drop m f"] by (cases "r = 0") (auto simp: rx_hwD [OF hw] d1(2))
  then have "run_state (empty_rx_fifo B (of_nat (length f))) ?d0 = (f, ?d2)"
    by (simp add: empty_rx_fifo_def n d1(1) flip: r_def)
  then show ?thesis
    by (intro that [of "?d2\<lparr>current_rx_size_words := 0\<rparr>"])
      (simp_all add: smsc9220_receive_by_chunks_def Let_def rx_hwD [OF hw] d1(2,3) flip: r_def)
qed


text \<open>A frame that is received whole: it fits one buffer of the pool, and its length is not a multiple of four.\<close>

definition good_frame :: "u8 list \<Rightarrow> bool" where
  "good_frame f \<longleftrightarrow> length f \<le> PBUF_POOL_BUFSIZE_ALIGNED \<and> length f mod 4 \<noteq> 0"

abbreviation dev_chip :: "('d, 'z) eth_scheme \<Rightarrow> 'd" where
  "dev_chip s \<equiv> chip (SMSC9220_ETH_DEV s)"

lemma peek_empty:
  assumes hw: "rx_hw B sts dat" and d: "dat (chip d) = []"
  shows "run_state (smsc9220_peek_next_packet_size B) d = (0, d\<lparr>chip := snd (bus_read B rx_fifo_inf (chip d))\<rparr>)"
  using rx_hwD(1) [OF hw, of "chip d"] d
  by (simp add: smsc9220_peek_next_packet_size_def smsc9220_get_rxfifo_data_used_space_def)

lemma peek_frame:
  assumes hw: "rx_hw B sts dat" and d: "holds_frames (f # fs) (sts (chip d)) (dat (chip d))" and f: "f \<noteq> []"
    and l: "length (dat (chip d)) < 2 ^ 14"
  obtains d' where "run_state (smsc9220_peek_next_packet_size B) d = (of_nat (length f), d')"
    "sts (chip d') = tl (sts (chip d))" "dat (chip d') = dat (chip d)"
proof -
  obtain x xs where x: "sts (chip d) = x # xs" "status_of x f" using d by (auto simp: holds_frames_def list_all2_Cons2)
  let ?c1 = "snd (bus_read B rx_fifo_inf (chip d))"
  let ?c2 = "snd (bus_read B rx_status_peek ?c1)"
  have "0 < length (dat (chip d))" using d f by (simp add: holds_frames_def)
  then have n: "unat (of_nat (4 * length (dat (chip d))) :: u32) = 4 * length (dat (chip d))" using l by (intro unat_small) simp
  then have u: "GET_BIT_FIELD 0xFFFF 0 (fst (bus_read B rx_fifo_inf (chip d))) \<noteq> 0"
    unfolding rx_hwD(1) [OF hw l] using n \<open>0 < length (dat (chip d))\<close> by (metis unat_0 mult_is_0 less_numeral_extra(3) zero_neq_numeral)
  show ?thesis
    by (rule that [of "d\<lparr>chip := snd (bus_read B rx_status_port ?c2)\<rparr>"])
      (use x u in \<open>simp_all add: smsc9220_peek_next_packet_size_def smsc9220_get_rxfifo_data_used_space_def rx_hwD [OF hw] status_of_def\<close>)
qed

text \<open>
  What the interface relies on in the input function of lwIP, which queues the buffer for the TCP thread: it
  leaves the driver's data, the buffers and the pools alone. And at least \<open>n\<close> buffers are free in the pool.
\<close>

definition input_ok :: "('d, 'z) eth_scheme lwip \<Rightarrow> bool" where
  "input_ok L \<longleftrightarrow> (\<forall>p n s. SMSC9220_ETH_DEV (snd (netif_input L p n s)) = SMSC9220_ETH_DEV s \<and>
     pbufs (snd (netif_input L p n s)) = pbufs s \<and> memp_tab (snd (netif_input L p n s)) = memp_tab s)"

definition pool_has :: "nat \<Rightarrow> 'a net_scheme \<Rightarrow> bool" where
  "pool_has n s \<longleftrightarrow> (\<exists>fs. free_list s MEMP_PBUF_POOL fs \<and> n \<le> length fs)"

lemma pool_has_cong: "pbufs s' = pbufs s \<Longrightarrow> memp_tab s' = memp_tab s \<Longrightarrow> pool_has n s' = pool_has n s"
  by (simp add: pool_has_def free_list_def)

lemma bytes_at_write_bytes: "n = length bs \<Longrightarrow> bytes_at (write_bytes a bs m) a n = bs"
  by (rule nth_equalityI) (simp_all add: bytes_at_def write_bytes_def)

lemma net_more_eth: "net.more s' = net.more (s :: ('d, 'z) eth_scheme) \<Longrightarrow> SMSC9220_ETH_DEV s' = SMSC9220_ETH_DEV s"
  by (cases s; cases s') simp

lemma upd_pbuf_eth [simp]: "SMSC9220_ETH_DEV (upd_pbuf p f s) = SMSC9220_ETH_DEV s"
  by (simp add: upd_pbuf_def)

text \<open>One buffer of the pool holds a packet of up to 1516 bytes.\<close>

lemma alloc_one:
  fixes s :: "'a net_scheme"
  assumes f: "free_list s MEMP_PBUF_POOL (p # fs)" and n: "unat len \<le> 1516"
  obtains s' where "pbuf_alloc L PBUF_RAW len PBUF_POOL s = Some (p, s')" "free_list s' MEMP_PBUF_POOL fs" "only_bufs s s'"
    "pool_buf (pbufs s' p)" "pb_payload (pbufs s' p) = p + 16" "pb_next (pbufs s' p) = 0" "p \<noteq> 0" "p mod 4 = 0" "p \<notin> set fs"
proof -
  have b: "length [p] = buffers_for (unat len)" using n by (simp add: buffers_for_def)
  have f': "free_list s MEMP_PBUF_POOL ([p] @ fs)" using f by simp
  obtain s' where s': "pbuf_alloc L PBUF_RAW len PBUF_POOL s = Some (hd [p], s')" "packet (pbufs s') [p] (unat len)"
    "free_list s' MEMP_PBUF_POOL fs" "only_bufs s s'"
    by (rule pbuf_alloc_pool_ok [OF f' b]) blast
  show ?thesis
    by (rule that [of s']) (use s' malloc_cons(3-5) [OF f] in \<open>simp_all add: pool_part_def\<close>)
qed

lemma free_one:
  fixes s :: "'a net_scheme"
  assumes f: "free_list s MEMP_PBUF_POOL fs" and p: "p \<noteq> 0" "p mod 4 = 0" "p \<notin> set fs" "pool_buf (pbufs s p)" "pb_next (pbufs s p) = 0"
  obtains s' where "pbuf_free L p s = Some (1, s')" "free_list s' MEMP_PBUF_POOL (p # fs)" "only_bufs s s'"
proof -
  have c: "pchain (pbufs s) p [p]" "distinct [p]" "\<forall>q \<in> set [p]. pool_buf (pbufs s q) \<and> q mod 4 = 0" "set [p] \<inter> set fs = {}"
    using p by simp_all
  obtain s' where s': "free_loop L p 0 s = Some (0 + of_nat (length [p]), s')" "free_list s' MEMP_PBUF_POOL (rev [p] @ fs)" "only_bufs s s'"
    by (rule free_loop_pool [OF c(1-3) f c(4)])
  show ?thesis by (rule that [of s']) (use s' p(1) in \<open>simp_all add: pbuf_free_def\<close>)
qed

text \<open>Handing a buffer to the input function, which takes it or has it freed again.\<close>

lemma input_or_free:
  fixes s :: "('d, 'z) eth_scheme"
  assumes L: "input_ok L" and f: "free_list s MEMP_PBUF_POOL fs"
    and p: "p \<noteq> 0" "p mod 4 = 0" "p \<notin> set fs" "pool_buf (pbufs s p)" "pb_next (pbufs s p) = 0"
  obtains s' where "(let (err, s) = netif_input L p netif s in if err \<noteq> ERR_OK then map_option snd (pbuf_free L p s) else Some s) = Some s'"
    "SMSC9220_ETH_DEV s' = SMSC9220_ETH_DEV s" "pool_has (length fs) s'"
proof -
  obtain err s1 where i: "netif_input L p netif s = (err, s1)" by fastforce
  have s1: "SMSC9220_ETH_DEV s1 = SMSC9220_ETH_DEV s" "pbufs s1 = pbufs s" "memp_tab s1 = memp_tab s"
    using L i unfolding input_ok_def by (metis snd_conv)+
  have f1: "free_list s1 MEMP_PBUF_POOL fs" using f s1 by (simp add: free_list_def)
  show ?thesis
  proof (cases "err = ERR_OK")
    case True
    show ?thesis by (rule that [of s1]) (use True i s1(1) f1 in \<open>auto simp: pool_has_def\<close>)
  next
    case False
    obtain s2 where s2: "pbuf_free L p s1 = Some (1, s2)" "free_list s2 MEMP_PBUF_POOL (p # fs)" "only_bufs s1 s2"
      by (rule free_one [OF f1 p(1-3), of L]) (use p(4,5) s1(2) in simp_all)
    have "pool_has (length fs) s2" unfolding pool_has_def by (rule exI [of _ "p # fs"]) (use s2(2) in simp)
    then show ?thesis
      by (intro that [of s2]) (use False i s2(1) net_more_eth [OF only_bufsD(2) [OF s2(3)]] s1(1) in simp_all)
  qed
qed

lemma rx_packet_hands_frame:
  fixes s :: "('d, 'z) eth_scheme"
  assumes hw: "rx_hw B sts dat" and L: "input_ok L" and m: "pool_has (Suc m) s" and f: "good_frame f"
    and d: "dat (dev_chip s) = frame_words f @ rest"
  obtains p s' where "rx_packet B L netif (of_nat (length f)) s = Some ([(p, f)], s')" "dat (dev_chip s') = rest"
    "sts (dev_chip s') = sts (dev_chip s)" "pool_has m s'"
proof -
  obtain p fs where fs: "free_list s MEMP_PBUF_POOL (p # fs)" "m \<le> length fs"
    using m by (auto simp: pool_has_def Suc_le_length_iff)
  let ?n = "of_nat (length f) :: u32"
  have fl: "length f \<le> 1516" "length f < 2 ^ 14" "length f mod 4 \<noteq> 0" using f by (simp_all add: good_frame_def)
  have len: "unat (ucast ?n :: u16) = length f"
    using fl(2) by (simp add: unsigned_ucast_eq unat_small take_bit_nat_eq_self)
  have n1: "unat (ucast ?n :: u16) \<le> 1516" using fl(1) unfolding len .
  obtain s1 where s1: "pbuf_alloc L PBUF_RAW (ucast ?n) PBUF_POOL s = Some (p, s1)" "free_list s1 MEMP_PBUF_POOL fs" "only_bufs s s1"
    "pool_buf (pbufs s1 p)" "pb_payload (pbufs s1 p) = p + 16" "pb_next (pbufs s1 p) = 0" "p \<noteq> 0" "p mod 4 = 0" "p \<notin> set fs"
    by (rule alloc_one [OF fs(1) n1])
  have dev: "SMSC9220_ETH_DEV s1 = SMSC9220_ETH_DEV s" by (rule net_more_eth [OF only_bufsD(2) [OF s1(3)]])
  obtain d' where d': "run_state (smsc9220_receive_by_chunks B True ?n) (SMSC9220_ETH_DEV s) = ((f, ?n), d')"
    "dat (chip d') = rest" "sts (chip d') = sts (dev_chip s)"
    by (rule receive_takes_frame [OF hw d fl(2)]) (use fl in simp)
  define s2 where "s2 = upd_pbuf p (\<lambda>b. b\<lparr>pb_tot_len := ucast ?n\<rparr>) (upd_pbuf p (\<lambda>b. b\<lparr>pb_len := ucast ?n\<rparr>)
    (s1\<lparr>SMSC9220_ETH_DEV := d', mem := write_bytes (p + 16) f (mem s1)\<rparr>))"
  have f2: "free_list s2 MEMP_PBUF_POOL fs"
    using s1(2,9) free_list_cong [of fs s2 s1 MEMP_PBUF_POOL] by (force simp: s2_def)
  obtain s' where s': "(let (err, s) = netif_input L p netif s2 in if err \<noteq> ERR_OK then map_option snd (pbuf_free L p s) else Some s) = Some s'"
    "SMSC9220_ETH_DEV s' = SMSC9220_ETH_DEV s2" "pool_has (length fs) s'"
    by (rule input_or_free [OF L f2 s1(7-9)]) (use s1(4,6) in \<open>simp_all add: s2_def pool_buf_def\<close>)
  have h: "bytes_at (mem s2) (pb_payload (pbufs s2 p)) (unat (pb_len (pbufs s2 p))) = f"
    by (simp add: s2_def s1(5) len bytes_at_write_bytes)
  have "rx_packet B L netif ?n s = Some ([(p, f)], s')"
    using s'(1) s1(7) h
    by (auto simp: rx_packet_def s1(1,5) on_dev_def dev d'(1) Let_def split_beta len bytes_at_write_bytes split: if_splits simp flip: s2_def)
  moreover have "pool_has m s'" using s'(3) fs(2) by (auto simp: pool_has_def intro: le_trans)
  ultimately show ?thesis by (intro that) (use s'(2) d'(2,3) in \<open>simp_all add: s2_def\<close>)
qed


text \<open>The kernel functions of the task leave the other state alone.\<close>

lemma upd_more [simp]:
  "sched.more (upd_lists f k) = sched.more k" "sched.more (upd_tcb t g k) = sched.more k"
  "sched.more (set_nstate t x n k) = sched.more k" "sched.more (set_nvalue t x v k) = sched.more k"
  by (simp_all add: upd_lists_def upd_tcb_def set_nstate_def set_nvalue_def)

lemma list_remove_more: "list_remove i k = Some (n, k') \<Longrightarrow> sched.more k' = sched.more k"
  by (auto simp: list_remove_def)

lemma remove_item_more: "listREMOVE_ITEM i k = Some k' \<Longrightarrow> sched.more k' = sched.more k"
  by (auto simp: listREMOVE_ITEM_def list_remove_more)

lemma remove_contained_more: "remove_if_contained i k = Some k' \<Longrightarrow> sched.more k' = sched.more k"
  by (auto simp: remove_if_contained_def remove_item_more split: if_splits)

lemma add_ready_more [simp]: "sched.more (prvAddTaskToReadyList t k) = sched.more k"
  by (simp add: prvAddTaskToReadyList_def Let_def)

lemmas option_step = bind_eq_Some_conv Let_def split_beta

lemma unblock_loop_more:
  assumes "unblock_loop now sw k = Some r"
  shows "sched.more (snd r) = sched.more k"
  by (rule unblock_loop.raw_induct [where P = "\<lambda>now sw k r. sched.more (snd r) = sched.more k", OF _ assms])
    (auto simp: option_step dest!: remove_item_more remove_contained_more split: list.splits if_splits)

lemma pending_loop_more:
  assumes "pending_loop b k = Some r"
  shows "sched.more (snd r) = sched.more k"
  by (rule pending_loop.raw_induct [where P = "\<lambda>b k r. sched.more (snd r) = sched.more k", OF _ assms])
    (fastforce simp: option_step dest!: remove_item_more split: list.splits if_splits)

lemma reset_more [simp]: "sched.more (prvResetNextTaskUnblockTime k) = sched.more k"
  by (simp add: prvResetNextTaskUnblockTime_def)

lemma switch_lists_more: "taskSWITCH_DELAYED_LISTS k = Some k' \<Longrightarrow> sched.more k' = sched.more k"
  by (auto simp: taskSWITCH_DELAYED_LISTS_def option_step)

lemma tick_more:
  assumes "xTaskIncrementTick k = Some r"
  shows "sched.more (snd r) = sched.more k"
proof (cases "uxSchedulerSuspended k = 0")
  case True
  let ?now = "xTickCount k + 1"
  obtain k1 q where k1: "(if ?now = 0 then taskSWITCH_DELAYED_LISTS (k\<lparr>xTickCount := ?now\<rparr>) else Some (k\<lparr>xTickCount := ?now\<rparr>)) = Some k1"
    and q: "(if ?now \<ge> xNextTaskUnblockTime k1 then unblock_loop ?now False k1 else Some (False, k1)) = Some q" "snd r = snd q"
    using assms True by (auto simp: xTaskIncrementTick_def option_step simp del: split_paired_Ex)
  have "sched.more k1 = sched.more k"
    using k1 by (cases "?now = 0") (auto dest: switch_lists_more)
  moreover have "sched.more (snd q) = sched.more k1"
    using q(1) by (cases "?now \<ge> xNextTaskUnblockTime k1") (auto dest: unblock_loop_more)
  ultimately show ?thesis by (simp add: q(2))
qed (use assms in \<open>auto simp: xTaskIncrementTick_def\<close>)

lemma pended_loop_more: "pended_loop n k = Some k' \<Longrightarrow> sched.more k' = sched.more k"
proof (induction n arbitrary: k)
  case (Suc n)
  then obtain sw k1 where k1: "xTaskIncrementTick k = Some (sw, k1)"
    "pended_loop n (if sw then k1\<lparr>xYieldPending := True\<rparr> else k1) = Some k'"
    by (auto simp: bind_eq_Some_conv)
  from Suc.IH [OF k1(2)] tick_more [OF k1(1)] show ?case by (cases sw) simp_all
qed simp

lemma resume_all_more:
  assumes "xTaskResumeAll k = Some r"
  shows "sched.more (snd r) = sched.more k"
proof (cases "uxSchedulerSuspended k - 1 = 0 \<and> uxCurrentNumberOfTasks k > 0")
  case True
  let ?k = "k\<lparr>uxSchedulerSuspended := uxSchedulerSuspended k - 1\<rparr>"
  obtain m k1 where m: "pending_loop False ?k = Some (m, k1)"
    using assms True by (auto simp: xTaskResumeAll_def option_step)
  define k2 where "k2 = (if m then prvResetNextTaskUnblockTime k1 else k1)"
  let ?m = "if xPendedTicks k2 > 0 then map_option (\<lambda>k. k\<lparr>xPendedTicks := 0\<rparr>) (pended_loop (unat (xPendedTicks k2)) k2) else Some k2"
  have "?m \<bind> (\<lambda>k. if xYieldPending k then Some (True, portYIELD k) else Some (False, k)) = Some r"
    using assms True m by (simp add: xTaskResumeAll_def Let_def k2_def split: if_splits)
  then obtain k3 where k3: "?m = Some k3" "(if xYieldPending k3 then Some (True, portYIELD k3) else Some (False, k3)) = Some r"
    unfolding bind_eq_Some_conv by blast
  then have r: "snd r = (if xYieldPending k3 then portYIELD k3 else k3)" by (auto split: if_splits)
  have "sched.more k2 = sched.more k" using pending_loop_more [OF m] by (simp add: k2_def)
  moreover have "sched.more k3 = sched.more k2"
    using k3(1) by (cases "xPendedTicks k2 > 0") (auto dest: pended_loop_more)
  ultimately show ?thesis by (simp add: r portYIELD_def)
qed (use assms in \<open>auto simp: xTaskResumeAll_def option_step split: if_splits\<close>)

lemma add_delayed_more: "prvAddCurrentTaskToDelayedList w b k = Some k' \<Longrightarrow> sched.more k' = sched.more k"
  by (auto simp: prvAddCurrentTaskToDelayedList_def remove_reset_priority_def option_step dest!: list_remove_more split: if_splits)

lemma take_enter_more:
  assumes "ulTaskGenericNotifyTake_enter x w k = Some k'"
  shows "sched.more k' = sched.more k"
proof (cases "nvalue k (pxCurrentTCB k) x = 0 \<and> w > 0")
  case True
  let ?k = "set_nstate (pxCurrentTCB k) x taskWAITING_NOTIFICATION (vTaskSuspendAll k)"
  obtain k1 y k2 where k1: "prvAddCurrentTaskToDelayedList w True ?k = Some k1" "xTaskResumeAll k1 = Some (y, k2)"
    "k' = (if \<not> y then portYIELD k2 else k2)"
    using assms True by (auto simp: ulTaskGenericNotifyTake_enter_def notify_block_def vTaskSuspendAll_def option_step)
  show ?thesis using add_delayed_more [OF k1(1)] resume_all_more [OF k1(2)] by (simp add: k1(3) portYIELD_def vTaskSuspendAll_def)
qed (use assms in \<open>auto simp: ulTaskGenericNotifyTake_enter_def option_step\<close>)

lemma take_exit_more [simp]: "sched.more (snd (ulTaskGenericNotifyTake_exit x c k)) = sched.more k"
  by (simp add: ulTaskGenericNotifyTake_exit_def Let_def)

lemma more_eth: "sched.more s' = sched.more (s :: ('d, 'z) eth_scheme) \<Longrightarrow> SMSC9220_ETH_DEV s' = SMSC9220_ETH_DEV s"
  by (cases s; cases s') simp

lemma more_net: "sched.more s' = sched.more (s :: 'a net_scheme) \<Longrightarrow> pbufs s' = pbufs s \<and> memp_tab s' = memp_tab s"
  by (cases s; cases s') simp


text \<open>
  Runs of the receiving task. Between its steps the rest of the system may do anything with the state, as
  long as the controller's FIFOs only get new frames at their ends and whenever the task looks for a frame
  the pool has a free buffer. \<open>arrived\<close> are the frames that came so far, \<open>handed\<close> the ones given to lwIP.
\<close>

inductive rx_run :: "'d bus \<Rightarrow> ('d, 'z) eth_scheme lwip \<Rightarrow> addr \<Rightarrow> ('d \<Rightarrow> u32 list) \<Rightarrow> ('d \<Rightarrow> u32 list) \<Rightarrow>
    u8 list list \<Rightarrow> u8 list list \<Rightarrow> rx_pc \<Rightarrow> ('d, 'z) eth_scheme \<Rightarrow> bool" for B L netif sts dat where
  run_start: "sts (dev_chip s) = [] \<Longrightarrow> dat (dev_chip s) = [] \<Longrightarrow> rx_run B L netif sts dat [] [] Rx_Wait s"
| run_other: "rx_run B L netif sts dat arrived handed pc s \<Longrightarrow> holds_frames fs st da \<Longrightarrow> list_all good_frame fs \<Longrightarrow>
    sts (dev_chip s') = sts (dev_chip s) @ st \<Longrightarrow> dat (dev_chip s') = dat (dev_chip s) @ da \<Longrightarrow>
    length (dat (dev_chip s')) < 2 ^ 14 \<Longrightarrow> rx_run B L netif sts dat (arrived @ fs) handed pc s'"
| run_task: "rx_run B L netif sts dat arrived handed pc s \<Longrightarrow> (pc = Rx_Peek \<longrightarrow> pool_has 1 s) \<Longrightarrow>
    ethernetif_input_task B L netif (pc, s) = Some (h, pc', s') \<Longrightarrow>
    rx_run B L netif sts dat arrived (handed @ map snd h) pc' s'"

text \<open>The FIFOs hold frames that can be read whole.\<close>

definition rx_fifo :: "('d \<Rightarrow> u32 list) \<Rightarrow> ('d \<Rightarrow> u32 list) \<Rightarrow> u8 list list \<Rightarrow> ('d, 'z) eth_scheme \<Rightarrow> bool" where
  "rx_fifo sts dat fs s \<longleftrightarrow> holds_frames fs (sts (dev_chip s)) (dat (dev_chip s)) \<and> list_all good_frame fs \<and>
     length (dat (dev_chip s)) < 2 ^ 14"

lemma holds_frames_append:
  "holds_frames fs st da \<Longrightarrow> holds_frames gs st' da' \<Longrightarrow> holds_frames (fs @ gs) (st @ st') (da @ da')"
  by (auto simp: holds_frames_def intro: list_all2_appendI)

lemma peek_step_frame:
  assumes hw: "rx_hw B sts dat" and L: "input_ok L" "pool_has (Suc m) s" and s: "rx_fifo sts dat (f # fs) s"
  obtains p s' where "ethernetif_input_task B L netif (Rx_Peek, s) = Some ([(p, f)], Rx_Peek, s')" "rx_fifo sts dat fs s'" "pool_has m s'"
proof -
  let ?d = "SMSC9220_ETH_DEV s"
  have h: "holds_frames (f # fs) (sts (chip ?d)) (dat (chip ?d))" "length (dat (chip ?d)) < 2 ^ 14"
    and f: "good_frame f" "list_all good_frame fs" using s by (simp_all add: rx_fifo_def)
  have "f \<noteq> []" using f(1) by (auto simp: good_frame_def)
  obtain d' where d': "run_state (smsc9220_peek_next_packet_size B) ?d = (of_nat (length f), d')"
    "sts (chip d') = tl (sts (chip ?d))" "dat (chip d') = dat (chip ?d)"
    by (rule peek_frame [OF hw h(1) \<open>f \<noteq> []\<close> h(2)])
  let ?s = "s\<lparr>SMSC9220_ETH_DEV := d'\<rparr>"
  have da: "dat (dev_chip ?s) = frame_words f @ concat (map frame_words fs)" using h(1) d'(3) by (simp add: holds_frames_def)
  have m: "pool_has (Suc m) ?s" using L(2) by (simp add: pool_has_def free_list_def)
  obtain p s' where s': "rx_packet B L netif (of_nat (length f)) ?s = Some ([(p, f)], s')" "dat (dev_chip s') = concat (map frame_words fs)"
    "sts (dev_chip s') = sts (dev_chip ?s)" "pool_has m s'"
    by (rule rx_packet_hands_frame [OF hw L(1) m f(1) da])
  have "unat (of_nat (length f) :: u32) = length f" using f(1) by (intro unat_small) (simp add: good_frame_def)
  then have pos: "(0 :: u32) < of_nat (length f)" using \<open>f \<noteq> []\<close> by (metis length_greater_0_conv unat_0 word_less_nat_alt)
  show ?thesis
  proof (rule that)
    show "ethernetif_input_task B L netif (Rx_Peek, s) = Some ([(p, f)], Rx_Peek, s')"
      using d'(1) s'(1) pos by (simp add: on_dev_def)
    show "rx_fifo sts dat fs s'"
      using h f(2) s'(2,3) d'(2) by (auto simp: rx_fifo_def holds_frames_def list_all2_Cons2)
    show "pool_has m s'" by (rule s'(4))
  qed
qed

lemma peek_step_empty:
  assumes hw: "rx_hw B sts dat" and s: "rx_fifo sts dat [] s"
  obtains s' where "ethernetif_input_task B L netif (Rx_Peek, s) = Some ([], Rx_Enable, s')" "rx_fifo sts dat [] s'"
proof -
  let ?d = "SMSC9220_ETH_DEV s"
  have e: "dat (chip ?d) = []" "sts (chip ?d) = []" using s by (simp_all add: rx_fifo_def holds_frames_def)
  show ?thesis
    by (rule that [of "s\<lparr>SMSC9220_ETH_DEV := ?d\<lparr>chip := snd (bus_read B rx_fifo_inf (chip ?d))\<rparr>\<rparr>"])
      (use e in \<open>simp_all add: on_dev_def peek_empty [OF hw e(1)] rx_fifo_def holds_frames_def rx_hwD [OF hw]\<close>)
qed

lemma rx_fifo_cong: "SMSC9220_ETH_DEV s' = SMSC9220_ETH_DEV s \<Longrightarrow> rx_fifo sts dat fs s' = rx_fifo sts dat fs s"
  by (simp add: rx_fifo_def)

lemma enable_step:
  assumes hw: "rx_hw B sts dat" and s: "rx_fifo sts dat fs s"
  shows "\<exists>s'. ethernetif_input_task B L netif (Rx_Enable, s) = Some ([], Rx_Wait, s') \<and> rx_fifo sts dat fs s'"
  using s by (simp add: on_dev_def smsc9220_enable_interrupt_def update_reg_def rx_fifo_def rx_hwD [OF hw])

lemma rx_run_fifo:
  assumes hw: "rx_hw B sts dat" and L: "input_ok L"
  shows "rx_run B L netif sts dat arrived handed pc s \<Longrightarrow> \<exists>rest. arrived = handed @ rest \<and> rx_fifo sts dat rest s"
proof (induction rule: rx_run.induct)
  case (run_start s)
  then show ?case by (simp add: rx_fifo_def holds_frames_def)
next
  case (run_other arrived handed pc s fs st da s')
  then obtain rest where r: "arrived = handed @ rest" "rx_fifo sts dat rest s" by blast
  then have "rx_fifo sts dat (rest @ fs) s'"
    using run_other.hyps holds_frames_append [of rest _ _ fs st da] by (auto simp: rx_fifo_def)
  then show ?case using r by auto
next
  case (run_task arrived handed pc s h pc' s')
  then obtain rest where r: "arrived = handed @ rest" "rx_fifo sts dat rest s" by blast
  show ?case
  proof (cases pc)
    case Rx_Wait
    then show ?thesis using run_task.hyps(3) r
      by (auto simp: bind_eq_Some_conv dest!: take_enter_more more_eth rx_fifo_cong)
  next
    case Rx_Taken
    then have "s' = snd (ulTaskGenericNotifyTake_exit 0 True s)" "h = []" using run_task.hyps(3) by (auto simp: split_beta)
    then show ?thesis using r rx_fifo_cong [OF more_eth [OF take_exit_more [of 0 True s]]] by auto
  next
    case Rx_Peek
    show ?thesis
    proof (cases rest)
      case Nil
      with r(2) have "rx_fifo sts dat [] s" by simp
      then obtain s1 where "ethernetif_input_task B L netif (Rx_Peek, s) = Some ([], Rx_Enable, s1)" "rx_fifo sts dat [] s1"
        by (rule peek_step_empty [OF hw])
      then show ?thesis using run_task.hyps(3) r(1) Rx_Peek Nil by (simp del: ethernetif_input_task.simps)
    next
      case (Cons f fs)
      with r(2) have fi: "rx_fifo sts dat (f # fs) s" by simp
      have m: "pool_has (Suc 0) s" using run_task.hyps(2) Rx_Peek by simp
      obtain p s1 where "ethernetif_input_task B L netif (Rx_Peek, s) = Some ([(p, f)], Rx_Peek, s1)" "rx_fifo sts dat fs s1"
        by (rule peek_step_frame [OF hw L m fi])
      then show ?thesis using run_task.hyps(3) r(1) Rx_Peek Cons by (auto simp del: ethernetif_input_task.simps)
    qed
  next
    case Rx_Enable
    then show ?thesis using enable_step [OF hw r(2), of L netif] run_task.hyps(3) r(1) by (auto simp del: ethernetif_input_task.simps)
  qed
qed

text \<open>Steps of the task alone, and the frames they hand on.\<close>

fun task_steps :: "'d bus \<Rightarrow> ('d, 'z) eth_scheme lwip \<Rightarrow> addr \<Rightarrow> nat \<Rightarrow> rx_pc \<times> ('d, 'z) eth_scheme \<Rightarrow>
    ((addr \<times> u8 list) list \<times> rx_pc \<times> ('d, 'z) eth_scheme) option" where
  "task_steps B L netif 0 (pc, s) = Some ([], pc, s)"
| "task_steps B L netif (Suc n) (pc, s) = do {
     (h, pc, s) \<leftarrow> ethernetif_input_task B L netif (pc, s);
     (hs, pc, s) \<leftarrow> task_steps B L netif n (pc, s);
     Some (h @ hs, pc, s)
   }"

lemma task_steps_step:
  "ethernetif_input_task B L netif (pc, s) = Some (h, pc1, s1) \<Longrightarrow> task_steps B L netif n (pc1, s1) = Some (hs, pc2, s2) \<Longrightarrow>
    task_steps B L netif (Suc n) (pc, s) = Some (h @ hs, pc2, s2)"
  by (simp del: ethernetif_input_task.simps)

lemma drain_fifo:
  assumes hw: "rx_hw B sts dat" and L: "input_ok L"
  shows "rx_fifo sts dat fs s \<Longrightarrow> pool_has (length fs) s \<Longrightarrow> \<exists>h s'. task_steps B L netif (Suc (length fs)) (Rx_Peek, s) = Some (h, Rx_Enable, s') \<and>
     map snd h = fs \<and> rx_fifo sts dat [] s'"
proof (induction fs arbitrary: s)
  case Nil
  show ?case by (rule peek_step_empty [OF hw Nil(1), of L netif]) (simp del: ethernetif_input_task.simps)
next
  case (Cons f fs)
  have m: "pool_has (Suc (length fs)) s" using Cons.prems(2) by simp
  obtain p s1 where s1: "ethernetif_input_task B L netif (Rx_Peek, s) = Some ([(p, f)], Rx_Peek, s1)" "rx_fifo sts dat fs s1" "pool_has (length fs) s1"
    by (rule peek_step_frame [OF hw L m Cons.prems(1)])
  obtain h s' where s': "task_steps B L netif (Suc (length fs)) (Rx_Peek, s1) = Some (h, Rx_Enable, s')" "map snd h = fs" "rx_fifo sts dat [] s'"
    using Cons.IH [OF s1(2,3)] by blast
  then show ?case using task_steps_step [OF s1(1) s'(1)] by (auto simp del: task_steps.simps)
qed

text \<open>
  C29: The receiving task hands every frame to lwIP once, whole and in order. Let every frame have at most
  1516 bytes, the size of a pool buffer, and a length that is not a multiple of four, and let the buffer
  pool have a free buffer whenever the task looks for a frame. Whatever else the rest of the system does
  between the steps of the task, the frames handed on are the first of those that arrived and the
  controller still holds the others; and once the task drains the FIFO undisturbed, with as many free
  buffers as frames, it stops after one look per frame and one at the empty FIFO, with everything that
  arrived handed on and the interrupt about to be enabled. Buffers are those of \<^verbatim>\<open>pbuf_alloc\<close> and
  \<^verbatim>\<open>pbuf_free\<close>; of the input function it is used that it only queues the buffer.
\<close>

theorem frames_are_delivered:
  assumes "rx_hw B sts dat" "input_ok L" "rx_run B L netif sts dat arrived handed pc s"
  shows "\<exists>rest. arrived = handed @ rest \<and> holds_frames rest (sts (dev_chip s)) (dat (dev_chip s)) \<and>
    (pc = Rx_Peek \<and> pool_has (length rest) s \<longrightarrow>
       (\<exists>h s'. task_steps B L netif (Suc (length rest)) (pc, s) = Some (h, Rx_Enable, s') \<and>
          handed @ map snd h = arrived \<and> dat (dev_chip s') = []))"
proof -
  obtain rest where r: "arrived = handed @ rest" "rx_fifo sts dat rest s" using rx_run_fifo [OF assms] by blast
  have "\<exists>h s'. task_steps B L netif (Suc (length rest)) (Rx_Peek, s) = Some (h, Rx_Enable, s') \<and> map snd h = rest \<and> rx_fifo sts dat [] s'"
    if "pool_has (length rest) s" by (rule drain_fifo [OF assms(1,2) r(2) that])
  then show ?thesis using r by (auto simp: rx_fifo_def holds_frames_def simp del: task_steps.simps)
qed


text \<open>How many words the driver takes from the data FIFO.\<close>

lemma read_words_drops:
  assumes hw: "rx_hw B sts dat"
  shows "dat (chip (snd (run_state (read_words B n) d))) = drop n (dat (chip d))"
proof (induction n arbitrary: d)
  case (Suc n)
  show ?case using Suc.IH by (simp add: split_beta rx_hwD [OF hw] drop_Suc)
qed simp

lemma receive_drops:
  assumes hw: "rx_hw B sts dat" and n: "n < 2 ^ 32"
  shows "dat (chip (snd (run_state (smsc9220_receive_by_chunks B True (of_nat n)) d))) = drop (n div 4 + 1) (dat (chip d))"
  by (simp add: smsc9220_receive_by_chunks_def empty_rx_fifo_def Let_def split_beta rx_hwD [OF hw] unat_small [OF n]
      read_words_drops [OF hw] drop_Suc flip: drop_tl)

definition dropped_words :: "nat \<Rightarrow> nat" where
  "dropped_words n = (if n = 0 then 0 else 17 * ((n - 1) div 64) + ((n - 1) mod 64 + 1) div 4 + 1)"

lemma dropped_words_step: "64 < n \<Longrightarrow> dropped_words n = 17 + dropped_words (n - 64)"
proof -
  assume "64 < n"
  then obtain m where m: "n = m + 65" by (intro that [of "n - 65"]) simp
  have "(64 + m) div 64 = m div 64 + 1" "(64 + m) mod 64 = m mod 64" by simp_all
  then show ?thesis by (simp add: dropped_words_def m)
qed

lemma dropped_words_last: "0 < n \<Longrightarrow> n \<le> 64 \<Longrightarrow> dropped_words n = n div 4 + 1"
proof -
  assume n: "0 < n" "n \<le> 64"
  then have "(n - 1) div 64 = 0" "(n - 1) mod 64 + 1 = n" by simp_all
  then show ?thesis using n unfolding dropped_words_def by (simp only: if_False) simp
qed

text \<open>A frame has at most as many words.\<close>

lemma dropped_words_ge:
  assumes "0 < n"
  shows "(n + 3) div 4 \<le> dropped_words n" "64 < n \<Longrightarrow> (n + 3) div 4 < dropped_words n"
proof -
  define a b where "a = (n - 1) div 64" and "b = (n - 1) mod 64"
  have n: "n + 3 = 4 * (16 * a + 1) + b" using assms div_mult_mod_eq [of "n - 1" 64] by (simp add: a_def b_def)
  have w: "(n + 3) div 4 = 16 * a + 1 + b div 4" unfolding n by simp
  have d: "dropped_words n = 17 * a + (b + 1) div 4 + 1" using assms by (simp add: dropped_words_def a_def b_def)
  have "b div 4 \<le> (b + 1) div 4" by (rule div_le_mono) simp
  then show "(n + 3) div 4 \<le> dropped_words n" unfolding w d by linarith
  assume "64 < n"
  then have "1 \<le> a" using div_le_mono [of 64 "n - 1" 64] by (simp add: a_def)
  then show "(n + 3) div 4 < dropped_words n" using \<open>b div 4 \<le> (b + 1) div 4\<close> unfolding w d by linarith
qed

lemma drop_packet_drops:
  assumes hw: "rx_hw B sts dat"
  shows "n < 2 ^ 32 \<Longrightarrow> dat (chip (snd (run_state (drop_packet B (of_nat n)) d))) = drop (dropped_words n) (dat (chip d))"
proof (induction n arbitrary: d rule: less_induct)
  case (less n)
  have u: "unat (of_nat n :: u32) = n" by (rule unat_small [OF less.prems])
  consider "n = 0" | "0 < n" "n \<le> 64" | "64 < n" by linarith
  then show ?case
  proof cases
    case 1
    then show ?thesis by (simp add: drop_packet.simps dropped_words_def)
  next
    case 2
    then have "(0 :: u32) < of_nat n" "\<not> 64 < (of_nat n :: u32)" using u by (simp_all add: word_less_nat_alt)
    then show ?thesis using receive_drops [OF hw less.prems] 2
      by (simp add: drop_packet.simps [of B "of_nat n"] drop_packet.simps [of B 0] split_beta dropped_words_last)
  next
    case 3
    then have c: "(0 :: u32) < of_nat n" "64 < (of_nat n :: u32)" using u by (simp_all add: word_less_nat_alt)
    have m: "(of_nat n :: u32) - 64 = of_nat (n - 64)" using 3 by (simp add: of_nat_diff)
    have r: "dat (chip (snd (run_state (smsc9220_receive_by_chunks B True 64) d))) = drop 17 (dat (chip d))"
      using receive_drops [OF hw, of 64 d] by simp
    have "dat (chip (snd (run_state (drop_packet B (of_nat (n - 64))) d'))) = drop (dropped_words (n - 64)) (dat (chip d'))" for d'
      by (rule less.IH) (use less.prems 3 in simp_all)
    then show ?thesis
      unfolding drop_packet.simps [of B "of_nat n"] using c
      by (simp only: if_True Let_def run_bind split_beta m r dropped_words_step [OF 3] drop_drop add.commute)
  qed
qed

text \<open>
  C39: What receiving and discarding a frame take from the controller. With a frame at the head of the data
  FIFO, receiving it yields exactly its bytes but takes one word more than the frame has when its
  length is a multiple of four: the first word of the next frame is lost. Discarding a frame without a buffer reads
  it in pieces of 64 bytes and takes one word too many for each: for a frame of more than 64 bytes it always
  takes words of the frames behind it.
\<close>

theorem words_taken_from_fifo:
  assumes "rx_hw B sts dat" "dat (chip d) = frame_words f @ rest" "0 < length f" "length f < 2 ^ 14"
  shows "fst (run_state (smsc9220_receive_by_chunks B True (of_nat (length f))) d) = (f, of_nat (length f)) \<and>
    dat (chip (snd (run_state (smsc9220_receive_by_chunks B True (of_nat (length f))) d))) =
      (if length f mod 4 = 0 then tl rest else rest) \<and>
    dat (chip (snd (run_state (drop_packet B (of_nat (length f))) d))) = drop (dropped_words (length f) - (length f + 3) div 4) rest \<and>
    (64 < length f \<longrightarrow> (length f + 3) div 4 < dropped_words (length f))"
proof -
  let ?n = "length f"
  have d: "dat (chip (snd (run_state (drop_packet B (of_nat ?n)) d))) = drop (dropped_words ?n) (frame_words f @ rest)"
    using drop_packet_drops [OF assms(1), of ?n d] assms(2,4) by simp
  show ?thesis
    by (rule receive_takes_frame [OF assms(1,2,4)]) (use d dropped_words_ge [OF assms(3)] in \<open>simp add: length_frame_words\<close>)
qed

section \<open>A controller and a board\<close>

text \<open>FIFOs as lists, the other registers as a memory; and a board with this controller and three tasks.\<close>

record lan =
  rx_statuses :: "u32 list"
  rx_words :: "u32 list"
  tx_words :: "u32 list"
  regs :: "smsc9220_reg \<Rightarrow> u32"

definition tx_room :: "lan \<Rightarrow> nat" where
  "tx_room c = 4608 - 4 * length (tx_words c)"

definition lan_read :: "smsc9220_reg \<Rightarrow> lan \<Rightarrow> u32 \<times> lan" where
  "lan_read r c =
     (if r = rx_status_port then (case rx_statuses c of [] \<Rightarrow> 0 | x # xs \<Rightarrow> x, c\<lparr>rx_statuses := tl (rx_statuses c)\<rparr>)
      else if r = rx_data_port then (case rx_words c of [] \<Rightarrow> 0 | w # ws \<Rightarrow> w, c\<lparr>rx_words := tl (rx_words c)\<rparr>)
      else if r = rx_fifo_inf then (of_nat (4 * length (rx_words c)), c)
      else if r = tx_fifo_inf then (of_nat (tx_room c), c)
      else (regs c r, c))"

definition lan_write :: "smsc9220_reg \<Rightarrow> u32 \<Rightarrow> lan \<Rightarrow> lan" where
  "lan_write r v c =
     (if r = tx_data_port then c\<lparr>tx_words := tx_words c @ [v]\<rparr> else c\<lparr>regs := (regs c)(r := v)\<rparr>)"

definition lan_bus :: "lan bus" where
  "lan_bus = \<lparr>bus_read = lan_read, bus_write = lan_write, bus_wait = (\<lambda>n c. c)\<rparr>"

lemma lan_bus_simps [simp]: "bus_read lan_bus = lan_read" "bus_write lan_bus = lan_write"
  by (simp_all add: lan_bus_def)

lemma low_half: "n < 2 ^ 16 \<Longrightarrow> GET_BIT_FIELD 0xFFFF 0 (of_nat n) = of_nat n"
proof -
  assume "n < 2 ^ 16"
  then have "take_bit 16 n = n" by (rule take_bit_nat_eq_self)
  then have "take_bit 16 (of_nat n :: u32) = of_nat n" by (simp flip: of_nat_take_bit)
  then show ?thesis by (simp add: GET_BIT_FIELD_def take_bit_eq_mask mask_eq_exp_minus_1)
qed

lemma lan_rx_hw: "rx_hw lan_bus rx_statuses rx_words"
  unfolding rx_hw_def lan_bus_simps
proof (intro conjI allI impI)
  fix c :: lan
  assume "length (rx_words c) < 2 ^ 14"
  then show "GET_BIT_FIELD 0xFFFF 0 (fst (lan_read rx_fifo_inf c)) = of_nat (4 * length (rx_words c))"
    unfolding lan_read_def using low_half [of "4 * length (rx_words c)"] by simp
qed (auto simp: lan_read_def lan_write_def)

definition demo_chip :: "u32 list \<Rightarrow> u32 list \<Rightarrow> lan" where
  "demo_chip st da = \<lparr>rx_statuses = st, rx_words = da, tx_words = [], regs = (\<lambda>_. 8)\<rparr>"

definition demo_dev :: "lan \<Rightarrow> lan smsc" where
  "demo_dev c = \<lparr>chip = c, drv_state = 1, wait_ms = True, ongoing_packet_length = 0, ongoing_packet_length_sent = 0, current_rx_size_words = 0\<rparr>"

definition demo_eth :: "lan \<Rightarrow> lan eth" where
  "demo_eth c = net.extend (board.extend (tmr.extend (kernel.extend (sched.extend (demo\<lparr>heap := demo_heap\<rparr>)
       (kernel.fields (\<lambda>_. empty_queue False 0 0 0) (\<lambda>_. 0) (replicate 10 (None, 0))))
     (tmr.fields (\<lambda>_. \<lparr>pcTimerName = 0, xTimerPeriodInTicks = 0, pvTimerID = 0, pxCallbackFunction = 0, ucStatus = 0\<rparr>)
        \<lparr>liValue = (\<lambda>_. 0), liContainer = (\<lambda>_. None), lsItems = (\<lambda>_. []), lsIndex = (\<lambda>_. None)\<rparr>
        xActiveTimerList1 xActiveTimerList2 0 0 0))
     (board.fields (\<lambda>_. 0) ((started 8 demo_image demo_nvic)\<lparr>vectactive := 0\<rparr>)))
     (net.fields demo_pbufs (\<lambda>_. 0) False))
     (eth.fields 1000 (demo_dev c) 0
       (\<lambda>_. \<lparr>if_name = [], if_output = 0, if_linkoutput = 0, if_hwaddr_len = 0, if_hwaddr = [], if_mtu = 0, if_flags = 0\<rparr>))"

lemma demo_eth_simps [simp]:
  "lists (demo_eth c) = lists demo" "tcb (demo_eth c) = demo_tcbs" "heap (demo_eth c) = demo_heap" "pxCurrentTCB (demo_eth c) = 1000"
  "uxCurrentNumberOfTasks (demo_eth c) = 3" "uxSchedulerSuspended (demo_eth c) = 0" "xPendedTicks (demo_eth c) = 0"
  "xSchedulerRunning (demo_eth c)" "SMSC9220_ETH_DEV (demo_eth c) = demo_dev c" "xRxTaskHandle (demo_eth c) = 1000"
  "pbufs (demo_eth c) = demo_pbufs" "mem (demo_eth c) = (\<lambda>_. 0)" "nvic_regs (demo_eth c) = (started 8 demo_image demo_nvic)\<lparr>vectactive := 0\<rparr>"
  by (simp_all add: demo_eth_def eth.defs net.defs board.defs tmr.defs kernel.defs sched.defs)

lemma demo_dev_chip [simp]: "chip (demo_dev c) = c"
  by (simp add: demo_dev_def)

text \<open>The board with a fresh pool of two buffers.\<close>

definition stocked :: "'a net_scheme \<Rightarrow> 'a net_scheme" where
  "stocked s = snd (memp_init_pool MEMP_PBUF_POOL 2 1532 7000 (s\<lparr>pbufs := (\<lambda>_. blank_pbuf)\<rparr>))"

lemma init_elements_more: "net.more (snd (init_elements type sz n memp s)) = net.more s"
  by (induction n arbitrary: memp s) (simp_all add: Let_def)

lemma stocked_eth: "SMSC9220_ETH_DEV (stocked s) = SMSC9220_ETH_DEV s"
  by (rule net_more_eth) (simp add: stocked_def memp_init_pool_def init_elements_more)

lemma stocked_pool: "pool_has 2 (stocked s)"
proof -
  let ?s = "s\<lparr>pbufs := (\<lambda>_. blank_pbuf), memp_tab := (memp_tab s)(MEMP_PBUF_POOL := 0)\<rparr>"
  have "free_list ?s MEMP_PBUF_POOL []" by (simp add: free_list_def)
  from init_elements_free [OF this, of 7000 1532 2] show ?thesis
    unfolding pool_has_def by (intro exI) (auto simp: stocked_def memp_init_pool_def blank_pbuf_def)
qed

lemma idle_input_ok: "input_ok idle_lwip"
  by (simp add: input_ok_def idle_lwip_def)

definition demo_frames :: "u8 list list" where
  "demo_frames = [[1, 2, 3, 4, 5], [6, 7, 8]]"

definition demo_full :: lan where
  "demo_full = demo_chip [0x50000, 0x30000] (concat (map frame_words demo_frames))"

lemma demo_full_frames: "holds_frames demo_frames (rx_statuses demo_full) (rx_words demo_full)" "list_all good_frame demo_frames"
  "length (rx_words demo_full) = 3"
  by (simp_all add: holds_frames_def demo_full_def demo_chip_def demo_frames_def status_of_def GET_BIT_FIELD_def good_frame_def length_frame_words)

theorem frames_are_delivered_witness:
  "\<exists>s h s'. rx_run lan_bus idle_lwip 5 rx_statuses rx_words demo_frames [] Rx_Peek (s :: lan eth) \<and>
     task_steps lan_bus idle_lwip 5 3 (Rx_Peek, s) = Some (h, Rx_Enable, s') \<and> map snd h = demo_frames \<and> rx_words (dev_chip s') = []"
proof -
  let ?run = "rx_run lan_bus idle_lwip 5 rx_statuses rx_words"
  let ?a = "demo_eth (demo_chip [] [])" and ?b = "set_nvalue 1000 0 1 (stocked (demo_eth demo_full))"
  have b: "SMSC9220_ETH_DEV ?b = demo_dev demo_full" using more_eth [of ?b "stocked (demo_eth demo_full)"] by (simp add: stocked_eth)
  have 1: "?run [] [] Rx_Wait ?a" by (rule run_start) (simp_all add: demo_chip_def)
  have 2: "?run ([] @ demo_frames) [] Rx_Wait ?b"
    by (rule run_other [OF 1 demo_full_frames(1,2)]) (simp_all add: b demo_full_frames(3), simp_all add: demo_chip_def)
  have cur: "pxCurrentTCB ?b = 1000"
    by (simp add: stocked_def memp_init_pool_def upd_pbuf_def Let_def set_nvalue_def upd_tcb_def numeral_2_eq_2)
  have 3: "?run demo_frames [] Rx_Taken ?b"
    using run_task [OF 2, of "[]" Rx_Taken ?b] cur
    by (simp add: ulTaskGenericNotifyTake_enter_def configTASK_NOTIFICATION_ARRAY_ENTRIES_def set_nvalue_def)
  let ?c = "snd (ulTaskGenericNotifyTake_exit 0 True ?b)"
  have c: "?run demo_frames [] Rx_Peek ?c"
    using run_task [OF 3, of "[]" Rx_Peek ?c] by (simp add: split_beta)
  have l: "length demo_frames = 2" by (simp add: demo_frames_def)
  have "pool_has 2 ?c"
    using stocked_pool [of "demo_eth demo_full"] pool_has_cong [of ?c "stocked (demo_eth demo_full)" 2] more_net [of ?c "stocked (demo_eth demo_full)"]
    by simp
  then show ?thesis
    using frames_are_delivered [OF lan_rx_hw idle_input_ok c] c l by (auto simp: numeral_3_eq_3 numeral_2_eq_2 simp del: task_steps.simps)
qed

theorem words_taken_from_fifo_witness:
  "rx_words (chip (snd (run_state (smsc9220_receive_by_chunks lan_bus True 4) (demo_dev (demo_chip [] (frame_words [1, 2, 3, 4] @ [5, 6])))))) = [6] \<and>
   rx_words (chip (snd (run_state (drop_packet lan_bus 70) (demo_dev (demo_chip [] (frame_words (replicate 70 1) @ [5, 6])))))) = [6]"
proof -
  have "rx_words (chip (demo_dev (demo_chip [] (frame_words f @ [5, 6])))) = frame_words f @ [5, 6]" for f by (simp add: demo_chip_def)
  note T = words_taken_from_fifo [OF lan_rx_hw this]
  show ?thesis
    using T [of "[1, 2, 3, 4]"] T [of "replicate 70 1"] by (simp add: dropped_words_def)
qed

end
