(* ===== verification/Ethernet_Tx.thy ===== *)
theory Ethernet_Tx
  imports Ethernet_Props
begin

text \<open>
  Transmission: the words that \<^verbatim>\<open>low_level_output\<close> writes for a chain of buffers, read in the controller's
  format, are the packet.
\<close>

section \<open>The controller\<close>

text \<open>
  The transmit side: every word written to the data port is appended to what the controller was given
  (\<open>log\<close>), and takes four bytes of the free space that the information register tells (\<open>room\<close>); the
  controller may make room at any time.
\<close>

definition tx_hw :: "'d bus \<Rightarrow> ('d \<Rightarrow> u32 list) \<Rightarrow> ('d \<Rightarrow> nat) \<Rightarrow> bool" where
  "tx_hw B log room \<longleftrightarrow>
     (\<forall>c w. log (bus_write B tx_data_port w c) = log c @ [w] \<and> room c \<le> room (bus_write B tx_data_port w c) + 4) \<and>
     (\<forall>c. \<forall>r \<in> {tx_fifo_inf, tx_status_port}. log (snd (bus_read B r c)) = log c \<and> room c \<le> room (snd (bus_read B r c))) \<and>
     (\<forall>c. unat (GET_BIT_FIELD 0xFFFF 0 (fst (bus_read B tx_fifo_inf c))) = room c)"

lemma tx_hwD:
  assumes "tx_hw B log room"
  shows "log (bus_write B tx_data_port w c) = log c @ [w]" "room c \<le> room (bus_write B tx_data_port w c) + 4"
    "log (snd (bus_read B tx_fifo_inf c)) = log c" "room c \<le> room (snd (bus_read B tx_fifo_inf c))"
    "log (snd (bus_read B tx_status_port c)) = log c" "room c \<le> room (snd (bus_read B tx_status_port c))"
    "unat (GET_BIT_FIELD 0xFFFF 0 (fst (bus_read B tx_fifo_inf c))) = room c"
  using assms unfolding tx_hw_def by simp_all

text \<open>
  The format: a buffer is two command words and its data words. The first command tells the length of the
  buffer, the number of bytes to skip and whether the buffer is the first and whether it is the last of its
  packet; the second has a field for the length of the whole packet and a tag.
\<close>

definition buffer_length :: "u32 \<Rightarrow> nat" where "buffer_length a = unat (GET_BIT_FIELD 0x7FF 0 a)"
definition buffer_offset :: "u32 \<Rightarrow> nat" where "buffer_offset a = unat (GET_BIT_FIELD 0x1F 16 a)"
definition packet_length :: "u32 \<Rightarrow> nat" where "packet_length b = unat (GET_BIT_FIELD 0x7FF 0 b)"
definition packet_tag :: "u32 \<Rightarrow> nat" where "packet_tag b = unat (GET_BIT_FIELD 0xFFFF 16 b)"
definition buffer_words :: "u32 \<Rightarrow> nat" where "buffer_words a = (buffer_offset a + buffer_length a + 3) div 4"

record segment =
  seg_first :: bool
  seg_last :: bool
  seg_packet_length :: nat
  seg_tag :: nat
  seg_bytes :: "u8 list"

function decode_tx :: "u32 list \<Rightarrow> segment list option" where
  "decode_tx [] = Some []"
| "decode_tx [a] = None"
| "decode_tx (a # b # ws) =
     (if length ws < buffer_words a then None
      else map_option (Cons \<lparr>seg_first = GET_BIT 13 a, seg_last = GET_BIT 12 a, seg_packet_length = packet_length b, seg_tag = packet_tag b,
             seg_bytes = take (buffer_length a) (drop (buffer_offset a) (concat (map word_bytes (take (buffer_words a) ws))))\<rparr>)
             (decode_tx (drop (buffer_words a) ws)))"
  by pat_completeness auto

termination decode_tx
  by (relation "measure length") auto

section \<open>One buffer\<close>

lemma mask_bits: "(0x7FF :: u32) = mask 11" "(0x1F :: u32) = mask 5" "(0xFFFF :: u32) = mask 16"
  by (simp_all add: mask_eq_exp_minus_1)

lemma bit_SET_BIT_FIELD:
  "bit (SET_BIT_FIELD (mask m) off v w) i \<longleftrightarrow> bit w i \<or> i < 32 \<and> off \<le> i \<and> i - off < m \<and> bit v (i - off)"
  by (auto simp: SET_BIT_FIELD_def bit_or_iff bit_push_bit_iff bit_and_iff bit_mask_iff)

lemma txcmd_a_bits:
  "bit (txcmd_a f l w) i \<longleftrightarrow> i = 12 \<and> l \<or> i = 13 \<and> f \<or> i < 11 \<and> bit w i \<or> 16 \<le> i \<and> i < 21 \<and> bit (4 - w mod 4) (i - 16)"
  by (cases f; cases l; simp only: txcmd_a_def Let_def mask_bits bit_SET_BIT_FIELD bit_SET_BIT if_True if_False)
    (auto simp: bit_SET_BIT)

lemma word_below:
  assumes "n < 2 ^ m" "bit (of_nat n :: u32) i"
  shows "i < m"
proof (rule ccontr)
  assume "\<not> i < m"
  moreover have "take_bit m n = n" using assms(1) by (rule take_bit_nat_eq_self)
  ultimately have "\<not> bit n i" by (metis bit_take_bit_iff)
  then show False using assms(2) by (simp add: bit_of_nat_iff)
qed

lemma txcmd_a_fields:
  assumes "n < 2048"
  shows "buffer_length (txcmd_a f l (of_nat n)) = n" "buffer_offset (txcmd_a f l (of_nat n)) = 4 - n mod 4"
    "GET_BIT 13 (txcmd_a f l (of_nat n)) = f" "GET_BIT 12 (txcmd_a f l (of_nat n)) = l"
proof -
  let ?a = "txcmd_a f l (of_nat n)"
  have "GET_BIT_FIELD 0x7FF 0 ?a = of_nat n"
    unfolding GET_BIT_FIELD_def mask_bits using word_below [of n 11] assms
    by (intro bit_eqI) (auto simp: bit_and_iff bit_mask_iff txcmd_a_bits)
  then show "buffer_length ?a = n" using assms by (simp add: buffer_length_def unat_small)
  have m: "(of_nat n :: u32) mod 4 = of_nat (n mod 4)" using assms by (simp add: word_unat_eq_iff unat_mod_distrib unat_small)
  then have o: "4 - (of_nat n :: u32) mod 4 = of_nat (4 - n mod 4)" by (simp add: of_nat_diff)
  have "GET_BIT_FIELD 0x1F 16 ?a = of_nat (4 - n mod 4)"
    unfolding GET_BIT_FIELD_def mask_bits using word_below [of "4 - n mod 4" 5]
    by (intro bit_eqI) (auto simp: bit_and_iff bit_mask_iff bit_drop_bit_eq txcmd_a_bits o)
  then show "buffer_offset ?a = 4 - n mod 4" unfolding buffer_offset_def by (simp only:) (rule unat_small, simp)
  show "GET_BIT 13 ?a = f" "GET_BIT 12 ?a = l"
    by (simp_all add: GET_BIT_bit txcmd_a_bits)
qed


lemma txcmd_b_bits: "bit (txcmd_b w) i \<longleftrightarrow> i < 11 \<and> bit w i \<or> 16 \<le> i \<and> i < 32 \<and> bit w (i - 16)"
  by (simp only: txcmd_b_def mask_bits bit_SET_BIT_FIELD) auto

lemma txcmd_b_fields:
  assumes "n < 2048"
  shows "packet_length (txcmd_b (of_nat n)) = n" "packet_tag (txcmd_b (of_nat n)) = n"
proof -
  have "GET_BIT_FIELD 0x7FF 0 (txcmd_b (of_nat n)) = of_nat n" "GET_BIT_FIELD 0xFFFF 16 (txcmd_b (of_nat n)) = of_nat n"
    unfolding GET_BIT_FIELD_def mask_bits using word_below [of n 11] assms
    by (intro bit_eqI; fastforce simp: bit_and_iff bit_mask_iff bit_drop_bit_eq txcmd_b_bits)+
  then show "packet_length (txcmd_b (of_nat n)) = n" "packet_tag (txcmd_b (of_nat n)) = n"
    using assms by (simp_all add: packet_length_def packet_tag_def unat_small)
qed

text \<open>The data words of a buffer, with zeros in front up to the offset.\<close>

definition fill_words :: "u8 list \<Rightarrow> u32 list" where
  "fill_words bs = frame_words (replicate (4 - length bs mod 4) 0 @ bs)"

lemma fill_words_eq:
  "fill_words bs = bytes_word (replicate (4 - length bs mod 4) 0 @ take (length bs mod 4) bs) # frame_words (drop (length bs mod 4) bs)"
proof -
  obtain k where k: "4 - length bs mod 4 = Suc k" "4 - Suc k = length bs mod 4"
    using mod_less_divisor [of 4 "length bs", OF zero_less_numeral] by (intro that [of "3 - length bs mod 4"]) linarith+
  then have "k < 4" by linarith
  then show ?thesis unfolding fill_words_def k(1) by (subst frame_words_step) (simp_all flip: k(2))
qed

lemma length_fill_words: "length (fill_words bs) = 1 + length bs div 4"
  by (simp add: fill_words_eq length_frame_words minus_mod_eq_mult_div)

lemma concat_fill_words: "concat (map word_bytes (fill_words bs)) = replicate (4 - length bs mod 4) 0 @ bs"
  unfolding fill_words_def
proof (rule concat_frame_words)
  have "(4 - length bs mod 4 + length bs) mod 4 = (4 - length bs mod 4 + length bs mod 4) mod 4" by (simp only: mod_add_right_eq)
  then show "length (replicate (4 - length bs mod 4) 0 @ bs) mod 4 = 0" by simp
qed

text \<open>A buffer in the controller's format.\<close>

definition tx_buffer :: "bool \<Rightarrow> bool \<Rightarrow> u8 list \<Rightarrow> u32 list" where
  "tx_buffer f l bs = txcmd_a f l (of_nat (length bs)) # txcmd_b (of_nat (length bs)) # fill_words bs"

text \<open>What the controller reads there: the field for the length of the packet has the length of the buffer.\<close>

definition chunk :: "bool \<Rightarrow> bool \<Rightarrow> u8 list \<Rightarrow> segment" where
  "chunk f l bs = \<lparr>seg_first = f, seg_last = l, seg_packet_length = length bs, seg_tag = length bs, seg_bytes = bs\<rparr>"

lemma fill_count: "r + k = 4 \<Longrightarrow> 4 * q + r = n \<Longrightarrow> k + n + 3 = 4 * (1 + q) + (3 :: nat)"
  by auto

lemma decode_tx_buffer:
  assumes "length bs < 2048"
  shows "decode_tx (tx_buffer f l bs @ ws) = map_option (Cons (chunk f l bs)) (decode_tx ws)"
proof -
  let ?a = "txcmd_a f l (of_nat (length bs))"
  note F = txcmd_a_fields [OF assms, of f l] txcmd_b_fields [OF assms]
  define k where "k = 4 - length bs mod 4"
  have "length bs mod 4 + k = 4" using mod_less_divisor [of 4 "length bs"] by (simp add: k_def less_imp_le)
  then have "k + length bs + 3 = 4 * (1 + length bs div 4) + 3" by (rule fill_count) (rule mult_div_mod_eq)
  then have w: "buffer_words ?a = length (fill_words bs)" by (simp add: buffer_words_def F length_fill_words flip: k_def)
  show ?thesis
    by (simp add: tx_buffer_def chunk_def F w concat_fill_words)
qed

lemma same_chip: "\<exists>c. d = d\<lparr>chip := c\<rparr> \<and> log c = log (chip d) \<and> (room :: 'd \<Rightarrow> nat) (chip d) \<le> room c"
  by (rule exI [of _ "chip d"]) simp

lemma write_words_log:
  "tx_hw B log room \<Longrightarrow> length bs mod 4 = 0 \<Longrightarrow> \<exists>c. run_state (write_words B bs) d = ((), d\<lparr>chip := c\<rparr>) \<and>
    log c = log (chip d) @ frame_words bs \<and> room (chip d) \<le> room c + length bs"
proof (induction B bs arbitrary: d rule: write_words.induct)
  case (1 B a b c e bs)
  let ?c = "bus_write B tx_data_port (bytes_word [a, b, c, e]) (chip d)"
  have "length bs mod 4 = 0" using 1(3) by (simp add: le_mod_geq)
  then obtain c' where c': "run_state (write_words B bs) (d\<lparr>chip := ?c\<rparr>) = ((), d\<lparr>chip := c'\<rparr>)" "log c' = log ?c @ frame_words bs"
    "room ?c \<le> room c' + length bs"
    using 1(1) [OF 1(2), of "d\<lparr>chip := ?c\<rparr>"] by auto
  have "log c' = log (chip d) @ frame_words (a # b # c # e # bs)"
    using c'(2) by (simp add: tx_hwD [OF 1(2)] frame_words_step [of "_ # _"])
  moreover have "room (chip d) \<le> room c' + length (a # b # c # e # bs)"
    using c'(3) tx_hwD(2) [OF 1(2), of "chip d" "bytes_word [a, b, c, e]"] by simp
  ultimately show ?case using c'(1) by (intro exI [of _ c']) simp
qed (auto intro: same_chip)

lemma fill_tx_fifo_log:
  assumes hw: "tx_hw B log room"
  obtains c where "run_state (fill_tx_fifo B bs) d = ((), d\<lparr>chip := c\<rparr>)" "log c = log (chip d) @ fill_words bs"
    "room (chip d) \<le> room c + 4 + length bs"
proof -
  let ?r = "length bs mod 4"
  let ?w = "bytes_word (replicate (4 - ?r) 0 @ take ?r bs)"
  let ?c = "bus_write B tx_data_port ?w (chip d)"
  have "length (drop ?r bs) mod 4 = 0" by (simp add: minus_mod_eq_mult_div)
  then obtain c where c: "run_state (write_words B (drop ?r bs)) (d\<lparr>chip := ?c\<rparr>) = ((), d\<lparr>chip := c\<rparr>)"
    "log c = log ?c @ frame_words (drop ?r bs)" "room ?c \<le> room c + length (drop ?r bs)"
    using write_words_log [OF hw, of "drop ?r bs" "d\<lparr>chip := ?c\<rparr>"] by auto
  have "length (drop ?r bs) \<le> length bs" by simp
  then have "room (chip d) \<le> room c + 4 + length bs" using c(3) tx_hwD(2) [OF hw, of "chip d" ?w] by linarith
  moreover have "log c = log (chip d) @ fill_words bs" using c(2) by (simp add: tx_hwD [OF hw] fill_words_eq)
  moreover have "run_state (fill_tx_fifo B bs) d = ((), d\<lparr>chip := c\<rparr>)" using c(1) by (simp add: fill_tx_fifo_def Let_def)
  ultimately show ?thesis using that by blast
qed

lemma send_by_chunks_log:
  assumes hw: "tx_hw B log room" and n: "length bs < 2048" "length bs \<le> room (chip d)"
    and cont: "\<not> first \<Longrightarrow> ongoing_packet_length d = plen \<and> ongoing_packet_length_sent d < plen"
  obtains d' where "run_state (smsc9220_send_by_chunks B plen first (Some bs)) d = (SMSC9220_ERROR_NONE, d')"
    "log (chip d') = log (chip d) @ tx_buffer first (ongoing_packet_length_sent d' = plen) bs"
    "room (chip d) \<le> room (chip d') + 12 + length bs" "ongoing_packet_length d' = plen"
    "ongoing_packet_length_sent d' = (if first then 0 else ongoing_packet_length_sent d) + of_nat (length bs)"
proof -
  define snt where "snt = (if first then 0 else ongoing_packet_length_sent d)"
  define n where "n = (of_nat (length bs) :: u32)"
  define lst where "lst = (snt + n = plen)"
  define d1 where "d1 = (if first then d\<lparr>ongoing_packet_length := plen, ongoing_packet_length_sent := 0\<rparr> else d)"
  define d2 where "d2 = d1\<lparr>chip := bus_write B tx_data_port (txcmd_b n) (bus_write B tx_data_port (txcmd_a first lst n) (snd (bus_read B tx_fifo_inf (chip d))))\<rparr>"
  obtain c where c: "run_state (fill_tx_fifo B bs) d2 = ((), d2\<lparr>chip := c\<rparr>)" "log c = log (chip d2) @ fill_words bs"
    "room (chip d2) \<le> room c + 4 + length bs"
    by (rule fill_tx_fifo_log [OF hw])
  define c' where "c' = (if lst then snd (bus_read B tx_status_port c) else c)"
  have un: "unat n = length bs" using n by (simp add: n_def unat_small)
  have ok: "\<not> GET_BIT_FIELD 0xFFFF 0 (fst (bus_read B tx_fifo_inf (chip d))) < n"
    using n(2) by (simp add: word_less_nat_alt un tx_hwD [OF hw])
  have d1: "chip d1 = chip d" "ongoing_packet_length d1 = plen" "ongoing_packet_length_sent d1 = snt"
    using cont by (simp_all add: d1_def snt_def)
  have run: "run_state (smsc9220_send_by_chunks B plen first (Some bs)) d =
      (SMSC9220_ERROR_NONE, d2\<lparr>chip := c', ongoing_packet_length_sent := snt + n\<rparr>)"
  proof (cases first)
    case True
    then have l: "(n = plen) = lst" by (simp add: lst_def snt_def)
    show ?thesis using True c(1) unfolding d2_def d1_def
      by (cases lst) (simp_all add: smsc9220_send_by_chunks_def ok snt_def c'_def l flip: n_def)
  next
    case False
    then have l: "(ongoing_packet_length_sent d + n = plen) = lst" by (simp add: lst_def snt_def)
    have p: "\<not> plen \<le> ongoing_packet_length_sent d" "ongoing_packet_length d = plen" using cont [OF False] by (simp_all add: not_le)
    show ?thesis using False c(1) p unfolding d2_def d1_def
      by (cases lst) (simp_all add: smsc9220_send_by_chunks_def ok snt_def c'_def l flip: n_def)
  qed
  have c': "log c' = log c" "room c \<le> room c'" using tx_hwD(5,6) [OF hw] by (simp_all add: c'_def)
  have "log (chip d2) = log (chip d) @ [txcmd_a first lst n, txcmd_b n]" by (simp add: d2_def tx_hwD [OF hw] d1)
  moreover have "room (chip d) \<le> room (chip d2) + 8"
  proof -
    let ?c1 = "snd (bus_read B tx_fifo_inf (chip d))"
    let ?c2 = "bus_write B tx_data_port (txcmd_a first lst n) ?c1"
    have "room (chip d) \<le> room ?c1" "room ?c1 \<le> room ?c2 + 4" "room ?c2 \<le> room (chip d2) + 4"
      unfolding d2_def by (simp_all add: tx_hwD(4) [OF hw] tx_hwD(2) [OF hw])
    then show ?thesis by linarith
  qed
  ultimately show ?thesis
    using c c' by (intro that [OF run]) (simp_all add: tx_buffer_def lst_def snt_def d1 d2_def flip: n_def)
qed


section \<open>A packet\<close>

text \<open>The bytes of a buffer, and how the buffers of a packet are announced to the controller.\<close>

definition pbuf_bytes :: "('d, 'z) eth_scheme \<Rightarrow> addr \<Rightarrow> u8 list" where
  "pbuf_bytes s q = bytes_at (mem s) (pb_payload (pbufs s q)) (unat (pb_len (pbufs s q)))"

fun segments :: "bool \<Rightarrow> u8 list list \<Rightarrow> segment list" where
  "segments first [] = []"
| "segments first (bs # rest) = chunk first (rest = []) bs # segments False rest"

lemma segments_bytes: "map seg_bytes (segments first bss) = bss"
  by (induction bss arbitrary: first) (simp_all add: chunk_def)

lemma segments_le: "seg \<in> set (segments first bss) \<Longrightarrow> seg_packet_length seg \<le> length (concat bss)"
  by (induction bss arbitrary: first) (auto simp: chunk_def intro: trans_le_add2)

lemma segments_length:
  "list_all ((\<noteq>) []) bss \<Longrightarrow> seg \<in> set (segments first bss) \<Longrightarrow> seg_packet_length seg = length (concat bss) \<longleftrightarrow> length bss = 1"
proof (induction bss arbitrary: first)
  case (Cons bs bss)
  show ?case
  proof (cases "bss = []")
    case False
    then obtain b bs' where b: "bss = b # bs'" by (cases bss) auto
    have c: "0 < length (concat bss)" "0 < length bs" using Cons.prems(1) unfolding b by auto
    have "seg_packet_length seg \<le> length (concat bss) \<or> seg_packet_length seg = length bs"
      using Cons.prems(2) segments_le [of seg False bss] by (auto simp: chunk_def)
    then have "seg_packet_length seg \<noteq> length bs + length (concat bss)" using c by linarith
    then show ?thesis using b by simp
  qed (use Cons.prems in \<open>auto simp: chunk_def\<close>)
qed simp

text \<open>A buffer that the controller's length field can describe.\<close>

definition sendable :: "('d, 'z) eth_scheme \<Rightarrow> addr \<Rightarrow> bool" where
  "sendable s q \<longleftrightarrow> pb_payload (pbufs s q) \<noteq> 0 \<and> 0 < length (pbuf_bytes s q) \<and> length (pbuf_bytes s q) < 2048"

lemma of_nat_eq_sum: "m + k < 2 ^ 32 \<Longrightarrow> (of_nat m = (of_nat (m + k) :: u32)) = (k = 0)"
  unfolding word_unat_eq_iff by (simp add: unat_small del: of_nat_add)

lemma output_loop_log:
  assumes hw: "tx_hw B log room"
  shows "pchain (pbufs s) q qs \<Longrightarrow> list_all (sendable s) qs \<Longrightarrow>
    done_len + sum_list (map (\<lambda>q. length (pbuf_bytes s q)) qs) = plen \<Longrightarrow> plen < 2 ^ 16 \<Longrightarrow>
    12 * length qs + sum_list (map (\<lambda>q. length (pbuf_bytes s q)) qs) \<le> room (dev_chip s) \<Longrightarrow>
    (if first then done_len = 0 else ongoing_packet_length (SMSC9220_ETH_DEV s) = of_nat plen \<and>
       ongoing_packet_length_sent (SMSC9220_ETH_DEV s) = of_nat done_len) \<Longrightarrow>
    \<exists>d ws. output_loop B (of_nat plen) first q s = Some (ERR_OK, s\<lparr>SMSC9220_ETH_DEV := d\<rparr>) \<and>
      log (chip d) = log (dev_chip s) @ ws \<and> decode_tx ws = Some (segments first (map (pbuf_bytes s) qs))"
proof (induction qs arbitrary: q s done_len first)
  case Nil
  then show ?case by (intro exI [of _ "SMSC9220_ETH_DEV s"] exI [of _ "[]"]) (simp add: output_loop.simps)
next
  case (Cons q' qs)
  let ?d = "SMSC9220_ETH_DEV s" and ?bs = "pbuf_bytes s q"
  let ?rest = "sum_list (map (\<lambda>q. length (pbuf_bytes s q)) qs)"
  have q: "q' = q" "q \<noteq> 0" "pchain (pbufs s) (pb_next (pbufs s q)) qs" and se: "sendable s q" "list_all (sendable s) qs"
    using Cons.prems(1,2) by auto
  have plen: "done_len + length ?bs + ?rest = plen" using Cons.prems(3) q(1) by simp
  have room: "12 * length qs + ?rest + 12 + length ?bs \<le> room (dev_chip s)" using Cons.prems(5) q(1) by simp
  have bs: "length ?bs < 2048" "0 < length ?bs" "pb_payload (pbufs s q) \<noteq> 0" using se(1) by (simp_all add: sendable_def)
  have u: "unat (of_nat done_len :: u32) = done_len" "unat (of_nat plen :: u32) = plen" using plen Cons.prems(4) by (simp_all add: unat_small)
  have "done_len < plen" using plen bs(2) by linarith
  then have cont: "\<not> first \<Longrightarrow> ongoing_packet_length ?d = of_nat plen \<and> ongoing_packet_length_sent ?d < of_nat plen"
    using Cons.prems(6) u \<open>done_len < plen\<close> by (simp add: word_less_nat_alt)
  have bs_room: "length ?bs \<le> room (chip ?d)" using room by simp
  obtain d' where d': "run_state (smsc9220_send_by_chunks B (of_nat plen) first (Some ?bs)) ?d = (SMSC9220_ERROR_NONE, d')"
    "log (chip d') = log (chip ?d) @ tx_buffer first (ongoing_packet_length_sent d' = of_nat plen) ?bs"
    "room (chip ?d) \<le> room (chip d') + 12 + length ?bs" "ongoing_packet_length d' = of_nat plen"
    "ongoing_packet_length_sent d' = (if first then 0 else ongoing_packet_length_sent ?d) + of_nat (length ?bs)"
    by (rule send_by_chunks_log [OF hw bs(1) bs_room cont])
  have done_len: "ongoing_packet_length_sent d' = of_nat (done_len + length ?bs)" using d'(5) Cons.prems(6) by (auto split: if_splits)
  have "?rest = 0 \<longleftrightarrow> qs = []"
  proof (cases qs)
    case (Cons a as)
    then show ?thesis using se(2) by (simp add: sendable_def)
  qed simp
  then have lst: "(ongoing_packet_length_sent d' = of_nat plen) = (qs = [])"
    unfolding done_len plen [symmetric] using of_nat_eq_sum [of "done_len + length ?bs" ?rest] plen Cons.prems(4) by simp
  let ?s = "s\<lparr>SMSC9220_ETH_DEV := d'\<rparr>"
  have same: "pbuf_bytes ?s = pbuf_bytes s" "sendable ?s = sendable s" by (simp_all add: pbuf_bytes_def sendable_def fun_eq_iff)
  obtain d ws where d: "output_loop B (of_nat plen) False (pb_next (pbufs s q)) ?s = Some (ERR_OK, ?s\<lparr>SMSC9220_ETH_DEV := d\<rparr>)"
      "log (chip d) = log (chip d') @ ws" "decode_tx ws = Some (segments False (map (pbuf_bytes s) qs))"
    using Cons.IH [of ?s "pb_next (pbufs s q)" "done_len + length ?bs" False] q(3) se(2) plen Cons.prems(4) room d'(3,4) done_len
    by (auto simp: same)
  have "output_loop B (of_nat plen) first q s = Some (ERR_OK, s\<lparr>SMSC9220_ETH_DEV := d\<rparr>)"
    using q(2) bs(3) d(1) d'(1) by (subst output_loop.simps) (simp add: on_dev_def Let_def pbuf_bytes_def)
  moreover have "decode_tx (tx_buffer first (qs = []) ?bs @ ws) = Some (segments first (map (pbuf_bytes s) (q' # qs)))"
    using d(3) by (simp add: decode_tx_buffer [OF bs(1)] q(1))
  ultimately show ?case using d(2) d'(2) unfolding lst by (metis append.assoc)
qed

text \<open>
  C30: A packet reaches the controller whole. For a chain of buffers, each of one to 2047 bytes, that add up
  to \<^verbatim>\<open>tot_len\<close>, and with room in the transmit FIFO for their bytes and 12 more for each, \<^verbatim>\<open>low_level_output\<close>
  returns \<^verbatim>\<open>ERR_OK\<close> and changes nothing but the driver's state; the words it wrote, read in the
  controller's format, are the bytes of the buffers in order, the first marked as the first of the
  packet and only the last marked as its last. In the second command word of each buffer the tag and the
  field for the length of the packet are both the length of that buffer: the field has the length of the packet
  if and only if the packet is a single buffer.
\<close>

theorem output_sends_packet:
  assumes "tx_hw B log room" "pchain (pbufs s) p qs" "qs \<noteq> []" "list_all (sendable s) qs"
    "sum_list (map (\<lambda>q. length (pbuf_bytes s q)) qs) = unat (pb_tot_len (pbufs s p))"
    "12 * length qs + unat (pb_tot_len (pbufs s p)) \<le> room (dev_chip s)"
  shows "\<exists>d ws. low_level_output B p s = Some (ERR_OK, s\<lparr>SMSC9220_ETH_DEV := d\<rparr>) \<and> log (chip d) = log (dev_chip s) @ ws \<and>
    decode_tx ws = Some (segments True (map (pbuf_bytes s) qs)) \<and>
    map seg_bytes (segments True (map (pbuf_bytes s) qs)) = map (pbuf_bytes s) qs \<and>
    (\<forall>seg \<in> set (segments True (map (pbuf_bytes s) qs)). seg_packet_length seg = unat (pb_tot_len (pbufs s p)) \<longleftrightarrow> length qs = 1)"
proof -
  let ?n = "unat (pb_tot_len (pbufs s p))" and ?bss = "map (pbuf_bytes s) qs"
  have "?n < 2 ^ 16" using unsigned_less [of "pb_tot_len (pbufs s p)"] by simp
  moreover have "ucast (pb_tot_len (pbufs s p)) = (of_nat ?n :: u32)" by simp
  ultimately have out: "\<exists>d ws. low_level_output B p s = Some (ERR_OK, s\<lparr>SMSC9220_ETH_DEV := d\<rparr>) \<and> log (chip d) = log (dev_chip s) @ ws \<and>
      decode_tx ws = Some (segments True ?bss)"
    using output_loop_log [OF assms(1,2,4), of 0 ?n True] assms(5,6) unfolding low_level_output_def by simp
  have ne: "list_all ((\<noteq>) []) ?bss" using assms(4) by (auto simp: list_all_iff sendable_def)
  have n: "length (concat ?bss) = ?n" using assms(5) by (simp add: length_concat comp_def)
  have "\<forall>seg \<in> set (segments True ?bss). seg_packet_length seg = ?n \<longleftrightarrow> length qs = 1"
    using segments_length [OF ne, of _ True] by (simp only: n length_map) blast
  then show ?thesis using out segments_bytes [of True ?bss] by blast
qed

lemma lan_tx_hw: "tx_hw lan_bus tx_words tx_room"
  unfolding tx_hw_def lan_bus_simps
proof (intro conjI allI)
  fix c :: lan
  have "tx_room c < 2 ^ 16" by (simp add: tx_room_def)
  then show "unat (GET_BIT_FIELD 0xFFFF 0 (fst (lan_read tx_fifo_inf c))) = tx_room c"
    unfolding lan_read_def using low_half [of "tx_room c"] unat_small [of "tx_room c"] by simp
qed (auto simp: lan_read_def lan_write_def tx_room_def)

theorem output_sends_packet_witness:
  "\<exists>d ws. low_level_output lan_bus 7000 (demo_eth (demo_chip [] [])) =
       Some (ERR_OK, (demo_eth (demo_chip [] []))\<lparr>SMSC9220_ETH_DEV := d\<rparr>) \<and>
     tx_words (chip d) = ws \<and> decode_tx ws = Some [chunk True False [0, 0, 0], chunk False True [0, 0]]"
proof -
  let ?s = "demo_eth (demo_chip [] [])"
  have b: "pbuf_bytes ?s 7000 = [0, 0, 0]" "pbuf_bytes ?s 7100 = [0, 0]"
    by (simp_all add: pbuf_bytes_def bytes_at_def demo_pbufs_def upt_rec)
  have "\<exists>d ws. low_level_output lan_bus 7000 ?s = Some (ERR_OK, ?s\<lparr>SMSC9220_ETH_DEV := d\<rparr>) \<and>
      tx_words (chip d) = tx_words (dev_chip ?s) @ ws \<and> decode_tx ws = Some (segments True (map (pbuf_bytes ?s) [7000, 7100])) \<and>
      map seg_bytes (segments True (map (pbuf_bytes ?s) [7000, 7100])) = map (pbuf_bytes ?s) [7000, 7100] \<and>
      (\<forall>seg \<in> set (segments True (map (pbuf_bytes ?s) [7000, 7100])).
         seg_packet_length seg = unat (pb_tot_len (pbufs ?s 7000)) \<longleftrightarrow> length [7000 :: addr, 7100] = 1)"
    by (rule output_sends_packet [OF lan_tx_hw])
      (simp_all add: b sendable_def, simp_all add: demo_pbufs_def demo_chip_def tx_room_def)
  moreover have "tx_words (dev_chip ?s) = []" by (simp add: demo_chip_def)
  ultimately show ?thesis by (auto simp: b)
qed

end
