(* ===== verification/FR_Notify.thy ===== *)
theory FR_Notify
  imports FR_Scheduler
begin

text \<open>
  Direct to task notifications: a task that takes a notification it does not have blocks, and a give by an
  interrupt makes it ready with the notification counted.
\<close>

lemma set_notify_simps [simp]:
  "tcb (set_nstate t x v k) = (tcb k)(t := (tcb k t)\<lparr>ucNotifyState := (ucNotifyState (tcb k t))(x := v)\<rparr>)"
  "tcb (set_nvalue t x n k) = (tcb k)(t := (tcb k t)\<lparr>ulNotifiedValue := (ulNotifiedValue (tcb k t))(x := n)\<rparr>)"
  "lists (set_nstate t x v k) = lists k" "lists (set_nvalue t x n k) = lists k"
  "pxCurrentTCB (set_nstate t x v k) = pxCurrentTCB k" "pxCurrentTCB (set_nvalue t x n k) = pxCurrentTCB k"
  "uxSchedulerSuspended (set_nstate t x v k) = uxSchedulerSuspended k" "uxSchedulerSuspended (set_nvalue t x n k) = uxSchedulerSuspended k"
  "pendSV (set_nstate t x v k) = pendSV k" "pendSV (set_nvalue t x n k) = pendSV k"
  "xPendedTicks (set_nstate t x v k) = xPendedTicks k" "xPendedTicks (set_nvalue t x n k) = xPendedTicks k"
  "uxCurrentNumberOfTasks (set_nstate t x v k) = uxCurrentNumberOfTasks k" "uxCurrentNumberOfTasks (set_nvalue t x n k) = uxCurrentNumberOfTasks k"
  "sched.more (set_nstate t x v k) = sched.more k" "sched.more (set_nvalue t x n k) = sched.more k"
  by (simp_all add: set_nstate_def set_nvalue_def)

lemma core_inv_set_notify:
  "core_inv X strict k \<Longrightarrow> core_inv X strict (set_nstate t x v k)" "core_inv X strict k \<Longrightarrow> core_inv X strict (set_nvalue t x n k)"
  unfolding set_nstate_def set_nvalue_def by (rule core_inv_upd_tcb; simp add: core_invD(5))+

text \<open>The count is 0: the running task blocks, marked as waiting for the notification.\<close>

lemma take_blocks:
  assumes inv: "sched_inv k" "running_ready k" "uxSchedulerSuspended k = 0" "xPendedTicks k = 0" "0 < uxCurrentNumberOfTasks k"
    and np: "items k xPendingReadyList = []" and e: "container k (EventItem (pxCurrentTCB k)) = None"
    and x: "x < configTASK_NOTIFICATION_ARRAY_ENTRIES" and z: "nvalue k (pxCurrentTCB k) x = 0" and w: "w \<noteq> 0"
  obtains k' where "ulTaskGenericNotifyTake_enter x w k = Some k'" "sched_inv k'" "uxSchedulerSuspended k' = 0" "pendSV k'"
    "blocked k' (pxCurrentTCB k)" "nstate k' (pxCurrentTCB k) x = taskWAITING_NOTIFICATION" "nvalue k' (pxCurrentTCB k) x = 0"
    "pxCurrentTCB k' = pxCurrentTCB k" "prio k' = prio k" "sched.more k' = sched.more k"
    "\<And>i. i \<noteq> StateItem (pxCurrentTCB k) \<Longrightarrow> container k' i = container k i"
proof -
  let ?c = "pxCurrentTCB k"
  define k0 where "k0 = set_nstate ?c x taskWAITING_NOTIFICATION (vTaskSuspendAll k)"
  have inv0: "sched_inv k0" "running_ready k0"
    using inv(1,2) by (simp_all add: k0_def vTaskSuspendAll_def core_inv_set_notify running_ready_def)
  have k0: "pxCurrentTCB k0 = ?c" "lists k0 = lists k" "uxSchedulerSuspended k0 = 1" "xPendedTicks k0 = 0"
    "uxCurrentNumberOfTasks k0 = uxCurrentNumberOfTasks k" "sched.more k0 = sched.more k"
    "tcb k0 = (tcb k)(?c := (tcb k ?c)\<lparr>ucNotifyState := (ucNotifyState (tcb k ?c))(x := taskWAITING_NOTIFICATION)\<rparr>)"
    using inv(3,4) by (simp_all add: k0_def vTaskSuspendAll_def)
  obtain s b n k1 where k1: "k1 = upd_tcb (pxCurrentTCB k0) (\<lambda>t. t\<lparr>ucDelayAborted := False\<rparr>)
        (k0\<lparr>lists := s, uxTopReadyPriority := b, xNextTaskUnblockTime := n\<rparr>)"
    "prvAddCurrentTaskToDelayedList w True k0 = Some k1" "sched_inv k1"
    "\<And>i. i \<noteq> StateItem (pxCurrentTCB k0) \<Longrightarrow> container k1 i = container k0 i \<and> liValue s i = liValue (lists k0) i"
    "w = portMAX_DELAY \<and> True \<Longrightarrow> container k1 (StateItem (pxCurrentTCB k0)) = Some xSuspendedTaskList"
    "\<not> (w = portMAX_DELAY \<and> True) \<Longrightarrow> wake k1 (pxCurrentTCB k0) = xTickCount k0 + w \<and>
       container k1 (StateItem (pxCurrentTCB k0)) =
         Some (if xTickCount k0 + w < xTickCount k0 then pxOverflowDelayedTaskList k0 else pxDelayedTaskList k0)"
    by (rule prvAddCurrentTaskToDelayedList_inv [OF inv0 w]) blast
  have bl: "blocked k1 ?c"
    using k1(5,6) delayed_ptrs(1,2) [OF inv0(1)] by (cases "w = portMAX_DELAY") (auto simp: blocked_def k0)
  have f1: "uxSchedulerSuspended k1 = Suc 0" "0 < uxCurrentNumberOfTasks k1" "xPendedTicks k1 = 0" "pxCurrentTCB k1 = ?c"
    "sched.more k1 = sched.more k"
    "tcb k1 = (tcb k)(?c := (tcb k ?c)\<lparr>ucNotifyState := (ucNotifyState (tcb k ?c))(x := taskWAITING_NOTIFICATION), ucDelayAborted := False\<rparr>)"
    unfolding k1(1) using inv(5) by (simp_all add: k0)
  obtain y k2 where k2: "xTaskResumeAll k1 = Some (y, k2)" "sched_inv k2" "resume_frame k1 k2" "uxSchedulerSuspended k2 = 0"
    "pendSV k2 \<longleftrightarrow> y \<or> pendSV k1"
    "\<forall>t. xPendedTicks k1 = 0 \<longrightarrow> container k1 (EventItem t) \<noteq> Some xPendingReadyList \<longrightarrow>
       container k2 (StateItem t) = container k1 (StateItem t) \<and> container k2 (EventItem t) = container k1 (EventItem t)"
    by (rule xTaskResumeAll_inv [OF k1(3) f1(1,2)]) blast
  have npk: "container k i \<noteq> Some xPendingReadyList" for i using lists_ok_nil [OF core_invD(1) [OF inv(1)]] np by blast
  have c2: "container k2 i = container k1 i" for i
  proof -
    have "container k1 (EventItem t) \<noteq> Some xPendingReadyList" for t using k1(4) [of "EventItem t"] npk by (simp add: k0)
    then show ?thesis using k2(6) f1(3) by (cases i) simp_all
  qed
  let ?k' = "if \<not> y then portYIELD k2 else k2"
  have run: "ulTaskGenericNotifyTake_enter x w k = Some ?k'"
    using x z w k1(2) k2(1) by (simp add: ulTaskGenericNotifyTake_enter_def notify_block_def word_gt_0 Let_def k0_def vTaskSuspendAll_def)
  have f2: "pxCurrentTCB k2 = ?c" "tcb k2 = tcb k1" "sched.more k2 = sched.more k" using k2(3) f1 by (simp_all add: resume_frame_def)
  show ?thesis
  proof (rule that [OF run])
    show "container ?k' i = container k i" if "i \<noteq> StateItem ?c" for i
      using c2 k1(4) [of i] that by (simp add: portYIELD_def k0)
    show "blocked ?k' ?c" using bl c2 by (simp add: portYIELD_def blocked_def)
    show "prio ?k' = prio k" by (rule ext) (simp add: portYIELD_def f2 f1)
  qed (use k2(2,4,5) f2 f1 z in \<open>simp_all add: portYIELD_def\<close>)
qed

text \<open>A give by an interrupt to a task that waits for it.\<close>

lemma give_from_isr_wakes:
  assumes inv: "sched_inv k" and s: "uxSchedulerSuspended k = 0" and t: "blocked k t" "container k (EventItem t) = None"
    and w: "nstate k t x = taskWAITING_NOTIFICATION" and x: "x < configTASK_NOTIFICATION_ARRAY_ENTRIES"
  obtains k' where "vTaskGenericNotifyGiveFromISR t x k = Some (prio k (pxCurrentTCB k) < prio k t, k')" "sched_inv k'"
    "container k' (StateItem t) = Some (pxReadyTasksLists (prio k t))" "nvalue k' t x = nvalue k t x + 1"
    "nstate k' t x = taskNOTIFICATION_RECEIVED" "pxCurrentTCB k' = pxCurrentTCB k" "prio k' = prio k" "sched.more k' = sched.more k"
    "pendSV k' = pendSV k" "\<And>i. i \<noteq> StateItem t \<Longrightarrow> container k' i = container k i"
proof -
  obtain l where l: "container k (StateItem t) = Some l" "\<And>p. l \<noteq> pxReadyTasksLists p"
    using t(1) by (auto simp: blocked_def)
  have t0: "t \<noteq> 0" using core_invD(3) [OF inv, of "StateItem 0"] l(1) by (cases "t = 0") simp_all
  define k0 where "k0 = set_nvalue t x (nvalue k t x + 1) (set_nstate t x taskNOTIFICATION_RECEIVED k)"
  have inv0: "sched_inv k0" unfolding k0_def by (intro core_inv_set_notify inv)
  have k0: "lists k0 = lists k" "uxSchedulerSuspended k0 = 0" "pxCurrentTCB k0 = pxCurrentTCB k" "sched.more k0 = sched.more k" "pendSV k0 = pendSV k"
    "tcb k0 = (tcb k)(t := (tcb k t)\<lparr>ucNotifyState := (ucNotifyState (tcb k t))(x := taskNOTIFICATION_RECEIVED),
       ulNotifiedValue := (ulNotifiedValue (tcb k t))(x := nvalue k t x + 1)\<rparr>)"
    using s by (simp_all add: k0_def)
  define k1 where "k1 = k0\<lparr>lists := ls_del l (StateItem t) (lists k0)\<rparr>"
  have inv1: "sched_inv k1" unfolding k1_def by (rule core_inv_del_state [OF inv0]) (use l t(2) in \<open>simp_all add: k0\<close>)
  define k2 where "k2 = prvAddTaskToReadyList t k1"
  have inv2: "sched_inv k2"
    unfolding k2_def by (rule core_inv_add_ready [OF inv1 _ t0]) (use t(2) in \<open>simp_all add: k1_def k0\<close>)
  have rm: "listREMOVE_ITEM (StateItem t) k0 = Some k1" unfolding k1_def by (rule listREMOVE_ITEM_eq) (simp add: k0 l(1))
  have p: "prio k2 u = prio k u" for u by (simp add: k2_def k1_def k0)
  have k2: "pxCurrentTCB k2 = pxCurrentTCB k" "sched.more k2 = sched.more k" "pendSV k2 = pendSV k" "tcb k2 = tcb k0" by (simp_all add: k2_def k1_def k0)
  let ?k' = "if prio k (pxCurrentTCB k) < prio k t then k2\<lparr>xYieldPending := True\<rparr> else k2"
  have run: "vTaskGenericNotifyGiveFromISR t x k = Some (prio k (pxCurrentTCB k) < prio k t, ?k')"
    using t0 x w t(2) rm unfolding vTaskGenericNotifyGiveFromISR_def Let_def
    by (simp add: k0 p k2(1) flip: k0_def k2_def)
  show ?thesis
  proof (rule that [OF run])
    show "container ?k' i = container k i" if "i \<noteq> StateItem t" for i using that by (simp add: k2_def k1_def k0)
    show "prio ?k' = prio k" by (rule ext) (simp add: p)
    show "container ?k' (StateItem t) = Some (pxReadyTasksLists (prio k t))" by (simp add: k2_def k1_def k0)
  qed (use inv2 k2 in \<open>simp_all add: k0\<close>)
qed

end
