(* ===== verification/Ethernet_Isr.thy ===== *)
theory Ethernet_Isr
  imports Ethernet_Props FR_Notify
begin

text \<open>
  The Ethernet interrupt and the receiving task: the interrupt wakes the task and masks itself in the controller, and the
  initialisation of the interface sets up what both rely on.
\<close>

section \<open>The interrupt\<close>

text \<open>The interrupt enable register of the controller keeps what is written to it.\<close>

definition irq_hw :: "'d bus \<Rightarrow> ('d \<Rightarrow> u32) \<Rightarrow> bool" where
  "irq_hw B en \<longleftrightarrow> (\<forall>c. fst (bus_read B irq_enable c) = en c \<and> en (snd (bus_read B irq_enable c)) = en c) \<and>
     (\<forall>c v. en (bus_write B irq_enable v c) = v) \<and>
     (\<forall>c. \<forall>r \<in> {irq_status, fifo_level_irq}. en (snd (bus_read B r c)) = en c \<and> (\<forall>v. en (bus_write B r v c) = en c))"

text \<open>The processor's registers let the Ethernet interrupt, number 29, call the kernel.\<close>

definition eth_irq_allowed :: "'a nvic_scheme \<Rightarrow> bool" where
  "eth_irq_allowed c \<longleftrightarrow> ucMaxSysCallPriority c \<le> ip_registers c 29 \<and> aircr c AND portPRIORITY_GROUP_MASK \<le> ulMaxPRIGROUPValue c"

lemma validate_eth_irq: "eth_irq_allowed c \<Longrightarrow> vPortValidateInterruptPriority (c\<lparr>vectactive := 29\<rparr>) = Some ()"
  by (simp add: vPortValidateInterruptPriority_def eth_irq_allowed_def portFIRST_USER_INTERRUPT_NUMBER_def)

lemma bit3: "bit (v :: u32) 3 \<Longrightarrow> v AND 8 \<noteq> 0"
  using and_exp_eq_0_iff_not_bit [of v 3] by simp

lemma eth_board_more: "sched.more s' = sched.more (s :: ('d, 'z) eth_scheme) \<Longrightarrow> nvic_regs s' = nvic_regs s \<and> xRxTaskHandle s' = xRxTaskHandle s"
  by (cases s; cases s') simp

lemma on_dev_frame:
  "snd (on_dev m s) = s\<lparr>SMSC9220_ETH_DEV := snd (run_state m (SMSC9220_ETH_DEV s))\<rparr>"
  "fst (on_dev m s) = fst (run_state m (SMSC9220_ETH_DEV s))"
  by (simp_all add: on_dev_def split_beta)

lemma EthernetISR_wakes:
  assumes inv: "sched_inv s" and su: "uxSchedulerSuspended s = 0" and t: "blocked s t" "container s (EventItem t) = None"
    and w: "nstate s t 0 = taskWAITING_NOTIFICATION" and h: "xRxTaskHandle s = t"
    and v: "vPortValidateInterruptPriority (nvic_regs s) = Some ()" and hw: "irq_hw B en"
    and st: "bit (fst (bus_read B irq_status (dev_chip s))) 3"
  obtains s' where "EthernetISR B s = Some s'" "container s' (StateItem t) = Some (pxReadyTasksLists (prio s t))"
    "nvalue s' t 0 = nvalue s t 0 + 1" "pendSV s' \<longleftrightarrow> pendSV s \<or> prio s (pxCurrentTCB s) < prio s t"
    "en (dev_chip s') = CLR_BIT 3 (en (dev_chip s))" "sched_inv s'"
proof -
  let ?d0 = "snd (run_state (get_irq_status B) (SMSC9220_ETH_DEV s))"
  let ?s = "s\<lparr>SMSC9220_ETH_DEV := ?d0\<rparr>"
  have inv0: "sched_inv ?s" using inv by (simp add: core_inv_def blocked_def)
  have t0: "t \<noteq> 0" using core_invD(3) [OF inv, of "StateItem 0"] t(1) by (cases "t = 0") (auto simp: blocked_def)
  have x: "0 < configTASK_NOTIFICATION_ARRAY_ENTRIES" by (simp add: configTASK_NOTIFICATION_ARRAY_ENTRIES_def)
  obtain s1 where s1: "vTaskGenericNotifyGiveFromISR t 0 ?s = Some (prio ?s (pxCurrentTCB ?s) < prio ?s t, s1)" "sched_inv s1"
    "container s1 (StateItem t) = Some (pxReadyTasksLists (prio ?s t))" "nvalue s1 t 0 = nvalue ?s t 0 + 1"
    "sched.more s1 = sched.more ?s" "pendSV s1 = pendSV ?s"
    by (rule give_from_isr_wakes [OF inv0 _ _ _ _ x, of t]) (use su t w in \<open>simp_all add: blocked_def\<close>)
  have d1: "SMSC9220_ETH_DEV s1 = ?d0" using more_eth [OF s1(5)] by simp
  define m where "m = do { smsc9220_clear_interrupt B 3; smsc9220_disable_interrupt B 3; smsc9220_clear_all_interrupts B }"
  define s2 where "s2 = s1\<lparr>SMSC9220_ETH_DEV := snd (run_state m ?d0)\<rparr>"
  let ?y = "prio s (pxCurrentTCB s) < prio s t"
  have run: "EthernetISR B s = Some (if ?y then portYIELD s2 else s2)"
    using bit3 [OF st] h t0 v s1(1) unfolding EthernetISR_def vTaskNotifyGiveFromISR_def Let_def
    by (simp add: on_dev_def split_beta get_irq_status_def d1 s2_def m_def SMSC9220_INTERRUPT_RX_STATUS_FIFO_LEVEL_def
        smsc9220_clear_interrupt_def smsc9220_disable_interrupt_def smsc9220_clear_all_interrupts_def update_reg_def)
  have en: "en (chip (snd (run_state m ?d0))) = CLR_BIT 3 (en (dev_chip s))"
    using hw by (simp add: m_def irq_hw_def get_irq_status_def smsc9220_clear_interrupt_def smsc9220_disable_interrupt_def
        smsc9220_clear_all_interrupts_def update_reg_def)
  show ?thesis
    using s1 en by (intro that [OF run]) (auto simp: s2_def portYIELD_def core_inv_def blocked_def)
qed


text \<open>
  C31: An arriving frame wakes the receiving task. The task, running with no notification, waits for one: it
  blocks and requests a switch, and the switch runs another task. When the controller then raises the Ethernet interrupt
  with the receive level bit set, the service routine runs through, the task is ready, the
  controller's receive interrupt is masked (and no other), and a switch is requested exactly if the receiving
  task has a higher priority than the interrupted one. When the task runs again its wait returns 1, and it
  goes on to read the frames with the notification cleared.
\<close>

theorem interrupt_wakes_receiver:
  assumes s: "sched_inv s" "running_ready s" "uxSchedulerSuspended s = 0" "xPendedTicks s = 0" "0 < uxCurrentNumberOfTasks s"
      "items s xPendingReadyList = []"
    and rx: "xRxTaskHandle s = pxCurrentTCB s" "nvalue s (pxCurrentTCB s) 0 = 0"
    and u: "container s (StateItem u) = Some (pxReadyTasksLists p)" "u \<noteq> pxCurrentTCB s"
    and hw: "irq_hw B en" "eth_irq_allowed (nvic_regs s)" "bit (fst (bus_read B irq_status (chip d))) 3"
  shows "\<exists>s1 s2 s3 s4. ethernetif_input_task B L netif (Rx_Wait, s) = Some ([], Rx_Taken, s1) \<and>
    blocked s1 (pxCurrentTCB s) \<and> pendSV s1 \<and> xPortPendSVHandler s1 = Some s2 \<and> pxCurrentTCB s2 \<noteq> pxCurrentTCB s \<and>
    EthernetISR B (s2\<lparr>SMSC9220_ETH_DEV := d, nvic_regs := (nvic_regs s2)\<lparr>vectactive := 29\<rparr>\<rparr>) = Some s3 \<and>
    container s3 (StateItem (pxCurrentTCB s)) = Some (pxReadyTasksLists (prio s (pxCurrentTCB s))) \<and>
    en (dev_chip s3) = CLR_BIT 3 (en (chip d)) \<and> (pendSV s3 \<longleftrightarrow> prio s (pxCurrentTCB s2) < prio s (pxCurrentTCB s)) \<and>
    fst (ulTaskGenericNotifyTake_exit 0 True (s3\<lparr>pxCurrentTCB := pxCurrentTCB s\<rparr>)) = 1 \<and>
    ethernetif_input_task B L netif (Rx_Taken, s3\<lparr>pxCurrentTCB := pxCurrentTCB s\<rparr>) = Some ([], Rx_Peek, s4) \<and>
    nvalue s4 (pxCurrentTCB s) 0 = 0"
proof -
  let ?c = "pxCurrentTCB s"
  have x: "0 < configTASK_NOTIFICATION_ARRAY_ENTRIES" by (simp add: configTASK_NOTIFICATION_ARRAY_ENTRIES_def)
  have ev: "container s (EventItem ?c) = None" by (rule running_no_event [OF s(1,2)]) simp
  have mx: "portMAX_DELAY \<noteq> 0" by (simp add: portMAX_DELAY_def)
  obtain s1 where s1: "ulTaskGenericNotifyTake_enter 0 portMAX_DELAY s = Some s1" "sched_inv s1" "uxSchedulerSuspended s1 = 0" "pendSV s1"
    "blocked s1 ?c" "nstate s1 ?c 0 = taskWAITING_NOTIFICATION" "nvalue s1 ?c 0 = 0" "pxCurrentTCB s1 = ?c" "prio s1 = prio s"
    "sched.more s1 = sched.more s" "\<forall>i. i \<noteq> StateItem ?c \<longrightarrow> container s1 i = container s i"
    by (rule take_blocks [OF s ev x rx(2) mx]) blast
  let ?k = "s1\<lparr>pendSV := False\<rparr>"
  have cu: "container ?k (StateItem u) = Some (pxReadyTasksLists p)" using s1(11) u by simp
  obtain t2 s2 where s2: "vTaskSwitchContext ?k = Some s2" "s2 = ?k\<lparr>xYieldPending := False, lists := lists s2, pxCurrentTCB := t2\<rparr>"
    "sched_inv s2" "running_ready s2" "\<forall>i. container s2 i = container ?k i"
    by (rule vTaskSwitchContext_inv [OF _ _ cu]) (use s1(2,3) in auto)
  have f2: "tcb s2 = tcb s1" "uxSchedulerSuspended s2 = 0" "pxCurrentTCB s2 = t2" "pendSV s2 = False" "sched.more s2 = sched.more s"
    by (subst s2(2), simp add: s1)+
  have "t2 \<noteq> ?c" using s2(4,5) f2(3) s1(5) by (auto simp: running_ready_def blocked_def)
  let ?i = "s2\<lparr>SMSC9220_ETH_DEV := d, nvic_regs := (nvic_regs s2)\<lparr>vectactive := 29\<rparr>\<rparr>"
  note m = eth_board_more [OF f2(5)]
  have val: "vPortValidateInterruptPriority (nvic_regs ?i) = Some ()" using validate_eth_irq [OF hw(2)] m by simp
  obtain s3 where s3: "EthernetISR B ?i = Some s3" "container s3 (StateItem ?c) = Some (pxReadyTasksLists (prio ?i ?c))"
    "nvalue s3 ?c 0 = nvalue ?i ?c 0 + 1" "pendSV s3 \<longleftrightarrow> pendSV ?i \<or> prio ?i (pxCurrentTCB ?i) < prio ?i ?c"
    "en (dev_chip s3) = CLR_BIT 3 (en (dev_chip ?i))"
  proof (rule EthernetISR_wakes [OF _ _ _ _ _ _ val hw(1)])
    show "sched_inv ?i" using s2(3) by (simp add: core_inv_def blocked_def)
    show "blocked ?i ?c" using s1(5) s2(5) by (simp add: blocked_def)
    show "container ?i (EventItem ?c) = None" using s2(5) s1(11) ev by simp
    show "nstate ?i ?c 0 = taskWAITING_NOTIFICATION" using s1(6) f2(1) by simp
    show "xRxTaskHandle ?i = ?c" using m rx(1) by simp
  qed (use f2 hw(3) in auto)
  have p: "prio s1 t = prio s t" for t using s1(9) by (rule fun_cong)
  have nv: "nvalue s3 ?c 0 = 1" using s3(3) f2(1) s1(7) by simp
  let ?j = "s3\<lparr>pxCurrentTCB := ?c\<rparr>"
  have "ethernetif_input_task B L netif (Rx_Taken, ?j) = Some ([], Rx_Peek, snd (ulTaskGenericNotifyTake_exit 0 True ?j))"
    by (simp add: split_beta)
  moreover have "nvalue (snd (ulTaskGenericNotifyTake_exit 0 True ?j)) ?c 0 = 0" "fst (ulTaskGenericNotifyTake_exit 0 True ?j) = 1"
    using nv by (simp_all add: ulTaskGenericNotifyTake_exit_def Let_def)
  moreover have "ethernetif_input_task B L netif (Rx_Wait, s) = Some ([], Rx_Taken, s1)" using s1(1) by simp
  moreover have "xPortPendSVHandler s1 = Some s2" using s2(1) by (simp add: xPortPendSVHandler_def)
  ultimately show ?thesis
    using s1(4,5) s3(1,2,4,5) \<open>t2 \<noteq> ?c\<close> f2 p
    by (intro exI [of _ s1] exI [of _ s2] exI [of _ s3] exI [of _ "snd (ulTaskGenericNotifyTake_exit 0 True ?j)"])
      (simp del: ethernetif_input_task.simps)
qed

section \<open>Initialisation\<close>

lemma eth_priority:
  assumes "n \<in> {6, 7, 8}" "ip_mask c = priority_mask n"
  shows "ip_registers (NVIC_SetPriority 13 configMAX_SYSCALL_INTERRUPT_PRIORITY c) 29 = 128"
    "NVIC_SetPriority 13 configMAX_SYSCALL_INTERRUPT_PRIORITY c = c\<lparr>ip_registers := (ip_registers c)(29 := 128)\<rparr>"
proof -
  have "128 AND priority_mask n = 128" using assms(1) by (elim insertE emptyE; simp add: priority_masks)
  then show "NVIC_SetPriority 13 configMAX_SYSCALL_INTERRUPT_PRIORITY c = c\<lparr>ip_registers := (ip_registers c)(29 := 128)\<rparr>"
    by (simp add: NVIC_SetPriority_def write_priority_def NVIC_PRIO_BITS_def configMAX_SYSCALL_INTERRUPT_PRIORITY_def
        portFIRST_USER_INTERRUPT_NUMBER_def assms(2))
  then show "ip_registers (NVIC_SetPriority 13 configMAX_SYSCALL_INTERRUPT_PRIORITY c) 29 = 128" by simp
qed

lemma in_task_eth:
  "in_task (s\<lparr>nvic_enabled := e, nvic_regs := c, SMSC9220_ETH_DEV := d\<rparr>) = in_task s"
  by (rule in_task_cong) (simp_all add: core_inv_def blocked_def)

text \<open>A sleep of the driver blocks the calling task for as many ticks as milliseconds.\<close>

lemma prvWait_ms_blocks:
  assumes "sched_inv k" "running_ready k" "uxSchedulerSuspended k = 0" "xPendedTicks k = 0" "0 < uxCurrentNumberOfTasks k" "ms \<noteq> 0"
  obtains k' where "prvWait_ms ms k = Some k'" "sched_inv k'" "pendSV k'" "delayed k' (pxCurrentTCB k)"
    "left_to_wait k' (pxCurrentTCB k) = unat ms"
  using vTaskDelay_blocks [OF assms] unfolding prvWait_ms_def pdMS_TO_TICKS_id by blast

text \<open>
  C32: The initialisation of the interface prepares reception. The reset of the controller and the two writes of the
  hardware address sleep; when they are over and the calling task runs again, in a task, with room in the
  heap for the receiving task and the port started on six to eight priority bits, the rest of
  \<^verbatim>\<open>ethernetif_init\<close> returns \<^verbatim>\<open>ERR_OK\<close>: the receiving task exists, ready at priority 6 with the interface as its parameter, and
  the service routine has its handle; of the controller's interrupts exactly the receive level interrupt is
  enabled; interrupt 13 is enabled at priority 128, which passes the kernel's check. The address words
  taken before the sleeps are those of 00:08:29:11:22:33.
\<close>

theorem interface_init_prepares:
  assumes s: "in_task s" "has_room (heap s) 4233" and hw: "irq_hw B en"
    and port: "n \<in> {6, 7, 8}" "ip_mask (nvic_regs s) = priority_mask n" "ucMaxSysCallPriority (nvic_regs s) = 4"
      "aircr (nvic_regs s) AND portPRIORITY_GROUP_MASK \<le> ulMaxPRIGROUPValue (nvic_regs s)"
  shows "\<exists>new s'. ethernetif_init_rest B input_task netif s = Some (ERR_OK, s') \<and>
    new \<noteq> 0 \<and> xRxTaskHandle s' = new \<and> container s' (StateItem new) = Some (pxReadyTasksLists 6) \<and>
    pxTaskCode (tcb s' new) = input_task \<and> pvParameters (tcb s' new) = netif \<and>
    en (dev_chip s') = 8 \<and> bit (nvic_enabled s') 13 \<and> eth_irq_allowed (nvic_regs s') \<and>
    fst (ethernetif_init_start B out linkout netif s0) = (0x11290800, 0x3322)"
proof -
  define mac where "mac = fst (ethernetif_init_start B out linkout netif s0)"
  define m where "m = do { smsc9220_disable_all_interrupts B; smsc9220_clear_all_interrupts B;
    _ \<leftarrow> smsc9220_set_fifo_level_irq B SMSC9220_FIFO_LEVEL_IRQ_RX_STATUS_POS SMSC9220_FIFO_LEVEL_IRQ_LEVEL_MIN;
    smsc9220_enable_interrupt B SMSC9220_INTERRUPT_RX_STATUS_FIFO_LEVEL }"
  define d where "d = snd (run_state m (SMSC9220_ETH_DEV s))"
  define c where "c = (nvic_regs s)\<lparr>ip_registers := (ip_registers (nvic_regs s))(29 := 128)\<rparr>"
  define s1 where "s1 = s\<lparr>nvic_enabled := nvic_enabled s AND NOT (push_bit 13 1), nvic_regs := c, SMSC9220_ETH_DEV := d\<rparr>"
  have en: "en (chip d) = 8"
    using hw by (simp add: d_def m_def irq_hw_def split_beta smsc9220_disable_all_interrupts_def smsc9220_clear_all_interrupts_def
        smsc9220_set_fifo_level_irq_def smsc9220_enable_interrupt_def update_reg_def SMSC9220_FIFO_LEVEL_IRQ_LEVEL_MIN_def
        SMSC9220_INTERRUPT_RX_STATUS_FIFO_LEVEL_def SET_BIT_def)
  have sz: "adjusted_size (1024 * 4) = 4104" "adjusted_size sizeof_TCB = 112" "heapMINIMUM_BLOCK_SIZE < 17"
    by (simp_all add: adjusted_size_def sizeof_TCB_def heap_defs cfg_defs)
  have room: "has_room (heap s1) (adjusted_size (1024 * 4) + (adjusted_size sizeof_TCB + 17))" "0 < adjusted_size (1024 * 4)"
    unfolding sz using s(2) by (simp_all add: s1_def)
  have it: "in_task s1" using s(1) by (simp add: s1_def in_task_eth)
  have p6: "configMAX_PRIORITIES - 3 < configMAX_PRIORITIES" "configMAX_PRIORITIES - 3 = 6" by (simp_all add: configMAX_PRIORITIES_def)
  obtain new stack k s2 where s2: "xTaskCreate input_task ''LWIP_RX'' 1024 netif (configMAX_PRIORITIES - 3) s1 = Some (new, s2)" "new \<noteq> 0"
    "tcb s2 = (tcb s1)(new := (new_tcb input_task ''LWIP_RX'' netif (configMAX_PRIORITIES - 3) stack)\<lparr>uxTCBNumber := k\<rparr>)"
    "container s2 (StateItem new) = Some (pxReadyTasksLists (configMAX_PRIORITIES - 3))" "sched.more s2 = sched.more s1"
    by (rule xTaskCreate_granted [OF it p6(1) _ _ room(2,1) sz(3), where code = input_task and name = "''LWIP_RX''" and params = netif]) auto
  let ?s = "s2\<lparr>xRxTaskHandle := new, nvic_enabled := nvic_enabled s2 OR push_bit 13 1\<rparr>"
  have run: "ethernetif_init_rest B input_task netif s = Some (ERR_OK, ?s)"
    using s2(1,2) eth_priority(2) [OF port(1,2)]
    unfolding ethernetif_init_rest_def low_level_init_rest_def Let_def on_dev_def split_beta
    by (simp add: s1_def d_def m_def c_def split_beta)
  have m2: "nvic_regs s2 = c" "SMSC9220_ETH_DEV s2 = d"
    using eth_board_more [OF s2(5)] more_eth [OF s2(5)] by (simp_all add: s1_def)
  have "mac = (0x11290800, 0x3322)"
    by (simp add: mac_def ethernetif_init_start_def configure_netif_def upd_netif_def mac_words_def low_level_init_start_def Let_def)
  moreover have "eth_irq_allowed c" using port(3,4) by (simp add: eth_irq_allowed_def c_def)
  ultimately show ?thesis
    using run s2(2-4) m2 en by (intro exI [of _ new] exI [of _ ?s]) (simp add: p6(2) new_tcb_def bit_or_iff bit_exp_iff flip: mac_def)
qed

section \<open>An example\<close>

lemma lan_irq_hw: "irq_hw lan_bus (\<lambda>c. regs c irq_enable)"
  by (auto simp: irq_hw_def lan_read_def lan_write_def)

lemma demo_eth_inv: "sched_inv (demo_eth c)" "running_ready (demo_eth c)" "items (demo_eth c) xPendingReadyList = []"
proof -
  show "sched_inv (demo_eth c)"
    using demo_inv by (simp add: core_inv_def blocked_def demo_eth_def eth.defs net.defs board.defs tmr.defs kernel.defs sched.defs)
  show "running_ready (demo_eth c)" using demo_running by (simp add: running_ready_def)
  show "items (demo_eth c) xPendingReadyList = []" using demo_other_lists by simp
qed

lemma demo_eth_irq: "eth_irq_allowed ((started 8 demo_image demo_nvic)\<lparr>vectactive := 0\<rparr>)"
  by (simp add: eth_irq_allowed_def started_def demo_nvic_def prigroup_limit_def)

theorem interrupt_wakes_receiver_witness:
  "\<exists>s1 s2 s3. ethernetif_input_task lan_bus idle_lwip 5 (Rx_Wait, demo_eth (demo_chip [] [])) = Some ([], Rx_Taken, s1) \<and>
     xPortPendSVHandler s1 = Some s2 \<and>
     EthernetISR lan_bus (s2\<lparr>SMSC9220_ETH_DEV := demo_dev demo_full, nvic_regs := (nvic_regs s2)\<lparr>vectactive := 29\<rparr>\<rparr>) = Some s3 \<and>
     container s3 (StateItem 1000) = Some (pxReadyTasksLists 3) \<and> regs (dev_chip s3) irq_enable = 0"
proof -
  let ?s = "demo_eth (demo_chip [] [])"
  have f: "uxSchedulerSuspended ?s = 0" "xPendedTicks ?s = 0" "0 < uxCurrentNumberOfTasks ?s" "xRxTaskHandle ?s = pxCurrentTCB ?s"
    "nvalue ?s (pxCurrentTCB ?s) 0 = 0" "container ?s (StateItem 2000) = Some (pxReadyTasksLists 3)" "2000 \<noteq> pxCurrentTCB ?s"
    "eth_irq_allowed (nvic_regs ?s)"
    using demo_eth_irq by (simp_all add: demo_tcbs_def empty_TCB_def)
  have st: "bit (fst (bus_read lan_bus irq_status (chip (demo_dev demo_full)))) 3"
    by (simp add: lan_read_def demo_full_def demo_chip_def bit_iff_odd)
  have en: "CLR_BIT 3 (regs (chip (demo_dev demo_full)) irq_enable) = 0" "pxCurrentTCB ?s = 1000" "prio ?s 1000 = 3"
    by (simp_all add: demo_full_def demo_chip_def CLR_BIT_def demo_tcbs_def)
  show ?thesis
    using interrupt_wakes_receiver [OF demo_eth_inv(1,2) f(1-3) demo_eth_inv(3) f(4-7) lan_irq_hw f(8) st, of idle_lwip 5]
    unfolding en by blast
qed


theorem interface_init_prepares_witness:
  "\<exists>new s'. ethernetif_init_rest lan_bus 77 5 (demo_eth (demo_chip [] [])) = Some (ERR_OK, s') \<and>
     xRxTaskHandle s' = new \<and> container s' (StateItem new) = Some (pxReadyTasksLists 6) \<and> regs (dev_chip s') irq_enable = 8"
proof -
  let ?s = "demo_eth (demo_chip [] [])"
  have "in_task ?s" using demo_in_task(1) [of ?s] demo_eth_inv(1) by simp
  moreover have "has_room (heap ?s) 4233" using demo_room by simp
  ultimately show ?thesis
    using interface_init_prepares [OF _ _ lan_irq_hw, of ?s 8 77 5 88 99 ?s]
    by (simp add: started_def demo_nvic_def priority_masks prigroup_limit_def) blast
qed

end
