(* ===== verification/Spec2Isabelle.thy ===== *)
theory Spec2Isabelle
  imports Sys_Props Blinky_Props FR_Timer_Service FR_Event_Props FR_Stream_Props Printf_Props
    FR_Start_Props FR_Task_Info Ethernet_Tx Ethernet_Isr
begin

text \<open>
  Verification of the FreeRTOS kernel and of the POSIX, lwIP and Ethernet layers of the STM32 simulation
  (\<^verbatim>\<open>src/FreeRTOS/Source\<close> and \<^verbatim>\<open>src/FreeRTOS/Demo/CORTEX_MPS2_QEMU_IAR_GCC\<close>), in the configuration of
  \<^verbatim>\<open>FreeRTOSConfig.h\<close>: one core, preemption with time slicing, 32-bit ticks at 1 kHz, nine priorities,
  heap_4, static and dynamic allocation.

  \<^bold>\<open>The program.\<close> The kernel keeps tasks in lists (\<^verbatim>\<open>list.c\<close>): a ready list per priority, two
  delayed lists, the suspended, pending and terminated lists, and two waiting lists per queue. The
  tick interrupt and the blocking calls move tasks between them (\<^verbatim>\<open>tasks.c\<close>); queues carry items and
  are at the same time the semaphores and mutexes (\<^verbatim>\<open>queue.c\<close>); memory comes from the first-fit heap
  (\<^verbatim>\<open>heap_4.c\<close>). Software timers are served by a task of their own that receives commands through a
  queue (\<^verbatim>\<open>timers.c\<close>), and tasks wait for event bits (\<^verbatim>\<open>event_groups.c\<close>)
  and pass bytes and messages through ring buffers (\<^verbatim>\<open>stream_buffer.c\<close>). On top of these the repository puts a POSIX layer (\<^verbatim>\<open>posix_shim.c\<close>: threads,
  mutexes, semaphores, sleeping), the operating system layer of lwIP (\<^verbatim>\<open>sys_arch.c\<close>), its network
  interface (\<^verbatim>\<open>ethernetif.c\<close>: an interrupt wakes a task that empties the receive FIFO of the
  LAN9118 controller through the driver \<^verbatim>\<open>smsc9220_eth_drv.c\<close>) and the application (\<^verbatim>\<open>main_blinky.c\<close>: worker threads that share a counter under a mutex).

  \<^bold>\<open>Conventions.\<close> A structure of the C code is a record, by address where the code has pointers
  (address 0 is NULL); the state of a component extends the record of the one below it, so every
  kernel operation applies unchanged to the state of the layers above. A fallible operation returns
  an option: \<open>None\<close> is a call that never returns because the system stopped in \<^verbatim>\<open>configASSERT\<close>, in a
  failure hook (an exhausted heap ends in \<^verbatim>\<open>vApplicationMallocFailedHook\<close>, which loops) or in a fault; documented error codes are ordinary results. Loops over linked data are
  \<open>partial_function (option)\<close>, so that not terminating is \<open>None\<close> too, and the properties state that
  they return \<open>Some\<close>: no fuel is used anywhere. A critical section, or a stretch of code with the
  scheduler suspended, is one function; a blocking call is cut into the parts between which
  interrupts and other tasks may act (\<open>_entry\<close>, \<open>_try\<close>, \<open>_wait\<close>, \<open>_block\<close>). Ticks and bitmaps are 32-bit
  words; sizes and counters are naturals with the modulus written out where the code can wrap.

  \<^bold>\<open>Theories.\<close>
  \<^item> \<open>FR_Prelude\<close>: machine types, configuration constants, assertions, generic lemmas.
  \<^item> \<open>FR_List\<close>: \<^verbatim>\<open>list.c\<close> on a linked memory, refined by sequences (\<open>refines\<close>); the locale \<open>ordered_lists\<close>
    states what an ordered list promises and is interpreted on both. Order, insertion and removal,
    the round-robin walk.
  \<^item> \<open>FR_Heap4\<close>: \<^verbatim>\<open>heap_4.c\<close> on block headers, refined by a layout of the heap that tiles it and
    never has two adjacent free blocks; the locale \<open>allocator\<close> states what it promises. First fit, when an
    allocation returns and when it ends in the failed-allocation hook, coalescing, disjointness of
    allocations, statistics.
  \<^item> \<open>FR_Tasks\<close>, \<open>FR_Task_API\<close>, \<open>FR_Task_More\<close>: \<^verbatim>\<open>tasks.c\<close>. \<open>FR_Port\<close>: the critical sections of the
    Cortex-M3 port. \<open>FR_Sched_Inv\<close> has the invariant \<open>sched_inv\<close> and that operations keep it,
    \<open>FR_Scheduler\<close> the scheduling properties, \<open>FR_Create\<close> creation and deletion of tasks, \<open>FR_Task_Info\<close> the
    status of all tasks.
  \<^item> \<open>FR_Queue\<close>: \<^verbatim>\<open>queue.c\<close>. \<open>FR_Ring\<close> has the ring buffer behind a queue, \<open>FR_Event_Inv\<close> the waiting lists,
    \<open>FR_Queue_Props\<close> the locale \<open>bounded_fifo\<close> of a bounded buffer and the non-blocking properties,
    \<open>FR_Queue_Block\<close> blocking and waking, \<open>FR_Timeout\<close> expiry of a wait, \<open>FR_Mutex\<close> recursive mutexes and
    priority inheritance. Queues, mailboxes, POSIX semaphores and recursive mutexes are compared with
    reference runs (\<open>fifo_ref\<close>, \<open>counter_ref\<close>, \<open>lock_ref\<close>): every call of a sequence has the result of
    the reference, refusals included.
  \<^item> \<open>FR_Timers\<close>: \<^verbatim>\<open>timers.c\<close>; \<open>FR_Timer_Props\<close>, \<open>FR_Timer_Service\<close>: expiry times in absolute time across the wrap of the
    tick count.
  \<^item> \<open>FR_Event_Groups\<close>, \<open>FR_Event_Props\<close>: \<^verbatim>\<open>event_groups.c\<close>; which tasks a set of bits wakes, what a wait returns.
  \<^item> \<open>FR_Stream_Buffer\<close>, \<open>FR_Stream_Props\<close>: \<^verbatim>\<open>stream_buffer.c\<close>; the locale \<open>pipe\<close> of a bounded pipe, interpreted on
    stream buffers (bytes) and on message buffers (messages).
  \<^item> \<open>FR_Start\<close>, \<open>FR_Start_Props\<close>: the start of the scheduler (\<^verbatim>\<open>tasks.c\<close>, \<^verbatim>\<open>timers.c\<close>, \<^verbatim>\<open>port.c\<close>, \<^verbatim>\<open>main.c\<close>) with the
    vector table of \<^verbatim>\<open>startup_gcc.c\<close>, and the check of interrupt priorities; the start establishes the
    invariants that the other properties assume.
  \<^item> \<open>Posix_Shim\<close>, \<open>Posix_Props\<close>, \<open>Posix_Sync\<close>: \<^verbatim>\<open>posix_shim.c\<close>, its thread registry, joining, mutexes
    and semaphores.
  \<^item> \<open>Sys_Arch\<close>, \<open>Sys_Props\<close>: \<^verbatim>\<open>sys_arch.c\<close>, mailboxes as bounded buffers and their time-outs.
  \<^item> \<open>Blinky_App\<close>, \<open>Blinky_Props\<close>: \<^verbatim>\<open>main_blinky.c\<close>; the worker threads interleaved by switches and
    ticks of the whole kernel never trap and leave the exact counter.
  \<^item> \<open>Printf_Stdarg\<close>, \<open>Printf_Props\<close>: \<^verbatim>\<open>printf-stdarg.c\<close>; the text that a format prints against a reference on numbers
    and lists, and the bounds of the buffer.

  \<^item> \<open>Smsc9220\<close>, \<open>Smsc9220_Props\<close>: \<^verbatim>\<open>smsc9220_eth_drv.c\<close>, every function of the driver as a
    program over the registers of the controller, with the laws of that program monad.
  \<^item> \<open>Lwip_Pbuf\<close>, \<open>Lwip_Props\<close>: the packet buffers of lwIP (\<^verbatim>\<open>pbuf.c\<close>) and the pools of \<^verbatim>\<open>memp.c\<close> that they come
    from: allocating a packet and releasing it restores the pool, allocation fails exactly when the pool
    is too small and then leaks nothing, data copied into a chain comes out again, what a search finds.
  \<^item> \<open>FR_Notify\<close>: blocking on and giving a task notification. \<open>Ethernet_If\<close>: \<^verbatim>\<open>ethernetif.c\<close>.
    \<open>Ethernet_Props\<close>: while the pool has buffers, received frames reach lwIP once, in order and
    unchanged, and the FIFO is emptied; how many words receiving and discarding take. \<open>Ethernet_Tx\<close>: the
    words that a chain of buffers sends, both command words included. \<open>Ethernet_Isr\<close>: the interrupt wakes
    the receive task and masks itself; the delay callback of the driver blocks its task; what
    initialisation leaves behind once its three sleeping calls are over.

  \<^bold>\<open>Parameters.\<close> Code of the application that the kernel calls (thread routines, timer callbacks,
  pended functions) and addresses chosen by the linker are arguments of the definitions. So are the
  registers of the Ethernet controller (a \<open>bus\<close> that says what a read and a write of a register do) and
  the functions of lwIP outside the packet buffers (the record \<open>lwip\<close>: the heap of \<^verbatim>\<open>mem.c\<close>, the free function
  of a custom buffer, the message to the TCP thread and the input function of an interface); the
  properties name what they rely on of both and are witnessed on a controller with FIFOs, \<open>lan_bus\<close>.

  \<^bold>\<open>Not modelled.\<close> The contents of task stacks and the context switch at register level (assembly),
  trace hooks, the options this build switches off (SMP, MPU, tickless idle,
  co-routines, run-time statistics), the hardware behind the registers, lwIP above its packet buffers and the web
  server that talks to it, and the libraries of the tree that are not linked into this program. The check
  for stack overflow in \<^verbatim>\<open>vTaskSwitchContext\<close> is left out with the stacks. The assertion on the priority of
  the running interrupt (\<^verbatim>\<open>portASSERT_IF_INTERRUPT_PRIORITY_INVALID\<close>) is modelled in \<open>FR_Start\<close> and applied where this
  program calls the kernel from an interrupt, in \<^verbatim>\<open>EthernetISR\<close>; the other functions for interrupts are
  stated for interrupts that pass it. \<^verbatim>\<open>low_level_init\<close> is cut behind each of its three calls that sleep in
  the driver's delay callback: other tasks run during them, and the code behind a call is stated for the
  state found then.
\<close>

end
